(* ===== verification/Destor_Prelude.thy ===== *)
theory Destor_Prelude
  imports Main "HOL-Library.Word" "HOL-Library.Multiset" "HOL-Library.AList"
begin

text \<open>
  Shared vocabulary of the development: machine types, the result type of operations that can
  abort, the list-shaped views of the GLib containers, and the generic list lemmas the
  components use.

  \<^item> \<open>GQueue\<close>, \<open>GList\<close> and \<open>GSequence\<close> are lists, head first.
  \<^item> \<open>GHashTable\<close> is an association list with distinct keys (\<open>map_of\<close>, \<open>AList.update\<close>,
    \<open>AList.delete\<close>). GLib does not specify the order in which \<open>g_hash_table_iter_next\<close> meets
    the entries; wherever that order can be observed it is an argument \<open>iter\<close> of the model, and
    \<open>iter_ok\<close> states what GLib documents: each entry is visited exactly once.
  \<^item> A process that stops in \<open>assert\<close> or \<open>exit(1)\<close>, or dereferences a null or
    out-of-range pointer, ends in \<open>Inl\<close> of a \<open>fault\<close>.
\<close>

unbundle bit_operations_syntax

type_synonym byte = "8 word"
type_synonym fingerprint = "byte list"   \<comment> \<open>20 bytes; \<open>destor.h\<close>\<close>
type_synonym containerid = int
type_synonym segmentid = int

definition TEMPORARY_ID :: int where
  "TEMPORARY_ID = -1"

named_theorems cfg_simps \<open>the numeric constants of the headers\<close>
named_theorems inv_intros \<open>preservation of the components' invariants\<close>

subsection \<open>Results of operations that can abort\<close>

datatype fault = AssertFailed | ExitFailure | NullDeref | OutOfBounds

type_synonym 'a res = "fault + 'a"

definition rbind :: "'a res \<Rightarrow> ('a \<Rightarrow> 'b res) \<Rightarrow> 'b res" where
  "rbind m f = (case m of Inl e \<Rightarrow> Inl e | Inr x \<Rightarrow> f x)"

definition c_assert :: "bool \<Rightarrow> unit res" where
  "c_assert b = (if b then Inr () else Inl AssertFailed)"

lemma rbind_simps [simp]:
  "rbind (Inl e) f = Inl e"
  "rbind (Inr x) f = f x"
  by (simp_all add: rbind_def)

lemma rbind_Inr_iff: "rbind m f = Inr y \<longleftrightarrow> (\<exists>x. m = Inr x \<and> f x = Inr y)"
  by (cases m) auto

lemma c_assert_simps [simp]:
  "c_assert True = Inr ()"
  "c_assert False = Inl AssertFailed"
  by (simp_all add: c_assert_def)

lemma c_assert_Inr_iff: "c_assert b = Inr u \<longleftrightarrow> b"
  by (auto simp: c_assert_def)

lemma rbind_assert: "rbind (c_assert b) f = (if b then f () else Inl AssertFailed)"
  by (simp add: c_assert_def)

text \<open>A loop over a list whose body can abort.\<close>

fun rfold :: "('a \<Rightarrow> 's \<Rightarrow> 's res) \<Rightarrow> 'a list \<Rightarrow> 's \<Rightarrow> 's res" where
  "rfold f [] s = Inr s"
| "rfold f (x # xs) s = rbind (f x s) (rfold f xs)"

lemma rfold_append: "rfold f (xs @ ys) s = rbind (rfold f xs s) (rfold f ys)"
proof (induction xs arbitrary: s)
  case (Cons x xs)
  show ?case by (cases "f x s") (simp_all add: Cons.IH)
qed simp

lemma rfold_inv:
  assumes "\<And>x s s'. x \<in> set xs \<Longrightarrow> I s \<Longrightarrow> f x s = Inr s' \<Longrightarrow> I s'"
    and "I s" and "rfold f xs s = Inr s'"
  shows "I s'"
  using assms
proof (induction xs arbitrary: s)
  case (Cons x xs)
  from Cons.prems(3) obtain t where t: "f x s = Inr t" "rfold f xs t = Inr s'"
    by (auto simp: rbind_Inr_iff)
  have "I t" using Cons.prems(1) [of x s t] Cons.prems(2) t(1) by simp
  then show ?case using Cons.IH [OF _ _ t(2)] Cons.prems(1) by (meson list.set_intros(2))
qed auto

lemma rfold_total:
  assumes "\<And>x s. x \<in> set xs \<Longrightarrow> I s \<Longrightarrow> \<exists>s'. f x s = Inr s' \<and> I s'" and "I s"
  shows "\<exists>s'. rfold f xs s = Inr s' \<and> I s'"
  using assms
proof (induction xs arbitrary: s)
  case (Cons x xs)
  then obtain t where "f x s = Inr t" "I t" by (meson list.set_intros(1))
  with Cons show ?case by (metis list.set_intros(2) rbind_simps(2) rfold.simps(2))
qed simp

subsection \<open>Searching and unlinking in a list\<close>

text \<open>\<open>unlink_first P xs\<close> is the element a head-to-tail search for \<open>P\<close> stops at, with
  the list that remains once its link is taken out; \<open>unlink_last\<close> searches from the tail.\<close>

fun unlink_first :: "('a \<Rightarrow> bool) \<Rightarrow> 'a list \<Rightarrow> ('a \<times> 'a list) option" where
  "unlink_first P [] = None"
| "unlink_first P (x # xs) =
     (if P x then Some (x, xs)
      else map_option (\<lambda>(y, ys). (y, x # ys)) (unlink_first P xs))"

definition unlink_last :: "('a \<Rightarrow> bool) \<Rightarrow> 'a list \<Rightarrow> ('a \<times> 'a list) option" where
  "unlink_last P xs = map_option (\<lambda>(y, ys). (y, rev ys)) (unlink_first P (rev xs))"

lemma unlink_first_None: "unlink_first P xs = None \<longleftrightarrow> (\<forall>x\<in>set xs. \<not> P x)"
  by (induction xs) auto

lemma unlink_first_Some:
  "unlink_first P xs = Some (y, zs) \<Longrightarrow>
   \<exists>us vs. xs = us @ y # vs \<and> zs = us @ vs \<and> P y \<and> (\<forall>u\<in>set us. \<not> P u)"
proof (induction xs arbitrary: zs)
  case (Cons x xs)
  show ?case
  proof (cases "P x")
    case True
    with Cons.prems show ?thesis by (intro exI [of _ "[]"] exI [of _ xs]) auto
  next
    case False
    with Cons.prems obtain ws where ws: "unlink_first P xs = Some (y, ws)" "zs = x # ws"
      by auto
    then obtain us vs where "xs = us @ y # vs \<and> ws = us @ vs \<and> P y \<and> (\<forall>u\<in>set us. \<not> P u)"
      using Cons.IH by blast
    with False ws show ?thesis by (intro exI [of _ "x # us"] exI [of _ vs]) auto
  qed
qed simp

lemma unlink_first_mset: "unlink_first P xs = Some (y, zs) \<Longrightarrow> mset xs = add_mset y (mset zs)"
  by (auto dest!: unlink_first_Some)

lemma unlink_first_length: "unlink_first P xs = Some (y, zs) \<Longrightarrow> length xs = Suc (length zs)"
  by (auto dest!: unlink_first_Some)

lemma unlink_first_sat: "unlink_first P xs = Some (y, zs) \<Longrightarrow> P y \<and> y \<in> set xs"
  by (auto dest!: unlink_first_Some)

lemma unlink_last_None: "unlink_last P xs = None \<longleftrightarrow> (\<forall>x\<in>set xs. \<not> P x)"
  by (simp add: unlink_last_def unlink_first_None)

lemma unlink_last_Some:
  assumes "unlink_last P xs = Some (y, zs)"
  shows "\<exists>us vs. xs = us @ y # vs \<and> zs = us @ vs \<and> P y \<and> (\<forall>v\<in>set vs. \<not> P v)"
proof -
  from assms obtain ws where ws: "unlink_first P (rev xs) = Some (y, ws)" "zs = rev ws"
    by (auto simp: unlink_last_def)
  then obtain us vs where uv: "rev xs = us @ y # vs" "ws = us @ vs" "P y" "\<forall>u\<in>set us. \<not> P u"
    using unlink_first_Some [OF ws(1)] by blast
  from uv(1) have "xs = rev vs @ y # rev us" by (simp add: rev_swap)
  with uv ws(2) show ?thesis by (intro exI [of _ "rev vs"] exI [of _ "rev us"]) auto
qed

lemma unlink_first_map:
  "unlink_first (\<lambda>k. k = a) (map f xs) =
   map_option (\<lambda>(y, ys). (f y, map f ys)) (unlink_first (\<lambda>e. f e = a) xs)"
  by (induction xs) (auto simp: option.map_comp comp_def case_prod_beta)

lemma unlink_first_eq_distinct:
  "distinct ks \<Longrightarrow> unlink_first (\<lambda>k. k = a) ks = (if a \<in> set ks then Some (a, removeAll a ks) else None)"
  by (induction ks) (auto simp: removeAll_id)

subsection \<open>Hash tables\<close>

type_synonym ('k, 'v) htable = "('k \<times> 'v) list"

definition iter_ok :: "(('k, 'v) htable \<Rightarrow> ('k \<times> 'v) list) \<Rightarrow> bool" where
  "iter_ok it \<longleftrightarrow> (\<forall>t. mset (it t) = mset t)"

lemma iter_ok_set: "iter_ok it \<Longrightarrow> set (it t) = set t"
  by (metis iter_ok_def set_mset_mset)

lemma iter_ok_length: "iter_ok it \<Longrightarrow> length (it t) = length t"
  by (metis iter_ok_def size_mset)

lemma iter_ok_distinct: "iter_ok it \<Longrightarrow> distinct (map fst (it t)) = distinct (map fst t)"
  by (metis iter_ok_def mset_eq_imp_distinct_iff mset_map)

lemma iter_ok_map_of:
  assumes "iter_ok it" and "distinct (map fst t)"
  shows "map_of (it t) = map_of t"
  using assms by (metis iter_ok_distinct iter_ok_set map_of_inject_set)

lemma iter_ok_id: "iter_ok (\<lambda>t. t)"
  by (simp add: iter_ok_def)

lemma iter_ok_rev: "iter_ok rev"
  by (simp add: iter_ok_def)

lemma length_update_new: "k \<notin> fst ` set t \<Longrightarrow> AList.update k v t = t @ [(k, v)]"
  by (induction t) auto

lemma length_update_old: "k \<in> fst ` set t \<Longrightarrow> length (AList.update k v t) = length t"
  by (induction t) auto

end
