(* ===== verification/Lru_Cache.thy ===== *)
theory Lru_Cache
  imports Destor_Prelude
begin

text \<open>
  The GList-based cache of \<open>utils/lru_cache.c\<close>. The list runs from the most to the least
  recently used element; the callbacks \<open>hit_elem\<close> and \<open>free_elem\<close> of the struct are
  arguments of the operations that call them (freeing has no effect on the model's values, the
  victim is returned instead). \<open>hit_count\<close> and \<open>miss_count\<close> are C doubles that only count
  up by one: \<open>nat\<close> here.
\<close>

record 'a lruCache =
  elem_queue :: "'a list"
  max_size :: int
  csize :: int
  hit_count :: nat
  miss_count :: nat

definition new_lru_cache :: "int \<Rightarrow> 'a lruCache" where
  "new_lru_cache sz =
     \<lparr>elem_queue = [], max_size = sz, csize = 0, hit_count = 0, miss_count = 0\<rparr>"

definition lru_cache_lookup :: "('a \<Rightarrow> bool) \<Rightarrow> 'a lruCache \<Rightarrow> 'a option \<times> 'a lruCache" where
  "lru_cache_lookup hit c =
     (case unlink_first hit (elem_queue c) of
        Some (e, rest) \<Rightarrow> (Some e, c\<lparr>elem_queue := e # rest, hit_count := Suc (hit_count c)\<rparr>)
      | None \<Rightarrow> (None, c\<lparr>miss_count := Suc (miss_count c)\<rparr>))"

definition lru_cache_lookup_without_update :: "('a \<Rightarrow> bool) \<Rightarrow> 'a lruCache \<Rightarrow> 'a option" where
  "lru_cache_lookup_without_update hit c = map_option fst (unlink_first hit (elem_queue c))"

definition lru_cache_hits :: "('a \<Rightarrow> bool) \<Rightarrow> 'a lruCache \<Rightarrow> 'a option \<times> 'a lruCache" where
  "lru_cache_hits hit c =
     (case unlink_first hit (elem_queue c) of
        Some (e, rest) \<Rightarrow> (Some e, c\<lparr>elem_queue := e # rest\<rparr>)
      | None \<Rightarrow> (None, c))"

text \<open>The victim is returned; \<open>g_list_last\<close> of an empty list is a null pointer that the
  code dereferences.\<close>

definition lru_cache_insert :: "'a lruCache \<Rightarrow> 'a \<Rightarrow> ('a option \<times> 'a lruCache) res" where
  "lru_cache_insert c d =
     (if max_size c > 0 \<and> csize c = max_size c
      then (if elem_queue c = [] then Inl NullDeref
            else Inr (Some (last (elem_queue c)),
                      c\<lparr>elem_queue := d # butlast (elem_queue c), csize := csize c - 1 + 1\<rparr>))
      else Inr (None, c\<lparr>elem_queue := d # elem_queue c, csize := csize c + 1\<rparr>))"

definition lru_cache_kicks :: "('a \<Rightarrow> bool) \<Rightarrow> 'a lruCache \<Rightarrow> 'a option \<times> 'a lruCache" where
  "lru_cache_kicks func c =
     (case unlink_last func (elem_queue c) of
        Some (e, rest) \<Rightarrow> (Some e, c\<lparr>elem_queue := rest, csize := csize c - 1\<rparr>)
      | None \<Rightarrow> (None, c))"

definition lru_cache_is_full :: "'a lruCache \<Rightarrow> bool" where
  "lru_cache_is_full c = (if max_size c < 0 then False else csize c \<ge> max_size c)"

subsection \<open>The invariant\<close>

definition lru_inv :: "'a lruCache \<Rightarrow> bool" where
  "lru_inv c \<longleftrightarrow> csize c = int (length (elem_queue c)) \<and> (max_size c > 0 \<longrightarrow> csize c \<le> max_size c)"

lemma lru_inv_new [inv_intros]: "lru_inv (new_lru_cache n)"
  by (simp add: lru_inv_def new_lru_cache_def)

lemma lru_inv_lookup [inv_intros]:
  "lru_inv c \<Longrightarrow> lru_inv (snd (lru_cache_lookup hit c))"
  by (auto simp: lru_inv_def lru_cache_lookup_def dest: unlink_first_length split: option.splits)

lemma lru_inv_hits [inv_intros]:
  "lru_inv c \<Longrightarrow> lru_inv (snd (lru_cache_hits hit c))"
  by (auto simp: lru_inv_def lru_cache_hits_def dest: unlink_first_length split: option.splits)

lemma lru_inv_kicks [inv_intros]:
  "lru_inv c \<Longrightarrow> lru_inv (snd (lru_cache_kicks f c))"
  by (auto simp: lru_inv_def lru_cache_kicks_def dest!: unlink_last_Some split: option.splits)

lemma lru_insert_ok:
  assumes "lru_inv c"
  shows "\<exists>v c'. lru_cache_insert c d = Inr (v, c') \<and> lru_inv c'"
  using assms by (auto simp: lru_inv_def lru_cache_insert_def)

lemma lru_insert_shape:
  assumes "lru_inv c"
  shows "\<exists>v c'. lru_cache_insert c d = Inr (v, c') \<and> lru_inv c' \<and> max_size c' = max_size c \<and>
     elem_queue c' = (if max_size c > 0 then take (nat (max_size c)) (d # elem_queue c)
                      else d # elem_queue c)"
proof (cases "max_size c > 0 \<and> csize c = max_size c")
  case True
  with assms have ne: "elem_queue c \<noteq> []" and len: "nat (max_size c) = length (elem_queue c)"
    by (auto simp: lru_inv_def)
  from ne have "take (length (elem_queue c)) (d # elem_queue c) = d # butlast (elem_queue c)"
    by (cases "elem_queue c" rule: rev_cases) (simp_all add: take_Cons' )
  with True assms ne len show ?thesis
    by (auto simp: lru_inv_def lru_cache_insert_def)
next
  case False
  with assms show ?thesis
    by (auto simp: lru_inv_def lru_cache_insert_def)
qed

subsection \<open>The contract: the most recently used keys\<close>

text \<open>\<open>lru_access\<close> is the pattern every client of the cache uses: look the key up, and read
  and insert the element on a miss.\<close>

definition lru_access :: "('a \<Rightarrow> 'k) \<Rightarrow> ('k \<Rightarrow> 'a) \<Rightarrow> 'k \<Rightarrow> 'a lruCache \<Rightarrow> 'a lruCache res" where
  "lru_access key load k c =
     (case lru_cache_lookup (\<lambda>e. key e = k) c of
        (Some e, c') \<Rightarrow> Inr c'
      | (None, c') \<Rightarrow> rbind (lru_cache_insert c' (load k)) (\<lambda>(v, c''). Inr c''))"

fun recency :: "'k list \<Rightarrow> 'k list" where   \<comment> \<open>keys of a reversed access sequence, latest first\<close>
  "recency [] = []"
| "recency (k # ks) = k # removeAll k (recency ks)"

lemma distinct_recency: "distinct (recency ks)"
  by (induction ks) (auto simp: distinct_removeAll)

lemma take_removeAll_in:
  assumes "distinct ks" and "a \<in> set (take n ks)"
  shows "a # removeAll a (take n ks) = take n (a # removeAll a ks)"
  using assms
proof (induction ks arbitrary: n)
  case (Cons x ks)
  then obtain m where n: "n = Suc m" by (cases n) auto
  show ?case
  proof (cases "x = a")
    case True
    with Cons.prems(1) have "removeAll a ks = ks" by (simp add: removeAll_id)
    moreover from True Cons.prems(1) have "a \<notin> set (take m ks)"
      by (auto dest: in_set_takeD)
    ultimately show ?thesis using True n by (simp add: removeAll_id)
  next
    case False
    with Cons n have "a \<in> set (take m ks)" by auto
    moreover from this obtain j where j: "m = Suc j" by (cases m) auto
    ultimately show ?thesis using Cons.IH [of m] Cons.prems False n by simp
  qed
qed simp

lemma take_removeAll_notin:
  "distinct ks \<Longrightarrow> a \<notin> set (take n ks) \<Longrightarrow> take n (a # take n ks) = take n (a # removeAll a ks)"
proof (induction ks arbitrary: n)
  case (Cons x ks)
  show ?case
  proof (cases n)
    case (Suc m)
    with Cons.prems have "x \<noteq> a" "a \<notin> set (take m ks)" by auto
    with Cons Suc have "take m (a # take m ks) = take m (a # removeAll a ks)" by simp
    with \<open>x \<noteq> a\<close> Suc show ?thesis
      by (cases m) (simp_all add: min_def)
  qed simp
qed simp

lemma lru_access_step:
  assumes inv: "lru_inv c" and cap: "max_size c = int n" "0 < n"
    and key: "\<And>k. key (load k) = k"
    and keys: "map key (elem_queue c) = take n ks" and dist: "distinct ks"
  shows "\<exists>c'. lru_access key load k c = Inr c' \<and> lru_inv c' \<and> max_size c' = int n \<and>
              map key (elem_queue c') = take n (k # removeAll k ks)"
proof (cases "unlink_first (\<lambda>e. key e = k) (elem_queue c)")
  case None
  then have notin: "k \<notin> set (take n ks)"
    by (metis (mono_tags, lifting) image_iff keys list.set_map unlink_first_None)
  let ?c = "c\<lparr>miss_count := Suc (miss_count c)\<rparr>"
  have inv': "lru_inv ?c" using inv by (auto simp: lru_inv_def)
  obtain v c' where c': "lru_cache_insert ?c (load k) = Inr (v, c')" "lru_inv c'"
      "max_size c' = int n" "elem_queue c' = take n (load k # elem_queue c)"
    using lru_insert_shape [OF inv', of "load k"] cap by auto
  have "map key (elem_queue c') = take n (k # take n ks)"
    by (simp add: c'(4) key take_map [symmetric] keys)
  also have "\<dots> = take n (k # removeAll k ks)"
    by (rule take_removeAll_notin [OF dist notin])
  finally show ?thesis using None c' by (simp add: lru_access_def lru_cache_lookup_def)
next
  case (Some p)
  obtain e rest where p: "p = (e, rest)" by (cases p)
  have uf: "unlink_first (\<lambda>x. x = k) (take n ks) = Some (key e, map key rest)"
    unfolding keys [symmetric] unlink_first_map using Some p by simp
  have dt: "distinct (take n ks)" using dist by simp
  from uf unlink_first_eq_distinct [OF dt, of k]
  have k: "k \<in> set (take n ks)" "key e = k" "map key rest = removeAll k (take n ks)"
    by (auto split: if_splits)
  let ?c' = "c\<lparr>elem_queue := e # rest, hit_count := Suc (hit_count c)\<rparr>"
  have l: "lru_cache_lookup (\<lambda>e. key e = k) c = (Some e, ?c')"
    using Some p by (simp add: lru_cache_lookup_def)
  have "lru_inv ?c'" using lru_inv_lookup [OF inv, of "\<lambda>e. key e = k"] l by simp
  moreover have "map key (elem_queue ?c') = take n (k # removeAll k ks)"
    using k take_removeAll_in [OF dist k(1)] by simp
  ultimately show ?thesis using l cap by (simp add: lru_access_def)
qed

text \<open>C16: whatever the sequence of accesses (look up, and insert on a miss), a cache of capacity n never faults and holds exactly the n most recently accessed distinct keys, latest first.\<close>

lemma lru_run_recency:
  assumes key: "\<And>k. key (load k) = k" and n: "0 < n"
  shows "\<exists>c. rfold (lru_access key load) ks (new_lru_cache (int n)) = Inr c \<and> lru_inv c \<and>
             max_size c = int n \<and> map key (elem_queue c) = take n (recency (rev ks))"
proof (induction ks rule: rev_induct)
  case Nil
  show ?case by (simp add: lru_inv_new) (simp add: new_lru_cache_def)
next
  case (snoc k ks)
  then obtain c where c: "rfold (lru_access key load) ks (new_lru_cache (int n)) = Inr c"
    "lru_inv c" "max_size c = int n" "map key (elem_queue c) = take n (recency (rev ks))" by blast
  obtain c' where "lru_access key load k c = Inr c'" "lru_inv c'" "max_size c' = int n"
    "map key (elem_queue c') = take n (k # removeAll k (recency (rev ks)))"
    using lru_access_step [where key = key and load = load, OF c(2,3) n key c(4) distinct_recency]
    by blast
  with c(1) show ?case by (simp add: rfold_append)
qed

lemma lru_run_recency_witness:
  "\<exists>c. rfold (lru_access (\<lambda>e. e) (\<lambda>k. k)) [1, 2, 3, 1] (new_lru_cache (int 2)) = Inr c \<and> lru_inv c \<and>
       max_size c = int 2 \<and> map (\<lambda>e. e) (elem_queue c) = take 2 (recency (rev [1 :: int, 2, 3, 1]))"
  by (rule lru_run_recency [of "\<lambda>e. e" "\<lambda>k. k" 2 "[1 :: int, 2, 3, 1]"]) simp_all

end
