(* ===== verification/Queue_Heap.thy ===== *)
theory Queue_Heap
  imports Destor_Prelude
begin

text \<open>
  The singly linked queue of \<open>utils/queue.c\<close>, at the level of its pointers: a record of the
  struct with the part of the C heap that holds its elements. Addresses are natural numbers,
  \<open>None\<close> is the null pointer. What \<open>malloc\<close> returned is an argument of \<open>queue_push\<close>
  (\<open>None\<close> for a failed allocation). The refinement lemmas relate it to a list, and the locale
  \<open>fifo\<close> is the contract the synchronised queue relies on.
\<close>

record 'a queue_ele =
  ele_next :: "nat option"
  ele_data :: 'a

record 'a Queue =
  q_first :: "nat option"
  q_last :: "nat option"
  elem_num :: int
  q_heap :: "nat \<Rightarrow> 'a queue_ele option"

definition queue_new :: "'a Queue" where
  "queue_new = \<lparr>q_first = None, q_last = None, elem_num = 0, q_heap = Map.empty\<rparr>"

definition queue_init :: "'a Queue \<Rightarrow> 'a Queue" where
  "queue_init q = q\<lparr>q_first := None, q_last := None, elem_num := 0\<rparr>"

definition queue_push :: "nat option \<Rightarrow> 'a Queue \<Rightarrow> 'a \<Rightarrow> 'a Queue res" where
  "queue_push m q x =
     (case m of
        None \<Rightarrow> Inr q
      | Some a \<Rightarrow>
         (let h = (q_heap q)(a \<mapsto> \<lparr>ele_next = None, ele_data = x\<rparr>) in
          if q_first q = None
          then Inr (q\<lparr>q_heap := h, q_first := Some a, q_last := Some a, elem_num := elem_num q + 1\<rparr>)
          else (case q_last q of
                  None \<Rightarrow> Inl NullDeref
                | Some l \<Rightarrow>
                   (case h l of
                      None \<Rightarrow> Inl NullDeref
                    | Some e \<Rightarrow> Inr (q\<lparr>q_heap := h(l \<mapsto> e\<lparr>ele_next := Some a\<rparr>), q_last := Some a,
                                      elem_num := elem_num q + 1\<rparr>)))))"

definition queue_pop :: "'a Queue \<Rightarrow> ('a option \<times> 'a Queue) res" where
  "queue_pop q =
     (if elem_num q = 0 then Inr (None, q)
      else case q_first q of
             None \<Rightarrow> Inl NullDeref
           | Some a \<Rightarrow>
              (case q_heap q a of
                 None \<Rightarrow> Inl NullDeref
               | Some e \<Rightarrow>
                   Inr (Some (ele_data e),
                        q\<lparr>q_first := ele_next e,
                          q_last := (if q_last q = Some a then None else q_last q),
                          elem_num := elem_num q - 1,
                          q_heap := (q_heap q)(a := None)\<rparr>)))"

definition queue_top :: "'a Queue \<Rightarrow> 'a option res" where
  "queue_top q =
     (if elem_num q = 0 then Inr None
      else case q_first q of
             None \<Rightarrow> Inl NullDeref
           | Some a \<Rightarrow> (case q_heap q a of None \<Rightarrow> Inl NullDeref | Some e \<Rightarrow> Inr (Some (ele_data e))))"

definition queue_size :: "'a Queue \<Rightarrow> int" where
  "queue_size q = elem_num q"

text \<open>\<open>queue_empty\<close> pops until \<open>elem_num\<close> is zero; each turn lowers \<open>elem_num\<close> by one,
  so \<open>elem_num\<close> turns are its exact number. The freed data are returned in order.\<close>

fun queue_empty_loop :: "nat \<Rightarrow> 'a Queue \<Rightarrow> ('a list \<times> 'a Queue) res" where
  "queue_empty_loop 0 q = Inr ([], q)"
| "queue_empty_loop (Suc n) q =
     rbind (queue_pop q) (\<lambda>(x, q').
       rbind (queue_empty_loop n q') (\<lambda>(xs, q''). Inr ((case x of None \<Rightarrow> xs | Some y \<Rightarrow> y # xs), q'')))"

definition queue_empty :: "'a Queue \<Rightarrow> ('a list \<times> 'a Queue) res" where
  "queue_empty q = queue_empty_loop (nat (elem_num q)) q"

text \<open>The pointer walks: \<open>None\<close> is a walk that never ends (a cyclic list).\<close>

partial_function (option) foreach_loop ::
  "(nat \<Rightarrow> 'a queue_ele option) \<Rightarrow> ('a \<Rightarrow> 's \<Rightarrow> 's) \<Rightarrow> nat option \<Rightarrow> 's \<Rightarrow> 's res option" where
  "foreach_loop h f item s =
     (case item of
        None \<Rightarrow> Some (Inr s)
      | Some a \<Rightarrow> (case h a of
          None \<Rightarrow> Some (Inl NullDeref)
        | Some e \<Rightarrow> foreach_loop h f (ele_next e) (f (ele_data e) s)))"

definition queue_foreach :: "('a \<Rightarrow> 's \<Rightarrow> 's) \<Rightarrow> 'a Queue \<Rightarrow> 's \<Rightarrow> 's res option" where
  "queue_foreach f q s = (if elem_num q = 0 then Some (Inr s) else foreach_loop (q_heap q) f (q_first q) s)"

partial_function (option) find_loop ::
  "(nat \<Rightarrow> 'a queue_ele option) \<Rightarrow> ('a \<Rightarrow> bool) \<Rightarrow> nat option \<Rightarrow> 'a option res option" where
  "find_loop h hit item =
     (case item of
        None \<Rightarrow> Some (Inr None)
      | Some a \<Rightarrow> (case h a of
          None \<Rightarrow> Some (Inl NullDeref)
        | Some e \<Rightarrow> if hit (ele_data e) then Some (Inr (Some (ele_data e)))
                    else find_loop h hit (ele_next e)))"

definition queue_find :: "('a \<Rightarrow> bool) \<Rightarrow> 'a Queue \<Rightarrow> 'a option res option" where
  "queue_find hit q =
     (if elem_num q = 0 then Some (Inr None)
      else if q_first q = None then Some (Inl NullDeref)   \<comment> \<open>the do-while reads before it tests\<close>
      else find_loop (q_heap q) hit (q_first q))"

fun get_n_loop :: "(nat \<Rightarrow> 'a queue_ele option) \<Rightarrow> nat \<Rightarrow> nat option \<Rightarrow> 'a res" where
  "get_n_loop h n None = Inl NullDeref"
| "get_n_loop h 0 (Some a) = (case h a of None \<Rightarrow> Inl NullDeref | Some e \<Rightarrow> Inr (ele_data e))"
| "get_n_loop h (Suc n) (Some a) =
     (case h a of None \<Rightarrow> Inl NullDeref | Some e \<Rightarrow> get_n_loop h n (ele_next e))"

definition queue_get_n :: "'a Queue \<Rightarrow> int \<Rightarrow> 'a option res" where
  "queue_get_n q n =
     (if n \<ge> queue_size q then Inr None
      else rbind (get_n_loop (q_heap q) (nat n) (q_first q)) (\<lambda>x. Inr (Some x)))"

subsection \<open>Representation of a list\<close>

fun chain :: "(nat \<Rightarrow> 'a queue_ele option) \<Rightarrow> nat option \<Rightarrow> nat list \<Rightarrow> 'a list \<Rightarrow> bool" where
  "chain h p [] [] \<longleftrightarrow> p = None"
| "chain h p (a # as) (x # xs) \<longleftrightarrow>
     p = Some a \<and> (\<exists>n. h a = Some \<lparr>ele_next = n, ele_data = x\<rparr> \<and> chain h n as xs)"
| "chain h p _ _ \<longleftrightarrow> False"

definition queue_rep :: "'a Queue \<Rightarrow> nat list \<Rightarrow> 'a list \<Rightarrow> bool" where
  "queue_rep q as xs \<longleftrightarrow>
     chain (q_heap q) (q_first q) as xs \<and> distinct as \<and> dom (q_heap q) = set as \<and>
     elem_num q = int (length xs) \<and> q_last q = (if as = [] then None else Some (last as))"

lemma chain_length: "chain h p as xs \<Longrightarrow> length as = length xs"
  by (induction h p as xs rule: chain.induct) auto

lemma chain_upd: "a \<notin> set as \<Longrightarrow> chain (h(a := v)) p as xs = chain h p as xs"
  by (induction h p as xs rule: chain.induct) auto

lemma chain_None: "chain h None as xs \<longleftrightarrow> as = [] \<and> xs = []"
  by (cases as; cases xs) auto

lemma chain_snoc:
  assumes "chain h p as xs" and "as \<noteq> []" and "distinct as" and "a \<notin> set as"
  shows "\<exists>e. h (last as) = Some e \<and> ele_next e = None \<and>
    chain (h(a \<mapsto> \<lparr>ele_next = None, ele_data = x\<rparr>, last as \<mapsto> e\<lparr>ele_next := Some a\<rparr>)) p (as @ [a]) (xs @ [x])"
  using assms
proof (induction h p as xs rule: chain.induct)
  case (2 h p b bs y ys)
  then obtain n where n: "p = Some b" "h b = Some \<lparr>ele_next = n, ele_data = y\<rparr>" "chain h n bs ys" by auto
  show ?case
  proof (cases "bs = []")
    case True
    with 2 n show ?thesis by (cases ys) (auto)
  next
    case False
    have "distinct bs" "a \<notin> set bs" using "2.prems" by auto
    then obtain e where e: "h (last bs) = Some e" "ele_next e = None"
      "chain (h(a \<mapsto> \<lparr>ele_next = None, ele_data = x\<rparr>, last bs \<mapsto> e\<lparr>ele_next := Some a\<rparr>)) n (bs @ [a]) (ys @ [x])"
      using "2.IH" [OF n(3) False] by blast
    from False 2 have "b \<noteq> last bs" "b \<noteq> a" by auto
    with n have "(h(a \<mapsto> \<lparr>ele_next = None, ele_data = x\<rparr>, last bs \<mapsto> e\<lparr>ele_next := Some a\<rparr>)) b
        = Some \<lparr>ele_next = n, ele_data = y\<rparr>" by simp
    with e n(1) False show ?thesis by (auto simp del: fun_upd_apply)
  qed
qed auto

lemma queue_rep_new: "queue_rep queue_new [] []"
  by (simp add: queue_rep_def queue_new_def)

lemma queue_push_rep:
  assumes "queue_rep q as xs" and fresh: "q_heap q a = None"
  shows "\<exists>q'. queue_push (Some a) q x = Inr q' \<and> queue_rep q' (as @ [a]) (xs @ [x])"
proof -
  from assms have notin: "a \<notin> set as" by (auto simp: queue_rep_def)
  show ?thesis
  proof (cases "as = []")
    case True
    with assms have "xs = []" "q_first q = None"
      by (cases xs; auto simp: queue_rep_def)+
    with True assms show ?thesis by (auto simp: queue_rep_def queue_push_def)
  next
    case False
    with assms obtain e where e: "q_heap q (last as) = Some e" "ele_next e = None"
      "chain ((q_heap q)(a \<mapsto> \<lparr>ele_next = None, ele_data = x\<rparr>, last as \<mapsto> e\<lparr>ele_next := Some a\<rparr>))
         (q_first q) (as @ [a]) (xs @ [x])"
      using chain_snoc [of "q_heap q" "q_first q" as xs a x] notin by (auto simp: queue_rep_def)
    from False assms have "q_first q \<noteq> None"
      using chain_None [of "q_heap q" as xs] by (metis queue_rep_def)
    moreover from False notin have "last as \<noteq> a" by auto
    moreover have "insert (last as) (insert a (set as)) = set (as @ [a])"
      using last_in_set [OF False] by auto
    moreover have "last as \<noteq> a" using last_in_set [OF False] notin by auto
    moreover have "q_last q = Some (last as)" "elem_num q = int (length xs)"
      "dom (q_heap q) = set as" "distinct as"
      using assms(1) False by (simp_all add: queue_rep_def)
    ultimately show ?thesis using e False notin
      by (auto simp: queue_rep_def queue_push_def Let_def simp del: fun_upd_apply
            intro!: exI simp: fun_upd_other [of "last as" a])
  qed
qed

lemma queue_pop_rep:
  assumes "queue_rep q as (x # xs)"
  shows "\<exists>q' bs. queue_pop q = Inr (Some x, q') \<and> queue_rep q' bs xs"
proof -
  from assms obtain a bs n where a: "as = a # bs" "q_first q = Some a"
    "q_heap q a = Some \<lparr>ele_next = n, ele_data = x\<rparr>" "chain (q_heap q) n bs xs"
    by (cases as) (auto simp: queue_rep_def)
  from assms a have "a \<notin> set bs" by (auto simp: queue_rep_def)
  moreover from assms a have "last bs = a \<Longrightarrow> bs = []"
    by (metis \<open>a \<notin> set bs\<close> last_in_set)
  ultimately show ?thesis using assms a
    by (auto simp: queue_rep_def queue_pop_def chain_upd intro!: exI [of _ bs])
qed

lemma foreach_chain: "chain h p as xs \<Longrightarrow> foreach_loop h f p s = Some (Inr (fold f xs s))"
  by (induction h p as xs arbitrary: s rule: chain.induct) (auto simp: foreach_loop.simps)

lemma find_chain: "chain h p as xs \<Longrightarrow> find_loop h hit p = Some (Inr (find hit xs))"
  by (induction h p as xs rule: chain.induct) (auto simp: find_loop.simps)

lemma get_n_chain: "chain h p as xs \<Longrightarrow> n < length xs \<Longrightarrow> get_n_loop h n p = Inr (xs ! n)"
proof (induction h p as xs arbitrary: n rule: chain.induct)
  case (2 h p a as x xs)
  then show ?case by (cases n) auto
qed auto

subsection \<open>The abstraction function\<close>

fun q_walk :: "nat \<Rightarrow> (nat \<Rightarrow> 'a queue_ele option) \<Rightarrow> nat option \<Rightarrow> 'a list" where
  "q_walk (Suc n) h (Some a) = (case h a of None \<Rightarrow> [] | Some e \<Rightarrow> ele_data e # q_walk n h (ele_next e))"
| "q_walk _ h _ = []"

definition queue_list :: "'a Queue \<Rightarrow> 'a list" where
  "queue_list q = q_walk (nat (elem_num q)) (q_heap q) (q_first q)"

definition queue_inv :: "'a Queue \<Rightarrow> bool" where
  "queue_inv q \<longleftrightarrow> (\<exists>as xs. queue_rep q as xs)"

lemma q_walk_chain: "chain h p as xs \<Longrightarrow> q_walk (length xs) h p = xs"
  by (induction h p as xs rule: chain.induct) auto

lemma queue_list_rep: "queue_rep q as xs \<Longrightarrow> queue_list q = xs"
  by (auto simp: queue_list_def queue_rep_def q_walk_chain)

lemma queue_inv_rep: "queue_inv q \<longleftrightarrow> (\<exists>as. queue_rep q as (queue_list q))"
  using queue_list_rep by (auto simp: queue_inv_def)

subsection \<open>The contract\<close>

locale fifo =
  fixes push :: "'m \<Rightarrow> 'q \<Rightarrow> 'a \<Rightarrow> 'q res"
    and pop :: "'q \<Rightarrow> ('a option \<times> 'q) res"
    and size :: "'q \<Rightarrow> int"
    and abs :: "'q \<Rightarrow> 'a list"
    and inv :: "'q \<Rightarrow> bool"
    and fresh :: "'q \<Rightarrow> 'm \<Rightarrow> bool"
  assumes push_ok: "inv q \<Longrightarrow> fresh q m \<Longrightarrow> \<exists>q'. push m q x = Inr q' \<and> inv q' \<and> abs q' = abs q @ [x]"
    and pop_nil: "inv q \<Longrightarrow> abs q = [] \<Longrightarrow> pop q = Inr (None, q)"
    and pop_cons: "inv q \<Longrightarrow> abs q = x # xs \<Longrightarrow> \<exists>q'. pop q = Inr (Some x, q') \<and> inv q' \<and> abs q' = xs"
    and size_ok: "inv q \<Longrightarrow> size q = int (length (abs q))"
begin

lemma size_zero_iff: "inv q \<Longrightarrow> size q = 0 \<longleftrightarrow> abs q = []"
  by (simp add: size_ok)

lemma pop_total:
  "inv q \<Longrightarrow> \<exists>q'. pop q = Inr ((if abs q = [] then None else Some (hd (abs q))), q') \<and> inv q' \<and> abs q' = tl (abs q)"
  by (cases "abs q") (auto simp: pop_nil dest: pop_cons)

fun drain :: "nat \<Rightarrow> 'q \<Rightarrow> ('a option list \<times> 'q) res" where
  "drain 0 q = Inr ([], q)"
| "drain (Suc n) q = rbind (pop q) (\<lambda>(x, q'). rbind (drain n q') (\<lambda>(xs, q''). Inr (x # xs, q'')))"

lemma drain_all: "inv q \<Longrightarrow> \<exists>q'. drain (length (abs q)) q = Inr (map Some (abs q), q') \<and> inv q' \<and> abs q' = []"
proof (induction "abs q" arbitrary: q)
  case Nil
  from Nil(1) [symmetric] Nil(2) show ?case by simp
next
  case (Cons x xs)
  from Cons(2) have e: "abs q = x # xs" by simp
  then obtain q' where q': "pop q = Inr (Some x, q')" "inv q'" "abs q' = xs"
    using pop_cons [OF Cons(3), of x xs] by blast
  from Cons(1) [of q'] q' obtain q'' where
    "drain (length xs) q' = Inr (map Some xs, q'')" "inv q''" "abs q'' = []" by auto
  with q'(1) e show ?case by simp
qed

end

definition malloc_fresh :: "'a Queue \<Rightarrow> nat option \<Rightarrow> bool" where
  "malloc_fresh q m \<longleftrightarrow> (\<exists>a. m = Some a \<and> q_heap q a = None)"

interpretation hq: fifo queue_push queue_pop queue_size queue_list queue_inv malloc_fresh
proof
  fix q :: "'a Queue" and m x
  assume inv: "queue_inv q" and "malloc_fresh q m"
  from inv obtain as where as: "queue_rep q as (queue_list q)" unfolding queue_inv_rep ..
  from \<open>malloc_fresh q m\<close> obtain a where a: "m = Some a" "q_heap q a = None"
    unfolding malloc_fresh_def by blast
  from queue_push_rep [OF as a(2), of x] obtain q' where
    q': "queue_push m q x = Inr q'" "queue_rep q' (as @ [a]) (queue_list q @ [x])"
    unfolding a(1) by blast
  then have "queue_inv q' \<and> queue_list q' = queue_list q @ [x]"
    using queue_list_rep [OF q'(2)] by (auto simp only: queue_inv_def)
  with q'(1) show "\<exists>q'. queue_push m q x = Inr q' \<and> queue_inv q' \<and> queue_list q' = queue_list q @ [x]"
    by blast
next
  fix q :: "'a Queue"
  assume "queue_inv q" and "queue_list q = []"
  then have "elem_num q = 0" by (auto simp: queue_inv_rep queue_rep_def)
  then show "queue_pop q = Inr (None, q)" by (simp add: queue_pop_def)
next
  fix q :: "'a Queue" and x xs
  assume inv: "queue_inv q" and l: "queue_list q = x # xs"
  from inv obtain as where as: "queue_rep q as (x # xs)" unfolding queue_inv_rep l ..
  from queue_pop_rep [OF as] obtain q' bs where
    q': "queue_pop q = Inr (Some x, q')" "queue_rep q' bs xs" by blast
  then have "queue_inv q' \<and> queue_list q' = xs"
    using queue_list_rep [OF q'(2)] by (auto simp only: queue_inv_def)
  with q'(1) show "\<exists>q'. queue_pop q = Inr (Some x, q') \<and> queue_inv q' \<and> queue_list q' = xs"
    by blast
next
  fix q :: "'a Queue"
  assume "queue_inv q"
  then show "queue_size q = int (length (queue_list q))"
    by (auto simp: queue_inv_rep queue_rep_def queue_size_def)
qed

lemma queue_inv_new: "queue_inv queue_new" and queue_list_new: "queue_list queue_new = []"
  using queue_rep_new queue_list_rep by (auto simp: queue_inv_def)

subsection \<open>Properties\<close>

text \<open>Popping a well-formed linked queue once per element succeeds every time, delivers exactly the
  elements it represents in order, and leaves a well-formed empty queue.\<close>

theorem queue_drains:
  assumes "queue_inv q"
  shows "\<exists>q'. hq.drain (length (queue_list q)) q = Inr (map Some (queue_list q), q') \<and> queue_inv q' \<and> queue_list q' = []"
  by (rule hq.drain_all [OF assms])

theorem queue_drains_witness:
  "\<exists>q'. hq.drain (length (queue_list (queue_new :: nat Queue))) queue_new = Inr (map Some (queue_list (queue_new :: nat Queue)), q') \<and>
     queue_inv q' \<and> queue_list q' = []"
  by (rule queue_drains [OF queue_inv_new])

end
