(* ===== verification/Sync_Queue.thy ===== *)
theory Sync_Queue
  imports Queue_Heap
begin

text \<open>
  The bounded producer/consumer queue of \<open>utils/sync_queue.c\<close>. Every operation holds the mutex
  from entry to return, except while it sleeps in \<open>pthread_cond_wait\<close>; so an operation is one
  atomic step from the lock to its return or its wait, and a resumption is another from the test of
  the \<open>while\<close>. A condition variable is the set of the threads asleep on it: a wait enters the
  caller, a broadcast empties the set, and a thread resumes only when it is in neither set. The
  outcome \<open>SqWait\<close> is the call going to sleep. \<open>sq_step\<close> interleaves any number of threads,
  with spurious wake-ups and failing allocations; failures of the pthread calls themselves are not
  modelled.
\<close>

record 'a SyncQueue =
  sq_queue :: "'a Queue"
  sq_max_size :: int
  sq_term :: bool
  sq_max_work :: "nat set"    \<comment> \<open>threads asleep on \<open>max_work\<close>\<close>
  sq_min_work :: "nat set"    \<comment> \<open>threads asleep on \<open>min_work\<close>\<close>

datatype 'r outcome = SqReturn 'r | SqWait

definition cond_wait :: "nat \<Rightarrow> nat set \<Rightarrow> nat set" where
  "cond_wait t w = insert t w"

definition cond_broadcast :: "nat set \<Rightarrow> nat set" where
  "cond_broadcast w = {}"

definition sync_queue_new :: "int \<Rightarrow> 'a SyncQueue" where
  "sync_queue_new n =
     \<lparr>sq_queue = queue_new, sq_max_size = n, sq_term = False, sq_max_work = {}, sq_min_work = {}\<rparr>"

definition sync_queue_size :: "'a SyncQueue \<Rightarrow> int" where
  "sync_queue_size s = queue_size (sq_queue s)"

text \<open>From the test of the loop in \<open>sync_queue_push\<close> on: where a woken producer resumes. The
  first argument is the calling thread, the second what \<open>malloc\<close> returns; when it fails,
  \<open>queue_push\<close> loses the item and the broadcast happens all the same.\<close>

definition sync_queue_push_loop ::
  "nat \<Rightarrow> nat option \<Rightarrow> 'a SyncQueue \<Rightarrow> 'a \<Rightarrow> (unit outcome \<times> 'a SyncQueue) res" where
  "sync_queue_push_loop t m s x =
     (if sq_max_size s > 0 \<and> queue_size (sq_queue s) \<ge> sq_max_size s
      then Inr (SqWait, s\<lparr>sq_max_work := cond_wait t (sq_max_work s)\<rparr>)
      else rbind (queue_push m (sq_queue s) x) (\<lambda>q.
        Inr (SqReturn (), s\<lparr>sq_queue := q, sq_min_work := cond_broadcast (sq_min_work s)\<rparr>)))"

definition sync_queue_push ::
  "nat \<Rightarrow> nat option \<Rightarrow> 'a SyncQueue \<Rightarrow> 'a \<Rightarrow> (unit outcome \<times> 'a SyncQueue) res" where
  "sync_queue_push t m s x =
     (if sq_term s then Inr (SqReturn (), s) else sync_queue_push_loop t m s x)"

text \<open>In \<open>sync_queue_pop\<close> and \<open>sync_queue_get_top\<close> nothing comes before the loop: a woken
  consumer resumes with the whole body.\<close>

definition sync_queue_pop :: "nat \<Rightarrow> 'a SyncQueue \<Rightarrow> ('a option outcome \<times> 'a SyncQueue) res" where
  "sync_queue_pop t s =
     (if queue_size (sq_queue s) = 0
      then (if sq_term s then Inr (SqReturn None, s)
            else Inr (SqWait, s\<lparr>sq_min_work := cond_wait t (sq_min_work s)\<rparr>))
      else rbind (queue_pop (sq_queue s)) (\<lambda>(x, q).
        Inr (SqReturn x, s\<lparr>sq_queue := q, sq_max_work := cond_broadcast (sq_max_work s)\<rparr>)))"

definition sync_queue_term :: "'a SyncQueue \<Rightarrow> 'a SyncQueue" where
  "sync_queue_term s = s\<lparr>sq_term := True, sq_min_work := cond_broadcast (sq_min_work s)\<rparr>"

definition sync_queue_find ::
  "('a \<Rightarrow> bool) \<Rightarrow> ('a \<Rightarrow> 'b) \<Rightarrow> 'a SyncQueue \<Rightarrow> 'b option res option" where
  "sync_queue_find hit dup s =
     map_option (\<lambda>r. rbind r (\<lambda>x. Inr (map_option dup x))) (queue_find hit (sq_queue s))"

definition sync_queue_get_top :: "nat \<Rightarrow> 'a SyncQueue \<Rightarrow> ('a option outcome \<times> 'a SyncQueue) res" where
  "sync_queue_get_top t s =
     (if queue_size (sq_queue s) = 0
      then (if sq_term s then Inr (SqReturn None, s)
            else Inr (SqWait, s\<lparr>sq_min_work := cond_wait t (sq_min_work s)\<rparr>))
      else rbind (queue_top (sq_queue s)) (\<lambda>x. Inr (SqReturn x, s)))"

subsection \<open>The system of callers\<close>

text \<open>What a thread is in the middle of: nothing, or a call that has gone to sleep and not yet returned.\<close>

datatype 'a sq_call = Ready | Pushing 'a | Popping | Topping

record 'a sq_sys =
  sy_queue :: "'a SyncQueue"
  sy_calls :: "nat \<Rightarrow> 'a sq_call"
  sy_accepted :: "'a list"    \<comment> \<open>items put into the queue, oldest first\<close>
  sy_delivered :: "'a list"   \<comment> \<open>items handed to consumers, oldest first\<close>

definition sq_init :: "int \<Rightarrow> 'a sq_sys" where
  "sq_init n = \<lparr>sy_queue = sync_queue_new n, sy_calls = (\<lambda>_. Ready), sy_accepted = [], sy_delivered = []\<rparr>"

definition asleep :: "'a SyncQueue \<Rightarrow> nat \<Rightarrow> bool" where
  "asleep q t \<longleftrightarrow> t \<in> sq_max_work q \<or> t \<in> sq_min_work q"

datatype 'a sq_event = EvPush nat 'a | EvDrop nat 'a | EvLost nat 'a | EvSleep nat | EvPop nat 'a | EvEnd nat
  | EvTop nat 'a | EvTopEnd nat | EvIdle nat | EvTerm | EvSpurious nat

text \<open>A push enters when its thread is ready and resumes when its thread has been woken; a pop or
  \<open>get_top\<close> does the same thing in both cases. \<open>EvLost\<close> is a push whose allocation failed.\<close>

inductive sq_step :: "'a sq_sys \<Rightarrow> 'a sq_event \<Rightarrow> 'a sq_sys \<Rightarrow> bool" where
  push: "sy_calls s t = Ready \<Longrightarrow> \<not> sq_term (sy_queue s) \<Longrightarrow> malloc_fresh (sq_queue (sy_queue s)) m \<Longrightarrow>
    sync_queue_push t m (sy_queue s) x = Inr (SqReturn (), q) \<Longrightarrow>
    sq_step s (EvPush t x) (s\<lparr>sy_queue := q, sy_accepted := sy_accepted s @ [x]\<rparr>)"
| drop: "sy_calls s t = Ready \<Longrightarrow> sq_term (sy_queue s) \<Longrightarrow>
    sync_queue_push t m (sy_queue s) x = Inr (SqReturn (), q) \<Longrightarrow>
    sq_step s (EvDrop t x) (s\<lparr>sy_queue := q\<rparr>)"
| lost: "sy_calls s t = Ready \<Longrightarrow> \<not> sq_term (sy_queue s) \<Longrightarrow>
    sync_queue_push t None (sy_queue s) x = Inr (SqReturn (), q) \<Longrightarrow>
    sq_step s (EvLost t x) (s\<lparr>sy_queue := q\<rparr>)"
| sleep: "sy_calls s t = Ready \<Longrightarrow> sync_queue_push t m (sy_queue s) x = Inr (SqWait, q) \<Longrightarrow>
    sq_step s (EvSleep t) (s\<lparr>sy_queue := q, sy_calls := (sy_calls s)(t := Pushing x)\<rparr>)"
| push_woken: "sy_calls s t = Pushing x \<Longrightarrow> \<not> asleep (sy_queue s) t \<Longrightarrow>
    malloc_fresh (sq_queue (sy_queue s)) m \<Longrightarrow>
    sync_queue_push_loop t m (sy_queue s) x = Inr (SqReturn (), q) \<Longrightarrow>
    sq_step s (EvPush t x) (s\<lparr>sy_queue := q, sy_calls := (sy_calls s)(t := Ready),
                              sy_accepted := sy_accepted s @ [x]\<rparr>)"
| lost_woken: "sy_calls s t = Pushing x \<Longrightarrow> \<not> asleep (sy_queue s) t \<Longrightarrow>
    sync_queue_push_loop t None (sy_queue s) x = Inr (SqReturn (), q) \<Longrightarrow>
    sq_step s (EvLost t x) (s\<lparr>sy_queue := q, sy_calls := (sy_calls s)(t := Ready)\<rparr>)"
| sleep_again: "sy_calls s t = Pushing x \<Longrightarrow> \<not> asleep (sy_queue s) t \<Longrightarrow>
    sync_queue_push_loop t m (sy_queue s) x = Inr (SqWait, q) \<Longrightarrow>
    sq_step s (EvSleep t) (s\<lparr>sy_queue := q\<rparr>)"
| pop: "sy_calls s t \<in> {Ready, Popping} \<Longrightarrow> \<not> asleep (sy_queue s) t \<Longrightarrow>
    sync_queue_pop t (sy_queue s) = Inr (SqReturn (Some x), q) \<Longrightarrow>
    sq_step s (EvPop t x) (s\<lparr>sy_queue := q, sy_calls := (sy_calls s)(t := Ready),
                             sy_delivered := sy_delivered s @ [x]\<rparr>)"
| the_end: "sy_calls s t \<in> {Ready, Popping} \<Longrightarrow> \<not> asleep (sy_queue s) t \<Longrightarrow>
    sync_queue_pop t (sy_queue s) = Inr (SqReturn None, q) \<Longrightarrow>
    sq_step s (EvEnd t) (s\<lparr>sy_queue := q, sy_calls := (sy_calls s)(t := Ready)\<rparr>)"
| idle: "sy_calls s t \<in> {Ready, Popping} \<Longrightarrow> \<not> asleep (sy_queue s) t \<Longrightarrow>
    sync_queue_pop t (sy_queue s) = Inr (SqWait, q) \<Longrightarrow>
    sq_step s (EvIdle t) (s\<lparr>sy_queue := q, sy_calls := (sy_calls s)(t := Popping)\<rparr>)"
| see: "sy_calls s t \<in> {Ready, Topping} \<Longrightarrow> \<not> asleep (sy_queue s) t \<Longrightarrow>
    sync_queue_get_top t (sy_queue s) = Inr (SqReturn (Some x), q) \<Longrightarrow>
    sq_step s (EvTop t x) (s\<lparr>sy_queue := q, sy_calls := (sy_calls s)(t := Ready)\<rparr>)"
| see_end: "sy_calls s t \<in> {Ready, Topping} \<Longrightarrow> \<not> asleep (sy_queue s) t \<Longrightarrow>
    sync_queue_get_top t (sy_queue s) = Inr (SqReturn None, q) \<Longrightarrow>
    sq_step s (EvTopEnd t) (s\<lparr>sy_queue := q, sy_calls := (sy_calls s)(t := Ready)\<rparr>)"
| see_idle: "sy_calls s t \<in> {Ready, Topping} \<Longrightarrow> \<not> asleep (sy_queue s) t \<Longrightarrow>
    sync_queue_get_top t (sy_queue s) = Inr (SqWait, q) \<Longrightarrow>
    sq_step s (EvIdle t) (s\<lparr>sy_queue := q, sy_calls := (sy_calls s)(t := Topping)\<rparr>)"
| finish: "sq_step s EvTerm (s\<lparr>sy_queue := sync_queue_term (sy_queue s)\<rparr>)"
| spurious: "sq_step s (EvSpurious t) (s\<lparr>sy_queue := (sy_queue s)
    \<lparr>sq_max_work := sq_max_work (sy_queue s) - {t}, sq_min_work := sq_min_work (sy_queue s) - {t}\<rparr>\<rparr>)"

inductive sq_reach :: "int \<Rightarrow> 'a sq_sys \<Rightarrow> bool" for n where
  start: "sq_reach n (sq_init n)"
| step: "sq_reach n s \<Longrightarrow> sq_step s e s' \<Longrightarrow> sq_reach n s'"

inductive_cases sq_end_cases: "sq_step s (EvEnd t) s'"

subsection \<open>Effect of the operations on the contents\<close>

abbreviation sq_list :: "'a SyncQueue \<Rightarrow> 'a list" where
  "sq_list s \<equiv> queue_list (sq_queue s)"

lemmas sq_ops = sync_queue_push_def sync_queue_push_loop_def sync_queue_pop_def sync_queue_get_top_def
  sync_queue_term_def cond_wait_def cond_broadcast_def

lemma push_loop_wait:
  "sync_queue_push_loop t m s x = Inr (SqWait, s') \<longleftrightarrow>
     0 < sq_max_size s \<and> sq_max_size s \<le> queue_size (sq_queue s) \<and> s' = s\<lparr>sq_max_work := insert t (sq_max_work s)\<rparr>"
  by (auto simp: sq_ops rbind_Inr_iff)

lemma push_loop_lost:
  "sync_queue_push_loop t None s x = Inr (SqReturn (), s') \<longleftrightarrow>
     \<not> (0 < sq_max_size s \<and> sq_max_size s \<le> queue_size (sq_queue s)) \<and> s' = s\<lparr>sq_min_work := {}\<rparr>"
  by (auto simp: sq_ops queue_push_def)

lemma push_loop_return:
  assumes "queue_inv (sq_queue s)" and "malloc_fresh (sq_queue s) m"
    and "sync_queue_push_loop t m s x = Inr (SqReturn (), s')"
  shows "queue_inv (sq_queue s') \<and> sq_list s' = sq_list s @ [x] \<and> sq_max_size s' = sq_max_size s
    \<and> sq_term s' = sq_term s \<and> (sq_max_size s > 0 \<longrightarrow> int (length (sq_list s)) < sq_max_size s)
    \<and> sq_max_work s' = sq_max_work s \<and> sq_min_work s' = {}"
proof -
  obtain q' where q': "queue_push m (sq_queue s) x = Inr q'" "queue_inv q'" "queue_list q' = sq_list s @ [x]"
    using hq.push_ok [OF assms(1,2)] by blast
  with assms(3) hq.size_ok [OF assms(1)] show ?thesis
    by (auto simp: sq_ops split: if_splits)
qed

lemma push_loop_room:
  assumes "queue_inv (sq_queue s)" and "sq_max_size s > 0 \<longrightarrow> int (length (sq_list s)) < sq_max_size s"
  shows "\<exists>m s'. malloc_fresh (sq_queue s) m \<and> sync_queue_push_loop t m s x = Inr (SqReturn (), s')"
proof -
  have "finite (dom (q_heap (sq_queue s)))"
    using assms(1) by (auto simp: queue_inv_def queue_rep_def)
  then obtain a where "a \<notin> dom (q_heap (sq_queue s))"
    using ex_new_if_finite [OF infinite_UNIV_nat] by blast
  then have f: "malloc_fresh (sq_queue s) (Some a)" by (auto simp: malloc_fresh_def)
  from hq.push_ok [OF assms(1) f] obtain q' where "queue_push (Some a) (sq_queue s) x = Inr q'" by blast
  with assms(2) hq.size_ok [OF assms(1)] f show ?thesis
    by (intro exI [of _ "Some a"] exI) (auto simp: sync_queue_push_loop_def)
qed

lemma pop_return:
  assumes "queue_inv (sq_queue s)" and "sync_queue_pop t s = Inr (SqReturn (Some x), s')"
  shows "queue_inv (sq_queue s') \<and> sq_list s = x # sq_list s' \<and> sq_max_size s' = sq_max_size s \<and> sq_term s' = sq_term s
    \<and> sq_max_work s' = {} \<and> sq_min_work s' = sq_min_work s"
proof -
  from assms(2) have "queue_size (sq_queue s) \<noteq> 0" by (auto simp: sync_queue_pop_def split: if_splits)
  with hq.size_zero_iff [OF assms(1)] obtain y ys where l: "sq_list s = y # ys"
    by (cases "sq_list s") auto
  obtain q' where "queue_pop (sq_queue s) = Inr (Some y, q')" "queue_inv q'" "queue_list q' = ys"
    using hq.pop_cons [OF assms(1) l] by blast
  with assms(2) l show ?thesis by (auto simp: sq_ops split: if_splits)
qed

lemma pop_cons_returns:
  assumes "queue_inv (sq_queue s)" and l: "sq_list s = y # ys"
  shows "\<exists>s'. sync_queue_pop t s = Inr (SqReturn (Some y), s')"
proof -
  from hq.pop_cons [OF assms] obtain q' where "queue_pop (sq_queue s) = Inr (Some y, q')" by blast
  moreover have "queue_size (sq_queue s) \<noteq> 0" using hq.size_zero_iff [OF assms(1)] l by simp
  ultimately show ?thesis by (simp add: sync_queue_pop_def)
qed

lemma pop_end:
  assumes "queue_inv (sq_queue s)" and "sync_queue_pop t s = Inr (SqReturn None, s')"
  shows "sq_term s \<and> sq_list s = [] \<and> s' = s"
proof (cases "queue_size (sq_queue s) = 0")
  case True
  with assms hq.size_zero_iff [OF assms(1)] show ?thesis
    by (auto simp: sync_queue_pop_def split: if_splits)
next
  case False
  with hq.size_zero_iff [OF assms(1)] obtain y ys where l: "sq_list s = y # ys"
    by (cases "sq_list s") auto
  obtain s'' where "sync_queue_pop t s = Inr (SqReturn (Some y), s'')"
    using pop_cons_returns [OF assms(1) l] by blast
  with assms(2) show ?thesis by simp
qed

lemma pop_wait:
  assumes "queue_inv (sq_queue s)" and "sync_queue_pop t s = Inr (SqWait, s')"
  shows "sq_list s = [] \<and> \<not> sq_term s \<and> s' = s\<lparr>sq_min_work := insert t (sq_min_work s)\<rparr>"
  using assms hq.size_zero_iff [OF assms(1)] by (auto simp: sq_ops rbind_Inr_iff split: if_splits)

lemma top_return:
  assumes "queue_inv (sq_queue s)" and "sync_queue_get_top t s = Inr (SqReturn x, s')"
  shows "s' = s"
  using assms by (auto simp: sync_queue_get_top_def rbind_Inr_iff split: if_splits)

lemma top_wait:
  assumes "queue_inv (sq_queue s)" and "sync_queue_get_top t s = Inr (SqWait, s')"
  shows "sq_list s = [] \<and> \<not> sq_term s \<and> s' = s\<lparr>sq_min_work := insert t (sq_min_work s)\<rparr>"
  using assms hq.size_zero_iff [OF assms(1)] by (auto simp: sq_ops rbind_Inr_iff split: if_splits)

lemma top_cons_returns:
  assumes "queue_inv (sq_queue s)" and l: "sq_list s = y # ys"
  shows "sync_queue_get_top t s = Inr (SqReturn (Some y), s)"
proof -
  from assms obtain as where "queue_rep (sq_queue s) as (y # ys)" by (auto simp: queue_inv_rep)
  then have "queue_top (sq_queue s) = Inr (Some y)"
    by (cases as) (auto simp: queue_rep_def queue_top_def)
  moreover have "queue_size (sq_queue s) \<noteq> 0" using hq.size_zero_iff [OF assms(1)] l by simp
  ultimately show ?thesis by (simp add: sync_queue_get_top_def)
qed

subsection \<open>The invariants of the system\<close>

definition sq_inv :: "int \<Rightarrow> 'a sq_sys \<Rightarrow> bool" where
  "sq_inv n s \<longleftrightarrow> queue_inv (sq_queue (sy_queue s)) \<and> sq_max_size (sy_queue s) = n \<and>
     sy_accepted s = sy_delivered s @ sq_list (sy_queue s) \<and>
     (n > 0 \<longrightarrow> int (length (sq_list (sy_queue s))) \<le> n)"

text \<open>Nobody sleeps without a reason: a thread asleep on \<open>max_work\<close> is in a push and the queue is
  full, a thread asleep on \<open>min_work\<close> is in a pop or \<open>get_top\<close> and the queue is empty and open.\<close>

definition sq_rest :: "int \<Rightarrow> 'a sq_sys \<Rightarrow> bool" where
  "sq_rest n s \<longleftrightarrow>
     (\<forall>t\<in>sq_max_work (sy_queue s). (\<exists>x. sy_calls s t = Pushing x) \<and> 0 < n \<and> n \<le> int (length (sq_list (sy_queue s)))) \<and>
     (\<forall>t\<in>sq_min_work (sy_queue s). sy_calls s t \<in> {Popping, Topping} \<and> sq_list (sy_queue s) = [] \<and> \<not> sq_term (sy_queue s))"

lemma sq_inv_init: "sq_inv n (sq_init n)"
  by (simp add: sq_inv_def sq_init_def sync_queue_new_def queue_inv_new queue_list_new)

lemma sq_rest_init: "sq_rest n (sq_init n)"
  by (simp add: sq_rest_def sq_init_def sync_queue_new_def)

lemma sq_step_inv:
  assumes "sq_step s e s'" and "sq_inv n s"
  shows "sq_inv n s'"
  using assms
proof (induction rule: sq_step.induct)
  case (push s t m x q)
  then have "sync_queue_push_loop t m (sy_queue s) x = Inr (SqReturn (), q)"
    by (simp add: sync_queue_push_def)
  with push push_loop_return [of "sy_queue s" m t x q] show ?case by (auto simp: sq_inv_def)
next
  case (push_woken s t x m q)
  with push_loop_return [of "sy_queue s" m t x q] show ?case by (auto simp: sq_inv_def)
next
  case (pop s t x q)
  with pop_return [of "sy_queue s" t x q] show ?case by (auto simp: sq_inv_def)
next
  case (the_end s t q)
  with pop_end [of "sy_queue s" t q] show ?case by (auto simp: sq_inv_def)
next
  case (idle s t q)
  with pop_wait [of "sy_queue s" t q] show ?case by (auto simp: sq_inv_def)
next
  case (see s t x q)
  with top_return [of "sy_queue s" t "Some x" q] show ?case by (auto simp: sq_inv_def)
next
  case (see_end s t q)
  with top_return [of "sy_queue s" t None q] show ?case by (auto simp: sq_inv_def)
next
  case (see_idle s t q)
  with top_wait [of "sy_queue s" t q] show ?case by (auto simp: sq_inv_def)
qed (auto simp: sq_inv_def sync_queue_push_def sync_queue_term_def push_loop_wait push_loop_lost split: if_splits)

lemma sq_step_rest:
  assumes "sq_step s e s'" and "sq_inv n s" and "sq_rest n s"
  shows "sq_rest n s'"
  using assms
proof (induction rule: sq_step.induct)
  case (push s t m x q)
  then have "sync_queue_push_loop t m (sy_queue s) x = Inr (SqReturn (), q)"
    by (simp add: sync_queue_push_def)
  with push push_loop_return [of "sy_queue s" m t x q] show ?case by (auto simp: sq_rest_def sq_inv_def)
next
  case (drop s t m x q)
  then show ?case by (auto simp: sq_rest_def sync_queue_push_def)
next
  case (lost s t x q)
  then show ?case by (auto simp: sq_rest_def sync_queue_push_def push_loop_lost)
next
  case (sleep s t m x q)
  then have "\<not> sq_term (sy_queue s)" by (auto simp: sync_queue_push_def)
  with sleep hq.size_ok [of "sq_queue (sy_queue s)"] show ?case
    by (auto simp: sq_rest_def sq_inv_def sync_queue_push_def push_loop_wait)
next
  case (push_woken s t x m q)
  with push_loop_return [of "sy_queue s" m t x q] show ?case by (auto simp: sq_rest_def sq_inv_def asleep_def)
next
  case (lost_woken s t x q)
  then show ?case by (auto simp: sq_rest_def push_loop_lost asleep_def)
next
  case (sleep_again s t x m q)
  with hq.size_ok [of "sq_queue (sy_queue s)"] show ?case
    by (auto simp: sq_rest_def sq_inv_def push_loop_wait)
next
  case (pop s t x q)
  with pop_return [of "sy_queue s" t x q] show ?case by (auto simp: sq_rest_def sq_inv_def asleep_def)
next
  case (the_end s t q)
  with pop_end [of "sy_queue s" t q] show ?case by (auto simp: sq_rest_def sq_inv_def asleep_def)
next
  case (idle s t q)
  with pop_wait [of "sy_queue s" t q] show ?case by (auto simp: sq_rest_def sq_inv_def asleep_def)
next
  case (see s t x q)
  with top_return [of "sy_queue s" t "Some x" q] show ?case by (auto simp: sq_rest_def sq_inv_def asleep_def)
next
  case (see_end s t q)
  with top_return [of "sy_queue s" t None q] show ?case by (auto simp: sq_rest_def sq_inv_def asleep_def)
next
  case (see_idle s t q)
  with top_wait [of "sy_queue s" t q] show ?case by (auto simp: sq_rest_def sq_inv_def asleep_def)
next
  case (finish s)
  then show ?case by (auto simp: sq_rest_def sync_queue_term_def cond_broadcast_def)
next
  case (spurious s t)
  then show ?case by (auto simp: sq_rest_def)
qed

lemma sq_reach_inv: "sq_reach n s \<Longrightarrow> sq_inv n s"
  by (induction rule: sq_reach.induct) (auto intro: sq_inv_init sq_step_inv)

lemma sq_reach_rest: "sq_reach n s \<Longrightarrow> sq_rest n s"
  by (induction rule: sq_reach.induct) (auto intro: sq_rest_init sq_step_rest sq_reach_inv)

text \<open>What a thread can do in a reachable state.\<close>

lemma push_enabled:
  assumes "sq_reach n s" and "sy_calls s t = Pushing x" and "n > 0 \<longrightarrow> int (length (sq_list (sy_queue s))) < n"
  shows "\<exists>s'. sq_step s (EvPush t x) s'"
proof -
  from sq_reach_inv [OF assms(1)] have inv: "queue_inv (sq_queue (sy_queue s))" "sq_max_size (sy_queue s) = n"
    by (simp_all add: sq_inv_def)
  from sq_reach_rest [OF assms(1)] assms(2,3) have "\<not> asleep (sy_queue s) t"
    by (auto simp: sq_rest_def asleep_def)
  with push_loop_room [OF inv(1)] inv(2) assms(2,3) show ?thesis by (meson sq_step.push_woken)
qed

lemma pop_enabled:
  assumes "sq_reach n s" and "sy_calls s t \<in> {Ready, Popping}" and "sq_list (sy_queue s) = y # ys"
  shows "\<exists>s'. sq_step s (EvPop t y) s'"
proof -
  from sq_reach_inv [OF assms(1)] have inv: "queue_inv (sq_queue (sy_queue s))" by (simp add: sq_inv_def)
  from sq_reach_rest [OF assms(1)] assms(2,3) have "\<not> asleep (sy_queue s) t"
    by (auto simp: sq_rest_def asleep_def)
  with pop_cons_returns [OF inv assms(3)] assms(2) show ?thesis by (meson sq_step.pop)
qed

lemma top_enabled:
  assumes "sq_reach n s" and "sy_calls s t \<in> {Ready, Topping}" and "sq_list (sy_queue s) = y # ys"
  shows "\<exists>s'. sq_step s (EvTop t y) s'"
proof -
  from sq_reach_inv [OF assms(1)] have inv: "queue_inv (sq_queue (sy_queue s))" by (simp add: sq_inv_def)
  from sq_reach_rest [OF assms(1)] assms(2,3) have "\<not> asleep (sy_queue s) t"
    by (auto simp: sq_rest_def asleep_def)
  with top_cons_returns [OF inv assms(3)] assms(2) show ?thesis by (meson sq_step.see)
qed

lemma end_enabled:
  assumes "sq_reach n s" and "sq_list (sy_queue s) = []" and "sq_term (sy_queue s)" and "\<forall>x. sy_calls s t \<noteq> Pushing x"
  shows "(sy_calls s t \<noteq> Topping \<longrightarrow> (\<exists>s'. sq_step s (EvEnd t) s')) \<and> (sy_calls s t \<noteq> Popping \<longrightarrow> (\<exists>s'. sq_step s (EvTopEnd t) s'))"
proof -
  from sq_reach_inv [OF assms(1)] have inv: "queue_inv (sq_queue (sy_queue s))" by (simp add: sq_inv_def)
  from sq_reach_rest [OF assms(1)] assms have a: "\<not> asleep (sy_queue s) t"
    by (auto simp: sq_rest_def asleep_def)
  from hq.size_zero_iff [OF inv] assms(2,3) have
    "sync_queue_pop t (sy_queue s) = Inr (SqReturn None, sy_queue s)"
    "sync_queue_get_top t (sy_queue s) = Inr (SqReturn None, sy_queue s)"
    by (simp_all add: sync_queue_pop_def sync_queue_get_top_def)
  with a assms(4) sq_step.the_end [of s t] sq_step.see_end [of s t] show ?thesis
    by (cases "sy_calls s t") blast+
qed

text \<open>A pop by a thread in no call makes room for every producer that found none.\<close>

lemma pop_makes_room:
  assumes "sq_reach n s" and "sy_calls s t = Pushing x" and "0 < n" and "n \<le> int (length (sq_list (sy_queue s)))"
    and "sy_calls s t' = Ready"
  shows "\<exists>z s'. sq_step s (EvPop t' z) s' \<and> sq_max_work (sy_queue s') = {} \<and> (\<exists>s''. sq_step s' (EvPush t x) s'')"
proof -
  from sq_reach_inv [OF assms(1)] have inv: "queue_inv (sq_queue (sy_queue s))" "int (length (sq_list (sy_queue s))) \<le> n"
    using assms(3) by (simp_all add: sq_inv_def)
  from assms(3,4) obtain y ys where l: "sq_list (sy_queue s) = y # ys" by (cases "sq_list (sy_queue s)") auto
  from pop_cons_returns [OF inv(1) l] obtain q where q: "sync_queue_pop t' (sy_queue s) = Inr (SqReturn (Some y), q)" by blast
  from sq_reach_rest [OF assms(1)] assms(5) have "\<not> asleep (sy_queue s) t'" by (auto simp: sq_rest_def asleep_def)
  let ?s = "s\<lparr>sy_queue := q, sy_calls := (sy_calls s)(t' := Ready), sy_delivered := sy_delivered s @ [y]\<rparr>"
  have st: "sq_step s (EvPop t' y) ?s" by (rule sq_step.pop) (use assms(5) \<open>\<not> asleep (sy_queue s) t'\<close> q in simp_all)
  from pop_return [OF inv(1) q] l inv(2) have e: "sq_max_work q = {}" "int (length (sq_list q)) < n" by auto
  have "sq_reach n ?s" using assms(1) st by (rule sq_reach.step)
  moreover from assms(2,5) have "t \<noteq> t'" by auto
  ultimately have "\<exists>s''. sq_step ?s (EvPush t x) s''" using push_enabled [of n ?s t x] assms(2) e(2) by simp
  with st e(1) show ?thesis by (intro exI [of _ y] exI [of _ ?s]) simp
qed

subsection \<open>Properties\<close>

text \<open>C23: in every interleaving of producers, consumers and the terminating thread, what the
  consumers received is a prefix of what the producers put in, in the same order; the rest is still queued, and
  never more than \<open>max_size\<close> items are.\<close>

theorem sync_queue_fifo:
  assumes "sq_reach n s"
  shows "sy_accepted s = sy_delivered s @ sq_list (sy_queue s) \<and> (n > 0 \<longrightarrow> int (length (sq_list (sy_queue s))) \<le> n)"
  using sq_reach_inv [OF assms] by (simp add: sq_inv_def)

theorem sync_queue_fifo_witness:
  "sy_accepted (sq_init 3 :: nat sq_sys) = sy_delivered (sq_init 3) @ sq_list (sy_queue (sq_init 3 :: nat sq_sys)) \<and>
   int (length (sq_list (sy_queue (sq_init 3 :: nat sq_sys)))) \<le> 3"
  using sync_queue_fifo [OF sq_reach.start, of 3] by simp

text \<open>C24: when a consumer is told that the queue has ended, the queue was terminated and every item
  ever accepted has been delivered, in order.\<close>

theorem sync_queue_end_complete:
  assumes "sq_reach n s" and "sq_step s (EvEnd t) s'"
  shows "sq_term (sy_queue s) \<and> sy_delivered s' = sy_accepted s'"
proof -
  from assms(2) obtain q where q: "sync_queue_pop t (sy_queue s) = Inr (SqReturn None, q)"
    "s' = s\<lparr>sy_queue := q, sy_calls := (sy_calls s)(t := Ready)\<rparr>"
    by (rule sq_end_cases)
  from sq_reach_inv [OF assms(1)] have "queue_inv (sq_queue (sy_queue s))" "sy_accepted s = sy_delivered s @ sq_list (sy_queue s)"
    by (simp_all add: sq_inv_def)
  with pop_end [OF _ q(1)] q(2) show ?thesis by simp
qed

theorem sync_queue_end_complete_witness:
  "sq_term (sy_queue ((sq_init 1 :: nat sq_sys)\<lparr>sy_queue := sync_queue_term (sync_queue_new 1)\<rparr>)) \<and>
   sy_delivered ((sq_init 1 :: nat sq_sys)\<lparr>sy_queue := sync_queue_term (sync_queue_new 1)\<rparr>) =
   sy_accepted ((sq_init 1 :: nat sq_sys)\<lparr>sy_queue := sync_queue_term (sync_queue_new 1)\<rparr>)"
proof -
  let ?s = "(sq_init 1 :: nat sq_sys)\<lparr>sy_queue := sync_queue_term (sync_queue_new 1)\<rparr>"
  have r: "sq_reach 1 ?s"
    using sq_reach.step [OF sq_reach.start sq_step.finish [of "sq_init 1"]] by (simp add: sq_init_def)
  have "sync_queue_pop 0 (sy_queue ?s) = Inr (SqReturn None, sy_queue ?s)"
    by (simp add: sync_queue_pop_def sync_queue_term_def sync_queue_new_def queue_size_def queue_new_def)
  from sq_step.the_end [OF _ _ this] have "sq_step ?s (EvEnd 0) ?s"
    by (simp add: sq_init_def asleep_def sync_queue_term_def sync_queue_new_def cond_broadcast_def fun_upd_idem)
  from sync_queue_end_complete [OF r this] show ?thesis .
qed

text \<open>C25: no wake-up is lost: in every reachable state, a thread whose call waits for something that
  holds is not asleep, and its call can return at once. A producer with room, or with no bound, can push its item; a consumer
  of a queue that is not empty can pop (or look at) the oldest item, and one of an empty terminated queue is told of the end. And while
  a producer finds no room, every thread that is in no call can take an item out, which wakes all producers.\<close>

theorem sync_queue_progress:
  assumes "sq_reach n s"
  shows
    "(sy_calls s t = Pushing x \<and> (n > 0 \<longrightarrow> int (length (sq_list (sy_queue s))) < n) \<longrightarrow>
       \<not> asleep (sy_queue s) t \<and> (\<exists>s'. sq_step s (EvPush t x) s')) \<and>
     (sy_calls s t = Popping \<and> sq_list (sy_queue s) = y # ys \<longrightarrow>
       \<not> asleep (sy_queue s) t \<and> (\<exists>s'. sq_step s (EvPop t y) s')) \<and>
     (sy_calls s t = Topping \<and> sq_list (sy_queue s) = y # ys \<longrightarrow>
       \<not> asleep (sy_queue s) t \<and> (\<exists>s'. sq_step s (EvTop t y) s')) \<and>
     (sq_list (sy_queue s) = [] \<and> sq_term (sy_queue s) \<longrightarrow>
       (sy_calls s t = Popping \<longrightarrow> \<not> asleep (sy_queue s) t \<and> (\<exists>s'. sq_step s (EvEnd t) s')) \<and>
       (sy_calls s t = Topping \<longrightarrow> \<not> asleep (sy_queue s) t \<and> (\<exists>s'. sq_step s (EvTopEnd t) s'))) \<and>
     (sy_calls s t = Pushing x \<and> 0 < n \<and> n \<le> int (length (sq_list (sy_queue s))) \<and> sy_calls s t' = Ready \<longrightarrow>
       (\<exists>z s'. sq_step s (EvPop t' z) s' \<and> sq_max_work (sy_queue s') = {} \<and> (\<exists>s''. sq_step s' (EvPush t x) s'')))"
proof -
  have aw: "\<not> asleep (sy_queue s) t" if "sy_calls s t = Pushing x \<and> (n > 0 \<longrightarrow> int (length (sq_list (sy_queue s))) < n) \<or>
      sy_calls s t \<in> {Popping, Topping} \<and> (sq_list (sy_queue s) \<noteq> [] \<or> sq_term (sy_queue s))"
    using sq_reach_rest [OF assms] that by (auto simp: sq_rest_def asleep_def)
  have full: "\<exists>z s'. sq_step s (EvPop t' z) s' \<and> sq_max_work (sy_queue s') = {} \<and> (\<exists>s''. sq_step s' (EvPush t x) s'')"
    if "sy_calls s t = Pushing x" "0 < n" "n \<le> int (length (sq_list (sy_queue s)))" "sy_calls s t' = Ready"
    by (rule pop_makes_room [OF assms that])
  show ?thesis
    using aw full push_enabled [OF assms, of t x] pop_enabled [OF assms, of t y ys] top_enabled [OF assms, of t y ys]
      end_enabled [OF assms, of t] by simp
qed

theorem sync_queue_progress_witness:
  "\<exists>s :: nat sq_sys. sq_reach 1 s \<and> sy_calls s 4 = Pushing 8 \<and> asleep (sy_queue s) 4 \<and>
     (\<exists>z s'. sq_step s (EvPop 0 z) s' \<and> sq_max_work (sy_queue s') = {} \<and> (\<exists>s''. sq_step s' (EvPush 4 8) s''))"
proof -
  let ?q = "queue_new\<lparr>q_heap := [0 \<mapsto> \<lparr>ele_next = None, ele_data = 7 :: nat\<rparr>], q_first := Some 0, q_last := Some 0, elem_num := 1\<rparr>"
  let ?s1 = "(sq_init 1)\<lparr>sy_queue := (sync_queue_new 1)\<lparr>sq_queue := ?q\<rparr>, sy_accepted := [7]\<rparr>"
  let ?s2 = "?s1\<lparr>sy_queue := (sync_queue_new 1)\<lparr>sq_queue := ?q, sq_max_work := {4}\<rparr>, sy_calls := (\<lambda>_. Ready)(4 := Pushing 8)\<rparr>"
  have "sq_step (sq_init 1) (EvPush 4 7) ((sq_init 1)\<lparr>sy_queue := (sync_queue_new 1)\<lparr>sq_queue := ?q\<rparr>, sy_accepted := sy_accepted (sq_init 1 :: nat sq_sys) @ [7]\<rparr>)"
    by (rule sq_step.push [where m = "Some 0"])
      (simp_all add: sq_init_def sync_queue_new_def malloc_fresh_def queue_new_def sq_ops queue_push_def queue_size_def)
  then have r1: "sq_reach 1 ?s1" using sq_reach.step [OF sq_reach.start] by (simp add: sq_init_def)
  have "sq_step ?s1 (EvSleep 4) (?s1\<lparr>sy_queue := (sync_queue_new 1)\<lparr>sq_queue := ?q, sq_max_work := {4}\<rparr>, sy_calls := (sy_calls ?s1)(4 := Pushing 8)\<rparr>)"
    by (rule sq_step.sleep [where m = None])
      (simp_all add: sq_init_def sync_queue_new_def sq_ops queue_size_def)
  then have "sq_step ?s1 (EvSleep 4) ?s2" by (simp add: sq_init_def)
  with r1 have r2: "sq_reach 1 ?s2" by (rule sq_reach.step)
  have l: "int (length (sq_list (sy_queue ?s2))) = 1" by (simp add: queue_list_def)
  from sync_queue_progress [OF r2, of 4 8 _ _ 0] r2 l show ?thesis
    by (intro exI [of _ ?s2]) (simp add: asleep_def)
qed

end
