(* ===== verification/Bloom_Filter.thy ===== *)
theory Bloom_Filter
  imports Destor_Prelude
begin

text \<open>
  The Bloom filter of \<open>utils/bloom_filter.c\<close>: seven hash functions over byte strings on
  32-bit unsigned integers, of which the first \<open>NUM_HASHES\<close> = 4 are used, folded to 30 bits,
  and a bit array. The array is a function from byte index to byte; \<open>filter_index_bound\<close> shows
  that only the \<open>FILTER_SIZE_BYTES\<close> bytes of the real array are ever touched.
\<close>

type_synonym u32 = "32 word"

definition RSHash :: "byte list \<Rightarrow> u32" where
  "RSHash str = fst (fold (\<lambda>c (hash, a). (hash * a + ucast c, a * 378551)) str (0, 63689))"

definition JSHash :: "byte list \<Rightarrow> u32" where
  "JSHash str = fold (\<lambda>c hash. hash XOR (push_bit 5 hash + ucast c + drop_bit 2 hash)) str 1315423911"

definition PJWHash :: "byte list \<Rightarrow> u32" where
  "PJWHash str = fold (\<lambda>c hash.
     let hash = push_bit 4 hash + ucast c; test = hash AND 0xF0000000 in
     if test \<noteq> 0 then (hash XOR drop_bit 24 test) AND NOT 0xF0000000 else hash) str 0"

definition SDBMHash :: "byte list \<Rightarrow> u32" where
  "SDBMHash str = fold (\<lambda>c hash. ucast c + push_bit 6 hash + push_bit 16 hash - hash) str 0"

definition DJBHash :: "byte list \<Rightarrow> u32" where
  "DJBHash str = fold (\<lambda>c hash. (push_bit 5 hash + hash) + ucast c) str 5381"

definition DEKHash :: "byte list \<Rightarrow> u32" where
  "DEKHash str = fold (\<lambda>c hash. (push_bit 5 hash XOR drop_bit 27 hash) XOR ucast c) str (of_nat (length str))"

definition FNVHash :: "byte list \<Rightarrow> u32" where
  "FNVHash str = fold (\<lambda>c hash. (hash * 0x811C9DC5) XOR ucast c) str 0"

definition hash_func :: "(byte list \<Rightarrow> u32) list" where
  "hash_func = [RSHash, DJBHash, FNVHash, JSHash, PJWHash, SDBMHash, DEKHash]"

definition NUM_HASHES :: nat where
  "NUM_HASHES = 4"

definition FILTER_SIZE :: nat where
  "FILTER_SIZE = 30"

definition FILTER_SIZE_BYTES :: nat where
  "FILTER_SIZE_BYTES = 2 ^ (FILTER_SIZE - 3)"

text \<open>The two foldings: \<open>insert_word\<close> computes in \<open>unsigned long\<close>, \<open>in_dict\<close> in
  \<open>unsigned int\<close>.\<close>

definition insert_word_step :: "byte list \<Rightarrow> (byte list \<Rightarrow> u32) \<Rightarrow> (nat \<Rightarrow> byte) \<Rightarrow> nat \<Rightarrow> byte" where
  "insert_word_step str h filt =
     (let v = (ucast (h str) :: 64 word);
          v = drop_bit FILTER_SIZE v XOR (v AND mask FILTER_SIZE);
          i = unat (drop_bit 3 v)
      in filt(i := filt i OR push_bit (unat (v AND 7)) 1))"

definition insert_word :: "(nat \<Rightarrow> byte) \<Rightarrow> byte list \<Rightarrow> nat \<Rightarrow> byte" where
  "insert_word filt str = fold (insert_word_step str) (take NUM_HASHES hash_func) filt"

definition in_dict_step :: "(nat \<Rightarrow> byte) \<Rightarrow> byte list \<Rightarrow> (byte list \<Rightarrow> u32) \<Rightarrow> bool" where
  "in_dict_step filt str h =
     (let v = h str;
          v = drop_bit FILTER_SIZE v XOR (v AND mask FILTER_SIZE)
      in filt (unat (drop_bit 3 v)) AND push_bit (unat (v AND 7)) 1 \<noteq> 0)"

definition in_dict :: "(nat \<Rightarrow> byte) \<Rightarrow> byte list \<Rightarrow> bool" where
  "in_dict filt str = list_all (in_dict_step filt str) (take NUM_HASHES hash_func)"

subsection \<open>The folded hash\<close>

definition folded :: "u32 \<Rightarrow> u32" where
  "folded v = drop_bit FILTER_SIZE v XOR (v AND mask FILTER_SIZE)"

lemma folded_64:
  "drop_bit FILTER_SIZE (ucast v :: 64 word) XOR (ucast v AND mask FILTER_SIZE) = ucast (folded (v :: u32))"
  by (intro bit_word_eqI) (auto simp: folded_def FILTER_SIZE_def bit_simps dest: bit_imp_le_length)

lemma folded_bit: "bit (folded v) i \<Longrightarrow> i < 30"
proof -
  assume "bit (folded v) i"
  then show "i < 30"
    by (auto simp: folded_def FILTER_SIZE_def bit_simps dest: bit_imp_le_length)
qed

lemma folded_less: "unat (folded v) < 2 ^ 30"
proof -
  have "folded v = take_bit 30 (folded v)"
    by (intro bit_word_eqI) (auto simp: bit_simps dest: folded_bit)
  then have "unat (folded v) = take_bit 30 (unat (folded v))"
    by (metis unsigned_take_bit_eq)
  then show ?thesis by (metis take_bit_nat_less_exp)
qed

definition slot :: "u32 \<Rightarrow> nat" where "slot v = unat (drop_bit 3 (folded v))"
definition bitno :: "u32 \<Rightarrow> nat" where "bitno v = unat (folded v AND 7)"

lemma unat_ucast_64: "unat (ucast (w :: u32) :: 64 word) = unat w"
proof -
  have "unat w < 2 ^ LENGTH(32)" by (rule unsigned_less)
  then have "unat w < 2 ^ 64" by simp
  then show ?thesis by (simp add: unsigned_ucast_eq take_bit_nat_eq_self_iff)
qed

lemma filter_index_bound: "slot v < FILTER_SIZE_BYTES"
proof -
  have "slot v = unat (folded v) div 8"
    unfolding slot_def unat_drop_bit_eq by (simp add: drop_bit_eq_div)
  with folded_less [of v] show ?thesis by (simp add: FILTER_SIZE_BYTES_def FILTER_SIZE_def)
qed

lemma bitno_less: "bitno v < 8"
proof -
  have "folded v AND 7 \<le> 7" by (rule word_and_le1)
  then show ?thesis by (simp add: bitno_def word_le_nat_alt)
qed

lemma insert_word_step_slot:
  "insert_word_step str h filt = filt(slot (h str) := filt (slot (h str)) OR push_bit (bitno (h str)) 1)"
proof -
  have 1: "unat (drop_bit 3 (ucast (folded (h str)) :: 64 word)) = slot (h str)"
    unfolding slot_def unat_drop_bit_eq by (simp add: unat_ucast_64)
  have "(ucast (folded (h str)) AND 7 :: 64 word) = ucast (folded (h str) AND 7)"
    by (intro bit_word_eqI) (auto simp: bit_simps dest: bit_imp_le_length)
  then have 2: "unat (ucast (folded (h str)) AND 7 :: 64 word) = bitno (h str)"
    by (simp add: bitno_def unat_ucast_64)
  show ?thesis by (simp only: insert_word_step_def Let_def folded_64 1 2)
qed

lemma in_dict_step_slot: "in_dict_step filt str h \<longleftrightarrow> bit (filt (slot (h str))) (bitno (h str))"
proof -
  have "(b AND push_bit n 1 \<noteq> 0) = bit b n" for b :: byte and n
    by (simp add: bit_iff_and_push_bit_not_eq_0)
  then show ?thesis
    by (simp add: in_dict_step_def Let_def folded_def [symmetric] slot_def [symmetric] bitno_def [symmetric])
qed

subsection \<open>No false negatives\<close>

definition filter_le :: "(nat \<Rightarrow> byte) \<Rightarrow> (nat \<Rightarrow> byte) \<Rightarrow> bool" where
  "filter_le f g \<longleftrightarrow> (\<forall>i n. bit (f i) n \<longrightarrow> bit (g i) n)"

lemma filter_le_refl: "filter_le f f" by (simp add: filter_le_def)

lemma filter_le_trans: "filter_le f g \<Longrightarrow> filter_le g h \<Longrightarrow> filter_le f h"
  by (simp add: filter_le_def)

lemma filter_le_step: "filter_le filt (insert_word_step str h filt)"
  by (auto simp: filter_le_def insert_word_step_slot bit_simps)

lemma filter_le_steps: "filter_le filt (fold (insert_word_step str) hs filt)"
  by (induction hs arbitrary: filt) (auto intro: filter_le_refl filter_le_trans [OF filter_le_step])

lemma filter_le_insert: "filter_le filt (insert_word filt str)"
  by (simp add: insert_word_def filter_le_steps)

lemma filter_le_words: "filter_le filt (fold (\<lambda>w f. insert_word f w) ws filt)"
  by (induction ws arbitrary: filt) (auto intro: filter_le_refl filter_le_trans [OF filter_le_insert])

lemma in_dict_mono: "filter_le f g \<Longrightarrow> in_dict f str \<Longrightarrow> in_dict g str"
  by (auto simp: in_dict_def list_all_iff in_dict_step_slot filter_le_def)

lemma step_sets: "h \<in> set hs \<Longrightarrow> in_dict_step (fold (insert_word_step str) hs filt) str h"
proof (induction hs arbitrary: filt)
  case (Cons k hs)
  show ?case
  proof (cases "h = k")
    case True
    have "in_dict_step (insert_word_step str k filt) str k"
      using bitno_less [of "k str"] by (simp add: in_dict_step_slot) (simp add: insert_word_step_slot bit_simps)
    with filter_le_steps [of "insert_word_step str k filt" str hs] True show ?thesis
      by (auto simp: in_dict_step_slot filter_le_def)
  next
    case False
    with Cons show ?thesis by simp
  qed
qed simp

lemma insert_word_in_dict: "in_dict (insert_word filt str) str"
  by (simp add: in_dict_def insert_word_def list_all_iff step_sets)

text \<open>C36: a Bloom filter has no false negatives: after inserting any words into any filter, in any
  order, every one of them is reported as present.\<close>

lemma no_false_negatives: "list_all (in_dict (fold (\<lambda>w f. insert_word f w) ws filt)) ws"
proof (induction ws arbitrary: filt)
  case (Cons w ws)
  have "in_dict (fold (\<lambda>w f. insert_word f w) ws (insert_word filt w)) w"
    by (rule in_dict_mono [OF filter_le_words insert_word_in_dict])
  with Cons show ?case by simp
qed simp

end
