(* ===== verification/Serial.thy ===== *)
theory Serial
  imports Destor_Prelude
begin

text \<open>
  Serialisation of \<open>utils/serial.c\<close> and the macros of \<open>utils/serial.h\<close>. A cursor is the
  buffer with the byte offset of \<open>ser_ptr\<close> in it; an access beyond the buffer is
  \<open>OutOfBounds\<close>. The byte order of the host is the argument \<open>be\<close> (big-endian): the code
  tests it with \<open>htonl(1) == 1\<close>, and \<open>htons\<close>/\<open>htonl\<close> are the identity exactly on a
  big-endian host. A C string is its bytes without the terminating zero.
\<close>

fun le_bytes :: "nat \<Rightarrow> 'a::len word \<Rightarrow> byte list" where
  "le_bytes 0 w = []"
| "le_bytes (Suc n) w = ucast w # le_bytes n (drop_bit 8 w)"

fun from_le :: "byte list \<Rightarrow> 'a::len word" where
  "from_le [] = 0"
| "from_le (b # bs) = ucast b OR push_bit 8 (from_le bs)"

definition host_bytes :: "bool \<Rightarrow> nat \<Rightarrow> 'a::len word \<Rightarrow> byte list" where
  "host_bytes be n w = (if be then rev (le_bytes n w) else le_bytes n w)"

definition host_word :: "bool \<Rightarrow> byte list \<Rightarrow> 'a::len word" where
  "host_word be bs = from_le (if be then rev bs else bs)"

definition htons :: "bool \<Rightarrow> 16 word \<Rightarrow> 16 word" where
  "htons be v = (if be then v else from_le (rev (le_bytes 2 v)))"

definition htonl :: "bool \<Rightarrow> 32 word \<Rightarrow> 32 word" where
  "htonl be v = (if be then v else from_le (rev (le_bytes 4 v)))"

definition ntohs :: "bool \<Rightarrow> 16 word \<Rightarrow> 16 word" where
  "ntohs be v = (if be then v else from_le (rev (le_bytes 2 v)))"

definition ntohl :: "bool \<Rightarrow> 32 word \<Rightarrow> 32 word" where
  "ntohl be v = (if be then v else from_le (rev (le_bytes 4 v)))"

subsection \<open>Cursors\<close>

record cursor =
  cbuf :: "byte list"
  cptr :: nat

definition ser_begin :: "byte list \<Rightarrow> nat \<Rightarrow> cursor" where
  "ser_begin b off = \<lparr>cbuf = b, cptr = off\<rparr>"

definition ser_bytes :: "byte list \<Rightarrow> cursor \<Rightarrow> cursor res" where
  "ser_bytes bs c =
     (if cptr c + length bs \<le> length (cbuf c)
      then Inr (c\<lparr>cbuf := take (cptr c) (cbuf c) @ bs @ drop (cptr c + length bs) (cbuf c),
                  cptr := cptr c + length bs\<rparr>)
      else Inl OutOfBounds)"

definition unser_bytes :: "nat \<Rightarrow> cursor \<Rightarrow> (byte list \<times> cursor) res" where
  "unser_bytes n c =
     (if cptr c + n \<le> length (cbuf c)
      then Inr (take n (drop (cptr c) (cbuf c)), c\<lparr>cptr := cptr c + n\<rparr>)
      else Inl OutOfBounds)"

definition serial_int16 :: "bool \<Rightarrow> 16 word \<Rightarrow> cursor \<Rightarrow> cursor res" where
  "serial_int16 be v c = ser_bytes (host_bytes be 2 (htons be v)) c"

definition serial_uint16 :: "bool \<Rightarrow> 16 word \<Rightarrow> cursor \<Rightarrow> cursor res" where
  "serial_uint16 be v c = ser_bytes (host_bytes be 2 (htons be v)) c"

definition serial_int32 :: "bool \<Rightarrow> 32 word \<Rightarrow> cursor \<Rightarrow> cursor res" where
  "serial_int32 be v c = ser_bytes (host_bytes be 4 (htonl be v)) c"

definition serial_uint32 :: "bool \<Rightarrow> 32 word \<Rightarrow> cursor \<Rightarrow> cursor res" where
  "serial_uint32 be v c = ser_bytes (host_bytes be 4 (htonl be v)) c"

definition serial_int64 :: "bool \<Rightarrow> 64 word \<Rightarrow> cursor \<Rightarrow> cursor res" where
  "serial_int64 be v c =
     (if htonl be 1 = 1 then ser_bytes (host_bytes be 8 v) c
      else (let pv = host_bytes be 8 v; rv = map (\<lambda>i. pv ! (7 - i)) [0..<8] in ser_bytes rv c))"

definition serial_uint64 :: "bool \<Rightarrow> 64 word \<Rightarrow> cursor \<Rightarrow> cursor res" where
  "serial_uint64 be v c =
     (if htonl be 1 = 1 then ser_bytes (host_bytes be 8 v) c
      else (let pv = host_bytes be 8 v; rv = map (\<lambda>i. pv ! (7 - i)) [0..<8] in ser_bytes rv c))"

definition serial_string :: "byte list \<Rightarrow> cursor \<Rightarrow> cursor res" where
  "serial_string str c = ser_bytes (str @ [0]) c"

definition unserial_int16 :: "bool \<Rightarrow> cursor \<Rightarrow> (16 word \<times> cursor) res" where
  "unserial_int16 be c = rbind (unser_bytes 2 c) (\<lambda>(bs, c'). Inr (ntohs be (host_word be bs), c'))"

definition unserial_uint16 :: "bool \<Rightarrow> cursor \<Rightarrow> (16 word \<times> cursor) res" where
  "unserial_uint16 be c = rbind (unser_bytes 2 c) (\<lambda>(bs, c'). Inr (ntohs be (host_word be bs), c'))"

definition unserial_int32 :: "bool \<Rightarrow> cursor \<Rightarrow> (32 word \<times> cursor) res" where
  "unserial_int32 be c = rbind (unser_bytes 4 c) (\<lambda>(bs, c'). Inr (ntohl be (host_word be bs), c'))"

definition unserial_uint32 :: "bool \<Rightarrow> cursor \<Rightarrow> (32 word \<times> cursor) res" where
  "unserial_uint32 be c = rbind (unser_bytes 4 c) (\<lambda>(bs, c'). Inr (ntohl be (host_word be bs), c'))"

definition unserial_int64 :: "bool \<Rightarrow> cursor \<Rightarrow> (64 word \<times> cursor) res" where
  "unserial_int64 be c =
     rbind (unser_bytes 8 c) (\<lambda>(bs, c').
       if htonl be 1 = 1 then Inr (host_word be bs, c')
       else (let rv = map (\<lambda>i. bs ! (7 - i)) [0..<8] in Inr (host_word be rv, c')))"

definition unserial_uint64 :: "bool \<Rightarrow> cursor \<Rightarrow> (64 word \<times> cursor) res" where
  "unserial_uint64 be c =
     rbind (unser_bytes 8 c) (\<lambda>(bs, c').
       if htonl be 1 = 1 then Inr (host_word be bs, c')
       else (let rv = map (\<lambda>i. bs ! (7 - i)) [0..<8] in Inr (host_word be rv, c')))"

definition unserial_string :: "cursor \<Rightarrow> (byte list \<times> cursor) res" where
  "unserial_string c =
     (let rest = drop (cptr c) (cbuf c); str = takeWhile (\<lambda>b. b \<noteq> 0) rest in
      if length str < length rest then Inr (str, c\<lparr>cptr := cptr c + length str + 1\<rparr>)
      else Inl OutOfBounds)"

subsection \<open>Bytes and words\<close>

lemma length_le_bytes [simp]: "length (le_bytes n w) = n"
  by (induction n arbitrary: w) auto

lemma length_host_bytes [simp]: "length (host_bytes be n w) = n"
  by (simp add: host_bytes_def)

lemma from_le_bytes: "from_le (le_bytes n w) = (take_bit (8 * n) w :: 'a::len word)"
proof (induction n arbitrary: w)
  case (Suc n)
  show ?case
  proof (rule bit_word_eqI)
    fix i assume "i < LENGTH('a)"
    then show "bit (from_le (le_bytes (Suc n) w) :: 'a word) i = bit (take_bit (8 * Suc n) w) i"
      by (cases "i < 8") (auto simp: Suc.IH bit_simps)
  qed
qed simp

lemma le_bytes_from_le:
  "8 * length bs \<le> LENGTH('a) \<Longrightarrow> le_bytes (length bs) (from_le bs :: 'a::len word) = bs"
proof (induction bs)
  case (Cons b bs)
  have 1: "(ucast (from_le (b # bs) :: 'a word) :: byte) = b"
    using Cons.prems by (intro bit_word_eqI) (auto simp: bit_simps)
  have "drop_bit 8 (from_le (b # bs) :: 'a word) = take_bit (LENGTH('a) - 8) (from_le bs)"
    by (intro bit_word_eqI) (auto simp: bit_simps dest: bit_imp_le_length)
  moreover have "take_bit (LENGTH('a) - 8) (from_le bs :: 'a word) = from_le bs"
  proof -
    have "from_le bs = (take_bit (8 * length bs) (from_le bs) :: 'a word)"
      using from_le_bytes [of "length bs" "from_le bs :: 'a word"] Cons by simp
    then have "take_bit (LENGTH('a) - 8) (from_le bs :: 'a word) =
        take_bit (LENGTH('a) - 8) (take_bit (8 * length bs) (from_le bs))" by simp
    also have "\<dots> = take_bit (8 * length bs) (from_le bs)"
      using Cons.prems by (simp add: min_absorb2)
    finally show ?thesis using \<open>from_le bs = (take_bit (8 * length bs) (from_le bs) :: 'a word)\<close> by simp
  qed
  ultimately show ?case using 1 Cons by simp
qed simp

lemma host_word_bytes [simp]:
  "8 * n = LENGTH('a) \<Longrightarrow> host_word be (host_bytes be n w) = (w :: 'a::len word)"
  by (simp add: host_word_def host_bytes_def from_le_bytes take_bit_word_eq_self)

lemma host_bytes_word:
  "8 * length bs = LENGTH('a) \<Longrightarrow> length bs = n \<Longrightarrow>
   host_bytes be n (host_word be bs :: 'a::len word) = bs"
  using le_bytes_from_le [where 'a = 'a, of bs] le_bytes_from_le [where 'a = 'a, of "rev bs"]
  by (auto simp: host_word_def host_bytes_def)

text \<open>Network byte order, whatever the host.\<close>

lemma net_bytes_16: "host_bytes be 2 (htons be v) = rev (le_bytes 2 v)"
  using le_bytes_from_le [where 'a = 16, of "rev (le_bytes 2 v)"]
  by (simp add: host_bytes_def htons_def)

lemma net_bytes_32: "host_bytes be 4 (htonl be v) = rev (le_bytes 4 v)"
  using le_bytes_from_le [where 'a = 32, of "rev (le_bytes 4 v)"]
  by (simp add: host_bytes_def htonl_def)

lemma htonl_1: "htonl be 1 = 1 \<longleftrightarrow> be"
proof (cases be)
  case False
  have "htonl False 1 = 0x1000000" by (simp add: htonl_def numeral_eq_Suc)
  with False show ?thesis by simp
qed (simp add: htonl_def)

lemma map_rev_8: "length bs = 8 \<Longrightarrow> map (\<lambda>i. bs ! (7 - i)) [0..<8] = rev bs"
  by (intro nth_equalityI) (auto simp: rev_nth)

lemma serial_int64_net: "serial_int64 be v c = ser_bytes (rev (le_bytes 8 v)) c"
  by (simp add: serial_int64_def htonl_1 map_rev_8 host_bytes_def)

lemma serial_int32_net: "serial_int32 be v c = ser_bytes (rev (le_bytes 4 v)) c"
  by (simp add: serial_int32_def net_bytes_32)

lemma ntohl_net: "length bs = 4 \<Longrightarrow> ntohl be (host_word be bs) = from_le (rev bs)"
  using le_bytes_from_le [where 'a = 32, of bs] by (simp add: ntohl_def host_word_def)

lemma ntohs_net: "length bs = 2 \<Longrightarrow> ntohs be (host_word be bs) = from_le (rev bs)"
  using le_bytes_from_le [where 'a = 16, of bs] by (simp add: ntohs_def host_word_def)

lemma unser_bytes_length: "unser_bytes n c = Inr (bs, c') \<Longrightarrow> length bs = n"
  by (auto simp: unser_bytes_def split: if_splits)

lemma unserial_int64_net:
  "unserial_int64 be c = rbind (unser_bytes 8 c) (\<lambda>(bs, c'). Inr (from_le (rev bs), c'))"
  by (cases "unser_bytes 8 c")
    (auto simp: unserial_int64_def htonl_1 map_rev_8 host_word_def dest: unser_bytes_length)

lemma unserial_int32_net:
  "unserial_int32 be c = rbind (unser_bytes 4 c) (\<lambda>(bs, c'). Inr (from_le (rev bs), c'))"
  by (cases "unser_bytes 4 c") (auto simp: unserial_int32_def ntohl_net dest: unser_bytes_length)

subsection \<open>Sequences of writes and reads\<close>

lemma ser_bytes_append: "rbind (ser_bytes as c) (ser_bytes bs) = ser_bytes (as @ bs) c"
  by (auto simp: ser_bytes_def ac_simps)

lemma ser_bytes_Nil: "cptr c \<le> length (cbuf c) \<Longrightarrow> ser_bytes [] c = Inr c"
  by (simp add: ser_bytes_def)

lemma ser_bytes_concat:
  "cptr c \<le> length (cbuf c) \<Longrightarrow> rfold (\<lambda>x. ser_bytes (f x)) xs c = ser_bytes (concat (map f xs)) c"
proof (induction xs arbitrary: c)
  case (Cons x xs)
  have "ser_bytes (f x) c = Inr d \<Longrightarrow> cptr d \<le> length (cbuf d)" for d
    by (auto simp: ser_bytes_def split: if_splits)
  with Cons.IH have "rfold (\<lambda>x. ser_bytes (f x)) (x # xs) c =
      rbind (ser_bytes (f x) c) (ser_bytes (concat (map f xs)))"
    by (cases "ser_bytes (f x) c") auto
  then show ?case by (simp add: ser_bytes_append)
qed (simp add: ser_bytes_Nil)

text \<open>What a cursor reads next.\<close>

definition reads :: "cursor \<Rightarrow> byte list" where
  "reads c = drop (cptr c) (cbuf c)"

lemma unser_bytes_reads:
  assumes "reads c = bs @ rest" and "cptr c \<le> length (cbuf c)"
  shows "unser_bytes (length bs) c = Inr (bs, c\<lparr>cptr := cptr c + length bs\<rparr>)"
    and "reads (c\<lparr>cptr := cptr c + length bs\<rparr>) = rest"
    and "cptr c + length bs \<le> length (cbuf c)"
proof -
  from assms have len: "length (cbuf c) - cptr c = length bs + length rest"
    by (metis length_append length_drop reads_def)
  with assms show "cptr c + length bs \<le> length (cbuf c)" by simp
  with assms show "unser_bytes (length bs) c = Inr (bs, c\<lparr>cptr := cptr c + length bs\<rparr>)"
    by (simp add: unser_bytes_def reads_def)
  show "reads (c\<lparr>cptr := cptr c + length bs\<rparr>) = rest"
    using assms by (simp add: reads_def add.commute flip: drop_drop)
qed

end
