(* ===== verification/Destor_Types.thy ===== *)
theory Destor_Types
  imports Destor_Prelude Serial
begin

text \<open>
  The data of \<open>destor.h\<close>: chunk flags, chunks, segments and the global configuration, with
  the small operations of \<open>destor.c\<close> on them. The flag word is the C \<open>int flag\<close>. The
  contents of a freshly allocated data buffer are not modelled: every phase writes it before
  reading it, so \<open>new_chunk\<close> starts with no data.
\<close>

definition CHUNK_UNIQUE :: "32 word" where [cfg_simps]: "CHUNK_UNIQUE = 0x0000"
definition CHUNK_DUPLICATE :: "32 word" where [cfg_simps]: "CHUNK_DUPLICATE = 0x0100"
definition CHUNK_SPARSE :: "32 word" where [cfg_simps]: "CHUNK_SPARSE = 0x0200"
definition CHUNK_OUT_OF_ORDER :: "32 word" where [cfg_simps]: "CHUNK_OUT_OF_ORDER = 0x0400"
definition CHUNK_IN_CACHE :: "32 word" where [cfg_simps]: "CHUNK_IN_CACHE = 0x0800"
definition CHUNK_REWRITE_DENIED :: "32 word" where [cfg_simps]: "CHUNK_REWRITE_DENIED = 0x1000"
definition CHUNK_FILE_START :: "32 word" where [cfg_simps]: "CHUNK_FILE_START = 0x0001"
definition CHUNK_FILE_END :: "32 word" where [cfg_simps]: "CHUNK_FILE_END = 0x0002"
definition CHUNK_SEGMENT_START :: "32 word" where [cfg_simps]: "CHUNK_SEGMENT_START = 0x0004"
definition CHUNK_SEGMENT_END :: "32 word" where [cfg_simps]: "CHUNK_SEGMENT_END = 0x0008"
definition CHUNK_READY :: "32 word" where [cfg_simps]: "CHUNK_READY = 0x0020"

record chunk =
  ck_size :: int
  ck_flag :: "32 word"
  ck_id :: containerid
  ck_fp :: fingerprint
  ck_data :: "byte list"

definition SET_CHUNK :: "chunk \<Rightarrow> 32 word \<Rightarrow> chunk" where
  "SET_CHUNK c f = c\<lparr>ck_flag := ck_flag c OR f\<rparr>"

definition UNSET_CHUNK :: "chunk \<Rightarrow> 32 word \<Rightarrow> chunk" where
  "UNSET_CHUNK c f = c\<lparr>ck_flag := ck_flag c AND NOT f\<rparr>"

definition CHECK_CHUNK :: "chunk \<Rightarrow> 32 word \<Rightarrow> bool" where
  "CHECK_CHUNK c f \<longleftrightarrow> ck_flag c AND f \<noteq> 0"

definition zero_fp :: fingerprint where
  "zero_fp = replicate 20 0"

definition new_chunk :: "int \<Rightarrow> chunk" where
  "new_chunk n = \<lparr>ck_size = n, ck_flag = CHUNK_UNIQUE, ck_id = TEMPORARY_ID, ck_fp = zero_fp, ck_data = []\<rparr>"

record segment =
  seg_id :: segmentid
  seg_chunk_num :: int
  seg_chunks :: "chunk list"
  seg_features :: "byte list list option"   \<comment> \<open>a hash table used as a set of keys\<close>

definition new_segment :: segment where
  "new_segment = \<lparr>seg_id = TEMPORARY_ID, seg_chunk_num = 0, seg_chunks = [], seg_features = None\<rparr>"

definition new_segment_full :: segment where
  "new_segment_full = new_segment\<lparr>seg_features := Some []\<rparr>"

text \<open>\<open>memcmp\<close> on equally long byte strings: the sign of the first difference.\<close>

fun memcmp :: "byte list \<Rightarrow> byte list \<Rightarrow> int" where
  "memcmp (a # as) (b # bs) = (if a = b then memcmp as bs else if a < b then -1 else 1)"
| "memcmp _ _ = 0"

definition g_fingerprint_equal :: "fingerprint \<Rightarrow> fingerprint \<Rightarrow> bool" where
  "g_fingerprint_equal a b \<longleftrightarrow> memcmp a b = 0"

definition g_fingerprint_cmp :: "fingerprint \<Rightarrow> fingerprint \<Rightarrow> int" where
  "g_fingerprint_cmp a b = memcmp a b"

definition g_chunk_cmp :: "chunk \<Rightarrow> chunk \<Rightarrow> int" where
  "g_chunk_cmp a b = memcmp (ck_fp a) (ck_fp b)"

lemma memcmp_0: "length a = length b \<Longrightarrow> memcmp a b = 0 \<longleftrightarrow> a = b"
  by (induction a b rule: memcmp.induct) auto

text \<open>The two tests every phase makes on a chunk.\<close>

definition is_file_mark :: "chunk \<Rightarrow> bool" where
  "is_file_mark c \<longleftrightarrow> CHECK_CHUNK c CHUNK_FILE_START \<or> CHECK_CHUNK c CHUNK_FILE_END"

definition is_signal :: "chunk \<Rightarrow> bool" where
  "is_signal c \<longleftrightarrow> CHECK_CHUNK c CHUNK_FILE_START \<or> CHECK_CHUNK c CHUNK_FILE_END
     \<or> CHECK_CHUNK c CHUNK_SEGMENT_START \<or> CHECK_CHUNK c CHUNK_SEGMENT_END"

lemma set_chunk_simps [simp]:
  "ck_size (SET_CHUNK c f) = ck_size c" "ck_id (SET_CHUNK c f) = ck_id c"
  "ck_fp (SET_CHUNK c f) = ck_fp c" "ck_data (SET_CHUNK c f) = ck_data c"
  by (simp_all add: SET_CHUNK_def)

lemma new_chunk_simps [simp]:
  "ck_size (new_chunk n) = n" "ck_id (new_chunk n) = TEMPORARY_ID"
  "ck_fp (new_chunk n) = zero_fp" "ck_data (new_chunk n) = []" "ck_flag (new_chunk n) = 0"
  by (simp_all add: new_chunk_def CHUNK_UNIQUE_def)

lemma check_set [simp]: "CHECK_CHUNK (SET_CHUNK c f) g \<longleftrightarrow> CHECK_CHUNK c g \<or> f AND g \<noteq> 0"
  by (simp add: CHECK_CHUNK_def SET_CHUNK_def bit.conj_disj_distrib2 or_eq_0_iff)

lemma check_new [simp]: "\<not> CHECK_CHUNK (new_chunk n) f"
  by (simp add: CHECK_CHUNK_def)

lemma check_update [simp]:
  "CHECK_CHUNK (c\<lparr>ck_id := i\<rparr>) f = CHECK_CHUNK c f"
  "CHECK_CHUNK (c\<lparr>ck_data := d\<rparr>) f = CHECK_CHUNK c f"
  "CHECK_CHUNK (c\<lparr>ck_fp := p\<rparr>) f = CHECK_CHUNK c f"
  "CHECK_CHUNK (c\<lparr>ck_size := n\<rparr>) f = CHECK_CHUNK c f"
  by (simp_all add: CHECK_CHUNK_def)

lemma file_mark_set [simp]:
  "f AND CHUNK_FILE_START = 0 \<Longrightarrow> f AND CHUNK_FILE_END = 0 \<Longrightarrow> is_file_mark (SET_CHUNK c f) = is_file_mark c"
  by (simp add: is_file_mark_def)

lemma file_mark_update [simp]:
  "is_file_mark (c\<lparr>ck_id := i\<rparr>) = is_file_mark c" "is_file_mark (c\<lparr>ck_data := d\<rparr>) = is_file_mark c"
  by (simp_all add: is_file_mark_def)

lemma signal_file_mark: "\<not> is_signal c \<Longrightarrow> \<not> is_file_mark c"
  by (simp add: is_signal_def is_file_mark_def)

lemma flag_distinct [simp]:
  "CHUNK_DUPLICATE AND CHUNK_FILE_START = 0" "CHUNK_DUPLICATE AND CHUNK_FILE_END = 0"
  "CHUNK_REWRITE_DENIED AND CHUNK_FILE_START = 0" "CHUNK_REWRITE_DENIED AND CHUNK_FILE_END = 0"
  "CHUNK_OUT_OF_ORDER AND CHUNK_FILE_START = 0" "CHUNK_OUT_OF_ORDER AND CHUNK_FILE_END = 0"
  "CHUNK_SPARSE AND CHUNK_FILE_START = 0" "CHUNK_SPARSE AND CHUNK_FILE_END = 0"
  "CHUNK_IN_CACHE AND CHUNK_FILE_START = 0" "CHUNK_IN_CACHE AND CHUNK_FILE_END = 0"
  "CHUNK_READY AND CHUNK_FILE_START = 0" "CHUNK_READY AND CHUNK_FILE_END = 0"
  "CHUNK_REWRITE_DENIED AND CHUNK_DUPLICATE = 0" "CHUNK_OUT_OF_ORDER AND CHUNK_DUPLICATE = 0"
  "CHUNK_IN_CACHE AND CHUNK_DUPLICATE = 0" "CHUNK_SPARSE AND CHUNK_DUPLICATE = 0"
  "CHUNK_DUPLICATE AND CHUNK_DUPLICATE \<noteq> 0" "CHUNK_REWRITE_DENIED AND CHUNK_REWRITE_DENIED \<noteq> 0"
  "CHUNK_IN_CACHE AND CHUNK_REWRITE_DENIED = 0" "CHUNK_DUPLICATE AND CHUNK_REWRITE_DENIED = 0"
  "CHUNK_READY AND CHUNK_READY \<noteq> 0" "CHUNK_OUT_OF_ORDER AND CHUNK_OUT_OF_ORDER \<noteq> 0"
  "CHUNK_FILE_START AND CHUNK_FILE_START \<noteq> 0" "CHUNK_FILE_END AND CHUNK_FILE_END \<noteq> 0"
  "CHUNK_FILE_START AND CHUNK_FILE_END = 0" "CHUNK_FILE_END AND CHUNK_FILE_START = 0"
  "CHUNK_FILE_START \<noteq> 0" "CHUNK_FILE_END \<noteq> 0" "CHUNK_DUPLICATE \<noteq> 0" "CHUNK_REWRITE_DENIED \<noteq> 0"
  "CHUNK_READY \<noteq> 0" "CHUNK_OUT_OF_ORDER \<noteq> 0" "CHUNK_SPARSE \<noteq> 0" "CHUNK_IN_CACHE \<noteq> 0"
  by (simp_all add: cfg_simps)

end
