(* ===== verification/Rabin_Chunking.thy ===== *)
theory Rabin_Chunking
  imports Destor_Types
begin

text \<open>
  Content-defined chunking: \<open>chunking/rabin_chunking.c\<close> (polynomial arithmetic over GF(2),
  the two lookup tables, the sliding window, and the three Rabin-based chunkers) and
  \<open>chunking/ae_chunking.c\<close>. Sizes and indices of a block are \<open>nat\<close>; fingerprints are
  64-bit words. An index beyond a table or the block is \<open>OutOfBounds\<close>.
\<close>

type_synonym u64 = "64 word"

definition FINGERPRINT_PT :: u64 where "FINGERPRINT_PT = 0xbfe6b8a5bf378d83"
definition BREAKMARK_VALUE :: u64 where "BREAKMARK_VALUE = 0x78"
definition win_size :: nat where "win_size = 48"

definition bytemsb :: "nat list" where
  "bytemsb = [0, 1] @ replicate 2 2 @ replicate 4 3 @ replicate 8 4 @ replicate 16 5 @
     replicate 32 6 @ replicate 64 7 @ replicate 128 8"

definition fls32 :: "32 word \<Rightarrow> nat" where
  "fls32 v =
     (if v AND 0xffff0000 \<noteq> 0 then
        (if v AND 0xff000000 \<noteq> 0 then 24 + bytemsb ! unat (drop_bit 24 v)
         else 16 + bytemsb ! unat (drop_bit 16 v))
      else if v AND 0x0000ff00 \<noteq> 0 then 8 + bytemsb ! unat (drop_bit 8 v)
      else bytemsb ! unat v)"

definition fls64 :: "u64 \<Rightarrow> nat" where
  "fls64 v =
     (let h = (ucast (drop_bit 32 v) :: 32 word) in
      if h \<noteq> 0 then 32 + fls32 h else fls32 (ucast v))"

definition polymod :: "u64 \<Rightarrow> u64 \<Rightarrow> u64 \<Rightarrow> u64" where
  "polymod nh nl d =
     (let k = fls64 d - 1;
          d = push_bit (63 - k) d;
          (nh, nl) =
            (if nh \<noteq> 0 then
               fold (\<lambda>i (nh, nl). if bit nh i then (nh XOR drop_bit (63 - i) d, nl XOR push_bit (i + 1) d)
                                 else (nh, nl))
                 (rev [0..<63]) (if bit nh 63 then nh XOR d else nh, nl)
             else (nh, nl))
      in fold (\<lambda>i nl. if bit nl i then nl XOR drop_bit (63 - i) d else nl) (rev [k..<64]) nl)"

definition polymult :: "u64 \<Rightarrow> u64 \<Rightarrow> u64 \<times> u64" where   \<comment> \<open>(high, low)\<close>
  "polymult x y =
     fold (\<lambda>i (ph, pl). if bit x i then (ph XOR drop_bit (64 - i) y, pl XOR push_bit i y) else (ph, pl))
       [1..<64] (0, if bit x 0 then y else 0)"

definition polymmult :: "u64 \<Rightarrow> u64 \<Rightarrow> u64 \<Rightarrow> u64" where
  "polymmult x y d = (let (h, l) = polymult x y in polymod h l d)"

record rabin =
  tab_T :: "u64 list"
  tab_U :: "u64 list"
  rshift :: nat

definition calcT :: "u64 \<Rightarrow> u64 list \<times> nat" where
  "calcT poly =
     (let xshift = fls64 poly - 1;
          T1 = polymod 0 (push_bit xshift 1) poly
      in (map (\<lambda>j. polymmult (of_nat j) T1 poly OR push_bit xshift (of_nat j)) [0..<256], xshift - 8))"

definition append8 :: "u64 list \<Rightarrow> nat \<Rightarrow> u64 \<Rightarrow> byte \<Rightarrow> u64 res" where
  "append8 T sh p m =
     (if unat (drop_bit sh p) < length T
      then Inr ((push_bit 8 p OR ucast m) XOR T ! unat (drop_bit sh p))
      else Inl OutOfBounds)"

definition window_init :: "u64 \<Rightarrow> rabin res" where
  "window_init poly =
     (let (T, sh) = calcT poly in
      rbind (rfold (\<lambda>_ s. append8 T sh s 0) [1..<win_size] 1) (\<lambda>sizeshift.
        Inr \<lparr>tab_T = T, tab_U = map (\<lambda>i. polymmult (of_nat i) sizeshift poly) [0..<256], rshift = sh\<rparr>))"

subsection \<open>The sliding window\<close>

record win =
  w_fp :: u64
  w_pos :: int
  w_buf :: "byte list"

definition win_start :: win where
  "win_start = \<lparr>w_fp = 0, w_pos = -1, w_buf = replicate 128 0\<rparr>"

definition SLIDE :: "rabin \<Rightarrow> byte \<Rightarrow> win \<Rightarrow> win res" where
  "SLIDE tb m w =
     (let pos = (if w_pos w + 1 \<ge> int win_size then 0 else w_pos w + 1);
          om = w_buf w ! nat pos;
          buf = (w_buf w)[nat pos := m];
          fp = w_fp w XOR tab_U tb ! unat om;
          x = drop_bit (rshift tb) fp;
          fp = push_bit 8 fp OR ucast m
      in if unat x < length (tab_T tb)
         then Inr \<lparr>w_fp = fp XOR tab_T tb ! unat x, w_pos = pos, w_buf = buf\<rparr>
         else Inl OutOfBounds)"

text \<open>\<open>p[i]\<close> of a block; the index of a C array access below zero or beyond the block is
  a fault.\<close>

definition at :: "byte list \<Rightarrow> int \<Rightarrow> byte res" where
  "at p i = (if 0 \<le> i \<and> i < int (length p) then Inr (p ! nat i) else Inl OutOfBounds)"

function rabin_loop :: "rabin \<Rightarrow> u64 \<Rightarrow> byte list \<Rightarrow> nat \<Rightarrow> nat \<Rightarrow> win \<Rightarrow> nat res" where
  "rabin_loop tb rabin_mask p fin i w =
     (if i < fin then
        rbind (at p (int i - 1)) (\<lambda>m. rbind (SLIDE tb m w) (\<lambda>w.
          if w_fp w AND rabin_mask = BREAKMARK_VALUE then Inr i
          else rabin_loop tb rabin_mask p fin (i + 1) w))
      else Inr i)"
  by pat_completeness auto
termination by (relation "measure (\<lambda>(tb, mk, p, e, i, w). e - i)") auto

record chunk_cfg =
  chunk_min_size :: nat
  chunk_max_size :: nat
  chunk_avg_size :: nat

definition int_mask :: "nat \<Rightarrow> u64" where   \<comment> \<open>a C \<open>int\<close> mask, sign-extended to 64 bits\<close>
  "int_mask a = scast (word_of_int (int a - 1) :: 32 word)"

definition rabin_chunk_data :: "chunk_cfg \<Rightarrow> rabin \<Rightarrow> byte list \<Rightarrow> nat \<Rightarrow> nat res" where
  "rabin_chunk_data cfg tb p n =
     (if n \<le> chunk_min_size cfg then Inr n
      else rabin_loop tb (int_mask (chunk_avg_size cfg)) p (min n (chunk_max_size cfg)) (chunk_min_size cfg) win_start)"

function normalized_loop :: "chunk_cfg \<Rightarrow> rabin \<Rightarrow> u64 \<Rightarrow> u64 \<Rightarrow> byte list \<Rightarrow> nat \<Rightarrow> nat \<Rightarrow> win \<Rightarrow> nat res" where
  "normalized_loop cfg tb small_mask large_mask p fin i w =
     (if i < fin then
        rbind (at p (int i - 1)) (\<lambda>m. rbind (SLIDE tb m w) (\<lambda>w.
          if i < chunk_avg_size cfg then
            (if w_fp w AND small_mask = BREAKMARK_VALUE then Inr i
             else normalized_loop cfg tb small_mask large_mask p fin (i + 1) w)
          else
            (if w_fp w AND large_mask = BREAKMARK_VALUE then Inr i
             else normalized_loop cfg tb small_mask large_mask p fin (i + 1) w)))
      else Inr i)"
  by pat_completeness auto
termination by (relation "measure (\<lambda>(c, tb, s, l, p, e, i, w). e - i)") auto

definition normalized_rabin_chunk_data :: "chunk_cfg \<Rightarrow> rabin \<Rightarrow> byte list \<Rightarrow> nat \<Rightarrow> nat res" where
  "normalized_rabin_chunk_data cfg tb p n =
     (if n \<le> chunk_min_size cfg then Inr n
      else normalized_loop cfg tb (int_mask (chunk_avg_size cfg * 2)) (int_mask (chunk_avg_size cfg div 2)) p
             (min n (chunk_max_size cfg)) (chunk_min_size cfg) win_start)"

function tttd_loop :: "rabin \<Rightarrow> u64 \<Rightarrow> u64 \<Rightarrow> byte list \<Rightarrow> nat \<Rightarrow> nat \<Rightarrow> nat \<Rightarrow> win \<Rightarrow> nat res" where
  "tttd_loop tb back_mask rabin_mask p fin i m w =
     (if i < fin then
        rbind (at p (int i - 1)) (\<lambda>b. rbind (SLIDE tb b w) (\<lambda>w.
          if w_fp w AND back_mask = BREAKMARK_VALUE then
            (if w_fp w AND rabin_mask = BREAKMARK_VALUE then Inr i
             else tttd_loop tb back_mask rabin_mask p fin (i + 1) i w)
          else tttd_loop tb back_mask rabin_mask p fin (i + 1) m w))
      else if m \<noteq> 0 then Inr m else Inr i)"
  by pat_completeness auto
termination by (relation "measure (\<lambda>(tb, b, r, p, e, i, m, w). e - i)") auto

definition tttd_chunk_data :: "chunk_cfg \<Rightarrow> rabin \<Rightarrow> byte list \<Rightarrow> nat \<Rightarrow> nat res" where
  "tttd_chunk_data cfg tb p n =
     (if n \<le> chunk_min_size cfg then Inr n
      else tttd_loop tb (int_mask (chunk_avg_size cfg div 2)) (int_mask (chunk_avg_size cfg)) p
             (min n (chunk_max_size cfg)) (chunk_min_size cfg) 0 win_start)"

declare rabin_loop.simps [simp del] normalized_loop.simps [simp del] tttd_loop.simps [simp del]

subsection \<open>Asymmetric extremum\<close>

definition load_be64 :: "byte list \<Rightarrow> nat \<Rightarrow> u64" where
  "load_be64 p i = from_le (rev (take 8 (drop i p)))"

definition my_memcmp :: "byte list \<Rightarrow> nat \<Rightarrow> nat \<Rightarrow> int" where
  "my_memcmp p x y = (if load_be64 p x > load_be64 p y then 1 else -1)"

function ae_loop :: "nat \<Rightarrow> nat \<Rightarrow> byte list \<Rightarrow> nat \<Rightarrow> nat \<Rightarrow> nat \<Rightarrow> nat" where
  "ae_loop window_size max_sz p n cur mx =
     (if cur + 8 \<le> n then
        (if my_memcmp p cur mx < 0 then ae_loop window_size max_sz p n (cur + 1) cur
         else if cur = mx + window_size \<or> cur = max_sz then cur
         else ae_loop window_size max_sz p n (cur + 1) mx)
      else n)"
  by pat_completeness auto
termination by (relation "measure (\<lambda>(ws, m, p, n, c, x). n - c)") auto

declare ae_loop.simps [simp del]

definition ae_chunk_data :: "nat \<Rightarrow> nat \<Rightarrow> byte list \<Rightarrow> nat \<Rightarrow> nat" where
  "ae_chunk_data window_size max_sz p n =
     (if n \<le> window_size + 8 then n else ae_loop window_size max_sz p n 1 0)"

definition fixed_chunk_data :: "chunk_cfg \<Rightarrow> nat \<Rightarrow> nat" where
  "fixed_chunk_data cfg sz = (if chunk_avg_size cfg > sz then sz else chunk_avg_size cfg)"

subsection \<open>The most significant bit\<close>

definition msb_ok :: "nat \<Rightarrow> nat \<Rightarrow> bool" where
  "msb_ok x n \<longleftrightarrow> x < 2 ^ n \<and> (0 < x \<longrightarrow> 0 < n \<and> 2 ^ (n - 1) \<le> x)"

lemma bytemsb_table: "list_all (\<lambda>b. msb_ok b (bytemsb ! b)) [0..<256]"
  unfolding msb_ok_def bytemsb_def by code_simp

lemma bytemsb_ok: "b < 256 \<Longrightarrow> msb_ok b (bytemsb ! b)"
  using bytemsb_table by (simp add: list_all_iff)

lemma msb_ok_shift:
  assumes "msb_ok (x div 2 ^ s) n" and "0 < x div 2 ^ s"
  shows "msb_ok x (s + n)"
proof -
  from assms obtain m where m: "n = Suc m" "2 ^ m \<le> x div 2 ^ s" "x div 2 ^ s < 2 ^ Suc m"
    by (cases n) (auto simp: msb_ok_def)
  from m(2) have "2 ^ m * 2 ^ s \<le> x" by (metis div_times_less_eq_dividend order_trans mult_le_mono1)
  moreover from m(3) have "x < 2 ^ Suc m * 2 ^ s"
    using div_less_iff_less_mult [of "2 ^ s" x "2 ^ Suc m"] by simp
  ultimately show ?thesis using m(1) by (simp add: msb_ok_def power_add ac_simps)
qed

lemma and_high_zero: "(v :: 32 word) AND push_bit n (mask (32 - n)) = push_bit n (drop_bit n v)"
  by (intro bit_word_eqI) (auto simp: bit_simps)

lemma push_drop_zero: "push_bit n (drop_bit n v) = (0 :: 32 word) \<longleftrightarrow> drop_bit n v = 0"
proof
  assume "push_bit n (drop_bit n v) = 0"
  then have "drop_bit n (push_bit n (drop_bit n v)) = 0" by simp
  moreover have "drop_bit n (push_bit n (drop_bit n v)) = drop_bit n v"
    by (intro bit_word_eqI) (auto simp: bit_simps dest: bit_imp_le_length)
  ultimately show "drop_bit n v = 0" by simp
qed simp

lemma unat_drop: "unat (drop_bit n (v :: 'a::len word)) = unat v div 2 ^ n"
  unfolding unat_drop_bit_eq by (simp add: drop_bit_eq_div)

lemma unat_eq_zero: "unat (v :: 'a::len word) = 0 \<longleftrightarrow> v = 0"
  by (simp add: unat_eq_0)

lemma fls32_ok: "msb_ok (unat v) (fls32 v)"
proof -
  have bnd: "unat v < 2 ^ LENGTH(32)" by (rule unsigned_less)
  have m16: "(0xffff0000 :: 32 word) = push_bit 16 (mask (32 - 16))"
    and m24: "(0xff000000 :: 32 word) = push_bit 24 (mask (32 - 24))" by code_simp+
  have t16: "v AND 0xffff0000 \<noteq> 0 \<longleftrightarrow> 0 < unat v div 2 ^ 16"
    unfolding m16 and_high_zero push_drop_zero using unat_eq_zero [of "drop_bit 16 v"] unat_drop [of 16 v] by auto
  have t24: "v AND 0xff000000 \<noteq> 0 \<longleftrightarrow> 0 < unat v div 2 ^ 24"
    unfolding m24 and_high_zero push_drop_zero using unat_eq_zero [of "drop_bit 24 v"] unat_drop [of 24 v] by auto
  have t8: "v AND 0x0000ff00 \<noteq> 0 \<longleftrightarrow> 0 < unat v div 2 ^ 8" if "unat v div 2 ^ 16 = 0"
  proof -
    from that have "drop_bit 16 v = 0" by (metis unat_drop unat_eq_zero)
    then have hi: "\<not> bit v i" if "16 \<le> i" for i
    proof -
      from that have "bit (drop_bit 16 v) (i - 16) = bit v i" by (simp add: bit_drop_bit_eq)
      with \<open>drop_bit 16 v = 0\<close> show ?thesis by simp
    qed
    have ff: "(0x0000ff00 :: 32 word) = push_bit 8 (mask 8)" by code_simp
    have "v AND 0x0000ff00 = push_bit 8 (drop_bit 8 v)"
      unfolding ff
    proof (rule bit_word_eqI)
      fix n assume "n < LENGTH(32)"
      show "bit (v AND push_bit 8 (mask 8)) n = bit (push_bit 8 (drop_bit 8 v)) n"
        by (cases "n < 16") (auto simp: bit_simps hi)
    qed
    then show ?thesis unfolding push_drop_zero
      using push_drop_zero [of 8 v] unat_eq_zero [of "drop_bit 8 v"] unat_drop [of 8 v] by auto
  qed
  consider (a) "0 < unat v div 2 ^ 24" | (b) "unat v div 2 ^ 24 = 0" "0 < unat v div 2 ^ 16"
    | (c) "unat v div 2 ^ 16 = 0" "0 < unat v div 2 ^ 8" | (d) "unat v div 2 ^ 16 = 0" "unat v div 2 ^ 8 = 0"
    by linarith
  then show ?thesis
  proof cases
    case a
    then have "0 < unat v div 2 ^ 16" by (simp add: div_greater_zero_iff)
    moreover have "unat v div 2 ^ 24 < 256" using bnd by (simp add: less_mult_imp_div_less)
    ultimately show ?thesis
      using a t16 t24 msb_ok_shift [of "unat v" 24, OF bytemsb_ok] by (simp add: fls32_def unat_drop)
  next
    case b
    then have "unat v div 2 ^ 16 < 256" by (simp add: div_eq_0_iff less_mult_imp_div_less)
    with b t16 t24 msb_ok_shift [of "unat v" 16, OF bytemsb_ok] show ?thesis by (simp add: fls32_def unat_drop)
  next
    case c
    then have "unat v div 2 ^ 8 < 256" by (simp add: div_eq_0_iff less_mult_imp_div_less)
    with c t16 t8 msb_ok_shift [of "unat v" 8, OF bytemsb_ok] show ?thesis by (simp add: fls32_def unat_drop)
  next
    case d
    then have "unat v < 256" by (simp add: div_eq_0_iff)
    with d t16 t8 bytemsb_ok show ?thesis by (simp add: fls32_def)
  qed
qed

lemma fls64_ok: "msb_ok (unat v) (fls64 v)"
proof -
  have bnd: "unat v < 2 ^ LENGTH(64)" by (rule unsigned_less)
  then have h: "unat (ucast (drop_bit 32 v) :: 32 word) = unat v div 2 ^ 32"
    by (simp add: unsigned_ucast_eq unat_drop take_bit_nat_eq_self_iff less_mult_imp_div_less del: unsigned_drop_bit_eq)
  show ?thesis
  proof (cases "(ucast (drop_bit 32 v) :: 32 word) = 0")
    case False
    then have "0 < unat v div 2 ^ 32" using h unat_eq_zero by (metis neq0_conv)
    with False msb_ok_shift fls32_ok [of "ucast (drop_bit 32 v)"] show ?thesis
      by (simp add: fls64_def Let_def h)
  next
    case True
    then have "unat v div 2 ^ 32 = 0" using h by simp
    then have "unat v < 2 ^ 32" by (simp add: div_eq_0_iff)
    then have "unat (ucast v :: 32 word) = unat v"
      by (simp add: unsigned_ucast_eq take_bit_nat_eq_self_iff)
    with True fls32_ok [of "ucast v"] show ?thesis by (simp add: fls64_def)
  qed
qed

lemma msb_ok_bit:
  assumes "msb_ok (unat (v :: 'a::len word)) n" and "v \<noteq> 0"
  shows "0 < n \<and> n \<le> LENGTH('a) \<and> bit v (n - 1)"
proof -
  from assms have n: "0 < n" "2 ^ (n - 1) \<le> unat v" "unat v < 2 ^ n"
    by (auto simp: msb_ok_def unat_gt_0)
  then obtain m where m: "n = Suc m" by (cases n) auto
  with n have "unat v div 2 ^ m = 1"
    by (simp add: div_nat_eqI)
  then have "bit (unat v) m" by (simp add: bit_iff_odd)
  then have "bit v m" by (simp add: bit_unsigned_iff)
  with m show ?thesis by (auto dest: bit_imp_le_length)
qed

subsection \<open>Remainders\<close>

definition no_bit_from :: "nat \<Rightarrow> u64 \<Rightarrow> bool" where
  "no_bit_from k w \<longleftrightarrow> (\<forall>i\<ge>k. \<not> bit w i)"

lemma reduce_step:
  assumes "bit d 63" and "no_bit_from (Suc j) nl" and "j < 64"
  shows "no_bit_from j (if bit nl j then nl XOR drop_bit (63 - j) d else nl)"
proof -
  have "\<not> bit (nl XOR drop_bit (63 - j) d) i" if "bit nl j" "j \<le> i" for i
  proof (cases "i = j")
    case True
    with assms that show ?thesis by (simp add: bit_simps)
  next
    case False
    with that assms have "\<not> bit nl i" "\<not> bit d (63 - j + i)"
      by (auto simp: no_bit_from_def dest: bit_imp_le_length)
    then show ?thesis by (simp add: bit_simps)
  qed
  moreover have "\<not> bit nl i" if "\<not> bit nl j" "j \<le> i" for i
    using assms that by (cases "i = j") (auto simp: no_bit_from_def)
  ultimately show ?thesis by (auto simp: no_bit_from_def)
qed

lemma reduce_fold:
  assumes "bit d 63" and "k \<le> j" and "j \<le> 64" and "no_bit_from j nl"
  shows "no_bit_from k (fold (\<lambda>i nl. if bit nl i then nl XOR drop_bit (63 - i) d else nl) (rev [k..<j]) nl)"
  using assms(2-4)
proof (induction j arbitrary: nl rule: dec_induct)
  case base
  then show ?case by simp
next
  case (step j)
  then show ?case using reduce_step [OF assms(1), of j nl] by simp
qed

lemma polymod_bound:
  assumes "d \<noteq> 0"
  shows "no_bit_from (fls64 d - 1) (polymod nh nl d)"
proof -
  from msb_ok_bit [OF fls64_ok assms] have k: "fls64 d - 1 < 64" "bit d (fls64 d - 1)" by auto
  then have d: "bit (push_bit (63 - (fls64 d - 1)) d) 63" by (simp add: bit_simps)
  have "no_bit_from 64 x" for x :: u64 by (auto simp: no_bit_from_def dest: bit_imp_le_length)
  with k show ?thesis
    unfolding polymod_def Let_def case_prod_beta by (intro reduce_fold [OF d]) auto
qed

subsection \<open>Carry-less multiplication\<close>

definition clmul :: "u64 \<Rightarrow> u64 \<Rightarrow> 128 word" where
  "clmul x y = fold (\<lambda>i acc. if bit x i then acc XOR push_bit i (ucast y) else acc) [0..<64] 0"

definition join128 :: "u64 \<times> u64 \<Rightarrow> 128 word" where
  "join128 p = push_bit 64 (ucast (fst p)) XOR ucast (snd p)"

lemma join128_step:
  assumes "i < 64"
  shows "join128 (ph XOR drop_bit (64 - i) y, pl XOR push_bit i y) = join128 (ph, pl) XOR push_bit i (ucast y)"
proof (rule bit_word_eqI)
  fix n assume "n < LENGTH(128)"
  have [simp]: "64 \<le> n \<Longrightarrow> 64 - i + (n - 64) = n - i" using assms by simp
  show "bit (join128 (ph XOR drop_bit (64 - i) y, pl XOR push_bit i y)) n =
        bit (join128 (ph, pl) XOR push_bit i (ucast y) :: 128 word) n"
    using assms \<open>n < LENGTH(128)\<close>
    by (cases "n < 64") (auto simp: join128_def bit_simps dest: bit_imp_le_length)
qed

lemma polymult_fold:
  assumes "set is \<subseteq> {..<64}" and "join128 p = acc"
  shows "join128 (fold (\<lambda>i (ph, pl). if bit x i then (ph XOR drop_bit (64 - i) y, pl XOR push_bit i y) else (ph, pl)) is p) =
    fold (\<lambda>i acc. if bit x i then acc XOR push_bit i (ucast y) else acc) is acc"
  using assms
proof (induction "is" arbitrary: p acc)
  case (Cons i "is")
  obtain ph pl where p: "p = (ph, pl)" by (cases p)
  from Cons.prems show ?case
    using join128_step [of i ph y pl] by (auto simp: p intro!: Cons.IH)
qed simp

text \<open>C35: the two words polymult returns are the carry-less product of its arguments, for all 64-bit inputs: the shift-and-xor loop loses no bit.\<close>

lemma polymult_clmul: "join128 (polymult x y) = clmul x y"
proof -
  have "join128 (0, if bit x 0 then y else 0) = (if bit x 0 then 0 XOR push_bit 0 (ucast y) else 0)"
    by (simp add: join128_def)
  moreover have "set [1..<64] \<subseteq> {..<64 :: nat}" by auto
  ultimately
  have "join128 (polymult x y) = fold (\<lambda>i acc. if bit x i then acc XOR push_bit i (ucast y) else acc) (0 # [1..<64]) 0"
    using polymult_fold [of "[1..<64]" "(0, if bit x 0 then y else 0)" _ x y] by (simp add: polymult_def)
  also have "0 # [1..<64] = [0..<64]" by (simp add: upt_conv_Cons)
  finally show ?thesis by (simp add: clmul_def)
qed

subsection \<open>Safety of the tables\<close>

definition tab_ok :: "rabin \<Rightarrow> bool" where
  "tab_ok tb \<longleftrightarrow> length (tab_T tb) = 256 \<and> length (tab_U tb) = 256 \<and> rshift tb = 55 \<and>
     (\<forall>j<256. bit (tab_T tb ! j) 63 = odd j) \<and> (\<forall>j<256. \<not> bit (tab_U tb ! j) 63)"

definition win_ok :: "win \<Rightarrow> bool" where
  "win_ok w \<longleftrightarrow> length (w_buf w) = 128 \<and> -1 \<le> w_pos w \<and> w_pos w < 48 \<and> \<not> bit (w_fp w) 63"

lemma win_ok_start: "win_ok win_start"
  by (simp add: win_ok_def win_start_def)

lemma top_byte_index: "\<not> bit (p :: u64) 63 \<Longrightarrow> unat (drop_bit 55 p) < 256"
proof -
  assume "\<not> bit p 63"
  have "p = take_bit 63 p"
  proof (rule bit_word_eqI)
    fix n assume "n < LENGTH(64)"
    with \<open>\<not> bit p 63\<close> show "bit p n = bit (take_bit 63 p) n"
      by (cases "n = 63") (auto simp: bit_simps)
  qed
  then have "unat p < 2 ^ 63" by (metis unsigned_take_bit_eq take_bit_nat_less_exp)
  then show ?thesis by (simp only: unat_drop) (simp add: less_mult_imp_div_less)
qed

lemma shift_in_top: "bit (push_bit 8 (p :: u64) OR ucast (m :: byte)) 63 = odd (unat (drop_bit 55 p))"
proof -
  have "odd (unat (drop_bit 55 p)) = bit (unat p) 55" unfolding unat_drop bit_iff_odd ..
  also have "\<dots> = bit p 55" by (simp add: bit_unsigned_iff)
  finally have "odd (unat (drop_bit 55 p)) = bit p 55" .
  then show ?thesis by (auto simp: bit_simps dest: bit_imp_le_length)
qed

lemma append8_ok:
  assumes "length T = 256" and "\<forall>j<256. bit (T ! j) 63 = odd j" and "\<not> bit p 63"
  shows "\<exists>q. append8 T 55 p m = Inr q \<and> \<not> bit q 63"
proof -
  have "unat (drop_bit 55 p) < 256" by (rule top_byte_index [OF assms(3)])
  with assms shift_in_top [of p m] show ?thesis by (simp add: append8_def bit_xor_iff)
qed

lemma SLIDE_ok:
  assumes "tab_ok tb" and "win_ok w"
  shows "\<exists>w'. SLIDE tb m w = Inr w' \<and> win_ok w'"
proof -
  define pos where "pos = (if w_pos w + 1 \<ge> int win_size then 0 else w_pos w + 1)"
  define fp where "fp = w_fp w XOR tab_U tb ! unat (w_buf w ! nat pos)"
  have "unat (w_buf w ! nat pos) < 2 ^ LENGTH(8)" by (rule unsigned_less)
  then have "unat (w_buf w ! nat pos) < 256" by simp
  with assms have fp: "\<not> bit fp 63" by (simp add: fp_def tab_ok_def win_ok_def bit_xor_iff)
  have "0 \<le> pos \<and> pos < 48" using assms by (auto simp: pos_def win_ok_def win_size_def)
  with assms shift_in_top [of fp m] top_byte_index [OF fp] show ?thesis
    by (simp add: SLIDE_def Let_def pos_def [symmetric] fp_def [symmetric] tab_ok_def win_ok_def bit_xor_iff del: drop_bit_xor)
qed

lemma fls64_PT: "fls64 FINGERPRINT_PT = 64"
  by (simp add: fls64_def fls32_def FINGERPRINT_PT_def bytemsb_def Let_def nth_append)

lemma polymmult_PT: "\<not> bit (polymmult x y FINGERPRINT_PT) 63"
proof -
  have "FINGERPRINT_PT \<noteq> 0" by (simp add: FINGERPRINT_PT_def)
  from polymod_bound [OF this] fls64_PT show ?thesis
    by (auto simp: polymmult_def no_bit_from_def split: prod.splits)
qed

lemma window_init_ok: "\<exists>tb. window_init FINGERPRINT_PT = Inr tb \<and> tab_ok tb"
proof -
  define T where "T = fst (calcT FINGERPRINT_PT)"
  have sh: "calcT FINGERPRINT_PT = (T, 55)"
    by (simp add: T_def calcT_def Let_def fls64_PT)
  have len: "length T = 256" by (simp add: T_def calcT_def Let_def)
  have "bit (T ! j) 63 = odd j" if "j < 256" for j
    using that polymmult_PT
    by (simp add: T_def calcT_def Let_def fls64_PT bit_simps bit_0)
  then have T: "\<forall>j<256. bit (T ! j) 63 = odd j" by blast
  have "\<exists>s. rfold (\<lambda>_ s. append8 T 55 s 0) [1..<win_size] 1 = Inr s \<and> \<not> bit s 63"
    by (rule rfold_total) (simp_all add: append8_ok [OF len T])
  then obtain s where "rfold (\<lambda>_ s. append8 T 55 s 0) [1..<win_size] 1 = Inr s" by blast
  then show ?thesis
    by (simp add: window_init_def sh tab_ok_def len T polymmult_PT)
qed

subsection \<open>Cut points\<close>

lemma at_ok: "1 \<le> i \<Longrightarrow> i \<le> length p \<Longrightarrow> at p (int i - 1) = Inr (p ! (i - 1))"
  by (auto simp: at_def nat_diff_distrib)

lemma rabin_loop_bounds:
  assumes "tab_ok tb" and "fin \<le> length p" and "1 \<le> i" and "win_ok w"
  shows "\<exists>r. rabin_loop tb mk p fin i w = Inr r \<and> i \<le> r \<and> r \<le> max i fin"
  using assms
proof (induction tb mk p fin i w rule: rabin_loop.induct)
  case (1 tb mk p fin i w)
  show ?case
  proof (cases "i < fin")
    case True
    obtain w' where w': "SLIDE tb (p ! (i - 1)) w = Inr w'" "win_ok w'"
      using SLIDE_ok 1 by blast
    from True 1 have a: "at p (int i - 1) = Inr (p ! (i - 1))" by (simp add: at_ok)
    show ?thesis
    proof (cases "w_fp w' AND mk = BREAKMARK_VALUE")
      case False
      with "1.IH" [OF True, of w'] "1.prems" w' obtain r where
        "rabin_loop tb mk p fin (i + 1) w' = Inr r" "i + 1 \<le> r" "r \<le> max (i + 1) fin" by auto
      with True a w' False show ?thesis by (subst rabin_loop.simps) auto
    qed (use True a w' in \<open>subst rabin_loop.simps, auto\<close>)
  qed (subst rabin_loop.simps, auto)
qed

lemma normalized_loop_bounds:
  assumes "tab_ok tb" and "fin \<le> length p" and "1 \<le> i" and "win_ok w"
  shows "\<exists>r. normalized_loop cfg tb s l p fin i w = Inr r \<and> i \<le> r \<and> r \<le> max i fin"
  using assms
proof (induction cfg tb s l p fin i w rule: normalized_loop.induct)
  case (1 cfg tb s l p fin i w)
  show ?case
  proof (cases "i < fin")
    case True
    obtain w' where w': "SLIDE tb (p ! (i - 1)) w = Inr w'" "win_ok w'"
      using SLIDE_ok 1 by blast
    from True 1 have a: "at p (int i - 1) = Inr (p ! (i - 1))" by (simp add: at_ok)
    show ?thesis
    proof (cases "w_fp w' AND (if i < chunk_avg_size cfg then s else l) = BREAKMARK_VALUE")
      case False
      with "1.IH"(1) [OF True, of w'] "1.IH"(2) [OF True, of w'] "1.prems" w'
      obtain r where "normalized_loop cfg tb s l p fin (i + 1) w' = Inr r" "i + 1 \<le> r" "r \<le> max (i + 1) fin"
        by (auto split: if_splits)
      with True a w' False show ?thesis by (subst normalized_loop.simps) auto
    qed (use True a w' in \<open>subst normalized_loop.simps, auto split: if_splits\<close>)
  qed (subst normalized_loop.simps, auto)
qed

lemma tttd_loop_bounds:
  assumes "tab_ok tb" and "fin \<le> length p" and "1 \<le> i" and "win_ok w" and "m = 0 \<or> b \<le> m \<and> m < i" and "b \<le> i"
  shows "\<exists>r. tttd_loop tb bm rm p fin i m w = Inr r \<and> b \<le> r \<and> r \<le> max i fin"
  using assms
proof (induction tb bm rm p fin i m w rule: tttd_loop.induct)
  case (1 tb bm rm p fin i m w)
  show ?case
  proof (cases "i < fin")
    case True
    obtain w' where w': "SLIDE tb (p ! (i - 1)) w = Inr w'" "win_ok w'"
      using SLIDE_ok 1 by blast
    from True 1 have a: "at p (int i - 1) = Inr (p ! (i - 1))" by (simp add: at_ok)
    show ?thesis
    proof (cases "w_fp w' AND bm = BREAKMARK_VALUE")
      case bm: True
      show ?thesis
      proof (cases "w_fp w' AND rm = BREAKMARK_VALUE")
        case False
        with bm "1.IH"(1) [OF True, of w'] "1.prems" w' obtain r where
          "tttd_loop tb bm rm p fin (i + 1) i w' = Inr r" "b \<le> r" "r \<le> max (i + 1) fin" by auto
        with True a w' False bm show ?thesis by (subst tttd_loop.simps) auto
      qed (use True a w' bm "1.prems" in \<open>subst tttd_loop.simps, auto\<close>)
    next
      case False
      with "1.IH"(2) [OF True, of w'] "1.prems" w' obtain r where
        "tttd_loop tb bm rm p fin (i + 1) m w' = Inr r" "b \<le> r" "r \<le> max (i + 1) fin" by auto
      with True a w' False show ?thesis by (subst tttd_loop.simps) auto
    qed
  qed (use "1.prems" in \<open>subst tttd_loop.simps, auto\<close>)
qed

definition chunker_ok :: "chunk_cfg \<Rightarrow> (byte list \<Rightarrow> nat \<Rightarrow> nat res) \<Rightarrow> bool" where
  "chunker_ok cfg f \<longleftrightarrow> (\<forall>p n. 0 < n \<and> n \<le> length p \<longrightarrow>
     (\<exists>r. f p n = Inr r \<and> 0 < r \<and> r \<le> n \<and> (chunk_min_size cfg < n \<longrightarrow> chunk_min_size cfg \<le> r)
        \<and> r \<le> max (chunk_min_size cfg) (chunk_max_size cfg)))"

lemma chunker_okI:
  assumes "\<And>p n. n \<le> chunk_min_size cfg \<Longrightarrow> f p n = Inr n"
    and "\<And>p n. chunk_min_size cfg < n \<Longrightarrow> n \<le> length p \<Longrightarrow>
      \<exists>r. f p n = Inr r \<and> chunk_min_size cfg \<le> r \<and> r \<le> max (chunk_min_size cfg) (min n (chunk_max_size cfg))"
    and "1 \<le> chunk_min_size cfg"
  shows "chunker_ok cfg f"
  unfolding chunker_ok_def
proof (intro allI impI)
  fix p :: "byte list" and n
  assume n: "0 < n \<and> n \<le> length p"
  show "\<exists>r. f p n = Inr r \<and> 0 < r \<and> r \<le> n \<and> (chunk_min_size cfg < n \<longrightarrow> chunk_min_size cfg \<le> r)
        \<and> r \<le> max (chunk_min_size cfg) (chunk_max_size cfg)"
  proof (cases "n \<le> chunk_min_size cfg")
    case True
    with assms(1) n show ?thesis by auto
  next
    case False
    with assms(2) [of n p] n obtain r where "f p n = Inr r" "chunk_min_size cfg \<le> r"
      "r \<le> max (chunk_min_size cfg) (min n (chunk_max_size cfg))" by auto
    with False assms(3) show ?thesis by (intro exI [of _ r]) (auto simp: max_def min_def split: if_splits)
  qed
qed

lemma rabin_chunker_ok: "tab_ok tb \<Longrightarrow> 1 \<le> chunk_min_size cfg \<Longrightarrow> chunker_ok cfg (rabin_chunk_data cfg tb)"
  by (rule chunker_okI) (auto simp: rabin_chunk_data_def win_ok_start intro!: rabin_loop_bounds)

lemma normalized_chunker_ok:
  "tab_ok tb \<Longrightarrow> 1 \<le> chunk_min_size cfg \<Longrightarrow> chunker_ok cfg (normalized_rabin_chunk_data cfg tb)"
  by (rule chunker_okI) (auto simp: normalized_rabin_chunk_data_def win_ok_start intro!: normalized_loop_bounds)

lemma tttd_chunker_ok: "tab_ok tb \<Longrightarrow> 1 \<le> chunk_min_size cfg \<Longrightarrow> chunker_ok cfg (tttd_chunk_data cfg tb)"
  by (rule chunker_okI) (auto simp: tttd_chunk_data_def win_ok_start intro!: tttd_loop_bounds)

subsection \<open>Asymmetric extremum on constant data\<close>

lemma my_memcmp_zeros: "my_memcmp (replicate n 0) x y = -1 \<or> load_be64 (replicate n 0) y < load_be64 (replicate n 0) x"
  by (simp add: my_memcmp_def)

lemma from_le_zeros: "from_le (replicate n 0) = 0"
  by (induction n) auto

lemma load_zeros: "load_be64 (replicate n 0) i = 0"
  by (simp add: load_be64_def from_le_zeros)

text \<open>On constant data the asymmetric-extremum chunker never cuts, whatever the window and the maximal chunk size: the test against the maximum is skipped whenever the comparison reports a new extremum, which it does on equal words.\<close>

lemma ae_loop_zeros: "ae_loop ws mx (replicate n 0) n cur m = n"
proof (induction ws mx "replicate n (0 :: byte)" n cur m rule: ae_loop.induct)
  case (1 ws mx n cur m)
  then show ?case by (subst ae_loop.simps) (simp add: my_memcmp_def load_zeros)
qed

lemma ae_loop_bounds:
  "1 \<le> cur \<Longrightarrow> cur \<le> n \<Longrightarrow> 0 < ae_loop ws mx p n cur m \<and> ae_loop ws mx p n cur m \<le> n"
proof (induction ws mx p n cur m rule: ae_loop.induct)
  case (1 ws mx p n cur m)
  then show ?case by (subst (1 2) ae_loop.simps) auto
qed

end
