(* ===== verification/Byte_Store.thy ===== *)
theory Byte_Store
  imports Destor_Types
begin

text \<open>
  Memory blocks and files as byte lists.

  A block is the prefix written so far of an allocation of \<open>cap\<close> bytes: \<open>poke\<close> is a
  \<open>memcpy\<close> into it, \<open>peek\<close> one out of it, and an access beyond either is \<open>OutOfBounds\<close>.
  A file is its content: \<open>f_write\<close> is \<open>fseek\<close> and \<open>fwrite\<close> (a gap reads as zeros),
  \<open>f_read\<close> is \<open>fseek\<close> and \<open>fread\<close>; a read beyond the end leaves its buffer
  uninitialised, which is \<open>OutOfBounds\<close>. Integers cross the boundary in two's complement.
\<close>

definition poke :: "nat \<Rightarrow> nat \<Rightarrow> byte list \<Rightarrow> byte list \<Rightarrow> byte list res" where
  "poke cap off bs buf =
     (if off + length bs \<le> cap \<and> off \<le> length buf
      then Inr (take off buf @ bs @ drop (off + length bs) buf) else Inl OutOfBounds)"

definition peek :: "nat \<Rightarrow> nat \<Rightarrow> byte list \<Rightarrow> byte list res" where
  "peek off n buf = (if off + n \<le> length buf then Inr (take n (drop off buf)) else Inl OutOfBounds)"

definition data_of :: "chunk \<Rightarrow> byte list res" where   \<comment> \<open>\<open>c->size\<close> bytes at \<open>c->data\<close>\<close>
  "data_of c = (if 0 \<le> ck_size c then peek 0 (nat (ck_size c)) (ck_data c) else Inl OutOfBounds)"

definition f_write :: "nat \<Rightarrow> byte list \<Rightarrow> byte list \<Rightarrow> byte list" where
  "f_write off bs f =
     (let f = f @ replicate (off - length f) 0
      in take off f @ bs @ drop (off + length bs) f)"

definition f_read :: "nat \<Rightarrow> nat \<Rightarrow> byte list \<Rightarrow> byte list res" where
  "f_read off n f = (if off + n \<le> length f then Inr (take n (drop off f)) else Inl OutOfBounds)"

definition i64 :: "int \<Rightarrow> 64 word" where "i64 = word_of_int"
definition i32 :: "int \<Rightarrow> 32 word" where "i32 = word_of_int"
definition i16 :: "int \<Rightarrow> 16 word" where "i16 = word_of_int"

definition in64 :: "int \<Rightarrow> bool" where "in64 i \<longleftrightarrow> - (2 ^ 63) \<le> i \<and> i < 2 ^ 63"
definition in32 :: "int \<Rightarrow> bool" where "in32 i \<longleftrightarrow> - (2 ^ 31) \<le> i \<and> i < 2 ^ 31"
definition in16 :: "int \<Rightarrow> bool" where "in16 i \<longleftrightarrow> - (2 ^ 15) \<le> i \<and> i < 2 ^ 15"

lemma sint_i64 [simp]: "in64 i \<Longrightarrow> sint (i64 i) = i"
  by (simp add: in64_def i64_def sint_sbintrunc' signed_take_bit_int_eq_self)

lemma sint_i32 [simp]: "in32 i \<Longrightarrow> sint (i32 i) = i"
  by (simp add: in32_def i32_def sint_sbintrunc' signed_take_bit_int_eq_self)

lemma sint_i16 [simp]: "in16 i \<Longrightarrow> sint (i16 i) = i"
  by (simp add: in16_def i16_def sint_sbintrunc' signed_take_bit_int_eq_self)

lemma in32_in64: "in32 i \<Longrightarrow> in64 i"
  by (simp add: in32_def in64_def)

lemma length_f_write: "length (f_write off bs f) = max (length f) (off + length bs)"
  by (simp add: f_write_def Let_def)

lemma f_read_write_same [simp]: "n = length bs \<Longrightarrow> f_read off n (f_write off bs f) = Inr bs"
  by (simp add: f_read_def f_write_def Let_def)

lemma take_drop_f_write:
  assumes "off + n \<le> length f" and "off + n \<le> off' \<or> off' + length bs \<le> off"
  shows "take n (drop off (f_write off' bs f)) = take n (drop off f)"
proof (rule nth_equalityI)
  show "length (take n (drop off (f_write off' bs f))) = length (take n (drop off f))"
    using assms(1) by (auto simp: length_f_write min_def max_def)
  fix i assume "i < length (take n (drop off (f_write off' bs f)))"
  then have "i < n" "off + i < length f" using assms by auto
  then show "take n (drop off (f_write off' bs f)) ! i = take n (drop off f) ! i"
    using assms by (auto simp: f_write_def Let_def nth_append length_f_write)
qed

lemma f_read_write_other:
  assumes "f_read off n f = Inr x" and "off + n \<le> off' \<or> off' + length bs \<le> off"
  shows "f_read off n (f_write off' bs f) = Inr x"
proof -
  from assms have "off + n \<le> length f" "x = take n (drop off f)"
    by (auto simp: f_read_def split: if_splits)
  with assms(2) show ?thesis using take_drop_f_write [of off n f off' bs]
    by (simp add: f_read_def length_f_write)
qed

lemma f_write_seq: "f_write (off + length as) bs (f_write off as f) = f_write off (as @ bs) f"
proof (cases "off \<le> length f")
  case True
  then show ?thesis by (simp add: f_write_def Let_def min_def) (simp add: ac_simps)
next
  case False
  then show ?thesis by (simp add: f_write_def Let_def)
qed

lemma f_read_sub:
  assumes "f_read off n f = Inr x" and "k + m \<le> n"
  shows "f_read (off + k) m f = Inr (take m (drop k x))"
proof -
  from assms have "off + n \<le> length f" "x = take n (drop off f)"
    by (auto simp: f_read_def split: if_splits)
  with assms(2) show ?thesis by (simp add: f_read_def drop_take min_def add.commute)
qed

lemma f_read_length: "f_read off n f = Inr x \<Longrightarrow> length x = n"
  by (auto simp: f_read_def split: if_splits)

end
