(* ===== verification/Chunk_Phase.thy ===== *)
theory Chunk_Phase
  imports Byte_Store Rabin_Chunking
begin

text \<open>
  The chunk phase of \<open>chunk_phase.c\<close>, the configuration it fixes in \<open>start_chunk_phase\<close>,
  the window size of \<open>ae_init\<close>, and the data part of \<open>read_file\<close> in \<open>read_phase.c\<close>.

  The thread maps the list of chunks popped from \<open>read_queue\<close> (the list ends where
  \<open>sync_queue_pop\<close> returns \<open>NULL\<close>) to the list pushed to \<open>chunk_queue\<close>. \<open>leftbuf\<close> is
  the prefix of the buffer written so far; a write beyond the allocated size, a read beyond the
  written prefix, and a chunker that returns more than it was given are \<open>OutOfBounds\<close>. The
  loops return an option, \<open>None\<close> for a run that does not end: a chunker that returns 0 never
  moves the cursor. The statistics of zero chunks are the fields \<open>zero_chunk_num\<close> and
  \<open>zero_chunk_size\<close> of the job control record.
\<close>

definition DEFAULT_BLOCK_SIZE :: nat where "DEFAULT_BLOCK_SIZE = 1048576"
definition CONTAINER_DATA_MAX :: nat where "CONTAINER_DATA_MAX = 4194304 - 32768"

type_synonym chunker = "byte list \<Rightarrow> nat \<Rightarrow> nat res"

subsection \<open>The phase's thread\<close>

record chunk_st =
  leftbuf :: "byte list"
  leftoff :: nat
  leftlen :: nat
  zero_chunk_num :: int
  zero_chunk_size :: int

definition chunk_st0 :: chunk_st where
  "chunk_st0 = \<lparr>leftbuf = [], leftoff = 0, leftlen = 0, zero_chunk_num = 0, zero_chunk_size = 0\<rparr>"

fun fill_loop :: "chunk_cfg \<Rightarrow> chunk_st \<Rightarrow> chunk option \<Rightarrow> chunk list \<Rightarrow> (chunk_st \<times> chunk option \<times> chunk list) res" where
  "fill_loop cfg s (Some c) input = Inr (s, Some c, input)"
| "fill_loop cfg s None [] = (if leftlen s < chunk_max_size cfg then Inl NullDeref else Inr (s, None, []))"
| "fill_loop cfg s None (c # input) =
     (if leftlen s < chunk_max_size cfg then
        (if CHECK_CHUNK c CHUNK_FILE_END then Inr (s, Some c, input)
         else rbind (data_of c) (\<lambda>d. rbind (peek (leftoff s) (leftlen s) (leftbuf s)) (\<lambda>left.
           rbind (poke (DEFAULT_BLOCK_SIZE + chunk_max_size cfg) 0 left (leftbuf s)) (\<lambda>buf.
           rbind (poke (DEFAULT_BLOCK_SIZE + chunk_max_size cfg) (leftlen s) d buf) (\<lambda>buf.
             fill_loop cfg (s\<lparr>leftbuf := buf, leftoff := 0, leftlen := leftlen s + length d\<rparr>) None input)))))
      else Inr (s, None, c # input))"

definition cut_chunk :: "chunk_cfg \<Rightarrow> chunker \<Rightarrow> chunk_st \<Rightarrow> (chunk_st \<times> chunk) res" where
  "cut_chunk cfg chunking s =
     rbind (chunking (drop (leftoff s) (leftbuf s)) (leftlen s)) (\<lambda>sz.
     if sz > leftlen s then Inl OutOfBounds else
     rbind (peek (leftoff s) sz (leftbuf s)) (\<lambda>d.
       let nc = (new_chunk (int sz))\<lparr>ck_data := d\<rparr>;
           s = s\<lparr>leftlen := leftlen s - sz, leftoff := leftoff s + sz\<rparr>
       in if sz > chunk_max_size cfg then Inl OutOfBounds   \<comment> \<open>\<open>memcmp\<close> reads beyond \<open>zeros\<close>\<close>
          else if memcmp (replicate sz 0) d = 0
          then Inr (s\<lparr>zero_chunk_num := zero_chunk_num s + 1, zero_chunk_size := zero_chunk_size s + int sz\<rparr>, nc)
          else Inr (s, nc)))"

partial_function (option) file_loop ::
  "chunk_cfg \<Rightarrow> chunker \<Rightarrow> chunk_st \<Rightarrow> chunk option \<Rightarrow> chunk list \<Rightarrow> chunk list \<Rightarrow>
   (chunk_st \<times> chunk \<times> chunk list \<times> chunk list) res option" where
  "file_loop cfg chunking s c input out =
     (case fill_loop cfg s c input of
        Inl e \<Rightarrow> Some (Inl e)
      | Inr (s, c, input) \<Rightarrow>
          if leftlen s = 0 then
            (case c of None \<Rightarrow> Some (Inl AssertFailed) | Some c \<Rightarrow> Some (Inr (s, c, input, out)))
          else
            (case cut_chunk cfg chunking s of
               Inl e \<Rightarrow> Some (Inl e)
             | Inr (s, nc) \<Rightarrow> file_loop cfg chunking s c input (out @ [nc])))"

definition first_data :: "chunk_cfg \<Rightarrow> chunk_st \<Rightarrow> chunk list \<Rightarrow> (chunk_st \<times> chunk option \<times> chunk list) res" where
  "first_data cfg s input =
     (case input of
        [] \<Rightarrow> Inl NullDeref
      | c # input \<Rightarrow>
          if CHECK_CHUNK c CHUNK_FILE_END then Inr (s, Some c, input)
          else rbind (data_of c) (\<lambda>d.
            rbind (poke (DEFAULT_BLOCK_SIZE + chunk_max_size cfg) 0 d (leftbuf s)) (\<lambda>buf.
              Inr (s\<lparr>leftbuf := buf, leftlen := leftlen s + length d\<rparr>, None, input))))"

partial_function (option) chunk_thread ::
  "chunk_cfg \<Rightarrow> chunker \<Rightarrow> chunk_st \<Rightarrow> chunk list \<Rightarrow> chunk list \<Rightarrow> (chunk_st \<times> chunk list) res option" where
  "chunk_thread cfg chunking s input out =
     (case input of
        [] \<Rightarrow> Some (Inr (s, out))
      | c # input \<Rightarrow>
          if \<not> CHECK_CHUNK c CHUNK_FILE_START then Some (Inl AssertFailed)
          else (case first_data cfg s input of
              Inl e \<Rightarrow> Some (Inl e)
            | Inr (s, c', input) \<Rightarrow>
                (case file_loop cfg chunking s c' input (out @ [c]) of
                   None \<Rightarrow> None
                 | Some (Inl e) \<Rightarrow> Some (Inl e)
                 | Some (Inr (s, c, input, out)) \<Rightarrow>
                     chunk_thread cfg chunking (s\<lparr>leftoff := 0\<rparr>) input (out @ [c]))))"

subsection \<open>Starting the phase\<close>

datatype chunk_algorithm =
  CHUNK_FIXED | CHUNK_RABIN | CHUNK_NORMALIZED_RABIN | CHUNK_FILE | CHUNK_AE | CHUNK_TTTD | CHUNK_INVALID

fun power_loop :: "nat \<Rightarrow> nat" where   \<comment> \<open>the number of halvings until the size is 0\<close>
  "power_loop avg = (if avg = 0 then 0 else Suc (power_loop (avg div 2)))"

declare power_loop.simps [simp del]

definition round_avg :: "chunk_cfg \<Rightarrow> chunk_cfg res" where
  "round_avg cfg =
     (let pwr = power_loop (chunk_avg_size cfg) in
      if pwr = 0 then Inl OutOfBounds   \<comment> \<open>\<open>1 << -1\<close>\<close>
      else let cfg = cfg\<lparr>chunk_avg_size := 2 ^ (pwr - 1)\<rparr> in
        rbind (c_assert (chunk_avg_size cfg \<ge> chunk_min_size cfg)) (\<lambda>_.
        rbind (c_assert (chunk_avg_size cfg \<le> chunk_max_size cfg)) (\<lambda>_.
        rbind (c_assert (chunk_max_size cfg \<le> CONTAINER_DATA_MAX)) (\<lambda>_. Inr cfg))))"

definition ae_init :: "nat \<Rightarrow> nat" where
  "ae_init avg = (avg * 1000000000) div 1718281828"

definition start_chunk_phase :: "chunk_algorithm \<Rightarrow> chunk_cfg \<Rightarrow> (chunk_cfg \<times> chunker) res" where
  "start_chunk_phase alg cfg =
     (case alg of
        CHUNK_RABIN \<Rightarrow> rbind (round_avg cfg) (\<lambda>cfg. rbind (window_init FINGERPRINT_PT) (\<lambda>tb.
          Inr (cfg, rabin_chunk_data cfg tb)))
      | CHUNK_NORMALIZED_RABIN \<Rightarrow> rbind (round_avg cfg) (\<lambda>cfg. rbind (window_init FINGERPRINT_PT) (\<lambda>tb.
          Inr (cfg, normalized_rabin_chunk_data cfg tb)))
      | CHUNK_TTTD \<Rightarrow> rbind (round_avg cfg) (\<lambda>cfg. rbind (window_init FINGERPRINT_PT) (\<lambda>tb.
          Inr (cfg, tttd_chunk_data cfg tb)))
      | CHUNK_FIXED \<Rightarrow> rbind (c_assert (chunk_avg_size cfg \<le> CONTAINER_DATA_MAX)) (\<lambda>_.
          let cfg = cfg\<lparr>chunk_max_size := chunk_avg_size cfg\<rparr> in
          Inr (cfg, \<lambda>p n. Inr (fixed_chunk_data cfg n)))
      | CHUNK_FILE \<Rightarrow>
          let cfg = cfg\<lparr>chunk_avg_size := CONTAINER_DATA_MAX, chunk_max_size := CONTAINER_DATA_MAX\<rparr> in
          Inr (cfg, \<lambda>p n. Inr (fixed_chunk_data cfg n))
      | CHUNK_AE \<Rightarrow> rbind (c_assert (chunk_avg_size cfg \<le> chunk_max_size cfg)) (\<lambda>_.
          rbind (c_assert (chunk_max_size cfg \<le> CONTAINER_DATA_MAX)) (\<lambda>_.
          Inr (cfg, \<lambda>p n. Inr (ae_chunk_data (ae_init (chunk_avg_size cfg)) (chunk_max_size cfg) p n))))
      | CHUNK_INVALID \<Rightarrow> Inl ExitFailure)"

subsection \<open>The read phase\<close>

text \<open>The blocks the loop over \<open>fread\<close> sees: full blocks, then the rest, then 0.\<close>

function read_blocks :: "byte list \<Rightarrow> chunk list" where
  "read_blocks content =
     (let buf = take DEFAULT_BLOCK_SIZE content in
      if buf = [] then []
      else (new_chunk (int (length buf)))\<lparr>ck_data := buf\<rparr> # read_blocks (drop DEFAULT_BLOCK_SIZE content))"
  by pat_completeness auto
termination by (relation "measure length") (auto simp: DEFAULT_BLOCK_SIZE_def)

declare read_blocks.simps [simp del]

definition read_file :: "byte list \<Rightarrow> byte list \<Rightarrow> chunk list" where
  "read_file filename content =
     [SET_CHUNK ((new_chunk (int (length filename) + 1))\<lparr>ck_data := filename @ [0]\<rparr>) CHUNK_FILE_START]
     @ read_blocks content
     @ [SET_CHUNK (new_chunk 0) CHUNK_FILE_END]"

subsection \<open>What the loops do\<close>

definition st_ok :: "chunk_cfg \<Rightarrow> chunk_st \<Rightarrow> bool" where
  "st_ok cfg s \<longleftrightarrow> leftoff s + leftlen s \<le> length (leftbuf s) \<and>
     length (leftbuf s) \<le> DEFAULT_BLOCK_SIZE + chunk_max_size cfg"

definition pending :: "chunk_st \<Rightarrow> byte list" where
  "pending s = take (leftlen s) (drop (leftoff s) (leftbuf s))"

definition data_msg :: "chunk \<Rightarrow> bool" where
  "data_msg c \<longleftrightarrow> \<not> CHECK_CHUNK c CHUNK_FILE_END \<and> ck_size c = int (length (ck_data c)) \<and>
     length (ck_data c) \<le> DEFAULT_BLOCK_SIZE"

definition good_cut :: "nat \<Rightarrow> chunk \<Rightarrow> bool" where
  "good_cut mx c \<longleftrightarrow> ck_size c = int (length (ck_data c)) \<and> 0 < ck_size c \<and> ck_size c \<le> int mx \<and>
     ck_flag c = 0"

text \<open>Where the file's messages stand: still \<open>ds\<close> and the end mark to pop, or the end
  mark popped.\<close>

definition feed :: "chunk \<Rightarrow> chunk list \<Rightarrow> chunk option \<Rightarrow> chunk list \<Rightarrow> chunk list \<Rightarrow> bool" where
  "feed fe rest c ds input \<longleftrightarrow>
     (c = None \<and> input = ds @ fe # rest) \<or> (c = Some fe \<and> ds = [] \<and> input = rest)"

lemma data_of_msg: "data_msg c \<Longrightarrow> data_of c = Inr (ck_data c)"
  by (simp add: data_msg_def data_of_def peek_def)

lemma peek_pending: "st_ok cfg s \<Longrightarrow> peek (leftoff s) (leftlen s) (leftbuf s) = Inr (pending s)"
  by (simp add: st_ok_def peek_def pending_def)

lemma length_pending: "st_ok cfg s \<Longrightarrow> length (pending s) = leftlen s"
  by (auto simp: st_ok_def pending_def)

text \<open>One round of the fill loop: the rest moves to the front and a block follows it.\<close>

lemma refill:
  assumes "st_ok cfg s" and "length d \<le> DEFAULT_BLOCK_SIZE" and "leftlen s < chunk_max_size cfg"
  shows "\<exists>b1 b2. poke (DEFAULT_BLOCK_SIZE + chunk_max_size cfg) 0 (pending s) (leftbuf s) = Inr b1 \<and>
     poke (DEFAULT_BLOCK_SIZE + chunk_max_size cfg) (leftlen s) d b1 = Inr b2 \<and>
     (let s' = s\<lparr>leftbuf := b2, leftoff := 0, leftlen := leftlen s + length d\<rparr> in
        st_ok cfg s' \<and> pending s' = pending s @ d)"
proof -
  have len: "length (pending s) = leftlen s" using assms(1) by (rule length_pending)
  then have le: "length (pending s) \<le> length (leftbuf s)" using assms(1) by (simp add: st_ok_def)
  let ?b1 = "pending s @ drop (length (pending s)) (leftbuf s)"
  have "poke (DEFAULT_BLOCK_SIZE + chunk_max_size cfg) 0 (pending s) (leftbuf s) = Inr ?b1"
    using len assms(3) by (simp add: poke_def)
  moreover have "poke (DEFAULT_BLOCK_SIZE + chunk_max_size cfg) (leftlen s) d ?b1 =
      Inr (pending s @ d @ drop (leftlen s + length d) ?b1)"
    using len le assms by (simp add: poke_def)
  ultimately show ?thesis
    using len le assms by (auto simp: Let_def st_ok_def pending_def)
qed

lemma fill_loop_feed:
  assumes "feed fe rest c ds input" and "st_ok cfg s" and "\<forall>d\<in>set ds. data_msg d"
    and "CHECK_CHUNK fe CHUNK_FILE_END"
  shows "\<exists>s' c' ds' input'. fill_loop cfg s c input = Inr (s', c', input') \<and> feed fe rest c' ds' input' \<and>
     st_ok cfg s' \<and> (\<forall>d\<in>set ds'. data_msg d) \<and>
     pending s' @ concat (map ck_data ds') = pending s @ concat (map ck_data ds) \<and>
     (leftlen s' < chunk_max_size cfg \<longrightarrow> c' = Some fe)"
  using assms(1-3)
proof (induction ds arbitrary: s c input)
  case Nil
  show ?case
  proof (cases c)
    case None
    with Nil assms(4) show ?thesis
      by (cases "leftlen s < chunk_max_size cfg") (auto simp: feed_def)
  next
    case (Some c')
    with Nil show ?thesis by (auto simp: feed_def)
  qed
next
  case (Cons d ds)
  then have c: "c = None" and inp: "input = d # ds @ fe # rest" by (auto simp: feed_def)
  have d: "data_msg d" using Cons.prems(3) by simp
  show ?case
  proof (cases "leftlen s < chunk_max_size cfg")
    case False
    then show ?thesis using Cons.prems c inp
      by (intro exI [of _ s] exI [of _ None] exI [of _ "d # ds"] exI [of _ input]) (auto simp: feed_def)
  next
    case True
    from refill [OF Cons.prems(2) _ True, of "ck_data d"] d obtain b1 b2 where
      b: "poke (DEFAULT_BLOCK_SIZE + chunk_max_size cfg) 0 (pending s) (leftbuf s) = Inr b1"
         "poke (DEFAULT_BLOCK_SIZE + chunk_max_size cfg) (leftlen s) (ck_data d) b1 = Inr b2"
      and s': "st_ok cfg (s\<lparr>leftbuf := b2, leftoff := 0, leftlen := leftlen s + length (ck_data d)\<rparr>)"
         "pending (s\<lparr>leftbuf := b2, leftoff := 0, leftlen := leftlen s + length (ck_data d)\<rparr>) = pending s @ ck_data d"
      by (auto simp: data_msg_def Let_def)
    have eq: "fill_loop cfg s c input =
        fill_loop cfg (s\<lparr>leftbuf := b2, leftoff := 0, leftlen := leftlen s + length (ck_data d)\<rparr>) None (ds @ fe # rest)"
      using c inp True b d Cons.prems(2) by (simp add: data_of_msg peek_pending) (simp add: data_msg_def)
    have "feed fe rest None ds (ds @ fe # rest)" by (simp add: feed_def)
    from Cons.IH [OF this s'(1)] Cons.prems(3) show ?thesis
      unfolding eq s'(2) by simp
  qed
qed

text \<open>What the thread relies on in the chunking method it calls: a piece is neither empty nor longer than
  what is left. One longer than the maximal size is \<open>oversized\<close>: the comparison with the zeros reads beyond them.\<close>

definition oversized :: "chunk_cfg \<Rightarrow> chunker \<Rightarrow> nat \<Rightarrow> bool" where   \<comment> \<open>on at most \<open>m\<close> bytes\<close>
  "oversized cfg chunking m \<longleftrightarrow>
     (\<exists>p n r. 0 < n \<and> n \<le> length p \<and> n \<le> m \<and> chunking p n = Inr r \<and> r \<le> n \<and> chunk_max_size cfg < r)"

lemma oversized_mono: "oversized cfg chunking m \<Longrightarrow> m \<le> m' \<Longrightarrow> oversized cfg chunking m'"
  unfolding oversized_def by (meson le_trans)

lemma oversized_long: "oversized cfg chunking m \<Longrightarrow> chunk_max_size cfg < m"
  unfolding oversized_def by auto

locale chunking_method =
  fixes cfg :: chunk_cfg
    and chunking :: chunker
  assumes max_pos: "0 < chunk_max_size cfg"
    and cuts: "0 < n \<Longrightarrow> n \<le> length p \<Longrightarrow> \<exists>r. chunking p n = Inr r \<and> 0 < r \<and> r \<le> n"

locale bounded_chunking = chunking_method +
  assumes short: "0 < n \<Longrightarrow> n \<le> length p \<Longrightarrow> chunking p n = Inr r \<Longrightarrow> r \<le> chunk_max_size cfg"

context chunking_method
begin

lemma cut_chunk_ok:
  assumes "st_ok cfg s" and "0 < leftlen s"
  shows "(\<exists>s' nc. cut_chunk cfg chunking s = Inr (s', nc) \<and> st_ok cfg s' \<and>
     good_cut (chunk_max_size cfg) nc \<and> ck_data nc @ pending s' = pending s) \<or>
     cut_chunk cfg chunking s = Inl OutOfBounds \<and> oversized cfg chunking (length (pending s))"
proof -
  have le: "leftlen s \<le> length (drop (leftoff s) (leftbuf s))" using assms(1) by (auto simp: st_ok_def)
  then obtain r where r: "chunking (drop (leftoff s) (leftbuf s)) (leftlen s) = Inr r" "0 < r" "r \<le> leftlen s"
    using cuts [OF assms(2)] by blast
  let ?s = "s\<lparr>leftlen := leftlen s - r, leftoff := leftoff s + r\<rparr>"
  let ?d = "take r (drop (leftoff s) (leftbuf s))"
  have st: "st_ok cfg ?s" using assms(1) r by (simp add: st_ok_def)
  have len: "length ?d = r" using r le by simp
  have "pending s = ?d @ pending ?s"
    using r take_add [of r "leftlen s - r" "drop (leftoff s) (leftbuf s)"]
    by (simp add: pending_def add.commute)
  moreover have pk: "peek (leftoff s) r (leftbuf s) = Inr ?d" using r le by (simp add: peek_def)
  moreover have "st_ok cfg (?s\<lparr>zero_chunk_num := a, zero_chunk_size := b\<rparr>)"
    "pending (?s\<lparr>zero_chunk_num := a, zero_chunk_size := b\<rparr>) = pending ?s" for a b
    using st by (simp_all add: st_ok_def pending_def)
  ultimately have small: ?thesis if "r \<le> chunk_max_size cfg" using r st len that
    by (auto simp: cut_chunk_def Let_def good_cut_def)
  have large: "cut_chunk cfg chunking s = Inl OutOfBounds \<and> oversized cfg chunking (length (pending s))"
    if "chunk_max_size cfg < r"
  proof
    show "cut_chunk cfg chunking s = Inl OutOfBounds" using r pk that by (simp add: cut_chunk_def Let_def)
    show "oversized cfg chunking (length (pending s))"
      unfolding oversized_def length_pending [OF assms(1)] using r that le assms(2) by blast
  qed
  show ?thesis using small large by (cases "r \<le> chunk_max_size cfg") auto
qed

lemma file_loop_ok:
  assumes "CHECK_CHUNK fe CHUNK_FILE_END"
    and "feed fe rest c ds input" and "st_ok cfg s" and "\<forall>d\<in>set ds. data_msg d"
  shows "(\<exists>s' cs. file_loop cfg chunking s c input out = Some (Inr (s', fe, rest, out @ cs)) \<and>
     leftlen s' = 0 \<and> st_ok cfg s' \<and> list_all (good_cut (chunk_max_size cfg)) cs \<and>
     concat (map ck_data cs) = pending s @ concat (map ck_data ds)) \<or>
     file_loop cfg chunking s c input out = Some (Inl OutOfBounds) \<and>
     oversized cfg chunking (length (pending s @ concat (map ck_data ds)))"
  using assms(2-4)
proof (induction "length (pending s @ concat (map ck_data ds))" arbitrary: s c ds input out rule: less_induct)
  case less
  from fill_loop_feed [OF less.prems assms(1)] obtain s1 c1 ds1 input1 where
    f: "fill_loop cfg s c input = Inr (s1, c1, input1)" "feed fe rest c1 ds1 input1" "st_ok cfg s1"
       "\<forall>d\<in>set ds1. data_msg d" "leftlen s1 < chunk_max_size cfg \<longrightarrow> c1 = Some fe"
    and p: "pending s1 @ concat (map ck_data ds1) = pending s @ concat (map ck_data ds)" by metis
  have pl: "length (pending s1) \<le> length (pending s @ concat (map ck_data ds))" unfolding p [symmetric] by simp
  show ?case
  proof (cases "leftlen s1 = 0")
    case True
    with f(5) max_pos have c1: "c1 = Some fe" by simp
    with f(2) have "ds1 = [] \<and> input1 = rest" by (simp add: feed_def)
    moreover have "pending s1 = []" using True by (simp add: pending_def)
    ultimately show ?thesis
      using True f p c1 by (intro disjI1, subst file_loop.simps) (auto intro!: exI [of _ s1] exI [of _ "[]"])
  next
    case False
    with cut_chunk_ok [OF f(3)] consider (cut) s2 nc where
      "cut_chunk cfg chunking s1 = Inr (s2, nc)" "st_ok cfg s2" "good_cut (chunk_max_size cfg) nc"
         "ck_data nc @ pending s2 = pending s1"
      | (long) "cut_chunk cfg chunking s1 = Inl OutOfBounds" "oversized cfg chunking (length (pending s1))" by blast
    then show ?thesis
    proof cases
      case long
      then show ?thesis using False f(1) oversized_mono [OF long(2) pl] by (intro disjI2, subst file_loop.simps) simp
    next
      case k: cut
      have "0 < length (ck_data nc)" using k(3) by (auto simp: good_cut_def)
      then have l: "length (pending s2 @ concat (map ck_data ds1)) < length (pending s @ concat (map ck_data ds))"
        unfolding p [symmetric] k(4) [symmetric] by simp
      have e: "file_loop cfg chunking s c input out = file_loop cfg chunking s2 c1 input1 (out @ [nc])"
        using False f(1) k(1) by (subst file_loop.simps) simp
      have c: "concat (map ck_data (nc # cs)) = pending s @ concat (map ck_data ds)"
        if "concat (map ck_data cs) = pending s2 @ concat (map ck_data ds1)" for cs
        using that unfolding p [symmetric] k(4) [symmetric] by simp
      show ?thesis using less.hyps [OF l f(2) k(2) f(4), of "out @ [nc]"]
      proof (elim disjE exE conjE)
        fix s' cs
        assume "file_loop cfg chunking s2 c1 input1 (out @ [nc]) = Some (Inr (s', fe, rest, (out @ [nc]) @ cs))"
          "leftlen s' = 0" "st_ok cfg s'" "list_all (good_cut (chunk_max_size cfg)) cs"
          "concat (map ck_data cs) = pending s2 @ concat (map ck_data ds1)"
        then show ?thesis using e c [of cs] k(3) by (intro disjI1 exI [of _ s'] exI [of _ "nc # cs"]) simp
      next
        assume "file_loop cfg chunking s2 c1 input1 (out @ [nc]) = Some (Inl OutOfBounds)"
          "oversized cfg chunking (length (pending s2 @ concat (map ck_data ds1)))"
        then show ?thesis using e oversized_mono [of cfg chunking _ "length (pending s @ concat (map ck_data ds))"] l
          by (metis less_imp_le)
      qed
    qed
  qed
qed

end

subsection \<open>A whole stream\<close>

definition file_chunks :: "nat \<Rightarrow> byte list \<times> byte list \<Rightarrow> chunk list \<Rightarrow> bool" where
  "file_chunks mx f cs \<longleftrightarrow> concat (map ck_data cs) = snd f \<and> list_all (good_cut mx) cs"

definition start_mark :: "byte list \<Rightarrow> chunk" where
  "start_mark name = SET_CHUNK ((new_chunk (int (length name) + 1))\<lparr>ck_data := name @ [0]\<rparr>) CHUNK_FILE_START"

definition end_mark :: chunk where
  "end_mark = SET_CHUNK (new_chunk 0) CHUNK_FILE_END"

fun chunked_stream :: "(byte list \<times> byte list) list \<Rightarrow> chunk list list \<Rightarrow> chunk list" where
  "chunked_stream (f # fs) (cs # css) = start_mark (fst f) # cs @ end_mark # chunked_stream fs css"
| "chunked_stream _ _ = []"

lemma end_mark_flag: "CHECK_CHUNK end_mark CHUNK_FILE_END"
  by (simp add: end_mark_def)

lemma read_file_marks: "read_file (fst f) (snd f) = start_mark (fst f) # read_blocks (snd f) @ [end_mark]"
  by (simp add: read_file_def start_mark_def end_mark_def)

lemma read_blocks_data: "concat (map ck_data (read_blocks content)) = content \<and> (\<forall>c\<in>set (read_blocks content). data_msg c)"
proof (induction content rule: read_blocks.induct)
  case (1 content)
  have pos: "0 < DEFAULT_BLOCK_SIZE" by (simp add: DEFAULT_BLOCK_SIZE_def)
  show ?case
  proof (cases "content = []")
    case True
    then show ?thesis by (subst (1 2) read_blocks.simps) simp
  next
    case False
    with pos have ne: "take DEFAULT_BLOCK_SIZE content \<noteq> []" by simp
    from "1.IH" [OF refl ne] show ?thesis
      using ne by (subst (1 2) read_blocks.simps) (auto simp: Let_def data_msg_def)
  qed
qed

context chunking_method
begin

lemma chunk_file_ok:
  assumes fe: "CHECK_CHUNK fe CHUNK_FILE_END"
    and st: "st_ok cfg s" "leftlen s = 0" "leftoff s = 0" and ds: "\<forall>d\<in>set ds. data_msg d"
  shows "\<exists>s1 c1 in1. first_data cfg s (ds @ fe # rest) = Inr (s1, c1, in1) \<and>
     ((\<exists>s' cs. file_loop cfg chunking s1 c1 in1 out = Some (Inr (s', fe, rest, out @ cs)) \<and>
        leftlen s' = 0 \<and> st_ok cfg s' \<and> list_all (good_cut (chunk_max_size cfg)) cs \<and>
        concat (map ck_data cs) = concat (map ck_data ds)) \<or>
      file_loop cfg chunking s1 c1 in1 out = Some (Inl OutOfBounds) \<and>
      oversized cfg chunking (length (concat (map ck_data ds))))"
proof (cases ds)
  case Nil
  have "feed fe rest (Some fe) [] rest" by (simp add: feed_def)
  from file_loop_ok [OF fe this st(1), of out] show ?thesis
    using Nil fe st(2) by (simp add: first_data_def pending_def)
next
  case (Cons d ds')
  with ds have d: "data_msg d" and ds': "\<forall>d\<in>set ds'. data_msg d" by auto
  let ?b = "ck_data d @ drop (length (ck_data d)) (leftbuf s)"
  let ?s = "s\<lparr>leftbuf := ?b, leftlen := length (ck_data d)\<rparr>"
  have f: "first_data cfg s (ds @ fe # rest) = Inr (?s, None, ds' @ fe # rest)"
    using Cons d st(2) by (simp add: first_data_def data_of_msg) (simp add: data_msg_def poke_def)
  have ok: "st_ok cfg ?s" using st d by (auto simp: st_ok_def data_msg_def)
  have p: "pending ?s @ concat (map ck_data ds') = concat (map ck_data ds)" using st Cons by (simp add: pending_def)
  have "feed fe rest None ds' (ds' @ fe # rest)" by (simp add: feed_def)
  from file_loop_ok [OF fe this ok ds', of out] show ?thesis unfolding p f by blast
qed

lemma chunk_thread_files:
  assumes "st_ok cfg s" "leftlen s = 0" "leftoff s = 0"
  shows "(\<exists>s' css. chunk_thread cfg chunking s (concat (map (\<lambda>f. read_file (fst f) (snd f)) fs)) out =
      Some (Inr (s', out @ chunked_stream fs css)) \<and> list_all2 (file_chunks (chunk_max_size cfg)) fs css) \<or>
     chunk_thread cfg chunking s (concat (map (\<lambda>f. read_file (fst f) (snd f)) fs)) out = Some (Inl OutOfBounds) \<and>
      (\<exists>f\<in>set fs. oversized cfg chunking (length (snd f)))"
  using assms
proof (induction fs arbitrary: s out)
  case Nil
  show ?case by (intro disjI1) (subst chunk_thread.simps, simp)
next
  case (Cons f fs)
  let ?rest = "concat (map (\<lambda>f. read_file (fst f) (snd f)) fs)"
  let ?all = "concat (map (\<lambda>f. read_file (fst f) (snd f)) (f # fs))"
  let ?m = "start_mark (fst f)"
  note rb = read_blocks_data [of "snd f"]
  from chunk_file_ok [OF end_mark_flag Cons.prems rb [THEN conjunct2], of ?rest "out @ [?m]"]
  obtain s1 c1 in1 where 1: "first_data cfg s (read_blocks (snd f) @ end_mark # ?rest) = Inr (s1, c1, in1)"
    and r: "(\<exists>s' cs. file_loop cfg chunking s1 c1 in1 (out @ [?m]) = Some (Inr (s', end_mark, ?rest, (out @ [?m]) @ cs)) \<and>
        leftlen s' = 0 \<and> st_ok cfg s' \<and> list_all (good_cut (chunk_max_size cfg)) cs \<and> concat (map ck_data cs) = snd f) \<or>
      file_loop cfg chunking s1 c1 in1 (out @ [?m]) = Some (Inl OutOfBounds) \<and> oversized cfg chunking (length (snd f))"
    unfolding rb [THEN conjunct1] by blast
  have m: "CHECK_CHUNK ?m CHUNK_FILE_START" by (simp add: start_mark_def)
  show ?case using r
  proof (elim disjE exE conjE)
    fix s' cs
    assume 2: "file_loop cfg chunking s1 c1 in1 (out @ [?m]) = Some (Inr (s', end_mark, ?rest, (out @ [?m]) @ cs))"
      "leftlen s' = 0" "st_ok cfg s'" "list_all (good_cut (chunk_max_size cfg)) cs" "concat (map ck_data cs) = snd f"
    have t: "chunk_thread cfg chunking s ?all out =
        chunk_thread cfg chunking (s'\<lparr>leftoff := 0\<rparr>) ?rest (((out @ [?m]) @ cs) @ [end_mark])"
      using 1 2(1) m by (subst chunk_thread.simps) (simp add: read_file_marks)
    have ok: "st_ok cfg (s'\<lparr>leftoff := 0\<rparr>)" "leftlen (s'\<lparr>leftoff := 0\<rparr>) = 0" "leftoff (s'\<lparr>leftoff := 0\<rparr>) = 0"
      using 2 by (auto simp: st_ok_def)
    from Cons.IH [OF ok, of "((out @ [?m]) @ cs) @ [end_mark]"] show ?thesis unfolding t
    proof (elim disjE exE conjE, goal_cases)
      case (1 s'' css)
      then show ?case using 2 by (intro disjI1 exI [of _ s''] exI [of _ "cs # css"]) (simp add: file_chunks_def)
    qed simp_all
  next
    assume "file_loop cfg chunking s1 c1 in1 (out @ [?m]) = Some (Inl OutOfBounds)" "oversized cfg chunking (length (snd f))"
    then show ?thesis using 1 m by (intro disjI2) (subst chunk_thread.simps, simp add: read_file_marks)
  qed
qed

end

lemma st_ok_0: "st_ok cfg chunk_st0" "leftlen chunk_st0 = 0" "leftoff chunk_st0 = 0"
  by (simp_all add: st_ok_def chunk_st0_def)

subsection \<open>The configured chunker\<close>

lemma power_loop_bounds: "0 < n \<Longrightarrow> 0 < power_loop n \<and> 2 ^ (power_loop n - 1) \<le> n \<and> n < 2 ^ power_loop n"
proof (induction n rule: power_loop.induct)
  case (1 n)
  show ?case
  proof (cases "n div 2 = 0")
    case True
    with 1 show ?thesis by (subst (1 2 3) power_loop.simps) (simp add: power_loop.simps)
  next
    case False
    with 1 have IH: "0 < power_loop (n div 2)" "2 ^ (power_loop (n div 2) - 1) \<le> n div 2"
      "n div 2 < 2 ^ power_loop (n div 2)" by auto
    then obtain k where "power_loop (n div 2) = Suc k" by (cases "power_loop (n div 2)") auto
    moreover have "power_loop n = Suc (power_loop (n div 2))" using 1 by (subst power_loop.simps) simp
    ultimately show ?thesis using IH by auto
  qed
qed

lemma chunker_cuts:
  assumes "chunker_ok cfg f" and "chunk_min_size cfg \<le> chunk_max_size cfg" and "1 \<le> chunk_min_size cfg"
  shows "bounded_chunking cfg f"
proof -
  have c: "\<exists>r. f p n = Inr r \<and> 0 < r \<and> r \<le> n \<and> r \<le> chunk_max_size cfg" if "0 < n" "n \<le> length p" for p n
    using assms that unfolding chunker_ok_def by (metis max.absorb2)
  show ?thesis
  proof
    show "0 < chunk_max_size cfg" using assms by simp
  next
    fix p :: "byte list" and n
    assume "0 < n" "n \<le> length p"
    from c [OF this] show "\<exists>r. f p n = Inr r \<and> 0 < r \<and> r \<le> n" by blast
  next
    fix p :: "byte list" and n r
    assume "0 < n" "n \<le> length p" "f p n = Inr r"
    with c [of n p] show "r \<le> chunk_max_size cfg" by auto
  qed
qed

lemma fixed_cuts: "0 < chunk_avg_size cfg \<Longrightarrow> chunk_max_size cfg = chunk_avg_size cfg \<Longrightarrow>
    bounded_chunking cfg (\<lambda>p n. Inr (fixed_chunk_data cfg n))"
  by unfold_locales (auto simp: fixed_chunk_data_def)

text \<open>The asymmetric extremum can return a piece longer than the maximal size: the test for a new maximum comes first and
  skips the comparison.\<close>

lemma ae_cuts: "0 < chunk_max_size cfg \<Longrightarrow> chunking_method cfg (\<lambda>p n. Inr (ae_chunk_data ws (chunk_max_size cfg) p n))"
  by unfold_locales (use ae_loop_bounds [of 1] in \<open>auto simp: ae_chunk_data_def\<close>)

text \<open>The methods, with the sizes \<open>destor_start\<close> sets.\<close>

definition default_chunk_cfg :: chunk_cfg where
  "default_chunk_cfg = \<lparr>chunk_min_size = 1024, chunk_max_size = 65536, chunk_avg_size = 8192\<rparr>"

definition default_tables :: rabin where
  "default_tables = (case window_init FINGERPRINT_PT of Inr tb \<Rightarrow> tb | Inl _ \<Rightarrow> \<lparr>tab_T = [], tab_U = [], rshift = 0\<rparr>)"

lemma default_tables_ok: "tab_ok default_tables"
  using window_init_ok by (auto simp: default_tables_def)

interpretation fixed_method: bounded_chunking "default_chunk_cfg\<lparr>chunk_max_size := 8192\<rparr>"
    "\<lambda>p n. Inr (fixed_chunk_data (default_chunk_cfg\<lparr>chunk_max_size := 8192\<rparr>) n)"
  by (rule fixed_cuts) (simp_all add: default_chunk_cfg_def)

interpretation rabin_method: bounded_chunking default_chunk_cfg "rabin_chunk_data default_chunk_cfg default_tables"
  by (intro chunker_cuts rabin_chunker_ok default_tables_ok) (simp_all add: default_chunk_cfg_def)

interpretation normalized_method: bounded_chunking default_chunk_cfg "normalized_rabin_chunk_data default_chunk_cfg default_tables"
  by (intro chunker_cuts normalized_chunker_ok default_tables_ok) (simp_all add: default_chunk_cfg_def)

interpretation tttd_method: bounded_chunking default_chunk_cfg "tttd_chunk_data default_chunk_cfg default_tables"
  by (intro chunker_cuts tttd_chunker_ok default_tables_ok) (simp_all add: default_chunk_cfg_def)

interpretation ae_method: chunking_method default_chunk_cfg "\<lambda>p n. Inr (ae_chunk_data (ae_init 8192) (chunk_max_size default_chunk_cfg) p n)"
  by (rule ae_cuts) (simp add: default_chunk_cfg_def)

lemma round_avg_ok:
  assumes "round_avg cfg = Inr cfg'"
  shows "chunk_min_size cfg' = chunk_min_size cfg \<and> chunk_min_size cfg' \<le> chunk_max_size cfg' \<and>
     chunk_max_size cfg' \<le> CONTAINER_DATA_MAX \<and> chunk_avg_size cfg' \<le> chunk_avg_size cfg \<and>
     chunk_avg_size cfg < 2 * chunk_avg_size cfg'"
proof -
  from assms have p: "power_loop (chunk_avg_size cfg) \<noteq> 0"
    by (auto simp: round_avg_def Let_def split: if_splits)
  then have "0 < chunk_avg_size cfg" by (metis neq0_conv power_loop.simps)
  with p power_loop_bounds [of "chunk_avg_size cfg"] obtain k where
    "power_loop (chunk_avg_size cfg) = Suc k" "2 ^ k \<le> chunk_avg_size cfg" "chunk_avg_size cfg < 2 ^ Suc k"
    by (cases "power_loop (chunk_avg_size cfg)") auto
  with assms show ?thesis
    by (auto simp: round_avg_def Let_def rbind_assert split: if_splits)
qed

lemma start_chunk_phase_ok:
  assumes "start_chunk_phase alg cfg = Inr (cfg', chunking)" and "1 \<le> chunk_min_size cfg" and "0 < chunk_avg_size cfg"
  shows "chunking_method cfg' chunking \<and> (alg \<noteq> CHUNK_AE \<longrightarrow> bounded_chunking cfg' chunking) \<and> chunk_max_size cfg' \<le> CONTAINER_DATA_MAX"
proof -
  obtain tb where tb: "window_init FINGERPRINT_PT = Inr tb" "tab_ok tb" using window_init_ok by blast
  have b: "chunking_method c f" if "bounded_chunking c f" for c f
    using that by (simp add: bounded_chunking_def)
  have rab: "bounded_chunking c f \<and> chunk_max_size c \<le> CONTAINER_DATA_MAX"
    if "round_avg cfg = Inr c" "chunker_ok c f" for c f
    using round_avg_ok [OF that(1)] chunker_cuts [OF that(2)] assms(2) by auto
  show ?thesis
  proof (cases alg)
    case CHUNK_FIXED
    with assms fixed_cuts [of cfg'] b show ?thesis
      by (auto simp: start_chunk_phase_def Let_def rbind_assert split: if_splits)
  next
    case CHUNK_FILE
    with assms fixed_cuts [of cfg'] b show ?thesis
      by (auto simp: start_chunk_phase_def Let_def CONTAINER_DATA_MAX_def)
  next
    case CHUNK_RABIN
    with assms(1) tb obtain c where "round_avg cfg = Inr c" "cfg' = c" "chunking = rabin_chunk_data c tb"
      by (auto simp: start_chunk_phase_def rbind_Inr_iff)
    with rab [of c] rabin_chunker_ok [OF tb(2), of c] round_avg_ok assms(2) b show ?thesis by metis
  next
    case CHUNK_NORMALIZED_RABIN
    with assms(1) tb obtain c where "round_avg cfg = Inr c" "cfg' = c" "chunking = normalized_rabin_chunk_data c tb"
      by (auto simp: start_chunk_phase_def rbind_Inr_iff)
    with rab [of c] normalized_chunker_ok [OF tb(2), of c] round_avg_ok assms(2) b show ?thesis by metis
  next
    case CHUNK_TTTD
    with assms(1) tb obtain c where "round_avg cfg = Inr c" "cfg' = c" "chunking = tttd_chunk_data c tb"
      by (auto simp: start_chunk_phase_def rbind_Inr_iff)
    with rab [of c] tttd_chunker_ok [OF tb(2), of c] round_avg_ok assms(2) b show ?thesis by metis
  next
    case CHUNK_AE
    with assms ae_cuts [of cfg'] show ?thesis
      by (auto simp: start_chunk_phase_def rbind_assert split: if_splits)
  qed (use assms in \<open>auto simp: start_chunk_phase_def\<close>)
qed

subsection \<open>Properties\<close>



end
