(* ===== verification/Hash_Phase.thy ===== *)
theory Hash_Phase
  imports Destor_Types
begin

text \<open>
  The hash phase of \<open>hash_phase.c\<close> and the hexadecimal codes of \<open>hash2code\<close> and
  \<open>code2hash\<close> in \<open>trace_phase.c\<close>. SHA-1 is OpenSSL's: it is the argument \<open>sha1\<close>, a
  function of the chunk's data. The thread maps the list popped from \<open>chunk_queue\<close> to the
  list pushed to \<open>hash_queue\<close>.
\<close>

definition sha1_chunk :: "(byte list \<Rightarrow> fingerprint) \<Rightarrow> chunk \<Rightarrow> chunk" where
  "sha1_chunk sha1 c =
     (if CHECK_CHUNK c CHUNK_FILE_START \<or> CHECK_CHUNK c CHUNK_FILE_END then c
      else c\<lparr>ck_fp := sha1 (take (nat (ck_size c)) (ck_data c))\<rparr>)"

fun sha1_thread :: "(byte list \<Rightarrow> fingerprint) \<Rightarrow> chunk list \<Rightarrow> chunk list" where
  "sha1_thread sha1 [] = []"
| "sha1_thread sha1 (c # cs) = sha1_chunk sha1 c # sha1_thread sha1 cs"

definition code_char :: "nat \<Rightarrow> byte" where
  "code_char b =
     (if b = 10 then 0x41 else if b = 11 then 0x42 else if b = 12 then 0x43
      else if b = 13 then 0x44 else if b = 14 then 0x45 else if b = 15 then 0x46
      else of_nat (b + 48))"

definition hash2code :: "byte list \<Rightarrow> byte list" where
  "hash2code hash =
     concat (map (\<lambda>i. let a = hash ! i in
        [code_char (unat a div 16), code_char (unat (push_bit 4 a) div 16)]) [0..<20])"

definition code_val :: "byte \<Rightarrow> byte" where
  "code_val a =
     (if a = 0x41 \<or> a = 0x61 then 10 else if a = 0x42 \<or> a = 0x62 then 11
      else if a = 0x43 \<or> a = 0x63 then 12 else if a = 0x44 \<or> a = 0x64 then 13
      else if a = 0x45 \<or> a = 0x65 then 14 else if a = 0x46 \<or> a = 0x66 then 15
      else a - 48)"

definition code2hash :: "byte list \<Rightarrow> byte list" where
  "code2hash code =
     map (\<lambda>i. fold (\<lambda>j h. h * 16 + code_val (code ! (2 * i + j))) [0..<2] 0) [0..<20]"

subsection \<open>Round trip\<close>

lemma digit_table: "b < 16 \<Longrightarrow> code_val (code_char b) = of_nat b"
proof -
  have "list_all (\<lambda>b. code_val (code_char b) = of_nat b) [0..<16]"
    by (simp add: upt_rec code_val_def code_char_def)
  then show "b < 16 \<Longrightarrow> code_val (code_char b) = of_nat b" by (simp add: list_all_iff)
qed

lemma low_nibble: "unat (push_bit 4 (a :: byte)) div 16 = unat a mod 16"
proof -
  have "unat (push_bit 4 a) = (unat a * 16) mod 256"
    unfolding unsigned_push_bit_eq by (simp add: push_bit_eq_mult take_bit_eq_mod)
  also have "\<dots> = (unat a mod 16) * 16" using mult_mod_left [of "unat a" 16 16] by simp
  finally show ?thesis by simp
qed

lemma nibbles: "code_val (code_char (unat a div 16)) * 16 + code_val (code_char (unat (push_bit 4 a) div 16)) = (a :: byte)"
proof -
  have "unat a < 2 ^ LENGTH(8)" by (rule unsigned_less)
  then have "unat a div 16 < 16" by simp
  then have "code_val (code_char (unat a div 16)) * 16 + code_val (code_char (unat (push_bit 4 a) div 16)) =
      of_nat (unat a div 16) * 16 + of_nat (unat a mod 16)"
    by (simp add: digit_table low_nibble)
  also have "\<dots> = of_nat (unat a div 16 * 16 + unat a mod 16)"
    by (simp only: of_nat_add of_nat_mult of_nat_numeral)
  also have "\<dots> = a" by (simp only: div_mult_mod_eq) simp
  finally show ?thesis .
qed

lemma nth_concat_pairs:
  "i < length xs \<Longrightarrow> j < 2 \<Longrightarrow> concat (map (\<lambda>x. [f x, g x]) xs) ! (2 * i + j) = (if j = 0 then f (xs ! i) else g (xs ! i))"
proof (induction xs arbitrary: i)
  case (Cons x xs)
  show ?case
  proof (cases i)
    case 0
    with Cons.prems show ?thesis by (cases j) auto
  next
    case (Suc k)
    with Cons.IH [of k] Cons.prems show ?thesis by simp
  qed
qed simp

lemma upt2: "[0..<2] = [0, Suc 0]"
  by (simp add: upt_rec)

text \<open>Printing the 20 bytes of a fingerprint as 40 hexadecimal digits and parsing them back gives the same fingerprint.\<close>

lemma code2hash_hash2code:
  assumes "length hash = 20"
  shows "code2hash (hash2code hash) = hash"
proof (rule nth_equalityI)
  show "length (code2hash (hash2code hash)) = length hash" using assms by (simp add: code2hash_def)
  fix i assume "i < length (code2hash (hash2code hash))"
  then have i: "i < 20" by (simp add: code2hash_def)
  have nth: "hash2code hash ! (2 * i + j) =
      (if j = 0 then code_char (unat (hash ! i) div 16) else code_char (unat (push_bit 4 (hash ! i)) div 16))"
    if "j < 2" for j
    unfolding hash2code_def Let_def by (subst nth_concat_pairs) (use i that in auto)
  have "code2hash (hash2code hash) ! i =
      (0 * 16 + code_val (hash2code hash ! (2 * i + 0))) * 16 + code_val (hash2code hash ! (2 * i + 1))"
    using i upt2 by (simp add: code2hash_def)
  also have "\<dots> = hash ! i" using nth [of 0] nth [of 1] nibbles by simp
  finally show "code2hash (hash2code hash) ! i = hash ! i" .
qed

lemma sha1_thread_map: "sha1_thread sha1 cs = map (sha1_chunk sha1) cs"
  by (induction cs) auto

lemma sha1_chunk_keeps [simp]:
  "ck_data (sha1_chunk sha1 c) = ck_data c" "ck_size (sha1_chunk sha1 c) = ck_size c"
  "ck_flag (sha1_chunk sha1 c) = ck_flag c" "ck_id (sha1_chunk sha1 c) = ck_id c"
  by (simp_all add: sha1_chunk_def)

end
