(* ===== verification/Container_Store.thy ===== *)
theory Container_Store
  imports Byte_Store
begin

text \<open>
  The container store of \<open>storage/containerstore.c\<close>: containers, the block of metadata at
  the end of each, the file \<open>container.pool\<close> and the buffer of containers waiting for the
  append thread. \<open>sim\<close> is \<open>destor.simulation_level\<close>, \<open>be\<close> the byte order of the host
  (\<open>len\<close> and \<open>off\<close> of an entry are copied in host order), \<open>iter\<close> the order in which
  GLib iterates over a hash table. \<open>me_position\<close> is \<open>None\<close> where the code leaves the field
  uninitialised.
\<close>

definition CONTAINER_SIZE :: nat where [cfg_simps]: "CONTAINER_SIZE = 4194304"
definition CONTAINER_META_SIZE :: nat where [cfg_simps]: "CONTAINER_META_SIZE = 32768"
definition SIMULATION_NO :: int where [cfg_simps]: "SIMULATION_NO = 0"
definition SIMULATION_RESTORE :: int where [cfg_simps]: "SIMULATION_RESTORE = 1"
definition SIMULATION_APPEND :: int where [cfg_simps]: "SIMULATION_APPEND = 2"
definition SIMULATION_ALL :: int where [cfg_simps]: "SIMULATION_ALL = 3"

record metaEntry =
  me_off :: int
  me_len :: int
  me_position :: "int option"
  me_fp :: fingerprint

record containerMeta =
  cm_id :: containerid
  cm_data_size :: int
  cm_chunk_num :: int
  cm_map :: "(fingerprint, metaEntry) htable"

record container =
  ct_meta :: containerMeta
  ct_data :: "byte list option"

type_synonym meta_iter = "(fingerprint, metaEntry) htable \<Rightarrow> (fingerprint \<times> metaEntry) list"

subsection \<open>A container in memory\<close>

definition init_container_meta :: containerMeta where
  "init_container_meta = \<lparr>cm_id = TEMPORARY_ID, cm_data_size = 0, cm_chunk_num = 0, cm_map = []\<rparr>"

definition create_container :: "int \<Rightarrow> int \<Rightarrow> container \<times> int" where   \<comment> \<open>with \<open>container_count\<close>\<close>
  "create_container sim cnt =
     (\<lparr>ct_meta = init_container_meta\<lparr>cm_id := cnt\<rparr>,
       ct_data = (if sim < SIMULATION_APPEND then Some (replicate CONTAINER_SIZE 0) else None)\<rparr>,
      cnt + 1)"

definition get_container_id :: "container \<Rightarrow> containerid" where
  "get_container_id c = cm_id (ct_meta c)"

definition container_empty :: "container \<Rightarrow> bool" where
  "container_empty c \<longleftrightarrow> cm_chunk_num (ct_meta c) = 0"

definition container_overflow :: "container \<Rightarrow> int \<Rightarrow> bool" where
  "container_overflow c sz =
     (if cm_data_size (ct_meta c) + sz > int CONTAINER_SIZE - int CONTAINER_META_SIZE then True
      else if (cm_chunk_num (ct_meta c) + 1) * 28 + 16 > int CONTAINER_META_SIZE then True
      else False)"

definition add_chunk_to_container :: "int \<Rightarrow> container \<Rightarrow> chunk \<Rightarrow> (bool \<times> container \<times> chunk) res" where
  "add_chunk_to_container sim c ck =
     rbind (c_assert (\<not> container_overflow c (ck_size ck))) (\<lambda>_.
     let m = ct_meta c in
     if ck_fp ck \<in> fst ` set (cm_map m) then Inr (False, c, ck\<lparr>ck_id := cm_id m\<rparr>)
     else
       let me = \<lparr>me_off = cm_data_size m, me_len = ck_size ck, me_position = None, me_fp = ck_fp ck\<rparr>;
           m1 = m\<lparr>cm_map := AList.update (ck_fp ck) me (cm_map m), cm_chunk_num := cm_chunk_num m + 1\<rparr>
       in rbind
            (if sim < SIMULATION_APPEND then
               (case ct_data c of
                  None \<Rightarrow> Inl NullDeref
                | Some d \<Rightarrow> if cm_data_size m < 0 then Inl OutOfBounds else
                    rbind (data_of ck) (\<lambda>bs. map_sum id Some (poke CONTAINER_SIZE (nat (cm_data_size m)) bs d)))
             else Inr (ct_data c))
            (\<lambda>d. Inr (True, \<lparr>ct_meta = m1\<lparr>cm_data_size := cm_data_size m1 + ck_size ck\<rparr>, ct_data = d\<rparr>,
                      ck\<lparr>ck_id := cm_id m\<rparr>)))"

definition get_metaentry_in_container_meta :: "containerMeta \<Rightarrow> fingerprint \<Rightarrow> metaEntry option" where
  "get_metaentry_in_container_meta m fp = map_of (cm_map m) fp"

text \<open>The fingerprint of the result is copied from \<open>&fp\<close>, the address of the argument:
  \<open>addr_bytes\<close> stands for the 20 bytes found there.\<close>

definition get_chunk_in_container :: "int \<Rightarrow> fingerprint \<Rightarrow> container \<Rightarrow> fingerprint \<Rightarrow> chunk res" where
  "get_chunk_in_container sim addr_bytes c fp =
     (case get_metaentry_in_container_meta (ct_meta c) fp of
        None \<Rightarrow> Inl AssertFailed
      | Some me \<Rightarrow>
          let ck = new_chunk (me_len me) in
          rbind (if sim < SIMULATION_RESTORE then
                   (case ct_data c of
                      None \<Rightarrow> Inl NullDeref
                    | Some d \<Rightarrow> if me_off me < 0 \<or> me_len me < 0 then Inl OutOfBounds
                              else peek (nat (me_off me)) (nat (me_len me)) d)
                 else Inr [])
            (\<lambda>bs. Inr (ck\<lparr>ck_data := bs, ck_size := me_len me, ck_id := cm_id (ct_meta c), ck_fp := addr_bytes\<rparr>)))"

definition lookup_fingerprint_in_container_meta :: "containerMeta \<Rightarrow> fingerprint \<Rightarrow> bool" where
  "lookup_fingerprint_in_container_meta m fp = (if map_of (cm_map m) fp = None then False else True)"

definition lookup_fingerprint_in_container :: "container \<Rightarrow> fingerprint \<Rightarrow> bool" where
  "lookup_fingerprint_in_container c fp = lookup_fingerprint_in_container_meta (ct_meta c) fp"

definition g_container_meta_cmp_desc :: "containerMeta \<Rightarrow> containerMeta \<Rightarrow> int" where
  "g_container_meta_cmp_desc m1 m2 = sint (i32 (cm_id m2 - cm_id m1))"

definition g_container_cmp_desc :: "container \<Rightarrow> container \<Rightarrow> int" where
  "g_container_cmp_desc c1 c2 = g_container_meta_cmp_desc (ct_meta c1) (ct_meta c2)"

definition container_meta_check_id :: "containerMeta \<Rightarrow> containerid \<Rightarrow> bool" where
  "container_meta_check_id m i \<longleftrightarrow> cm_id m = i"

definition container_check_id :: "container \<Rightarrow> containerid \<Rightarrow> bool" where
  "container_check_id c i = container_meta_check_id (ct_meta c) i"

definition container_meta_foreach :: "meta_iter \<Rightarrow> containerMeta \<Rightarrow> (fingerprint \<Rightarrow> 's \<Rightarrow> 's) \<Rightarrow> 's \<Rightarrow> 's" where
  "container_meta_foreach iter m func s = fold (\<lambda>(key, me). func key) (iter (cm_map m)) s"

definition container_meta_duplicate :: "meta_iter \<Rightarrow> container \<Rightarrow> containerMeta" where
  "container_meta_duplicate iter c =
     (let base = ct_meta c in
      init_container_meta\<lparr>cm_id := cm_id base, cm_chunk_num := cm_chunk_num base, cm_data_size := cm_data_size base,
        cm_map := fold (\<lambda>(key, me) t. AList.update (me_fp me) me t) (iter (cm_map base)) []\<rparr>)"

subsection \<open>Writing and reading the pool\<close>

definition ser_meta :: "bool \<Rightarrow> meta_iter \<Rightarrow> containerMeta \<Rightarrow> cursor \<Rightarrow> cursor res" where
  "ser_meta be iter m c =
     rbind (serial_int64 be (i64 (cm_id m)) c) (\<lambda>c.
     rbind (serial_int32 be (i32 (cm_chunk_num m)) c) (\<lambda>c.
     rbind (serial_int32 be (i32 (cm_data_size m)) c) (\<lambda>c.
     rfold (\<lambda>(key, me) c.
         rbind (ser_bytes (me_fp me) c) (\<lambda>c.
         rbind (ser_bytes (host_bytes be 4 (i32 (me_len me))) c) (\<lambda>c.
         ser_bytes (host_bytes be 4 (i32 (me_off me))) c))) (iter (cm_map m)) c)))"

text \<open>The position of container \<open>n\<close> in the pool, computed in 64 bits: a product or a sum that does not
  fit is undefined in C and faults.\<close>

definition pool_offset :: "int \<Rightarrow> nat \<Rightarrow> int \<Rightarrow> int res" where
  "pool_offset n sz rest =
     (let p = n * int sz in if in64 p \<and> in64 (p + rest) then Inr (p + rest) else Inl OutOfBounds)"

definition write_container :: "bool \<Rightarrow> meta_iter \<Rightarrow> int \<Rightarrow> container \<Rightarrow> byte list \<times> int \<Rightarrow> (byte list \<times> int) res" where
  "write_container be iter sim c = (\<lambda>(pool, cnt).
     let m = ct_meta c in
     rbind (c_assert (cm_chunk_num m = int (length (cm_map m)))) (\<lambda>_.
     if container_empty c then Inr (pool, cnt - 1)
     else if sim < SIMULATION_APPEND then
       (case ct_data c of
          None \<Rightarrow> Inl NullDeref
        | Some d \<Rightarrow>
            let start = CONTAINER_SIZE - CONTAINER_META_SIZE in
            rbind (ser_meta be iter m (ser_begin d start)) (\<lambda>cur.
            rbind (c_assert (cptr cur - start \<le> CONTAINER_META_SIZE)) (\<lambda>_.
            rbind (pool_offset (cm_id m) CONTAINER_SIZE 8) (\<lambda>off.
            if off < 0 then Inl ExitFailure else Inr (f_write (nat off) (cbuf cur) pool, cnt)))))
     else
       rbind (ser_meta be iter m (ser_begin (replicate CONTAINER_META_SIZE 0) 0)) (\<lambda>cur.
       rbind (c_assert (cptr cur \<le> CONTAINER_META_SIZE)) (\<lambda>_.
       rbind (pool_offset (cm_id m) CONTAINER_META_SIZE 8) (\<lambda>off.
       if off < 0 then Inl ExitFailure else Inr (f_write (nat off) (cbuf cur) pool, cnt))))))"

fun unser_entries :: "bool \<Rightarrow> bool \<Rightarrow> nat \<Rightarrow> int \<Rightarrow> cursor \<Rightarrow> (fingerprint, metaEntry) htable \<Rightarrow> (fingerprint, metaEntry) htable res" where
  "unser_entries be pos 0 i c t = Inr t"
| "unser_entries be pos (Suc n) i c t =
     rbind (unser_bytes 20 c) (\<lambda>(fp, c).
     rbind (unser_bytes 4 c) (\<lambda>(len, c).
     rbind (unser_bytes 4 c) (\<lambda>(off, c).
       let me = \<lparr>me_off = sint (host_word be off :: 32 word), me_len = sint (host_word be len :: 32 word),
                 me_position = (if pos then Some i else None), me_fp = fp\<rparr>
       in unser_entries be pos n (i + 1) c (AList.update fp me t))))"

definition unser_meta :: "bool \<Rightarrow> bool \<Rightarrow> containerid \<Rightarrow> cursor \<Rightarrow> containerMeta res" where
  "unser_meta be pos i c =
     rbind (unserial_int64 be c) (\<lambda>(idw, c).
     rbind (unserial_int32 be c) (\<lambda>(num, c).
     rbind (unserial_int32 be c) (\<lambda>(dsize, c).
     rbind (c_assert (sint idw = i)) (\<lambda>_.
     rbind (unser_entries be pos (nat (sint num)) 0 c []) (\<lambda>t.
       Inr \<lparr>cm_id = sint idw, cm_data_size = sint dsize, cm_chunk_num = sint num, cm_map = t\<rparr>)))))"

text \<open>Where the metadata of a container lies in the pool.\<close>

definition meta_offset :: "int \<Rightarrow> containerid \<Rightarrow> int res" where
  "meta_offset sim i =
     (if sim \<ge> SIMULATION_APPEND then pool_offset i CONTAINER_META_SIZE 8
      else pool_offset (i + 1) CONTAINER_SIZE (8 - int CONTAINER_META_SIZE))"

definition seek_read :: "int \<Rightarrow> nat \<Rightarrow> byte list \<Rightarrow> byte list res" where
  "seek_read off n pool = (if off < 0 then Inl OutOfBounds else f_read (nat off) n pool)"

definition retrieve_container_by_id :: "bool \<Rightarrow> int \<Rightarrow> byte list \<Rightarrow> containerid \<Rightarrow> container res" where
  "retrieve_container_by_id be sim pool i =
     (if sim \<ge> SIMULATION_RESTORE then
        rbind (rbind (meta_offset sim i) (\<lambda>off. seek_read off CONTAINER_META_SIZE pool)) (\<lambda>d.
        rbind (unser_meta be False i (ser_begin d 0)) (\<lambda>m. Inr \<lparr>ct_meta = m, ct_data = None\<rparr>))
      else
        rbind (rbind (pool_offset i CONTAINER_SIZE 8) (\<lambda>off. seek_read off CONTAINER_SIZE pool)) (\<lambda>d.
        rbind (unser_meta be False i (ser_begin d (CONTAINER_SIZE - CONTAINER_META_SIZE))) (\<lambda>m.
          Inr \<lparr>ct_meta = m, ct_data = Some d\<rparr>)))"

definition retrieve_container_meta_by_id ::
  "bool \<Rightarrow> meta_iter \<Rightarrow> int \<Rightarrow> container list \<Rightarrow> byte list \<Rightarrow> containerid \<Rightarrow> containerMeta res" where
  "retrieve_container_meta_by_id be iter sim buffer pool i =
     (case find (\<lambda>c. container_check_id c i) buffer of
        Some c \<Rightarrow> Inr (container_meta_duplicate iter c)
      | None \<Rightarrow>
          rbind (rbind (meta_offset sim i) (\<lambda>off. seek_read off CONTAINER_META_SIZE pool)) (\<lambda>d.
            unser_meta be True i (ser_begin d 0)))"

subsection \<open>The metadata block\<close>

definition entry_bytes :: "bool \<Rightarrow> fingerprint \<times> metaEntry \<Rightarrow> byte list" where
  "entry_bytes be e = me_fp (snd e) @ host_bytes be 4 (i32 (me_len (snd e))) @ host_bytes be 4 (i32 (me_off (snd e)))"

definition meta_bytes :: "bool \<Rightarrow> meta_iter \<Rightarrow> containerMeta \<Rightarrow> byte list" where
  "meta_bytes be iter m =
     rev (le_bytes 8 (i64 (cm_id m))) @ rev (le_bytes 4 (i32 (cm_chunk_num m))) @
     rev (le_bytes 4 (i32 (cm_data_size m))) @ concat (map (entry_bytes be) (iter (cm_map m)))"

definition entry_ok :: "int \<Rightarrow> fingerprint \<times> metaEntry \<Rightarrow> bool" where
  "entry_ok n e \<longleftrightarrow> me_fp (snd e) = fst e \<and> length (fst e) = 20 \<and> 0 \<le> me_off (snd e) \<and>
     0 \<le> me_len (snd e) \<and> me_off (snd e) + me_len (snd e) \<le> n"

definition meta_ok :: "containerMeta \<Rightarrow> bool" where
  "meta_ok m \<longleftrightarrow> distinct (map fst (cm_map m)) \<and> list_all (entry_ok (cm_data_size m)) (cm_map m) \<and>
     cm_chunk_num m = int (length (cm_map m)) \<and> 0 \<le> cm_data_size m \<and>
     cm_data_size m \<le> int CONTAINER_SIZE - int CONTAINER_META_SIZE \<and>
     28 * cm_chunk_num m + 16 \<le> int CONTAINER_META_SIZE"

fun numbered :: "bool \<Rightarrow> int \<Rightarrow> (fingerprint \<times> metaEntry) list \<Rightarrow> (fingerprint, metaEntry) htable" where
  "numbered pos i [] = []"
| "numbered pos i ((k, me) # es) =
     (k, me\<lparr>me_position := (if pos then Some i else None)\<rparr>) # numbered pos (i + 1) es"

lemma map_fst_numbered [simp]: "map fst (numbered pos i es) = map fst es"
  by (induction es arbitrary: i) auto

lemma map_of_numbered:
  "map_of (map (\<lambda>(k, me). (k, me\<lparr>me_position := p\<rparr>)) (numbered pos i es)) =
   map_of (map (\<lambda>(k, me). (k, me\<lparr>me_position := p\<rparr>)) es)"
  by (induction es arbitrary: i) auto

lemma numbered_entry:
  "map_option me_off (map_of (numbered pos i es) k) = map_option me_off (map_of es k)"
  "map_option me_len (map_of (numbered pos i es) k) = map_option me_len (map_of es k)"
  by (induction es arbitrary: i) auto

lemma list_all_numbered [simp]: "list_all (entry_ok n) (numbered pos i es) = list_all (entry_ok n) es"
  by (induction es arbitrary: i) (auto simp: entry_ok_def)

lemma length_numbered [simp]: "length (numbered pos i es) = length es"
  by (induction es arbitrary: i) auto

lemma ser_bytes_ptr: "ser_bytes bs c = Inr d \<Longrightarrow> cptr d \<le> length (cbuf d)"
  by (auto simp: ser_bytes_def split: if_splits)

lemma ser_then:
  assumes "\<And>d. cptr d \<le> length (cbuf d) \<Longrightarrow> f d = ser_bytes bs d"
  shows "rbind (ser_bytes as c) f = ser_bytes (as @ bs) c"
proof -
  have "rbind (ser_bytes as c) f = rbind (ser_bytes as c) (ser_bytes bs)"
    using assms ser_bytes_ptr by (cases "ser_bytes as c") auto
  then show ?thesis by (simp add: ser_bytes_append)
qed

lemma rfold_cong: "(\<And>x s. f x s = g x s) \<Longrightarrow> rfold f xs s = rfold g xs s"
  by (metis ext)

lemma ser_meta_bytes: "cptr c \<le> length (cbuf c) \<Longrightarrow> ser_meta be iter m c = ser_bytes (meta_bytes be iter m) c"
proof -
  have step: "(\<lambda>(key, me) c.
         rbind (ser_bytes (me_fp me) c) (\<lambda>c.
         rbind (ser_bytes (host_bytes be 4 (i32 (me_len me))) c) (\<lambda>c.
         ser_bytes (host_bytes be 4 (i32 (me_off me))) c))) = (\<lambda>e. ser_bytes (entry_bytes be e))"
    by (auto simp: fun_eq_iff entry_bytes_def intro!: ser_then)
  show ?thesis
    unfolding ser_meta_def step serial_int64_net serial_int32_net meta_bytes_def
    by (intro ser_then) (rule ser_bytes_concat)
qed

lemma length_entries:
  "list_all (entry_ok n) es \<Longrightarrow> length (concat (map (entry_bytes be) es)) = 28 * length es"
  by (induction es) (auto simp: entry_bytes_def entry_ok_def)

lemma list_all_iter: "iter_ok iter \<Longrightarrow> list_all P (iter t) = list_all P t"
  by (simp add: list_all_iff iter_ok_set)

lemma length_meta_bytes:
  "iter_ok iter \<Longrightarrow> meta_ok m \<Longrightarrow> length (meta_bytes be iter m) = 16 + 28 * length (cm_map m)"
  using length_entries [of "cm_data_size m" "iter (cm_map m)" be]
  by (simp add: meta_bytes_def meta_ok_def list_all_iter iter_ok_length)

lemma meta_fits: "iter_ok iter \<Longrightarrow> meta_ok m \<Longrightarrow> length (meta_bytes be iter m) \<le> CONTAINER_META_SIZE"
  by (simp add: length_meta_bytes) (simp add: meta_ok_def)

text \<open>Reading a sequence of fields.\<close>

lemma unser_step:
  assumes "reads c = bs @ rest" and "cptr c \<le> length (cbuf c)" and "n = length bs"
  shows "\<exists>d. unser_bytes n c = Inr (bs, d) \<and> reads d = rest \<and> cptr d \<le> length (cbuf d)"
  using unser_bytes_reads [OF assms(1,2)] assms(3) by auto

lemma unser_entries_bytes:
  assumes "reads c = concat (map (entry_bytes be) es) @ rest" and "cptr c \<le> length (cbuf c)"
    and "list_all (entry_ok n) es" and "n < 2 ^ 31" and "distinct (map fst (t @ es))"
  shows "unser_entries be pos (length es) i c t = Inr (t @ numbered pos i es)"
  using assms
proof (induction es arbitrary: c i t)
  case (Cons e es)
  obtain k me where e: "e = (k, me)" by (cases e)
  have ok: "me_fp me = k" "length k = 20" "in32 (me_off me)" "in32 (me_len me)"
    using Cons.prems(3,4) by (auto simp: e entry_ok_def in32_def)
  from Cons.prems(1) have r: "reads c = k @ host_bytes be 4 (i32 (me_len me)) @ host_bytes be 4 (i32 (me_off me)) @
      concat (map (entry_bytes be) es) @ rest"
    using ok by (simp add: e) (simp add: entry_bytes_def [of _ "(k, me)"])
  from unser_step [OF r Cons.prems(2), of 20] ok obtain c1 where
    1: "unser_bytes 20 c = Inr (k, c1)" "cptr c1 \<le> length (cbuf c1)"
    "reads c1 = host_bytes be 4 (i32 (me_len me)) @ host_bytes be 4 (i32 (me_off me)) @ concat (map (entry_bytes be) es) @ rest"
    by auto
  from unser_step [OF 1(3,2), of 4] obtain c2 where
    2: "unser_bytes 4 c1 = Inr (host_bytes be 4 (i32 (me_len me)), c2)" "cptr c2 \<le> length (cbuf c2)"
    "reads c2 = host_bytes be 4 (i32 (me_off me)) @ concat (map (entry_bytes be) es) @ rest" by auto
  from unser_step [OF 2(3,2), of 4] obtain c3 where
    3: "unser_bytes 4 c2 = Inr (host_bytes be 4 (i32 (me_off me)), c3)" "cptr c3 \<le> length (cbuf c3)"
    "reads c3 = concat (map (entry_bytes be) es) @ rest" by auto
  let ?me = "me\<lparr>me_position := (if pos then Some i else None)\<rparr>"
  have up: "AList.update k ?me t = t @ [(k, ?me)]"
    using Cons.prems(5) by (intro length_update_new) (simp add: e)
  have d: "distinct (map fst ((t @ [(k, ?me)]) @ es))" using Cons.prems(5) by (simp add: e)
  have me: "\<lparr>me_off = me_off me, me_len = me_len me, me_position = (if pos then Some i else None), me_fp = k\<rparr> = ?me"
    using ok by simp
  from Cons.IH [OF 3(3,2) _ Cons.prems(4) d, of "i + 1"] Cons.prems(3) show ?case
    by (simp add: 1 2 3 e ok me up del: AList.update.simps)
qed simp

lemma unser_meta_bytes:
  assumes "reads c = meta_bytes be iter m @ rest" and "cptr c \<le> length (cbuf c)"
    and "meta_ok m" and "iter_ok iter" and "in64 (cm_id m)"
  shows "unser_meta be pos (cm_id m) c = Inr (m\<lparr>cm_map := numbered pos 0 (iter (cm_map m))\<rparr>)"
proof -
  have rng: "in32 (cm_chunk_num m)" "in32 (cm_data_size m)"
    using assms(3) by (auto simp: meta_ok_def in32_def cfg_simps)
  note r = assms(1) [unfolded meta_bytes_def append_assoc]
  from unser_step [OF r assms(2), of 8] obtain c1 where
    1: "unser_bytes 8 c = Inr (rev (le_bytes 8 (i64 (cm_id m))), c1)" "cptr c1 \<le> length (cbuf c1)"
    "reads c1 = rev (le_bytes 4 (i32 (cm_chunk_num m))) @ rev (le_bytes 4 (i32 (cm_data_size m))) @
       concat (map (entry_bytes be) (iter (cm_map m))) @ rest" by auto
  from unser_step [OF 1(3,2), of 4] obtain c2 where
    2: "unser_bytes 4 c1 = Inr (rev (le_bytes 4 (i32 (cm_chunk_num m))), c2)" "cptr c2 \<le> length (cbuf c2)"
    "reads c2 = rev (le_bytes 4 (i32 (cm_data_size m))) @ concat (map (entry_bytes be) (iter (cm_map m))) @ rest" by auto
  from unser_step [OF 2(3,2), of 4] obtain c3 where
    3: "unser_bytes 4 c2 = Inr (rev (le_bytes 4 (i32 (cm_data_size m))), c3)" "cptr c3 \<le> length (cbuf c3)"
    "reads c3 = concat (map (entry_bytes be) (iter (cm_map m))) @ rest" by auto
  have ents: "unser_entries be pos (length (iter (cm_map m))) 0 c3 [] = Inr ([] @ numbered pos 0 (iter (cm_map m)))"
  proof (rule unser_entries_bytes [OF 3(3,2)])
    show "list_all (entry_ok (cm_data_size m)) (iter (cm_map m))"
      using assms(3,4) by (simp add: list_all_iter meta_ok_def)
    show "cm_data_size m < 2 ^ 31" using assms(3) by (simp add: meta_ok_def cfg_simps)
    show "distinct (map fst ([] @ iter (cm_map m)))"
      using assms(3,4) by (simp add: iter_ok_distinct meta_ok_def)
  qed
  have len: "nat (cm_chunk_num m) = length (iter (cm_map m))"
    using assms(3,4) by (simp add: meta_ok_def iter_ok_length)
  show ?thesis
    using rng assms(5) ents
    by (simp add: unser_meta_def unserial_int64_net unserial_int32_net 1 2 3 from_le_bytes
        take_bit_word_eq_self len)
qed

subsection \<open>Blocks of the pool\<close>

definition block_len :: "int \<Rightarrow> nat" where
  "block_len sim = (if sim < SIMULATION_APPEND then CONTAINER_SIZE else CONTAINER_META_SIZE)"

definition block_off :: "int \<Rightarrow> containerid \<Rightarrow> nat" where
  "block_off sim i = nat (i * int (block_len sim) + 8)"

text \<open>Ids below $2^{40}$, a pool of $2^{62}$ bytes, keep every position within 64 bits.\<close>

definition container_ok :: "int \<Rightarrow> container \<Rightarrow> bool" where
  "container_ok sim c \<longleftrightarrow> meta_ok (ct_meta c) \<and> 0 \<le> cm_id (ct_meta c) \<and> cm_id (ct_meta c) < 2 ^ 40 \<and>
     (sim < SIMULATION_APPEND \<longrightarrow> (\<exists>d. ct_data c = Some d \<and> length d = CONTAINER_SIZE))"

definition block_of :: "bool \<Rightarrow> meta_iter \<Rightarrow> int \<Rightarrow> container \<Rightarrow> byte list \<Rightarrow> bool" where
  "block_of be iter sim c b \<longleftrightarrow> length b = block_len sim \<and>
     (\<exists>rest. drop (block_len sim - CONTAINER_META_SIZE) b = meta_bytes be iter (ct_meta c) @ rest) \<and>
     (sim < SIMULATION_APPEND \<longrightarrow>
        take (CONTAINER_SIZE - CONTAINER_META_SIZE) b = take (CONTAINER_SIZE - CONTAINER_META_SIZE) (the (ct_data c)))"

definition stored :: "bool \<Rightarrow> meta_iter \<Rightarrow> int \<Rightarrow> byte list \<Rightarrow> container \<Rightarrow> bool" where
  "stored be iter sim pool c \<longleftrightarrow>
     (\<exists>b. f_read (block_off sim (cm_id (ct_meta c))) (block_len sim) pool = Inr b \<and> block_of be iter sim c b)"

lemma block_off_int: "0 \<le> i \<Longrightarrow> int (block_off sim i) = i * int (block_len sim) + 8"
  by (simp add: block_off_def)

lemma block_pos:
  assumes "0 \<le> i" and "i < 2 ^ 40"
  shows "pool_offset i (block_len sim) 8 = Inr (int (block_off sim i))"
proof -
  define p where "p = i * int (block_len sim)"
  have "block_len sim \<le> 4194304" by (simp add: block_len_def cfg_simps)
  then have "p \<le> 2 ^ 40 * 4194304" unfolding p_def using assms by (intro mult_mono) simp_all
  moreover have "0 \<le> p" unfolding p_def using assms by simp
  ultimately show ?thesis
    unfolding pool_offset_def block_off_def p_def [symmetric] Let_def by (simp add: in64_def)
qed

lemma container_ok_in64: "container_ok sim c \<Longrightarrow> in64 (cm_id (ct_meta c))"
  by (simp add: container_ok_def in64_def)

lemma blocks_apart:
  assumes "0 \<le> i" and "0 \<le> j" and "i \<noteq> j"
  shows "block_off sim i + block_len sim \<le> block_off sim j \<or> block_off sim j + block_len sim \<le> block_off sim i"
proof -
  have "(i + 1) * int (block_len sim) \<le> j * int (block_len sim) \<or> (j + 1) * int (block_len sim) \<le> i * int (block_len sim)"
    using assms by (intro mult_right_mono disjCI) (auto intro: mult_right_mono)
  then have "int (block_off sim i + block_len sim) \<le> int (block_off sim j) \<or>
      int (block_off sim j + block_len sim) \<le> int (block_off sim i)"
    using assms by (simp add: block_off_int algebra_simps)
  then show ?thesis by linarith
qed

lemma ser_meta_block:
  assumes "meta_ok m" and "iter_ok iter" and "start + CONTAINER_META_SIZE = length d"
  shows "\<exists>cur. ser_meta be iter m (ser_begin d start) = Inr cur \<and> cptr cur - start \<le> CONTAINER_META_SIZE \<and>
     length (cbuf cur) = length d \<and> take start (cbuf cur) = take start d \<and>
     (\<exists>rest. drop start (cbuf cur) = meta_bytes be iter m @ rest)"
proof -
  have "start + length (meta_bytes be iter m) \<le> length d"
    using meta_fits [OF assms(2,1), of be] assms(3) by simp
  moreover have "cptr (ser_begin d start) \<le> length (cbuf (ser_begin d start))"
    using assms(3) by (simp add: ser_begin_def)
  ultimately show ?thesis
    using meta_fits [OF assms(2,1), of be]
    by (simp add: ser_meta_bytes) (simp add: ser_begin_def ser_bytes_def)
qed

lemma write_container_block:
  assumes "container_ok sim c" and "\<not> container_empty c" and "iter_ok iter"
  shows "\<exists>b. write_container be iter sim c (pool, cnt) =
       Inr (f_write (block_off sim (cm_id (ct_meta c))) b pool, cnt) \<and> block_of be iter sim c b"
proof (cases "sim < SIMULATION_APPEND")
  case True
  with assms(1) obtain d where d: "ct_data c = Some d" "length d = CONTAINER_SIZE" "meta_ok (ct_meta c)"
    and pos: "pool_offset (cm_id (ct_meta c)) CONTAINER_SIZE 8 = Inr (int (block_off sim (cm_id (ct_meta c))))"
    using block_pos [of "cm_id (ct_meta c)" sim] by (auto simp: container_ok_def block_len_def)
  have "CONTAINER_SIZE - CONTAINER_META_SIZE + CONTAINER_META_SIZE = length d"
    using d by (simp add: cfg_simps)
  from ser_meta_block [OF d(3) assms(3) this, of be] obtain cur where
    cur: "ser_meta be iter (ct_meta c) (ser_begin d (CONTAINER_SIZE - CONTAINER_META_SIZE)) = Inr cur"
      "cptr cur - (CONTAINER_SIZE - CONTAINER_META_SIZE) \<le> CONTAINER_META_SIZE" "length (cbuf cur) = length d"
      "take (CONTAINER_SIZE - CONTAINER_META_SIZE) (cbuf cur) = take (CONTAINER_SIZE - CONTAINER_META_SIZE) d"
      "\<exists>rest. drop (CONTAINER_SIZE - CONTAINER_META_SIZE) (cbuf cur) = meta_bytes be iter (ct_meta c) @ rest"
    by blast
  have "cm_chunk_num (ct_meta c) = int (length (cm_map (ct_meta c)))" using d by (simp add: meta_ok_def)
  then show ?thesis
    using True d cur assms(2) pos
    by (intro exI [of _ "cbuf cur"]) (simp add: write_container_def Let_def block_of_def block_len_def)
next
  case False
  from assms(1) False have m: "meta_ok (ct_meta c)"
    and pos: "pool_offset (cm_id (ct_meta c)) CONTAINER_META_SIZE 8 = Inr (int (block_off sim (cm_id (ct_meta c))))"
    using block_pos [of "cm_id (ct_meta c)" sim] by (auto simp: container_ok_def block_len_def)
  have "0 + CONTAINER_META_SIZE = length (replicate CONTAINER_META_SIZE (0 :: byte))" by simp
  from ser_meta_block [OF m(1) assms(3) this, of be] obtain cur where
    cur: "ser_meta be iter (ct_meta c) (ser_begin (replicate CONTAINER_META_SIZE 0) 0) = Inr cur"
      "cptr cur \<le> CONTAINER_META_SIZE" "length (cbuf cur) = CONTAINER_META_SIZE"
      "\<exists>rest. cbuf cur = meta_bytes be iter (ct_meta c) @ rest"
    by auto
  have "cm_chunk_num (ct_meta c) = int (length (cm_map (ct_meta c)))" using m by (simp add: meta_ok_def)
  then show ?thesis
    using False m cur assms(2) pos
    by (intro exI [of _ "cbuf cur"]) (simp add: write_container_def Let_def block_of_def block_len_def)
qed

lemma stored_write:
  assumes "block_of be iter sim c b"
  shows "stored be iter sim (f_write (block_off sim (cm_id (ct_meta c))) b pool) c"
  using assms by (auto simp: stored_def block_of_def intro!: exI [of _ b])

lemma stored_write_other:
  assumes "stored be iter sim pool c'" and "block_of be iter sim c b"
    and "0 \<le> cm_id (ct_meta c)" "0 \<le> cm_id (ct_meta c')" "cm_id (ct_meta c) \<noteq> cm_id (ct_meta c')"
  shows "stored be iter sim (f_write (block_off sim (cm_id (ct_meta c))) b pool) c'"
proof -
  from assms(1) obtain b' where b': "f_read (block_off sim (cm_id (ct_meta c'))) (block_len sim) pool = Inr b'"
    "block_of be iter sim c' b'" by (auto simp: stored_def)
  have "length b = block_len sim" using assms(2) by (simp add: block_of_def)
  with f_read_write_other [OF b'(1)] blocks_apart [OF assms(4,3), of sim] assms(5) b'(2) show ?thesis
    by (auto simp: stored_def)
qed

lemma meta_offset_value:
  assumes "meta_offset sim i = Inr off" and "0 \<le> i"
  shows "off = int (block_off sim i + (block_len sim - CONTAINER_META_SIZE))"
proof (cases "sim \<ge> SIMULATION_APPEND")
  case True
  with assms show ?thesis by (simp add: meta_offset_def pool_offset_def block_off_def block_len_def Let_def split: if_splits)
next
  case False
  with assms show ?thesis by (simp add: meta_offset_def pool_offset_def block_off_def block_len_def Let_def cfg_simps split: if_splits)
qed

lemma meta_offset_block:
  assumes "0 \<le> i" and "i < 2 ^ 40"
  shows "meta_offset sim i = Inr (int (block_off sim i + (block_len sim - CONTAINER_META_SIZE)))"
proof -
  have "\<exists>off. meta_offset sim i = Inr off"
    using assms by (simp add: meta_offset_def pool_offset_def in64_def Let_def cfg_simps)
  with meta_offset_value [OF _ assms(1)] show ?thesis by blast
qed

lemma seek_meta:
  assumes "stored be iter sim pool c" and "0 \<le> cm_id (ct_meta c)" and "cm_id (ct_meta c) < 2 ^ 40"
  shows "\<exists>d rest. rbind (meta_offset sim (cm_id (ct_meta c))) (\<lambda>off. seek_read off CONTAINER_META_SIZE pool) = Inr d \<and>
     d = meta_bytes be iter (ct_meta c) @ rest"
proof -
  from assms(1) obtain b rest where b: "f_read (block_off sim (cm_id (ct_meta c))) (block_len sim) pool = Inr b"
    "length b = block_len sim" "drop (block_len sim - CONTAINER_META_SIZE) b = meta_bytes be iter (ct_meta c) @ rest"
    by (auto simp: stored_def block_of_def)
  have le: "CONTAINER_META_SIZE \<le> block_len sim" by (simp add: block_len_def cfg_simps)
  then have "f_read (block_off sim (cm_id (ct_meta c)) + (block_len sim - CONTAINER_META_SIZE)) CONTAINER_META_SIZE pool =
      Inr (take CONTAINER_META_SIZE (drop (block_len sim - CONTAINER_META_SIZE) b))"
    by (intro f_read_sub [OF b(1)]) simp
  moreover have "length (drop (block_len sim - CONTAINER_META_SIZE) b) = CONTAINER_META_SIZE"
    using b(2) le by simp
  then have "take CONTAINER_META_SIZE (drop (block_len sim - CONTAINER_META_SIZE) b) =
      drop (block_len sim - CONTAINER_META_SIZE) b" by simp
  ultimately show ?thesis
    using meta_offset_block [OF assms(2,3), of sim] b(3) by (auto simp: seek_read_def nat_add_distrib)
qed

lemma reads_begin: "reads (ser_begin d n) = drop n d" "cptr (ser_begin d n) = n" "cbuf (ser_begin d n) = d"
  by (simp_all add: reads_def ser_begin_def)

text \<open>What the two read functions return for a stored container.\<close>

lemma retrieve_meta_stored:
  assumes "stored be iter sim pool c" and "container_ok sim c" and "iter_ok iter"
    and "find (\<lambda>c'. container_check_id c' (cm_id (ct_meta c))) buffer = None"
  shows "retrieve_container_meta_by_id be it sim buffer pool (cm_id (ct_meta c)) =
     Inr ((ct_meta c)\<lparr>cm_map := numbered True 0 (iter (cm_map (ct_meta c)))\<rparr>)"
proof -
  from assms(2) have m: "meta_ok (ct_meta c)" "in64 (cm_id (ct_meta c))" "0 \<le> cm_id (ct_meta c)" "cm_id (ct_meta c) < 2 ^ 40"
    by (simp_all add: container_ok_def in64_def)
  from seek_meta [OF assms(1) m(3,4)] obtain d rest where
    "rbind (meta_offset sim (cm_id (ct_meta c))) (\<lambda>off. seek_read off CONTAINER_META_SIZE pool) = Inr d"
    "d = meta_bytes be iter (ct_meta c) @ rest" by blast
  with assms(4) unser_meta_bytes [OF _ _ m(1) assms(3) m(2), of "ser_begin d 0" be rest True] show ?thesis
    by (simp add: retrieve_container_meta_by_id_def reads_begin)
qed

lemma retrieve_stored:
  assumes "stored be iter sim pool c" and "container_ok sim c" and "iter_ok iter"
  shows "\<exists>c'. retrieve_container_by_id be sim pool (cm_id (ct_meta c)) = Inr c' \<and>
     ct_meta c' = (ct_meta c)\<lparr>cm_map := numbered False 0 (iter (cm_map (ct_meta c)))\<rparr> \<and>
     (sim < SIMULATION_RESTORE \<longrightarrow> (\<exists>d. ct_data c' = Some d \<and> length d = CONTAINER_SIZE \<and>
        take (CONTAINER_SIZE - CONTAINER_META_SIZE) d = take (CONTAINER_SIZE - CONTAINER_META_SIZE) (the (ct_data c))))"
proof (cases "sim \<ge> SIMULATION_RESTORE")
  case True
  from assms(2) have m: "meta_ok (ct_meta c)" "in64 (cm_id (ct_meta c))" "0 \<le> cm_id (ct_meta c)" "cm_id (ct_meta c) < 2 ^ 40"
    by (simp_all add: container_ok_def in64_def)
  from seek_meta [OF assms(1) m(3,4)] obtain d rest where
    "rbind (meta_offset sim (cm_id (ct_meta c))) (\<lambda>off. seek_read off CONTAINER_META_SIZE pool) = Inr d"
    "d = meta_bytes be iter (ct_meta c) @ rest" by blast
  with True unser_meta_bytes [OF _ _ m(1) assms(3) m(2), of "ser_begin d 0" be rest False] show ?thesis
    by (simp add: retrieve_container_by_id_def reads_begin)
next
  case False
  then have ap: "sim < SIMULATION_APPEND" by (simp add: cfg_simps)
  from assms(2) have m: "meta_ok (ct_meta c)" "in64 (cm_id (ct_meta c))" "0 \<le> cm_id (ct_meta c)" "cm_id (ct_meta c) < 2 ^ 40"
    by (simp_all add: container_ok_def in64_def)
  from assms(1) ap obtain b rest where b: "f_read (block_off sim (cm_id (ct_meta c))) CONTAINER_SIZE pool = Inr b"
    "length b = CONTAINER_SIZE" "drop (CONTAINER_SIZE - CONTAINER_META_SIZE) b = meta_bytes be iter (ct_meta c) @ rest"
    "take (CONTAINER_SIZE - CONTAINER_META_SIZE) b = take (CONTAINER_SIZE - CONTAINER_META_SIZE) (the (ct_data c))"
    by (auto simp: stored_def block_of_def block_len_def)
  have off: "pool_offset (cm_id (ct_meta c)) CONTAINER_SIZE 8 = Inr (int (block_off sim (cm_id (ct_meta c))))"
    using block_pos [OF m(3,4), of sim] ap by (simp add: block_len_def)
  have "CONTAINER_SIZE - CONTAINER_META_SIZE \<le> length b" using b(2) by simp
  with False b off unser_meta_bytes [OF _ _ m(1) assms(3) m(2),
      of "ser_begin b (CONTAINER_SIZE - CONTAINER_META_SIZE)" be rest False] show ?thesis
    by (simp add: retrieve_container_by_id_def reads_begin seek_read_def not_less)
qed

subsection \<open>What a container holds\<close>

definition ct_abs :: "container \<Rightarrow> fingerprint \<Rightarrow> byte list option" where
  "ct_abs c fp =
     (case (map_of (cm_map (ct_meta c)) fp, ct_data c) of
        (Some me, Some d) \<Rightarrow> Some (take (nat (me_len me)) (drop (nat (me_off me)) d))
      | _ \<Rightarrow> None)"

lemma container_ok_create:
  "0 \<le> n \<Longrightarrow> n < 2 ^ 40 \<Longrightarrow> container_ok sim (fst (create_container sim n))"
  by (simp add: container_ok_def create_container_def init_container_meta_def meta_ok_def cfg_simps)

lemma ct_abs_create: "ct_abs (fst (create_container sim n)) fp = None"
  by (simp add: ct_abs_def create_container_def init_container_meta_def)

lemma entry_ok_mono: "entry_ok n e \<Longrightarrow> n \<le> m \<Longrightarrow> entry_ok m e"
  by (simp add: entry_ok_def)

lemma take_drop_poke:
  assumes "off + n \<le> k" and "k \<le> length d"
  shows "take n (drop off (take k d @ bs @ drop (k + length bs) d)) = take n (drop off d)"
  using assms by (simp add: take_drop)

lemma overflow_bounds:
  assumes "meta_ok m" and "ct_meta c = m" and "\<not> container_overflow c n" and "0 \<le> n"
  shows "cm_data_size m + n \<le> int CONTAINER_SIZE - int CONTAINER_META_SIZE"
    and "28 * (cm_chunk_num m + 1) + 16 \<le> int CONTAINER_META_SIZE"
    and "nat (cm_data_size m) + nat n \<le> CONTAINER_SIZE"
  using assms by (auto simp: container_overflow_def meta_ok_def cfg_simps split: if_splits)

abbreviation new_entry :: "containerMeta \<Rightarrow> chunk \<Rightarrow> fingerprint \<times> metaEntry" where
  "new_entry m ck \<equiv>
     (ck_fp ck, \<lparr>me_off = cm_data_size m, me_len = ck_size ck, me_position = None, me_fp = ck_fp ck\<rparr>)"

definition extend_meta :: "containerMeta \<Rightarrow> chunk \<Rightarrow> containerMeta" where
  "extend_meta m ck = m\<lparr>cm_map := cm_map m @ [new_entry m ck], cm_chunk_num := cm_chunk_num m + 1,
     cm_data_size := cm_data_size m + ck_size ck\<rparr>"

lemma extend_meta_ok:
  assumes "meta_ok m" and "ct_meta c = m" and "\<not> container_overflow c (ck_size ck)"
    and "ck_size ck = int (length (ck_data ck))" and "length (ck_fp ck) = 20"
    and "ck_fp ck \<notin> fst ` set (cm_map m)"
  shows "meta_ok (extend_meta m ck)"
proof -
  have "list_all (entry_ok (cm_data_size m + ck_size ck)) (cm_map m)"
    using assms by (auto simp: meta_ok_def list_all_iff intro: entry_ok_mono)
  then show ?thesis
    using overflow_bounds [OF assms(1-3)] assms
    by (auto simp: meta_ok_def entry_ok_def extend_meta_def)
qed

lemma ct_abs_extend:
  assumes "meta_ok m" and "length d = CONTAINER_SIZE" and "ck_fp ck \<notin> fst ` set (cm_map m)"
    and "ck_size ck = int (length (ck_data ck))" and "nat (cm_data_size m) \<le> length d"
  shows "ct_abs \<lparr>ct_meta = extend_meta m ck,
      ct_data = Some (take (nat (cm_data_size m)) d @ ck_data ck @ drop (nat (cm_data_size m) + length (ck_data ck)) d)\<rparr> =
    (ct_abs \<lparr>ct_meta = m, ct_data = Some d\<rparr>)(ck_fp ck \<mapsto> ck_data ck)"  (is "?l = ?r")
proof
  fix fp
  show "?l fp = ?r fp"
  proof (cases "fp = ck_fp ck")
    case True
    have none: "map_of (cm_map m) (ck_fp ck) = None" using assms(3) by (simp add: map_of_eq_None_iff)
    have "min (length d) (nat (cm_data_size m)) = nat (cm_data_size m)" using assms(5) by simp
    with none True assms(4) show ?thesis by (simp add: ct_abs_def extend_meta_def map_add_def)
  next
    case ne: False
    show ?thesis
    proof (cases "map_of (cm_map m) fp")
      case (Some me)
      then have "entry_ok (cm_data_size m) (fp, me)"
        using assms(1) by (auto simp: meta_ok_def list_all_iff dest: map_of_SomeD)
      then have "nat (me_off me) + nat (me_len me) \<le> nat (cm_data_size m)"
        by (auto simp: entry_ok_def)
      with Some ne take_drop_poke [OF this assms(5), of "ck_data ck"] show ?thesis
        by (simp add: ct_abs_def extend_meta_def map_add_def)
    qed (use ne in \<open>simp add: ct_abs_def extend_meta_def map_add_def\<close>)
  qed
qed

lemma add_chunk_new:
  assumes "container_ok sim c" and "\<not> container_overflow c (ck_size ck)"
    and "ck_size ck = int (length (ck_data ck))" and "ck_fp ck \<notin> fst ` set (cm_map (ct_meta c))"
  shows "\<exists>dat. add_chunk_to_container sim c ck =
       Inr (True, \<lparr>ct_meta = extend_meta (ct_meta c) ck, ct_data = dat\<rparr>, ck\<lparr>ck_id := cm_id (ct_meta c)\<rparr>) \<and>
     (sim < SIMULATION_APPEND \<longrightarrow> (\<exists>d. ct_data c = Some d \<and> length d = CONTAINER_SIZE \<and>
        nat (cm_data_size (ct_meta c)) + length (ck_data ck) \<le> length d \<and>
        dat = Some (take (nat (cm_data_size (ct_meta c))) d @ ck_data ck @
                    drop (nat (cm_data_size (ct_meta c)) + length (ck_data ck)) d)))"
proof -
  let ?m = "ct_meta c"
  have m: "meta_ok ?m" using assms(1) by (simp add: container_ok_def)
  have up: "AList.update (ck_fp ck) (snd (new_entry ?m ck)) (cm_map ?m) = cm_map ?m @ [new_entry ?m ck]"
    using assms(4) by (simp add: length_update_new)
  have k: "0 \<le> cm_data_size ?m" "nat (cm_data_size ?m) + length (ck_data ck) \<le> CONTAINER_SIZE"
    using m overflow_bounds(3) [OF m refl assms(2)] assms(3) by (auto simp: meta_ok_def)
  have dat: "data_of ck = Inr (ck_data ck)" using assms(3) by (simp add: data_of_def peek_def)
  show ?thesis
  proof (cases "sim < SIMULATION_APPEND")
    case True
    with assms(1) obtain d where "ct_data c = Some d" "length d = CONTAINER_SIZE" by (auto simp: container_ok_def)
    with True assms(2,4) k dat up show ?thesis
      by (simp add: add_chunk_to_container_def Let_def poke_def extend_meta_def)
  next
    case False
    with assms(2,4) up show ?thesis by (simp add: add_chunk_to_container_def Let_def extend_meta_def)
  qed
qed

lemma add_chunk_ok:
  assumes "container_ok sim c" and "\<not> container_overflow c (ck_size ck)"
    and "ck_size ck = int (length (ck_data ck))" and "length (ck_fp ck) = 20"
  shows "\<exists>b c'. add_chunk_to_container sim c ck = Inr (b, c', ck\<lparr>ck_id := cm_id (ct_meta c)\<rparr>) \<and>
     container_ok sim c' \<and> cm_id (ct_meta c') = cm_id (ct_meta c) \<and>
     b = (ck_fp ck \<notin> fst ` set (cm_map (ct_meta c))) \<and>
     fst ` set (cm_map (ct_meta c')) = insert (ck_fp ck) (fst ` set (cm_map (ct_meta c))) \<and>
     (sim < SIMULATION_APPEND \<longrightarrow> ct_abs c' = (if b then (ct_abs c)(ck_fp ck \<mapsto> ck_data ck) else ct_abs c))"
proof (cases "ck_fp ck \<in> fst ` set (cm_map (ct_meta c))")
  case True
  with assms(1,2) show ?thesis by (auto simp: add_chunk_to_container_def Let_def)
next
  case False
  from add_chunk_new [OF assms(1-3) False] obtain dat where
    eq: "add_chunk_to_container sim c ck =
       Inr (True, \<lparr>ct_meta = extend_meta (ct_meta c) ck, ct_data = dat\<rparr>, ck\<lparr>ck_id := cm_id (ct_meta c)\<rparr>)"
    and dat: "sim < SIMULATION_APPEND \<Longrightarrow> \<exists>d. ct_data c = Some d \<and> length d = CONTAINER_SIZE \<and>
        nat (cm_data_size (ct_meta c)) + length (ck_data ck) \<le> length d \<and>
        dat = Some (take (nat (cm_data_size (ct_meta c))) d @ ck_data ck @
                    drop (nat (cm_data_size (ct_meta c)) + length (ck_data ck)) d)" by blast
  have m: "meta_ok (ct_meta c)" using assms(1) by (simp add: container_ok_def)
  have m': "meta_ok (extend_meta (ct_meta c) ck)"
    by (rule extend_meta_ok [OF m refl assms(2-4) False])
  have "ct_abs \<lparr>ct_meta = extend_meta (ct_meta c) ck, ct_data = dat\<rparr> = (ct_abs c)(ck_fp ck \<mapsto> ck_data ck) \<and>
      (\<exists>d. dat = Some d \<and> length d = CONTAINER_SIZE)" if "sim < SIMULATION_APPEND"
    using dat [OF that] ct_abs_extend [OF m _ False assms(3)] by (cases c) auto
  with assms(1) m' False show ?thesis
    unfolding eq by (auto simp: container_ok_def extend_meta_def)
qed

lemma ct_abs_retrieved:
  assumes "container_ok sim c" and "iter_ok iter" and "ct_data c = Some d"
    and "ct_meta c' = (ct_meta c)\<lparr>cm_map := numbered p 0 (iter (cm_map (ct_meta c)))\<rparr>" and "ct_data c' = Some d'"
    and "take (CONTAINER_SIZE - CONTAINER_META_SIZE) d' = take (CONTAINER_SIZE - CONTAINER_META_SIZE) d"
  shows "ct_abs c' = ct_abs c"
proof
  fix fp
  let ?k = "CONTAINER_SIZE - CONTAINER_META_SIZE"
  have m: "meta_ok (ct_meta c)" using assms(1) by (simp add: container_ok_def)
  then have mp: "map_of (iter (cm_map (ct_meta c))) = map_of (cm_map (ct_meta c))"
    using assms(2) by (intro iter_ok_map_of) (simp_all add: meta_ok_def)
  note ne = numbered_entry [of p 0 "iter (cm_map (ct_meta c))" fp, unfolded mp]
  show "ct_abs c' fp = ct_abs c fp"
  proof (cases "map_of (cm_map (ct_meta c)) fp")
    case None
    with ne(1) have "map_of (cm_map (ct_meta c')) fp = None" by (simp add: assms(4))
    with None show ?thesis by (simp add: ct_abs_def)
  next
    case (Some me)
    with ne obtain me' where me': "map_of (cm_map (ct_meta c')) fp = Some me'" "me_off me' = me_off me" "me_len me' = me_len me"
      by (auto simp: assms(4))
    have "entry_ok (cm_data_size (ct_meta c)) (fp, me)"
      using m Some by (auto simp: meta_ok_def list_all_iff dest: map_of_SomeD)
    then have le: "nat (me_off me) + nat (me_len me) \<le> ?k"
      using m by (auto simp: entry_ok_def meta_ok_def cfg_simps)
    have "take (nat (me_len me)) (drop (nat (me_off me)) x) =
        take (nat (me_len me)) (drop (nat (me_off me)) (take ?k x))" for x :: "byte list"
      using le by (simp add: drop_take min_def)
    with assms(3,5,6) Some me' show ?thesis by (simp add: ct_abs_def) metis
  qed
qed

subsection \<open>The buffer and the append thread\<close>

record RTMdata =
  rtm_id :: containerid
  rtm_len :: int
  rtm_rtm :: "int list"

record pool_sys =
  ps_buffer :: "container list"        \<comment> \<open>\<open>container_buffer\<close>\<close>
  ps_pool :: "byte list"               \<comment> \<open>\<open>container.pool\<close>\<close>
  ps_count :: int                      \<comment> \<open>\<open>container_count\<close>\<close>
  ps_rtm :: "RTMdata list"             \<comment> \<open>the list at \<open>RTMhead\<close>\<close>
  ps_written :: bool                   \<comment> \<open>the append thread is past \<open>write_container\<close>\<close>
  ps_accepted :: "container list"      \<comment> \<open>every container pushed so far\<close>

definition write_container_async :: "container \<Rightarrow> pool_sys \<Rightarrow> pool_sys res" where
  "write_container_async c s =
     rbind (c_assert (cm_chunk_num (ct_meta c) = int (length (cm_map (ct_meta c))))) (\<lambda>_.
     if container_empty c then Inr (s\<lparr>ps_count := ps_count s - 1\<rparr>)
     else Inr (s\<lparr>ps_buffer := ps_buffer s @ [c], ps_accepted := ps_accepted s @ [c]\<rparr>))"

definition new_rtm :: "int \<Rightarrow> container \<Rightarrow> RTMdata" where
  "new_rtm version c =
     (let rtmlen = cm_chunk_num (ct_meta c) in
      \<lparr>rtm_id = cm_id (ct_meta c), rtm_len = sint (i16 rtmlen),
       rtm_rtm = replicate (nat rtmlen) (sint (i16 version))\<rparr>)"

definition append_write :: "bool \<Rightarrow> meta_iter \<Rightarrow> int \<Rightarrow> int \<Rightarrow> container \<Rightarrow> pool_sys \<Rightarrow> pool_sys res" where
  "append_write be iter sim version c s =
     rbind (write_container be iter sim c (ps_pool s, ps_count s)) (\<lambda>(pool, cnt).
       Inr (s\<lparr>ps_rtm := ps_rtm s @ [new_rtm version c], ps_pool := pool, ps_count := cnt, ps_written := True\<rparr>))"

text \<open>The interleavings: the filter thread pushes a container whose id no earlier container
  has (ids come from \<open>create_container\<close>); the append thread writes the top of the buffer
  and only then pops it.\<close>

inductive pool_step :: "bool \<Rightarrow> meta_iter \<Rightarrow> int \<Rightarrow> int \<Rightarrow> pool_sys \<Rightarrow> pool_sys \<Rightarrow> bool" for be iter sim version where
  push: "container_ok sim c \<Longrightarrow> cm_id (ct_meta c) \<notin> (cm_id \<circ> ct_meta) ` set (ps_accepted s) \<Longrightarrow>
    write_container_async c s = Inr s' \<Longrightarrow> pool_step be iter sim version s s'"
| write_top: "ps_buffer s = c # cs \<Longrightarrow> \<not> ps_written s \<Longrightarrow> append_write be iter sim version c s = Inr s' \<Longrightarrow>
    pool_step be iter sim version s s'"
| pop_top: "ps_buffer s = c # cs \<Longrightarrow> ps_written s \<Longrightarrow>
    pool_step be iter sim version s (s\<lparr>ps_buffer := cs, ps_written := False\<rparr>)"

inductive pool_reach :: "bool \<Rightarrow> meta_iter \<Rightarrow> int \<Rightarrow> int \<Rightarrow> pool_sys \<Rightarrow> pool_sys \<Rightarrow> bool" for be iter sim version s0 where
  start: "pool_reach be iter sim version s0 s0"
| step: "pool_reach be iter sim version s0 s \<Longrightarrow> pool_step be iter sim version s s' \<Longrightarrow> pool_reach be iter sim version s0 s'"

abbreviation "idof c \<equiv> cm_id (ct_meta c)"

definition pool_empty :: "byte list \<Rightarrow> int \<Rightarrow> RTMdata list \<Rightarrow> pool_sys" where
  "pool_empty pool n rtm = \<lparr>ps_buffer = [], ps_pool = pool, ps_count = n, ps_rtm = rtm, ps_written = False, ps_accepted = []\<rparr>"

definition pool_inv :: "bool \<Rightarrow> meta_iter \<Rightarrow> int \<Rightarrow> pool_sys \<Rightarrow> bool" where
  "pool_inv be iter sim s \<longleftrightarrow>
     distinct (map idof (ps_accepted s)) \<and>
     (\<forall>c\<in>set (ps_accepted s). container_ok sim c \<and> \<not> container_empty c) \<and>
     (\<exists>old. ps_accepted s = old @ ps_buffer s \<and> (\<forall>c\<in>set old. stored be iter sim (ps_pool s) c)) \<and>
     (ps_written s \<longrightarrow> (case ps_buffer s of [] \<Rightarrow> False | c # _ \<Rightarrow> stored be iter sim (ps_pool s) c))"

lemma pool_inv_empty: "pool_inv be iter sim (pool_empty pool n rtm)"
  by (simp add: pool_inv_def pool_empty_def)

lemma pool_step_inv:
  assumes "pool_step be iter sim version s s'" and "pool_inv be iter sim s" and it: "iter_ok iter"
  shows "pool_inv be iter sim s'"
  using assms(1)
proof cases
  case (push c)
  show ?thesis
  proof (cases "container_empty c")
    case True
    with push(3) have s': "s' = s\<lparr>ps_count := ps_count s - 1\<rparr>"
      by (auto simp: write_container_async_def rbind_assert split: if_splits)
    from assms(2) show ?thesis unfolding s' pool_inv_def by (cases "ps_buffer s") simp_all
  next
    case False
    with push(3) have s': "s' = s\<lparr>ps_buffer := ps_buffer s @ [c], ps_accepted := ps_accepted s @ [c]\<rparr>"
      by (auto simp: write_container_async_def rbind_assert split: if_splits)
    from assms(2) push False show ?thesis
      unfolding s' pool_inv_def by (auto simp: image_iff split: list.splits)
  qed
next
  case (write_top c cs)
  from assms(2) write_top(1) obtain old where acc: "ps_accepted s = old @ c # cs"
    and old: "\<forall>c\<in>set old. stored be iter sim (ps_pool s) c"
    by (auto simp: pool_inv_def)
  have ok: "container_ok sim d \<and> \<not> container_empty d" if "d \<in> set (ps_accepted s)" for d
    using assms(2) that by (simp add: pool_inv_def)
  from write_container_block [of sim c iter be] ok [of c] acc it obtain b where
    w: "write_container be iter sim c (ps_pool s, ps_count s) =
        Inr (f_write (block_off sim (idof c)) b (ps_pool s), ps_count s)" "block_of be iter sim c b"
    by auto
  have s': "s' = s\<lparr>ps_rtm := ps_rtm s @ [new_rtm version c],
      ps_pool := f_write (block_off sim (idof c)) b (ps_pool s), ps_written := True\<rparr>"
    using write_top(3) w(1) by (simp add: append_write_def)
  have "stored be iter sim (f_write (block_off sim (idof c)) b (ps_pool s)) d" if "d \<in> set old" for d
  proof (rule stored_write_other [OF _ w(2)])
    show "stored be iter sim (ps_pool s) d" using old that by blast
    show "0 \<le> idof c" "0 \<le> idof d" using ok acc that by (auto simp: container_ok_def)
    show "idof c \<noteq> idof d" using assms(2) acc that by (auto simp: pool_inv_def)
  qed
  with assms(2) write_top(1) acc stored_write [OF w(2)] show ?thesis
    unfolding s' pool_inv_def by auto
next
  case (pop_top c cs)
  from assms(2) pop_top(2) obtain old where acc: "ps_accepted s = old @ c # cs"
    and old: "\<forall>c\<in>set old. stored be iter sim (ps_pool s) c" and c: "stored be iter sim (ps_pool s) c"
    using pop_top(3) by (auto simp: pool_inv_def)
  then show ?thesis using assms(2)
    unfolding pop_top(1) pool_inv_def by (auto intro!: exI [of _ "old @ [c]"])
qed

lemma pool_reach_inv:
  "pool_reach be iter sim version s0 s \<Longrightarrow> pool_inv be iter sim s0 \<Longrightarrow> iter_ok iter \<Longrightarrow> pool_inv be iter sim s"
  by (induction rule: pool_reach.induct) (auto intro: pool_step_inv)

text \<open>What a reader sees of a container, whether it is still buffered or on disk: the copy
  and the original agree up to the \<open>position\<close> fields.\<close>

definition same_meta :: "containerMeta \<Rightarrow> containerMeta \<Rightarrow> bool" where
  "same_meta m m' \<longleftrightarrow> cm_id m' = cm_id m \<and> cm_chunk_num m' = cm_chunk_num m \<and> cm_data_size m' = cm_data_size m \<and>
     (\<forall>fp. map_option me_off (map_of (cm_map m') fp) = map_option me_off (map_of (cm_map m) fp) \<and>
           map_option me_len (map_of (cm_map m') fp) = map_option me_len (map_of (cm_map m) fp))"

lemma fold_update_entries:
  assumes "distinct (map fst (t @ es))" and "list_all (entry_ok n) es"
  shows "fold (\<lambda>(key, me) t. AList.update (me_fp me) me t) es t = t @ es"
  using assms
proof (induction es arbitrary: t)
  case (Cons e es)
  obtain k me where e: "e = (k, me)" by (cases e)
  have k: "me_fp me = k" using Cons.prems(2) by (simp add: e entry_ok_def)
  have "AList.update k me t = t @ [(k, me)]"
    using Cons.prems(1) by (intro length_update_new) (simp add: e)
  with Cons k show ?case by (simp add: e)
qed simp

lemma duplicate_meta:
  assumes "meta_ok (ct_meta c)" and "iter_ok iter"
  shows "container_meta_duplicate iter c = (ct_meta c)\<lparr>cm_map := iter (cm_map (ct_meta c))\<rparr>"
proof -
  have "fold (\<lambda>(key, me) t. AList.update (me_fp me) me t) (iter (cm_map (ct_meta c))) [] =
      [] @ iter (cm_map (ct_meta c))"
    using assms by (intro fold_update_entries [where n = "cm_data_size (ct_meta c)"])
      (simp_all add: meta_ok_def iter_ok_distinct list_all_iter)
  then show ?thesis by (simp add: container_meta_duplicate_def Let_def init_container_meta_def)
qed

lemma same_meta_iter:
  assumes "meta_ok m" and "iter_ok iter"
  shows "same_meta m (m\<lparr>cm_map := iter (cm_map m)\<rparr>)"
    and "same_meta m (m\<lparr>cm_map := numbered p i (iter (cm_map m))\<rparr>)"
proof -
  have "map_of (iter (cm_map m)) = map_of (cm_map m)"
    using assms by (intro iter_ok_map_of) (simp_all add: meta_ok_def)
  then show "same_meta m (m\<lparr>cm_map := iter (cm_map m)\<rparr>)"
    "same_meta m (m\<lparr>cm_map := numbered p i (iter (cm_map m))\<rparr>)"
    by (simp_all add: same_meta_def numbered_entry)
qed

lemma find_by_id:
  assumes "distinct (map idof cs)" and "c \<in> set cs"
  shows "find (\<lambda>c'. container_check_id c' (idof c)) cs = Some c"
  using assms by (induction cs) (auto simp: container_check_id_def container_meta_check_id_def)

lemma find_no_id: "idof c \<notin> idof ` set cs \<Longrightarrow> find (\<lambda>c'. container_check_id c' (idof c)) cs = None"
  by (induction cs) (auto simp: container_check_id_def container_meta_check_id_def)

lemma accepted_readable:
  assumes "pool_inv be iter sim s" and "c \<in> set (ps_accepted s)" and "iter_ok iter"
  shows "\<exists>m. retrieve_container_meta_by_id be iter sim (ps_buffer s) (ps_pool s) (idof c) = Inr m \<and>
     same_meta (ct_meta c) m"
proof -
  from assms obtain old where acc: "ps_accepted s = old @ ps_buffer s" and old: "\<forall>c\<in>set old. stored be iter sim (ps_pool s) c"
    and ok: "container_ok sim c" and d: "distinct (map idof (ps_accepted s))"
    by (auto simp: pool_inv_def)
  have m: "meta_ok (ct_meta c)" using ok by (simp add: container_ok_def)
  show ?thesis
  proof (cases "c \<in> set (ps_buffer s)")
    case True
    have "distinct (map idof (ps_buffer s))" using d acc by simp
    from find_by_id [OF this True] show ?thesis
      using same_meta_iter(1) [OF m assms(3)] duplicate_meta [OF m assms(3)]
      by (simp add: retrieve_container_meta_by_id_def)
  next
    case False
    with assms(2) acc have "c \<in> set old" by simp
    moreover have "idof c \<notin> idof ` set (ps_buffer s)" using d acc \<open>c \<in> set old\<close> by auto
    ultimately show ?thesis
      using retrieve_meta_stored [OF _ ok assms(3) find_no_id, of be "ps_pool s" "ps_buffer s" iter] old
        same_meta_iter(2) [OF m assms(3)] by auto
  qed
qed

subsection \<open>Properties\<close>

lemma chunk_of_container:
  assumes "container_ok sim c" "iter_ok iter" "sim < SIMULATION_RESTORE" "ct_abs c fp = Some x"
    and "ct_meta c' = (ct_meta c)\<lparr>cm_map := numbered p 0 (iter (cm_map (ct_meta c)))\<rparr>"
    and "ct_data c' = Some d'" "length d' = CONTAINER_SIZE" "ct_abs c' fp = Some x"
  shows "\<exists>ck. get_chunk_in_container sim addr c' fp = Inr ck \<and> ck_data ck = x \<and> ck_size ck = int (length x) \<and> ck_id ck = idof c"
proof -
  have m: "meta_ok (ct_meta c)" using assms(1) by (simp add: container_ok_def)
  then have mp: "map_of (iter (cm_map (ct_meta c))) = map_of (cm_map (ct_meta c))"
    using assms(2) by (intro iter_ok_map_of) (simp_all add: meta_ok_def)
  note ne = numbered_entry [of p 0 "iter (cm_map (ct_meta c))" fp, unfolded mp]
  from assms(4) obtain me where me: "map_of (cm_map (ct_meta c)) fp = Some me" by (auto simp: ct_abs_def split: option.splits)
  with ne obtain me' where me': "map_of (cm_map (ct_meta c')) fp = Some me'" "me_off me' = me_off me" "me_len me' = me_len me"
    by (auto simp: assms(5))
  have "entry_ok (cm_data_size (ct_meta c)) (fp, me)" using m me by (auto simp: meta_ok_def list_all_iff dest: map_of_SomeD)
  then have b: "0 \<le> me_off me" "0 \<le> me_len me" "nat (me_off me) + nat (me_len me) \<le> CONTAINER_SIZE"
    using m by (auto simp: entry_ok_def meta_ok_def cfg_simps)
  have x: "x = take (nat (me_len me)) (drop (nat (me_off me)) d')"
    using assms(6,8) me' by (simp add: ct_abs_def)
  have "length x = nat (me_len me)" unfolding x using b assms(7) by simp
  with b me' assms(3,5,6,7) x show ?thesis
    by (simp add: get_chunk_in_container_def get_metaentry_in_container_meta_def Let_def peek_def cfg_simps)
qed

text \<open>C17: a container written to the pool and read back by its id yields every chunk that was added
  to it, with its data and its size, whatever the order GLib visits the table in and the byte order of the host.\<close>

theorem container_roundtrip:
  assumes "container_ok sim c" "\<not> container_empty c" "iter_ok iter" "sim < SIMULATION_RESTORE"
  shows "\<exists>pool' c'. write_container be iter sim c (pool, cnt) = Inr (pool', cnt) \<and>
     retrieve_container_by_id be sim pool' (idof c) = Inr c' \<and> ct_abs c' = ct_abs c \<and>
     (\<forall>fp x. ct_abs c fp = Some x \<longrightarrow>
        (\<exists>ck. get_chunk_in_container sim addr c' fp = Inr ck \<and> ck_data ck = x \<and> ck_size ck = int (length x) \<and> ck_id ck = idof c))"
proof -
  from write_container_block [OF assms(1-3), of be pool cnt] obtain b where
    w: "write_container be iter sim c (pool, cnt) = Inr (f_write (block_off sim (idof c)) b pool, cnt)" "block_of be iter sim c b"
    by blast
  let ?pool = "f_write (block_off sim (idof c)) b pool"
  from retrieve_stored [OF stored_write [OF w(2)] assms(1,3), of pool] assms(4) obtain c' d' where
    r: "retrieve_container_by_id be sim ?pool (idof c) = Inr c'"
      "ct_meta c' = (ct_meta c)\<lparr>cm_map := numbered False 0 (iter (cm_map (ct_meta c)))\<rparr>"
      "ct_data c' = Some d'" "length d' = CONTAINER_SIZE"
      "take (CONTAINER_SIZE - CONTAINER_META_SIZE) d' = take (CONTAINER_SIZE - CONTAINER_META_SIZE) (the (ct_data c))"
    by blast
  from assms(1,4) obtain d where d: "ct_data c = Some d" by (auto simp: container_ok_def cfg_simps)
  have abs: "ct_abs c' = ct_abs c"
    by (rule ct_abs_retrieved [OF assms(1,3) d r(2,3)]) (use r(5) d in simp)
  have "\<exists>ck. get_chunk_in_container sim addr c' fp = Inr ck \<and> ck_data ck = x \<and> ck_size ck = int (length x) \<and> ck_id ck = idof c"
    if "ct_abs c fp = Some x" for fp x
    by (rule chunk_of_container [OF assms(1,3,4) that r(2-4)]) (use that abs in simp)
  with w(1) r(1) abs show ?thesis by blast
qed

theorem container_roundtrip_witness:
  "\<exists>c pool' c'. ct_abs c (replicate 20 7) = Some [1, 2, 3] \<and> write_container False (\<lambda>t. t) 0 c ([], 1) = Inr (pool', 1) \<and>
     retrieve_container_by_id False 0 pool' (idof c) = Inr c' \<and> ct_abs c' = ct_abs c"
proof -
  let ?c0 = "fst (create_container 0 0)"
  let ?ck = "(new_chunk 3)\<lparr>ck_data := [1, 2, 3], ck_fp := replicate 20 7\<rparr>"
  have "container_ok 0 ?c0" by (rule container_ok_create) simp_all
  moreover have "\<not> container_overflow ?c0 (ck_size ?ck)" "ck_size ?ck = int (length (ck_data ?ck))" "length (ck_fp ?ck) = 20"
    by (simp_all add: container_overflow_def create_container_def init_container_meta_def cfg_simps)
  ultimately obtain b c where c: "add_chunk_to_container 0 ?c0 ?ck = Inr (b, c, ?ck\<lparr>ck_id := idof ?c0\<rparr>)" "container_ok 0 c"
    "b = (ck_fp ?ck \<notin> fst ` set (cm_map (ct_meta ?c0)))" "fst ` set (cm_map (ct_meta c)) = insert (ck_fp ?ck) (fst ` set (cm_map (ct_meta ?c0)))"
    "ct_abs c = (if b then (ct_abs ?c0)(ck_fp ?ck \<mapsto> ck_data ?ck) else ct_abs ?c0)"
    using add_chunk_ok [of 0 ?c0 ?ck] by (auto simp: cfg_simps)
  have ne: "\<not> container_empty c" using c(2,4) by (auto simp: container_empty_def container_ok_def meta_ok_def)
  have abs: "ct_abs c (replicate 20 7) = Some [1, 2, 3]"
    using c(3,5) by (simp add: create_container_def init_container_meta_def)
  from container_roundtrip [OF c(2) ne iter_ok_id, of False "[]" 1 "[]"] obtain pool' c' where
    "write_container False (\<lambda>t. t) 0 c ([], 1) = Inr (pool', 1)" "retrieve_container_by_id False 0 pool' (idof c) = Inr c'"
    "ct_abs c' = ct_abs c" unfolding SIMULATION_RESTORE_def by fastforce
  with abs show ?thesis by blast
qed

text \<open>C26: at every moment of the interleaving of the filter thread and the append thread, the metadata
  of every container accepted so far can be read, from the buffer or from disk, and is the container's own.\<close>

theorem pool_readable:
  assumes "pool_reach be iter sim version (pool_empty pool n rtm) s" and "iter_ok iter" and "c \<in> set (ps_accepted s)"
  shows "\<exists>m. retrieve_container_meta_by_id be iter sim (ps_buffer s) (ps_pool s) (idof c) = Inr m \<and> same_meta (ct_meta c) m"
  by (rule accepted_readable [OF pool_reach_inv [OF assms(1) pool_inv_empty assms(2)] assms(3,2)])

theorem pool_readable_witness:
  "\<exists>c s m. pool_reach True rev 3 7 (pool_empty [] 1 []) s \<and> c \<in> set (ps_buffer s) \<and>
     retrieve_container_meta_by_id True rev 3 (ps_buffer s) (ps_pool s) (idof c) = Inr m \<and> same_meta (ct_meta c) m"
proof -
  let ?fp = "replicate 20 (7 :: byte)"
  let ?c = "\<lparr>ct_meta = \<lparr>cm_id = 0, cm_data_size = 3, cm_chunk_num = 1,
     cm_map = [(?fp, \<lparr>me_off = 0, me_len = 3, me_position = None, me_fp = ?fp\<rparr>)]\<rparr>, ct_data = None\<rparr>"
  let ?s = "(pool_empty [] 1 [])\<lparr>ps_buffer := [?c], ps_accepted := [?c]\<rparr>"
  have ok: "container_ok 3 ?c" by (simp add: container_ok_def meta_ok_def entry_ok_def in64_def cfg_simps)
  have "write_container_async ?c (pool_empty [] 1 []) = Inr ?s"
    by (simp add: write_container_async_def container_empty_def pool_empty_def)
  from pool_step.push [OF ok _ this, of True rev 7] have "pool_step True rev 3 7 (pool_empty [] 1 []) ?s"
    by (simp add: pool_empty_def)
  then have r: "pool_reach True rev 3 7 (pool_empty [] 1 []) ?s" by (rule pool_reach.step [OF pool_reach.start])
  from pool_readable [OF r iter_ok_rev, of ?c] obtain m where
    "retrieve_container_meta_by_id True rev 3 (ps_buffer ?s) (ps_pool ?s) (idof ?c) = Inr m" "same_meta (ct_meta ?c) m" by auto
  with r show ?thesis by (intro exI [of _ ?c] exI [of _ ?s] exI [of _ m]) simp
qed

end
