(* ===== verification/Streams.thy ===== *)
theory Streams
  imports Byte_Store
begin

text \<open>
  Buffered files: a stream is a file with a position and whether it was opened for writing.
  \<open>fwrite\<close> on a stream opened with \<open>"r"\<close> fails, and the code of this program does not look at
  the result. \<open>fread\<close> of an item that is not there leaves its destination as it was. Integers
  are written in host order \<open>be\<close>.
\<close>

record stream =
  st_file :: "byte list"
  st_pos :: nat
  st_writable :: bool

definition fwrite :: "byte list \<Rightarrow> stream \<Rightarrow> stream" where
  "fwrite bs s =
     (if st_writable s then s\<lparr>st_file := f_write (st_pos s) bs (st_file s), st_pos := st_pos s + length bs\<rparr> else s)"

definition fread :: "nat \<Rightarrow> stream \<Rightarrow> byte list option \<times> stream" where
  "fread n s =
     (if st_pos s + n \<le> length (st_file s)
      then (Some (take n (drop (st_pos s) (st_file s))), s\<lparr>st_pos := st_pos s + n\<rparr>)
      else (None, s\<lparr>st_pos := max (st_pos s) (length (st_file s))\<rparr>))"

definition fread_int64 :: "bool \<Rightarrow> int \<Rightarrow> stream \<Rightarrow> int \<times> stream" where
  "fread_int64 be old s = (let (b, s) = fread 8 s in
     (case b of None \<Rightarrow> old | Some bs \<Rightarrow> sint (host_word be bs :: 64 word), s))"

definition fread_int32 :: "bool \<Rightarrow> int \<Rightarrow> stream \<Rightarrow> int \<times> stream" where
  "fread_int32 be old s = (let (b, s) = fread 4 s in
     (case b of None \<Rightarrow> old | Some bs \<Rightarrow> sint (host_word be bs :: 32 word), s))"

definition fwrite_int64 :: "bool \<Rightarrow> int \<Rightarrow> stream \<Rightarrow> stream" where
  "fwrite_int64 be i = fwrite (host_bytes be 8 (i64 i))"

definition fwrite_int32 :: "bool \<Rightarrow> int \<Rightarrow> stream \<Rightarrow> stream" where
  "fwrite_int32 be i = fwrite (host_bytes be 4 (i32 i))"

definition srest :: "stream \<Rightarrow> byte list" where
  "srest s = drop (st_pos s) (st_file s)"

definition swf :: "stream \<Rightarrow> bool" where
  "swf s \<longleftrightarrow> st_pos s \<le> length (st_file s)"

lemma fread_rest:
  assumes "srest s = bs @ r" and "swf s" and "n = length bs"
  shows "\<exists>s'. fread n s = (Some bs, s') \<and> srest s' = r \<and> swf s' \<and> st_file s' = st_file s \<and>
     st_pos s' = st_pos s + n"
proof -
  have "length (st_file s) - st_pos s = length bs + length r"
    using assms(1) by (metis length_append length_drop srest_def)
  with assms(2,3) have le: "st_pos s + n \<le> length (st_file s)" by (simp add: swf_def)
  have "take n (drop (st_pos s) (st_file s)) = bs" using assms(1,3) by (simp add: srest_def)
  moreover have "drop (st_pos s + n) (st_file s) = r"
    using assms(1,3) by (simp add: srest_def add.commute flip: drop_drop)
  ultimately show ?thesis using le by (simp add: fread_def srest_def swf_def)
qed

lemma fread_int64_rest:
  assumes "srest s = host_bytes be 8 (i64 i) @ r" and "swf s" and "in64 i"
  shows "\<exists>s'. fread_int64 be old s = (i, s') \<and> srest s' = r \<and> swf s' \<and> st_file s' = st_file s \<and> st_pos s' = st_pos s + 8"
  using fread_rest [OF assms(1,2), of 8] assms(3) by (auto simp: fread_int64_def)

lemma fread_int32_rest:
  assumes "srest s = host_bytes be 4 (i32 i) @ r" and "swf s" and "in32 i"
  shows "\<exists>s'. fread_int32 be old s = (i, s') \<and> srest s' = r \<and> swf s' \<and> st_file s' = st_file s \<and> st_pos s' = st_pos s + 4"
  using fread_rest [OF assms(1,2), of 4] assms(3) by (auto simp: fread_int32_def)

text \<open>A stream that has only been appended to.\<close>

definition appending :: "stream \<Rightarrow> bool" where
  "appending s \<longleftrightarrow> st_writable s \<and> st_pos s = length (st_file s)"

lemma fwrite_append: "appending s \<Longrightarrow> appending (fwrite bs s) \<and> st_file (fwrite bs s) = st_file s @ bs"
  by (simp add: appending_def fwrite_def f_write_def)

lemma fwrite_seq: "fwrite as s = s' \<Longrightarrow> fwrite bs s' = fwrite (as @ bs) s"
proof (cases "st_writable s")
  case True
  assume "fwrite as s = s'"
  moreover have "f_write (st_pos s + length as) bs (f_write (st_pos s) as (st_file s)) =
      f_write (st_pos s) (as @ bs) (st_file s)"
    by (rule f_write_seq)
  ultimately show ?thesis using True by (auto simp: fwrite_def)
qed (auto simp: fwrite_def)

end
