(* ===== verification/Recipe_Store.thy ===== *)
theory Recipe_Store
  imports Streams
begin

text \<open>
  The recipe store of \<open>recipe/recipestore.c\<close>: the three files of a backup version (\<open>.meta\<close>,
  \<open>.recipe\<close>, \<open>.records\<close>), their write buffers, segment ids, and the readers.

  \<open>junk\<close> is what freshly allocated memory holds. Fields are written in host order \<open>be\<close>. Paths are byte strings, 47 is the slash. The
  directory \<open>recipes/\<close> is a map from version numbers to the contents of the three files. The
  file statics \<open>access_record\<close>, \<open>read_file_num\<close>, \<open>read_chunk_num\<close> and \<open>end\<close> are explicit.
\<close>

record backupVersion =
  bv_path :: "byte list"
  bv_num :: int
  bv_deleted :: int
  bv_number_of_files :: int
  bv_number_of_chunks :: int
  metadata_fp :: stream
  recipe_fp :: stream
  record_fp :: stream
  metabuf :: "byte list option"
  metabufoff :: nat
  recordbuf :: "byte list option"
  recordbufoff :: nat
  segmentbuf :: "byte list option"
  segmentlen :: int
  segmentbufoff :: int

record fileRecipeMeta =
  fr_chunknum :: int
  fr_filesize :: int
  fr_filename :: "byte list"

record chunkPointer =
  cp_fp :: fingerprint
  cp_id :: containerid
  cp_size :: int

record segmentRecipe =
  sr_id :: segmentid
  sr_kvpairs :: "(fingerprint, chunkPointer) htable"

type_synonym recipe_dir = "int \<Rightarrow> (byte list \<times> byte list \<times> byte list) option"

definition metabufsize :: nat where "metabufsize = 64 * 1024"
definition recordbufsize :: nat where "recordbufsize = 64 * 1024"
definition SEG_START :: int where [cfg_simps]: "SEG_START = 4"
definition SEG_END :: int where [cfg_simps]: "SEG_END = 8"

subsection \<open>Versions\<close>

definition init_recipe_store :: "bool \<Rightarrow> byte list option \<Rightarrow> int" where
  "init_recipe_store be f =
     (case f of None \<Rightarrow> 0 | Some bs \<Rightarrow> fst (fread_int32 be 0 \<lparr>st_file = bs, st_pos = 0, st_writable = False\<rparr>))"

definition close_recipe_store :: "bool \<Rightarrow> int \<Rightarrow> byte list" where
  "close_recipe_store be cnt = host_bytes be 4 (i32 cnt)"

definition get_next_version_number :: "int \<Rightarrow> int \<times> int" where
  "get_next_version_number cnt = (cnt, cnt + 1)"

definition path_dir :: "byte list \<Rightarrow> byte list res" where
  "path_dir p = (if 47 \<in> set p then Inr (rev (dropWhile (\<lambda>c. c \<noteq> 47) (rev p))) else Inl OutOfBounds)"

definition write_version_header :: "bool \<Rightarrow> backupVersion \<Rightarrow> stream \<Rightarrow> stream" where
  "write_version_header be b s =
     (let s = s\<lparr>st_pos := 0\<rparr>;
          s = fwrite_int32 be (bv_num b) s;
          s = fwrite_int32 be (bv_deleted b) s;
          s = fwrite_int64 be (bv_number_of_files b) s;
          s = fwrite_int64 be (bv_number_of_chunks b) s;
          s = fwrite_int32 be (int (length (bv_path b))) s
      in fwrite (bv_path b) s)"

definition create_backup_version :: "bool \<Rightarrow> byte list \<Rightarrow> int \<Rightarrow> (backupVersion \<times> int) res" where
  "create_backup_version be path cnt =
     (let (num, cnt) = get_next_version_number cnt; new = \<lparr>st_file = [], st_pos = 0, st_writable = True\<rparr> in
      rbind (path_dir path) (\<lambda>p.
        let b = \<lparr>bv_path = p, bv_num = num, bv_deleted = 0, bv_number_of_files = 0, bv_number_of_chunks = 0,
                 metadata_fp = new, recipe_fp = new, record_fp = new, metabuf = Some [], metabufoff = 0,
                 recordbuf = Some [], recordbufoff = 0, segmentbuf = None, segmentlen = 0, segmentbufoff = 0\<rparr>
        in Inr (b\<lparr>metadata_fp := write_version_header be b (metadata_fp b)\<rparr>, cnt)))"

definition backup_version_exists :: "recipe_dir \<Rightarrow> int \<Rightarrow> bool" where
  "backup_version_exists dir number \<longleftrightarrow> dir number \<noteq> None"

definition open_backup_version :: "bool \<Rightarrow> int \<Rightarrow> recipe_dir \<Rightarrow> int \<Rightarrow> backupVersion res" where
  "open_backup_version be junk dir number =
     (if \<not> backup_version_exists dir number then Inl ExitFailure
      else let (mf, rf, cf) = the (dir number);
        s = \<lparr>st_file = mf, st_pos = 0, st_writable = False\<rparr>;
        (num, s) = fread_int32 be junk s
      in rbind (c_assert (num = number)) (\<lambda>_.
        let (deleted, s) = fread_int32 be junk s;
            (nf, s) = fread_int64 be junk s;
            (nc, s) = fread_int64 be junk s;
            (pathlen, s) = fread_int32 be junk s
        in if pathlen < 0 then Inl OutOfBounds else
          let (p, s) = fread (nat pathlen) s in
          (case p of None \<Rightarrow> Inl OutOfBounds
           | Some p \<Rightarrow> Inr \<lparr>bv_path = takeWhile (\<lambda>c. c \<noteq> 0) p, bv_num = num, bv_deleted = deleted,
               bv_number_of_files = nf, bv_number_of_chunks = nc, metadata_fp = s,
               recipe_fp = \<lparr>st_file = rf, st_pos = 0, st_writable = False\<rparr>,
               record_fp = \<lparr>st_file = cf, st_pos = 0, st_writable = False\<rparr>,
               metabuf = None, metabufoff = 0, recordbuf = None, recordbufoff = 0,
               segmentbuf = None, segmentlen = 0, segmentbufoff = 0\<rparr>)))"

definition flush_metabuf :: "backupVersion \<Rightarrow> backupVersion res" where
  "flush_metabuf b =
     (case metabuf b of
        None \<Rightarrow> Inl NullDeref
      | Some buf \<Rightarrow> rbind (peek 0 (metabufoff b) buf) (\<lambda>bs.
          Inr (b\<lparr>metadata_fp := fwrite bs (metadata_fp b), metabufoff := 0\<rparr>)))"

definition flush_recordbuf :: "backupVersion \<Rightarrow> backupVersion res" where
  "flush_recordbuf b =
     (case recordbuf b of
        None \<Rightarrow> Inl NullDeref
      | Some buf \<Rightarrow> rbind (peek 0 (recordbufoff b) buf) (\<lambda>bs.
          Inr (b\<lparr>record_fp := fwrite bs (record_fp b), recordbufoff := 0\<rparr>)))"

definition update_backup_version :: "bool \<Rightarrow> int \<Rightarrow> backupVersion \<Rightarrow> (backupVersion \<times> int) res" where
  "update_backup_version be access_record b =
     rbind (if metabuf b \<noteq> None \<and> metabufoff b > 0 then flush_metabuf b else Inr b) (\<lambda>b.
     let b = b\<lparr>metadata_fp := write_version_header be b (metadata_fp b)\<rparr> in
     rbind (if recordbuf b \<noteq> None \<and> recordbufoff b > 0 then flush_recordbuf b else Inr b) (\<lambda>b.
     let b = (if access_record \<noteq> TEMPORARY_ID
              then b\<lparr>record_fp := fwrite_int64 be access_record (record_fp b)\<rparr> else b)
     in Inr (b\<lparr>record_fp := fwrite_int64 be TEMPORARY_ID (record_fp b)\<rparr>, TEMPORARY_ID)))"

definition put_meta :: "byte list \<Rightarrow> backupVersion \<Rightarrow> backupVersion res" where
  "put_meta bs b =
     (case metabuf b of
        None \<Rightarrow> Inl NullDeref
      | Some buf \<Rightarrow> rbind (poke metabufsize (metabufoff b) bs buf) (\<lambda>buf.
          Inr (b\<lparr>metabuf := Some buf, metabufoff := metabufoff b + length bs\<rparr>)))"

definition append_file_recipe_meta :: "bool \<Rightarrow> backupVersion \<Rightarrow> fileRecipeMeta \<Rightarrow> backupVersion res" where
  "append_file_recipe_meta be b r =
     (let len = length (fr_filename r) in
      rbind (if 4 + len + 8 + 8 > metabufsize - metabufoff b then flush_metabuf b else Inr b) (\<lambda>b.
      rbind (put_meta (host_bytes be 4 (i32 (int len))) b) (\<lambda>b.
      rbind (put_meta (fr_filename r) b) (\<lambda>b.
      rbind (put_meta (host_bytes be 8 (i64 (fr_chunknum r))) b) (\<lambda>b.
      rbind (put_meta (host_bytes be 8 (i64 (fr_filesize r))) b) (\<lambda>b.
        Inr (b\<lparr>bv_number_of_files := bv_number_of_files b + 1\<rparr>)))))))"

definition new_file_recipe_meta :: "byte list \<Rightarrow> fileRecipeMeta" where
  "new_file_recipe_meta name = \<lparr>fr_chunknum = 0, fr_filesize = 0, fr_filename = takeWhile (\<lambda>c. c \<noteq> 0) name\<rparr>"

definition read_next_file_recipe_meta ::
  "bool \<Rightarrow> int \<Rightarrow> int \<Rightarrow> backupVersion \<Rightarrow> (fileRecipeMeta \<times> backupVersion \<times> int) res" where
  "read_next_file_recipe_meta be junk read_file_num b =
     rbind (c_assert (read_file_num \<le> bv_number_of_files b)) (\<lambda>_.
     let (len, s) = fread_int32 be junk (metadata_fp b) in
     if len < 0 then Inl OutOfBounds else
     let (name, s) = fread (nat len) s in
     (case name of None \<Rightarrow> Inl OutOfBounds
      | Some name \<Rightarrow>
          let r = new_file_recipe_meta name;
              (cn, s) = fread_int64 be (fr_chunknum r) s;
              (fs, s) = fread_int64 be (fr_filesize r) s
          in Inr (r\<lparr>fr_chunknum := cn, fr_filesize := fs\<rparr>, b\<lparr>metadata_fp := s\<rparr>, read_file_num + 1)))"

subsection \<open>Segments\<close>

definition make_segment_id :: "int \<Rightarrow> int \<Rightarrow> int \<Rightarrow> segmentid" where
  "make_segment_id bid off sz = sint (push_bit 48 (i64 bid) + push_bit 16 (i64 off) + i64 sz)"

definition id_to_size :: "segmentid \<Rightarrow> int" where "id_to_size i = i AND 0xffff"
definition id_to_off :: "segmentid \<Rightarrow> int" where "id_to_off i = drop_bit 16 i AND 0xffffffff"
definition id_to_bnum :: "segmentid \<Rightarrow> int" where "id_to_bnum i = drop_bit 48 i"

text \<open>\<open>segmentlen\<close> and \<open>segmentbufoff\<close> are of type \<open>int\<close>: what is assigned to them is cut to 32 bits.\<close>

definition c_int :: "int \<Rightarrow> int" where "c_int n = sint (i32 n)"

lemma c_int_in32 [simp]: "in32 n \<Longrightarrow> c_int n = n"
  by (simp add: c_int_def)

definition put_segment :: "byte list \<Rightarrow> backupVersion \<Rightarrow> backupVersion res" where
  "put_segment bs b =
     (case segmentbuf b of
        None \<Rightarrow> Inl NullDeref
      | Some buf \<Rightarrow>
          if segmentbufoff b < 0 then Inl OutOfBounds
          else rbind (poke (nat (segmentlen b)) (nat (segmentbufoff b)) bs buf) (\<lambda>buf.
            Inr (b\<lparr>segmentbuf := Some buf, segmentbufoff := c_int (segmentbufoff b + int (length bs))\<rparr>)))"

definition put_pointer :: "bool \<Rightarrow> chunkPointer \<Rightarrow> backupVersion \<Rightarrow> backupVersion res" where
  "put_pointer be cp b =
     rbind (put_segment (cp_fp cp) b) (\<lambda>b.
     rbind (put_segment (host_bytes be 8 (i64 (cp_id cp))) b) (\<lambda>b.
       put_segment (host_bytes be 4 (i32 (cp_size cp))) b))"

text \<open>A negative \<open>segmentlen\<close> asks \<open>malloc\<close> for nearly $2^{64}$ bytes, which it cannot give.\<close>

definition append_segment_flag :: "bool \<Rightarrow> backupVersion \<Rightarrow> int \<Rightarrow> int \<Rightarrow> (segmentid \<times> backupVersion) res" where
  "append_segment_flag be b flag segment_size =
     rbind (c_assert (flag = SEG_START \<or> flag = SEG_END)) (\<lambda>_.
     let cp = \<lparr>cp_fp = zero_fp, cp_id = 0 - flag, cp_size = segment_size\<rparr>;
         off = length (st_file (recipe_fp b));
         b = b\<lparr>recipe_fp := (recipe_fp b)\<lparr>st_pos := off\<rparr>\<rparr>
     in rbind
       (if flag = SEG_START then
          (let len = c_int (64 + segment_size * 32)
           in Inr (b\<lparr>segmentlen := len, segmentbuf := (if len < 0 then None else Some []), segmentbufoff := 0\<rparr>))
        else Inr b) (\<lambda>b.
     rbind (put_pointer be cp b) (\<lambda>b.
     if flag = SEG_END then
       (case segmentbuf b of
          None \<Rightarrow> Inl NullDeref
        | Some buf \<Rightarrow> rbind (peek 0 (nat (segmentlen b)) buf) (\<lambda>bs.
            Inr (TEMPORARY_ID, b\<lparr>recipe_fp := fwrite bs (recipe_fp b), segmentbuf := None, segmentlen := 0\<rparr>)))
     else Inr (make_segment_id (bv_num b) (int off) segment_size, b))))"

text \<open>One pointer: the container visited before it is recorded when it differs.\<close>

definition append_chunk_pointer :: "bool \<Rightarrow> chunkPointer \<Rightarrow> backupVersion \<times> int \<Rightarrow> (backupVersion \<times> int) res" where
  "append_chunk_pointer be bcp = (\<lambda>(b, access_record).
     rbind
       (if access_record \<noteq> TEMPORARY_ID \<and> access_record \<noteq> cp_id bcp then
          rbind (if recordbufoff b + 8 > recordbufsize then flush_recordbuf b else Inr b) (\<lambda>b.
          (case recordbuf b of
             None \<Rightarrow> Inl NullDeref
           | Some buf \<Rightarrow> rbind (poke recordbufsize (recordbufoff b) (host_bytes be 8 (i64 access_record)) buf) (\<lambda>buf.
               Inr (b\<lparr>recordbuf := Some buf, recordbufoff := recordbufoff b + 8\<rparr>))))
        else Inr b) (\<lambda>b.
     rbind (c_assert (cp_id bcp \<noteq> TEMPORARY_ID)) (\<lambda>_.
     rbind (put_pointer be bcp b) (\<lambda>b.
       Inr (b\<lparr>bv_number_of_chunks := bv_number_of_chunks b + 1\<rparr>, cp_id bcp)))))"

definition append_n_chunk_pointers ::
  "bool \<Rightarrow> chunkPointer list \<Rightarrow> int \<Rightarrow> backupVersion \<times> int \<Rightarrow> (backupVersion \<times> int) res" where
  "append_n_chunk_pointers be cp n s =
     (if n \<le> 0 then Inr s
      else if nat n > length cp then Inl OutOfBounds
      else rfold (append_chunk_pointer be) (take (nat n) cp) s)"

definition read_pointer :: "bool \<Rightarrow> chunkPointer \<Rightarrow> stream \<Rightarrow> chunkPointer \<times> stream" where
  "read_pointer be old s =
     (let (f, s) = fread 20 s; (i, s) = fread_int64 be (cp_id old) s; (z, s) = fread_int32 be (cp_size old) s
      in (\<lparr>cp_fp = (case f of None \<Rightarrow> cp_fp old | Some fp \<Rightarrow> fp), cp_id = i, cp_size = z\<rparr>, s))"

text \<open>The loop that skips segment flags; on a recipe without enough pointers it may not end.\<close>

partial_function (option) read_pointers ::
  "bool \<Rightarrow> chunkPointer \<Rightarrow> chunkPointer list \<Rightarrow> nat \<Rightarrow> stream \<Rightarrow> (chunkPointer list \<times> stream) option" where
  "read_pointers be junk acc n s =
     (if n = 0 then Some (acc, s)
      else (let (cp, s) = read_pointer be junk s in
        if cp_id cp = 0 - SEG_START \<or> cp_id cp = 0 - SEG_END
        then read_pointers be cp acc n s
        else read_pointers be junk (acc @ [cp]) (n - 1) s))"

definition read_next_n_chunk_pointers ::
  "bool \<Rightarrow> chunkPointer \<Rightarrow> backupVersion \<Rightarrow> int \<Rightarrow> int \<Rightarrow> (chunkPointer list option \<times> backupVersion \<times> int) option" where
  "read_next_n_chunk_pointers be junk b n read_chunk_num =
     (if read_chunk_num = bv_number_of_chunks b then Some (None, b, read_chunk_num)
      else let num = (if bv_number_of_chunks b - read_chunk_num > n then n else bv_number_of_chunks b - read_chunk_num) in
        map_option (\<lambda>(cps, s). (Some cps, b\<lparr>recipe_fp := s\<rparr>, read_chunk_num + num))
          (read_pointers be junk [] (nat num) (recipe_fp b)))"

fun fread_ids :: "bool \<Rightarrow> nat \<Rightarrow> stream \<Rightarrow> int list \<times> stream" where
  "fread_ids be 0 s = ([], s)"
| "fread_ids be (Suc n) s =
     (case fread 8 s of
        (None, s) \<Rightarrow> ([], s)
      | (Some bs, s) \<Rightarrow> (let (ids, s) = fread_ids be n s in (sint (host_word be bs :: 64 word) # ids, s)))"

definition read_next_n_records ::
  "bool \<Rightarrow> int \<Rightarrow> backupVersion \<Rightarrow> nat \<Rightarrow> bool \<Rightarrow> int list option \<times> backupVersion \<times> bool" where
  "read_next_n_records be junk b n fin =
     (if fin then (None, b, fin)
      else let (ids, s) = fread_ids be n (record_fp b)
        in (Some ids, b\<lparr>record_fp := s\<rparr>, (if ids = [] then junk else List.last ids) = TEMPORARY_ID))"

definition new_segment_recipe :: segmentRecipe where
  "new_segment_recipe = \<lparr>sr_id = TEMPORARY_ID, sr_kvpairs = []\<rparr>"

definition segment_recipe_foreach ::
  "((fingerprint, chunkPointer) htable \<Rightarrow> (fingerprint \<times> chunkPointer) list) \<Rightarrow> segmentRecipe \<Rightarrow> (fingerprint \<Rightarrow> 's \<Rightarrow> 's) \<Rightarrow> 's \<Rightarrow> 's" where
  "segment_recipe_foreach iter sr func s = fold (\<lambda>(key, cp). func key) (iter (sr_kvpairs sr)) s"

fun read_body :: "bool \<Rightarrow> chunkPointer \<Rightarrow> nat \<Rightarrow> stream \<Rightarrow> (fingerprint, chunkPointer) htable \<Rightarrow>
    ((fingerprint, chunkPointer) htable \<times> stream) res" where
  "read_body be junk 0 s kv = Inr (kv, s)"
| "read_body be junk (Suc n) s kv =
     (let (cp, s) = read_pointer be junk s in
      rbind (c_assert (cp_id cp > TEMPORARY_ID)) (\<lambda>_. read_body be junk n s (AList.update (cp_fp cp) cp kv)))"

text \<open>A segment whose first flag has been read at \<open>current_off\<close>, up to and including its
  last flag.\<close>

definition read_segment :: "bool \<Rightarrow> chunkPointer \<Rightarrow> int \<Rightarrow> int \<Rightarrow> chunkPointer \<Rightarrow> stream \<Rightarrow> (segmentRecipe \<times> chunkPointer \<times> stream) res" where
  "read_segment be junk num current_off flag s =
     (let sr = new_segment_recipe\<lparr>sr_id := make_segment_id num current_off (cp_size flag)\<rparr> in
      rbind (read_body be junk (nat (cp_size flag)) s (sr_kvpairs sr)) (\<lambda>(kv, s).
      let (flag, s) = read_pointer be flag s in
      rbind (c_assert (cp_id flag = 0 - SEG_END)) (\<lambda>_. Inr (sr\<lparr>sr_kvpairs := kv\<rparr>, flag, s))))"

fun prefetch_loop :: "bool \<Rightarrow> chunkPointer \<Rightarrow> int \<Rightarrow> nat \<Rightarrow> bool \<Rightarrow> chunkPointer \<Rightarrow> stream \<Rightarrow> segmentRecipe list res" where
  "prefetch_loop be junk num 0 later flag s = Inr []"
| "prefetch_loop be junk num (Suc n) later flag s =
     (let current_off = int (st_pos s); (flag, s) = read_pointer be flag s in
      if cp_id flag \<noteq> - SEG_START then rbind (c_assert later) (\<lambda>_. Inr [])
      else rbind (read_segment be junk num current_off flag s) (\<lambda>(sr, flag, s).
        rbind (prefetch_loop be junk num n True flag s) (\<lambda>srs. Inr (sr # srs))))"

text \<open>\<open>cur\<close> is \<open>jcr.bv\<close>; the static \<open>opened_bv\<close> is a version number, the version with
  that number being \<open>cur\<close> or an open file of the directory.\<close>

definition prefetch_segments ::
  "bool \<Rightarrow> chunkPointer \<Rightarrow> recipe_dir \<Rightarrow> backupVersion \<Rightarrow> segmentid \<Rightarrow> int \<Rightarrow> segmentRecipe list res" where
  "prefetch_segments be junk dir cur i prefetch_num =
     rbind (c_assert (i \<noteq> TEMPORARY_ID)) (\<lambda>_.
     let bnum = id_to_bnum i; off = id_to_off i in
     rbind (if bnum = bv_num cur then Inr cur else open_backup_version be (cp_id junk) dir bnum) (\<lambda>b.
       prefetch_loop be junk (bv_num b) (nat prefetch_num) False junk ((recipe_fp b)\<lparr>st_pos := nat off\<rparr>)))"

definition read_next_segment :: "bool \<Rightarrow> chunkPointer \<Rightarrow> backupVersion \<Rightarrow> (segmentRecipe option \<times> backupVersion) res" where
  "read_next_segment be junk bv =
     (let current_off = int (st_pos (recipe_fp bv));
          full = (st_pos (recipe_fp bv) + 32 \<le> length (st_file (recipe_fp bv)));
          (flag, s) = read_pointer be junk (recipe_fp bv)
      in if \<not> full \<or> cp_id flag \<noteq> - SEG_START then Inr (None, bv\<lparr>recipe_fp := s\<rparr>)
         else rbind (read_segment be junk (bv_num bv) current_off flag s) (\<lambda>(sr, flag, s).
           Inr (Some sr, bv\<lparr>recipe_fp := s\<rparr>)))"

definition segment_recipe_check_id :: "segmentRecipe \<Rightarrow> segmentid \<Rightarrow> bool" where
  "segment_recipe_check_id sr i \<longleftrightarrow> sr_id sr = i"

definition lookup_fingerprint_in_segment_recipe :: "segmentRecipe \<Rightarrow> fingerprint \<Rightarrow> bool" where
  "lookup_fingerprint_in_segment_recipe sr fp = (if map_of (sr_kvpairs sr) fp = None then False else True)"

subsection \<open>Segment ids\<close>

lemma segment_id_sum:
  assumes "0 \<le> bid" "bid < 2 ^ 15" "0 \<le> off" "off < 2 ^ 32" "0 \<le> sz" "sz < 2 ^ 16"
  shows "make_segment_id bid off sz = bid * 2 ^ 48 + off * 2 ^ 16 + sz"
proof -
  have "push_bit 48 (i64 bid) + push_bit 16 (i64 off) + i64 sz = i64 (bid * 2 ^ 48 + off * 2 ^ 16 + sz)"
    by (simp add: i64_def push_bit_eq_mult)
  moreover have "in64 (bid * 2 ^ 48 + off * 2 ^ 16 + sz)" using assms by (simp add: in64_def)
  ultimately show ?thesis by (simp add: make_segment_id_def)
qed

lemma segment_id_fields:
  assumes "0 \<le> bid" "bid < 2 ^ 15" "0 \<le> off" "off < 2 ^ 32" "0 \<le> sz" "sz < 2 ^ 16"
  shows "id_to_bnum (make_segment_id bid off sz) = bid" and "id_to_off (make_segment_id bid off sz) = off"
    and "id_to_size (make_segment_id bid off sz) = sz" and "make_segment_id bid off sz \<noteq> TEMPORARY_ID"
proof -
  have m16: "(0xffff :: int) = mask 16" and m32: "(0xffffffff :: int) = mask 32" by (simp_all add: mask_eq_exp_minus_1)
  have "(off * 2 ^ 16 + sz) div 2 ^ 16 = off" using assms by simp
  moreover have "(bid * 2 ^ 48 + off * 2 ^ 16 + sz) div 2 ^ 16 = bid * 2 ^ 32 + off"
    using assms by simp
  moreover have "(bid * 2 ^ 48 + off * 2 ^ 16 + sz) div 2 ^ 48 = bid"
    using assms by simp
  moreover have "(bid * 2 ^ 48 + off * 2 ^ 16 + sz) mod 2 ^ 16 = sz"
  proof -
    have "bid * 2 ^ 48 + off * 2 ^ 16 + sz = sz + (bid * 2 ^ 32 + off) * 2 ^ 16" by simp
    then show ?thesis using assms by (simp only: mod_mult_self1) simp
  qed
  ultimately show "id_to_bnum (make_segment_id bid off sz) = bid"
    "id_to_off (make_segment_id bid off sz) = off" "id_to_size (make_segment_id bid off sz) = sz"
    "make_segment_id bid off sz \<noteq> TEMPORARY_ID"
    using assms unfolding segment_id_sum [OF assms]
    by (simp_all add: id_to_bnum_def id_to_off_def id_to_size_def drop_bit_eq_div m16 m32
        flip: take_bit_eq_mask) (simp_all add: take_bit_eq_mod TEMPORARY_ID_def)
qed

subsection \<open>Chunk pointers on file\<close>

definition enc_cp :: "bool \<Rightarrow> chunkPointer \<Rightarrow> byte list" where
  "enc_cp be cp = cp_fp cp @ host_bytes be 8 (i64 (cp_id cp)) @ host_bytes be 4 (i32 (cp_size cp))"

definition cp_ok :: "chunkPointer \<Rightarrow> bool" where
  "cp_ok cp \<longleftrightarrow> length (cp_fp cp) = 20 \<and> in64 (cp_id cp) \<and> in32 (cp_size cp)"

definition seg_flag :: "int \<Rightarrow> int \<Rightarrow> chunkPointer" where
  "seg_flag flag n = \<lparr>cp_fp = zero_fp, cp_id = 0 - flag, cp_size = n\<rparr>"

lemma length_enc_cp: "cp_ok cp \<Longrightarrow> length (enc_cp be cp) = 32"
  by (simp add: enc_cp_def cp_ok_def)

lemma length_enc_cps: "list_all cp_ok cps \<Longrightarrow> length (concat (map (enc_cp be) cps)) = 32 * length cps"
  by (induction cps) (auto simp: length_enc_cp)

definition seg_len_ok :: "int \<Rightarrow> bool" where
  "seg_len_ok n \<longleftrightarrow> 0 \<le> n \<and> in32 (64 + n * 32)"

lemma seg_len_okD: "seg_len_ok n \<Longrightarrow> in32 n"
  by (simp add: seg_len_ok_def in32_def)

lemma seg_len_ok_0 [simp]: "seg_len_ok 0" and seg_len_ok_1 [simp]: "seg_len_ok 1"
  by (simp_all add: seg_len_ok_def in32_def)

lemma seg_flag_ok: "in32 n \<Longrightarrow> flag = SEG_START \<or> flag = SEG_END \<Longrightarrow> cp_ok (seg_flag flag n)"
  by (auto simp: cp_ok_def seg_flag_def zero_fp_def in64_def cfg_simps)

lemma read_pointer_rest:
  assumes "srest s = enc_cp be cp @ r" and "swf s" and "cp_ok cp"
  shows "\<exists>s'. read_pointer be old s = (cp, s') \<and> srest s' = r \<and> swf s' \<and> st_file s' = st_file s \<and> st_pos s' = st_pos s + 32"
proof -
  have r: "srest s = cp_fp cp @ host_bytes be 8 (i64 (cp_id cp)) @ host_bytes be 4 (i32 (cp_size cp)) @ r"
    using assms(1) by (simp add: enc_cp_def)
  from fread_rest [OF r assms(2), of 20] assms(3) obtain s1 where
    1: "fread 20 s = (Some (cp_fp cp), s1)" "swf s1" "st_file s1 = st_file s" "st_pos s1 = st_pos s + 20"
       "srest s1 = host_bytes be 8 (i64 (cp_id cp)) @ host_bytes be 4 (i32 (cp_size cp)) @ r"
    by (auto simp: cp_ok_def)
  from fread_int64_rest [OF 1(5,2), of "cp_id old"] assms(3) obtain s2 where
    2: "fread_int64 be (cp_id old) s1 = (cp_id cp, s2)" "swf s2" "st_file s2 = st_file s1" "st_pos s2 = st_pos s1 + 8"
       "srest s2 = host_bytes be 4 (i32 (cp_size cp)) @ r"
    by (auto simp: cp_ok_def)
  from fread_int32_rest [OF 2(5,2), of "cp_size old"] assms(3) obtain s3 where
    3: "fread_int32 be (cp_size old) s2 = (cp_size cp, s3)" "swf s3" "st_file s3 = st_file s2" "st_pos s3 = st_pos s2 + 4"
       "srest s3 = r"
    by (auto simp: cp_ok_def)
  from 1 2 3 show ?thesis by (simp add: read_pointer_def)
qed

subsection \<open>Writing a segment\<close>

definition seg_writing :: "backupVersion \<Rightarrow> byte list \<Rightarrow> nat \<Rightarrow> bool" where
  "seg_writing b buf n \<longleftrightarrow> segmentbuf b = Some buf \<and> segmentbufoff b = int (length buf) \<and> segmentlen b = int n \<and> in32 (int n)"

lemma put_segment_ok:
  assumes "seg_writing b buf n" and "length buf + length bs \<le> n"
  shows "put_segment bs b = Inr (b\<lparr>segmentbuf := Some (buf @ bs), segmentbufoff := int (length (buf @ bs))\<rparr>)"
  using assms by (simp add: put_segment_def seg_writing_def poke_def in32_def)

lemma put_pointer_ok:
  assumes "seg_writing b buf n" and "length buf + 32 \<le> n" and "cp_ok cp"
  shows "put_pointer be cp b = Inr (b\<lparr>segmentbuf := Some (buf @ enc_cp be cp), segmentbufoff := int (length (buf @ enc_cp be cp))\<rparr>)"
proof -
  let ?b1 = "b\<lparr>segmentbuf := Some (buf @ cp_fp cp), segmentbufoff := int (length (buf @ cp_fp cp))\<rparr>"
  let ?b2 = "?b1\<lparr>segmentbuf := Some ((buf @ cp_fp cp) @ host_bytes be 8 (i64 (cp_id cp))),
      segmentbufoff := int (length ((buf @ cp_fp cp) @ host_bytes be 8 (i64 (cp_id cp))))\<rparr>"
  have w: "seg_writing ?b1 (buf @ cp_fp cp) n"
    "seg_writing ?b2 ((buf @ cp_fp cp) @ host_bytes be 8 (i64 (cp_id cp))) n"
    using assms(1) by (simp_all add: seg_writing_def)
  have 1: "put_segment (cp_fp cp) b = Inr ?b1"
    by (rule put_segment_ok [OF assms(1)]) (use assms in \<open>simp add: cp_ok_def\<close>)
  have 2: "put_segment (host_bytes be 8 (i64 (cp_id cp))) ?b1 = Inr ?b2"
    by (rule put_segment_ok [OF w(1)]) (use assms in \<open>simp add: cp_ok_def\<close>)
  have 3: "put_segment (host_bytes be 4 (i32 (cp_size cp))) ?b2 =
      Inr (?b2\<lparr>segmentbuf := Some (((buf @ cp_fp cp) @ host_bytes be 8 (i64 (cp_id cp))) @ host_bytes be 4 (i32 (cp_size cp))),
        segmentbufoff := int (length (((buf @ cp_fp cp) @ host_bytes be 8 (i64 (cp_id cp))) @ host_bytes be 4 (i32 (cp_size cp))))\<rparr>)"
    by (rule put_segment_ok [OF w(2)]) (use assms in \<open>simp add: cp_ok_def\<close>)
  show ?thesis unfolding put_pointer_def 1 rbind_simps 2 3 by (simp add: enc_cp_def)
qed

subsection \<open>Access records\<close>

definition enc_id :: "bool \<Rightarrow> int \<Rightarrow> byte list" where
  "enc_id be i = host_bytes be 8 (i64 i)"

definition rec_rep :: "bool \<Rightarrow> backupVersion \<Rightarrow> int \<Rightarrow> int list \<Rightarrow> bool" where
  "rec_rep be b acc ids \<longleftrightarrow>
     (\<exists>buf. recordbuf b = Some buf \<and> recordbufoff b \<le> length buf \<and> appending (record_fp b) \<and>
        st_file (record_fp b) @ take (recordbufoff b) buf = concat (map (enc_id be) (butlast (remdups_adj ids)))) \<and>
     acc = (if ids = [] then TEMPORARY_ID else List.last ids) \<and> TEMPORARY_ID \<notin> set ids"

lemma remdups_adj_snoc:
  "remdups_adj (ids @ [x]) = (if ids = [] then [x] else if List.last ids = x then remdups_adj ids else remdups_adj ids @ [x])"
  by (induction ids rule: remdups_adj.induct) auto

lemma butlast_remdups_snoc:
  "butlast (remdups_adj (ids @ [x])) =
     (if ids = [] then [] else if List.last ids = x then butlast (remdups_adj ids)
      else butlast (remdups_adj ids) @ [List.last ids])"
proof (cases "ids = []")
  case False
  then have "remdups_adj ids \<noteq> []" by simp
  then have "butlast (remdups_adj ids) @ [List.last ids] = remdups_adj ids"
    by (metis append_butlast_last_id last_remdups_adj)
  with False show ?thesis by (simp add: remdups_adj_snoc butlast_append)
qed (simp add: remdups_adj_snoc)

text \<open>The part of a version the record code does not touch.\<close>

definition same_but_records :: "backupVersion \<Rightarrow> backupVersion \<Rightarrow> bool" where
  "same_but_records b b' \<longleftrightarrow>
     bv_num b' = bv_num b \<and> bv_path b' = bv_path b \<and> bv_deleted b' = bv_deleted b \<and>
     bv_number_of_files b' = bv_number_of_files b \<and> bv_number_of_chunks b' = bv_number_of_chunks b \<and>
     metadata_fp b' = metadata_fp b \<and> recipe_fp b' = recipe_fp b \<and> metabuf b' = metabuf b \<and>
     metabufoff b' = metabufoff b \<and> segmentbuf b' = segmentbuf b \<and> segmentlen b' = segmentlen b \<and>
     segmentbufoff b' = segmentbufoff b"

lemma put_record:
  assumes "recordbuf b = Some buf" and "recordbufoff b \<le> length buf" and "appending (record_fp b)" and "length bs = 8"
  shows "\<exists>b'. rbind (if recordbufoff b + 8 > recordbufsize then flush_recordbuf b else Inr b) (\<lambda>b.
          (case recordbuf b of
             None \<Rightarrow> Inl NullDeref
           | Some buf \<Rightarrow> rbind (poke recordbufsize (recordbufoff b) bs buf) (\<lambda>buf.
               Inr (b\<lparr>recordbuf := Some buf, recordbufoff := recordbufoff b + 8\<rparr>)))) = Inr b' \<and>
     same_but_records b b' \<and>
     (\<exists>buf'. recordbuf b' = Some buf' \<and> recordbufoff b' \<le> length buf' \<and> appending (record_fp b') \<and>
        st_file (record_fp b') @ take (recordbufoff b') buf' =
        (st_file (record_fp b) @ take (recordbufoff b) buf) @ bs)"
proof (cases "recordbufoff b + 8 > recordbufsize")
  case True
  have "peek 0 (recordbufoff b) buf = Inr (take (recordbufoff b) buf)" using assms(2) by (simp add: peek_def)
  with True assms show ?thesis
    using fwrite_append [OF assms(3), of "take (recordbufoff b) buf"]
    by (simp add: flush_recordbuf_def poke_def recordbufsize_def same_but_records_def)
next
  case False
  with assms show ?thesis
    by (simp add: poke_def same_but_records_def min_def)
qed

lemma append_pointer_ok:
  assumes "rec_rep be b acc ids" and "seg_writing b buf n" and "length buf + 32 \<le> n" and "cp_ok cp"
    and "cp_id cp \<noteq> TEMPORARY_ID"
  shows "\<exists>b'. append_chunk_pointer be cp (b, acc) = Inr (b', cp_id cp) \<and> rec_rep be b' (cp_id cp) (ids @ [cp_id cp]) \<and>
     seg_writing b' (buf @ enc_cp be cp) n \<and> bv_number_of_chunks b' = bv_number_of_chunks b + 1 \<and>
     recipe_fp b' = recipe_fp b \<and> bv_num b' = bv_num b"
proof -
  from assms(1) obtain rb where rb: "recordbuf b = Some rb" "recordbufoff b \<le> length rb" "appending (record_fp b)"
    "st_file (record_fp b) @ take (recordbufoff b) rb = concat (map (enc_id be) (butlast (remdups_adj ids)))"
    and acc: "acc = (if ids = [] then TEMPORARY_ID else List.last ids)" and nt: "TEMPORARY_ID \<notin> set ids"
    by (auto simp: rec_rep_def)
  let ?put = "acc \<noteq> TEMPORARY_ID \<and> acc \<noteq> cp_id cp"
  let ?bs = "host_bytes be 8 (i64 acc)"
  let ?m = "if ?put then rbind (if recordbufoff b + 8 > recordbufsize then flush_recordbuf b else Inr b) (\<lambda>b.
          (case recordbuf b of
             None \<Rightarrow> Inl NullDeref
           | Some buf \<Rightarrow> rbind (poke recordbufsize (recordbufoff b) ?bs buf) (\<lambda>buf.
               Inr (b\<lparr>recordbuf := Some buf, recordbufoff := recordbufoff b + 8\<rparr>)))) else Inr b"
  from put_record [OF rb(1-3), of ?bs] rb obtain b1 rb1 where
    1: "?m = Inr b1" "same_but_records b b1" "recordbuf b1 = Some rb1" "recordbufoff b1 \<le> length rb1" "appending (record_fp b1)"
      "st_file (record_fp b1) @ take (recordbufoff b1) rb1 =
        (st_file (record_fp b) @ take (recordbufoff b) rb) @ (if ?put then ?bs else [])"
    by (cases ?put) (auto simp: same_but_records_def)
  have w: "seg_writing b1 buf n" using assms(2) 1(2) by (simp add: seg_writing_def same_but_records_def)
  let ?b2 = "b1\<lparr>segmentbuf := Some (buf @ enc_cp be cp), segmentbufoff := int (length (buf @ enc_cp be cp))\<rparr>"
  let ?b3 = "?b2\<lparr>bv_number_of_chunks := bv_number_of_chunks ?b2 + 1\<rparr>"
  have eq: "append_chunk_pointer be cp (b, acc) = Inr (?b3, cp_id cp)"
    using put_pointer_ok [OF w assms(3,4)] assms(5) unfolding append_chunk_pointer_def prod.case 1(1) by simp
  have nl: "List.last ids \<noteq> TEMPORARY_ID" if "ids \<noteq> []"
    using nt last_in_set [OF that] by metis
  have "st_file (record_fp b1) @ take (recordbufoff b1) rb1 =
      concat (map (enc_id be) (butlast (remdups_adj (ids @ [cp_id cp]))))"
    using 1(6) rb(4) acc assms(5) nl
    by (cases "ids = []") (auto simp: butlast_remdups_snoc enc_id_def)
  then have "rec_rep be ?b3 (cp_id cp) (ids @ [cp_id cp])"
    using 1 nt assms(5) by (simp add: rec_rep_def)
  moreover have "seg_writing ?b3 (buf @ enc_cp be cp) n" using w by (simp add: seg_writing_def)
  moreover have "bv_number_of_chunks ?b3 = bv_number_of_chunks b + 1" "recipe_fp ?b3 = recipe_fp b" "bv_num ?b3 = bv_num b"
    using 1(2) by (simp_all add: same_but_records_def)
  ultimately show ?thesis using eq by blast
qed

definition enc_segment :: "bool \<Rightarrow> chunkPointer list \<Rightarrow> byte list" where
  "enc_segment be cps =
     enc_cp be (seg_flag SEG_START (int (length cps))) @ concat (map (enc_cp be) cps) @ enc_cp be (seg_flag SEG_END 0)"

subsection \<open>Reading segments\<close>

definition seg_cp_ok :: "chunkPointer \<Rightarrow> bool" where
  "seg_cp_ok cp \<longleftrightarrow> cp_ok cp \<and> 0 \<le> cp_id cp"

definition seg_ok :: "chunkPointer list \<Rightarrow> bool" where
  "seg_ok cps \<longleftrightarrow> list_all seg_cp_ok cps \<and> in32 (int (length cps))"

definition kv_of :: "chunkPointer list \<Rightarrow> (fingerprint, chunkPointer) htable \<Rightarrow> (fingerprint, chunkPointer) htable" where
  "kv_of cps kv = fold (\<lambda>cp. AList.update (cp_fp cp) cp) cps kv"

definition segment_at :: "int \<Rightarrow> nat \<Rightarrow> chunkPointer list \<Rightarrow> segmentRecipe" where
  "segment_at num off cps = \<lparr>sr_id = make_segment_id num (int off) (int (length cps)), sr_kvpairs = kv_of cps []\<rparr>"

fun segments_from :: "int \<Rightarrow> nat \<Rightarrow> chunkPointer list list \<Rightarrow> segmentRecipe list" where
  "segments_from num off [] = []"
| "segments_from num off (cps # segs) =
     segment_at num off cps # segments_from num (off + 32 * (length cps + 2)) segs"

lemma seg_ok_cps: "seg_ok cps \<Longrightarrow> list_all cp_ok cps"
  by (auto simp: seg_ok_def seg_cp_ok_def list_all_iff)

lemma length_enc_segment: "seg_ok cps \<Longrightarrow> length (enc_segment be cps) = 32 * (length cps + 2)"
  using length_enc_cps [OF seg_ok_cps] seg_flag_ok [of "int (length cps)" SEG_START] seg_flag_ok [of 0 SEG_END]
  by (simp add: enc_segment_def length_enc_cp seg_ok_def in32_def)

lemma read_body_rest:
  assumes "srest s = concat (map (enc_cp be) cps) @ r" and "swf s" and "list_all seg_cp_ok cps"
  shows "\<exists>s'. read_body be junk (length cps) s kv = Inr (kv_of cps kv, s') \<and> srest s' = r \<and> swf s' \<and>
     st_file s' = st_file s \<and> st_pos s' = st_pos s + 32 * length cps"
  using assms
proof (induction cps arbitrary: s kv)
  case (Cons cp cps)
  then have c: "cp_ok cp" "cp_id cp > TEMPORARY_ID" by (simp_all add: seg_cp_ok_def TEMPORARY_ID_def)
  from Cons.prems(1) have "srest s = enc_cp be cp @ concat (map (enc_cp be) cps) @ r" by simp
  from read_pointer_rest [OF this Cons.prems(2) c(1), of junk] obtain s1 where
    1: "read_pointer be junk s = (cp, s1)" "srest s1 = concat (map (enc_cp be) cps) @ r" "swf s1"
       "st_file s1 = st_file s" "st_pos s1 = st_pos s + 32" by blast
  from Cons.IH [OF 1(2,3), of "AList.update (cp_fp cp) cp kv"] Cons.prems(3) 1 c show ?case
    by (auto simp: kv_of_def)
qed (simp add: kv_of_def)

lemma read_segment_rest:
  assumes "srest s = concat (map (enc_cp be) cps) @ enc_cp be (seg_flag SEG_END 0) @ r" and "swf s"
    and "seg_ok cps" and "cp_size flag = int (length cps)"
  shows "\<exists>s'. read_segment be junk num (int off) flag s = Inr (segment_at num off cps, seg_flag SEG_END 0, s') \<and>
     srest s' = r \<and> swf s' \<and> st_file s' = st_file s \<and> st_pos s' = st_pos s + 32 * (length cps + 1)"
proof -
  from read_body_rest [OF assms(1,2)] assms(3) obtain s1 where
    1: "read_body be junk (length cps) s [] = Inr (kv_of cps [], s1)" "srest s1 = enc_cp be (seg_flag SEG_END 0) @ r"
       "swf s1" "st_file s1 = st_file s" "st_pos s1 = st_pos s + 32 * length cps" by (auto simp: seg_ok_def)
  have "cp_ok (seg_flag SEG_END 0)" by (rule seg_flag_ok) (simp_all add: in32_def)
  from read_pointer_rest [OF 1(2,3) this, of flag] obtain s2 where
    2: "read_pointer be flag s1 = (seg_flag SEG_END 0, s2)" "srest s2 = r" "swf s2" "st_file s2 = st_file s1"
       "st_pos s2 = st_pos s1 + 32" by blast
  have "cp_id (seg_flag SEG_END 0) = 0 - SEG_END" by (simp add: seg_flag_def)
  with 1 2 assms(4) show ?thesis
    by (simp add: read_segment_def new_segment_recipe_def segment_at_def)
qed

lemma read_pointer_eof:
  assumes "srest s = []" and "swf s"
  shows "\<exists>s'. read_pointer be old s = (old, s')"
proof -
  have "st_pos s = length (st_file s)" using assms by (simp add: srest_def swf_def)
  then show ?thesis by (simp add: read_pointer_def fread_def fread_int64_def fread_int32_def Let_def)
qed

lemma prefetch_loop_rest:
  assumes "srest s = concat (map (enc_segment be) segs)" and "swf s" and "list_all seg_ok segs"
    and "cp_id flag \<noteq> - SEG_START \<or> segs \<noteq> []" and "later \<or> segs \<noteq> [] \<or> n = 0"
  shows "prefetch_loop be junk num n later flag s = Inr (take n (segments_from num (st_pos s) segs))"
  using assms
proof (induction n arbitrary: s segs later flag)
  case (Suc n)
  show ?case
  proof (cases segs)
    case Nil
    then obtain s' where "read_pointer be flag s = (flag, s')" using read_pointer_eof [of s be flag] Suc.prems by auto
    with Nil Suc.prems show ?thesis by simp
  next
    case (Cons cps segs')
    let ?s = "seg_flag SEG_START (int (length cps))"
    have ok: "seg_ok cps" "list_all seg_ok segs'" "cp_ok ?s"
      using Suc.prems(3) Cons by (auto intro: seg_flag_ok) (auto simp: seg_ok_def intro: seg_flag_ok)
    have "srest s = enc_cp be ?s @ concat (map (enc_cp be) cps) @ enc_cp be (seg_flag SEG_END 0) @
        concat (map (enc_segment be) segs')"
      using Suc.prems(1) Cons by (simp add: enc_segment_def [of _ cps])
    from read_pointer_rest [OF this Suc.prems(2) ok(3), of flag] obtain s1 where
      1: "read_pointer be flag s = (?s, s1)" "swf s1" "st_pos s1 = st_pos s + 32"
         "srest s1 = concat (map (enc_cp be) cps) @ enc_cp be (seg_flag SEG_END 0) @ concat (map (enc_segment be) segs')"
      by blast
    from read_segment_rest [OF 1(4,2) ok(1), of ?s junk num "st_pos s"] obtain s2 where
      2: "read_segment be junk num (int (st_pos s)) ?s s1 = Inr (segment_at num (st_pos s) cps, seg_flag SEG_END 0, s2)"
         "srest s2 = concat (map (enc_segment be) segs')" "swf s2" "st_pos s2 = st_pos s1 + 32 * (length cps + 1)"
      by (auto simp: seg_flag_def)
    have "cp_id (seg_flag SEG_END 0) \<noteq> - SEG_START" by (simp add: seg_flag_def cfg_simps)
    from Suc.IH [OF 2(2,3) ok(2), of "seg_flag SEG_END 0" True] this have
      "prefetch_loop be junk num n True (seg_flag SEG_END 0) s2 = Inr (take n (segments_from num (st_pos s2) segs'))"
      by simp
    moreover have "cp_id ?s = - SEG_START" by (simp add: seg_flag_def)
    ultimately show ?thesis using 1 2 Cons by (simp add: algebra_simps)
  qed
qed simp

text \<open>The pointers of a recipe, its flags left out.\<close>

definition is_flag :: "chunkPointer \<Rightarrow> bool" where
  "is_flag cp \<longleftrightarrow> cp_id cp = 0 - SEG_START \<or> cp_id cp = 0 - SEG_END"

lemma read_pointers_step:
  "read_pointer be junk s = (cp, s1) \<Longrightarrow> 0 < n \<Longrightarrow> read_pointers be junk acc n s =
     (if is_flag cp then read_pointers be cp acc n s1 else read_pointers be junk (acc @ [cp]) (n - 1) s1)"
  by (subst read_pointers.simps) (simp add: is_flag_def)

lemma read_pointers_rest:
  assumes "srest s = concat (map (enc_cp be) items) @ r" and "swf s" and "list_all cp_ok items"
    and "n \<le> length (filter (\<lambda>cp. \<not> is_flag cp) items)"
  shows "\<exists>s' rest. read_pointers be junk acc n s = Some (acc @ take n (filter (\<lambda>cp. \<not> is_flag cp) items), s') \<and>
     swf s' \<and> st_file s' = st_file s \<and> srest s' = concat (map (enc_cp be) rest) @ r \<and>
     filter (\<lambda>cp. \<not> is_flag cp) rest = drop n (filter (\<lambda>cp. \<not> is_flag cp) items) \<and> list_all cp_ok rest"
  using assms
proof (induction items arbitrary: s n acc junk)
  case Nil
  then show ?case by (subst read_pointers.simps) (auto intro!: exI [of _ "[]"])
next
  case (Cons cp items)
  show ?case
  proof (cases "n = 0")
    case True
    with Cons.prems show ?thesis by (subst read_pointers.simps) (auto intro!: exI [of _ "cp # items"])
  next
    case False
    have "srest s = enc_cp be cp @ concat (map (enc_cp be) items) @ r" "cp_ok cp"
      using Cons.prems by simp_all
    from read_pointer_rest [OF this(1) Cons.prems(2) this(2), of junk] obtain s1 where
      1: "read_pointer be junk s = (cp, s1)" "srest s1 = concat (map (enc_cp be) items) @ r" "swf s1" "st_file s1 = st_file s"
      by blast
    show ?thesis
    proof (cases "is_flag cp")
      case True
      with Cons.IH [OF 1(2,3), of n cp acc] Cons.prems(3,4) 1 False show ?thesis
        by (simp add: read_pointers_step)
    next
      case nf: False
      with Cons.IH [OF 1(2,3), of "n - 1" junk "acc @ [cp]"] Cons.prems(3,4) 1 False show ?thesis
        by (cases n) (auto simp: read_pointers_step)
    qed
  qed
qed

subsection \<open>The metadata file\<close>

definition enc_meta :: "bool \<Rightarrow> fileRecipeMeta \<Rightarrow> byte list" where
  "enc_meta be r = host_bytes be 4 (i32 (int (length (fr_filename r)))) @ fr_filename r @
     host_bytes be 8 (i64 (fr_chunknum r)) @ host_bytes be 8 (i64 (fr_filesize r))"

definition enc_header :: "bool \<Rightarrow> backupVersion \<Rightarrow> byte list" where
  "enc_header be b = host_bytes be 4 (i32 (bv_num b)) @ host_bytes be 4 (i32 (bv_deleted b)) @
     host_bytes be 8 (i64 (bv_number_of_files b)) @ host_bytes be 8 (i64 (bv_number_of_chunks b)) @
     host_bytes be 4 (i32 (int (length (bv_path b)))) @ bv_path b"

definition meta_rep :: "bool \<Rightarrow> backupVersion \<Rightarrow> fileRecipeMeta list \<Rightarrow> bool" where
  "meta_rep be b rs \<longleftrightarrow> bv_number_of_files b = int (length rs) \<and> appending (metadata_fp b) \<and>
     (\<exists>buf hdr. metabuf b = Some buf \<and> metabufoff b \<le> length buf \<and> length hdr = 28 + length (bv_path b) \<and>
        st_file (metadata_fp b) @ take (metabufoff b) buf = hdr @ concat (map (enc_meta be) rs) \<and>
        length hdr \<le> length (st_file (metadata_fp b)))"

lemma header_bytes: "write_version_header be b s = fwrite (enc_header be b) (s\<lparr>st_pos := 0\<rparr>)"
  by (simp add: write_version_header_def Let_def fwrite_int32_def fwrite_int64_def fwrite_seq [OF refl] enc_header_def)

lemma length_header: "length (enc_header be b) = 28 + length (bv_path b)"
  by (simp add: enc_header_def)

lemma meta_rep_create:
  assumes "create_backup_version be path cnt = Inr (b, cnt')"
  shows "meta_rep be b [] \<and> rec_rep be b TEMPORARY_ID [] \<and> st_file (recipe_fp b) = [] \<and> st_writable (recipe_fp b) \<and>
     bv_num b = cnt \<and> cnt' = cnt + 1 \<and> bv_number_of_chunks b = 0"
proof -
  from assms obtain p where "path_dir path = Inr p"
    by (auto simp: create_backup_version_def Let_def get_next_version_number_def rbind_Inr_iff)
  with assms show ?thesis
    by (auto simp: create_backup_version_def Let_def get_next_version_number_def header_bytes meta_rep_def
        rec_rep_def appending_def fwrite_def f_write_def length_header)
qed

text \<open>The fields other than the write buffer of the metadata.\<close>

definition same_but_meta :: "backupVersion \<Rightarrow> backupVersion \<Rightarrow> bool" where
  "same_but_meta b b' \<longleftrightarrow> bv_path b' = bv_path b \<and> bv_num b' = bv_num b \<and> bv_deleted b' = bv_deleted b \<and>
     bv_number_of_chunks b' = bv_number_of_chunks b \<and> recipe_fp b' = recipe_fp b \<and> record_fp b' = record_fp b \<and>
     recordbuf b' = recordbuf b \<and> recordbufoff b' = recordbufoff b \<and> segmentbuf b' = segmentbuf b \<and>
     segmentlen b' = segmentlen b \<and> segmentbufoff b' = segmentbufoff b"

lemma put_meta_ok:
  assumes "metabuf b = Some buf" and "metabufoff b \<le> length buf" and "metabufoff b + length bs \<le> metabufsize"
  shows "\<exists>buf'. put_meta bs b = Inr (b\<lparr>metabuf := Some buf', metabufoff := metabufoff b + length bs\<rparr>) \<and>
     metabufoff b + length bs \<le> length buf' \<and> take (metabufoff b + length bs) buf' = take (metabufoff b) buf @ bs"
  using assms by (intro exI [of _ "take (metabufoff b) buf @ bs @ drop (metabufoff b + length bs) buf"])
    (simp add: put_meta_def poke_def min_def)

lemma put_meta_4:
  assumes "metabuf b = Some buf" and "metabufoff b \<le> length buf"
    and "metabufoff b + length (w @ x @ y @ z) \<le> metabufsize"
  shows "\<exists>buf'. rbind (put_meta w b) (\<lambda>b. rbind (put_meta x b) (\<lambda>b. rbind (put_meta y b) (\<lambda>b.
       rbind (put_meta z b) f))) = f (b\<lparr>metabuf := Some buf', metabufoff := metabufoff b + length (w @ x @ y @ z)\<rparr>) \<and>
     metabufoff b + length (w @ x @ y @ z) \<le> length buf' \<and>
     take (metabufoff b + length (w @ x @ y @ z)) buf' = take (metabufoff b) buf @ w @ x @ y @ z"
proof -
  from put_meta_ok [OF assms(1,2), of w] assms(3) obtain b1 where
    1: "put_meta w b = Inr (b\<lparr>metabuf := Some b1, metabufoff := metabufoff b + length w\<rparr>)"
       "metabufoff b + length w \<le> length b1" "take (metabufoff b + length w) b1 = take (metabufoff b) buf @ w"
    by auto
  let ?B1 = "b\<lparr>metabuf := Some b1, metabufoff := metabufoff b + length w\<rparr>"
  from put_meta_ok [of ?B1 b1 x] assms(3) 1 obtain b2 where
    2: "put_meta x ?B1 = Inr (?B1\<lparr>metabuf := Some b2, metabufoff := metabufoff b + length w + length x\<rparr>)"
       "metabufoff b + length w + length x \<le> length b2"
       "take (metabufoff b + length w + length x) b2 = take (metabufoff b) buf @ w @ x"
    by auto
  let ?B2 = "?B1\<lparr>metabuf := Some b2, metabufoff := metabufoff b + length w + length x\<rparr>"
  from put_meta_ok [of ?B2 b2 y] assms(3) 2 obtain b3 where
    3: "put_meta y ?B2 = Inr (?B2\<lparr>metabuf := Some b3, metabufoff := metabufoff b + length w + length x + length y\<rparr>)"
       "metabufoff b + length w + length x + length y \<le> length b3"
       "take (metabufoff b + length w + length x + length y) b3 = take (metabufoff b) buf @ w @ x @ y"
    by auto
  let ?B3 = "?B2\<lparr>metabuf := Some b3, metabufoff := metabufoff b + length w + length x + length y\<rparr>"
  from put_meta_ok [of ?B3 b3 z] assms(3) 3 obtain b4 where
    4: "put_meta z ?B3 = Inr (?B3\<lparr>metabuf := Some b4, metabufoff := metabufoff b + length w + length x + length y + length z\<rparr>)"
       "metabufoff b + length w + length x + length y + length z \<le> length b4"
       "take (metabufoff b + length w + length x + length y + length z) b4 = take (metabufoff b) buf @ w @ x @ y @ z"
    by auto
  show ?thesis
    using 4 unfolding 1(1) rbind_simps 2(1) 3(1) 4(1) by (intro exI [of _ b4]) (simp add: add.assoc)
qed

lemma append_meta_ok:
  assumes "meta_rep be b rs" and "20 + length (fr_filename r) \<le> metabufsize"
  shows "\<exists>b'. append_file_recipe_meta be b r = Inr b' \<and> meta_rep be b' (rs @ [r]) \<and> same_but_meta b b'"
proof -
  from assms(1) obtain buf hdr where m: "metabuf b = Some buf" "metabufoff b \<le> length buf" "length hdr = 28 + length (bv_path b)"
    "st_file (metadata_fp b) @ take (metabufoff b) buf = hdr @ concat (map (enc_meta be) rs)"
    "length hdr \<le> length (st_file (metadata_fp b))" "appending (metadata_fp b)" "bv_number_of_files b = int (length rs)"
    by (auto simp: meta_rep_def)
  let ?full = "4 + length (fr_filename r) + 8 + 8 > metabufsize - metabufoff b"
  define b1 where "b1 = (if ?full then b\<lparr>metadata_fp := fwrite (take (metabufoff b) buf) (metadata_fp b), metabufoff := 0\<rparr> else b)"
  have fl: "(if ?full then flush_metabuf b else Inr b) = Inr b1"
    using m by (simp add: b1_def flush_metabuf_def peek_def)
  have b1: "metabuf b1 = Some buf" "metabufoff b1 \<le> length buf" "appending (metadata_fp b1)"
    "length hdr \<le> length (st_file (metadata_fp b1))" "same_but_meta b b1" "bv_number_of_files b1 = int (length rs)"
    "st_file (metadata_fp b1) @ take (metabufoff b1) buf = hdr @ concat (map (enc_meta be) rs)"
    using m fwrite_append [OF m(6), of "take (metabufoff b) buf"] by (auto simp: b1_def same_but_meta_def)
  have "metabufoff b1 + (20 + length (fr_filename r)) \<le> metabufsize"
    using assms(2) by (auto simp: b1_def)
  then have "metabufoff b1 + length (enc_meta be r) \<le> metabufsize" by (simp add: enc_meta_def)
  from put_meta_4 [OF b1(1,2) this [unfolded enc_meta_def],
      of "\<lambda>b. Inr (b\<lparr>bv_number_of_files := bv_number_of_files b + 1\<rparr>)"]
  obtain buf' where
    "append_file_recipe_meta be b r = Inr (b1\<lparr>metabuf := Some buf', metabufoff := metabufoff b1 + length (enc_meta be r),
        bv_number_of_files := bv_number_of_files b1 + 1\<rparr>)"
    "metabufoff b1 + length (enc_meta be r) \<le> length buf'"
    "take (metabufoff b1 + length (enc_meta be r)) buf' = take (metabufoff b1) buf @ enc_meta be r"
    unfolding append_file_recipe_meta_def Let_def fl rbind_simps enc_meta_def by auto
  then show ?thesis
    using b1 m(3) by (auto simp: meta_rep_def same_but_meta_def intro!: exI [of _ hdr] simp flip: append_assoc)
qed

subsection \<open>Closing and reopening a version\<close>

lemma f_write_front:
  "length hdr' = length hdr \<Longrightarrow> f_write 0 hdr' (hdr @ rest) = hdr' @ rest"
  by (simp add: f_write_def)

lemma update_version_ok:
  assumes "meta_rep be b rs" and "rec_rep be b acc ids" and "list_all in64 ids"
  shows "\<exists>b'. update_backup_version be acc b = Inr (b', TEMPORARY_ID) \<and>
     st_file (metadata_fp b') = enc_header be b @ concat (map (enc_meta be) rs) \<and>
     st_file (record_fp b') = concat (map (enc_id be) (remdups_adj ids @ [TEMPORARY_ID])) \<and>
     recipe_fp b' = recipe_fp b"
proof -
  from assms(1) obtain buf hdr where m: "metabuf b = Some buf" "metabufoff b \<le> length buf" "length hdr = 28 + length (bv_path b)"
    "st_file (metadata_fp b) @ take (metabufoff b) buf = hdr @ concat (map (enc_meta be) rs)" "appending (metadata_fp b)"
    by (auto simp: meta_rep_def)
  from assms(2) obtain rb where r: "recordbuf b = Some rb" "recordbufoff b \<le> length rb" "appending (record_fp b)"
    "st_file (record_fp b) @ take (recordbufoff b) rb = concat (map (enc_id be) (butlast (remdups_adj ids)))"
    "acc = (if ids = [] then TEMPORARY_ID else List.last ids)" "TEMPORARY_ID \<notin> set ids"
    by (auto simp: rec_rep_def)
  define b1 where "b1 = (if metabufoff b > 0 then b\<lparr>metadata_fp := fwrite (take (metabufoff b) buf) (metadata_fp b), metabufoff := 0\<rparr> else b)"
  have 1: "(if metabuf b \<noteq> None \<and> metabufoff b > 0 then flush_metabuf b else Inr b) = Inr b1"
    using m by (simp add: b1_def flush_metabuf_def peek_def)
  have b1: "st_file (metadata_fp b1) = hdr @ concat (map (enc_meta be) rs)" "st_writable (metadata_fp b1)"
    "enc_header be b1 = enc_header be b" "bv_path b1 = bv_path b" "recipe_fp b1 = recipe_fp b"
    "record_fp b1 = record_fp b" "recordbuf b1 = recordbuf b" "recordbufoff b1 = recordbufoff b"
    using m fwrite_append [OF m(5), of "take (metabufoff b) buf"]
    by (auto simp: b1_def enc_header_def appending_def)
  define b2 where "b2 = b1\<lparr>metadata_fp := write_version_header be b1 (metadata_fp b1)\<rparr>"
  have b2: "st_file (metadata_fp b2) = enc_header be b @ concat (map (enc_meta be) rs)" "recipe_fp b2 = recipe_fp b"
    "record_fp b2 = record_fp b" "recordbuf b2 = recordbuf b" "recordbufoff b2 = recordbufoff b"
    using b1 m(3) by (simp_all add: b2_def header_bytes fwrite_def f_write_front length_header)
  define b3 where "b3 = (if recordbufoff b > 0 then b2\<lparr>record_fp := fwrite (take (recordbufoff b) rb) (record_fp b2), recordbufoff := 0\<rparr> else b2)"
  have 3: "(if recordbuf b2 \<noteq> None \<and> recordbufoff b2 > 0 then flush_recordbuf b2 else Inr b2) = Inr b3"
    using b2 r by (simp add: b3_def flush_recordbuf_def peek_def)
  have b3: "st_file (record_fp b3) = concat (map (enc_id be) (butlast (remdups_adj ids)))" "appending (record_fp b3)"
    "metadata_fp b3 = metadata_fp b2" "recipe_fp b3 = recipe_fp b"
    using b2 r fwrite_append [OF r(3), of "take (recordbufoff b) rb"] by (auto simp: b3_def)
  define b4 where "b4 = (if acc \<noteq> TEMPORARY_ID then b3\<lparr>record_fp := fwrite_int64 be acc (record_fp b3)\<rparr> else b3)"
  have nl: "List.last ids \<noteq> TEMPORARY_ID" if "ids \<noteq> []"
    using r(6) last_in_set [OF that] by metis
  have "butlast (remdups_adj ids) @ [List.last ids] = remdups_adj ids" if "ids \<noteq> []"
    using that by (metis append_butlast_last_id last_remdups_adj remdups_adj_Nil_iff)
  then have cat: "concat (map (enc_id be) (butlast (remdups_adj ids))) @ enc_id be (List.last ids) =
      concat (map (enc_id be) (remdups_adj ids))" if "ids \<noteq> []"
    using that by (metis concat_append concat.simps append_Nil2 list.simps(8,9) map_append)
  have b4: "st_file (record_fp b4) = concat (map (enc_id be) (remdups_adj ids))" "appending (record_fp b4)"
    using b3 nl cat r(5) fwrite_append [OF b3(2), of "enc_id be acc"]
    by (cases "ids = []"; simp add: b4_def fwrite_int64_def enc_id_def)+
  have 5: "update_backup_version be acc b = Inr (b4\<lparr>record_fp := fwrite_int64 be TEMPORARY_ID (record_fp b4)\<rparr>, TEMPORARY_ID)"
    unfolding update_backup_version_def 1 rbind_simps Let_def b2_def [symmetric] 3 b4_def [symmetric] ..
  have "metadata_fp b4 = metadata_fp b2 \<and> recipe_fp b4 = recipe_fp b" using b3 by (simp add: b4_def)
  then show ?thesis
    unfolding 5 using b2 b4 fwrite_append [OF b4(2), of "enc_id be TEMPORARY_ID"]
    by (simp add: fwrite_int64_def enc_id_def)
qed

text \<open>A version opened for reading: its header, and the entries in order.\<close>

lemma open_version_ok:
  assumes "dir num = Some (enc_header be b @ rest, rf, cf)" and "bv_num b = num"
    and "in32 num" "in32 (bv_deleted b)" "in64 (bv_number_of_files b)" "in64 (bv_number_of_chunks b)"
      "in32 (int (length (bv_path b)))" "0 \<notin> set (bv_path b)"
  shows "\<exists>b'. open_backup_version be junk dir num = Inr b' \<and> bv_path b' = bv_path b \<and> bv_num b' = num \<and>
     bv_deleted b' = bv_deleted b \<and> bv_number_of_files b' = bv_number_of_files b \<and>
     bv_number_of_chunks b' = bv_number_of_chunks b \<and> srest (metadata_fp b') = rest \<and> swf (metadata_fp b') \<and>
     metabuf b' = None \<and> recordbuf b' = None \<and> \<not> st_writable (metadata_fp b') \<and>
     recipe_fp b' = \<lparr>st_file = rf, st_pos = 0, st_writable = False\<rparr> \<and>
     record_fp b' = \<lparr>st_file = cf, st_pos = 0, st_writable = False\<rparr>"
proof -
  let ?s = "\<lparr>st_file = enc_header be b @ rest, st_pos = 0, st_writable = False\<rparr>"
  have wr: "\<not> st_writable (snd (fread n s))" if "\<not> st_writable s" for n s
    using that by (simp add: fread_def)
  have wr32: "\<not> st_writable (snd (fread_int32 be old s))" and wr64: "\<not> st_writable (snd (fread_int64 be old s))"
    if "\<not> st_writable s" for old s
    using that by (simp_all add: fread_int32_def fread_int64_def fread_def Let_def)
  have h: "srest ?s = host_bytes be 4 (i32 (bv_num b)) @ host_bytes be 4 (i32 (bv_deleted b)) @
     host_bytes be 8 (i64 (bv_number_of_files b)) @ host_bytes be 8 (i64 (bv_number_of_chunks b)) @
     host_bytes be 4 (i32 (int (length (bv_path b)))) @ bv_path b @ rest" "swf ?s"
    by (simp_all add: srest_def swf_def enc_header_def)
  from fread_int32_rest [OF h] assms(2,3) obtain s1 where 1: "fread_int32 be junk ?s = (num, s1)" "swf s1"
    "srest s1 = host_bytes be 4 (i32 (bv_deleted b)) @ host_bytes be 8 (i64 (bv_number_of_files b)) @
     host_bytes be 8 (i64 (bv_number_of_chunks b)) @ host_bytes be 4 (i32 (int (length (bv_path b)))) @ bv_path b @ rest"
    by blast
  from fread_int32_rest [OF 1(3,2) assms(4), of junk] obtain s2 where 2: "fread_int32 be junk s1 = (bv_deleted b, s2)" "swf s2"
    "srest s2 = host_bytes be 8 (i64 (bv_number_of_files b)) @
     host_bytes be 8 (i64 (bv_number_of_chunks b)) @ host_bytes be 4 (i32 (int (length (bv_path b)))) @ bv_path b @ rest"
    by blast
  from fread_int64_rest [OF 2(3,2) assms(5), of junk] obtain s3 where 3: "fread_int64 be junk s2 = (bv_number_of_files b, s3)" "swf s3"
    "srest s3 = host_bytes be 8 (i64 (bv_number_of_chunks b)) @ host_bytes be 4 (i32 (int (length (bv_path b)))) @ bv_path b @ rest"
    by blast
  from fread_int64_rest [OF 3(3,2) assms(6), of junk] obtain s4 where 4: "fread_int64 be junk s3 = (bv_number_of_chunks b, s4)" "swf s4"
    "srest s4 = host_bytes be 4 (i32 (int (length (bv_path b)))) @ bv_path b @ rest" by blast
  from fread_int32_rest [OF 4(3,2) assms(7), of junk] obtain s5 where 5: "fread_int32 be junk s4 = (int (length (bv_path b)), s5)" "swf s5"
    "srest s5 = bv_path b @ rest" by blast
  from fread_rest [OF 5(3,2) refl] obtain s6 where 6: "fread (length (bv_path b)) s5 = (Some (bv_path b), s6)" "swf s6" "srest s6 = rest"
    by blast
  have "\<not> st_writable s6"
    using wr32 [of ?s junk] wr32 [of s1 junk] wr64 [of s2 junk] wr64 [of s3 junk] wr32 [of s4 junk]
      wr [of s5 "length (bv_path b)"] 1(1) 2(1) 3(1) 4(1) 5(1) 6(1) by simp
  moreover have "takeWhile (\<lambda>c. c \<noteq> 0) (bv_path b) = bv_path b"
    using assms(8) by (auto simp: takeWhile_eq_all_conv)
  ultimately show ?thesis
    using assms(1,2) 1 2 3 4 5 6 by (simp add: open_backup_version_def backup_version_exists_def)
qed

text \<open>A version opened from disk cannot be changed: \<open>update_backup_version\<close> after setting \<open>deleted\<close>, as
  the delete job does, reports success and leaves the metadata file as it was, since the file was opened for reading.\<close>

lemma opened_readonly:
  assumes "open_backup_version be junk dir num = Inr b"
  shows "metabuf b = None" "recordbuf b = None" "\<not> st_writable (metadata_fp b)"
proof -
  have ro: "st_file (snd (fread n s)) = st_file s" "st_writable (snd (fread n s)) = st_writable s" for n s
    by (simp_all add: fread_def)
  from assms show "metabuf b = None" "recordbuf b = None" "\<not> st_writable (metadata_fp b)"
    by (auto simp: open_backup_version_def Let_def rbind_Inr_iff fread_int32_def fread_int64_def fread_def
        split: if_splits option.splits prod.splits)
qed

lemma update_readonly:
  assumes "metabuf b = None" "recordbuf b = None" "\<not> st_writable (metadata_fp b)"
  shows "\<exists>b'. update_backup_version be acc b = Inr (b', TEMPORARY_ID) \<and> st_file (metadata_fp b') = st_file (metadata_fp b)"
  using assms by (simp add: update_backup_version_def Let_def header_bytes fwrite_def)

lemma opens_empty_version:
  "\<exists>b. open_backup_version False 0 [0 \<mapsto> (replicate 28 0, [], [])] 0 = Inr b"
proof -
  let ?b = "\<lparr>bv_path = [], bv_num = 0, bv_deleted = 0, bv_number_of_files = 0, bv_number_of_chunks = 0,
    metadata_fp = undefined, recipe_fp = undefined, record_fp = undefined, metabuf = None, metabufoff = 0,
    recordbuf = None, recordbufoff = 0, segmentbuf = None, segmentlen = 0, segmentbufoff = 0\<rparr>"
  have z: "enc_header False ?b = replicate 28 0"
    by (simp add: enc_header_def host_bytes_def i32_def i64_def eval_nat_numeral)
  from open_version_ok [of "[0 \<mapsto> (replicate 28 0, [], [])]" 0 False ?b "[]" "[]" "[]" 0] show ?thesis
    by (auto simp: z in32_def in64_def)
qed

lemma read_next_meta_ok:
  assumes "srest (metadata_fp b) = enc_meta be r @ rest" and "swf (metadata_fp b)" and "k \<le> bv_number_of_files b"
    and "in32 (int (length (fr_filename r)))" "0 \<notin> set (fr_filename r)" "in64 (fr_chunknum r)" "in64 (fr_filesize r)"
  shows "\<exists>b'. read_next_file_recipe_meta be junk k b = Inr (r, b', k + 1) \<and>
     srest (metadata_fp b') = rest \<and> swf (metadata_fp b') \<and> bv_number_of_files b' = bv_number_of_files b"
proof -
  let ?n = "length (fr_filename r)"
  have h: "srest (metadata_fp b) = host_bytes be 4 (i32 (int ?n)) @ fr_filename r @
     host_bytes be 8 (i64 (fr_chunknum r)) @ host_bytes be 8 (i64 (fr_filesize r)) @ rest"
    using assms(1) by (simp add: enc_meta_def)
  from fread_int32_rest [OF h assms(2,4), of junk] obtain s1 where 1: "fread_int32 be junk (metadata_fp b) = (int ?n, s1)" "swf s1"
    "srest s1 = fr_filename r @ host_bytes be 8 (i64 (fr_chunknum r)) @ host_bytes be 8 (i64 (fr_filesize r)) @ rest"
    by blast
  from fread_rest [OF 1(3,2) refl] obtain s2 where 2: "fread ?n s1 = (Some (fr_filename r), s2)" "swf s2"
    "srest s2 = host_bytes be 8 (i64 (fr_chunknum r)) @ host_bytes be 8 (i64 (fr_filesize r)) @ rest" by blast
  from fread_int64_rest [OF 2(3,2) assms(6), of 0] obtain s3 where 3: "fread_int64 be 0 s2 = (fr_chunknum r, s3)" "swf s3"
    "srest s3 = host_bytes be 8 (i64 (fr_filesize r)) @ rest" by blast
  from fread_int64_rest [OF 3(3,2) assms(7), of 0] obtain s4 where 4: "fread_int64 be 0 s3 = (fr_filesize r, s4)" "swf s4"
    "srest s4 = rest" by blast
  have "takeWhile (\<lambda>c. c \<noteq> 0) (fr_filename r) = fr_filename r"
    using assms(5) by (auto simp: takeWhile_eq_all_conv)
  with 1 2 3 4 assms(3) show ?thesis
    by (simp add: read_next_file_recipe_meta_def new_file_recipe_meta_def)
qed

fun read_metas :: "bool \<Rightarrow> int \<Rightarrow> nat \<Rightarrow> int \<Rightarrow> backupVersion \<Rightarrow> fileRecipeMeta list res" where
  "read_metas be junk 0 k b = Inr []"
| "read_metas be junk (Suc n) k b =
     rbind (read_next_file_recipe_meta be junk k b) (\<lambda>(r, b, k).
     rbind (read_metas be junk n k b) (\<lambda>rs. Inr (r # rs)))"

definition fr_ok :: "fileRecipeMeta \<Rightarrow> bool" where
  "fr_ok r \<longleftrightarrow> 20 + length (fr_filename r) \<le> metabufsize \<and> 0 \<notin> set (fr_filename r) \<and>
     in64 (fr_chunknum r) \<and> in64 (fr_filesize r)"

lemma read_metas_ok:
  assumes "srest (metadata_fp b) = concat (map (enc_meta be) rs) @ rest" and "swf (metadata_fp b)"
    and "k + int (length rs) \<le> bv_number_of_files b" and "list_all fr_ok rs"
  shows "read_metas be junk (length rs) k b = Inr rs"
  using assms
proof (induction rs arbitrary: b k)
  case (Cons r rs)
  then have r: "in32 (int (length (fr_filename r)))" "0 \<notin> set (fr_filename r)" "in64 (fr_chunknum r)" "in64 (fr_filesize r)"
    by (auto simp: fr_ok_def in32_def metabufsize_def)
  have "srest (metadata_fp b) = enc_meta be r @ concat (map (enc_meta be) rs) @ rest" "k \<le> bv_number_of_files b"
    using Cons.prems(1,3) by simp_all
  from read_next_meta_ok [OF this(1) Cons.prems(2) this(2) r, of junk] obtain b' where
    1: "read_next_file_recipe_meta be junk k b = Inr (r, b', k + 1)" "srest (metadata_fp b') = concat (map (enc_meta be) rs) @ rest"
       "swf (metadata_fp b')" "bv_number_of_files b' = bv_number_of_files b" by blast
  from Cons.IH [OF 1(2,3), of "k + 1"] Cons.prems(3,4) 1 show ?case by simp
qed simp

subsection \<open>Properties\<close>

text \<open>C37: a segment id built from a version number below $2^{15}$, an offset below $2^{32}$ and a size below
  $2^{16}$ gives the three back, and is never \<open>TEMPORARY_ID\<close>.\<close>

theorem segment_id_roundtrip:
  assumes "0 \<le> bid" "bid < 2 ^ 15" "0 \<le> off" "off < 2 ^ 32" "0 \<le> sz" "sz < 2 ^ 16"
  shows "id_to_bnum (make_segment_id bid off sz) = bid \<and> id_to_off (make_segment_id bid off sz) = off \<and>
    id_to_size (make_segment_id bid off sz) = sz \<and> make_segment_id bid off sz \<noteq> TEMPORARY_ID"
  using segment_id_fields [OF assms] by simp

theorem segment_id_roundtrip_witness:
  "id_to_bnum (make_segment_id 32767 4294967295 65535) = 32767 \<and> id_to_off (make_segment_id 32767 4294967295 65535) = 4294967295 \<and>
    id_to_size (make_segment_id 32767 4294967295 65535) = 65535 \<and> make_segment_id 32767 4294967295 65535 \<noteq> TEMPORARY_ID"
  by (rule segment_id_roundtrip) simp_all

end
