(* ===== verification/Kvstore.thy ===== *)
theory Kvstore
  imports Streams
begin

text \<open>
  The key-vals store of \<open>index/kvstore_htable.c\<close>, which maps a feature (the first
  \<open>index_key_size\<close> bytes of a fingerprint) to the latest \<open>index_value_length\<close> ids of the
  containers or segments that hold it, and the dump file \<open>index/htable\<close>. A \<open>kvpair\<close> is a
  key with its list of values. The two configuration fields are the arguments \<open>ks\<close> and \<open>vl\<close>.
\<close>

type_synonym kvtable = "(byte list, int list) htable"

definition g_feature_equal :: "nat \<Rightarrow> byte list \<Rightarrow> byte list \<Rightarrow> bool" where
  "g_feature_equal ks a b \<longleftrightarrow> memcmp (take ks a) (take ks b) = 0"

definition new_kvpair_full :: "nat \<Rightarrow> nat \<Rightarrow> byte list \<Rightarrow> byte list \<times> int list" where
  "new_kvpair_full ks vl key = (take ks key, replicate vl TEMPORARY_ID)"

definition new_kvpair :: "byte list \<Rightarrow> nat \<Rightarrow> byte list \<times> int list" where
  "new_kvpair junk vl = (junk, replicate vl TEMPORARY_ID)"

definition kv_update :: "nat \<Rightarrow> int list \<Rightarrow> int \<Rightarrow> int list res" where
  "kv_update vl vals i = (if vl = 0 then Inl OutOfBounds else Inr (i # take (vl - 1) vals))"

definition kvstore_htable_lookup :: "nat \<Rightarrow> kvtable \<Rightarrow> byte list \<Rightarrow> int list option" where
  "kvstore_htable_lookup ks t key = map_of t (take ks key)"

definition kvstore_htable_update :: "nat \<Rightarrow> nat \<Rightarrow> byte list \<Rightarrow> int \<Rightarrow> kvtable \<Rightarrow> kvtable res" where
  "kvstore_htable_update ks vl key i t =
     (let (k, vals) = (case map_of t (take ks key) of
            None \<Rightarrow> new_kvpair_full ks vl key
          | Some vals \<Rightarrow> (take ks key, vals))
      in rbind (kv_update vl vals i) (\<lambda>vals. Inr (AList.update k vals t)))"

text \<open>The search for \<open>i\<close> in the values; after the assertion the shift never happens.\<close>

fun kv_delete :: "int list \<Rightarrow> int \<Rightarrow> int list res" where
  "kv_delete [] i = Inr []"
| "kv_delete (v # vs) i =
     (if v = i then
        rbind (c_assert (vs = [] \<or> hd vs = TEMPORARY_ID)) (\<lambda>_.
          if vs \<noteq> [] \<and> hd vs \<noteq> TEMPORARY_ID then Inr (vs @ [List.last vs]) else Inr (TEMPORARY_ID # vs))
      else rbind (kv_delete vs i) (\<lambda>vs. Inr (v # vs)))"

definition kvstore_htable_delete :: "nat \<Rightarrow> byte list \<Rightarrow> int \<Rightarrow> kvtable \<Rightarrow> kvtable res" where
  "kvstore_htable_delete ks key i t =
     (case map_of t (take ks key) of
        None \<Rightarrow> Inr t
      | Some vals \<Rightarrow>
          rbind (kv_delete vals i) (\<lambda>vals.
            if vals = [] then Inl OutOfBounds
            else if hd vals = TEMPORARY_ID then Inr (AList.delete (take ks key) t)
            else Inr (AList.update (take ks key) vals t)))"

subsection \<open>The dump file\<close>

definition close_kvstore_htable :: "bool \<Rightarrow> (kvtable \<Rightarrow> (byte list \<times> int list) list) \<Rightarrow> nat \<Rightarrow> nat \<Rightarrow> kvtable \<Rightarrow> byte list \<times> int" where
  "close_kvstore_htable be iter ks vl t =
     (let s0 = fwrite_int32 be (int (length t)) \<lparr>st_file = [], st_pos = 0, st_writable = True\<rparr>;
          s = fold (\<lambda>(k, vals) s.
                let s = fwrite k s; s = fwrite_int32 be (int vl) s
                in fold (fwrite_int64 be) (take vl vals) s) (iter t) s0
      in (st_file s, int (length t) * (int ks + 8 * int vl + 4)))"

fun load_ids :: "bool \<Rightarrow> nat \<Rightarrow> nat \<Rightarrow> int list \<Rightarrow> stream \<Rightarrow> int list \<times> stream" where
  "load_ids be 0 j vals s = (vals, s)"
| "load_ids be (Suc n) j vals s =
     (let (i, s) = fread_int64 be (vals ! j) s in load_ids be n (j + 1) (vals[j := i]) s)"

fun load_pairs :: "bool \<Rightarrow> byte list \<Rightarrow> int \<Rightarrow> nat \<Rightarrow> nat \<Rightarrow> nat \<Rightarrow> stream \<Rightarrow> kvtable \<Rightarrow> kvtable res" where
  "load_pairs be junk junki ks vl 0 s t = Inr t"
| "load_pairs be junk junki ks vl (Suc n) s t =
     (let (k, vals) = new_kvpair junk vl;
          (kb, s) = fread ks s; k = (case kb of None \<Rightarrow> k | Some kb \<Rightarrow> kb);
          (id_num, s) = fread_int32 be junki s
      in rbind (c_assert (id_num \<le> int vl)) (\<lambda>_.
         let (vals, s) = load_ids be (nat id_num) 0 vals s
         in load_pairs be junk junki ks vl n s (AList.update k vals t)))"

definition init_kvstore_htable :: "bool \<Rightarrow> byte list \<Rightarrow> int \<Rightarrow> nat \<Rightarrow> nat \<Rightarrow> byte list option \<Rightarrow> kvtable res" where
  "init_kvstore_htable be junk junki ks vl f =
     (case f of
        None \<Rightarrow> Inr []
      | Some bs \<Rightarrow>
          let (key_num, s) = fread_int32 be junki \<lparr>st_file = bs, st_pos = 0, st_writable = False\<rparr>
          in load_pairs be junk junki ks vl (nat key_num) s [])"

subsection \<open>Well-formed tables\<close>

definition kv_ok :: "nat \<Rightarrow> nat \<Rightarrow> kvtable \<Rightarrow> bool" where
  "kv_ok ks vl t \<longleftrightarrow> distinct (map fst t) \<and> list_all (\<lambda>(k, vals). length vals = vl \<and> length k = ks \<and> list_all in64 vals) t"

lemma kv_ok_entry:
  assumes "kv_ok ks vl t" and "map_of t k = Some vals"
  shows "length vals = vl" "length k = ks" "list_all in64 vals"
  using assms by (auto simp: kv_ok_def list_all_iff dest!: map_of_SomeD)

lemma list_all_update:
  "list_all P t \<Longrightarrow> P (k, v) \<Longrightarrow> list_all P (AList.update k v t)"
  by (induction t) auto

lemma kv_ok_set:
  "kv_ok ks vl t \<Longrightarrow> length k = ks \<Longrightarrow> length vals = vl \<Longrightarrow> list_all in64 vals \<Longrightarrow> kv_ok ks vl (AList.update k vals t)"
  by (simp add: kv_ok_def distinct_update list_all_update)

lemma kv_ok_delete: "kv_ok ks vl t \<Longrightarrow> kv_ok ks vl (AList.delete k t)"
  by (auto simp: kv_ok_def distinct_map_filter list_all_iff AList.delete_eq)

lemma in64_TEMP: "in64 TEMPORARY_ID"
  by (simp add: in64_def TEMPORARY_ID_def)

lemma update_ok:
  assumes "kv_ok ks vl t" and "0 < vl" and "ks \<le> length key" and "in64 i"
  shows "\<exists>t'. kvstore_htable_update ks vl key i t = Inr t' \<and> kv_ok ks vl t' \<and>
     map_of t' = (map_of t)(take ks key \<mapsto>
       i # take (vl - 1) (case map_of t (take ks key) of None \<Rightarrow> replicate vl TEMPORARY_ID | Some v \<Rightarrow> v))"
proof (cases "map_of t (take ks key)")
  case None
  have "kv_ok ks vl (AList.update (take ks key) (i # take (vl - 1) (replicate vl TEMPORARY_ID)) t)"
    using assms by (intro kv_ok_set) (auto simp: list_all_iff in64_TEMP)
  with None assms(2) show ?thesis
    by (simp add: kvstore_htable_update_def new_kvpair_full_def kv_update_def update_conv')
next
  case (Some vals)
  have "kv_ok ks vl (AList.update (take ks key) (i # take (vl - 1) vals) t)"
    using assms kv_ok_entry [OF assms(1) Some]
    by (intro kv_ok_set) (auto simp: list_all_iff dest: in_set_takeD)
  with Some assms(2) show ?thesis
    by (simp add: kvstore_htable_update_def kv_update_def update_conv')
qed

text \<open>The specification: a key's values are the ids it was updated with, latest first, cut to
  \<open>vl\<close> and filled up with \<open>TEMPORARY_ID\<close>.\<close>

fun history :: "nat \<Rightarrow> byte list \<Rightarrow> (byte list \<times> int) list \<Rightarrow> int list" where
  "history ks k [] = []"
| "history ks k ((key, i) # us) = (if take ks key = k then i # history ks k us else history ks k us)"

definition kv_spec :: "nat \<Rightarrow> nat \<Rightarrow> (byte list \<times> int) list \<Rightarrow> byte list \<Rightarrow> int list option" where
  "kv_spec ks vl us k =
     (let h = rev (history ks k us) in
      if h = [] then None else Some (take vl (h @ replicate vl TEMPORARY_ID)))"

lemma history_append: "history ks k (us @ vs) = history ks k us @ history ks k vs"
  by (induction us rule: history.induct) auto

lemma take_shift: "0 < vl \<Longrightarrow> take vl (x # take vl ys @ zs) = take vl (x # ys @ zs)" if "vl \<le> length ys"
  using that by (cases vl) auto

lemma kv_spec_step:
  assumes "0 < vl"
  shows "kv_spec ks vl (us @ [(key, i)]) (take ks key) =
    Some (i # take (vl - 1) (case kv_spec ks vl us (take ks key) of None \<Rightarrow> replicate vl TEMPORARY_ID | Some v \<Rightarrow> v))"
proof -
  obtain n where n: "vl = Suc n" using assms by (cases vl) auto
  show ?thesis
    by (auto simp: kv_spec_def Let_def history_append n min_def take_Cons' replicate_append_same)
qed

text \<open>What \<open>kvstore.h\<close> offers to the index: pointers to the operations of a table whose entries keep the last \<open>vl\<close> values of
  a key. \<open>abs\<close> is what the table stands for.\<close>

locale kv_store =
  fixes ks vl :: nat
    and put :: "byte list \<Rightarrow> int \<Rightarrow> 't \<Rightarrow> 't res"
    and get :: "'t \<Rightarrow> byte list \<Rightarrow> int list option"
    and abs :: "'t \<Rightarrow> byte list \<rightharpoonup> int list"
    and ok :: "'t \<Rightarrow> bool"
    and new :: 't
  assumes room: "0 < vl"
    and new_ok: "ok new \<and> abs new = Map.empty"
    and get_abs: "ok t \<Longrightarrow> get t key = abs t (take ks key)"
    and put_abs: "ok t \<Longrightarrow> ks \<le> length key \<Longrightarrow> in64 i \<Longrightarrow> \<exists>t'. put key i t = Inr t' \<and> ok t' \<and>
      abs t' = (abs t)(take ks key \<mapsto> i # take (vl - 1) (case abs t (take ks key) of None \<Rightarrow> replicate vl TEMPORARY_ID | Some v \<Rightarrow> v))"

context kv_store
begin

lemma get_after_put:
  assumes "ok t" and "ks \<le> length key" and "in64 i"
  shows "\<exists>t' vals. put key i t = Inr t' \<and> get t' key = Some (i # vals) \<and>
    (\<forall>key'. take ks key' \<noteq> take ks key \<longrightarrow> get t' key' = get t key')"
  using put_abs [OF assms] get_abs assms(1) by fastforce

lemma puts_spec:
  assumes "\<forall>(key, i)\<in>set us. ks \<le> length key \<and> in64 i"
  shows "\<exists>t. rfold (\<lambda>(key, i). put key i) us new = Inr t \<and> ok t \<and> abs t = kv_spec ks vl us"
  using assms
proof (induction us rule: rev_induct)
  case Nil
  show ?case using new_ok by (auto simp: kv_spec_def)
next
  case (snoc u us)
  obtain key i where u: "u = (key, i)" by (cases u)
  from snoc obtain t where t: "rfold (\<lambda>(key, i). put key i) us new = Inr t" "ok t" "abs t = kv_spec ks vl us" by auto
  have "ks \<le> length key" "in64 i" using snoc.prems by (auto simp: u)
  from put_abs [OF t(2) this] obtain t' where
    1: "put key i t = Inr t'" "ok t'" and
    m: "abs t' = (abs t)(take ks key \<mapsto> i # take (vl - 1) (case abs t (take ks key) of None \<Rightarrow> replicate vl TEMPORARY_ID | Some v \<Rightarrow> v))"
    by blast
  have "abs t' k = kv_spec ks vl (us @ [u]) k" for k
  proof (cases "k = take ks key")
    case True
    with m t(3) kv_spec_step [OF room] show ?thesis by (simp add: u)
  next
    case False
    with m t(3) show ?thesis by (simp add: u kv_spec_def history_append)
  qed
  then have "abs t' = kv_spec ks vl (us @ [u])" by blast
  with t(1) 1 show ?case by (simp add: rfold_append u)
qed

end

interpretation kv_table: kv_store ks "Suc n" "kvstore_htable_update ks (Suc n)" "kvstore_htable_lookup ks" map_of "kv_ok ks (Suc n)" "[]"
proof
  show "kv_ok ks (Suc n) [] \<and> map_of [] = Map.empty" by (simp add: kv_ok_def)
  show "\<exists>t'. kvstore_htable_update ks (Suc n) key i t = Inr t' \<and> kv_ok ks (Suc n) t' \<and> map_of t' = (map_of t)(take ks key \<mapsto>
      i # take (Suc n - 1) (case map_of t (take ks key) of None \<Rightarrow> replicate (Suc n) TEMPORARY_ID | Some v \<Rightarrow> v))"
    if "kv_ok ks (Suc n) t" "ks \<le> length key" "in64 i" for t key i
    using update_ok [OF that(1) _ that(2,3)] by simp
qed (simp_all add: kvstore_htable_lookup_def)

text \<open>C27: any sequence of updates of an empty table succeeds, and afterwards a key maps to the values it was given, newest first, cut to the value length and filled up with \<open>TEMPORARY_ID\<close>.\<close>

lemma updates_spec:
  assumes "0 < vl" and "\<forall>(key, i)\<in>set us. ks \<le> length key \<and> in64 i"
  shows "\<exists>t. rfold (\<lambda>(key, i). kvstore_htable_update ks vl key i) us [] = Inr t \<and> kv_ok ks vl t \<and>
     map_of t = kv_spec ks vl us"
proof -
  obtain n where "vl = Suc n" using assms(1) by (cases vl) auto
  with kv_table.puts_spec [OF assms(2), of n] show ?thesis by simp
qed

theorem updates_spec_witness:
  "\<exists>t. rfold (\<lambda>(key, i). kvstore_htable_update 2 2 key i) [([1, 2, 3], 5), ([1, 2, 4], 6), ([9, 9], 7), ([1, 2], 8)] [] = Inr t \<and>
     kv_ok 2 2 t \<and> map_of t = kv_spec 2 2 [([1, 2, 3], 5), ([1, 2, 4], 6), ([9, 9], 7), ([1, 2], 8)]"
  by (rule updates_spec) (simp_all add: in64_def)

subsection \<open>Deletion of the oldest id\<close>

lemma kv_delete_oldest:
  "i \<notin> set newer \<Longrightarrow> kv_delete (newer @ i # replicate k TEMPORARY_ID) i = Inr (newer @ replicate (Suc k) TEMPORARY_ID)"
  by (induction newer) (cases k, auto simp: rbind_assert)

text \<open>Deleting the oldest value of a full or partly filled entry removes exactly that value, and the whole entry when it was the only one.\<close>

lemma delete_oldest:
  assumes "kv_ok ks vl t" and "map_of t (take ks key) = Some (newer @ i # replicate k TEMPORARY_ID)"
    and "i \<notin> set newer" and "TEMPORARY_ID \<notin> set newer"
  shows "\<exists>t'. kvstore_htable_delete ks key i t = Inr t' \<and> kv_ok ks vl t' \<and>
     map_of t' = (map_of t)(take ks key := (if newer = [] then None else Some (newer @ replicate (Suc k) TEMPORARY_ID)))"
proof (cases newer)
  case Nil
  with assms kv_delete_oldest [OF assms(3), of k] kv_ok_delete [OF assms(1)] show ?thesis
    by (simp add: kvstore_htable_delete_def delete_conv')
next
  case (Cons n ns)
  have "kv_ok ks vl (AList.update (take ks key) (newer @ replicate (Suc k) TEMPORARY_ID) t)"
    using kv_ok_entry [OF assms(1,2)]
    by (intro kv_ok_set [OF assms(1)]) (auto simp: list_all_iff in64_TEMP)
  moreover have "n \<noteq> TEMPORARY_ID" using assms(4) Cons by auto
  ultimately show ?thesis
    using Cons assms(2) kv_delete_oldest [OF assms(3), of k]
    by (simp add: kvstore_htable_delete_def update_conv')
qed

theorem delete_oldest_witness:
  "\<exists>t'. kvstore_htable_delete 2 [1, 2, 3] 5 [([1, 2], [6, 5, -1])] = Inr t' \<and> kv_ok 2 3 t' \<and>
     map_of t' = (map_of [([1, 2], [6, 5, -1])])(take 2 [1, 2, 3] := Some ([6] @ replicate (Suc 1) TEMPORARY_ID))"
  using delete_oldest [of 2 3 "[([1, 2], [6, 5, -1])]" "[1, 2, 3]" "[6]" 5 1]
  by (simp add: kv_ok_def in64_def TEMPORARY_ID_def)

subsection \<open>Round trip of the dump\<close>

definition enc_pair :: "bool \<Rightarrow> nat \<Rightarrow> byte list \<times> int list \<Rightarrow> byte list" where
  "enc_pair be vl e = fst e @ host_bytes be 4 (i32 (int vl)) @ concat (map (\<lambda>i. host_bytes be 8 (i64 i)) (snd e))"

lemma fold_fwrite:
  assumes "\<And>x s. appending s \<Longrightarrow> x \<in> set xs \<Longrightarrow> appending (f x s) \<and> st_file (f x s) = st_file s @ g x" and "appending s"
  shows "appending (fold f xs s) \<and> st_file (fold f xs s) = st_file s @ concat (map g xs)"
  using assms by (induction xs arbitrary: s) auto

lemma dump_file:
  assumes "kv_ok ks vl t" and "iter_ok iter"
  shows "fst (close_kvstore_htable be iter ks vl t) =
     host_bytes be 4 (i32 (int (length t))) @ concat (map (enc_pair be vl) (iter t))"
proof -
  let ?s = "\<lparr>st_file = [], st_pos = 0, st_writable = True\<rparr>"
  let ?f = "\<lambda>(k, vals) s. let s = fwrite k s; s = fwrite_int32 be (int vl) s in fold (fwrite_int64 be) (take vl vals) s"
  have "appending ?s" by (simp add: appending_def)
  then have s0: "appending (fwrite_int32 be (int (length t)) ?s)"
    "st_file (fwrite_int32 be (int (length t)) ?s) = host_bytes be 4 (i32 (int (length t)))"
    using fwrite_append [of ?s] by (simp_all add: fwrite_int32_def)
  have "appending (?f e s) \<and> st_file (?f e s) = st_file s @ enc_pair be vl e" if "appending s" "e \<in> set (iter t)" for e s
  proof -
    obtain k vals where e: "e = (k, vals)" by (cases e)
    have "e \<in> set t" using that(2) iter_ok_set [OF assms(2)] by simp
    then have len: "length vals = vl" using assms(1) by (auto simp: kv_ok_def list_all_iff e)
    let ?s2 = "fwrite_int32 be (int vl) (fwrite k s)"
    have s2: "appending ?s2 \<and> st_file ?s2 = (st_file s @ k) @ host_bytes be 4 (i32 (int vl))"
      using fwrite_append [OF that(1), of k] fwrite_append [of "fwrite k s"] by (simp add: fwrite_int32_def)
    then show ?thesis
      using fold_fwrite [of vals "fwrite_int64 be" "\<lambda>i. host_bytes be 8 (i64 i)" ?s2] fwrite_append
      by (simp add: e len enc_pair_def fwrite_int64_def)
  qed
  then have "st_file (fold ?f (iter t) (fwrite_int32 be (int (length t)) ?s)) =
      st_file (fwrite_int32 be (int (length t)) ?s) @ concat (map (enc_pair be vl) (iter t))"
    using fold_fwrite [of "iter t" ?f "enc_pair be vl", OF _ s0(1)] by blast
  with s0(2) show ?thesis by (simp add: close_kvstore_htable_def Let_def)
qed

lemma load_ids_rest:
  assumes "srest s = concat (map (\<lambda>i. host_bytes be 8 (i64 i)) is) @ r" and "swf s" and "list_all in64 is"
    and "length vals = j + length is"
  shows "\<exists>s'. load_ids be (length is) j vals s = (take j vals @ is, s') \<and> srest s' = r \<and> swf s'"
  using assms
proof (induction "is" arbitrary: j vals s)
  case (Cons i "is")
  have "srest s = host_bytes be 8 (i64 i) @ concat (map (\<lambda>i. host_bytes be 8 (i64 i)) is) @ r" "in64 i"
    using Cons.prems(1,3) by simp_all
  from fread_int64_rest [OF this(1) Cons.prems(2) this(2), of "vals ! j"] obtain s1 where
    1: "fread_int64 be (vals ! j) s = (i, s1)" "srest s1 = concat (map (\<lambda>i. host_bytes be 8 (i64 i)) is) @ r" "swf s1"
    by blast
  have "length (vals[j := i]) = (j + 1) + length is" using Cons.prems(4) by simp
  from Cons.IH [OF 1(2,3) _ this] Cons.prems(3,4) 1 show ?case
    by (auto simp: take_Suc_conv_app_nth)
qed simp

lemma load_pairs_rest:
  assumes "srest s = concat (map (enc_pair be vl) es) @ r" and "swf s"
    and "list_all (\<lambda>(k, vals). length vals = vl \<and> length k = ks \<and> list_all in64 vals) es"
    and "distinct (map fst (t @ es))" and "in32 (int vl)"
  shows "load_pairs be junk junki ks vl (length es) s t = Inr (t @ es)"
  using assms
proof (induction es arbitrary: s t)
  case (Cons e es)
  obtain k vals where e: "e = (k, vals)" by (cases e)
  have ok: "length vals = vl" "length k = ks" "list_all in64 vals" using Cons.prems(3) by (auto simp: e)
  from Cons.prems(1) have r: "srest s = k @ host_bytes be 4 (i32 (int vl)) @
      concat (map (\<lambda>i. host_bytes be 8 (i64 i)) vals) @ concat (map (enc_pair be vl) es) @ r"
    by (simp add: e enc_pair_def [of _ _ "(k, vals)"])
  from fread_rest [OF r Cons.prems(2), of ks] ok obtain s1 where 1: "fread ks s = (Some k, s1)" "swf s1"
    "srest s1 = host_bytes be 4 (i32 (int vl)) @ concat (map (\<lambda>i. host_bytes be 8 (i64 i)) vals) @ concat (map (enc_pair be vl) es) @ r"
    by auto
  from fread_int32_rest [OF 1(3,2) Cons.prems(5), of junki] obtain s2 where
    2: "fread_int32 be junki s1 = (int vl, s2)" "swf s2"
    "srest s2 = concat (map (\<lambda>i. host_bytes be 8 (i64 i)) vals) @ concat (map (enc_pair be vl) es) @ r" by blast
  have "length (replicate vl TEMPORARY_ID) = 0 + length vals" using ok by simp
  from load_ids_rest [OF 2(3,2) ok(3) this] ok obtain s3 where
    3: "load_ids be vl 0 (replicate vl TEMPORARY_ID) s2 = (vals, s3)" "srest s3 = concat (map (enc_pair be vl) es) @ r" "swf s3"
    by auto
  have up: "AList.update k vals t = t @ [(k, vals)]"
    using Cons.prems(4) by (intro length_update_new) (simp add: e)
  have "distinct (map fst ((t @ [(k, vals)]) @ es))" using Cons.prems(4) by (simp add: e)
  from Cons.IH [OF 3(2,3) _ this Cons.prems(5)] Cons.prems(3) show ?case
    by (simp add: new_kvpair_def 1 2 3 up e del: AList.update.simps)
qed simp

lemma load_dumped:
  assumes "kv_ok ks vl t" and "iter_ok iter" and "in32 (int vl)" and "in32 (int (length t))"
  shows "init_kvstore_htable be junk junki ks vl (Some (fst (close_kvstore_htable be iter ks vl t))) = Inr (iter t)"
proof -
  let ?s = "\<lparr>st_file = host_bytes be 4 (i32 (int (length t))) @ concat (map (enc_pair be vl) (iter t)), st_pos = 0, st_writable = False\<rparr>"
  have "srest ?s = host_bytes be 4 (i32 (int (length t))) @ concat (map (enc_pair be vl) (iter t))" "swf ?s"
    by (simp_all add: srest_def swf_def)
  from fread_int32_rest [OF this assms(4), of junki] obtain s1 where
    1: "fread_int32 be junki ?s = (int (length t), s1)" "srest s1 = concat (map (enc_pair be vl) (iter t)) @ []" "swf s1"
    by auto
  have "load_pairs be junk junki ks vl (length (iter t)) s1 [] = Inr ([] @ iter t)"
    using assms(1,2) by (intro load_pairs_rest [OF 1(2,3)])
      (simp_all add: kv_ok_def iter_ok_distinct list_all_iff iter_ok_set assms(3))
  then show ?thesis
    using 1 by (simp add: init_kvstore_htable_def dump_file [OF assms(1,2)] iter_ok_length [OF assms(2)])
qed

text \<open>C28: the table written by \<open>close_kvstore_htable\<close>, in whatever order GLib visits it, is read back by \<open>init_kvstore_htable\<close>.\<close>

lemma dump_load:
  assumes "kv_ok ks vl t" and "iter_ok iter" and "in32 (int vl)" and "in32 (int (length t))"
  shows "init_kvstore_htable be junk junki ks vl (Some (fst (close_kvstore_htable be iter ks vl t))) = Inr (iter t)"
  using assms by (rule load_dumped)

theorem dump_load_witness:
  "init_kvstore_htable True [0] 0 2 1 (Some (fst (close_kvstore_htable True rev 2 1 [([1, 2], [6]), ([3, 4], [-1])]))) =
     Inr (rev [([1, 2], [6]), ([3, 4], [-1])])"
  by (rule dump_load) (simp_all add: kv_ok_def in64_def in32_def iter_ok_rev)

end
