(* ===== verification/Gc_Rtm.thy ===== *)
theory Gc_Rtm
  imports Container_Store Streams
begin

text \<open>
  The bookkeeping of the reference-time-map garbage collector, \<open>gc/gc_rtm.c\<close>, and the
  collector \<open>gc_reference_time_map_patch\<close> of \<open>gc/gc.c\<close>.

  \<^item> \<open>ishead\<close>: the list of containers referenced by this backup, each with the number of its
    first bit in \<open>index_bit\<close>. \<open>_id_shift_AddEnd\<close> does not copy \<open>chunk_num\<close>: the field of
    the new node is what \<open>malloc\<close> returns, the argument \<open>junk\<close>.
  \<^item> \<open>index_bit\<close>: one bit per chunk of those containers, numbered from 1.
  \<^item> \<open>CBT\<close>: word 0 is the backup version; container \<open>id\<close> has the two bits \<open>2*id+33\<close> and
    \<open>2*id+34\<close> (10 partly referenced, 11 fully, 01 new).
  \<^item> \<open>RTMhead\<close>: per container, the last version that referenced each chunk.

  An index outside an array is \<open>OutOfBounds\<close>, with one exception stated at its place. The
  functions \<open>get_container_bit_map\<close> and \<open>merge_or_container_bit_table\<close> are not modelled:
  nothing calls them (the first cannot leave its loop, the second works on uninitialised
  pointers). The messages and timers are not modelled.
\<close>

record id_shift =
  sh_container_id :: int
  sh_chunk_shift :: int
  sh_chunk_num :: int

record rtm_state =
  globle_shift :: int
  ishead :: "id_shift list"
  id_shift_hash :: "int list"
  index_bit :: "int \<Rightarrow> 32 word"
  CBT :: "32 word list"
  RTMhead :: "RTMdata list"
  current_bv :: int
  container_count_start :: int
  container_count_end :: int

definition index_bit_size :: int where "index_bit_size = 67108864"
definition container_size :: nat where "container_size = 1024"

subsection \<open>Shifts\<close>

definition init_id_shift :: "rtm_state \<Rightarrow> rtm_state" where
  "init_id_shift s = s\<lparr>globle_shift := 1, ishead := []\<rparr>"

definition init_id_shift_hash :: "rtm_state \<Rightarrow> rtm_state" where
  "init_id_shift_hash s = s\<lparr>id_shift_hash := []\<rparr>"

text \<open>The statics before a job, zeroed by the loader.\<close>

definition rtm_start :: rtm_state where
  "rtm_start = init_id_shift (init_id_shift_hash \<lparr>globle_shift = 0, ishead = [], id_shift_hash = [], index_bit = \<lambda>_. 0,
     CBT = replicate container_size 0, RTMhead = [], current_bv = 0, container_count_start = 0, container_count_end = 0\<rparr>)"

definition id_shift_AddEnd :: "int \<Rightarrow> id_shift \<Rightarrow> rtm_state \<Rightarrow> rtm_state" where
  "id_shift_AddEnd junk d s =
     s\<lparr>ishead := ishead s @ [\<lparr>sh_container_id = sh_container_id d, sh_chunk_shift = sh_chunk_shift d, sh_chunk_num = junk\<rparr>]\<rparr>"

fun get_shift_by_id :: "id_shift list \<Rightarrow> int \<Rightarrow> int" where
  "get_shift_by_id [] i = 0"
| "get_shift_by_id (h # hs) i = (if sh_container_id h = i then sh_chunk_shift h else get_shift_by_id hs i)"

fun get_next_shift_by_id :: "id_shift list \<Rightarrow> int \<Rightarrow> int res" where
  "get_next_shift_by_id [] i = Inl NullDeref"
| "get_next_shift_by_id [h] i = Inr (sh_chunk_shift h + sh_chunk_num h)"
| "get_next_shift_by_id (h # n # hs) i =
     (if sh_container_id h = i then Inr (sh_chunk_shift n) else get_next_shift_by_id (n # hs) i)"

subsection \<open>Bits numbered from 1\<close>

definition set_index_bit :: "int \<Rightarrow> (int \<Rightarrow> 32 word) \<Rightarrow> (int \<Rightarrow> 32 word) res" where
  "set_index_bit n a =
     (if n mod 32 = 0 then
        (let index_loc = drop_bit 5 n - 1 in
         if 0 \<le> index_loc \<and> index_loc < index_bit_size
         then Inr (a(index_loc := a index_loc OR push_bit 31 1)) else Inl OutOfBounds)
      else
        (let index_loc = drop_bit 5 n; bit_loc = n mod 32 - 1 in
         if 0 \<le> index_loc \<and> index_loc < index_bit_size
         then Inr (a(index_loc := a index_loc OR push_bit (nat bit_loc) 1)) else Inl OutOfBounds))"

definition get_index_bit :: "int \<Rightarrow> (int \<Rightarrow> 32 word) \<Rightarrow> bool res" where
  "get_index_bit n a =
     (if n mod 32 = 0 then
        (let index_loc = drop_bit 5 n - 1 in
         if 0 \<le> index_loc \<and> index_loc < index_bit_size
         then Inr (a index_loc AND push_bit 31 1 \<noteq> 0) else Inl OutOfBounds)
      else
        (let index_loc = drop_bit 5 n; bit_loc = n mod 32 - 1 in
         if 0 \<le> index_loc \<and> index_loc < index_bit_size
         then Inr (a index_loc AND push_bit (nat bit_loc) 1 \<noteq> 0) else Inl OutOfBounds))"

text \<open>The two scans of \<open>check_index_bit_equal_one\<close>: up to the first clear bit, and up to the
  first set one.\<close>

fun scan_ones :: "(int \<Rightarrow> 32 word) \<Rightarrow> nat \<Rightarrow> int \<Rightarrow> int res" where
  "scan_ones a 0 i = Inr i"
| "scan_ones a (Suc n) i = rbind (get_index_bit i a) (\<lambda>b. if b then scan_ones a n (i + 1) else Inr i)"

fun scan_zeros :: "(int \<Rightarrow> 32 word) \<Rightarrow> nat \<Rightarrow> int \<Rightarrow> int res" where
  "scan_zeros a 0 j = Inr j"
| "scan_zeros a (Suc n) j = rbind (get_index_bit j a) (\<lambda>b. if \<not> b then scan_zeros a n (j + 1) else Inr j)"

definition check_index_bit_equal_one :: "(int \<Rightarrow> 32 word) \<Rightarrow> int \<Rightarrow> int \<Rightarrow> int res" where
  "check_index_bit_equal_one a start fin =
     rbind (scan_ones a (nat (fin - start)) start) (\<lambda>i.
     if i = fin then Inr 2
     else rbind (if i = start then scan_zeros a (nat (fin - (start + 1))) (start + 1) else Inr (start + 1)) (\<lambda>j.
       if j = fin then Inr 0 else Inr 1))"

definition get_CBT_array :: "int \<Rightarrow> 32 word list \<Rightarrow> bool res" where
  "get_CBT_array n arr =
     (if n mod 32 = 0 then
        (let index_loc = drop_bit 5 n - 1 in
         if 0 \<le> index_loc \<and> index_loc < int (length arr)
         then Inr (arr ! nat index_loc AND push_bit 31 1 \<noteq> 0) else Inl OutOfBounds)
      else
        (let index_loc = drop_bit 5 n; bit_loc = n mod 32 - 1 in
         if 0 \<le> index_loc \<and> index_loc < int (length arr)
         then Inr (arr ! nat index_loc AND push_bit (nat bit_loc) 1 \<noteq> 0) else Inl OutOfBounds))"

definition set_CBT_array :: "int \<Rightarrow> int \<Rightarrow> 32 word list \<Rightarrow> 32 word list res" where
  "set_CBT_array n zero_or_one arr =
     (if zero_or_one = 0 then Inr arr
      else if zero_or_one = 1 then
        (if n mod 32 = 0 then
           (let index_loc = drop_bit 5 n - 1 in
            if 0 \<le> index_loc \<and> index_loc < int (length arr)
            then Inr (arr[nat index_loc := arr ! nat index_loc OR push_bit 31 1]) else Inl OutOfBounds)
         else
           (let index_loc = drop_bit 5 n; bit_loc = n mod 32 - 1 in
            if 0 \<le> index_loc \<and> index_loc < int (length arr)
            then Inr (arr[nat index_loc := arr ! nat index_loc OR push_bit (nat bit_loc) 1]) else Inl OutOfBounds))
      else Inr arr)"

definition get_cbt_bit :: "int \<Rightarrow> rtm_state \<Rightarrow> bool res" where
  "get_cbt_bit n s = get_CBT_array n (CBT s)"

definition set_container_bit_table :: "int \<Rightarrow> int \<Rightarrow> rtm_state \<Rightarrow> rtm_state res" where
  "set_container_bit_table n zero_or_one s =
     rbind (set_CBT_array n zero_or_one (CBT s)) (\<lambda>c. Inr (s\<lparr>CBT := c\<rparr>))"

subsection \<open>After a backup\<close>

definition init_container_bit_table :: "int \<Rightarrow> rtm_state \<Rightarrow> rtm_state" where
  "init_container_bit_table backupversion s = s\<lparr>CBT := (CBT s)[0 := i32 backupversion]\<rparr>"

definition update_container_bit_table_attribute :: "int \<Rightarrow> int \<Rightarrow> rtm_state \<Rightarrow> rtm_state res" where
  "update_container_bit_table_attribute shift attribute s =
     rbind (if attribute = 1 then
              rbind (set_container_bit_table shift 1 s) (set_container_bit_table (shift + 1) 0)
            else Inr s) (\<lambda>s.
     rbind (if attribute = 2 then
              rbind (set_container_bit_table shift 1 s) (set_container_bit_table (shift + 1) 1)
            else Inr s) (\<lambda>s.
     if attribute = 3 then
       rbind (set_container_bit_table shift 0 s) (set_container_bit_table (shift + 1) 1)
     else Inr s))"

definition get_attribute :: "rtm_state \<Rightarrow> int \<Rightarrow> int res" where
  "get_attribute s i =
     (let start = get_shift_by_id (ishead s) i in
      rbind (get_next_shift_by_id (ishead s) i) (\<lambda>nxt.
        check_index_bit_equal_one (index_bit s) start (nxt - 1)))"

fun mark_rtm :: "(int \<Rightarrow> 32 word) \<Rightarrow> int \<Rightarrow> int \<Rightarrow> nat \<Rightarrow> nat \<Rightarrow> int list \<Rightarrow> int list res" where
  "mark_rtm a bv start 0 i rtm = Inr rtm"
| "mark_rtm a bv start (Suc n) i rtm =
     rbind (get_index_bit (start + int i) a) (\<lambda>b.
       if b then (if i < length rtm then mark_rtm a bv start n (i + 1) (rtm[i := sint (i16 bv)]) else Inl OutOfBounds)
       else mark_rtm a bv start n (i + 1) rtm)"

definition mark_entry :: "rtm_state \<Rightarrow> int \<Rightarrow> int \<Rightarrow> int \<Rightarrow> RTMdata \<Rightarrow> RTMdata res" where
  "mark_entry s i start fin d =
     (if rtm_id d = i
      then rbind (mark_rtm (index_bit s) (current_bv s) start (nat (fin - start + 1)) 0 (rtm_rtm d)) (\<lambda>r. Inr (d\<lparr>rtm_rtm := r\<rparr>))
      else Inr d)"

fun rmap :: "('a \<Rightarrow> 'b res) \<Rightarrow> 'a list \<Rightarrow> 'b list res" where
  "rmap f [] = Inr []"
| "rmap f (x # xs) = rbind (f x) (\<lambda>y. rbind (rmap f xs) (\<lambda>ys. Inr (y # ys)))"

definition update_reference_time_map :: "int \<Rightarrow> rtm_state \<Rightarrow> rtm_state res" where
  "update_reference_time_map i s =
     (let start = get_shift_by_id (ishead s) i in
      rbind (get_next_shift_by_id (ishead s) i) (\<lambda>nxt.
      rbind (rmap (mark_entry s i start (nxt - 1)) (RTMhead s)) (\<lambda>r. Inr (s\<lparr>RTMhead := r\<rparr>))))"

definition update_one_container :: "id_shift \<Rightarrow> rtm_state \<Rightarrow> rtm_state res" where
  "update_one_container h s =
     (let i = sh_container_id h; cbt_shift = i * 2 + 33 in
      rbind (get_attribute s i) (\<lambda>attribute.
      rbind (update_container_bit_table_attribute cbt_shift attribute s) (\<lambda>s.
        if attribute = 1 then update_reference_time_map i s else Inr s)))"

definition update_container_bit_table_and_RTM :: "rtm_state \<Rightarrow> rtm_state res" where
  "update_container_bit_table_and_RTM s =
     rbind (rfold update_one_container (ishead s) s) (\<lambda>s.
     if container_count_end s - container_count_start s > 0 then
       rfold (\<lambda>i. update_container_bit_table_attribute (i * 2 + 33) 3)
         [container_count_start s..container_count_end s - 1] s
     else Inr s)"

subsection \<open>The tables on disk\<close>

definition enc_words :: "bool \<Rightarrow> 32 word list \<Rightarrow> byte list" where
  "enc_words be ws = concat (map (host_bytes be 4) ws)"

fun dec_words :: "bool \<Rightarrow> nat \<Rightarrow> byte list \<Rightarrow> 32 word list" where
  "dec_words be 0 bs = []"
| "dec_words be (Suc n) bs = host_word be (take 4 bs) # dec_words be n (drop 4 bs)"

definition write_container_bit_table_to_disk :: "bool \<Rightarrow> rtm_state \<Rightarrow> byte list \<Rightarrow> byte list" where
  "write_container_bit_table_to_disk be s f = f @ enc_words be (CBT s)"

definition get_container_bit_table :: "bool \<Rightarrow> byte list \<Rightarrow> int \<Rightarrow> 32 word list res" where
  "get_container_bit_table be f tms =
     (let off = (tms - 1) * 4 * int container_size in
      rbind (f_read (if off < 0 then 0 else nat off) (4 * container_size) f) (\<lambda>bs. Inr (dec_words be container_size bs)))"

definition get_first_container_bit_table :: "bool \<Rightarrow> byte list \<Rightarrow> 32 word list res" where
  "get_first_container_bit_table be f = rbind (f_read 0 (4 * container_size) f) (\<lambda>bs. Inr (dec_words be container_size bs))"

definition get_newest_container_bit_table :: "bool \<Rightarrow> byte list \<Rightarrow> int \<Rightarrow> 32 word list res" where
  "get_newest_container_bit_table be f tms =
     (let off = int (length f) - tms * 4 * int container_size in   \<comment> \<open>a failed \<open>fseek\<close> stays at 0\<close>
      rbind (f_read (if off < 0 then 0 else nat off) (4 * container_size) f) (\<lambda>bs. Inr (dec_words be container_size bs)))"

definition merge_container_bit_table :: "int \<Rightarrow> 32 word list \<Rightarrow> 32 word list \<Rightarrow> 32 word list res" where
  "merge_container_bit_table n v1 v2 =
     rbind (rfold (\<lambda>i. set_CBT_array i 0) [1..32] v1) (\<lambda>v1.
     rfold (\<lambda>i v1.
         rbind (get_CBT_array i v1) (\<lambda>b1. rbind (get_CBT_array i v2) (\<lambda>b2.
           if b1 \<or> b2 then set_CBT_array i 1 v1
           else if \<not> b1 \<or> \<not> b2 then set_CBT_array i 0 v1 else Inr v1)))
       [33..n * 2 + 33] v1)"

definition get_merge_container_bit_table :: "bool \<Rightarrow> byte list \<Rightarrow> int \<Rightarrow> int \<Rightarrow> 32 word list res" where
  "get_merge_container_bit_table be f n deleteversion =
     (if deleteversion = 1 then get_container_bit_table be f deleteversion
      else rbind (get_container_bit_table be f 1) (\<lambda>ans.
        rfold (\<lambda>i ans. rbind (get_container_bit_table be f (i + 1)) (\<lambda>ans2. merge_container_bit_table n ans ans2))
          [1..deleteversion - 1] ans))"

definition write_container_count_end_to_disk :: "bool \<Rightarrow> rtm_state \<Rightarrow> byte list" where
  "write_container_count_end_to_disk be s = host_bytes be 8 (i64 (container_count_end s))"

text \<open>The eight bytes are read over the pointer variable itself, and the pointer is returned
  as an \<open>int\<close>.\<close>

definition get_container_bit_end :: "bool \<Rightarrow> int \<Rightarrow> byte list option \<Rightarrow> int" where
  "get_container_bit_end be ptr f =
     (let cce = (case f of None \<Rightarrow> ptr | Some bs \<Rightarrow>
          fst (fread_int64 be ptr \<lparr>st_file = bs, st_pos = 0, st_writable = False\<rparr>))
      in sint (i32 cce))"

subsection \<open>The reference time map on disk\<close>

definition enc_rtm :: "bool \<Rightarrow> RTMdata \<Rightarrow> byte list" where
  "enc_rtm be d = host_bytes be 8 (i64 (rtm_id d)) @ host_bytes be 2 (i16 (rtm_len d)) @
     concat (map (\<lambda>x. host_bytes be 2 (i16 x)) (take (nat (rtm_len d)) (rtm_rtm d)))"

definition write_RTM_to_disk :: "bool \<Rightarrow> rtm_state \<Rightarrow> byte list \<times> rtm_state" where
  "write_RTM_to_disk be s = (concat (map (enc_rtm be) (RTMhead s)), s\<lparr>RTMhead := []\<rparr>)"

fun read_shorts :: "bool \<Rightarrow> nat \<Rightarrow> stream \<Rightarrow> (int list \<times> stream) res" where
  "read_shorts be 0 s = Inr ([], s)"
| "read_shorts be (Suc n) s =
     (case fread 2 s of
        (None, s) \<Rightarrow> Inl OutOfBounds
      | (Some bs, s) \<Rightarrow> rbind (read_shorts be n s) (\<lambda>(xs, s). Inr (sint (host_word be bs :: 16 word) # xs, s)))"

text \<open>\<open>feof\<close> becomes true only when a read fails, so a short file is noticed too late: the
  entry then read is uninitialised.\<close>

fun read_rtm_entries :: "bool \<Rightarrow> nat \<Rightarrow> stream \<Rightarrow> RTMdata list res" where
  "read_rtm_entries be 0 s = Inr []"
| "read_rtm_entries be (Suc n) s =
     (case fread 8 s of
        (None, s) \<Rightarrow> Inl OutOfBounds
      | (Some ib, s) \<Rightarrow>
          (case fread 2 s of
             (None, s) \<Rightarrow> Inl OutOfBounds
           | (Some lb, s) \<Rightarrow>
               let len = sint (host_word be lb :: 16 word) in
               if len < 0 then Inl OutOfBounds else
               rbind (read_shorts be (nat len) s) (\<lambda>(xs, s).
               rbind (read_rtm_entries be n s) (\<lambda>ds.
                 Inr (\<lparr>rtm_id = sint (host_word be ib :: 64 word), rtm_len = len, rtm_rtm = xs\<rparr> # ds)))))"

definition read_RTM_from_disk :: "bool \<Rightarrow> byte list option \<Rightarrow> rtm_state \<Rightarrow> rtm_state res" where
  "read_RTM_from_disk be f s =
     (case f of
        None \<Rightarrow> Inr (s\<lparr>RTMhead := []\<rparr>)
      | Some bs \<Rightarrow>
          rbind (read_rtm_entries be (nat (container_count_start s)) \<lparr>st_file = bs, st_pos = 0, st_writable = False\<rparr>) (\<lambda>ds.
            Inr (s\<lparr>RTMhead := ds\<rparr>)))"

definition read_RTM_from_disk_in_gc :: "bool \<Rightarrow> byte list option \<Rightarrow> int \<Rightarrow> rtm_state \<Rightarrow> rtm_state res" where
  "read_RTM_from_disk_in_gc be f broad s =
     (case f of
        None \<Rightarrow> Inr (s\<lparr>RTMhead := []\<rparr>)
      | Some bs \<Rightarrow>
          rbind (read_rtm_entries be (nat broad) \<lparr>st_file = bs, st_pos = 0, st_writable = False\<rparr>) (\<lambda>ds.
            Inr (s\<lparr>RTMhead := ds\<rparr>)))"

definition Init_RTM :: "bool \<Rightarrow> byte list option \<Rightarrow> rtm_state \<Rightarrow> rtm_state res" where
  "Init_RTM be f s =
     (if CBT s = [] then Inl OutOfBounds
      else if hd (CBT s) = 0 then Inr (s\<lparr>RTMhead := []\<rparr>)
      else if sint (hd (CBT s)) > 0 then read_RTM_from_disk be f s
      else Inr s)"

definition RTMlist_AddEnd :: "RTMdata \<Rightarrow> rtm_state \<Rightarrow> rtm_state" where
  "RTMlist_AddEnd d s = s\<lparr>RTMhead := RTMhead s @ [d]\<rparr>"

subsection \<open>Collecting\<close>

text \<open>The loop reads \<open>rtm[j]\<close> before it tests \<open>j < len\<close>: when it does not stop earlier it
  reads one element past the array, whose value cannot change the outcome.\<close>

fun set_prefix :: "int \<Rightarrow> int list \<Rightarrow> int list" where
  "set_prefix bv [] = []"
| "set_prefix bv (x # xs) = (if x \<noteq> bv then sint (i16 bv) # set_prefix bv xs else x # xs)"

definition update_RTM_to_same_backupversion :: "int \<Rightarrow> int \<Rightarrow> rtm_state \<Rightarrow> rtm_state res" where
  "update_RTM_to_same_backupversion n bv s =
     (if nat n < length (RTMhead s) then
        (let d = RTMhead s ! nat n; k = nat (rtm_len d) in
         Inr (s\<lparr>RTMhead := (RTMhead s)[nat n := d\<lparr>rtm_rtm := set_prefix bv (take k (rtm_rtm d)) @ drop k (rtm_rtm d)\<rparr>]\<rparr>))
      else Inl NullDeref)"

text \<open>One pass over the positions still undecided; \<open>pos\<close> is used as a bit number.\<close>

fun check_positions :: "32 word list \<Rightarrow> int \<Rightarrow> int list \<Rightarrow> int list \<Rightarrow> rtm_state \<Rightarrow> (int list \<times> rtm_state) res" where
  "check_positions arr bv [] zero s = Inr (zero, s)"
| "check_positions arr bv (pos # ps) zero s =
     rbind (get_CBT_array pos arr) (\<lambda>m. rbind (get_CBT_array (pos + 1) arr) (\<lambda>n.
       if m \<noteq> n then check_positions arr bv ps zero s
       else if m \<and> n then
         rbind (update_RTM_to_same_backupversion pos bv s) (check_positions arr bv ps zero)
       else check_positions arr bv ps (zero @ [pos]) s))"

partial_function (option) check_last_container_bit_table ::
  "bool \<Rightarrow> byte list \<Rightarrow> int list \<Rightarrow> int \<Rightarrow> rtm_state \<Rightarrow> (int \<times> rtm_state) res option" where
  "check_last_container_bit_table be f sq last_v s =
     (case get_newest_container_bit_table be f (last_v + 1) of
        Inl e \<Rightarrow> Some (Inl e)
      | Inr arr \<Rightarrow>
          (case check_positions arr (sint (hd arr)) sq [] s of
             Inl e \<Rightarrow> Some (Inl e)
           | Inr (zero, s) \<Rightarrow>
               if zero \<noteq> [] then check_last_container_bit_table be f zero (last_v + 1) s
               else Some (Inr (last_v + 1, s))))"

fun scan_newest :: "32 word list \<Rightarrow> int \<Rightarrow> nat \<Rightarrow> int \<Rightarrow> int \<Rightarrow> int list \<Rightarrow> rtm_state \<Rightarrow> (int list \<times> rtm_state) res" where
  "scan_newest arr bv 0 i j zero s = Inr (zero, s)"
| "scan_newest arr bv (Suc k) i j zero s =
     rbind (get_CBT_array i arr) (\<lambda>m. rbind (get_CBT_array (i + 1) arr) (\<lambda>n.
       if m \<noteq> n then scan_newest arr bv k (i + 2) (j + 1) zero s
       else if \<not> m \<and> \<not> n then scan_newest arr bv k (i + 2) (j + 1) (zero @ [j]) s
       else rbind (update_RTM_to_same_backupversion j bv s) (scan_newest arr bv k (i + 2) (j + 1) zero)))"

definition get_real_reference_time_map ::
  "bool \<Rightarrow> int \<Rightarrow> byte list option \<Rightarrow> byte list \<Rightarrow> byte list option \<Rightarrow> int \<Rightarrow> rtm_state \<Rightarrow> (int \<times> rtm_state) res option" where
  "get_real_reference_time_map be ptr ccef cbtf rtmf last_v s =
     (let cce = get_container_bit_end be ptr ccef in
      case rbind (read_RTM_from_disk_in_gc be rtmf cce s) (\<lambda>s.
           rbind (get_newest_container_bit_table be cbtf last_v) (\<lambda>arr.
             scan_newest arr (sint (hd arr)) (nat cce) 33 0 [] s)) of
        Inl e \<Rightarrow> Some (Inl e)
      | Inr (zero, s) \<Rightarrow> check_last_container_bit_table be cbtf zero last_v s)"

fun patch_entry :: "int \<Rightarrow> int list \<Rightarrow> int \<Rightarrow> int \<times> int list" where
  "patch_entry dv [] gc = (gc, [])"
| "patch_entry dv (x # xs) gc =
     (if x \<le> dv then (let (gc, ys) = patch_entry dv xs (gc + 1) in (gc, x # ys))
      else (let (gc, ys) = patch_entry dv xs gc in (gc, 0 # ys)))"

fun patch_list :: "int \<Rightarrow> RTMdata list \<Rightarrow> int \<Rightarrow> int" where
  "patch_list dv [] gc = gc"
| "patch_list dv (d # ds) gc = patch_list dv ds (fst (patch_entry dv (take (nat (rtm_len d)) (rtm_rtm d)) gc))"

definition gc_reference_time_map_patch ::
  "bool \<Rightarrow> int \<Rightarrow> byte list option \<Rightarrow> byte list \<Rightarrow> byte list option \<Rightarrow> int \<Rightarrow> int \<Rightarrow> rtm_state \<Rightarrow> (int \<times> rtm_state) res option" where
  "gc_reference_time_map_patch be ptr ccef cbtf rtmf deleteversion gc_count s =
     map_option (\<lambda>r. rbind r (\<lambda>(_, s). Inr (patch_list deleteversion (RTMhead s) gc_count, s\<lparr>RTMhead := []\<rparr>)))
       (get_real_reference_time_map be ptr ccef cbtf rtmf 1 s)"

definition gc_reference_time_map ::
  "bool \<Rightarrow> int \<Rightarrow> byte list option \<Rightarrow> byte list \<Rightarrow> byte list option \<Rightarrow> int \<Rightarrow> rtm_state \<Rightarrow> (int \<times> rtm_state) res option" where
  "gc_reference_time_map be ptr ccef cbtf rtmf deleteversion s =
     gc_reference_time_map_patch be ptr ccef cbtf rtmf deleteversion 0 s"

subsection \<open>The bit arrays\<close>

definition bit_at :: "(int \<Rightarrow> 32 word) \<Rightarrow> int \<Rightarrow> bool" where
  "bit_at a n = bit (a ((n - 1) div 32)) (nat ((n - 1) mod 32))"

definition cbt_at :: "32 word list \<Rightarrow> int \<Rightarrow> bool" where
  "cbt_at arr n = bit (arr ! nat ((n - 1) div 32)) (nat ((n - 1) mod 32))"

lemma addr_mod0:
  assumes "n mod 32 = (0 :: int)"
  shows "n div 32 - 1 = (n - 1) div 32" and "(n - 1) mod 32 = 31"
proof -
  have "n = n div 32 * 32" using assms by (metis add.right_neutral mult_div_mod_eq mult.commute)
  then have n: "n - 1 = 31 + (n div 32 - 1) * 32" by simp
  show "n div 32 - 1 = (n - 1) div 32" "(n - 1) mod 32 = 31"
    unfolding n by (simp_all only: div_mult_self1 mod_mult_self1) simp_all
qed

lemma addr_mod:
  assumes "n mod 32 \<noteq> (0 :: int)"
  shows "n div 32 = (n - 1) div 32" and "n mod 32 - 1 = (n - 1) mod 32"
proof -
  have r: "0 \<le> n mod 32 - 1" "n mod 32 - 1 < 32"
    using assms pos_mod_sign [of 32 n] pos_mod_bound [of 32 n] by linarith+
  have n: "n - 1 = (n mod 32 - 1) + n div 32 * 32" by (simp add: mult.commute)
  have "((n mod 32 - 1) + n div 32 * 32) div 32 = n div 32 + (n mod 32 - 1) div 32"
    by (rule div_mult_self1) simp
  moreover have "((n mod 32 - 1) + n div 32 * 32) mod 32 = (n mod 32 - 1) mod 32"
    by (rule mod_mult_self1)
  ultimately have "(n - 1) div 32 = n div 32 + (n mod 32 - 1) div 32" "(n - 1) mod 32 = (n mod 32 - 1) mod 32"
    unfolding n [symmetric] by simp_all
  then show "n div 32 = (n - 1) div 32" "n mod 32 - 1 = (n - 1) mod 32"
    using r by simp_all
qed

lemma addr_bounds: "0 \<le> (n - 1) div 32 \<and> (n - 1) div 32 < k \<longleftrightarrow> 1 \<le> n \<and> n \<le> 32 * (k :: int)"
proof -
  have "n - 1 = 32 * ((n - 1) div 32) + (n - 1) mod 32" by simp
  moreover have "0 \<le> (n - 1) mod 32" "(n - 1) mod 32 < 32" by simp_all
  ultimately show ?thesis by linarith
qed

lemma and_bit: "(w :: 32 word) AND push_bit n 1 \<noteq> 0 \<longleftrightarrow> bit w n"
  by (simp add: bit_iff_and_push_bit_not_eq_0)

lemma drop5: "drop_bit 5 (n :: int) = n div 32"
  by (simp add: drop_bit_eq_div)

lemma get_index_bit_at:
  "get_index_bit n a = (if 1 \<le> n \<and> n \<le> 32 * index_bit_size then Inr (bit_at a n) else Inl OutOfBounds)"
proof (cases "n mod 32 = 0")
  case True
  then show ?thesis
    using addr_bounds [of n index_bit_size] addr_mod0 [OF True] and_bit [of "a ((n - 1) div 32)" 31]
    by (simp add: get_index_bit_def Let_def drop5 bit_at_def)
next
  case False
  then show ?thesis
    using addr_bounds [of n index_bit_size] addr_mod [OF False] and_bit
    by (simp add: get_index_bit_def Let_def drop5 bit_at_def)
qed

lemma set_index_bit_at:
  "set_index_bit n a = (if 1 \<le> n \<and> n \<le> 32 * index_bit_size
     then Inr (a((n - 1) div 32 := a ((n - 1) div 32) OR push_bit (nat ((n - 1) mod 32)) 1)) else Inl OutOfBounds)"
proof (cases "n mod 32 = 0")
  case True
  then show ?thesis
    using addr_bounds [of n index_bit_size] addr_mod0 [OF True]
    by (simp add: set_index_bit_def Let_def drop5)
next
  case False
  then show ?thesis
    using addr_bounds [of n index_bit_size] addr_mod [OF False]
    by (simp add: set_index_bit_def Let_def drop5)
qed

lemma addr_inj:
  assumes "(n - 1) div 32 = (m - 1) div (32 :: int)" and "nat ((n - 1) mod 32) = nat ((m - 1) mod 32)"
  shows "n = m"
proof -
  have "(n - 1) mod 32 = (m - 1) mod 32" using assms(2) by (simp add: nat_eq_iff)
  with assms(1) show ?thesis by (metis diff_add_cancel mult_div_mod_eq)
qed

lemma bit_or_push: "k < 32 \<Longrightarrow> bit ((w :: 32 word) OR 2 ^ k) j \<longleftrightarrow> bit w j \<or> j = k"
  by (auto simp: bit_simps)

lemma bit_at_set:
  "bit_at (a((n - 1) div 32 := a ((n - 1) div 32) OR push_bit (nat ((n - 1) mod 32)) 1)) m \<longleftrightarrow> bit_at a m \<or> m = n"
proof -
  have "nat ((n - 1) mod 32) < 32" by (simp add: nat_less_iff)
  then show ?thesis
    using addr_inj [of m n] by (cases "(m - 1) div 32 = (n - 1) div 32") (auto simp: bit_at_def bit_or_push)
qed

lemma get_CBT_at:
  "get_CBT_array n arr = (if 1 \<le> n \<and> n \<le> 32 * int (length arr) then Inr (cbt_at arr n) else Inl OutOfBounds)"
proof (cases "n mod 32 = 0")
  case True
  then show ?thesis
    using addr_bounds [of n "int (length arr)"] addr_mod0 [OF True] and_bit [of "arr ! nat ((n - 1) div 32)" 31]
    by (simp add: get_CBT_array_def Let_def drop5 cbt_at_def)
next
  case False
  then show ?thesis
    using addr_bounds [of n "int (length arr)"] addr_mod [OF False] and_bit
    by (simp add: get_CBT_array_def Let_def drop5 cbt_at_def)
qed

text \<open>Setting the bit of a container in the container bit table stays inside the table for ids up to its size, sets that bit and no other.\<close>

lemma set_CBT_at:
  assumes "1 \<le> n" and "n \<le> 32 * int (length arr)"
  shows "\<exists>arr'. set_CBT_array n 1 arr = Inr arr' \<and> length arr' = length arr \<and>
     (\<forall>m. 1 \<le> m \<and> m \<le> 32 * int (length arr) \<longrightarrow> cbt_at arr' m = (cbt_at arr m \<or> m = n))"
proof -
  let ?k = "nat ((n - 1) div 32)" and ?b = "nat ((n - 1) mod 32)"
  have k: "?k < length arr" using assms addr_bounds [of n "int (length arr)"] by linarith
  have eq: "set_CBT_array n 1 arr = Inr (arr[?k := arr ! ?k OR push_bit ?b 1])"
  proof (cases "n mod 32 = 0")
    case True
    with assms addr_bounds [of n "int (length arr)"] addr_mod0 [OF True] show ?thesis
      by (simp add: set_CBT_array_def Let_def drop5)
  next
    case False
    with assms addr_bounds [of n "int (length arr)"] addr_mod [OF False] show ?thesis
      by (simp add: set_CBT_array_def Let_def drop5)
  qed
  have b: "?b < 32" by (simp add: nat_less_iff)
  have "cbt_at (arr[?k := arr ! ?k OR push_bit ?b 1]) m = (cbt_at arr m \<or> m = n)"
    if m: "1 \<le> m \<and> m \<le> 32 * int (length arr)" for m
  proof (cases "nat ((m - 1) div 32) = ?k")
    case True
    have "0 \<le> (m - 1) div 32" "0 \<le> (n - 1) div 32" using m assms by (simp_all add: pos_imp_zdiv_nonneg_iff)
    with True have "(m - 1) div 32 = (n - 1) div 32" by simp
    with addr_inj [of m n] True k b show ?thesis by (auto simp: cbt_at_def bit_or_push)
  next
    case False
    then show ?thesis by (auto simp: cbt_at_def)
  qed
  with eq show ?thesis by auto
qed

theorem set_CBT_at_witness:
  "\<exists>arr'. set_CBT_array 32 1 [0, 1] = Inr arr' \<and> length arr' = 2 \<and> cbt_at arr' 32 \<and> cbt_at arr' 33 = cbt_at [0, 1] 33"
proof -
  obtain arr' where "set_CBT_array 32 1 [0, 1] = Inr arr'" "length arr' = length [0, 1 :: 32 word]"
    and m: "\<forall>m. 1 \<le> m \<and> m \<le> 32 * int (length [0, 1 :: 32 word]) \<longrightarrow> cbt_at arr' m = (cbt_at [0, 1] m \<or> m = 32)"
    using set_CBT_at [of 32 "[0, 1]"] by auto
  with m [rule_format, of 32] m [rule_format, of 33] show ?thesis by simp
qed

subsection \<open>Reference attributes\<close>

lemma scan_ones_spec:
  assumes "1 \<le> i" and "i + int n \<le> 32 * index_bit_size"
  shows "\<exists>k\<le>n. scan_ones a n i = Inr (i + int k) \<and> (\<forall>j. i \<le> j \<and> j < i + int k \<longrightarrow> bit_at a j) \<and>
     (k < n \<longrightarrow> \<not> bit_at a (i + int k))"
  using assms
proof (induction n arbitrary: i)
  case (Suc n)
  then have g: "get_index_bit i a = Inr (bit_at a i)" by (simp add: get_index_bit_at)
  show ?case
  proof (cases "bit_at a i")
    case True
    from Suc.IH [of "i + 1"] Suc.prems obtain k where k: "k \<le> n" "scan_ones a n (i + 1) = Inr (i + 1 + int k)"
      "\<forall>j. i + 1 \<le> j \<and> j < i + 1 + int k \<longrightarrow> bit_at a j" "k < n \<longrightarrow> \<not> bit_at a (i + 1 + int k)" by auto
    have "bit_at a j" if "i \<le> j \<and> j < i + int (Suc k)" for j
      using k(3) True that by (cases "j = i") auto
    with k g True show ?thesis by (intro exI [of _ "Suc k"]) (auto simp: algebra_simps)
  next
    case False
    with g show ?thesis by (intro exI [of _ 0]) auto
  qed
qed auto

lemma scan_zeros_spec:
  assumes "1 \<le> i" and "i + int n \<le> 32 * index_bit_size"
  shows "\<exists>k\<le>n. scan_zeros a n i = Inr (i + int k) \<and> (\<forall>j. i \<le> j \<and> j < i + int k \<longrightarrow> \<not> bit_at a j) \<and>
     (k < n \<longrightarrow> bit_at a (i + int k))"
  using assms
proof (induction n arbitrary: i)
  case (Suc n)
  then have g: "get_index_bit i a = Inr (bit_at a i)" by (simp add: get_index_bit_at)
  show ?case
  proof (cases "bit_at a i")
    case False
    from Suc.IH [of "i + 1"] Suc.prems obtain k where k: "k \<le> n" "scan_zeros a n (i + 1) = Inr (i + 1 + int k)"
      "\<forall>j. i + 1 \<le> j \<and> j < i + 1 + int k \<longrightarrow> \<not> bit_at a j" "k < n \<longrightarrow> bit_at a (i + 1 + int k)" by auto
    have "\<not> bit_at a j" if "i \<le> j \<and> j < i + int (Suc k)" for j
      using k(3) False that by (cases "j = i") auto
    with k g False show ?thesis by (intro exI [of _ "Suc k"]) (auto simp: algebra_simps)
  next
    case True
    with g show ?thesis by (intro exI [of _ 0]) auto
  qed
qed auto

lemma check_bits_spec:
  assumes "1 \<le> start" and "start \<le> fin" and "fin \<le> 32 * index_bit_size"
  shows "check_index_bit_equal_one a start fin =
    Inr (if \<forall>j. start \<le> j \<and> j < fin \<longrightarrow> bit_at a j then 2
         else if \<forall>j. start \<le> j \<and> j < fin \<longrightarrow> \<not> bit_at a j then 0 else 1)"
proof -
  have b: "start + int (nat (fin - start)) \<le> 32 * index_bit_size" using assms by simp
  from scan_ones_spec [OF assms(1) b, of a] obtain k where
    k: "k \<le> nat (fin - start)" "scan_ones a (nat (fin - start)) start = Inr (start + int k)"
       "\<forall>j. start \<le> j \<and> j < start + int k \<longrightarrow> bit_at a j" "k < nat (fin - start) \<longrightarrow> \<not> bit_at a (start + int k)" by blast
  define A where "A \<longleftrightarrow> (\<forall>j. start \<le> j \<and> j < fin \<longrightarrow> bit_at a j)"
  define N where "N \<longleftrightarrow> (\<forall>j. start \<le> j \<and> j < fin \<longrightarrow> \<not> bit_at a j)"
  have "check_index_bit_equal_one a start fin = Inr (if A then 2 else if N then 0 else 1)"
  proof (cases "k = nat (fin - start)")
    case True
    with k(3) assms have A unfolding A_def by simp
    with True k assms show ?thesis by (simp add: check_index_bit_equal_one_def)
  next
    case False
    with k have lt: "start + int k < fin" and nb: "\<not> bit_at a (start + int k)" by auto
    then have not_all: "\<not> A" unfolding A_def by (metis le_add_same_cancel1 of_nat_0_le_iff)
    show "check_index_bit_equal_one a start fin = Inr (if A then 2 else if N then 0 else 1)"
    proof (cases "k = 0")
      case k0: True
      have b2: "start + 1 + int (nat (fin - (start + 1))) \<le> 32 * index_bit_size" using assms lt by simp
      from scan_zeros_spec [OF _ b2, of a] assms(1) obtain l where
        l: "l \<le> nat (fin - (start + 1))" "scan_zeros a (nat (fin - (start + 1))) (start + 1) = Inr (start + 1 + int l)"
           "\<forall>j. start + 1 \<le> j \<and> j < start + 1 + int l \<longrightarrow> \<not> bit_at a j"
           "l < nat (fin - (start + 1)) \<longrightarrow> bit_at a (start + 1 + int l)" by auto
      have "start + 1 + int l = fin \<longleftrightarrow> N"
      proof
        assume e: "start + 1 + int l = fin"
        show N unfolding N_def
        proof (intro allI impI)
          fix j assume "start \<le> j \<and> j < fin"
          then show "\<not> bit_at a j" using l(3) nb k0 e by (cases "j = start") auto
        qed
      next
        assume N
        have "\<not> l < nat (fin - (start + 1))"
        proof
          assume "l < nat (fin - (start + 1))"
          with l(4) have "bit_at a (start + 1 + int l)" "start + 1 + int l < fin" by auto
          with \<open>N\<close> show False unfolding N_def by (metis add.assoc le_add_same_cancel1 of_nat_0_le_iff add_nonneg_nonneg zero_le_one)
        qed
        with l(1) lt k0 show "start + 1 + int l = fin" by auto
      qed
      with k l k0 lt not_all show ?thesis by (simp add: check_index_bit_equal_one_def)
    next
      case kp: False
      have "bit_at a start" using k(3) kp by auto
      moreover have "start < fin" using lt by linarith
      ultimately have "\<not> N" unfolding N_def by blast
      moreover have "start + 1 \<noteq> fin" using kp lt by simp
      ultimately show ?thesis using k kp lt not_all by (simp add: check_index_bit_equal_one_def)
    qed
  qed
  then show ?thesis unfolding A_def N_def .
qed

subsection \<open>The reference time map\<close>

text \<open>The update of a reference-time map sets exactly those entries whose bit in the reference array is set to the current version, and leaves the others.\<close>

lemma mark_rtm_spec:
  assumes "1 \<le> start" and "start + int (i + n) \<le> 32 * index_bit_size + 1" and "i + n \<le> length rtm"
  shows "\<exists>rtm'. mark_rtm a bv start n i rtm = Inr rtm' \<and> length rtm' = length rtm \<and>
     (\<forall>k<length rtm. rtm' ! k =
        (if i \<le> k \<and> k < i + n \<and> bit_at a (start + int k) then sint (i16 bv) else rtm ! k))"
  using assms(2,3)
proof (induction n arbitrary: i rtm)
  case (Suc n)
  then have g: "get_index_bit (start + int i) a = Inr (bit_at a (start + int i))"
    using assms(1) by (simp add: get_index_bit_at)
  let ?r = "if bit_at a (start + int i) then rtm[i := sint (i16 bv)] else rtm"
  have len: "length ?r = length rtm" by simp
  have 1: "start + int (Suc i + n) \<le> 32 * index_bit_size + 1" "Suc i + n \<le> length ?r" using Suc.prems by simp_all
  from Suc.IH [OF 1] obtain r' where
    r': "mark_rtm a bv start n (Suc i) ?r = Inr r'" "length r' = length rtm"
      "\<forall>k<length rtm. r' ! k = (if Suc i \<le> k \<and> k < Suc i + n \<and> bit_at a (start + int k) then sint (i16 bv) else ?r ! k)"
    unfolding len by blast
  have eq: "mark_rtm a bv start (Suc n) i rtm = Inr r'" using r'(1) g Suc.prems by auto
  have "r' ! k = (if i \<le> k \<and> k < i + Suc n \<and> bit_at a (start + int k) then sint (i16 bv) else rtm ! k)"
    if "k < length rtm" for k
    using r'(3) that by (cases "k = i") (auto simp: nth_list_update)
  with eq r'(2) show ?case by blast
qed auto

theorem mark_rtm_spec_witness:
  "\<exists>rtm'. mark_rtm (\<lambda>_. 5) 9 1 3 0 [1, 1, 1, 1] = Inr rtm' \<and> length rtm' = 4 \<and>
     rtm' ! 0 = sint (i16 9) \<and> rtm' ! 1 = 1 \<and> rtm' ! 2 = sint (i16 9) \<and> rtm' ! 3 = 1"
proof -
  obtain rtm' where r: "mark_rtm (\<lambda>_. 5) 9 1 3 0 [1, 1, 1, 1] = Inr rtm'" "length rtm' = length [1, 1, 1, 1 :: int]"
    "\<forall>k<length [1, 1, 1, 1 :: int]. rtm' ! k =
        (if 0 \<le> k \<and> k < 0 + 3 \<and> bit_at (\<lambda>_. 5) (1 + int k) then sint (i16 9) else [1, 1, 1, 1] ! k)"
    using mark_rtm_spec [of 1 0 3 "[1, 1, 1, 1]" "\<lambda>_. 5" 9] by (auto simp: index_bit_size_def)
  have "bit (5 :: 32 word) 0" "\<not> bit (5 :: 32 word) 1" "bit (5 :: 32 word) 2" by (simp_all add: bit_numeral_rec numeral_2_eq_2)
  with r(1,2) r(3) [rule_format, of 0] r(3) [rule_format, of 1] r(3) [rule_format, of 2] r(3) [rule_format, of 3] show ?thesis
    by (simp add: bit_at_def)
qed

definition rtm_ok :: "RTMdata \<Rightarrow> bool" where
  "rtm_ok d \<longleftrightarrow> in64 (rtm_id d) \<and> rtm_len d = int (length (rtm_rtm d)) \<and> in16 (rtm_len d) \<and> list_all in16 (rtm_rtm d)"

lemma read_shorts_rest:
  assumes "srest s = concat (map (\<lambda>x. host_bytes be 2 (i16 x)) xs) @ r" and "swf s" and "list_all in16 xs"
  shows "\<exists>s'. read_shorts be (length xs) s = Inr (xs, s') \<and> srest s' = r \<and> swf s'"
  using assms
proof (induction xs arbitrary: s)
  case (Cons x xs)
  have "srest s = host_bytes be 2 (i16 x) @ concat (map (\<lambda>x. host_bytes be 2 (i16 x)) xs) @ r"
    using Cons.prems(1) by simp
  from fread_rest [OF this Cons.prems(2), of 2] obtain s1 where
    1: "fread 2 s = (Some (host_bytes be 2 (i16 x)), s1)" "srest s1 = concat (map (\<lambda>x. host_bytes be 2 (i16 x)) xs) @ r" "swf s1"
    by auto
  from Cons.IH [OF 1(2,3)] Cons.prems(3) obtain s2 where
    2: "read_shorts be (length xs) s1 = Inr (xs, s2)" "srest s2 = r" "swf s2" by auto
  with 1 Cons.prems(3) show ?case by simp
qed simp

lemma read_rtm_entries_rest:
  assumes "srest s = concat (map (enc_rtm be) ds) @ r" and "swf s" and "list_all rtm_ok ds"
  shows "read_rtm_entries be (length ds) s = Inr ds"
  using assms
proof (induction ds arbitrary: s)
  case (Cons d ds)
  have d: "in64 (rtm_id d)" "rtm_len d = int (length (rtm_rtm d))" "in16 (rtm_len d)" "list_all in16 (rtm_rtm d)"
    using Cons.prems(3) [unfolded list.pred_inject, THEN conjunct1, unfolded rtm_ok_def] by blast+
  let ?rest = "concat (map (enc_rtm be) ds) @ r" and ?xs = "concat (map (\<lambda>x. host_bytes be 2 (i16 x)) (rtm_rtm d))"
  have r: "srest s = host_bytes be 8 (i64 (rtm_id d)) @ host_bytes be 2 (i16 (rtm_len d)) @ ?xs @ ?rest"
    using Cons.prems(1) d(2) by (simp add: enc_rtm_def [of _ d])
  from fread_rest [OF r Cons.prems(2), of 8] obtain s1 where
    1: "fread 8 s = (Some (host_bytes be 8 (i64 (rtm_id d))), s1)" "swf s1"
       "srest s1 = host_bytes be 2 (i16 (rtm_len d)) @ ?xs @ ?rest" by auto
  from fread_rest [OF 1(3,2), of 2] obtain s2 where
    2: "fread 2 s1 = (Some (host_bytes be 2 (i16 (rtm_len d))), s2)" "swf s2" "srest s2 = ?xs @ ?rest" by auto
  from read_shorts_rest [OF 2(3,2) d(4)] obtain s3 where
    3: "read_shorts be (length (rtm_rtm d)) s2 = Inr (rtm_rtm d, s3)" "srest s3 = ?rest" "swf s3" by blast
  have n: "nat (rtm_len d) = length (rtm_rtm d)" "\<not> rtm_len d < 0" using d(2) by simp_all
  from Cons.IH [OF 3(2,3)] Cons.prems(3) have "read_rtm_entries be (length ds) s3 = Inr ds" by simp
  then show ?case using 1 2 3 n d by (simp add: Let_def)
qed simp

lemma read_written_rtm:
  assumes "list_all rtm_ok (RTMhead s)" and "broad = int (length (RTMhead s))"
  shows "read_RTM_from_disk_in_gc be (Some (fst (write_RTM_to_disk be s))) broad s' = Inr (s'\<lparr>RTMhead := RTMhead s\<rparr>)"
proof -
  let ?s = "\<lparr>st_file = concat (map (enc_rtm be) (RTMhead s)), st_pos = 0, st_writable = False\<rparr>"
  have "srest ?s = concat (map (enc_rtm be) (RTMhead s)) @ []" "swf ?s" by (simp_all add: srest_def swf_def)
  from read_rtm_entries_rest [OF this assms(1)] show ?thesis
    by (simp add: read_RTM_from_disk_in_gc_def write_RTM_to_disk_def assms(2))
qed

text \<open>The reference-time maps written to disk at the end of a backup are read back unchanged by the collector.\<close>

lemma read_written_rtm_example:
  "read_RTM_from_disk_in_gc True (Some (fst (write_RTM_to_disk True (rtm_start\<lparr>RTMhead := [\<lparr>rtm_id = 3, rtm_len = 2, rtm_rtm = [5, -1]\<rparr>]\<rparr>)))) 1 rtm_start =
     Inr (rtm_start\<lparr>RTMhead := RTMhead (rtm_start\<lparr>RTMhead := [\<lparr>rtm_id = 3, rtm_len = 2, rtm_rtm = [5, -1]\<rparr>]\<rparr>)\<rparr>)"
  by (rule read_written_rtm) (simp_all add: rtm_ok_def in16_def in64_def)

lemma patch_entry_count: "fst (patch_entry dv xs gc) = gc + int (length (filter (\<lambda>x. x \<le> dv) xs))"
  by (induction xs arbitrary: gc) (simp_all add: case_prod_beta)

text \<open>The patch collector's count is the number of map entries, over all containers, whose last reference is not newer than the deleted version.\<close>

lemma patch_list_count:
  "patch_list dv ds gc = gc + (\<Sum>d\<leftarrow>ds. int (length (filter (\<lambda>x. x \<le> dv) (take (nat (rtm_len d)) (rtm_rtm d)))))"
  by (induction ds arbitrary: gc) (auto simp: patch_entry_count)

subsection \<open>The last chunk of a container is never looked at\<close>

text \<open>The attribute of a container (2 all, 0 none, 1 some of its chunks referenced) is computed without the bit of its last chunk.\<close>

lemma get_attribute_ignores_last:
  assumes "ishead s = h # n # hs" and "1 \<le> sh_chunk_shift h" and "sh_chunk_shift h < sh_chunk_shift n"
    and "sh_chunk_shift n \<le> index_bit_size"
  shows "get_attribute (s\<lparr>index_bit := a\<rparr>) (sh_container_id h) =
    Inr (if \<forall>j. sh_chunk_shift h \<le> j \<and> j < sh_chunk_shift n - 1 \<longrightarrow> bit_at a j then 2
         else if \<forall>j. sh_chunk_shift h \<le> j \<and> j < sh_chunk_shift n - 1 \<longrightarrow> \<not> bit_at a j then 0 else 1)"
proof -
  have "sh_chunk_shift n - 1 \<le> 32 * index_bit_size" using assms(4) by (simp add: index_bit_size_def)
  with assms show ?thesis
    by (simp add: get_attribute_def Let_def check_bits_spec)
qed

theorem get_attribute_ignores_last_witness:
  "get_attribute ((rtm_start\<lparr>ishead := [\<lparr>sh_container_id = 4, sh_chunk_shift = 1, sh_chunk_num = 3\<rparr>,
      \<lparr>sh_container_id = 5, sh_chunk_shift = 4, sh_chunk_num = 2\<rparr>]\<rparr>)\<lparr>index_bit := \<lambda>_. 3\<rparr>) 4 = Inr 2"
proof -
  have b: "bit (3 :: 32 word) 0" "bit (3 :: 32 word) 1" by (simp_all add: bit_numeral_rec)
  have "bit_at (\<lambda>_. 3) j" if "1 \<le> j" "j < 3" for j
  proof -
    from that have "j = 1 \<or> j = 2" by linarith
    with b show ?thesis by (auto simp: bit_at_def)
  qed
  then have all: "\<forall>j. 1 \<le> j \<and> j < 4 - 1 \<longrightarrow> bit_at (\<lambda>_. 3) j" by simp
  show ?thesis
    using get_attribute_ignores_last [of "rtm_start\<lparr>ishead := [\<lparr>sh_container_id = 4, sh_chunk_shift = 1, sh_chunk_num = 3\<rparr>,
      \<lparr>sh_container_id = 5, sh_chunk_shift = 4, sh_chunk_num = 2\<rparr>]\<rparr>" "\<lparr>sh_container_id = 4, sh_chunk_shift = 1, sh_chunk_num = 3\<rparr>"
      "\<lparr>sh_container_id = 5, sh_chunk_shift = 4, sh_chunk_num = 2\<rparr>" "[]" "\<lambda>_. 3"] all
    by (simp add: index_bit_size_def)
qed

end
