(* ===== verification/Segmenting.thy ===== *)
theory Segmenting
  imports Destor_Types
begin

text \<open>
  The segmenting methods of \<open>index/segmenting_method.c\<close>. The static \<open>tmp\<close> of a method is
  explicit; a call takes a chunk, or \<open>None\<close> at the end of the stream, and returns the segment
  it completes, if any, with the new \<open>tmp\<close>. \<open>seg_cfg\<close> holds the configuration fields the
  methods read. \<open>fp_head\<close> is the \<open>int\<close> at byte 16 of a fingerprint, in host order.
\<close>

record seg_cfg =
  seg_avg :: int            \<comment> \<open>\<open>index_segment_algorithm[1]\<close>\<close>
  index_segment_min :: int
  index_segment_max :: int

datatype segment_algorithm = INDEX_SEGMENT_FIXED | INDEX_SEGMENT_CONTENT_DEFINED | INDEX_SEGMENT_FILE_DEFINED
  | INDEX_SEGMENT_INVALID

type_synonym segmenter = "segment option \<Rightarrow> chunk option \<Rightarrow> (segment option \<times> segment option) res"

definition seg_append :: "chunk \<Rightarrow> segment \<Rightarrow> segment" where
  "seg_append c s = s\<lparr>seg_chunks := seg_chunks s @ [c]\<rparr>"

definition seg_count :: "segment \<Rightarrow> segment" where
  "seg_count s = s\<lparr>seg_chunk_num := seg_chunk_num s + 1\<rparr>"

definition fp_head :: "bool \<Rightarrow> fingerprint \<Rightarrow> int" where
  "fp_head be fp = sint (host_word be (take 4 (drop 16 fp)) :: 32 word)"

definition c_mod :: "int \<Rightarrow> int \<Rightarrow> int res" where   \<comment> \<open>only ever compared with 0\<close>
  "c_mod a b = (if b = 0 then Inl ExitFailure else Inr (a mod b))"

definition segment_fixed :: "seg_cfg \<Rightarrow> segmenter" where
  "segment_fixed cfg tmp0 c0 =
     (let tmp = (case tmp0 of None \<Rightarrow> new_segment | Some t \<Rightarrow> t) in
      case c0 of
        None \<Rightarrow> Inr (Some tmp, Some tmp)
      | Some c \<Rightarrow>
          let tmp = seg_append c tmp in
          if CHECK_CHUNK c CHUNK_FILE_START \<or> CHECK_CHUNK c CHUNK_FILE_END then Inr (None, Some tmp)
          else let tmp = seg_count tmp in
            if seg_chunk_num tmp = seg_avg cfg then Inr (Some tmp, None) else Inr (None, Some tmp))"

definition segment_file_defined :: "seg_cfg \<Rightarrow> segmenter" where
  "segment_file_defined cfg tmp0 c0 =
     (let tmp = (case tmp0 of None \<Rightarrow> new_segment | Some t \<Rightarrow> t) in
      case c0 of
        None \<Rightarrow> Inr (Some tmp, Some tmp)
      | Some c \<Rightarrow>
          let tmp = seg_append c tmp in
          if CHECK_CHUNK c CHUNK_FILE_END then Inr (Some tmp, None)
          else if CHECK_CHUNK c CHUNK_FILE_START then Inr (None, Some tmp)
          else Inr (None, Some (seg_count tmp)))"

definition segment_content_defined :: "bool \<Rightarrow> seg_cfg \<Rightarrow> segmenter" where
  "segment_content_defined be cfg tmp0 c0 =
     (let tmp = (case tmp0 of None \<Rightarrow> new_segment | Some t \<Rightarrow> t) in
      case c0 of
        None \<Rightarrow> Inr (Some tmp, Some tmp)
      | Some c \<Rightarrow>
          if CHECK_CHUNK c CHUNK_FILE_START \<or> CHECK_CHUNK c CHUNK_FILE_END then Inr (None, Some (seg_append c tmp))
          else if seg_chunk_num tmp < index_segment_min cfg then Inr (None, Some (seg_count (seg_append c tmp)))
          else rbind (c_mod (fp_head be (ck_fp c)) (seg_avg cfg)) (\<lambda>r.
            if r = 0 then Inr (Some tmp, Some (seg_count (seg_append c new_segment)))
            else let tmp = seg_count (seg_append c tmp) in
              if seg_chunk_num tmp \<ge> index_segment_max cfg then Inr (Some tmp, Some new_segment)
              else Inr (None, Some tmp)))"

definition init_segmenting_method :: "bool \<Rightarrow> segment_algorithm \<Rightarrow> seg_cfg \<Rightarrow> segmenter res" where
  "init_segmenting_method be alg cfg =
     (case alg of
        INDEX_SEGMENT_FIXED \<Rightarrow> Inr (segment_fixed cfg)
      | INDEX_SEGMENT_CONTENT_DEFINED \<Rightarrow> Inr (segment_content_defined be cfg)
      | INDEX_SEGMENT_FILE_DEFINED \<Rightarrow> Inr (segment_file_defined cfg)
      | INDEX_SEGMENT_INVALID \<Rightarrow> Inl ExitFailure)"

text \<open>The calls the dedup phase makes: each chunk of the stream, then \<open>NULL\<close>.\<close>

fun segment_stream :: "segmenter \<Rightarrow> segment option \<Rightarrow> chunk list \<Rightarrow> segment list res" where
  "segment_stream f tmp [] = rbind (f tmp None) (\<lambda>(s, tmp). case s of None \<Rightarrow> Inl NullDeref | Some s \<Rightarrow> Inr [s])"
| "segment_stream f tmp (c # cs) =
     rbind (f tmp (Some c)) (\<lambda>(s, tmp).
     rbind (segment_stream f tmp cs) (\<lambda>ss. Inr (case s of None \<Rightarrow> ss | Some s \<Rightarrow> s # ss)))"

subsection \<open>Segments partition the stream\<close>

definition normal_count :: "chunk list \<Rightarrow> int" where
  "normal_count cs = int (length (filter (\<lambda>c. \<not> is_file_mark c) cs))"

definition seg_inv :: "segment \<Rightarrow> bool" where
  "seg_inv s \<longleftrightarrow> seg_chunk_num s = normal_count (seg_chunks s)"

definition held :: "segment option \<Rightarrow> chunk list" where
  "held tmp = (case tmp of None \<Rightarrow> [] | Some t \<Rightarrow> seg_chunks t)"

definition tmp_inv :: "segment option \<Rightarrow> bool" where
  "tmp_inv tmp = (case tmp of None \<Rightarrow> True | Some t \<Rightarrow> seg_inv t)"

lemma seg_inv_new: "seg_inv new_segment" "seg_chunks new_segment = []" "seg_chunk_num new_segment = 0"
  by (simp_all add: seg_inv_def new_segment_def normal_count_def)

lemma seg_append_mark: "seg_inv s \<Longrightarrow> is_file_mark c \<Longrightarrow> seg_inv (seg_append c s)"
  by (simp add: seg_inv_def seg_append_def normal_count_def)

lemma seg_append_normal: "seg_inv s \<Longrightarrow> \<not> is_file_mark c \<Longrightarrow> seg_inv (seg_count (seg_append c s))"
  by (simp add: seg_inv_def seg_append_def seg_count_def normal_count_def)

lemma seg_append_simps [simp]:
  "seg_chunks (seg_append c s) = seg_chunks s @ [c]" "seg_chunk_num (seg_append c s) = seg_chunk_num s"
  "seg_chunks (seg_count s) = seg_chunks s" "seg_chunk_num (seg_count s) = seg_chunk_num s + 1"
  by (simp_all add: seg_append_def seg_count_def)

text \<open>A method is well behaved when each call neither loses nor invents chunks; \<open>P\<close> is what
  holds of every segment completed before the end, \<open>Q\<close> what holds of \<open>tmp\<close>, so also of the
  chunks that the last segment takes over from it.\<close>

locale segment_method =
  fixes f :: segmenter and P :: "segment \<Rightarrow> bool" and Q :: "segment option \<Rightarrow> bool"
  assumes flush: "tmp_inv tmp \<Longrightarrow> Q tmp \<Longrightarrow>
      \<exists>s tmp'. f tmp None = Inr (Some s, tmp') \<and> seg_inv s \<and> seg_chunks s = held tmp"
    and call: "tmp_inv tmp \<Longrightarrow> Q tmp \<Longrightarrow>
      \<exists>s tmp'. f tmp (Some c) = Inr (s, tmp') \<and> tmp_inv tmp' \<and> Q tmp' \<and>
        held tmp @ [c] = (case s of None \<Rightarrow> [] | Some s \<Rightarrow> seg_chunks s) @ held tmp' \<and>
        (case s of None \<Rightarrow> True | Some s \<Rightarrow> seg_inv s \<and> P s)"
    and start: "Q None"
begin

lemma stream_from:
  "tmp_inv tmp \<Longrightarrow> Q tmp \<Longrightarrow> \<exists>ss l. segment_stream f tmp cs = Inr (ss @ [l]) \<and>
     concat (map seg_chunks (ss @ [l])) = held tmp @ cs \<and> list_all seg_inv (ss @ [l]) \<and> list_all P ss \<and>
     (\<exists>r. tmp_inv r \<and> Q r \<and> seg_chunks l = held r)"
proof (induction cs arbitrary: tmp)
  case Nil
  from flush [OF Nil] obtain s tmp' where
    "f tmp None = Inr (Some s, tmp')" "seg_inv s" "seg_chunks s = held tmp" by blast
  with Nil show ?case by (intro exI [of _ "[]"] exI [of _ s]) auto
next
  case (Cons c cs)
  from call [OF Cons.prems, of c] obtain s tmp' where
    1: "f tmp (Some c) = Inr (s, tmp')" "tmp_inv tmp'" "Q tmp'"
       "held tmp @ [c] = (case s of None \<Rightarrow> [] | Some s \<Rightarrow> seg_chunks s) @ held tmp'"
       "case s of None \<Rightarrow> True | Some s \<Rightarrow> seg_inv s \<and> P s" by blast
  from Cons.IH [OF 1(2,3)] obtain ss l where
    2: "segment_stream f tmp' cs = Inr (ss @ [l])" "concat (map seg_chunks (ss @ [l])) = held tmp' @ cs"
       "list_all seg_inv (ss @ [l])" "list_all P ss" "\<exists>r. tmp_inv r \<and> Q r \<and> seg_chunks l = held r" by blast
  have cat: "held tmp @ c # cs = (case s of None \<Rightarrow> [] | Some s \<Rightarrow> seg_chunks s) @ held tmp' @ cs"
    using 1(4) by (metis append.assoc append_Cons append_Nil)
  show ?case
  proof (cases s)
    case None
    with 1 2 cat show ?thesis by (intro exI [of _ ss] exI [of _ l]) simp
  next
    case (Some s')
    with 1 2 cat show ?thesis by (intro exI [of _ "s' # ss"] exI [of _ l]) simp
  qed
qed

lemma stream_partition:
  "\<exists>ss l. segment_stream f None cs = Inr (ss @ [l]) \<and> concat (map seg_chunks (ss @ [l])) = cs \<and>
     list_all seg_inv (ss @ [l]) \<and> list_all P ss \<and> (\<exists>r. tmp_inv r \<and> Q r \<and> seg_chunks l = held r)"
  using stream_from [of None cs] start by (simp add: tmp_inv_def held_def)

end

lemma mark_cases: "is_file_mark c \<longleftrightarrow> CHECK_CHUNK c CHUNK_FILE_START \<or> CHECK_CHUNK c CHUNK_FILE_END"
  by (simp add: is_file_mark_def)

text \<open>The three methods, their segments and what they keep of \<open>tmp\<close>.\<close>

definition below_avg :: "seg_cfg \<Rightarrow> segment option \<Rightarrow> bool" where
  "below_avg cfg tmp = (case tmp of None \<Rightarrow> 0 < seg_avg cfg | Some t \<Rightarrow> seg_chunk_num t < seg_avg cfg)"

definition below_max :: "seg_cfg \<Rightarrow> segment option \<Rightarrow> bool" where
  "below_max cfg tmp \<longleftrightarrow> 0 < index_segment_min cfg \<and> index_segment_min cfg < index_segment_max cfg \<and> seg_avg cfg \<noteq> 0 \<and>
     (case tmp of None \<Rightarrow> True | Some t \<Rightarrow> seg_chunk_num t < index_segment_max cfg)"

definition content_segment :: "seg_cfg \<Rightarrow> segment \<Rightarrow> bool" where
  "content_segment cfg s \<longleftrightarrow> index_segment_min cfg \<le> seg_chunk_num s \<and> seg_chunk_num s \<le> index_segment_max cfg"

definition file_segment :: "segment \<Rightarrow> bool" where
  "file_segment s \<longleftrightarrow> (\<exists>cs c. seg_chunks s = cs @ [c] \<and> CHECK_CHUNK c CHUNK_FILE_END \<and>
     (\<forall>d\<in>set cs. \<not> CHECK_CHUNK d CHUNK_FILE_END))"

lemma fixed_method:
  assumes "0 < seg_avg cfg"
  shows "segment_method (segment_fixed cfg) (\<lambda>s. seg_chunk_num s = seg_avg cfg) (below_avg cfg)"
proof
  fix tmp
  assume "tmp_inv tmp"
  then show "\<exists>s tmp'. segment_fixed cfg tmp None = Inr (Some s, tmp') \<and> seg_inv s \<and> seg_chunks s = held tmp"
    by (cases tmp) (auto simp: segment_fixed_def tmp_inv_def held_def seg_inv_new)
next
  fix tmp c
  assume inv: "tmp_inv tmp" "below_avg cfg tmp"
  define t where "t = (case tmp of None \<Rightarrow> new_segment | Some t \<Rightarrow> t)"
  have t: "seg_inv t" "held tmp = seg_chunks t" "seg_chunk_num t < seg_avg cfg"
    using inv by (auto simp: t_def tmp_inv_def held_def below_avg_def seg_inv_new split: option.splits)
  show "\<exists>s tmp'. segment_fixed cfg tmp (Some c) = Inr (s, tmp') \<and> tmp_inv tmp' \<and> below_avg cfg tmp' \<and>
        held tmp @ [c] = (case s of None \<Rightarrow> [] | Some s \<Rightarrow> seg_chunks s) @ held tmp' \<and>
        (case s of None \<Rightarrow> True | Some s \<Rightarrow> seg_inv s \<and> seg_chunk_num s = seg_avg cfg)"
    using t assms seg_append_mark [OF t(1), of c] seg_append_normal [OF t(1), of c]
    unfolding segment_fixed_def t_def [symmetric] mark_cases [symmetric]
    by (auto simp: Let_def tmp_inv_def held_def below_avg_def)
qed (use assms in \<open>simp add: below_avg_def\<close>)

lemma content_method:
  assumes "below_max cfg None"
  shows "segment_method (segment_content_defined be cfg) (content_segment cfg) (below_max cfg)"
proof
  fix tmp
  assume "tmp_inv tmp"
  then show "\<exists>s tmp'. segment_content_defined be cfg tmp None = Inr (Some s, tmp') \<and> seg_inv s \<and> seg_chunks s = held tmp"
    by (cases tmp) (auto simp: segment_content_defined_def tmp_inv_def held_def seg_inv_new)
next
  fix tmp c
  assume inv: "tmp_inv tmp" "below_max cfg tmp"
  define t where "t = (case tmp of None \<Rightarrow> new_segment | Some t \<Rightarrow> t)"
  have cfg: "0 < index_segment_min cfg" "index_segment_min cfg < index_segment_max cfg" "seg_avg cfg \<noteq> 0"
    using assms by (simp_all add: below_max_def)
  have t: "seg_inv t" "held tmp = seg_chunks t" "seg_chunk_num t < index_segment_max cfg"
    using inv cfg by (auto simp: t_def tmp_inv_def held_def below_max_def seg_inv_new split: option.splits)
  have n: "seg_inv (seg_count (seg_append c new_segment))" if "\<not> is_file_mark c"
    by (rule seg_append_normal [OF seg_inv_new(1) that])
  show "\<exists>s tmp'. segment_content_defined be cfg tmp (Some c) = Inr (s, tmp') \<and> tmp_inv tmp' \<and> below_max cfg tmp' \<and>
        held tmp @ [c] = (case s of None \<Rightarrow> [] | Some s \<Rightarrow> seg_chunks s) @ held tmp' \<and>
        (case s of None \<Rightarrow> True | Some s \<Rightarrow> seg_inv s \<and> content_segment cfg s)"
    using t cfg n seg_append_mark [OF t(1), of c] seg_append_normal [OF t(1), of c]
    unfolding segment_content_defined_def t_def [symmetric] mark_cases [symmetric]
    by (auto simp: Let_def tmp_inv_def held_def below_max_def content_segment_def c_mod_def seg_inv_new)
qed (use assms in simp)

lemma file_method:
  "segment_method (segment_file_defined cfg) file_segment
     (\<lambda>tmp. \<forall>d\<in>set (held tmp). \<not> CHECK_CHUNK d CHUNK_FILE_END)"
proof
  fix tmp
  assume "tmp_inv tmp"
  then show "\<exists>s tmp'. segment_file_defined cfg tmp None = Inr (Some s, tmp') \<and> seg_inv s \<and> seg_chunks s = held tmp"
    by (cases tmp) (auto simp: segment_file_defined_def tmp_inv_def held_def seg_inv_new)
next
  fix tmp c
  assume inv: "tmp_inv tmp" "\<forall>d\<in>set (held tmp). \<not> CHECK_CHUNK d CHUNK_FILE_END"
  define t where "t = (case tmp of None \<Rightarrow> new_segment | Some t \<Rightarrow> t)"
  have t: "seg_inv t" "held tmp = seg_chunks t"
    using inv by (auto simp: t_def tmp_inv_def held_def seg_inv_new split: option.splits)
  have m: "CHECK_CHUNK c CHUNK_FILE_END \<Longrightarrow> is_file_mark c" "CHECK_CHUNK c CHUNK_FILE_START \<Longrightarrow> is_file_mark c"
    "\<not> CHECK_CHUNK c CHUNK_FILE_END \<Longrightarrow> \<not> CHECK_CHUNK c CHUNK_FILE_START \<Longrightarrow> \<not> is_file_mark c"
    by (auto simp: is_file_mark_def)
  show "\<exists>s tmp'. segment_file_defined cfg tmp (Some c) = Inr (s, tmp') \<and> tmp_inv tmp' \<and>
        (\<forall>d\<in>set (held tmp'). \<not> CHECK_CHUNK d CHUNK_FILE_END) \<and>
        held tmp @ [c] = (case s of None \<Rightarrow> [] | Some s \<Rightarrow> seg_chunks s) @ held tmp' \<and>
        (case s of None \<Rightarrow> True | Some s \<Rightarrow> seg_inv s \<and> file_segment s)"
    using t inv(2) seg_append_mark [OF t(1), of c] seg_append_normal [OF t(1), of c] m
    unfolding segment_file_defined_def t_def [symmetric]
    by (auto simp: Let_def tmp_inv_def held_def file_segment_def)
qed (simp add: held_def)

text \<open>The last segment of a stream.\<close>

definition after_last_file :: "chunk list \<Rightarrow> chunk list" where
  "after_last_file cs = rev (takeWhile (\<lambda>c. \<not> CHECK_CHUNK c CHUNK_FILE_END) (rev cs))"

lemma below_max_count: "tmp_inv r \<Longrightarrow> below_max cfg r \<Longrightarrow> normal_count (held r) < index_segment_max cfg"
  by (cases r) (auto simp: below_max_def tmp_inv_def held_def seg_inv_def normal_count_def)

lemma last_file_segment:
  assumes "list_all file_segment ts" and "concat (map seg_chunks (ts @ [t])) = cs"
    and "\<forall>d\<in>set (seg_chunks t). \<not> CHECK_CHUNK d CHUNK_FILE_END"
  shows "seg_chunks t = after_last_file cs"
proof (cases ts rule: rev_cases)
  case Nil
  with assms have "seg_chunks t = cs" by simp
  with assms(3) have "takeWhile (\<lambda>c. \<not> CHECK_CHUNK c CHUNK_FILE_END) (rev cs) = rev cs"
    by (intro takeWhile_eq_all_conv [THEN iffD2]) simp
  with \<open>seg_chunks t = cs\<close> show ?thesis by (simp only: after_last_file_def rev_rev_ident)
next
  case (snoc us s)
  with assms(1) obtain ds c where s: "seg_chunks s = ds @ [c]" "CHECK_CHUNK c CHUNK_FILE_END"
    by (auto simp: file_segment_def)
  with assms(2) snoc have "cs = concat (map seg_chunks us) @ ds @ c # seg_chunks t" by simp
  moreover have "takeWhile (\<lambda>c. \<not> CHECK_CHUNK c CHUNK_FILE_END) (rev (seg_chunks t) @ c # ys) = rev (seg_chunks t)" for ys
    by (subst takeWhile_append2) (use s(2) assms(3) in simp_all)
  ultimately show ?thesis by (simp add: after_last_file_def)
qed

text \<open>The configurations of \<open>destor.c\<close> and of the sample configuration file.\<close>

definition default_seg_cfg :: seg_cfg where
  "default_seg_cfg = \<lparr>seg_avg = 1024, index_segment_min = 128, index_segment_max = 10240\<rparr>"

interpretation fixed_seg: segment_method "segment_fixed default_seg_cfg" "\<lambda>s. seg_chunk_num s = seg_avg default_seg_cfg"
    "below_avg default_seg_cfg"
  by (rule fixed_method) (simp add: default_seg_cfg_def)

interpretation content_seg: segment_method "segment_content_defined be default_seg_cfg" "content_segment default_seg_cfg"
    "below_max default_seg_cfg" for be
  by (rule content_method) (simp add: default_seg_cfg_def below_max_def)

interpretation file_seg: segment_method "segment_file_defined cfg" file_segment
    "\<lambda>tmp. \<forall>d\<in>set (held tmp). \<not> CHECK_CHUNK d CHUNK_FILE_END" for cfg
  by (rule file_method)

subsection \<open>Properties\<close>

text \<open>C29: every segmenting method, on every stream of chunks, returns segments whose chunks are the
  stream, in order and without loss, each with the right count of data chunks.\<close>

theorem segments_partition_stream:
  assumes "init_segmenting_method be alg cfg = Inr f" and "0 < seg_avg cfg"
    and "0 < index_segment_min cfg" "index_segment_min cfg < index_segment_max cfg"
  shows "\<exists>ss. segment_stream f None cs = Inr ss \<and> concat (map seg_chunks ss) = cs \<and> list_all seg_inv ss"
proof -
  have b: "below_max cfg None" using assms(2-4) by (simp add: below_max_def)
  show ?thesis
    using assms(1) segment_method.stream_partition [OF fixed_method [OF assms(2)], of cs]
      segment_method.stream_partition [OF content_method [OF b], of be cs]
      segment_method.stream_partition [OF file_method, of cfg cs]
    by (cases alg) (auto simp: init_segmenting_method_def)
qed

theorem segments_partition_stream_witness:
  "\<exists>ss. segment_stream (segment_fixed default_seg_cfg) None [new_chunk 5, new_chunk 6] = Inr ss \<and>
     concat (map seg_chunks ss) = [new_chunk 5, new_chunk 6] \<and> list_all seg_inv ss"
  by (rule segments_partition_stream [of True INDEX_SEGMENT_FIXED default_seg_cfg])
    (simp_all add: init_segmenting_method_def default_seg_cfg_def)



end
