(* ===== verification/Sampling.thy ===== *)
theory Sampling
  imports Segmenting "HOL-Library.List_Lexorder"
begin

text \<open>
  The sampling methods of \<open>index/sampling_method.c\<close>. A feature is the first
  \<open>index_key_size\<close> bytes of a fingerprint (\<open>ks\<close>), and a set of features is the list of keys
  of a hash table, in the order of insertion. \<open>m\<close> is \<open>index_sampling_method[1]\<close>. The
  sequence of candidates is a list; \<open>g_sequence_insert_sorted\<close> puts an element after the
  elements that are not greater.
\<close>

definition feature_set_add :: "byte list \<Rightarrow> byte list list \<Rightarrow> byte list list" where
  "feature_set_add f fs = (if f \<in> set fs then fs else fs @ [f])"

fun insert_sorted :: "('a \<Rightarrow> 'a \<Rightarrow> int) \<Rightarrow> 'a \<Rightarrow> 'a list \<Rightarrow> 'a list" where
  "insert_sorted cmp x [] = [x]"
| "insert_sorted cmp x (y # ys) = (if cmp y x \<le> 0 then y # insert_sorted cmp x ys else x # y # ys)"

definition min_feature_num :: "int \<Rightarrow> int \<Rightarrow> int" where
  "min_feature_num m chunk_num =
     (if m \<noteq> 0 \<and> chunk_num > m then
        (let remain = chunk_num mod m; feature_num = chunk_num div m in
         if remain * 2 > m then feature_num + 1 else feature_num)
      else 1)"

definition min_candidate :: "int \<Rightarrow> fingerprint list \<Rightarrow> chunk \<Rightarrow> fingerprint list" where
  "min_candidate feature_num candidates c =
     (if CHECK_CHUNK c CHUNK_FILE_START \<or> CHECK_CHUNK c CHUNK_FILE_END then candidates
      else if int (length candidates) < feature_num \<or> memcmp (ck_fp c) (List.last candidates) < 0 then
        (let candidates = insert_sorted g_fingerprint_cmp (ck_fp c) candidates in
         if int (length candidates) > feature_num then butlast candidates else candidates)
      else candidates)"

definition index_sampling_min :: "nat \<Rightarrow> int \<Rightarrow> chunk list \<Rightarrow> int \<Rightarrow> byte list list" where
  "index_sampling_min ks m chunks chunk_num =
     (let chunk_num = (if chunk_num = 0 then int (length chunks) else chunk_num);
          feature_num = min_feature_num m chunk_num;
          candidates = foldl (min_candidate feature_num) [] chunks;
          features = fold (\<lambda>c. feature_set_add (take ks c)) candidates []
      in if features = [] then [replicate ks 0xff] else features)"

record anchor =
  an_anchor :: fingerprint
  an_candidate :: fingerprint

text \<open>The state is the sliding window \<open>prefix\<close> of nine fingerprints, the number of chunks
  seen, and the anchors.\<close>

definition anchor_step :: "int \<Rightarrow> fingerprint list \<times> nat \<times> anchor list \<Rightarrow> chunk \<Rightarrow> fingerprint list \<times> nat \<times> anchor list" where
  "anchor_step feature_num = (\<lambda>(prefix, cnt, anchors) c.
     if CHECK_CHUNK c CHUNK_FILE_START \<or> CHECK_CHUNK c CHUNK_FILE_END then (prefix, cnt, anchors)
     else
       let prefix = ck_fp c # take 8 prefix;
           anchors =
             (if int (length anchors) < feature_num \<or> memcmp (ck_fp c) (an_anchor (List.last anchors)) < 0 then
                (let a = \<lparr>an_anchor = ck_fp c, an_candidate = (if cnt \<ge> 8 then prefix ! 8 else prefix ! cnt)\<rparr>;
                     anchors = insert_sorted (\<lambda>a b. g_fingerprint_cmp (an_anchor a) (an_anchor b)) a anchors
                 in if int (length anchors) > feature_num then butlast anchors else anchors)
              else anchors)
       in (prefix, cnt + 1, anchors))"

definition index_sampling_optimized_min :: "nat \<Rightarrow> int \<Rightarrow> chunk list \<Rightarrow> int \<Rightarrow> byte list list" where
  "index_sampling_optimized_min ks m chunks chunk_num =
     (let chunk_num = (if chunk_num = 0 then int (length chunks) else chunk_num);
          feature_num = min_feature_num m chunk_num;
          (prefix, cnt, anchors) = foldl (anchor_step feature_num) (replicate 9 (replicate 20 0xff), 0, []) chunks;
          features = fold (\<lambda>a. feature_set_add (take ks (an_candidate a))) anchors []
      in if features = [] then [replicate ks 0xff] else features)"

definition random_step :: "bool \<Rightarrow> nat \<Rightarrow> int \<Rightarrow> byte list list \<Rightarrow> chunk \<Rightarrow> byte list list" where
  "random_step be ks m features c =
     (if CHECK_CHUNK c CHUNK_FILE_START \<or> CHECK_CHUNK c CHUNK_FILE_END then features
      else if fp_head be (ck_fp c) mod m = 0 then feature_set_add (take ks (ck_fp c)) features
      else features)"

definition index_sampling_random :: "bool \<Rightarrow> nat \<Rightarrow> int \<Rightarrow> chunk list \<Rightarrow> int \<Rightarrow> byte list list res" where
  "index_sampling_random be ks m chunks chunk_num =
     rbind (c_assert (m \<noteq> 0)) (\<lambda>_.
     let features = foldl (random_step be ks m) [] chunks
     in Inr (if features = [] then [replicate ks 0] else features))"

definition uniform_step :: "nat \<Rightarrow> int \<Rightarrow> byte list list \<times> int \<Rightarrow> chunk \<Rightarrow> byte list list \<times> int" where
  "uniform_step ks m = (\<lambda>(features, cnt) c.
     ((if cnt mod m = 0 then feature_set_add (take ks (ck_fp c)) features else features), cnt + 1))"

definition index_sampling_uniform :: "nat \<Rightarrow> int \<Rightarrow> chunk list \<Rightarrow> int \<Rightarrow> byte list list res" where
  "index_sampling_uniform ks m chunks chunk_num =
     rbind (c_assert (m \<noteq> 0)) (\<lambda>_.
     let (features, cnt) = foldl (uniform_step ks m) ([], 0) chunks
     in if features = [] then rbind (c_assert (chunk_num = 0)) (\<lambda>_. Inr [replicate ks 0])
        else Inr features)"

datatype sampling_algorithm = INDEX_SAMPLING_RANDOM | INDEX_SAMPLING_MIN | INDEX_SAMPLING_UNIFORM
  | INDEX_SAMPLING_OPTIMIZED_MIN | INDEX_SAMPLING_INVALID

definition init_sampling_method :: "bool \<Rightarrow> nat \<Rightarrow> int \<Rightarrow> sampling_algorithm \<Rightarrow> (chunk list \<Rightarrow> int \<Rightarrow> byte list list res) res" where
  "init_sampling_method be ks m alg =
     (case alg of
        INDEX_SAMPLING_RANDOM \<Rightarrow> Inr (index_sampling_random be ks m)
      | INDEX_SAMPLING_OPTIMIZED_MIN \<Rightarrow> Inr (\<lambda>cs n. Inr (index_sampling_optimized_min ks m cs n))
      | INDEX_SAMPLING_MIN \<Rightarrow> Inr (\<lambda>cs n. Inr (index_sampling_min ks m cs n))
      | INDEX_SAMPLING_UNIFORM \<Rightarrow> Inr (index_sampling_uniform ks m)
      | INDEX_SAMPLING_INVALID \<Rightarrow> Inl ExitFailure)"

subsection \<open>Sets of features\<close>

lemma set_feature_add [simp]: "set (feature_set_add f fs) = insert f (set fs)"
  by (auto simp: feature_set_add_def)

lemma distinct_feature_add: "distinct fs \<Longrightarrow> distinct (feature_set_add f fs)"
  by (simp add: feature_set_add_def)

lemma fold_features:
  "set (fold (\<lambda>c. feature_set_add (g c)) cs fs) = g ` set cs \<union> set fs"
  "distinct fs \<Longrightarrow> distinct (fold (\<lambda>c. feature_set_add (g c)) cs fs)"
  by (induction cs arbitrary: fs) (auto simp: distinct_feature_add)

subsection \<open>The smallest fingerprints\<close>

lemma memcmp_less: "length a = length b \<Longrightarrow> memcmp a b < 0 \<longleftrightarrow> a < b"
  by (induction a b rule: memcmp.induct) (auto simp: list_less_def)

lemma memcmp_le: "length a = length b \<Longrightarrow> memcmp a b \<le> 0 \<longleftrightarrow> a \<le> b"
  using memcmp_0 [of a b] memcmp_less [of a b] by (auto simp: order_le_less)

lemma insert_sorted_insort:
  assumes "length x = 20" and "\<forall>y\<in>set ys. length y = 20" and "sorted ys"
  shows "insert_sorted g_fingerprint_cmp x ys = insort x ys"
  using assms(2,3)
proof (induction ys)
  case (Cons y ys)
  have "memcmp y x \<le> 0 \<longleftrightarrow> y \<le> x" using Cons.prems(1) assms(1) by (simp add: memcmp_le)
  then show ?case
    using Cons by (cases "x = y") (auto simp: g_fingerprint_cmp_def insort_is_Cons)
qed simp

lemma take_insort: "take k (insort x xs) = take k (insort x (take k xs))"
proof (induction xs arbitrary: k)
  case (Cons y xs)
  show ?case
  proof (cases k)
    case (Suc n)
    have "take n (y # xs) = take n (y # take n xs)" by (cases n) auto
    with Suc Cons.IH [of n] show ?thesis by simp
  qed simp
qed simp

lemma insort_above:
  assumes "sorted xs" and "\<forall>y\<in>set xs. y \<le> x"
  shows "insort x xs = xs @ [x]"
proof -
  have "sort (x # xs) = xs @ [x]"
    by (rule properties_for_sort) (use assms in \<open>simp_all add: sorted_append\<close>)
  with assms(1) show ?thesis by (simp add: sorted_sort_id)
qed

definition normal_fps :: "chunk list \<Rightarrow> fingerprint list" where
  "normal_fps cs = map ck_fp (filter (\<lambda>c. \<not> is_file_mark c) cs)"

lemma min_candidate_sorted:
  assumes "cands = take (nat k) (sort fps)" and "1 \<le> k" and "\<forall>f\<in>set fps. length f = 20" and "length (ck_fp c) = 20"
  shows "min_candidate k cands c = take (nat k) (sort (if is_file_mark c then fps else fps @ [ck_fp c]))"
proof (cases "is_file_mark c")
  case True
  then show ?thesis using assms(1) by (simp add: min_candidate_def mark_cases)
next
  case False
  let ?x = "ck_fp c"
  have cs: "sorted cands" "\<forall>y\<in>set cands. length y = 20"
    using assms(1,3) by (auto simp: sorted_wrt_take dest: in_set_takeD)
  have "sort (fps @ [?x]) = insort ?x (sort fps)"
    by (rule properties_for_sort) (simp_all add: sorted_insort)
  then have tgt: "take (nat k) (sort (fps @ [?x])) = take (nat k) (insort ?x cands)"
    using take_insort [of "nat k" ?x "sort fps"] assms(1) by simp
  have len: "length cands \<le> nat k" using assms(1) by simp
  show ?thesis
  proof (cases "int (length cands) < k \<or> memcmp ?x (List.last cands) < 0")
    case True
    have ins: "insert_sorted g_fingerprint_cmp ?x cands = insort ?x cands"
      by (rule insert_sorted_insort [OF assms(4) cs(2,1)])
    have "(if int (length (insort ?x cands)) > k then butlast (insort ?x cands) else insort ?x cands) =
        take (nat k) (insort ?x cands)"
    proof (cases "int (length (insort ?x cands)) > k")
      case True
      with len have "length cands = nat k" by auto
      then show ?thesis using True by (simp add: butlast_conv_take)
    qed (use assms(2) in auto)
    with True False ins tgt show ?thesis by (simp add: min_candidate_def mark_cases Let_def)
  next
    case ge: False
    with len have k: "length cands = nat k" by auto
    with assms(2) have ne: "cands \<noteq> []" by auto
    then have "length (List.last cands) = 20" using cs(2) by simp
    with ge memcmp_less [of ?x "List.last cands"] assms(4) have "List.last cands \<le> ?x" by (simp add: not_less)
    moreover have "\<forall>y\<in>set cands. y \<le> List.last cands"
      using cs(1) ne by (metis in_set_conv_nth last_conv_nth sorted_nth_mono diff_less le_numeral_extra(4) less_Suc_eq_le
          length_greater_0_conv Suc_pred One_nat_def zero_less_one)
    ultimately have "insort ?x cands = cands @ [?x]" using cs(1) by (intro insort_above) (auto intro: order_trans)
    with k ge False tgt show ?thesis by (simp add: min_candidate_def mark_cases)
  qed
qed

lemma min_candidates:
  assumes "1 \<le> k" and "\<forall>c\<in>set cs. length (ck_fp c) = 20"
  shows "foldl (min_candidate k) [] cs = take (nat k) (sort (normal_fps cs))"
  using assms(2)
proof (induction cs rule: rev_induct)
  case (snoc c cs)
  then have IH: "foldl (min_candidate k) [] cs = take (nat k) (sort (normal_fps cs))" by simp
  have "\<forall>f\<in>set (normal_fps cs). length f = 20" using snoc.prems by (auto simp: normal_fps_def)
  from min_candidate_sorted [OF IH assms(1) this, of c] snoc.prems show ?case
    by (simp add: normal_fps_def)
qed (simp add: normal_fps_def)

lemma min_feature_num_pos: "0 \<le> m \<Longrightarrow> 1 \<le> min_feature_num m n"
proof (cases "m \<noteq> 0 \<and> n > m")
  case True
  assume "0 \<le> m"
  with True have "1 \<le> n div m" by (simp add: pos_imp_zdiv_pos_iff int_one_le_iff_zero_less)
  with True show ?thesis by (simp add: min_feature_num_def Let_def)
qed (auto simp: min_feature_num_def)

text \<open>C33: min sampling selects the key prefixes of the k smallest fingerprints of the segment, k being the number of features the segment size asks for.\<close>

lemma sampling_min_set:
  assumes "0 \<le> m" and "\<forall>c\<in>set cs. length (ck_fp c) = 20" and "normal_fps cs \<noteq> []"
  shows "set (index_sampling_min ks m cs n) =
     take ks ` set (take (nat (min_feature_num m (if n = 0 then int (length cs) else n))) (sort (normal_fps cs)))"
proof -
  let ?k = "min_feature_num m (if n = 0 then int (length cs) else n)"
  let ?c = "take (nat ?k) (sort (normal_fps cs))"
  have k: "1 \<le> ?k" by (rule min_feature_num_pos [OF assms(1)])
  have c: "foldl (min_candidate ?k) [] cs = ?c" by (rule min_candidates [OF k assms(2)])
  have "sort (normal_fps cs) \<noteq> []" using assms(3) by (metis set_empty set_sort)
  then have "set ?c \<noteq> {}" using k by simp
  moreover have "set (fold (\<lambda>c. feature_set_add (take ks c)) ?c []) = take ks ` set ?c"
    using fold_features(1) [of "take ks" ?c "[]"] by simp
  ultimately have "fold (\<lambda>c. feature_set_add (take ks c)) ?c [] \<noteq> []" by (metis image_is_empty list.set(1))
  then show ?thesis
    using fold_features(1) [of "take ks" ?c "[]"] by (simp add: index_sampling_min_def Let_def c)
qed

theorem sampling_min_set_witness:
  "set (index_sampling_min 4 0 [new_chunk 1, new_chunk 2] 2) =
     take 4 ` set (take (nat (min_feature_num 0 (if (2 :: int) = 0 then int (length [new_chunk 1, new_chunk 2]) else 2))) (sort (normal_fps [new_chunk 1, new_chunk 2])))"
  by (rule sampling_min_set) (simp_all add: new_chunk_def zero_fp_def normal_fps_def is_file_mark_def CHECK_CHUNK_def cfg_simps)

subsection \<open>Random and uniform sampling\<close>

definition sampled :: "bool \<Rightarrow> int \<Rightarrow> chunk \<Rightarrow> bool" where
  "sampled be m c \<longleftrightarrow> \<not> is_file_mark c \<and> fp_head be (ck_fp c) mod m = 0"

lemma random_step_sampled:
  "random_step be ks m fs c = (if sampled be m c then feature_set_add (take ks (ck_fp c)) fs else fs)"
  by (simp add: random_step_def sampled_def mark_cases)

lemma random_fold:
  "set (foldl (random_step be ks m) fs cs) = set fs \<union> (\<lambda>c. take ks (ck_fp c)) ` {c \<in> set cs. sampled be m c}"
  by (induction cs arbitrary: fs) (auto simp: random_step_sampled)

lemma uniform_fold:
  "foldl (uniform_step ks m) (fs, n) cs =
     (fold (\<lambda>i. feature_set_add (take ks (ck_fp (cs ! i)))) (filter (\<lambda>i. (n + int i) mod m = 0) [0..<length cs]) fs, n + int (length cs))"
proof (induction cs arbitrary: fs n rule: rev_induct)
  case (snoc c cs)
  have "fold (\<lambda>i. feature_set_add (take ks (ck_fp ((cs @ [c]) ! i)))) (filter (\<lambda>i. (n + int i) mod m = 0) [0..<length cs]) fs =
      fold (\<lambda>i. feature_set_add (take ks (ck_fp (cs ! i)))) (filter (\<lambda>i. (n + int i) mod m = 0) [0..<length cs]) fs"
    by (rule fold_cong) (auto simp: nth_append)
  with snoc show ?case by (simp add: uniform_step_def)
qed simp

text \<open>Uniform sampling with ratio m selects the key prefix of every m-th chunk of the list, counted from the first, without repetition.\<close>

lemma uniform_set:
  assumes "m \<noteq> 0" and "cs \<noteq> []"
  shows "\<exists>fs. index_sampling_uniform ks m cs n = Inr fs \<and> distinct fs \<and>
     set fs = {take ks (ck_fp (cs ! i)) | i. i < length cs \<and> int i mod m = 0}"
proof -
  let ?is = "filter (\<lambda>i. (0 + int i) mod m = 0) [0..<length cs]"
  let ?fs = "fold (\<lambda>i. feature_set_add (take ks (ck_fp (cs ! i)))) ?is []"
  have set: "set ?fs = {take ks (ck_fp (cs ! i)) | i. i < length cs \<and> int i mod m = 0}"
    using fold_features(1) [of "\<lambda>i. take ks (ck_fp (cs ! i))" ?is "[]"] by auto
  have "take ks (ck_fp (cs ! 0)) \<in> set ?fs" unfolding set using assms(2) by (auto intro!: exI [of _ 0])
  then have "?fs \<noteq> []" by auto
  then have "index_sampling_uniform ks m cs n = Inr ?fs"
    using assms(1) uniform_fold [of ks m "[]" 0 cs] by (simp add: index_sampling_uniform_def)
  with set fold_features(2) [of "[]" "\<lambda>i. take ks (ck_fp (cs ! i))" ?is] show ?thesis by auto
qed

theorem uniform_set_witness:
  "\<exists>fs. index_sampling_uniform 4 2 [new_chunk 1, new_chunk 2, new_chunk 3] 3 = Inr fs \<and> distinct fs \<and>
     set fs = {take 4 (ck_fp ([new_chunk 1, new_chunk 2, new_chunk 3] ! i)) | i. i < length [new_chunk 1, new_chunk 2, new_chunk 3] \<and> int i mod 2 = 0}"
  by (rule uniform_set) simp_all

subsection \<open>Properties\<close>

text \<open>C34: random sampling selects exactly the key prefixes of those fingerprints whose sampling word
  is divisible by the sample ratio, whatever their order, and the zero key when there is none.\<close>

theorem random_sampling_set:
  assumes "m \<noteq> 0"
  shows "\<exists>fs. index_sampling_random be ks m cs n = Inr fs \<and>
     set fs = (if \<exists>c\<in>set cs. sampled be m c then (\<lambda>c. take ks (ck_fp c)) ` {c \<in> set cs. sampled be m c} else {replicate ks 0})"
proof -
  have s: "set (foldl (random_step be ks m) [] cs) = (\<lambda>c. take ks (ck_fp c)) ` {c \<in> set cs. sampled be m c}"
    by (simp add: random_fold)
  show ?thesis
  proof (cases "foldl (random_step be ks m) [] cs = []")
    case True
    with s have "\<not> (\<exists>c\<in>set cs. sampled be m c)" by auto
    with True assms show ?thesis by (simp add: index_sampling_random_def)
  next
    case False
    then have "set (foldl (random_step be ks m) [] cs) \<noteq> {}" by simp
    with s have "\<exists>c\<in>set cs. sampled be m c" by auto
    with False s assms show ?thesis by (simp add: index_sampling_random_def)
  qed
qed

theorem random_sampling_set_witness:
  "\<exists>fs. index_sampling_random False 4 2 [new_chunk 1, (new_chunk 2)\<lparr>ck_fp := replicate 20 1\<rparr>] 2 = Inr fs \<and>
     set fs = (if \<exists>c\<in>set [new_chunk 1, (new_chunk 2)\<lparr>ck_fp := replicate 20 1\<rparr>]. sampled False 2 c
       then (\<lambda>c. take 4 (ck_fp c)) ` {c \<in> set [new_chunk 1, (new_chunk 2)\<lparr>ck_fp := replicate 20 1\<rparr>]. sampled False 2 c} else {replicate 4 0})"
  by (rule random_sampling_set) simp

end
