(* ===== verification/Index.thy ===== *)
theory Index
  imports Kvstore Gc_Rtm Recipe_Store Lru_Cache Sampling
begin

text \<open>
  The fingerprint index: \<open>index/index.c\<close>, \<open>index/fingerprint_cache.c\<close> and
  \<open>index/similarity_detection.c\<close>. \<open>index_state\<close> collects the statics of the three files, the
  key-value table and the garbage collector's tables; \<open>ix_env\<close> holds the two readers the
  prefetching calls, which \<open>store_env\<close> builds from the container and the recipe store.
  \<open>cb\<close> is \<open>storage_buffer.container_buffer\<close>, \<open>junk\<close> the uninitialised \<open>chunk_num\<close> of a new
  shift node. A queue of the index buffer is the list of its elements, oldest first.
\<close>

datatype category = INDEX_CATEGORY_EXACT | INDEX_CATEGORY_NEAR_EXACT
datatype locality = INDEX_CATEGORY_PHYSICAL_LOCALITY | INDEX_CATEGORY_LOGICAL_LOCALITY
datatype selection = INDEX_SEGMENT_SELECT_BASE | INDEX_SEGMENT_SELECT_TOP | INDEX_SEGMENT_SELECT_MIX

record ix_cfg =
  index_category0 :: category
  index_category1 :: locality
  index_key_size :: nat
  index_value_length :: nat
  index_cache_size :: int
  index_segment_prefech :: int
  selection0 :: selection
  selection1 :: int
  wait_threshold :: int

record indexElem =
  ie_id :: containerid
  ie_fp :: fingerprint

record index_state =
  lru_meta :: "containerMeta lruCache"
  lru_seg :: "segmentRecipe lruCache"
  htable :: kvtable
  buffered_fingerprints :: "(fingerprint, indexElem list) htable"
  chunk_num :: int
  lookup_requests :: int
  update_requests :: int
  lookup_requests_for_unique :: int
  read_prefetching_units :: int
  ix_rtm :: rtm_state

record ix_env =
  en_meta :: "containerid \<Rightarrow> containerMeta res"
  en_segs :: "segmentid \<Rightarrow> int \<Rightarrow> segmentRecipe list res"

definition store_env ::
  "bool \<Rightarrow> meta_iter \<Rightarrow> int \<Rightarrow> container list \<Rightarrow> byte list \<Rightarrow> chunkPointer \<Rightarrow> recipe_dir \<Rightarrow> backupVersion \<Rightarrow> ix_env" where
  "store_env be iter sim buffer pool junk dir bv =
     \<lparr>en_meta = retrieve_container_meta_by_id be iter sim buffer pool,
      en_segs = prefetch_segments be junk dir bv\<rparr>"

subsection \<open>The fingerprint cache\<close>

definition init_fingerprint_cache :: "ix_cfg \<Rightarrow> index_state \<Rightarrow> index_state" where
  "init_fingerprint_cache cfg s =
     (case index_category1 cfg of
        INDEX_CATEGORY_PHYSICAL_LOCALITY \<Rightarrow> s\<lparr>lru_meta := new_lru_cache (index_cache_size cfg)\<rparr>
      | INDEX_CATEGORY_LOGICAL_LOCALITY \<Rightarrow> s\<lparr>lru_seg := new_lru_cache (index_cache_size cfg)\<rparr>)"

definition fingerprint_cache_lookup :: "ix_cfg \<Rightarrow> fingerprint \<Rightarrow> index_state \<Rightarrow> (int \<times> index_state) res" where
  "fingerprint_cache_lookup cfg fp s =
     (case index_category1 cfg of
        INDEX_CATEGORY_PHYSICAL_LOCALITY \<Rightarrow>
          (let (cm, l) = lru_cache_lookup (\<lambda>m. lookup_fingerprint_in_container_meta m fp) (lru_meta s)
           in Inr (case cm of Some cm \<Rightarrow> cm_id cm | None \<Rightarrow> TEMPORARY_ID, s\<lparr>lru_meta := l\<rparr>))
      | INDEX_CATEGORY_LOGICAL_LOCALITY \<Rightarrow>
          (let (sr, l) = lru_cache_lookup (\<lambda>r. lookup_fingerprint_in_segment_recipe r fp) (lru_seg s); s = s\<lparr>lru_seg := l\<rparr>
           in case sr of
                None \<Rightarrow> Inr (TEMPORARY_ID, s)
              | Some sr \<Rightarrow>
                  (case map_of (sr_kvpairs sr) fp of
                     None \<Rightarrow> Inl NullDeref
                   | Some cp \<Rightarrow> rbind (c_assert (cp_id cp > TEMPORARY_ID)) (\<lambda>_. Inr (cp_id cp, s)))))"

definition cache_segment :: "segmentRecipe \<Rightarrow> segmentRecipe lruCache \<Rightarrow> segmentRecipe lruCache res" where
  "cache_segment sr l =
     (case lru_cache_hits (\<lambda>r. segment_recipe_check_id r (sr_id sr)) l of
        (None, l) \<Rightarrow> rbind (lru_cache_insert l sr) (\<lambda>(_, l). Inr l)
      | (Some _, l) \<Rightarrow> Inr l)"

definition fingerprint_cache_prefetch :: "ix_cfg \<Rightarrow> ix_env \<Rightarrow> int \<Rightarrow> index_state \<Rightarrow> index_state res" where
  "fingerprint_cache_prefetch cfg env i s =
     (case index_category1 cfg of
        INDEX_CATEGORY_PHYSICAL_LOCALITY \<Rightarrow>
          rbind (en_meta env i) (\<lambda>cm.
          rbind (lru_cache_insert (lru_meta s) cm) (\<lambda>(_, l).
            Inr (s\<lparr>read_prefetching_units := read_prefetching_units s + 1, lru_meta := l\<rparr>)))
      | INDEX_CATEGORY_LOGICAL_LOCALITY \<Rightarrow>
          (case lru_cache_hits (\<lambda>r. segment_recipe_check_id r i) (lru_seg s) of
             (Some _, l) \<Rightarrow> Inr (s\<lparr>lru_seg := l\<rparr>)
           | (None, l) \<Rightarrow>
               rbind (en_segs env i (index_segment_prefech cfg)) (\<lambda>segments.
               rbind (rfold cache_segment (rev segments) l) (\<lambda>l.
                 Inr (s\<lparr>read_prefetching_units := read_prefetching_units s + 1, lru_seg := l\<rparr>)))))"

subsection \<open>Looking up a segment\<close>

text \<open>What the base lookup records for the garbage collector when a duplicate lies in a
  container of an earlier backup.\<close>

definition reference_chunk :: "ix_env \<Rightarrow> int \<Rightarrow> fingerprint \<Rightarrow> containerid \<Rightarrow> rtm_state \<Rightarrow> rtm_state res" where
  "reference_chunk env junk fp i r =
     (if i < container_count_start r then
        rbind (en_meta env i) (\<lambda>cm.
        let r = (if i \<notin> set (id_shift_hash r) then
              (let r = r\<lparr>id_shift_hash := i # id_shift_hash r\<rparr>;
                   r = id_shift_AddEnd junk \<lparr>sh_container_id = i, sh_chunk_shift = globle_shift r, sh_chunk_num = cm_chunk_num cm\<rparr> r
               in r\<lparr>globle_shift := globle_shift r + cm_chunk_num cm\<rparr>)
            else r)
        in case map_of (cm_map cm) fp of
             None \<Rightarrow> Inl NullDeref
           | Some me \<Rightarrow>
               (case me_position me of
                  None \<Rightarrow> Inl OutOfBounds
                | Some index_shift \<Rightarrow>
                    rbind (set_index_bit (index_shift + get_shift_by_id (ishead r) i) (index_bit r)) (\<lambda>a.
                      Inr (r\<lparr>index_bit := a\<rparr>))))
      else Inr r)"

definition take_id :: "bool \<Rightarrow> ix_env \<Rightarrow> int \<Rightarrow> containerid \<Rightarrow> chunk \<times> index_state \<Rightarrow> (chunk \<times> index_state) res" where
  "take_id track env junk i = (\<lambda>(c, s).
     rbind (if track then reference_chunk env junk (ck_fp c) i (ix_rtm s) else Inr (ix_rtm s)) (\<lambda>r.
       Inr (SET_CHUNK (c\<lparr>ck_id := i\<rparr>) CHUNK_DUPLICATE, s\<lparr>ix_rtm := r\<rparr>)))"

definition check_storage :: "container option \<Rightarrow> chunk \<Rightarrow> chunk" where
  "check_storage cb c =
     (case cb of
        None \<Rightarrow> c
      | Some b \<Rightarrow>
          if lookup_fingerprint_in_container b (ck_fp c)
          then SET_CHUNK (SET_CHUNK (c\<lparr>ck_id := get_container_id b\<rparr>) CHUNK_DUPLICATE) CHUNK_REWRITE_DENIED
          else c)"

definition check_buffered :: "index_state \<Rightarrow> chunk \<Rightarrow> (indexElem list \<times> chunk) res" where
  "check_buffered s c =
     (case map_of (buffered_fingerprints s) (ck_fp c) of
        None \<Rightarrow> Inr ([], c)
      | Some tq \<Rightarrow>
          if \<not> CHECK_CHUNK c CHUNK_DUPLICATE then
            (case tq of [] \<Rightarrow> Inl NullDeref | be # _ \<Rightarrow> Inr (tq, SET_CHUNK (c\<lparr>ck_id := ie_id be\<rparr>) CHUNK_DUPLICATE))
          else Inr (tq, c))"

definition check_cache :: "bool \<Rightarrow> ix_cfg \<Rightarrow> ix_env \<Rightarrow> int \<Rightarrow> chunk \<times> index_state \<Rightarrow> (chunk \<times> index_state) res" where
  "check_cache track cfg env junk = (\<lambda>(c, s).
     if \<not> CHECK_CHUNK c CHUNK_DUPLICATE then
       rbind (fingerprint_cache_lookup cfg (ck_fp c) s) (\<lambda>(i, s).
         if i \<noteq> TEMPORARY_ID then take_id track env junk i (c, s) else Inr (c, s))
     else Inr (c, s))"

definition check_kvstore :: "bool \<Rightarrow> ix_cfg \<Rightarrow> ix_env \<Rightarrow> int \<Rightarrow> chunk \<times> index_state \<Rightarrow> (chunk \<times> index_state) res" where
  "check_kvstore track cfg env junk = (\<lambda>(c, s).
     if \<not> CHECK_CHUNK c CHUNK_DUPLICATE then
       (case kvstore_htable_lookup (index_key_size cfg) (htable s) (ck_fp c) of
          None \<Rightarrow> Inr (c, s\<lparr>lookup_requests_for_unique := lookup_requests_for_unique s + 1\<rparr>)
        | Some [] \<Rightarrow> Inl OutOfBounds
        | Some (i0 # _) \<Rightarrow>
            rbind (fingerprint_cache_prefetch cfg env i0 (s\<lparr>lookup_requests := lookup_requests s + 1\<rparr>)) (\<lambda>s.
            rbind (fingerprint_cache_lookup cfg (ck_fp c) s) (\<lambda>(i, s).
              if i \<noteq> TEMPORARY_ID then take_id track env junk i (c, s) else Inr (c, s))))
     else Inr (c, s))"

definition push_buffered :: "indexElem list \<Rightarrow> chunk \<Rightarrow> index_state \<Rightarrow> index_state" where
  "push_buffered tq c s =
     s\<lparr>buffered_fingerprints := AList.update (ck_fp c) (tq @ [\<lparr>ie_id = ck_id c, ie_fp = ck_fp c\<rparr>]) (buffered_fingerprints s),
       chunk_num := chunk_num s + 1\<rparr>"

text \<open>The body of the loops of \<open>index_lookup_base\<close> (\<open>track\<close> and \<open>usekv\<close> true) and of
  \<open>index_lookup_similarity_detection\<close> (\<open>track\<close> false).\<close>

definition index_lookup_chunk ::
  "bool \<Rightarrow> bool \<Rightarrow> ix_cfg \<Rightarrow> ix_env \<Rightarrow> int \<Rightarrow> container option \<Rightarrow> chunk \<Rightarrow> index_state \<Rightarrow> (chunk \<times> index_state) res" where
  "index_lookup_chunk track usekv cfg env junk cb c s =
     (if CHECK_CHUNK c CHUNK_FILE_START \<or> CHECK_CHUNK c CHUNK_FILE_END then Inr (c, s)
      else
        rbind (check_buffered s (check_storage cb c)) (\<lambda>(tq, c).
        rbind (check_cache track cfg env junk (c, s)) (\<lambda>(c, s).
        rbind (if usekv then check_kvstore track cfg env junk (c, s) else Inr (c, s)) (\<lambda>(c, s).
          Inr (c, push_buffered tq c s)))))"

fun lookup_chunks ::
  "(chunk \<Rightarrow> index_state \<Rightarrow> (chunk \<times> index_state) res) \<Rightarrow> chunk list \<Rightarrow> index_state \<Rightarrow> (chunk list \<times> index_state) res" where
  "lookup_chunks f [] s = Inr ([], s)"
| "lookup_chunks f (c # cs) s =
     rbind (f c s) (\<lambda>(c, s). rbind (lookup_chunks f cs s) (\<lambda>(cs, s). Inr (c # cs, s)))"

definition index_lookup_base ::
  "ix_cfg \<Rightarrow> ix_env \<Rightarrow> int \<Rightarrow> container option \<Rightarrow> segment \<Rightarrow> index_state \<Rightarrow> (segment \<times> index_state) res" where
  "index_lookup_base cfg env junk cb sg s =
     rbind (lookup_chunks (index_lookup_chunk True True cfg env junk cb) (seg_chunks sg) s) (\<lambda>(cs, s).
       Inr (sg\<lparr>seg_chunks := cs\<rparr>, s))"

subsection \<open>Similarity detection\<close>

definition g_segment_cmp_feature_num :: "segment \<Rightarrow> segment \<Rightarrow> int" where
  "g_segment_cmp_feature_num a b =
     (let r = int (length (the (seg_features b))) - int (length (the (seg_features a))) in
      if r = 0 then (if seg_id b > seg_id a then 1 else -1) else r)"

definition features_trim :: "segment \<Rightarrow> segment \<Rightarrow> segment" where
  "features_trim tp target =
     target\<lparr>seg_features := map_option (filter (\<lambda>f. f \<notin> set (the (seg_features tp)))) (seg_features target)\<rparr>"

fun add_similar :: "byte list \<Rightarrow> int list \<Rightarrow> segment list \<Rightarrow> segment list res" where
  "add_similar key [] sims = Inr sims"
| "add_similar key (i # is) sims =
     (if i = TEMPORARY_ID then Inr sims
      else
        let sims = (if i \<in> seg_id ` set sims then sims else sims @ [new_segment_full\<lparr>seg_id := i\<rparr>])
        in rbind (c_assert (\<forall>g\<in>set sims. seg_id g = i \<longrightarrow> key \<notin> set (the (seg_features g)))) (\<lambda>_.
           add_similar key is
             (map (\<lambda>g. if seg_id g = i then g\<lparr>seg_features := Some (the (seg_features g) @ [key])\<rparr> else g) sims)))"

definition similar_step :: "ix_cfg \<Rightarrow> byte list \<Rightarrow> segment list \<times> index_state \<Rightarrow> (segment list \<times> index_state) res" where
  "similar_step cfg key = (\<lambda>(sims, s).
     case kvstore_htable_lookup (index_key_size cfg) (htable s) key of
       None \<Rightarrow> Inr (sims, s\<lparr>lookup_requests_for_unique := lookup_requests_for_unique s + 1\<rparr>)
     | Some ids \<Rightarrow>
         rbind (add_similar key (take (index_value_length cfg) ids) sims) (\<lambda>sims.
           Inr (sims, s\<lparr>lookup_requests := lookup_requests s + 1\<rparr>)))"

fun select_tops :: "ix_cfg \<Rightarrow> ix_env \<Rightarrow> nat \<Rightarrow> segment list \<Rightarrow> index_state \<Rightarrow> index_state res" where
  "select_tops cfg env 0 sq s = Inr s"
| "select_tops cfg env (Suc n) [] s = Inl NullDeref"
| "select_tops cfg env (Suc n) (tp # sq) s =
     rbind (fingerprint_cache_prefetch cfg env (seg_id tp) s) (\<lambda>s.
       select_tops cfg env n (fold (insert_sorted g_segment_cmp_feature_num) (map (features_trim tp) sq) []) s)"

definition top_segment_select ::
  "(byte list list \<Rightarrow> byte list list) \<Rightarrow> (segment list \<Rightarrow> segment list) \<Rightarrow> ix_cfg \<Rightarrow> ix_env \<Rightarrow> byte list list \<Rightarrow> index_state \<Rightarrow> index_state res" where
  "top_segment_select fiter siter cfg env features s =
     rbind (rfold (similar_step cfg) (fiter features) ([], s)) (\<lambda>(sims, s).
     if length sims \<noteq> 0 then
       (let sq = fold (insert_sorted g_segment_cmp_feature_num) (siter sims) [];
            num = (if int (length sq) > selection1 cfg then selection1 cfg else int (length sq))
        in select_tops cfg env (nat num) sq s)
     else Inr s)"

definition index_lookup_similarity_detection ::
  "(byte list list \<Rightarrow> byte list list) \<Rightarrow> (segment list \<Rightarrow> segment list) \<Rightarrow> ix_cfg \<Rightarrow> ix_env \<Rightarrow> int \<Rightarrow> container option \<Rightarrow>
   segment \<Rightarrow> index_state \<Rightarrow> (segment \<times> index_state) res" where
  "index_lookup_similarity_detection fiter siter cfg env junk cb sg s =
     rbind (c_assert (seg_features sg \<noteq> None)) (\<lambda>_.
     rbind (top_segment_select fiter siter cfg env (the (seg_features sg)) s) (\<lambda>s.
     rbind (lookup_chunks
         (index_lookup_chunk False (index_category0 cfg = INDEX_CATEGORY_EXACT \<or> selection0 cfg = INDEX_SEGMENT_SELECT_MIX)
            cfg env junk cb) (seg_chunks sg) s) (\<lambda>(cs, s).
       Inr (sg\<lparr>seg_chunks := cs\<rparr>, s))))"

text \<open>\<open>None\<close>: the index buffer is full.\<close>

definition index_lookup ::
  "(byte list list \<Rightarrow> byte list list) \<Rightarrow> (segment list \<Rightarrow> segment list) \<Rightarrow> (chunk list \<Rightarrow> int \<Rightarrow> byte list list res) \<Rightarrow>
   ix_cfg \<Rightarrow> ix_env \<Rightarrow> int \<Rightarrow> container option \<Rightarrow> segment \<Rightarrow> index_state \<Rightarrow> (segment option \<times> index_state) res" where
  "index_lookup fiter siter sampling cfg env junk cb sg s =
     (if wait_threshold cfg > 0 \<and> chunk_num s \<ge> wait_threshold cfg then Inr (None, s)
      else if index_category1 cfg = INDEX_CATEGORY_LOGICAL_LOCALITY \<and> selection0 cfg \<noteq> INDEX_SEGMENT_SELECT_BASE then
        rbind (sampling (seg_chunks sg) (seg_chunk_num sg)) (\<lambda>f.
        rbind (index_lookup_similarity_detection fiter siter cfg env junk cb (sg\<lparr>seg_features := Some f\<rparr>) s) (\<lambda>(sg, s).
          Inr (Some sg, s)))
      else rbind (index_lookup_base cfg env junk cb sg s) (\<lambda>(sg, s). Inr (Some sg, s)))"

subsection \<open>Updating\<close>

definition index_update :: "ix_cfg \<Rightarrow> (byte list list \<Rightarrow> byte list list) \<Rightarrow> byte list list \<Rightarrow> int \<Rightarrow> index_state \<Rightarrow> index_state res" where
  "index_update cfg iter features i s =
     rfold (\<lambda>key s. rbind (kvstore_htable_update (index_key_size cfg) (index_value_length cfg) key i (htable s)) (\<lambda>t.
       Inr (s\<lparr>htable := t, update_requests := update_requests s + 1\<rparr>))) (iter features) s"

definition index_delete :: "ix_cfg \<Rightarrow> fingerprint \<Rightarrow> int \<Rightarrow> index_state \<Rightarrow> index_state res" where
  "index_delete cfg fp i s =
     rbind (kvstore_htable_delete (index_key_size cfg) fp i (htable s)) (\<lambda>t. Inr (s\<lparr>htable := t\<rparr>))"

definition check_buffer_chunk :: "index_state \<Rightarrow> chunk \<Rightarrow> chunk res" where
  "check_buffer_chunk s c =
     (if CHECK_CHUNK c CHUNK_FILE_START \<or> CHECK_CHUNK c CHUNK_FILE_END then Inr c
      else if (CHECK_CHUNK c CHUNK_DUPLICATE \<and> ck_id c = TEMPORARY_ID) \<or> CHECK_CHUNK c CHUNK_OUT_OF_ORDER
          \<or> CHECK_CHUNK c CHUNK_SPARSE then
        (case map_of (buffered_fingerprints s) (ck_fp c) of
           None \<Rightarrow> Inl AssertFailed
         | Some [] \<Rightarrow> Inl NullDeref
         | Some (be # _) \<Rightarrow>
             if ie_id be > ck_id c then
               (let c = (if ck_id c \<noteq> TEMPORARY_ID then SET_CHUNK c CHUNK_REWRITE_DENIED else c)
                in Inr (c\<lparr>ck_id := ie_id be\<rparr>))
             else Inr c)
      else Inr c)"

definition index_check_buffer :: "segment \<Rightarrow> index_state \<Rightarrow> segment res" where
  "index_check_buffer sg s =
     rbind (rmap (check_buffer_chunk s) (seg_chunks sg)) (\<lambda>cs. Inr (sg\<lparr>seg_chunks := cs\<rparr>))"

definition update_buffer_chunk :: "chunk \<Rightarrow> index_state \<Rightarrow> index_state res" where
  "update_buffer_chunk c s =
     (if CHECK_CHUNK c CHUNK_FILE_START \<or> CHECK_CHUNK c CHUNK_FILE_END then Inr s
      else rbind (c_assert (ck_id c \<noteq> TEMPORARY_ID)) (\<lambda>_.
        case map_of (buffered_fingerprints s) (ck_fp c) of
          None \<Rightarrow> Inl NullDeref
        | Some bq \<Rightarrow>
            let bq = tl bq;
                t = (if bq = [] then AList.delete (ck_fp c) (buffered_fingerprints s)
                     else AList.update (ck_fp c) (map (\<lambda>e. e\<lparr>ie_id := ck_id c\<rparr>) bq) (buffered_fingerprints s))
            in Inr (s\<lparr>buffered_fingerprints := t, chunk_num := chunk_num s - 1\<rparr>)))"

text \<open>True: the buffer remains full.\<close>

definition index_update_buffer :: "ix_cfg \<Rightarrow> segment \<Rightarrow> index_state \<Rightarrow> (bool \<times> index_state) res" where
  "index_update_buffer cfg sg s =
     rbind (rfold update_buffer_chunk (seg_chunks sg) s) (\<lambda>s.
       Inr (\<not> (wait_threshold cfg \<le> 0 \<or> chunk_num s < wait_threshold cfg), s))"

subsection \<open>Start of a job\<close>

text \<open>The counters, the empty buffer and the cache of \<open>init_index\<close>; the table comes from
  \<open>init_kvstore\<close>. \<open>ddfs_cfg\<close>: what it makes of \<open>INDEX_SPECIFIC_DDFS\<close>.\<close>

definition index_start :: "ix_cfg \<Rightarrow> kvtable \<Rightarrow> rtm_state \<Rightarrow> index_state" where
  "index_start cfg t r = init_fingerprint_cache cfg
     \<lparr>lru_meta = new_lru_cache 0, lru_seg = new_lru_cache 0, htable = t, buffered_fingerprints = [], chunk_num = 0,
      lookup_requests = 0, update_requests = 0, lookup_requests_for_unique = 0, read_prefetching_units = 0, ix_rtm = r\<rparr>"

definition ddfs_cfg :: ix_cfg where
  "ddfs_cfg = \<lparr>index_category0 = INDEX_CATEGORY_EXACT, index_category1 = INDEX_CATEGORY_PHYSICAL_LOCALITY,
     index_key_size = 20, index_value_length = 1, index_cache_size = 4096, index_segment_prefech = 0,
     selection0 = INDEX_SEGMENT_SELECT_BASE, selection1 = 0, wait_threshold = 2047\<rparr>"

end
