(* ===== verification/Index_Laws.thy ===== *)
theory Index_Laws
  imports Index
begin

text \<open>
  What the index promises the deduplication pipeline. \<open>genuine i fp\<close> stands for "container
  \<open>i\<close> holds a chunk with fingerprint \<open>fp\<close>". The lookups mark a chunk as a duplicate of a container
  only when it is genuine (\<open>index_lookup_sound\<close>), find every fingerprint that is in the index buffer or that
  the key-value table leads to (\<open>lookup_finds_buffered\<close>, \<open>lookup_finds_indexed\<close>), and the index
  buffer is a FIFO of the chunks between lookup and filter (\<open>buffer_balance\<close>).
\<close>

definition meta_sound :: "(containerid \<Rightarrow> fingerprint \<Rightarrow> bool) \<Rightarrow> containerMeta \<Rightarrow> bool" where
  "meta_sound g m \<longleftrightarrow> (\<forall>fp\<in>fst ` set (cm_map m). g (cm_id m) fp)"

definition recipe_sound :: "(containerid \<Rightarrow> fingerprint \<Rightarrow> bool) \<Rightarrow> segmentRecipe \<Rightarrow> bool" where
  "recipe_sound g r \<longleftrightarrow> (\<forall>(fp, cp)\<in>set (sr_kvpairs r). g (cp_id cp) fp)"

definition buffer_sound :: "(containerid \<Rightarrow> fingerprint \<Rightarrow> bool) \<Rightarrow> (fingerprint \<times> indexElem list) list \<Rightarrow> bool" where
  "buffer_sound g b \<longleftrightarrow> (\<forall>fp q. map_of b fp = Some q \<longrightarrow> (\<forall>e\<in>set q. ie_id e = TEMPORARY_ID \<or> g (ie_id e) fp))"

definition cache_sound :: "(containerid \<Rightarrow> fingerprint \<Rightarrow> bool) \<Rightarrow> index_state \<Rightarrow> bool" where
  "cache_sound g s \<longleftrightarrow> (\<forall>m\<in>set (elem_queue (lru_meta s)). meta_sound g m)
     \<and> (\<forall>r\<in>set (elem_queue (lru_seg s)). recipe_sound g r)"

definition ix_sound :: "(containerid \<Rightarrow> fingerprint \<Rightarrow> bool) \<Rightarrow> index_state \<Rightarrow> bool" where
  "ix_sound g s \<longleftrightarrow> cache_sound g s \<and> buffer_sound g (buffered_fingerprints s)"

text \<open>What the prefetched unit of the configured locality must be: metadata of a container, or segments of a recipe.\<close>

definition env_sound :: "ix_cfg \<Rightarrow> (containerid \<Rightarrow> fingerprint \<Rightarrow> bool) \<Rightarrow> ix_env \<Rightarrow> bool" where
  "env_sound cfg g env \<longleftrightarrow>
     (index_category1 cfg = INDEX_CATEGORY_PHYSICAL_LOCALITY \<longrightarrow> (\<forall>i m. en_meta env i = Inr m \<longrightarrow> meta_sound g m))
     \<and> (index_category1 cfg = INDEX_CATEGORY_LOGICAL_LOCALITY \<longrightarrow>
          (\<forall>i n rs. en_segs env i n = Inr rs \<longrightarrow> (\<forall>r\<in>set rs. recipe_sound g r)))"

definition storage_sound :: "(containerid \<Rightarrow> fingerprint \<Rightarrow> bool) \<Rightarrow> container option \<Rightarrow> bool" where
  "storage_sound g cb \<longleftrightarrow> (\<forall>b. cb = Some b \<longrightarrow> meta_sound g (ct_meta b))"

text \<open>A chunk that is not marked has no container; a marked one has a genuine container, or
  repeats a chunk whose container is not decided yet.\<close>

definition chunk_sound :: "(containerid \<Rightarrow> fingerprint \<Rightarrow> bool) \<Rightarrow> chunk \<Rightarrow> bool" where
  "chunk_sound g c \<longleftrightarrow>
     (if CHECK_CHUNK c CHUNK_DUPLICATE then ck_id c = TEMPORARY_ID \<or> g (ck_id c) (ck_fp c)
      else ck_id c = TEMPORARY_ID)"

subsection \<open>The cache\<close>

lemma lru_lookup_mem:
  "lru_cache_lookup P l = (Some e, l') \<Longrightarrow> P e \<and> e \<in> set (elem_queue l)"
  by (auto simp: lru_cache_lookup_def dest: unlink_first_sat split: option.splits)

lemma lru_lookup_set:
  "lru_cache_lookup P l = (x, l') \<Longrightarrow> set (elem_queue l') = set (elem_queue l)"
  by (auto simp: lru_cache_lookup_def dest!: unlink_first_Some split: option.splits)

lemma lru_hits_set:
  "lru_cache_hits P l = (x, l') \<Longrightarrow> set (elem_queue l') = set (elem_queue l)"
  by (auto simp: lru_cache_hits_def dest!: unlink_first_Some split: option.splits)

lemma lru_insert_set:
  "lru_cache_insert l d = Inr (v, l') \<Longrightarrow> set (elem_queue l') \<subseteq> insert d (set (elem_queue l))"
  by (auto simp: lru_cache_insert_def dest: in_set_butlastD split: if_splits)

lemma lru_lookup_None: "lru_cache_lookup P l = (None, l') \<Longrightarrow> \<forall>e\<in>set (elem_queue l). \<not> P e"
  by (auto simp: lru_cache_lookup_def unlink_first_None split: option.splits)

lemma lru_insert_head: "lru_cache_insert l d = Inr (v, l') \<Longrightarrow> d \<in> set (elem_queue l')"
  by (auto simp: lru_cache_insert_def split: if_splits)

lemma cache_lookup_frame:
  "fingerprint_cache_lookup cfg fp s = Inr (i, s') \<Longrightarrow>
   buffered_fingerprints s' = buffered_fingerprints s \<and> chunk_num s' = chunk_num s \<and> htable s' = htable s \<and> ix_rtm s' = ix_rtm s"
  by (auto simp: fingerprint_cache_lookup_def Let_def rbind_Inr_iff split: locality.splits prod.splits option.splits)

lemma cache_lookup_sound:
  assumes "cache_sound g s" and "fingerprint_cache_lookup cfg fp s = Inr (i, s')"
  shows "cache_sound g s' \<and> (i = TEMPORARY_ID \<or> g i fp)"
proof (cases "index_category1 cfg")
  case INDEX_CATEGORY_PHYSICAL_LOCALITY
  obtain x l where l: "lru_cache_lookup (\<lambda>m. lookup_fingerprint_in_container_meta m fp) (lru_meta s) = (x, l)"
    by (meson surj_pair)
  show ?thesis
  proof (cases x)
    case (Some m)
    from lru_lookup_mem [OF l [unfolded Some]] assms(1)
    have "meta_sound g m" "fp \<in> fst ` set (cm_map m)"
      by (auto simp: cache_sound_def lookup_fingerprint_in_container_meta_def map_of_eq_None_iff split: if_splits)
    with assms l Some lru_lookup_set [OF l] INDEX_CATEGORY_PHYSICAL_LOCALITY show ?thesis
      by (auto simp: fingerprint_cache_lookup_def cache_sound_def meta_sound_def)
  qed (use assms l lru_lookup_set [OF l] INDEX_CATEGORY_PHYSICAL_LOCALITY in
      \<open>auto simp: fingerprint_cache_lookup_def cache_sound_def\<close>)
next
  case INDEX_CATEGORY_LOGICAL_LOCALITY
  obtain x l where l: "lru_cache_lookup (\<lambda>r. lookup_fingerprint_in_segment_recipe r fp) (lru_seg s) = (x, l)"
    by (meson surj_pair)
  show ?thesis
  proof (cases x)
    case (Some r)
    from lru_lookup_mem [OF l [unfolded Some]] assms(1)
    have r: "recipe_sound g r" by (auto simp: cache_sound_def)
    with assms l Some INDEX_CATEGORY_LOGICAL_LOCALITY obtain cp where cp: "map_of (sr_kvpairs r) fp = Some cp" "i = cp_id cp"
      "s' = s\<lparr>lru_seg := l\<rparr>"
      by (auto simp: fingerprint_cache_lookup_def rbind_Inr_iff split: option.splits)
    from r map_of_SomeD [OF cp(1)] have "g i fp" by (auto simp: recipe_sound_def cp(2))
    with cp(3) assms(1) lru_lookup_set [OF l] show ?thesis by (auto simp: cache_sound_def)
  qed (use assms l lru_lookup_set [OF l] INDEX_CATEGORY_LOGICAL_LOCALITY in
      \<open>auto simp: fingerprint_cache_lookup_def cache_sound_def\<close>)
qed

lemma cache_segment_set:
  "cache_segment r l = Inr l' \<Longrightarrow> set (elem_queue l') \<subseteq> insert r (set (elem_queue l))"
  by (auto simp: cache_segment_def rbind_Inr_iff split: prod.splits option.splits
      dest!: lru_insert_set lru_hits_set)

lemma cache_segments_set:
  "rfold cache_segment rs l = Inr l' \<Longrightarrow> set (elem_queue l') \<subseteq> set rs \<union> set (elem_queue l)"
proof (induction rs arbitrary: l)
  case (Cons r rs)
  then obtain l1 where l1: "cache_segment r l = Inr l1" "rfold cache_segment rs l1 = Inr l'"
    by (auto simp: rbind_Inr_iff)
  from Cons.IH [OF l1(2)] cache_segment_set [OF l1(1)] show ?case by auto
qed simp

lemma prefetch_frame:
  "fingerprint_cache_prefetch cfg env i s = Inr s' \<Longrightarrow>
   buffered_fingerprints s' = buffered_fingerprints s \<and> chunk_num s' = chunk_num s \<and> htable s' = htable s \<and> ix_rtm s' = ix_rtm s"
  by (auto simp: fingerprint_cache_prefetch_def rbind_Inr_iff split: locality.splits prod.splits option.splits)

lemma prefetch_sound:
  assumes "cache_sound g s" "env_sound cfg g env" "fingerprint_cache_prefetch cfg env i s = Inr s'"
  shows "cache_sound g s'"
proof (cases "index_category1 cfg")
  case INDEX_CATEGORY_PHYSICAL_LOCALITY
  with assms show ?thesis
    by (fastforce simp: fingerprint_cache_prefetch_def rbind_Inr_iff cache_sound_def env_sound_def
        dest: lru_insert_set split: prod.splits)
next
  case INDEX_CATEGORY_LOGICAL_LOCALITY
  obtain x l where l: "lru_cache_hits (\<lambda>r. segment_recipe_check_id r i) (lru_seg s) = (x, l)"
    by (meson surj_pair)
  note ls = lru_hits_set [OF l]
  show ?thesis
  proof (cases x)
    case None
    with assms l INDEX_CATEGORY_LOGICAL_LOCALITY obtain rs l' where
      rs: "en_segs env i (index_segment_prefech cfg) = Inr rs" "rfold cache_segment (rev rs) l = Inr l'"
        "s' = s\<lparr>read_prefetching_units := read_prefetching_units s + 1, lru_seg := l'\<rparr>"
      by (auto simp: fingerprint_cache_prefetch_def rbind_Inr_iff)
    have "\<forall>r\<in>set rs. recipe_sound g r" using assms(2) rs(1) INDEX_CATEGORY_LOGICAL_LOCALITY by (auto simp: env_sound_def)
    with cache_segments_set [OF rs(2)] ls assms(1) rs(3) show ?thesis
      by (auto simp: cache_sound_def)
  qed (use assms l ls INDEX_CATEGORY_LOGICAL_LOCALITY in
      \<open>auto simp: fingerprint_cache_prefetch_def cache_sound_def\<close>)
qed

subsection \<open>One chunk\<close>

lemma take_id_eq:
  "take_id tr env junk i (c, s) = Inr (c', s') \<Longrightarrow>
   c' = SET_CHUNK (c\<lparr>ck_id := i\<rparr>) CHUNK_DUPLICATE \<and> (\<exists>r. s' = s\<lparr>ix_rtm := r\<rparr>)"
  by (auto simp: take_id_def rbind_Inr_iff)

lemma take_id_frame:
  assumes "take_id tr env junk i (c, s) = Inr (c', s')"
  shows "buffered_fingerprints s' = buffered_fingerprints s" "chunk_num s' = chunk_num s"
    "htable s' = htable s" "cache_sound g s' = cache_sound g s"
  using take_id_eq [OF assms] by (auto simp: cache_sound_def)

text \<open>What the two searches below the index buffer keep, whatever they find.\<close>

definition found_ok :: "(containerid \<Rightarrow> fingerprint \<Rightarrow> bool) \<Rightarrow> chunk \<times> index_state \<Rightarrow> chunk \<times> index_state \<Rightarrow> bool" where
  "found_ok g p p' \<longleftrightarrow>
     ck_fp (fst p') = ck_fp (fst p) \<and> ck_size (fst p') = ck_size (fst p) \<and> is_file_mark (fst p') = is_file_mark (fst p)
     \<and> buffered_fingerprints (snd p') = buffered_fingerprints (snd p) \<and> chunk_num (snd p') = chunk_num (snd p)
     \<and> htable (snd p') = htable (snd p)
     \<and> (CHECK_CHUNK (fst p) CHUNK_DUPLICATE \<longrightarrow> fst p' = fst p)
     \<and> (cache_sound g (snd p) \<and> chunk_sound g (fst p) \<longrightarrow> cache_sound g (snd p') \<and> chunk_sound g (fst p'))"

lemma found_ok_refl: "found_ok g p p"
  by (simp add: found_ok_def)

lemma found_ok_trans: "found_ok g p q \<Longrightarrow> found_ok g q r \<Longrightarrow> found_ok g p r"
  unfolding found_ok_def by auto

lemma take_id_found:
  assumes t: "take_id tr env junk i (c, s1) = Inr p" and nd: "\<not> CHECK_CHUNK c CHUNK_DUPLICATE"
    and fr: "buffered_fingerprints s1 = buffered_fingerprints s \<and> chunk_num s1 = chunk_num s \<and> htable s1 = htable s"
    and sd: "cache_sound g s \<Longrightarrow> cache_sound g s1 \<and> g i (ck_fp c)"
  shows "found_ok g (c, s) p"
proof -
  obtain c' s' where p: "p = (c', s')" by (cases p)
  note e = take_id_eq [OF t [unfolded p]] and f = take_id_frame [OF t [unfolded p]]
  have dup: "chunk_sound g c'" if "g i (ck_fp c)"
    using that e by (auto simp: chunk_sound_def)
  have "is_file_mark c' = is_file_mark c" using e by simp
  with e f fr sd nd dup show ?thesis by (auto simp: found_ok_def p)
qed

lemma check_cache_found:
  assumes "check_cache tr cfg env junk (c, s) = Inr p"
  shows "found_ok g (c, s) p"
proof (cases "CHECK_CHUNK c CHUNK_DUPLICATE")
  case True
  with assms show ?thesis by (auto simp: check_cache_def found_ok_refl)
next
  case False
  with assms obtain i s1 where l: "fingerprint_cache_lookup cfg (ck_fp c) s = Inr (i, s1)"
    and r: "(if i \<noteq> TEMPORARY_ID then take_id tr env junk i (c, s1) else Inr (c, s1)) = Inr p"
    by (auto simp: check_cache_def rbind_Inr_iff)
  note fr = cache_lookup_frame [OF l]
  show ?thesis
  proof (cases "i = TEMPORARY_ID")
    case True
    with r fr cache_lookup_sound [OF _ l, of g] show ?thesis by (auto simp: found_ok_def)
  next
    case nt: False
    show ?thesis
      by (rule take_id_found [where ?s1.0 = s1 and i = i])
        (use r nt fr False cache_lookup_sound [OF _ l, of g] in auto)
  qed
qed

lemma check_kvstore_found:
  assumes "check_kvstore tr cfg env junk (c, s) = Inr p" and env: "env_sound cfg g env"
  shows "found_ok g (c, s) p"
proof (cases "CHECK_CHUNK c CHUNK_DUPLICATE")
  case True
  with assms show ?thesis by (auto simp: check_kvstore_def found_ok_refl)
next
  case False
  show ?thesis
  proof (cases "kvstore_htable_lookup (index_key_size cfg) (htable s) (ck_fp c)")
    case None
    with assms False show ?thesis by (auto simp: check_kvstore_def found_ok_def cache_sound_def)
  next
    case (Some ids)
    with assms False obtain i0 is' where ids: "ids = i0 # is'"
      by (cases ids) (auto simp: check_kvstore_def)
    let ?s = "s\<lparr>lookup_requests := lookup_requests s + 1\<rparr>"
    from assms False Some ids obtain s1 i s2 where
      pf: "fingerprint_cache_prefetch cfg env i0 ?s = Inr s1" and
      l: "fingerprint_cache_lookup cfg (ck_fp c) s1 = Inr (i, s2)" and
      r: "(if i \<noteq> TEMPORARY_ID then take_id tr env junk i (c, s2) else Inr (c, s2)) = Inr p"
      by (auto simp: check_kvstore_def rbind_Inr_iff)
    have fr: "buffered_fingerprints s2 = buffered_fingerprints s \<and> chunk_num s2 = chunk_num s \<and> htable s2 = htable s"
      using cache_lookup_frame [OF l] prefetch_frame [OF pf] by simp
    have cs: "cache_sound g s2 \<and> (i = TEMPORARY_ID \<or> g i (ck_fp c))" if "cache_sound g s"
    proof (rule cache_lookup_sound [OF prefetch_sound [OF _ env pf] l])
      show "cache_sound g ?s" using that by (simp add: cache_sound_def)
    qed
    show ?thesis
    proof (cases "i = TEMPORARY_ID")
      case True
      with r fr cs show ?thesis by (auto simp: found_ok_def)
    next
      case nt: False
      show ?thesis
        by (rule take_id_found [where ?s1.0 = s2 and i = i]) (use r nt fr False cs in auto)
    qed
  qed
qed

lemma check_storage_same:
  "ck_fp (check_storage cb c) = ck_fp c \<and> ck_size (check_storage cb c) = ck_size c
   \<and> is_file_mark (check_storage cb c) = is_file_mark c
   \<and> (CHECK_CHUNK c CHUNK_DUPLICATE \<longrightarrow> CHECK_CHUNK (check_storage cb c) CHUNK_DUPLICATE)"
  by (simp add: check_storage_def split: option.splits)

lemma check_storage_sound:
  assumes "storage_sound g cb" "chunk_sound g c"
  shows "chunk_sound g (check_storage cb c)"
proof -
  have "g (get_container_id b) (ck_fp c)"
    if "cb = Some b" "lookup_fingerprint_in_container b (ck_fp c)" for b
    using that assms(1) unfolding storage_sound_def meta_sound_def get_container_id_def
    by (metis lookup_fingerprint_in_container_def lookup_fingerprint_in_container_meta_def map_of_eq_None_iff)
  with assms(2) show ?thesis
    by (auto simp: check_storage_def chunk_sound_def split: option.splits)
qed

lemma check_buffered_same:
  assumes "check_buffered s c = Inr (tq, c')"
  shows "ck_fp c' = ck_fp c \<and> ck_size c' = ck_size c \<and> is_file_mark c' = is_file_mark c
    \<and> (CHECK_CHUNK c CHUNK_DUPLICATE \<longrightarrow> c' = c)
    \<and> tq = (case map_of (buffered_fingerprints s) (ck_fp c) of None \<Rightarrow> [] | Some q \<Rightarrow> q)
    \<and> (map_of (buffered_fingerprints s) (ck_fp c) \<noteq> None \<longrightarrow> CHECK_CHUNK c' CHUNK_DUPLICATE)"
  using assms by (auto simp: check_buffered_def split: option.splits if_splits list.splits)

lemma check_buffered_sound:
  assumes "check_buffered s c = Inr (tq, c')" "buffer_sound g (buffered_fingerprints s)" "chunk_sound g c"
  shows "chunk_sound g c' \<and> (\<forall>e\<in>set tq. ie_id e = TEMPORARY_ID \<or> g (ie_id e) (ck_fp c))"
proof (cases "map_of (buffered_fingerprints s) (ck_fp c)")
  case None
  with assms show ?thesis by (auto simp: check_buffered_def)
next
  case (Some q)
  with assms(2) have "\<forall>e\<in>set q. ie_id e = TEMPORARY_ID \<or> g (ie_id e) (ck_fp c)"
    by (auto simp: buffer_sound_def)
  with assms(1,3) Some show ?thesis
    by (cases q) (auto simp: check_buffered_def chunk_sound_def split: if_splits)
qed

lemma push_buffered_sound:
  assumes "buffer_sound g (buffered_fingerprints s)" "chunk_sound g c"
    and "\<forall>e\<in>set tq. ie_id e = TEMPORARY_ID \<or> g (ie_id e) (ck_fp c)"
  shows "buffer_sound g (buffered_fingerprints (push_buffered tq c s))"
  using assms by (auto simp: buffer_sound_def push_buffered_def update_conv' chunk_sound_def split: if_splits)



lemma lookup_chunk_stages:
  assumes "index_lookup_chunk tr kv cfg env junk cb c s = Inr (c', s')" and "\<not> is_file_mark c"
  shows "\<exists>tq c1 p s2. check_buffered s (check_storage cb c) = Inr (tq, c1)
    \<and> check_cache tr cfg env junk (c1, s) = Inr p
    \<and> (if kv then check_kvstore tr cfg env junk p else Inr p) = Inr (c', s2) \<and> s' = push_buffered tq c' s2"
proof -
  from assms obtain tq c1 p q where "check_buffered s (check_storage cb c) = Inr (tq, c1)"
    "check_cache tr cfg env junk (c1, s) = Inr p"
    "(if kv then check_kvstore tr cfg env junk p else Inr p) = Inr q" "(c', s') = (fst q, push_buffered tq (fst q) (snd q))"
    by (auto simp: index_lookup_chunk_def is_file_mark_def rbind_Inr_iff simp del: split_paired_Ex)
  then show ?thesis by (metis prod.collapse prod.inject)
qed

lemma pair_found_ok:
  assumes "(if kv then check_kvstore tr cfg env junk p else Inr p) = Inr q" "env_sound cfg g env"
  shows "found_ok g p q"
  using assms check_kvstore_found [of tr cfg env junk "fst p" "snd p" q g]
  by (auto simp: found_ok_refl split: if_splits)

lemma lookup_chunk_sound:
  assumes l: "index_lookup_chunk tr kv cfg env junk cb c s = Inr (c', s')"
    and ix: "ix_sound g s" and env: "env_sound cfg g env" and cb: "storage_sound g cb" and c: "chunk_sound g c"
  shows "ix_sound g s' \<and> chunk_sound g c'"
proof (cases "is_file_mark c")
  case True
  with l ix c show ?thesis by (simp add: index_lookup_chunk_def is_file_mark_def)
next
  case False
  from lookup_chunk_stages [OF l False] obtain tq c1 p s2 where
    b: "check_buffered s (check_storage cb c) = Inr (tq, c1)" and
    ca: "check_cache tr cfg env junk (c1, s) = Inr p" and
    kv: "(if kv then check_kvstore tr cfg env junk p else Inr p) = Inr (c', s2)" and
    s': "s' = push_buffered tq c' s2" by blast
  have f: "found_ok g (c1, s) (c', s2)"
    by (rule found_ok_trans [OF check_cache_found [OF ca] pair_found_ok [OF kv env]])
  from check_buffered_sound [OF b _ check_storage_sound [OF cb c]] ix check_storage_same [of cb c]
  have c1: "chunk_sound g c1" "\<forall>e\<in>set tq. ie_id e = TEMPORARY_ID \<or> g (ie_id e) (ck_fp c)"
    by (auto simp: ix_sound_def)
  from f c1(1) ix have r: "cache_sound g s2" "chunk_sound g c'" "ck_fp c' = ck_fp c1"
    "buffered_fingerprints s2 = buffered_fingerprints s"
    by (auto simp: found_ok_def ix_sound_def)
  moreover have "ck_fp c1 = ck_fp c" using check_buffered_same [OF b] check_storage_same [of cb c] by simp
  ultimately have "buffer_sound g (buffered_fingerprints s')"
    unfolding s' by (intro push_buffered_sound) (use c1(2) ix in \<open>auto simp: ix_sound_def\<close>)
  with r show ?thesis by (auto simp: ix_sound_def s' push_buffered_def cache_sound_def)
qed

lemma lookup_chunks_sound:
  assumes "lookup_chunks (index_lookup_chunk tr kv cfg env junk cb) cs s = Inr (cs', s')"
    and "ix_sound g s" and env: "env_sound cfg g env" and cb: "storage_sound g cb" and "\<forall>c\<in>set cs. chunk_sound g c"
  shows "ix_sound g s' \<and> (\<forall>c\<in>set cs'. chunk_sound g c)"
  using assms(1,2,5)
proof (induction cs arbitrary: s cs')
  case (Cons c cs)
  from Cons.prems(1) obtain c1 s1 cs1 where
    c1: "index_lookup_chunk tr kv cfg env junk cb c s = Inr (c1, s1)" and
    r: "lookup_chunks (index_lookup_chunk tr kv cfg env junk cb) cs s1 = Inr (cs1, s')" "cs' = c1 # cs1"
    by (auto simp: rbind_Inr_iff)
  note s1 = lookup_chunk_sound [OF c1 Cons.prems(2) env cb]
  with Cons.IH [OF r(1)] Cons.prems(3) r(2) show ?case by auto
qed simp

lemma select_tops_sound:
  "select_tops cfg env n sq s = Inr s' \<Longrightarrow> ix_sound g s \<Longrightarrow> env_sound cfg g env \<Longrightarrow> ix_sound g s'"
proof (induction cfg env n sq s rule: select_tops.induct)
  case (3 cfg env n tp sq s)
  then obtain s1 where s1: "fingerprint_cache_prefetch cfg env (seg_id tp) s = Inr s1"
    "select_tops cfg env n (fold (insert_sorted g_segment_cmp_feature_num) (map (features_trim tp) sq) []) s1 = Inr s'"
    by (auto simp: rbind_Inr_iff)
  have "ix_sound g s1"
    using prefetch_sound [OF _ 3(4) s1(1)] prefetch_frame [OF s1(1)] 3(3) by (auto simp: ix_sound_def)
  from 3(1) [OF s1(2) this 3(4)] show ?case .
qed auto

lemma similar_steps_same:
  assumes "rfold (similar_step cfg) ks (sims, s) = Inr (sims', s')" and "ix_sound g s"
  shows "ix_sound g s'"
proof -
  have "ix_sound g (snd (sims', s'))"
  proof (rule rfold_inv [OF _ _ assms(1), where I = "\<lambda>p. ix_sound g (snd p)"])
    fix k p p' assume "ix_sound g (snd p)" "similar_step cfg k p = Inr p'"
    then show "ix_sound g (snd p')"
      by (cases p) (auto simp: similar_step_def rbind_Inr_iff ix_sound_def cache_sound_def split: option.splits)
  qed (simp add: assms(2))
  then show ?thesis by simp
qed

lemma top_select_sound:
  assumes "top_segment_select fi si cfg env fs s = Inr s'" "ix_sound g s" "env_sound cfg g env"
  shows "ix_sound g s'"
proof -
  from assms(1) obtain sims s1 where s1: "rfold (similar_step cfg) (fi fs) ([], s) = Inr (sims, s1)"
    by (auto simp: top_segment_select_def rbind_Inr_iff)
  note i1 = similar_steps_same [OF s1 assms(2)]
  show ?thesis
  proof (cases "sims = []")
    case True
    with assms(1) s1 i1 show ?thesis by (simp add: top_segment_select_def)
  next
    case False
    with assms(1) s1 obtain n sq where "select_tops cfg env n sq s1 = Inr s'"
      by (auto simp: top_segment_select_def Let_def split: if_splits)
    from select_tops_sound [OF this i1 assms(3)] show ?thesis .
  qed
qed

lemmas lookup_eval = index_lookup_def index_lookup_base_def index_lookup_chunk_def check_storage_def check_buffered_def check_cache_def
  check_kvstore_def fingerprint_cache_lookup_def fingerprint_cache_prefetch_def take_id_def reference_chunk_def push_buffered_def
  index_start_def init_fingerprint_cache_def ddfs_cfg_def new_lru_cache_def lru_cache_lookup_def lru_cache_insert_def
  kvstore_htable_lookup_def new_segment_def new_chunk_def CHECK_CHUNK_def SET_CHUNK_def cfg_simps TEMPORARY_ID_def zero_fp_def
  lookup_fingerprint_in_container_meta_def init_container_meta_def is_file_mark_def

lemma lookup_sound:
  assumes l: "index_lookup fi si samp cfg env junk cb sg s = Inr (Some sg', s')"
    and ix: "ix_sound g s" and env: "env_sound cfg g env" and cb: "storage_sound g cb"
    and c: "\<forall>c\<in>set (seg_chunks sg). chunk_sound g c"
  shows "ix_sound g s' \<and> (\<forall>c\<in>set (seg_chunks sg'). chunk_sound g c)"
proof (cases "index_category1 cfg = INDEX_CATEGORY_LOGICAL_LOCALITY \<and> selection0 cfg \<noteq> INDEX_SEGMENT_SELECT_BASE")
  case True
  with l obtain f s1 kv cs where "top_segment_select fi si cfg env f s = Inr s1"
    "lookup_chunks (index_lookup_chunk False kv cfg env junk cb) (seg_chunks sg) s1 = Inr (cs, s')" "seg_chunks sg' = cs"
    by (auto simp: index_lookup_def index_lookup_similarity_detection_def rbind_Inr_iff split: if_splits)
  with lookup_chunks_sound [OF this(2) top_select_sound [OF this(1) ix env] env cb c] show ?thesis by simp
next
  case False
  with l obtain cs where
    "lookup_chunks (index_lookup_chunk True True cfg env junk cb) (seg_chunks sg) s = Inr (cs, s')" "seg_chunks sg' = cs"
    by (auto simp: index_lookup_def index_lookup_base_def rbind_Inr_iff split: if_splits)
  with lookup_chunks_sound [OF this(1) ix env cb c] show ?thesis by simp
qed

text \<open>C20: the lookup never invents a location: if the caches, the index buffer, the storage buffer and the stores only contain genuine (container, fingerprint) pairs, then every container id the lookup of a segment attaches to a chunk is one that really holds its fingerprint, and the caches and the buffer stay genuine. This holds for the base lookup and for similarity detection, whatever the key-value table contains.\<close>

theorem index_lookup_sound:
  assumes l: "index_lookup fi si samp cfg env junk cb sg s = Inr (Some sg', s')"
    and ix: "ix_sound g s" and env: "env_sound cfg g env" and cb: "storage_sound g cb"
    and c: "\<forall>c\<in>set (seg_chunks sg). chunk_sound g c"
  shows "ix_sound g s' \<and> (\<forall>c\<in>set (seg_chunks sg'). chunk_sound g c)"
  by (rule lookup_sound [OF assms])

theorem index_lookup_sound_witness:
  "\<exists>sg' s'. index_lookup (\<lambda>x. x) (\<lambda>x. x) (\<lambda>cs n. Inr []) ddfs_cfg \<lparr>en_meta = \<lambda>i. Inl OutOfBounds, en_segs = \<lambda>i n. Inl OutOfBounds\<rparr> 0 None
       (new_segment\<lparr>seg_chunks := [new_chunk 5, new_chunk 5], seg_chunk_num := 2\<rparr>) (index_start ddfs_cfg [] rtm_start) = Inr (Some sg', s') \<and>
     ix_sound (\<lambda>i fp. False) s' \<and> list_all (chunk_sound (\<lambda>i fp. False)) (seg_chunks sg')"
proof -
  let ?env = "\<lparr>en_meta = \<lambda>i. Inl OutOfBounds, en_segs = \<lambda>i n. Inl OutOfBounds\<rparr> :: ix_env"
  let ?sg = "new_segment\<lparr>seg_chunks := [new_chunk 5, new_chunk 5], seg_chunk_num := 2\<rparr>"
  obtain sg' s' where l: "index_lookup (\<lambda>x. x) (\<lambda>x. x) (\<lambda>cs n. Inr []) ddfs_cfg ?env 0 None ?sg (index_start ddfs_cfg [] rtm_start) = Inr (Some sg', s')"
    by (simp add: lookup_eval)
  have 1: "ix_sound (\<lambda>i fp. False) (index_start ddfs_cfg [] rtm_start)"
    by (simp add: ix_sound_def cache_sound_def buffer_sound_def index_start_def init_fingerprint_cache_def ddfs_cfg_def new_lru_cache_def)
  have 2: "env_sound ddfs_cfg (\<lambda>i fp. False) ?env" "storage_sound (\<lambda>i fp. False) None" "\<forall>c\<in>set (seg_chunks ?sg). chunk_sound (\<lambda>i fp. False) c"
    by (simp_all add: env_sound_def storage_sound_def chunk_sound_def new_chunk_def CHECK_CHUNK_def cfg_simps)
  from index_lookup_sound [OF l 1 2] l show ?thesis unfolding list_all_iff by blast
qed

subsection \<open>What the lookup finds\<close>

lemma lookup_finds_buffered:
  assumes "index_lookup_chunk tr kv cfg env junk cb c s = Inr (c', s')" "\<not> is_file_mark c"
    and "map_of (buffered_fingerprints s) (ck_fp c) \<noteq> None" and env: "env_sound cfg g env"
  shows "CHECK_CHUNK c' CHUNK_DUPLICATE"
proof -
  from lookup_chunk_stages [OF assms(1,2)] obtain tq c1 p s2 where
    b: "check_buffered s (check_storage cb c) = Inr (tq, c1)" and
    ca: "check_cache tr cfg env junk (c1, s) = Inr p" and
    kv: "(if kv then check_kvstore tr cfg env junk p else Inr p) = Inr (c', s2)" by blast
  have f: "found_ok g (c1, s) (c', s2)"
    by (rule found_ok_trans [OF check_cache_found [OF ca] pair_found_ok [OF kv env]])
  from check_buffered_same [OF b] check_storage_same [of cb c] assms(3)
  have "CHECK_CHUNK c1 CHUNK_DUPLICATE" by simp
  with f show ?thesis by (auto simp: found_ok_def)
qed

lemma cache_lookup_finds:
  assumes "index_category1 cfg = INDEX_CATEGORY_PHYSICAL_LOCALITY"
    and "m \<in> set (elem_queue (lru_meta s))" "fp \<in> fst ` set (cm_map m)"
    and "fingerprint_cache_lookup cfg fp s = Inr (i, s')" "\<forall>m\<in>set (elem_queue (lru_meta s)). cm_id m \<noteq> TEMPORARY_ID"
  shows "i \<noteq> TEMPORARY_ID"
proof -
  obtain x l where l: "lru_cache_lookup (\<lambda>m. lookup_fingerprint_in_container_meta m fp) (lru_meta s) = (x, l)"
    by (meson surj_pair)
  from assms(2,3) have "\<exists>e\<in>set (elem_queue (lru_meta s)). lookup_fingerprint_in_container_meta e fp"
    by (metis lookup_fingerprint_in_container_meta_def map_of_eq_None_iff)
  with lru_lookup_None l obtain e where "x = Some e" by (cases x) blast+
  with l lru_lookup_mem assms show ?thesis by (fastforce simp: fingerprint_cache_lookup_def)
qed

text \<open>With physical locality, a fingerprint whose table entry names a container that holds it is
  found, whatever the cache held before.\<close>

lemma kvstore_finds:
  assumes k: "check_kvstore tr cfg env junk (c, s) = Inr (c', s')"
    and ph: "index_category1 cfg = INDEX_CATEGORY_PHYSICAL_LOCALITY"
    and t: "kvstore_htable_lookup (index_key_size cfg) (htable s) (ck_fp c) = Some (i # is)"
    and m: "en_meta env i = Inr m" "ck_fp c \<in> fst ` set (cm_map m)" "cm_id m \<noteq> TEMPORARY_ID"
    and nt: "\<forall>m\<in>set (elem_queue (lru_meta s)). cm_id m \<noteq> TEMPORARY_ID"
  shows "CHECK_CHUNK c' CHUNK_DUPLICATE"
proof (cases "CHECK_CHUNK c CHUNK_DUPLICATE")
  case True
  with k show ?thesis by (simp add: check_kvstore_def)
next
  case False
  from k False t obtain s1 j s2 where
    pf: "fingerprint_cache_prefetch cfg env i (s\<lparr>lookup_requests := lookup_requests s + 1\<rparr>) = Inr s1" and
    l: "fingerprint_cache_lookup cfg (ck_fp c) s1 = Inr (j, s2)" and
    r: "(if j \<noteq> TEMPORARY_ID then take_id tr env junk j (c, s2) else Inr (c, s2)) = Inr (c', s')"
    by (auto simp: check_kvstore_def rbind_Inr_iff)
  from pf ph m(1) obtain v l1 where "lru_cache_insert (lru_meta s) m = Inr (v, l1)" "lru_meta s1 = l1"
    by (auto simp: fingerprint_cache_prefetch_def rbind_Inr_iff)
  with lru_insert_set [of "lru_meta s" m v l1] lru_insert_head [of "lru_meta s" m v l1] nt m(3)
  have "m \<in> set (elem_queue (lru_meta s1))" "\<forall>m\<in>set (elem_queue (lru_meta s1)). cm_id m \<noteq> TEMPORARY_ID"
    by auto
  from cache_lookup_finds [OF ph this(1) m(2) l this(2)] r take_id_eq [of tr env junk j c s2 c' s'] show ?thesis
    by simp
qed

lemma cache_lookup_meta_set:
  assumes "fingerprint_cache_lookup cfg fp s = Inr (i, s')" "index_category1 cfg = INDEX_CATEGORY_PHYSICAL_LOCALITY"
  shows "set (elem_queue (lru_meta s')) = set (elem_queue (lru_meta s))"
proof -
  obtain x l where l: "lru_cache_lookup (\<lambda>m. lookup_fingerprint_in_container_meta m fp) (lru_meta s) = (x, l)"
    by (meson surj_pair)
  with assms have "s' = s\<lparr>lru_meta := l\<rparr>" by (simp add: fingerprint_cache_lookup_def)
  with lru_lookup_set [OF l] show ?thesis by simp
qed

lemma check_cache_meta_set:
  assumes "check_cache tr cfg env junk (c, s) = Inr (c', s')" "index_category1 cfg = INDEX_CATEGORY_PHYSICAL_LOCALITY"
  shows "set (elem_queue (lru_meta s')) = set (elem_queue (lru_meta s))"
proof (cases "CHECK_CHUNK c CHUNK_DUPLICATE")
  case True
  with assms(1) show ?thesis by (simp add: check_cache_def)
next
  case False
  with assms(1) obtain i s1 where l: "fingerprint_cache_lookup cfg (ck_fp c) s = Inr (i, s1)"
    "(if i \<noteq> TEMPORARY_ID then take_id tr env junk i (c, s1) else Inr (c, s1)) = Inr (c', s')"
    by (auto simp: check_cache_def rbind_Inr_iff)
  have "lru_meta s' = lru_meta s1"
    using l(2) take_id_eq [of tr env junk i c s1 c' s'] by (cases "i = TEMPORARY_ID") auto
  with cache_lookup_meta_set [OF l(1) assms(2)] show ?thesis by simp
qed

text \<open>C31: with physical locality, a chunk whose fingerprint the key-value table maps to a container that holds it is recognised as a duplicate.\<close>

lemma lookup_finds_indexed:
  assumes l: "index_lookup_chunk tr True cfg env junk cb c s = Inr (c', s')" and nf: "\<not> is_file_mark c"
    and ph: "index_category1 cfg = INDEX_CATEGORY_PHYSICAL_LOCALITY"
    and t: "kvstore_htable_lookup (index_key_size cfg) (htable s) (ck_fp c) = Some (i # is)"
    and m: "en_meta env i = Inr m" "ck_fp c \<in> fst ` set (cm_map m)" "cm_id m \<noteq> TEMPORARY_ID"
    and nt: "\<forall>m\<in>set (elem_queue (lru_meta s)). cm_id m \<noteq> TEMPORARY_ID"
  shows "CHECK_CHUNK c' CHUNK_DUPLICATE"
proof -
  from lookup_chunk_stages [OF l nf] obtain tq c1 c2 s1 s2 where
    b: "check_buffered s (check_storage cb c) = Inr (tq, c1)" and
    ca: "check_cache tr cfg env junk (c1, s) = Inr (c2, s1)" and
    kv: "check_kvstore tr cfg env junk (c2, s1) = Inr (c', s2)" by (auto split: prod.splits)
  have fp: "ck_fp c1 = ck_fp c" using check_buffered_same [OF b] check_storage_same [of cb c] by simp
  from check_cache_found [OF ca] fp have f2: "ck_fp c2 = ck_fp c" "htable s1 = htable s" by (auto simp: found_ok_def)
  have set1: "set (elem_queue (lru_meta s1)) = set (elem_queue (lru_meta s))"
    by (rule check_cache_meta_set [OF ca ph])
  have "kvstore_htable_lookup (index_key_size cfg) (htable s1) (ck_fp c2) = Some (i # is)"
    "ck_fp c2 \<in> fst ` set (cm_map m)" "\<forall>m\<in>set (elem_queue (lru_meta s1)). cm_id m \<noteq> TEMPORARY_ID"
    unfolding f2 set1 by (fact t, fact m(2), fact nt)
  from kvstore_finds [OF kv ph this(1) m(1) this(2) m(3) this(3)] show ?thesis .
qed

theorem lookup_finds_indexed_witness:
  "\<exists>c' s'. index_lookup_chunk True True ddfs_cfg
       \<lparr>en_meta = \<lambda>i. Inr (init_container_meta\<lparr>cm_id := 3, cm_map := [(zero_fp, \<lparr>me_off = 0, me_len = 5, me_position = None, me_fp = zero_fp\<rparr>)]\<rparr>),
        en_segs = \<lambda>i n. Inl OutOfBounds\<rparr> 0 None (new_chunk 5) (index_start ddfs_cfg [(zero_fp, [3])] (rtm_start\<lparr>container_count_start := 0\<rparr>)) = Inr (c', s') \<and>
     CHECK_CHUNK c' CHUNK_DUPLICATE"
proof -
  let ?m = "init_container_meta\<lparr>cm_id := 3, cm_map := [(zero_fp, \<lparr>me_off = 0, me_len = 5, me_position = None, me_fp = zero_fp\<rparr>)]\<rparr>"
  let ?env = "\<lparr>en_meta = \<lambda>i. Inr ?m, en_segs = \<lambda>i n. Inl OutOfBounds\<rparr> :: ix_env"
  let ?s = "index_start ddfs_cfg [(zero_fp, [3])] (rtm_start\<lparr>container_count_start := 0\<rparr>)"
  obtain c' s' where l: "index_lookup_chunk True True ddfs_cfg ?env 0 None (new_chunk 5) ?s = Inr (c', s')"
    by (simp add: lookup_eval)
  have "CHECK_CHUNK c' CHUNK_DUPLICATE"
    by (rule lookup_finds_indexed [OF l, of 3 "[]" ?m]) (simp_all add: lookup_eval)
  with l show ?thesis by blast
qed

subsection \<open>The index buffer is a FIFO\<close>

text \<open>\<open>pend\<close>: the fingerprints of the chunks between lookup and filter.\<close>

definition buf_rep :: "index_state \<Rightarrow> fingerprint list \<Rightarrow> bool" where
  "buf_rep s pend \<longleftrightarrow> chunk_num s = int (length pend) \<and>
     (\<forall>fp. case map_of (buffered_fingerprints s) fp of
        None \<Rightarrow> fp \<notin> set pend
      | Some q \<Rightarrow> q \<noteq> [] \<and> length q = count (mset pend) fp)"

definition data_fps :: "chunk list \<Rightarrow> fingerprint list" where
  "data_fps cs = map ck_fp (filter (\<lambda>c. \<not> is_file_mark c) cs)"

lemma buf_rep_None: "buf_rep s pend \<Longrightarrow> map_of (buffered_fingerprints s) fp = None \<longleftrightarrow> fp \<notin> set pend"
proof -
  assume "buf_rep s pend"
  then have "case map_of (buffered_fingerprints s) fp of None \<Rightarrow> fp \<notin> set pend
    | Some q \<Rightarrow> q \<noteq> [] \<and> length q = count (mset pend) fp" by (simp add: buf_rep_def)
  note a = this
  show ?thesis
  proof (cases "map_of (buffered_fingerprints s) fp")
    case (Some q)
    with a have "q \<noteq> [] \<and> length q = count (mset pend) fp" by (simp del: count_mset_0_iff)
    then have "fp \<in> set pend" by (metis count_mset_0_iff length_0_conv)
    with Some show ?thesis by simp
  qed (use a in simp)
qed

lemma push_buffered_rep:
  assumes "buf_rep s pend"
  shows "buf_rep (push_buffered (case map_of (buffered_fingerprints s) (ck_fp c) of None \<Rightarrow> [] | Some q \<Rightarrow> q) c s) (pend @ [ck_fp c])"
  unfolding buf_rep_def
proof (intro conjI allI)
  fix fp
  from assms have a: "case map_of (buffered_fingerprints s) fp of None \<Rightarrow> fp \<notin> set pend
    | Some q \<Rightarrow> q \<noteq> [] \<and> length q = count (mset pend) fp" by (simp add: buf_rep_def)
  then show "case map_of (buffered_fingerprints (push_buffered (case map_of (buffered_fingerprints s) (ck_fp c) of None \<Rightarrow> [] | Some q \<Rightarrow> q) c s)) fp of
      None \<Rightarrow> fp \<notin> set (pend @ [ck_fp c]) | Some q \<Rightarrow> q \<noteq> [] \<and> length q = count (mset (pend @ [ck_fp c])) fp"
    by (cases "fp = ck_fp c") (auto simp: push_buffered_def update_conv' count_mset_0_iff split: option.splits)
qed (use assms in \<open>simp add: buf_rep_def push_buffered_def\<close>)

lemma lookup_chunk_rep:
  assumes l: "index_lookup_chunk tr kv cfg env junk cb c s = Inr (c', s')" and r: "buf_rep s pend" and env: "env_sound cfg g env"
  shows "buf_rep s' (pend @ data_fps [c]) \<and> ck_fp c' = ck_fp c \<and> is_file_mark c' = is_file_mark c \<and> ck_size c' = ck_size c"
proof (cases "is_file_mark c")
  case True
  with l have "c' = c" "s' = s" by (auto simp: index_lookup_chunk_def is_file_mark_def)
  with r True show ?thesis by (simp add: data_fps_def)
next
  case False
  from lookup_chunk_stages [OF l False] obtain tq c1 p s2 where
    b: "check_buffered s (check_storage cb c) = Inr (tq, c1)" and
    ca: "check_cache tr cfg env junk (c1, s) = Inr p" and
    kv: "(if kv then check_kvstore tr cfg env junk p else Inr p) = Inr (c', s2)" and
    s': "s' = push_buffered tq c' s2" by blast
  have f: "found_ok g (c1, s) (c', s2)"
    by (rule found_ok_trans [OF check_cache_found [OF ca] pair_found_ok [OF kv env]])
  note bs = check_buffered_same [OF b] check_storage_same [of cb c]
  have e: "ck_fp c' = ck_fp c" "is_file_mark c' = is_file_mark c" "ck_size c' = ck_size c"
    "buffered_fingerprints s2 = buffered_fingerprints s" "chunk_num s2 = chunk_num s"
    using f bs by (auto simp: found_ok_def)
  then have "buf_rep s2 pend" using r by (simp add: buf_rep_def)
  from push_buffered_rep [OF this, of c'] bs e s' False show ?thesis by (simp add: data_fps_def)
qed

lemma lookup_chunks_rep:
  "lookup_chunks (index_lookup_chunk tr kv cfg env junk cb) cs s = Inr (cs', s') \<Longrightarrow> buf_rep s pend \<Longrightarrow> env_sound cfg g env \<Longrightarrow>
   buf_rep s' (pend @ data_fps cs) \<and> map ck_fp cs' = map ck_fp cs \<and> map is_file_mark cs' = map is_file_mark cs
   \<and> map ck_size cs' = map ck_size cs"
proof (induction cs arbitrary: s cs' pend)
  case (Cons c cs)
  from Cons.prems(1) obtain c1 s1 cs1 where
    c1: "index_lookup_chunk tr kv cfg env junk cb c s = Inr (c1, s1)" and
    r: "lookup_chunks (index_lookup_chunk tr kv cfg env junk cb) cs s1 = Inr (cs1, s')" "cs' = c1 # cs1"
    by (auto simp: rbind_Inr_iff)
  note s1 = lookup_chunk_rep [OF c1 Cons.prems(2,3)]
  have "data_fps (c # cs) = data_fps [c] @ data_fps cs" by (simp add: data_fps_def)
  with Cons.IH [OF r(1) s1 [THEN conjunct1] Cons.prems(3)] s1 r(2) show ?case by simp
qed (simp add: data_fps_def)

lemma update_chunk_rep:
  assumes r: "buf_rep s pend" and c: "\<not> is_file_mark c \<longrightarrow> ck_id c \<noteq> TEMPORARY_ID \<and> ck_fp c \<in> set pend"
  shows "\<exists>s'. update_buffer_chunk c s = Inr s' \<and> buf_rep s' (if is_file_mark c then pend else remove1 (ck_fp c) pend)"
proof (cases "is_file_mark c")
  case True
  with r show ?thesis by (simp add: update_buffer_chunk_def is_file_mark_def)
next
  case False
  with c have m: "ck_id c \<noteq> TEMPORARY_ID" "ck_fp c \<in> set pend" by auto
  with buf_rep_None [OF r, of "ck_fp c"] obtain q where q1: "map_of (buffered_fingerprints s) (ck_fp c) = Some q" by auto
  from r have "case map_of (buffered_fingerprints s) (ck_fp c) of None \<Rightarrow> ck_fp c \<notin> set pend
    | Some q \<Rightarrow> q \<noteq> [] \<and> length q = count (mset pend) (ck_fp c)" by (simp add: buf_rep_def)
  with q1 have q: "map_of (buffered_fingerprints s) (ck_fp c) = Some q" "q \<noteq> []" "length q = count (mset pend) (ck_fp c)"
    by simp_all
  let ?t = "if tl q = [] then AList.delete (ck_fp c) (buffered_fingerprints s)
     else AList.update (ck_fp c) (map (\<lambda>e. e\<lparr>ie_id := ck_id c\<rparr>) (tl q)) (buffered_fingerprints s)"
  have u: "update_buffer_chunk c s = Inr (s\<lparr>buffered_fingerprints := ?t, chunk_num := chunk_num s - 1\<rparr>)"
    using False m q by (simp add: update_buffer_chunk_def is_file_mark_def Let_def)
  have "buf_rep (s\<lparr>buffered_fingerprints := ?t, chunk_num := chunk_num s - 1\<rparr>) (remove1 (ck_fp c) pend)"
    unfolding buf_rep_def
  proof (intro conjI allI)
    have "length pend > 0" using m(2) by (cases pend) auto
    with r m(2) show "chunk_num (s\<lparr>buffered_fingerprints := ?t, chunk_num := chunk_num s - 1\<rparr>) = int (length (remove1 (ck_fp c) pend))"
      by (simp add: buf_rep_def length_remove1 of_nat_diff Suc_le_eq)
  next
    fix fp
    from r have a: "case map_of (buffered_fingerprints s) fp of None \<Rightarrow> fp \<notin> set pend
      | Some q \<Rightarrow> q \<noteq> [] \<and> length q = count (mset pend) fp" by (simp add: buf_rep_def)
    show "case map_of (buffered_fingerprints (s\<lparr>buffered_fingerprints := ?t, chunk_num := chunk_num s - 1\<rparr>)) fp of
       None \<Rightarrow> fp \<notin> set (remove1 (ck_fp c) pend)
     | Some q \<Rightarrow> q \<noteq> [] \<and> length q = count (mset (remove1 (ck_fp c) pend)) fp"
    proof (cases "fp = ck_fp c")
      case True
      have "length (tl q) = count (mset (remove1 (ck_fp c) pend)) (ck_fp c)" using q(3) by simp
      moreover have "tl q = [] \<longleftrightarrow> length (tl q) = 0" by (rule length_0_conv [symmetric])
      moreover have "(ck_fp c \<notin> set (remove1 (ck_fp c) pend)) = (count (mset (remove1 (ck_fp c) pend)) (ck_fp c) = 0)"
        by (metis count_mset_0_iff)
      ultimately show ?thesis using True
        by (cases "tl q = []") (simp_all add: delete_conv' update_conv' del: length_tl)
    next
      case False
      with a show ?thesis by (auto simp: delete_conv' update_conv' in_set_remove1 split: option.splits)
    qed
  qed
  with u False show ?thesis by auto
qed

text \<open>The filter phase, updating the buffer with a looked-up segment, takes exactly that segment's
  chunks out of the buffer, and its result says whether the threshold is still reached.\<close>

lemma update_chunks_rep:
  "buf_rep s (data_fps cs @ rest) \<Longrightarrow> \<forall>c\<in>set cs. \<not> is_file_mark c \<longrightarrow> ck_id c \<noteq> TEMPORARY_ID \<Longrightarrow>
   \<exists>s'. rfold update_buffer_chunk cs s = Inr s' \<and> buf_rep s' rest"
proof (induction cs arbitrary: s)
  case (Cons c cs)
  from update_chunk_rep [OF Cons.prems(1), of c] Cons.prems(2) obtain s1 where s1: "update_buffer_chunk c s = Inr s1"
    "buf_rep s1 (if is_file_mark c then data_fps (c # cs) @ rest else remove1 (ck_fp c) (data_fps (c # cs) @ rest))"
    by (auto simp: data_fps_def)
  have "buf_rep s1 (data_fps cs @ rest)" using s1(2) by (simp add: data_fps_def split: if_splits)
  from Cons.IH [OF this] Cons.prems(2) s1(1) show ?case by simp
qed (simp add: data_fps_def)

lemma update_buffer_rep:
  assumes "buf_rep s (data_fps (seg_chunks sg) @ rest)"
    and "\<forall>c\<in>set (seg_chunks sg). \<not> is_file_mark c \<longrightarrow> ck_id c \<noteq> TEMPORARY_ID"
  shows "\<exists>s'. index_update_buffer cfg sg s =
       Inr (0 < wait_threshold cfg \<and> wait_threshold cfg \<le> int (length rest), s') \<and> buf_rep s' rest"
  using update_chunks_rep [OF assms] by (auto simp: index_update_buffer_def buf_rep_def)

text \<open>C32: late binding: once the first copy of a fingerprint has been filtered into a container, the copies still in the index buffer carry that container, and a duplicate found before the container was known takes it.\<close>

lemma temporary_resolved:
  assumes u: "update_buffer_chunk c s = Inr s'" and nm: "\<not> is_file_mark c" "\<not> is_file_mark d"
    and d: "ck_fp d = ck_fp c" "CHECK_CHUNK d CHUNK_DUPLICATE" "ck_id d = TEMPORARY_ID"
    and still: "map_of (buffered_fingerprints s') (ck_fp c) \<noteq> None" and id: "ck_id c > TEMPORARY_ID"
  shows "check_buffer_chunk s' d = Inr (d\<lparr>ck_id := ck_id c\<rparr>)"
proof -
  from u nm obtain q where q: "map_of (buffered_fingerprints s) (ck_fp c) = Some q"
    "s' = s\<lparr>buffered_fingerprints :=
       (if tl q = [] then AList.delete (ck_fp c) (buffered_fingerprints s)
        else AList.update (ck_fp c) (map (\<lambda>e. e\<lparr>ie_id := ck_id c\<rparr>) (tl q)) (buffered_fingerprints s)),
       chunk_num := chunk_num s - 1\<rparr>"
    by (auto simp: update_buffer_chunk_def is_file_mark_def rbind_Inr_iff Let_def split: option.splits)
  with still have "tl q \<noteq> []" by (auto simp: delete_conv')
  then obtain e es where "tl q = e # es" by (cases "tl q") auto
  with q nm d id show ?thesis
    by (simp add: check_buffer_chunk_def is_file_mark_def update_conv')
qed

theorem temporary_resolved_witness:
  "\<exists>s'. update_buffer_chunk ((new_chunk 5)\<lparr>ck_id := 9\<rparr>)
      ((index_start ddfs_cfg [] rtm_start)\<lparr>buffered_fingerprints := [(zero_fp, [\<lparr>ie_id = -1, ie_fp = zero_fp\<rparr>, \<lparr>ie_id = -1, ie_fp = zero_fp\<rparr>])], chunk_num := 2\<rparr>) = Inr s' \<and>
     check_buffer_chunk s' (SET_CHUNK (new_chunk 5) CHUNK_DUPLICATE) = Inr ((SET_CHUNK (new_chunk 5) CHUNK_DUPLICATE)\<lparr>ck_id := ck_id ((new_chunk 5)\<lparr>ck_id := 9\<rparr>)\<rparr>)"
proof -
  let ?c = "(new_chunk 5)\<lparr>ck_id := 9\<rparr>" and ?d = "SET_CHUNK (new_chunk 5) CHUNK_DUPLICATE"
  let ?s = "(index_start ddfs_cfg [] rtm_start)\<lparr>buffered_fingerprints := [(zero_fp, [\<lparr>ie_id = -1, ie_fp = zero_fp\<rparr>, \<lparr>ie_id = -1, ie_fp = zero_fp\<rparr>])], chunk_num := 2\<rparr>"
  obtain s' where u: "update_buffer_chunk ?c ?s = Inr s'" "map_of (buffered_fingerprints s') (ck_fp ?c) \<noteq> None"
    by (simp add: update_buffer_chunk_def lookup_eval)
  have "check_buffer_chunk s' ?d = Inr (?d\<lparr>ck_id := ck_id ?c\<rparr>)"
    by (rule temporary_resolved [OF u(1) _ _ _ _ _ u(2)]) (simp_all add: lookup_eval is_file_mark_def)
  with u(1) show ?thesis by blast
qed

end
