(* ===== verification/Rewrite_Buffer.thy ===== *)
theory Rewrite_Buffer
  imports Sampling Byte_Store Complex_Main
begin

text \<open>
  The rewrite buffer of \<open>rewrite_phase.c\<close>, shared by the rewriting algorithms, and the chunk check of \<open>har_rewrite.c\<close>:
  its operations, its invariant (each container record holds the bytes of its container in the queue), and
  what a rewriting algorithm may change of a message.

  \<^item> \<open>container_record_seq\<close> is a list kept in the order of the comparison function.
    \<open>g_sequence_lookup\<close> finds an element that compares equal.
  \<^item> The difference of two ids is returned as a 32-bit \<open>gint\<close>.
  \<^item> \<open>cfl_need\<close> is the double \<open>rewrite_cfl_usage_threshold * (CONTAINER_SIZE - CONTAINER_META_SIZE)\<close>.
  \<^item> \<open>size\<close> counters are unbounded here; with at most \<open>rewrite_limit\<close> chunks of a container's
    size in the buffer the C \<open>int\<close> is exact up to 2 GiB.
\<close>

record containerRecord =
  cr_cid :: containerid
  cr_size :: int
  cr_out_of_order :: bool

record rw_cfg =
  rewrite_limit :: int            \<comment> \<open>\<open>rewrite_algorithm[1]\<close>\<close>
  rewrite_enable_har :: bool
  rewrite_capping_level :: int
  cfl_need :: real

record rewrite_buffer =
  rb_queue :: "chunk list"
  rb_records :: "containerRecord list"
  rb_num :: int
  rb_size :: int

definition g_record_descmp_by_length :: "containerRecord \<Rightarrow> containerRecord \<Rightarrow> int" where
  "g_record_descmp_by_length a b = cr_size b - cr_size a"

definition g_record_cmp_by_id :: "containerRecord \<Rightarrow> containerRecord \<Rightarrow> int" where
  "g_record_cmp_by_id a b = sint (i32 (cr_cid a - cr_cid b))"

definition init_rewrite_buffer :: rewrite_buffer where
  "init_rewrite_buffer = \<lparr>rb_queue = [], rb_records = [], rb_num = 0, rb_size = 0\<rparr>"

text \<open>The record of a container, and the update of its size in place.\<close>

definition record_lookup :: "containerid \<Rightarrow> containerRecord list \<Rightarrow> containerRecord option" where
  "record_lookup i rs = find (\<lambda>r. g_record_cmp_by_id r \<lparr>cr_cid = i, cr_size = 0, cr_out_of_order = False\<rparr> = 0) rs"

definition record_resize :: "containerid \<Rightarrow> int \<Rightarrow> containerRecord list \<Rightarrow> containerRecord list" where
  "record_resize i sz rs = map (\<lambda>r. if cr_cid r = i then r\<lparr>cr_size := sz\<rparr> else r) rs"

definition rewrite_buffer_push :: "rw_cfg \<Rightarrow> chunk \<Rightarrow> rewrite_buffer \<Rightarrow> (bool \<times> rewrite_buffer) res" where
  "rewrite_buffer_push cfg c b =
     (let b = b\<lparr>rb_queue := rb_queue b @ [c]\<rparr> in
      if is_signal c then Inr (False, b)
      else
        rbind (if ck_id c \<noteq> TEMPORARY_ID then
                 rbind (c_assert (CHECK_CHUNK c CHUNK_DUPLICATE)) (\<lambda>_.
                 case record_lookup (ck_id c) (rb_records b) of
                   None \<Rightarrow> Inr (b\<lparr>rb_records := insert_sorted g_record_cmp_by_id
                       \<lparr>cr_cid = ck_id c, cr_size = ck_size c, cr_out_of_order = True\<rparr> (rb_records b)\<rparr>)
                 | Some r \<Rightarrow> rbind (c_assert (cr_cid r = ck_id c)) (\<lambda>_.
                     Inr (b\<lparr>rb_records := record_resize (ck_id c) (cr_size r + ck_size c) (rb_records b)\<rparr>)))
               else Inr b) (\<lambda>b.
        let b = b\<lparr>rb_num := rb_num b + 1, rb_size := rb_size b + ck_size c\<rparr> in
        if rb_num b \<ge> rewrite_limit cfg
        then rbind (c_assert (rb_num b = rewrite_limit cfg)) (\<lambda>_. Inr (True, b))
        else Inr (False, b)))"

definition rewrite_buffer_top :: "rewrite_buffer \<Rightarrow> chunk option" where
  "rewrite_buffer_top b = (case rb_queue b of [] \<Rightarrow> None | c # _ \<Rightarrow> Some c)"

text \<open>\<open>inherited\<close>: the keys of \<open>inherited_sparse_containers\<close>.\<close>

definition har_check :: "containerid set \<Rightarrow> chunk \<Rightarrow> chunk" where
  "har_check inherited c =
     (if \<not> CHECK_CHUNK c CHUNK_FILE_START \<and> \<not> CHECK_CHUNK c CHUNK_FILE_END \<and> CHECK_CHUNK c CHUNK_DUPLICATE
         \<and> ck_id c \<in> inherited
      then SET_CHUNK c CHUNK_SPARSE else c)"

definition rewrite_buffer_pop :: "rw_cfg \<Rightarrow> containerid set \<Rightarrow> rewrite_buffer \<Rightarrow> (chunk option \<times> rewrite_buffer) res" where
  "rewrite_buffer_pop cfg inherited b =
     (case rb_queue b of
        [] \<Rightarrow> Inr (None, b)
      | c # q \<Rightarrow>
          let b = b\<lparr>rb_queue := q\<rparr> in
          if is_signal c then Inr (Some c, b)
          else
            rbind (if CHECK_CHUNK c CHUNK_DUPLICATE \<and> ck_id c \<noteq> TEMPORARY_ID then
                     (case record_lookup (ck_id c) (rb_records b) of
                        None \<Rightarrow> Inl AssertFailed
                      | Some r \<Rightarrow>
                          let sz = cr_size r - ck_size c in
                          Inr (if rewrite_enable_har cfg then har_check inherited c else c,
                               b\<lparr>rb_records := (if sz = 0 then filter (\<lambda>r. cr_cid r \<noteq> ck_id c) (rb_records b)
                                               else record_resize (ck_id c) sz (rb_records b))\<rparr>))
                   else Inr (c, b)) (\<lambda>(c', b).
            Inr (Some c', b\<lparr>rb_num := rb_num b - 1, rb_size := rb_size b - ck_size c\<rparr>)))"

text \<open>The loops \<open>while ((c = rewrite_buffer_pop()))\<close>: \<open>mark\<close> is their body. The queue gets one
  element shorter in each turn, so its length plus one bounds the turns.\<close>

fun pop_all :: "rw_cfg \<Rightarrow> containerid set \<Rightarrow> (chunk \<Rightarrow> chunk res) \<Rightarrow> nat \<Rightarrow> rewrite_buffer \<Rightarrow> chunk list \<Rightarrow> (rewrite_buffer \<times> chunk list) res" where
  "pop_all cfg inherited mark 0 b out = Inr (b, out)"
| "pop_all cfg inherited mark (Suc n) b out =
     rbind (rewrite_buffer_pop cfg inherited b) (\<lambda>(c, b).
       case c of None \<Rightarrow> Inr (b, out)
       | Some c \<Rightarrow> rbind (mark c) (\<lambda>c. pop_all cfg inherited mark n b (out @ [c])))"

definition drain_buffer :: "rw_cfg \<Rightarrow> containerid set \<Rightarrow> (chunk \<Rightarrow> chunk res) \<Rightarrow> rewrite_buffer \<times> chunk list \<Rightarrow> (rewrite_buffer \<times> chunk list) res" where
  "drain_buffer cfg inherited mark = (\<lambda>(b, out). pop_all cfg inherited mark (length (rb_queue b) + 1) b out)"

subsection \<open>Messages differ in the fragmentation flags only\<close>

definition frag_bits :: "32 word" where
  "frag_bits = CHUNK_OUT_OF_ORDER OR CHUNK_SPARSE"

definition frag_only :: "chunk \<Rightarrow> chunk \<Rightarrow> bool" where
  "frag_only c d \<longleftrightarrow> d = c\<lparr>ck_flag := ck_flag d\<rparr> \<and> ck_flag d AND NOT frag_bits = ck_flag c AND NOT frag_bits
     \<and> (is_signal c \<longrightarrow> d = c)"

definition msg_ok :: "chunk \<Rightarrow> bool" where
  "msg_ok c \<longleftrightarrow>
     (is_signal c \<longrightarrow> \<not> CHECK_CHUNK c CHUNK_DUPLICATE) \<and>
     (\<not> is_signal c \<longrightarrow> 0 < ck_size c \<and>
        (ck_id c \<noteq> TEMPORARY_ID \<longrightarrow> CHECK_CHUNK c CHUNK_DUPLICATE \<and> 0 \<le> ck_id c \<and> ck_id c < 2 ^ 31))"

lemma frag_only_refl [simp]: "frag_only c c"
  by (simp add: frag_only_def)

lemma frag_only_trans: "frag_only c d \<Longrightarrow> frag_only d e \<Longrightarrow> frag_only c e"
  by (auto simp: frag_only_def) (metis chunk.surjective chunk.update_convs(2))

lemma frag_only_fields:
  assumes "frag_only c d"
  shows "ck_size d = ck_size c" "ck_id d = ck_id c" "ck_fp d = ck_fp c" "ck_data d = ck_data c"
  using assms unfolding frag_only_def by (metis chunk.select_convs chunk.surjective chunk.update_convs(2))+

lemma frag_only_check:
  assumes "frag_only c d" and "f AND frag_bits = 0"
  shows "CHECK_CHUNK d f = CHECK_CHUNK c f"
proof -
  have f: "f = f AND NOT frag_bits"
    using assms(2) by (metis (no_types) and.comm_neutral bit.conj_cancel_right bit.conj_disj_distrib bit.disj_cancel_right or.left_neutral)
  have "ck_flag d AND f = (ck_flag d AND NOT frag_bits) AND f" by (subst f) (simp add: ac_simps)
  also have "\<dots> = (ck_flag c AND NOT frag_bits) AND f" using assms(1) by (simp add: frag_only_def)
  also have "\<dots> = ck_flag c AND f" by (subst (2) f) (simp add: ac_simps)
  finally show ?thesis by (simp add: CHECK_CHUNK_def)
qed

lemma frag_bits_apart [simp]:
  "CHUNK_DUPLICATE AND frag_bits = 0" "CHUNK_FILE_START AND frag_bits = 0" "CHUNK_FILE_END AND frag_bits = 0"
  "CHUNK_SEGMENT_START AND frag_bits = 0" "CHUNK_SEGMENT_END AND frag_bits = 0"
  "CHUNK_REWRITE_DENIED AND frag_bits = 0" "CHUNK_IN_CACHE AND frag_bits = 0"
  by (simp_all add: frag_bits_def cfg_simps)

lemma frag_only_same:
  assumes "frag_only c d"
  shows "is_signal d = is_signal c" "is_file_mark d = is_file_mark c" "CHECK_CHUNK d CHUNK_DUPLICATE = CHECK_CHUNK c CHUNK_DUPLICATE"
    "CHECK_CHUNK d CHUNK_REWRITE_DENIED = CHECK_CHUNK c CHUNK_REWRITE_DENIED"
    "CHECK_CHUNK d CHUNK_SEGMENT_START = CHECK_CHUNK c CHUNK_SEGMENT_START"
    "CHECK_CHUNK d CHUNK_SEGMENT_END = CHECK_CHUNK c CHUNK_SEGMENT_END"
    "CHECK_CHUNK d CHUNK_FILE_START = CHECK_CHUNK c CHUNK_FILE_START"
    "CHECK_CHUNK d CHUNK_FILE_END = CHECK_CHUNK c CHUNK_FILE_END" "msg_ok d = msg_ok c"
  using frag_only_check [OF assms] frag_only_fields [OF assms] by (simp_all add: is_signal_def is_file_mark_def msg_ok_def)

lemma frag_only_set:
  assumes "\<not> is_signal c" and "f = CHUNK_OUT_OF_ORDER \<or> f = CHUNK_SPARSE"
  shows "frag_only c (SET_CHUNK c f)"
proof -
  have "f AND NOT frag_bits = 0" using assms(2) by (auto simp: frag_bits_def cfg_simps)
  then have "(ck_flag c OR f) AND NOT frag_bits = ck_flag c AND NOT frag_bits"
    by (simp add: bit.conj_disj_distrib2)
  with assms(1) show ?thesis by (simp add: frag_only_def SET_CHUNK_def)
qed

lemma har_check_frag: "\<not> is_signal c \<Longrightarrow> frag_only c (har_check inherited c)"
  by (simp add: har_check_def frag_only_set)

subsection \<open>The rewrite buffer\<close>

text \<open>\<open>held_size i q\<close>: the bytes of container \<open>i\<close> waiting in the queue.\<close>

definition held_size :: "containerid \<Rightarrow> chunk list \<Rightarrow> int" where
  "held_size i q = sum_list (map ck_size (filter (\<lambda>c. \<not> is_signal c \<and> ck_id c = i) q))"

definition rec_inv :: "chunk list \<Rightarrow> containerRecord list \<Rightarrow> bool" where
  "rec_inv q rs \<longleftrightarrow> distinct (map cr_cid rs)
     \<and> (\<forall>r\<in>set rs. 0 \<le> cr_cid r \<and> cr_cid r < 2 ^ 31 \<and> cr_size r = held_size (cr_cid r) q \<and> 0 < cr_size r)
     \<and> (\<forall>c\<in>set q. \<not> is_signal c \<and> ck_id c \<noteq> TEMPORARY_ID \<longrightarrow> ck_id c \<in> cr_cid ` set rs)"

definition rb_inv :: "rewrite_buffer \<Rightarrow> bool" where
  "rb_inv b \<longleftrightarrow> rec_inv (rb_queue b) (rb_records b) \<and> sorted (map cr_cid (rb_records b))
     \<and> rb_num b = int (length (filter (\<lambda>c. \<not> is_signal c) (rb_queue b)))
     \<and> rb_size b = sum_list (map ck_size (filter (\<lambda>c. \<not> is_signal c) (rb_queue b)))
     \<and> (\<forall>c\<in>set (rb_queue b). msg_ok c)"

lemma mset_insert_sorted: "mset (insert_sorted cmp x ys) = add_mset x (mset ys)"
  by (induction ys) auto

lemma set_insert_sorted: "set (insert_sorted cmp x ys) = insert x (set ys)"
  by (metis mset_insert_sorted set_mset_add_mset_insert set_mset_mset)

lemma mset_fold_insert_sorted: "mset (fold (insert_sorted cmp) xs ys) = mset xs + mset ys"
  by (induction xs arbitrary: ys) (simp_all add: mset_insert_sorted)

lemma cmp_id:
  assumes "0 \<le> cr_cid a" "cr_cid a < 2 ^ 31" "0 \<le> cr_cid b" "cr_cid b < 2 ^ 31"
  shows "g_record_cmp_by_id a b = cr_cid a - cr_cid b"
proof -
  have "in32 (cr_cid a - cr_cid b)" using assms by (simp add: in32_def)
  then show ?thesis by (simp add: g_record_cmp_by_id_def)
qed

lemma sorted_insert_by_id:
  assumes "sorted (map cr_cid rs)" "\<forall>r\<in>set (x # rs). 0 \<le> cr_cid r \<and> cr_cid r < 2 ^ 31"
  shows "sorted (map cr_cid (insert_sorted g_record_cmp_by_id x rs))"
  using assms
proof (induction rs)
  case (Cons r rs)
  have c: "g_record_cmp_by_id r x = cr_cid r - cr_cid x" using Cons.prems(2) by (intro cmp_id) auto
  have "cr_cid r \<le> cr_cid y" if "y \<in> set rs" for y using Cons.prems(1) that by auto
  then have "cr_cid x \<le> cr_cid y" if "y \<in> set rs" "\<not> cr_cid r \<le> cr_cid x" for y using that by fastforce
  with Cons c show ?case by (auto simp: set_insert_sorted)
qed simp

lemma sorted_fold_by_id:
  "sorted (map cr_cid ys) \<Longrightarrow> \<forall>r\<in>set xs \<union> set ys. 0 \<le> cr_cid r \<and> cr_cid r < 2 ^ 31 \<Longrightarrow>
   sorted (map cr_cid (fold (insert_sorted g_record_cmp_by_id) xs ys))"
  by (induction xs arbitrary: ys) (simp_all add: sorted_insert_by_id set_insert_sorted)

lemma rec_inv_mset: "mset rs = mset rs' \<Longrightarrow> rec_inv q rs = rec_inv q rs'"
proof -
  assume m: "mset rs = mset rs'"
  then have "set rs = set rs'" by (metis set_mset_mset)
  moreover have "distinct (map cr_cid rs) = distinct (map cr_cid rs')"
    by (rule mset_eq_imp_distinct_iff) (simp add: m)
  ultimately show ?thesis by (simp add: rec_inv_def)
qed

lemma lookup_record:
  assumes "rec_inv q rs" "0 \<le> i" "i < 2 ^ 31"
  shows "record_lookup i rs = find (\<lambda>r. cr_cid r = i) rs"
  unfolding record_lookup_def
proof (rule find_cong [OF refl])
  fix r assume "r \<in> set rs"
  with assms cmp_id [of r "\<lparr>cr_cid = i, cr_size = 0, cr_out_of_order = False\<rparr>"]
  show "(g_record_cmp_by_id r \<lparr>cr_cid = i, cr_size = 0, cr_out_of_order = False\<rparr> = 0) = (cr_cid r = i)"
    by (auto simp: rec_inv_def)
qed

lemma find_record:
  assumes "r \<in> set rs" "cr_cid r = i" "distinct (map cr_cid rs)"
  shows "find (\<lambda>r. cr_cid r = i) rs = Some r"
  using assms by (induction rs) auto

lemma held_size_append: "held_size i (q @ q') = held_size i q + held_size i q'"
  by (simp add: held_size_def)

lemma held_size_Cons: "held_size i (c # q) = (if \<not> is_signal c \<and> ck_id c = i then ck_size c else 0) + held_size i q"
  by (simp add: held_size_def)

lemma held_nonneg: "\<forall>c\<in>set q. msg_ok c \<Longrightarrow> 0 \<le> held_size i q"
  unfolding held_size_def by (rule sum_list_nonneg) (auto simp: msg_ok_def)

lemma held_zero:
  assumes "\<forall>c\<in>set q. msg_ok c" "held_size i q = 0"
  shows "\<forall>c\<in>set q. \<not> is_signal c \<longrightarrow> ck_id c \<noteq> i"
  using assms
proof (induction q)
  case (Cons c q)
  have "0 \<le> held_size i q" using Cons.prems(1) by (simp add: held_nonneg)
  with Cons show ?case by (auto simp: held_size_Cons msg_ok_def split: if_splits)
qed simp

lemma held_absent: "\<forall>c\<in>set q. \<not> is_signal c \<longrightarrow> ck_id c \<noteq> i \<Longrightarrow> held_size i q = 0"
  by (induction q) (auto simp: held_size_Cons held_size_def)

lemma sorted_resize: "map cr_cid (record_resize i sz rs) = map cr_cid rs"
  by (auto simp: record_resize_def)

lemma rec_inv_resize:
  assumes "rec_inv q rs" "i \<in> cr_cid ` set rs" "held_size i q' > 0"
    and "\<And>j. j \<noteq> i \<Longrightarrow> held_size j q' = held_size j q"
    and "\<forall>c\<in>set q'. \<not> is_signal c \<and> ck_id c \<noteq> TEMPORARY_ID \<longrightarrow> ck_id c \<in> cr_cid ` set rs"
  shows "rec_inv q' (record_resize i (held_size i q') rs)"
proof -
  let ?rs = "record_resize i (held_size i q') rs"
  have ids: "cr_cid ` set ?rs = cr_cid ` set rs" by (metis sorted_resize list.set_map)
  have each: "0 \<le> cr_cid r \<and> cr_cid r < 2 ^ 31 \<and> cr_size r = held_size (cr_cid r) q' \<and> 0 < cr_size r" if "r \<in> set ?rs" for r
  proof -
    from that obtain r0 where r0: "r0 \<in> set rs" "r = (if cr_cid r0 = i then r0\<lparr>cr_size := held_size i q'\<rparr> else r0)"
      by (auto simp: record_resize_def)
    from assms(1) r0(1) have "0 \<le> cr_cid r0 \<and> cr_cid r0 < 2 ^ 31 \<and> cr_size r0 = held_size (cr_cid r0) q \<and> 0 < cr_size r0"
      unfolding rec_inv_def by blast
    with r0(2) assms(3,4) show ?thesis by (cases "cr_cid r0 = i") simp_all
  qed
  have "distinct (map cr_cid ?rs)" using assms(1) by (simp add: sorted_resize rec_inv_def)
  moreover have "\<forall>r\<in>set ?rs. 0 \<le> cr_cid r \<and> cr_cid r < 2 ^ 31 \<and> cr_size r = held_size (cr_cid r) q' \<and> 0 < cr_size r"
    using each by blast
  moreover have "\<forall>c\<in>set q'. \<not> is_signal c \<and> ck_id c \<noteq> TEMPORARY_ID \<longrightarrow> ck_id c \<in> cr_cid ` set ?rs"
    using assms(5) ids by simp
  ultimately show ?thesis unfolding rec_inv_def by (intro conjI)
qed

lemma rec_inv_signal: "is_signal c \<Longrightarrow> rec_inv (q @ [c]) rs = rec_inv q rs" "is_signal c \<Longrightarrow> rec_inv (c # q) rs = rec_inv q rs"
  by (auto simp: rec_inv_def held_size_append held_size_Cons held_size_def)

lemma rec_invI:
  assumes "distinct (map cr_cid rs)"
    and "\<And>r. r \<in> set rs \<Longrightarrow> 0 \<le> cr_cid r \<and> cr_cid r < 2 ^ 31 \<and> cr_size r = held_size (cr_cid r) q \<and> 0 < cr_size r"
    and "\<And>c. c \<in> set q \<Longrightarrow> \<not> is_signal c \<Longrightarrow> ck_id c \<noteq> TEMPORARY_ID \<Longrightarrow> ck_id c \<in> cr_cid ` set rs"
  shows "rec_inv q rs"
  unfolding rec_inv_def using assms by blast

lemma rec_invD:
  assumes "rec_inv q rs"
  shows "distinct (map cr_cid rs)"
    and "r \<in> set rs \<Longrightarrow> 0 \<le> cr_cid r \<and> cr_cid r < 2 ^ 31 \<and> cr_size r = held_size (cr_cid r) q \<and> 0 < cr_size r"
    and "c \<in> set q \<Longrightarrow> \<not> is_signal c \<Longrightarrow> ck_id c \<noteq> TEMPORARY_ID \<Longrightarrow> ck_id c \<in> cr_cid ` set rs"
  using assms unfolding rec_inv_def by blast+

lemma rec_inv_cong:
  assumes "rec_inv q rs" and "\<And>r. r \<in> set rs \<Longrightarrow> held_size (cr_cid r) q' = held_size (cr_cid r) q"
    and "\<forall>c\<in>set q'. \<not> is_signal c \<and> ck_id c \<noteq> TEMPORARY_ID \<longrightarrow> ck_id c \<in> cr_cid ` set rs"
  shows "rec_inv q' rs"
proof (rule rec_invI)
  show "distinct (map cr_cid rs)" by (rule rec_invD(1) [OF assms(1)])
  fix r assume r: "r \<in> set rs"
  from rec_invD(2) [OF assms(1) r] assms(2) [OF r]
  show "0 \<le> cr_cid r \<and> cr_cid r < 2 ^ 31 \<and> cr_size r = held_size (cr_cid r) q' \<and> 0 < cr_size r" by simp
qed (use assms(3) in blast)

lemma push_ok:
  assumes inv: "rb_inv b" and c: "msg_ok c" and num: "rb_num b < rewrite_limit cfg"
  shows "\<exists>b'. rewrite_buffer_push cfg c b = Inr (\<not> is_signal c \<and> rb_num b' = rewrite_limit cfg, b') \<and> rb_inv b' \<and>
     rb_queue b' = rb_queue b @ [c] \<and> rb_num b' \<le> rewrite_limit cfg \<and> (is_signal c \<longrightarrow> rb_num b' < rewrite_limit cfg)"
proof (cases "is_signal c")
  case True
  with inv c num show ?thesis
    by (auto simp: rewrite_buffer_push_def rb_inv_def rec_inv_signal)
next
  case ns: False
  from inv have r: "rec_inv (rb_queue b) (rb_records b)" and srt: "sorted (map cr_cid (rb_records b))"
    and ok: "\<forall>c\<in>set (rb_queue b). msg_ok c" by (auto simp: rb_inv_def)
  have sz: "0 < ck_size c" using c ns by (simp add: msg_ok_def)
  define b0 where "b0 = b\<lparr>rb_queue := rb_queue b @ [c]\<rparr>"
  have "\<exists>rs. (if ck_id c \<noteq> TEMPORARY_ID then
                 rbind (c_assert (CHECK_CHUNK c CHUNK_DUPLICATE)) (\<lambda>_.
                 case record_lookup (ck_id c) (rb_records b0) of
                   None \<Rightarrow> Inr (b0\<lparr>rb_records := insert_sorted g_record_cmp_by_id
                       \<lparr>cr_cid = ck_id c, cr_size = ck_size c, cr_out_of_order = True\<rparr> (rb_records b0)\<rparr>)
                 | Some r \<Rightarrow> rbind (c_assert (cr_cid r = ck_id c)) (\<lambda>_.
                     Inr (b0\<lparr>rb_records := record_resize (ck_id c) (cr_size r + ck_size c) (rb_records b0)\<rparr>)))
               else Inr b0) = Inr (b0\<lparr>rb_records := rs\<rparr>) \<and> rec_inv (rb_queue b @ [c]) rs \<and> sorted (map cr_cid rs)"
    (is "\<exists>rs. ?E = _ \<and> _ \<and> _")
  proof (cases "ck_id c = TEMPORARY_ID")
    case True
    have "held_size (cr_cid r') (rb_queue b @ [c]) = held_size (cr_cid r') (rb_queue b)" if "r' \<in> set (rb_records b)" for r'
      using r that True by (auto simp: held_size_append held_size_Cons held_size_def rec_inv_def TEMPORARY_ID_def)
    then have "rec_inv (rb_queue b @ [c]) (rb_records b)"
      by (rule rec_inv_cong [OF r]) (use r True in \<open>auto simp: rec_inv_def\<close>)
    with True srt show ?thesis by (intro exI [of _ "rb_records b"]) (simp add: b0_def)
  next
    case id: False
    then have cid: "0 \<le> ck_id c" "ck_id c < 2 ^ 31" "CHECK_CHUNK c CHUNK_DUPLICATE" using c ns by (auto simp: msg_ok_def)
    note look = lookup_record [OF r cid(1,2)]
    have held: "held_size j (rb_queue b @ [c]) = held_size j (rb_queue b) + (if j = ck_id c then ck_size c else 0)" for j
      using ns by (auto simp: held_size_append held_size_Cons held_size_def)
    show ?thesis
    proof (cases "ck_id c \<in> cr_cid ` set (rb_records b)")
      case True
      then obtain r1 where r1: "r1 \<in> set (rb_records b)" "cr_cid r1 = ck_id c" by auto
      from find_record [OF r1] r have f: "record_lookup (ck_id c) (rb_records b) = Some r1"
        by (simp add: look rec_inv_def)
      have s1: "cr_size r1 + ck_size c = held_size (ck_id c) (rb_queue b @ [c])" "0 < cr_size r1"
        using r r1 by (auto simp: rec_inv_def held)
      have "rec_inv (rb_queue b @ [c]) (record_resize (ck_id c) (held_size (ck_id c) (rb_queue b @ [c])) (rb_records b))"
        by (rule rec_inv_resize [OF r True]) (use s1 sz r True in \<open>auto simp: held rec_inv_def\<close>)
      with id cid f r1 s1 srt show ?thesis
        by (intro exI [of _ "record_resize (ck_id c) (cr_size r1 + ck_size c) (rb_records b)"])
          (simp add: b0_def sorted_resize)
    next
      case False
      then have "\<forall>r\<in>set (rb_records b). cr_cid r \<noteq> ck_id c" by (metis image_eqI)
      then have f: "record_lookup (ck_id c) (rb_records b) = None"
        by (simp add: look find_None_iff)
      let ?n = "\<lparr>cr_cid = ck_id c, cr_size = ck_size c, cr_out_of_order = True\<rparr>"
      have h0: "held_size (ck_id c) (rb_queue b) = 0"
        using rec_invD(3) [OF r] False id by (intro held_absent) metis
      have n: "rec_inv (rb_queue b @ [c]) (?n # rb_records b)"
        using r False sz cid h0 by (auto simp: rec_inv_def held)
      have "rec_inv (rb_queue b @ [c]) (insert_sorted g_record_cmp_by_id ?n (rb_records b))"
        using n rec_inv_mset [of "insert_sorted g_record_cmp_by_id ?n (rb_records b)" "?n # rb_records b"]
        by (simp add: mset_insert_sorted)
      moreover have "sorted (map cr_cid (insert_sorted g_record_cmp_by_id ?n (rb_records b)))"
        using r cid by (intro sorted_insert_by_id [OF srt]) (auto simp: rec_inv_def)
      ultimately show ?thesis using id cid f
        by (intro exI [of _ "insert_sorted g_record_cmp_by_id ?n (rb_records b)"]) (simp add: b0_def)
    qed
  qed
  then obtain rs where rs: "?E = Inr (b0\<lparr>rb_records := rs\<rparr>)" "rec_inv (rb_queue b @ [c]) rs" "sorted (map cr_cid rs)" by blast
  have "rb_inv (b0\<lparr>rb_records := rs, rb_num := rb_num b + 1, rb_size := rb_size b + ck_size c\<rparr>)"
    using inv rs ns c by (auto simp: rb_inv_def b0_def)
  then show ?thesis using ns num unfolding rewrite_buffer_push_def Let_def b0_def [symmetric] rs(1)
    by (auto simp: b0_def)
qed

lemma rec_inv_shrink:
  assumes r: "rec_inv (c # q) rs" and c: "\<not> is_signal c" "ck_id c \<noteq> TEMPORARY_ID" and ok: "\<forall>d\<in>set (c # q). msg_ok d"
  shows "\<exists>r1. record_lookup (ck_id c) rs = Some r1 \<and> cr_size r1 - ck_size c = held_size (ck_id c) q \<and>
     rec_inv q (if held_size (ck_id c) q = 0 then filter (\<lambda>r. cr_cid r \<noteq> ck_id c) rs
                else record_resize (ck_id c) (held_size (ck_id c) q) rs)"
proof -
  have cid: "0 \<le> ck_id c" "ck_id c < 2 ^ 31" using ok c by (auto simp: msg_ok_def)
  from r c obtain r1 where r1: "r1 \<in> set rs" "cr_cid r1 = ck_id c" by (auto simp: rec_inv_def)
  from find_record [OF r1] r have f: "record_lookup (ck_id c) rs = Some r1"
    by (simp add: lookup_record [OF r cid] rec_inv_def)
  have held: "held_size j (c # q) = held_size j q + (if j = ck_id c then ck_size c else 0)" for j
    using c(1) by (auto simp: held_size_Cons)
  have "cr_size r1 = held_size (ck_id c) (c # q)" using r r1 by (auto simp: rec_inv_def)
  then have sz: "cr_size r1 - ck_size c = held_size (ck_id c) q" by (simp add: held)
  have okq: "\<forall>d\<in>set q. msg_ok d" using ok by simp
  have ge: "0 \<le> held_size (ck_id c) q" by (rule held_nonneg [OF okq])
  have third: "\<forall>d\<in>set q. \<not> is_signal d \<and> ck_id d \<noteq> TEMPORARY_ID \<longrightarrow> ck_id d \<in> cr_cid ` set rs"
    using r by (auto simp: rec_inv_def)
  show ?thesis
  proof (cases "held_size (ck_id c) q = 0")
    case True
    let ?rs = "filter (\<lambda>r. cr_cid r \<noteq> ck_id c) rs"
    have "rec_inv q ?rs"
    proof (rule rec_invI)
      show "distinct (map cr_cid ?rs)" using rec_invD(1) [OF r] by (simp add: distinct_map_filter)
    next
      fix r' assume "r' \<in> set ?rs"
      then have "r' \<in> set rs" "cr_cid r' \<noteq> ck_id c" by auto
      with rec_invD(2) [OF r this(1)] held [of "cr_cid r'"]
      show "0 \<le> cr_cid r' \<and> cr_cid r' < 2 ^ 31 \<and> cr_size r' = held_size (cr_cid r') q \<and> 0 < cr_size r'" by simp
    next
      fix d assume d: "d \<in> set q" "\<not> is_signal d" "ck_id d \<noteq> TEMPORARY_ID"
      with third obtain r' where "r' \<in> set rs" "cr_cid r' = ck_id d" by (metis imageE)
      moreover have "ck_id d \<noteq> ck_id c" using held_zero [OF okq True] d by blast
      ultimately show "ck_id d \<in> cr_cid ` set ?rs" by (force simp: image_iff)
    qed
    with r f sz True show ?thesis by auto
  next
    case False
    moreover have "ck_id c \<in> cr_cid ` set rs" using r1 by force
    ultimately have "rec_inv q (record_resize (ck_id c) (held_size (ck_id c) q) rs)"
      by (intro rec_inv_resize [OF r]) (use ge third in \<open>simp_all add: held\<close>)
    with f sz False show ?thesis by simp
  qed
qed

lemma pop_ok:
  assumes inv: "rb_inv b" and q: "rb_queue b = c # q"
  shows "\<exists>c' b'. rewrite_buffer_pop cfg inherited b = Inr (Some c', b') \<and> rb_inv b' \<and> rb_queue b' = q \<and> frag_only c c'"
proof (cases "is_signal c")
  case True
  with inv q show ?thesis by (auto simp: rewrite_buffer_pop_def rb_inv_def rec_inv_signal)
next
  case ns: False
  from inv q have r: "rec_inv (c # q) (rb_records b)" and srt: "sorted (map cr_cid (rb_records b))"
    and ok: "\<forall>d\<in>set (c # q). msg_ok d" by (auto simp: rb_inv_def)
  show ?thesis
  proof (cases "CHECK_CHUNK c CHUNK_DUPLICATE \<and> ck_id c \<noteq> TEMPORARY_ID")
    case True
    from rec_inv_shrink [OF r ns conjunct2 [OF True] ok] obtain r1 where
      r1: "record_lookup (ck_id c) (rb_records b) = Some r1" "cr_size r1 - ck_size c = held_size (ck_id c) q" and
      ri: "rec_inv q (if held_size (ck_id c) q = 0 then filter (\<lambda>r. cr_cid r \<noteq> ck_id c) (rb_records b)
                else record_resize (ck_id c) (held_size (ck_id c) q) (rb_records b))" by blast
    have "sorted (map cr_cid (filter (\<lambda>r. cr_cid r \<noteq> ck_id c) (rb_records b)))"
      using srt by (rule sorted_filter)
    with inv q ns ri srt har_check_frag [OF ns, of inherited] True r1 show ?thesis
      by (auto simp: rewrite_buffer_pop_def rb_inv_def Let_def sorted_resize)
  next
    case False
    then have t: "ck_id c = TEMPORARY_ID" using ok ns by (auto simp: msg_ok_def)
    have "rec_inv q (rb_records b)"
    proof (rule rec_inv_cong [OF r])
      fix r' assume "r' \<in> set (rb_records b)"
      then have "cr_cid r' \<noteq> TEMPORARY_ID" using r by (auto simp: rec_inv_def TEMPORARY_ID_def)
      then show "held_size (cr_cid r') q = held_size (cr_cid r') (c # q)" by (auto simp: held_size_Cons t)
    qed (use r in \<open>auto simp: rec_inv_def\<close>)
    with inv q ns False show ?thesis by (auto simp: rewrite_buffer_pop_def rb_inv_def Let_def)
  qed
qed

lemma pop_empty: "rb_queue b = [] \<Longrightarrow> rewrite_buffer_pop cfg inherited b = Inr (None, b)"
  by (simp add: rewrite_buffer_pop_def)

text \<open>A loop body that only sets fragmentation flags.\<close>

definition marks :: "(chunk \<Rightarrow> chunk res) \<Rightarrow> bool" where
  "marks f \<longleftrightarrow> (\<forall>c. msg_ok c \<longrightarrow> (\<exists>d. f c = Inr d \<and> frag_only c d))"

lemma pop_all_ok:
  assumes "marks f"
  shows "rb_inv b \<Longrightarrow> length (rb_queue b) < n \<Longrightarrow>
    \<exists>b' ds. pop_all cfg inherited f n b out = Inr (b', out @ ds) \<and> rb_inv b' \<and> rb_queue b' = [] \<and> list_all2 frag_only (rb_queue b) ds"
proof (induction n arbitrary: b out)
  case (Suc n)
  show ?case
  proof (cases "rb_queue b")
    case Nil
    with Suc.prems show ?thesis by (simp add: pop_empty)
  next
    case (Cons c q)
    from pop_ok [OF Suc.prems(1) Cons] obtain c1 b1 where
      p: "rewrite_buffer_pop cfg inherited b = Inr (Some c1, b1)" "rb_inv b1" "rb_queue b1 = q" "frag_only c c1" by blast
    have "msg_ok c" using Suc.prems(1) Cons by (simp add: rb_inv_def)
    then have "msg_ok c1" using frag_only_same(9) [OF p(4)] by simp
    then obtain c2 where c2: "f c1 = Inr c2" "frag_only c1 c2" using assms by (auto simp: marks_def)
    from Suc.IH [OF p(2), of "out @ [c2]"] Suc.prems(2) p(3) Cons obtain b' ds where
      r: "pop_all cfg inherited f n b1 (out @ [c2]) = Inr (b', (out @ [c2]) @ ds)" "rb_inv b'" "rb_queue b' = []" "list_all2 frag_only q ds"
      by auto
    with p c2 Cons frag_only_trans [OF p(4) c2(2)] show ?thesis by (auto intro!: exI [of _ "c2 # ds"])
  qed
qed simp

lemma drain_ok:
  assumes "marks f" "rb_inv b"
  shows "\<exists>b' ds. drain_buffer cfg inherited f (b, out) = Inr (b', out @ ds) \<and> rb_inv b' \<and> rb_queue b' = [] \<and> rb_num b' = 0 \<and>
     list_all2 frag_only (rb_queue b) ds"
proof -
  from pop_all_ok [OF assms, of "length (rb_queue b) + 1" cfg inherited out] obtain b' ds where
    "pop_all cfg inherited f (length (rb_queue b) + 1) b out = Inr (b', out @ ds)" "rb_inv b'" "rb_queue b' = []"
    "list_all2 frag_only (rb_queue b) ds" by auto
  moreover from this have "rb_num b' = 0" by (simp add: rb_inv_def)
  ultimately show ?thesis by (simp add: drain_buffer_def)
qed

lemma init_rb_inv: "rb_inv init_rewrite_buffer"
  by (simp add: rb_inv_def rec_inv_def init_rewrite_buffer_def)

end
