(* ===== verification/Cbr_Rewrite.thy ===== *)
theory Cbr_Rewrite
  imports Rewrite_Buffer Container_Store
begin

text \<open>
  Context-based rewriting: \<open>cbr_rewrite.c\<close>. The oldest chunk of the full buffer is decided: how much of its
  container is in the buffer gives its utility, the share of chunks that may be rewritten gives the threshold.

  \<^item> Doubles are \<open>real\<close>; \<open>rnd\<close> is the rounding of one operation, so every operation of the code
    has its own \<open>rnd\<close>. What is used of it is the relative error (\<open>rounds\<close>).
  \<^item> Conversion to \<open>int\<close> cuts off the fraction (\<open>c_int\<close>).
\<close>

record cbr_cfg =
  cbr_limit :: real               \<comment> \<open>\<open>rewrite_cbr_limit\<close>\<close>
  cbr_minimal :: real             \<comment> \<open>\<open>rewrite_cbr_minimal_utility\<close>\<close>
  cbr_rnd :: "real \<Rightarrow> real"

definition c_int :: "real \<Rightarrow> int" where
  "c_int x = (if 0 \<le> x then \<lfloor>x\<rfloor> else \<lceil>x\<rceil>)"

record utility_buckets =
  ub_num :: int
  ub_threshold :: real
  ub_min_index :: int
  ub_buckets :: "int list"

definition init_utility_buckets :: "cbr_cfg \<Rightarrow> utility_buckets" where
  "init_utility_buckets g =
     \<lparr>ub_num = 0, ub_threshold = cbr_minimal g,
      ub_min_index = (if cbr_minimal g = 1 then 9999 else c_int (cbr_rnd g (cbr_minimal g * 10000))),
      ub_buckets = replicate 10000 0\<rparr>"

definition bucket :: "utility_buckets \<Rightarrow> int \<Rightarrow> int res" where
  "bucket u i = (if 0 \<le> i \<and> i < int (length (ub_buckets u)) then Inr (ub_buckets u ! nat i) else Inl OutOfBounds)"

text \<open>The loop from the last bucket down to \<open>min_index\<close>; the result is \<open>current_index\<close>.\<close>

function best_index :: "utility_buckets \<Rightarrow> int \<Rightarrow> int \<Rightarrow> int \<Rightarrow> int res" where
  "best_index u best i cnt =
     (if i < ub_min_index u then Inr i
      else rbind (bucket u i) (\<lambda>n. if cnt + n \<ge> best then Inr i else best_index u best (i - 1) (cnt + n)))"
  by pat_completeness auto
termination by (relation "measure (\<lambda>(u, best, i, cnt). nat (i - ub_min_index u + 1))") auto

declare best_index.simps [simp del]

definition utility_buckets_update :: "cbr_cfg \<Rightarrow> real \<Rightarrow> utility_buckets \<Rightarrow> utility_buckets res" where
  "utility_buckets_update g utility u =
     (let u = u\<lparr>ub_num := ub_num u + 1\<rparr>;
          i = (if utility \<ge> 1 then 9999 else c_int (cbr_rnd g (utility * 10000))) in
      rbind (bucket u i) (\<lambda>n.
      let u = u\<lparr>ub_buckets := (ub_buckets u)[nat i := n + 1]\<rparr> in
      if ub_num u \<ge> 100
      then rbind (best_index u (c_int (cbr_rnd g (ub_num u * cbr_limit g))) 9999 0) (\<lambda>i.
             Inr (u\<lparr>ub_threshold := cbr_rnd g (real_of_int (i + 1) / 10000)\<rparr>))
      else Inr u))"

definition get_rewrite_utility :: "cbr_cfg \<Rightarrow> chunk \<Rightarrow> rewrite_buffer \<Rightarrow> real res" where
  "get_rewrite_utility g c b =
     (case record_lookup (ck_id c) (rb_records b) of
        None \<Rightarrow> Inl AssertFailed
      | Some r \<Rightarrow>
          let coverage = cbr_rnd g (real_of_int (cr_size r + ck_size c) / real (CONTAINER_SIZE - CONTAINER_META_SIZE)) in
          Inr (if coverage \<ge> 1 then 0 else cbr_rnd g (1 - coverage)))"

definition record_in_order :: "containerid \<Rightarrow> containerRecord list \<Rightarrow> containerRecord list" where
  "record_in_order i rs = map (\<lambda>r. if cr_cid r = i then r\<lparr>cr_out_of_order := False\<rparr> else r) rs"

text \<open>The decision on a data chunk: the chunk, its utility and the buffer, whose record may have become in order.\<close>

definition cbr_decide :: "cbr_cfg \<Rightarrow> utility_buckets \<Rightarrow> chunk \<Rightarrow> rewrite_buffer \<Rightarrow> (chunk \<times> real \<times> rewrite_buffer) res" where
  "cbr_decide g u c b =
     (if ck_id c \<noteq> TEMPORARY_ID then
        rbind (c_assert (CHECK_CHUNK c CHUNK_DUPLICATE)) (\<lambda>_.
        case record_lookup (ck_id c) (rb_records b) of
          None \<Rightarrow> Inl AssertFailed
        | Some r \<Rightarrow>
            if cr_out_of_order r then
              rbind (get_rewrite_utility g c b) (\<lambda>utility.
              if utility < cbr_minimal g \<or> utility < ub_threshold u
              then Inr (c, utility, b\<lparr>rb_records := record_in_order (ck_id c) (rb_records b)\<rparr>)
              else Inr (SET_CHUNK c CHUNK_OUT_OF_ORDER, utility, b))
            else Inr (c, 0, b))
      else Inr (c, 0, b))"

text \<open>The marks in front of the decision chunk are sent on; \<open>rewrite_buffer_top\<close> is \<open>NULL\<close> when only marks were
  buffered.\<close>

fun pop_signals :: "rw_cfg \<Rightarrow> containerid set \<Rightarrow> nat \<Rightarrow> rewrite_buffer \<Rightarrow> chunk list \<Rightarrow> (chunk \<times> rewrite_buffer \<times> chunk list) res" where
  "pop_signals cfg inherited 0 b out = Inl NullDeref"
| "pop_signals cfg inherited (Suc n) b out =
     (case rewrite_buffer_top b of
        None \<Rightarrow> Inl NullDeref
      | Some d \<Rightarrow>
          if is_signal d then rbind (rewrite_buffer_pop cfg inherited b) (\<lambda>(_, b). pop_signals cfg inherited n b (out @ [d]))
          else Inr (d, b, out))"

text \<open>The decision chunk is still the head of the queue while it is decided: setting its flag changes the queue.\<close>

definition cbr_step :: "rw_cfg \<Rightarrow> cbr_cfg \<Rightarrow> containerid set \<Rightarrow> chunk \<Rightarrow> utility_buckets \<times> rewrite_buffer \<times> chunk list \<Rightarrow>
    (utility_buckets \<times> rewrite_buffer \<times> chunk list) res" where
  "cbr_step cfg g inherited c = (\<lambda>(u, b, out).
     rbind (rewrite_buffer_push cfg c b) (\<lambda>(full, b).
     if \<not> full then Inr (u, b, out)
     else
       rbind (pop_signals cfg inherited (length (rb_queue b) + 1) b out) (\<lambda>(d, b, out).
       rbind (cbr_decide g u d b) (\<lambda>(d, utility, b).
       rbind (utility_buckets_update g utility u) (\<lambda>u.
       rbind (rewrite_buffer_pop cfg inherited (b\<lparr>rb_queue := d # tl (rb_queue b)\<rparr>)) (\<lambda>(p, b).
       case p of None \<Rightarrow> Inl NullDeref | Some p \<Rightarrow> Inr (u, b, out @ [p])))))))"

definition cbr_rewrite :: "rw_cfg \<Rightarrow> cbr_cfg \<Rightarrow> containerid set \<Rightarrow> chunk list \<Rightarrow> chunk list res" where
  "cbr_rewrite cfg g inherited cs =
     rbind (rfold (cbr_step cfg g inherited) cs (init_utility_buckets g, init_rewrite_buffer, [])) (\<lambda>(u, b, out).
     rbind (drain_buffer cfg inherited Inr (b, out)) (\<lambda>(b, out). Inr out))"

subsection \<open>The buckets\<close>

definition rounds :: "(real \<Rightarrow> real) \<Rightarrow> bool" where
  "rounds rnd \<longleftrightarrow> (\<forall>x. \<bar>rnd x - x\<bar> \<le> \<bar>x\<bar> / 2 ^ 50)"

definition cbr_ok :: "cbr_cfg \<Rightarrow> bool" where
  "cbr_ok g \<longleftrightarrow> rounds (cbr_rnd g) \<and> 0 \<le> cbr_minimal g \<and> cbr_minimal g \<le> 1"

definition ub_ok :: "utility_buckets \<Rightarrow> bool" where
  "ub_ok u \<longleftrightarrow> length (ub_buckets u) = 10000 \<and> 0 \<le> ub_min_index u"

lemma rounds_abs:
  assumes "rounds rnd" "0 \<le> x"
  shows "rnd x - x \<le> x / 2 ^ 50 \<and> x - rnd x \<le> x / 2 ^ 50"
proof -
  have "\<bar>rnd x - x\<bar> \<le> \<bar>x\<bar> / 2 ^ 50" using assms(1) by (simp only: rounds_def)
  then have "\<bar>rnd x - x\<bar> \<le> x / 2 ^ 50" using assms(2) by (simp only: abs_of_nonneg)
  from abs_le_D1 [OF this] abs_le_D2 [OF this] show ?thesis by linarith
qed

lemma rounds_le: "rounds rnd \<Longrightarrow> 0 \<le> x \<Longrightarrow> rnd x \<le> x * (1 + 1 / 2 ^ 50)"
  and rounds_ge: "rounds rnd \<Longrightarrow> 0 \<le> x \<Longrightarrow> x * (1 - 1 / 2 ^ 50) \<le> rnd x"
  using rounds_abs [of rnd x] by (auto simp: algebra_simps)

lemma rounds_nonneg: "rounds rnd \<Longrightarrow> 0 \<le> x \<Longrightarrow> 0 \<le> rnd x"
  by (rule order_trans [OF _ rounds_ge]) auto

text \<open>A utility below one lies in one of the buckets.\<close>

lemma index_ok:
  assumes r: "rounds rnd" and u: "0 \<le> utility" "utility \<le> 1 - 1 / 10 ^ 7"
  shows "0 \<le> c_int (rnd (utility * 10000)) \<and> c_int (rnd (utility * 10000)) < 10000"
proof -
  have "rnd (utility * 10000) \<le> utility * 10000 * (1 + 1 / 2 ^ 50)" using u(1) by (intro rounds_le [OF r]) simp
  also have "\<dots> \<le> (1 - 1 / 10 ^ 7) * 10000 * (1 + 1 / 2 ^ 50)" using u by (intro mult_right_mono) auto
  also have "\<dots> < 10000" by simp
  finally show ?thesis using rounds_nonneg [OF r, of "utility * 10000"] u(1) by (simp add: c_int_def floor_less_iff)
qed

lemma utility_ok:
  assumes r: "rounds (cbr_rnd g)" and f: "record_lookup (ck_id c) (rb_records b) = Some rc" and s: "0 < cr_size rc" "0 < ck_size c"
  shows "\<exists>x. get_rewrite_utility g c b = Inr x \<and> 0 \<le> x \<and> x \<le> 1 - 1 / 10 ^ 7"
proof -
  let ?n = "real (CONTAINER_SIZE - CONTAINER_META_SIZE)"
  let ?cov = "cbr_rnd g (real_of_int (cr_size rc + ck_size c) / ?n)"
  have n: "?n = 4161536" by (simp add: cfg_simps)
  have "1 / ?n * (1 - 1 / 2 ^ 50) \<le> real_of_int (cr_size rc + ck_size c) / ?n * (1 - 1 / 2 ^ 50)"
    using s by (intro mult_right_mono divide_right_mono) (auto simp: n)
  also have "\<dots> \<le> ?cov" using s by (intro rounds_ge [OF r]) (simp add: n)
  finally have cov: "1 / 4161536 * (1 - 1 / 2 ^ 50) \<le> ?cov" by (simp add: n)
  have "cbr_rnd g (1 - ?cov) \<le> 1 - 1 / 10 ^ 7 \<and> 0 \<le> cbr_rnd g (1 - ?cov)" if "?cov < 1"
  proof
    have "cbr_rnd g (1 - ?cov) \<le> (1 - ?cov) * (1 + 1 / 2 ^ 50)" using that by (intro rounds_le [OF r]) simp
    also have "\<dots> \<le> (1 - 1 / 4161536 * (1 - 1 / 2 ^ 50)) * (1 + 1 / 2 ^ 50)" using cov by (intro mult_right_mono) auto
    also have "\<dots> \<le> 1 - 1 / 10 ^ 7" by simp
    finally show "cbr_rnd g (1 - ?cov) \<le> 1 - 1 / 10 ^ 7" .
    show "0 \<le> cbr_rnd g (1 - ?cov)" using that by (intro rounds_nonneg [OF r]) simp
  qed
  then show ?thesis unfolding get_rewrite_utility_def f Let_def by (auto simp: not_le)
qed

text \<open>The index the loop stops at: the highest one from which the buckets hold \<open>best\<close> chunks, or the one below \<open>min_index\<close>.\<close>

definition from_bucket :: "utility_buckets \<Rightarrow> int \<Rightarrow> int \<Rightarrow> int" where
  "from_bucket u i j = sum_list (map (\<lambda>k. ub_buckets u ! nat k) [i..j])"

lemma best_index_ok:
  assumes "ub_ok u" "i < 10000"
  shows "\<exists>j. best_index u best i cnt = Inr j \<and> j \<le> i \<and> (ub_min_index u \<le> j \<longrightarrow> best \<le> cnt + from_bucket u j i) \<and>
     (\<forall>k. max (j + 1) (ub_min_index u) \<le> k \<and> k \<le> i \<longrightarrow> cnt + from_bucket u k i < best)"
  using assms
proof (induction u best i cnt rule: best_index.induct)
  case (1 u best i cnt)
  show ?case
  proof (cases "i < ub_min_index u")
    case True
    then show ?thesis by (subst best_index.simps) auto
  next
    case False
    let ?n = "ub_buckets u ! nat i"
    have b: "bucket u i = Inr ?n" using "1.prems" False by (auto simp: bucket_def ub_ok_def)
    have split: "from_bucket u k i = from_bucket u k (i - 1) + ?n" if "k \<le> i" for k
      using that by (simp add: from_bucket_def upto_rec2)
    show ?thesis
    proof (cases "cnt + ?n \<ge> best")
      case True
      then have "best_index u best i cnt = Inr i" using False b by (subst best_index.simps) simp
      then show ?thesis using True by (auto simp: from_bucket_def)
    next
      case less: False
      then have e: "best_index u best i cnt = best_index u best (i - 1) (cnt + ?n)" using False b by (subst best_index.simps) simp
      from "1.IH" [OF False less] "1.prems" obtain j where
        j: "best_index u best (i - 1) (cnt + ?n) = Inr j" "j \<le> i - 1" "ub_min_index u \<le> j \<longrightarrow> best \<le> cnt + ?n + from_bucket u j (i - 1)"
          "\<forall>k. max (j + 1) (ub_min_index u) \<le> k \<and> k \<le> i - 1 \<longrightarrow> cnt + ?n + from_bucket u k (i - 1) < best" by auto
      have "cnt + from_bucket u k i < best" if "max (j + 1) (ub_min_index u) \<le> k" "k \<le> i" for k
      proof (cases "k = i")
        case True
        then show ?thesis using less split [of i] by (simp add: from_bucket_def)
      next
        case False
        with j(4) that split [of k] show ?thesis by (simp add: algebra_simps)
      qed
      moreover have "best \<le> cnt + from_bucket u j i" if "ub_min_index u \<le> j" using j(2,3) that split [of j] by (simp add: algebra_simps)
      ultimately show ?thesis using e j(1,2) by auto
    qed
  qed
qed

lemma update_buckets_ok:
  assumes r: "rounds (cbr_rnd g)" and u: "ub_ok u" and x: "0 \<le> x" "x \<le> 1 - 1 / 10 ^ 7"
  shows "\<exists>u'. utility_buckets_update g x u = Inr u' \<and> ub_ok u'"
proof -
  have x1: "\<not> x \<ge> 1" using x(2) by simp
  let ?i = "c_int (cbr_rnd g (x * 10000))"
  let ?u = "u\<lparr>ub_num := ub_num u + 1\<rparr>"
  have b: "bucket ?u ?i = Inr (ub_buckets u ! nat ?i)" using index_ok [OF r x] u by (simp add: bucket_def ub_ok_def)
  let ?v = "?u\<lparr>ub_buckets := (ub_buckets u)[nat ?i := ub_buckets u ! nat ?i + 1]\<rparr>"
  have v: "ub_ok ?v" using u by (simp add: ub_ok_def)
  from best_index_ok [OF v, of 9999 "c_int (cbr_rnd g (ub_num ?v * cbr_limit g))" 0] obtain j where
    j: "best_index ?v (c_int (cbr_rnd g (ub_num ?v * cbr_limit g))) 9999 0 = Inr j" by auto
  show ?thesis using x1 b v j by (simp add: utility_buckets_update_def Let_def ub_ok_def)
qed

lemma init_buckets_ok:
  assumes "cbr_ok g"
  shows "ub_ok (init_utility_buckets g)"
  using assms rounds_nonneg [of "cbr_rnd g" "cbr_minimal g * 10000"]
  by (auto simp: cbr_ok_def ub_ok_def init_utility_buckets_def c_int_def)

subsection \<open>The stream is forwarded\<close>

lemma rb_inv_order: "rb_inv b \<Longrightarrow> rb_inv (b\<lparr>rb_records := record_in_order i (rb_records b)\<rparr>)"
proof -
  assume b: "rb_inv b"
  let ?rs = "record_in_order i (rb_records b)"
  have ids: "map cr_cid ?rs = map cr_cid (rb_records b)" by (simp add: record_in_order_def)
  then have set: "cr_cid ` set ?rs = cr_cid ` set (rb_records b)" by (metis list.set_map)
  have each: "\<exists>r0\<in>set (rb_records b). cr_cid r = cr_cid r0 \<and> cr_size r = cr_size r0" if "r \<in> set ?rs" for r
    using that by (auto simp: record_in_order_def)
  have "rec_inv (rb_queue b) (rb_records b)" using b by (simp add: rb_inv_def)
  note r = rec_invD [OF this]
  have "rec_inv (rb_queue b) ?rs"
  proof (rule rec_invI)
    fix x assume "x \<in> set ?rs"
    from each [OF this] r(2) show "0 \<le> cr_cid x \<and> cr_cid x < 2 ^ 31 \<and> cr_size x = held_size (cr_cid x) (rb_queue b) \<and> 0 < cr_size x"
      by metis
  qed (use ids set r(1,3) in simp_all)
  with b ids show ?thesis by (simp add: rb_inv_def)
qed

lemma rb_inv_frag:
  assumes b: "rb_inv b" "rb_queue b = d # q" and d: "frag_only d d'"
  shows "rb_inv (b\<lparr>rb_queue := d' # q\<rparr>)"
proof -
  note same = frag_only_same [OF d] frag_only_fields [OF d]
  have "held_size i (d' # q) = held_size i (d # q)" for i by (simp add: held_size_Cons same)
  then have "rec_inv (d' # q) (rb_records b)" using b by (auto simp: rb_inv_def rec_inv_def same)
  with b show ?thesis by (simp add: rb_inv_def same)
qed

lemma pop_signals_ok:
  assumes "rb_inv b" "0 < rb_num b" "length (rb_queue b) < n"
  shows "\<exists>d q b' ms. pop_signals cfg inherited n b out = Inr (d, b', out @ ms) \<and> rb_inv b' \<and> rb_queue b = ms @ d # q \<and>
     rb_queue b' = d # q \<and> \<not> is_signal d \<and> rb_num b' = rb_num b"
  using assms
proof (induction n arbitrary: b out)
  case (Suc n)
  then obtain d q where q: "rb_queue b = d # q" by (cases "rb_queue b") (auto simp: rb_inv_def)
  show ?case
  proof (cases "is_signal d")
    case False
    with q Suc.prems show ?thesis by (auto simp: rewrite_buffer_top_def)
  next
    case True
    from pop_ok [OF Suc.prems(1) q, of cfg inherited] obtain d' b1 where
      p: "rewrite_buffer_pop cfg inherited b = Inr (Some d', b1)" "rb_inv b1" "rb_queue b1 = q" by blast
    have num: "rb_num b1 = rb_num b" using p(2,3) q True Suc.prems(1) by (simp add: rb_inv_def)
    from Suc.IH [OF p(2), of "out @ [d]"] Suc.prems(2,3) num q p(3) obtain d2 q2 b2 ms where
      r: "pop_signals cfg inherited n b1 (out @ [d]) = Inr (d2, b2, (out @ [d]) @ ms)" "rb_inv b2" "q = ms @ d2 # q2"
        "rb_queue b2 = d2 # q2" "\<not> is_signal d2" "rb_num b2 = rb_num b" by auto
    show ?thesis using True q p(1) r
      by (intro exI [of _ d2] exI [of _ q2] exI [of _ b2] exI [of _ "d # ms"]) (simp add: rewrite_buffer_top_def)
  qed
qed simp

lemma cbr_decide_ok:
  assumes r: "rounds (cbr_rnd g)" and b: "rb_inv b" "rb_queue b = d # q" and d: "\<not> is_signal d"
  shows "\<exists>d' x b'. cbr_decide g u d b = Inr (d', x, b') \<and> frag_only d d' \<and> 0 \<le> x \<and> x \<le> 1 - 1 / 10 ^ 7 \<and> rb_inv b' \<and>
     rb_queue b' = rb_queue b \<and> rb_num b' = rb_num b"
proof (cases "ck_id d = TEMPORARY_ID")
  case True
  then show ?thesis using b(1) by (simp add: cbr_decide_def)
next
  case False
  have ok: "msg_ok d" using b by (simp add: rb_inv_def)
  then have dup: "CHECK_CHUNK d CHUNK_DUPLICATE" "0 < ck_size d" and id: "0 \<le> ck_id d" "ck_id d < 2 ^ 31"
    using d False by (auto simp: msg_ok_def)
  have ri: "rec_inv (rb_queue b) (rb_records b)" using b(1) by (simp add: rb_inv_def)
  from rec_invD(3) [OF ri _ d False] b(2) obtain rc where rc: "rc \<in> set (rb_records b)" "cr_cid rc = ck_id d" by auto
  have f: "record_lookup (ck_id d) (rb_records b) = Some rc"
    by (simp add: lookup_record [OF ri id] find_record [OF rc rec_invD(1) [OF ri]])
  have "0 < cr_size rc" using rec_invD(2) [OF ri rc(1)] by simp
  from utility_ok [OF r f this dup(2)] obtain x where x: "get_rewrite_utility g d b = Inr x" "0 \<le> x" "x \<le> 1 - 1 / 10 ^ 7" by blast
  have "frag_only d (SET_CHUNK d CHUNK_OUT_OF_ORDER)" using d by (simp add: frag_only_set)
  then show ?thesis using False dup(1) f x b(1) rb_inv_order [OF b(1)] by (auto simp: cbr_decide_def c_assert_def)
qed

lemma cbr_step_ok:
  assumes g: "rounds (cbr_rnd g)" and u: "ub_ok u" and b: "rb_inv b" "rb_num b < rewrite_limit cfg" "0 < rewrite_limit cfg" "msg_ok c"
    and l: "list_all2 frag_only cs (out @ rb_queue b)"
  shows "\<exists>u' b' out'. cbr_step cfg g inherited c (u, b, out) = Inr (u', b', out') \<and> ub_ok u' \<and> rb_inv b' \<and> rb_num b' < rewrite_limit cfg \<and>
     list_all2 frag_only (cs @ [c]) (out' @ rb_queue b')"
proof -
  from push_ok [OF b(1,4,2)] obtain b1 where
    p: "rewrite_buffer_push cfg c b = Inr (\<not> is_signal c \<and> rb_num b1 = rewrite_limit cfg, b1)" "rb_inv b1" "rb_queue b1 = rb_queue b @ [c]"
    "rb_num b1 \<le> rewrite_limit cfg" "is_signal c \<longrightarrow> rb_num b1 < rewrite_limit cfg" by blast
  have l1: "list_all2 frag_only (cs @ [c]) (out @ rb_queue b1)"
    using l p(3) list_all2_appendI [OF l, of "[c]" "[c]"] by simp
  show ?thesis
  proof (cases "\<not> is_signal c \<and> rb_num b1 = rewrite_limit cfg")
    case False
    with p l1 u show ?thesis by (auto simp: cbr_step_def)
  next
    case True
    have "0 < rb_num b1" "length (rb_queue b1) < length (rb_queue b1) + 1" using True b(3) by simp_all
    from pop_signals_ok [OF p(2) this, of cfg inherited out] obtain d q b2 ms where
      s: "pop_signals cfg inherited (length (rb_queue b1) + 1) b1 out = Inr (d, b2, out @ ms)" "rb_inv b2" "rb_queue b1 = ms @ d # q"
      "rb_queue b2 = d # q" "\<not> is_signal d" "rb_num b2 = rb_num b1" by blast
    from cbr_decide_ok [OF g s(2,4,5), of u] obtain d' x b3 where
      c: "cbr_decide g u d b2 = Inr (d', x, b3)" "frag_only d d'" "0 \<le> x" "x \<le> 1 - 1 / 10 ^ 7" "rb_inv b3" "rb_queue b3 = rb_queue b2"
      "rb_num b3 = rb_num b2" by blast
    from update_buckets_ok [OF g u c(3,4)] obtain u' where u': "utility_buckets_update g x u = Inr u'" "ub_ok u'" by blast
    let ?b = "b3\<lparr>rb_queue := d' # q\<rparr>"
    have i: "rb_inv ?b" using rb_inv_frag [OF c(5) _ c(2)] c(6) s(4) by simp
    from pop_ok [OF i, of d' q cfg inherited] obtain d2 b4 where
      o: "rewrite_buffer_pop cfg inherited ?b = Inr (Some d2, b4)" "rb_inv b4" "rb_queue b4 = q" "frag_only d' d2" by auto
    have ns: "\<not> is_signal d'" using s(5) frag_only_same(1) [OF c(2)] by simp
    have "rb_num ?b = rewrite_limit cfg" using c(7) s(6) True by simp
    then have "rb_num b4 < rewrite_limit cfg" using i o(2,3) ns by (simp add: rb_inv_def)
    moreover have "list_all2 frag_only (out @ rb_queue b1) ((out @ ms @ [d2]) @ q)"
      unfolding s(3) using frag_only_trans [OF c(2) o(4)] by (simp add: list_all2_appendI list.rel_refl)
    from list_all2_trans [OF _ l1 this] have "list_all2 frag_only (cs @ [c]) ((out @ ms @ [d2]) @ q)" by (blast intro: frag_only_trans)
    ultimately show ?thesis using True p(1) s(1,4) c(1,6) u' o by (simp add: cbr_step_def)
  qed
qed

lemma cbr_steps_ok:
  assumes "rounds (cbr_rnd g)" "0 < rewrite_limit cfg"
  shows "ub_ok u \<Longrightarrow> rb_inv b \<Longrightarrow> rb_num b < rewrite_limit cfg \<Longrightarrow> \<forall>c\<in>set cs. msg_ok c \<Longrightarrow> list_all2 frag_only cs0 (out @ rb_queue b) \<Longrightarrow>
   \<exists>u' b' out'. rfold (cbr_step cfg g inherited) cs (u, b, out) = Inr (u', b', out') \<and> rb_inv b' \<and> list_all2 frag_only (cs0 @ cs) (out' @ rb_queue b')"
proof (induction cs arbitrary: u b out cs0)
  case (Cons c cs)
  from cbr_step_ok [OF assms(1) Cons.prems(1,2,3) assms(2) _ Cons.prems(5), of c inherited] Cons.prems(4) obtain u1 b1 out1 where
    s: "cbr_step cfg g inherited c (u, b, out) = Inr (u1, b1, out1)" "ub_ok u1" "rb_inv b1" "rb_num b1 < rewrite_limit cfg"
    "list_all2 frag_only (cs0 @ [c]) (out1 @ rb_queue b1)" by auto
  from Cons.IH [OF s(2,3,4) _ s(5)] Cons.prems(4) s(1) show ?case by auto
qed auto

lemma cbr_forwards:
  assumes "0 < rewrite_limit cfg" "cbr_ok g" "\<forall>c\<in>set cs. msg_ok c"
  shows "\<exists>ds. cbr_rewrite cfg g inherited cs = Inr ds \<and> list_all2 frag_only cs ds"
proof -
  have r: "rounds (cbr_rnd g)" using assms(2) by (simp add: cbr_ok_def)
  have i: "rb_num init_rewrite_buffer < rewrite_limit cfg" "list_all2 frag_only [] ([] @ rb_queue init_rewrite_buffer)"
    using assms(1) by (simp_all add: init_rewrite_buffer_def)
  from cbr_steps_ok [OF r assms(1) init_buckets_ok [OF assms(2)] init_rb_inv i(1) assms(3) i(2), of inherited] obtain u b out where
    f: "rfold (cbr_step cfg g inherited) cs (init_utility_buckets g, init_rewrite_buffer, []) = Inr (u, b, out)" "rb_inv b"
    "list_all2 frag_only cs (out @ rb_queue b)" by auto
  have "marks Inr" by (simp add: marks_def)
  from drain_ok [OF this f(2), of cfg inherited out] obtain b3 ds where
    d: "drain_buffer cfg inherited Inr (b, out) = Inr (b3, out @ ds)" "list_all2 frag_only (rb_queue b) ds" by blast
  have "list_all2 frag_only (out @ rb_queue b) (out @ ds)"
    using d(2) by (intro list_all2_appendI) (simp_all add: list.rel_refl)
  from list_all2_trans [OF _ f(3) this] have "list_all2 frag_only cs (out @ ds)" by (blast intro: frag_only_trans)
  with f d show ?thesis by (simp add: cbr_rewrite_def)
qed

end
