(* ===== verification/Rewrite_Phase.thy ===== *)
theory Rewrite_Phase
  imports Cbr_Rewrite
begin

text \<open>
  The rewriting phase: \<open>rewrite_phase.c\<close>, \<open>cap_rewrite.c\<close>, \<open>cfl_rewrite.c\<close>. Each thread is a function
  from the messages it pops from \<open>dedup_queue\<close> up to the
  end of the stream to the messages it pushes into \<open>rewrite_queue\<close>.
\<close>

subsection \<open>No rewriting\<close>

text \<open>The check runs after the chunk is pushed; here it is seen by the consumer.\<close>

definition no_rewrite :: "rw_cfg \<Rightarrow> containerid set \<Rightarrow> chunk list \<Rightarrow> chunk list res" where
  "no_rewrite cfg inherited cs =
     Inr (map (\<lambda>c. if rewrite_enable_har cfg \<and> CHECK_CHUNK c CHUNK_DUPLICATE then har_check inherited c else c) cs)"

subsection \<open>Capping\<close>

definition cap_segment_get_top :: "rw_cfg \<Rightarrow> rewrite_buffer \<Rightarrow> containerid list \<times> rewrite_buffer" where
  "cap_segment_get_top cfg b =
     (let seq = fold (insert_sorted g_record_descmp_by_length) (rb_records b) [];
          len = int (length seq);
          num = (if len > rewrite_capping_level cfg then rewrite_capping_level cfg else len)
      in (map cr_cid (take (nat num) seq), b\<lparr>rb_records := fold (insert_sorted g_record_cmp_by_id) seq []\<rparr>))"

definition cap_mark :: "containerid list \<Rightarrow> chunk \<Rightarrow> chunk res" where
  "cap_mark tops c =
     (if \<not> is_signal c \<and> CHECK_CHUNK c CHUNK_DUPLICATE \<and> ck_id c \<notin> set tops
      then Inr (SET_CHUNK c CHUNK_OUT_OF_ORDER) else Inr c)"

text \<open>The loop at the end of the stream does not test \<open>CHUNK_DUPLICATE\<close>.\<close>

definition cap_mark_rest :: "containerid list \<Rightarrow> chunk \<Rightarrow> chunk res" where
  "cap_mark_rest tops c =
     (if \<not> is_signal c \<and> ck_id c \<notin> set tops then Inr (SET_CHUNK c CHUNK_OUT_OF_ORDER) else Inr c)"

definition cap_step :: "rw_cfg \<Rightarrow> containerid set \<Rightarrow> chunk \<Rightarrow> rewrite_buffer \<times> chunk list \<Rightarrow> (rewrite_buffer \<times> chunk list) res" where
  "cap_step cfg inherited c = (\<lambda>(b, out).
     rbind (rewrite_buffer_push cfg c b) (\<lambda>(full, b).
       if \<not> full then Inr (b, out)
       else let (tops, b) = cap_segment_get_top cfg b in drain_buffer cfg inherited (cap_mark tops) (b, out)))"

definition cap_rewrite :: "rw_cfg \<Rightarrow> containerid set \<Rightarrow> chunk list \<Rightarrow> chunk list res" where
  "cap_rewrite cfg inherited cs =
     rbind (rfold (cap_step cfg inherited) cs (init_rewrite_buffer, [])) (\<lambda>(b, out).
     let (tops, b) = cap_segment_get_top cfg b in
     rbind (drain_buffer cfg inherited (cap_mark_rest tops) (b, out)) (\<lambda>(b, out). Inr out))"

subsection \<open>Selective deduplication by the chunk fragmentation level\<close>

definition cfl_mark :: "bool \<Rightarrow> chunk \<Rightarrow> chunk res" where
  "cfl_mark out_of_order c =
     (if is_signal c then Inr c
      else if out_of_order \<and> ck_id c \<noteq> TEMPORARY_ID then
        rbind (c_assert (CHECK_CHUNK c CHUNK_DUPLICATE)) (\<lambda>_. Inr (SET_CHUNK c CHUNK_OUT_OF_ORDER))
      else Inr c)"

definition cfl_flush :: "rw_cfg \<Rightarrow> containerid set \<Rightarrow> rewrite_buffer \<times> chunk list \<Rightarrow> (rewrite_buffer \<times> chunk list) res" where
  "cfl_flush cfg inherited = (\<lambda>(b, out).
     drain_buffer cfg inherited (cfl_mark (real_of_int (rb_size b) < cfl_need cfg)) (b, out))"

definition cfl_step :: "rw_cfg \<Rightarrow> containerid set \<Rightarrow> chunk \<Rightarrow> containerid \<times> bool \<times> rewrite_buffer \<times> chunk list \<Rightarrow>
    (containerid \<times> bool \<times> rewrite_buffer \<times> chunk list) res" where
  "cfl_step cfg inherited c = (\<lambda>(last_id, buffer_full, b, out).
     rbind (if (last_id \<noteq> TEMPORARY_ID \<and> last_id \<noteq> ck_id c) \<or> buffer_full
            then rbind (cfl_flush cfg inherited (b, out)) (\<lambda>p. Inr (False, p))
            else Inr (buffer_full, b, out)) (\<lambda>(buffer_full, b, out).
     rbind (rewrite_buffer_push cfg c b) (\<lambda>(full, b).
       Inr (ck_id c, buffer_full \<or> full, b, out))))"

definition cfl_rewrite :: "rw_cfg \<Rightarrow> containerid set \<Rightarrow> chunk list \<Rightarrow> chunk list res" where
  "cfl_rewrite cfg inherited cs =
     rbind (rfold (cfl_step cfg inherited) cs (TEMPORARY_ID, False, init_rewrite_buffer, [])) (\<lambda>(_, _, b, out).
     rbind (cfl_flush cfg inherited (b, out)) (\<lambda>(b, out). Inr out))"

datatype rewrite_algorithm = REWRITE_NO | REWRITE_CFL_SELECTIVE_DEDUPLICATION | REWRITE_CONTEXT_BASED | REWRITE_CAPPING

definition start_rewrite_phase :: "rewrite_algorithm \<Rightarrow> cbr_cfg \<Rightarrow> rw_cfg \<Rightarrow> containerid set \<Rightarrow> chunk list \<Rightarrow> chunk list res" where
  "start_rewrite_phase alg g =
     (case alg of REWRITE_NO \<Rightarrow> no_rewrite | REWRITE_CFL_SELECTIVE_DEDUPLICATION \<Rightarrow> cfl_rewrite
      | REWRITE_CONTEXT_BASED \<Rightarrow> (\<lambda>cfg. cbr_rewrite cfg g) | REWRITE_CAPPING \<Rightarrow> cap_rewrite)"

subsection \<open>The phase forwards the stream\<close>

text \<open>The contract the filter phase relies on.\<close>

locale rewriter =
  fixes rw :: "chunk list \<Rightarrow> chunk list res"
  assumes forwards: "\<forall>c\<in>set cs. msg_ok c \<Longrightarrow> \<exists>ds. rw cs = Inr ds \<and> list_all2 frag_only cs ds"
begin

lemma forwards_fields:
  assumes "\<forall>c\<in>set cs. msg_ok c"
  shows "\<exists>ds. rw cs = Inr ds \<and> map ck_fp ds = map ck_fp cs \<and> map ck_id ds = map ck_id cs \<and> map ck_data ds = map ck_data cs"
proof -
  from forwards [OF assms] obtain ds where ds: "rw cs = Inr ds" "list_all2 frag_only cs ds" by blast
  from ds(2) have "map ck_fp ds = map ck_fp cs \<and> map ck_id ds = map ck_id cs \<and> map ck_data ds = map ck_data cs"
    by (induction rule: list_all2_induct) (simp_all add: frag_only_fields)
  with ds(1) show ?thesis by blast
qed

end

lemma no_rewrite_forwards:
  assumes "\<forall>c\<in>set cs. msg_ok c"
  shows "\<exists>ds. no_rewrite cfg inherited cs = Inr ds \<and> list_all2 frag_only cs ds"
proof -
  have "list_all2 frag_only cs (map (\<lambda>c. if rewrite_enable_har cfg \<and> CHECK_CHUNK c CHUNK_DUPLICATE then har_check inherited c else c) cs)"
    using assms by (induction cs) (auto simp: msg_ok_def intro: har_check_frag)
  then show ?thesis by (simp add: no_rewrite_def)
qed

lemma marks_cap: "marks (cap_mark tops)" "marks (cap_mark_rest tops)" "marks (cfl_mark ooo)"
  by (auto simp: marks_def cap_mark_def cap_mark_rest_def cfl_mark_def msg_ok_def c_assert_def intro: frag_only_set)

lemma get_top_ok:
  assumes "rb_inv b"
  shows "\<exists>tops b'. cap_segment_get_top cfg b = (tops, b') \<and> rb_inv b' \<and> rb_queue b' = rb_queue b \<and> rb_num b' = rb_num b"
proof -
  let ?seq = "fold (insert_sorted g_record_descmp_by_length) (rb_records b) []"
  let ?rs = "fold (insert_sorted g_record_cmp_by_id) ?seq []"
  have m: "mset ?rs = mset (rb_records b)" "mset ?seq = mset (rb_records b)" by (simp_all add: mset_fold_insert_sorted)
  have r: "rec_inv (rb_queue b) (rb_records b)" using assms by (simp add: rb_inv_def)
  have "set ?seq = set (rb_records b)" using m(2) by (metis set_mset_mset)
  then have "sorted (map cr_cid ?rs)"
    using rec_invD(2) [OF r] by (intro sorted_fold_by_id) auto
  with assms rec_inv_mset [OF m(1), of "rb_queue b"] have "rb_inv (b\<lparr>rb_records := ?rs\<rparr>)" by (simp add: rb_inv_def)
  then show ?thesis by (simp add: cap_segment_get_top_def Let_def)
qed

lemma cap_step_ok:
  assumes "rb_inv b" "rb_num b < rewrite_limit cfg" "0 < rewrite_limit cfg" "msg_ok c" "list_all2 frag_only cs (out @ rb_queue b)"
  shows "\<exists>b' out'. cap_step cfg inherited c (b, out) = Inr (b', out') \<and> rb_inv b' \<and> rb_num b' < rewrite_limit cfg \<and>
     list_all2 frag_only (cs @ [c]) (out' @ rb_queue b')"
proof -
  from push_ok [OF assms(1,4,2)] obtain b1 where
    p: "rewrite_buffer_push cfg c b = Inr (\<not> is_signal c \<and> rb_num b1 = rewrite_limit cfg, b1)" "rb_inv b1" "rb_queue b1 = rb_queue b @ [c]"
    "rb_num b1 \<le> rewrite_limit cfg" "is_signal c \<longrightarrow> rb_num b1 < rewrite_limit cfg" by blast
  have l: "list_all2 frag_only (cs @ [c]) (out @ rb_queue b1)"
    using assms(5) p(3) list_all2_appendI [OF assms(5), of "[c]" "[c]"] by simp
  show ?thesis
  proof (cases "\<not> is_signal c \<and> rb_num b1 = rewrite_limit cfg")
    case False
    with p l show ?thesis by (auto simp: cap_step_def)
  next
    case True
    from get_top_ok [OF p(2)] obtain tops b2 where
      t: "cap_segment_get_top cfg b1 = (tops, b2)" "rb_inv b2" "rb_queue b2 = rb_queue b1" by blast
    from drain_ok [OF marks_cap(1) t(2), of cfg inherited tops out] obtain b3 ds where
      d: "drain_buffer cfg inherited (cap_mark tops) (b2, out) = Inr (b3, out @ ds)" "rb_inv b3" "rb_queue b3 = []" "rb_num b3 = 0"
      "list_all2 frag_only (rb_queue b2) ds" by blast
    have "list_all2 frag_only (out @ rb_queue b1) (out @ ds)"
      using d(5) t(3) by (intro list_all2_appendI) (simp_all add: list.rel_refl)
    from list_all2_trans [OF _ l this] have "list_all2 frag_only (cs @ [c]) (out @ ds)" by (blast intro: frag_only_trans)
    with True p t d assms(3) show ?thesis by (simp add: cap_step_def)
  qed
qed

lemma cap_steps_ok:
  "rb_inv b \<Longrightarrow> rb_num b < rewrite_limit cfg \<Longrightarrow> 0 < rewrite_limit cfg \<Longrightarrow> \<forall>c\<in>set cs. msg_ok c \<Longrightarrow>
   list_all2 frag_only cs0 (out @ rb_queue b) \<Longrightarrow>
   \<exists>b' out'. rfold (cap_step cfg inherited) cs (b, out) = Inr (b', out') \<and> rb_inv b' \<and> list_all2 frag_only (cs0 @ cs) (out' @ rb_queue b')"
proof (induction cs arbitrary: b out cs0)
  case (Cons c cs)
  from cap_step_ok [OF Cons.prems(1,2,3) _ Cons.prems(5), of c inherited] Cons.prems(4) obtain b1 out1 where
    s: "cap_step cfg inherited c (b, out) = Inr (b1, out1)" "rb_inv b1" "rb_num b1 < rewrite_limit cfg"
    "list_all2 frag_only (cs0 @ [c]) (out1 @ rb_queue b1)" by auto
  from Cons.IH [OF s(2,3) Cons.prems(3) _ s(4)] Cons.prems(4) s(1) show ?case by auto
qed auto

lemma cap_forwards:
  assumes "0 < rewrite_limit cfg" "\<forall>c\<in>set cs. msg_ok c"
  shows "\<exists>ds. cap_rewrite cfg inherited cs = Inr ds \<and> list_all2 frag_only cs ds"
proof -
  have i: "rb_num init_rewrite_buffer < rewrite_limit cfg" "list_all2 frag_only [] ([] @ rb_queue init_rewrite_buffer)"
    using assms(1) by (simp_all add: init_rewrite_buffer_def)
  from cap_steps_ok [OF init_rb_inv i(1) assms i(2), of inherited] obtain b out where
    f: "rfold (cap_step cfg inherited) cs (init_rewrite_buffer, []) = Inr (b, out)" "rb_inv b" "list_all2 frag_only cs (out @ rb_queue b)"
    by auto
  from get_top_ok [OF f(2)] obtain tops b2 where
    t: "cap_segment_get_top cfg b = (tops, b2)" "rb_inv b2" "rb_queue b2 = rb_queue b" by blast
  from drain_ok [OF marks_cap(2) t(2), of cfg inherited tops out] obtain b3 ds where
    d: "drain_buffer cfg inherited (cap_mark_rest tops) (b2, out) = Inr (b3, out @ ds)" "list_all2 frag_only (rb_queue b2) ds" by blast
  have "list_all2 frag_only (out @ rb_queue b) (out @ ds)"
    using d(2) t(3) by (intro list_all2_appendI) (simp_all add: list.rel_refl)
  from list_all2_trans [OF _ f(3) this] have "list_all2 frag_only cs (out @ ds)" by (blast intro: frag_only_trans)
  with f t d show ?thesis by (simp add: cap_rewrite_def)
qed

lemma cfl_flush_ok:
  assumes "rb_inv b" "list_all2 frag_only cs (out @ rb_queue b)"
  shows "\<exists>b' out'. cfl_flush cfg inherited (b, out) = Inr (b', out') \<and> rb_inv b' \<and> rb_queue b' = [] \<and> rb_num b' = 0 \<and>
     list_all2 frag_only cs out'"
proof -
  from drain_ok [OF marks_cap(3) assms(1), of cfg inherited "real_of_int (rb_size b) < cfl_need cfg" out] obtain b' ds where
    d: "drain_buffer cfg inherited (cfl_mark (real_of_int (rb_size b) < cfl_need cfg)) (b, out) = Inr (b', out @ ds)"
    "rb_inv b'" "rb_queue b' = []" "rb_num b' = 0" "list_all2 frag_only (rb_queue b) ds" by blast
  have "list_all2 frag_only (out @ rb_queue b) (out @ ds)"
    using d(5) by (intro list_all2_appendI) (simp_all add: list.rel_refl)
  from list_all2_trans [OF _ assms(2) this] have "list_all2 frag_only cs (out @ ds)" by (blast intro: frag_only_trans)
  with d show ?thesis by (auto simp: cfl_flush_def)
qed

lemma cfl_step_ok:
  assumes "rb_inv b" "rb_num b \<le> rewrite_limit cfg" "rb_num b = rewrite_limit cfg \<longrightarrow> full" "0 < rewrite_limit cfg" "msg_ok c"
    and "list_all2 frag_only cs (out @ rb_queue b)"
  shows "\<exists>full' b' out'. cfl_step cfg inherited c (l, full, b, out) = Inr (ck_id c, full', b', out') \<and> rb_inv b' \<and>
     rb_num b' \<le> rewrite_limit cfg \<and> (rb_num b' = rewrite_limit cfg \<longrightarrow> full') \<and> list_all2 frag_only (cs @ [c]) (out' @ rb_queue b')"
proof -
  have "\<exists>full1 b1 out1. (if (l \<noteq> TEMPORARY_ID \<and> l \<noteq> ck_id c) \<or> full
            then rbind (cfl_flush cfg inherited (b, out)) (\<lambda>p. Inr (False, p))
            else Inr (full, b, out)) = Inr (full1, b1, out1) \<and> rb_inv b1 \<and> rb_num b1 < rewrite_limit cfg \<and>
      list_all2 frag_only cs (out1 @ rb_queue b1)"
    using cfl_flush_ok [OF assms(1,6), of cfg inherited] assms by force
  then obtain full1 b1 out1 where s: "(if (l \<noteq> TEMPORARY_ID \<and> l \<noteq> ck_id c) \<or> full
            then rbind (cfl_flush cfg inherited (b, out)) (\<lambda>p. Inr (False, p))
            else Inr (full, b, out)) = Inr (full1, b1, out1)" "rb_inv b1" "rb_num b1 < rewrite_limit cfg"
      "list_all2 frag_only cs (out1 @ rb_queue b1)" by blast
  from push_ok [OF s(2) assms(5) s(3)] obtain b2 where
    p: "rewrite_buffer_push cfg c b1 = Inr (\<not> is_signal c \<and> rb_num b2 = rewrite_limit cfg, b2)" "rb_inv b2" "rb_queue b2 = rb_queue b1 @ [c]"
    "rb_num b2 \<le> rewrite_limit cfg" "is_signal c \<longrightarrow> rb_num b2 < rewrite_limit cfg" by blast
  have "list_all2 frag_only (cs @ [c]) (out1 @ rb_queue b2)"
    using s(4) p(3) list_all2_appendI [OF s(4), of "[c]" "[c]"] by simp
  with s(1) p show ?thesis by (auto simp: cfl_step_def)
qed

lemma cfl_steps_ok:
  "rb_inv b \<Longrightarrow> rb_num b \<le> rewrite_limit cfg \<Longrightarrow> (rb_num b = rewrite_limit cfg \<longrightarrow> full) \<Longrightarrow> 0 < rewrite_limit cfg \<Longrightarrow> \<forall>c\<in>set cs. msg_ok c \<Longrightarrow>
   list_all2 frag_only cs0 (out @ rb_queue b) \<Longrightarrow>
   \<exists>l' full' b' out'. rfold (cfl_step cfg inherited) cs (l, full, b, out) = Inr (l', full', b', out') \<and> rb_inv b' \<and>
     list_all2 frag_only (cs0 @ cs) (out' @ rb_queue b')"
proof (induction cs arbitrary: l full b out cs0)
  case (Cons c cs)
  from cfl_step_ok [OF Cons.prems(1,2,3,4) _ Cons.prems(6), of c inherited l] Cons.prems(5) obtain full1 b1 out1 where
    s: "cfl_step cfg inherited c (l, full, b, out) = Inr (ck_id c, full1, b1, out1)" "rb_inv b1" "rb_num b1 \<le> rewrite_limit cfg"
    "rb_num b1 = rewrite_limit cfg \<longrightarrow> full1" "list_all2 frag_only (cs0 @ [c]) (out1 @ rb_queue b1)" by auto
  from Cons.IH [OF s(2,3,4) Cons.prems(4) _ s(5), of "ck_id c"] Cons.prems(5) s(1) show ?case by auto
qed auto

lemma cfl_forwards:
  assumes "0 < rewrite_limit cfg" "\<forall>c\<in>set cs. msg_ok c"
  shows "\<exists>ds. cfl_rewrite cfg inherited cs = Inr ds \<and> list_all2 frag_only cs ds"
proof -
  have i: "rb_num init_rewrite_buffer \<le> rewrite_limit cfg" "rb_num init_rewrite_buffer = rewrite_limit cfg \<longrightarrow> False"
    "list_all2 frag_only [] ([] @ rb_queue init_rewrite_buffer)"
    using assms(1) by (simp_all add: init_rewrite_buffer_def)
  from cfl_steps_ok [OF init_rb_inv i(1,2) assms i(3), of inherited TEMPORARY_ID] obtain l full b out where
    f: "rfold (cfl_step cfg inherited) cs (TEMPORARY_ID, False, init_rewrite_buffer, []) = Inr (l, full, b, out)" "rb_inv b"
    "list_all2 frag_only cs (out @ rb_queue b)" by auto
  from cfl_flush_ok [OF f(2,3), of cfg inherited] f(1) show ?thesis by (auto simp: cfl_rewrite_def)
qed

lemma rewrite_forwards:
  assumes "0 < rewrite_limit cfg" "cbr_ok g" "\<forall>c\<in>set cs. msg_ok c"
  shows "\<exists>ds. start_rewrite_phase alg g cfg inherited cs = Inr ds \<and> list_all2 frag_only cs ds"
  using cap_forwards [OF assms(1,3)] cfl_forwards [OF assms(1,3)] cbr_forwards [OF assms] no_rewrite_forwards [OF assms(3)]
  by (cases alg) (simp_all add: start_rewrite_phase_def)

text \<open>The defaults of \<open>destor_start\<close>.\<close>

definition default_rw_cfg :: rw_cfg where
  "default_rw_cfg = \<lparr>rewrite_limit = 1024, rewrite_enable_har = False, rewrite_capping_level = 0, cfl_need = 0\<rparr>"

definition default_cbr_cfg :: "(real \<Rightarrow> real) \<Rightarrow> cbr_cfg" where
  "default_cbr_cfg rnd = \<lparr>cbr_limit = 0, cbr_minimal = 0, cbr_rnd = rnd\<rparr>"

interpretation exact_rewrite: rewriter "start_rewrite_phase alg (default_cbr_cfg (\<lambda>x. x)) default_rw_cfg inherited"
  by unfold_locales (rule rewrite_forwards, simp_all add: default_rw_cfg_def default_cbr_cfg_def cbr_ok_def rounds_def)

subsection \<open>Properties\<close>

text \<open>C22: whichever rewriting algorithm is chosen, the rewrite phase forwards every message of a
  well-formed stream, in order, and changes nothing in it but the flags that mark a data chunk as fragmented: no chunk is
  lost, duplicated or relabelled, and no assertion fails.\<close>

theorem rewrite_phase_forwards:
  assumes "0 < rewrite_limit cfg" and "cbr_ok g" and "\<forall>c\<in>set cs. msg_ok c"
  shows "\<exists>ds. start_rewrite_phase alg g cfg inherited cs = Inr ds \<and> list_all2 frag_only cs ds"
  by (rule rewrite_forwards [OF assms])

theorem rewrite_phase_forwards_witness:
  "\<exists>ds. start_rewrite_phase REWRITE_CONTEXT_BASED (default_cbr_cfg (\<lambda>x. x)) default_rw_cfg {} [new_chunk 5, new_chunk 6] = Inr ds \<and>
     list_all2 frag_only [new_chunk 5, new_chunk 6] ds"
  by (rule rewrite_phase_forwards)
    (simp_all add: default_rw_cfg_def default_cbr_cfg_def cbr_ok_def rounds_def msg_ok_def new_chunk_def is_signal_def CHECK_CHUNK_def cfg_simps)

end
