(* ===== verification/Filter_Phase.thy ===== *)
theory Filter_Phase
  imports Index_Laws Rewrite_Phase
begin

text \<open>
  The filter phase, \<open>filter_phase.c\<close>, with the two monitors it feeds: \<open>har_monitor_update\<close> of
  \<open>har_rewrite.c\<close> and the simulated restore cache of \<open>restore_aware.c\<close>. \<open>filter_state\<close> holds the
  statics of the thread and of the modules it calls.

  \<^item> \<open>fs_unique\<close>, \<open>fs_rewritten\<close>: the tables \<open>recently_unique_chunks\<close> and
    \<open>recently_rewritten_chunks\<close>, from the fingerprint to the \<open>id\<close> of the copied chunk.
  \<^item> \<open>sampling\<close> is the function pointer of the index, \<open>iter\<close> the order in which GLib visits a
    feature table.
  \<^item> \<open>dquot\<close> is the quotient of two integers in double precision; the cfl values are \<open>real\<close>.
  \<^item> The VERBOSE messages and the timers are not modelled, the counters of \<open>jcr\<close> are.
\<close>

definition CONTAINER_META_ENTRY :: int where [cfg_simps]: "CONTAINER_META_ENTRY = 28"

record ra_monitor =
  ra_total_size :: int
  ra_ocf :: int
  ra_ccf :: int
  ra_cfl :: real
  ra_cache :: "containerid lruCache"

record jcr_counters =
  unique_chunk_num :: int
  unique_data_size :: int
  rewritten_chunk_num :: int
  rewritten_chunk_size :: int
  jcr_chunk_num :: int
  jcr_data_size :: int
  jcr_file_num :: int

record filter_cfg =
  fc_ix :: ix_cfg
  fc_sim :: int
  fc_be :: bool
  cache_aware :: bool
  cfl_switch :: bool
  cfl_require :: real
  fc_no_rewrite :: bool          \<comment> \<open>\<open>rewrite_algorithm[0] == REWRITE_NO\<close>\<close>
  fc_sampling :: "chunk list \<Rightarrow> int \<Rightarrow> byte list list res"
  fc_iter :: "byte list list \<Rightarrow> byte list list"
  dquot :: "int \<Rightarrow> int \<Rightarrow> real"

record filter_state =
  fs_ix :: index_state
  fs_cb :: "container option"
  fs_chunks :: "chunk list"
  fs_pool :: pool_sys
  fs_har :: "(containerid, int) htable"
  fs_ra :: ra_monitor
  fs_enable_rewrite :: bool
  fs_unique :: "(fingerprint, containerid) htable"
  fs_rewritten :: "(fingerprint, containerid) htable"
  fs_bv :: backupVersion
  fs_access :: int
  fs_file :: "fileRecipeMeta option"
  fs_jcr :: jcr_counters

subsection \<open>The monitors\<close>

definition init_restore_aware :: "int \<Rightarrow> ra_monitor" where
  "init_restore_aware cache_size =
     \<lparr>ra_total_size = 0, ra_ocf = 0, ra_ccf = 0, ra_cfl = 0, ra_cache = new_lru_cache cache_size\<rparr>"

definition restore_aware_update :: "(int \<Rightarrow> int \<Rightarrow> real) \<Rightarrow> containerid \<Rightarrow> int \<Rightarrow> ra_monitor \<Rightarrow> ra_monitor res" where
  "restore_aware_update quot i chunklen m =
     (let m = m\<lparr>ra_total_size := ra_total_size m + (chunklen + CONTAINER_META_ENTRY)\<rparr>;
          (rec, l) = lru_cache_lookup (\<lambda>e. e = i) (ra_cache m);
          m = m\<lparr>ra_cache := l\<rparr>
      in rbind (case rec of
           Some _ \<Rightarrow> Inr m
         | None \<Rightarrow> rbind (lru_cache_insert (ra_cache m) i) (\<lambda>(_, l). Inr (m\<lparr>ra_cache := l, ra_ccf := ra_ccf m + 1\<rparr>))) (\<lambda>m.
         let m = m\<lparr>ra_ocf := (ra_total_size m + int CONTAINER_SIZE - 1) div int CONTAINER_SIZE\<rparr>
         in Inr (m\<lparr>ra_cfl := quot (ra_ocf m) (ra_ccf m)\<rparr>)))"

definition restore_aware_contains :: "containerid \<Rightarrow> ra_monitor \<Rightarrow> bool" where
  "restore_aware_contains i m \<longleftrightarrow> lru_cache_lookup_without_update (\<lambda>e. e = i) (ra_cache m) \<noteq> None"

definition restore_aware_get_cfl :: "ra_monitor \<Rightarrow> real" where
  "restore_aware_get_cfl m = (if ra_cfl m > 1 then 1 else ra_cfl m)"

definition har_monitor_update :: "containerid \<Rightarrow> int \<Rightarrow> (containerid, int) htable \<Rightarrow> (containerid, int) htable" where
  "har_monitor_update i sz t =
     (case map_of t i of Some n \<Rightarrow> AList.update i (n + sz) t | None \<Rightarrow> AList.update i (0 + sz) t)"

subsection \<open>One chunk\<close>

definition mark_cached :: "filter_cfg \<Rightarrow> filter_state \<Rightarrow> chunk \<Rightarrow> chunk res" where
  "mark_cached cfg st c =
     (if cache_aware cfg \<and> restore_aware_contains (ck_id c) (fs_ra st)
      then rbind (c_assert (ck_id c \<noteq> TEMPORARY_ID)) (\<lambda>_. Inr (SET_CHUNK c CHUNK_IN_CACHE))
      else Inr c)"

definition switch_rewrite :: "filter_cfg \<Rightarrow> filter_state \<Rightarrow> filter_state" where
  "switch_rewrite cfg st =
     (if cfl_switch cfg then
        (let cfl = restore_aware_get_cfl (fs_ra st) in
         if fs_enable_rewrite st \<and> cfl > cfl_require cfg then st\<lparr>fs_enable_rewrite := False\<rparr>
         else if \<not> fs_enable_rewrite st \<and> cfl < cfl_require cfg then st\<lparr>fs_enable_rewrite := True\<rparr>
         else st)
      else st)"

definition resolve_unique :: "filter_state \<Rightarrow> chunk \<Rightarrow> chunk res" where
  "resolve_unique st c =
     (if CHECK_CHUNK c CHUNK_DUPLICATE \<and> ck_id c = TEMPORARY_ID then
        (case map_of (fs_unique st) (ck_fp c) of
           None \<Rightarrow> Inl AssertFailed
         | Some i \<Rightarrow> Inr (c\<lparr>ck_id := i\<rparr>))
      else Inr c)"

definition resolve_rewritten :: "filter_state \<Rightarrow> chunk \<Rightarrow> chunk" where
  "resolve_rewritten st c =
     (case map_of (fs_rewritten st) (ck_fp c) of
        None \<Rightarrow> c
      | Some i \<Rightarrow> SET_CHUNK (c\<lparr>ck_id := i\<rparr>) CHUNK_REWRITE_DENIED)"

definition to_write :: "bool \<Rightarrow> chunk \<Rightarrow> bool" where
  "to_write enable_rewrite c \<longleftrightarrow>
     \<not> CHECK_CHUNK c CHUNK_DUPLICATE \<or>
     (\<not> CHECK_CHUNK c CHUNK_REWRITE_DENIED \<and>
       (CHECK_CHUNK c CHUNK_SPARSE \<or>
        (enable_rewrite \<and> CHECK_CHUNK c CHUNK_OUT_OF_ORDER \<and> \<not> CHECK_CHUNK c CHUNK_IN_CACHE)))"

definition physical :: "filter_cfg \<Rightarrow> bool" where
  "physical cfg \<longleftrightarrow> index_category1 (fc_ix cfg) = INDEX_CATEGORY_PHYSICAL_LOCALITY"

definition new_container :: "filter_cfg \<Rightarrow> filter_state \<Rightarrow> filter_state" where
  "new_container cfg st =
     (let (b, n) = create_container (fc_sim cfg) (ps_count (fs_pool st))
      in st\<lparr>fs_cb := Some b, fs_pool := (fs_pool st)\<lparr>ps_count := n\<rparr>\<rparr>)"

text \<open>For physical locality the sampled fingerprints of a full container enter the index.\<close>

definition index_container :: "filter_cfg \<Rightarrow> container \<Rightarrow> filter_state \<Rightarrow> filter_state res" where
  "index_container cfg b st =
     (if physical cfg then
        rbind (fc_sampling cfg (fs_chunks st) (int (length (fs_chunks st)))) (\<lambda>features.
        rbind (index_update (fc_ix cfg) (fc_iter cfg) features (get_container_id b) (fs_ix st)) (\<lambda>ix.
          Inr (st\<lparr>fs_ix := ix, fs_chunks := []\<rparr>)))
      else Inr st)"

definition make_room :: "filter_cfg \<Rightarrow> int \<Rightarrow> filter_state \<Rightarrow> filter_state res" where
  "make_room cfg sz st =
     (let st = (if fs_cb st = None then
                  (let st = new_container cfg st in if physical cfg then st\<lparr>fs_chunks := []\<rparr> else st)
                else st)
      in case fs_cb st of
           None \<Rightarrow> Inl NullDeref
         | Some b \<Rightarrow>
             if container_overflow b sz then
               rbind (index_container cfg b st) (\<lambda>st.
               rbind (write_container_async b (fs_pool st)) (\<lambda>p.
                 Inr (new_container cfg (st\<lparr>fs_pool := p\<rparr>))))
             else Inr st)"

definition record_written :: "filter_cfg \<Rightarrow> chunk \<Rightarrow> filter_state \<Rightarrow> filter_state" where
  "record_written cfg c st =
     (let j = fs_jcr st;
          st = (if \<not> CHECK_CHUNK c CHUNK_DUPLICATE
                then st\<lparr>fs_jcr := j\<lparr>unique_chunk_num := unique_chunk_num j + 1, unique_data_size := unique_data_size j + ck_size c\<rparr>,
                        fs_unique := AList.update (ck_fp c) (ck_id c) (fs_unique st)\<rparr>
                else st\<lparr>fs_jcr := j\<lparr>rewritten_chunk_num := rewritten_chunk_num j + 1, rewritten_chunk_size := rewritten_chunk_size j + ck_size c\<rparr>,
                        fs_rewritten := AList.update (ck_fp c) (ck_id c) (fs_rewritten st)\<rparr>)
      in if physical cfg then st\<lparr>fs_chunks := fs_chunks st @ [(new_chunk 0)\<lparr>ck_fp := ck_fp c\<rparr>]\<rparr> else st)"

definition write_chunk :: "filter_cfg \<Rightarrow> chunk \<Rightarrow> filter_state \<Rightarrow> (chunk \<times> filter_state) res" where
  "write_chunk cfg c st =
     rbind (make_room cfg (ck_size c) st) (\<lambda>st.
     case fs_cb st of
       None \<Rightarrow> Inl NullDeref
     | Some b \<Rightarrow>
         rbind (add_chunk_to_container (fc_sim cfg) b c) (\<lambda>(added, b, c).
         let st = st\<lparr>fs_cb := Some b\<rparr> in
         if added then Inr (c, record_written cfg c st)
         else rbind (c_assert (index_category0 (fc_ix cfg) \<noteq> INDEX_CATEGORY_EXACT \<or> \<not> fc_no_rewrite cfg)) (\<lambda>_. Inr (c, st))))"

definition filter_chunk :: "filter_cfg \<Rightarrow> chunk \<Rightarrow> filter_state \<Rightarrow> (chunk \<times> filter_state) res" where
  "filter_chunk cfg c st =
     (if CHECK_CHUNK c CHUNK_FILE_START \<or> CHECK_CHUNK c CHUNK_FILE_END then Inr (c, st)
      else
        rbind (mark_cached cfg st c) (\<lambda>c.
        let st = switch_rewrite cfg st in
        rbind (resolve_unique st c) (\<lambda>c.
        let c = resolve_rewritten st c in
        rbind (if to_write (fs_enable_rewrite st) c then write_chunk cfg c st else Inr (c, st)) (\<lambda>(c, st).
        rbind (c_assert (ck_id c \<noteq> TEMPORARY_ID)) (\<lambda>_.
        rbind (restore_aware_update (dquot cfg) (ck_id c) (ck_size c) (fs_ra st)) (\<lambda>ra.
          Inr (c, st\<lparr>fs_har := har_monitor_update (ck_id c) (ck_size c) (fs_har st), fs_ra := ra\<rparr>)))))))"

fun filter_chunks :: "filter_cfg \<Rightarrow> chunk list \<Rightarrow> filter_state \<Rightarrow> (chunk list \<times> filter_state) res" where
  "filter_chunks cfg [] st = Inr ([], st)"
| "filter_chunks cfg (c # cs) st =
     rbind (filter_chunk cfg c st) (\<lambda>(c, st). rbind (filter_chunks cfg cs st) (\<lambda>(cs, st). Inr (c # cs, st)))"

subsection \<open>One segment\<close>

definition recipe_chunk :: "filter_cfg \<Rightarrow> chunk \<Rightarrow> filter_state \<Rightarrow> filter_state res" where
  "recipe_chunk cfg c st =
     (case fs_file st of
        None \<Rightarrow> rbind (c_assert (CHECK_CHUNK c CHUNK_FILE_START)) (\<lambda>_.
          Inr (st\<lparr>fs_file := Some (new_file_recipe_meta (ck_data c))\<rparr>))
      | Some r \<Rightarrow>
          if \<not> CHECK_CHUNK c CHUNK_FILE_END then
            rbind (c_assert (ck_id c \<ge> 0)) (\<lambda>_.
            rbind (append_n_chunk_pointers (fc_be cfg) [\<lparr>cp_fp = ck_fp c, cp_id = ck_id c, cp_size = ck_size c\<rparr>] 1
                (fs_bv st, fs_access st)) (\<lambda>(bv, acc).
              Inr (st\<lparr>fs_bv := bv, fs_access := acc,
                     fs_file := Some (r\<lparr>fr_chunknum := fr_chunknum r + 1, fr_filesize := fr_filesize r + ck_size c\<rparr>),
                     fs_jcr := (fs_jcr st)\<lparr>jcr_chunk_num := jcr_chunk_num (fs_jcr st) + 1,
                                         jcr_data_size := jcr_data_size (fs_jcr st) + ck_size c\<rparr>\<rparr>)))
          else
            rbind (append_file_recipe_meta (fc_be cfg) (fs_bv st) r) (\<lambda>bv.
              Inr (st\<lparr>fs_bv := bv, fs_file := None,
                     fs_jcr := (fs_jcr st)\<lparr>jcr_file_num := jcr_file_num (fs_jcr st) + 1\<rparr>\<rparr>)))"

definition segment_recipe :: "filter_cfg \<Rightarrow> segment \<Rightarrow> filter_state \<Rightarrow> (segmentid \<times> filter_state) res" where
  "segment_recipe cfg s st =
     rbind (append_segment_flag (fc_be cfg) (fs_bv st) SEG_START (seg_chunk_num s)) (\<lambda>(sid, bv).
     rbind (rfold (recipe_chunk cfg) (seg_chunks s) (st\<lparr>fs_bv := bv\<rparr>)) (\<lambda>st.
     rbind (append_segment_flag (fc_be cfg) (fs_bv st) SEG_END 0) (\<lambda>(_, bv). Inr (sid, st\<lparr>fs_bv := bv\<rparr>))))"

text \<open>For logical locality the segment's own features, in the exact case with the fingerprints
  written in this segment. The tables are iterated in an order \<open>fc_iter\<close> chooses later.\<close>

definition index_segment :: "filter_cfg \<Rightarrow> segment \<Rightarrow> segmentid \<Rightarrow> filter_state \<Rightarrow> filter_state res" where
  "index_segment cfg s sid st =
     (if \<not> physical cfg then
        rbind (fc_sampling cfg (seg_chunks s) (seg_chunk_num s)) (\<lambda>features.
        let features = (if index_category0 (fc_ix cfg) = INDEX_CATEGORY_EXACT
               then fold feature_set_add (map fst (fs_unique st) @ map fst (fs_rewritten st)) features else features)
        in rbind (index_update (fc_ix cfg) (fc_iter cfg) features sid (fs_ix st)) (\<lambda>ix. Inr (st\<lparr>fs_ix := ix\<rparr>)))
      else Inr st)"

text \<open>The body of the thread's loop on a reconstructed segment. The flag: the lookups that wait
  for room in the index buffer are woken.\<close>

definition filter_segment :: "filter_cfg \<Rightarrow> segment \<Rightarrow> filter_state \<Rightarrow> (bool \<times> segment \<times> filter_state) res" where
  "filter_segment cfg s st =
     (let st = st\<lparr>fs_unique := [], fs_rewritten := []\<rparr> in
      rbind (index_check_buffer s (fs_ix st)) (\<lambda>s.
      rbind (filter_chunks cfg (seg_chunks s) st) (\<lambda>(cs, st).
      let s = s\<lparr>seg_chunks := cs\<rparr> in
      rbind (index_update_buffer (fc_ix cfg) s (fs_ix st)) (\<lambda>(full, ix).
      rbind (segment_recipe cfg s (st\<lparr>fs_ix := ix\<rparr>)) (\<lambda>(sid, st).
      rbind (index_segment cfg s sid st) (\<lambda>st.
        Inr (wait_threshold (fc_ix cfg) > 0 \<and> \<not> full, s, st)))))))"

text \<open>Rebuilding the segments from the message stream: \<open>None\<close> is the end of the queue inside a
  segment, which the code does not expect.\<close>

fun take_segment :: "chunk list \<Rightarrow> segment \<Rightarrow> (segment \<times> chunk list) option" where
  "take_segment [] s = None"
| "take_segment (c # cs) s =
     (if CHECK_CHUNK c CHUNK_SEGMENT_END then Some (s, cs)
      else take_segment cs (if CHECK_CHUNK c CHUNK_FILE_START \<or> CHECK_CHUNK c CHUNK_FILE_END
             then s\<lparr>seg_chunks := seg_chunks s @ [c]\<rparr>
             else s\<lparr>seg_chunks := seg_chunks s @ [c], seg_chunk_num := seg_chunk_num s + 1\<rparr>))"

lemma take_segment_shorter: "take_segment cs s = Some (s', cs') \<Longrightarrow> length cs' < length cs"
  by (induction cs arbitrary: s) (auto split: if_splits simp: less_SucI)

function segments_of :: "chunk list \<Rightarrow> segment list res" where
  "segments_of [] = Inr []"
| "segments_of (c # cs) =
     rbind (c_assert (CHECK_CHUNK c CHUNK_SEGMENT_START)) (\<lambda>_.
     case take_segment cs new_segment of
       None \<Rightarrow> Inl NullDeref
     | Some (s, cs') \<Rightarrow> rbind (segments_of cs') (\<lambda>ss. Inr (s # ss)))"
  by pat_completeness auto
termination by (relation "measure length") (auto dest!: take_segment_shorter)

definition filter_finish :: "filter_cfg \<Rightarrow> filter_state \<Rightarrow> filter_state res" where
  "filter_finish cfg st =
     (case fs_cb st of
        None \<Rightarrow> Inr st
      | Some b \<Rightarrow>
          if \<not> container_empty b then
            rbind (index_container cfg b st) (\<lambda>st.
            rbind (write_container_async b (fs_pool st)) (\<lambda>p. Inr (st\<lparr>fs_pool := p\<rparr>)))
          else Inr st)"

definition filter_thread :: "filter_cfg \<Rightarrow> chunk list \<Rightarrow> filter_state \<Rightarrow> filter_state res" where
  "filter_thread cfg cs st =
     rbind (segments_of cs) (\<lambda>ss.
     rbind (rfold (\<lambda>s st. rbind (filter_segment cfg s st) (\<lambda>(_, _, st). Inr st)) ss st) (filter_finish cfg))"

end
