(* ===== verification/Filter_Laws.thy ===== *)
theory Filter_Laws
  imports Filter_Phase
begin

text \<open>
  The filter phase stores every chunk it forwards. \<open>D\<close> gives the data of a fingerprint (the hash
  has no collisions on the backed-up data). \<open>store_inv\<close>: the containers, accepted by the store or
  still in \<open>storage_buffer\<close>, are well formed, have distinct ids below \<open>container_count\<close> and hold
  only genuine data. \<open>filter_chunk_ok\<close> is the step: it cannot fail, it keeps the invariant, and
  the chunk leaves with the id of a container that holds it.
\<close>

definition keys_of :: "container \<Rightarrow> fingerprint set" where
  "keys_of b = fst ` set (cm_map (ct_meta b))"

definition all_containers :: "filter_state \<Rightarrow> container list" where
  "all_containers st = ps_accepted (fs_pool st) @ (case fs_cb st of None \<Rightarrow> [] | Some b \<Rightarrow> [b])"

definition holds :: "filter_state \<Rightarrow> containerid \<Rightarrow> fingerprint \<Rightarrow> bool" where
  "holds st i fp \<longleftrightarrow> (\<exists>b\<in>set (all_containers st). idof b = i \<and> fp \<in> keys_of b)"

definition cb_keys :: "filter_state \<Rightarrow> fingerprint set" where
  "cb_keys st = (case fs_cb st of None \<Rightarrow> {} | Some b \<Rightarrow> keys_of b)"

definition store_inv :: "int \<Rightarrow> (fingerprint \<Rightarrow> byte list) \<Rightarrow> filter_state \<Rightarrow> bool" where
  "store_inv sim D st \<longleftrightarrow> distinct (map idof (all_containers st)) \<and> 0 \<le> ps_count (fs_pool st)
     \<and> (\<forall>b\<in>set (all_containers st). container_ok sim b \<and> idof b < ps_count (fs_pool st)
          \<and> (container_empty b \<longrightarrow> cm_data_size (ct_meta b) = 0)
          \<and> (sim < SIMULATION_APPEND \<longrightarrow> (\<forall>fp d. ct_abs b fp = Some d \<longrightarrow> d = D fp)))
     \<and> (\<forall>b\<in>set (ps_accepted (fs_pool st)). \<not> container_empty b)"

definition ix_ok :: "filter_cfg \<Rightarrow> index_state \<Rightarrow> bool" where
  "ix_ok cfg ix \<longleftrightarrow> kv_ok (index_key_size (fc_ix cfg)) (index_value_length (fc_ix cfg)) (htable ix)"

text \<open>The configuration: sampling succeeds and yields keys, as all four methods do when their
  parameter is set; the iteration of a feature table visits the table's keys.\<close>

definition cfg_ok :: "filter_cfg \<Rightarrow> bool" where
  "cfg_ok cfg \<longleftrightarrow> 0 < index_value_length (fc_ix cfg) \<and>
     (\<forall>cs n. (\<forall>c\<in>set cs. length (ck_fp c) = 20) \<and> (cs = [] \<longrightarrow> n = 0) \<longrightarrow>
        (\<exists>fs. fc_sampling cfg cs n = Inr fs \<and> (\<forall>f\<in>set fs. index_key_size (fc_ix cfg) \<le> length f))) \<and>
     index_key_size (fc_ix cfg) \<le> 20 \<and> (\<forall>fs. set (fc_iter cfg fs) = set fs)"

lemma cfg_ok_sampling:
  assumes "cfg_ok cfg" "(\<forall>c\<in>set cs. length (ck_fp c) = 20) \<and> (cs = [] \<longrightarrow> n = 0)"
  shows "\<exists>fs. fc_sampling cfg cs n = Inr fs \<and> (\<forall>f\<in>set fs. index_key_size (fc_ix cfg) \<le> length f)"
  using assms unfolding cfg_ok_def by blast

definition ix_same :: "index_state \<Rightarrow> index_state \<Rightarrow> bool" where
  "ix_same ix ix' \<longleftrightarrow> buffered_fingerprints ix' = buffered_fingerprints ix \<and> chunk_num ix' = chunk_num ix \<and>
     lru_meta ix' = lru_meta ix \<and> lru_seg ix' = lru_seg ix"

lemma ix_same_refl [simp]: "ix_same ix ix"
  by (simp add: ix_same_def)

lemma ix_same_trans: "ix_same a b \<Longrightarrow> ix_same b c \<Longrightarrow> ix_same a c"
  by (simp add: ix_same_def)

lemma holds_def': "holds st i fp \<longleftrightarrow>
    (\<exists>b\<in>set (ps_accepted (fs_pool st)). idof b = i \<and> fp \<in> keys_of b) \<or> (\<exists>b. fs_cb st = Some b \<and> idof b = i \<and> fp \<in> keys_of b)"
  by (auto simp: holds_def all_containers_def split: option.splits)

lemma holds_nonneg: "store_inv sim D st \<Longrightarrow> holds st i fp \<Longrightarrow> 0 \<le> i \<and> i < ps_count (fs_pool st)"
  by (auto simp: store_inv_def holds_def container_ok_def)

subsection \<open>The index update\<close>

lemma index_update_steps:
  assumes "ix_ok cfg ix" "0 < index_value_length (fc_ix cfg)" "in64 i"
    and "\<forall>f\<in>set fs. index_key_size (fc_ix cfg) \<le> length f"
  shows "\<exists>ix'. rfold (\<lambda>key s. rbind (kvstore_htable_update (index_key_size (fc_ix cfg)) (index_value_length (fc_ix cfg)) key i (htable s)) (\<lambda>t.
       Inr (s\<lparr>htable := t, update_requests := update_requests s + 1\<rparr>))) fs ix = Inr ix' \<and> ix_ok cfg ix' \<and> ix_same ix ix'"
proof (rule rfold_total [where I = "\<lambda>ix'. ix_ok cfg ix' \<and> ix_same ix ix'"])
  fix f s assume f: "f \<in> set fs" and s: "ix_ok cfg s \<and> ix_same ix s"
  from update_ok [OF _ assms(2) _ assms(3)] s f assms(4) obtain t where
    "kvstore_htable_update (index_key_size (fc_ix cfg)) (index_value_length (fc_ix cfg)) f i (htable s) = Inr t"
    "kv_ok (index_key_size (fc_ix cfg)) (index_value_length (fc_ix cfg)) t" unfolding ix_ok_def by metis
  moreover have "ix_same ix (s\<lparr>htable := t, update_requests := update_requests s + 1\<rparr>)"
    by (rule ix_same_trans [of _ s]) (use s in \<open>simp_all add: ix_same_def\<close>)
  ultimately show "\<exists>s'. rbind (kvstore_htable_update (index_key_size (fc_ix cfg)) (index_value_length (fc_ix cfg)) f i (htable s)) (\<lambda>t.
       Inr (s\<lparr>htable := t, update_requests := update_requests s + 1\<rparr>)) = Inr s' \<and> ix_ok cfg s' \<and> ix_same ix s'"
    by (simp add: ix_ok_def)
qed (use assms(1) in simp)

lemma index_update_ok:
  assumes "ix_ok cfg ix" "cfg_ok cfg" "in64 i" "\<forall>f\<in>set fs. index_key_size (fc_ix cfg) \<le> length f"
  shows "\<exists>ix'. index_update (fc_ix cfg) (fc_iter cfg) fs i ix = Inr ix' \<and> ix_ok cfg ix' \<and> ix_same ix ix'"
  unfolding index_update_def by (rule index_update_steps) (use assms in \<open>simp_all add: cfg_ok_def\<close>)

lemma index_container_ok:
  assumes "ix_ok cfg (fs_ix st)" "cfg_ok cfg" "container_ok sim b"
    and "physical cfg \<longrightarrow> (\<forall>c\<in>set (fs_chunks st). length (ck_fp c) = 20)"
  shows "\<exists>ix'. index_container cfg b st = Inr (if physical cfg then st\<lparr>fs_ix := ix', fs_chunks := []\<rparr> else st\<lparr>fs_ix := ix'\<rparr>)
     \<and> ix_ok cfg ix' \<and> ix_same (fs_ix st) ix'"
proof (cases "physical cfg")
  case True
  with assms(4) have l: "(\<forall>c\<in>set (fs_chunks st). length (ck_fp c) = 20) \<and> (fs_chunks st = [] \<longrightarrow> int (length (fs_chunks st)) = 0)"
    by simp
  from cfg_ok_sampling [OF assms(2) l] obtain fs where fs: "fc_sampling cfg (fs_chunks st) (int (length (fs_chunks st))) = Inr fs"
    "\<forall>f\<in>set fs. index_key_size (fc_ix cfg) \<le> length f"
    by blast
  have "in64 (get_container_id b)" using assms(3) by (simp add: get_container_id_def container_ok_def in64_def)
  from index_update_ok [OF assms(1,2) this fs(2)] fs(1) True show ?thesis by (auto simp: index_container_def)
next
  case False
  with assms(1) show ?thesis by (auto simp: index_container_def intro!: exI [of _ "fs_ix st"])
qed

subsection \<open>Writing a chunk\<close>

text \<open>What the writing of a chunk leaves alone.\<close>

definition fs_frame :: "filter_state \<Rightarrow> filter_state \<Rightarrow> bool" where
  "fs_frame st st' \<longleftrightarrow> fs_har st' = fs_har st \<and> fs_ra st' = fs_ra st \<and> fs_enable_rewrite st' = fs_enable_rewrite st \<and>
     fs_bv st' = fs_bv st \<and> fs_access st' = fs_access st \<and> fs_file st' = fs_file st"

definition tables_same :: "filter_state \<Rightarrow> filter_state \<Rightarrow> bool" where
  "tables_same st st' \<longleftrightarrow> fs_unique st' = fs_unique st \<and> fs_rewritten st' = fs_rewritten st \<and> fs_jcr st' = fs_jcr st"

definition fits :: "int \<Rightarrow> bool" where
  "fits sz \<longleftrightarrow> 0 < sz \<and> sz \<le> int CONTAINER_SIZE - int CONTAINER_META_SIZE"

definition chunks20 :: "filter_cfg \<Rightarrow> filter_state \<Rightarrow> bool" where
  "chunks20 cfg st \<longleftrightarrow> (physical cfg \<longrightarrow> (\<forall>c\<in>set (fs_chunks st). length (ck_fp c) = 20))"

lemma overflow_nonempty: "fits sz \<Longrightarrow> container_empty b \<longrightarrow> cm_data_size (ct_meta b) = 0 \<Longrightarrow> container_overflow b sz \<Longrightarrow> \<not> container_empty b"
  by (auto simp: fits_def container_overflow_def container_empty_def cfg_simps)

lemma all_containers_cb: "fs_cb st = Some b \<Longrightarrow> all_containers st = ps_accepted (fs_pool st) @ [b]"
  by (simp add: all_containers_def)

lemma keys_of_create: "keys_of (fst (create_container sim n)) = {}"
  by (simp add: keys_of_def create_container_def init_container_meta_def)

lemma created:
  "idof (fst (create_container sim n)) = n" "container_empty (fst (create_container sim n))"
  "cm_data_size (ct_meta (fst (create_container sim n))) = 0" "ct_abs (fst (create_container sim n)) fp = None"
  by (simp_all add: create_container_def init_container_meta_def container_empty_def ct_abs_def)

lemma not_overflow_create: "fits sz \<Longrightarrow> \<not> container_overflow (fst (create_container sim n)) sz"
  by (simp add: fits_def container_overflow_def create_container_def init_container_meta_def cfg_simps)

lemma new_container_eq:
  "new_container cfg st = st\<lparr>fs_cb := Some (fst (create_container (fc_sim cfg) (ps_count (fs_pool st)))),
     fs_pool := (fs_pool st)\<lparr>ps_count := ps_count (fs_pool st) + 1\<rparr>\<rparr>"
  by (simp add: new_container_def create_container_def)

text \<open>A new container when there is none, or after the full one was accepted.\<close>

lemma new_container_inv:
  assumes "distinct (map idof (ps_accepted (fs_pool st)))" "0 \<le> ps_count (fs_pool st)" "ps_count (fs_pool st) < 2 ^ 40"
    and "\<And>b. b \<in> set (ps_accepted (fs_pool st)) \<Longrightarrow> container_ok (fc_sim cfg) b \<and> idof b < ps_count (fs_pool st)
          \<and> (container_empty b \<longrightarrow> cm_data_size (ct_meta b) = 0)
          \<and> (fc_sim cfg < SIMULATION_APPEND \<longrightarrow> (\<forall>fp d. ct_abs b fp = Some d \<longrightarrow> d = D fp)) \<and> \<not> container_empty b"
  shows "store_inv (fc_sim cfg) D (new_container cfg st)"
proof -
  let ?b = "fst (create_container (fc_sim cfg) (ps_count (fs_pool st)))"
  have a: "all_containers (new_container cfg st) = ps_accepted (fs_pool st) @ [?b]"
    by (simp add: all_containers_def new_container_eq)
  have "container_ok (fc_sim cfg) ?b" by (rule container_ok_create [OF assms(2,3)])
  moreover have "ps_count (fs_pool st) \<notin> idof ` set (ps_accepted (fs_pool st))" using assms(4) by fastforce
  ultimately show ?thesis
    unfolding store_inv_def a using assms(1,2) assms(4)
    by (auto simp: created new_container_eq less_Suc_eq dest: assms(4))
qed

definition room_post :: "filter_cfg \<Rightarrow> (fingerprint \<Rightarrow> byte list) \<Rightarrow> filter_state \<Rightarrow> filter_state \<Rightarrow> bool" where
  "room_post cfg D st st' \<longleftrightarrow> store_inv (fc_sim cfg) D st' \<and> (\<forall>i fp. holds st i fp \<longrightarrow> holds st' i fp) \<and>
     fs_frame st st' \<and> ix_ok cfg (fs_ix st') \<and> ix_same (fs_ix st) (fs_ix st') \<and> chunks20 cfg st' \<and>
     ps_count (fs_pool st) \<le> ps_count (fs_pool st') \<and> ps_count (fs_pool st') \<le> ps_count (fs_pool st) + 1"

lemma container_facts:
  assumes "store_inv sim D st" "b \<in> set (all_containers st)"
  shows "container_ok sim b \<and> idof b < ps_count (fs_pool st) \<and> (container_empty b \<longrightarrow> cm_data_size (ct_meta b) = 0)
     \<and> (sim < SIMULATION_APPEND \<longrightarrow> (\<forall>fp d. ct_abs b fp = Some d \<longrightarrow> d = D fp))"
  using assms by (auto simp: store_inv_def)

lemma make_room_new:
  assumes inv: "store_inv (fc_sim cfg) D st" and ix: "ix_ok cfg (fs_ix st)" and sz: "fits sz"
    and cnt: "ps_count (fs_pool st) + 1 < 2 ^ 40" and none: "fs_cb st = None"
  shows "\<exists>st' b. make_room cfg sz st = Inr st' \<and> fs_cb st' = Some b \<and> \<not> container_overflow b sz \<and>
     room_post cfg D st st' \<and> tables_same st st' \<and> keys_of b \<subseteq> cb_keys st"
proof -
  let ?st = "let st = new_container cfg st in if physical cfg then st\<lparr>fs_chunks := []\<rparr> else st"
  let ?b = "fst (create_container (fc_sim cfg) (ps_count (fs_pool st)))"
  have acc: "all_containers st = ps_accepted (fs_pool st)" by (simp add: all_containers_def none)
  have "0 \<le> ps_count (fs_pool st)" using inv by (simp add: store_inv_def)
  then have "ps_count (fs_pool st) < 2 ^ 40" using cnt by simp
  then have s: "store_inv (fc_sim cfg) D (new_container cfg st)"
    using inv acc by (intro new_container_inv) (auto simp: store_inv_def)
  then have s': "store_inv (fc_sim cfg) D ?st"
    by (simp add: store_inv_def all_containers_def Let_def)
  have "make_room cfg sz st = Inr ?st"
    using none not_overflow_create [OF sz] by (simp add: make_room_def Let_def new_container_eq)
  moreover have "fs_cb ?st = Some ?b" "\<not> container_overflow ?b sz" "keys_of ?b \<subseteq> cb_keys st" "tables_same st ?st"
    using not_overflow_create [OF sz] by (simp_all add: new_container_eq keys_of_create tables_same_def Let_def)
  moreover have "holds ?st i fp" if "holds st i fp" for i fp
    using that none by (simp add: holds_def' new_container_eq Let_def)
  moreover have "fs_frame st ?st" "ix_ok cfg (fs_ix ?st)" "ix_same (fs_ix st) (fs_ix ?st)" "chunks20 cfg ?st"
    using ix by (simp_all add: fs_frame_def new_container_eq chunks20_def Let_def)
  ultimately show ?thesis using s' by (auto simp: room_post_def new_container_eq Let_def)
qed

lemma make_room_full:
  assumes inv: "store_inv (fc_sim cfg) D st" and ix: "ix_ok cfg (fs_ix st)" and cfg: "cfg_ok cfg" and c20: "chunks20 cfg st" and sz: "fits sz"
    and cnt: "ps_count (fs_pool st) + 1 < 2 ^ 40" and some: "fs_cb st = Some b" and full: "container_overflow b sz"
  shows "\<exists>st' b'. make_room cfg sz st = Inr st' \<and> fs_cb st' = Some b' \<and> \<not> container_overflow b' sz \<and>
     room_post cfg D st st' \<and> tables_same st st' \<and> keys_of b' \<subseteq> cb_keys st"
proof -
  note acc = all_containers_cb [OF some]
  note b = container_facts [OF inv, of b, unfolded acc, simplified]
  have ne: "\<not> container_empty b" using overflow_nonempty [OF sz _ full] b by blast
  from index_container_ok [OF ix cfg b [THEN conjunct1]] c20 obtain ix' where
    i: "index_container cfg b st = Inr (if physical cfg then st\<lparr>fs_ix := ix', fs_chunks := []\<rparr> else st\<lparr>fs_ix := ix'\<rparr>)"
      "ix_ok cfg ix'" "ix_same (fs_ix st) ix'" unfolding chunks20_def by blast
  let ?st1 = "if physical cfg then st\<lparr>fs_ix := ix', fs_chunks := []\<rparr> else st\<lparr>fs_ix := ix'\<rparr>"
  let ?p = "(fs_pool st)\<lparr>ps_buffer := ps_buffer (fs_pool st) @ [b], ps_accepted := ps_accepted (fs_pool st) @ [b]\<rparr>"
  let ?st2 = "?st1\<lparr>fs_pool := ?p\<rparr>"
  let ?st' = "new_container cfg ?st2"
  have "cm_chunk_num (ct_meta b) = int (length (cm_map (ct_meta b)))" using b by (simp add: container_ok_def meta_ok_def)
  then have w: "write_container_async b (fs_pool ?st1) = Inr ?p" using ne by (simp add: write_container_async_def)
  have m: "make_room cfg sz st = Inr ?st'"
    using some full i(1) w by (simp add: make_room_def Let_def)
  have "0 \<le> ps_count (fs_pool st)" using inv by (simp add: store_inv_def)
  then have c64: "0 \<le> ps_count (fs_pool st)" "ps_count (fs_pool st) < 2 ^ 40" using cnt by simp_all
  have s': "store_inv (fc_sim cfg) D ?st'"
  proof (rule new_container_inv)
    show "distinct (map idof (ps_accepted (fs_pool ?st2)))" using inv acc by (simp add: store_inv_def)
    fix b' assume "b' \<in> set (ps_accepted (fs_pool ?st2))"
    then have "b' \<in> set (all_containers st)" "\<not> container_empty b'" using inv acc ne by (auto simp: store_inv_def)
    with container_facts [OF inv this(1)] show "container_ok (fc_sim cfg) b' \<and> idof b' < ps_count (fs_pool ?st2)
          \<and> (container_empty b' \<longrightarrow> cm_data_size (ct_meta b') = 0)
          \<and> (fc_sim cfg < SIMULATION_APPEND \<longrightarrow> (\<forall>fp d. ct_abs b' fp = Some d \<longrightarrow> d = D fp)) \<and> \<not> container_empty b'" by simp
  qed (use c64 in simp_all)
  have "holds ?st' i fp" if "holds st i fp" for i fp
    using that some by (auto simp: holds_def' new_container_eq)
  moreover have "fs_frame st ?st'" "ix_ok cfg (fs_ix ?st')" "ix_same (fs_ix st) (fs_ix ?st')" "chunks20 cfg ?st'" "tables_same st ?st'"
    using i c20 by (simp_all add: fs_frame_def new_container_eq chunks20_def tables_same_def)
  moreover have "keys_of (fst (create_container (fc_sim cfg) (ps_count (fs_pool st)))) \<subseteq> cb_keys st" by (simp add: keys_of_create)
  ultimately show ?thesis using m s' not_overflow_create [OF sz]
    by (intro exI [of _ ?st'] exI) (auto simp: room_post_def new_container_eq)
qed

lemma make_room_ok:
  assumes inv: "store_inv (fc_sim cfg) D st" and ix: "ix_ok cfg (fs_ix st)" and cfg: "cfg_ok cfg" and c20: "chunks20 cfg st" and sz: "fits sz"
    and cnt: "ps_count (fs_pool st) + 1 < 2 ^ 40"
  shows "\<exists>st' b. make_room cfg sz st = Inr st' \<and> fs_cb st' = Some b \<and> \<not> container_overflow b sz \<and>
     room_post cfg D st st' \<and> tables_same st st' \<and> keys_of b \<subseteq> cb_keys st"
proof (cases "fs_cb st")
  case None
  show ?thesis by (rule make_room_new [OF inv ix sz cnt None])
next
  case (Some b)
  show ?thesis
  proof (cases "container_overflow b sz")
    case True
    show ?thesis by (rule make_room_full [OF inv ix cfg c20 sz cnt Some True])
  next
    case False
    with Some have "make_room cfg sz st = Inr st" by (simp add: make_room_def)
    with Some False inv ix c20 show ?thesis
      by (auto simp: room_post_def fs_frame_def tables_same_def cb_keys_def)
  qed
qed

text \<open>The data chunks of the stream: a fingerprint of 20 bytes, a size that fits a container, and the
  data the fingerprint stands for.\<close>

definition data_ok :: "(fingerprint \<Rightarrow> byte list) \<Rightarrow> chunk \<Rightarrow> bool" where
  "data_ok D c \<longleftrightarrow> length (ck_fp c) = 20 \<and> ck_size c = int (length (ck_data c)) \<and> fits (ck_size c) \<and> ck_data c = D (ck_fp c)"

definition tables_grow :: "fingerprint \<Rightarrow> containerid \<Rightarrow> filter_state \<Rightarrow> filter_state \<Rightarrow> bool" where
  "tables_grow fp i st st' \<longleftrightarrow>
     (fs_unique st' = fs_unique st \<or> fs_unique st' = AList.update fp i (fs_unique st)) \<and>
     (fs_rewritten st' = fs_rewritten st \<or> fs_rewritten st' = AList.update fp i (fs_rewritten st))"

text \<open>Putting a chunk into the container buffer.\<close>

lemma add_to_buffer:
  assumes inv: "store_inv (fc_sim cfg) D st" and cb: "fs_cb st = Some b" and no: "\<not> container_overflow b (ck_size c)" and c: "data_ok D c"
  shows "\<exists>b'. add_chunk_to_container (fc_sim cfg) b c = Inr (ck_fp c \<notin> keys_of b, b', c\<lparr>ck_id := idof b\<rparr>) \<and>
     store_inv (fc_sim cfg) D (st\<lparr>fs_cb := Some b'\<rparr>) \<and> idof b' = idof b \<and> keys_of b' = insert (ck_fp c) (keys_of b)"
proof -
  note acc = all_containers_cb [OF cb]
  note b = container_facts [OF inv, of b, unfolded acc, simplified]
  from c have "ck_size c = int (length (ck_data c))" "length (ck_fp c) = 20" by (simp_all add: data_ok_def)
  from add_chunk_ok [OF b [THEN conjunct1] no this] obtain b' where
    a: "add_chunk_to_container (fc_sim cfg) b c = Inr (ck_fp c \<notin> keys_of b, b', c\<lparr>ck_id := idof b\<rparr>)"
      "container_ok (fc_sim cfg) b'" "idof b' = idof b" "keys_of b' = insert (ck_fp c) (keys_of b)"
      "fc_sim cfg < SIMULATION_APPEND \<Longrightarrow> ct_abs b' = (if ck_fp c \<notin> keys_of b then (ct_abs b)(ck_fp c \<mapsto> ck_data c) else ct_abs b)"
    unfolding keys_of_def by auto
  have "cm_map (ct_meta b') \<noteq> []" using a(4) by (auto simp: keys_of_def)
  then have ne: "\<not> container_empty b'" using a(2) by (simp add: container_empty_def container_ok_def meta_ok_def)
  have gen: "d = D fp" if "fc_sim cfg < SIMULATION_APPEND" "ct_abs b' fp = Some d" for fp d
    using that a(5) b c by (auto simp: data_ok_def split: if_splits)
  have "all_containers (st\<lparr>fs_cb := Some b'\<rparr>) = ps_accepted (fs_pool st) @ [b']" by (simp add: all_containers_def)
  with inv acc a(2,3) ne gen have "store_inv (fc_sim cfg) D (st\<lparr>fs_cb := Some b'\<rparr>)" by (auto simp: store_inv_def)
  with a show ?thesis by blast
qed

lemma holds_cb: "fs_cb st = Some b \<Longrightarrow> fp \<in> keys_of b \<Longrightarrow> holds st (idof b) fp"
  by (auto simp: holds_def')

lemma holds_grow:
  assumes "fs_cb st = Some b" "idof b' = idof b" "keys_of b \<subseteq> keys_of b'" "holds st i fp"
  shows "holds (st\<lparr>fs_cb := Some b'\<rparr>) i fp"
  using assms by (auto simp: holds_def')

lemma record_written_frame:
  "fs_pool (record_written cfg c st) = fs_pool st" "fs_cb (record_written cfg c st) = fs_cb st" "fs_ix (record_written cfg c st) = fs_ix st"
  "fs_frame st (record_written cfg c st)" "tables_grow (ck_fp c) (ck_id c) st (record_written cfg c st)"
  "\<not> CHECK_CHUNK c CHUNK_DUPLICATE \<Longrightarrow> fs_unique (record_written cfg c st) = AList.update (ck_fp c) (ck_id c) (fs_unique st)"
  by (simp_all add: record_written_def Let_def fs_frame_def tables_grow_def)

lemma record_written_chunks: "chunks20 cfg st \<Longrightarrow> length (ck_fp c) = 20 \<Longrightarrow> chunks20 cfg (record_written cfg c st)"
  by (auto simp: record_written_def chunks20_def Let_def)

lemma pool_cb_cong:
  assumes "fs_pool st' = fs_pool st" "fs_cb st' = fs_cb st"
  shows "store_inv sim D st' = store_inv sim D st" "holds st' = holds st" "cb_keys st' = cb_keys st"
  using assms by (simp_all add: store_inv_def all_containers_def holds_def fun_eq_iff cb_keys_def)

lemma check_id [simp]: "CHECK_CHUNK (c\<lparr>ck_id := i\<rparr>) f = CHECK_CHUNK c f"
  by (simp add: CHECK_CHUNK_def)

lemma frame_trans: "fs_frame a b \<Longrightarrow> fs_frame b c \<Longrightarrow> fs_frame a c"
  by (simp add: fs_frame_def)

lemma write_chunk_ok:
  assumes inv: "store_inv (fc_sim cfg) D st" and ix: "ix_ok cfg (fs_ix st)" and cfg: "cfg_ok cfg" and c20: "chunks20 cfg st"
    and cnt: "ps_count (fs_pool st) + 1 < 2 ^ 40" and c: "data_ok D c"
    and ex: "ck_fp c \<in> cb_keys st \<Longrightarrow> index_category0 (fc_ix cfg) \<noteq> INDEX_CATEGORY_EXACT \<or> \<not> fc_no_rewrite cfg"
  shows "\<exists>i st'. write_chunk cfg c st = Inr (c\<lparr>ck_id := i\<rparr>, st') \<and> holds st' i (ck_fp c) \<and> room_post cfg D st st' \<and>
     cb_keys st' \<subseteq> insert (ck_fp c) (cb_keys st) \<and> tables_grow (ck_fp c) i st st' \<and>
     (\<not> CHECK_CHUNK c CHUNK_DUPLICATE \<and> ck_fp c \<notin> cb_keys st \<longrightarrow> ck_fp c \<in> fst ` set (fs_unique st'))"
proof -
  have "fits (ck_size c)" using c unfolding data_ok_def by blast
  from make_room_ok [OF inv ix cfg c20 this cnt] obtain st1 b where
    1: "make_room cfg (ck_size c) st = Inr st1" "fs_cb st1 = Some b" "\<not> container_overflow b (ck_size c)"
      "room_post cfg D st st1" "tables_same st st1" "keys_of b \<subseteq> cb_keys st" by blast
  have inv1: "store_inv (fc_sim cfg) D st1" using 1(4) by (simp add: room_post_def)
  from add_to_buffer [OF inv1 1(2,3) c] obtain b' where
    2: "add_chunk_to_container (fc_sim cfg) b c = Inr (ck_fp c \<notin> keys_of b, b', c\<lparr>ck_id := idof b\<rparr>)"
      "store_inv (fc_sim cfg) D (st1\<lparr>fs_cb := Some b'\<rparr>)" "idof b' = idof b" "keys_of b' = insert (ck_fp c) (keys_of b)" by blast
  let ?c = "c\<lparr>ck_id := idof b\<rparr>" and ?st2 = "st1\<lparr>fs_cb := Some b'\<rparr>"
  have h2: "holds ?st2 (idof b) (ck_fp c)" using holds_cb [of ?st2 b' "ck_fp c"] 2(3,4) by simp
  have g2: "holds ?st2 i fp" if "holds st i fp" for i fp
    using that 1(4) by (intro holds_grow [OF 1(2) 2(3)]) (auto simp: 2(4) room_post_def)
  have k2: "cb_keys ?st2 \<subseteq> insert (ck_fp c) (cb_keys st)" using 1(6) 2(4) by (auto simp: cb_keys_def)
  have r2: "room_post cfg D st ?st2"
    using 1(4) 2(2) g2 by (auto simp: room_post_def fs_frame_def chunks20_def)
  have t2: "tables_grow (ck_fp c) (idof b) st ?st2" "fs_unique ?st2 = fs_unique st" "fs_rewritten ?st2 = fs_rewritten st"
    using 1(5) by (simp_all add: tables_same_def tables_grow_def)
  show ?thesis
  proof (cases "ck_fp c \<in> keys_of b")
    case True
    with 1(6) ex have a: "index_category0 (fc_ix cfg) \<noteq> INDEX_CATEGORY_EXACT \<or> \<not> fc_no_rewrite cfg" by auto
    have "write_chunk cfg c st = Inr (?c, ?st2)" using 1(1,2) 2(1) True a by (auto simp: write_chunk_def)
    with True h2 r2 k2 t2 1(6) show ?thesis by (intro exI [of _ "idof b"] exI [of _ ?st2]) auto
  next
    case False
    let ?st3 = "record_written cfg ?c ?st2"
    note rw = record_written_frame [where cfg = cfg and c = ?c and st = ?st2]
    have w: "write_chunk cfg c st = Inr (?c, ?st3)" using 1(1,2) 2(1) False by (simp add: write_chunk_def)
    note cg = pool_cb_cong [OF rw(1,2)]
    have "chunks20 cfg ?st3" using r2 c by (intro record_written_chunks) (simp_all add: room_post_def data_ok_def)
    then have r3: "room_post cfg D st ?st3"
      using r2 rw frame_trans [OF _ rw(4), of st] unfolding room_post_def cg by simp
    have t3: "tables_grow (ck_fp c) (idof b) st ?st3" using rw(5) t2(2,3) by (simp add: tables_grow_def)
    have "ck_fp c \<in> fst ` set (fs_unique ?st3)" if "\<not> CHECK_CHUNK c CHUNK_DUPLICATE"
      using rw(6) that by (simp add: dom_update)
    with w r3 t3 h2 k2 show ?thesis unfolding cg [symmetric] by (intro exI [of _ "idof b"] exI [of _ ?st3]) simp
  qed
qed

subsection \<open>One chunk\<close>

definition ra_ok :: "ra_monitor \<Rightarrow> bool" where
  "ra_ok m \<longleftrightarrow> lru_inv (ra_cache m) \<and> (\<forall>i\<in>set (elem_queue (ra_cache m)). 0 \<le> i)"

definition tables_sound :: "filter_state \<Rightarrow> bool" where
  "tables_sound st \<longleftrightarrow> (\<forall>(fp, i)\<in>set (fs_unique st) \<union> set (fs_rewritten st). holds st i fp)"

definition f_ok :: "filter_cfg \<Rightarrow> (fingerprint \<Rightarrow> byte list) \<Rightarrow> filter_state \<Rightarrow> bool" where
  "f_ok cfg D st \<longleftrightarrow> store_inv (fc_sim cfg) D st \<and> ix_ok cfg (fs_ix st) \<and> chunks20 cfg st \<and> ra_ok (fs_ra st) \<and> tables_sound st"

text \<open>How the state of the filter grows while it works on a segment.\<close>

definition f_ext :: "filter_state \<Rightarrow> filter_state \<Rightarrow> bool" where
  "f_ext st st' \<longleftrightarrow> (\<forall>i fp. holds st i fp \<longrightarrow> holds st' i fp) \<and> ix_same (fs_ix st) (fs_ix st') \<and>
     fs_bv st' = fs_bv st \<and> fs_access st' = fs_access st \<and> fs_file st' = fs_file st \<and>
     ps_count (fs_pool st) \<le> ps_count (fs_pool st') \<and> fst ` set (fs_unique st) \<subseteq> fst ` set (fs_unique st')"

lemma f_ext_refl: "f_ext st st"
  by (simp add: f_ext_def)

lemma f_ext_trans: "f_ext a b \<Longrightarrow> f_ext b c \<Longrightarrow> f_ext a c"
  unfolding f_ext_def using ix_same_trans by (metis (no_types, lifting) order_trans)

definition kept :: "chunk \<Rightarrow> chunk \<Rightarrow> bool" where
  "kept c d \<longleftrightarrow> ck_fp d = ck_fp c \<and> ck_size d = ck_size c \<and> ck_data d = ck_data c \<and> is_file_mark d = is_file_mark c \<and>
     CHECK_CHUNK d CHUNK_DUPLICATE = CHECK_CHUNK c CHUNK_DUPLICATE \<and> CHECK_CHUNK d CHUNK_SPARSE = CHECK_CHUNK c CHUNK_SPARSE \<and>
     CHECK_CHUNK d CHUNK_OUT_OF_ORDER = CHECK_CHUNK c CHUNK_OUT_OF_ORDER"

lemma kept_refl: "kept c c"
  by (simp add: kept_def)

lemma kept_trans: "kept a b \<Longrightarrow> kept b c \<Longrightarrow> kept a c"
  by (simp add: kept_def)

lemma kept_id: "kept c (c\<lparr>ck_id := i\<rparr>)"
  by (simp add: kept_def is_file_mark_def)

lemma check_disjoint: "a AND f = 0 \<Longrightarrow> CHECK_CHUNK (SET_CHUNK c a) f = CHECK_CHUNK c f"
  by (simp add: CHECK_CHUNK_def SET_CHUNK_def word_ao_dist)

lemma set_data: "ck_fp (SET_CHUNK c f) = ck_fp c" "ck_size (SET_CHUNK c f) = ck_size c" "ck_data (SET_CHUNK c f) = ck_data c"
  by (simp_all add: SET_CHUNK_def)

lemma kept_set_cached: "kept c (SET_CHUNK c CHUNK_IN_CACHE)"
  by (simp add: kept_def is_file_mark_def check_disjoint cfg_simps set_data)

lemma kept_set_denied: "kept c (SET_CHUNK c CHUNK_REWRITE_DENIED)"
  by (simp add: kept_def is_file_mark_def check_disjoint cfg_simps set_data)

lemma set_id [simp]: "ck_id (SET_CHUNK c f) = ck_id c" "ck_fp (SET_CHUNK c f) = ck_fp c"
  by (simp_all add: SET_CHUNK_def)

lemma kept_data: "kept c d \<Longrightarrow> data_ok D c \<Longrightarrow> data_ok D d"
  unfolding kept_def data_ok_def by (elim conjE) (simp only:)

lemma mark_cached_ok:
  assumes "ra_ok (fs_ra st)"
  shows "\<exists>d. mark_cached cfg st c = Inr d \<and> kept c d \<and> ck_id d = ck_id c"
proof (cases "cache_aware cfg \<and> restore_aware_contains (ck_id c) (fs_ra st)")
  case True
  then obtain e zs where "unlink_first (\<lambda>e. e = ck_id c) (elem_queue (ra_cache (fs_ra st))) = Some (e, zs)"
    by (auto simp: restore_aware_contains_def lru_cache_lookup_without_update_def)
  then have "ck_id c \<in> set (elem_queue (ra_cache (fs_ra st)))" by (auto dest: unlink_first_sat)
  then have "ck_id c \<noteq> TEMPORARY_ID" using assms by (auto simp: ra_ok_def TEMPORARY_ID_def)
  with True show ?thesis by (simp add: mark_cached_def kept_set_cached)
next
  case False
  then show ?thesis by (auto simp: mark_cached_def kept_refl)
qed

lemma switch_rewrite_eq: "\<exists>e. switch_rewrite cfg st = st\<lparr>fs_enable_rewrite := e\<rparr>"
proof -
  have "st = st\<lparr>fs_enable_rewrite := fs_enable_rewrite st\<rparr>" by simp
  then have "\<exists>e. st = st\<lparr>fs_enable_rewrite := e\<rparr>" by blast
  then show ?thesis by (auto simp: switch_rewrite_def Let_def)
qed

lemma ra_update_ok:
  assumes "ra_ok m" "0 \<le> i"
  shows "\<exists>m'. restore_aware_update q i n m = Inr m' \<and> ra_ok m'"
proof -
  obtain r l where l: "lru_cache_lookup (\<lambda>e. e = i) (ra_cache m) = (r, l)" by fastforce
  have inv: "lru_inv l" using lru_inv_lookup [of "ra_cache m" "\<lambda>e. e = i"] assms(1) l by (simp add: ra_ok_def)
  have set: "set (elem_queue l) = set (elem_queue (ra_cache m))" by (rule lru_lookup_set [OF l])
  from lru_insert_ok [OF inv, of i] obtain v l' where l': "lru_cache_insert l i = Inr (v, l')" "lru_inv l'" by blast
  have "set (elem_queue l') \<subseteq> insert i (set (elem_queue l))" by (rule lru_insert_set [OF l'(1)])
  with assms inv set l' l show ?thesis
    by (cases r) (auto simp: restore_aware_update_def Let_def ra_ok_def)
qed

lemma set_update: "set (AList.update k v t) \<subseteq> insert (k, v) (set t)"
  by (induction t) auto

lemma tables_grow_sound:
  assumes "tables_sound st" "tables_grow fp i st st'" "\<And>j f. holds st j f \<Longrightarrow> holds st' j f" "holds st' i fp"
  shows "tables_sound st'"
proof -
  have "set (fs_unique st') \<union> set (fs_rewritten st') \<subseteq> insert (fp, i) (set (fs_unique st) \<union> set (fs_rewritten st))"
    using assms(2) set_update [of fp i "fs_unique st"] set_update [of fp i "fs_rewritten st"] by (auto simp: tables_grow_def)
  with assms(1,3,4) show ?thesis unfolding tables_sound_def by blast
qed

lemma dom_update_subset: "fst ` set t \<subseteq> fst ` set (AList.update k v t)"
  by (simp add: dom_update subset_insertI)

lemma tables_grow_dom: "tables_grow fp i st st' \<Longrightarrow> fst ` set (fs_unique st) \<subseteq> fst ` set (fs_unique st')"
  unfolding tables_grow_def
  by (elim conjE disjE; simp add: dom_update_subset)

text \<open>A duplicate has a container that holds it, or waits for one.\<close>

definition located :: "(containerid \<Rightarrow> fingerprint \<Rightarrow> bool) \<Rightarrow> chunk \<Rightarrow> bool" where
  "located g c \<longleftrightarrow> (CHECK_CHUNK c CHUNK_DUPLICATE \<longrightarrow> ck_id c = TEMPORARY_ID \<or> g (ck_id c) (ck_fp c))"

lemma resolve_unique_ok:
  assumes "tables_sound st" "located (holds st) c"
    and "CHECK_CHUNK c CHUNK_DUPLICATE \<Longrightarrow> ck_id c = TEMPORARY_ID \<Longrightarrow> ck_fp c \<in> fst ` set (fs_unique st)"
  shows "\<exists>d. resolve_unique st c = Inr d \<and> kept c d \<and> (CHECK_CHUNK c CHUNK_DUPLICATE \<longrightarrow> holds st (ck_id d) (ck_fp c))"
proof (cases "CHECK_CHUNK c CHUNK_DUPLICATE \<and> ck_id c = TEMPORARY_ID")
  case True
  with assms(3) obtain i where i: "map_of (fs_unique st) (ck_fp c) = Some i" by (metis map_of_eq_None_iff not_None_eq)
  then have "holds st i (ck_fp c)" using assms(1) by (auto simp: tables_sound_def dest: map_of_SomeD)
  with True i show ?thesis by (simp add: resolve_unique_def kept_id)
next
  case False
  with assms(2) show ?thesis by (auto simp: resolve_unique_def located_def kept_refl)
qed

lemma resolve_rewritten_ok:
  assumes "tables_sound st" and "P \<Longrightarrow> holds st (ck_id c) (ck_fp c)"
  shows "kept c (resolve_rewritten st c) \<and> (P \<longrightarrow> holds st (ck_id (resolve_rewritten st c)) (ck_fp c))"
proof (cases "map_of (fs_rewritten st) (ck_fp c)")
  case None
  with assms(2) show ?thesis by (simp add: resolve_rewritten_def kept_refl)
next
  case (Some i)
  then have "holds st i (ck_fp c)" using assms(1) by (auto simp: tables_sound_def dest: map_of_SomeD)
  with Some show ?thesis
    by (simp add: resolve_rewritten_def kept_trans [OF kept_id kept_set_denied])
qed

text \<open>What the filter needs of a data chunk: unique chunks are not in the current container,
  duplicates without a container have their first copy in this segment, and an exact index without rewriting
  sees no fragmented chunk.\<close>

definition chunk_ready :: "filter_cfg \<Rightarrow> filter_state \<Rightarrow> chunk \<Rightarrow> bool" where
  "chunk_ready cfg st c \<longleftrightarrow> located (holds st) c \<and>
     (\<not> CHECK_CHUNK c CHUNK_DUPLICATE \<longrightarrow> ck_fp c \<notin> cb_keys st) \<and>
     (CHECK_CHUNK c CHUNK_DUPLICATE \<and> ck_id c = TEMPORARY_ID \<longrightarrow> ck_fp c \<in> fst ` set (fs_unique st)) \<and>
     (index_category0 (fc_ix cfg) = INDEX_CATEGORY_EXACT \<and> fc_no_rewrite cfg \<longrightarrow>
        \<not> CHECK_CHUNK c CHUNK_SPARSE \<and> \<not> CHECK_CHUNK c CHUNK_OUT_OF_ORDER)"

definition placed :: "filter_cfg \<Rightarrow> (fingerprint \<Rightarrow> byte list) \<Rightarrow> chunk \<Rightarrow> filter_state \<Rightarrow> chunk \<Rightarrow> filter_state \<Rightarrow> bool" where
  "placed cfg D c st c' st' \<longleftrightarrow> kept c c' \<and> f_ok cfg D st' \<and> f_ext st st' \<and> holds st' (ck_id c') (ck_fp c) \<and>
     cb_keys st' \<subseteq> insert (ck_fp c) (cb_keys st) \<and> ps_count (fs_pool st') \<le> ps_count (fs_pool st) + 1 \<and>
     (\<not> CHECK_CHUNK c CHUNK_DUPLICATE \<longrightarrow> ck_fp c \<in> fst ` set (fs_unique st'))"

text \<open>The decision, once the id is resolved.\<close>

lemma place_ok:
  assumes ok: "f_ok cfg D st" and cfg: "cfg_ok cfg" and c: "data_ok D c" and cnt: "ps_count (fs_pool st) + 1 < 2 ^ 40"
    and dup: "CHECK_CHUNK c CHUNK_DUPLICATE \<Longrightarrow> holds st (ck_id c) (ck_fp c)"
    and uniq: "\<not> CHECK_CHUNK c CHUNK_DUPLICATE \<Longrightarrow> ck_fp c \<notin> cb_keys st"
    and frag: "index_category0 (fc_ix cfg) = INDEX_CATEGORY_EXACT \<and> fc_no_rewrite cfg \<Longrightarrow>
        \<not> CHECK_CHUNK c CHUNK_SPARSE \<and> \<not> CHECK_CHUNK c CHUNK_OUT_OF_ORDER"
  shows "\<exists>d st'. (if to_write e c then write_chunk cfg c st else Inr (c, st)) = Inr (d, st') \<and> placed cfg D c st d st' \<and> fs_ra st' = fs_ra st"
proof (cases "to_write e c")
  case True
  have ex: "index_category0 (fc_ix cfg) \<noteq> INDEX_CATEGORY_EXACT \<or> \<not> fc_no_rewrite cfg" if "ck_fp c \<in> cb_keys st"
    using that uniq frag True by (auto simp: to_write_def)
  from write_chunk_ok [OF _ _ cfg _ cnt c ex] ok obtain i st' where
    1: "write_chunk cfg c st = Inr (c\<lparr>ck_id := i\<rparr>, st')" "holds st' i (ck_fp c)" "room_post cfg D st st'"
      "cb_keys st' \<subseteq> insert (ck_fp c) (cb_keys st)" "tables_grow (ck_fp c) i st st'"
      "\<not> CHECK_CHUNK c CHUNK_DUPLICATE \<and> ck_fp c \<notin> cb_keys st \<longrightarrow> ck_fp c \<in> fst ` set (fs_unique st')"
    unfolding f_ok_def by blast
  have "tables_sound st'"
    by (rule tables_grow_sound [OF _ 1(5) _ 1(2)]) (use ok 1(3) in \<open>auto simp: f_ok_def room_post_def\<close>)
  moreover have "fs_ra st' = fs_ra st" using 1(3) by (simp add: room_post_def fs_frame_def)
  ultimately have "placed cfg D c st (c\<lparr>ck_id := i\<rparr>) st'"
    using 1 uniq ok tables_grow_dom [OF 1(5)]
    by (simp add: placed_def kept_id f_ok_def f_ext_def room_post_def fs_frame_def)
  with True 1(1) \<open>fs_ra st' = fs_ra st\<close> show ?thesis by auto
next
  case False
  then have "CHECK_CHUNK c CHUNK_DUPLICATE" by (simp add: to_write_def)
  with dup ok have "placed cfg D c st c st" by (auto simp: placed_def kept_refl f_ext_refl)
  with False show ?thesis by auto
qed

lemma f_cong:
  assumes "st' = st\<lparr>fs_enable_rewrite := e\<rparr>"
  shows "f_ok cfg D st' = f_ok cfg D st" "holds st' = holds st" "cb_keys st' = cb_keys st" "f_ext st' = f_ext st"
    "tables_sound st' = tables_sound st" "fs_ra st' = fs_ra st" "fs_unique st' = fs_unique st" "fs_pool st' = fs_pool st"
    "placed cfg D c st' = placed cfg D c st"
proof -
  have h: "holds st' = holds st" "cb_keys st' = cb_keys st" by (rule pool_cb_cong; simp add: assms)+
  then show "holds st' = holds st" "cb_keys st' = cb_keys st" .
  have s: "store_inv (fc_sim cfg) D st' = store_inv (fc_sim cfg) D st" by (rule pool_cb_cong; simp add: assms)
  show "f_ok cfg D st' = f_ok cfg D st" unfolding f_ok_def s tables_sound_def h by (simp add: assms chunks20_def)
  show e: "f_ext st' = f_ext st" unfolding f_ext_def fun_eq_iff h by (simp add: assms)
  show "tables_sound st' = tables_sound st" unfolding tables_sound_def h by (simp add: assms)
  show "placed cfg D c st' = placed cfg D c st" unfolding placed_def fun_eq_iff h e by (simp add: assms)
qed (simp_all add: assms)

lemma filter_chunk_ok:
  assumes ok: "f_ok cfg D st" and cfg: "cfg_ok cfg" and c: "data_ok D c" and nm: "\<not> is_file_mark c"
    and cnt: "ps_count (fs_pool st) + 1 < 2 ^ 40" and rdy: "chunk_ready cfg st c"
  shows "\<exists>c' st'. filter_chunk cfg c st = Inr (c', st') \<and> placed cfg D c st c' st'"
proof -
  from mark_cached_ok [of st cfg c] ok obtain c1 where
    1: "mark_cached cfg st c = Inr c1" "kept c c1" "ck_id c1 = ck_id c" by (auto simp: f_ok_def)
  from switch_rewrite_eq [of cfg st] obtain e where sw: "switch_rewrite cfg st = st\<lparr>fs_enable_rewrite := e\<rparr>" by blast
  let ?st1 = "switch_rewrite cfg st"
  note cg = f_cong [OF sw]
  have k1: "ck_fp c1 = ck_fp c" "CHECK_CHUNK c1 CHUNK_DUPLICATE = CHECK_CHUNK c CHUNK_DUPLICATE" using 1(2) by (simp_all add: kept_def)
  have s1: "located (holds ?st1) c1" using rdy 1(3) k1 unfolding cg chunk_ready_def located_def by simp
  from resolve_unique_ok [OF _ s1] rdy ok 1(3) k1 obtain c2 where
    2: "resolve_unique ?st1 c1 = Inr c2" "kept c1 c2" "CHECK_CHUNK c1 CHUNK_DUPLICATE \<longrightarrow> holds st (ck_id c2) (ck_fp c1)"
    unfolding cg by (auto simp: chunk_ready_def f_ok_def)
  let ?c3 = "resolve_rewritten ?st1 c2"
  have ts: "tables_sound ?st1" unfolding cg using ok by (simp add: f_ok_def)
  have k2: "ck_fp c2 = ck_fp c" using 2(2) k1 by (simp add: kept_def)
  have "kept c2 ?c3 \<and> (CHECK_CHUNK c CHUNK_DUPLICATE \<longrightarrow> holds ?st1 (ck_id ?c3) (ck_fp c2))"
    by (rule resolve_rewritten_ok [OF ts]) (use 2(3) k1 k2 in \<open>simp add: cg\<close>)
  then have 3: "kept c ?c3" "CHECK_CHUNK c CHUNK_DUPLICATE \<longrightarrow> holds st (ck_id ?c3) (ck_fp c)"
    using kept_trans [OF kept_trans [OF 1(2) 2(2)]] k2 by (simp_all add: cg)
  have k3: "ck_fp ?c3 = ck_fp c" "ck_size ?c3 = ck_size c" "CHECK_CHUNK ?c3 CHUNK_DUPLICATE = CHECK_CHUNK c CHUNK_DUPLICATE"
    "CHECK_CHUNK ?c3 CHUNK_SPARSE = CHECK_CHUNK c CHUNK_SPARSE" "CHECK_CHUNK ?c3 CHUNK_OUT_OF_ORDER = CHECK_CHUNK c CHUNK_OUT_OF_ORDER"
    using 3(1) by (simp_all add: kept_def)
  have "\<exists>d st'. (if to_write (fs_enable_rewrite ?st1) ?c3 then write_chunk cfg ?c3 ?st1 else Inr (?c3, ?st1)) = Inr (d, st') \<and>
      placed cfg D ?c3 ?st1 d st' \<and> fs_ra st' = fs_ra ?st1"
    by (rule place_ok [OF _ cfg kept_data [OF 3(1) c]])
      (use ok cnt 3(2) rdy in \<open>simp_all add: cg k3 chunk_ready_def\<close>)
  then obtain d st2 where
    4: "(if to_write (fs_enable_rewrite ?st1) ?c3 then write_chunk cfg ?c3 ?st1 else Inr (?c3, ?st1)) = Inr (d, st2)"
      "placed cfg D ?c3 st d st2" "fs_ra st2 = fs_ra st" unfolding cg by blast
  have inv2: "store_inv (fc_sim cfg) D st2" "holds st2 (ck_id d) (ck_fp c)" "ra_ok (fs_ra st2)"
    using 4(2) by (simp_all add: placed_def f_ok_def k3)
  then have id: "0 \<le> ck_id d" using holds_nonneg by blast
  from ra_update_ok [OF inv2(3) id, of "dquot cfg" "ck_size d"] obtain ra where
    5: "restore_aware_update (dquot cfg) (ck_id d) (ck_size d) (fs_ra st2) = Inr ra" "ra_ok ra" by blast
  let ?st3 = "st2\<lparr>fs_har := har_monitor_update (ck_id d) (ck_size d) (fs_har st2), fs_ra := ra\<rparr>"
  have "ck_id d \<noteq> TEMPORARY_ID" using id by (auto simp: TEMPORARY_ID_def)
  then have "filter_chunk cfg c st = Inr (d, ?st3)"
    using nm 1(1) 2(1) 4(1) 5(1) by (simp add: filter_chunk_def is_file_mark_def Let_def)
  moreover have "placed cfg D c st d ?st3"
  proof -
    note pc = pool_cb_cong [of ?st3 st2, simplified]
    have "f_ok cfg D ?st3" using 4(2) 5(2) pc by (simp add: placed_def f_ok_def chunks20_def tables_sound_def)
    moreover have "f_ext st ?st3" using 4(2) pc by (simp add: placed_def f_ext_def)
    ultimately show ?thesis using 4(2) pc kept_trans [OF 3(1)] by (simp add: placed_def k3)
  qed
  ultimately show ?thesis by blast
qed

subsection \<open>The chunks of a segment\<close>

fun seg_ready :: "filter_cfg \<Rightarrow> fingerprint set \<Rightarrow> fingerprint set \<Rightarrow> chunk list \<Rightarrow> bool" where
  "seg_ready cfg K U [] \<longleftrightarrow> True"
| "seg_ready cfg K U (c # cs) \<longleftrightarrow>
     (if is_file_mark c then seg_ready cfg K U cs
      else (\<not> CHECK_CHUNK c CHUNK_DUPLICATE \<longrightarrow> ck_fp c \<notin> K) \<and>
        (CHECK_CHUNK c CHUNK_DUPLICATE \<and> ck_id c = TEMPORARY_ID \<longrightarrow> ck_fp c \<in> U) \<and>
        (index_category0 (fc_ix cfg) = INDEX_CATEGORY_EXACT \<and> fc_no_rewrite cfg \<longrightarrow>
          \<not> CHECK_CHUNK c CHUNK_SPARSE \<and> \<not> CHECK_CHUNK c CHUNK_OUT_OF_ORDER) \<and>
        seg_ready cfg (insert (ck_fp c) K) (if CHECK_CHUNK c CHUNK_DUPLICATE then U else insert (ck_fp c) U) cs)"

lemma seg_ready_mono: "seg_ready cfg K U cs \<Longrightarrow> K' \<subseteq> K \<Longrightarrow> U \<subseteq> U' \<Longrightarrow> seg_ready cfg K' U' cs"
proof (induction cs arbitrary: K U K' U')
  case (Cons c cs)
  show ?case
  proof (cases "is_file_mark c")
    case True
    with Cons show ?thesis by simp
  next
    case False
    with Cons.prems have r: "seg_ready cfg (insert (ck_fp c) K) (if CHECK_CHUNK c CHUNK_DUPLICATE then U else insert (ck_fp c) U) cs"
      by simp
    have "seg_ready cfg (insert (ck_fp c) K') (if CHECK_CHUNK c CHUNK_DUPLICATE then U' else insert (ck_fp c) U') cs"
      by (rule Cons.IH [OF r]) (use Cons.prems(2,3) in auto)
    with Cons.prems False show ?thesis by auto
  qed
qed simp

lemma located_mono: "located g c \<Longrightarrow> (\<And>i f. g i f \<Longrightarrow> h i f) \<Longrightarrow> located h c"
  by (auto simp: located_def)

definition chunks_placed :: "filter_cfg \<Rightarrow> (fingerprint \<Rightarrow> byte list) \<Rightarrow> chunk list \<Rightarrow> filter_state \<Rightarrow> chunk list \<Rightarrow> filter_state \<Rightarrow> bool" where
  "chunks_placed cfg D cs st cs' st' \<longleftrightarrow> list_all2 (\<lambda>c d. kept c d \<and> (is_file_mark c \<longrightarrow> d = c)) cs cs' \<and> f_ok cfg D st' \<and> f_ext st st' \<and>
     (\<forall>c\<in>set cs'. \<not> is_file_mark c \<longrightarrow> holds st' (ck_id c) (ck_fp c)) \<and>
     cb_keys st' \<subseteq> cb_keys st \<union> set (data_fps cs) \<and> ps_count (fs_pool st') \<le> ps_count (fs_pool st) + int (length cs)"

lemma filter_chunks_ok:
  assumes "cfg_ok cfg"
  shows "f_ok cfg D st \<Longrightarrow> \<forall>c\<in>set cs. \<not> is_file_mark c \<longrightarrow> data_ok D c \<and> located (holds st) c \<Longrightarrow>
     seg_ready cfg (cb_keys st) (fst ` set (fs_unique st)) cs \<Longrightarrow> ps_count (fs_pool st) + int (length cs) < 2 ^ 40 \<Longrightarrow>
     \<exists>cs' st'. filter_chunks cfg cs st = Inr (cs', st') \<and> chunks_placed cfg D cs st cs' st'"
proof (induction cs arbitrary: st)
  case Nil
  then show ?case by (simp add: chunks_placed_def f_ext_refl)
next
  case (Cons c cs)
  show ?case
  proof (cases "is_file_mark c")
    case True
    then have 1: "filter_chunk cfg c st = Inr (c, st)" by (simp add: filter_chunk_def is_file_mark_def)
    from Cons.IH [of st] Cons.prems True obtain cs' st' where
      2: "filter_chunks cfg cs st = Inr (cs', st')" "chunks_placed cfg D cs st cs' st'" by auto
    have "data_fps (c # cs) = data_fps cs" using True by (simp add: data_fps_def)
    with 1 2 True show ?thesis by (auto simp: chunks_placed_def kept_refl)
  next
    case False
    from Cons.prems False have rdy: "chunk_ready cfg st c" and c: "data_ok D c" by (simp_all add: chunk_ready_def)
    from filter_chunk_ok [OF Cons.prems(1) assms c False _ rdy] Cons.prems(4) obtain c' st1 where
      1: "filter_chunk cfg c st = Inr (c', st1)" "placed cfg D c st c' st1" by auto
    from 1(2) have p: "f_ok cfg D st1" "f_ext st st1" "cb_keys st1 \<subseteq> insert (ck_fp c) (cb_keys st)" "kept c c'"
      "holds st1 (ck_id c') (ck_fp c)" "ps_count (fs_pool st1) \<le> ps_count (fs_pool st) + 1"
      "\<not> CHECK_CHUNK c CHUNK_DUPLICATE \<longrightarrow> ck_fp c \<in> fst ` set (fs_unique st1)" by (simp_all add: placed_def)
    have mono: "holds st1 i f" if "holds st i f" for i f using p(2) that by (simp add: f_ext_def)
    have a: "\<forall>c\<in>set cs. \<not> is_file_mark c \<longrightarrow> data_ok D c \<and> located (holds st1) c"
      using Cons.prems(2) mono by (auto intro: located_mono)
    from Cons.prems(3) False have "seg_ready cfg (insert (ck_fp c) (cb_keys st))
        (if CHECK_CHUNK c CHUNK_DUPLICATE then fst ` set (fs_unique st) else insert (ck_fp c) (fst ` set (fs_unique st))) cs" by simp
    then have b: "seg_ready cfg (cb_keys st1) (fst ` set (fs_unique st1)) cs"
      by (rule seg_ready_mono) (use p(2,3,7) in \<open>auto simp: f_ext_def\<close>)
    have "ps_count (fs_pool st1) + int (length cs) < 2 ^ 40" using Cons.prems(4) p(6) by simp
    from Cons.IH [OF p(1) a b this] obtain cs' st' where
      2: "filter_chunks cfg cs st1 = Inr (cs', st')" "chunks_placed cfg D cs st1 cs' st'" by blast
    have m2: "holds st' i f" if "holds st1 i f" for i f using 2(2) that by (simp add: chunks_placed_def f_ext_def)
    have fp: "ck_fp c' = ck_fp c" using p(4) by (simp add: kept_def)
    have "data_fps (c # cs) = ck_fp c # data_fps cs" using False by (simp add: data_fps_def)
    then have "chunks_placed cfg D (c # cs) st (c' # cs') st'"
      using 2(2) p f_ext_trans [OF p(2)] m2 [OF p(5)] False unfolding chunks_placed_def fp [symmetric]
      by (auto simp: fp)
    with 1(1) 2(1) show ?thesis by auto
  qed
qed

end
