(* ===== verification/Recipe_Laws.thy ===== *)
theory Recipe_Laws
  imports Recipe_Store
begin

text \<open>
  A backup version being written, as a whole. \<open>ver_rep\<close> relates the version to the segments finished so
  far, the segment being written (its announced size and its pointers) and the files recorded; each operation of the
  recipe store moves it as its name says. Closing the version puts exactly that on disk, and opening it again reads it back.
\<close>

definition ver_rep :: "bool \<Rightarrow> backupVersion \<Rightarrow> int \<Rightarrow> chunkPointer list list \<Rightarrow> (nat \<times> chunkPointer list) option \<Rightarrow>
    fileRecipeMeta list \<Rightarrow> bool" where
  "ver_rep be b acc segs op rs \<longleftrightarrow>
     (let cps = concat segs @ (case op of None \<Rightarrow> [] | Some (n, cps) \<Rightarrow> cps) in
      meta_rep be b rs \<and> rec_rep be b acc (map cp_id cps) \<and> bv_number_of_chunks b = int (length cps)) \<and>
     st_writable (recipe_fp b) \<and> st_file (recipe_fp b) = concat (map (enc_segment be) segs) \<and>
     (case op of None \<Rightarrow> True | Some (n, cps) \<Rightarrow> seg_len_ok (int n) \<and> length cps \<le> n \<and> list_all cp_ok cps \<and>
        seg_writing b (enc_cp be (seg_flag SEG_START (int n)) @ concat (map (enc_cp be) cps)) (64 + n * 32))"

definition same_head :: "backupVersion \<Rightarrow> backupVersion \<Rightarrow> bool" where
  "same_head b b' \<longleftrightarrow> bv_num b' = bv_num b \<and> bv_path b' = bv_path b \<and> bv_deleted b' = bv_deleted b"

lemma same_head_trans: "same_head a b \<Longrightarrow> same_head b c \<Longrightarrow> same_head a c"
  by (simp add: same_head_def)

lemma ver_repD:
  assumes "ver_rep be b acc segs None rs"
  shows "meta_rep be b rs" "rec_rep be b acc (map cp_id (concat segs))" "bv_number_of_chunks b = int (length (concat segs))"
    "st_writable (recipe_fp b)" "st_file (recipe_fp b) = concat (map (enc_segment be) segs)"
    "bv_number_of_files b = int (length rs)"
  using assms unfolding ver_rep_def Let_def meta_rep_def by simp_all

lemma ver_create:
  assumes "create_backup_version be path cnt = Inr (b, cnt')"
  shows "ver_rep be b TEMPORARY_ID [] None [] \<and> bv_num b = cnt \<and> cnt' = cnt + 1"
  using meta_rep_create [OF assms] by (simp add: ver_rep_def)

lemma ver_open:
  assumes "ver_rep be b acc segs None rs" and "seg_len_ok (int n)"
  shows "\<exists>b'. append_segment_flag be b SEG_START (int n) =
       Inr (make_segment_id (bv_num b) (int (length (st_file (recipe_fp b)))) (int n), b') \<and>
     ver_rep be b' acc segs (Some (n, [])) rs \<and> same_head b b'"
proof -
  let ?s = "seg_flag SEG_START (int n)"
  let ?b0 = "b\<lparr>recipe_fp := (recipe_fp b)\<lparr>st_pos := length (st_file (recipe_fp b))\<rparr>,
      segmentlen := int (64 + n * 32), segmentbuf := Some [], segmentbufoff := 0\<rparr>"
  let ?b1 = "?b0\<lparr>segmentbuf := Some ([] @ enc_cp be ?s), segmentbufoff := int (length ([] @ enc_cp be ?s))\<rparr>"
  have ok: "cp_ok ?s" using seg_len_okD [OF assms(2)] by (auto intro: seg_flag_ok)
  have m: "c_int (64 + int n * 32) = int (64 + n * 32)" "in32 (int (64 + n * 32))" "\<not> int (64 + n * 32) < 0"
    using assms(2) by (simp_all add: seg_len_ok_def algebra_simps)
  have "put_pointer be ?s ?b0 = Inr ?b1"
    by (rule put_pointer_ok [where n = "64 + n * 32"]) (use ok m in \<open>auto simp: seg_writing_def\<close>)
  then have "append_segment_flag be b SEG_START (int n) =
      Inr (make_segment_id (bv_num b) (int (length (st_file (recipe_fp b)))) (int n), ?b1)"
    using m by (simp add: append_segment_flag_def Let_def seg_flag_def cfg_simps)
  moreover have "ver_rep be ?b1 acc segs (Some (n, [])) rs"
    using assms m by (simp add: ver_rep_def meta_rep_def rec_rep_def seg_writing_def enc_cp_def)
  moreover have "same_head b ?b1" by (simp add: same_head_def)
  ultimately show ?thesis by blast
qed

lemma put_pointer_frame:
  assumes "put_pointer be cp b = Inr b'"
  shows "\<exists>buf n. b' = b\<lparr>segmentbuf := buf, segmentbufoff := n\<rparr>"
proof -
  have one: "\<exists>buf n. b' = b\<lparr>segmentbuf := buf, segmentbufoff := n\<rparr>" if "put_segment bs b = Inr b'" for bs b b'
    using that by (auto simp: put_segment_def rbind_Inr_iff split: option.splits if_splits)
  from assms obtain b1 b2 where 1: "put_segment (cp_fp cp) b = Inr b1" "put_segment (host_bytes be 8 (i64 (cp_id cp))) b1 = Inr b2"
    "put_segment (host_bytes be 4 (i32 (cp_size cp))) b2 = Inr b'"
    by (auto simp: put_pointer_def rbind_Inr_iff)
  from one [OF 1(1)] one [OF 1(2)] one [OF 1(3)] show ?thesis by (elim exE) (simp, blast)
qed

lemma append_pointer_frame:
  assumes "append_chunk_pointer be cp (b, acc) = Inr (b', acc')"
  shows "metadata_fp b' = metadata_fp b \<and> metabuf b' = metabuf b \<and> metabufoff b' = metabufoff b \<and>
     bv_number_of_files b' = bv_number_of_files b \<and> same_head b b'"
  using assms by (auto simp: same_head_def append_chunk_pointer_def flush_recordbuf_def rbind_Inr_iff
      c_assert_Inr_iff dest!: put_pointer_frame split: if_splits option.splits)

lemma meta_rep_cong:
  assumes "meta_rep be b rs" "metadata_fp b' = metadata_fp b" "metabuf b' = metabuf b" "metabufoff b' = metabufoff b"
    "bv_number_of_files b' = bv_number_of_files b" "bv_path b' = bv_path b"
  shows "meta_rep be b' rs"
  using assms by (simp add: meta_rep_def)

lemma rec_rep_cong:
  assumes "rec_rep be b acc ids" "recordbuf b' = recordbuf b" "recordbufoff b' = recordbufoff b" "record_fp b' = record_fp b"
  shows "rec_rep be b' acc ids"
  using assms by (simp add: rec_rep_def)

lemma ver_pointer:
  assumes r: "ver_rep be b acc segs (Some (n, cps)) rs" and n: "length cps < n" and cp: "cp_ok cp" "cp_id cp \<noteq> TEMPORARY_ID"
  shows "\<exists>b'. append_chunk_pointer be cp (b, acc) = Inr (b', cp_id cp) \<and>
     ver_rep be b' (cp_id cp) segs (Some (n, cps @ [cp])) rs \<and> same_head b b'"
proof -
  let ?buf = "enc_cp be (seg_flag SEG_START (int n)) @ concat (map (enc_cp be) cps)"
  from r have v: "meta_rep be b rs" "rec_rep be b acc (map cp_id (concat segs @ cps))"
    "bv_number_of_chunks b = int (length (concat segs @ cps))" "st_writable (recipe_fp b)"
    "st_file (recipe_fp b) = concat (map (enc_segment be) segs)" "seg_len_ok (int n)" "list_all cp_ok cps"
    "seg_writing b ?buf (64 + n * 32)" by (simp_all add: ver_rep_def)
  have "cp_ok (seg_flag SEG_START (int n))" using seg_len_okD [OF v(6)] by (auto intro: seg_flag_ok simp: in32_def)
  then have "length ?buf + 32 \<le> 64 + n * 32" using n v(7) by (simp add: length_enc_cp length_enc_cps)
  from append_pointer_ok [OF v(2,8) this cp] obtain b' where
    1: "append_chunk_pointer be cp (b, acc) = Inr (b', cp_id cp)" "rec_rep be b' (cp_id cp) (map cp_id (concat segs @ cps) @ [cp_id cp])"
      "seg_writing b' (?buf @ enc_cp be cp) (64 + n * 32)" "bv_number_of_chunks b' = bv_number_of_chunks b + 1"
      "recipe_fp b' = recipe_fp b" "bv_num b' = bv_num b" by blast
  note fr = append_pointer_frame [OF 1(1)]
  have "meta_rep be b' rs" using fr by (auto simp: same_head_def intro: meta_rep_cong [OF v(1)])
  with 1 v n cp have "ver_rep be b' (cp_id cp) segs (Some (n, cps @ [cp])) rs" by (simp add: ver_rep_def)
  with 1(1) fr show ?thesis by blast
qed

lemma ver_file:
  assumes r: "ver_rep be b acc segs op rs" and f: "20 + length (fr_filename r) \<le> metabufsize"
  shows "\<exists>b'. append_file_recipe_meta be b r = Inr b' \<and> ver_rep be b' acc segs op (rs @ [r]) \<and> same_head b b'"
proof -
  from r have "meta_rep be b rs" by (simp add: ver_rep_def Let_def)
  from append_meta_ok [OF this f] obtain b' where
    1: "append_file_recipe_meta be b r = Inr b'" "meta_rep be b' (rs @ [r])" "same_but_meta b b'" by blast
  have "rec_rep be b' acc ids = rec_rep be b acc ids" "seg_writing b' buf k = seg_writing b buf k" for ids buf k
    using 1(3) by (simp_all add: same_but_meta_def rec_rep_def seg_writing_def)
  with r 1(2,3) have "ver_rep be b' acc segs op (rs @ [r])"
    by (auto simp: ver_rep_def same_but_meta_def Let_def split: option.splits)
  with 1(1,3) show ?thesis by (auto simp: same_but_meta_def same_head_def)
qed

lemma ver_close:
  assumes r: "ver_rep be b acc segs (Some (length cps, cps)) rs"
  shows "\<exists>b'. append_segment_flag be b SEG_END 0 = Inr (TEMPORARY_ID, b') \<and>
     ver_rep be b' acc (segs @ [cps]) None rs \<and> same_head b b'"
proof -
  let ?n = "64 + length cps * 32" and ?e = "seg_flag SEG_END 0"
  let ?h = "enc_cp be (seg_flag SEG_START (int (length cps))) @ concat (map (enc_cp be) cps)"
  from r have v: "meta_rep be b rs" "rec_rep be b acc (map cp_id (concat segs @ cps))"
    "bv_number_of_chunks b = int (length (concat segs @ cps))" "st_writable (recipe_fp b)"
    "st_file (recipe_fp b) = concat (map (enc_segment be) segs)" "seg_len_ok (int (length cps))" "list_all cp_ok cps"
    "seg_writing b ?h ?n" by (simp_all add: ver_rep_def)
  have ok: "cp_ok (seg_flag SEG_START (int (length cps)))" "cp_ok ?e" using seg_len_okD [OF v(6)] by (auto intro: seg_flag_ok simp: in32_def)
  let ?buf = "?h @ enc_cp be ?e"
  let ?b2 = "b\<lparr>recipe_fp := (recipe_fp b)\<lparr>st_pos := length (st_file (recipe_fp b))\<rparr>\<rparr>"
  have len: "length ?buf = ?n" using ok v(7) by (simp add: length_enc_cp length_enc_cps)
  have "put_pointer be ?e ?b2 = Inr (?b2\<lparr>segmentbuf := Some ?buf, segmentbufoff := int (length ?buf)\<rparr>)"
    by (rule put_pointer_ok [where n = ?n]) (use v(8) len ok in \<open>auto simp: seg_writing_def length_enc_cp\<close>)
  moreover have "peek 0 (nat (segmentlen b)) ?buf = Inr ?buf" using v(8) len by (simp add: peek_def seg_writing_def)
  ultimately have 3: "append_segment_flag be b SEG_END 0 = Inr (TEMPORARY_ID,
      (?b2\<lparr>segmentbuf := None, segmentbufoff := int (length ?buf), recipe_fp := fwrite ?buf (recipe_fp ?b2), segmentlen := 0\<rparr>))"
    by (simp add: append_segment_flag_def Let_def seg_flag_def cfg_simps)
  let ?b3 = "?b2\<lparr>segmentbuf := None, segmentbufoff := int (length ?buf), recipe_fp := fwrite ?buf (recipe_fp ?b2), segmentlen := 0\<rparr>"
  have "rec_rep be ?b3 acc (map cp_id (concat segs @ cps))" by (rule rec_rep_cong [OF v(2)]) simp_all
  moreover have "meta_rep be ?b3 rs" by (rule meta_rep_cong [OF v(1)]) simp_all
  moreover have "appending (recipe_fp ?b2)" using v(4) by (simp add: appending_def)
  note fw = fwrite_append [OF this, of ?buf]
  have "st_file (recipe_fp ?b3) = concat (map (enc_segment be) (segs @ [cps]))" "st_writable (recipe_fp ?b3)"
    using fw v(5) by (simp_all add: enc_segment_def appending_def)
  ultimately have "ver_rep be ?b3 acc (segs @ [cps]) None rs" using v(3) by (simp add: ver_rep_def)
  moreover have "same_head b ?b3" by (simp add: same_head_def)
  ultimately show ?thesis unfolding 3 by blast
qed

subsection \<open>Closing and reading back\<close>

definition bv_ok :: "backupVersion \<Rightarrow> bool" where
  "bv_ok b \<longleftrightarrow> in32 (bv_num b) \<and> in32 (bv_deleted b) \<and> in64 (bv_number_of_files b) \<and> in64 (bv_number_of_chunks b) \<and>
     in32 (int (length (bv_path b))) \<and> 0 \<notin> set (bv_path b)"

text \<open>The pointers and flags of a segment, in the order they stand in the file.\<close>

definition seg_items :: "chunkPointer list \<Rightarrow> chunkPointer list" where
  "seg_items cps = seg_flag SEG_START (int (length cps)) # cps @ [seg_flag SEG_END 0]"

lemma enc_items: "enc_segment be cps = concat (map (enc_cp be) (seg_items cps))"
  by (simp add: enc_segment_def seg_items_def)

lemma enc_all_items: "concat (map (enc_segment be) segs) = concat (map (enc_cp be) (concat (map seg_items segs)))"
  by (induction segs) (simp_all add: enc_items)

lemma items_pointers:
  assumes "list_all seg_ok segs"
  shows "filter (\<lambda>cp. \<not> is_flag cp) (concat (map seg_items segs)) = concat segs \<and> list_all cp_ok (concat (map seg_items segs))"
  using assms
proof (induction segs)
  case (Cons cps segs)
  have "filter (\<lambda>cp. \<not> is_flag cp) cps = cps"
    using Cons.prems by (auto simp: seg_ok_def seg_cp_ok_def is_flag_def list_all_iff cfg_simps intro!: filter_True)
  moreover have "cp_ok (seg_flag SEG_START (int (length cps)))" "cp_ok (seg_flag SEG_END 0)" "list_all cp_ok cps"
    using Cons.prems seg_ok_cps by (auto intro!: seg_flag_ok simp: seg_ok_def in32_def)
  moreover have "is_flag (seg_flag SEG_START n)" "is_flag (seg_flag SEG_END n)" for n
    by (simp_all add: is_flag_def seg_flag_def)
  ultimately show ?case using Cons by (simp add: seg_items_def)
qed simp

lemma ver_save:
  assumes r: "ver_rep be b acc segs None rs" and segs: "list_all seg_ok segs" and bv: "bv_ok b"
  shows "\<exists>b'. update_backup_version be acc b = Inr (b', TEMPORARY_ID) \<and>
     st_file (metadata_fp b') = enc_header be b @ concat (map (enc_meta be) rs) \<and>
     st_file (recipe_fp b') = concat (map (enc_cp be) (concat (map seg_items segs))) \<and>
     st_file (record_fp b') = concat (map (enc_id be) (remdups_adj (map cp_id (concat segs)) @ [TEMPORARY_ID]))"
proof -
  have "list_all in64 (map cp_id (concat segs))"
    using segs by (auto simp: list_all_iff seg_ok_def seg_cp_ok_def cp_ok_def)
  from update_version_ok [OF ver_repD(1,2) [OF r] this] obtain b' where
    1: "update_backup_version be acc b = Inr (b', TEMPORARY_ID)" "st_file (metadata_fp b') = enc_header be b @ concat (map (enc_meta be) rs)"
     "st_file (record_fp b') = concat (map (enc_id be) (remdups_adj (map cp_id (concat segs)) @ [TEMPORARY_ID]))"
     "recipe_fp b' = recipe_fp b" by blast
  from 1(4) have "st_file (recipe_fp b') = concat (map (enc_cp be) (concat (map seg_items segs)))"
    using ver_repD(5) [OF r] by (simp only: enc_all_items)
  with 1(1-3) show ?thesis by blast
qed

lemma ver_reopen:
  assumes r: "ver_rep be b acc segs None rs" and segs: "list_all seg_ok segs" and fr: "list_all fr_ok rs" and bv: "bv_ok b"
    and upd: "update_backup_version be acc b = Inr (b', acc')"
    and dir: "dir (bv_num b) = Some (st_file (metadata_fp b'), st_file (recipe_fp b'), st_file (record_fp b'))"
  shows "\<exists>b2. open_backup_version be junk dir (bv_num b) = Inr b2 \<and> bv_num b2 = bv_num b \<and> bv_deleted b2 = bv_deleted b \<and>
     bv_number_of_files b2 = int (length rs) \<and> bv_number_of_chunks b2 = int (length (concat segs)) \<and> bv_path b2 = bv_path b \<and>
     srest (metadata_fp b2) = concat (map (enc_meta be) rs) \<and> swf (metadata_fp b2) \<and>
     recipe_fp b2 = \<lparr>st_file = concat (map (enc_cp be) (concat (map seg_items segs))), st_pos = 0, st_writable = False\<rparr> \<and>
     record_fp b2 = \<lparr>st_file = concat (map (enc_id be) (remdups_adj (map cp_id (concat segs)) @ [TEMPORARY_ID])), st_pos = 0, st_writable = False\<rparr>"
proof -
  from ver_save [OF r segs bv] upd have f: "st_file (metadata_fp b') = enc_header be b @ concat (map (enc_meta be) rs)"
     "st_file (recipe_fp b') = concat (map (enc_cp be) (concat (map seg_items segs)))"
     "st_file (record_fp b') = concat (map (enc_id be) (remdups_adj (map cp_id (concat segs)) @ [TEMPORARY_ID]))" by auto
  have n: "bv_number_of_files b = int (length rs)" "bv_number_of_chunks b = int (length (concat segs))"
    by (fact ver_repD(6) [OF r], fact ver_repD(3) [OF r])
  from open_version_ok [where dir = dir and num = "bv_num b" and be = be and b = b and rest = "concat (map (enc_meta be) rs)"
      and rf = "st_file (recipe_fp b')" and cf = "st_file (record_fp b')" and junk = junk] bv n f dir show ?thesis
    unfolding bv_ok_def by auto
qed

lemma read_back:
  assumes "bv_number_of_files b2 = int (length rs)" and "bv_number_of_chunks b2 = int (length (concat segs))"
    and "srest (metadata_fp b2) = concat (map (enc_meta be) rs)" and "swf (metadata_fp b2)"
    and "recipe_fp b2 = \<lparr>st_file = concat (map (enc_cp be) (concat (map seg_items segs))), st_pos = 0, st_writable = False\<rparr>"
    and "list_all seg_ok segs" and "list_all fr_ok rs" and "concat segs \<noteq> []"
  shows "read_metas be junk (length rs) 0 b2 = Inr rs \<and>
     (\<exists>b3. read_next_n_chunk_pointers be junkp b2 (int (length (concat segs))) 0 =
       Some (Some (concat segs), b3, int (length (concat segs))))"
proof -
  have 1: "read_metas be junk (length rs) 0 b2 = Inr rs"
    by (rule read_metas_ok [where rest = "[]"]) (use assms in simp_all)
  note it = items_pointers [OF assms(6)]
  have s: "srest (recipe_fp b2) = concat (map (enc_cp be) (concat (map seg_items segs))) @ []" "swf (recipe_fp b2)"
    by (simp_all add: assms(5) srest_def swf_def)
  from read_pointers_rest [OF s, of "length (concat segs)" junkp "[]"] it obtain s' where
    "read_pointers be junkp [] (length (concat segs)) (recipe_fp b2) = Some (concat segs, s')" by auto
  then have "read_next_n_chunk_pointers be junkp b2 (int (length (concat segs))) 0 =
      Some (Some (concat segs), b2\<lparr>recipe_fp := s'\<rparr>, int (length (concat segs)))"
    using assms(2,8) by (simp add: read_next_n_chunk_pointers_def Let_def)
  with 1 show ?thesis by blast
qed

subsection \<open>A version as the filter phase writes it\<close>

text \<open>A segment of \<open>filter_phase.c\<close>: the start flag with the number of its pointers, the pointers and the
  files that end among them, the end flag. The start flag gives the segment its id.\<close>

datatype recipe_item = Pointer chunkPointer | File_Meta fileRecipeMeta

fun put_item :: "bool \<Rightarrow> recipe_item \<Rightarrow> backupVersion \<times> int \<Rightarrow> (backupVersion \<times> int) res" where
  "put_item be (Pointer cp) s = append_n_chunk_pointers be [cp] 1 s"
| "put_item be (File_Meta r) (b, acc) = rbind (append_file_recipe_meta be b r) (\<lambda>b. Inr (b, acc))"

fun pointers_of :: "recipe_item list \<Rightarrow> chunkPointer list" where
  "pointers_of [] = []"
| "pointers_of (Pointer cp # xs) = cp # pointers_of xs"
| "pointers_of (File_Meta r # xs) = pointers_of xs"

fun files_of :: "recipe_item list \<Rightarrow> fileRecipeMeta list" where
  "files_of [] = []"
| "files_of (Pointer cp # xs) = files_of xs"
| "files_of (File_Meta r # xs) = r # files_of xs"

definition write_segment :: "bool \<Rightarrow> recipe_item list \<Rightarrow> backupVersion \<times> int \<Rightarrow> (segmentid \<times> backupVersion \<times> int) res" where
  "write_segment be xs = (\<lambda>(b, acc).
     rbind (append_segment_flag be b SEG_START (int (length (pointers_of xs)))) (\<lambda>(sid, b).
     rbind (rfold (put_item be) xs (b, acc)) (\<lambda>(b, acc).
     rbind (append_segment_flag be b SEG_END 0) (\<lambda>(_, b). Inr (sid, b, acc)))))"

fun write_segments :: "bool \<Rightarrow> recipe_item list list \<Rightarrow> backupVersion \<times> int \<Rightarrow> (segmentid list \<times> backupVersion \<times> int) res" where
  "write_segments be [] s = Inr ([], s)"
| "write_segments be (xs # xss) s =
     rbind (write_segment be xs s) (\<lambda>(sid, s).
     rbind (write_segments be xss s) (\<lambda>(sids, s). Inr (sid # sids, s)))"

fun recipe_item_ok :: "recipe_item \<Rightarrow> bool" where
  "recipe_item_ok (Pointer cp) = seg_cp_ok cp"
| "recipe_item_ok (File_Meta r) = fr_ok r"

definition recipe_items_ok :: "recipe_item list \<Rightarrow> bool" where
  "recipe_items_ok xs \<longleftrightarrow> list_all recipe_item_ok xs \<and> seg_len_ok (int (length (pointers_of xs)))"

lemma recipe_items_ok_parts:
  assumes "recipe_items_ok xs" shows "seg_ok (pointers_of xs)" "list_all fr_ok (files_of xs)"
proof -
  have "list_all recipe_item_ok xs \<Longrightarrow> list_all seg_cp_ok (pointers_of xs) \<and> list_all fr_ok (files_of xs)"
    by (induction xs rule: pointers_of.induct) simp_all
  with assms show "seg_ok (pointers_of xs)" "list_all fr_ok (files_of xs)" by (simp_all add: recipe_items_ok_def seg_ok_def seg_len_okD)
qed

lemma all_items_ok:
  assumes "list_all recipe_items_ok xss"
  shows "list_all seg_ok (map pointers_of xss)" "list_all fr_ok (concat (map files_of xss))"
  using assms recipe_items_ok_parts by (auto simp: list_all_iff)

lemma put_items_ok:
  assumes "ver_rep be b acc segs (Some (n, cps)) rs" and "length cps + length (pointers_of xs) \<le> n" and "list_all recipe_item_ok xs"
  shows "\<exists>b' acc'. rfold (put_item be) xs (b, acc) = Inr (b', acc') \<and>
     ver_rep be b' acc' segs (Some (n, cps @ pointers_of xs)) (rs @ files_of xs) \<and> same_head b b'"
  using assms
proof (induction xs arbitrary: b acc cps rs)
  case (Cons x xs)
  show ?case
  proof (cases x)
    case (Pointer cp)
    then have cp: "cp_ok cp" "cp_id cp \<noteq> TEMPORARY_ID" "length cps < n"
      using Cons.prems(2,3) by (auto simp: seg_cp_ok_def TEMPORARY_ID_def)
    from ver_pointer [OF Cons.prems(1) cp(3,1,2)] obtain b1 where
      1: "append_chunk_pointer be cp (b, acc) = Inr (b1, cp_id cp)" "ver_rep be b1 (cp_id cp) segs (Some (n, cps @ [cp])) rs"
        "same_head b b1" by blast
    from Cons.IH [OF 1(2)] Cons.prems(2,3) Pointer 1(1) same_head_trans [OF 1(3)] show ?thesis
      by (fastforce simp: append_n_chunk_pointers_def)
  next
    case (File_Meta r)
    then have "20 + length (fr_filename r) \<le> metabufsize" using Cons.prems(3) by (simp add: fr_ok_def)
    from ver_file [OF Cons.prems(1) this] obtain b1 where
      1: "append_file_recipe_meta be b r = Inr b1" "ver_rep be b1 acc segs (Some (n, cps)) (rs @ [r])" "same_head b b1" by blast
    from Cons.IH [OF 1(2)] Cons.prems(2,3) File_Meta 1(1) same_head_trans [OF 1(3)] show ?thesis by fastforce
  qed
qed (simp add: same_head_def)

lemma write_segment_ok:
  assumes "ver_rep be b acc segs None rs" and "recipe_items_ok xs"
  shows "\<exists>b' acc'. write_segment be xs (b, acc) =
       Inr (sr_id (segment_at (bv_num b) (length (concat (map (enc_segment be) segs))) (pointers_of xs)), b', acc') \<and>
     ver_rep be b' acc' (segs @ [pointers_of xs]) None (rs @ files_of xs) \<and> same_head b b'"
proof -
  let ?n = "length (pointers_of xs)"
  have x: "seg_len_ok (int ?n)" "list_all recipe_item_ok xs" using assms(2) by (simp_all add: recipe_items_ok_def)
  from ver_open [OF assms(1) x(1)] obtain b1 where
    1: "append_segment_flag be b SEG_START (int ?n) =
       Inr (sr_id (segment_at (bv_num b) (length (concat (map (enc_segment be) segs))) (pointers_of xs)), b1)"
      "ver_rep be b1 acc segs (Some (?n, [])) rs" "same_head b b1"
    by (auto simp: segment_at_def ver_repD(5) [OF assms(1)])
  from put_items_ok [OF 1(2) _ x(2)] obtain b2 acc2 where
    2: "rfold (put_item be) xs (b1, acc) = Inr (b2, acc2)" "same_head b1 b2"
      "ver_rep be b2 acc2 segs (Some (length (pointers_of xs), pointers_of xs)) (rs @ files_of xs)" by auto
  from ver_close [OF 2(3)] obtain b3 where
    3: "append_segment_flag be b2 SEG_END 0 = Inr (TEMPORARY_ID, b3)"
      "ver_rep be b3 acc2 (segs @ [pointers_of xs]) None (rs @ files_of xs)" "same_head b2 b3" by blast
  have "same_head b b3" using 1(3) 2(2) 3(3) same_head_trans by blast
  with 1(1) 2(1) 3(1,2) show ?thesis by (simp add: write_segment_def)
qed

text \<open>The ids are those of the segments as they stand in the recipe file.\<close>

lemma write_segments_ok:
  assumes "ver_rep be b acc segs None rs" and "list_all recipe_items_ok xss"
  shows "\<exists>b' acc'. write_segments be xss (b, acc) =
       Inr (map sr_id (segments_from (bv_num b) (length (concat (map (enc_segment be) segs))) (map pointers_of xss)), b', acc') \<and>
     ver_rep be b' acc' (segs @ map pointers_of xss) None (rs @ concat (map files_of xss)) \<and> same_head b b'"
  using assms
proof (induction xss arbitrary: b acc segs rs)
  case (Cons xs xss)
  then have xs: "recipe_items_ok xs" "list_all recipe_items_ok xss" by simp_all
  from write_segment_ok [OF Cons.prems(1) xs(1)] obtain b1 acc1 where
    1: "write_segment be xs (b, acc) =
       Inr (sr_id (segment_at (bv_num b) (length (concat (map (enc_segment be) segs))) (pointers_of xs)), b1, acc1)"
      "ver_rep be b1 acc1 (segs @ [pointers_of xs]) None (rs @ files_of xs)" "same_head b b1" by blast
  have l: "length (concat (map (enc_segment be) (segs @ [pointers_of xs]))) =
      length (concat (map (enc_segment be) segs)) + 32 * (length (pointers_of xs) + 2)"
    using length_enc_segment [OF recipe_items_ok_parts(1) [OF xs(1)]] by simp
  from Cons.IH [OF 1(2) xs(2)] obtain b2 acc2 where
    2: "write_segments be xss (b1, acc1) = Inr (map sr_id (segments_from (bv_num b1)
         (length (concat (map (enc_segment be) segs)) + 32 * (length (pointers_of xs) + 2)) (map pointers_of xss)), b2, acc2)"
      "ver_rep be b2 acc2 ((segs @ [pointers_of xs]) @ map pointers_of xss) None
        ((rs @ files_of xs) @ concat (map files_of xss))" "same_head b1 b2" unfolding l by blast
  have "bv_num b1 = bv_num b" "same_head b b2" using 1(3) 2(3) by (simp_all add: same_head_def)
  with 1(1) 2(1,2) show ?case by simp
qed (simp add: same_head_def)

text \<open>What the theorems ask of a version: pointers and names that fit the fields of the file.\<close>

definition version_items :: "byte list \<Rightarrow> int \<Rightarrow> recipe_item list list \<Rightarrow> bool" where
  "version_items path cnt xss \<longleftrightarrow> 47 \<in> set path \<and> 0 \<notin> set path \<and> in32 (int (length path)) \<and> in32 cnt \<and> list_all recipe_items_ok xss \<and>
     in64 (int (length (concat (map pointers_of xss)))) \<and> in64 (int (length (concat (map files_of xss))))"

lemma create_version:
  assumes "version_items path cnt xss"
  shows "\<exists>b0. create_backup_version be path cnt = Inr (b0, cnt + 1) \<and> bv_num b0 = cnt \<and> bv_deleted b0 = 0 \<and>
     0 \<notin> set (bv_path b0) \<and> in32 (int (length (bv_path b0)))"
proof -
  let ?p = "rev (dropWhile (\<lambda>c. c \<noteq> 47) (rev path))"
  have "set ?p \<subseteq> set path" by (auto dest: set_dropWhileD)
  moreover have "length ?p \<le> length path" using length_dropWhile_le [of _ "rev path"] by simp
  ultimately show ?thesis using assms
    by (auto simp: create_backup_version_def get_next_version_number_def path_dir_def version_items_def Let_def in32_def)
qed

lemma written_version:
  assumes "version_items path cnt xss" and "create_backup_version be path cnt = Inr (b0, cnt')"
  shows "\<exists>b acc. write_segments be xss (b0, TEMPORARY_ID) =
       Inr (map sr_id (segments_from cnt 0 (map pointers_of xss)), b, acc) \<and>
     ver_rep be b acc (map pointers_of xss) None (concat (map files_of xss)) \<and> bv_num b = cnt \<and> bv_ok b \<and>
     bv_path b = bv_path b0 \<and> bv_deleted b = 0 \<and> cnt' = cnt + 1"
proof -
  note v0 = ver_create [OF assms(2)]
  from create_version [OF assms(1), of be] assms(2) have h: "bv_deleted b0 = 0" "0 \<notin> set (bv_path b0)" "in32 (int (length (bv_path b0)))"
    by auto
  from write_segments_ok [OF v0 [THEN conjunct1]] assms(1) v0 obtain b acc where
    b: "write_segments be xss (b0, TEMPORARY_ID) = Inr (map sr_id (segments_from cnt 0 (map pointers_of xss)), b, acc)"
      "ver_rep be b acc (map pointers_of xss) None (concat (map files_of xss))" "same_head b0 b"
    by (fastforce simp: version_items_def)
  have "bv_ok b"
    using ver_repD(3,6) [OF b(2)] b(3) h assms(1) v0 by (simp add: bv_ok_def same_head_def version_items_def in32_def)
  with b v0 h show ?thesis by (auto simp: same_head_def)
qed

definition version_files :: "backupVersion \<Rightarrow> byte list \<times> byte list \<times> byte list" where
  "version_files b = (st_file (metadata_fp b), st_file (recipe_fp b), st_file (record_fp b))"

subsection \<open>Properties\<close>

text \<open>C21: a backup version written through the recipe store gives back the file list and every chunk pointer, in
  order and with the segment flags skipped, when it is opened again. Writing is \<open>create_backup_version\<close>, for each segment
  the start flag, one call of \<open>append_n_chunk_pointers\<close> per pointer and of \<open>append_file_recipe_meta\<close> per file, in
  any interleaving, and the end flag (\<open>write_segments\<close>), then \<open>update_backup_version\<close>. None of
  these calls fails. Sizes, ids and names must fit the fields they are written to, and the buffer of a segment an \<open>int\<close>.\<close>

theorem version_roundtrip:
  assumes "version_items path cnt xss" and "concat (map pointers_of xss) \<noteq> []"
  shows "\<exists>b0 sids b acc b' b2 b3. create_backup_version be path cnt = Inr (b0, cnt + 1) \<and>
     write_segments be xss (b0, TEMPORARY_ID) = Inr (sids, b, acc) \<and> update_backup_version be acc b = Inr (b', TEMPORARY_ID) \<and>
     open_backup_version be junk (dir(cnt \<mapsto> version_files b')) cnt = Inr b2 \<and> bv_path b2 = bv_path b0 \<and> bv_deleted b2 = 0 \<and>
     bv_number_of_files b2 = int (length (concat (map files_of xss))) \<and>
     bv_number_of_chunks b2 = int (length (concat (map pointers_of xss))) \<and>
     read_metas be junk (length (concat (map files_of xss))) 0 b2 = Inr (concat (map files_of xss)) \<and>
     read_next_n_chunk_pointers be junkp b2 (int (length (concat (map pointers_of xss)))) 0 =
       Some (Some (concat (map pointers_of xss)), b3, int (length (concat (map pointers_of xss))))"
proof -
  let ?segs = "map pointers_of xss" and ?rs = "concat (map files_of xss)"
  from create_version [OF assms(1), of be] obtain b0 where b0: "create_backup_version be path cnt = Inr (b0, cnt + 1)" by blast
  from written_version [OF assms(1) b0] obtain sids b acc where
    b: "write_segments be xss (b0, TEMPORARY_ID) = Inr (sids, b, acc)" "ver_rep be b acc ?segs None ?rs" "bv_num b = cnt" "bv_ok b"
      "bv_path b = bv_path b0" "bv_deleted b = 0" by blast
  have ok: "list_all seg_ok ?segs" "list_all fr_ok ?rs" using assms(1) all_items_ok by (auto simp: version_items_def)
  from ver_save [OF b(2) ok(1) b(4)] obtain b' where u: "update_backup_version be acc b = Inr (b', TEMPORARY_ID)" by blast
  have d: "(dir(cnt \<mapsto> version_files b')) (bv_num b) = Some (st_file (metadata_fp b'), st_file (recipe_fp b'), st_file (record_fp b'))"
    by (simp add: b(3) version_files_def)
  from ver_reopen [where dir = "dir(cnt \<mapsto> version_files b')" and b' = b' and junk = junk, OF b(2) ok b(4) u d] obtain b2 where
    o: "open_backup_version be junk (dir(cnt \<mapsto> version_files b')) cnt = Inr b2" "bv_deleted b2 = 0" "bv_path b2 = bv_path b0"
      "bv_number_of_files b2 = int (length ?rs)" "bv_number_of_chunks b2 = int (length (concat ?segs))"
      "srest (metadata_fp b2) = concat (map (enc_meta be) ?rs)" "swf (metadata_fp b2)"
      "recipe_fp b2 = \<lparr>st_file = concat (map (enc_cp be) (concat (map seg_items ?segs))), st_pos = 0, st_writable = False\<rparr>"
    by (auto simp: b(3,5,6))
  from read_back [OF o(4-8) ok assms(2), of junk junkp] obtain b3 where
    "read_metas be junk (length ?rs) 0 b2 = Inr ?rs"
    "read_next_n_chunk_pointers be junkp b2 (int (length (concat ?segs))) 0 = Some (Some (concat ?segs), b3, int (length (concat ?segs)))"
    by blast
  with b0 b(1) u o(1-5) show ?thesis by blast
qed

text \<open>What prefetching from the \<open>k\<close>-th id gives: the segments from there on, each with the id the store gave it
  and its pointers by fingerprint.\<close>

definition stored_segments :: "segmentid list \<Rightarrow> recipe_item list list \<Rightarrow> segmentRecipe list" where
  "stored_segments sids xss = map2 (\<lambda>sid xs. \<lparr>sr_id = sid, sr_kvpairs = kv_of (pointers_of xs) []\<rparr>) sids xss"

lemma length_segments_from [simp]: "length (segments_from num off segs) = length segs"
  by (induction segs arbitrary: off) simp_all

lemma stored_segments_from:
  "stored_segments (map sr_id (segments_from num off (map pointers_of xss))) xss = segments_from num off (map pointers_of xss)"
  by (induction xss arbitrary: off) (simp_all add: stored_segments_def segment_at_def)

lemma drop_segments_from:
  assumes "k < length xss" and "list_all seg_ok (map pointers_of xss)"
  shows "drop k (segments_from num off (map pointers_of xss)) =
     segments_from num (off + length (concat (map (enc_segment be) (take k (map pointers_of xss))))) (map pointers_of (drop k xss))"
  using assms
proof (induction xss arbitrary: k off)
  case (Cons xs xss)
  show ?case
  proof (cases k)
    case (Suc j)
    with Cons have "drop j (segments_from num (off + 32 * (length (pointers_of xs) + 2)) (map pointers_of xss)) =
        segments_from num (off + 32 * (length (pointers_of xs) + 2) +
          length (concat (map (enc_segment be) (take j (map pointers_of xss))))) (map pointers_of (drop j xss))" by simp
    moreover have "length (enc_segment be (pointers_of xs)) = 32 * (length (pointers_of xs) + 2)"
      using Cons.prems(2) by (simp add: length_enc_segment)
    ultimately show ?thesis using Suc by (simp add: algebra_simps del: length_concat)
  qed simp
qed simp

lemma prefetch_from:
  assumes "list_all seg_ok (map pointers_of xss)" and "k < length xss" and "0 \<le> num" "num < 2 ^ 15"
    and "length (concat (map (enc_segment be) (take k (map pointers_of xss)))) < 2 ^ 32" "length (pointers_of (xss ! k)) < 2 ^ 16"
    and "st_file (recipe_fp b) = concat (map (enc_segment be) (map pointers_of xss))" and "bv_num b = num"
    and "if num = bv_num cur then b = cur else open_backup_version be (cp_id junk) dir num = Inr b"
  shows "prefetch_segments be junk dir cur (sr_id (segments_from num 0 (map pointers_of xss) ! k)) n =
     Inr (take (nat n) (drop k (segments_from num 0 (map pointers_of xss))))"
proof -
  let ?segs = "map pointers_of xss" and ?ps = "pointers_of (xss ! k)"
  let ?off = "length (concat (map (enc_segment be) (take k ?segs)))"
  let ?s = "(recipe_fp b)\<lparr>st_pos := ?off\<rparr>" and ?id = "make_segment_id num (int ?off) (int (length ?ps))"
  have d: "drop k (segments_from num 0 ?segs) = segments_from num ?off (?ps # map pointers_of (drop (Suc k) xss))"
    using drop_segments_from [OF assms(2,1), of num 0 be] assms(2) by (simp flip: Cons_nth_drop_Suc)
  have id: "sr_id (segments_from num 0 ?segs ! k) = ?id"
  proof -
    have "segment_at num ?off ?ps = segments_from num 0 ?segs ! k"
      using hd_drop_conv_nth [of k "segments_from num 0 ?segs"] d assms(2) by simp
    then show ?thesis by (metis segment_at_def segmentRecipe.select_convs(1))
  qed
  note fl = segment_id_fields [OF assms(3,4), of "int ?off" "int (length ?ps)"]
  have "?segs = take k ?segs @ ?ps # map pointers_of (drop (Suc k) xss)"
    using assms(2) by (metis append_take_drop_id Cons_nth_drop_Suc drop_map length_map list.simps(9))
  then have "concat (map (enc_segment be) ?segs) = concat (map (enc_segment be) (take k ?segs)) @
      concat (map (enc_segment be) (?ps # map pointers_of (drop (Suc k) xss)))" by (metis concat_append map_append)
  then have s: "srest ?s = concat (map (enc_segment be) (?ps # map pointers_of (drop (Suc k) xss)))" "swf ?s"
    by (simp_all add: srest_def swf_def assms(7) del: length_concat)
  have "list_all seg_ok (?ps # map pointers_of (drop (Suc k) xss))"
    using assms(1,2) by (auto simp: list_all_iff dest: in_set_dropD)
  from prefetch_loop_rest [OF s this, where flag = junk and junk = junk and later = False and n = "nat n" and num = num]
  have "prefetch_loop be junk num (nat n) False junk ?s =
      Inr (take (nat n) (segments_from num ?off (?ps # map pointers_of (drop (Suc k) xss))))" by simp
  moreover have "id_to_bnum ?id = num" "id_to_off ?id = int ?off" "?id \<noteq> TEMPORARY_ID"
    using fl assms(5,6) by simp_all
  ultimately show ?thesis unfolding id d using assms(8,9)
    by (simp add: prefetch_segments_def Let_def del: length_concat segments_from.simps split: if_splits)
qed

text \<open>C38: the segment id that \<open>append_segment_flag\<close> returns for a segment (\<open>write_segments\<close> collects them)
  finds it again: prefetching from the \<open>k\<close>-th id reads that segment and the ones behind it, each with the id the store gave
  it and its pointers by fingerprint; from the version being written, and, once the version is saved, from its
  file when a later version is being written. The fields of an id must hold the version's number, the segment's offset and its size.\<close>

theorem segment_prefetch:
  assumes "version_items path cnt xss" and "create_backup_version be path cnt = Inr (b0, cnt')"
    and "write_segments be xss (b0, TEMPORARY_ID) = Inr (sids, b, acc)" and "update_backup_version be acc b = Inr (b', acc')"
    and "k < length xss" and "0 \<le> cnt" "cnt < 2 ^ 15"
      "length (concat (map (enc_segment be) (take k (map pointers_of xss)))) < 2 ^ 32" "length (pointers_of (xss ! k)) < 2 ^ 16"
    and "bv_num cur \<noteq> cnt"
  shows "prefetch_segments be junk dir b (sids ! k) n = Inr (take (nat n) (drop k (stored_segments sids xss))) \<and>
     prefetch_segments be junk (dir(cnt \<mapsto> version_files b')) cur (sids ! k) n =
       Inr (take (nat n) (drop k (stored_segments sids xss)))"
proof -
  let ?segs = "map pointers_of xss" and ?dir = "dir(cnt \<mapsto> version_files b')"
  from written_version [OF assms(1,2)] assms(3) have b: "sids = map sr_id (segments_from cnt 0 ?segs)"
    "ver_rep be b acc ?segs None (concat (map files_of xss))" "bv_num b = cnt" "bv_ok b" by auto
  have ok: "list_all seg_ok ?segs" "list_all fr_ok (concat (map files_of xss))"
    using assms(1) all_items_ok by (auto simp: version_items_def)
  have sid: "sids ! k = sr_id (segments_from cnt 0 ?segs ! k)" "stored_segments sids xss = segments_from cnt 0 ?segs"
    using assms(5) by (simp_all add: b(1) stored_segments_from)
  have d: "?dir (bv_num b) = Some (st_file (metadata_fp b'), st_file (recipe_fp b'), st_file (record_fp b'))"
    by (simp add: b(3) version_files_def)
  from ver_reopen [where dir = ?dir and b' = b' and acc' = acc' and junk = "cp_id junk", OF b(2) ok b(4) assms(4) d] obtain b2 where
    o: "open_backup_version be (cp_id junk) ?dir cnt = Inr b2" "bv_num b2 = cnt"
      "st_file (recipe_fp b2) = concat (map (enc_segment be) ?segs)"
    by (auto simp: b(3) enc_all_items simp del: map_map)
  have "prefetch_segments be junk dir b (sids ! k) n = Inr (take (nat n) (drop k (stored_segments sids xss)))"
    unfolding sid by (rule prefetch_from [OF ok(1) assms(5-9) ver_repD(5) [OF b(2)] b(3)]) (simp add: b(3))
  moreover have "prefetch_segments be junk ?dir cur (sids ! k) n = Inr (take (nat n) (drop k (stored_segments sids xss)))"
    unfolding sid by (rule prefetch_from [OF ok(1) assms(5-9) o(3,2)]) (use o(1) assms(10) in simp)
  ultimately show ?thesis ..
qed

subsection \<open>Witnesses\<close>

text \<open>A small version: two segments, one chunk each, and a file that ends in the second.\<close>

definition demo_cp :: chunkPointer where
  "demo_cp = \<lparr>cp_fp = replicate 20 1, cp_id = 3, cp_size = 5\<rparr>"

definition demo_file :: fileRecipeMeta where
  "demo_file = \<lparr>fr_chunknum = 1, fr_filesize = 5, fr_filename = [97]\<rparr>"

definition demo_recipe :: "recipe_item list list" where
  "demo_recipe = [[Pointer demo_cp], [Pointer (demo_cp\<lparr>cp_id := 4\<rparr>), File_Meta demo_file]]"

lemma demo_recipe_ok: "version_items [47] 0 demo_recipe"
  by (simp add: version_items_def demo_recipe_def recipe_items_ok_def seg_cp_ok_def cp_ok_def demo_cp_def demo_file_def fr_ok_def
      metabufsize_def in32_def in64_def)

theorem version_roundtrip_witness:
  "\<exists>b0 sids b acc b' b2 b3. create_backup_version True [47] 0 = Inr (b0, 1) \<and>
     write_segments True demo_recipe (b0, TEMPORARY_ID) = Inr (sids, b, acc) \<and> update_backup_version True acc b = Inr (b', TEMPORARY_ID) \<and>
     open_backup_version True 0 [0 \<mapsto> version_files b'] 0 = Inr b2 \<and> read_metas True 0 1 0 b2 = Inr [demo_file] \<and>
     read_next_n_chunk_pointers True demo_cp b2 2 0 = Some (Some [demo_cp, demo_cp\<lparr>cp_id := 4\<rparr>], b3, 2)"
proof -
  have "concat (map pointers_of demo_recipe) \<noteq> []" by (simp add: demo_recipe_def)
  from version_roundtrip [where be = True and junk = 0 and dir = Map.empty and junkp = demo_cp, OF demo_recipe_ok this] show ?thesis
    by (elim exE conjE, intro exI conjI) (assumption | simp add: demo_recipe_def)+
qed

theorem segment_prefetch_witness:
  "\<exists>b0 sids b acc b'. create_backup_version True [47] 0 = Inr (b0, 1) \<and>
     write_segments True demo_recipe (b0, TEMPORARY_ID) = Inr (sids, b, acc) \<and> update_backup_version True acc b = Inr (b', TEMPORARY_ID) \<and>
     prefetch_segments True demo_cp [0 \<mapsto> version_files b'] (b\<lparr>bv_num := 1\<rparr>) (sids ! 1) 4 =
       Inr [\<lparr>sr_id = sids ! 1, sr_kvpairs = [(cp_fp demo_cp, demo_cp\<lparr>cp_id := 4\<rparr>)]\<rparr>]"
proof -
  from create_version [OF demo_recipe_ok, of True] obtain b0 where
    b0: "create_backup_version True [47] 0 = Inr (b0, 1)" by auto
  from written_version [OF demo_recipe_ok b0] obtain sids b acc where
    b: "write_segments True demo_recipe (b0, TEMPORARY_ID) = Inr (sids, b, acc)" "bv_num b = 0"
      "sids = map sr_id (segments_from 0 0 (map pointers_of demo_recipe))" "bv_ok b"
      "ver_rep True b acc (map pointers_of demo_recipe) None (concat (map files_of demo_recipe))" by blast
  have "list_all seg_ok (map pointers_of demo_recipe)"
    using demo_recipe_ok all_items_ok by (auto simp: version_items_def)
  from ver_save [OF b(5) this b(4)] obtain b' where u: "update_backup_version True acc b = Inr (b', TEMPORARY_ID)" by blast
  have "length (enc_segment True [demo_cp]) = 96"
    by (subst length_enc_segment) (simp_all add: seg_ok_def seg_cp_ok_def cp_ok_def demo_cp_def in64_def in32_def)
  then have "prefetch_segments True demo_cp (Map.empty(0 \<mapsto> version_files b')) (b\<lparr>bv_num := 1\<rparr>) (sids ! 1) 4 =
      Inr (take (nat 4) (drop 1 (stored_segments sids demo_recipe)))"
    by (intro segment_prefetch [OF demo_recipe_ok b0 b(1) u, THEN conjunct2]) (simp_all add: demo_recipe_def)
  moreover have "drop 1 (stored_segments sids demo_recipe) =
      [\<lparr>sr_id = sids ! 1, sr_kvpairs = [(cp_fp demo_cp, demo_cp\<lparr>cp_id := 4\<rparr>)]\<rparr>]"
    by (simp add: b(3) stored_segments_def demo_recipe_def kv_of_def)
  ultimately show ?thesis using b0 b(1) u by auto
qed

end
