(* ===== verification/Filter_Segment.thy ===== *)
theory Filter_Segment
  imports Filter_Laws Recipe_Laws
begin

text \<open>
  One segment through the filter phase. \<open>pending_ok\<close> is what the chunks between lookup and filter satisfy:
  a unique chunk is neither in the current container nor repeated before it, and a duplicate without a container
  either has its first copy in front of it or finds a container in the index buffer. From this \<open>filter_segment_ok\<close>
  shows that the body of the thread cannot fail, that every pointer of the recipe names a container that holds the
  chunk, and that the index buffer forgets exactly this segment.
\<close>

subsection \<open>The index buffer before the segment\<close>

definition head_id :: "index_state \<Rightarrow> fingerprint \<Rightarrow> containerid" where
  "head_id ix fp = (case map_of (buffered_fingerprints ix) fp of Some (e # es) \<Rightarrow> ie_id e | _ \<Rightarrow> TEMPORARY_ID)"

fun pending_ok :: "filter_cfg \<Rightarrow> index_state \<Rightarrow> fingerprint set \<Rightarrow> fingerprint set \<Rightarrow> chunk list \<Rightarrow> bool" where
  "pending_ok cfg ix K U [] \<longleftrightarrow> True"
| "pending_ok cfg ix K U (c # cs) \<longleftrightarrow>
     (if is_file_mark c then pending_ok cfg ix K U cs
      else (\<not> CHECK_CHUNK c CHUNK_DUPLICATE \<longrightarrow> ck_fp c \<notin> K) \<and>
        (CHECK_CHUNK c CHUNK_DUPLICATE \<and> ck_id c = TEMPORARY_ID \<longrightarrow> ck_fp c \<in> U \<or> head_id ix (ck_fp c) \<noteq> TEMPORARY_ID) \<and>
        (index_category0 (fc_ix cfg) = INDEX_CATEGORY_EXACT \<and> fc_no_rewrite cfg \<longrightarrow>
          \<not> CHECK_CHUNK c CHUNK_SPARSE \<and> \<not> CHECK_CHUNK c CHUNK_OUT_OF_ORDER) \<and>
        pending_ok cfg ix (insert (ck_fp c) K) (if CHECK_CHUNK c CHUNK_DUPLICATE then U else insert (ck_fp c) U) cs)"

definition checked :: "index_state \<Rightarrow> (containerid \<Rightarrow> fingerprint \<Rightarrow> bool) \<Rightarrow> chunk \<Rightarrow> chunk \<Rightarrow> bool" where
  "checked ix g c d \<longleftrightarrow> kept c d \<and> located g d \<and> (is_file_mark c \<longrightarrow> d = c) \<and>
     (CHECK_CHUNK c CHUNK_DUPLICATE \<and> ck_id d = TEMPORARY_ID \<longrightarrow> ck_id c = TEMPORARY_ID \<and> head_id ix (ck_fp c) = TEMPORARY_ID)"

lemma check_buffer_chunk_ok:
  assumes bs: "buffer_sound g (buffered_fingerprints ix)" and rep: "buf_rep ix pend"
    and c: "is_file_mark c \<or> ck_fp c \<in> set pend" "located g c" and pos: "\<And>i f. g i f \<Longrightarrow> 0 \<le> i"
    and m: "is_file_mark c \<Longrightarrow> \<not> CHECK_CHUNK c CHUNK_DUPLICATE"
  shows "\<exists>d. check_buffer_chunk ix c = Inr d \<and> checked ix g c d"
proof (cases "is_file_mark c")
  case True
  with c m show ?thesis by (auto simp: check_buffer_chunk_def is_file_mark_def checked_def kept_refl)
next
  case nm: False
  show ?thesis
  proof (cases "(CHECK_CHUNK c CHUNK_DUPLICATE \<and> ck_id c = TEMPORARY_ID) \<or> CHECK_CHUNK c CHUNK_OUT_OF_ORDER \<or> CHECK_CHUNK c CHUNK_SPARSE")
    case False
    with nm c(2) show ?thesis by (auto simp: check_buffer_chunk_def is_file_mark_def checked_def kept_refl)
  next
    case True
    from nm c(1) have "ck_fp c \<in> set pend" by simp
    with buf_rep_None [OF rep] obtain q where q: "map_of (buffered_fingerprints ix) (ck_fp c) = Some q" by auto
    from rep have "case map_of (buffered_fingerprints ix) (ck_fp c) of None \<Rightarrow> ck_fp c \<notin> set pend
      | Some q \<Rightarrow> q \<noteq> [] \<and> length q = count (mset pend) (ck_fp c)" by (simp add: buf_rep_def)
    with q obtain e es where e: "map_of (buffered_fingerprints ix) (ck_fp c) = Some (e # es)" by (cases q) simp_all
    have h: "head_id ix (ck_fp c) = ie_id e" by (simp add: head_id_def e)
    have ge: "ie_id e = TEMPORARY_ID \<or> g (ie_id e) (ck_fp c)" using bs e by (auto simp: buffer_sound_def)
    show ?thesis
    proof (cases "ie_id e > ck_id c")
      case gt: True
      let ?c = "if ck_id c \<noteq> TEMPORARY_ID then SET_CHUNK c CHUNK_REWRITE_DENIED else c"
      have r: "check_buffer_chunk ix c = Inr (?c\<lparr>ck_id := ie_id e\<rparr>)"
        using nm True e gt by (simp add: check_buffer_chunk_def is_file_mark_def Let_def)
      have k: "kept c ?c" by (simp add: kept_refl kept_set_denied)
      then have k2: "kept c (?c\<lparr>ck_id := ie_id e\<rparr>)" by (rule kept_trans [OF _ kept_id])
      have fp: "ck_fp ?c = ck_fp c" using k by (simp only: kept_def)
      have "located g (?c\<lparr>ck_id := ie_id e\<rparr>)" unfolding located_def using ge fp by simp
      moreover have "ck_id c = TEMPORARY_ID" if "CHECK_CHUNK c CHUNK_DUPLICATE" "ie_id e = TEMPORARY_ID"
        using that c(2) pos [of "ck_id c" "ck_fp c"] gt by (auto simp: located_def TEMPORARY_ID_def)
      ultimately show ?thesis unfolding r using k2 nm h by (auto simp: checked_def)
    next
      case le: False
      have r: "check_buffer_chunk ix c = Inr c"
        using nm True e le by (simp add: check_buffer_chunk_def is_file_mark_def)
      have "ie_id e = TEMPORARY_ID" if "ck_id c = TEMPORARY_ID"
        using that ge pos [of "ie_id e" "ck_fp c"] le by (auto simp: TEMPORARY_ID_def)
      with c(2) h show ?thesis unfolding r by (auto simp: checked_def kept_refl)
    qed
  qed
qed

lemma rmap_total:
  assumes "\<And>x. x \<in> set xs \<Longrightarrow> \<exists>y. f x = Inr y \<and> R x y"
  shows "\<exists>ys. rmap f xs = Inr ys \<and> list_all2 R xs ys"
  using assms
proof (induction xs)
  case (Cons x xs)
  then obtain y ys where "f x = Inr y" "R x y" "rmap f xs = Inr ys" "list_all2 R xs ys" by (meson list.set_intros)
  then show ?case by simp
qed simp

lemma pending_ready:
  assumes "list_all2 (checked ix g) cs ds" and "pending_ok cfg ix K U cs"
  shows "seg_ready cfg K U ds"
  using assms
proof (induction arbitrary: K U rule: list_all2_induct)
  case (Cons c cs d ds)
  have k: "ck_fp d = ck_fp c" "is_file_mark d = is_file_mark c" "CHECK_CHUNK d CHUNK_DUPLICATE = CHECK_CHUNK c CHUNK_DUPLICATE"
    "CHECK_CHUNK d CHUNK_SPARSE = CHECK_CHUNK c CHUNK_SPARSE" "CHECK_CHUNK d CHUNK_OUT_OF_ORDER = CHECK_CHUNK c CHUNK_OUT_OF_ORDER"
    using Cons.hyps(1) by (simp_all add: checked_def kept_def)
  show ?case
  proof (cases "is_file_mark c")
    case True
    with Cons.IH Cons.prems k show ?thesis by simp
  next
    case False
    with Cons.prems have p: "pending_ok cfg ix (insert (ck_fp c) K) (if CHECK_CHUNK c CHUNK_DUPLICATE then U else insert (ck_fp c) U) cs"
      by simp
    have "ck_fp c \<in> U" if "CHECK_CHUNK c CHUNK_DUPLICATE" "ck_id d = TEMPORARY_ID"
      using that Cons.hyps(1) Cons.prems False by (auto simp: checked_def)
    with Cons.IH [OF p] Cons.prems False k show ?thesis by (cases "CHECK_CHUNK c CHUNK_DUPLICATE") simp_all
  qed
qed simp

subsection \<open>The index buffer behind the segment\<close>

lemma update_chunk_eq:
  assumes "update_buffer_chunk c s = Inr s'" "\<not> is_file_mark c"
  shows "\<exists>q. map_of (buffered_fingerprints s) (ck_fp c) = Some q \<and>
     map_of (buffered_fingerprints s') = (map_of (buffered_fingerprints s))(ck_fp c :=
       (if tl q = [] then None else Some (map (\<lambda>e. e\<lparr>ie_id := ck_id c\<rparr>) (tl q)))) \<and>
     lru_meta s' = lru_meta s \<and> lru_seg s' = lru_seg s \<and> htable s' = htable s"
proof -
  from assms obtain q where q: "map_of (buffered_fingerprints s) (ck_fp c) = Some q"
    "s' = s\<lparr>buffered_fingerprints :=
       (if tl q = [] then AList.delete (ck_fp c) (buffered_fingerprints s)
        else AList.update (ck_fp c) (map (\<lambda>e. e\<lparr>ie_id := ck_id c\<rparr>) (tl q)) (buffered_fingerprints s)),
       chunk_num := chunk_num s - 1\<rparr>"
    by (auto simp: update_buffer_chunk_def is_file_mark_def rbind_Inr_iff Let_def split: option.splits)
  then show ?thesis by (cases "tl q = []") (simp_all add: update_conv' delete_conv' fun_eq_iff)
qed

lemma update_chunk_marks: "is_file_mark c \<Longrightarrow> update_buffer_chunk c s = Inr s"
  by (simp add: update_buffer_chunk_def is_file_mark_def)

definition heads_ok :: "index_state \<Rightarrow> index_state \<Rightarrow> fingerprint set \<Rightarrow> bool" where
  "heads_ok s s' F \<longleftrightarrow> (\<forall>f. map_of (buffered_fingerprints s') f \<noteq> None \<longrightarrow>
     (if f \<in> F then head_id s' f \<noteq> TEMPORARY_ID else head_id s' f = head_id s f))"

lemma update_chunk_heads:
  assumes u: "update_buffer_chunk c s = Inr s'" and nm: "\<not> is_file_mark c" and id: "ck_id c \<noteq> TEMPORARY_ID"
  shows "heads_ok s s' {ck_fp c}"
proof -
  from update_chunk_eq [OF u nm] obtain q where q: "map_of (buffered_fingerprints s') = (map_of (buffered_fingerprints s))(ck_fp c :=
       (if tl q = [] then None else Some (map (\<lambda>e. e\<lparr>ie_id := ck_id c\<rparr>) (tl q))))" by blast
  show ?thesis
    unfolding heads_ok_def head_id_def q using id by (cases "tl q") auto
qed

lemma update_chunk_dom:
  assumes "update_buffer_chunk c s = Inr s'" "map_of (buffered_fingerprints s') f \<noteq> None"
  shows "map_of (buffered_fingerprints s) f \<noteq> None"
proof (cases "is_file_mark c")
  case True
  with assms update_chunk_marks [OF True, of s] show ?thesis by simp
next
  case False
  from update_chunk_eq [OF assms(1) False] assms(2) show ?thesis by (auto split: if_splits)
qed

lemma update_chunk_sound:
  assumes u: "update_buffer_chunk c s = Inr s'" and ix: "ix_sound g s" and c: "\<not> is_file_mark c \<Longrightarrow> g (ck_id c) (ck_fp c)"
  shows "ix_sound g s'"
proof (cases "is_file_mark c")
  case True
  with u ix update_chunk_marks [OF True, of s] show ?thesis by simp
next
  case False
  from update_chunk_eq [OF u False] obtain q where q: "map_of (buffered_fingerprints s') = (map_of (buffered_fingerprints s))(ck_fp c :=
       (if tl q = [] then None else Some (map (\<lambda>e. e\<lparr>ie_id := ck_id c\<rparr>) (tl q))))" "lru_meta s' = lru_meta s" "lru_seg s' = lru_seg s"
    by blast
  have "buffer_sound g (buffered_fingerprints s')"
    unfolding buffer_sound_def q(1) using ix c [OF False] by (auto simp: ix_sound_def buffer_sound_def split: if_splits)
  with ix q(2,3) show ?thesis by (simp add: ix_sound_def cache_sound_def)
qed

lemma update_chunks_after:
  "rfold update_buffer_chunk cs s = Inr s' \<Longrightarrow> \<forall>c\<in>set cs. \<not> is_file_mark c \<longrightarrow> g (ck_id c) (ck_fp c) \<and> ck_id c \<noteq> TEMPORARY_ID \<Longrightarrow>
   ix_sound g s \<Longrightarrow> ix_sound g s' \<and> heads_ok s s' (set (data_fps cs))"
proof (induction cs arbitrary: s)
  case Nil
  then show ?case by (simp add: heads_ok_def data_fps_def)
next
  case (Cons c cs)
  then obtain s1 where s1: "update_buffer_chunk c s = Inr s1" "rfold update_buffer_chunk cs s1 = Inr s'" by (auto simp: rbind_Inr_iff)
  have ix1: "ix_sound g s1" by (rule update_chunk_sound [OF s1(1) Cons.prems(3)]) (use Cons.prems(2) in simp)
  have IH: "ix_sound g s'" "heads_ok s1 s' (set (data_fps cs))" using Cons.IH [OF s1(2) _ ix1] Cons.prems(2) by auto
  show ?case
  proof (cases "is_file_mark c")
    case True
    with s1(1) update_chunk_marks [OF True, of s] IH show ?thesis by (simp add: data_fps_def)
  next
    case False
    then have fps: "set (data_fps (c # cs)) = insert (ck_fp c) (set (data_fps cs))" by (simp add: data_fps_def)
    have h1: "heads_ok s s1 {ck_fp c}" by (rule update_chunk_heads [OF s1(1) False]) (use Cons.prems(2) False in simp)
    have d: "map_of (buffered_fingerprints s1) f \<noteq> None" if "map_of (buffered_fingerprints s') f \<noteq> None" for f
      using s1(2) that
    proof (induction cs arbitrary: s1)
      case (Cons a cs)
      then obtain s2 where "update_buffer_chunk a s1 = Inr s2" "rfold update_buffer_chunk cs s2 = Inr s'" by (auto simp: rbind_Inr_iff)
      with Cons update_chunk_dom show ?case by blast
    qed simp
    from h1 IH(2) d have "heads_ok s s' (set (data_fps (c # cs)))"
      unfolding heads_ok_def fps by (metis insert_iff singletonD singletonI)
    with IH(1) show ?thesis by blast
  qed
qed

subsection \<open>The recipe of the segment\<close>

definition ptr :: "chunk \<Rightarrow> chunkPointer" where
  "ptr c = \<lparr>cp_fp = ck_fp c, cp_id = ck_id c, cp_size = ck_size c\<rparr>"

definition data_chunks :: "chunk list \<Rightarrow> chunk list" where
  "data_chunks cs = filter (\<lambda>c. \<not> is_file_mark c) cs"

text \<open>The files of a stretch of the stream: those finished in it, and the one still open behind it.\<close>

fun rec_files :: "fileRecipeMeta option \<Rightarrow> chunk list \<Rightarrow> fileRecipeMeta list \<times> fileRecipeMeta option" where
  "rec_files f [] = ([], f)"
| "rec_files None (c # cs) = rec_files (Some (new_file_recipe_meta (ck_data c))) cs"
| "rec_files (Some r) (c # cs) =
     (if CHECK_CHUNK c CHUNK_FILE_END then (let (rs, f) = rec_files None cs in (r # rs, f))
      else rec_files (Some (r\<lparr>fr_chunknum := fr_chunknum r + 1, fr_filesize := fr_filesize r + ck_size c\<rparr>)) cs)"

text \<open>The file marks alternate and every chunk lies in a file; the flag says whether a file is open.\<close>

fun file_wf :: "bool \<Rightarrow> chunk list \<Rightarrow> bool" where
  "file_wf op [] \<longleftrightarrow> True"
| "file_wf False (c # cs) \<longleftrightarrow> CHECK_CHUNK c CHUNK_FILE_START \<and> 20 + length (ck_data c) \<le> metabufsize \<and> file_wf True cs"
| "file_wf True (c # cs) \<longleftrightarrow> (if CHECK_CHUNK c CHUNK_FILE_END then file_wf False cs else \<not> is_file_mark c \<and> file_wf True cs)"

definition name_fits :: "fileRecipeMeta option \<Rightarrow> bool" where
  "name_fits f = (case f of None \<Rightarrow> True | Some r \<Rightarrow> 20 + length (fr_filename r) \<le> metabufsize)"

lemma data_chunks_simps [simp]:
  "data_chunks [] = []" "data_chunks (c # cs) = (if is_file_mark c then data_chunks cs else c # data_chunks cs)"
  by (simp_all add: data_chunks_def)

lemma recipe_chunks_ok:
  assumes "ver_rep (fc_be cfg) (fs_bv st) (fs_access st) segs (Some (n, cps)) rs"
    and "file_wf (fs_file st \<noteq> None) cs" "name_fits (fs_file st)" "length cps + length (data_chunks cs) \<le> n"
    and "\<forall>c\<in>set (data_chunks cs). cp_ok (ptr c) \<and> 0 \<le> ck_id c"
  shows "\<exists>bv acc j. rfold (recipe_chunk cfg) cs st =
       Inr (st\<lparr>fs_bv := bv, fs_access := acc, fs_file := snd (rec_files (fs_file st) cs), fs_jcr := j\<rparr>) \<and>
     ver_rep (fc_be cfg) bv acc segs (Some (n, cps @ map ptr (data_chunks cs))) (rs @ fst (rec_files (fs_file st) cs)) \<and>
     same_head (fs_bv st) bv \<and> name_fits (snd (rec_files (fs_file st) cs))"
  using assms
proof (induction cs arbitrary: st cps rs)
  case Nil
  show ?case
    by (rule exI [of _ "fs_bv st"], rule exI [of _ "fs_access st"], rule exI [of _ "fs_jcr st"]) (use Nil in \<open>simp add: same_head_def\<close>)
next
  case (Cons c cs)
  show ?case
  proof (cases "fs_file st")
    case None
    with Cons.prems(2) have c: "CHECK_CHUNK c CHUNK_FILE_START" "20 + length (ck_data c) \<le> metabufsize" "file_wf True cs" by simp_all
    then have m: "is_file_mark c" by (simp add: is_file_mark_def)
    let ?r = "new_file_recipe_meta (ck_data c)" and ?st = "st\<lparr>fs_file := Some (new_file_recipe_meta (ck_data c))\<rparr>"
    have 1: "recipe_chunk cfg c st = Inr ?st" using None c(1) by (simp add: recipe_chunk_def)
    have "length (fr_filename ?r) \<le> length (ck_data c)" by (simp add: new_file_recipe_meta_def length_takeWhile_le)
    then have f: "name_fits (fs_file ?st)" using c(2) by (simp add: name_fits_def)
    have "ver_rep (fc_be cfg) (fs_bv ?st) (fs_access ?st) segs (Some (n, cps)) rs" using Cons.prems(1) by simp
    from Cons.IH [OF this _ f _] Cons.prems(4,5) c(3) m obtain bv acc j where
      "rfold (recipe_chunk cfg) cs ?st = Inr (?st\<lparr>fs_bv := bv, fs_access := acc, fs_file := snd (rec_files (Some ?r) cs), fs_jcr := j\<rparr>)"
      "ver_rep (fc_be cfg) bv acc segs (Some (n, cps @ map ptr (data_chunks cs))) (rs @ fst (rec_files (Some ?r) cs))"
      "same_head (fs_bv st) bv" "name_fits (snd (rec_files (Some ?r) cs))" by auto
    with 1 None m show ?thesis by auto
  next
    case (Some r)
    show ?thesis
    proof (cases "CHECK_CHUNK c CHUNK_FILE_END")
      case True
      then have m: "is_file_mark c" by (simp add: is_file_mark_def)
      from Cons.prems(2,3) Some True have c: "file_wf False cs" "20 + length (fr_filename r) \<le> metabufsize"
        by (simp_all add: name_fits_def)
      from ver_file [OF Cons.prems(1) c(2)] obtain b where b: "append_file_recipe_meta (fc_be cfg) (fs_bv st) r = Inr b"
        "ver_rep (fc_be cfg) b (fs_access st) segs (Some (n, cps)) (rs @ [r])" "same_head (fs_bv st) b" by blast
      let ?st = "st\<lparr>fs_bv := b, fs_file := None, fs_jcr := (fs_jcr st)\<lparr>jcr_file_num := jcr_file_num (fs_jcr st) + 1\<rparr>\<rparr>"
      have 1: "recipe_chunk cfg c st = Inr ?st" using Some True b(1) by (simp add: recipe_chunk_def)
      have "ver_rep (fc_be cfg) (fs_bv ?st) (fs_access ?st) segs (Some (n, cps)) (rs @ [r])" using b(2) by simp
      from Cons.IH [OF this] Cons.prems(4,5) c(1) m obtain bv acc j where
        "rfold (recipe_chunk cfg) cs ?st = Inr (?st\<lparr>fs_bv := bv, fs_access := acc, fs_file := snd (rec_files None cs), fs_jcr := j\<rparr>)"
        "ver_rep (fc_be cfg) bv acc segs (Some (n, cps @ map ptr (data_chunks cs))) ((rs @ [r]) @ fst (rec_files None cs))"
        "same_head b bv" "name_fits (snd (rec_files None cs))" by (auto simp: name_fits_def)
      with 1 Some True m same_head_trans [OF b(3)] show ?thesis
        by (intro exI [of _ bv] exI [of _ acc] exI [of _ j]) (simp add: case_prod_unfold Let_def)
    next
      case False
      with Cons.prems(2) Some have m: "\<not> is_file_mark c" "file_wf True cs" by simp_all
      with Cons.prems(5) have p: "cp_ok (ptr c)" "0 \<le> ck_id c" by simp_all
      from Cons.prems(4) m(1) have len: "length cps < n" by simp
      have "cp_id (ptr c) \<noteq> TEMPORARY_ID" using p(2) by (simp add: ptr_def TEMPORARY_ID_def)
      from ver_pointer [OF Cons.prems(1) len p(1) this] obtain b where
        b: "append_chunk_pointer (fc_be cfg) (ptr c) (fs_bv st, fs_access st) = Inr (b, ck_id c)"
        "ver_rep (fc_be cfg) b (ck_id c) segs (Some (n, cps @ [ptr c])) rs" "same_head (fs_bv st) b" by (auto simp: ptr_def)
      let ?r = "r\<lparr>fr_chunknum := fr_chunknum r + 1, fr_filesize := fr_filesize r + ck_size c\<rparr>"
      let ?st = "st\<lparr>fs_bv := b, fs_access := ck_id c, fs_file := Some ?r,
          fs_jcr := (fs_jcr st)\<lparr>jcr_chunk_num := jcr_chunk_num (fs_jcr st) + 1, jcr_data_size := jcr_data_size (fs_jcr st) + ck_size c\<rparr>\<rparr>"
      have 1: "recipe_chunk cfg c st = Inr ?st"
        using Some False b(1) p(2) by (simp add: recipe_chunk_def append_n_chunk_pointers_def ptr_def)
      have "ver_rep (fc_be cfg) (fs_bv ?st) (fs_access ?st) segs (Some (n, cps @ [ptr c])) rs" using b(2) by simp
      from Cons.IH [OF this] Cons.prems(3,4,5) m Some obtain bv acc j where
        "rfold (recipe_chunk cfg) cs ?st = Inr (?st\<lparr>fs_bv := bv, fs_access := acc, fs_file := snd (rec_files (Some ?r) cs), fs_jcr := j\<rparr>)"
        "ver_rep (fc_be cfg) bv acc segs (Some (n, (cps @ [ptr c]) @ map ptr (data_chunks cs))) (rs @ fst (rec_files (Some ?r) cs))"
        "same_head b bv" "name_fits (snd (rec_files (Some ?r) cs))" by (auto simp: name_fits_def)
      with 1 Some False m same_head_trans [OF b(3)] show ?thesis by auto
    qed
  qed
qed

lemma rec_files_kept:
  "list_all2 (\<lambda>c d. kept c d \<and> (is_file_mark c \<longrightarrow> d = c)) cs ds \<Longrightarrow> file_wf (f \<noteq> None) cs \<Longrightarrow>
   rec_files f ds = rec_files f cs \<and> file_wf (f \<noteq> None) ds \<and> map ck_fp (data_chunks ds) = map ck_fp (data_chunks cs)"
proof (induction arbitrary: f rule: list_all2_induct)
  case (Cons c cs d ds)
  show ?case
  proof (cases "is_file_mark c")
    case True
    with Cons.hyps have "d = c" by simp
    with True Cons.IH [of None] Cons.IH [of "Some (new_file_recipe_meta (ck_data c))"] Cons.prems show ?thesis
      by (cases f; cases "CHECK_CHUNK c CHUNK_FILE_END") (auto simp: case_prod_unfold Let_def)
  next
    case False
    with Cons.hyps have k: "\<not> is_file_mark d" "ck_fp d = ck_fp c" "ck_size d = ck_size c" by (simp_all add: kept_def)
    from False k(1) have e: "\<not> CHECK_CHUNK c CHUNK_FILE_END" "\<not> CHECK_CHUNK d CHUNK_FILE_END" "\<not> CHECK_CHUNK c CHUNK_FILE_START"
      by (simp_all add: is_file_mark_def)
    with Cons.prems obtain r where f: "f = Some r" by (cases f) auto
    with Cons.IH [of "Some (r\<lparr>fr_chunknum := fr_chunknum r + 1, fr_filesize := fr_filesize r + ck_size c\<rparr>)"] Cons.prems k e False
    show ?thesis by simp
  qed
qed simp

lemma segment_recipe_ok:
  assumes v: "ver_rep (fc_be cfg) (fs_bv st) (fs_access st) segs None rs" and wf: "file_wf (fs_file st \<noteq> None) (seg_chunks s)"
    and nf: "name_fits (fs_file st)" and num: "seg_inv s" "seg_len_ok (seg_chunk_num s)"
    and p: "\<forall>c\<in>set (data_chunks (seg_chunks s)). cp_ok (ptr c) \<and> 0 \<le> ck_id c"
  shows "\<exists>sid bv acc j. segment_recipe cfg s st =
       Inr (sid, st\<lparr>fs_bv := bv, fs_access := acc, fs_file := snd (rec_files (fs_file st) (seg_chunks s)), fs_jcr := j\<rparr>) \<and> in64 sid \<and>
     ver_rep (fc_be cfg) bv acc (segs @ [map ptr (data_chunks (seg_chunks s))]) None (rs @ fst (rec_files (fs_file st) (seg_chunks s))) \<and>
     same_head (fs_bv st) bv \<and> name_fits (snd (rec_files (fs_file st) (seg_chunks s)))"
proof -
  let ?be = "fc_be cfg" and ?n = "length (data_chunks (seg_chunks s))"
  have n: "seg_chunk_num s = int ?n" using num(1) by (simp add: seg_inv_def normal_count_def data_chunks_def)
  from ver_open [OF v, of ?n] num(2) n obtain sid b1 where b1: "append_segment_flag ?be (fs_bv st) SEG_START (int ?n) = Inr (sid, b1)"
    "sid = make_segment_id (bv_num (fs_bv st)) (int (length (st_file (recipe_fp (fs_bv st))))) (int ?n)"
    "ver_rep ?be b1 (fs_access st) segs (Some (?n, [])) rs" "same_head (fs_bv st) b1" by auto
  have "in64 sid" unfolding b1(2) make_segment_id_def in64_def using sint_range_size [of "_ :: 64 word"] by (simp add: word_size)
  from recipe_chunks_ok [of cfg "st\<lparr>fs_bv := b1\<rparr>" segs ?n "[]" rs "seg_chunks s"] b1(3) wf nf p obtain bv acc j where
    r: "rfold (recipe_chunk cfg) (seg_chunks s) (st\<lparr>fs_bv := b1\<rparr>) =
       Inr (st\<lparr>fs_bv := bv, fs_access := acc, fs_file := snd (rec_files (fs_file st) (seg_chunks s)), fs_jcr := j\<rparr>)"
    "ver_rep ?be bv acc segs (Some (?n, map ptr (data_chunks (seg_chunks s)))) (rs @ fst (rec_files (fs_file st) (seg_chunks s)))"
    "same_head b1 bv" "name_fits (snd (rec_files (fs_file st) (seg_chunks s)))" by auto
  from ver_close [of ?be bv acc segs "map ptr (data_chunks (seg_chunks s))"] r(2) obtain b2 where
    b2: "append_segment_flag ?be bv SEG_END 0 = Inr (TEMPORARY_ID, b2)"
    "ver_rep ?be b2 acc (segs @ [map ptr (data_chunks (seg_chunks s))]) None (rs @ fst (rec_files (fs_file st) (seg_chunks s)))"
    "same_head bv b2" by auto
  have "segment_recipe cfg s st = Inr (sid, st\<lparr>fs_bv := b2, fs_access := acc, fs_file := snd (rec_files (fs_file st) (seg_chunks s)), fs_jcr := j\<rparr>)"
    using b1(1) r(1) b2(1) by (simp add: segment_recipe_def n)
  with \<open>in64 sid\<close> b2(2) r(4) same_head_trans [OF same_head_trans [OF b1(4) r(3)] b2(3)] show ?thesis by blast
qed

lemma set_features: "set (fold feature_set_add xs fs) = set xs \<union> set fs"
  by (induction xs arbitrary: fs) (auto simp: feature_set_add_def)

lemma index_segment_ok:
  assumes ix: "ix_ok cfg (fs_ix st)" and cfg: "cfg_ok cfg" and sid: "in64 sid"
    and fp: "\<forall>c\<in>set (seg_chunks s). length (ck_fp c) = 20" and num: "seg_inv s"
    and ts: "tables_sound st" and si: "store_inv (fc_sim cfg) D st"
  shows "\<exists>ix'. index_segment cfg s sid st = Inr (st\<lparr>fs_ix := ix'\<rparr>) \<and> ix_ok cfg ix' \<and> ix_same (fs_ix st) ix'"
proof (cases "physical cfg")
  case True
  then show ?thesis using ix by (auto simp: index_segment_def intro!: exI [of _ "fs_ix st"])
next
  case False
  have "(\<forall>c\<in>set (seg_chunks s). length (ck_fp c) = 20) \<and> (seg_chunks s = [] \<longrightarrow> seg_chunk_num s = 0)"
    using fp num by (simp add: seg_inv_def normal_count_def)
  from cfg_ok_sampling [OF cfg this] obtain fs where fs: "fc_sampling cfg (seg_chunks s) (seg_chunk_num s) = Inr fs"
    "\<forall>f\<in>set fs. index_key_size (fc_ix cfg) \<le> length f" by blast
  have k: "length f = 20" if "f \<in> fst ` (set (fs_unique st) \<union> set (fs_rewritten st))" for f
  proof -
    from that obtain p where "p \<in> set (fs_unique st) \<union> set (fs_rewritten st)" "f = fst p" by blast
    with ts have "holds st (snd p) f" by (auto simp: tables_sound_def)
    then obtain b where b: "b \<in> set (all_containers st)" "f \<in> keys_of b" by (auto simp: holds_def)
    with si have "meta_ok (ct_meta b)" by (auto simp: store_inv_def container_ok_def)
    with b(2) show ?thesis by (auto simp: keys_of_def meta_ok_def list_all_iff entry_ok_def)
  qed
  let ?fs = "if index_category0 (fc_ix cfg) = INDEX_CATEGORY_EXACT
     then fold feature_set_add (map fst (fs_unique st) @ map fst (fs_rewritten st)) fs else fs"
  have "\<forall>f\<in>set ?fs. index_key_size (fc_ix cfg) \<le> length f"
  proof
    fix f assume "f \<in> set ?fs"
    then have "f \<in> set fs \<or> f \<in> fst ` (set (fs_unique st) \<union> set (fs_rewritten st))"
      by (auto simp: set_features image_Un split: if_splits simp del: fold_append)
    then consider "f \<in> set fs" | "length f = 20" using k by blast
    then show "index_key_size (fc_ix cfg) \<le> length f" by cases (use fs(2) cfg in \<open>auto simp: cfg_ok_def\<close>)
  qed
  from index_update_ok [OF ix cfg sid this] False fs(1) show ?thesis by (auto simp: index_segment_def Let_def)
qed

lemma update_chunk_htable: "update_buffer_chunk c s = Inr s' \<Longrightarrow> htable s' = htable s"
  by (cases "is_file_mark c") (auto simp: update_chunk_marks dest: update_chunk_eq)

lemma update_chunks_htable: "rfold update_buffer_chunk cs s = Inr s' \<Longrightarrow> htable s' = htable s"
  by (induction cs arbitrary: s) (auto simp: rbind_Inr_iff dest: update_chunk_htable)

lemma heads_ok_same:
  assumes "ix_same a b" "ix_same c d"
  shows "heads_ok b c F = heads_ok a d F"
  using assms by (simp add: heads_ok_def head_id_def ix_same_def)

lemma ix_sound_same: "ix_same a b \<Longrightarrow> ix_sound g b = ix_sound g a"
  by (simp add: ix_sound_def cache_sound_def ix_same_def)

lemma buf_rep_same: "ix_same a b \<Longrightarrow> buf_rep b pend = buf_rep a pend"
  by (simp add: buf_rep_def ix_same_def)

lemma ix_sound_mono:
  assumes "ix_sound g s" "\<And>i f. g i f \<Longrightarrow> h i f"
  shows "ix_sound h s"
  using assms unfolding ix_sound_def cache_sound_def buffer_sound_def recipe_sound_def meta_sound_def by fastforce

subsection \<open>The body of the thread\<close>

text \<open>What the filter does with a segment \<open>s\<close>, read back as \<open>s'\<close>: \<open>segs\<close> and \<open>rs\<close> are the segments and files of
  the recipe before it.\<close>

definition seg_done :: "filter_cfg \<Rightarrow> (fingerprint \<Rightarrow> byte list) \<Rightarrow> chunkPointer list list \<Rightarrow> fileRecipeMeta list \<Rightarrow>
    segment \<Rightarrow> filter_state \<Rightarrow> segment \<Rightarrow> filter_state \<Rightarrow> bool" where
  "seg_done cfg D segs rs s st s' st' \<longleftrightarrow>
     list_all2 (\<lambda>c d. kept c d \<and> (is_file_mark c \<longrightarrow> d = c)) (seg_chunks s) (seg_chunks s') \<and>
     f_ok cfg D st' \<and> (\<forall>i fp. holds st i fp \<longrightarrow> holds st' i fp) \<and>
     (\<forall>c\<in>set (data_chunks (seg_chunks s')). holds st' (ck_id c) (ck_fp c)) \<and>
     cb_keys st' \<subseteq> cb_keys st \<union> set (data_fps (seg_chunks s)) \<and>
     ps_count (fs_pool st') \<le> ps_count (fs_pool st) + int (length (seg_chunks s)) \<and>
     ver_rep (fc_be cfg) (fs_bv st') (fs_access st') (segs @ [map ptr (data_chunks (seg_chunks s'))]) None
       (rs @ fst (rec_files (fs_file st) (seg_chunks s))) \<and>
     fs_file st' = snd (rec_files (fs_file st) (seg_chunks s)) \<and> name_fits (fs_file st') \<and> same_head (fs_bv st) (fs_bv st')"

lemma f_ok_frame:
  assumes "f_ok cfg D st" "fs_pool st' = fs_pool st" "fs_cb st' = fs_cb st" "fs_chunks st' = fs_chunks st" "fs_ra st' = fs_ra st"
    and "set (fs_unique st') \<union> set (fs_rewritten st') \<subseteq> set (fs_unique st) \<union> set (fs_rewritten st)" "ix_ok cfg (fs_ix st')"
  shows "f_ok cfg D st'"
proof -
  note cg = pool_cb_cong [OF assms(2,3)]
  show ?thesis using assms unfolding f_ok_def cg tables_sound_def chunks20_def by auto
qed

lemma pointers_ok:
  assumes "\<forall>c\<in>set cs. \<not> is_file_mark c \<longrightarrow> holds st (ck_id c) (ck_fp c) \<and> length (ck_fp c) = 20 \<and> fits (ck_size c)"
    and si: "store_inv sim D st" and cnt: "ps_count (fs_pool st) < 2 ^ 40"
  shows "\<forall>c\<in>set (data_chunks cs). cp_ok (ptr c) \<and> 0 \<le> ck_id c"
proof
  fix c assume "c \<in> set (data_chunks cs)"
  with assms(1) have c: "holds st (ck_id c) (ck_fp c)" "length (ck_fp c) = 20" "fits (ck_size c)" by (auto simp: data_chunks_def)
  from holds_nonneg [OF si c(1)] c(2,3) cnt show "cp_ok (ptr c) \<and> 0 \<le> ck_id c"
    by (simp add: cp_ok_def ptr_def in64_def in32_def fits_def CONTAINER_SIZE_def)
qed

lemma list_all2_right: "list_all2 R xs ys \<Longrightarrow> y \<in> set ys \<Longrightarrow> \<exists>x\<in>set xs. R x y"
  by (induction rule: list_all2_induct) auto

lemma data_fps_kept:
  "list_all2 (\<lambda>c d. kept c d \<and> (is_file_mark c \<longrightarrow> d = c)) cs ds \<Longrightarrow>
   data_fps ds = data_fps cs \<and> length (data_chunks ds) = length (data_chunks cs) \<and> normal_count ds = normal_count cs"
  by (induction rule: list_all2_induct) (auto simp: data_fps_def kept_def normal_count_def)

lemma filter_segment_ok:
  assumes ok: "f_ok cfg D st" and cfg: "cfg_ok cfg" and ix: "ix_sound (holds st) (fs_ix st)"
    and rep: "buf_rep (fs_ix st) (data_fps (seg_chunks s) @ rest)"
    and pend: "pending_ok cfg (fs_ix st) (cb_keys st) {} (seg_chunks s)"
    and c: "\<forall>c\<in>set (seg_chunks s). length (ck_fp c) = 20 \<and>
        (if is_file_mark c then \<not> CHECK_CHUNK c CHUNK_DUPLICATE else data_ok D c \<and> located (holds st) c)"
    and cnt: "ps_count (fs_pool st) + int (length (seg_chunks s)) < 2 ^ 40"
    and v: "ver_rep (fc_be cfg) (fs_bv st) (fs_access st) segs None rs" and wf: "file_wf (fs_file st \<noteq> None) (seg_chunks s)"
    and nf: "name_fits (fs_file st)" and num: "seg_inv s" "seg_len_ok (seg_chunk_num s)"
  shows "\<exists>w s' st'. filter_segment cfg s st = Inr (w, s', st') \<and> seg_done cfg D segs rs s st s' st' \<and>
     buf_rep (fs_ix st') rest \<and> ix_sound (holds st') (fs_ix st') \<and> heads_ok (fs_ix st) (fs_ix st') (set (data_fps (seg_chunks s)))"
proof -
  let ?st0 = "st\<lparr>fs_unique := [], fs_rewritten := []\<rparr>"
  have ok0: "f_ok cfg D ?st0" by (rule f_ok_frame [OF ok]) (use ok in \<open>simp_all add: f_ok_def\<close>)
  have h0: "holds ?st0 = holds st" "cb_keys ?st0 = cb_keys st" by (rule pool_cb_cong; simp)+
  have pos: "0 \<le> i" if "holds st i f" for i f using ok holds_nonneg that by (auto simp: f_ok_def)
  have bs: "buffer_sound (holds st) (buffered_fingerprints (fs_ix st))" using ix by (simp add: ix_sound_def)
  have "\<exists>d. check_buffer_chunk (fs_ix st) x = Inr d \<and> checked (fs_ix st) (holds st) x d" if x: "x \<in> set (seg_chunks s)" for x
    by (rule check_buffer_chunk_ok [OF bs rep]) (use c x pos in \<open>auto simp: data_fps_def located_def split: if_splits\<close>)
  from rmap_total [of "seg_chunks s" "check_buffer_chunk (fs_ix st)" "checked (fs_ix st) (holds st)", OF this] obtain cs where cs: "rmap (check_buffer_chunk (fs_ix st)) (seg_chunks s) = Inr cs"
    "list_all2 (checked (fs_ix st) (holds st)) (seg_chunks s) cs" by blast
  have k1: "list_all2 (\<lambda>c d. kept c d \<and> (is_file_mark c \<longrightarrow> d = c)) (seg_chunks s) cs"
    by (rule list_all2_mono [OF cs(2)]) (simp add: checked_def)
  note rdy = pending_ready [OF cs(2) pend]
  have dat: "\<forall>d\<in>set cs. \<not> is_file_mark d \<longrightarrow> data_ok D d \<and> located (holds st) d"
  proof (intro ballI impI)
    fix d assume d: "d \<in> set cs" "\<not> is_file_mark d"
    with list_all2_right [OF cs(2)] obtain x where x: "x \<in> set (seg_chunks s)" "checked (fs_ix st) (holds st) x d" by blast
    then have "\<not> is_file_mark x" using d(2) by (simp add: checked_def kept_def)
    with c x have "data_ok D x" by auto
    with x(2) show "data_ok D d \<and> located (holds st) d" unfolding checked_def using kept_data by blast
  qed
  have len: "length cs = length (seg_chunks s)" using k1 by (simp add: list_all2_lengthD)
  from filter_chunks_ok [OF cfg ok0, of cs, unfolded h0] dat rdy cnt len obtain cs' st1 where
    1: "filter_chunks cfg cs ?st0 = Inr (cs', st1)" "chunks_placed cfg D cs ?st0 cs' st1" by auto
  from 1(2) have p: "list_all2 (\<lambda>c d. kept c d \<and> (is_file_mark c \<longrightarrow> d = c)) cs cs'" "f_ok cfg D st1" "ix_same (fs_ix st) (fs_ix st1)"
    "\<And>i f. holds st i f \<Longrightarrow> holds st1 i f" "\<forall>c\<in>set cs'. \<not> is_file_mark c \<longrightarrow> holds st1 (ck_id c) (ck_fp c)"
    "fs_bv st1 = fs_bv st" "fs_access st1 = fs_access st" "fs_file st1 = fs_file st"
    "ps_count (fs_pool st1) \<le> ps_count (fs_pool st) + int (length cs)" "cb_keys st1 \<subseteq> cb_keys st \<union> set (data_fps cs)"
    unfolding chunks_placed_def f_ext_def h0 by auto
  have k2: "list_all2 (\<lambda>c d. kept c d \<and> (is_file_mark c \<longrightarrow> d = c)) (seg_chunks s) cs'"
    using list_all2_trans [OF _ k1 p(1), of "\<lambda>c d. kept c d \<and> (is_file_mark c \<longrightarrow> d = c)"] kept_trans by (auto simp: kept_def)
  note fps = data_fps_kept [OF k1] data_fps_kept [OF k2]
  have si: "store_inv (fc_sim cfg) D st1" "ix_ok cfg (fs_ix st1)" using p(2) by (simp_all add: f_ok_def)
  have cnt1: "ps_count (fs_pool st1) < 2 ^ 40" using p(9) cnt len by simp
  have loc: "holds st1 (ck_id x) (ck_fp x) \<and> length (ck_fp x) = 20 \<and> fits (ck_size x)" if x: "x \<in> set cs'" "\<not> is_file_mark x" for x
  proof -
    from list_all2_right [OF k2 x(1)] obtain y where y: "y \<in> set (seg_chunks s)" "kept y x" by blast
    then have "\<not> is_file_mark y" using x(2) by (simp add: kept_def)
    with c y(1) have "data_ok D y" by simp
    then have "data_ok D x" by (rule kept_data [OF y(2)])
    moreover have "holds st1 (ck_id x) (ck_fp x)" using p(5) x by blast
    ultimately show ?thesis unfolding data_ok_def by blast
  qed
  have id: "\<forall>x\<in>set cs'. \<not> is_file_mark x \<longrightarrow> holds st1 (ck_id x) (ck_fp x) \<and> ck_id x \<noteq> TEMPORARY_ID"
    using p(5) holds_nonneg [OF si(1)] by (fastforce simp: TEMPORARY_ID_def)
  have rep1: "buf_rep (fs_ix st1) (data_fps cs' @ rest)" using rep fps buf_rep_same [OF p(3)] by simp
  from update_chunks_rep [OF rep1] id obtain ix2 where u: "rfold update_buffer_chunk cs' (fs_ix st1) = Inr ix2" "buf_rep ix2 rest"
    by auto
  have ix1: "ix_sound (holds st1) (fs_ix st1)"
    unfolding ix_sound_same [OF p(3)] by (rule ix_sound_mono [OF ix p(4)])
  note af = update_chunks_after [OF u(1) id ix1]
  let ?st2 = "st1\<lparr>fs_ix := ix2\<rparr>" and ?s2 = "s\<lparr>seg_chunks := cs'\<rparr>"
  have u2: "index_update_buffer (fc_ix cfg) ?s2 (fs_ix st1) = Inr (\<not> (wait_threshold (fc_ix cfg) \<le> 0 \<or> chunk_num ix2 < wait_threshold (fc_ix cfg)), ix2)"
    using u(1) by (simp add: index_update_buffer_def)
  note rf = rec_files_kept [OF k2 wf]
  have "seg_inv ?s2" using num(1) fps by (simp add: seg_inv_def)
  from segment_recipe_ok [of cfg ?st2 segs rs ?s2] v wf nf p(6-8) num this rf pointers_ok [OF _ si(1) cnt1, of cs'] loc
  obtain sid bv acc j where r: "segment_recipe cfg ?s2 ?st2 =
       Inr (sid, ?st2\<lparr>fs_bv := bv, fs_access := acc, fs_file := snd (rec_files (fs_file st) (seg_chunks s)), fs_jcr := j\<rparr>)" "in64 sid"
     "ver_rep (fc_be cfg) bv acc (segs @ [map ptr (data_chunks cs')]) None (rs @ fst (rec_files (fs_file st) (seg_chunks s)))"
     "same_head (fs_bv st) bv" "name_fits (snd (rec_files (fs_file st) (seg_chunks s)))" by auto
  let ?st3 = "?st2\<lparr>fs_bv := bv, fs_access := acc, fs_file := snd (rec_files (fs_file st) (seg_chunks s)), fs_jcr := j\<rparr>"
  have ok3: "f_ok cfg D ?st3"
    by (rule f_ok_frame [OF p(2)]) (use si(2) update_chunks_htable [OF u(1)] in \<open>simp_all add: ix_ok_def\<close>)
  have fp20: "\<forall>c\<in>set (seg_chunks ?s2). length (ck_fp c) = 20"
    using list_all2_right [OF k2] c by (fastforce simp: kept_def)
  from ok3 have "ix_ok cfg (fs_ix ?st3)" "tables_sound ?st3" "store_inv (fc_sim cfg) D ?st3" by (simp_all only: f_ok_def)
  from index_segment_ok [OF this(1) cfg r(2) fp20 \<open>seg_inv ?s2\<close> this(2,3)] obtain ix4 where
    i4: "index_segment cfg ?s2 sid ?st3 = Inr (?st3\<lparr>fs_ix := ix4\<rparr>)" "ix_ok cfg ix4" "ix_same ix2 ix4" by auto
  let ?st4 = "?st3\<lparr>fs_ix := ix4\<rparr>"
  have h4: "holds ?st4 = holds st1" "cb_keys ?st4 = cb_keys st1" by (rule pool_cb_cong; simp)+
  have ok4: "f_ok cfg D ?st4" by (rule f_ok_frame [OF ok3]) (use i4(2) in simp_all)
  have run: "filter_segment cfg s st = Inr (wait_threshold (fc_ix cfg) > 0 \<and>
      (wait_threshold (fc_ix cfg) \<le> 0 \<or> chunk_num ix2 < wait_threshold (fc_ix cfg)), ?s2, ?st4)"
    using cs(1) 1(1) u2 r(1) i4(1) by (simp add: filter_segment_def index_check_buffer_def Let_def)
  have "seg_done cfg D segs rs s st ?s2 ?st4"
    unfolding seg_done_def h4 using k2 ok4 p(4,9,10) loc fps len r(3,4,5) by (auto simp: data_chunks_def)
  moreover have "heads_ok (fs_ix st) ix4 (set (data_fps (seg_chunks s)))"
    unfolding heads_ok_same [OF p(3) i4(3), symmetric] using af fps by simp
  moreover have "buf_rep ix4 rest" "ix_sound (holds st1) ix4"
    unfolding buf_rep_same [OF i4(3)] ix_sound_same [OF i4(3)] using u(2) af by simp_all
  ultimately show ?thesis unfolding run using h4 by auto
qed

end
