(* ===== verification/Backup_Laws.thy ===== *)
theory Backup_Laws
  imports Filter_Segment
begin

text \<open>
  What the steps of the backup pipeline need of one another. From the lookup: the shape of a looked-up chunk
  (\<open>lookup_chunk_shape\<close>) and that a looked-up segment keeps \<open>pending_ok\<close> of everything in flight
  (\<open>lookup_chunks_pending\<close>). From the filter: it hands containers to the append thread only at the end of the
  buffer (\<open>pool_ext\<close>). From the container store: a slot of the pool file that no accepted container owns is
  blank, so that reading the metadata of any container gives genuine metadata or fails (\<open>store_env_sound\<close>).
\<close>

subsection \<open>The shape of a looked-up chunk\<close>

definition same_data :: "chunk \<Rightarrow> chunk \<Rightarrow> bool" where
  "same_data c d \<longleftrightarrow> ck_fp d = ck_fp c \<and> ck_size d = ck_size c \<and> ck_data d = ck_data c \<and>
     CHECK_CHUNK d CHUNK_FILE_START = CHECK_CHUNK c CHUNK_FILE_START \<and> CHECK_CHUNK d CHUNK_FILE_END = CHECK_CHUNK c CHUNK_FILE_END"

definition carried :: "chunk \<Rightarrow> chunk \<Rightarrow> bool" where
  "carried c d \<longleftrightarrow> same_data c d \<and> (is_file_mark c \<longrightarrow> d = c)"

definition same_frag :: "chunk \<Rightarrow> chunk \<Rightarrow> bool" where
  "same_frag c d \<longleftrightarrow> CHECK_CHUNK d CHUNK_SPARSE = CHECK_CHUNK c CHUNK_SPARSE \<and> CHECK_CHUNK d CHUNK_OUT_OF_ORDER = CHECK_CHUNK c CHUNK_OUT_OF_ORDER"

lemma same_data_refl [simp]: "same_data c c" "same_frag c c"
  by (simp_all add: same_data_def same_frag_def)

lemma same_data_trans: "same_data a b \<Longrightarrow> same_data b c \<Longrightarrow> same_data a c"
  by (simp add: same_data_def)

lemma same_frag_trans: "same_frag a b \<Longrightarrow> same_frag b c \<Longrightarrow> same_frag a c"
  by (simp add: same_frag_def)

lemma same_data_mark: "same_data c d \<Longrightarrow> is_file_mark d = is_file_mark c"
  by (simp add: same_data_def is_file_mark_def)

lemma same_mark_dup: "same_data c (SET_CHUNK (c\<lparr>ck_id := i\<rparr>) CHUNK_DUPLICATE)" "same_frag c (SET_CHUNK (c\<lparr>ck_id := i\<rparr>) CHUNK_DUPLICATE)"
  by (simp_all add: same_data_def same_frag_def cfg_simps)

lemma same_mark_denied: "same_data c (SET_CHUNK c CHUNK_REWRITE_DENIED)" "same_frag c (SET_CHUNK c CHUNK_REWRITE_DENIED)"
  by (simp_all add: same_data_def same_frag_def cfg_simps)

definition found_shape :: "chunk \<Rightarrow> chunk \<Rightarrow> bool" where
  "found_shape c d \<longleftrightarrow> same_data c d \<and> same_frag c d \<and>
     (d = c \<or> \<not> CHECK_CHUNK c CHUNK_DUPLICATE \<and> CHECK_CHUNK d CHUNK_DUPLICATE \<and> ck_id d \<noteq> TEMPORARY_ID)"

lemma found_shape_refl: "found_shape c c"
  by (simp add: found_shape_def)

lemma found_shape_trans: "found_shape a b \<Longrightarrow> found_shape b c \<Longrightarrow> found_shape a c"
  unfolding found_shape_def using same_data_trans same_frag_trans by blast

lemma take_id_shape:
  assumes "take_id tr env junk i (c, s) = Inr (c', s')" "\<not> CHECK_CHUNK c CHUNK_DUPLICATE" "i \<noteq> TEMPORARY_ID"
  shows "found_shape c c'"
  using take_id_eq [OF assms(1)] assms(2,3) same_mark_dup [of c i] by (simp add: found_shape_def)

lemma check_cache_shape:
  assumes "check_cache tr cfg env junk (c, s) = Inr (c', s')"
  shows "found_shape c c'"
  using assms take_id_shape
  by (fastforce simp: check_cache_def rbind_Inr_iff found_shape_refl split: if_splits)

lemma check_kvstore_shape:
  assumes "check_kvstore tr cfg env junk (c, s) = Inr (c', s')"
  shows "found_shape c c'"
  using assms take_id_shape
  by (fastforce simp: check_kvstore_def rbind_Inr_iff found_shape_refl split: if_splits option.splits list.splits)

lemma check_storage_shape:
  assumes "\<not> CHECK_CHUNK c CHUNK_DUPLICATE"
  shows "same_data c (check_storage cb c)" "same_frag c (check_storage cb c)"
    "\<not> CHECK_CHUNK (check_storage cb c) CHUNK_DUPLICATE \<longleftrightarrow> (\<forall>b. cb = Some b \<longrightarrow> ck_fp c \<notin> keys_of b)"
    "CHECK_CHUNK (check_storage cb c) CHUNK_DUPLICATE \<Longrightarrow> \<exists>b. cb = Some b \<and> ck_id (check_storage cb c) = idof b"
    "\<not> CHECK_CHUNK (check_storage cb c) CHUNK_DUPLICATE \<Longrightarrow> check_storage cb c = c"
proof -
  have k: "lookup_fingerprint_in_container b (ck_fp c) \<longleftrightarrow> ck_fp c \<in> keys_of b" for b
    by (simp add: lookup_fingerprint_in_container_def lookup_fingerprint_in_container_meta_def keys_of_def map_of_eq_None_iff)
  have "same_data c (SET_CHUNK (SET_CHUNK (c\<lparr>ck_id := i\<rparr>) CHUNK_DUPLICATE) CHUNK_REWRITE_DENIED)"
    "same_frag c (SET_CHUNK (SET_CHUNK (c\<lparr>ck_id := i\<rparr>) CHUNK_DUPLICATE) CHUNK_REWRITE_DENIED)" for i
    using same_mark_dup same_mark_denied same_data_trans same_frag_trans by blast+
  with assms k show "same_data c (check_storage cb c)" "same_frag c (check_storage cb c)"
    "\<not> CHECK_CHUNK (check_storage cb c) CHUNK_DUPLICATE \<longleftrightarrow> (\<forall>b. cb = Some b \<longrightarrow> ck_fp c \<notin> keys_of b)"
    "CHECK_CHUNK (check_storage cb c) CHUNK_DUPLICATE \<Longrightarrow> \<exists>b. cb = Some b \<and> ck_id (check_storage cb c) = idof b"
    "\<not> CHECK_CHUNK (check_storage cb c) CHUNK_DUPLICATE \<Longrightarrow> check_storage cb c = c"
    by (simp_all add: check_storage_def get_container_id_def split: option.splits if_splits)
qed

lemma check_buffered_shape:
  assumes "check_buffered s c = Inr (tq, c')"
  shows "same_data c c'" "same_frag c c'" "CHECK_CHUNK c CHUNK_DUPLICATE \<Longrightarrow> c' = c"
    "\<not> CHECK_CHUNK c' CHUNK_DUPLICATE \<Longrightarrow> c' = c \<and> map_of (buffered_fingerprints s) (ck_fp c) = None"
    "\<not> CHECK_CHUNK c CHUNK_DUPLICATE \<Longrightarrow> CHECK_CHUNK c' CHUNK_DUPLICATE \<Longrightarrow>
       map_of (buffered_fingerprints s) (ck_fp c) \<noteq> None \<and> ck_id c' = head_id s (ck_fp c)"
    "tq = (case map_of (buffered_fingerprints s) (ck_fp c) of None \<Rightarrow> [] | Some q \<Rightarrow> q)"
  using assms same_mark_dup [of c]
  by (auto simp: check_buffered_def head_id_def split: option.splits list.splits if_splits)

text \<open>What the lookup makes of a chunk that carries no mark yet.\<close>

definition looked_up :: "container option \<Rightarrow> index_state \<Rightarrow> chunk \<Rightarrow> chunk \<Rightarrow> bool" where
  "looked_up cb s c d \<longleftrightarrow> same_data c d \<and> same_frag c d \<and>
     (\<not> CHECK_CHUNK d CHUNK_DUPLICATE \<longrightarrow> map_of (buffered_fingerprints s) (ck_fp c) = None \<and>
        (\<forall>b. cb = Some b \<longrightarrow> ck_fp c \<notin> keys_of b)) \<and>
     (CHECK_CHUNK d CHUNK_DUPLICATE \<and> ck_id d = TEMPORARY_ID \<longrightarrow>
        map_of (buffered_fingerprints s) (ck_fp c) \<noteq> None \<and> head_id s (ck_fp c) = TEMPORARY_ID)"

lemma head_push:
  "head_id (push_buffered (case map_of (buffered_fingerprints s) (ck_fp c) of None \<Rightarrow> [] | Some q \<Rightarrow> q) c s) f =
     (if f = ck_fp c \<and> (case map_of (buffered_fingerprints s) f of None \<Rightarrow> True | Some q \<Rightarrow> q = []) then ck_id c else head_id s f)"
  by (auto simp: head_id_def push_buffered_def update_conv' split: option.splits list.splits)

lemma lookup_chunk_shape:
  assumes l: "index_lookup_chunk tr kv cfg env junk cb c s = Inr (c', s')" and nm: "\<not> is_file_mark c" "\<not> CHECK_CHUNK c CHUNK_DUPLICATE"
    and cb: "\<And>b. cb = Some b \<Longrightarrow> 0 \<le> idof b" and env: "env_sound cfg g env"
  shows "looked_up cb s c c' \<and>
     (\<forall>f. head_id s' f = (if f = ck_fp c \<and> (case map_of (buffered_fingerprints s) f of None \<Rightarrow> True | Some q \<Rightarrow> q = [])
        then ck_id c' else head_id s f))"
proof -
  from lookup_chunk_stages [OF l nm(1)] obtain tq c1 p s2 where
    b: "check_buffered s (check_storage cb c) = Inr (tq, c1)" and
    ca: "check_cache tr cfg env junk (c1, s) = Inr p" and
    kv: "(if kv then check_kvstore tr cfg env junk p else Inr p) = Inr (c', s2)" and
    s': "s' = push_buffered tq c' s2" by blast
  note st = check_storage_shape [OF nm(2), of cb] and bs = check_buffered_shape [OF b]
  have f1: "found_shape c1 (fst p)" using check_cache_shape [of tr cfg env junk c1 s "fst p" "snd p"] ca by simp
  have "found_shape (fst p) c'"
    using check_kvstore_shape [of tr cfg env junk "fst p" "snd p" c' s2] kv by (auto simp: found_shape_refl split: if_splits)
  note f = found_shape_trans [OF f1 this]
  have fo: "found_ok g (c1, s) (c', s2)"
    by (rule found_ok_trans [OF check_cache_found [OF ca] pair_found_ok [OF kv env]])
  have fp0: "ck_fp (check_storage cb c) = ck_fp c" using st(1) by (simp add: same_data_def)
  have sd: "same_data c c'" "same_frag c c'"
    using st(1,2) bs(1,2) f same_data_trans same_frag_trans unfolding found_shape_def by blast+
  have u: "map_of (buffered_fingerprints s) (ck_fp c) = None \<and> (\<forall>b. cb = Some b \<longrightarrow> ck_fp c \<notin> keys_of b)"
    if "\<not> CHECK_CHUNK c' CHUNK_DUPLICATE"
  proof -
    from that f have "\<not> CHECK_CHUNK c1 CHUNK_DUPLICATE" by (auto simp: found_shape_def)
    from bs(4) [OF this] fp0 have "c1 = check_storage cb c" "map_of (buffered_fingerprints s) (ck_fp c) = None" by auto
    with st(3) \<open>\<not> CHECK_CHUNK c1 CHUNK_DUPLICATE\<close> show ?thesis by simp
  qed
  have t: "map_of (buffered_fingerprints s) (ck_fp c) \<noteq> None \<and> head_id s (ck_fp c) = TEMPORARY_ID"
    if "CHECK_CHUNK c' CHUNK_DUPLICATE" "ck_id c' = TEMPORARY_ID"
  proof -
    from that f have c1: "CHECK_CHUNK c1 CHUNK_DUPLICATE" "ck_id c1 = TEMPORARY_ID" by (auto simp: found_shape_def)
    have "\<not> CHECK_CHUNK (check_storage cb c) CHUNK_DUPLICATE"
    proof
      assume d: "CHECK_CHUNK (check_storage cb c) CHUNK_DUPLICATE"
      from st(4) [OF d] obtain b' where "cb = Some b'" "ck_id (check_storage cb c) = idof b'" by blast
      with bs(3) [OF d] c1(2) cb show False by (auto simp: TEMPORARY_ID_def)
    qed
    from bs(5) [OF this c1(1)] c1(2) fp0 show ?thesis by simp
  qed
  have e: "buffered_fingerprints s2 = buffered_fingerprints s" using fo by (simp add: found_ok_def)
  have fpc: "ck_fp c' = ck_fp c" using sd by (simp add: same_data_def)
  have "s' = push_buffered (case map_of (buffered_fingerprints s2) (ck_fp c') of None \<Rightarrow> [] | Some q \<Rightarrow> q) c' s2"
    unfolding s' using bs(6) e fpc fp0 by simp
  moreover have "head_id s2 = head_id s" by (simp add: head_id_def e fun_eq_iff)
  ultimately have h: "head_id s' f = (if f = ck_fp c \<and> (case map_of (buffered_fingerprints s) f of None \<Rightarrow> True | Some q \<Rightarrow> q = [])
        then ck_id c' else head_id s f)" for f
    using head_push [of s2 c' f] e fpc by (cases "f = ck_fp c") simp_all
  from sd u t h show ?thesis by (simp add: looked_up_def)
qed

subsection \<open>The stretch of chunks between lookup and filter\<close>

definition uniq :: "chunk list \<Rightarrow> fingerprint set" where
  "uniq cs = ck_fp ` {c \<in> set cs. \<not> is_file_mark c \<and> \<not> CHECK_CHUNK c CHUNK_DUPLICATE}"

lemma uniq_simps [simp]:
  "uniq [] = {}" "uniq (c # cs) = (if is_file_mark c \<or> CHECK_CHUNK c CHUNK_DUPLICATE then uniq cs else insert (ck_fp c) (uniq cs))"
  by (auto simp: uniq_def)

lemma uniq_append: "uniq (cs @ ds) = uniq cs \<union> uniq ds"
  by (auto simp: uniq_def)

lemma data_fps_simps [simp]:
  "data_fps [] = []" "data_fps (c # cs) = (if is_file_mark c then data_fps cs else ck_fp c # data_fps cs)"
  "data_fps (cs @ ds) = data_fps cs @ data_fps ds"
  by (simp_all add: data_fps_def)

lemma uniq_fps: "uniq cs \<subseteq> set (data_fps cs)"
  by (auto simp: uniq_def data_fps_def)

lemma pending_append:
  "pending_ok cfg ix K U (cs @ ds) \<longleftrightarrow>
     pending_ok cfg ix K U cs \<and> pending_ok cfg ix (K \<union> set (data_fps cs)) (U \<union> uniq cs) ds"
proof (induction cs arbitrary: K U)
  case (Cons c cs)
  have "insert (ck_fp c) K \<union> set (data_fps cs) = K \<union> insert (ck_fp c) (set (data_fps cs))"
    "insert (ck_fp c) U \<union> uniq cs = U \<union> insert (ck_fp c) (uniq cs)" by auto
  with Cons show ?case by (cases "is_file_mark c"; cases "CHECK_CHUNK c CHUNK_DUPLICATE") auto
qed simp

lemma pending_weaken:
  "pending_ok cfg ix K U cs \<Longrightarrow> K' \<subseteq> K \<Longrightarrow>
   \<forall>f\<in>set (data_fps cs). f \<in> U \<or> head_id ix f \<noteq> TEMPORARY_ID \<longrightarrow> f \<in> U' \<or> head_id ix' f \<noteq> TEMPORARY_ID \<Longrightarrow>
   pending_ok cfg ix' K' U' cs"
proof (induction cs arbitrary: K K' U U')
  case (Cons c cs)
  show ?case
  proof (cases "is_file_mark c")
    case True
    with Cons show ?thesis by simp
  next
    case False
    let ?V = "if CHECK_CHUNK c CHUNK_DUPLICATE then U else insert (ck_fp c) U"
    let ?V' = "if CHECK_CHUNK c CHUNK_DUPLICATE then U' else insert (ck_fp c) U'"
    from Cons.prems(1) False have "pending_ok cfg ix (insert (ck_fp c) K) ?V cs" by simp
    then have "pending_ok cfg ix' (insert (ck_fp c) K') ?V' cs"
      by (rule Cons.IH) (use Cons.prems(2,3) False in auto)
    with Cons.prems False show ?thesis by auto
  qed
qed simp

text \<open>A chunk as the segmenting hands it to the lookup.\<close>

definition fresh :: "filter_cfg \<Rightarrow> chunk \<Rightarrow> bool" where
  "fresh cfg c \<longleftrightarrow> \<not> CHECK_CHUNK c CHUNK_DUPLICATE \<and> ck_id c = TEMPORARY_ID \<and>
     (index_category0 (fc_ix cfg) = INDEX_CATEGORY_EXACT \<and> fc_no_rewrite cfg \<longrightarrow>
       \<not> CHECK_CHUNK c CHUNK_SPARSE \<and> \<not> CHECK_CHUNK c CHUNK_OUT_OF_ORDER)"

lemma buf_head:
  assumes "buf_rep s pend"
  shows "(case map_of (buffered_fingerprints s) f of None \<Rightarrow> True | Some q \<Rightarrow> q = []) \<longleftrightarrow> f \<notin> set pend"
    "map_of (buffered_fingerprints s) f = None \<longleftrightarrow> f \<notin> set pend"
proof -
  from assms have a: "case map_of (buffered_fingerprints s) f of None \<Rightarrow> f \<notin> set pend
    | Some q \<Rightarrow> q \<noteq> [] \<and> length q = count (mset pend) f" by (simp add: buf_rep_def)
  then show "map_of (buffered_fingerprints s) f = None \<longleftrightarrow> f \<notin> set pend" by (rule_tac buf_rep_None [OF assms])
  with a show "(case map_of (buffered_fingerprints s) f of None \<Rightarrow> True | Some q \<Rightarrow> q = []) \<longleftrightarrow> f \<notin> set pend"
    by (cases "map_of (buffered_fingerprints s) f") auto
qed

lemma lookup_chunks_pending:
  assumes cb: "\<And>b. cb = Some b \<Longrightarrow> 0 \<le> idof b" and env: "env_sound ixc g env" and ixc: "ixc = fc_ix cfg"
  shows "lookup_chunks (index_lookup_chunk tr kv ixc env junk cb) cs s = Inr (cs', s') \<Longrightarrow> \<forall>c\<in>set cs. fresh cfg c \<Longrightarrow>
     buf_rep s pend \<Longrightarrow> \<forall>f\<in>set pend. head_id s f = TEMPORARY_ID \<longrightarrow> f \<in> U \<Longrightarrow>
     K \<subseteq> (case cb of None \<Rightarrow> {} | Some b \<Rightarrow> keys_of b) \<union> set pend \<Longrightarrow>
     pending_ok cfg s' K U cs' \<and> (\<forall>f\<in>set pend. head_id s' f = head_id s f) \<and> list_all2 carried cs cs' \<and>
     (\<forall>f\<in>set pend \<union> set (data_fps cs). head_id s' f = TEMPORARY_ID \<longrightarrow> f \<in> U \<union> uniq cs')"
proof (induction cs arbitrary: s cs' pend U K)
  case (Cons c cs)
  from Cons.prems(1) obtain c1 s1 cs1 where
    c1: "index_lookup_chunk tr kv ixc env junk cb c s = Inr (c1, s1)" and
    r: "lookup_chunks (index_lookup_chunk tr kv ixc env junk cb) cs s1 = Inr (cs1, s')" "cs' = c1 # cs1"
    by (auto simp: rbind_Inr_iff)
  show ?case
  proof (cases "is_file_mark c")
    case True
    with c1 have "c1 = c" "s1 = s" by (auto simp: index_lookup_chunk_def is_file_mark_def)
    with Cons.IH [OF r(1)] Cons.prems r(2) True show ?thesis by (auto simp: carried_def)
  next
    case False
    have fr: "fresh cfg c" using Cons.prems(2) by simp
    then have nd: "\<not> CHECK_CHUNK c CHUNK_DUPLICATE" by (simp add: fresh_def)
    from lookup_chunk_shape [OF c1 False nd cb env] have sh: "looked_up cb s c c1"
      and h: "head_id s1 f = (if f = ck_fp c \<and> f \<notin> set pend then ck_id c1 else head_id s f)" for f
      unfolding buf_head [OF Cons.prems(3)] by blast+
    have sd: "same_data c c1" using sh by (simp add: looked_up_def)
    then have fp: "ck_fp c1 = ck_fp c" "is_file_mark c1 = is_file_mark c" "same_data c c1"
      by (simp_all add: same_data_mark) (simp add: same_data_def)
    let ?U = "if CHECK_CHUNK c1 CHUNK_DUPLICATE then U else insert (ck_fp c) U"
    have rep: "buf_rep s1 (pend @ [ck_fp c])" using lookup_chunk_rep [OF c1 Cons.prems(3) env] False by simp
    have t: "CHECK_CHUNK c1 CHUNK_DUPLICATE \<and> ck_id c1 = TEMPORARY_ID \<longrightarrow> ck_fp c \<in> set pend \<and> head_id s (ck_fp c) = TEMPORARY_ID"
      and u: "\<not> CHECK_CHUNK c1 CHUNK_DUPLICATE \<longrightarrow> ck_fp c \<notin> set pend \<and> (\<forall>b. cb = Some b \<longrightarrow> ck_fp c \<notin> keys_of b)"
      using sh buf_head(2) [OF Cons.prems(3), of "ck_fp c"] by (auto simp: looked_up_def)
    have U: "\<forall>f\<in>set (pend @ [ck_fp c]). head_id s1 f = TEMPORARY_ID \<longrightarrow> f \<in> ?U"
      using Cons.prems(4) h t by auto
    have K: "insert (ck_fp c) K \<subseteq> (case cb of None \<Rightarrow> {} | Some b \<Rightarrow> keys_of b) \<union> set (pend @ [ck_fp c])"
      using Cons.prems(5) by auto
    have fr1: "\<forall>c\<in>set cs. fresh cfg c" using Cons.prems(2) by simp
    note IH = Cons.IH [OF r(1) fr1 rep U K]
    have "ck_fp c \<notin> K" if "\<not> CHECK_CHUNK c1 CHUNK_DUPLICATE" using u that Cons.prems(5) by (auto split: option.splits)
    moreover have "ck_fp c \<in> U" if "CHECK_CHUNK c1 CHUNK_DUPLICATE" "ck_id c1 = TEMPORARY_ID" using t that Cons.prems(4) by auto
    moreover have "same_frag c c1" using sh by (simp add: looked_up_def)
    ultimately have "pending_ok cfg s' K U (c1 # cs1)"
      using IH fr fp False by (auto simp: fresh_def same_frag_def)
    moreover have "\<forall>f\<in>set pend. head_id s' f = head_id s f" using IH h by auto
    moreover have "\<forall>f\<in>set pend \<union> set (data_fps (c # cs)). head_id s' f = TEMPORARY_ID \<longrightarrow> f \<in> U \<union> uniq (c1 # cs1)"
      using IH False fp by (auto split: if_splits)
    ultimately show ?thesis using IH fp(3) r(2) False by (simp add: carried_def)
  qed
qed simp

subsection \<open>The filter and the append thread\<close>

definition pool_ext :: "pool_sys \<Rightarrow> pool_sys \<Rightarrow> bool" where
  "pool_ext p p' \<longleftrightarrow> (\<exists>new. ps_accepted p' = ps_accepted p @ new \<and> ps_buffer p' = ps_buffer p @ new) \<and>
     ps_pool p' = ps_pool p \<and> ps_written p' = ps_written p \<and> ps_rtm p' = ps_rtm p"

lemma pool_ext_refl: "pool_ext p p"
  by (simp add: pool_ext_def)

lemma pool_ext_trans: "pool_ext a b \<Longrightarrow> pool_ext b c \<Longrightarrow> pool_ext a c"
  unfolding pool_ext_def by (metis append.assoc)

lemma pool_ext_count: "pool_ext p (p\<lparr>ps_count := n\<rparr>)"
  by (simp add: pool_ext_def)

lemma write_async_ext: "write_container_async b p = Inr p' \<Longrightarrow> pool_ext p p'"
  by (auto simp: write_container_async_def pool_ext_def rbind_Inr_iff split: if_splits)

lemma new_container_ext: "pool_ext (fs_pool st) (fs_pool (new_container cfg st))"
  by (simp add: new_container_def Let_def pool_ext_count split: prod.splits)

lemma index_container_pool: "index_container cfg b st = Inr st' \<Longrightarrow> fs_pool st' = fs_pool st"
  by (auto simp: index_container_def rbind_Inr_iff split: if_splits)

lemma room_full_ext:
  assumes "rbind (index_container cfg b st) (\<lambda>st. rbind (write_container_async b (fs_pool st)) (\<lambda>p. Inr (new_container cfg (st\<lparr>fs_pool := p\<rparr>)))) = Inr st'"
  shows "pool_ext (fs_pool st) (fs_pool st')"
proof -
  from assms obtain st1 p where 1: "index_container cfg b st = Inr st1" "write_container_async b (fs_pool st1) = Inr p"
    "st' = new_container cfg (st1\<lparr>fs_pool := p\<rparr>)" by (auto simp: rbind_Inr_iff)
  have "pool_ext (fs_pool st) p" using write_async_ext [OF 1(2)] index_container_pool [OF 1(1)] by simp
  with new_container_ext [of "st1\<lparr>fs_pool := p\<rparr>" cfg] show ?thesis unfolding 1(3) by (auto intro: pool_ext_trans)
qed

lemma make_room_ext:
  assumes "make_room cfg sz st = Inr st'"
  shows "pool_ext (fs_pool st) (fs_pool st')"
proof -
  let ?st = "if fs_cb st = None then (let st = new_container cfg st in if physical cfg then st\<lparr>fs_chunks := []\<rparr> else st) else st"
  have e: "pool_ext (fs_pool st) (fs_pool ?st)" using new_container_ext [of st cfg] pool_ext_refl by (simp add: Let_def)
  from assms obtain b where b: "fs_cb ?st = Some b"
    "(if container_overflow b sz then rbind (index_container cfg b ?st) (\<lambda>st. rbind (write_container_async b (fs_pool st)) (\<lambda>p.
        Inr (new_container cfg (st\<lparr>fs_pool := p\<rparr>)))) else Inr ?st) = Inr st'"
    unfolding make_room_def Let_def [where s = ?st] by (auto split: option.splits)
  show ?thesis
  proof (cases "container_overflow b sz")
    case True
    with b(2) room_full_ext have "pool_ext (fs_pool ?st) (fs_pool st')" by simp
    with e show ?thesis by (rule pool_ext_trans)
  qed (use b(2) e in simp)
qed

lemma write_chunk_ext:
  assumes "write_chunk cfg c st = Inr (c', st')"
  shows "pool_ext (fs_pool st) (fs_pool st')"
proof -
  from assms obtain st1 where 1: "make_room cfg (ck_size c) st = Inr st1" "(case fs_cb st1 of None \<Rightarrow> Inl NullDeref
     | Some b \<Rightarrow> rbind (add_chunk_to_container (fc_sim cfg) b c) (\<lambda>(added, b, c).
         let st = st1\<lparr>fs_cb := Some b\<rparr> in
         if added then Inr (c, record_written cfg c st)
         else rbind (c_assert (index_category0 (fc_ix cfg) \<noteq> INDEX_CATEGORY_EXACT \<or> \<not> fc_no_rewrite cfg)) (\<lambda>_. Inr (c, st)))) = Inr (c', st')"
    unfolding write_chunk_def rbind_Inr_iff by blast
  from 1(2) obtain b where "fs_cb st1 = Some b" by (cases "fs_cb st1") simp_all
  with 1(2) obtain added b1 c1 where "(if added then Inr (c1, record_written cfg c1 (st1\<lparr>fs_cb := Some b1\<rparr>))
      else rbind (c_assert (index_category0 (fc_ix cfg) \<noteq> INDEX_CATEGORY_EXACT \<or> \<not> fc_no_rewrite cfg)) (\<lambda>_. Inr (c1, st1\<lparr>fs_cb := Some b1\<rparr>))) = Inr (c', st')"
    by (auto simp: rbind_Inr_iff Let_def simp del: c_assert_Inr_iff)
  then have "fs_pool st' = fs_pool st1" by (cases added) (auto simp: record_written_frame rbind_Inr_iff)
  with make_room_ext [OF 1(1)] show ?thesis by simp
qed

lemma filter_chunk_ext:
  assumes "filter_chunk cfg c st = Inr (c', st')"
  shows "pool_ext (fs_pool st) (fs_pool st')"
proof (cases "CHECK_CHUNK c CHUNK_FILE_START \<or> CHECK_CHUNK c CHUNK_FILE_END")
  case True
  with assms show ?thesis by (simp add: filter_chunk_def pool_ext_refl)
next
  case False
  with assms obtain d e d' st1 where 1: "(if to_write (fs_enable_rewrite (switch_rewrite cfg st)) d then write_chunk cfg d (switch_rewrite cfg st)
      else Inr (d, switch_rewrite cfg st)) = Inr (d', st1)" "fs_pool st' = fs_pool st1"
    by (auto simp: filter_chunk_def rbind_Inr_iff Let_def)
  have "fs_pool (switch_rewrite cfg st) = fs_pool st" using switch_rewrite_eq [of cfg st] by auto
  with 1 write_chunk_ext [of cfg d "switch_rewrite cfg st" d' st1] show ?thesis by (auto simp: pool_ext_refl split: if_splits)
qed

lemma filter_chunks_ext: "filter_chunks cfg cs st = Inr (cs', st') \<Longrightarrow> pool_ext (fs_pool st) (fs_pool st')"
proof (induction cs arbitrary: st cs')
  case (Cons c cs)
  then obtain c1 st1 cs1 where "filter_chunk cfg c st = Inr (c1, st1)" "filter_chunks cfg cs st1 = Inr (cs1, st')"
    by (auto simp: rbind_Inr_iff)
  with Cons.IH filter_chunk_ext pool_ext_trans show ?case by blast
qed (simp add: pool_ext_refl)

lemma recipe_chunk_pool: "recipe_chunk cfg c st = Inr st' \<Longrightarrow> fs_pool st' = fs_pool st \<and> fs_cb st' = fs_cb st"
  by (auto simp: recipe_chunk_def rbind_Inr_iff split: option.splits if_splits)

lemma recipe_chunks_pool: "rfold (recipe_chunk cfg) cs st = Inr st' \<Longrightarrow> fs_pool st' = fs_pool st \<and> fs_cb st' = fs_cb st"
proof (induction cs arbitrary: st)
  case (Cons c cs)
  then obtain st1 where "recipe_chunk cfg c st = Inr st1" "rfold (recipe_chunk cfg) cs st1 = Inr st'" by (auto simp: rbind_Inr_iff)
  with Cons.IH recipe_chunk_pool show ?case by metis
qed simp

lemma filter_segment_ext:
  assumes "filter_segment cfg s st = Inr (w, s', st')"
  shows "pool_ext (fs_pool st) (fs_pool st')"
proof -
  let ?st0 = "st\<lparr>fs_unique := [], fs_rewritten := []\<rparr>"
  from assms obtain s1 r u sg where 1: "filter_chunks cfg (seg_chunks s1) ?st0 = Inr r"
    and 2: "segment_recipe cfg (s1\<lparr>seg_chunks := fst r\<rparr>) (snd r\<lparr>fs_ix := u\<rparr>) = Inr sg"
    and 3: "index_segment cfg (s1\<lparr>seg_chunks := fst r\<rparr>) (fst sg) (snd sg) = Inr st'"
    by (clarsimp simp: filter_segment_def rbind_Inr_iff Let_def case_prod_unfold)
  from 2 have "fs_pool (snd sg) = fs_pool (snd r)" by (auto simp: segment_recipe_def rbind_Inr_iff dest!: recipe_chunks_pool)
  moreover from 3 have "fs_pool st' = fs_pool (snd sg)" by (auto simp: index_segment_def rbind_Inr_iff Let_def split: if_splits)
  ultimately show ?thesis using filter_chunks_ext [of cfg "seg_chunks s1" ?st0 "fst r" "snd r"] 1 by simp
qed

text \<open>Pushing containers keeps the invariant of the pool, as the filter's own invariant provides their ids.\<close>

lemma pool_ext_inv:
  assumes p: "pool_inv be iter sim (fs_pool st)" and e: "pool_ext (fs_pool st) (fs_pool st')" and s: "store_inv sim D st'"
  shows "pool_inv be iter sim (fs_pool st')"
proof -
  from e obtain new where n: "ps_accepted (fs_pool st') = ps_accepted (fs_pool st) @ new" "ps_buffer (fs_pool st') = ps_buffer (fs_pool st) @ new"
    "ps_pool (fs_pool st') = ps_pool (fs_pool st)" "ps_written (fs_pool st') = ps_written (fs_pool st)" by (auto simp: pool_ext_def)
  from s have a: "distinct (map idof (ps_accepted (fs_pool st')))"
    "\<forall>c\<in>set (ps_accepted (fs_pool st')). container_ok sim c \<and> \<not> container_empty c"
    by (auto simp: store_inv_def all_containers_def)
  from p obtain old where o: "ps_accepted (fs_pool st) = old @ ps_buffer (fs_pool st)" "\<forall>c\<in>set old. stored be iter sim (ps_pool (fs_pool st)) c"
    "ps_written (fs_pool st) \<longrightarrow> (case ps_buffer (fs_pool st) of [] \<Rightarrow> False | c # _ \<Rightarrow> stored be iter sim (ps_pool (fs_pool st)) c)"
    by (auto simp: pool_inv_def)
  have "ps_written (fs_pool st') \<longrightarrow> (case ps_buffer (fs_pool st') of [] \<Rightarrow> False | c # _ \<Rightarrow> stored be iter sim (ps_pool (fs_pool st')) c)"
    using o(3) n by (cases "ps_buffer (fs_pool st)") auto
  with a o(1,2) n show ?thesis unfolding pool_inv_def by (auto intro!: exI [of _ old])
qed

subsection \<open>Slots no container owns\<close>

text \<open>The metadata region of such a slot is zero as far as the file reaches: containers are written only into their
  own slots, and a write behind the end fills the gap with zeros.\<close>

definition meta_start :: "int \<Rightarrow> containerid \<Rightarrow> nat" where
  "meta_start sim i = block_off sim i + (block_len sim - CONTAINER_META_SIZE)"

definition blank :: "int \<Rightarrow> byte list \<Rightarrow> containerid \<Rightarrow> bool" where
  "blank sim pool i \<longleftrightarrow>
     (\<forall>k\<ge>meta_start sim i. k < meta_start sim i + CONTAINER_META_SIZE \<longrightarrow> k < length pool \<longrightarrow> pool ! k = 0)"

definition pool_blank :: "int \<Rightarrow> pool_sys \<Rightarrow> bool" where
  "pool_blank sim p \<longleftrightarrow> (\<forall>i. 0 \<le> i \<longrightarrow> i \<notin> idof ` set (ps_accepted p) \<longrightarrow> blank sim (ps_pool p) i)"

lemma nth_f_write: "k < o2 \<or> o2 + length bs \<le> k \<Longrightarrow> k < length (f_write o2 bs f) \<Longrightarrow>
    f_write o2 bs f ! k = (if k < length f then f ! k else 0)"
  by (auto simp: f_write_def Let_def nth_append)

lemma blank_write:
  assumes "blank sim pool i" "0 \<le> i" "0 \<le> j" "i \<noteq> j" "length b = block_len sim"
  shows "blank sim (f_write (block_off sim j) b pool) i"
  unfolding blank_def
proof (intro allI impI)
  fix k assume k: "meta_start sim i \<le> k" "k < meta_start sim i + CONTAINER_META_SIZE" "k < length (f_write (block_off sim j) b pool)"
  have "CONTAINER_META_SIZE \<le> block_len sim" by (simp add: block_len_def cfg_simps)
  then have "block_off sim i \<le> k" "k < block_off sim i + block_len sim"
    using k(1,2) unfolding meta_start_def by linarith+
  then have "k < block_off sim j \<or> block_off sim j + length b \<le> k"
    using blocks_apart [OF assms(2,3,4), of sim] assms(5) by linarith
  from nth_f_write [OF this k(3)] k(1,2) assms(1) show "f_write (block_off sim j) b pool ! k = 0" by (simp add: blank_def)
qed

lemma unser_blank:
  assumes "set d \<subseteq> {0}" "unser_meta be pos i (ser_begin d 0) = Inr m"
  shows "cm_map m = []"
proof -
  have z: "take n (drop k d) = replicate n 0" if "k + n \<le> length d" for n k
  proof (rule replicate_eqI)
    fix y assume "y \<in> set (take n (drop k d))"
    then show "y = 0" using assms(1) by (auto dest: in_set_takeD in_set_dropD)
  qed (use that in simp)
  have zero: "from_le (replicate k 0) = (0 :: 'a::len word)" for k by (induction k) simp_all
  from assms(2) have l: "12 \<le> length d" "unser_entries be pos (nat (sint (from_le (rev (take 4 (drop 8 d))) :: 32 word))) 0
      (ser_begin d 0\<lparr>cptr := 16\<rparr>) [] = Inr (cm_map m)"
    by (auto simp: unser_meta_def unserial_int64_net unserial_int32_net unser_bytes_def rbind_Inr_iff ser_begin_def split: if_splits)
  have "take 4 (drop 8 d) = replicate 4 0" by (rule z) (use l(1) in simp)
  with l(2) show ?thesis by (simp add: zero)
qed

lemma store_env_sound:
  assumes p: "pool_inv be iter sim (fs_pool st)" "pool_blank sim (fs_pool st)" and it: "iter_ok iter"
    and ph: "index_category1 cfg = INDEX_CATEGORY_PHYSICAL_LOCALITY"
  shows "env_sound cfg (holds st) (store_env be iter sim (ps_buffer (fs_pool st)) (ps_pool (fs_pool st)) junk dir bv)"
proof -
  have "meta_sound (holds st) m"
    if r: "retrieve_container_meta_by_id be iter sim (ps_buffer (fs_pool st)) (ps_pool (fs_pool st)) i = Inr m" for i m
  proof (cases "i \<in> idof ` set (ps_accepted (fs_pool st))")
    case True
    then obtain c where c: "c \<in> set (ps_accepted (fs_pool st))" "i = idof c" by blast
    from accepted_readable [OF p(1) c(1) it] r c(2) have s: "same_meta (ct_meta c) m" by simp
    have "fp \<in> keys_of c" if "fp \<in> fst ` set (cm_map m)" for fp
    proof -
      from that have "map_of (cm_map m) fp \<noteq> None" by (simp add: map_of_eq_None_iff)
      with s have "map_of (cm_map (ct_meta c)) fp \<noteq> None" unfolding same_meta_def by (metis option.map_disc_iff)
      then show ?thesis by (simp add: keys_of_def map_of_eq_None_iff)
    qed
    moreover have "cm_id m = idof c" using s by (simp add: same_meta_def)
    ultimately show ?thesis using c(1) by (auto simp: meta_sound_def holds_def all_containers_def)
  next
    case False
    from p(1) have "set (ps_buffer (fs_pool st)) \<subseteq> set (ps_accepted (fs_pool st))" by (auto simp: pool_inv_def)
    with False have "find (\<lambda>c. container_check_id c i) (ps_buffer (fs_pool st)) = None"
      by (auto simp: find_None_iff container_check_id_def container_meta_check_id_def)
    with r obtain off d where d: "meta_offset sim i = Inr off" "seek_read off CONTAINER_META_SIZE (ps_pool (fs_pool st)) = Inr d"
      "unser_meta be True i (ser_begin d 0) = Inr m"
      by (auto simp: retrieve_container_meta_by_id_def rbind_Inr_iff)
    from d(2) have off: "0 \<le> off" by (auto simp: seek_read_def split: if_splits)
    have "0 \<le> i"
    proof (rule ccontr)
      assume "\<not> 0 \<le> i"
      with d(1) have "off < 0" by (simp add: meta_offset_def pool_offset_def Let_def cfg_simps split: if_splits)
      with off show False by simp
    qed
    from meta_offset_value [OF d(1) this] have o: "nat off = meta_start sim i" by (simp add: meta_start_def)
    from \<open>0 \<le> i\<close> p(2) False have b: "blank sim (ps_pool (fs_pool st)) i" by (simp add: pool_blank_def)
    have "set d \<subseteq> {0}"
    proof
      fix x assume "x \<in> set d"
      then obtain j where "j < length d" "x = d ! j" by (auto simp: in_set_conv_nth)
      with d(2) off b o show "x \<in> {0}" by (auto simp: seek_read_def f_read_def blank_def split: if_splits)
    qed
    with unser_blank [OF this d(3)] show ?thesis by (simp add: meta_sound_def)
  qed
  with ph show ?thesis by (auto simp: env_sound_def store_env_def)
qed

lemma pool_ext_blank: "pool_blank sim p \<Longrightarrow> pool_ext p p' \<Longrightarrow> pool_blank sim p'"
  by (auto simp: pool_blank_def pool_ext_def)

text \<open>The two steps of the append thread.\<close>

lemma append_steps:
  assumes st: "ps_buffer p = c # cs" and p: "pool_inv be iter sim p" and it: "iter_ok iter" and b: "pool_blank sim p"
  shows "\<not> ps_written p \<Longrightarrow> \<exists>p'. append_write be iter sim version c p = Inr p' \<and> pool_inv be iter sim p' \<and> pool_blank sim p' \<and>
       ps_accepted p' = ps_accepted p \<and> ps_count p' = ps_count p"
    and "ps_written p \<Longrightarrow> pool_inv be iter sim (p\<lparr>ps_buffer := cs, ps_written := False\<rparr>) \<and>
       pool_blank sim (p\<lparr>ps_buffer := cs, ps_written := False\<rparr>)"
proof -
  have c: "c \<in> set (ps_accepted p)" "container_ok sim c" using p st by (auto simp: pool_inv_def)
  show "\<exists>p'. append_write be iter sim version c p = Inr p' \<and> pool_inv be iter sim p' \<and> pool_blank sim p' \<and>
       ps_accepted p' = ps_accepted p \<and> ps_count p' = ps_count p" if w: "\<not> ps_written p"
  proof -
    have ne: "\<not> container_empty c" using p c(1) by (simp add: pool_inv_def)
    from write_container_block [of sim c iter be "ps_pool p" "ps_count p"] c(2) ne it obtain d where
      d: "write_container be iter sim c (ps_pool p, ps_count p) = Inr (f_write (block_off sim (idof c)) d (ps_pool p), ps_count p)"
        "block_of be iter sim c d" by auto
    let ?p = "p\<lparr>ps_rtm := ps_rtm p @ [new_rtm version c], ps_pool := f_write (block_off sim (idof c)) d (ps_pool p), ps_written := True\<rparr>"
    have a: "append_write be iter sim version c p = Inr ?p" using d(1) by (simp add: append_write_def)
    have "pool_inv be iter sim ?p"
      by (rule pool_step_inv [OF pool_step.write_top [OF st w a] p it])
    moreover have "pool_blank sim ?p"
      using b c blank_write [of sim "ps_pool p" _ "idof c" d] d(2)
      by (auto simp: pool_blank_def block_of_def container_ok_def)
    ultimately show ?thesis using a by simp
  qed
  show "pool_inv be iter sim (p\<lparr>ps_buffer := cs, ps_written := False\<rparr>) \<and> pool_blank sim (p\<lparr>ps_buffer := cs, ps_written := False\<rparr>)"
    if w: "ps_written p"
    using pool_step_inv [OF pool_step.pop_top [OF st w] p it] b by (simp add: pool_blank_def)
qed

subsection \<open>What depends on the contents of the stream only\<close>

lemma carried_fps:
  "list_all2 carried cs ds \<Longrightarrow> data_fps ds = data_fps cs \<and> normal_count ds = normal_count cs \<and>
   rec_files f ds = rec_files f cs \<and> file_wf op ds = file_wf op cs"
proof (induction arbitrary: f op rule: list_all2_induct)
  case (Cons c cs d ds)
  have d: "is_file_mark d = is_file_mark c" "ck_fp d = ck_fp c" "ck_size d = ck_size c" "ck_data d = ck_data c"
    "CHECK_CHUNK d CHUNK_FILE_END = CHECK_CHUNK c CHUNK_FILE_END" "CHECK_CHUNK d CHUNK_FILE_START = CHECK_CHUNK c CHUNK_FILE_START"
    using Cons.hyps(1) same_data_mark unfolding carried_def same_data_def by blast+
  have "normal_count (d # ds) = normal_count (c # cs)" using Cons.IH d(1) by (simp add: normal_count_def)
  with Cons.IH d show ?case by (cases f; cases op) auto
qed simp

lemma carried_trans: "carried a b \<Longrightarrow> carried b c \<Longrightarrow> carried a c"
  unfolding carried_def using same_data_trans same_data_mark by metis

lemma carried_refl: "carried c c"
  by (simp add: carried_def)

lemma kept_carried:
  assumes "kept c d" "is_file_mark c \<longrightarrow> d = c"
  shows "carried c d"
proof (cases "is_file_mark c")
  case False
  then have "\<not> is_file_mark d" using assms(1) by (simp add: kept_def)
  with False assms(1) show ?thesis by (simp add: carried_def same_data_def kept_def is_file_mark_def)
qed (use assms(2) in \<open>simp add: carried_def\<close>)

lemma carried_data: "carried c d \<Longrightarrow> data_ok D c \<Longrightarrow> data_ok D d"
  unfolding carried_def same_data_def data_ok_def by metis

lemma frag_carried:
  assumes "frag_only c d"
  shows "carried c d"
proof -
  have "is_file_mark c \<longrightarrow> d = c" using assms unfolding frag_only_def is_signal_def is_file_mark_def by blast
  moreover have "same_data c d"
    unfolding same_data_def using frag_only_fields [OF assms] frag_only_same(7,8) [OF assms] by blast
  ultimately show ?thesis by (simp only: carried_def)
qed

lemma rec_files_append:
  "rec_files f (cs @ ds) = (fst (rec_files f cs) @ fst (rec_files (snd (rec_files f cs)) ds), snd (rec_files (snd (rec_files f cs)) ds))"
  by (induction f cs rule: rec_files.induct) (auto simp: case_prod_unfold Let_def)

lemma file_wf_append:
  "file_wf (f \<noteq> None) (cs @ ds) \<longleftrightarrow> file_wf (f \<noteq> None) cs \<and> file_wf (snd (rec_files f cs) \<noteq> None) ds"
proof (induction f cs rule: rec_files.induct)
  case (2 c cs)
  then show ?case by simp
next
  case (3 r c cs)
  then show ?case by (cases "CHECK_CHUNK c CHUNK_FILE_END") (auto simp: case_prod_unfold Let_def)
qed simp

lemma lookup_chunks_htable:
  assumes env: "env_sound ixc g env"
  shows "lookup_chunks (index_lookup_chunk tr kv ixc env junk cb) cs s = Inr (cs', s') \<Longrightarrow> htable s' = htable s"
proof (induction cs arbitrary: s cs')
  case (Cons c cs)
  from Cons.prems obtain c1 s1 cs1 where
    c1: "index_lookup_chunk tr kv ixc env junk cb c s = Inr (c1, s1)" and
    r: "lookup_chunks (index_lookup_chunk tr kv ixc env junk cb) cs s1 = Inr (cs1, s')" by (auto simp: rbind_Inr_iff)
  have "htable s1 = htable s"
  proof (cases "is_file_mark c")
    case True
    with c1 show ?thesis by (auto simp: index_lookup_chunk_def is_file_mark_def)
  next
    case False
    from lookup_chunk_stages [OF c1 False] obtain tq d p s2 where
      b: "check_buffered s (check_storage cb c) = Inr (tq, d)" and ca: "check_cache tr ixc env junk (d, s) = Inr p" and
      kv: "(if kv then check_kvstore tr ixc env junk p else Inr p) = Inr (c1, s2)" and s1: "s1 = push_buffered tq c1 s2" by blast
    have "found_ok g (d, s) (c1, s2)" by (rule found_ok_trans [OF check_cache_found [OF ca] pair_found_ok [OF kv env]])
    then show ?thesis by (simp add: found_ok_def s1 push_buffered_def)
  qed
  with Cons.IH [OF r] show ?case by simp
qed simp

end
