(* ===== verification/Dedup_Phase.thy ===== *)
theory Dedup_Phase
  imports Segmenting Filter_Phase
begin

text \<open>
  The dedup phase, \<open>dedup_phase.c\<close>: the thread pops a chunk (or the end), hands it to the segmenting
  method, looks a finished segment up and sends it on between two marks. \<open>chunk_num\<close> and \<open>segment_num\<close>, which
  only feed messages, are left out. \<open>dedup_turn\<close> is one turn of the loop: what it pushes to \<open>dedup_queue\<close>, or
  \<open>None\<close> where it waits for the filter phase at the index buffer. The handover to the filter phase is
  \<open>dedup_filter_handover\<close>.
\<close>

definition send_segment :: "segment \<Rightarrow> chunk list" where
  "send_segment s = SET_CHUNK (new_chunk 0) CHUNK_SEGMENT_START # seg_chunks s @ [SET_CHUNK (new_chunk 0) CHUNK_SEGMENT_END]"

definition dedup_lookup ::
  "(byte list list \<Rightarrow> byte list list) \<Rightarrow> (segment list \<Rightarrow> segment list) \<Rightarrow> (chunk list \<Rightarrow> int \<Rightarrow> byte list list res) \<Rightarrow>
   ix_cfg \<Rightarrow> ix_env \<Rightarrow> int \<Rightarrow> container option \<Rightarrow> segment \<Rightarrow> index_state \<Rightarrow> (segment option \<times> index_state) res" where
  "dedup_lookup fiter siter sampling cfg env junk cb s ix =
     (if seg_chunk_num s > 0 then index_lookup fiter siter sampling cfg env junk cb s ix else Inr (Some s, ix))"

definition dedup_turn ::
  "segmenter \<Rightarrow> (segment \<Rightarrow> index_state \<Rightarrow> (segment option \<times> index_state) res) \<Rightarrow> chunk option \<Rightarrow>
   segment option \<times> index_state \<Rightarrow> (chunk list option \<times> segment option \<times> index_state) res" where
  "dedup_turn segmenting look c = (\<lambda>(tmp, ix).
     rbind (segmenting tmp c) (\<lambda>(s, tmp).
     case s of
       None \<Rightarrow> if c = None then Inl NullDeref else Inr (Some [], tmp, ix)
     | Some s \<Rightarrow> rbind (look s ix) (\<lambda>(s, ix). Inr (map_option send_segment s, tmp, ix))))"

text \<open>The room in the index buffer behind which a lookup waits; -1 is no limit.\<close>

definition start_dedup_phase :: "segment_algorithm \<Rightarrow> seg_cfg \<Rightarrow> int \<Rightarrow> int" where
  "start_dedup_phase alg cfg rewrite_size =
     (case alg of
        INDEX_SEGMENT_CONTENT_DEFINED \<Rightarrow> rewrite_size + index_segment_max cfg - 1
      | INDEX_SEGMENT_FIXED \<Rightarrow> rewrite_size + seg_avg cfg - 1
      | _ \<Rightarrow> -1)"

subsection \<open>The handover to the filter phase\<close>

definition seg_mark :: "chunk \<Rightarrow> bool" where
  "seg_mark c \<longleftrightarrow> CHECK_CHUNK c CHUNK_SEGMENT_START \<or> CHECK_CHUNK c CHUNK_SEGMENT_END"

lemma take_segment_chunks:
  assumes "list_all (\<lambda>c. \<not> seg_mark c) cs" and e: "CHECK_CHUNK e CHUNK_SEGMENT_END"
  shows "take_segment (cs @ e # rest) s =
     Some (s\<lparr>seg_chunks := seg_chunks s @ cs, seg_chunk_num := seg_chunk_num s + normal_count cs\<rparr>, rest)"
  using assms(1)
proof (induction cs arbitrary: s)
  case Nil
  with e show ?case by (simp add: normal_count_def)
next
  case (Cons c cs)
  then show ?case by (auto simp: seg_mark_def normal_count_def is_file_mark_def)
qed

definition handed :: "segment \<Rightarrow> chunk list \<Rightarrow> segment" where
  "handed s cs = new_segment\<lparr>seg_chunks := cs, seg_chunk_num := normal_count cs\<rparr>"

lemma forwarded_segment:
  assumes "list_all2 frag_only (send_segment s @ rest) ds" and "list_all (\<lambda>c. \<not> seg_mark c) (seg_chunks s)"
  shows "\<exists>cs ds'. list_all2 frag_only (seg_chunks s) cs \<and> list_all2 frag_only rest ds' \<and>
     segments_of ds = rbind (segments_of ds') (\<lambda>ss. Inr (handed s cs # ss))"
proof -
  let ?b = "SET_CHUNK (new_chunk 0) CHUNK_SEGMENT_START" and ?e = "SET_CHUNK (new_chunk 0) CHUNK_SEGMENT_END"
  from assms(1) obtain b cs e ds' where d: "ds = b # cs @ e # ds'" "frag_only ?b b" "list_all2 frag_only (seg_chunks s) cs"
    "frag_only ?e e" "list_all2 frag_only rest ds'"
    by (auto simp: send_segment_def list_all2_Cons1 list_all2_append1)
  have m: "CHECK_CHUNK b CHUNK_SEGMENT_START" "CHECK_CHUNK e CHUNK_SEGMENT_END"
    using frag_only_same(5) [OF d(2)] frag_only_same(6) [OF d(4)] by (simp_all add: cfg_simps)
  have "list_all (\<lambda>c. \<not> seg_mark c) cs"
    using d(3) assms(2) by (induction rule: list_all2_induct) (auto simp: seg_mark_def frag_only_same)
  from take_segment_chunks [OF this m(2), of ds' new_segment] m(1)
  have "segments_of ds = rbind (segments_of ds') (\<lambda>ss. Inr (handed s cs # ss))"
    by (simp add: d(1) handed_def seg_inv_new)
  with d(3,5) show ?thesis by blast
qed

text \<open>C9: the handover between the phases: the filter phase cuts the stream that the dedup phase has sent, whatever the
  rewrite phase has flagged in it, into exactly the segments that were looked up, with their chunk counts.\<close>

theorem dedup_filter_handover:
  assumes "list_all2 frag_only (concat (map send_segment ss)) ds" and "list_all (\<lambda>s. list_all (\<lambda>c. \<not> seg_mark c) (seg_chunks s)) ss"
  shows "\<exists>ts. segments_of ds = Inr ts \<and>
     list_all2 (\<lambda>s t. list_all2 frag_only (seg_chunks s) (seg_chunks t) \<and> seg_chunk_num t = normal_count (seg_chunks s)) ss ts"
  using assms
proof (induction ss arbitrary: ds)
  case (Cons s ss)
  from forwarded_segment [of s "concat (map send_segment ss)" ds] Cons.prems obtain cs ds' where
    d: "list_all2 frag_only (seg_chunks s) cs" "list_all2 frag_only (concat (map send_segment ss)) ds'"
      "segments_of ds = rbind (segments_of ds') (\<lambda>ss. Inr (handed s cs # ss))" by auto
  from Cons.IH [OF d(2)] Cons.prems(2) obtain ts where ts: "segments_of ds' = Inr ts"
    "list_all2 (\<lambda>s t. list_all2 frag_only (seg_chunks s) (seg_chunks t) \<and> seg_chunk_num t = normal_count (seg_chunks s)) ss ts" by auto
  have "normal_count cs = normal_count (seg_chunks s)"
    using d(1) by (induction rule: list_all2_induct) (auto simp: normal_count_def frag_only_same)
  with ts d show ?case by (auto simp: handed_def)
qed simp

theorem dedup_filter_handover_witness:
  "\<exists>ts. segments_of (send_segment (new_segment\<lparr>seg_chunks := [new_chunk 5, new_chunk 6]\<rparr>)) = Inr ts \<and> length ts = 1"
proof -
  let ?ss = "[new_segment\<lparr>seg_chunks := [new_chunk 5, new_chunk 6]\<rparr>]"
  have "list_all2 frag_only (concat (map send_segment ?ss)) (concat (map send_segment ?ss))"
    by (simp add: list_all2_same)
  from dedup_filter_handover [OF this] show ?thesis
    by (auto simp: seg_mark_def list_all2_Cons1)
qed

end
