(* ===== verification/Backup_Pipeline.thy ===== *)
theory Backup_Pipeline
  imports Backup_Laws Dedup_Phase
begin

text \<open>
  The backup job's threads on their shared state. \<open>bk_segs\<close> are the segments the segmenting method has cut and
  the dedup thread has not looked up, \<open>bk_flight\<close> those between lookup and filter (in \<open>dedup_queue\<close>,
  the rewrite buffer and \<open>rewrite_queue\<close>), \<open>bk_fs\<close> the state of the filter phase with the index and the
  container store. The lookup of a segment and the filter's work on one are critical sections under
  \<open>index_lock.mutex\<close>; the append thread's write and pop of a container are separate steps. The steps interleave freely.
\<close>

record backup_env =
  be_iter :: meta_iter
  be_version :: int
  be_dir :: recipe_dir
  be_junkp :: chunkPointer
  be_fiter :: "byte list list \<Rightarrow> byte list list"
  be_siter :: "segment list \<Rightarrow> segment list"

record backup =
  bk_segs :: "segment list"
  bk_flight :: "segment list"
  bk_fs :: filter_state

definition index_env :: "backup_env \<Rightarrow> filter_cfg \<Rightarrow> filter_state \<Rightarrow> ix_env" where
  "index_env e cfg st =
     store_env (fc_be cfg) (be_iter e) (fc_sim cfg) (ps_buffer (fs_pool st)) (ps_pool (fs_pool st)) (be_junkp e) (be_dir e) (fs_bv st)"

text \<open>What the rewrite phase does to what is in flight: it flags. With an exact index and no rewriting, neither an
  algorithm nor the history-aware one, it does nothing.\<close>

definition flagged :: "filter_cfg \<Rightarrow> segment \<Rightarrow> segment \<Rightarrow> bool" where
  "flagged cfg s t \<longleftrightarrow> t = s\<lparr>seg_chunks := seg_chunks t\<rparr> \<and> list_all2 frag_only (seg_chunks s) (seg_chunks t) \<and>
     (index_category0 (fc_ix cfg) = INDEX_CATEGORY_EXACT \<and> fc_no_rewrite cfg \<longrightarrow> seg_chunks t = seg_chunks s)"

inductive backup_step :: "backup_env \<Rightarrow> filter_cfg \<Rightarrow> backup \<Rightarrow> backup \<Rightarrow> bool" for e cfg where
  dedup: "bk_segs b = s # ss \<Longrightarrow>
    dedup_lookup (be_fiter e) (be_siter e) (fc_sampling cfg) (fc_ix cfg) (index_env e cfg (bk_fs b)) junk (fs_cb (bk_fs b)) s (fs_ix (bk_fs b))
      = Inr (Some t, ix) \<Longrightarrow>
    backup_step e cfg b (b\<lparr>bk_segs := ss, bk_flight := bk_flight b @ [t], bk_fs := (bk_fs b)\<lparr>fs_ix := ix\<rparr>\<rparr>)"
| rewrite: "list_all2 (flagged cfg) (bk_flight b) ts \<Longrightarrow> backup_step e cfg b (b\<lparr>bk_flight := ts\<rparr>)"
| filter: "bk_flight b = s # ss \<Longrightarrow> filter_segment cfg s (bk_fs b) = Inr (w, t, st) \<Longrightarrow>
    backup_step e cfg b (b\<lparr>bk_flight := ss, bk_fs := st\<rparr>)"
| append: "ps_buffer (fs_pool (bk_fs b)) = c # cs \<Longrightarrow> \<not> ps_written (fs_pool (bk_fs b)) \<Longrightarrow>
    append_write (fc_be cfg) (be_iter e) (fc_sim cfg) (be_version e) c (fs_pool (bk_fs b)) = Inr p \<Longrightarrow>
    backup_step e cfg b (b\<lparr>bk_fs := (bk_fs b)\<lparr>fs_pool := p\<rparr>\<rparr>)"
| pop: "ps_buffer (fs_pool (bk_fs b)) = c # cs \<Longrightarrow> ps_written (fs_pool (bk_fs b)) \<Longrightarrow>
    backup_step e cfg b (b\<lparr>bk_fs := (bk_fs b)\<lparr>fs_pool := (fs_pool (bk_fs b))\<lparr>ps_buffer := cs, ps_written := False\<rparr>\<rparr>\<rparr>)"

inductive backup_reach :: "backup_env \<Rightarrow> filter_cfg \<Rightarrow> backup \<Rightarrow> backup \<Rightarrow> bool" for e cfg b0 where
  start: "backup_reach e cfg b0 b0"
| step: "backup_reach e cfg b0 b \<Longrightarrow> backup_step e cfg b b' \<Longrightarrow> backup_reach e cfg b0 b'"

subsection \<open>What is in flight\<close>

definition in_flight :: "filter_cfg \<Rightarrow> filter_state \<Rightarrow> chunk list \<Rightarrow> bool" where
  "in_flight cfg st Q \<longleftrightarrow> ix_sound (holds st) (fs_ix st) \<and> buf_rep (fs_ix st) (data_fps Q) \<and>
     pending_ok cfg (fs_ix st) (cb_keys st) {} Q \<and>
     (\<forall>f\<in>set (data_fps Q). head_id (fs_ix st) f = TEMPORARY_ID \<longrightarrow> f \<in> uniq Q) \<and>
     (\<forall>c\<in>set Q. if is_file_mark c then \<not> CHECK_CHUNK c CHUNK_DUPLICATE else located (holds st) c)"

lemma marks_only:
  assumes "normal_count cs = 0"
  shows "data_fps cs = []" "uniq cs = {}" "pending_ok cfg ix K U cs" "\<forall>c\<in>set cs. is_file_mark c"
proof -
  show m: "\<forall>c\<in>set cs. is_file_mark c" using assms by (auto simp: normal_count_def filter_empty_conv)
  then show "data_fps cs = []" "uniq cs = {}" by (auto simp: data_fps_def uniq_def filter_empty_conv)
  from m show "pending_ok cfg ix K U cs" by (induction cs) auto
qed

lemma storage_holds: "storage_sound (holds st) (fs_cb st)"
  by (auto simp: storage_sound_def meta_sound_def holds_def all_containers_def keys_of_def)

lemma list_all2_left: "list_all2 R xs ys \<Longrightarrow> x \<in> set xs \<Longrightarrow> \<exists>y\<in>set ys. R x y"
  by (induction rule: list_all2_induct) auto

lemma index_lookup_physical:
  assumes "index_lookup fi si samp (fc_ix cfg) env junk cb s ix = Inr (Some t, ix')" "physical cfg"
  shows "\<exists>cs. lookup_chunks (index_lookup_chunk True True (fc_ix cfg) env junk cb) (seg_chunks s) ix = Inr (cs, ix') \<and>
     seg_chunks t = cs \<and> seg_chunk_num t = seg_chunk_num s"
  using assms by (auto simp: index_lookup_def index_lookup_base_def physical_def rbind_Inr_iff split: if_splits)

lemma dedup_in_flight:
  assumes fl: "in_flight cfg st Q" and ok: "f_ok cfg D st" and ph: "physical cfg"
    and env: "env_sound (fc_ix cfg) (holds st) env" and s: "seg_inv s" "\<forall>c\<in>set (seg_chunks s). fresh cfg c"
    and l: "dedup_lookup fi si samp (fc_ix cfg) env junk (fs_cb st) s (fs_ix st) = Inr (Some t, ix)"
  shows "in_flight cfg (st\<lparr>fs_ix := ix\<rparr>) (Q @ seg_chunks t) \<and> f_ok cfg D (st\<lparr>fs_ix := ix\<rparr>) \<and>
     list_all2 carried (seg_chunks s) (seg_chunks t) \<and> seg_chunk_num t = seg_chunk_num s"
proof (cases "seg_chunk_num s > 0")
  case False
  with l have e: "t = s" "ix = fs_ix st" by (auto simp: dedup_lookup_def)
  have "normal_count (seg_chunks s) = 0" using False s(1) by (simp add: seg_inv_def normal_count_def)
  note m = marks_only [OF this]
  have "in_flight cfg st (Q @ seg_chunks s)"
    using fl m s(2) by (auto simp: in_flight_def pending_append uniq_append fresh_def)
  moreover have "list_all2 carried (seg_chunks s) (seg_chunks s)" by (simp add: list_all2_same carried_refl)
  ultimately show ?thesis using ok e by simp
next
  case True
  with l index_lookup_physical [OF _ ph] obtain cs where
    cs: "lookup_chunks (index_lookup_chunk True True (fc_ix cfg) env junk (fs_cb st)) (seg_chunks s) (fs_ix st) = Inr (cs, ix)"
      "seg_chunks t = cs" "seg_chunk_num t = seg_chunk_num s" by (fastforce simp: dedup_lookup_def)
  have pos: "0 \<le> idof b" if "fs_cb st = Some b" for b
    using ok that by (auto simp: f_ok_def store_inv_def all_containers_def container_ok_def)
  note fl' = fl [unfolded in_flight_def]
  have K: "cb_keys st \<union> set (data_fps Q) \<subseteq> (case fs_cb st of None \<Rightarrow> {} | Some b \<Rightarrow> keys_of b) \<union> set (data_fps Q)"
    by (simp add: cb_keys_def)
  from lookup_chunks_pending [OF pos env refl cs(1) s(2), of "data_fps Q" "uniq Q" "cb_keys st \<union> set (data_fps Q)"] fl' K
  have p: "pending_ok cfg ix (cb_keys st \<union> set (data_fps Q)) (uniq Q) cs" "\<forall>f\<in>set (data_fps Q). head_id ix f = head_id (fs_ix st) f"
    "list_all2 carried (seg_chunks s) cs" "\<forall>f\<in>set (data_fps Q) \<union> set (data_fps (seg_chunks s)). head_id ix f = TEMPORARY_ID \<longrightarrow> f \<in> uniq Q \<union> uniq cs"
    by blast+
  have h: "holds (st\<lparr>fs_ix := ix\<rparr>) = holds st" "cb_keys (st\<lparr>fs_ix := ix\<rparr>) = cb_keys st" by (rule pool_cb_cong; simp)+
  have fr: "\<forall>c\<in>set (seg_chunks s). chunk_sound (holds st) c" using s(2) by (auto simp: fresh_def chunk_sound_def)
  have snd: "ix_sound (holds st) ix" "\<forall>c\<in>set cs. chunk_sound (holds st) c"
    using lookup_chunks_sound [OF cs(1) _ env storage_holds fr] fl' by blast+
  have rep: "buf_rep ix (data_fps Q @ data_fps (seg_chunks s))" using lookup_chunks_rep [OF cs(1) _ env] fl' by blast
  note cf = carried_fps [OF p(3)]
  have "pending_ok cfg ix (cb_keys st) {} Q"
    by (rule pending_weaken [of cfg "fs_ix st" "cb_keys st" "{}"]) (use fl' p(2) in auto)
  then have pend: "pending_ok cfg ix (cb_keys st) {} (Q @ cs)" using p(1) by (simp add: pending_append)
  have "if is_file_mark c then \<not> CHECK_CHUNK c CHUNK_DUPLICATE else located (holds st) c" if c: "c \<in> set cs" for c
  proof (cases "is_file_mark c")
    case True
    from list_all2_right [OF p(3) c] obtain d where d: "d \<in> set (seg_chunks s)" "carried d c" by blast
    then have "is_file_mark d" using True same_data_mark by (auto simp: carried_def)
    with d s(2) True show ?thesis by (auto simp: carried_def fresh_def)
  next
    case False
    with snd(2) c show ?thesis by (auto simp: located_def chunk_sound_def)
  qed
  with fl' snd(1) rep pend p(4) cf have "in_flight cfg (st\<lparr>fs_ix := ix\<rparr>) (Q @ cs)"
    unfolding in_flight_def h by (auto simp: uniq_append)
  moreover have "f_ok cfg D (st\<lparr>fs_ix := ix\<rparr>)"
    by (rule f_ok_frame [OF ok]) (use ok lookup_chunks_htable [OF env cs(1)] in \<open>simp_all add: f_ok_def ix_ok_def\<close>)
  ultimately show ?thesis using cs p(3) by simp
qed

lemma flagged_pending:
  "list_all2 frag_only cs ds \<Longrightarrow> (index_category0 (fc_ix cfg) = INDEX_CATEGORY_EXACT \<and> fc_no_rewrite cfg \<longrightarrow> ds = cs) \<Longrightarrow>
   pending_ok cfg ix K U cs \<Longrightarrow> pending_ok cfg ix K U ds \<and> uniq ds = uniq cs \<and> data_fps ds = data_fps cs"
proof (induction arbitrary: K U rule: list_all2_induct)
  case (Cons c cs d ds)
  note f = frag_only_same(2,3) [OF Cons.hyps(1)] frag_only_fields(2,3) [OF Cons.hyps(1)]
  show ?case
  proof (cases "is_file_mark c")
    case True
    with Cons f show ?thesis by simp
  next
    case False
    let ?V = "if CHECK_CHUNK c CHUNK_DUPLICATE then U else insert (ck_fp c) U"
    have e: "index_category0 (fc_ix cfg) = INDEX_CATEGORY_EXACT \<and> fc_no_rewrite cfg \<longrightarrow> ds = cs" using Cons.prems(1) by simp
    have "pending_ok cfg ix (insert (ck_fp c) K) ?V cs" using Cons.prems(2) False by simp
    note IH = Cons.IH [OF e this]
    from Cons.prems(2) False f have "(\<not> CHECK_CHUNK d CHUNK_DUPLICATE \<longrightarrow> ck_fp d \<notin> K) \<and>
      (CHECK_CHUNK d CHUNK_DUPLICATE \<and> ck_id d = TEMPORARY_ID \<longrightarrow> ck_fp d \<in> U \<or> head_id ix (ck_fp d) \<noteq> TEMPORARY_ID)" by simp
    moreover have "index_category0 (fc_ix cfg) = INDEX_CATEGORY_EXACT \<and> fc_no_rewrite cfg \<longrightarrow>
      \<not> CHECK_CHUNK d CHUNK_SPARSE \<and> \<not> CHECK_CHUNK d CHUNK_OUT_OF_ORDER" using Cons.prems False by auto
    ultimately show ?thesis using IH False f by (cases "CHECK_CHUNK c CHUNK_DUPLICATE") auto
  qed
qed simp

lemma flagged_chunks:
  assumes "list_all2 (flagged cfg) ss ts"
  shows "list_all2 frag_only (concat (map seg_chunks ss)) (concat (map seg_chunks ts))"
    "index_category0 (fc_ix cfg) = INDEX_CATEGORY_EXACT \<and> fc_no_rewrite cfg \<longrightarrow> concat (map seg_chunks ts) = concat (map seg_chunks ss)"
    "\<forall>t\<in>set ts. \<exists>s\<in>set ss. seg_chunk_num t = seg_chunk_num s \<and> normal_count (seg_chunks t) = normal_count (seg_chunks s)"
  using assms
proof (induction rule: list_all2_induct)
  case (Cons s ss t ts)
  have f: "list_all2 frag_only (seg_chunks s) (seg_chunks t)" "seg_chunk_num t = seg_chunk_num s"
    using Cons.hyps(1) unfolding flagged_def by (auto dest: arg_cong [where f = seg_chunk_num])
  have "list_all2 carried (seg_chunks s) (seg_chunks t)" by (rule list_all2_mono [OF f(1) frag_carried])
  note c = carried_fps [OF this]
  { case 1 show ?case using Cons.IH(1) f(1) by (simp add: list_all2_appendI) }
  { case 2 show ?case using Cons.IH(2) Cons.hyps(1) by (simp add: flagged_def) }
  { case 3 show ?case using Cons.IH(3) f(2) c by auto }
qed simp_all

lemma rewrite_in_flight:
  assumes fl: "in_flight cfg st Q" and r: "list_all2 frag_only Q Q'"
    "index_category0 (fc_ix cfg) = INDEX_CATEGORY_EXACT \<and> fc_no_rewrite cfg \<longrightarrow> Q' = Q"
  shows "in_flight cfg st Q'"
proof -
  note fl' = fl [unfolded in_flight_def]
  have "pending_ok cfg (fs_ix st) (cb_keys st) {} Q" using fl' by blast
  note p = flagged_pending [OF r this]
  have "if is_file_mark d then \<not> CHECK_CHUNK d CHUNK_DUPLICATE else located (holds st) d" if d: "d \<in> set Q'" for d
  proof -
    from list_all2_right [OF r(1) d] obtain c where c: "c \<in> set Q" "frag_only c d" by blast
    then have "if is_file_mark c then \<not> CHECK_CHUNK c CHUNK_DUPLICATE else located (holds st) c" using fl' by blast
    then show ?thesis unfolding located_def frag_only_same(2,3) [OF c(2)] frag_only_fields(2,3) [OF c(2)] .
  qed
  with fl' p show ?thesis by (simp add: in_flight_def)
qed

lemma filter_in_flight:
  assumes fl: "in_flight cfg st (seg_chunks s @ Q)" and ok: "f_ok cfg D st" and cfg: "cfg_ok cfg"
    and c: "\<forall>c\<in>set (seg_chunks s). length (ck_fp c) = 20 \<and> (\<not> is_file_mark c \<longrightarrow> data_ok D c)"
    and cnt: "ps_count (fs_pool st) + int (length (seg_chunks s)) < 2 ^ 40"
    and v: "ver_rep (fc_be cfg) (fs_bv st) (fs_access st) segs None rs" and wf: "file_wf (fs_file st \<noteq> None) (seg_chunks s)"
    and nf: "name_fits (fs_file st)" and num: "seg_inv s" "seg_len_ok (seg_chunk_num s)"
  shows "\<exists>w t st'. filter_segment cfg s st = Inr (w, t, st') \<and> seg_done cfg D segs rs s st t st' \<and> in_flight cfg st' Q"
proof -
  note fl' = fl [unfolded in_flight_def pending_append data_fps_simps(3)]
  have ix: "ix_sound (holds st) (fs_ix st)" and rep: "buf_rep (fs_ix st) (data_fps (seg_chunks s) @ data_fps Q)"
    and pend: "pending_ok cfg (fs_ix st) (cb_keys st) {} (seg_chunks s)" using fl' by blast+
  have c': "\<forall>c\<in>set (seg_chunks s). length (ck_fp c) = 20 \<and>
      (if is_file_mark c then \<not> CHECK_CHUNK c CHUNK_DUPLICATE else data_ok D c \<and> located (holds st) c)"
    using fl' c by auto
  from filter_segment_ok [OF ok cfg ix rep pend c' cnt v wf nf num] obtain w t st' where
    r: "filter_segment cfg s st = Inr (w, t, st')" "seg_done cfg D segs rs s st t st'" "buf_rep (fs_ix st') (data_fps Q)"
      "ix_sound (holds st') (fs_ix st')" "heads_ok (fs_ix st) (fs_ix st') (set (data_fps (seg_chunks s)))" by blast
  have d: "cb_keys st' \<subseteq> cb_keys st \<union> set (data_fps (seg_chunks s))" "\<And>i f. holds st i f \<Longrightarrow> holds st' i f"
    using r(2) by (auto simp: seg_done_def)
  have h: "if f \<in> set (data_fps (seg_chunks s)) then head_id (fs_ix st') f \<noteq> TEMPORARY_ID else head_id (fs_ix st') f = head_id (fs_ix st) f"
    if f: "f \<in> set (data_fps Q)" for f
    using r(5) f buf_rep_None [OF r(3), of f] unfolding heads_ok_def by blast
  have p: "pending_ok cfg (fs_ix st) (cb_keys st \<union> set (data_fps (seg_chunks s))) (uniq (seg_chunks s)) Q" using fl' by simp
  have "pending_ok cfg (fs_ix st') (cb_keys st') {} Q"
  proof (rule pending_weaken [OF p d(1)], intro ballI impI)
    fix f assume f: "f \<in> set (data_fps Q)" "f \<in> uniq (seg_chunks s) \<or> head_id (fs_ix st) f \<noteq> TEMPORARY_ID"
    then show "f \<in> {} \<or> head_id (fs_ix st') f \<noteq> TEMPORARY_ID"
      using h [OF f(1)] uniq_fps [of "seg_chunks s"] by (auto split: if_splits)
  qed
  moreover have "\<forall>f\<in>set (data_fps Q). head_id (fs_ix st') f = TEMPORARY_ID \<longrightarrow> f \<in> uniq Q"
  proof (intro ballI impI)
    fix f assume f: "f \<in> set (data_fps Q)" "head_id (fs_ix st') f = TEMPORARY_ID"
    with h [OF f(1)] have "f \<notin> set (data_fps (seg_chunks s))" "head_id (fs_ix st) f = TEMPORARY_ID" by (auto split: if_splits)
    with fl' f(1) uniq_fps [of "seg_chunks s"] show "f \<in> uniq Q" by (auto simp: uniq_append)
  qed
  moreover have "\<forall>c\<in>set Q. if is_file_mark c then \<not> CHECK_CHUNK c CHUNK_DUPLICATE else located (holds st') c"
  proof
    fix c assume "c \<in> set Q"
    with fl' have "if is_file_mark c then \<not> CHECK_CHUNK c CHUNK_DUPLICATE else located (holds st) c" by simp
    then show "if is_file_mark c then \<not> CHECK_CHUNK c CHUNK_DUPLICATE else located (holds st') c"
      using located_mono [OF _ d(2)] by (simp split: if_splits)
  qed
  ultimately have "in_flight cfg st' Q" using r(3,4) by (simp add: in_flight_def)
  with r(1,2) show ?thesis by blast
qed

lemma in_flight_pool:
  assumes fl: "in_flight cfg st Q" and acc: "ps_accepted p = ps_accepted (fs_pool st)"
  shows "in_flight cfg (st\<lparr>fs_pool := p\<rparr>) Q"
proof -
  have "holds (st\<lparr>fs_pool := p\<rparr>) = holds st" "cb_keys (st\<lparr>fs_pool := p\<rparr>) = cb_keys st"
    using acc by (simp_all add: holds_def all_containers_def cb_keys_def fun_eq_iff)
  with fl show ?thesis unfolding in_flight_def by simp
qed

lemma f_ok_pool:
  assumes ok: "f_ok cfg D st" and acc: "ps_accepted p = ps_accepted (fs_pool st)" "ps_count p = ps_count (fs_pool st)"
  shows "f_ok cfg D (st\<lparr>fs_pool := p\<rparr>)"
proof -
  have h: "holds (st\<lparr>fs_pool := p\<rparr>) = holds st" "all_containers (st\<lparr>fs_pool := p\<rparr>) = all_containers st"
    using acc by (simp_all add: holds_def all_containers_def fun_eq_iff)
  show ?thesis using ok acc unfolding f_ok_def store_inv_def tables_sound_def h by (simp add: chunks20_def)
qed

subsection \<open>The invariant of the job\<close>

definition stream_ok :: "(fingerprint \<Rightarrow> byte list) \<Rightarrow> chunk list \<Rightarrow> bool" where
  "stream_ok D cs \<longleftrightarrow> (\<forall>c\<in>set cs. length (ck_fp c) = 20 \<and> (\<not> is_file_mark c \<longrightarrow> data_ok D c)) \<and> file_wf False cs"

text \<open>The recipe written so far describes the stretch \<open>cs\<close> of the stream, with containers that hold its chunks.\<close>

definition recipe_of :: "filter_cfg \<Rightarrow> filter_state \<Rightarrow> chunk list \<Rightarrow> chunkPointer list list \<Rightarrow> fileRecipeMeta list \<Rightarrow> bool" where
  "recipe_of cfg st cs segs rs \<longleftrightarrow> ver_rep (fc_be cfg) (fs_bv st) (fs_access st) segs None rs \<and>
     map (\<lambda>cp. (cp_fp cp, cp_size cp)) (concat segs) = map (\<lambda>c. (ck_fp c, ck_size c)) (data_chunks cs) \<and>
     (\<forall>cp\<in>set (concat segs). holds st (cp_id cp) (cp_fp cp)) \<and>
     rec_files None cs = (rs, fs_file st) \<and> name_fits (fs_file st)"

definition stream_of :: "segment list \<Rightarrow> chunk list" where
  "stream_of ss = concat (map seg_chunks ss)"

definition bk_inv :: "backup_env \<Rightarrow> filter_cfg \<Rightarrow> (fingerprint \<Rightarrow> byte list) \<Rightarrow> chunk list \<Rightarrow> backup \<Rightarrow> bool" where
  "bk_inv e cfg D all b \<longleftrightarrow>
     f_ok cfg D (bk_fs b) \<and> in_flight cfg (bk_fs b) (stream_of (bk_flight b)) \<and>
     pool_inv (fc_be cfg) (be_iter e) (fc_sim cfg) (fs_pool (bk_fs b)) \<and> pool_blank (fc_sim cfg) (fs_pool (bk_fs b)) \<and>
     (\<forall>s\<in>set (bk_flight b) \<union> set (bk_segs b). seg_inv s \<and> seg_len_ok (seg_chunk_num s)) \<and>
     (\<forall>c\<in>set (stream_of (bk_segs b)). fresh cfg c) \<and>
     ps_count (fs_pool (bk_fs b)) + int (length (stream_of (bk_flight b @ bk_segs b))) < 2 ^ 40 \<and>
     (\<exists>before segs rs. list_all2 carried all (before @ stream_of (bk_flight b) @ stream_of (bk_segs b)) \<and>
        recipe_of cfg (bk_fs b) before segs rs)"

lemma stream_of_simps [simp]:
  "stream_of [] = []" "stream_of (s # ss) = seg_chunks s @ stream_of ss" "stream_of (ss @ ts) = stream_of ss @ stream_of ts"
  by (simp_all add: stream_of_def)

lemma recipe_of_cong:
  assumes "recipe_of cfg st cs segs rs" "fs_bv st' = fs_bv st" "fs_access st' = fs_access st" "fs_file st' = fs_file st"
    and "\<And>i f. holds st i f \<Longrightarrow> holds st' i f"
  shows "recipe_of cfg st' cs segs rs"
  using assms by (simp add: recipe_of_def)

lemma carried_stream:
  assumes "stream_ok D all" "list_all2 carried all cs"
  shows "stream_ok D cs"
proof -
  have "length (ck_fp c) = 20 \<and> (\<not> is_file_mark c \<longrightarrow> data_ok D c)" if "c \<in> set cs" for c
  proof -
    from list_all2_right [OF assms(2) that] obtain d where d: "d \<in> set all" "carried d c" by blast
    have "is_file_mark c = is_file_mark d" "ck_fp c = ck_fp d" using d(2) same_data_mark unfolding carried_def same_data_def by blast+
    with d assms(1) carried_data [OF d(2)] show ?thesis by (auto simp: stream_ok_def)
  qed
  moreover have "file_wf False cs" using carried_fps [OF assms(2)] assms(1) by (simp add: stream_ok_def)
  ultimately show ?thesis by (simp add: stream_ok_def)
qed

lemma stream_ok_part:
  assumes "stream_ok D (before @ cs @ rest)" "rec_files None before = (rs, f)"
  shows "\<forall>c\<in>set cs. length (ck_fp c) = 20 \<and> (\<not> is_file_mark c \<longrightarrow> data_ok D c)" "file_wf (f \<noteq> None) cs"
proof -
  show "\<forall>c\<in>set cs. length (ck_fp c) = 20 \<and> (\<not> is_file_mark c \<longrightarrow> data_ok D c)" using assms(1) by (simp add: stream_ok_def)
  have "file_wf (None \<noteq> (None :: fileRecipeMeta option)) (before @ cs @ rest)" using assms(1) by (simp add: stream_ok_def)
  then have "file_wf (f \<noteq> None) (cs @ rest)" unfolding file_wf_append assms(2) by simp
  then show "file_wf (f \<noteq> None) cs" unfolding file_wf_append by simp
qed

lemma data_chunks_append [simp]: "data_chunks (cs @ ds) = data_chunks cs @ data_chunks ds"
  by (simp add: data_chunks_def)

lemma kept_pointers:
  "list_all2 (\<lambda>c d. kept c d \<and> (is_file_mark c \<longrightarrow> d = c)) cs ds \<Longrightarrow>
   map (\<lambda>cp. (cp_fp cp, cp_size cp)) (map ptr (data_chunks ds)) = map (\<lambda>c. (ck_fp c, ck_size c)) (data_chunks cs)"
  by (induction rule: list_all2_induct) (auto simp: kept_def ptr_def)

lemma seg_done_recipe:
  assumes r: "recipe_of cfg st before segs rs" and d: "seg_done cfg D segs rs s st t st'"
  shows "recipe_of cfg st' (before @ seg_chunks s) (segs @ [map ptr (data_chunks (seg_chunks t))]) (rs @ fst (rec_files (fs_file st) (seg_chunks s)))"
proof -
  have k: "list_all2 (\<lambda>c d. kept c d \<and> (is_file_mark c \<longrightarrow> d = c)) (seg_chunks s) (seg_chunks t)"
    and h: "\<And>i f. holds st i f \<Longrightarrow> holds st' i f" "\<forall>c\<in>set (data_chunks (seg_chunks t)). holds st' (ck_id c) (ck_fp c)"
    using d by (auto simp: seg_done_def)
  have "\<forall>cp\<in>set (concat (segs @ [map ptr (data_chunks (seg_chunks t))])). holds st' (cp_id cp) (cp_fp cp)"
    using r h by (auto simp: recipe_of_def ptr_def)
  moreover have "rec_files None (before @ seg_chunks s) = (rs @ fst (rec_files (fs_file st) (seg_chunks s)), fs_file st')"
    using r d by (simp add: rec_files_append recipe_of_def seg_done_def)
  moreover have "name_fits (fs_file st')" "ver_rep (fc_be cfg) (fs_bv st') (fs_access st')
      (segs @ [map ptr (data_chunks (seg_chunks t))]) None (rs @ fst (rec_files (fs_file st) (seg_chunks s)))"
    using d unfolding seg_done_def by blast+
  ultimately show ?thesis using r kept_pointers [OF k] unfolding recipe_of_def by simp
qed

text \<open>Each step of each thread keeps the invariant.\<close>

lemma filter_turn:
  assumes inv: "bk_inv e cfg D all b" and st: "stream_ok D all" and cfg: "cfg_ok cfg" and fl: "bk_flight b = s # ss"
  shows "\<exists>w t st. filter_segment cfg s (bk_fs b) = Inr (w, t, st) \<and> bk_inv e cfg D all (b\<lparr>bk_flight := ss, bk_fs := st\<rparr>) \<and>
     same_head (fs_bv (bk_fs b)) (fs_bv st) \<and> ps_count (fs_pool st) \<le> ps_count (fs_pool (bk_fs b)) + int (length (seg_chunks s))"
proof -
  let ?st = "bk_fs b"
  from inv obtain before segs rs where i: "f_ok cfg D ?st" "in_flight cfg ?st (seg_chunks s @ stream_of ss)"
    "pool_inv (fc_be cfg) (be_iter e) (fc_sim cfg) (fs_pool ?st)" "pool_blank (fc_sim cfg) (fs_pool ?st)"
    "seg_inv s" "seg_len_ok (seg_chunk_num s)" "\<forall>s\<in>set ss \<union> set (bk_segs b). seg_inv s \<and> seg_len_ok (seg_chunk_num s)"
    "\<forall>c\<in>set (stream_of (bk_segs b)). fresh cfg c"
    "ps_count (fs_pool ?st) + int (length (seg_chunks s)) + int (length (stream_of (ss @ bk_segs b))) < 2 ^ 40"
    "list_all2 carried all (before @ seg_chunks s @ stream_of ss @ stream_of (bk_segs b))" "recipe_of cfg ?st before segs rs"
    unfolding bk_inv_def fl by auto
  from i(11) have rf: "rec_files None before = (rs, fs_file ?st)" and nf: "name_fits (fs_file ?st)"
    and v: "ver_rep (fc_be cfg) (fs_bv ?st) (fs_access ?st) segs None rs" by (simp_all add: recipe_of_def)
  note sp = stream_ok_part [OF carried_stream [OF st i(10)] rf]
  have cnt: "ps_count (fs_pool ?st) + int (length (seg_chunks s)) < 2 ^ 40" using i(9) by simp
  from filter_in_flight [OF i(2,1) cfg sp(1) cnt v sp(2) nf i(5,6)] obtain w t st' where
    r: "filter_segment cfg s ?st = Inr (w, t, st')" "seg_done cfg D segs rs s ?st t st'" "in_flight cfg st' (stream_of ss)" by blast
  from r(2) have ok: "f_ok cfg D st'" and c: "ps_count (fs_pool st') \<le> ps_count (fs_pool ?st) + int (length (seg_chunks s))"
    by (simp_all add: seg_done_def)
  note pe = filter_segment_ext [OF r(1)]
  have si: "store_inv (fc_sim cfg) D st'" using ok by (simp add: f_ok_def)
  have "list_all2 carried all ((before @ seg_chunks s) @ stream_of ss @ stream_of (bk_segs b))" using i(10) by simp
  with seg_done_recipe [OF i(11) r(2)] have "\<exists>before segs rs.
      list_all2 carried all (before @ stream_of ss @ stream_of (bk_segs b)) \<and> recipe_of cfg st' before segs rs" by blast
  then have "bk_inv e cfg D all (b\<lparr>bk_flight := ss, bk_fs := st'\<rparr>)"
    using ok r(3) pool_ext_inv [OF i(3) pe si] pool_ext_blank [OF i(4) pe] i(7,8,9) c by (simp add: bk_inv_def)
  moreover have "same_head (fs_bv ?st) (fs_bv st')" using r(2) by (simp add: seg_done_def)
  ultimately show ?thesis using r(1) c by blast
qed

lemma dedup_turn_inv:
  assumes inv: "bk_inv e cfg D all b" and ph: "physical cfg" and it: "iter_ok (be_iter e)" and sg: "bk_segs b = s # ss"
    and l: "dedup_lookup fi si samp (fc_ix cfg) (index_env e cfg (bk_fs b)) junk (fs_cb (bk_fs b)) s (fs_ix (bk_fs b)) = Inr (Some t, ix)"
  shows "bk_inv e cfg D all (b\<lparr>bk_segs := ss, bk_flight := bk_flight b @ [t], bk_fs := (bk_fs b)\<lparr>fs_ix := ix\<rparr>\<rparr>)"
proof -
  let ?st = "bk_fs b" and ?st' = "(bk_fs b)\<lparr>fs_ix := ix\<rparr>" and ?Q = "stream_of (bk_flight b)"
  from inv obtain before segs rs where i: "f_ok cfg D ?st" "in_flight cfg ?st ?Q"
    "pool_inv (fc_be cfg) (be_iter e) (fc_sim cfg) (fs_pool ?st)" "pool_blank (fc_sim cfg) (fs_pool ?st)"
    "\<forall>s\<in>set (bk_flight b) \<union> set ss. seg_inv s \<and> seg_len_ok (seg_chunk_num s)" "seg_inv s" "seg_len_ok (seg_chunk_num s)"
    "\<forall>c\<in>set (seg_chunks s). fresh cfg c" "\<forall>c\<in>set (stream_of ss). fresh cfg c"
    "ps_count (fs_pool ?st) + int (length (stream_of (bk_flight b @ s # ss))) < 2 ^ 40"
    "list_all2 carried all (before @ ?Q @ seg_chunks s @ stream_of ss)" "recipe_of cfg ?st before segs rs"
    unfolding bk_inv_def sg by auto
  have "env_sound (fc_ix cfg) (holds ?st) (index_env e cfg ?st)"
    unfolding index_env_def by (rule store_env_sound [OF i(3,4) it]) (use ph in \<open>simp add: physical_def\<close>)
  from dedup_in_flight [OF i(2,1) ph this i(6,8) l] have d: "in_flight cfg ?st' (?Q @ seg_chunks t)" "f_ok cfg D ?st'"
    "list_all2 carried (seg_chunks s) (seg_chunks t)" "seg_chunk_num t = seg_chunk_num s" by blast+
  have "list_all2 carried (before @ ?Q @ seg_chunks s @ stream_of ss) (before @ ?Q @ seg_chunks t @ stream_of ss)"
    using d(3) by (auto intro!: list_all2_appendI simp: list_all2_same carried_refl)
  from list_all2_trans [OF carried_trans i(11) this] have ca: "list_all2 carried all (before @ ?Q @ seg_chunks t @ stream_of ss)" .
  have "seg_inv t" using i(6) d(4) carried_fps [OF d(3)] by (simp add: seg_inv_def)
  moreover have "length (seg_chunks t) = length (seg_chunks s)" using list_all2_lengthD [OF d(3)] by simp
  moreover have "holds ?st' = holds ?st" by (rule pool_cb_cong) simp_all
  then have "recipe_of cfg ?st' before segs rs" by (intro recipe_of_cong [OF i(12)]) simp_all
  moreover have "list_all2 carried all (before @ stream_of (bk_flight b @ [t]) @ stream_of ss)" using ca by simp
  ultimately show ?thesis using d i(3,4,5,7,9,10) unfolding bk_inv_def by auto
qed

lemma pool_turn:
  assumes inv: "bk_inv e cfg D all b" and p: "pool_inv (fc_be cfg) (be_iter e) (fc_sim cfg) p" "pool_blank (fc_sim cfg) p"
    "ps_accepted p = ps_accepted (fs_pool (bk_fs b))" "ps_count p = ps_count (fs_pool (bk_fs b))"
  shows "bk_inv e cfg D all (b\<lparr>bk_fs := (bk_fs b)\<lparr>fs_pool := p\<rparr>\<rparr>)"
proof -
  let ?st = "bk_fs b" and ?st' = "(bk_fs b)\<lparr>fs_pool := p\<rparr>"
  from inv obtain before segs rs where i: "f_ok cfg D ?st" "in_flight cfg ?st (stream_of (bk_flight b))"
    "list_all2 carried all (before @ stream_of (bk_flight b) @ stream_of (bk_segs b))" "recipe_of cfg ?st before segs rs"
    unfolding bk_inv_def by blast
  have "holds ?st' = holds ?st" using p(3) by (simp add: holds_def all_containers_def fun_eq_iff)
  then have "recipe_of cfg ?st' before segs rs" by (intro recipe_of_cong [OF i(4)]) simp_all
  with i(3) have "\<exists>before segs rs. list_all2 carried all (before @ stream_of (bk_flight b) @ stream_of (bk_segs b)) \<and> recipe_of cfg ?st' before segs rs"
    by blast
  with inv p f_ok_pool [OF i(1) p(3,4)] in_flight_pool [OF i(2) p(3)] show ?thesis by (simp add: bk_inv_def)
qed

lemma rewrite_turn:
  assumes inv: "bk_inv e cfg D all b" and r: "list_all2 (flagged cfg) (bk_flight b) ts"
  shows "bk_inv e cfg D all (b\<lparr>bk_flight := ts\<rparr>)"
proof -
  note f = flagged_chunks [OF r, folded stream_of_def]
  have c: "list_all2 carried (stream_of (bk_flight b)) (stream_of ts)" by (rule list_all2_mono [OF f(1) frag_carried])
  from inv obtain before segs rs where i: "list_all2 carried all (before @ stream_of (bk_flight b) @ stream_of (bk_segs b))"
    "recipe_of cfg (bk_fs b) before segs rs" unfolding bk_inv_def by blast
  have "list_all2 carried (before @ stream_of (bk_flight b) @ stream_of (bk_segs b)) (before @ stream_of ts @ stream_of (bk_segs b))"
    using c by (auto intro!: list_all2_appendI simp: list_all2_same carried_refl)
  from list_all2_trans [OF carried_trans i(1) this]
  have "list_all2 carried all (before @ stream_of ts @ stream_of (bk_segs b))" .
  with i(2) have "\<exists>before segs rs. list_all2 carried all (before @ stream_of ts @ stream_of (bk_segs b)) \<and> recipe_of cfg (bk_fs b) before segs rs" by blast
  moreover have "in_flight cfg (bk_fs b) (stream_of ts)"
    by (rule rewrite_in_flight [OF _ f(1,2)]) (use inv in \<open>simp add: bk_inv_def\<close>)
  moreover have "\<forall>s\<in>set ts. seg_inv s \<and> seg_len_ok (seg_chunk_num s)"
    using f(3) inv unfolding bk_inv_def seg_inv_def by (metis UnI1)
  moreover have "length (stream_of ts) = length (stream_of (bk_flight b))" using list_all2_lengthD [OF c] by simp
  ultimately show ?thesis using inv by (auto simp: bk_inv_def)
qed

lemma backup_step_inv:
  assumes s: "backup_step e cfg b b'" and inv: "bk_inv e cfg D all b" and st: "stream_ok D all" and cfg: "cfg_ok cfg" "physical cfg"
    and it: "iter_ok (be_iter e)"
  shows "bk_inv e cfg D all b'"
  using s
proof cases
  case (dedup s ss junk t ix)
  from dedup_turn_inv [OF inv cfg(2) it dedup(2,3)] dedup(1) show ?thesis by simp
next
  case (rewrite ts)
  with rewrite_turn [OF inv] show ?thesis by simp
next
  case (filter s ss w t st')
  from filter_turn [OF inv st cfg(1) filter(2)] filter(1,3) show ?thesis by auto
next
  case (append c cs p)
  from inv have p: "pool_inv (fc_be cfg) (be_iter e) (fc_sim cfg) (fs_pool (bk_fs b))" "pool_blank (fc_sim cfg) (fs_pool (bk_fs b))"
    by (simp_all add: bk_inv_def)
  from append_steps(1) [OF append(2) p(1) it p(2) append(3), of "be_version e"] append(4) pool_turn [OF inv, of p] append(1)
  show ?thesis by auto
next
  case (pop c cs)
  from inv have p: "pool_inv (fc_be cfg) (be_iter e) (fc_sim cfg) (fs_pool (bk_fs b))" "pool_blank (fc_sim cfg) (fs_pool (bk_fs b))"
    by (simp_all add: bk_inv_def)
  from append_steps(2) [OF pop(2) p(1) it p(2) pop(3)] pool_turn [OF inv, of "(fs_pool (bk_fs b))\<lparr>ps_buffer := cs, ps_written := False\<rparr>"] pop(1)
  show ?thesis by auto
qed

text \<open>A job that begins: the configuration, the stores and caches as an earlier job left them, a new version, and the
  segments of a stream of hashed chunks.\<close>

definition job_ok :: "backup_env \<Rightarrow> filter_cfg \<Rightarrow> (fingerprint \<Rightarrow> byte list) \<Rightarrow> backup \<Rightarrow> bool" where
  "job_ok e cfg D b \<longleftrightarrow> cfg_ok cfg \<and> physical cfg \<and> iter_ok (be_iter e) \<and> bk_flight b = [] \<and>
     f_ok cfg D (bk_fs b) \<and> ix_sound (holds (bk_fs b)) (fs_ix (bk_fs b)) \<and> buf_rep (fs_ix (bk_fs b)) [] \<and>
     pool_inv (fc_be cfg) (be_iter e) (fc_sim cfg) (fs_pool (bk_fs b)) \<and> pool_blank (fc_sim cfg) (fs_pool (bk_fs b)) \<and>
     ver_rep (fc_be cfg) (fs_bv (bk_fs b)) (fs_access (bk_fs b)) [] None [] \<and> fs_file (bk_fs b) = None \<and>
     stream_ok D (stream_of (bk_segs b)) \<and> (\<forall>c\<in>set (stream_of (bk_segs b)). fresh cfg c) \<and>
     (\<forall>s\<in>set (bk_segs b). seg_inv s \<and> seg_len_ok (seg_chunk_num s)) \<and>
     ps_count (fs_pool (bk_fs b)) + int (length (stream_of (bk_segs b))) < 2 ^ 40"

lemma job_inv:
  assumes "job_ok e cfg D b"
  shows "bk_inv e cfg D (stream_of (bk_segs b)) b"
proof -
  have "recipe_of cfg (bk_fs b) [] [] []" using assms by (simp add: job_ok_def recipe_of_def name_fits_def)
  moreover have "list_all2 carried (stream_of (bk_segs b)) ([] @ stream_of (bk_flight b) @ stream_of (bk_segs b))"
    using assms by (simp add: job_ok_def list_all2_same carried_refl)
  ultimately have "\<exists>before segs rs. list_all2 carried (stream_of (bk_segs b)) (before @ stream_of (bk_flight b) @ stream_of (bk_segs b)) \<and>
     recipe_of cfg (bk_fs b) before segs rs" by blast
  moreover have "in_flight cfg (bk_fs b) (stream_of (bk_flight b))" using assms by (simp add: job_ok_def in_flight_def)
  ultimately show ?thesis using assms unfolding bk_inv_def job_ok_def by auto
qed

lemma backup_reach_inv:
  assumes "backup_reach e cfg b0 b" and j: "job_ok e cfg D b0"
  shows "bk_inv e cfg D (stream_of (bk_segs b0)) b"
  using assms(1)
proof induction
  case start
  show ?case by (rule job_inv [OF j])
next
  case (step b b')
  from j have "stream_ok D (stream_of (bk_segs b0))" "cfg_ok cfg" "physical cfg" "iter_ok (be_iter e)" by (simp_all add: job_ok_def)
  from backup_step_inv [OF step(2,3) this] show ?case .
qed

subsection \<open>The end of the job\<close>

lemma backup_reach_head:
  assumes "backup_reach e cfg b0 b" and j: "job_ok e cfg D b0"
  shows "same_head (fs_bv (bk_fs b0)) (fs_bv (bk_fs b))"
  using assms(1)
proof induction
  case start
  show ?case by (simp add: same_head_def)
next
  case (step b b')
  have inv: "bk_inv e cfg D (stream_of (bk_segs b0)) b" by (rule backup_reach_inv [OF step(1) j])
  have st: "stream_ok D (stream_of (bk_segs b0))" "cfg_ok cfg" using j by (simp_all add: job_ok_def)
  from step(2) have "same_head (fs_bv (bk_fs b)) (fs_bv (bk_fs b'))"
  proof cases
    case (filter s ss w t st')
    with filter_turn [OF inv st filter(2)] show ?thesis by auto
  qed (simp_all add: same_head_def)
  with step(3) show ?case by (rule same_head_trans)
qed

lemma filter_finish_ok:
  assumes ok: "f_ok cfg D st" and cfg: "cfg_ok cfg" and p: "pool_inv be iter (fc_sim cfg) (fs_pool st)"
  shows "\<exists>st'. filter_finish cfg st = Inr st' \<and> pool_inv be iter (fc_sim cfg) (fs_pool st') \<and> fs_bv st' = fs_bv st \<and>
     fs_access st' = fs_access st \<and> fs_file st' = fs_file st \<and>
     set (ps_accepted (fs_pool st')) \<subseteq> set (all_containers st) \<and>
     (\<forall>i f. holds st i f \<longrightarrow> (\<exists>c\<in>set (ps_accepted (fs_pool st')). idof c = i \<and> f \<in> keys_of c))"
proof -
  have si: "store_inv (fc_sim cfg) D st" and ix: "ix_ok cfg (fs_ix st)" and ch: "chunks20 cfg st" using ok by (simp_all add: f_ok_def)
  show ?thesis
  proof (cases "\<exists>b. fs_cb st = Some b \<and> \<not> container_empty b")
    case False
    then have r: "filter_finish cfg st = Inr st" by (auto simp: filter_finish_def split: option.splits)
    have "keys_of b = {}" if "fs_cb st = Some b" for b
      using that False si by (auto simp: container_empty_def store_inv_def all_containers_def container_ok_def meta_ok_def keys_of_def)
    then have "\<exists>c\<in>set (ps_accepted (fs_pool st)). idof c = i \<and> f \<in> keys_of c" if "holds st i f" for i f
      using that by (auto simp: holds_def')
    with r p show ?thesis by (auto simp: all_containers_def)
  next
    case True
    then obtain b where b: "fs_cb st = Some b" "\<not> container_empty b" by blast
    have bo: "container_ok (fc_sim cfg) b" "idof b \<notin> idof ` set (ps_accepted (fs_pool st))"
      using si b by (auto simp: store_inv_def all_containers_def)
    have c20: "physical cfg \<longrightarrow> (\<forall>c\<in>set (fs_chunks st). length (ck_fp c) = 20)" using ch by (simp add: chunks20_def)
    from index_container_ok [OF ix cfg bo(1) c20] obtain ix' where
      i: "index_container cfg b st = Inr (if physical cfg then st\<lparr>fs_ix := ix', fs_chunks := []\<rparr> else st\<lparr>fs_ix := ix'\<rparr>)" by blast
    let ?p = "(fs_pool st)\<lparr>ps_buffer := ps_buffer (fs_pool st) @ [b], ps_accepted := ps_accepted (fs_pool st) @ [b]\<rparr>"
    have w: "write_container_async b (fs_pool st) = Inr ?p"
      using b(2) bo(1) by (simp add: write_container_async_def container_ok_def meta_ok_def)
    have "pool_inv be iter (fc_sim cfg) ?p"
      using p bo b(2) unfolding pool_inv_def by (auto simp: image_iff split: list.splits)
    moreover have "filter_finish cfg st = Inr ((if physical cfg then st\<lparr>fs_ix := ix', fs_chunks := []\<rparr> else st\<lparr>fs_ix := ix'\<rparr>)\<lparr>fs_pool := ?p\<rparr>)"
      using b i w by (simp add: filter_finish_def)
    ultimately show ?thesis using b by (auto simp: holds_def' all_containers_def)
  qed
qed

lemma pool_step_accepted:
  assumes "pool_step be iter sim version p p'"
  shows "set (ps_accepted p) \<subseteq> set (ps_accepted p')"
  using assms
proof cases
  case (push c)
  then show ?thesis by (auto simp: write_container_async_def rbind_Inr_iff split: if_splits)
next
  case (write_top c cs)
  then show ?thesis by (auto simp: append_write_def rbind_Inr_iff)
qed simp

lemma pool_reach_accepted: "pool_reach be iter sim version p p' \<Longrightarrow> set (ps_accepted p) \<subseteq> set (ps_accepted p')"
  by (induction rule: pool_reach.induct) (use pool_step_accepted in blast)+

text \<open>A container the drained pool has accepted yields each of its chunks.\<close>

definition pool_gives :: "bool \<Rightarrow> int \<Rightarrow> byte list \<Rightarrow> containerid \<Rightarrow> fingerprint \<Rightarrow> byte list \<Rightarrow> bool" where
  "pool_gives be sim pool i fp x \<longleftrightarrow> (\<exists>c. retrieve_container_by_id be sim pool i = Inr c \<and> lookup_fingerprint_in_container c fp \<and>
     (\<forall>addr. \<exists>ck. get_chunk_in_container sim addr c fp = Inr ck \<and> ck_data ck = x \<and> ck_size ck = int (length x) \<and> ck_id ck = i))"

lemma drained_gives:
  assumes p: "pool_inv be iter sim p" "ps_buffer p = []" "c \<in> set (ps_accepted p)" and it: "iter_ok iter" and sim: "sim < SIMULATION_RESTORE"
    and x: "ct_abs c fp = Some x"
  shows "pool_gives be sim (ps_pool p) (idof c) fp x"
proof -
  from p have st: "stored be iter sim (ps_pool p) c" and ok: "container_ok sim c" by (auto simp: pool_inv_def)
  from retrieve_stored [OF st ok it] sim obtain c' d' where
    r: "retrieve_container_by_id be sim (ps_pool p) (idof c) = Inr c'"
      "ct_meta c' = (ct_meta c)\<lparr>cm_map := numbered False 0 (iter (cm_map (ct_meta c)))\<rparr>"
      "ct_data c' = Some d'" "length d' = CONTAINER_SIZE"
      "take (CONTAINER_SIZE - CONTAINER_META_SIZE) d' = take (CONTAINER_SIZE - CONTAINER_META_SIZE) (the (ct_data c))" by blast
  from ok sim obtain d where d: "ct_data c = Some d" by (auto simp: container_ok_def cfg_simps)
  have abs: "ct_abs c' = ct_abs c" by (rule ct_abs_retrieved [OF ok it d r(2,3)]) (use r(5) d in simp)
  with x have "ct_abs c' fp = Some x" by simp
  then have "lookup_fingerprint_in_container c' fp"
    by (auto simp: ct_abs_def lookup_fingerprint_in_container_def lookup_fingerprint_in_container_meta_def split: option.splits)
  with r(1) chunk_of_container [OF ok it sim x r(2-4) \<open>ct_abs c' fp = Some x\<close>] show ?thesis unfolding pool_gives_def by blast
qed

lemma holds_content:
  assumes "store_inv sim D st" "c \<in> set (all_containers st)" "fp \<in> keys_of c" "sim < SIMULATION_APPEND"
  shows "ct_abs c fp = Some (D fp)"
proof -
  from assms have "container_ok sim c" by (simp add: store_inv_def)
  with assms(4) obtain d where d: "ct_data c = Some d" by (auto simp: container_ok_def)
  from assms(3) obtain me where "map_of (cm_map (ct_meta c)) fp = Some me" by (metis keys_of_def map_of_eq_None_iff not_None_eq)
  with d obtain x where "ct_abs c fp = Some x" by (simp add: ct_abs_def)
  with assms(1,2,4) show ?thesis by (auto simp: store_inv_def)
qed

lemma backup_done:
  assumes j: "job_ok e cfg D b0" and r: "backup_reach e cfg b0 b" and fin: "bk_segs b = []" "bk_flight b = []"
    and sim: "fc_sim cfg < SIMULATION_RESTORE"
  shows "\<exists>st segs rs. filter_finish cfg (bk_fs b) = Inr st \<and>
    ver_rep (fc_be cfg) (fs_bv st) (fs_access st) segs None rs \<and> rec_files None (stream_of (bk_segs b0)) = (rs, fs_file st) \<and>
    map (\<lambda>cp. (cp_fp cp, cp_size cp)) (concat segs) = map (\<lambda>c. (ck_fp c, ck_size c)) (data_chunks (stream_of (bk_segs b0))) \<and>
    same_head (fs_bv (bk_fs b0)) (fs_bv st) \<and> pool_inv (fc_be cfg) (be_iter e) (fc_sim cfg) (fs_pool st) \<and>
    (\<forall>cp\<in>set (concat segs). \<exists>c\<in>set (ps_accepted (fs_pool st)). idof c = cp_id cp \<and> cp_fp cp \<in> keys_of c) \<and>
    (\<forall>c\<in>set (ps_accepted (fs_pool st)). \<forall>fp\<in>keys_of c. ct_abs c fp = Some (D fp))"
proof -
  let ?all = "stream_of (bk_segs b0)"
  have inv: "bk_inv e cfg D ?all b" by (rule backup_reach_inv [OF r j])
  then obtain before segs rs where i: "f_ok cfg D (bk_fs b)" "pool_inv (fc_be cfg) (be_iter e) (fc_sim cfg) (fs_pool (bk_fs b))"
    "list_all2 carried ?all before" "recipe_of cfg (bk_fs b) before segs rs" unfolding bk_inv_def using fin by auto
  have it: "iter_ok (be_iter e)" and cfg: "cfg_ok cfg" and st: "stream_ok D ?all" using j by (simp_all add: job_ok_def)
  have si: "store_inv (fc_sim cfg) D (bk_fs b)" using i(1) by (simp add: f_ok_def)
  from filter_finish_ok [OF i(1) cfg i(2)] obtain st' where f: "filter_finish cfg (bk_fs b) = Inr st'"
    "pool_inv (fc_be cfg) (be_iter e) (fc_sim cfg) (fs_pool st')" "fs_bv st' = fs_bv (bk_fs b)" "fs_access st' = fs_access (bk_fs b)"
    "fs_file st' = fs_file (bk_fs b)" "set (ps_accepted (fs_pool st')) \<subseteq> set (all_containers (bk_fs b))"
    "\<forall>i f. holds (bk_fs b) i f \<longrightarrow> (\<exists>c\<in>set (ps_accepted (fs_pool st')). idof c = i \<and> f \<in> keys_of c)" by blast
  have dc: "list_all2 carried (data_chunks ?all) (data_chunks before)"
    using i(3) by (induction rule: list_all2_induct) (auto simp: carried_def dest: same_data_mark)
  have m: "map (\<lambda>c. (ck_fp c, ck_size c)) (data_chunks before) = map (\<lambda>c. (ck_fp c, ck_size c)) (data_chunks ?all)"
    using dc by (induction rule: list_all2_induct) (auto simp: carried_def same_data_def)
  have rec: "map (\<lambda>cp. (cp_fp cp, cp_size cp)) (concat segs) = map (\<lambda>c. (ck_fp c, ck_size c)) (data_chunks ?all)"
    "rec_files None ?all = (rs, fs_file st')" "\<forall>cp\<in>set (concat segs). holds (bk_fs b) (cp_id cp) (cp_fp cp)"
    "ver_rep (fc_be cfg) (fs_bv st') (fs_access st') segs None rs"
    using i(4) m carried_fps [OF i(3)] f(3-5) by (simp_all add: recipe_of_def)
  have ap: "fc_sim cfg < SIMULATION_APPEND" using sim by (simp add: cfg_simps)
  have "\<forall>c\<in>set (ps_accepted (fs_pool st')). \<forall>fp\<in>keys_of c. ct_abs c fp = Some (D fp)"
    using holds_content [OF si _ _ ap] f(6) by blast
  moreover have "\<forall>cp\<in>set (concat segs). \<exists>c\<in>set (ps_accepted (fs_pool st')). idof c = cp_id cp \<and> cp_fp cp \<in> keys_of c"
    using rec(3) f(7) by blast
  moreover have "same_head (fs_bv (bk_fs b0)) (fs_bv st')" using backup_reach_head [OF r j] f(3) by simp
  ultimately show ?thesis using f(1,2) rec(1,2,4) by blast
qed

subsection \<open>Properties\<close>


text \<open>C3: when all segments of the stream have passed the pipeline, in whatever interleaving, the filter phase can
  finish, and after the append thread has drained its queue the recipe names, for every chunk of the stream in order, a container of
  the pool file from which the chunk's data is read back; the recipe's files are those of the stream.\<close>

theorem backup_restorable:
  assumes j: "job_ok e cfg D b0" and r: "backup_reach e cfg b0 b" and fin: "bk_segs b = []" "bk_flight b = []"
    and sim: "fc_sim cfg < SIMULATION_RESTORE"
  shows "\<exists>st segs rs. filter_finish cfg (bk_fs b) = Inr st \<and>
    ver_rep (fc_be cfg) (fs_bv st) (fs_access st) segs None rs \<and> rec_files None (stream_of (bk_segs b0)) = (rs, fs_file st) \<and>
    map (\<lambda>cp. (cp_fp cp, cp_size cp)) (concat segs) = map (\<lambda>c. (ck_fp c, ck_size c)) (data_chunks (stream_of (bk_segs b0))) \<and>
    (\<forall>p. pool_reach (fc_be cfg) (be_iter e) (fc_sim cfg) (be_version e) (fs_pool st) p \<and> ps_buffer p = [] \<longrightarrow>
       list_all2 (\<lambda>cp c. pool_gives (fc_be cfg) (fc_sim cfg) (ps_pool p) (cp_id cp) (cp_fp cp) (ck_data c))
         (concat segs) (data_chunks (stream_of (bk_segs b0))))"
proof -
  let ?all = "stream_of (bk_segs b0)"
  have it: "iter_ok (be_iter e)" and st: "stream_ok D ?all" using j by (simp_all add: job_ok_def)
  from backup_done [OF assms] obtain st' segs rs where d: "filter_finish cfg (bk_fs b) = Inr st'"
    "ver_rep (fc_be cfg) (fs_bv st') (fs_access st') segs None rs" "rec_files None ?all = (rs, fs_file st')"
    "map (\<lambda>cp. (cp_fp cp, cp_size cp)) (concat segs) = map (\<lambda>c. (ck_fp c, ck_size c)) (data_chunks ?all)"
    "pool_inv (fc_be cfg) (be_iter e) (fc_sim cfg) (fs_pool st')"
    "\<forall>cp\<in>set (concat segs). \<exists>c\<in>set (ps_accepted (fs_pool st')). idof c = cp_id cp \<and> cp_fp cp \<in> keys_of c"
    "\<forall>c\<in>set (ps_accepted (fs_pool st')). \<forall>fp\<in>keys_of c. ct_abs c fp = Some (D fp)" by blast
  have "list_all2 (\<lambda>cp c. pool_gives (fc_be cfg) (fc_sim cfg) (ps_pool p) (cp_id cp) (cp_fp cp) (ck_data c)) (concat segs) (data_chunks ?all)"
    if p: "pool_reach (fc_be cfg) (be_iter e) (fc_sim cfg) (be_version e) (fs_pool st') p" "ps_buffer p = []" for p
  proof -
    have g: "pool_gives (fc_be cfg) (fc_sim cfg) (ps_pool p) (cp_id cp) (cp_fp cp) (D (cp_fp cp))" if cp: "cp \<in> set (concat segs)" for cp
    proof -
      from d(6) cp obtain c where c: "c \<in> set (ps_accepted (fs_pool st'))" "idof c = cp_id cp" "cp_fp cp \<in> keys_of c" by blast
      with d(7) have "ct_abs c (cp_fp cp) = Some (D (cp_fp cp))" by blast
      with drained_gives [OF pool_reach_inv [OF p(1) d(5) it] p(2) _ it sim, of c "cp_fp cp"] pool_reach_accepted [OF p(1)] c(1,2)
      show ?thesis by auto
    qed
    have "data_ok D c" if "c \<in> set (data_chunks ?all)" for c using st that by (auto simp: stream_ok_def data_chunks_def)
    then have D: "D (ck_fp c) = ck_data c" if "c \<in> set (data_chunks ?all)" for c using that by (simp add: data_ok_def)
    have "list_all2 (\<lambda>cp c. cp_fp cp = ck_fp c) (concat segs) (data_chunks ?all)"
      using d(4) by (auto simp: list.rel_eq [symmetric] list.rel_map elim: list_all2_mono simp del: list.rel_eq)
    then show ?thesis
      by (rule list.rel_mono_strong) (use g D in metis)
  qed
  with d(1-4) show ?thesis by blast
qed

subsection \<open>The first job\<close>

definition start_filter_phase :: "int \<Rightarrow> index_state \<Rightarrow> pool_sys \<Rightarrow> backupVersion \<Rightarrow> filter_state" where
  "start_filter_phase cache_size ix pool bv =
     \<lparr>fs_ix = ix, fs_cb = None, fs_chunks = [], fs_pool = pool, fs_har = [], fs_ra = init_restore_aware cache_size,
      fs_enable_rewrite = True, fs_unique = [], fs_rewritten = [], fs_bv = bv, fs_access = TEMPORARY_ID, fs_file = None,
      fs_jcr = \<lparr>unique_chunk_num = 0, unique_data_size = 0, rewritten_chunk_num = 0, rewritten_chunk_size = 0,
               jcr_chunk_num = 0, jcr_data_size = 0, jcr_file_num = 0\<rparr>\<rparr>"

definition first_job :: "int \<Rightarrow> filter_cfg \<Rightarrow> backupVersion \<Rightarrow> segment list \<Rightarrow> backup" where
  "first_job cache_size cfg bv ss =
     \<lparr>bk_segs = ss, bk_flight = [],
      bk_fs = start_filter_phase cache_size (index_start (fc_ix cfg) [] rtm_start) (pool_empty [] 0 []) bv\<rparr>"

lemma first_job_ok:
  assumes "cfg_ok cfg" "physical cfg" "iter_ok (be_iter e)" and bv: "create_backup_version (fc_be cfg) path cnt = Inr (bv, cnt')"
    and ss: "stream_ok D (stream_of ss)" "\<forall>c\<in>set (stream_of ss). fresh cfg c" "\<forall>s\<in>set ss. seg_inv s \<and> seg_len_ok (seg_chunk_num s)"
    "int (length (stream_of ss)) < 2 ^ 40"
  shows "job_ok e cfg D (first_job n cfg bv ss)"
proof -
  let ?st = "start_filter_phase n (index_start (fc_ix cfg) [] rtm_start) (pool_empty [] 0 []) bv"
  have ix: "ix_ok cfg (fs_ix ?st)" "buf_rep (fs_ix ?st) []" "ix_sound (holds ?st) (fs_ix ?st)"
    by (auto simp: ix_ok_def kv_ok_def start_filter_phase_def index_start_def init_fingerprint_cache_def buf_rep_def ix_sound_def
        cache_sound_def buffer_sound_def new_lru_cache_def split: locality.splits)
  have "store_inv (fc_sim cfg) D ?st" by (simp add: store_inv_def start_filter_phase_def pool_empty_def all_containers_def)
  moreover have "ra_ok (fs_ra ?st)"
    by (simp add: ra_ok_def start_filter_phase_def init_restore_aware_def lru_inv_new) (simp add: new_lru_cache_def)
  ultimately have "f_ok cfg D ?st" using ix by (simp add: f_ok_def chunks20_def tables_sound_def) (simp add: start_filter_phase_def)
  moreover have "pool_blank sim (pool_empty [] 0 [])" for sim by (simp add: pool_blank_def blank_def pool_empty_def)
  moreover have "fs_pool ?st = pool_empty [] 0 []" "fs_bv ?st = bv" "fs_access ?st = TEMPORARY_ID" "fs_file ?st = None"
    "ps_count (pool_empty [] 0 []) = 0" by (simp_all add: start_filter_phase_def pool_empty_def)
  ultimately show ?thesis
    using assms ix ver_create [OF bv] pool_inv_empty unfolding job_ok_def first_job_def by simp
qed

text \<open>For the witnesses: one file of one chunk.\<close>

definition demo_filter_cfg :: filter_cfg where
  "demo_filter_cfg = \<lparr>fc_ix = ddfs_cfg, fc_sim = SIMULATION_NO, fc_be = False, cache_aware = False, cfl_switch = False, cfl_require = 0,
     fc_no_rewrite = True, fc_sampling = (\<lambda>cs n. Inr []), fc_iter = (\<lambda>fs. fs), dquot = (\<lambda>a b. 0)\<rparr>"

definition demo_env :: backup_env where
  "demo_env = \<lparr>be_iter = (\<lambda>t. t), be_version = 0, be_dir = (\<lambda>_. None), be_junkp = demo_cp, be_fiter = (\<lambda>fs. fs), be_siter = (\<lambda>ss. ss)\<rparr>"

definition demo_chunk :: chunk where
  "demo_chunk = (new_chunk 5)\<lparr>ck_fp := replicate 20 7, ck_data := [1, 2, 3, 4, 5]\<rparr>"

definition demo_segment :: segment where
  "demo_segment = new_segment\<lparr>seg_chunk_num := 1, seg_chunks :=
     [SET_CHUNK ((new_chunk 2)\<lparr>ck_data := [97, 0]\<rparr>) CHUNK_FILE_START, demo_chunk, SET_CHUNK (new_chunk 0) CHUNK_FILE_END]\<rparr>"

lemmas demo_defs = demo_segment_def demo_chunk_def new_segment_def new_chunk_def CHECK_CHUNK_def SET_CHUNK_def cfg_simps
  is_file_mark_def TEMPORARY_ID_def zero_fp_def

lemma demo_job:
  "\<exists>bv. create_backup_version (fc_be demo_filter_cfg) [47] 0 = Inr (bv, 1) \<and>
     job_ok demo_env demo_filter_cfg (\<lambda>_. [1, 2, 3, 4, 5]) (first_job 40 demo_filter_cfg bv [demo_segment])"
proof -
  obtain bv where bv: "create_backup_version (fc_be demo_filter_cfg) [47] 0 = Inr (bv, 1)"
    by (simp add: create_backup_version_def get_next_version_number_def path_dir_def Let_def)
  have "stream_ok (\<lambda>_. [1, 2, 3, 4, 5]) (stream_of [demo_segment])"
    by (simp add: stream_ok_def data_ok_def fits_def demo_defs metabufsize_def)
  moreover have "cfg_ok demo_filter_cfg" "physical demo_filter_cfg"
    by (simp_all add: cfg_ok_def physical_def demo_filter_cfg_def ddfs_cfg_def)
  moreover have "\<forall>c\<in>set (stream_of [demo_segment]). fresh demo_filter_cfg c" by (simp add: fresh_def demo_defs)
  moreover have "\<forall>s\<in>set [demo_segment]. seg_inv s \<and> seg_len_ok (seg_chunk_num s)"
    by (simp add: seg_inv_def normal_count_def in32_def demo_defs)
  moreover have "int (length (stream_of [demo_segment])) < 2 ^ 40" by (simp add: demo_defs)
  moreover have "iter_ok (be_iter demo_env)" by (simp add: demo_env_def iter_ok_id)
  ultimately show ?thesis using first_job_ok [OF _ _ _ bv] by (intro exI [of _ bv] conjI bv)
qed

lemma demo_looked_up:
  "\<exists>t ix. backup_reach demo_env demo_filter_cfg (first_job 40 demo_filter_cfg bv [demo_segment])
     ((first_job 40 demo_filter_cfg bv [demo_segment])\<lparr>bk_segs := [], bk_flight := [t],
       bk_fs := (bk_fs (first_job 40 demo_filter_cfg bv [demo_segment]))\<lparr>fs_ix := ix\<rparr>\<rparr>)"
proof -
  let ?b = "first_job 40 demo_filter_cfg bv [demo_segment]"
  obtain t ix where l: "dedup_lookup (be_fiter demo_env) (be_siter demo_env) (fc_sampling demo_filter_cfg) (fc_ix demo_filter_cfg)
      (index_env demo_env demo_filter_cfg (bk_fs ?b)) 0 (fs_cb (bk_fs ?b)) demo_segment (fs_ix (bk_fs ?b)) = Inr (Some t, ix)"
    by (simp add: dedup_lookup_def first_job_def start_filter_phase_def demo_filter_cfg_def lookup_eval demo_segment_def demo_chunk_def)
  have b: "bk_segs ?b = [demo_segment]" "bk_flight ?b = []" by (simp_all add: first_job_def)
  have "backup_reach demo_env demo_filter_cfg ?b (?b\<lparr>bk_segs := [], bk_flight := [t], bk_fs := (bk_fs ?b)\<lparr>fs_ix := ix\<rparr>\<rparr>)"
    by (rule backup_reach.step [OF backup_reach.start]) (use backup_step.dedup [OF b(1) l] b(2) in simp)
  then show ?thesis by blast
qed

lemma demo_done:
  "\<exists>bv b. create_backup_version (fc_be demo_filter_cfg) [47] 0 = Inr (bv, 1) \<and>
     job_ok demo_env demo_filter_cfg (\<lambda>_. [1, 2, 3, 4, 5]) (first_job 40 demo_filter_cfg bv [demo_segment]) \<and>
     backup_reach demo_env demo_filter_cfg (first_job 40 demo_filter_cfg bv [demo_segment]) b \<and> bk_segs b = [] \<and> bk_flight b = []"
proof -
  obtain bv where bv: "create_backup_version (fc_be demo_filter_cfg) [47] 0 = Inr (bv, 1)"
    and j: "job_ok demo_env demo_filter_cfg (\<lambda>_. [1, 2, 3, 4, 5]) (first_job 40 demo_filter_cfg bv [demo_segment])"
    using demo_job by blast
  let ?b = "first_job 40 demo_filter_cfg bv [demo_segment]"
  obtain b s where b: "backup_reach demo_env demo_filter_cfg ?b b" "bk_flight b = [s]" "bk_segs b = []"
    using demo_looked_up [of bv] by force
  from filter_turn [OF backup_reach_inv [OF b(1) j] _ _ b(2)] j obtain w t st where f: "filter_segment demo_filter_cfg s (bk_fs b) = Inr (w, t, st)"
    unfolding job_ok_def by blast
  let ?b2 = "b\<lparr>bk_flight := [], bk_fs := st\<rparr>"
  have "backup_reach demo_env demo_filter_cfg ?b ?b2"
    by (rule backup_reach.step [OF b(1) backup_step.filter [OF b(2) f]])
  moreover have "bk_segs ?b2 = []" "bk_flight ?b2 = []" by (simp_all add: b(3))
  ultimately show ?thesis using bv j by blast
qed


theorem backup_restorable_witness:
  "\<exists>bv b st segs. backup_reach demo_env demo_filter_cfg (first_job 40 demo_filter_cfg bv [demo_segment]) b \<and>
     filter_finish demo_filter_cfg (bk_fs b) = Inr st \<and> map (\<lambda>cp. (cp_fp cp, cp_size cp)) (concat (segs :: chunkPointer list list)) = [(replicate 20 7, 5)]"
proof -
  obtain bv b where j: "job_ok demo_env demo_filter_cfg (\<lambda>_. [1, 2, 3, 4, 5]) (first_job 40 demo_filter_cfg bv [demo_segment])"
    and b: "backup_reach demo_env demo_filter_cfg (first_job 40 demo_filter_cfg bv [demo_segment]) b" "bk_segs b = []" "bk_flight b = []"
    using demo_done by blast
  let ?b = "first_job 40 demo_filter_cfg bv [demo_segment]"
  have e: "bk_segs ?b = [demo_segment]" "map (\<lambda>c. (ck_fp c, ck_size c)) (data_chunks (stream_of [demo_segment])) = [(replicate 20 7, 5)]"
    by (simp add: first_job_def, simp add: demo_defs)
  have sim: "fc_sim demo_filter_cfg < SIMULATION_RESTORE" by (simp add: demo_filter_cfg_def cfg_simps)
  from backup_restorable [OF j b sim] obtain st2 and segs :: "chunkPointer list list" where
    "filter_finish demo_filter_cfg (bk_fs b) = Inr st2"
    "map (\<lambda>cp. (cp_fp cp, cp_size cp)) (concat segs) = map (\<lambda>c. (ck_fp c, ck_size c)) (data_chunks (stream_of (bk_segs ?b)))" by blast
  then show ?thesis
    unfolding e using b(1) by (intro exI [of _ bv] exI [of _ b] exI [of _ st2] exI [of _ segs] conjI)
qed

end
