(* ===== verification/Restore.thy ===== *)
theory Restore
  imports Recipe_Laws Index
begin

text \<open>
  The restore job: \<open>do_restore.c\<close>, \<open>assembly_restore.c\<close> and \<open>optimal_restore.c\<close>. Each thread is a
  function from the messages it pops to those it pushes. \<open>pool\<close> is the file \<open>container.pool\<close> (no container is
  buffered during a restore), \<open>addr\<close> the bytes that \<open>get_chunk_in_container\<close> copies over the fingerprint.
  Freeing, timers and the printed summary are left out; the counters of \<open>jcr\<close> are kept.
\<close>

record restore_cfg =
  rs_be :: bool
  rs_sim :: int
  rs_iter :: meta_iter
  rs_cache_size :: int          \<comment> \<open>\<open>restore_cache[1]\<close>\<close>
  rs_window :: int              \<comment> \<open>\<open>restore_opt_window_size\<close>\<close>
  rs_pool :: "byte list"
  rs_addr :: fingerprint
  rs_place :: "containerid \<Rightarrow> containerid list \<Rightarrow> containerid list"   \<comment> \<open>\<open>g_sequence_insert_sorted\<close>\<close>

record restore_jcr =
  rj_data_size :: int
  rj_chunk_num :: int
  rj_file_num :: int
  rj_read_container_num :: int

definition start_jcr :: restore_jcr where
  "start_jcr = \<lparr>rj_data_size = 0, rj_chunk_num = 0, rj_file_num = 0, rj_read_container_num = 0\<rparr>"

definition count_chunk :: "chunk \<Rightarrow> restore_jcr \<Rightarrow> restore_jcr" where
  "count_chunk c j = j\<lparr>rj_data_size := rj_data_size j + ck_size c, rj_chunk_num := rj_chunk_num j + 1\<rparr>"

definition count_container :: "restore_jcr \<Rightarrow> restore_jcr" where
  "count_container j = j\<lparr>rj_read_container_num := rj_read_container_num j + 1\<rparr>"

definition read_container :: "restore_cfg \<Rightarrow> containerid \<Rightarrow> container res" where
  "read_container cfg i = retrieve_container_by_id (rs_be cfg) (rs_sim cfg) (rs_pool cfg) i"

definition read_meta :: "restore_cfg \<Rightarrow> containerid \<Rightarrow> containerMeta res" where
  "read_meta cfg i = retrieve_container_meta_by_id (rs_be cfg) (rs_iter cfg) (rs_sim cfg) [] (rs_pool cfg) i"

definition fetch_chunk :: "restore_cfg \<Rightarrow> container \<Rightarrow> fingerprint \<Rightarrow> chunk res" where
  "fetch_chunk cfg con fp = get_chunk_in_container (rs_sim cfg) (rs_addr cfg) con fp"

text \<open>A thread's loop over the messages it pops.\<close>

fun restore_loop :: "(chunk \<Rightarrow> 's \<Rightarrow> (chunk list \<times> 's) res) \<Rightarrow> chunk list \<Rightarrow> 's \<Rightarrow> (chunk list \<times> 's) res" where
  "restore_loop f [] s = Inr ([], s)"
| "restore_loop f (c # cs) s =
     rbind (f c s) (\<lambda>(out, s). rbind (restore_loop f cs s) (\<lambda>(outs, s). Inr (out @ outs, s)))"

subsection \<open>The LRU cache\<close>

record lru_restore =
  lr_con :: "container lruCache"
  lr_meta :: "containerMeta lruCache"
  lr_jcr :: restore_jcr

definition lru_restore_meta :: "restore_cfg \<Rightarrow> chunk \<Rightarrow> lru_restore \<Rightarrow> lru_restore res" where
  "lru_restore_meta cfg c s =
     (case lru_cache_lookup (\<lambda>cm. lookup_fingerprint_in_container_meta cm (ck_fp c)) (lr_meta s) of
        (Some _, l) \<Rightarrow> Inr (s\<lparr>lr_meta := l\<rparr>)
      | (None, l) \<Rightarrow>
          rbind (read_meta cfg (ck_id c)) (\<lambda>cm.
          rbind (c_assert (lookup_fingerprint_in_container_meta cm (ck_fp c))) (\<lambda>_.
          rbind (lru_cache_insert l cm) (\<lambda>(_, l). Inr (s\<lparr>lr_meta := l, lr_jcr := count_container (lr_jcr s)\<rparr>)))))"

definition lru_restore_data :: "restore_cfg \<Rightarrow> chunk \<Rightarrow> lru_restore \<Rightarrow> (chunk \<times> lru_restore) res" where
  "lru_restore_data cfg c s =
     rbind (case lru_cache_lookup (\<lambda>con. lookup_fingerprint_in_container con (ck_fp c)) (lr_con s) of
        (Some con, l) \<Rightarrow> Inr (con, s\<lparr>lr_con := l\<rparr>)
      | (None, l) \<Rightarrow>
          rbind (read_container cfg (ck_id c)) (\<lambda>con.
          rbind (lru_cache_insert l con) (\<lambda>(_, l). Inr (con, s\<lparr>lr_con := l, lr_jcr := count_container (lr_jcr s)\<rparr>)))) (\<lambda>(con, s).
     rbind (fetch_chunk cfg con (ck_fp c)) (\<lambda>rc. Inr (rc, s)))"

definition lru_restore_chunk :: "restore_cfg \<Rightarrow> chunk \<Rightarrow> lru_restore \<Rightarrow> (chunk list \<times> lru_restore) res" where
  "lru_restore_chunk cfg c s =
     (if CHECK_CHUNK c CHUNK_FILE_START \<or> CHECK_CHUNK c CHUNK_FILE_END then Inr ([c], s)
      else
        rbind (if rs_sim cfg \<ge> SIMULATION_RESTORE then rbind (lru_restore_meta cfg c s) (\<lambda>s. Inr ([], s))
               else rbind (lru_restore_data cfg c s) (\<lambda>(rc, s). Inr ([rc], s))) (\<lambda>(out, s).
          Inr (out, s\<lparr>lr_jcr := count_chunk c (lr_jcr s)\<rparr>)))"

definition lru_restore_thread :: "restore_cfg \<Rightarrow> chunk list \<Rightarrow> (chunk list \<times> restore_jcr) res" where
  "lru_restore_thread cfg cs =
     rbind (restore_loop (lru_restore_chunk cfg) cs
       \<lparr>lr_con = new_lru_cache (rs_cache_size cfg), lr_meta = new_lru_cache (rs_cache_size cfg), lr_jcr = start_jcr\<rparr>)
       (\<lambda>(out, s). Inr (out, lr_jcr s))"

subsection \<open>The forward assembly area\<close>

record assembly =
  as_area :: "chunk list"
  as_area_size :: int
  as_size :: int
  as_jcr :: restore_jcr

definition init_assembly_area :: "restore_cfg \<Rightarrow> assembly" where
  "init_assembly_area cfg =
     \<lparr>as_area = [], as_area_size = (rs_cache_size cfg - 1) * int CONTAINER_SIZE, as_size = 0, as_jcr = start_jcr\<rparr>"

text \<open>The chunks of the container that is read get their data; with simulation only the flag.\<close>

definition fill_chunk :: "restore_cfg \<Rightarrow> container option \<Rightarrow> containerid \<Rightarrow> chunk \<Rightarrow> chunk res" where
  "fill_chunk cfg con i c =
     (if \<not> CHECK_CHUNK c CHUNK_FILE_START \<and> \<not> CHECK_CHUNK c CHUNK_FILE_END \<and> i = ck_id c then
        rbind (case con of
            None \<Rightarrow> Inr c
          | Some con \<Rightarrow>
              rbind (fetch_chunk cfg con (ck_fp c)) (\<lambda>buf.
              rbind (c_assert (ck_size c = ck_size buf)) (\<lambda>_.
              rbind (peek 0 (nat (ck_size c)) (ck_data buf)) (\<lambda>d. Inr (c\<lparr>ck_data := d\<rparr>))))) (\<lambda>c.
          Inr (SET_CHUNK c CHUNK_READY))
      else Inr c)"

definition issued :: "chunk \<Rightarrow> bool" where
  "issued c \<longleftrightarrow> CHECK_CHUNK c CHUNK_FILE_START \<or> CHECK_CHUNK c CHUNK_FILE_END \<or> CHECK_CHUNK c CHUNK_READY"

definition assemble_area :: "restore_cfg \<Rightarrow> assembly \<Rightarrow> (chunk list option \<times> assembly) res" where
  "assemble_area cfg s =
     (if as_area s = [] then Inr (None, s)
      else let q = takeWhile is_file_mark (as_area s); rest = dropWhile is_file_mark (as_area s) in
        case rest of
          [] \<Rightarrow> Inr (Some q, s\<lparr>as_area := []\<rparr>)
        | c # _ \<Rightarrow>
            let i = ck_id c; s = s\<lparr>as_jcr := count_container (as_jcr s)\<rparr> in
            rbind (if rs_sim cfg = SIMULATION_NO then rbind (read_container cfg i) (\<lambda>con. Inr (Some con)) else Inr None) (\<lambda>con.
            rbind (rmap (fill_chunk cfg con i) rest) (\<lambda>area.
            let out = takeWhile issued area in
              Inr (Some (q @ out),
                   s\<lparr>as_area := dropWhile issued area,
                     as_size := as_size s - sum_list (map ck_size (filter (\<lambda>c. \<not> is_file_mark c) out))\<rparr>))))"

definition assembly_area_push :: "chunk option \<Rightarrow> assembly \<Rightarrow> bool \<times> assembly" where
  "assembly_area_push c0 s =
     (case c0 of
        None \<Rightarrow> (True, s)
      | Some c \<Rightarrow>
          let s = s\<lparr>as_area := as_area s @ [c]\<rparr> in
          if CHECK_CHUNK c CHUNK_FILE_START \<or> CHECK_CHUNK c CHUNK_FILE_END then (False, s)
          else let s = s\<lparr>as_size := as_size s + ck_size c\<rparr> in (as_size s \<ge> as_area_size s, s))"

text \<open>Sending an assembled queue on.\<close>

fun issue_queue :: "restore_cfg \<Rightarrow> chunk list \<Rightarrow> assembly \<Rightarrow> chunk list \<times> assembly" where
  "issue_queue cfg [] s = ([], s)"
| "issue_queue cfg (rc # q) s =
     (if CHECK_CHUNK rc CHUNK_FILE_START \<or> CHECK_CHUNK rc CHUNK_FILE_END
      then (let (out, s) = issue_queue cfg q s in (rc # out, s))
      else let (out, s) = issue_queue cfg q (s\<lparr>as_jcr := count_chunk rc (as_jcr s)\<rparr>) in
        (if rs_sim cfg \<ge> SIMULATION_RESTORE then out else rc # out, s))"

definition assembly_restore_chunk :: "restore_cfg \<Rightarrow> chunk \<Rightarrow> assembly \<Rightarrow> (chunk list \<times> assembly) res" where
  "assembly_restore_chunk cfg c s =
     (case assembly_area_push (Some c) s of
        (False, s) \<Rightarrow> Inr ([], s)
      | (True, s) \<Rightarrow> rbind (assemble_area cfg s) (\<lambda>(q, s).
          case q of None \<Rightarrow> Inl NullDeref | Some q \<Rightarrow> Inr (issue_queue cfg q s)))"

text \<open>The final loop drains the area: each round issues at least one chunk, so the length of the area bounds the
  rounds (\<open>drain_area_ok\<close>).\<close>

fun drain_area :: "restore_cfg \<Rightarrow> nat \<Rightarrow> assembly \<Rightarrow> (chunk list \<times> assembly) res option" where
  "drain_area cfg 0 s = None"
| "drain_area cfg (Suc n) s =
     (case assemble_area cfg s of
        Inl e \<Rightarrow> Some (Inl e)
      | Inr (None, s) \<Rightarrow> Some (Inr ([], s))
      | Inr (Some q, s) \<Rightarrow>
          (let (out, s) = issue_queue cfg q s in
           case drain_area cfg n s of
             None \<Rightarrow> None
           | Some r \<Rightarrow> Some (rbind r (\<lambda>(outs, s). Inr (out @ outs, s)))))"

definition assembly_restore_thread :: "restore_cfg \<Rightarrow> nat \<Rightarrow> chunk list \<Rightarrow> (chunk list \<times> restore_jcr) res option" where
  "assembly_restore_thread cfg fuel cs =
     (case restore_loop (assembly_restore_chunk cfg) cs (init_assembly_area cfg) of
        Inl e \<Rightarrow> Some (Inl e)
      | Inr (out, s) \<Rightarrow>
          let (_, s) = assembly_area_push None s in
          map_option (\<lambda>r. rbind r (\<lambda>(outs, s). Inr (out @ outs, as_jcr s))) (drain_area cfg fuel s))"

subsection \<open>The optimal cache\<close>

text \<open>\<open>oc_table\<close> holds the queue of sequence numbers of each container in the window;
  \<open>oc_sorted\<close> the ids of \<open>sorted_records_of_cached_containers\<close>, whose records are those of the table.
  \<open>oc_lru\<close> is the container queue (of the metadata only, where the restore is simulated). \<open>g_sequence_sort\<close>
  inserts the elements in order one by one. A record is inserted into
  \<open>sorted_records_of_cached_containers\<close> while it is out of order (the sequence is sorted again only when
  the cache is full), so the place it takes is GLib's: \<open>rs_place\<close>.\<close>

record optimal_cache =
  oc_seqno :: int
  oc_table :: "(containerid, int list) htable"
  oc_buffered :: int
  oc_sorted :: "containerid list"
  oc_con :: "container lruCache"
  oc_meta :: "containerMeta lruCache"
  oc_bv :: backupVersion
  oc_fin :: bool                  \<comment> \<open>the static \<open>end\<close> of \<open>read_next_n_records\<close>\<close>
  oc_last :: containerid          \<comment> \<open>the static \<open>last_id\<close>\<close>
  oc_jcr :: restore_jcr

definition seqnos :: "(containerid, int list) htable \<Rightarrow> containerid \<Rightarrow> int list" where
  "seqnos t i = (case map_of t i of None \<Rightarrow> [] | Some q \<Rightarrow> q)"

definition g_access_records_cmp_by_first_seqno :: "int list \<Rightarrow> int list \<Rightarrow> int" where
  "g_access_records_cmp_by_first_seqno a b = (case (a, b) of ([], _) \<Rightarrow> 1 | (_, []) \<Rightarrow> -1 | (x # _, y # _) \<Rightarrow> x - y)"

definition add_access :: "containerid \<Rightarrow> optimal_cache \<Rightarrow> optimal_cache" where
  "add_access i s = s\<lparr>oc_table := AList.update i (seqnos (oc_table s) i @ [oc_seqno s]) (oc_table s), oc_seqno := oc_seqno s + 1\<rparr>"

definition optimal_cache_window_fill :: "restore_cfg \<Rightarrow> int \<Rightarrow> optimal_cache \<Rightarrow> optimal_cache" where
  "optimal_cache_window_fill cfg junk s =
     (case read_next_n_records (rs_be cfg) junk (oc_bv s) (nat (rs_window cfg - oc_buffered s)) (oc_fin s) of
        (None, bv, f) \<Rightarrow> s\<lparr>oc_bv := bv, oc_fin := f\<rparr>
      | (Some ids, bv, f) \<Rightarrow> fold add_access ids (s\<lparr>oc_bv := bv, oc_fin := f, oc_buffered := oc_buffered s + int (length ids)\<rparr>))"

definition init_optimal_cache :: "restore_cfg \<Rightarrow> int \<Rightarrow> backupVersion \<Rightarrow> optimal_cache" where
  "init_optimal_cache cfg junk bv = optimal_cache_window_fill cfg junk
     \<lparr>oc_seqno = 0, oc_table = [], oc_buffered = 0, oc_sorted = [], oc_con = new_lru_cache (rs_cache_size cfg),
      oc_meta = new_lru_cache (rs_cache_size cfg), oc_bv = bv, oc_fin = False, oc_last = TEMPORARY_ID, oc_jcr = start_jcr\<rparr>"

definition optimal_cache_window_slides :: "restore_cfg \<Rightarrow> int \<Rightarrow> containerid \<Rightarrow> optimal_cache \<Rightarrow> optimal_cache res" where
  "optimal_cache_window_slides cfg junk i s =
     (let s = (if oc_buffered s * 2 \<le> rs_window cfg then optimal_cache_window_fill cfg junk s else s) in
      case map_of (oc_table s) i of
        None \<Rightarrow> Inl AssertFailed
      | Some q \<Rightarrow> Inr (s\<lparr>oc_table := AList.update i (tl q) (oc_table s), oc_buffered := oc_buffered s - 1\<rparr>))"

definition optimal_cache_hits :: "restore_cfg \<Rightarrow> int \<Rightarrow> containerid \<Rightarrow> optimal_cache \<Rightarrow> (bool \<times> optimal_cache) res" where
  "optimal_cache_hits cfg junk i s =
     rbind (if oc_last s \<noteq> i then rbind (optimal_cache_window_slides cfg junk i s) (\<lambda>s. Inr (s\<lparr>oc_last := i\<rparr>)) else Inr s) (\<lambda>s.
     if rs_sim cfg = SIMULATION_NO
     then (let (e, l) = lru_cache_hits (\<lambda>c. container_check_id c i) (oc_con s) in Inr (e \<noteq> None, s\<lparr>oc_con := l\<rparr>))
     else (let (e, l) = lru_cache_hits (\<lambda>m. container_meta_check_id m i) (oc_meta s) in Inr (e \<noteq> None, s\<lparr>oc_meta := l\<rparr>)))"

text \<open>The candidates for eviction: the record accessed last, and up to ten before it that are not accessed any more. The
  list is walked from its end: \<open>rev\<close>.\<close>

fun more_victims :: "(containerid, int list) htable \<Rightarrow> nat \<Rightarrow> containerid list \<Rightarrow> containerid list" where
  "more_victims t (Suc n) (i # is) = (if seqnos t i = [] then i # more_victims t n is else [])"
| "more_victims t _ _ = []"

definition sort_records :: "(containerid, int list) htable \<Rightarrow> containerid list \<Rightarrow> containerid list" where
  "sort_records t is = fold (insert_sorted (\<lambda>i j. g_access_records_cmp_by_first_seqno (seqnos t i) (seqnos t j))) is []"

definition kick_container :: "restore_cfg \<Rightarrow> containerid list \<Rightarrow> optimal_cache \<Rightarrow> containerid option \<times> optimal_cache" where
  "kick_container cfg ht s =
     (if rs_sim cfg = SIMULATION_NO
      then (let (v, l) = lru_cache_kicks (\<lambda>c. cm_id (ct_meta c) \<in> set ht) (oc_con s) in (map_option (\<lambda>c. cm_id (ct_meta c)) v, s\<lparr>oc_con := l\<rparr>))
      else (let (v, l) = lru_cache_kicks (\<lambda>m. cm_id m \<in> set ht) (oc_meta s) in (map_option cm_id v, s\<lparr>oc_meta := l\<rparr>)))"

definition evict :: "restore_cfg \<Rightarrow> optimal_cache \<Rightarrow> optimal_cache res" where
  "evict cfg s =
     (let srt = sort_records (oc_table s) (oc_sorted s) in
      case rev srt of
        [] \<Rightarrow> Inl NullDeref
      | r # rs \<Rightarrow>
          (case kick_container cfg (r # more_victims (oc_table s) 10 rs) s of
             (None, s) \<Rightarrow> Inl NullDeref
           | (Some v, s) \<Rightarrow>
               if v \<notin> set srt then Inl NullDeref
               else Inr (s\<lparr>oc_sorted := rev (remove1 v (rev srt)),
                          oc_table := (if seqnos (oc_table s) v = [] then AList.delete v (oc_table s) else oc_table s)\<rparr>)))"

definition cache_full :: "restore_cfg \<Rightarrow> optimal_cache \<Rightarrow> bool" where
  "cache_full cfg s = (if rs_sim cfg = SIMULATION_NO then lru_cache_is_full (oc_con s) else lru_cache_is_full (oc_meta s))"

definition optimal_cache_insert :: "restore_cfg \<Rightarrow> containerid \<Rightarrow> optimal_cache \<Rightarrow> optimal_cache res" where
  "optimal_cache_insert cfg i s =
     rbind (if cache_full cfg s then evict cfg s else Inr s) (\<lambda>s.
     let s = s\<lparr>oc_jcr := count_container (oc_jcr s)\<rparr> in
     rbind (if rs_sim cfg = SIMULATION_NO
            then rbind (read_container cfg i) (\<lambda>con. rbind (lru_cache_insert (oc_con s) con) (\<lambda>(_, l). Inr (s\<lparr>oc_con := l\<rparr>)))
            else rbind (read_meta cfg i) (\<lambda>cm. rbind (lru_cache_insert (oc_meta s) cm) (\<lambda>(_, l). Inr (s\<lparr>oc_meta := l\<rparr>)))) (\<lambda>s.
     case map_of (oc_table s) i of
       None \<Rightarrow> Inl AssertFailed
     | Some _ \<Rightarrow> Inr (s\<lparr>oc_sorted := rs_place cfg i (oc_sorted s)\<rparr>)))"

definition optimal_cache_lookup :: "restore_cfg \<Rightarrow> fingerprint \<Rightarrow> optimal_cache \<Rightarrow> (chunk \<times> optimal_cache) res" where
  "optimal_cache_lookup cfg fp s =
     rbind (c_assert (rs_sim cfg = SIMULATION_NO)) (\<lambda>_.
     case lru_cache_lookup (\<lambda>con. lookup_fingerprint_in_container con fp) (oc_con s) of
       (None, l) \<Rightarrow> Inl NullDeref
     | (Some con, l) \<Rightarrow> rbind (fetch_chunk cfg con fp) (\<lambda>c. Inr (c, s\<lparr>oc_con := l\<rparr>)))"

definition optimal_restore_chunk :: "restore_cfg \<Rightarrow> int \<Rightarrow> chunk \<Rightarrow> optimal_cache \<Rightarrow> (chunk list \<times> optimal_cache) res" where
  "optimal_restore_chunk cfg junk c s =
     (if CHECK_CHUNK c CHUNK_FILE_START \<or> CHECK_CHUNK c CHUNK_FILE_END then Inr ([c], s)
      else
        rbind (optimal_cache_hits cfg junk (ck_id c) s) (\<lambda>(hit, s).
        rbind (if \<not> hit then optimal_cache_insert cfg (ck_id c) s else Inr s) (\<lambda>s.
        rbind (if rs_sim cfg = SIMULATION_NO then rbind (optimal_cache_lookup cfg (ck_fp c) s) (\<lambda>(rc, s). Inr ([rc], s))
               else Inr ([], s)) (\<lambda>(out, s).
          Inr (out, s\<lparr>oc_jcr := count_chunk c (oc_jcr s)\<rparr>)))))"

definition optimal_restore_thread :: "restore_cfg \<Rightarrow> int \<Rightarrow> backupVersion \<Rightarrow> chunk list \<Rightarrow> (chunk list \<times> restore_jcr) res" where
  "optimal_restore_thread cfg junk bv cs =
     rbind (restore_loop (optimal_restore_chunk cfg junk) cs (init_optimal_cache cfg junk bv)) (\<lambda>(out, s). Inr (out, oc_jcr s))"

subsection \<open>Reading the recipe\<close>

definition start_message :: "fileRecipeMeta \<Rightarrow> chunk" where
  "start_message r = SET_CHUNK ((new_chunk (int (length (fr_filename r)) + 1))\<lparr>ck_data := fr_filename r @ [0]\<rparr>) CHUNK_FILE_START"

definition chunk_message :: "chunkPointer \<Rightarrow> chunk" where
  "chunk_message cp = (new_chunk 0)\<lparr>ck_fp := cp_fp cp, ck_size := cp_size cp, ck_id := cp_id cp\<rparr>"

definition end_message :: chunk where
  "end_message = SET_CHUNK (new_chunk 0) CHUNK_FILE_END"

text \<open>\<open>None\<close>: reading the pointers does not end; a \<open>NULL\<close> pointer list is dereferenced.\<close>

fun recipe_chunks :: "bool \<Rightarrow> chunkPointer \<Rightarrow> nat \<Rightarrow> backupVersion \<times> int \<Rightarrow> (chunk list \<times> backupVersion \<times> int) res option" where
  "recipe_chunks be junk 0 s = Some (Inr ([], s))"
| "recipe_chunks be junk (Suc n) (bv, k) =
     (case read_next_n_chunk_pointers be junk bv 1 k of
        None \<Rightarrow> None
      | Some (Some (cp # _), bv, k) \<Rightarrow> map_option (\<lambda>r. rbind r (\<lambda>(cs, s). Inr (chunk_message cp # cs, s))) (recipe_chunks be junk n (bv, k))
      | Some _ \<Rightarrow> Some (Inl NullDeref))"

fun recipe_file_msgs :: "bool \<Rightarrow> int \<Rightarrow> chunkPointer \<Rightarrow> nat \<Rightarrow> int \<Rightarrow> backupVersion \<times> int \<Rightarrow> chunk list res option" where
  "recipe_file_msgs be junk junkp 0 i s = Some (Inr [])"
| "recipe_file_msgs be junk junkp (Suc n) i (bv, k) =
     (case read_next_file_recipe_meta be junk i bv of
        Inl e \<Rightarrow> Some (Inl e)
      | Inr (r, bv, i) \<Rightarrow>
          (case recipe_chunks be junkp (nat (fr_chunknum r)) (bv, k) of
             None \<Rightarrow> None
           | Some (Inl e) \<Rightarrow> Some (Inl e)
           | Some (Inr (cs, s)) \<Rightarrow>
               map_option (\<lambda>r'. rbind r' (\<lambda>ms. Inr (start_message r # cs @ end_message # ms)))
                 (recipe_file_msgs be junk junkp n i s)))"

definition read_recipe_thread :: "bool \<Rightarrow> int \<Rightarrow> chunkPointer \<Rightarrow> backupVersion \<Rightarrow> chunk list res option" where
  "read_recipe_thread be junk junkp bv = recipe_file_msgs be junk junkp (nat (bv_number_of_files bv)) 0 (bv, 0)"

end
