(* ===== verification/Restore_Laws.thy ===== *)
theory Restore_Laws
  imports Restore Filter_Segment
begin

text \<open>
  The restore caches deliver the data of the recipe. \<open>D\<close> is the data of each fingerprint; \<open>readable\<close> says
  that the container a message names can be read, holds the fingerprint and is genuine for \<open>D\<close>, which
  \<open>Backup_Restore\<close> derives for the pool a backup leaves.
\<close>

definition genuine :: "restore_cfg \<Rightarrow> (fingerprint \<Rightarrow> byte list) \<Rightarrow> container \<Rightarrow> bool" where
  "genuine cfg D con \<longleftrightarrow> (\<forall>fp. lookup_fingerprint_in_container con fp \<longrightarrow>
     (\<exists>ck. fetch_chunk cfg con fp = Inr ck \<and> ck_data ck = D fp \<and> ck_size ck = int (length (D fp)) \<and> \<not> is_file_mark ck))"

definition readable :: "restore_cfg \<Rightarrow> (fingerprint \<Rightarrow> byte list) \<Rightarrow> chunk \<Rightarrow> bool" where
  "readable cfg D c \<longleftrightarrow> is_file_mark c \<or>
     (\<exists>con. read_container cfg (ck_id c) = Inr con \<and> idof con = ck_id c \<and> lookup_fingerprint_in_container con (ck_fp c) \<and> genuine cfg D con)"

definition restores :: "(fingerprint \<Rightarrow> byte list) \<Rightarrow> chunk \<Rightarrow> chunk \<Rightarrow> bool" where
  "restores D c rc \<longleftrightarrow> is_file_mark rc = is_file_mark c \<and>
     (if is_file_mark c then rc = c else ck_data rc = D (ck_fp c) \<and> ck_size rc = int (length (D (ck_fp c))))"

definition counted :: "chunk list \<Rightarrow> restore_jcr \<Rightarrow> bool" where
  "counted cs j \<longleftrightarrow> rj_data_size j = sum_list (map ck_size (data_chunks cs)) \<and> rj_chunk_num j = int (length (data_chunks cs))"

lemma counted_simps [simp]:
  "counted [] start_jcr"
  "counted cs (count_container j) = counted cs j"
  "is_file_mark c \<Longrightarrow> counted (cs @ [c]) j = counted cs j"
  "\<not> is_file_mark c \<Longrightarrow> counted cs j \<Longrightarrow> counted (cs @ [c]) (count_chunk c j)"
  by (simp_all add: counted_def start_jcr_def count_container_def count_chunk_def data_chunks_def)

lemma mark_check: "(CHECK_CHUNK c CHUNK_FILE_START \<or> CHECK_CHUNK c CHUNK_FILE_END) = is_file_mark c"
  by (simp add: is_file_mark_def)

lemma restore_loop_total:
  assumes "\<And>c inp out s. c \<in> set cs \<Longrightarrow> I inp out s \<Longrightarrow> \<exists>ys s'. f c s = Inr (ys, s') \<and> I (inp @ [c]) (out @ ys) s'"
    and "I inp out s"
  shows "\<exists>ys s'. restore_loop f cs s = Inr (ys, s') \<and> I (inp @ cs) (out @ ys) s'"
  using assms
proof (induction cs arbitrary: inp out s)
  case (Cons c cs)
  from Cons.prems(1) [OF _ Cons.prems(2), of c] obtain ys s' where f: "f c s = Inr (ys, s')" "I (inp @ [c]) (out @ ys) s'" by auto
  have step: "\<exists>ys s'. f c s = Inr (ys, s') \<and> I (inp @ [c]) (out @ ys) s'" if "c \<in> set cs" "I inp out s" for c inp out s
    using Cons.prems(1) [OF _ that(2), of c] that(1) by simp
  from Cons.IH [OF step f(2)] f(1) show ?case by auto
qed simp

subsection \<open>The LRU cache\<close>

definition lru_genuine :: "restore_cfg \<Rightarrow> (fingerprint \<Rightarrow> byte list) \<Rightarrow> container lruCache \<Rightarrow> bool" where
  "lru_genuine cfg D l \<longleftrightarrow> lru_inv l \<and> (\<forall>con\<in>set (elem_queue l). genuine cfg D con)"

lemma lru_genuine_steps:
  assumes "lru_genuine cfg D l"
  shows "lru_cache_lookup hit l = (e, l') \<Longrightarrow> lru_genuine cfg D l' \<and> (\<forall>con. e = Some con \<longrightarrow> hit con \<and> genuine cfg D con)"
    and "genuine cfg D con \<Longrightarrow> \<exists>v l'. lru_cache_insert l con = Inr (v, l') \<and> lru_genuine cfg D l'"
proof -
  show "lru_genuine cfg D l' \<and> (\<forall>con. e = Some con \<longrightarrow> hit con \<and> genuine cfg D con)" if l: "lru_cache_lookup hit l = (e, l')"
    using assms lru_inv_lookup [of l hit] lru_lookup_set [of hit l] l unlink_first_sat [of hit "elem_queue l"]
    by (auto simp: lru_genuine_def lru_cache_lookup_def split: option.splits)
  show "\<exists>v l'. lru_cache_insert l con = Inr (v, l') \<and> lru_genuine cfg D l'" if g: "genuine cfg D con"
  proof -
    from assms have i: "lru_inv l" by (simp add: lru_genuine_def)
    from lru_insert_shape [OF i, of con] obtain v l' where l: "lru_cache_insert l con = Inr (v, l')" "lru_inv l'"
      "elem_queue l' = (if max_size l > 0 then take (nat (max_size l)) (con # elem_queue l) else con # elem_queue l)" by blast
    then have "set (elem_queue l') \<subseteq> insert con (set (elem_queue l))" by (auto dest: in_set_takeD split: if_splits)
    with l(1,2) g assms show ?thesis by (auto simp: lru_genuine_def)
  qed
qed

lemma restores_fetched:
  "\<not> is_file_mark c \<Longrightarrow> ck_data ck = D (ck_fp c) \<Longrightarrow> ck_size ck = int (length (D (ck_fp c))) \<Longrightarrow> \<not> is_file_mark ck \<Longrightarrow> restores D c ck"
  by (simp add: restores_def)

lemma lru_chunk_ok:
  assumes s: "lru_genuine cfg D (lr_con s)" and r: "readable cfg D c" and sim: "rs_sim cfg < SIMULATION_RESTORE"
  shows "\<exists>rc s'. lru_restore_chunk cfg c s = Inr ([rc], s') \<and> restores D c rc \<and> lru_genuine cfg D (lr_con s') \<and>
     (\<forall>cs. counted cs (lr_jcr s) \<longrightarrow> counted (cs @ [c]) (lr_jcr s'))"
proof (cases "is_file_mark c")
  case True
  with s show ?thesis by (simp add: lru_restore_chunk_def mark_check restores_def)
next
  case False
  obtain e l where l: "lru_cache_lookup (\<lambda>con. lookup_fingerprint_in_container con (ck_fp c)) (lr_con s) = (e, l)" by fastforce
  note ok = lru_genuine_steps(1) [OF s l]
  from r False obtain con where con: "read_container cfg (ck_id c) = Inr con" "lookup_fingerprint_in_container con (ck_fp c)"
    "genuine cfg D con" by (auto simp: readable_def)
  show ?thesis
  proof (cases e)
    case None
    from lru_genuine_steps(2) [OF conjunct1 [OF ok] con(3)] obtain v l' where l': "lru_cache_insert l con = Inr (v, l')" "lru_genuine cfg D l'" by blast
    from con(2,3) obtain ck where ck: "fetch_chunk cfg con (ck_fp c) = Inr ck" "ck_data ck = D (ck_fp c)" "ck_size ck = int (length (D (ck_fp c)))"
      "\<not> is_file_mark ck" unfolding genuine_def by blast
    with False sim l None l' con(1) restores_fetched [of c ck D, OF False ck(2-4)] show ?thesis
      by (simp add: lru_restore_chunk_def lru_restore_data_def mark_check)
  next
    case (Some con')
    with ok have "lookup_fingerprint_in_container con' (ck_fp c)" "genuine cfg D con'" by simp_all
    then obtain ck where ck: "fetch_chunk cfg con' (ck_fp c) = Inr ck" "ck_data ck = D (ck_fp c)" "ck_size ck = int (length (D (ck_fp c)))"
      "\<not> is_file_mark ck" unfolding genuine_def by blast
    with False sim l Some ok restores_fetched [of c ck D, OF False ck(2-4)] show ?thesis
      by (simp add: lru_restore_chunk_def lru_restore_data_def mark_check)
  qed
qed

lemma lru_thread_ok:
  assumes r: "\<forall>c\<in>set cs. readable cfg D c" and sim: "rs_sim cfg < SIMULATION_RESTORE"
  shows "\<exists>out j. lru_restore_thread cfg cs = Inr (out, j) \<and> list_all2 (restores D) cs out \<and> counted cs j"
proof -
  let ?I = "\<lambda>inp out s. lru_genuine cfg D (lr_con s) \<and> list_all2 (restores D) inp out \<and> counted inp (lr_jcr s)"
  let ?s = "\<lparr>lr_con = new_lru_cache (rs_cache_size cfg), lr_meta = new_lru_cache (rs_cache_size cfg), lr_jcr = start_jcr\<rparr>"
  have "\<exists>ys s'. lru_restore_chunk cfg c s = Inr (ys, s') \<and> ?I (inp @ [c]) (out @ ys) s'"
    if c: "c \<in> set cs" and I: "?I inp out s" for c inp out s
  proof -
    from I have g: "lru_genuine cfg D (lr_con s)" by simp
    from r c have "readable cfg D c" by blast
    from lru_chunk_ok [OF g this sim] obtain rc s' where "lru_restore_chunk cfg c s = Inr ([rc], s')" "restores D c rc"
      "lru_genuine cfg D (lr_con s')" "\<forall>cs. counted cs (lr_jcr s) \<longrightarrow> counted (cs @ [c]) (lr_jcr s')" by blast
    with I show ?thesis by (simp add: list_all2_appendI)
  qed
  note step = this
  have "?I [] [] ?s" by (simp add: lru_genuine_def lru_inv_new) (simp add: new_lru_cache_def)
  from restore_loop_total [where I = ?I and f = "lru_restore_chunk cfg" and cs = cs, OF step this] show ?thesis
    by (auto simp: lru_restore_thread_def)
qed

subsection \<open>The forward assembly area\<close>

text \<open>What may stand in the area for the message \<open>c\<close>: the message itself, or its filled copy.\<close>

definition placed_as :: "(fingerprint \<Rightarrow> byte list) \<Rightarrow> chunk \<Rightarrow> chunk \<Rightarrow> bool" where
  "placed_as D c a \<longleftrightarrow> a = c \<or> \<not> is_file_mark c \<and> a = SET_CHUNK (c\<lparr>ck_data := D (ck_fp c)\<rparr>) CHUNK_READY"

definition expected :: "restore_cfg \<Rightarrow> (fingerprint \<Rightarrow> byte list) \<Rightarrow> chunk \<Rightarrow> bool" where
  "expected cfg D c \<longleftrightarrow> readable cfg D c \<and> (\<not> is_file_mark c \<longrightarrow> ck_size c = int (length (D (ck_fp c))) \<and> \<not> CHECK_CHUNK c CHUNK_READY)"

lemma placed_same:
  assumes "placed_as D c a"
  shows "is_file_mark a = is_file_mark c" "ck_id a = ck_id c" "ck_fp a = ck_fp c" "ck_size a = ck_size c"
  using assms by (auto simp: placed_as_def)

lemma placed_issued:
  assumes "placed_as D c a" "expected cfg D c" "issued a"
  shows "restores D c a"
proof (cases "is_file_mark c")
  case True
  with assms(1) show ?thesis by (simp add: placed_as_def restores_def)
next
  case False
  with assms have "a \<noteq> c" by (auto simp: issued_def expected_def is_file_mark_def)
  with assms(1,2) False show ?thesis by (simp add: placed_as_def restores_def expected_def)
qed

lemma fill_placed:
  assumes p: "placed_as D c a" and e: "expected cfg D c" and con: "read_container cfg i = Inr con"
    and sim: "rs_sim cfg = SIMULATION_NO"
  shows "\<exists>b. fill_chunk cfg (Some con) i a = Inr b \<and> placed_as D c b \<and> (\<not> is_file_mark c \<and> ck_id c = i \<longrightarrow> issued b)"
proof (cases "\<not> is_file_mark c \<and> ck_id c = i")
  case True
  with e con have "lookup_fingerprint_in_container con (ck_fp c)" "genuine cfg D con" by (auto simp: expected_def readable_def)
  then obtain ck where ck: "fetch_chunk cfg con (ck_fp c) = Inr ck" "ck_data ck = D (ck_fp c)" "ck_size ck = int (length (D (ck_fp c)))"
    unfolding genuine_def by blast
  let ?b = "SET_CHUNK (a\<lparr>ck_data := D (ck_fp c)\<rparr>) CHUNK_READY"
  note s = placed_same [OF p]
  have "fill_chunk cfg (Some con) i a = Inr ?b"
    using True s ck e by (simp add: fill_chunk_def mark_check peek_def expected_def flip: de_Morgan_disj)
  moreover have "?b = SET_CHUNK (c\<lparr>ck_data := D (ck_fp c)\<rparr>) CHUNK_READY"
    using p by (auto simp: placed_as_def SET_CHUNK_def)
  moreover have "issued ?b" by (simp add: issued_def)
  ultimately show ?thesis using True by (auto simp: placed_as_def)
next
  case False
  then have "\<not> (\<not> CHECK_CHUNK a CHUNK_FILE_START \<and> \<not> CHECK_CHUNK a CHUNK_FILE_END \<and> i = ck_id a)"
    using placed_same [OF p] by (auto simp: is_file_mark_def)
  then have "fill_chunk cfg (Some con) i a = Inr a" unfolding fill_chunk_def by (rule if_not_P)
  with p False show ?thesis by auto
qed

lemma rmap_fill:
  assumes "list_all2 (placed_as D) cs as" "\<forall>c\<in>set cs. expected cfg D c" "read_container cfg i = Inr con" "rs_sim cfg = SIMULATION_NO"
  shows "\<exists>bs. rmap (fill_chunk cfg (Some con) i) as = Inr bs \<and> list_all2 (placed_as D) cs bs \<and>
     list_all2 (\<lambda>c b. \<not> is_file_mark c \<and> ck_id c = i \<longrightarrow> issued b) cs bs"
  using assms(1,2)
proof (induction rule: list_all2_induct)
  case (Cons c cs a as)
  then obtain bs where "rmap (fill_chunk cfg (Some con) i) as = Inr bs \<and> list_all2 (placed_as D) cs bs \<and>
     list_all2 (\<lambda>c b. \<not> is_file_mark c \<and> ck_id c = i \<longrightarrow> issued b) cs bs" by auto
  moreover have "expected cfg D c" using Cons.prems by simp
  from fill_placed [OF Cons.hyps(1) this assms(3,4)] obtain b where
    "fill_chunk cfg (Some con) i a = Inr b" "placed_as D c b" "\<not> is_file_mark c \<and> ck_id c = i \<longrightarrow> issued b" by blast
  ultimately show ?case by simp
qed simp

text \<open>\<open>asm_inv\<close>: of the messages \<open>cs\<close> taken in, those in \<open>done\<close> have been issued as \<open>out\<close>, the others
  stand in the area.\<close>

definition asm_inv :: "restore_cfg \<Rightarrow> (fingerprint \<Rightarrow> byte list) \<Rightarrow> chunk list \<Rightarrow> chunk list \<Rightarrow> assembly \<Rightarrow> bool" where
  "asm_inv cfg D cs out s \<longleftrightarrow> (\<exists>done rest. cs = done @ rest \<and> list_all2 (restores D) done out \<and>
     list_all2 (placed_as D) rest (as_area s) \<and> counted done (as_jcr s) \<and>
     as_size s = sum_list (map ck_size (data_chunks rest)))"

lemma issue_all:
  assumes "rs_sim cfg = SIMULATION_NO"
  shows "fst (issue_queue cfg q s) = q" "as_area (snd (issue_queue cfg q s)) = as_area s" "as_size (snd (issue_queue cfg q s)) = as_size s"
    "counted cs (as_jcr s) \<Longrightarrow> list_all2 (\<lambda>c a. is_file_mark a = is_file_mark c \<and> ck_size a = ck_size c) ds q \<Longrightarrow>
     counted (cs @ ds) (as_jcr (snd (issue_queue cfg q s)))"
proof (induction q arbitrary: s cs ds)
  case (Cons a q)
  { case 1 show ?case using Cons.IH(1) assms by (simp add: case_prod_unfold cfg_simps Let_def) }
  { case 2 show ?case using Cons.IH(2) assms by (simp add: case_prod_unfold cfg_simps Let_def) }
  { case 3 show ?case using Cons.IH(3) assms by (simp add: case_prod_unfold cfg_simps Let_def) }
  case 4
  then obtain d ds' where ds: "ds = d # ds'" "is_file_mark a = is_file_mark d" "ck_size a = ck_size d"
    "list_all2 (\<lambda>c a. is_file_mark a = is_file_mark c \<and> ck_size a = ck_size c) ds' q" by (auto simp: list_all2_Cons2)
  show ?case
  proof (cases "is_file_mark a")
    case True
    with 4 ds have "counted (cs @ [d]) (as_jcr s)" by simp
    from Cons.IH(4) [OF this ds(4)] True show ?thesis by (simp add: case_prod_unfold mark_check ds(1) Let_def)
  next
    case False
    have "counted (cs @ [d]) (as_jcr (s\<lparr>as_jcr := count_chunk a (as_jcr s)\<rparr>))"
      using 4(1) False ds(2,3) by (simp add: counted_def count_chunk_def data_chunks_def)
    from Cons.IH(4) [OF this ds(4)] False show ?thesis by (simp add: case_prod_unfold mark_check ds(1) Let_def)
  qed
qed simp_all

lemma list_all2_split:
  assumes "list_all2 R xs ys"
  obtains us vs where "xs = us @ vs" "list_all2 R us (takeWhile P ys)" "list_all2 R vs (dropWhile P ys)"
proof -
  have "list_all2 R xs (takeWhile P ys @ dropWhile P ys)" using assms by simp
  then obtain us vs where "xs = us @ vs" "list_all2 R us (takeWhile P ys)" "list_all2 R vs (dropWhile P ys)"
    unfolding list_all2_append2 by blast
  then show thesis by (rule that)
qed

lemma placed_marks: "list_all2 (placed_as D) cs as \<Longrightarrow> \<forall>a\<in>set as. is_file_mark a \<Longrightarrow> data_chunks cs = []"
  by (induction rule: list_all2_induct) (auto simp: data_chunks_def dest: placed_same(1))

lemma placed_sizes:
  assumes "list_all2 (placed_as D) cs as"
  shows "list_all2 (\<lambda>c a. is_file_mark a = is_file_mark c \<and> ck_size a = ck_size c) cs as"
    "sum_list (map ck_size (filter (\<lambda>c. \<not> is_file_mark c) as)) = sum_list (map ck_size (data_chunks cs))"
proof -
  show "list_all2 (\<lambda>c a. is_file_mark a = is_file_mark c \<and> ck_size a = ck_size c) cs as"
    using assms by (rule list_all2_mono) (simp add: placed_same)
  show "sum_list (map ck_size (filter (\<lambda>c. \<not> is_file_mark c) as)) = sum_list (map ck_size (data_chunks cs))"
    using assms by (induction rule: list_all2_induct) (simp_all add: data_chunks_def placed_same)
qed

lemma placed_restores:
  assumes "list_all2 (placed_as D) cs as" "\<forall>c\<in>set cs. expected cfg D c" "\<forall>a\<in>set as. issued a"
  shows "list_all2 (restores D) cs as"
  using assms by (induction rule: list_all2_induct) (auto intro: placed_issued)

lemma issued_inv:
  assumes "rs_sim cfg = SIMULATION_NO" and "list_all2 (restores D) ds out" "counted ds (as_jcr s)"
    and "list_all2 (placed_as D) new q" "\<forall>c\<in>set new. expected cfg D c" "\<forall>a\<in>set q. issued a"
    and "list_all2 (placed_as D) rest (as_area s)" "as_size s = sum_list (map ck_size (data_chunks rest))"
  shows "asm_inv cfg D (ds @ new @ rest) (out @ q) (snd (issue_queue cfg q s))"
proof -
  note i = issue_all [OF assms(1)]
  have "counted (ds @ new) (as_jcr (snd (issue_queue cfg q s)))" by (rule i(4) [OF assms(3) placed_sizes(1) [OF assms(4)]])
  moreover have "list_all2 (restores D) (ds @ new) (out @ q)"
    by (rule list_all2_appendI [OF assms(2) placed_restores [OF assms(4-6)]])
  ultimately show ?thesis unfolding asm_inv_def using assms(7,8) i(2,3) by (intro exI [of _ "ds @ new"] exI [of _ rest]) simp
qed

lemma assemble_ok:
  assumes I: "asm_inv cfg D cs out s" and e: "\<forall>c\<in>set cs. expected cfg D c" and ne: "as_area s \<noteq> []"
    and sim: "rs_sim cfg = SIMULATION_NO"
  shows "\<exists>q s'. assemble_area cfg s = Inr (Some q, s') \<and> length (as_area s') < length (as_area s) \<and>
     asm_inv cfg D cs (out @ q) (snd (issue_queue cfg q s'))"
proof -
  let ?q = "takeWhile is_file_mark (as_area s)" and ?area = "dropWhile is_file_mark (as_area s)"
  from I obtain ds rest where d: "cs = ds @ rest" "list_all2 (restores D) ds out" "list_all2 (placed_as D) rest (as_area s)"
    "counted ds (as_jcr s)" "as_size s = sum_list (map ck_size (data_chunks rest))" unfolding asm_inv_def by blast
  from list_all2_split [OF d(3), of is_file_mark] obtain ms rs where r: "rest = ms @ rs" "list_all2 (placed_as D) ms ?q"
    "list_all2 (placed_as D) rs ?area" by blast
  have q: "\<forall>a\<in>set ?q. issued a" by (auto dest: set_takeWhileD simp: issued_def is_file_mark_def)
  have "data_chunks ms = []"
    by (rule placed_marks [OF r(2)]) (auto dest: set_takeWhileD)
  then have sz: "as_size s = sum_list (map ck_size (data_chunks rs))" using d(5) r(1) by (simp add: data_chunks_def)
  show ?thesis
  proof (cases ?area)
    case Nil
    with r(3) have rs: "rs = []" by simp
    have "asm_inv cfg D (ds @ ms @ []) (out @ ?q) (snd (issue_queue cfg ?q (s\<lparr>as_area := []\<rparr>)))"
      by (rule issued_inv [OF sim d(2) _ r(2) _ q]) (use d r e rs sz in \<open>simp_all add: data_chunks_def\<close>)
    moreover have "assemble_area cfg s = Inr (Some ?q, s\<lparr>as_area := []\<rparr>)"
      using ne by (simp add: assemble_area_def Let_def Nil del: dropWhile_eq_Nil_conv)
    ultimately show ?thesis using ne rs d(1) r(1) by simp
  next
    case (Cons a as)
    then have nm: "\<not> is_file_mark a" by (metis hd_dropWhile list.discI list.sel(1))
    from r(3) Cons obtain c cs' where c: "rs = c # cs'" "placed_as D c a" by (auto simp: list_all2_Cons2)
    then have "expected cfg D c" using e d(1) r(1) by simp
    then obtain con where con: "read_container cfg (ck_id a) = Inr con"
      using nm placed_same [OF c(2)] by (auto simp: expected_def readable_def)
    have er: "\<forall>c\<in>set rs. expected cfg D c" using e d(1) r(1) by simp
    from rmap_fill [OF r(3) er con sim] obtain bs where bs: "rmap (fill_chunk cfg (Some con) (ck_id a)) ?area = Inr bs"
      "list_all2 (placed_as D) rs bs" "list_all2 (\<lambda>c b. \<not> is_file_mark c \<and> ck_id c = ck_id a \<longrightarrow> issued b) rs bs" by blast
    from list_all2_split [OF bs(2), of issued] obtain us vs where u: "rs = us @ vs" "list_all2 (placed_as D) us (takeWhile issued bs)"
      "list_all2 (placed_as D) vs (dropWhile issued bs)" by blast
    let ?s = "s\<lparr>as_jcr := count_container (as_jcr s), as_area := dropWhile issued bs,
      as_size := as_size s - sum_list (map ck_size (filter (\<lambda>c. \<not> is_file_mark c) (takeWhile issued bs)))\<rparr>"
    have "assemble_area cfg s = Inr (Some (?q @ takeWhile issued bs), ?s)"
      using ne Cons con bs(1) sim by (simp add: assemble_area_def Let_def)
    moreover have "length (dropWhile issued bs) < length (as_area s)"
    proof -
      from bs(3) c nm placed_same [OF c(2)] obtain b bs' where b: "bs = b # bs'" "issued b" by (auto simp: list_all2_Cons1)
      have "length (dropWhile issued bs) \<le> length bs'" using b length_dropWhile_le [of issued bs'] by simp
      also have "length bs' < length ?area" using b list_all2_lengthD [OF bs(2)] list_all2_lengthD [OF r(3)] by simp
      also have "length ?area \<le> length (as_area s)" by (rule length_dropWhile_le)
      finally show ?thesis .
    qed
    moreover have "asm_inv cfg D (ds @ (ms @ us) @ vs) (out @ ?q @ takeWhile issued bs) (snd (issue_queue cfg (?q @ takeWhile issued bs) ?s))"
    proof (rule issued_inv [OF sim d(2)])
      show "list_all2 (placed_as D) (ms @ us) (?q @ takeWhile issued bs)" by (rule list_all2_appendI [OF r(2) u(2)])
      show "\<forall>a\<in>set (?q @ takeWhile issued bs). issued a" using q by (auto dest: set_takeWhileD)
      show "as_size ?s = sum_list (map ck_size (data_chunks vs))"
        using sz u(1) placed_sizes(2) [OF u(2)] by (simp add: data_chunks_def)
      show "\<forall>c\<in>set (ms @ us). expected cfg D c" using e d(1) r(1) u(1) by auto
    qed (use d r u in simp_all)
    ultimately show ?thesis using d(1) r(1) u(1) by simp
  qed
qed

lemma asm_push:
  assumes I: "asm_inv cfg D cs out s" and e: "\<forall>c\<in>set cs. expected cfg D c" "expected cfg D c" and sim: "rs_sim cfg = SIMULATION_NO"
  shows "\<exists>ys s'. assembly_restore_chunk cfg c s = Inr (ys, s') \<and> asm_inv cfg D (cs @ [c]) (out @ ys) s'"
proof -
  obtain full s1 where p: "assembly_area_push (Some c) s = (full, s1)" by fastforce
  from I obtain ds rest where d: "cs = ds @ rest" "list_all2 (restores D) ds out" "list_all2 (placed_as D) rest (as_area s)"
    "counted ds (as_jcr s)" "as_size s = sum_list (map ck_size (data_chunks rest))" unfolding asm_inv_def by blast
  have s1: "as_area s1 = as_area s @ [c]" "as_jcr s1 = as_jcr s"
    "as_size s1 = sum_list (map ck_size (data_chunks (rest @ [c])))" "is_file_mark c \<Longrightarrow> \<not> full"
    using p d(5) by (auto simp: assembly_area_push_def Let_def data_chunks_def mark_check split: if_splits)
  have "list_all2 (placed_as D) (rest @ [c]) (as_area s1)"
    unfolding s1(1) by (rule list_all2_appendI [OF d(3)]) (simp add: placed_as_def)
  with d s1 have I1: "asm_inv cfg D (cs @ [c]) out s1"
    unfolding asm_inv_def by (intro exI [of _ ds] exI [of _ "rest @ [c]"]) simp
  show ?thesis
  proof (cases full)
    case True
    from assemble_ok [OF I1 _ _ sim] e s1(1) obtain q s2 where "assemble_area cfg s1 = Inr (Some q, s2)"
      "asm_inv cfg D (cs @ [c]) (out @ q) (snd (issue_queue cfg q s2))" by auto
    with p True issue_all(1) [OF sim, of q s2] show ?thesis
      by (cases "issue_queue cfg q s2") (simp add: assembly_restore_chunk_def)
  next
    case False
    with p I1 show ?thesis by (simp add: assembly_restore_chunk_def)
  qed
qed

lemma drain_area_ok:
  assumes "asm_inv cfg D cs out s" and "\<forall>c\<in>set cs. expected cfg D c" and sim: "rs_sim cfg = SIMULATION_NO" and "length (as_area s) < n"
  shows "\<exists>ys s'. drain_area cfg n s = Some (Inr (ys, s')) \<and> list_all2 (restores D) cs (out @ ys) \<and> counted cs (as_jcr s')"
  using assms
proof (induction n arbitrary: out s)
  case (Suc n)
  show ?case
  proof (cases "as_area s = []")
    case True
    with Suc.prems(1) have "list_all2 (restores D) cs out" "counted cs (as_jcr s)" by (auto simp: asm_inv_def)
    with True show ?thesis by (simp add: assemble_area_def)
  next
    case False
    from assemble_ok [OF Suc.prems(1,2) False sim] obtain q s1 where q: "assemble_area cfg s = Inr (Some q, s1)"
      "length (as_area s1) < length (as_area s)" "asm_inv cfg D cs (out @ q) (snd (issue_queue cfg q s1))" by blast
    obtain s2 where s2: "issue_queue cfg q s1 = (q, s2)" using issue_all(1) [OF sim, of q s1] by (metis prod.collapse)
    have "length (as_area s2) < n" using q(2) Suc.prems(4) issue_all(2) [OF sim, of q s1] s2 by simp
    from Suc.IH [OF _ Suc.prems(2) sim this, of "out @ q"] q(3) s2 obtain ys s' where
      "drain_area cfg n s2 = Some (Inr (ys, s'))" "list_all2 (restores D) cs (out @ q @ ys)" "counted cs (as_jcr s')" by auto
    with q(1) s2 show ?thesis by simp
  qed
qed simp

lemma assembly_thread_ok:
  assumes e: "\<forall>c\<in>set cs. expected cfg D c" and sim: "rs_sim cfg = SIMULATION_NO" and fuel: "length cs < fuel"
  shows "\<exists>out j. assembly_restore_thread cfg fuel cs = Some (Inr (out, j)) \<and> list_all2 (restores D) cs out \<and> counted cs j"
proof -
  let ?I = "\<lambda>inp out s. asm_inv cfg D inp out s \<and> (\<forall>c\<in>set inp. expected cfg D c)"
  have "\<exists>ys s'. assembly_restore_chunk cfg c s = Inr (ys, s') \<and> ?I (inp @ [c]) (out @ ys) s'"
    if "c \<in> set cs" "?I inp out s" for c inp out s
    using asm_push [of cfg D inp out s c] that e sim by auto
  note step = this
  have "?I [] [] (init_assembly_area cfg)" by (simp add: asm_inv_def init_assembly_area_def data_chunks_def)
  from restore_loop_total [where I = ?I and f = "assembly_restore_chunk cfg" and cs = cs, OF step this] obtain out s where
    s: "restore_loop (assembly_restore_chunk cfg) cs (init_assembly_area cfg) = Inr (out, s)" "asm_inv cfg D cs out s" by auto
  have "length (as_area s) \<le> length cs" using s(2) by (auto simp: asm_inv_def dest: list_all2_lengthD)
  then have f: "length (as_area s) < fuel" using fuel by simp
  from drain_area_ok [OF s(2) e sim f] s(1) show ?thesis
    by (auto simp: assembly_restore_thread_def assembly_area_push_def)
qed

end
