(* ===== verification/Optimal_Laws.thy ===== *)
theory Optimal_Laws
  imports Restore_Laws
begin

text \<open>
  The optimal cache of \<open>optimal_restore.c\<close>: it evicts by the future accesses it reads ahead from the record file.
  The invariant says what the window holds of the access records, so that none of the assertions on it can fail.
\<close>

subsection \<open>The window of access records\<close>

text \<open>Of the records \<open>R\<close> those from \<open>k\<close> to \<open>m\<close> are in the window.\<close>

definition window_rep :: "containerid list \<Rightarrow> nat \<Rightarrow> nat \<Rightarrow> (containerid, int list) htable \<Rightarrow> bool" where
  "window_rep R k m t \<longleftrightarrow> (\<forall>i. seqnos t i = map int (filter (\<lambda>p. R ! p = i) [k..<m]))"

lemma seqnos_update [simp]: "seqnos (AList.update i q t) j = (if j = i then q else seqnos t j)"
  by (simp add: seqnos_def update_conv')

lemma window_add: "k \<le> m \<Longrightarrow> window_rep R k m t \<Longrightarrow> window_rep R k (Suc m) (AList.update (R ! m) (seqnos t (R ! m) @ [int m]) t)"
  by (auto simp: window_rep_def)

lemma window_slide:
  assumes "k < m" "window_rep R k m t"
  shows "\<exists>q. map_of t (R ! k) = Some q \<and> window_rep R (Suc k) m (AList.update (R ! k) (tl q) t)"
proof -
  have u: "[k..<m] = k # [Suc k..<m]" using assms(1) by (simp add: upt_conv_Cons)
  have s: "seqnos t (R ! k) = int k # map int (filter (\<lambda>p. R ! p = R ! k) [Suc k..<m])"
    using assms(2) u by (simp add: window_rep_def)
  then obtain q where q: "map_of t (R ! k) = Some q" by (auto simp: seqnos_def split: option.splits)
  with s have "tl q = map int (filter (\<lambda>p. R ! p = R ! k) [Suc k..<m])" by (simp add: seqnos_def)
  with assms(2) u have "window_rep R (Suc k) m (AList.update (R ! k) (tl q) t)" by (simp add: window_rep_def)
  with q show ?thesis by blast
qed

lemma window_delete: "seqnos t v = [] \<Longrightarrow> window_rep R k m t \<Longrightarrow> window_rep R k m (AList.delete v t)"
  by (auto simp: window_rep_def seqnos_def delete_conv')

lemma fread_ids_rest:
  assumes "srest s = concat (map (enc_id be) ids)" "swf s" "list_all in64 ids"
  shows "\<exists>s'. fread_ids be n s = (take n ids, s') \<and> srest s' = concat (map (enc_id be) (drop n ids)) \<and> swf s'"
  using assms
proof (induction n arbitrary: ids s)
  case (Suc n)
  show ?case
  proof (cases ids)
    case Nil
    with Suc.prems have "fread 8 s = (None, s\<lparr>st_pos := max (st_pos s) (length (st_file s))\<rparr>)"
      by (auto simp: fread_def srest_def swf_def)
    with Nil Suc.prems(1,2) show ?thesis by (simp add: srest_def swf_def)
  next
    case (Cons i js)
    with Suc.prems(1) have "srest s = enc_id be i @ concat (map (enc_id be) js)" by simp
    from fread_rest [OF this Suc.prems(2), of 8] obtain s1 where s1: "fread 8 s = (Some (enc_id be i), s1)"
      "srest s1 = concat (map (enc_id be) js)" "swf s1" by (auto simp: enc_id_def)
    have i: "sint (host_word be (enc_id be i) :: 64 word) = i" using Suc.prems(3) Cons by (simp add: enc_id_def sint_i64 host_word_bytes)
    from Suc.IH [OF s1(2,3)] Suc.prems(3) Cons obtain s' where
      "fread_ids be n s1 = (take n js, s')" "srest s' = concat (map (enc_id be) (drop n js))" "swf s'" by auto
    with s1(1) i Cons show ?thesis by simp
  qed
qed simp

subsection \<open>The invariant\<close>

text \<open>Before the chunk of record \<open>k\<close>: \<open>m\<close> records have been read from the file.\<close>

definition filled :: "bool \<Rightarrow> containerid list \<Rightarrow> nat \<Rightarrow> nat \<Rightarrow> optimal_cache \<Rightarrow> bool" where
  "filled be R k m s \<longleftrightarrow> k \<le> m \<and> m \<le> length R \<and> oc_buffered s = int (m - k) \<and> oc_seqno s = int m \<and>
     window_rep R k m (oc_table s) \<and> (oc_fin s \<longleftrightarrow> m = length R) \<and>
     srest (record_fp (oc_bv s)) = concat (map (enc_id be) (drop m R)) \<and> swf (record_fp (oc_bv s))"

definition records_ok :: "containerid list \<Rightarrow> bool" where
  "records_ok R \<longleftrightarrow> list_all in64 R \<and> R \<noteq> [] \<and> (\<forall>p<length R. R ! p = TEMPORARY_ID \<longleftrightarrow> p = length R - 1)"

definition oc_frame :: "optimal_cache \<Rightarrow> optimal_cache \<Rightarrow> bool" where
  "oc_frame s s' \<longleftrightarrow> oc_con s' = oc_con s \<and> oc_sorted s' = oc_sorted s \<and> oc_last s' = oc_last s \<and> oc_jcr s' = oc_jcr s \<and>
     fst ` set (oc_table s) \<subseteq> fst ` set (oc_table s')"

lemma adds_filled:
  assumes "k \<le> m" "m + length ids \<le> length R" "ids = take (length ids) (drop m R)" "window_rep R k m (oc_table s)" "oc_seqno s = int m"
  shows "window_rep R k (m + length ids) (oc_table (fold add_access ids s)) \<and> oc_seqno (fold add_access ids s) = int (m + length ids) \<and>
     oc_buffered (fold add_access ids s) = oc_buffered s \<and> oc_bv (fold add_access ids s) = oc_bv s \<and>
     oc_fin (fold add_access ids s) = oc_fin s \<and> oc_frame s (fold add_access ids s)"
  using assms
proof (induction ids arbitrary: m s)
  case (Cons i ids)
  from Cons.prems(2) have ml: "m < length R" by simp
  then have "drop m R = R ! m # drop (Suc m) R" by (simp add: Cons_nth_drop_Suc)
  with Cons.prems(3) have i: "i = R ! m" "ids = take (length ids) (drop (Suc m) R)" by simp_all
  let ?s = "add_access i s"
  have "window_rep R k (Suc m) (oc_table ?s)"
    using window_add [OF Cons.prems(1,4)] Cons.prems(5) i(1) by (simp add: add_access_def)
  note IH = Cons.IH [OF _ _ i(2) this]
  have "window_rep R k (Suc m + length ids) (oc_table (fold add_access ids ?s)) \<and> oc_seqno (fold add_access ids ?s) = int (Suc m + length ids) \<and>
     oc_buffered (fold add_access ids ?s) = oc_buffered ?s \<and> oc_bv (fold add_access ids ?s) = oc_bv ?s \<and>
     oc_fin (fold add_access ids ?s) = oc_fin ?s \<and> oc_frame ?s (fold add_access ids ?s)"
    by (rule IH) (use Cons.prems(1,2,5) in \<open>simp_all add: add_access_def\<close>)
  moreover have "oc_frame s ?s" "oc_buffered ?s = oc_buffered s" "oc_bv ?s = oc_bv s" "oc_fin ?s = oc_fin s"
    by (auto simp: oc_frame_def add_access_def dom_update)
  ultimately show ?case unfolding oc_frame_def by auto
qed (simp add: oc_frame_def)

lemma fill_ok:
  assumes f: "filled (rs_be cfg) R k m s" and R: "records_ok R" and w: "int (m - k) < rs_window cfg"
  shows "\<exists>m'. filled (rs_be cfg) R k m' (optimal_cache_window_fill cfg junk s) \<and> (m < length R \<longrightarrow> m < m') \<and> m \<le> m' \<and>
     oc_frame s (optimal_cache_window_fill cfg junk s)"
proof (cases "m = length R")
  case True
  with f have "optimal_cache_window_fill cfg junk s = s\<lparr>oc_bv := oc_bv s, oc_fin := oc_fin s\<rparr>"
    by (simp add: optimal_cache_window_fill_def read_next_n_records_def filled_def)
  with f True show ?thesis by (intro exI [of _ m]) (simp add: oc_frame_def)
next
  case False
  with f have ml: "m < length R" "\<not> oc_fin s" by (auto simp: filled_def)
  define n where "n = nat (rs_window cfg - oc_buffered s)"
  define ids where "ids = take n (drop m R)"
  have n: "0 < n" using f w by (simp add: filled_def n_def)
  let ?m = "m + length ids"
  have len: "length ids = min n (length R - m)" by (simp add: ids_def min.commute)
  then have ids: "ids \<noteq> []" "?m \<le> length R" using ml n by (auto simp: min_def split: if_splits)
  have t: "ids = take (length ids) (drop m R)" unfolding len by (simp add: ids_def min_def)
  have rest: "drop n (drop m R) = drop ?m R" unfolding len by (simp add: min_def add.commute)
  have "list_all in64 (drop m R)" using R by (auto simp: records_ok_def list_all_iff dest: in_set_dropD)
  with f fread_ids_rest [of "record_fp (oc_bv s)" "rs_be cfg" "drop m R" n] obtain st where
    st: "fread_ids (rs_be cfg) n (record_fp (oc_bv s)) = (ids, st)" "srest st = concat (map (enc_id (rs_be cfg)) (drop n (drop m R)))" "swf st"
    by (auto simp: filled_def ids_def)
  have "ids ! (length ids - 1) = drop m R ! (length ids - 1)" using ids(1) by (subst t) (simp del: length_0_conv)
  moreover have "m + (length ids - 1) = ?m - 1" using ids(1) by (cases ids) simp_all
  ultimately have "List.last ids = R ! (?m - 1)" using ids ml by (simp add: last_conv_nth)
  moreover have "?m - 1 < length R" using ids ml by linarith
  moreover have "0 < length ids" using ids(1) by simp
  then have "(?m - 1 = length R - 1) = (?m = length R)" using ml by linarith
  ultimately have fin: "(List.last ids = TEMPORARY_ID) = (?m = length R)"
    using R by (simp add: records_ok_def)
  let ?s0 = "s\<lparr>oc_bv := (oc_bv s)\<lparr>record_fp := st\<rparr>, oc_fin := (?m = length R), oc_buffered := oc_buffered s + int (length ids)\<rparr>"
  have r: "optimal_cache_window_fill cfg junk s = fold add_access ids ?s0"
    using ml(2) st(1) ids(1) fin by (simp add: optimal_cache_window_fill_def read_next_n_records_def n_def)
  note a = adds_filled [of k m ids R ?s0, OF _ ids(2)]
  show ?thesis
  proof (intro exI [of _ ?m] conjI impI)
    show "m < ?m" "m \<le> ?m" using ids(1) by (cases ids; simp)+
    have A: "window_rep R k ?m (oc_table (fold add_access ids ?s0)) \<and> oc_seqno (fold add_access ids ?s0) = int ?m \<and>
       oc_buffered (fold add_access ids ?s0) = oc_buffered ?s0 \<and> oc_bv (fold add_access ids ?s0) = oc_bv ?s0 \<and>
       oc_fin (fold add_access ids ?s0) = oc_fin ?s0 \<and> oc_frame ?s0 (fold add_access ids ?s0)"
      by (rule a [OF _ t]) (use f in \<open>simp_all add: filled_def\<close>)
    show "filled (rs_be cfg) R k ?m (optimal_cache_window_fill cfg junk s)"
      using A f ids(2) st(2,3) unfolding r filled_def rest by simp
    show "oc_frame s (optimal_cache_window_fill cfg junk s)" using A unfolding r by (simp add: oc_frame_def)
  qed
qed

text \<open>The cached containers are those of the sorted records; between two chunks, the last record's container is cached.\<close>

definition cached_ok :: "restore_cfg \<Rightarrow> (fingerprint \<Rightarrow> byte list) \<Rightarrow> optimal_cache \<Rightarrow> bool" where
  "cached_ok cfg D s \<longleftrightarrow> lru_inv (oc_con s) \<and> max_size (oc_con s) = rs_cache_size cfg \<and>
     (\<forall>con\<in>set (elem_queue (oc_con s)). genuine cfg D con \<and> read_container cfg (idof con) = Inr con) \<and>
     mset (map idof (elem_queue (oc_con s))) = mset (oc_sorted s) \<and> distinct (oc_sorted s) \<and>
     set (oc_sorted s) \<subseteq> fst ` set (oc_table s)"

definition oc_inv :: "restore_cfg \<Rightarrow> (fingerprint \<Rightarrow> byte list) \<Rightarrow> containerid list \<Rightarrow> nat \<Rightarrow> optimal_cache \<Rightarrow> bool" where
  "oc_inv cfg D R k s \<longleftrightarrow> cached_ok cfg D s \<and> (\<exists>m. filled (rs_be cfg) R k m s) \<and>
     oc_last s = (if k = 0 then TEMPORARY_ID else R ! (k - 1)) \<and> (0 < k \<longrightarrow> oc_last s \<in> set (oc_sorted s))"

lemma cached_ids: "cached_ok cfg D s \<Longrightarrow> idof ` set (elem_queue (oc_con s)) = set (oc_sorted s)"
  by (metis cached_ok_def set_map set_mset_mset)

lemma slide_ok:
  assumes f: "filled (rs_be cfg) R k m s" and R: "records_ok R" and k: "k + 1 < length R" and w: "1 \<le> rs_window cfg"
  shows "\<exists>s' m'. optimal_cache_window_slides cfg junk (R ! k) s = Inr s' \<and> filled (rs_be cfg) R (Suc k) m' s' \<and> oc_frame s s' \<and>
     R ! k \<in> fst ` set (oc_table s')"
proof -
  let ?s = "if oc_buffered s * 2 \<le> rs_window cfg then optimal_cache_window_fill cfg junk s else s"
  have b: "oc_buffered s = int (m - k)" "k \<le> m" using f by (auto simp: filled_def)
  have "\<exists>m'. filled (rs_be cfg) R k m' ?s \<and> k < m' \<and> oc_frame s ?s"
  proof (cases "oc_buffered s * 2 \<le> rs_window cfg")
    case True
    with b w have "int (m - k) < rs_window cfg" by linarith
    from fill_ok [OF f R this, of junk] obtain m' where "filled (rs_be cfg) R k m' (optimal_cache_window_fill cfg junk s)"
      "m < length R \<longrightarrow> m < m'" "m \<le> m'" "oc_frame s (optimal_cache_window_fill cfg junk s)" by blast
    with True k b(2) show ?thesis by (intro exI [of _ m']) auto
  next
    case False
    with b w have "k < m" by auto
    with f False show ?thesis by (intro exI [of _ m]) (simp add: oc_frame_def)
  qed
  then obtain m' where m': "filled (rs_be cfg) R k m' ?s" "k < m'" "oc_frame s ?s" by blast
  from window_slide [OF m'(2)] m'(1) obtain q where q: "map_of (oc_table ?s) (R ! k) = Some q"
    "window_rep R (Suc k) m' (AList.update (R ! k) (tl q) (oc_table ?s))" by (auto simp: filled_def)
  let ?r = "?s\<lparr>oc_table := AList.update (R ! k) (tl q) (oc_table ?s), oc_buffered := oc_buffered ?s - 1\<rparr>"
  have "optimal_cache_window_slides cfg junk (R ! k) s = Inr ?r"
    unfolding optimal_cache_window_slides_def Let_def q(1) by simp
  moreover have "filled (rs_be cfg) R (Suc k) m' ?r"
    using m'(1,2) q(2) by (simp add: filled_def of_nat_diff)
  moreover have "fst ` set (oc_table ?s) \<subseteq> fst ` set (oc_table ?r)" by (simp add: dom_update subset_insertI)
  from subset_trans [OF _ this] have "oc_frame s ?r" using m'(3) unfolding oc_frame_def by simp
  moreover have "R ! k \<in> fst ` set (oc_table ?r)" by (simp add: dom_update)
  ultimately show ?thesis by blast
qed

lemma kick_ok:
  assumes c: "cached_ok cfg D s" and sim: "rs_sim cfg = SIMULATION_NO" and ht: "r \<in> set (oc_sorted s)" "r \<in> set ht" "set ht \<subseteq> set (oc_sorted s)"
  shows "\<exists>v l. kick_container cfg ht s = (Some v, s\<lparr>oc_con := l\<rparr>) \<and> v \<in> set (oc_sorted s) \<and> lru_inv l \<and> max_size l = rs_cache_size cfg \<and>
     csize l < csize (oc_con s) \<and> set (elem_queue l) \<subseteq> set (elem_queue (oc_con s)) \<and>
     mset (oc_sorted s) = add_mset v (mset (map idof (elem_queue l)))"
proof -
  let ?q = "elem_queue (oc_con s)" and ?P = "\<lambda>c. idof c \<in> set ht"
  from ht(1) obtain x where "x \<in> set ?q" "idof x = r" unfolding cached_ids [OF c, symmetric] by auto
  with ht have "unlink_last ?P ?q \<noteq> None" by (auto simp: unlink_last_None)
  then obtain e rest where u: "unlink_last ?P ?q = Some (e, rest)" by auto
  from unlink_last_Some [OF u] obtain us vs where uv: "?q = us @ e # vs" "rest = us @ vs" "idof e \<in> set ht" by blast
  let ?l = "(oc_con s)\<lparr>elem_queue := rest, csize := csize (oc_con s) - 1\<rparr>"
  have k: "lru_cache_kicks ?P (oc_con s) = (Some e, ?l)" using u by (simp add: lru_cache_kicks_def)
  have "lru_inv ?l" using lru_inv_kicks [of "oc_con s" ?P] c k by (simp add: cached_ok_def)
  moreover have "mset (oc_sorted s) = add_mset (idof e) (mset (map idof rest))"
    using c uv by (simp add: cached_ok_def)
  ultimately show ?thesis using k c sim uv ht
    by (intro exI [of _ "idof e"] exI [of _ ?l]) (auto simp: kick_container_def cached_ok_def)
qed

lemma set_sort_records: "mset (sort_records t is) = mset is"
  by (simp add: sort_records_def mset_fold_insert_sorted)

lemma set_more_victims: "set (more_victims t n is) \<subseteq> set is"
  by (induction t n "is" rule: more_victims.induct) auto

lemma filled_cong:
  assumes "filled be R k m s" "window_rep R k m (oc_table s')" "oc_buffered s' = oc_buffered s" "oc_seqno s' = oc_seqno s"
    "oc_fin s' = oc_fin s" "oc_bv s' = oc_bv s"
  shows "filled be R k m s'"
  using assms by (simp add: filled_def)

lemma evict_ok:
  assumes c: "cached_ok cfg D s" and f: "filled be R k m s" and sim: "rs_sim cfg = SIMULATION_NO" and full: "cache_full cfg s"
    and sz: "rs_cache_size cfg \<noteq> 0"
  shows "\<exists>s'. evict cfg s = Inr s' \<and> cached_ok cfg D s' \<and> filled be R k m s' \<and> csize (oc_con s') < rs_cache_size cfg \<and>
     set (oc_sorted s') \<subseteq> set (oc_sorted s) \<and> oc_last s' = oc_last s \<and> oc_jcr s' = oc_jcr s \<and>
     fst ` set (oc_table s) - set (oc_sorted s) \<subseteq> fst ` set (oc_table s')"
proof -
  let ?srt = "sort_records (oc_table s) (oc_sorted s)"
  have fl: "rs_cache_size cfg > 0" "csize (oc_con s) = rs_cache_size cfg" "csize (oc_con s) = int (length (elem_queue (oc_con s)))"
    using full sim sz c by (auto simp: cache_full_def lru_cache_is_full_def cached_ok_def lru_inv_def split: if_splits)
  have ms: "mset ?srt = mset (oc_sorted s)" by (rule set_sort_records)
  note ss = mset_eq_setD [OF ms]
  have "length (oc_sorted s) = length (elem_queue (oc_con s))" using c by (metis cached_ok_def length_map size_mset)
  moreover have "length ?srt = length (oc_sorted s)" using ms by (metis size_mset)
  ultimately have "length ?srt \<noteq> 0" using fl by linarith
  then have "?srt \<noteq> []" by simp
  then obtain r rs where r: "rev ?srt = r # rs" by (metis list.exhaust rev_is_Nil_conv)
  have rin: "set (r # rs) = set (oc_sorted s)" using ss r by (metis set_rev)
  let ?ht = "r # more_victims (oc_table s) 10 rs"
  have ht: "r \<in> set (oc_sorted s)" "r \<in> set ?ht" "set ?ht \<subseteq> set (oc_sorted s)"
    using rin set_more_victims [of "oc_table s" 10 rs] by auto
  from kick_ok [OF c sim ht] obtain v l where v: "kick_container cfg ?ht s = (Some v, s\<lparr>oc_con := l\<rparr>)" "v \<in> set (oc_sorted s)"
    "lru_inv l" "max_size l = rs_cache_size cfg" "csize l < csize (oc_con s)" "set (elem_queue l) \<subseteq> set (elem_queue (oc_con s))"
    "mset (oc_sorted s) = add_mset v (mset (map idof (elem_queue l)))" by blast
  let ?srt' = "rev (remove1 v (rev ?srt))" and ?t = "if seqnos (oc_table s) v = [] then AList.delete v (oc_table s) else oc_table s"
  let ?s = "s\<lparr>oc_con := l, oc_sorted := ?srt', oc_table := ?t\<rparr>"
  have e: "evict cfg s = Inr ?s" using r v(1,2) ss by (simp add: evict_def Let_def)
  have "mset ?srt' = mset (oc_sorted s) - {#v#}" by (simp add: ms)
  then have m': "mset ?srt' = mset (map idof (elem_queue l))" using v(7) by simp
  have d: "distinct ?srt'" "v \<notin> set ?srt'" "set ?srt' \<subseteq> set (oc_sorted s)"
    using c ms ss by (simp_all add: cached_ok_def distinct_remove1 mset_eq_imp_distinct_iff [OF ms] set_remove1_eq)
  have dom: "fst ` set (oc_table s) - {v} \<subseteq> fst ` set ?t" by (auto simp: delete_conv' dom_def AList.delete_eq)
  have "cached_ok cfg D ?s"
    using c v(3,4,6) m' d dom unfolding cached_ok_def by (auto 0 3)
  moreover have "filled be R k m ?s"
    by (rule filled_cong [OF f]) (use f in \<open>auto simp: filled_def intro: window_delete\<close>)
  moreover have "fst ` set (oc_table s) - set (oc_sorted s) \<subseteq> fst ` set ?t" using dom v(2) by blast
  ultimately show ?thesis using e v(5) fl(2) d(3) by (intro exI [of _ ?s] conjI) simp_all
qed

lemma insert_new:
  assumes c: "cached_ok cfg D s" and f: "filled be R k m s" and sim: "rs_sim cfg = SIMULATION_NO" and sz: "rs_cache_size cfg \<noteq> 0"
    and i: "i \<in> fst ` set (oc_table s)" "i \<notin> set (oc_sorted s)" and con: "read_container cfg i = Inr con" "idof con = i" "genuine cfg D con"
    and pl: "\<And>i is. mset (rs_place cfg i is) = add_mset i (mset is)"
  shows "\<exists>s'. optimal_cache_insert cfg i s = Inr s' \<and> cached_ok cfg D s' \<and> filled be R k m s' \<and> i \<in> set (oc_sorted s') \<and>
     oc_last s' = oc_last s \<and> (\<forall>cs. counted cs (oc_jcr s) \<longrightarrow> counted cs (oc_jcr s'))"
proof -
  have "\<exists>s1. (if cache_full cfg s then evict cfg s else Inr s) = Inr s1 \<and> cached_ok cfg D s1 \<and> filled be R k m s1 \<and>
     (rs_cache_size cfg < 0 \<or> csize (oc_con s1) < rs_cache_size cfg) \<and> i \<notin> set (oc_sorted s1) \<and> i \<in> fst ` set (oc_table s1) \<and>
     oc_last s1 = oc_last s \<and> oc_jcr s1 = oc_jcr s"
  proof (cases "cache_full cfg s")
    case True
    from evict_ok [OF c f sim True sz] obtain s1 where s1: "evict cfg s = Inr s1" "cached_ok cfg D s1" "filled be R k m s1"
      "csize (oc_con s1) < rs_cache_size cfg" "set (oc_sorted s1) \<subseteq> set (oc_sorted s)" "oc_last s1 = oc_last s" "oc_jcr s1 = oc_jcr s"
      "fst ` set (oc_table s) - set (oc_sorted s) \<subseteq> fst ` set (oc_table s1)" by blast
    have "i \<in> fst ` set (oc_table s1)" "i \<notin> set (oc_sorted s1)" using s1(5,8) i by blast+
    with s1 True show ?thesis by (intro exI [of _ s1]) simp
  next
    case False
    with c f i sim show ?thesis by (auto simp: cache_full_def lru_cache_is_full_def cached_ok_def split: if_splits)
  qed
  then obtain s1 where s1: "(if cache_full cfg s then evict cfg s else Inr s) = Inr s1" "cached_ok cfg D s1" "filled be R k m s1"
     "rs_cache_size cfg < 0 \<or> csize (oc_con s1) < rs_cache_size cfg" "i \<notin> set (oc_sorted s1)" "i \<in> fst ` set (oc_table s1)"
     "oc_last s1 = oc_last s" "oc_jcr s1 = oc_jcr s" by blast
  let ?l = "(oc_con s1)\<lparr>elem_queue := con # elem_queue (oc_con s1), csize := csize (oc_con s1) + 1\<rparr>"
  have ins: "lru_cache_insert (oc_con s1) con = Inr (None, ?l)" using s1(2,4) by (auto simp: lru_cache_insert_def cached_ok_def)
  let ?s = "s1\<lparr>oc_jcr := count_container (oc_jcr s1), oc_con := ?l, oc_sorted := rs_place cfg i (oc_sorted s1)\<rparr>"
  from s1(6) obtain q where q: "map_of (oc_table s1) i = Some q" by (metis map_of_eq_None_iff not_None_eq)
  have e: "optimal_cache_insert cfg i s = Inr ?s"
    using s1(1) sim con(1) ins q by (simp add: optimal_cache_insert_def Let_def)
  have p: "mset (rs_place cfg i (oc_sorted s1)) = add_mset i (mset (oc_sorted s1))" by (rule pl)
  then have ps: "set (rs_place cfg i (oc_sorted s1)) = insert i (set (oc_sorted s1))"
    by (metis set_mset_add_mset_insert set_mset_mset)
  have "mset (rs_place cfg i (oc_sorted s1)) = mset (i # oc_sorted s1)" using p by simp
  from mset_eq_imp_distinct_iff [OF this] s1(2,5) have pd: "distinct (rs_place cfg i (oc_sorted s1))" by (simp add: cached_ok_def)
  have "lru_inv ?l" using s1(2,4) by (auto simp: cached_ok_def lru_inv_def)
  then have "cached_ok cfg D ?s" using s1(2,6) p ps pd con unfolding cached_ok_def by simp
  moreover have "filled be R k m ?s" by (rule filled_cong [OF s1(3)]) (use s1(3) in \<open>simp_all add: filled_def\<close>)
  ultimately show ?thesis using e ps s1(7,8) by (intro exI [of _ ?s]) simp
qed

subsection \<open>One chunk, and the thread\<close>

text \<open>The accesses: the ids of the data chunks, repetitions dropped, and the end mark.\<close>

definition access_records :: "chunk list \<Rightarrow> containerid list" where
  "access_records cs = remdups_adj (map ck_id (data_chunks cs)) @ [TEMPORARY_ID]"

definition optimal_ready :: "restore_cfg \<Rightarrow> bool" where
  "optimal_ready cfg \<longleftrightarrow> rs_sim cfg = SIMULATION_NO \<and> rs_cache_size cfg \<noteq> 0 \<and> 1 \<le> rs_window cfg \<and>
     (\<forall>i is. mset (rs_place cfg i is) = add_mset i (mset is))"

lemma hits_ok:
  assumes c: "cached_ok cfg D s" and l: "lru_cache_hits (\<lambda>c. container_check_id c i) (oc_con s) = (e, l)"
  shows "cached_ok cfg D (s\<lparr>oc_con := l\<rparr>)" "e \<noteq> None \<longleftrightarrow> i \<in> set (oc_sorted s)"
proof -
  let ?P = "\<lambda>c. container_check_id c i"
  have m: "mset (elem_queue l) = mset (elem_queue (oc_con s))" "max_size l = max_size (oc_con s)"
    using l by (auto simp: lru_cache_hits_def dest: unlink_first_mset split: option.splits)
  have "lru_inv l" using lru_inv_hits [of "oc_con s" ?P] l c by (simp add: cached_ok_def)
  moreover have "mset (map idof (elem_queue l)) = mset (map idof (elem_queue (oc_con s)))" using m(1) by simp
  ultimately show "cached_ok cfg D (s\<lparr>oc_con := l\<rparr>)"
    using c mset_eq_setD [OF m(1)] m(2) unfolding cached_ok_def by simp
  have "e = None \<longleftrightarrow> (\<forall>c\<in>set (elem_queue (oc_con s)). idof c \<noteq> i)"
    using l unlink_first_None [of ?P "elem_queue (oc_con s)"]
    by (auto simp: lru_cache_hits_def container_check_id_def container_meta_check_id_def split: option.splits)
  then show "e \<noteq> None \<longleftrightarrow> i \<in> set (oc_sorted s)" unfolding cached_ids [OF c, symmetric] by auto
qed

lemma lookup_restores:
  assumes c: "cached_ok cfg D s" and sim: "rs_sim cfg = SIMULATION_NO" and i: "i \<in> set (oc_sorted s)"
    and con: "read_container cfg i = Inr con" "lookup_fingerprint_in_container con fp"
  shows "\<exists>ck s'. optimal_cache_lookup cfg fp s = Inr (ck, s') \<and> ck_data ck = D fp \<and> ck_size ck = int (length (D fp)) \<and> \<not> is_file_mark ck \<and>
     cached_ok cfg D s' \<and> (\<exists>l. s' = s\<lparr>oc_con := l\<rparr>)"
proof -
  let ?P = "\<lambda>con. lookup_fingerprint_in_container con fp"
  from i obtain con' where con': "con' \<in> set (elem_queue (oc_con s))" "idof con' = i" unfolding cached_ids [OF c, symmetric] by auto
  then have "con' = con" using c con(1) by (auto simp: cached_ok_def)
  with con' con(2) have "unlink_first ?P (elem_queue (oc_con s)) \<noteq> None" by (auto simp: unlink_first_None)
  then obtain x rest where u: "unlink_first ?P (elem_queue (oc_con s)) = Some (x, rest)" by auto
  let ?l = "(oc_con s)\<lparr>elem_queue := x # rest, hit_count := Suc (hit_count (oc_con s))\<rparr>"
  have l: "lru_cache_lookup ?P (oc_con s) = (Some x, ?l)" using u by (simp add: lru_cache_lookup_def)
  from unlink_first_sat [OF u] have x: "lookup_fingerprint_in_container x fp" "genuine cfg D x" using c by (auto simp: cached_ok_def)
  then obtain ck where ck: "fetch_chunk cfg x fp = Inr ck" "ck_data ck = D fp" "ck_size ck = int (length (D fp))" "\<not> is_file_mark ck"
    unfolding genuine_def by blast
  have ms: "mset (x # rest) = mset (elem_queue (oc_con s))" using unlink_first_mset [OF u] by simp
  have "lru_inv ?l" using lru_inv_lookup [of "oc_con s" ?P] l c by (simp add: cached_ok_def)
  moreover have "mset (map idof (x # rest)) = mset (map idof (elem_queue (oc_con s)))" using ms by (metis mset_map)
  ultimately have "cached_ok cfg D (s\<lparr>oc_con := ?l\<rparr>)"
    using c mset_eq_setD [OF ms] unfolding cached_ok_def by simp
  with l ck sim show ?thesis by (auto simp: optimal_cache_lookup_def)
qed

text \<open>The access of one data chunk: it goes on to record \<open>k\<close>, or stays at the record before.\<close>

lemma access_ok:
  assumes I: "oc_inv cfg D R k s" and R: "records_ok R" and o: "optimal_ready cfg"
    and con: "read_container cfg i = Inr con" "idof con = i" "genuine cfg D con"
    and i: "i \<noteq> TEMPORARY_ID" and k: "if i = oc_last s then k' = k else k' = Suc k \<and> Suc k < length R \<and> R ! k = i"
  shows "\<exists>s'. rbind (optimal_cache_hits cfg junk i s) (\<lambda>(hit, s). if \<not> hit then optimal_cache_insert cfg i s else Inr s) = Inr s' \<and>
     cached_ok cfg D s' \<and> (\<exists>m. filled (rs_be cfg) R k' m s') \<and> i \<in> set (oc_sorted s') \<and> oc_last s' = i \<and>
     (\<forall>cs. counted cs (oc_jcr s) \<longrightarrow> counted cs (oc_jcr s'))"
proof -
  from o have sim: "rs_sim cfg = SIMULATION_NO" and sz: "rs_cache_size cfg \<noteq> 0" and w: "1 \<le> rs_window cfg"
    and pl: "\<And>i is. mset (rs_place cfg i is) = add_mset i (mset is)" by (simp_all add: optimal_ready_def)
  from I obtain m where c: "cached_ok cfg D s" and f: "filled (rs_be cfg) R k m s" by (auto simp: oc_inv_def)
  have "\<exists>s1 m1. (if oc_last s \<noteq> i then rbind (optimal_cache_window_slides cfg junk i s) (\<lambda>s. Inr (s\<lparr>oc_last := i\<rparr>)) else Inr s) = Inr s1 \<and>
    cached_ok cfg D s1 \<and> filled (rs_be cfg) R k' m1 s1 \<and> oc_last s1 = i \<and> oc_jcr s1 = oc_jcr s \<and>
    (i \<in> set (oc_sorted s1) \<or> i \<in> fst ` set (oc_table s1))"
  proof (cases "i = oc_last s")
    case True
    have "0 < k" by (cases "k = 0") (use I True i in \<open>simp_all add: oc_inv_def\<close>)
    then have "i \<in> set (oc_sorted s)" using I unfolding True oc_inv_def by blast
    with c f k True have "cached_ok cfg D s \<and> filled (rs_be cfg) R k' m s \<and> i \<in> set (oc_sorted s)" by simp
    with True show ?thesis by (intro exI [of _ s] exI [of _ m]) simp
  next
    case False
    with k have k': "k' = Suc k" "k + 1 < length R" "R ! k = i" by auto
    from slide_ok [OF f R k'(2) w, of junk] k'(3) obtain s1 m1 where s1: "optimal_cache_window_slides cfg junk i s = Inr s1"
      "filled (rs_be cfg) R (Suc k) m1 s1" "oc_frame s s1" "i \<in> fst ` set (oc_table s1)" by blast
    have "cached_ok cfg D (s1\<lparr>oc_last := i\<rparr>)" using c s1(3) unfolding cached_ok_def oc_frame_def by auto
    moreover have "filled (rs_be cfg) R k' m1 (s1\<lparr>oc_last := i\<rparr>)" using s1(2) k'(1) by (simp add: filled_def)
    ultimately show ?thesis using False s1(1,3,4) by (intro exI [of _ "s1\<lparr>oc_last := i\<rparr>"] exI [of _ m1]) (simp add: oc_frame_def)
  qed
  then obtain s1 m1 where s1: "(if oc_last s \<noteq> i then rbind (optimal_cache_window_slides cfg junk i s) (\<lambda>s. Inr (s\<lparr>oc_last := i\<rparr>)) else Inr s) = Inr s1"
    "cached_ok cfg D s1" "filled (rs_be cfg) R k' m1 s1" "oc_last s1 = i" "oc_jcr s1 = oc_jcr s"
    "i \<in> set (oc_sorted s1) \<or> i \<in> fst ` set (oc_table s1)" by blast
  obtain e l where l: "lru_cache_hits (\<lambda>c. container_check_id c i) (oc_con s1) = (e, l)" by fastforce
  note h = hits_ok [OF s1(2) l]
  let ?s = "s1\<lparr>oc_con := l\<rparr>"
  have hit: "optimal_cache_hits cfg junk i s = Inr (e \<noteq> None, ?s)"
    unfolding optimal_cache_hits_def s1(1) using sim l by simp
  have f1: "filled (rs_be cfg) R k' m1 ?s" using s1(3) by (simp add: filled_def)
  show ?thesis
  proof (cases "e = None")
    case True
    with h(2) s1(6) have i: "i \<in> fst ` set (oc_table ?s)" "i \<notin> set (oc_sorted ?s)" by auto
    from insert_new [OF h(1) f1 sim sz i con pl] True hit s1(4,5) show ?thesis by fastforce
  next
    case False
    with h f1 hit s1(4,5) show ?thesis by auto
  qed
qed

definition accesses :: "chunk list \<Rightarrow> nat" where
  "accesses inp = length (remdups_adj (map ck_id (data_chunks inp)))"

lemma access_records_nth:
  fixes inp
  defines "xs \<equiv> map ck_id (data_chunks inp)"
  assumes "\<not> is_file_mark c" and "ck_id c \<noteq> (if xs = [] then TEMPORARY_ID else List.last xs) \<or> xs = []"
  shows "accesses (inp @ [c]) = Suc (accesses inp)" "Suc (accesses inp) < length (access_records (inp @ c # post))"
    "access_records (inp @ c # post) ! accesses inp = ck_id c"
proof -
  let ?ys = "ck_id c # map ck_id (data_chunks post)"
  have m: "map ck_id (data_chunks (inp @ c # post)) = xs @ ?ys" using assms(2) by (simp add: data_chunks_def xs_def)
  have s: "remdups_adj (xs @ zs) = remdups_adj xs @ remdups_adj zs" if "zs \<noteq> []" "hd zs = ck_id c" for zs
    using assms(3) that by (cases "xs = []"; cases zs) (simp_all add: remdups_adj_append'')
  have h: "remdups_adj ?ys ! 0 = ck_id c" "0 < length (remdups_adj ?ys)" by (simp_all add: hd_remdups_adj flip: hd_conv_nth)
  show "accesses (inp @ [c]) = Suc (accesses inp)"
    using s [of "[ck_id c]"] assms(2) by (simp add: accesses_def data_chunks_def xs_def)
  have a: "access_records (inp @ c # post) = remdups_adj xs @ remdups_adj ?ys @ [TEMPORARY_ID]"
    unfolding access_records_def m using s [of ?ys] by simp
  show "Suc (accesses inp) < length (access_records (inp @ c # post))"
    unfolding a using h(2) by (simp add: accesses_def xs_def del: remdups_adj_length)
  show "access_records (inp @ c # post) ! accesses inp = ck_id c"
    unfolding a using h by (simp add: accesses_def xs_def [symmetric] nth_append)
qed

lemma access_again:
  assumes "\<not> is_file_mark c" "data_chunks inp \<noteq> []" "ck_id c = List.last (map ck_id (data_chunks inp))"
  shows "accesses (inp @ [c]) = accesses inp"
  using assms by (simp add: accesses_def data_chunks_def remdups_adj_append'')

lemma access_last:
  assumes "data_chunks inp \<noteq> []"
  shows "0 < accesses inp" "access_records (inp @ post) ! (accesses inp - 1) = List.last (map ck_id (data_chunks inp))"
proof -
  let ?xs = "map ck_id (data_chunks inp)"
  have ne: "remdups_adj ?xs \<noteq> []" using assms by simp
  then show 0: "0 < accesses inp" by (simp add: accesses_def)
  have "access_records (inp @ post) = remdups_adj ?xs @ remdups_adj (dropWhile (\<lambda>y. y = List.last ?xs) (map ck_id (data_chunks post))) @ [TEMPORARY_ID]"
    using assms by (simp add: access_records_def data_chunks_def remdups_adj_append'')
  moreover have "remdups_adj ?xs ! (accesses inp - 1) = List.last ?xs"
    using last_conv_nth [OF ne] by (simp add: accesses_def last_remdups_adj)
  ultimately show "access_records (inp @ post) ! (accesses inp - 1) = List.last ?xs"
    using 0 by (simp add: nth_append accesses_def)
qed

lemma records_ok_access:
  assumes "\<forall>c\<in>set cs. \<not> is_file_mark c \<longrightarrow> ck_id c \<noteq> TEMPORARY_ID \<and> in64 (ck_id c)"
  shows "records_ok (access_records cs)"
proof -
  have m: "i \<noteq> TEMPORARY_ID \<and> in64 i" if "i \<in> set (remdups_adj (map ck_id (data_chunks cs)))" for i
    using that assms by (auto simp: data_chunks_def)
  have "remdups_adj (map ck_id (data_chunks cs)) ! p \<noteq> TEMPORARY_ID" if "p < length (remdups_adj (map ck_id (data_chunks cs)))" for p
    using m [OF nth_mem [OF that]] by simp
  moreover have "in64 TEMPORARY_ID" by (simp add: TEMPORARY_ID_def in64_def)
  ultimately show ?thesis
    using m unfolding records_ok_def access_records_def list_all_iff by (auto simp: nth_append)
qed

definition expected_id :: "chunk \<Rightarrow> bool" where
  "expected_id c \<longleftrightarrow> \<not> is_file_mark c \<longrightarrow> ck_id c \<noteq> TEMPORARY_ID \<and> in64 (ck_id c)"

lemma optimal_chunk_ok:
  assumes I: "oc_inv cfg D R (accesses inp) s" and R: "R = access_records (inp @ c # post)" "records_ok R" and o: "optimal_ready cfg"
    and c: "readable cfg D c" "expected_id c" and last: "oc_last s = (if data_chunks inp = [] then TEMPORARY_ID else List.last (map ck_id (data_chunks inp)))"
  shows "\<exists>rc s'. optimal_restore_chunk cfg junk c s = Inr ([rc], s') \<and> restores D c rc \<and> oc_inv cfg D R (accesses (inp @ [c])) s' \<and>
     (\<forall>cs. counted cs (oc_jcr s) \<longrightarrow> counted (cs @ [c]) (oc_jcr s')) \<and>
     oc_last s' = (if data_chunks (inp @ [c]) = [] then TEMPORARY_ID else List.last (map ck_id (data_chunks (inp @ [c]))))"
proof (cases "is_file_mark c")
  case True
  have "data_chunks (inp @ [c]) = data_chunks inp" using True by (simp add: data_chunks_def)
  with True I last show ?thesis by (simp add: optimal_restore_chunk_def mark_check restores_def accesses_def)
next
  case False
  have sim: "rs_sim cfg = SIMULATION_NO" using o by (simp add: optimal_ready_def)
  from c False obtain con where con: "read_container cfg (ck_id c) = Inr con" "idof con = ck_id c" "genuine cfg D con"
    "lookup_fingerprint_in_container con (ck_fp c)" by (auto simp: readable_def)
  have i: "ck_id c \<noteq> TEMPORARY_ID" using c(2) False by (simp add: expected_id_def)
  have k: "if ck_id c = oc_last s then accesses (inp @ [c]) = accesses inp
      else accesses (inp @ [c]) = Suc (accesses inp) \<and> Suc (accesses inp) < length R \<and> R ! accesses inp = ck_id c"
  proof (cases "ck_id c = oc_last s")
    case True
    with last i have "data_chunks inp \<noteq> []" by auto
    with True last access_again [OF False] show ?thesis by simp
  next
    case ne: False
    then have "ck_id c \<noteq> (if map ck_id (data_chunks inp) = [] then TEMPORARY_ID else List.last (map ck_id (data_chunks inp))) \<or>
        map ck_id (data_chunks inp) = []" using last by auto
    from access_records_nth [OF False this] ne show ?thesis by (simp add: R(1))
  qed
  from access_ok [OF I R(2) o con(1-3) i k, of junk] obtain s1 where s1:
    "rbind (optimal_cache_hits cfg junk (ck_id c) s) (\<lambda>(hit, s). if \<not> hit then optimal_cache_insert cfg (ck_id c) s else Inr s) = Inr s1"
    "cached_ok cfg D s1" "\<exists>m. filled (rs_be cfg) R (accesses (inp @ [c])) m s1" "ck_id c \<in> set (oc_sorted s1)" "oc_last s1 = ck_id c"
    "\<forall>cs. counted cs (oc_jcr s) \<longrightarrow> counted cs (oc_jcr s1)" by blast
  from lookup_restores [OF s1(2) sim s1(4) con(1,4)] obtain ck l where ck: "optimal_cache_lookup cfg (ck_fp c) s1 = Inr (ck, s1\<lparr>oc_con := l\<rparr>)"
    "ck_data ck = D (ck_fp c)" "ck_size ck = int (length (D (ck_fp c)))" "\<not> is_file_mark ck" "cached_ok cfg D (s1\<lparr>oc_con := l\<rparr>)" by blast
  let ?s = "s1\<lparr>oc_con := l, oc_jcr := count_chunk c (oc_jcr s1)\<rparr>"
  from s1(1) obtain hit s0 where h: "optimal_cache_hits cfg junk (ck_id c) s = Inr (hit, s0)"
    "(if \<not> hit then optimal_cache_insert cfg (ck_id c) s0 else Inr s0) = Inr s1" by (auto simp: rbind_Inr_iff)
  have run: "optimal_restore_chunk cfg junk c s = Inr ([ck], ?s)"
    using False h(1) ck(1) sim unfolding optimal_restore_chunk_def mark_check by (simp add: h(2) del: not_not)
  have dc: "data_chunks (inp @ [c]) = data_chunks inp @ [c]" using False by (simp add: data_chunks_def)
  note al = access_last(1) [of "inp @ [c]"] access_last(2) [of "inp @ [c]" post]
  have last': "List.last (map ck_id (data_chunks (inp @ [c]))) = ck_id c" by (simp add: dc)
  have "oc_inv cfg D R (accesses (inp @ [c])) ?s"
    unfolding oc_inv_def
  proof (intro conjI impI)
    show "cached_ok cfg D ?s" using ck(5) by (simp add: cached_ok_def)
    show "\<exists>m. filled (rs_be cfg) R (accesses (inp @ [c])) m ?s" using s1(3) by (simp add: filled_def)
    show "oc_last ?s = (if accesses (inp @ [c]) = 0 then TEMPORARY_ID else R ! (accesses (inp @ [c]) - 1))"
      using al s1(5) last' by (simp add: R(1) dc)
    show "oc_last ?s \<in> set (oc_sorted ?s)" using s1(4,5) by simp
  qed
  moreover have "\<forall>cs. counted cs (oc_jcr s) \<longrightarrow> counted (cs @ [c]) (oc_jcr ?s)" using s1(6) False by simp
  moreover have "oc_last ?s = (if data_chunks (inp @ [c]) = [] then TEMPORARY_ID else List.last (map ck_id (data_chunks (inp @ [c]))))"
    using s1(5) last' by (simp add: dc)
  ultimately show ?thesis using run restores_fetched [of c ck D, OF False ck(2-4)] by blast
qed

lemma optimal_loop_ok:
  assumes "oc_inv cfg D R (accesses inp) s" "R = access_records (inp @ cs)" "records_ok R" "optimal_ready cfg"
    and "\<forall>c\<in>set cs. readable cfg D c \<and> expected_id c" and "counted inp (oc_jcr s)"
    and "oc_last s = (if data_chunks inp = [] then TEMPORARY_ID else List.last (map ck_id (data_chunks inp)))"
  shows "\<exists>out s'. restore_loop (optimal_restore_chunk cfg junk) cs s = Inr (out, s') \<and> list_all2 (restores D) cs out \<and>
     counted (inp @ cs) (oc_jcr s')"
  using assms
proof (induction cs arbitrary: inp s)
  case (Cons c cs)
  from Cons.prems(5) have c: "readable cfg D c" "expected_id c" by simp_all
  from optimal_chunk_ok [OF Cons.prems(1-4) c Cons.prems(7), of junk] obtain rc s1 where s1:
    "optimal_restore_chunk cfg junk c s = Inr ([rc], s1)" "restores D c rc" "oc_inv cfg D R (accesses (inp @ [c])) s1"
    "counted (inp @ [c]) (oc_jcr s1)"
    "oc_last s1 = (if data_chunks (inp @ [c]) = [] then TEMPORARY_ID else List.last (map ck_id (data_chunks (inp @ [c]))))"
    using Cons.prems(6) by blast
  have R: "R = access_records ((inp @ [c]) @ cs)" using Cons.prems(2) by simp
  have "\<forall>c\<in>set cs. readable cfg D c \<and> expected_id c" using Cons.prems(5) by simp
  from Cons.IH [OF s1(3) R Cons.prems(3,4) this s1(4,5)] obtain out s' where
    "restore_loop (optimal_restore_chunk cfg junk) cs s1 = Inr (out, s')" "list_all2 (restores D) cs out" "counted ((inp @ [c]) @ cs) (oc_jcr s')"
    by blast
  with s1(1,2) show ?case by simp
qed simp

lemma optimal_thread_ok:
  assumes o: "optimal_ready cfg" and c: "\<forall>c\<in>set cs. readable cfg D c \<and> expected_id c"
    and bv: "srest (record_fp bv) = concat (map (enc_id (rs_be cfg)) (access_records cs))" "swf (record_fp bv)"
  shows "\<exists>out j. optimal_restore_thread cfg junk bv cs = Inr (out, j) \<and> list_all2 (restores D) cs out \<and> counted cs j"
proof -
  let ?R = "access_records cs"
  let ?b = "\<lparr>oc_seqno = 0, oc_table = [], oc_buffered = 0, oc_sorted = [], oc_con = new_lru_cache (rs_cache_size cfg),
      oc_meta = new_lru_cache (rs_cache_size cfg), oc_bv = bv, oc_fin = False, oc_last = TEMPORARY_ID, oc_jcr = start_jcr\<rparr>"
  let ?s = "init_optimal_cache cfg junk bv"
  have R: "records_ok ?R" by (rule records_ok_access) (use c in \<open>auto simp: expected_id_def\<close>)
  have w: "1 \<le> rs_window cfg" using o by (simp add: optimal_ready_def)
  have "filled (rs_be cfg) ?R 0 0 ?b"
    using bv R by (simp add: filled_def window_rep_def seqnos_def records_ok_def)
  from fill_ok [OF this R, of junk] w obtain m where m: "filled (rs_be cfg) ?R 0 m ?s" "oc_frame ?b ?s"
    unfolding init_optimal_cache_def by auto
  have "cached_ok cfg D ?b" by (simp add: cached_ok_def lru_inv_new) (simp add: new_lru_cache_def)
  then have "cached_ok cfg D ?s" using m(2) unfolding cached_ok_def oc_frame_def by simp
  then have I: "oc_inv cfg D ?R (accesses []) ?s" using m by (auto simp: oc_inv_def oc_frame_def accesses_def data_chunks_def)
  have l: "oc_last ?s = TEMPORARY_ID" "counted [] (oc_jcr ?s)" using m(2) by (simp_all add: oc_frame_def)
  from optimal_loop_ok [OF I _ R o c l(2), of junk] l(1) show ?thesis
    by (auto simp: optimal_restore_thread_def data_chunks_def)
qed

end
