(* ===== verification/File_System.thy ===== *)
theory File_System
  imports Destor_Prelude
begin

text \<open>
  The directories and files \<open>write_restore_data\<close> works on, as far as it relies on them: a path names the list of
  its components (empty ones and \<open>.\<close> dropped; \<open>..\<close> is not treated), \<open>mkdir\<close> and opening for writing
  succeed where the directory above exists, opening for writing empties the file. A denied permission or a full disk is not
  modelled. The bytes 46 and 47 are \<open>.\<close> and \<open>/\<close>.
\<close>

abbreviation slash :: byte where "slash \<equiv> 47"

fun split_path :: "byte list \<Rightarrow> byte list list" where
  "split_path [] = [[]]"
| "split_path (c # cs) = (if c = slash then [] # split_path cs else (case split_path cs of [] \<Rightarrow> [[c]] | w # ws \<Rightarrow> (c # w) # ws))"

definition components :: "byte list \<Rightarrow> byte list list" where
  "components s = filter (\<lambda>w. w \<noteq> [] \<and> w \<noteq> [46]) (split_path s)"

type_synonym place = "bool \<times> byte list list"   \<comment> \<open>from the root or from the working directory\<close>

definition place :: "byte list \<Rightarrow> place" where
  "place s = (s \<noteq> [] \<and> hd s = slash, components s)"

record file_system =
  os_dirs :: "place list"
  os_files :: "(place, byte list) htable"

definition is_dir :: "file_system \<Rightarrow> place \<Rightarrow> bool" where
  "is_dir fs p \<longleftrightarrow> snd p = [] \<or> p \<in> set (os_dirs fs)"

definition accessible :: "file_system \<Rightarrow> byte list \<Rightarrow> bool" where
  "accessible fs s \<longleftrightarrow> s \<noteq> [] \<and> (is_dir fs (place s) \<or> map_of (os_files fs) (place s) \<noteq> None)"

definition above :: "place \<Rightarrow> place" where
  "above p = (fst p, butlast (snd p))"

definition mkdir :: "byte list \<Rightarrow> file_system \<Rightarrow> file_system" where
  "mkdir s fs = (if s \<noteq> [] \<and> \<not> accessible fs s \<and> is_dir fs (above (place s)) then fs\<lparr>os_dirs := place s # os_dirs fs\<rparr> else fs)"

definition fopen_w :: "byte list \<Rightarrow> file_system \<Rightarrow> (place \<times> file_system) option" where
  "fopen_w s fs =
     (if s = [] \<or> last s = slash \<or> is_dir fs (place s) \<or> \<not> is_dir fs (above (place s)) then None
      else Some (place s, fs\<lparr>os_files := AList.update (place s) [] (os_files fs)\<rparr>))"

definition fappend :: "place \<Rightarrow> byte list \<Rightarrow> file_system \<Rightarrow> file_system" where
  "fappend p bs fs = fs\<lparr>os_files := AList.update p ((case map_of (os_files fs) p of None \<Rightarrow> [] | Some d \<Rightarrow> d) @ bs) (os_files fs)\<rparr>"

text \<open>The loop of \<open>write_restore_data\<close> that makes the directories on the way to a file: \<open>q\<close> is where the
  search for the next slash begins. The slash found at index 0 would be compared with the byte before the string.\<close>

function make_dirs :: "byte list \<Rightarrow> nat \<Rightarrow> file_system \<Rightarrow> file_system res" where
  "make_dirs path q fs =
     (if slash \<notin> set (drop q path) then Inr fs
      else let p = q + length (takeWhile (\<lambda>c. c \<noteq> slash) (drop q path)) in
        if p = 0 then Inl OutOfBounds
        else if path ! (p - 1) = slash then make_dirs path (Suc q) fs
        else make_dirs path (Suc p) (if accessible fs (take p path) then fs else mkdir (take p path) fs))"
  by pat_completeness auto
termination
proof (relation "measure (\<lambda>(path, q, fs). length path - q)")
  fix path :: "byte list" and q p :: nat and fs :: file_system
  assume "\<not> slash \<notin> set (drop q path)"
  then have q: "q < length path" by (cases "q < length path") auto
  then show "((path, Suc q, fs), path, q, fs) \<in> measure (\<lambda>(path, q, fs). length path - q)" by simp
  show "((path, Suc p, fs'), path, q, fs) \<in> measure (\<lambda>(path, q, fs). length path - q)"
    if "p = q + length (takeWhile (\<lambda>c. c \<noteq> slash) (drop q path))" for fs'
    using q that by simp
qed simp

declare make_dirs.simps [simp del]

subsection \<open>Paths\<close>

lemma split_path_ne [simp]: "split_path s \<noteq> []"
  by (induction s) (auto split: list.splits)

lemma split_path_slash: "split_path (xs @ slash # ys) = split_path xs @ split_path ys"
  by (induction xs) (auto split: list.splits)

lemma split_path_plain: "slash \<notin> set w \<Longrightarrow> split_path w = [w]"
  by (induction w) auto

lemma components_slash: "components (xs @ slash # ys) = components xs @ components ys"
  by (simp add: components_def split_path_slash)

lemma components_Nil [simp]: "components [] = []"
  by (simp add: components_def)

lemma components_plain: "slash \<notin> set w \<Longrightarrow> components w = (if w = [] \<or> w = [46] then [] else [w])"
  by (simp add: components_def split_path_plain)

lemma place_append: "s \<noteq> [] \<Longrightarrow> last s = slash \<Longrightarrow> place (s @ t) = (fst (place s), snd (place s) @ components t)"
  by (cases s rule: rev_cases) (simp_all add: place_def components_slash, simp add: hd_append)

subsection \<open>Making the directories on the way\<close>

definition on_the_way :: "byte list \<Rightarrow> nat \<Rightarrow> place set" where
  "on_the_way path n = {place (take k path) | k. n \<le> k \<and> k < length path \<and> path ! k = slash}"

lemma reach_dir:
  assumes pre: "pre \<noteq> []" "last pre = slash" "is_dir fs (place pre)" and w: "slash \<notin> set w" "map_of (os_files fs) (place (pre @ w)) = None"
  defines "fs' \<equiv> if accessible fs (pre @ w) then fs else mkdir (pre @ w) fs"
  shows "is_dir fs' (place (pre @ w)) \<and> os_files fs' = os_files fs \<and> set (os_dirs fs) \<subseteq> set (os_dirs fs') \<and>
     set (os_dirs fs') \<subseteq> insert (place (pre @ w)) (set (os_dirs fs))"
proof (cases "accessible fs (pre @ w)")
  case True
  with w(2) show ?thesis by (auto simp: fs'_def accessible_def)
next
  case False
  have e: "place (pre @ w) = (fst (place pre), snd (place pre) @ components w)" by (rule place_append [OF pre(1,2)])
  have "components w = [w]"
  proof (rule ccontr)
    assume "components w \<noteq> [w]"
    then have "components w = []" using w(1) by (auto simp: components_plain split: if_splits)
    then have "place (pre @ w) = place pre" using e by (simp add: place_def)
    with False pre show False by (simp add: accessible_def)
  qed
  then have "above (place (pre @ w)) = place pre" using e by (simp add: above_def)
  with False pre show ?thesis by (auto simp: fs'_def mkdir_def is_dir_def)
qed

lemma is_dir_mono: "is_dir fs p \<Longrightarrow> set (os_dirs fs) \<subseteq> set (os_dirs fs') \<Longrightarrow> is_dir fs' p"
  by (auto simp: is_dir_def)

lemma make_dirs_ok:
  assumes "pre \<noteq> []" "last pre = slash" "is_dir fs (place pre)"
    and "\<forall>p\<in>on_the_way (pre @ rest) (length pre). map_of (os_files fs) p = None"
  shows "\<exists>fs' r w. make_dirs (pre @ rest) (length pre) fs = Inr fs' \<and> rest = r @ w \<and> slash \<notin> set w \<and> (r = [] \<or> last r = slash) \<and>
     is_dir fs' (place (pre @ r)) \<and> os_files fs' = os_files fs \<and> set (os_dirs fs) \<subseteq> set (os_dirs fs') \<and>
     set (os_dirs fs') \<subseteq> set (os_dirs fs) \<union> on_the_way (pre @ rest) (length pre)"
  using assms
proof (induction "length rest" arbitrary: pre rest fs rule: less_induct)
  case less
  show ?case
  proof (cases "slash \<in> set rest")
    case False
    then have "make_dirs (pre @ rest) (length pre) fs = Inr fs" by (subst make_dirs.simps) simp
    with less.prems False show ?thesis by (intro exI [of _ fs] exI [of _ "[]"] exI [of _ rest]) simp
  next
    case True
    then obtain w rest' where r: "rest = w @ slash # rest'" "slash \<notin> set w" by (meson split_list_first)
    have tw: "takeWhile (\<lambda>c. c \<noteq> slash) rest = w" unfolding r(1) using r(2) by (subst takeWhile_append2) auto
    let ?p = "length pre + length w"
    have p0: "?p \<noteq> 0" using less.prems(1) by simp
    have way: "on_the_way (pre @ rest) n \<supseteq> on_the_way (pre @ rest) m" if "n \<le> m" for n m
      using that by (auto simp: on_the_way_def)
    have at: "place (pre @ w) \<in> on_the_way (pre @ rest) (length pre)"
      unfolding on_the_way_def by (rule CollectI, rule exI [of _ ?p]) (simp add: r(1) nth_append)
    show ?thesis
    proof (cases "w = []")
      case w: True
      have "(pre @ rest) ! (length pre - 1) = slash" using less.prems(1,2) by (simp add: nth_append last_conv_nth)
      then have m: "make_dirs (pre @ rest) (length pre) fs = make_dirs (pre @ rest) (Suc (length pre)) fs"
        using True p0 tw w by (subst make_dirs.simps) simp
      have pl: "place (pre @ [slash]) = place pre" using less.prems(1,2) by (simp add: place_append components_slash [of "[]" "[]", simplified] prod_eq_iff)
      have e: "pre @ rest = (pre @ [slash]) @ rest'" using r(1) w by simp
      have "\<exists>fs' r w. make_dirs ((pre @ [slash]) @ rest') (length (pre @ [slash])) fs = Inr fs' \<and> rest' = r @ w \<and> slash \<notin> set w \<and>
        (r = [] \<or> last r = slash) \<and> is_dir fs' (place ((pre @ [slash]) @ r)) \<and> os_files fs' = os_files fs \<and>
        set (os_dirs fs) \<subseteq> set (os_dirs fs') \<and>
        set (os_dirs fs') \<subseteq> set (os_dirs fs) \<union> on_the_way ((pre @ [slash]) @ rest') (length (pre @ [slash]))"
        by (rule less.hyps) (use r(1) w less.prems(3,4) pl way [of "length pre" "Suc (length pre)"] in \<open>auto simp: e\<close>)
      then obtain fs' r2 w2 where "make_dirs (pre @ rest) (Suc (length pre)) fs = Inr fs'" "rest' = r2 @ w2" "slash \<notin> set w2"
        "r2 = [] \<or> last r2 = slash" "is_dir fs' (place (pre @ slash # r2))" "os_files fs' = os_files fs" "set (os_dirs fs) \<subseteq> set (os_dirs fs')"
        "set (os_dirs fs') \<subseteq> set (os_dirs fs) \<union> on_the_way (pre @ rest) (Suc (length pre))" using e by auto
      with m r(1) w way [of "length pre" "Suc (length pre)"] show ?thesis
        by (intro exI [of _ fs'] exI [of _ "slash # r2"] exI [of _ w2]) auto
    next
      case w: False
      have "?p - 1 = length pre + (length w - 1)" using w by (cases w) simp_all
      then have "(pre @ rest) ! (?p - 1) = last w" using w by (simp add: r(1) nth_append last_conv_nth)
      moreover have "last w \<noteq> slash" using w r(2) by (metis last_in_set)
      moreover have "take ?p (pre @ rest) = pre @ w" by (simp add: r(1))
      moreover define fs1 where "fs1 = (if accessible fs (pre @ w) then fs else mkdir (pre @ w) fs)"
      ultimately have m: "make_dirs (pre @ rest) (length pre) fs = make_dirs (pre @ rest) (Suc ?p) fs1"
        using True less.prems(1) tw by (subst make_dirs.simps) (simp add: Let_def)
      have "map_of (os_files fs) (place (pre @ w)) = None" using less.prems(4) at by blast
      from reach_dir [OF less.prems(1-3) r(2) this] have f1: "is_dir fs1 (place (pre @ w))" "os_files fs1 = os_files fs"
        "set (os_dirs fs) \<subseteq> set (os_dirs fs1)" "set (os_dirs fs1) \<subseteq> insert (place (pre @ w)) (set (os_dirs fs))"
        unfolding fs1_def by blast+
      let ?pre = "pre @ w @ [slash]"
      have e: "pre @ rest = ?pre @ rest'" "Suc ?p = length ?pre" by (simp_all add: r(1))
      have "components ?pre = components (pre @ w)" using components_slash [of "pre @ w" "[]"] by simp
      then have pl: "place ?pre = place (pre @ w)" using less.prems(1) by (simp add: place_def)
      have le: "length pre \<le> Suc ?p" by simp
      have "length rest' < length rest" "?pre \<noteq> []" "last ?pre = slash" "is_dir fs1 (place ?pre)"
        using r(1) f1(1) pl by simp_all
      note h = less.hyps [OF this, unfolded e [symmetric] f1(2)]
      have "\<forall>p\<in>on_the_way (pre @ rest) (Suc ?p). map_of (os_files fs) p = None"
        using less.prems(4) way [of "length pre" "Suc ?p"] by (meson le_SucI le_add1 subsetD)
      from h [OF this] obtain fs' r2 w2 where g: "make_dirs (pre @ rest) (Suc ?p) fs1 = Inr fs'" "rest' = r2 @ w2" "slash \<notin> set w2"
        "r2 = [] \<or> last r2 = slash" "is_dir fs' (place (?pre @ r2))" "os_files fs' = os_files fs" "set (os_dirs fs1) \<subseteq> set (os_dirs fs')"
        "set (os_dirs fs') \<subseteq> set (os_dirs fs1) \<union> on_the_way (pre @ rest) (Suc ?p)" by blast
      have "set (os_dirs fs') \<subseteq> set (os_dirs fs) \<union> on_the_way (pre @ rest) (length pre)"
        using g(8) f1(4) at way [of "length pre" "Suc ?p"] le by blast
      with m g f1(3) r(1) show ?thesis
        by (intro exI [of _ fs'] exI [of _ "w @ slash # r2"] exI [of _ w2]) auto
    qed
  qed
qed

subsection \<open>Opening the file\<close>

definition base_name :: "byte list \<Rightarrow> byte list" where
  "base_name n = rev (takeWhile (\<lambda>c. c \<noteq> slash) (rev n))"

lemma base_name_split:
  assumes "slash \<notin> set w" "r = [] \<or> last r = slash"
  shows "base_name (r @ w) = w"
proof -
  have "takeWhile (\<lambda>c. c \<noteq> slash) (rev w @ rev r) = rev w @ takeWhile (\<lambda>c. c \<noteq> slash) (rev r)"
    using assms(1) by (intro takeWhile_append2) auto
  moreover have "takeWhile (\<lambda>c. c \<noteq> slash) (rev r) = []" using assms(2) by (cases r rule: rev_cases) auto
  ultimately show ?thesis by (simp add: base_name_def)
qed

lemma open_reached:
  assumes w: "slash \<notin> set w" "w \<noteq> []" "w \<noteq> [46]" and r: "r \<noteq> []" "last r = slash" "is_dir fs (place r)" and n: "\<not> is_dir fs (place (r @ w))"
  shows "fopen_w (r @ w) fs = Some (place (r @ w), fs\<lparr>os_files := AList.update (place (r @ w)) [] (os_files fs)\<rparr>)"
proof -
  have "above (place (r @ w)) = place r"
    using w by (simp add: place_append [OF r(1,2)] components_plain above_def)
  moreover have "last (r @ w) \<noteq> slash" using w(1,2) by (metis last_appendR last_in_set)
  ultimately show ?thesis using r n by (simp add: fopen_w_def)
qed

text \<open>What restoring a file named \<open>n\<close> under \<open>path\<close> needs: its name is proper, its place is no directory and no
  place on the way to it is a file.\<close>

definition can_create :: "byte list \<Rightarrow> byte list \<Rightarrow> file_system \<Rightarrow> bool" where
  "can_create path n fs \<longleftrightarrow> base_name n \<noteq> [] \<and> base_name n \<noteq> [46] \<and> \<not> is_dir fs (place (path @ n)) \<and>
     place (path @ n) \<notin> on_the_way (path @ n) (length path) \<and>
     (\<forall>p\<in>on_the_way (path @ n) (length path). map_of (os_files fs) p = None)"

lemma create_ok:
  assumes p: "path \<noteq> []" "last path = slash" "is_dir fs (place path)" and c: "can_create path n fs"
  shows "\<exists>fs'. make_dirs (path @ n) (length path) fs = Inr fs' \<and>
     fopen_w (path @ n) fs' = Some (place (path @ n), fs'\<lparr>os_files := AList.update (place (path @ n)) [] (os_files fs)\<rparr>) \<and>
     os_files fs' = os_files fs \<and> set (os_dirs fs) \<subseteq> set (os_dirs fs') \<and>
     set (os_dirs fs') \<subseteq> set (os_dirs fs) \<union> on_the_way (path @ n) (length path)"
proof -
  from c have way: "\<forall>p\<in>on_the_way (path @ n) (length path). map_of (os_files fs) p = None" by (simp add: can_create_def)
  from make_dirs_ok [OF p way] obtain fs' r w where m: "make_dirs (path @ n) (length path) fs = Inr fs'" "n = r @ w" "slash \<notin> set w"
    "r = [] \<or> last r = slash" "is_dir fs' (place (path @ r))" "os_files fs' = os_files fs" "set (os_dirs fs) \<subseteq> set (os_dirs fs')"
    "set (os_dirs fs') \<subseteq> set (os_dirs fs) \<union> on_the_way (path @ n) (length path)" by blast
  have b: "w \<noteq> []" "w \<noteq> [46]" using c base_name_split [OF m(3,4)] by (simp_all add: can_create_def m(2))
  have "\<not> is_dir fs' (place ((path @ r) @ w))"
    using c m(2,8) by (auto simp: can_create_def is_dir_def)
  have l: "path @ r \<noteq> []" "last (path @ r) = slash" using p(1,2) m(4) by (cases "r = []"; simp)+
  from open_reached [OF m(3) b l m(5) \<open>\<not> is_dir fs' (place ((path @ r) @ w))\<close>] have
    "fopen_w ((path @ r) @ w) fs' = Some (place ((path @ r) @ w), fs'\<lparr>os_files := AList.update (place ((path @ r) @ w)) [] (os_files fs')\<rparr>)" .
  with m show ?thesis by (intro exI [of _ fs']) simp
qed

end
