(* ===== verification/Restore_Jobs.thy ===== *)
theory Restore_Jobs
  imports Optimal_Laws File_System
begin

text \<open>
  The restore job as a whole: reading the recipe of a version, the cache, and writing the files. What \<open>write_restore_data\<close>
  needs of the operating system is a small model of a file system: a directory can be made, and a file
  opened for writing, where the directory above it exists.
\<close>

subsection \<open>The messages of a recipe\<close>

definition at_pointers :: "bool \<Rightarrow> backupVersion \<Rightarrow> int \<Rightarrow> chunkPointer list \<Rightarrow> bool" where
  "at_pointers be b k cps \<longleftrightarrow> (\<exists>items. srest (recipe_fp b) = concat (map (enc_cp be) items) \<and> swf (recipe_fp b) \<and> list_all cp_ok items \<and>
     filter (\<lambda>cp. \<not> is_flag cp) items = cps) \<and> k + int (length cps) = bv_number_of_chunks b"

fun recipe_messages :: "fileRecipeMeta list \<Rightarrow> chunkPointer list \<Rightarrow> chunk list" where
  "recipe_messages [] cps = []"
| "recipe_messages (r # rs) cps =
     start_message r # map chunk_message (take (nat (fr_chunknum r)) cps) @ end_message # recipe_messages rs (drop (nat (fr_chunknum r)) cps)"

lemma read_one_pointer:
  assumes "at_pointers be b k (cp # cps)"
  shows "\<exists>s. read_next_n_chunk_pointers be junk b 1 k = Some (Some [cp], b\<lparr>recipe_fp := s\<rparr>, k + 1) \<and>
     at_pointers be (b\<lparr>recipe_fp := s\<rparr>) (k + 1) cps"
proof -
  from assms obtain items where i: "srest (recipe_fp b) = concat (map (enc_cp be) items) @ []" "swf (recipe_fp b)" "list_all cp_ok items"
    "filter (\<lambda>cp. \<not> is_flag cp) items = cp # cps" and k: "k + int (length (cp # cps)) = bv_number_of_chunks b"
    unfolding at_pointers_def by auto
  have "1 \<le> length (filter (\<lambda>cp. \<not> is_flag cp) items)" by (simp add: i(4))
  from read_pointers_rest [OF i(1-3) this, of junk "[]"] i(4) obtain s rest where
    s: "read_pointers be junk [] 1 (recipe_fp b) = Some ([cp], s)" "swf s" "srest s = concat (map (enc_cp be) rest)"
      "filter (\<lambda>cp. \<not> is_flag cp) rest = cps" "list_all cp_ok rest" by auto
  have num: "nat (if bv_number_of_chunks b - k > 1 then 1 else bv_number_of_chunks b - k) = 1"
    "(if bv_number_of_chunks b - k > 1 then 1 else bv_number_of_chunks b - k) = 1" "k \<noteq> bv_number_of_chunks b" using k by auto
  have "read_next_n_chunk_pointers be junk b 1 k = Some (Some [cp], b\<lparr>recipe_fp := s\<rparr>, k + 1)"
    unfolding read_next_n_chunk_pointers_def Let_def num(2) using num(3) s(1) by simp
  with s k show ?thesis by (auto simp: at_pointers_def)
qed

lemma read_chunk_messages:
  assumes "at_pointers be b k cps" and "n \<le> length cps"
  shows "\<exists>s. recipe_chunks be junk n (b, k) = Some (Inr (map chunk_message (take n cps), b\<lparr>recipe_fp := s\<rparr>, k + int n)) \<and>
     at_pointers be (b\<lparr>recipe_fp := s\<rparr>) (k + int n) (drop n cps)"
  using assms
proof (induction n arbitrary: b k cps)
  case 0
  then show ?case by (intro exI [of _ "recipe_fp b"]) simp
next
  case (Suc n)
  then obtain cp cps' where cps: "cps = cp # cps'" by (cases cps) simp_all
  from read_one_pointer [OF Suc.prems(1) [unfolded cps], of junk] obtain s where
    s: "read_next_n_chunk_pointers be junk b 1 k = Some (Some [cp], b\<lparr>recipe_fp := s\<rparr>, k + 1)"
      "at_pointers be (b\<lparr>recipe_fp := s\<rparr>) (k + 1) cps'" by blast
  from Suc.IH [OF s(2)] Suc.prems(2) cps obtain s' where
    "recipe_chunks be junk n (b\<lparr>recipe_fp := s\<rparr>, k + 1) =
       Some (Inr (map chunk_message (take n cps'), b\<lparr>recipe_fp := s, recipe_fp := s'\<rparr>, k + 1 + int n))"
    "at_pointers be (b\<lparr>recipe_fp := s, recipe_fp := s'\<rparr>) (k + 1 + int n) (drop n cps')" by auto
  then show ?case using s(1) cps by (intro exI [of _ s']) (simp add: add.assoc)
qed

lemma at_pointers_meta: "at_pointers be (b\<lparr>metadata_fp := s\<rparr>) k cps = at_pointers be b k cps"
  by (simp add: at_pointers_def)

lemma read_meta_frame:
  assumes "read_next_file_recipe_meta be junk k b = Inr (r, b', k')"
  shows "\<exists>s. b' = b\<lparr>metadata_fp := s\<rparr>"
  using assms by (auto simp: read_next_file_recipe_meta_def rbind_Inr_iff Let_def case_prod_unfold split: if_splits option.splits)

lemma read_messages:
  assumes "srest (metadata_fp b) = concat (map (enc_meta be) rs)" "swf (metadata_fp b)" "list_all fr_ok rs"
    and "i + int (length rs) \<le> bv_number_of_files b" "at_pointers be b k cps" "(\<Sum>r\<leftarrow>rs. nat (fr_chunknum r)) \<le> length cps"
  shows "recipe_file_msgs be junk junkp (length rs) i (b, k) = Some (Inr (recipe_messages rs cps))"
  using assms
proof (induction rs arbitrary: b i k cps)
  case (Cons r rs)
  then have r: "in32 (int (length (fr_filename r)))" "0 \<notin> set (fr_filename r)" "in64 (fr_chunknum r)" "in64 (fr_filesize r)"
    by (auto simp: fr_ok_def in32_def metabufsize_def)
  have h: "srest (metadata_fp b) = enc_meta be r @ concat (map (enc_meta be) rs)" "i \<le> bv_number_of_files b"
    using Cons.prems(1,4) by simp_all
  from read_next_meta_ok [OF h(1) Cons.prems(2) h(2) r, of junk] obtain b1 where
    b1: "read_next_file_recipe_meta be junk i b = Inr (r, b1, i + 1)" "srest (metadata_fp b1) = concat (map (enc_meta be) rs)"
      "swf (metadata_fp b1)" "bv_number_of_files b1 = bv_number_of_files b" by blast
  have "at_pointers be b1 k cps" using read_meta_frame [OF b1(1)] Cons.prems(5) by (auto simp: at_pointers_meta)
  moreover have "nat (fr_chunknum r) \<le> length cps" using Cons.prems(6) by simp
  ultimately obtain s where s: "recipe_chunks be junkp (nat (fr_chunknum r)) (b1, k) =
      Some (Inr (map chunk_message (take (nat (fr_chunknum r)) cps), b1\<lparr>recipe_fp := s\<rparr>, k + int (nat (fr_chunknum r))))"
    "at_pointers be (b1\<lparr>recipe_fp := s\<rparr>) (k + int (nat (fr_chunknum r))) (drop (nat (fr_chunknum r)) cps)"
    using read_chunk_messages by blast
  have "recipe_file_msgs be junk junkp (length rs) (i + 1) (b1\<lparr>recipe_fp := s\<rparr>, k + int (nat (fr_chunknum r))) =
      Some (Inr (recipe_messages rs (drop (nat (fr_chunknum r)) cps)))"
    by (rule Cons.IH [OF _ _ _ _ s(2)]) (use b1 Cons.prems(3,4,6) in simp_all)
  with b1(1) s(1) show ?case by simp
qed simp

subsection \<open>Writing the files\<close>

record writer =
  wr_fs :: file_system
  wr_fp :: "place option"
  wr_file_num :: int

definition write_message :: "restore_cfg \<Rightarrow> byte list \<Rightarrow> chunk \<Rightarrow> writer \<Rightarrow> writer res" where
  "write_message cfg path c s =
     (if CHECK_CHUNK c CHUNK_FILE_START then
        let filepath = path @ takeWhile (\<lambda>b. b \<noteq> 0) (ck_data c) in
        rbind (make_dirs filepath (length path) (wr_fs s)) (\<lambda>fs.
        if rs_sim cfg = SIMULATION_NO then
          rbind (c_assert (wr_fp s = None)) (\<lambda>_.
          case fopen_w filepath fs of
            None \<Rightarrow> Inr (s\<lparr>wr_fs := fs, wr_fp := None\<rparr>)
          | Some (p, fs) \<Rightarrow> Inr (s\<lparr>wr_fs := fs, wr_fp := Some p\<rparr>))
        else Inr (s\<lparr>wr_fs := fs\<rparr>))
      else if CHECK_CHUNK c CHUNK_FILE_END then Inr (s\<lparr>wr_file_num := wr_file_num s + 1, wr_fp := None\<rparr>)
      else
        rbind (c_assert (rs_sim cfg = SIMULATION_NO)) (\<lambda>_.
        rbind (data_of c) (\<lambda>bs.
        case wr_fp s of None \<Rightarrow> Inl NullDeref | Some p \<Rightarrow> Inr (s\<lparr>wr_fs := fappend p bs (wr_fs s)\<rparr>))))"

definition write_restore_data :: "restore_cfg \<Rightarrow> byte list \<Rightarrow> chunk list \<Rightarrow> file_system \<Rightarrow> writer res" where
  "write_restore_data cfg path cs fs =
     (if path = [] then Inl OutOfBounds
      else rbind (make_dirs path 1 fs) (\<lambda>fs.
        rfold (write_message cfg path) cs \<lparr>wr_fs = fs, wr_fp = None, wr_file_num = 0\<rparr>))"

subsection \<open>The job\<close>

definition init_path :: "file_system \<Rightarrow> byte list \<Rightarrow> byte list res" where   \<comment> \<open>of \<open>init_jcr\<close>\<close>
  "init_path fs path =
     (if \<not> accessible fs path then Inl ExitFailure
      else Inr (if is_dir fs (place path) \<and> last path \<noteq> slash then path @ [slash] else path))"

definition init_restore_jcr :: "bool \<Rightarrow> int \<Rightarrow> recipe_dir \<Rightarrow> file_system \<Rightarrow> int \<Rightarrow> byte list \<Rightarrow> (byte list \<times> backupVersion) res" where
  "init_restore_jcr be junk dir fs revision path =
     rbind (init_path fs path) (\<lambda>path.
     rbind (open_backup_version be junk dir revision) (\<lambda>bv.
     if bv_deleted bv = 1 then Inl ExitFailure else Inr (path, bv)))"

definition RESTORE_CACHE_LRU :: int where [cfg_simps]: "RESTORE_CACHE_LRU = 0"
definition RESTORE_CACHE_OPT :: int where [cfg_simps]: "RESTORE_CACHE_OPT = 1"
definition RESTORE_CACHE_ASM :: int where [cfg_simps]: "RESTORE_CACHE_ASM = 2"

definition restore_thread :: "restore_cfg \<Rightarrow> int \<Rightarrow> int \<Rightarrow> backupVersion \<Rightarrow> chunk list \<Rightarrow> (chunk list \<times> restore_jcr) res option" where
  "restore_thread cfg kind junk bv cs =
     (if kind = RESTORE_CACHE_LRU then Some (lru_restore_thread cfg cs)
      else if kind = RESTORE_CACHE_OPT then Some (optimal_restore_thread cfg junk bv cs)
      else if kind = RESTORE_CACHE_ASM then assembly_restore_thread cfg (Suc (length cs)) cs
      else Some (Inl ExitFailure))"

text \<open>The queues between the threads deliver in order (\<open>Sync_Queue\<close>), so each thread works on the sequence the one
  before it pushes.\<close>

definition do_restore :: "restore_cfg \<Rightarrow> int \<Rightarrow> int \<Rightarrow> chunkPointer \<Rightarrow> recipe_dir \<Rightarrow> int \<Rightarrow> byte list \<Rightarrow> file_system \<Rightarrow>
    (writer \<times> restore_jcr) res option" where
  "do_restore cfg kind junk junkp dir revision path fs =
     (case init_restore_jcr (rs_be cfg) junk dir fs revision path of
        Inl e \<Rightarrow> Some (Inl e)
      | Inr (path, bv) \<Rightarrow>
          (case read_recipe_thread (rs_be cfg) junk junkp bv of
             None \<Rightarrow> None
           | Some (Inl e) \<Rightarrow> Some (Inl e)
           | Some (Inr msgs) \<Rightarrow>
               (case restore_thread cfg kind junk bv msgs of
                  None \<Rightarrow> None
                | Some (Inl e) \<Rightarrow> Some (Inl e)
                | Some (Inr (out, j)) \<Rightarrow>
                    Some (rbind (write_restore_data cfg path out fs) (\<lambda>w. Inr (w, j))))))"

subsection \<open>What is written\<close>

text \<open>The restored chunks file by file.\<close>

definition file_block :: "fileRecipeMeta \<Rightarrow> chunk list \<Rightarrow> chunk list" where
  "file_block r ds = start_message r # ds @ [end_message]"

lemma message_marks [simp]:
  "is_file_mark (start_message r)" "CHECK_CHUNK (start_message r) CHUNK_FILE_START" "\<not> is_file_mark (chunk_message cp)"
  "is_file_mark end_message" "\<not> CHECK_CHUNK end_message CHUNK_FILE_START" "CHECK_CHUNK end_message CHUNK_FILE_END"
  "ck_data (start_message r) = fr_filename r @ [0]" "ck_id (chunk_message cp) = cp_id cp" "ck_fp (chunk_message cp) = cp_fp cp"
  "ck_size (chunk_message cp) = cp_size cp" "ck_data (chunk_message cp) = []"
  by (auto simp: start_message_def chunk_message_def end_message_def is_file_mark_def CHECK_CHUNK_def new_chunk_def cfg_simps SET_CHUNK_def)

lemma restores_mark: "is_file_mark c \<Longrightarrow> restores D c rc \<longleftrightarrow> rc = c"
  by (auto simp: restores_def)

definition data_restored :: "(fingerprint \<Rightarrow> byte list) \<Rightarrow> chunkPointer list \<Rightarrow> chunk list \<Rightarrow> bool" where
  "data_restored D cps ds \<longleftrightarrow> list_all2 (restores D) (map chunk_message cps) ds"

fun pieces :: "fileRecipeMeta list \<Rightarrow> chunkPointer list \<Rightarrow> chunkPointer list list" where
  "pieces [] cps = []"
| "pieces (r # rs) cps = take (nat (fr_chunknum r)) cps # pieces rs (drop (nat (fr_chunknum r)) cps)"

lemma restored_blocks:
  assumes "list_all2 (restores D) (recipe_messages rs cps) out"
  shows "\<exists>dss. out = concat (map2 file_block rs dss) \<and> length dss = length rs \<and> list_all2 (data_restored D) (pieces rs cps) dss"
  using assms
proof (induction rs arbitrary: cps out)
  case (Cons r rs)
  let ?n = "nat (fr_chunknum r)"
  from Cons.prems obtain ds out' where o: "out = file_block r ds @ out'" "data_restored D (take ?n cps) ds"
    "list_all2 (restores D) (recipe_messages rs (drop ?n cps)) out'"
    by (auto simp: list_all2_Cons1 list_all2_append1 restores_mark file_block_def data_restored_def)
  from Cons.IH [OF o(3)] obtain dss where "out' = concat (map2 file_block rs dss)" "length dss = length rs"
    "list_all2 (data_restored D) (pieces rs (drop ?n cps)) dss" by blast
  with o(1,2) show ?case by (intro exI [of _ "ds # dss"]) simp
qed simp

lemma data_restored_chunks:
  assumes "data_restored D cps ds"
  shows "\<forall>c\<in>set ds. \<not> is_file_mark c \<and> data_of c = Inr (ck_data c)" "concat (map ck_data ds) = concat (map (\<lambda>cp. D (cp_fp cp)) cps)"
proof -
  have "list_all2 (\<lambda>cp c. \<not> is_file_mark c \<and> ck_data c = D (cp_fp cp) \<and> ck_size c = int (length (D (cp_fp cp)))) cps ds"
    using assms by (auto simp: data_restored_def list_all2_map1 restores_def elim: list_all2_mono)
  then show "\<forall>c\<in>set ds. \<not> is_file_mark c \<and> data_of c = Inr (ck_data c)" "concat (map ck_data ds) = concat (map (\<lambda>cp. D (cp_fp cp)) cps)"
    by (induction rule: list_all2_induct) (simp_all add: data_of_def peek_def)
qed

lemma write_data:
  assumes sim: "rs_sim cfg = SIMULATION_NO" and "\<forall>c\<in>set ds. \<not> is_file_mark c \<and> data_of c = Inr (ck_data c)" and "map_of (os_files (wr_fs s)) p = Some d"
    and "wr_fp s = Some p"
  shows "\<exists>fs. rfold (write_message cfg path) ds s = Inr (s\<lparr>wr_fs := fs\<rparr>) \<and> os_dirs fs = os_dirs (wr_fs s) \<and>
     map_of (os_files fs) = (map_of (os_files (wr_fs s)))(p \<mapsto> d @ concat (map ck_data ds))"
  using assms(2-4)
proof (induction ds arbitrary: s d)
  case Nil
  then show ?case by (intro exI [of _ "wr_fs s"]) (simp add: map_upd_triv)
next
  case (Cons c ds)
  let ?s = "s\<lparr>wr_fs := fappend p (ck_data c) (wr_fs s)\<rparr>"
  have 1: "write_message cfg path c s = Inr ?s"
    using Cons.prems sim by (simp add: write_message_def is_file_mark_def)
  have f: "map_of (os_files (wr_fs ?s)) = (map_of (os_files (wr_fs s)))(p \<mapsto> d @ ck_data c)" "os_dirs (wr_fs ?s) = os_dirs (wr_fs s)"
    using Cons.prems by (simp_all add: fappend_def update_conv')
  have "map_of (os_files (wr_fs ?s)) p = Some (d @ ck_data c)" "wr_fp ?s = Some p" unfolding f(1) using Cons.prems(3) by simp_all
  from Cons.IH [OF _ this] Cons.prems(1) obtain fs where fs: "rfold (write_message cfg path) ds ?s = Inr (?s\<lparr>wr_fs := fs\<rparr>)"
    "os_dirs fs = os_dirs (wr_fs ?s)" "map_of (os_files fs) = (map_of (os_files (wr_fs ?s)))(p \<mapsto> (d @ ck_data c) @ concat (map ck_data ds))"
    by (meson list.set_intros(2))
  have "map_of (os_files fs) = (map_of (os_files (wr_fs s)))(p \<mapsto> d @ concat (map ck_data (c # ds)))" using fs(3) unfolding f(1) by simp
  with 1 fs(1,2) f(2) show ?case by (intro exI [of _ fs]) simp
qed

lemma write_block:
  assumes sim: "rs_sim cfg = SIMULATION_NO" and p: "path \<noteq> []" "last path = slash" "is_dir (wr_fs s) (place path)"
    and n: "0 \<notin> set (fr_filename r)" "can_create path (fr_filename r) (wr_fs s)" and ds: "\<forall>c\<in>set ds. \<not> is_file_mark c \<and> data_of c = Inr (ck_data c)"
    and fp: "wr_fp s = None"
  shows "\<exists>fs. rfold (write_message cfg path) (file_block r ds) s = Inr (s\<lparr>wr_fs := fs, wr_file_num := wr_file_num s + 1\<rparr>) \<and>
     set (os_dirs (wr_fs s)) \<subseteq> set (os_dirs fs) \<and> set (os_dirs fs) \<subseteq> set (os_dirs (wr_fs s)) \<union> on_the_way (path @ fr_filename r) (length path) \<and>
     map_of (os_files fs) = (map_of (os_files (wr_fs s)))(place (path @ fr_filename r) \<mapsto> concat (map ck_data ds))"
proof -
  let ?n = "fr_filename r" and ?p = "place (path @ fr_filename r)"
  from create_ok [OF p n(2)] obtain fs1 where c: "make_dirs (path @ ?n) (length path) (wr_fs s) = Inr fs1"
    "fopen_w (path @ ?n) fs1 = Some (?p, fs1\<lparr>os_files := AList.update ?p [] (os_files (wr_fs s))\<rparr>)"
    "set (os_dirs (wr_fs s)) \<subseteq> set (os_dirs fs1)" "set (os_dirs fs1) \<subseteq> set (os_dirs (wr_fs s)) \<union> on_the_way (path @ ?n) (length path)" by blast
  let ?s = "s\<lparr>wr_fs := fs1\<lparr>os_files := AList.update ?p [] (os_files (wr_fs s))\<rparr>, wr_fp := Some ?p\<rparr>"
  have "takeWhile (\<lambda>b. b \<noteq> 0) (?n @ [0]) = ?n" using n(1) by (subst takeWhile_append2) auto
  then have 1: "write_message cfg path (start_message r) s = Inr ?s"
    using c(1,2) fp sim by (simp add: write_message_def Let_def)
  from write_data [OF sim ds, of ?s ?p "[]" path] obtain fs where d: "rfold (write_message cfg path) ds ?s = Inr (?s\<lparr>wr_fs := fs\<rparr>)"
    "os_dirs fs = os_dirs fs1" "map_of (os_files fs) = (map_of (os_files (wr_fs s)))(?p \<mapsto> concat (map ck_data ds))"
    by (auto simp: update_conv')
  have "write_message cfg path end_message (?s\<lparr>wr_fs := fs\<rparr>) = Inr (s\<lparr>wr_fs := fs, wr_file_num := wr_file_num s + 1\<rparr>)"
    using fp by (cases s) (simp add: write_message_def)
  with 1 d c(3,4) show ?thesis by (intro exI [of _ fs]) (simp add: file_block_def rfold_append)
qed

definition target :: "byte list \<Rightarrow> byte list \<Rightarrow> place" where
  "target path n = place (path @ n)"

text \<open>The files with the names \<open>ns\<close> can all be created under \<open>path\<close>: their places differ, and none lies on the way to another.\<close>

definition tree_ok :: "byte list \<Rightarrow> byte list list \<Rightarrow> file_system \<Rightarrow> bool" where
  "tree_ok path ns fs \<longleftrightarrow> path \<noteq> [] \<and> last path = slash \<and> is_dir fs (place path) \<and> distinct (map (target path) ns) \<and>
     (\<forall>n\<in>set ns. can_create path n fs \<and> (\<forall>m\<in>set ns. target path n \<notin> on_the_way (path @ m) (length path)))"

lemma tree_ok_step:
  assumes t: "tree_ok path (n # ns) fs" and d: "set (os_dirs fs) \<subseteq> set (os_dirs fs')" "set (os_dirs fs') \<subseteq> set (os_dirs fs) \<union> on_the_way (path @ n) (length path)"
    and f: "map_of (os_files fs') = (map_of (os_files fs))(target path n \<mapsto> x)"
  shows "tree_ok path ns fs'"
proof -
  have "can_create path (q) fs'" if q: "q \<in> set ns" for q
  proof -
    from t q have c: "can_create path (q) fs" and nq: "target path q \<notin> on_the_way (path @ n) (length path)"
      "target path n \<notin> on_the_way (path @ q) (length path)" by (simp_all add: tree_ok_def)
    have "\<not> is_dir fs' (place (path @ q))" using c nq(1) d(2) by (auto simp: can_create_def is_dir_def target_def)
    moreover have "map_of (os_files fs') p = None" if "p \<in> on_the_way (path @ q) (length path)" for p
      unfolding f using c nq(2) that by (auto simp: can_create_def)
    ultimately show ?thesis using c by (simp add: can_create_def)
  qed
  with t is_dir_mono [OF _ d(1)] show ?thesis by (simp add: tree_ok_def)
qed

lemma write_blocks:
  assumes sim: "rs_sim cfg = SIMULATION_NO" and "tree_ok path (map fr_filename rs) (wr_fs s)" "wr_fp s = None" "\<forall>r\<in>set rs. 0 \<notin> set (fr_filename r)"
    and "list_all2 (\<lambda>r ds. \<forall>c\<in>set ds. \<not> is_file_mark c \<and> data_of c = Inr (ck_data c)) rs dss"
  shows "\<exists>fs. rfold (write_message cfg path) (concat (map2 file_block rs dss)) s =
       Inr (s\<lparr>wr_fs := fs, wr_file_num := wr_file_num s + int (length rs)\<rparr>) \<and>
     map_of (os_files fs) = map_of (os_files (wr_fs s)) ++ map_of (map2 (\<lambda>r ds. (target path (fr_filename r), concat (map ck_data ds))) rs dss)"
  using assms(5,2-4)
proof (induction arbitrary: s rule: list_all2_induct)
  case Nil
  show ?case by (intro exI [of _ "wr_fs s"]) simp
next
  case (Cons r rs ds dss)
  let ?p = "target path (fr_filename r)"
  from Cons.prems(1) have p: "path \<noteq> []" "last path = slash" "is_dir (wr_fs s) (place path)" "can_create path (fr_filename r) (wr_fs s)"
    by (simp_all add: tree_ok_def)
  have "0 \<notin> set (fr_filename r)" using Cons.prems(3) by simp
  from write_block [OF sim p(1-3) this p(4) Cons.hyps(1) Cons.prems(2)] obtain fs1 where
    1: "rfold (write_message cfg path) (file_block r ds) s = Inr (s\<lparr>wr_fs := fs1, wr_file_num := wr_file_num s + 1\<rparr>)"
      "set (os_dirs (wr_fs s)) \<subseteq> set (os_dirs fs1)" "set (os_dirs fs1) \<subseteq> set (os_dirs (wr_fs s)) \<union> on_the_way (path @ fr_filename r) (length path)"
      "map_of (os_files fs1) = (map_of (os_files (wr_fs s)))(?p \<mapsto> concat (map ck_data ds))" by (auto simp: target_def)
  let ?s = "s\<lparr>wr_fs := fs1, wr_file_num := wr_file_num s + 1\<rparr>"
  have "tree_ok path (map fr_filename rs) (wr_fs ?s)" "wr_fp ?s = None" "\<forall>r\<in>set rs. 0 \<notin> set (fr_filename r)"
    using tree_ok_step [OF Cons.prems(1) [simplified] 1(2-4)] Cons.prems(2,3) by simp_all
  from Cons.IH [OF this] obtain fs where fs: "rfold (write_message cfg path) (concat (map2 file_block rs dss)) ?s =
      Inr (s\<lparr>wr_fs := fs, wr_file_num := wr_file_num s + 1 + int (length rs)\<rparr>)"
    "map_of (os_files fs) = map_of (os_files fs1) ++ map_of (map2 (\<lambda>r ds. (target path (fr_filename r), concat (map ck_data ds))) rs dss)" by auto
  have nd: "?p \<notin> dom (map_of (map2 (\<lambda>r ds. (target path (fr_filename r), concat (map ck_data ds))) rs dss))"
    using Cons.prems(1) by (auto simp: tree_ok_def dom_map_of_conv_image_fst dest: set_zip_leftD)
  with fs(2) have "map_of (os_files fs) = map_of (os_files (wr_fs s)) ++ map_of (map2 (\<lambda>r ds. (target path (fr_filename r), concat (map ck_data ds))) (r # rs) (ds # dss))"
    unfolding 1(4) map_add_upd_left [OF nd] by (simp only: zip_Cons_Cons list.map prod.case map_of.simps fst_conv snd_conv map_add_upd)
  moreover have "rfold (write_message cfg path) (concat (map2 file_block (r # rs) (ds # dss))) s =
      Inr (s\<lparr>wr_fs := fs, wr_file_num := wr_file_num s + int (length (r # rs))\<rparr>)"
    using 1(1) fs(1) by (simp add: rfold_append add.assoc)
  ultimately show ?case by blast
qed

text \<open>A directory's parents are directories; so making the directories on an existing path changes nothing.\<close>

definition well_rooted :: "file_system \<Rightarrow> bool" where
  "well_rooted fs \<longleftrightarrow> (\<forall>p\<in>set (os_dirs fs). is_dir fs (above p))"

lemma prefix_dir: "well_rooted fs \<Longrightarrow> is_dir fs (b, xs @ ys) \<Longrightarrow> is_dir fs (b, xs)"
proof (induction ys rule: rev_induct)
  case (snoc y ys)
  from snoc.prems(2) have "(b, xs @ ys @ [y]) \<in> set (os_dirs fs)" by (simp add: is_dir_def)
  with snoc.prems(1) have "is_dir fs (above (b, xs @ ys @ [y]))" by (simp add: well_rooted_def)
  then have "is_dir fs (b, xs @ ys)" by (simp add: above_def butlast_append)
  with snoc.IH snoc.prems(1) show ?case by blast
qed simp

lemma existing_prefix:
  assumes "well_rooted fs" "is_dir fs (place path)" "0 < k" "k < length path" "path ! k = slash"
  shows "accessible fs (take k path)"
proof -
  have e: "path = take k path @ slash # drop (Suc k) path" using assms(4,5) by (metis id_take_nth_drop)
  have "components path = components (take k path) @ components (drop (Suc k) path)" by (subst e, rule components_slash)
  moreover have "take k path \<noteq> []" "hd (take k path) = hd path" using assms(3,4) by (cases path; simp)+
  ultimately have "place path = (fst (place (take k path)), snd (place (take k path)) @ components (drop (Suc k) path))"
    using assms(4) by (auto simp: place_def)
  with prefix_dir [OF assms(1)] assms(2) have "is_dir fs (place (take k path))" by (metis prod.collapse)
  with \<open>take k path \<noteq> []\<close> show ?thesis by (simp add: accessible_def)
qed

lemma make_dirs_existing:
  assumes "well_rooted fs" "is_dir fs (place path)" "0 < q"
  shows "make_dirs path q fs = Inr fs"
  using assms(3)
proof (induction "length path - q" arbitrary: q rule: less_induct)
  case less
  show ?case
  proof (cases "slash \<in> set (drop q path)")
    case False
    then show ?thesis by (subst make_dirs.simps) simp
  next
    case True
    let ?t = "takeWhile (\<lambda>c. c \<noteq> slash) (drop q path)" and ?r = "dropWhile (\<lambda>c. c \<noteq> slash) (drop q path)"
    have "?r \<noteq> []" using True by (auto simp: dropWhile_eq_Nil_conv)
    moreover have "length (drop q path) = length ?t + length ?r" by (metis length_append takeWhile_dropWhile_id)
    ultimately have l: "length ?t < length (drop q path)" by simp
    then have "drop q path ! length ?t = slash" using nth_length_takeWhile [OF l] by simp
    then have p: "path ! (q + length ?t) = slash" "q + length ?t < length path" using l by simp_all
    then have a: "accessible fs (take (q + length ?t) path)" using existing_prefix [OF assms(1,2)] less.prems by simp
    have "make_dirs path (Suc q) fs = Inr fs" "make_dirs path (Suc (q + length ?t)) fs = Inr fs"
      by (rule less.hyps; use p(2) in simp)+
    with True a less.prems show ?thesis by (subst make_dirs.simps) (simp add: Let_def)
  qed
qed

subsection \<open>The whole job\<close>

lemma recipe_message_cases: "c \<in> set (recipe_messages rs cps) \<Longrightarrow> is_file_mark c \<or> (\<exists>cp\<in>set cps. c = chunk_message cp)"
proof (induction rs arbitrary: cps)
  case (Cons r rs)
  then show ?case by (fastforce dest: in_set_takeD in_set_dropD)
qed simp

lemma recipe_message_data:
  "(\<Sum>r\<leftarrow>rs. nat (fr_chunknum r)) = length cps \<Longrightarrow> data_chunks (recipe_messages rs cps) = map chunk_message cps"
proof (induction rs arbitrary: cps)
  case (Cons r rs)
  let ?n = "nat (fr_chunknum r)"
  have "data_chunks (recipe_messages rs (drop ?n cps)) = map chunk_message (drop ?n cps)" using Cons by (intro Cons.IH) simp
  moreover have "data_chunks (xs @ ys) = data_chunks xs @ data_chunks ys" for xs ys by (simp add: data_chunks_def)
  moreover have "data_chunks (map chunk_message xs) = map chunk_message xs" for xs by (induction xs) simp_all
  ultimately show ?case by (simp flip: map_append)
qed simp

lemma restore_thread_ok:
  assumes o: "optimal_ready cfg" and kind: "kind \<in> {RESTORE_CACHE_LRU, RESTORE_CACHE_OPT, RESTORE_CACHE_ASM}"
    and c: "\<forall>c\<in>set cs. expected cfg D c \<and> expected_id c"
    and bv: "srest (record_fp bv) = concat (map (enc_id (rs_be cfg)) (access_records cs))" "swf (record_fp bv)"
  shows "\<exists>out j. restore_thread cfg kind junk bv cs = Some (Inr (out, j)) \<and> list_all2 (restores D) cs out \<and> counted cs j"
proof -
  have sim: "rs_sim cfg = SIMULATION_NO" using o by (simp add: optimal_ready_def)
  have r: "\<forall>c\<in>set cs. readable cfg D c" "\<forall>c\<in>set cs. readable cfg D c \<and> expected_id c" "\<forall>c\<in>set cs. expected cfg D c"
    using c by (simp_all add: expected_def)
  have "\<exists>out j. lru_restore_thread cfg cs = Inr (out, j) \<and> list_all2 (restores D) cs out \<and> counted cs j"
    by (rule lru_thread_ok [OF r(1)]) (simp add: sim cfg_simps)
  with kind optimal_thread_ok [OF o r(2) bv, of junk] assembly_thread_ok [OF r(3) sim, of "Suc (length cs)"] show ?thesis
    by (auto simp: restore_thread_def cfg_simps)
qed

text \<open>What the job relies on in a restore cache: it delivers the chunks of the messages it gets, in their order.\<close>

locale restore_cache =
  fixes cfg :: restore_cfg
    and D :: "fingerprint \<Rightarrow> byte list"
    and cache :: "backupVersion \<Rightarrow> chunk list \<Rightarrow> (chunk list \<times> restore_jcr) res option"
  assumes delivers: "\<forall>c\<in>set cs. expected cfg D c \<and> expected_id c \<Longrightarrow>
    srest (record_fp bv) = concat (map (enc_id (rs_be cfg)) (access_records cs)) \<Longrightarrow> swf (record_fp bv) \<Longrightarrow>
    \<exists>out j. cache bv cs = Some (Inr (out, j)) \<and> list_all2 (restores D) cs out \<and> counted cs j"

context restore_cache
begin

lemma recipe_delivered:
  assumes total: "(\<Sum>r\<leftarrow>rs. nat (fr_chunknum r)) = length cps"
    and cps: "\<forall>cp\<in>set cps. readable cfg D (chunk_message cp) \<and> cp_size cp = int (length (D (cp_fp cp))) \<and> seg_cp_ok cp"
    and rec: "srest (record_fp bv) = concat (map (enc_id (rs_be cfg)) (remdups_adj (map cp_id cps) @ [TEMPORARY_ID]))" "swf (record_fp bv)"
  shows "\<exists>dss j. cache bv (recipe_messages rs cps) = Some (Inr (concat (map2 file_block rs dss), j)) \<and> length dss = length rs \<and>
    list_all2 (data_restored D) (pieces rs cps) dss \<and> rj_chunk_num j = int (length cps) \<and> rj_data_size j = sum_list (map cp_size cps)"
proof -
  let ?ms = "recipe_messages rs cps"
  note dc = recipe_message_data [OF total]
  have "expected cfg D m \<and> expected_id m" if "m \<in> set ?ms" for m
  proof (cases "is_file_mark m")
    case True
    then show ?thesis by (simp add: expected_def expected_id_def readable_def)
  next
    case False
    with recipe_message_cases [OF that] obtain cp where cp: "cp \<in> set cps" "m = chunk_message cp" by blast
    have "\<not> CHECK_CHUNK (chunk_message cp) CHUNK_READY" by (simp add: chunk_message_def CHECK_CHUNK_def new_chunk_def CHUNK_UNIQUE_def)
    moreover have "readable cfg D (chunk_message cp) \<and> cp_size cp = int (length (D (cp_fp cp))) \<and> seg_cp_ok cp" using cps cp(1) by blast
    ultimately show ?thesis by (simp add: expected_def cp(2) expected_id_def seg_cp_ok_def cp_ok_def TEMPORARY_ID_def)
  qed
  moreover have "srest (record_fp bv) = concat (map (enc_id (rs_be cfg)) (access_records ?ms))"
    by (simp add: rec(1) access_records_def dc comp_def)
  ultimately obtain out j where out: "cache bv ?ms = Some (Inr (out, j))" "list_all2 (restores D) ?ms out" "counted ?ms j"
    using delivers [of ?ms bv] rec(2) by blast
  from restored_blocks [OF out(2)] obtain dss where "out = concat (map2 file_block rs dss)" "length dss = length rs"
    "list_all2 (data_restored D) (pieces rs cps) dss" by blast
  with out show ?thesis by (auto simp: counted_def dc comp_def)
qed

end

text \<open>The three caches, with the sizes \<open>destor_start\<close> sets.\<close>

definition default_restore_cfg :: "byte list \<Rightarrow> restore_cfg" where
  "default_restore_cfg pool = \<lparr>rs_be = False, rs_sim = SIMULATION_NO, rs_iter = (\<lambda>t. t), rs_cache_size = 1024, rs_window = 1000000,
     rs_pool = pool, rs_addr = [], rs_place = (\<lambda>i is. i # is)\<rparr>"

lemma default_ready: "optimal_ready (default_restore_cfg pool)"
  by (simp add: optimal_ready_def default_restore_cfg_def)

lemma restore_caches:
  assumes "optimal_ready cfg" and "kind \<in> {RESTORE_CACHE_LRU, RESTORE_CACHE_OPT, RESTORE_CACHE_ASM}"
  shows "restore_cache cfg D (restore_thread cfg kind junk)"
  by unfold_locales (rule restore_thread_ok [OF assms])

interpretation lru: restore_cache "default_restore_cfg pool" D "restore_thread (default_restore_cfg pool) RESTORE_CACHE_LRU junk"
  by (rule restore_caches [OF default_ready]) simp

interpretation optimal: restore_cache "default_restore_cfg pool" D "restore_thread (default_restore_cfg pool) RESTORE_CACHE_OPT junk"
  by (rule restore_caches [OF default_ready]) simp

interpretation assembly_area: restore_cache "default_restore_cfg pool" D "restore_thread (default_restore_cfg pool) RESTORE_CACHE_ASM junk"
  by (rule restore_caches [OF default_ready]) simp

lemma restore_job_ok:
  assumes v: "ver_rep (rs_be cfg) b acc segs None rs" "list_all seg_ok segs" "list_all fr_ok rs" "bv_ok b"
      "update_backup_version (rs_be cfg) acc b = Inr (b', acc')"
      "dir (bv_num b) = Some (st_file (metadata_fp b'), st_file (recipe_fp b'), st_file (record_fp b'))"
    and live: "bv_deleted b \<noteq> 1" and total: "(\<Sum>r\<leftarrow>rs. nat (fr_chunknum r)) = length (concat segs)"
    and o: "optimal_ready cfg" and kind: "kind \<in> {RESTORE_CACHE_LRU, RESTORE_CACHE_OPT, RESTORE_CACHE_ASM}"
    and c: "\<forall>cp\<in>set (concat segs). readable cfg D (chunk_message cp) \<and> cp_size cp = int (length (D (cp_fp cp)))"
    and path: "init_path fs path = Inr path'" "tree_ok path' (map fr_filename rs) fs" "well_rooted fs"
  shows "\<exists>w j. do_restore cfg kind junk junkp dir (bv_num b) path fs = Some (Inr (w, j)) \<and> wr_file_num w = int (length rs) \<and>
     rj_chunk_num j = int (length (concat segs)) \<and> rj_data_size j = sum_list (map cp_size (concat segs)) \<and>
     map_of (os_files (wr_fs w)) = map_of (os_files fs) ++
       map_of (map2 (\<lambda>r cps. (target path' (fr_filename r), concat (map (\<lambda>cp. D (cp_fp cp)) cps))) rs (pieces rs (concat segs)))"
proof -
  let ?cps = "concat segs" and ?be = "rs_be cfg"
  have sim: "rs_sim cfg = SIMULATION_NO" using o by (simp add: optimal_ready_def)
  from ver_reopen [where dir = dir and b' = b' and acc' = acc' and junk = junk, OF v] obtain b2 where
    b2: "open_backup_version ?be junk dir (bv_num b) = Inr b2" "bv_deleted b2 = bv_deleted b" "bv_number_of_files b2 = int (length rs)"
      "bv_number_of_chunks b2 = int (length ?cps)" "srest (metadata_fp b2) = concat (map (enc_meta ?be) rs)" "swf (metadata_fp b2)"
      "recipe_fp b2 = \<lparr>st_file = concat (map (enc_cp ?be) (concat (map seg_items segs))), st_pos = 0, st_writable = False\<rparr>"
      "record_fp b2 = \<lparr>st_file = concat (map (enc_id ?be) (remdups_adj (map cp_id ?cps) @ [TEMPORARY_ID])), st_pos = 0, st_writable = False\<rparr>"
    by blast
  have "at_pointers ?be b2 0 ?cps"
    using items_pointers [OF v(2)] b2(4,7) by (auto simp: at_pointers_def srest_def swf_def)
  then have msgs: "read_recipe_thread ?be junk junkp b2 = Some (Inr (recipe_messages rs ?cps))"
    unfolding read_recipe_thread_def using read_messages [OF b2(5,6) v(3), of 0 0 ?cps junk junkp] b2(3) total by simp
  let ?ms = "recipe_messages rs ?cps"
  have seg: "\<forall>cp\<in>set ?cps. readable cfg D (chunk_message cp) \<and> cp_size cp = int (length (D (cp_fp cp))) \<and> seg_cp_ok cp"
    using c v(2) by (auto simp: list_all_iff seg_ok_def)
  have rec: "srest (record_fp b2) = concat (map (enc_id ?be) (remdups_adj (map cp_id ?cps) @ [TEMPORARY_ID]))" "swf (record_fp b2)"
    by (simp_all add: b2(8) srest_def swf_def)
  from restore_cache.recipe_delivered [OF restore_caches [OF o kind] total seg rec, of junk] obtain dss j where
    out: "restore_thread cfg kind junk b2 ?ms = Some (Inr (concat (map2 file_block rs dss), j))" and d: "length dss = length rs"
    "list_all2 (data_restored D) (pieces rs ?cps) dss" and
    counts: "rj_chunk_num j = int (length ?cps)" "rj_data_size j = sum_list (map cp_size ?cps)" by blast
  have len: "length (pieces rs cps) = length rs" for cps by (induction rs arbitrary: cps) simp_all
  have ds: "list_all2 (\<lambda>r ds. \<forall>c\<in>set ds. \<not> is_file_mark c \<and> data_of c = Inr (ck_data c)) rs dss"
    unfolding list_all2_conv_all_nth
    using d(1) data_restored_chunks(1) list_all2_nthD [OF d(2)] len by (metis (no_types, lifting))
  have con: "map2 (\<lambda>r ds. (target path' (fr_filename r), concat (map ck_data ds))) rs dss =
      map2 (\<lambda>r cps. (target path' (fr_filename r), concat (map (\<lambda>cp. D (cp_fp cp)) cps))) rs (pieces rs ?cps)"
    by (rule nth_equalityI) (use d(1) len data_restored_chunks(2) list_all2_nthD [OF d(2)] in auto)
  have p: "path' \<noteq> []" "is_dir fs (place path')" using path(2) by (simp_all add: tree_ok_def)
  let ?w = "\<lparr>wr_fs = fs, wr_fp = None, wr_file_num = 0\<rparr>"
  have "0 \<notin> set (fr_filename r)" if "r \<in> set rs" for r using v(3) that by (auto simp: list_all_iff fr_ok_def)
  with write_blocks [OF sim, of path' rs ?w dss] path(2) ds obtain fs' where w:
    "rfold (write_message cfg path') (concat (map2 file_block rs dss)) ?w = Inr (?w\<lparr>wr_fs := fs', wr_file_num := int (length rs)\<rparr>)"
    "map_of (os_files fs') = map_of (os_files fs) ++ map_of (map2 (\<lambda>r ds. (target path' (fr_filename r), concat (map ck_data ds))) rs dss)"
    by auto
  have "write_restore_data cfg path' (concat (map2 file_block rs dss)) fs = Inr (?w\<lparr>wr_fs := fs', wr_file_num := int (length rs)\<rparr>)"
    using p w(1) make_dirs_existing [OF path(3) p(2), of 1] by (simp add: write_restore_data_def)
  moreover have "init_restore_jcr ?be junk dir fs (bv_num b) path = Inr (path', b2)"
    using path(1) b2(1,2) live by (simp add: init_restore_jcr_def)
  ultimately show ?thesis using msgs out counts w(2) con by (simp add: do_restore_def)
qed

end
