(* ===== verification/Backup_Restore.thy ===== *)
theory Backup_Restore
  imports Backup_Pipeline Restore_Jobs
begin

text \<open>
  A backup followed by a restore of it. \<open>stream_files\<close> reads the files off a chunk stream; the restore job
  writes exactly these, whichever way the backup threads interleaved and whichever restore cache is chosen.
\<close>

subsection \<open>The files of a stream\<close>

definition c_name :: "byte list \<Rightarrow> byte list" where
  "c_name bs = takeWhile (\<lambda>b. b \<noteq> 0) bs"

fun stream_files :: "(byte list \<times> byte list) option \<Rightarrow> chunk list \<Rightarrow> (byte list \<times> byte list) list" where
  "stream_files f [] = []"
| "stream_files None (c # cs) = stream_files (Some (c_name (ck_data c), [])) cs"
| "stream_files (Some (n, d)) (c # cs) =
     (if CHECK_CHUNK c CHUNK_FILE_END then (n, d) # stream_files None cs else stream_files (Some (n, d @ ck_data c)) cs)"

lemma open_file_split:
  assumes "file_wf True cs" "rec_files (Some r) cs = (rs, None)"
  shows "\<exists>ds e cs' rs'. cs = ds @ e # cs' \<and> (\<forall>d\<in>set ds. \<not> is_file_mark d) \<and> is_file_mark e \<and> file_wf False cs' \<and>
     rec_files None cs' = (rs', None) \<and>
     rs = r\<lparr>fr_chunknum := fr_chunknum r + int (length ds), fr_filesize := fr_filesize r + sum_list (map ck_size ds)\<rparr> # rs' \<and>
     (\<forall>n d. stream_files (Some (n, d)) cs = (n, d @ concat (map ck_data ds)) # stream_files None cs')"
  using assms
proof (induction cs arbitrary: r)
  case (Cons c cs)
  show ?case
  proof (cases "CHECK_CHUNK c CHUNK_FILE_END")
    case True
    with Cons.prems obtain rs' where "rec_files None cs = (rs', None)" "rs = r # rs'" by (auto split: prod.splits)
    with True Cons.prems(1) show ?thesis
      by (intro exI [of _ "[]"] exI [of _ c] exI [of _ cs] exI [of _ rs']) (simp add: is_file_mark_def)
  next
    case False
    let ?r = "r\<lparr>fr_chunknum := fr_chunknum r + 1, fr_filesize := fr_filesize r + ck_size c\<rparr>"
    from False Cons.prems have "file_wf True cs" "rec_files (Some ?r) cs = (rs, None)" "\<not> is_file_mark c" by simp_all
    with Cons.IH [of ?r] obtain ds e cs' rs' where "cs = ds @ e # cs'" "\<forall>d\<in>set ds. \<not> is_file_mark d" "is_file_mark e" "file_wf False cs'"
     "rec_files None cs' = (rs', None)"
     "rs = ?r\<lparr>fr_chunknum := fr_chunknum ?r + int (length ds), fr_filesize := fr_filesize ?r + sum_list (map ck_size ds)\<rparr> # rs'"
     "\<forall>n d. stream_files (Some (n, d)) cs = (n, d @ concat (map ck_data ds)) # stream_files None cs'" by blast
    with False \<open>\<not> is_file_mark c\<close> show ?thesis
      by (intro exI [of _ "c # ds"] exI [of _ e] exI [of _ cs'] exI [of _ rs']) (simp add: algebra_simps)
  qed
qed simp

text \<open>Cutting off the first file.\<close>

lemma first_file_split:
  assumes "file_wf False (c # cs)" "rec_files None (c # cs) = (rs, None)"
  shows "\<exists>ds e cs' rs'. cs = ds @ e # cs' \<and> (\<forall>d\<in>set ds. \<not> is_file_mark d) \<and> is_file_mark c \<and> is_file_mark e \<and> file_wf False cs' \<and>
     rec_files None cs' = (rs', None) \<and> 20 + length (ck_data c) \<le> metabufsize \<and>
     rs = \<lparr>fr_chunknum = int (length ds), fr_filesize = sum_list (map ck_size ds), fr_filename = c_name (ck_data c)\<rparr> # rs' \<and>
     stream_files None (c # cs) = (c_name (ck_data c), concat (map ck_data ds)) # stream_files None cs'"
proof -
  have c: "is_file_mark c" "20 + length (ck_data c) \<le> metabufsize" "file_wf True cs" using assms(1) by (simp_all add: is_file_mark_def)
  have "rec_files (Some (new_file_recipe_meta (ck_data c))) cs = (rs, None)" using assms(2) by simp
  from open_file_split [OF c(3) this] obtain ds e cs' rs' where s: "cs = ds @ e # cs'" "\<forall>d\<in>set ds. \<not> is_file_mark d" "is_file_mark e"
    "file_wf False cs'" "rec_files None cs' = (rs', None)"
    "rs = \<lparr>fr_chunknum = int (length ds), fr_filesize = sum_list (map ck_size ds), fr_filename = c_name (ck_data c)\<rparr> # rs'"
    "\<forall>n d. stream_files (Some (n, d)) cs = (n, d @ concat (map ck_data ds)) # stream_files None cs'"
    by (auto simp: new_file_recipe_meta_def c_name_def)
  from s(7) have "stream_files None (c # cs) = (c_name (ck_data c), concat (map ck_data ds)) # stream_files None cs'" by simp
  with s(1-6) c(1,2) show ?thesis by blast
qed

lemma stream_recipe:
  assumes "file_wf False cs" "rec_files None cs = (rs, None)" "\<forall>c\<in>set cs. \<not> is_file_mark c \<longrightarrow> data_ok D c"
    and "list_all2 (\<lambda>cp c. cp_fp cp = ck_fp c) cps (data_chunks cs)" and "int (length cs) < 2 ^ 31"
  shows "(\<Sum>r\<leftarrow>rs. nat (fr_chunknum r)) = length cps \<and> map fr_filename rs = map fst (stream_files None cs) \<and> list_all fr_ok rs \<and>
    map2 (\<lambda>r ps. (fr_filename r, concat (map (\<lambda>cp. D (cp_fp cp)) ps))) rs (pieces rs cps) = stream_files None cs"
  using assms
proof (induction "length cs" arbitrary: cs rs cps rule: less_induct)
  case less
  show ?case
  proof (cases cs)
    case Nil
    with less.prems show ?thesis by simp
  next
    case (Cons c cs1)
    with less.prems(1,2) first_file_split [of c cs1 rs] obtain ds e cs' rs' where s: "cs1 = ds @ e # cs'" "\<forall>d\<in>set ds. \<not> is_file_mark d"
      "is_file_mark c" "is_file_mark e" "file_wf False cs'" "rec_files None cs' = (rs', None)" "20 + length (ck_data c) \<le> metabufsize"
      "rs = \<lparr>fr_chunknum = int (length ds), fr_filesize = sum_list (map ck_size ds), fr_filename = c_name (ck_data c)\<rparr> # rs'"
      "stream_files None cs = (c_name (ck_data c), concat (map ck_data ds)) # stream_files None cs'" by auto
    have "data_chunks cs = ds @ data_chunks cs'" using s Cons by (simp add: data_chunks_def)
    with less.prems(4) obtain ps ps' where ps: "cps = ps @ ps'" "list_all2 (\<lambda>cp c. cp_fp cp = ck_fp c) ps ds"
      "list_all2 (\<lambda>cp c. cp_fp cp = ck_fp c) ps' (data_chunks cs')" by (auto simp: list_all2_append2)
    have l: "length ps = length ds" by (rule list_all2_lengthD [OF ps(2)])
    have d: "\<forall>c\<in>set ds. data_ok D c" using less.prems(3) s Cons by auto
    then have dd: "\<forall>c\<in>set ds. D (ck_fp c) = ck_data c" by (simp add: data_ok_def)
    have sz: "\<forall>c\<in>set ds. 0 \<le> ck_size c \<and> ck_size c \<le> 4194304" using d by (force simp: data_ok_def fits_def cfg_simps)
    have IH: "(\<Sum>r\<leftarrow>rs'. nat (fr_chunknum r)) = length ps'" "map fr_filename rs' = map fst (stream_files None cs')" "list_all fr_ok rs'"
      "map2 (\<lambda>r ps. (fr_filename r, concat (map (\<lambda>cp. D (cp_fp cp)) ps))) rs' (pieces rs' ps') = stream_files None cs'"
      using less.hyps [OF _ s(5,6) _ ps(3)] less.prems(3,5) Cons s(1) by simp_all
    have "concat (map (\<lambda>cp. D (cp_fp cp)) ps) = concat (map ck_data ds)"
      using ps(2) dd by (induction rule: list_all2_induct) simp_all
    moreover have "0 \<le> sum_list (map ck_size ds) \<and> sum_list (map ck_size ds) \<le> 4194304 * int (length ds)"
      using sz by (induction ds) auto
    moreover have "int (length ds) < 2 ^ 31" using less.prems(5) Cons s(1) by simp
    moreover have "length (c_name (ck_data c)) \<le> length (ck_data c)" "0 \<notin> set (c_name (ck_data c))"
      by (auto simp: c_name_def length_takeWhile_le dest: set_takeWhileD)
    ultimately show ?thesis using s(7-9) ps(1) l IH by (auto simp: fr_ok_def in64_def)
  qed
qed

subsection \<open>The drained pool\<close>

lemma filter_finish_pool: "filter_finish cfg st = Inr st' \<Longrightarrow> pool_ext (fs_pool st) (fs_pool st')"
proof -
  assume "filter_finish cfg st = Inr st'"
  then consider "st' = st" | b st1 p where "index_container cfg b st = Inr st1" "write_container_async b (fs_pool st1) = Inr p" "st' = st1\<lparr>fs_pool := p\<rparr>"
    by (auto simp: filter_finish_def rbind_Inr_iff split: option.splits if_splits)
  then show ?thesis
  proof cases
    case 2
    then show ?thesis using index_container_pool [OF 2(1)] write_async_ext [OF 2(2)] by simp
  qed (simp add: pool_ext_refl)
qed

lemma pool_drains:
  assumes "pool_inv be iter sim p" "pool_blank sim p" "iter_ok iter"
  shows "\<exists>p'. pool_reach be iter sim version p p' \<and> ps_buffer p' = []"
  using assms(1,2)
proof (induction "length (ps_buffer p)" arbitrary: p rule: less_induct)
  case less
  show ?case
  proof (cases "ps_buffer p")
    case Nil
    then show ?thesis using pool_reach.start by blast
  next
    case (Cons c cs)
    have "\<exists>p1. pool_reach be iter sim version p p1 \<and> ps_buffer p1 = c # cs \<and> ps_written p1 \<and> pool_inv be iter sim p1 \<and> pool_blank sim p1"
    proof (cases "ps_written p")
      case True
      with Cons less.prems show ?thesis using pool_reach.start by blast
    next
      case False
      from append_steps(1) [OF Cons less.prems(1) assms(3) less.prems(2) False, of version] obtain p1 where
        "append_write be iter sim version c p = Inr p1" "pool_inv be iter sim p1" "pool_blank sim p1" by blast
      moreover from this(1) have "ps_buffer p1 = c # cs" "ps_written p1" using Cons by (auto simp: append_write_def rbind_Inr_iff)
      ultimately show ?thesis using pool_reach.step [OF pool_reach.start pool_step.write_top [OF Cons False]] by blast
    qed
    then obtain p1 where p1: "pool_reach be iter sim version p p1" "ps_buffer p1 = c # cs" "ps_written p1" "pool_inv be iter sim p1" "pool_blank sim p1"
      by blast
    let ?p = "p1\<lparr>ps_buffer := cs, ps_written := False\<rparr>"
    have i: "pool_inv be iter sim ?p" "pool_blank sim ?p" using append_steps(2) [OF p1(2,4) assms(3) p1(5,3)] by simp_all
    have "length (ps_buffer ?p) < length (ps_buffer p)" using Cons by simp
    from less.hyps [OF this i] obtain p' where p': "pool_reach be iter sim version ?p p'" "ps_buffer p' = []" by blast
    have "pool_reach be iter sim version p ?p" by (rule pool_reach.step [OF p1(1) pool_step.pop_top [OF p1(2,3)]])
    with p'(1) have "pool_reach be iter sim version p p'" by (induction rule: pool_reach.induct) (auto intro: pool_reach.step)
    with p'(2) show ?thesis by blast
  qed
qed

text \<open>In the drained pool every container is genuine and the one a pointer names holds its fingerprint.\<close>

lemma drained_readable:
  assumes p: "pool_inv be iter sim p" "ps_buffer p = []" and it: "iter_ok iter" and sim: "sim < SIMULATION_RESTORE"
    and r: "rs_be rcfg = be" "rs_sim rcfg = sim" "rs_pool rcfg = ps_pool p"
    and g: "\<forall>fp\<in>keys_of c. ct_abs c fp = Some (D fp)"
    and c: "c \<in> set (ps_accepted p)" "idof c = ck_id m" "ck_fp m \<in> keys_of c"
  shows "readable rcfg D m"
proof -
  from p c(1) have st: "stored be iter sim (ps_pool p) c" and ok: "container_ok sim c" by (auto simp: pool_inv_def)
  from retrieve_stored [OF st ok it] sim obtain c' d' where
    r': "retrieve_container_by_id be sim (ps_pool p) (idof c) = Inr c'"
      "ct_meta c' = (ct_meta c)\<lparr>cm_map := numbered False 0 (iter (cm_map (ct_meta c)))\<rparr>"
      "ct_data c' = Some d'" "length d' = CONTAINER_SIZE"
      "take (CONTAINER_SIZE - CONTAINER_META_SIZE) d' = take (CONTAINER_SIZE - CONTAINER_META_SIZE) (the (ct_data c))" by blast
  from ok sim obtain d where d: "ct_data c = Some d" by (auto simp: container_ok_def cfg_simps)
  have abs: "ct_abs c' = ct_abs c" by (rule ct_abs_retrieved [OF ok it d r'(2,3)]) (use r'(5) d in simp)
  have keys: "lookup_fingerprint_in_container c' fp \<longleftrightarrow> fp \<in> keys_of c" for fp
  proof -
    have "set (iter (cm_map (ct_meta c))) = set (cm_map (ct_meta c))" by (rule iter_ok_set [OF it])
    moreover have "fst ` set (numbered False 0 (iter (cm_map (ct_meta c)))) = fst ` set (iter (cm_map (ct_meta c)))"
      by (metis list.set_map map_fst_numbered)
    ultimately show ?thesis
      by (simp add: lookup_fingerprint_in_container_def lookup_fingerprint_in_container_meta_def keys_of_def r'(2) map_of_eq_None_iff)
  qed
  have "\<exists>ck. fetch_chunk rcfg c' fp = Inr ck \<and> ck_data ck = D fp \<and> ck_size ck = int (length (D fp)) \<and> \<not> is_file_mark ck"
    if f: "fp \<in> keys_of c" for fp
  proof -
    have x: "ct_abs c fp = Some (D fp)" using g f by blast
    from chunk_of_container [OF ok it sim x r'(2-4)] abs x obtain ck where
      ck: "get_chunk_in_container sim (rs_addr rcfg) c' fp = Inr ck" "ck_data ck = D fp" "ck_size ck = int (length (D fp))" by fastforce
    moreover have "\<not> is_file_mark ck"
      using ck(1) by (auto simp: get_chunk_in_container_def Let_def rbind_Inr_iff is_file_mark_def CHECK_CHUNK_def new_chunk_def CHUNK_UNIQUE_def split: option.splits)
    ultimately show ?thesis using r(2) by (simp add: fetch_chunk_def)
  qed
  then have "genuine rcfg D c'" using keys by (simp add: genuine_def)
  moreover have "idof c' = ck_id m" using r'(2) c(2) by simp
  ultimately show ?thesis using r' r c keys by (auto simp: readable_def read_container_def)
qed

subsection \<open>Backup, then restore\<close>

definition version_ok :: "backupVersion \<Rightarrow> bool" where
  "version_ok bv \<longleftrightarrow> in32 (bv_num bv) \<and> bv_deleted bv = 0 \<and> in32 (int (length (bv_path bv))) \<and> 0 \<notin> set (bv_path bv)"

lemma rec_files_length: "length (fst (rec_files f cs)) \<le> length cs"
  by (induction f cs rule: rec_files.induct) (auto split: prod.splits)

lemma head_ok:
  assumes "same_head b b'" "version_ok b" "ver_rep be b' acc segs None rs" "int (length rs) < 2 ^ 31" "int (length (concat segs)) < 2 ^ 31"
  shows "bv_ok b' \<and> bv_deleted b' \<noteq> 1 \<and> bv_num b' = bv_num b"
  using assms ver_repD(3,6) [OF assms(3)] by (simp add: bv_ok_def version_ok_def same_head_def in32_def in64_def)

lemma recipe_pointers_ok:
  assumes st: "stream_ok D all" "int (length all) < 2 ^ 31" and m: "map (\<lambda>cp. (cp_fp cp, cp_size cp)) (concat segs) = map (\<lambda>c. (ck_fp c, ck_size c)) (data_chunks all)"
    and p: "pool_inv be iter sim p" and k: "\<forall>cp\<in>set (concat segs). \<exists>c\<in>set (ps_accepted p). idof c = cp_id cp \<and> cp_fp cp \<in> keys_of c"
  shows "list_all2 (\<lambda>cp c. cp_fp cp = ck_fp c) (concat segs) (data_chunks all)" "list_all seg_ok segs"
    "\<forall>cp\<in>set (concat segs). cp_size cp = int (length (D (cp_fp cp)))" "int (length (concat segs)) < 2 ^ 31"
proof -
  have l2: "list_all2 (\<lambda>cp c. cp_fp cp = ck_fp c \<and> cp_size cp = ck_size c) (concat segs) (data_chunks all)"
    using m by (auto simp: list.rel_eq [symmetric] list.rel_map simp del: list.rel_eq)
  then show "list_all2 (\<lambda>cp c. cp_fp cp = ck_fp c) (concat segs) (data_chunks all)" by (rule list_all2_mono) simp
  have c: "data_ok D c" if "c \<in> set (data_chunks all)" for c using st(1) that by (auto simp: stream_ok_def data_chunks_def)
  have s: "length (cp_fp cp) = 20 \<and> cp_size cp = int (length (D (cp_fp cp))) \<and> in32 (cp_size cp)" if "cp \<in> set (concat segs)" for cp
  proof -
    from list_all2_left [OF l2 that] obtain c where c': "c \<in> set (data_chunks all)" "cp_fp cp = ck_fp c" "cp_size cp = ck_size c" by blast
    from c [OF c'(1)] have d: "length (ck_fp c) = 20" "ck_size c = int (length (ck_data c))" "fits (ck_size c)" "ck_data c = D (ck_fp c)"
      unfolding data_ok_def by blast+
    have "in32 (ck_size c)" using d(3) by (simp add: fits_def in32_def cfg_simps)
    with d(1,2,4) c'(2,3) show ?thesis by metis
  qed
  then show "\<forall>cp\<in>set (concat segs). cp_size cp = int (length (D (cp_fp cp)))" by blast
  have "length (concat segs) = length (data_chunks all)" by (rule list_all2_lengthD [OF l2])
  also have "\<dots> \<le> length all" by (simp add: data_chunks_def)
  finally show len: "int (length (concat segs)) < 2 ^ 31" using st(2) by linarith
  have "seg_cp_ok cp" if cp: "cp \<in> set (concat segs)" for cp
  proof -
    from k cp obtain c where "c \<in> set (ps_accepted p)" "idof c = cp_id cp" by blast
    with p have "in64 (cp_id cp) \<and> 0 \<le> cp_id cp" by (auto simp: pool_inv_def container_ok_def in64_def)
    moreover from s [OF cp] have "length (cp_fp cp) = 20" "in32 (cp_size cp)" by blast+
    ultimately show ?thesis by (simp add: seg_cp_ok_def cp_ok_def)
  qed
  moreover have "in32 (int (length cps))" if "cps \<in> set segs" for cps
  proof -
    have "length cps \<le> length (concat segs)" using that by (auto simp: length_concat intro!: member_le_sum_list)
    with len show ?thesis by (simp add: in32_def)
  qed
  ultimately show "list_all seg_ok segs" unfolding list_all_iff seg_ok_def by (metis (no_types, lifting) UN_I set_concat)
qed

text \<open>Restoring a version whose pointers are all readable leaves its files where they belong.\<close>

lemma restored_files:
  assumes v: "ver_rep (rs_be rc) b acc segs None rs" "list_all seg_ok segs" "list_all fr_ok rs" "bv_ok b"
      "update_backup_version (rs_be rc) acc b = Inr (b', acc')"
      "dir (bv_num b) = Some (st_file (metadata_fp b'), st_file (recipe_fp b'), st_file (record_fp b'))" "bv_deleted b \<noteq> 1"
    and rc: "optimal_ready rc" and kind: "kind \<in> {RESTORE_CACHE_LRU, RESTORE_CACHE_OPT, RESTORE_CACHE_ASM}"
    and read: "\<forall>cp\<in>set (concat segs). readable rc D (chunk_message cp) \<and> cp_size cp = int (length (D (cp_fp cp)))"
    and fs: "init_path fs path = Inr path'" "tree_ok path' (map fst files) fs" "well_rooted fs"
    and total: "(\<Sum>r\<leftarrow>rs. nat (fr_chunknum r)) = length (concat segs)" and names: "map fr_filename rs = map fst files"
    and data: "map2 (\<lambda>r ps. (fr_filename r, concat (map (\<lambda>cp. D (cp_fp cp)) ps))) rs (pieces rs (concat segs)) = files"
  shows "\<exists>w js. do_restore rc kind junk junkp dir (bv_num b) path fs = Some (Inr (w, js)) \<and>
    wr_file_num w = int (length files) \<and> (\<forall>(n, d)\<in>set files. map_of (os_files (wr_fs w)) (target path' n) = Some d)"
proof -
  have t: "tree_ok path' (map fr_filename rs) fs" using fs(2) names by simp
  from restore_job_ok [where dir = dir and b' = b' and junk = junk and junkp = junkp, OF v(1-7) total rc kind read fs(1) t fs(3)]
  obtain w js where
    w: "do_restore rc kind junk junkp dir (bv_num b) path fs = Some (Inr (w, js))" "wr_file_num w = int (length rs)"
     "map_of (os_files (wr_fs w)) = map_of (os_files fs) ++
       map_of (map2 (\<lambda>r cps. (target path' (fr_filename r), concat (map (\<lambda>cp. D (cp_fp cp)) cps))) rs (pieces rs (concat segs)))" by blast
  have "map2 (\<lambda>r cps. (target path' (fr_filename r), concat (map (\<lambda>cp. D (cp_fp cp)) cps))) rs (pieces rs (concat segs)) =
      map (\<lambda>(n, d). (target path' n, d)) files"
    unfolding data [symmetric] by (simp add: case_prod_unfold comp_def)
  then have m: "map_of (os_files (wr_fs w)) = map_of (os_files fs) ++ map_of (map (\<lambda>(n, d). (target path' n, d)) files)" using w(3) by simp
  have "distinct (map fst (map (\<lambda>(n, d). (target path' n, d)) files))"
    using fs(2) by (simp add: tree_ok_def comp_def case_prod_unfold)
  then have "map_of (os_files (wr_fs w)) (target path' n) = Some d" if "(n, d) \<in> set files" for n d
    unfolding m using that by (intro map_add_find_right) (auto intro!: map_of_is_SomeI)
  moreover have "length rs = length files" using names by (metis length_map)
  ultimately show ?thesis using w(1,2) by auto
qed

text \<open>After the pool is drained, the pointers of a recipe are readable.\<close>

lemma recipe_readable:
  assumes reach: "pool_reach be iter sim v p0 p" "ps_buffer p = []" and inv: "pool_inv be iter sim p0" and it: "iter_ok iter" and sim: "sim < SIMULATION_RESTORE"
    and r: "rs_be rc = be" "rs_sim rc = sim" "rs_pool rc = ps_pool p"
    and named: "\<forall>cp\<in>set cps. \<exists>c\<in>set (ps_accepted p0). idof c = cp_id cp \<and> cp_fp cp \<in> keys_of c"
    and genuine: "\<forall>c\<in>set (ps_accepted p0). \<forall>fp\<in>keys_of c. ct_abs c fp = Some (D fp)"
  shows "\<forall>cp\<in>set cps. readable rc D (chunk_message cp)"
proof
  fix cp assume "cp \<in> set cps"
  with named obtain c where c0: "c \<in> set (ps_accepted p0)" and c: "idof c = ck_id (chunk_message cp)" "ck_fp (chunk_message cp) \<in> keys_of c" by auto
  have "\<forall>fp\<in>keys_of c. ct_abs c fp = Some (D fp)" using genuine c0 by blast
  moreover have "c \<in> set (ps_accepted p)" using pool_reach_accepted [OF reach(1)] c0 by blast
  ultimately show "readable rc D (chunk_message cp)"
    using drained_readable [OF pool_reach_inv [OF reach(1) inv it] reach(2) it sim r] c by blast
qed

text \<open>C1: a backup and a restore of it give the files back. In whatever order the threads of the backup interleave, and for each of the three
  restore caches: once the append thread has drained its queue (which it can) and the version is saved (which succeeds), \<open>do_restore\<close>
  of the version into a directory where its files can be created ends without a fault and leaves
  each file of the stream under its name with its content.\<close>

theorem backup_then_restore:
  assumes j: "job_ok e cfg D b0" and r: "backup_reach e cfg b0 b" and fin: "bk_segs b = []" "bk_flight b = []"
    and bv: "version_ok (fs_bv (bk_fs b0))" and small: "int (length (stream_of (bk_segs b0))) < 2 ^ 31"
    and closed: "snd (rec_files None (stream_of (bk_segs b0))) = None"
    and o: "optimal_ready rcfg" "rs_be rcfg = fc_be cfg" "fc_sim cfg = SIMULATION_NO"
    and kind: "kind \<in> {RESTORE_CACHE_LRU, RESTORE_CACHE_OPT, RESTORE_CACHE_ASM}"
    and files: "files = stream_files None (stream_of (bk_segs b0))"
    and fs: "init_path fs path = Inr path'" "tree_ok path' (map fst files) fs" "well_rooted fs"
  shows "\<exists>st p bv acc. filter_finish cfg (bk_fs b) = Inr st \<and>
    pool_reach (fc_be cfg) (be_iter e) (fc_sim cfg) (be_version e) (fs_pool st) p \<and> ps_buffer p = [] \<and>
    update_backup_version (fc_be cfg) (fs_access st) (fs_bv st) = Inr (bv, acc) \<and>
    (\<forall>p dir. pool_reach (fc_be cfg) (be_iter e) (fc_sim cfg) (be_version e) (fs_pool st) p \<and> ps_buffer p = [] \<and>
       dir (bv_num (fs_bv (bk_fs b0))) = Some (st_file (metadata_fp bv), st_file (recipe_fp bv), st_file (record_fp bv)) \<longrightarrow>
       (\<exists>w js. do_restore (rcfg\<lparr>rs_pool := ps_pool p\<rparr>) kind junk junkp dir (bv_num (fs_bv (bk_fs b0))) path fs = Some (Inr (w, js)) \<and>
          wr_file_num w = int (length files) \<and>
          (\<forall>(n, d)\<in>set files. map_of (os_files (wr_fs w)) (target path' n) = Some d)))"
proof -
  let ?all = "stream_of (bk_segs b0)" and ?be = "fc_be cfg" and ?bv0 = "fs_bv (bk_fs b0)"
  have it: "iter_ok (be_iter e)" and st: "stream_ok D ?all" and cfg: "cfg_ok cfg" using j by (simp_all add: job_ok_def)
  have sim: "fc_sim cfg < SIMULATION_RESTORE" using o(3) by (simp add: cfg_simps)
  from backup_done [OF j r fin sim] obtain st' segs rs where d: "filter_finish cfg (bk_fs b) = Inr st'"
    "ver_rep ?be (fs_bv st') (fs_access st') segs None rs" "rec_files None ?all = (rs, fs_file st')"
    "map (\<lambda>cp. (cp_fp cp, cp_size cp)) (concat segs) = map (\<lambda>c. (ck_fp c, ck_size c)) (data_chunks ?all)"
    "same_head ?bv0 (fs_bv st')" "pool_inv ?be (be_iter e) (fc_sim cfg) (fs_pool st')"
    "\<forall>cp\<in>set (concat segs). \<exists>c\<in>set (ps_accepted (fs_pool st')). idof c = cp_id cp \<and> cp_fp cp \<in> keys_of c"
    "\<forall>c\<in>set (ps_accepted (fs_pool st')). \<forall>fp\<in>keys_of c. ct_abs c fp = Some (D fp)" by blast
  have rf: "rec_files None ?all = (rs, None)" using d(3) closed by simp
  note ptr = recipe_pointers_ok [OF st small d(4,6,7)]
  have wf: "file_wf False ?all" "\<forall>c\<in>set ?all. \<not> is_file_mark c \<longrightarrow> data_ok D c" using st by (simp_all add: stream_ok_def)
  note sr = stream_recipe [OF wf(1) rf wf(2) ptr(1) small, folded files]
  have "length rs \<le> length ?all" using rec_files_length [of None ?all] rf by simp
  then have "int (length rs) < 2 ^ 31" using small by linarith
  note hd = head_ok [OF d(5) bv d(2) this ptr(4)]
  from ver_save [OF d(2) ptr(2)] hd obtain bv' where u: "update_backup_version ?be (fs_access st') (fs_bv st') = Inr (bv', TEMPORARY_ID)" by blast
  have bl: "pool_blank (fc_sim cfg) (fs_pool st')"
    using pool_ext_blank [OF _ filter_finish_pool [OF d(1)]] backup_reach_inv [OF r j] by (simp add: bk_inv_def)
  from pool_drains [OF d(6) bl it, of "be_version e"] obtain p0 where
    p0: "pool_reach ?be (be_iter e) (fc_sim cfg) (be_version e) (fs_pool st') p0" "ps_buffer p0 = []" by blast
  have res: "\<exists>w js. do_restore (rcfg\<lparr>rs_pool := ps_pool p\<rparr>) kind junk junkp dir (bv_num ?bv0) path fs = Some (Inr (w, js)) \<and>
          wr_file_num w = int (length files) \<and> (\<forall>(n, d)\<in>set files. map_of (os_files (wr_fs w)) (target path' n) = Some d)"
    if p: "pool_reach ?be (be_iter e) (fc_sim cfg) (be_version e) (fs_pool st') p" "ps_buffer p = []"
      and dir: "dir (bv_num ?bv0) = Some (st_file (metadata_fp bv'), st_file (recipe_fp bv'), st_file (record_fp bv'))" for p dir
  proof -
    let ?rc = "rcfg\<lparr>rs_pool := ps_pool p\<rparr>"
    have rc: "optimal_ready ?rc" "rs_be ?rc = ?be" "rs_sim ?rc = fc_sim cfg" "rs_pool ?rc = ps_pool p"
      using o by (simp_all add: optimal_ready_def)
    have read: "\<forall>cp\<in>set (concat segs). readable ?rc D (chunk_message cp) \<and> cp_size cp = int (length (D (cp_fp cp)))"
      using recipe_readable [OF p d(6) it sim rc(2-4) d(7,8)] ptr(3) by blast
    have vr: "ver_rep (rs_be ?rc) (fs_bv st') (fs_access st') segs None rs" "list_all fr_ok rs" "bv_ok (fs_bv st')" "bv_deleted (fs_bv st') \<noteq> 1"
      "update_backup_version (rs_be ?rc) (fs_access st') (fs_bv st') = Inr (bv', TEMPORARY_ID)"
      "dir (bv_num (fs_bv st')) = Some (st_file (metadata_fp bv'), st_file (recipe_fp bv'), st_file (record_fp bv'))"
      using d(2) sr hd u dir rc(2) by simp_all
    show ?thesis
      using restored_files [where dir = dir and b' = bv' and junk = junk and junkp = junkp, OF vr(1) ptr(2) vr(2,3,5,6,4) rc(1) kind read fs] sr hd by simp
  qed
  show ?thesis by (intro exI [of _ st'] exI [of _ p0] exI [of _ bv'] exI [of _ TEMPORARY_ID] conjI allI impI) (use d(1) p0 u res in auto)
qed

theorem backup_then_restore_witness:
  "\<exists>b bv w js. backup_reach demo_env demo_filter_cfg (first_job 40 demo_filter_cfg b [demo_segment]) bv \<and>
     wr_file_num w = 1 \<and> map_of (os_files (wr_fs w)) (True, [[111], [97]]) = Some [1, 2, 3, 4, 5] \<and>
     (\<exists>cfg dir. do_restore cfg RESTORE_CACHE_OPT 0 demo_cp dir 0 [47, 111] \<lparr>os_dirs = [(True, [[111]])], os_files = []\<rparr> = Some (Inr (w, js)))"
proof -
  obtain bv b where bv: "create_backup_version (fc_be demo_filter_cfg) [47] 0 = Inr (bv, 1)"
    and j: "job_ok demo_env demo_filter_cfg (\<lambda>_. [1, 2, 3, 4, 5]) (first_job 40 demo_filter_cfg bv [demo_segment])"
    and b: "backup_reach demo_env demo_filter_cfg (first_job 40 demo_filter_cfg bv [demo_segment]) b" "bk_segs b = []" "bk_flight b = []"
    using demo_done by blast
  let ?b0 = "first_job 40 demo_filter_cfg bv [demo_segment]"
  let ?fs = "\<lparr>os_dirs = [(True, [[111]])], os_files = []\<rparr> :: file_system"
  let ?cfg = "\<lparr>rs_be = False, rs_sim = SIMULATION_NO, rs_iter = (\<lambda>t. t), rs_cache_size = 1, rs_window = 1, rs_pool = [], rs_addr = [],
    rs_place = (\<lambda>i is. i # is)\<rparr>"
  have s: "bk_segs ?b0 = [demo_segment]" "fs_bv (bk_fs ?b0) = bv" by (simp_all add: first_job_def start_filter_phase_def)
  have v: "version_ok (fs_bv (bk_fs ?b0))" "bv_num bv = 0"
    using bv by (auto simp: s(2) version_ok_def in32_def create_backup_version_def get_next_version_number_def path_dir_def Let_def)
  have small: "int (length (stream_of (bk_segs ?b0))) < 2 ^ 31" "snd (rec_files None (stream_of (bk_segs ?b0))) = None"
    unfolding s(1) by (simp_all add: demo_defs)
  have f: "[([97], [1, 2, 3, 4, 5])] = stream_files None (stream_of (bk_segs ?b0))"
    unfolding s(1) by (simp add: demo_defs c_name_def)
  have o: "optimal_ready ?cfg" "rs_be ?cfg = fc_be demo_filter_cfg" "fc_sim demo_filter_cfg = SIMULATION_NO"
    by (simp_all add: optimal_ready_def demo_filter_cfg_def)
  have t: "target [47, 111, 47] [97] = (True, [[111], [97]])" "place [47, 111, 47, 97] = (True, [[111], [97]])"
      "place [47, 111, 47] = (True, [[111]])" "base_name [97] = [97]" by code_simp+
  have w: "on_the_way [47, 111, 47, 97] (Suc (Suc (Suc 0))) = {}" by (auto simp: on_the_way_def nth_Cons split: nat.splits)
  have p1: "init_path ?fs [47, 111] = Inr [47, 111, 47]" "well_rooted ?fs" by code_simp+
  have p2: "tree_ok [47, 111, 47] (map fst [([97], [1, 2, 3, 4, 5 :: byte])]) ?fs"
    using w t by (simp add: tree_ok_def can_create_def is_dir_def)
  from backup_then_restore [where kind = RESTORE_CACHE_OPT and junk = 0 and junkp = demo_cp, OF j b v(1) small o _ f p1(1) p2 p1(2)]
  obtain p bv' dir w js where "do_restore (?cfg\<lparr>rs_pool := p\<rparr>) RESTORE_CACHE_OPT 0 demo_cp dir 0 [47, 111] ?fs = Some (Inr (w, js))"
    "wr_file_num w = 1" "map_of (os_files (wr_fs w)) (True, [[111], [97]]) = Some [1, 2, 3, 4, 5]"
    unfolding s(2) v(2) by (fastforce simp: t)
  then show ?thesis using b(1) by blast
qed

end
