(* ===== verification/Decimal.thy ===== *)
theory Decimal
  imports Destor_Prelude
begin

text \<open>
  Decimal integers in text: what \<open>printf\<close> writes for \<open>%d\<close> and \<open>%lld\<close>, and what \<open>scanf\<close> and \<open>atoi\<close> read
  for them (blanks, a sign, digits). Text is a list of bytes in ASCII. A number too large for the type is
  outside the model: its conversion is undefined.
\<close>

definition is_digit :: "byte \<Rightarrow> bool" where
  "is_digit b \<longleftrightarrow> 48 \<le> b \<and> b \<le> 57"

definition is_space :: "byte \<Rightarrow> bool" where
  "is_space b \<longleftrightarrow> b = 32 \<or> 9 \<le> b \<and> b \<le> 13"

definition digit :: "nat \<Rightarrow> byte" where
  "digit n = of_nat (48 + n)"

definition digit_val :: "byte \<Rightarrow> nat" where
  "digit_val b = unat b - 48"

fun dec_nat :: "nat \<Rightarrow> byte list" where
  "dec_nat n = (if n < 10 then [digit n] else dec_nat (n div 10) @ [digit (n mod 10)])"

declare dec_nat.simps [simp del]

definition dec :: "int \<Rightarrow> byte list" where
  "dec i = (if i < 0 then 45 # dec_nat (nat (- i)) else dec_nat (nat i))"

definition read_digits :: "byte list \<Rightarrow> nat" where
  "read_digits ds = foldl (\<lambda>n b. 10 * n + digit_val b) 0 ds"

definition scan_nat :: "byte list \<Rightarrow> (nat \<times> byte list) option" where
  "scan_nat s = (let ds = takeWhile is_digit s in if ds = [] then None else Some (read_digits ds, dropWhile is_digit s))"

definition scan_int :: "byte list \<Rightarrow> (int \<times> byte list) option" where
  "scan_int s =
     (case dropWhile is_space s of
        [] \<Rightarrow> None
      | b # bs \<Rightarrow>
          if b = 45 then map_option (\<lambda>(n, r). (- int n, r)) (scan_nat bs)
          else if b = 43 then map_option (\<lambda>(n, r). (int n, r)) (scan_nat bs)
          else map_option (\<lambda>(n, r). (int n, r)) (scan_nat (b # bs)))"

definition atoi :: "byte list \<Rightarrow> int" where
  "atoi s = (case scan_int s of None \<Rightarrow> 0 | Some (i, _) \<Rightarrow> i)"

subsection \<open>What is printed is read back\<close>

lemma unat_digit: "n < 10 \<Longrightarrow> unat (digit n) = 48 + n"
  by (simp add: digit_def unat_of_nat del: of_nat_add)

lemma digit_simps [simp]:
  assumes "n < 10"
  shows "is_digit (digit n)" "digit_val (digit n) = n"
  using unat_digit [OF assms] assms by (simp_all add: is_digit_def digit_val_def word_le_nat_alt)

lemma is_digit_not_space: "is_digit b \<Longrightarrow> \<not> is_space b \<and> b \<noteq> 45 \<and> b \<noteq> 43"
  by (auto simp: is_digit_def is_space_def word_le_nat_alt)

lemma dec_nat_digits: "dec_nat n \<noteq> [] \<and> (\<forall>b\<in>set (dec_nat n). is_digit b)"
proof (induction n rule: dec_nat.induct)
  case (1 n)
  then show ?case by (subst (1 2) dec_nat.simps) auto
qed

lemma read_digits_snoc: "read_digits (ds @ [b]) = 10 * read_digits ds + digit_val b"
  by (simp add: read_digits_def)

lemma read_dec_nat: "read_digits (dec_nat n) = n"
proof (induction n rule: dec_nat.induct)
  case (1 n)
  show ?case
  proof (cases "n < 10")
    case True
    then show ?thesis by (subst dec_nat.simps) (simp add: read_digits_def)
  next
    case False
    then show ?thesis using 1 by (subst dec_nat.simps) (simp add: read_digits_snoc)
  qed
qed

lemma length_dec_nat: "n < 10 ^ Suc k \<Longrightarrow> length (dec_nat n) \<le> Suc k"
proof (induction k arbitrary: n)
  case 0
  then show ?case by (subst dec_nat.simps) simp
next
  case (Suc k)
  then have "n div 10 < 10 ^ Suc k" by (simp add: less_mult_imp_div_less)
  with Suc.IH show ?case by (subst dec_nat.simps) simp
qed

definition ends_number :: "byte list \<Rightarrow> bool" where
  "ends_number r \<longleftrightarrow> r = [] \<or> \<not> is_digit (hd r)"

lemma scan_dec_nat: "ends_number r \<Longrightarrow> scan_nat (dec_nat n @ r) = Some (n, r)"
proof -
  assume r: "ends_number r"
  have d: "\<forall>b\<in>set (dec_nat n). is_digit b" "dec_nat n \<noteq> []" using dec_nat_digits by auto
  have "takeWhile is_digit r = []" "dropWhile is_digit r = r" using r by (cases r; simp add: ends_number_def)+
  then have "takeWhile is_digit (dec_nat n @ r) = dec_nat n" "dropWhile is_digit (dec_nat n @ r) = r"
    using d(1) by (simp_all add: takeWhile_append2 dropWhile_append2)
  then show ?thesis using d(2) by (simp add: scan_nat_def read_dec_nat)
qed

lemma scan_dec: "ends_number r \<Longrightarrow> scan_int (dec i @ r) = Some (i, r)"
proof -
  assume r: "ends_number r"
  obtain b bs where b: "dec_nat (nat i) = b # bs" "is_digit b" using dec_nat_digits [of "nat i"] by (cases "dec_nat (nat i)") auto
  have "scan_nat (b # bs @ r) = Some (nat i, r)" using scan_dec_nat [OF r, of "nat i"] b(1) by simp
  then show ?thesis
    using scan_dec_nat [OF r, of "nat (- i)"] b is_digit_not_space [OF b(2)]
    by (auto simp: dec_def scan_int_def is_space_def)
qed

lemma scan_int_blank: "is_space b \<Longrightarrow> scan_int (b # s) = scan_int s"
  by (simp add: scan_int_def)

lemma ends_number_Cons [simp]: "ends_number (b # bs) \<longleftrightarrow> \<not> is_digit b" "ends_number []"
  by (simp_all add: ends_number_def)

lemma scan_int_shorter: "scan_int s = Some (i, r) \<Longrightarrow> length r < length s"
proof -
  assume "scan_int s = Some (i, r)"
  then obtain t n where t: "scan_nat t = Some (n, r)" "length t \<le> length (dropWhile is_space s)"
    by (auto simp: scan_int_def split: list.splits if_splits)
  have "length r < length t"
  proof (cases t)
    case (Cons b bs)
    with t(1) show ?thesis by (auto simp: scan_nat_def Let_def length_dropWhile_le less_Suc_eq_le split: if_splits)
  qed (use t in \<open>simp add: scan_nat_def\<close>)
  also have "\<dots> \<le> length s" using t(2) length_dropWhile_le [of is_space s] by linarith
  finally show ?thesis .
qed

end
