(* ===== verification/Sds.thy ===== *)
theory Sds
  imports Byte_Store Decimal
begin

text \<open>
  \<open>utils/sds.c\<close>: the dynamic strings of the configuration reader.

  A string is its allocation: the header's \<open>len\<close> and \<open>free\<close>, both C \<open>int\<close>s, and the bytes of
  \<open>buf\<close>. Every access to \<open>buf\<close> is checked against the allocation (\<open>OutOfBounds\<close>), stores into the
  header wrap (\<open>int32\<close>), and \<open>size_t\<close> reads them back modulo \<open>2 ^ 64\<close>. The bytes that \<open>realloc\<close> adds are
  an argument \<open>g\<close>. Allocation succeeds, and the bytes appended to a string are not in its own block.
  \<open>sds_rep s xs\<close> says that \<open>s\<close> is well formed and holds \<open>xs\<close>; each operation is proved against it
  for strings up to \<open>sds_limit\<close> bytes. A C string in memory is a byte list with a NUL in it
  (\<open>c_strlen\<close>); the tokenizer reads a line, its bytes before the NUL.
\<close>

definition int32 :: "int \<Rightarrow> int" where
  "int32 i = sint (i32 i)"

definition size_t :: "int \<Rightarrow> nat" where
  "size_t i = nat (i mod 2 ^ 64)"

record sds =
  sd_len :: int
  sd_free :: int
  sd_buf :: "byte list"

definition SDS_MAX_PREALLOC :: nat where
  "SDS_MAX_PREALLOC = 1024 * 1024"

definition sdslen :: "sds \<Rightarrow> nat" where
  "sdslen s = size_t (sd_len s)"

definition sdsavail :: "sds \<Rightarrow> nat" where
  "sdsavail s = size_t (sd_free s)"

definition put :: "nat \<Rightarrow> byte list \<Rightarrow> byte list \<Rightarrow> byte list res" where
  "put off bs buf = poke (length buf) off bs buf"

definition c_strlen :: "byte list \<Rightarrow> nat res" where
  "c_strlen t = (if 0 \<in> set t then Inr (length (takeWhile (\<lambda>b. b \<noteq> 0) t)) else Inl OutOfBounds)"

definition lit :: "string \<Rightarrow> byte list" where
  "lit s = map of_char s"

definition till_nul :: "byte list \<Rightarrow> byte list" where
  "till_nul t = takeWhile (\<lambda>b. b \<noteq> 0) t"

definition c_str :: "byte list \<Rightarrow> byte list" where
  "c_str xs = xs @ [0]"

definition realloc_buf :: "(nat \<Rightarrow> byte) \<Rightarrow> nat \<Rightarrow> byte list \<Rightarrow> byte list" where
  "realloc_buf g n buf = take n buf @ map g [length buf..<n]"

definition sdsnewlen :: "byte list option \<Rightarrow> nat \<Rightarrow> sds res" where
  "sdsnewlen init n =
     rbind (case init of None \<Rightarrow> Inr (replicate n 0) | Some t \<Rightarrow> peek 0 n t)
       (\<lambda>bs. Inr \<lparr>sd_len = int32 (int n), sd_free = 0, sd_buf = bs @ [0]\<rparr>)"

definition sdsempty :: "sds res" where
  "sdsempty = sdsnewlen (Some [0]) 0"

definition sdsnew :: "byte list option \<Rightarrow> sds res" where
  "sdsnew init = rbind (case init of None \<Rightarrow> Inr 0 | Some t \<Rightarrow> c_strlen t) (sdsnewlen init)"

definition sdsdup :: "sds \<Rightarrow> sds res" where
  "sdsdup s = sdsnewlen (Some (sd_buf s)) (sdslen s)"

definition sdsupdatelen :: "sds \<Rightarrow> sds res" where
  "sdsupdatelen s =
     rbind (c_strlen (sd_buf s)) (\<lambda>n.
       let reallen = int32 (int n)
       in Inr (s\<lparr>sd_free := int32 (sd_free s + (sd_len s - reallen)), sd_len := reallen\<rparr>))"

definition sdsclear :: "sds \<Rightarrow> sds res" where
  "sdsclear s =
     rbind (put 0 [0] (sd_buf s)) (\<lambda>buf.
       Inr \<lparr>sd_len = 0, sd_free = int32 (sd_free s + sd_len s), sd_buf = buf\<rparr>)"

definition sdsMakeRoomFor :: "(nat \<Rightarrow> byte) \<Rightarrow> sds \<Rightarrow> nat \<Rightarrow> sds" where
  "sdsMakeRoomFor g s addlen =
     (if sdsavail s \<ge> addlen then s
      else
        let len = sdslen s;
            newlen = (len + addlen) mod 2 ^ 64;
            newlen = (if newlen < SDS_MAX_PREALLOC then newlen * 2 else newlen + SDS_MAX_PREALLOC) mod 2 ^ 64
        in s\<lparr>sd_free := int32 (int newlen - int len), sd_buf := realloc_buf g (newlen + 1) (sd_buf s)\<rparr>)"

definition sdsRemoveFreeSpace :: "sds \<Rightarrow> sds" where
  "sdsRemoveFreeSpace s = s\<lparr>sd_free := 0, sd_buf := take (sdslen s + 1) (sd_buf s)\<rparr>"

definition sdsAllocSize :: "sds \<Rightarrow> nat" where
  "sdsAllocSize s = size_t (8 + sd_len s + sd_free s + 1)"

definition sdsIncrLen :: "sds \<Rightarrow> int \<Rightarrow> sds res" where
  "sdsIncrLen s incr =
     rbind (c_assert (sd_free s \<ge> incr)) (\<lambda>_.
       let s = s\<lparr>sd_len := int32 (sd_len s + incr), sd_free := int32 (sd_free s - incr)\<rparr>
       in rbind (c_assert (sd_free s \<ge> 0)) (\<lambda>_.
          rbind (put (size_t (sd_len s)) [0] (sd_buf s)) (\<lambda>buf. Inr (s\<lparr>sd_buf := buf\<rparr>))))"

definition sdsgrowzero :: "(nat \<Rightarrow> byte) \<Rightarrow> sds \<Rightarrow> nat \<Rightarrow> sds res" where
  "sdsgrowzero g s len =
     (let curlen = sdslen s
      in if len \<le> curlen then Inr s
         else
           let s = sdsMakeRoomFor g s (len - curlen)
           in rbind (put curlen (replicate (len - curlen + 1) 0) (sd_buf s)) (\<lambda>buf.
                let totlen = sd_len s + sd_free s
                in Inr \<lparr>sd_len = int32 (int len), sd_free = int32 (totlen - int len), sd_buf = buf\<rparr>))"

definition sdscatlen :: "(nat \<Rightarrow> byte) \<Rightarrow> sds \<Rightarrow> byte list \<Rightarrow> nat \<Rightarrow> sds res" where
  "sdscatlen g s t len =
     (let curlen = sdslen s;
          s = sdsMakeRoomFor g s len
      in rbind (peek 0 len t) (\<lambda>bs.
         rbind (put curlen bs (sd_buf s)) (\<lambda>buf.
         rbind (put (curlen + len) [0] buf) (\<lambda>buf.
           Inr \<lparr>sd_len = int32 (int curlen + int len), sd_free = int32 (sd_free s - int len), sd_buf = buf\<rparr>))))"

definition sdscat :: "(nat \<Rightarrow> byte) \<Rightarrow> sds \<Rightarrow> byte list \<Rightarrow> sds res" where
  "sdscat g s t = rbind (c_strlen t) (sdscatlen g s t)"

definition sdscatsds :: "(nat \<Rightarrow> byte) \<Rightarrow> sds \<Rightarrow> sds \<Rightarrow> sds res" where
  "sdscatsds g s t = sdscatlen g s (sd_buf t) (sdslen t)"

definition sdscpylen :: "(nat \<Rightarrow> byte) \<Rightarrow> sds \<Rightarrow> byte list \<Rightarrow> nat \<Rightarrow> sds res" where
  "sdscpylen g s t len =
     (let s = (if size_t (sd_free s + sd_len s) < len then sdsMakeRoomFor g s (size_t (int len - sd_len s)) else s);
          totlen = sd_free s + sd_len s
      in rbind (peek 0 len t) (\<lambda>bs.
         rbind (put 0 bs (sd_buf s)) (\<lambda>buf.
         rbind (put len [0] buf) (\<lambda>buf.
           Inr \<lparr>sd_len = int32 (int len), sd_free = int32 (totlen - int len), sd_buf = buf\<rparr>))))"

definition sdscpy :: "(nat \<Rightarrow> byte) \<Rightarrow> sds \<Rightarrow> byte list \<Rightarrow> sds res" where
  "sdscpy g s t = rbind (c_strlen t) (sdscpylen g s t)"

text \<open>
  \<open>sdscatvprintf\<close>: \<open>out\<close> is the text the format stands for. \<open>vsnprintf\<close> leaves as much of it as
  \<open>buflen - 1\<close> bytes hold, and its terminator; the buffer, of \<open>16 * 2 ^ k\<close> bytes, doubles until
  its last byte but one stays NUL.
\<close>

function vprintf_buf :: "byte list \<Rightarrow> nat \<Rightarrow> byte list" where
  "vprintf_buf out k =
     (let buflen = 16 * 2 ^ k
      in if buflen - 2 < length out \<and> out ! (buflen - 2) \<noteq> 0 then vprintf_buf out (Suc k)
         else take (buflen - 1) out @ [0])"
  by pat_completeness auto
termination
proof (relation "measure (\<lambda>(out, k). length out + 2 - 16 * 2 ^ k)", goal_cases)
  case (2 out k)
  moreover have "(1 :: nat) \<le> 2 ^ k" by simp
  ultimately show ?case unfolding in_measure split power_Suc by linarith
qed simp

declare vprintf_buf.simps [simp del]

definition sdscatvprintf :: "(nat \<Rightarrow> byte) \<Rightarrow> sds \<Rightarrow> byte list \<Rightarrow> sds res" where
  "sdscatvprintf g s out = sdscat g s (vprintf_buf out 0)"

definition sdscatprintf :: "(nat \<Rightarrow> byte) \<Rightarrow> sds \<Rightarrow> byte list \<Rightarrow> sds res" where
  "sdscatprintf g s out = sdscatvprintf g s out"

text \<open>\<open>sdstrim\<close>: \<open>strchr\<close> finds the terminator of \<open>cset\<close> too, so a NUL is trimmed.\<close>

definition in_cset :: "byte list \<Rightarrow> byte \<Rightarrow> bool" where
  "in_cset cset b \<longleftrightarrow> b = 0 \<or> b \<in> set cset"

function trim_sp :: "byte list \<Rightarrow> byte list \<Rightarrow> int \<Rightarrow> int \<Rightarrow> int" where
  "trim_sp cset s sp en = (if sp \<le> en \<and> in_cset cset (s ! nat sp) then trim_sp cset s (sp + 1) en else sp)"
  by pat_completeness auto
termination by (relation "measure (\<lambda>(cset, s, sp, en). nat (en + 1 - sp))") auto

function trim_ep :: "byte list \<Rightarrow> byte list \<Rightarrow> int \<Rightarrow> int" where
  "trim_ep cset s ep = (if ep > 0 \<and> in_cset cset (s ! nat ep) then trim_ep cset s (ep - 1) else ep)"
  by pat_completeness auto
termination by (relation "measure (\<lambda>(cset, s, ep). nat ep)") auto

declare trim_sp.simps [simp del] trim_ep.simps [simp del]

definition sdstrim :: "sds \<Rightarrow> byte list \<Rightarrow> sds res" where
  "sdstrim s cset =
     (let en = int (sdslen s) - 1;
          sp = trim_sp cset (sd_buf s) 0 en;
          ep = trim_ep cset (sd_buf s) en;
          len = (if sp > ep then 0 else nat (ep - sp + 1))
      in rbind (if sp \<noteq> 0 then rbind (peek (nat sp) len (sd_buf s)) (\<lambda>bs. put 0 bs (sd_buf s)) else Inr (sd_buf s)) (\<lambda>buf.
         rbind (put len [0] buf) (\<lambda>buf.
           Inr \<lparr>sd_len = int32 (int len), sd_free = int32 (sd_free s + (sd_len s - int len)), sd_buf = buf\<rparr>)))"

definition range_newlen :: "int \<Rightarrow> int \<Rightarrow> nat" where
  "range_newlen st en = (if st > en then 0 else nat (en - st) + 1)"

definition range_bounds :: "nat \<Rightarrow> int \<Rightarrow> int \<Rightarrow> int \<times> nat" where   \<comment> \<open>the start and the length that are kept\<close>
  "range_bounds len st en =
     (let st = (if st < 0 then max 0 (int32 (int len + st)) else st);
          en = (if en < 0 then max 0 (int32 (int len + en)) else en);
          newlen = range_newlen st en
      in if newlen \<noteq> 0 then
           if st \<ge> int32 (int len) then (st, 0)
           else if en \<ge> int32 (int len) then (st, range_newlen st (int32 (int len - 1)))
           else (st, newlen)
         else (0, newlen))"

definition sdsrange :: "sds \<Rightarrow> int \<Rightarrow> int \<Rightarrow> sds res" where
  "sdsrange s st en =
     (if sdslen s = 0 then Inr s
      else
        let (st, newlen) = range_bounds (sdslen s) st en
        in rbind (if st \<noteq> 0 \<and> newlen \<noteq> 0 then rbind (peek (nat st) newlen (sd_buf s)) (\<lambda>bs. put 0 bs (sd_buf s))
                  else Inr (sd_buf s)) (\<lambda>buf.
           rbind (put newlen [0] buf) (\<lambda>buf.
             Inr \<lparr>sd_len = int32 (int newlen), sd_free = int32 (sd_free s + (sd_len s - int newlen)), sd_buf = buf\<rparr>)))"

definition to_lower :: "byte \<Rightarrow> byte" where   \<comment> \<open>\<open>tolower\<close> in the C locale\<close>
  "to_lower b = (if 65 \<le> b \<and> b \<le> 90 then b + 32 else b)"

definition to_upper :: "byte \<Rightarrow> byte" where
  "to_upper b = (if 97 \<le> b \<and> b \<le> 122 then b - 32 else b)"

definition map_str :: "(byte \<Rightarrow> byte) \<Rightarrow> sds \<Rightarrow> sds res" where   \<comment> \<open>\<open>s[j] = f(s[j])\<close> for \<open>j\<close> below the length\<close>
  "map_str f s =
     rfold (\<lambda>j s. rbind (peek j 1 (sd_buf s)) (\<lambda>b. rbind (put j (map f b) (sd_buf s)) (\<lambda>buf. Inr (s\<lparr>sd_buf := buf\<rparr>))))
       [0..<nat (sd_len s)] s"

definition sdstolower :: "sds \<Rightarrow> sds res" where
  "sdstolower = map_str to_lower"

definition sdstoupper :: "sds \<Rightarrow> sds res" where
  "sdstoupper = map_str to_upper"

fun map_char :: "byte list \<Rightarrow> byte list \<Rightarrow> byte \<Rightarrow> byte" where   \<comment> \<open>the inner loop of \<open>sdsmapchars\<close>\<close>
  "map_char (f # fs) (t # ts) b = (if b = f then t else map_char fs ts b)"
| "map_char _ _ b = b"

definition sdsmapchars :: "sds \<Rightarrow> byte list \<Rightarrow> byte list \<Rightarrow> nat \<Rightarrow> sds res" where
  "sdsmapchars s fs ts setlen =
     rbind (peek 0 setlen fs) (\<lambda>fs. rbind (peek 0 setlen ts) (\<lambda>ts. map_str (map_char fs ts) s))"

definition sdscmp :: "sds \<Rightarrow> sds \<Rightarrow> int res" where
  "sdscmp s1 s2 =
     (let l1 = sdslen s1; l2 = sdslen s2; minlen = min l1 l2
      in rbind (peek 0 minlen (sd_buf s1)) (\<lambda>a. rbind (peek 0 minlen (sd_buf s2)) (\<lambda>b.
           let cmp = memcmp a b in Inr (if cmp = 0 then int32 (int l1 - int l2) else cmp))))"

text \<open>\<open>sdssplitlen\<close>: the guard \<open>1 \<le> seplen\<close> in the loop is the function's first test.\<close>

definition sub_str :: "nat \<Rightarrow> nat \<Rightarrow> 'a list \<Rightarrow> 'a list" where
  "sub_str i n xs = take n (drop i xs)"

definition sep_at :: "byte list \<Rightarrow> byte list \<Rightarrow> nat \<Rightarrow> nat \<Rightarrow> bool" where
  "sep_at s sep seplen j \<longleftrightarrow>
     seplen = 1 \<and> s ! j = sep ! 0 \<or> memcmp (sub_str j seplen s) (take seplen sep) = 0"

function split_loop :: "byte list \<Rightarrow> nat \<Rightarrow> byte list \<Rightarrow> nat \<Rightarrow> nat \<Rightarrow> nat \<Rightarrow> byte list list \<Rightarrow> byte list list" where
  "split_loop s len sep seplen j start tokens =
     (if j + (seplen - 1) < len \<and> 1 \<le> seplen then
        if sep_at s sep seplen j then
          split_loop s len sep seplen (j + seplen) (j + seplen) (tokens @ [sub_str start (j - start) s])
        else split_loop s len sep seplen (j + 1) start tokens
      else tokens @ [sub_str start (len - start) s])"
  by pat_completeness auto
termination by (relation "measure (\<lambda>(s, len, sep, seplen, j, start, tokens). len - j)") auto

declare split_loop.simps [simp del]

definition sds_of :: "byte list \<Rightarrow> sds" where
  "sds_of xs = \<lparr>sd_len = int32 (int (length xs)), sd_free = 0, sd_buf = xs @ [0]\<rparr>"

definition sdssplitlen :: "byte list \<Rightarrow> int \<Rightarrow> byte list \<Rightarrow> int \<Rightarrow> sds list option" where
  "sdssplitlen s len sep seplen =
     (if seplen < 1 \<or> len < 0 then None
      else if len = 0 then Some []
      else Some (map sds_of (split_loop s (nat len) sep (nat seplen) 0 0 [])))"

text \<open>\<open>sdsfromlonglong\<close>: the digits are written from the end of the buffer.\<close>

function ll_digits :: "nat \<Rightarrow> byte list \<Rightarrow> byte list" where
  "ll_digits v p = (let p = digit (v mod 10) # p; v = v div 10 in if v \<noteq> 0 then ll_digits v p else p)"
  by pat_completeness auto
termination by (relation "measure fst") auto

declare ll_digits.simps [simp del]

definition sdsfromlonglong :: "int \<Rightarrow> sds" where
  "sdsfromlonglong i =
     (let p = ll_digits (nat \<bar>i\<bar>) [] in sds_of (if i < 0 then 45 # p else p))"

text \<open>\<open>sdscatrepr\<close> quotes a string, escaping what is not printable.\<close>

definition is_print :: "byte \<Rightarrow> bool" where
  "is_print b \<longleftrightarrow> 32 \<le> b \<and> b \<le> 126"

definition hex_char :: "byte \<Rightarrow> byte" where   \<comment> \<open>a digit of \<open>%x\<close>\<close>
  "hex_char n = (if n < 10 then 48 + n else 87 + n)"

definition catrepr_char :: "(nat \<Rightarrow> byte) \<Rightarrow> byte \<Rightarrow> sds \<Rightarrow> sds res" where
  "catrepr_char g b s =
     (if b = 92 \<or> b = 34 then sdscatprintf g s [92, b]
      else if b = 10 then sdscatlen g s [92, 110] 2
      else if b = 13 then sdscatlen g s [92, 114] 2
      else if b = 9 then sdscatlen g s [92, 116] 2
      else if b = 7 then sdscatlen g s [92, 97] 2
      else if b = 8 then sdscatlen g s [92, 98] 2
      else if is_print b then sdscatprintf g s [b]
      else sdscatprintf g s [92, 120, hex_char (b div 16), hex_char (b mod 16)])"

definition sdscatrepr :: "(nat \<Rightarrow> byte) \<Rightarrow> sds \<Rightarrow> byte list \<Rightarrow> nat \<Rightarrow> sds res" where
  "sdscatrepr g s p len =
     rbind (sdscatlen g s [34] 1) (\<lambda>s.
     rbind (peek 0 len p) (\<lambda>bs.
     rbind (rfold (catrepr_char g) bs s) (\<lambda>s. sdscatlen g s [34] 1)))"

text \<open>\<open>sdssplitargs\<close> and its helpers. \<open>None\<close> is its jump to \<open>err\<close>.\<close>

definition is_hex_digit :: "byte \<Rightarrow> bool" where
  "is_hex_digit c \<longleftrightarrow> 48 \<le> c \<and> c \<le> 57 \<or> 97 \<le> c \<and> c \<le> 102 \<or> 65 \<le> c \<and> c \<le> 70"

definition hex_digit_to_int :: "byte \<Rightarrow> byte" where
  "hex_digit_to_int c =
     (if 48 \<le> c \<and> c \<le> 57 then c - 48
      else if 97 \<le> c \<and> c \<le> 102 then c - 87
      else if 65 \<le> c \<and> c \<le> 70 then c - 55
      else 0)"

definition unescape :: "byte \<Rightarrow> byte" where
  "unescape c =
     (if c = 110 then 10 else if c = 114 then 13 else if c = 116 then 9
      else if c = 98 then 8 else if c = 97 then 7 else c)"

fun hex_escape :: "byte list \<Rightarrow> (byte \<times> byte list) option" where   \<comment> \<open>an escaped byte at \<open>p\<close>, and what follows it\<close>
  "hex_escape (a # b # c # d # q) =
     (if a = 92 \<and> b = 120 \<and> is_hex_digit c \<and> is_hex_digit d
      then Some (hex_digit_to_int c * 16 + hex_digit_to_int d, q) else None)"
| "hex_escape _ = None"

lemma hex_escape_length: "hex_escape p = Some (b, q) \<Longrightarrow> length q < length p"
  by (cases p rule: hex_escape.cases) (auto split: if_splits)

definition closes :: "byte list \<Rightarrow> bool" where   \<comment> \<open>a closing quote must be followed by a space or nothing\<close>
  "closes q \<longleftrightarrow> q = [] \<or> is_space (hd q)"

function split_token :: "bool \<Rightarrow> bool \<Rightarrow> byte list \<Rightarrow> byte list \<Rightarrow> (byte list \<times> byte list) option" where
  "split_token inq insq p current =
     (if inq then
        case hex_escape p of
          Some (b, q) \<Rightarrow> split_token inq insq q (current @ [b])
        | None \<Rightarrow>
            (case p of
               [] \<Rightarrow> None
             | c # q \<Rightarrow>
                 if c = 92 \<and> q \<noteq> [] then split_token inq insq (tl q) (current @ [unescape (hd q)])
                 else if c = 34 then if closes q then Some (current, q) else None
                 else split_token inq insq q (current @ [c]))
      else if insq then
        case p of
          [] \<Rightarrow> None
        | c # q \<Rightarrow>
            if c = 92 \<and> q \<noteq> [] \<and> hd q = 39 then split_token inq insq (tl q) (current @ [39])
            else if c = 39 then if closes q then Some (current, q) else None
            else split_token inq insq q (current @ [c])
      else
        case p of
          [] \<Rightarrow> Some (current, [])
        | c # q \<Rightarrow>
            if c = 32 \<or> c = 10 \<or> c = 13 \<or> c = 9 then Some (current, q)
            else if c = 34 then split_token True insq q current
            else if c = 39 then split_token inq True q current
            else split_token inq insq q (current @ [c]))"
  by pat_completeness auto
termination
  by (relation "measure (\<lambda>(inq, insq, p, current). length p)") (auto dest: hex_escape_length)

declare split_token.simps [simp del]

lemma split_token_le: "split_token inq insq p current = Some (t, q) \<Longrightarrow> length q \<le> length p - 1"
proof (induction inq insq p current rule: split_token.induct)
  case (1 inq insq p current)
  note step = "1.prems" [unfolded split_token.simps [of inq insq p current]]
  show ?case
  proof (cases inq)
    case inq: True
    show ?thesis
    proof (cases "hex_escape p")
      case (Some bq)
      then show ?thesis using inq step "1.IH"(3) [OF inq Some] hex_escape_length [of p "fst bq" "snd bq"]
        by (cases bq) fastforce
    next
      case None
      show ?thesis
      proof (cases p)
        case (Cons c q')
        note IH = "1.IH"(1,2) [OF inq None Cons]
        show ?thesis using step inq None Cons IH by (simp split: if_splits)
      qed (use step inq None in simp)
    qed
  next
    case inq: False
    show ?thesis
    proof (cases p)
      case (Cons c q')
      then show ?thesis using step inq "1.IH"(4,5) [OF inq _ Cons] "1.IH"(6-8) [OF inq _ Cons]
        by (simp split: if_splits)
    qed (use step inq in \<open>simp split: if_splits\<close>)
  qed
qed

function split_from :: "byte list \<Rightarrow> byte list list \<Rightarrow> byte list list option" where
  "split_from p vector =
     (let p = dropWhile is_space p
      in if p = [] then Some vector
         else case split_token False False p [] of
                None \<Rightarrow> None
              | Some (t, q) \<Rightarrow> split_from q (vector @ [t]))"
  by pat_completeness auto
termination
proof (relation "measure (length \<circ> fst)", goal_cases)
  case (2 p vector x y t q)
  then have "length q \<le> length (dropWhile is_space p) - 1" "dropWhile is_space p \<noteq> []"
    using split_token_le [of False False "dropWhile is_space p" "[]" t q] by auto
  then show ?case using length_dropWhile_le [of is_space p] by (cases "dropWhile is_space p") auto
qed simp

declare split_from.simps [simp del]

definition sdssplitargs :: "byte list \<Rightarrow> byte list list option" where
  "sdssplitargs line = split_from line []"

text \<open>\<open>sdsjoin\<close> of C strings.\<close>

definition sdsjoin :: "(nat \<Rightarrow> byte) \<Rightarrow> byte list list \<Rightarrow> byte list \<Rightarrow> sds res" where
  "sdsjoin g argv sep =
     rbind sdsempty
       (rfold (\<lambda>j s. rbind (sdscat g s (argv ! j)) (\<lambda>s.
          if j \<noteq> length argv - 1 then sdscat g s sep else Inr s)) [0..<length argv])"

end
