(* ===== verification/Manifest.thy ===== *)
theory Manifest
  imports Decimal
begin

text \<open>
  The container-marker algorithm: \<open>cma.c\<close>. The file \<open>manifest\<close> holds for each container the last job that
  used it; deleting the jobs up to \<open>jobid\<close> reclaims the containers with no later use.

  \<^item> A hash table of records is an association list; \<open>iter\<close> is the order of its iterator.
  \<^item> The file is \<open>None\<close> before it is made; \<open>can_write\<close>: opening it for writing succeeds.
  \<^item> Two records of one container in a file, which the program never writes, would free the key the table
    still points to.
\<close>

type_synonym manifest = "(containerid, int) htable"

definition scan_record :: "byte list \<Rightarrow> ((containerid \<times> int) \<times> byte list) option" where
  "scan_record s =
     (case scan_int s of
        Some (i, c # r) \<Rightarrow> if c = 44 then map_option (\<lambda>(t, r). ((i, t), r)) (scan_int r) else None
      | _ \<Rightarrow> None)"

lemma scan_record_shorter: "scan_record s = Some (x, r) \<Longrightarrow> length r < length s"
  by (fastforce simp: scan_record_def split: option.splits list.splits if_splits dest: scan_int_shorter)

function scan_records :: "byte list \<Rightarrow> (containerid \<times> int) list" where
  "scan_records s = (case scan_record s of None \<Rightarrow> [] | Some (x, r) \<Rightarrow> x # scan_records r)"
  by pat_completeness auto
termination by (relation "measure length") (auto dest: scan_record_shorter)

declare scan_records.simps [simp del]

definition read_manifest :: "byte list \<Rightarrow> manifest" where
  "read_manifest f = fold (\<lambda>(i, t). AList.update i t) (scan_records f) []"

definition print_records :: "(containerid \<times> int) list \<Rightarrow> byte list" where
  "print_records rs = concat (map (\<lambda>(i, t). dec i @ [44] @ dec t @ [10]) rs)"

text \<open>\<open>ids\<close>: the keys of the monitor, in the order of its iterator. The result is the file and \<open>live_container_num\<close>.\<close>

definition update_manifest :: "(manifest \<Rightarrow> (containerid \<times> int) list) \<Rightarrow> bool \<Rightarrow> int \<Rightarrow> containerid list \<Rightarrow> byte list option \<Rightarrow> (byte list \<times> int) res" where
  "update_manifest iter can_write job ids f =
     (let m = (case f of None \<Rightarrow> [] | Some bs \<Rightarrow> read_manifest bs);
          m = fold (\<lambda>i. AList.update i job) ids m
      in if can_write then Inr (print_records (iter m), int (length m)) else Inl ExitFailure)"

text \<open>The reading loop of \<open>trunc_manifest\<close> sorts each record into one of two tables.\<close>

definition trunc_record :: "int \<Rightarrow> containerid \<times> int \<Rightarrow> (containerid, unit) htable \<times> manifest \<Rightarrow> (containerid, unit) htable \<times> manifest" where
  "trunc_record job = (\<lambda>(i, t) (dead, m). if t \<le> job then (AList.update i () dead, m) else (dead, AList.update i t m))"

definition trunc_manifest :: "(manifest \<Rightarrow> (containerid \<times> int) list) \<Rightarrow> bool \<Rightarrow> int \<Rightarrow> byte list option \<Rightarrow>
    ((containerid, unit) htable \<times> byte list \<times> int) res" where
  "trunc_manifest iter can_write job f =
     (case f of
        None \<Rightarrow> Inl ExitFailure
      | Some bs \<Rightarrow>
          let (dead, m) = fold (trunc_record job) (scan_records bs) ([], []) in
          if can_write then Inr (dead, print_records (iter m), int (length m)) else Inl ExitFailure)"

subsection \<open>The file holds the table\<close>

lemma scan_record_print: "ends_number r \<Longrightarrow> scan_record (dec i @ 44 # dec t @ r) = Some ((i, t), r)"
  by (simp add: scan_record_def scan_dec is_digit_def word_le_nat_alt)

lemma scan_record_blank: "scan_record (10 # s) = scan_record s"
  by (simp add: scan_record_def scan_int_blank is_space_def word_le_nat_alt)

lemma scan_record_nl: "scan_records (10 # s) = scan_records s"
  by (subst (1 2) scan_records.simps) (simp add: scan_record_blank)

lemma scan_print: "scan_records (print_records rs) = rs"
proof (induction rs)
  case Nil
  show ?case by (subst scan_records.simps) (simp add: print_records_def scan_record_def scan_int_def)
next
  case (Cons x rs)
  obtain i t where x: "x = (i, t)" by (cases x)
  have "print_records (x # rs) = dec i @ 44 # dec t @ 10 # print_records rs" by (simp add: print_records_def x)
  moreover have "ends_number (10 # print_records rs)" by (simp add: is_digit_def word_le_nat_alt)
  ultimately show ?case using Cons by (subst scan_records.simps) (simp add: scan_record_print scan_record_nl x)
qed

lemma fold_update_new: "distinct (map fst (m @ rs)) \<Longrightarrow> fold (\<lambda>(i, t). AList.update i t) rs m = m @ rs"
proof (induction rs arbitrary: m)
  case (Cons x rs)
  then show ?case using Cons.IH [of "m @ [x]"] by (cases x) (simp add: length_update_new)
qed simp

lemma read_print: "distinct (map fst rs) \<Longrightarrow> read_manifest (print_records rs) = rs"
  using fold_update_new [of "[]" rs] by (simp add: read_manifest_def scan_print)

text \<open>\<open>manifest_rep f m\<close>: the file holds the table that maps containers as \<open>m\<close> does.\<close>

definition manifest_rep :: "byte list option \<Rightarrow> (containerid \<rightharpoonup> int) \<Rightarrow> bool" where
  "manifest_rep f m \<longleftrightarrow>
     (case f of None \<Rightarrow> m = Map.empty | Some bs \<Rightarrow> \<exists>rs. bs = print_records rs \<and> distinct (map fst rs) \<and> map_of rs = m)"

lemma distinct_fold_update: "distinct (map fst m) \<Longrightarrow> distinct (map fst (fold (\<lambda>i. AList.update i v) ids m))"
  by (induction ids arbitrary: m) (simp_all add: distinct_update)

lemma map_of_fold_update: "map_of (fold (\<lambda>i. AList.update i v) ids m) = (\<lambda>c. if c \<in> set ids then Some v else map_of m c)"
  by (induction ids arbitrary: m) (auto simp: update_conv')

lemma length_dom: "distinct (map fst m) \<Longrightarrow> card (dom (map_of m)) = length m"
  by (metis distinct_card dom_map_of_conv_image_fst length_map list.set_map)

lemma iter_rep:
  assumes "iter_ok iter" "distinct (map fst m)"
  shows "manifest_rep (Some (print_records (iter m))) (map_of m)"
  using assms iter_ok_distinct [OF assms(1), of m] iter_ok_map_of [OF assms]
  by (auto simp: manifest_rep_def)

lemma update_manifest_ok:
  assumes "manifest_rep f m" "iter_ok iter"
  shows "\<exists>f'. update_manifest iter True job ids f = Inr (f', int (card (dom m \<union> set ids))) \<and>
     manifest_rep (Some f') (\<lambda>c. if c \<in> set ids then Some job else m c)"
proof -
  let ?m = "case f of None \<Rightarrow> [] | Some bs \<Rightarrow> read_manifest bs"
  have m: "distinct (map fst ?m)" "map_of ?m = m"
    using assms(1) by (auto simp: manifest_rep_def read_print split: option.splits)
  let ?m' = "fold (\<lambda>i. AList.update i job) ids ?m"
  have d: "distinct (map fst ?m')" "map_of ?m' = (\<lambda>c. if c \<in> set ids then Some job else m c)"
    by (rule distinct_fold_update [OF m(1)], simp only: map_of_fold_update m(2))
  have "dom (\<lambda>c. if c \<in> set ids then Some job else m c) = dom m \<union> set ids" by (auto split: if_splits)
  with length_dom [OF d(1)] d(2) have "card (dom m \<union> set ids) = length ?m'" by simp
  with iter_rep [OF assms(2) d(1)] d(2) show ?thesis by (simp add: update_manifest_def Let_def)
qed

lemma trunc_records:
  assumes "distinct (map fst (dead @ map (\<lambda>(i, t). (i, ())) (filter (\<lambda>(i, t). t \<le> job) rs)))"
    and "distinct (map fst (m @ filter (\<lambda>(i, t). \<not> t \<le> job) rs))"
  shows "fold (trunc_record job) rs (dead, m) =
     (dead @ map (\<lambda>(i, t). (i, ())) (filter (\<lambda>(i, t). t \<le> job) rs), m @ filter (\<lambda>(i, t). \<not> t \<le> job) rs)"
  using assms
proof (induction rs arbitrary: dead m)
  case (Cons x rs)
  obtain i t where x: "x = (i, t)" by (cases x)
  show ?case
  proof (cases "t \<le> job")
    case True
    then have "AList.update i () dead = dead @ [(i, ())]" using Cons.prems(1) by (intro length_update_new) (auto simp: x)
    moreover have "distinct (map fst ((dead @ [(i, ())]) @ map (\<lambda>(i, t). (i, ())) (filter (\<lambda>(i, t). t \<le> job) rs)))"
      using Cons.prems(1) True by (simp add: x)
    ultimately show ?thesis using Cons.IH [of "dead @ [(i, ())]" m] Cons.prems(2) True by (simp add: x trunc_record_def)
  next
    case False
    then have "AList.update i t m = m @ [(i, t)]" using Cons.prems(2) by (intro length_update_new) (auto simp: x)
    moreover have "distinct (map fst ((m @ [(i, t)]) @ filter (\<lambda>(i, t). \<not> t \<le> job) rs))"
      using Cons.prems(2) False by (simp add: x)
    ultimately show ?thesis using Cons.IH [of dead "m @ [(i, t)]"] Cons.prems(1) False by (simp add: x trunc_record_def)
  qed
qed simp

lemma map_of_filter_value:
  "distinct (map fst rs) \<Longrightarrow> map_of (filter (\<lambda>(i, t). P t) rs) c = (case map_of rs c of None \<Rightarrow> None | Some t \<Rightarrow> if P t then Some t else None)"
  by (induction rs) (auto simp: map_of_eq_None_iff split: option.splits)

lemma trunc_manifest_ok:
  assumes f: "manifest_rep (Some f) m" and it: "iter_ok iter"
  shows "\<exists>dead f'. trunc_manifest iter True job (Some f) = Inr (dead, f', int (card {c. \<exists>t. m c = Some t \<and> job < t})) \<and>
     fst ` set dead = {c. \<exists>t. m c = Some t \<and> t \<le> job} \<and>
     manifest_rep (Some f') (\<lambda>c. case m c of None \<Rightarrow> None | Some t \<Rightarrow> if job < t then Some t else None)"
proof -
  from f obtain rs where rs: "f = print_records rs" "distinct (map fst rs)" "map_of rs = m" by (auto simp: manifest_rep_def)
  let ?old = "map (\<lambda>(i, t). (i, ())) (filter (\<lambda>(i, t). t \<le> job) rs)" and ?m = "filter (\<lambda>(i, t). \<not> t \<le> job) rs"
  have d: "distinct (map fst ?old)" "distinct (map fst ?m)"
    using distinct_map_filter [OF rs(2)] by (simp_all add: comp_def case_prod_unfold)
  then have t: "fold (trunc_record job) rs ([], []) = (?old, ?m)" using trunc_records [of "[]" job rs "[]"] by simp
  have m': "map_of ?m = (\<lambda>c. case m c of None \<Rightarrow> None | Some t \<Rightarrow> if job < t then Some t else None)"
    using map_of_filter_value [OF rs(2), of "\<lambda>t. \<not> t \<le> job"] rs(3) by (auto simp: not_le fun_eq_iff split: option.splits)
  have "dom (map_of ?m) = {c. \<exists>t. m c = Some t \<and> job < t}"
    unfolding m' by (auto split: option.splits if_splits)
  with length_dom [OF d(2)] have "int (length ?m) = int (card {c. \<exists>t. m c = Some t \<and> job < t})" by simp
  moreover have "fst ` set ?old = {c. \<exists>t. m c = Some t \<and> t \<le> job}"
    using rs(2) by (force simp: rs(3) [symmetric] dest: map_of_SomeD)
  moreover have "manifest_rep (Some (print_records (iter ?m))) (map_of ?m)" by (rule iter_rep [OF it d(2)])
  ultimately show ?thesis using t by (simp add: trunc_manifest_def rs(1) scan_print m')
qed

subsection \<open>Backups and deletions\<close>

datatype cma_event = Used int "containerid list" | Truncated int

definition cma_step :: "(manifest \<Rightarrow> (containerid \<times> int) list) \<Rightarrow> cma_event \<Rightarrow> byte list option \<Rightarrow> byte list option res" where
  "cma_step iter e f =
     (case e of
        Used job ids \<Rightarrow> rbind (update_manifest iter True job ids f) (\<lambda>(f, _). Inr (Some f))
      | Truncated job \<Rightarrow> rbind (trunc_manifest iter True job f) (\<lambda>(_, f, _). Inr (Some f)))"

text \<open>What the manifest should say: the last use of each container, forgotten with the deletion of that job.\<close>

definition cma_spec :: "cma_event \<Rightarrow> (containerid \<rightharpoonup> int) \<Rightarrow> (containerid \<rightharpoonup> int)" where
  "cma_spec e m =
     (case e of
        Used job ids \<Rightarrow> (\<lambda>c. if c \<in> set ids then Some job else m c)
      | Truncated job \<Rightarrow> (\<lambda>c. case m c of None \<Rightarrow> None | Some t \<Rightarrow> if job < t then Some t else None))"

lemma cma_spec_simps [simp]:
  "cma_spec (Used job ids) m = (\<lambda>c. if c \<in> set ids then Some job else m c)"
  "cma_spec (Truncated job) m = (\<lambda>c. case m c of None \<Rightarrow> None | Some t \<Rightarrow> if job < t then Some t else None)"
  by (simp_all add: cma_spec_def)

fun uses :: "cma_event list \<Rightarrow> int list" where
  "uses [] = []"
| "uses (Used j _ # es) = j # uses es"
| "uses (Truncated _ # es) = uses es"

lemma uses_append: "uses (es @ fs) = uses es @ uses fs"
  by (induction es rule: uses.induct) simp_all

lemma uses_mem: "Used j ids \<in> set es \<Longrightarrow> j \<in> set (uses es)"
  by (induction es rule: uses.induct) auto

lemma cma_used:
  assumes "manifest_rep f m" "iter_ok iter"
  shows "\<exists>f'. cma_step iter (Used job ids) f = Inr (Some f') \<and> manifest_rep (Some f') (cma_spec (Used job ids) m)"
  using update_manifest_ok [OF assms, of job ids] by (auto simp: cma_step_def)

lemma cma_history:
  assumes "iter_ok iter" "rfold (cma_step iter) es None = Inr f"
  shows "manifest_rep f (fold cma_spec es Map.empty)"
  using assms(2)
proof (induction es arbitrary: f rule: rev_induct)
  case Nil
  then show ?case by (simp add: manifest_rep_def)
next
  case (snoc e es)
  let ?m = "fold cma_spec es Map.empty"
  from snoc.prems obtain g where g: "rfold (cma_step iter) es None = Inr g" "cma_step iter e g = Inr f"
    by (auto simp: rfold_append rbind_Inr_iff)
  note rep = snoc.IH [OF g(1)]
  show ?case
  proof (cases e)
    case (Used job ids)
    with g(2) update_manifest_ok [OF rep assms(1), of job ids] show ?thesis by (auto simp: cma_step_def)
  next
    case (Truncated job)
    with g(2) obtain h where h: "g = Some h" by (cases g) (auto simp: cma_step_def trunc_manifest_def)
    with g(2) Truncated trunc_manifest_ok [OF rep [unfolded h] assms(1), of job] show ?thesis
      by (auto simp: cma_step_def)
  qed
qed

text \<open>With ascending job numbers, a container is not in the table as last used before one of its uses.\<close>

lemma last_use_later:
  assumes "sorted (uses es)" "Used j ids \<in> set es" "c \<in> set ids" "fold cma_spec es Map.empty c = Some t"
  shows "j \<le> t"
  using assms
proof (induction es arbitrary: t rule: rev_induct)
  case (snoc e es)
  have s: "sorted (uses es)" using snoc.prems(1) by (simp add: uses_append sorted_append)
  show ?case
  proof (cases e)
    case (Used j' ids')
    show ?thesis
    proof (cases "c \<in> set ids'")
      case True
      then have t: "t = j'" using snoc.prems(4) by (simp add: Used)
      have "Used j ids = Used j' ids' \<or> j \<in> set (uses es)" using snoc.prems(2) uses_mem [of j ids es] by (auto simp: Used)
      with snoc.prems(1) show ?thesis unfolding t by (auto simp: Used uses_append sorted_append)
    next
      case False
      then have "fold cma_spec es Map.empty c = Some t" "Used j ids \<in> set es" using snoc.prems(2,3,4) by (auto simp: Used)
      with snoc.IH [OF s _ snoc.prems(3)] show ?thesis by blast
    qed
  next
    case (Truncated d)
    then have "fold cma_spec es Map.empty c = Some t" "Used j ids \<in> set es"
      using snoc.prems(2,4) by (auto split: option.splits if_splits)
    with snoc.IH [OF s _ snoc.prems(3)] show ?thesis by blast
  qed
qed simp

text \<open>Deleting the jobs up to \<open>d\<close> reclaims only what is no longer used. After any history of backups, in the order of their
  numbers, and deletions, \<open>trunc_manifest\<close> succeeds; the containers it returns are those whose last recorded use is at most \<open>d\<close>, and
  none of them is used by a backup with a greater number; the file keeps the last uses of all others.\<close>

theorem cma_reclaims:
  assumes "iter_ok iter" and "rfold (cma_step iter) es None = Inr (Some f)" and "sorted (uses es)"
  shows "\<exists>dead f' live. trunc_manifest iter True d (Some f) = Inr (dead, f', live) \<and>
     fst ` set dead = {c. \<exists>t. fold cma_spec es Map.empty c = Some t \<and> t \<le> d} \<and>
     (\<forall>j ids. Used j ids \<in> set es \<and> d < j \<longrightarrow> fst ` set dead \<inter> set ids = {}) \<and>
     manifest_rep (Some f') (fold cma_spec (es @ [Truncated d]) Map.empty)"
proof -
  let ?m = "fold cma_spec es Map.empty"
  from trunc_manifest_ok [OF cma_history [OF assms(1,2)] assms(1), of d] obtain dead f' where
    t: "trunc_manifest iter True d (Some f) = Inr (dead, f', int (card {c. \<exists>t. ?m c = Some t \<and> d < t}))"
      "fst ` set dead = {c. \<exists>t. ?m c = Some t \<and> t \<le> d}" "manifest_rep (Some f') (cma_spec (Truncated d) ?m)"
    by auto
  have "fst ` set dead \<inter> set ids = {}" if "Used j ids \<in> set es" "d < j" for j ids
    using last_use_later [OF assms(3) that(1)] that(2) unfolding t(2) by force
  then show ?thesis
    using t by (intro exI [of _ dead] exI [of _ f'] exI [of _ "int (card {c. \<exists>t. ?m c = Some t \<and> d < t})"] conjI) auto
qed

theorem cma_reclaims_witness:
  "\<exists>f dead f' live. rfold (cma_step rev) [Used 0 [1, 2], Used 1 [2, 3]] None = Inr (Some f) \<and>
     trunc_manifest rev True 0 (Some f) = Inr (dead, f', live) \<and> fst ` set dead = {1}"
proof -
  from cma_used [OF _ iter_ok_rev, of None Map.empty 0 "[1, 2]"] obtain g where
    g: "cma_step rev (Used 0 [1, 2]) None = Inr (Some g)" "manifest_rep (Some g) (cma_spec (Used 0 [1, 2]) Map.empty)"
    by (auto simp: manifest_rep_def)
  from cma_used [OF g(2) iter_ok_rev, of 1 "[2, 3]"] g(1) obtain f where
    f: "rfold (cma_step rev) [Used 0 [1, 2], Used 1 [2, 3]] None = Inr (Some f)" by auto
  have so: "sorted (uses [Used 0 [1, 2], Used 1 [2, 3]])" by simp
  note c = cma_reclaims [OF iter_ok_rev f so, of 0]
  obtain dead f' live where
    "trunc_manifest rev True 0 (Some f) = Inr (dead, f', live)"
    "fst ` set dead = {c. \<exists>t. fold cma_spec [Used 0 [1, 2], Used 1 [2, 3]] Map.empty c = Some t \<and> t \<le> 0}"
    by (rule exE [OF c], elim exE conjE) (rule that)
  moreover have "{c. \<exists>t. fold cma_spec [Used 0 [1, 2], Used 1 [2, 3]] Map.empty c = Some t \<and> t \<le> 0} = {1}"
    by auto
  ultimately show ?thesis using f by (intro exI [of _ f] exI [of _ dead] exI [of _ f'] exI [of _ live] conjI) simp_all
qed

end
