(* ===== verification/Har.thy ===== *)
theory Har
  imports Manifest Rewrite_Buffer Container_Store
begin

text \<open>
  The files of history-aware rewriting: \<open>init_har\<close> and \<open>close_har\<close> of \<open>har_rewrite.c\<close>. At the end of a job the containers
  it used little of are written to \<open>recipes/bv<job>.sparse\<close>; the next job inherits them. (\<open>har_check\<close> is in
  \<open>Rewrite_Buffer\<close>, \<open>har_monitor_update\<close> in \<open>Filter_Phase\<close>.)

  \<^item> \<open>dquot\<close> is the quotient of two integers in double precision. The quotient of two zeros compares
    as false.
  \<^item> \<open>junk\<close> is what the allocated record holds before \<open>sscanf\<close>.
\<close>

record har_cfg =
  har_threshold :: real           \<comment> \<open>\<open>rewrite_har_utilization_threshold\<close>\<close>
  har_limit :: real               \<comment> \<open>\<open>rewrite_har_rewrite_limit\<close>\<close>
  har_dquot :: "int \<Rightarrow> int \<Rightarrow> real"

type_synonym har_table = "(containerid, int) htable"

subsection \<open>Reading the sparse containers of the job before\<close>

definition fgets :: "nat \<Rightarrow> byte list \<Rightarrow> byte list \<times> byte list" where
  "fgets n s = (let k = min (n - 1) (Suc (length (takeWhile (\<lambda>b. b \<noteq> 10) s))) in (take k s, drop k s))"

definition scan_sparse :: "containerid \<times> int \<Rightarrow> byte list \<Rightarrow> containerid \<times> int" where
  "scan_sparse junk buf =
     (case scan_int (takeWhile (\<lambda>b. b \<noteq> 0) buf) of
        None \<Rightarrow> junk
      | Some (i, r) \<Rightarrow> (case scan_int r of None \<Rightarrow> (i, snd junk) | Some (sz, _) \<Rightarrow> (i, sz)))"

function read_sparse :: "containerid \<times> int \<Rightarrow> byte list \<Rightarrow> har_table \<Rightarrow> har_table" where
  "read_sparse junk s t =
     (if s = [] then t
      else let (buf, s) = fgets 128 s; (i, sz) = scan_sparse junk buf in read_sparse junk s (AList.update i sz t))"
  by pat_completeness auto
termination by (relation "measure (\<lambda>(junk, s, t). length s)") (auto simp: fgets_def Let_def)

declare read_sparse.simps [simp del]

definition init_har :: "containerid \<times> int \<Rightarrow> int \<Rightarrow> (int \<Rightarrow> byte list option) \<Rightarrow> har_table" where
  "init_har junk job files =
     (if job > 0 then (case files (job - 1) of None \<Rightarrow> [] | Some s \<Rightarrow> read_sparse junk s []) else [])"

subsection \<open>Writing the sparse containers\<close>

definition g_record_cmp :: "containerid \<times> int \<Rightarrow> containerid \<times> int \<Rightarrow> int" where
  "g_record_cmp a b = sint (i32 (snd a - snd b))"

record har_sums =
  hs_seq :: "(containerid \<times> int) list"
  hs_total :: int
  hs_sparse :: int
  hs_sparse_num :: int            \<comment> \<open>\<open>jcr.sparse_container_num\<close>\<close>
  hs_inherited_num :: int         \<comment> \<open>\<open>jcr.inherited_sparse_num\<close>\<close>

definition is_sparse :: "har_cfg \<Rightarrow> int \<Rightarrow> bool" where
  "is_sparse g sz \<longleftrightarrow> har_dquot g sz (int (CONTAINER_SIZE - CONTAINER_META_SIZE)) < har_threshold g"

definition collect_sparse :: "har_cfg \<Rightarrow> har_table \<Rightarrow> containerid \<times> int \<Rightarrow> har_sums \<Rightarrow> har_sums" where
  "collect_sparse g inherited r s =
     (let s = s\<lparr>hs_total := hs_total s + snd r\<rparr> in
      if is_sparse g (snd r)
      then s\<lparr>hs_inherited_num := (if map_of inherited (fst r) \<noteq> None then hs_inherited_num s + 1 else hs_inherited_num s),
             hs_sparse_num := hs_sparse_num s + 1, hs_sparse := hs_sparse s + snd r, hs_seq := insert_sorted g_record_cmp r (hs_seq s)\<rparr>
      else s)"

text \<open>The loop that trims the sequence, here from its end.\<close>

fun trim_sparse :: "har_cfg \<Rightarrow> int \<Rightarrow> int \<Rightarrow> (containerid \<times> int) list \<Rightarrow> (containerid \<times> int) list res" where
  "trim_sparse g tot sparse rs =
     (if har_limit g < 1 \<and> tot \<noteq> 0 \<and> har_dquot g sparse tot > har_limit g
      then (case rs of [] \<Rightarrow> Inl NullDeref | r # rs \<Rightarrow> trim_sparse g tot (sparse - snd r) rs)
      else Inr rs)"

declare trim_sparse.simps [simp del]

definition print_sparse :: "(containerid \<times> int) list \<Rightarrow> byte list" where
  "print_sparse rs = concat (map (\<lambda>(i, sz). dec i @ [32] @ dec sz @ [10]) rs)"

record har_result =
  hr_sparse :: "byte list"        \<comment> \<open>\<open>recipes/bv<job>.sparse\<close>\<close>
  hr_manifest :: "byte list"
  hr_live :: int
  hr_sums :: har_sums
  hr_containers :: int            \<comment> \<open>\<open>jcr.total_container_num\<close>\<close>

definition close_har :: "har_cfg \<Rightarrow> (har_table \<Rightarrow> (containerid \<times> int) list) \<Rightarrow> bool \<Rightarrow> int \<Rightarrow> har_table \<Rightarrow> har_table \<Rightarrow> byte list option \<Rightarrow> har_result res" where
  "close_har g iter can_write job inherited monitor manifest =
     (if \<not> can_write then Inl ExitFailure
      else
        let s = fold (collect_sparse g inherited) (iter monitor)
              \<lparr>hs_seq = [], hs_total = 0, hs_sparse = 0, hs_sparse_num = 0, hs_inherited_num = 0\<rparr> in
        rbind (trim_sparse g (hs_total s) (hs_sparse s) (rev (hs_seq s))) (\<lambda>rs.
        rbind (update_manifest iter can_write job (map fst (iter monitor)) manifest) (\<lambda>(f, live).
          Inr \<lparr>hr_sparse = print_sparse (rev rs), hr_manifest = f, hr_live = live, hr_sums = s, hr_containers = int (length monitor)\<rparr>)))"

subsection \<open>What is inherited\<close>

lemma dec_no_nl: "b \<in> set (dec i) \<Longrightarrow> b \<noteq> 10 \<and> b \<noteq> 0"
proof -
  assume "b \<in> set (dec i)"
  then have "is_digit b \<or> b = 45" using dec_nat_digits by (auto simp: dec_def split: if_splits)
  then show ?thesis by (auto simp: is_digit_def word_le_nat_alt)
qed

lemma length_dec: "in64 i \<Longrightarrow> length (dec i) \<le> 20"
proof -
  assume "in64 i"
  then have "nat i < 10 ^ Suc 18" "nat (- i) < 10 ^ Suc 18" by (auto simp: in64_def nat_less_iff)
  from length_dec_nat [OF this(1)] length_dec_nat [OF this(2)] show ?thesis by (simp add: dec_def)
qed

lemma sparse_line:
  assumes "in64 i" "in64 sz"
  shows "fgets 128 (dec i @ 32 # dec sz @ 10 # s) = (dec i @ 32 # dec sz @ [10], s)" "scan_sparse junk (dec i @ 32 # dec sz @ [10]) = (i, sz)"
proof -
  let ?l = "dec i @ 32 # dec sz"
  have l: "takeWhile (\<lambda>b. b \<noteq> 10) (?l @ 10 # s) = ?l"
    using dec_no_nl by (subst takeWhile_append2) fastforce+
  have n: "length ?l \<le> 41" using length_dec [OF assms(1)] length_dec [OF assms(2)] by simp
  then have "min 127 (Suc (length ?l)) = Suc (length ?l)" by simp
  then show "fgets 128 (dec i @ 32 # dec sz @ 10 # s) = (dec i @ 32 # dec sz @ [10], s)"
    using l by (simp add: fgets_def Let_def)
  have "takeWhile (\<lambda>b. b \<noteq> 0) (dec i @ 32 # dec sz @ [10]) = dec i @ 32 # dec sz @ [10]"
    using dec_no_nl by (intro takeWhile_eq_all_conv [THEN iffD2]) auto
  moreover have "scan_int (32 # dec sz @ [10]) = Some (sz, [10])"
    by (simp add: scan_int_blank is_space_def scan_dec is_digit_def word_le_nat_alt)
  ultimately show "scan_sparse junk (dec i @ 32 # dec sz @ [10]) = (i, sz)"
    by (simp add: scan_sparse_def scan_dec is_digit_def word_le_nat_alt)
qed

lemma read_sparse_print:
  assumes "\<forall>(i, sz)\<in>set rs. in64 i \<and> in64 sz"
  shows "read_sparse junk (print_sparse rs) t = fold (\<lambda>(i, sz). AList.update i sz) rs t"
  using assms
proof (induction rs arbitrary: t)
  case Nil
  show ?case by (subst read_sparse.simps) (simp add: print_sparse_def)
next
  case (Cons r rs)
  obtain i sz where r: "r = (i, sz)" by (cases r)
  then have b: "in64 i" "in64 sz" using Cons.prems by auto
  have "print_sparse (r # rs) = dec i @ 32 # dec sz @ 10 # print_sparse rs" by (simp add: print_sparse_def r)
  with sparse_line [OF b] Cons show ?case by (subst read_sparse.simps) (auto simp: r)
qed


definition size_ok :: "containerid \<times> int \<Rightarrow> bool" where
  "size_ok r \<longleftrightarrow> in64 (fst r) \<and> 0 \<le> snd r \<and> in32 (snd r)"

lemma cmp_size: "size_ok a \<Longrightarrow> size_ok b \<Longrightarrow> g_record_cmp a b = snd a - snd b"
proof -
  assume "size_ok a" "size_ok b"
  then have "in32 (snd a - snd b)" by (simp add: size_ok_def in32_def)
  then show ?thesis by (simp add: g_record_cmp_def)
qed

lemma sorted_insert_size:
  assumes "\<forall>r\<in>set (x # rs). size_ok r" "sorted (map snd rs)"
  shows "sorted (map snd (insert_sorted g_record_cmp x rs))"
  using assms
proof (induction rs)
  case (Cons r rs)
  have c: "g_record_cmp r x = snd r - snd x" using Cons.prems(1) by (intro cmp_size) auto
  have "snd r \<le> snd y" if "y \<in> set rs" for y using Cons.prems(2) that by auto
  then have "snd x \<le> snd y" if "y \<in> set rs" "\<not> snd r \<le> snd x" for y using that by fastforce
  with Cons c show ?case by (auto simp: set_insert_sorted)
qed simp

definition sums_ok :: "har_cfg \<Rightarrow> (containerid \<times> int) list \<Rightarrow> har_sums \<Rightarrow> bool" where
  "sums_ok g rs s \<longleftrightarrow> mset (hs_seq s) = mset (filter (\<lambda>r. is_sparse g (snd r)) rs) \<and> sorted (map snd (hs_seq s)) \<and>
     hs_total s = sum_list (map snd rs) \<and> hs_sparse s = sum_list (map snd (hs_seq s)) \<and> hs_sparse_num s = int (length (hs_seq s))"

lemma sum_insert_sorted: "sum_list (map f (insert_sorted cmp x ys)) = f x + sum_list (map f ys)" for f :: "'a \<Rightarrow> int"
  by (induction ys) auto

lemma length_insert_sorted: "length (insert_sorted cmp x ys) = Suc (length ys)"
  by (induction ys) auto

lemma collect_step:
  assumes s: "sums_ok g rs s" and r: "\<forall>x\<in>set (rs @ [r]). size_ok x"
  shows "sums_ok g (rs @ [r]) (collect_sparse g inherited r s)"
proof -
  have "set (hs_seq s) \<subseteq> set rs" using s unfolding sums_ok_def by (metis mset_eq_setD filter_is_subset)
  then have "sorted (map snd (insert_sorted g_record_cmp r (hs_seq s)))"
    using s r by (intro sorted_insert_size) (auto simp: sums_ok_def)
  with s show ?thesis
    by (auto simp: sums_ok_def collect_sparse_def Let_def mset_insert_sorted sum_insert_sorted length_insert_sorted)
qed

lemma collect_ok:
  assumes "\<forall>r\<in>set rs. size_ok r"
  shows "sums_ok g rs (fold (collect_sparse g inherited) rs
     \<lparr>hs_seq = [], hs_total = 0, hs_sparse = 0, hs_sparse_num = 0, hs_inherited_num = 0\<rparr>)"
  using assms
proof (induction rs rule: rev_induct)
  case (snoc r rs)
  from snoc show ?case by (simp add: collect_step)
qed (simp add: sums_ok_def)

text \<open>Trimming keeps a beginning of the sequence (here, from its end, a rest of it), stops with the estimated rewriting within
  the limit, and removes a record only while it is not.\<close>

definition har_ok :: "har_cfg \<Rightarrow> bool" where
  "har_ok g \<longleftrightarrow> 0 \<le> har_limit g \<and> (\<forall>n. har_dquot g 0 n \<le> 0)"

lemma trim_ok:
  assumes "har_ok g"
  shows "\<exists>k. trim_sparse g tot (sum_list (map snd rs)) rs = Inr (drop k rs) \<and>
     (har_limit g < 1 \<and> tot \<noteq> 0 \<longrightarrow> har_dquot g (sum_list (map snd (drop k rs))) tot \<le> har_limit g) \<and>
     (har_limit g \<ge> 1 \<longrightarrow> k = 0) \<and> k \<le> length rs \<and>
     (\<forall>j<k. tot \<noteq> 0 \<and> har_limit g < har_dquot g (sum_list (map snd (drop j rs))) tot)"
proof (induction rs)
  case Nil
  show ?case using assms by (subst trim_sparse.simps) (auto simp: har_ok_def not_less intro: order_trans)
next
  case (Cons r rs)
  show ?case
  proof (cases "har_limit g < 1 \<and> tot \<noteq> 0 \<and> har_dquot g (sum_list (map snd (r # rs))) tot > har_limit g")
    case True
    have e: "sum_list (map snd (r # rs)) - snd r = sum_list (map snd rs)" by simp
    have t: "trim_sparse g tot (sum_list (map snd (r # rs))) (r # rs) = trim_sparse g tot (sum_list (map snd rs)) rs"
      using True by (subst trim_sparse.simps) (simp only: e if_True list.case simp_thms)
    from Cons obtain k where "trim_sparse g tot (sum_list (map snd rs)) rs = Inr (drop k rs)"
      "har_limit g < 1 \<and> tot \<noteq> 0 \<longrightarrow> har_dquot g (sum_list (map snd (drop k rs))) tot \<le> har_limit g"
      "k \<le> length rs" "\<forall>j<k. tot \<noteq> 0 \<and> har_limit g < har_dquot g (sum_list (map snd (drop j rs))) tot" by blast
    then show ?thesis using True unfolding t by (intro exI [of _ "Suc k"]) (auto simp: less_Suc_eq_0_disj)
  next
    case False
    then have "trim_sparse g tot (sum_list (map snd (r # rs))) (r # rs) = Inr (r # rs)"
      by (subst trim_sparse.simps) (simp only: if_False)
    then show ?thesis using False by (intro exI [of _ 0]) (auto simp: not_less)
  qed
qed

text \<open>The same from the front: of the sorted sequence, the longest beginning within the limit stays.\<close>

lemma trim_take:
  assumes "har_ok g"
  shows "\<exists>n\<le>length q. trim_sparse g tot (sum_list (map snd q)) (rev q) = Inr (rev (take n q)) \<and>
     (har_limit g < 1 \<and> tot \<noteq> 0 \<longrightarrow> har_dquot g (sum_list (map snd (take n q))) tot \<le> har_limit g) \<and>
     (har_limit g \<ge> 1 \<longrightarrow> n = length q) \<and>
     (\<forall>m. n < m \<and> m \<le> length q \<longrightarrow> tot \<noteq> 0 \<and> har_limit g < har_dquot g (sum_list (map snd (take m q))) tot)"
proof -
  have s: "sum_list (map snd (rev xs)) = sum_list (map snd xs)" for xs :: "(containerid \<times> int) list"
    by (simp add: rev_map [symmetric])
  have d: "drop (length q - n) (rev q) = rev (take n q)" if "n \<le> length q" for n
    using that by (simp add: rev_take)
  from trim_ok [OF assms, of tot "rev q"] obtain k where
    k: "trim_sparse g tot (sum_list (map snd q)) (rev q) = Inr (drop k (rev q))"
      "har_limit g < 1 \<and> tot \<noteq> 0 \<longrightarrow> har_dquot g (sum_list (map snd (drop k (rev q)))) tot \<le> har_limit g"
      "har_limit g \<ge> 1 \<longrightarrow> k = 0" "k \<le> length q"
      "\<forall>j<k. tot \<noteq> 0 \<and> har_limit g < har_dquot g (sum_list (map snd (drop j (rev q)))) tot"
    unfolding s by auto
  have "tot \<noteq> 0 \<and> har_limit g < har_dquot g (sum_list (map snd (take m q))) tot"
    if "length q - k < m" "m \<le> length q" for m
  proof -
    from that k(4) have "length q - m < k" by linarith
    with k(5) d [OF that(2)] show ?thesis by (metis s)
  qed
  moreover have "drop k (rev q) = rev (take (length q - k) q)" using d [of "length q - k"] k(4) by simp
  ultimately show ?thesis using k(1-3) s by (intro exI [of _ "length q - k"]) auto
qed

text \<open>C8: what a job inherits. Closing job \<open>j\<close> writes the file that job \<open>j + 1\<close> reads: the containers the next job treats as sparse
  are the least used of the containers that were used too little, as many of them as keep the estimated share of rewritten data
  within the limit (with one more it would exceed the limit, or there is no more), each with the bytes the monitor counted for it.\<close>

theorem har_inherits:
  assumes "iter_ok iter" and "distinct (map fst monitor)" and "\<forall>r\<in>set monitor. size_ok r" and "har_ok g"
    and "manifest_rep manifest m" and "0 \<le> job"
  shows "\<exists>r t k. close_har g iter True job inherited monitor manifest = Inr r \<and>
     init_har junk (job + 1) ((\<lambda>_. None)(job := Some (hr_sparse r))) = t \<and>
     t = take k (hs_seq (hr_sums r)) \<and> k \<le> length (hs_seq (hr_sums r)) \<and>
     mset (hs_seq (hr_sums r)) = mset (filter (\<lambda>(i, sz). is_sparse g sz) monitor) \<and> sorted (map snd (hs_seq (hr_sums r))) \<and>
     (har_limit g \<ge> 1 \<longrightarrow> mset t = mset (filter (\<lambda>(i, sz). is_sparse g sz) monitor)) \<and>
     (har_limit g < 1 \<and> sum_list (map snd monitor) \<noteq> 0 \<longrightarrow> har_dquot g (sum_list (map snd t)) (sum_list (map snd monitor)) \<le> har_limit g) \<and>
     (\<forall>n. k < n \<and> n \<le> length (hs_seq (hr_sums r)) \<longrightarrow> sum_list (map snd monitor) \<noteq> 0 \<and>
        har_limit g < har_dquot g (sum_list (map snd (take n (hs_seq (hr_sums r))))) (sum_list (map snd monitor))) \<and>
     manifest_rep (Some (hr_manifest r)) (\<lambda>c. if c \<in> fst ` set monitor then Some job else m c)"
proof -
  let ?rs = "iter monitor"
  have ms: "mset ?rs = mset monitor" using assms(1) by (simp add: iter_ok_def)
  then have set: "set ?rs = set monitor" by (metis set_mset_mset)
  let ?s = "fold (collect_sparse g inherited) ?rs \<lparr>hs_seq = [], hs_total = 0, hs_sparse = 0, hs_sparse_num = 0, hs_inherited_num = 0\<rparr>"
  have s: "sums_ok g ?rs ?s" using assms(3) set by (intro collect_ok) simp
  have tot: "hs_total ?s = sum_list (map snd monitor)"
    using s ms by (metis mset_map sum_mset_sum_list sums_ok_def)
  let ?q = "hs_seq ?s"
  have sp: "hs_sparse ?s = sum_list (map snd ?q)" using s by (simp add: sums_ok_def)
  from trim_take [OF assms(4), where q = "hs_seq ?s" and tot = "hs_total ?s"] obtain n where
    t: "trim_sparse g (hs_total ?s) (hs_sparse ?s) (rev ?q) = Inr (rev (take n ?q))"
      "har_limit g < 1 \<and> sum_list (map snd monitor) \<noteq> 0 \<longrightarrow> har_dquot g (sum_list (map snd (take n ?q))) (sum_list (map snd monitor)) \<le> har_limit g"
      "har_limit g \<ge> 1 \<longrightarrow> n = length ?q" "n \<le> length ?q"
      "\<forall>m. n < m \<and> m \<le> length ?q \<longrightarrow> sum_list (map snd monitor) \<noteq> 0 \<and>
         har_limit g < har_dquot g (sum_list (map snd (take m ?q))) (sum_list (map snd monitor))"
    unfolding sp tot by blast
  from update_manifest_ok [OF assms(5,1), of job "map fst ?rs"] obtain f live where
    f: "update_manifest iter True job (map fst ?rs) manifest = Inr (f, live)" "manifest_rep (Some f) (\<lambda>c. if c \<in> fst ` set monitor then Some job else m c)"
    by (auto simp: set)
  let ?r = "\<lparr>hr_sparse = print_sparse (take n ?q), hr_manifest = f, hr_live = live, hr_sums = ?s, hr_containers = int (length monitor)\<rparr>"
  have c: "close_har g iter True job inherited monitor manifest = Inr ?r"
    using t(1) f(1) by (simp add: close_har_def Let_def)
  have q: "mset ?q = mset (filter (\<lambda>r. is_sparse g (snd r)) monitor)" "sorted (map snd ?q)"
    using s ms by (simp_all add: sums_ok_def)
  have sub: "set ?q \<subseteq> set monitor" using mset_eq_setD [OF q(1)] by auto
  have "mset (map fst ?q) = mset (map fst (filter (\<lambda>r. is_sparse g (snd r)) monitor))" by (simp only: mset_map q(1))
  then have "distinct (map fst ?q)"
    using mset_eq_imp_distinct_iff distinct_map_filter [OF assms(2)] by blast
  then have "distinct (map fst ([] @ take n ?q))" by (simp add: take_map [symmetric] distinct_take)
  from fold_update_new [OF this] have fold: "fold (\<lambda>(i, sz). AList.update i sz) (take n ?q) [] = take n ?q" by simp
  have "size_ok r" if "r \<in> set (take n ?q)" for r using sub assms(3) in_set_takeD [OF that] by blast
  then have "\<forall>(i, sz)\<in>set (take n ?q). in64 i \<and> in64 sz" by (fastforce simp: size_ok_def intro: in32_in64)
  from read_sparse_print [OF this, of junk "[]"] fold
  have i: "init_har junk (job + 1) ((\<lambda>_. None)(job := Some (hr_sparse ?r))) = take n ?q" using assms(6) by (simp add: init_har_def)
  show ?thesis
    by (intro exI [of _ ?r] exI [of _ "take n ?q"] exI [of _ n] conjI) (use c i q t(2-5) f(2) in \<open>simp_all add: case_prod_unfold\<close>)
qed

theorem har_inherits_witness:
  "\<exists>g r. close_har g (\<lambda>t. t) True 0 [] [(1, 100), (2, 400), (3, 300), (4, 4000000)] None = Inr r \<and>
     har_limit g = 1 / 10000 \<and> map snd (init_har (0, 0) 1 ((\<lambda>_. None)(0 := Some (hr_sparse r)))) = [100, 300]"
proof -
  let ?g = "\<lparr>har_threshold = 1 / 2, har_limit = 1 / 10000, har_dquot = (\<lambda>a b. real_of_int a / real_of_int b)\<rparr>"
  let ?m = "[(1 :: int, 100 :: int), (2, 400), (3, 300), (4, 4000000)]"
  have a: "distinct (map fst ?m)" "\<forall>r\<in>set ?m. size_ok r" "har_ok ?g" "manifest_rep None Map.empty" "0 \<le> (0 :: int)"
    by (simp_all add: size_ok_def in64_def in32_def har_ok_def manifest_rep_def)
  have f: "filter (\<lambda>(i :: int, sz). is_sparse ?g sz) ?m = [(1, 100), (2, 400), (3, 300)]"
    by (simp add: is_sparse_def cfg_simps)
  obtain r k where r: "close_har ?g (\<lambda>t. t) True 0 [] ?m None = Inr r"
    "init_har (0, 0) 1 ((\<lambda>_. None)(0 := Some (hr_sparse r))) = take k (hs_seq (hr_sums r))" "k \<le> length (hs_seq (hr_sums r))"
    "mset (hs_seq (hr_sums r)) = mset [(1, 100), (2, 400), (3, 300)]" "sorted (map snd (hs_seq (hr_sums r)))"
    "real_of_int (sum_list (map snd (take k (hs_seq (hr_sums r))))) / 4000800 \<le> 1 / 10000"
    "\<forall>n. k < n \<and> n \<le> length (hs_seq (hr_sums r)) \<longrightarrow> 1 / 10000 < real_of_int (sum_list (map snd (take n (hs_seq (hr_sums r))))) / 4000800"
    using har_inherits [OF iter_ok_id a, of "[]" "(0, 0)"] unfolding f by (auto simp del: fun_upd_apply)
  have "map snd (hs_seq (hr_sums r)) = sort [100, 400, 300]"
    using r(4,5) by (intro properties_for_sort [symmetric]) (simp_all only: mset_map r(4), simp)
  then have q: "map snd (hs_seq (hr_sums r)) = [100, 300, 400]" by simp
  then have l: "length (hs_seq (hr_sums r)) = 3" by (metis length_map list.size(3,4) numeral_3_eq_3 add_0 plus_1_eq_Suc Suc_eq_plus1)
  have "k \<noteq> 3" using r(6) l q by (auto simp: take_map [symmetric])
  moreover have "\<not> k < 2" using r(7) [rule_format, of 2] l q by (auto simp: take_map [symmetric])
  ultimately have "k = 2" using r(3) l by linarith
  with r(1,2) q show ?thesis by (intro exI [of _ ?g] exI [of _ r]) (simp add: take_map [symmetric])
qed

end
