(* ===== verification/Config.thy ===== *)
theory Config
  imports Sds Chunk_Phase Rewrite_Phase Index Har Restore_Jobs
begin

text \<open>
  The configuration: the settings of \<open>struct destor\<close>, \<open>config.c\<close> (the directives of
  \<open>destor.config\<close> and of the option \<open>-p\<close>), the part of \<open>init_index\<close> that settles the index's
  settings, and \<open>destor_start\<close> and \<open>destor_shutdown\<close> of \<open>destor.c\<close> with the file \<open>destor.stat\<close>.

  A field with a fixed set of values has the datatype of the phase that reads it; the others are
  C \<open>int\<close>s, and \<open>atof\<close>, whose rounding is that of the platform, is an argument. Parsed arguments are
  byte lists; a C function on one sees the bytes before its first NUL. A fatal error of the reader,
  \<open>exit(1)\<close>, is \<open>ExitFailure\<close>.
\<close>

datatype trace_format = TRACE_DESTOR | TRACE_FSL

datatype index_specific =
  INDEX_SPECIFIC_NO | INDEX_SPECIFIC_DDFS | INDEX_SPECIFIC_EXTREME_BINNING | INDEX_SPECIFIC_SILO
  | INDEX_SPECIFIC_SPARSE | INDEX_SPECIFIC_SAMPLED | INDEX_SPECIFIC_BLOCK_LOCALITY_CACHING

datatype key_value_store = INDEX_KEY_VALUE_HTABLE | INDEX_KEY_VALUE_MYSQL

definition DESTOR_DEBUG :: int where "DESTOR_DEBUG = 0"
definition DESTOR_VERBOSE :: int where "DESTOR_VERBOSE = 1"
definition DESTOR_NOTICE :: int where "DESTOR_NOTICE = 2"
definition DESTOR_WARNING :: int where "DESTOR_WARNING = 3"
definition DESTOR_CONFIGLINE_MAX :: nat where "DESTOR_CONFIGLINE_MAX = 1024"

record destor =
  ds_working_directory :: sds
  ds_simulation_level :: int
  ds_trace_format :: trace_format
  ds_verbosity :: int
  ds_chunk_algorithm :: chunk_algorithm
  ds_chunk_max_size :: int
  ds_chunk_min_size :: int
  ds_chunk_avg_size :: int
  ds_restore_cache0 :: int
  ds_restore_cache1 :: int
  ds_restore_opt_window_size :: int
  ds_index_category0 :: category
  ds_index_category1 :: locality
  ds_index_specific :: index_specific
  ds_index_cache_size :: int
  ds_index_bloom_filter_size :: int
  ds_index_sampling_method0 :: sampling_algorithm
  ds_index_sampling_method1 :: int
  ds_index_key_value_store :: key_value_store
  ds_index_value_length :: int
  ds_index_key_size :: int
  ds_index_segment_algorithm0 :: segment_algorithm
  ds_index_segment_algorithm1 :: int
  ds_index_segment_min :: int
  ds_index_segment_max :: int
  ds_index_segment_selection_method0 :: selection
  ds_index_segment_selection_method1 :: int
  ds_index_segment_prefech :: int
  ds_rewrite_algorithm0 :: rewrite_algorithm
  ds_rewrite_algorithm1 :: int
  ds_rewrite_enable_cfl_switch :: int
  ds_rewrite_cfl_require :: real
  ds_rewrite_cfl_usage_threshold :: real
  ds_rewrite_cbr_limit :: real
  ds_rewrite_cbr_minimal_utility :: real
  ds_rewrite_capping_level :: int
  ds_rewrite_enable_har :: int
  ds_rewrite_har_utilization_threshold :: real
  ds_rewrite_har_rewrite_limit :: real
  ds_rewrite_enable_cache_aware :: int
  ds_chunk_num :: int
  ds_stored_chunk_num :: int
  ds_data_size :: int
  ds_stored_data_size :: int
  ds_zero_chunk_num :: int
  ds_zero_chunk_size :: int
  ds_rewritten_chunk_num :: int
  ds_rewritten_chunk_size :: int
  ds_index_memory_footprint :: int
  ds_live_container_num :: int
  ds_backup_retention_time :: int

subsection \<open>Comparing arguments\<close>

definition same_word :: "byte list \<Rightarrow> string \<Rightarrow> bool" where   \<comment> \<open>\<open>strcasecmp(t, s) == 0\<close>\<close>
  "same_word t s \<longleftrightarrow> map to_lower (till_nul t) = map to_lower (lit s)"

definition c_atoi :: "byte list \<Rightarrow> int" where
  "c_atoi t = int32 (atoi (till_nul t))"

definition yesnotoi :: "byte list \<Rightarrow> int" where
  "yesnotoi t = (if same_word t ''yes'' then 1 else if same_word t ''no'' then 0 else -1)"

text \<open>An access to the vector of arguments is checked: beyond \<open>argc\<close> it is out of bounds.\<close>

definition argv_at :: "byte list list \<Rightarrow> nat \<Rightarrow> byte list res" where   \<comment> \<open>\<open>argv[i]\<close>\<close>
  "argv_at argv i = (if i < length argv then Inr (argv ! i) else Inl OutOfBounds)"

text \<open>A chain of comparisons with one value for each word, and a fatal error at its end.\<close>

fun pick :: "(string \<times> 'a) list \<Rightarrow> byte list \<Rightarrow> 'a res" where
  "pick [] t = Inl ExitFailure"
| "pick ((s, x) # table) t = (if same_word t s then Inr x else pick table t)"

subsection \<open>The directives\<close>

definition set_specific :: "byte list \<Rightarrow> destor \<Rightarrow> destor res" where   \<comment> \<open>the fourth argument of \<open>fingerprint-index\<close>\<close>
  "set_specific t d =
     rbind (pick
       [(''ddfs'', (INDEX_CATEGORY_EXACT, INDEX_CATEGORY_PHYSICAL_LOCALITY, INDEX_SPECIFIC_DDFS)),
        (''sampled index'', (INDEX_CATEGORY_NEAR_EXACT, INDEX_CATEGORY_PHYSICAL_LOCALITY, INDEX_SPECIFIC_SAMPLED)),
        (''block locality caching'', (INDEX_CATEGORY_EXACT, INDEX_CATEGORY_LOGICAL_LOCALITY, INDEX_SPECIFIC_BLOCK_LOCALITY_CACHING)),
        (''extreme binning'', (INDEX_CATEGORY_NEAR_EXACT, INDEX_CATEGORY_LOGICAL_LOCALITY, INDEX_SPECIFIC_EXTREME_BINNING)),
        (''sparse index'', (INDEX_CATEGORY_NEAR_EXACT, INDEX_CATEGORY_LOGICAL_LOCALITY, INDEX_SPECIFIC_SPARSE)),
        (''silo'', (INDEX_CATEGORY_NEAR_EXACT, INDEX_CATEGORY_LOGICAL_LOCALITY, INDEX_SPECIFIC_SILO))] t)
     (\<lambda>(c0, c1, sp). rbind (c_assert (ds_index_category0 d = c0 \<and> ds_index_category1 d = c1)) (\<lambda>_.
       Inr (d\<lparr>ds_index_specific := sp\<rparr>)))"

definition set_index :: "byte list list \<Rightarrow> destor \<Rightarrow> destor res" where   \<comment> \<open>\<open>fingerprint-index\<close>\<close>
  "set_index argv d =
     rbind (argv_at argv 1) (\<lambda>v.
     rbind (pick [(''exact'', INDEX_CATEGORY_EXACT), (''near-exact'', INDEX_CATEGORY_NEAR_EXACT)] v) (\<lambda>c0.
     let d = d\<lparr>ds_index_category0 := c0\<rparr> in
     rbind (argv_at argv 2) (\<lambda>w.
     rbind (pick [(''physical'', INDEX_CATEGORY_PHYSICAL_LOCALITY), (''logical'', INDEX_CATEGORY_LOGICAL_LOCALITY)] w) (\<lambda>c1.
     let d = d\<lparr>ds_index_category1 := c1\<rparr> in
     if length argv > 3 then rbind (argv_at argv 3) (\<lambda>x. set_specific x d) else Inr d))))"

definition set_sampling :: "byte list list \<Rightarrow> destor \<Rightarrow> destor res" where   \<comment> \<open>\<open>fingerprint-index-sampling-method\<close>\<close>
  "set_sampling argv d =
     rbind (argv_at argv 1) (\<lambda>v.
     rbind (pick [(''optmin'', INDEX_SAMPLING_OPTIMIZED_MIN), (''random'', INDEX_SAMPLING_RANDOM),
                    (''min'', INDEX_SAMPLING_MIN), (''uniform'', INDEX_SAMPLING_UNIFORM)] v) (\<lambda>m.
     let d = d\<lparr>ds_index_sampling_method0 := m\<rparr> in
     if length argv > 2 then rbind (argv_at argv 2) (\<lambda>w. Inr (d\<lparr>ds_index_sampling_method1 := c_atoi w\<rparr>))
     else Inr (d\<lparr>ds_index_sampling_method1 := 0\<rparr>)))"

definition set_segmenting :: "byte list list \<Rightarrow> destor \<Rightarrow> destor res" where   \<comment> \<open>\<open>fingerprint-index-segment-algorithm\<close>\<close>
  "set_segmenting argv d =
     rbind (argv_at argv 1) (\<lambda>v.
     rbind (pick [(''fixed'', INDEX_SEGMENT_FIXED), (''file-defined'', INDEX_SEGMENT_FILE_DEFINED),
                    (''content-defined'', INDEX_SEGMENT_CONTENT_DEFINED)] v) (\<lambda>a.
     let d = d\<lparr>ds_index_segment_algorithm0 := a\<rparr> in
     if length argv > 2 then
       rbind (c_assert (a \<noteq> INDEX_SEGMENT_FILE_DEFINED)) (\<lambda>_.
       rbind (argv_at argv 2) (\<lambda>w. Inr (d\<lparr>ds_index_segment_algorithm1 := c_atoi w\<rparr>)))
     else Inr d))"

definition set_selection :: "byte list list \<Rightarrow> destor \<Rightarrow> destor res" where   \<comment> \<open>\<open>fingerprint-index-segment-selection\<close>\<close>
  "set_selection argv d =
     (let d = d\<lparr>ds_index_segment_selection_method1 := 1\<rparr> in
      rbind (argv_at argv 1) (\<lambda>v.
      if same_word v ''base'' then Inr (d\<lparr>ds_index_segment_selection_method0 := INDEX_SEGMENT_SELECT_BASE\<rparr>)
      else if same_word v ''top'' then
        let d = d\<lparr>ds_index_segment_selection_method0 := INDEX_SEGMENT_SELECT_TOP\<rparr> in
        if length argv > 2 then rbind (argv_at argv 2) (\<lambda>w. Inr (d\<lparr>ds_index_segment_selection_method1 := c_atoi w\<rparr>)) else Inr d
      else if same_word v ''mix'' then Inr (d\<lparr>ds_index_segment_selection_method0 := INDEX_SEGMENT_SELECT_MIX\<rparr>)
      else Inl ExitFailure))"

text \<open>In \<open>set_rewrite\<close>, the assertion of the code compares the array, not its first element, with
  \<open>REWRITE_NO\<close>, the integer 0: the address of an array is not null, so it holds.\<close>

definition set_rewrite :: "byte list list \<Rightarrow> destor \<Rightarrow> destor res" where   \<comment> \<open>\<open>rewrite-algorithm\<close>\<close>
  "set_rewrite argv d =
     rbind (argv_at argv 1) (\<lambda>v.
     rbind (pick [(''no'', REWRITE_NO),
                    (''cfl-based selective deduplication'', REWRITE_CFL_SELECTIVE_DEDUPLICATION), (''cfl'', REWRITE_CFL_SELECTIVE_DEDUPLICATION),
                    (''context-based rewriting'', REWRITE_CONTEXT_BASED), (''cbr'', REWRITE_CONTEXT_BASED),
                    (''capping'', REWRITE_CAPPING), (''cap'', REWRITE_CAPPING)] v) (\<lambda>a.
     let d = d\<lparr>ds_rewrite_algorithm0 := a\<rparr> in
     if length argv > 2 then rbind (argv_at argv 2) (\<lambda>w. Inr (d\<lparr>ds_rewrite_algorithm1 := c_atoi w\<rparr>))
     else Inr (d\<lparr>ds_rewrite_algorithm1 := 1024\<rparr>)))"

definition set_restore :: "byte list list \<Rightarrow> destor \<Rightarrow> destor res" where   \<comment> \<open>\<open>restore-cache\<close>\<close>
  "set_restore argv d =
     rbind (argv_at argv 1) (\<lambda>v.
     rbind (pick [(''lru'', RESTORE_CACHE_LRU), (''optimal cache'', RESTORE_CACHE_OPT), (''opt'', RESTORE_CACHE_OPT),
                    (''forward assembly'', RESTORE_CACHE_ASM), (''asm'', RESTORE_CACHE_ASM)] v) (\<lambda>k.
     let d = d\<lparr>ds_restore_cache0 := k\<rparr> in
     rbind (argv_at argv 2) (\<lambda>w. Inr (d\<lparr>ds_restore_cache1 := c_atoi w\<rparr>))))"

definition set_directory :: "(nat \<Rightarrow> byte) \<Rightarrow> byte list \<Rightarrow> destor \<Rightarrow> destor res" where   \<comment> \<open>\<open>working-directory\<close>\<close>
  "set_directory g t d =
     rbind (sdscpy g (ds_working_directory d) (c_str t)) (\<lambda>w.
     rbind (sdscat g w (c_str [47])) (\<lambda>w. Inr (d\<lparr>ds_working_directory := w\<rparr>)))"

definition directive :: "(byte list \<Rightarrow> real) \<Rightarrow> (nat \<Rightarrow> byte) \<Rightarrow> byte list list \<Rightarrow> destor \<Rightarrow> destor res" where
  "directive atof g argv d =
     (let argc = length argv in
      rbind (argv_at argv 0) (\<lambda>name.
      if same_word name ''working-directory'' \<and> argc = 2 then rbind (argv_at argv 1) (\<lambda>v. set_directory g v d)
      else if same_word name ''simulation-level'' \<and> argc = 2 then
        rbind (argv_at argv 1) (\<lambda>v. rbind (pick [(''all'', SIMULATION_ALL), (''append'', SIMULATION_APPEND), (''restore'', SIMULATION_RESTORE), (''no'', SIMULATION_NO)] v)
          (\<lambda>x. Inr (d\<lparr>ds_simulation_level := x\<rparr>)))
      else if same_word name ''trace-format'' \<and> argc = 2 then
        rbind (argv_at argv 1) (\<lambda>v. rbind (pick [(''destor'', TRACE_DESTOR), (''fsl'', TRACE_FSL)] v) (\<lambda>x. Inr (d\<lparr>ds_trace_format := x\<rparr>)))
      else if same_word name ''log-level'' \<and> argc = 2 then
        rbind (argv_at argv 1) (\<lambda>v. rbind (pick [(''debug'', DESTOR_DEBUG), (''verbose'', DESTOR_VERBOSE), (''notice'', DESTOR_NOTICE), (''warning'', DESTOR_WARNING)] v)
          (\<lambda>x. Inr (d\<lparr>ds_verbosity := x\<rparr>)))
      else if same_word name ''chunk-algorithm'' \<and> argc = 2 then
        rbind (argv_at argv 1) (\<lambda>v. rbind (pick [(''fixed'', CHUNK_FIXED), (''rabin'', CHUNK_RABIN), (''normalized rabin'', CHUNK_NORMALIZED_RABIN),
                       (''tttd'', CHUNK_TTTD), (''file'', CHUNK_FILE), (''ae'', CHUNK_AE)] v) (\<lambda>x. Inr (d\<lparr>ds_chunk_algorithm := x\<rparr>)))
      else if same_word name ''chunk-avg-size'' \<and> argc = 2 then rbind (argv_at argv 1) (\<lambda>v. Inr (d\<lparr>ds_chunk_avg_size := c_atoi v\<rparr>))
      else if same_word name ''chunk-max-size'' \<and> argc = 2 then rbind (argv_at argv 1) (\<lambda>v. Inr (d\<lparr>ds_chunk_max_size := c_atoi v\<rparr>))
      else if same_word name ''chunk-min-size'' \<and> argc = 2 then rbind (argv_at argv 1) (\<lambda>v. Inr (d\<lparr>ds_chunk_min_size := c_atoi v\<rparr>))
      else if same_word name ''fingerprint-index'' \<and> argc \<ge> 3 then set_index argv d
      else if same_word name ''fingerprint-index-cache-size'' \<and> argc = 2 then rbind (argv_at argv 1) (\<lambda>v. Inr (d\<lparr>ds_index_cache_size := c_atoi v\<rparr>))
      else if same_word name ''fingerprint-index-key-value'' \<and> argc = 2 then
        rbind (argv_at argv 1) (\<lambda>v. rbind (pick [(''htable'', INDEX_KEY_VALUE_HTABLE)] v) (\<lambda>x. Inr (d\<lparr>ds_index_key_value_store := x\<rparr>)))
      else if same_word name ''fingerprint-index-key-size'' \<and> argc = 2 then rbind (argv_at argv 1) (\<lambda>v. Inr (d\<lparr>ds_index_key_size := c_atoi v\<rparr>))
      else if same_word name ''fingerprint-index-value-length'' \<and> argc = 2 then rbind (argv_at argv 1) (\<lambda>v. Inr (d\<lparr>ds_index_value_length := c_atoi v\<rparr>))
      else if same_word name ''fingerprint-index-bloom-filter'' \<and> argc = 2 then rbind (argv_at argv 1) (\<lambda>v. Inr (d\<lparr>ds_index_bloom_filter_size := c_atoi v\<rparr>))
      else if same_word name ''fingerprint-index-sampling-method'' \<and> argc \<ge> 2 then set_sampling argv d
      else if same_word name ''fingerprint-index-segment-algorithm'' \<and> argc \<ge> 2 then set_segmenting argv d
      else if same_word name ''fingerprint-index-segment-boundary'' \<and> argc = 3 then
        rbind (argv_at argv 1) (\<lambda>v. rbind (argv_at argv 2) (\<lambda>w. Inr (d\<lparr>ds_index_segment_min := c_atoi v, ds_index_segment_max := c_atoi w\<rparr>)))
      else if same_word name ''fingerprint-index-segment-selection'' \<and> argc \<ge> 2 then set_selection argv d
      else if same_word name ''fingerprint-index-segment-prefetching'' \<and> argc = 2 then rbind (argv_at argv 1) (\<lambda>v. Inr (d\<lparr>ds_index_segment_prefech := c_atoi v\<rparr>))
      else if same_word name ''rewrite-algorithm'' \<and> argc \<ge> 2 then set_rewrite argv d
      else if same_word name ''rewrite-enable-cfl-switch'' \<and> argc = 2 then rbind (argv_at argv 1) (\<lambda>v. Inr (d\<lparr>ds_rewrite_enable_cfl_switch := yesnotoi v\<rparr>))
      else if same_word name ''rewrite-cfl-require'' \<and> argc = 2 then rbind (argv_at argv 1) (\<lambda>v. Inr (d\<lparr>ds_rewrite_cfl_require := atof (till_nul v)\<rparr>))
      else if same_word name ''rewrite-cfl-usage-threshold'' \<and> argc = 2 then rbind (argv_at argv 1) (\<lambda>v. Inr (d\<lparr>ds_rewrite_cfl_usage_threshold := atof (till_nul v)\<rparr>))
      else if same_word name ''rewrite-cbr-limit'' \<and> argc = 2 then rbind (argv_at argv 1) (\<lambda>v. Inr (d\<lparr>ds_rewrite_cbr_limit := atof (till_nul v)\<rparr>))
      else if same_word name ''rewrite-cbr-minimal-utility'' \<and> argc = 2 then rbind (argv_at argv 1) (\<lambda>v. Inr (d\<lparr>ds_rewrite_cbr_minimal_utility := atof (till_nul v)\<rparr>))
      else if same_word name ''rewrite-capping-level'' \<and> argc = 2 then rbind (argv_at argv 1) (\<lambda>v. Inr (d\<lparr>ds_rewrite_capping_level := c_atoi v\<rparr>))
      else if same_word name ''rewrite-enable-har'' \<and> argc = 2 then rbind (argv_at argv 1) (\<lambda>v. Inr (d\<lparr>ds_rewrite_enable_har := yesnotoi v\<rparr>))
      else if same_word name ''rewrite-har-utilization-threshold'' \<and> argc = 2 then rbind (argv_at argv 1) (\<lambda>v. Inr (d\<lparr>ds_rewrite_har_utilization_threshold := atof (till_nul v)\<rparr>))
      else if same_word name ''rewrite-har-rewrite-limit'' \<and> argc = 2 then rbind (argv_at argv 1) (\<lambda>v. Inr (d\<lparr>ds_rewrite_har_rewrite_limit := atof (till_nul v)\<rparr>))
      else if same_word name ''rewrite-enable-cache-aware'' \<and> argc = 2 then rbind (argv_at argv 1) (\<lambda>v. Inr (d\<lparr>ds_rewrite_enable_cache_aware := yesnotoi v\<rparr>))
      else if same_word name ''restore-cache'' \<and> argc = 3 then set_restore argv d
      else if same_word name ''restore-opt-window-size'' \<and> argc = 2 then rbind (argv_at argv 1) (\<lambda>v. Inr (d\<lparr>ds_restore_opt_window_size := c_atoi v\<rparr>))
      else if same_word name ''backup-retention-time'' \<and> argc = 2 then rbind (argv_at argv 1) (\<lambda>v. Inr (d\<lparr>ds_backup_retention_time := c_atoi v\<rparr>))
      else Inl ExitFailure))"

subsection \<open>The reader\<close>

definition config_line :: "(byte list \<Rightarrow> real) \<Rightarrow> (nat \<Rightarrow> byte) \<Rightarrow> sds \<Rightarrow> destor \<Rightarrow> destor res" where
  "config_line atof g line d =
     rbind (sdstrim line [32, 9, 13, 10]) (\<lambda>line.
     rbind (peek 0 1 (sd_buf line)) (\<lambda>c.
       if c = [35] \<or> c = [0] then Inr d
       else
         case sdssplitargs (till_nul (sd_buf line)) of
           None \<Rightarrow> Inl ExitFailure
         | Some argv \<Rightarrow>
             if argv = [] then Inr d
             else rbind (argv_at argv 0) (\<lambda>name. directive atof g (map to_lower name # tl argv) d)))"

definition load_config_from_string :: "(byte list \<Rightarrow> real) \<Rightarrow> (nat \<Rightarrow> byte) \<Rightarrow> sds \<Rightarrow> destor \<Rightarrow> destor res" where
  "load_config_from_string atof g config d =
     rbind (c_strlen (sd_buf config)) (\<lambda>n.
       case sdssplitlen (sd_buf config) (int32 (int n)) [10] 1 of
         None \<Rightarrow> Inl OutOfBounds   \<comment> \<open>a negative length\<close>
       | Some lines \<Rightarrow> rfold (config_line atof g) lines d)"

function read_config :: "(nat \<Rightarrow> byte) \<Rightarrow> byte list \<Rightarrow> sds \<Rightarrow> sds res" where
  "read_config g s config =
     (if s = [] then Inr config
      else let (buf, s) = fgets (DESTOR_CONFIGLINE_MAX + 1) s
           in rbind (sdscat g config (c_str buf)) (read_config g s))"
  by pat_completeness auto
termination by (relation "measure (\<lambda>(g, s, config). length s)") (auto simp: fgets_def Let_def DESTOR_CONFIGLINE_MAX_def)

declare read_config.simps [simp del]

definition load_config :: "(byte list \<Rightarrow> real) \<Rightarrow> (nat \<Rightarrow> byte) \<Rightarrow> byte list option \<Rightarrow> destor \<Rightarrow> destor res" where
  "load_config atof g file d =
     rbind sdsempty (\<lambda>config.
       case file of
         None \<Rightarrow> Inr d
       | Some s \<Rightarrow> rbind (read_config g s config) (\<lambda>config. load_config_from_string atof g config d))"

subsection \<open>What the index makes of its settings\<close>

definition at_least :: "int \<Rightarrow> int \<Rightarrow> int" where   \<comment> \<open>\<open>x > 1 ? x : n\<close>\<close>
  "at_least n x = (if x > 1 then x else n)"

definition settle_specific :: "destor \<Rightarrow> destor res" where
  "settle_specific d =
     (case ds_index_specific d of
        INDEX_SPECIFIC_DDFS \<Rightarrow>
          Inr (d\<lparr>ds_index_category0 := INDEX_CATEGORY_EXACT, ds_index_category1 := INDEX_CATEGORY_PHYSICAL_LOCALITY\<rparr>)
      | INDEX_SPECIFIC_BLOCK_LOCALITY_CACHING \<Rightarrow>
          Inr (d\<lparr>ds_index_category0 := INDEX_CATEGORY_EXACT, ds_index_category1 := INDEX_CATEGORY_LOGICAL_LOCALITY,
                 ds_index_sampling_method0 := INDEX_SAMPLING_UNIFORM, ds_index_sampling_method1 := 1,
                 ds_index_segment_prefech := at_least 16 (ds_index_segment_prefech d)\<rparr>)
      | INDEX_SPECIFIC_SAMPLED \<Rightarrow>
          Inr (d\<lparr>ds_index_category0 := INDEX_CATEGORY_NEAR_EXACT, ds_index_category1 := INDEX_CATEGORY_PHYSICAL_LOCALITY,
                 ds_index_sampling_method0 := INDEX_SAMPLING_UNIFORM,
                 ds_index_sampling_method1 := at_least 128 (ds_index_sampling_method1 d)\<rparr>)
      | INDEX_SPECIFIC_SPARSE \<Rightarrow>
          Inr (d\<lparr>ds_index_category0 := INDEX_CATEGORY_NEAR_EXACT, ds_index_category1 := INDEX_CATEGORY_LOGICAL_LOCALITY,
                 ds_index_segment_algorithm0 := INDEX_SEGMENT_CONTENT_DEFINED,
                 ds_index_segment_selection_method0 := INDEX_SEGMENT_SELECT_TOP,
                 ds_index_sampling_method0 := INDEX_SAMPLING_RANDOM,
                 ds_index_sampling_method1 := at_least 128 (ds_index_sampling_method1 d),
                 ds_index_segment_prefech := 1\<rparr>)
      | INDEX_SPECIFIC_SILO \<Rightarrow>
          Inr (d\<lparr>ds_index_category0 := INDEX_CATEGORY_NEAR_EXACT, ds_index_category1 := INDEX_CATEGORY_LOGICAL_LOCALITY,
                 ds_index_segment_algorithm0 := INDEX_SEGMENT_FIXED,
                 ds_index_segment_selection_method0 := INDEX_SEGMENT_SELECT_TOP,
                 ds_index_segment_selection_method1 := 1,
                 ds_index_sampling_method0 := INDEX_SAMPLING_MIN, ds_index_sampling_method1 := 0,
                 ds_index_segment_prefech := at_least 16 (ds_index_segment_prefech d)\<rparr>)
      | _ \<Rightarrow> Inl ExitFailure)"

definition adjust_index :: "destor \<Rightarrow> destor" where
  "adjust_index d =
     (let d = (if ds_index_category0 d = INDEX_CATEGORY_EXACT then d\<lparr>ds_index_key_size := 20\<rparr> else d) in
      if ds_index_category1 d = INDEX_CATEGORY_PHYSICAL_LOCALITY then
        let d = d\<lparr>ds_index_segment_algorithm0 := INDEX_SEGMENT_FIXED\<rparr> in
        if ds_index_category0 d = INDEX_CATEGORY_EXACT
        then d\<lparr>ds_index_sampling_method0 := INDEX_SAMPLING_UNIFORM, ds_index_sampling_method1 := 1\<rparr> else d
      else d)"

definition init_index_settings :: "destor \<Rightarrow> destor res" where
  "init_index_settings d =
     rbind (if ds_index_specific d \<noteq> INDEX_SPECIFIC_NO then settle_specific (d\<lparr>ds_index_key_size := 20\<rparr>) else Inr d) (\<lambda>d.
     let d = adjust_index d
     in rbind (c_assert (ds_index_key_size d > 0 \<and> ds_index_key_size d \<le> 20)) (\<lambda>_. Inr d))"

subsection \<open>Start and shutdown\<close>

text \<open>The static \<open>struct destor\<close> starts as zeros; \<open>destor_defaults\<close> is what the assignments before
  \<open>load_config\<close> make of it.\<close>

definition destor_defaults :: "sds \<Rightarrow> destor" where
  "destor_defaults w =
     \<lparr>ds_working_directory = w, ds_simulation_level = SIMULATION_NO, ds_trace_format = TRACE_DESTOR,
      ds_verbosity = DESTOR_WARNING, ds_chunk_algorithm = CHUNK_RABIN, ds_chunk_max_size = 65536,
      ds_chunk_min_size = 1024, ds_chunk_avg_size = 8192, ds_restore_cache0 = RESTORE_CACHE_LRU,
      ds_restore_cache1 = 1024, ds_restore_opt_window_size = 1000000,
      ds_index_category0 = INDEX_CATEGORY_NEAR_EXACT, ds_index_category1 = INDEX_CATEGORY_PHYSICAL_LOCALITY,
      ds_index_specific = INDEX_SPECIFIC_NO, ds_index_cache_size = 4096, ds_index_bloom_filter_size = 0,
      ds_index_sampling_method0 = INDEX_SAMPLING_UNIFORM, ds_index_sampling_method1 = 1,
      ds_index_key_value_store = INDEX_KEY_VALUE_HTABLE, ds_index_value_length = 1, ds_index_key_size = 20,
      ds_index_segment_algorithm0 = INDEX_SEGMENT_FIXED, ds_index_segment_algorithm1 = 1024,
      ds_index_segment_min = 128, ds_index_segment_max = 10240,
      ds_index_segment_selection_method0 = INDEX_SEGMENT_SELECT_TOP, ds_index_segment_selection_method1 = 1,
      ds_index_segment_prefech = 0, ds_rewrite_algorithm0 = REWRITE_NO, ds_rewrite_algorithm1 = 1024,
      ds_rewrite_enable_cfl_switch = 0, ds_rewrite_cfl_require = 0, ds_rewrite_cfl_usage_threshold = 0,
      ds_rewrite_cbr_limit = 0, ds_rewrite_cbr_minimal_utility = 0, ds_rewrite_capping_level = 0,
      ds_rewrite_enable_har = 0, ds_rewrite_har_utilization_threshold = 1 / 2, ds_rewrite_har_rewrite_limit = 1 / 20,
      ds_rewrite_enable_cache_aware = 0, ds_chunk_num = 0, ds_stored_chunk_num = 0, ds_data_size = 0,
      ds_stored_data_size = 0, ds_zero_chunk_num = 0, ds_zero_chunk_size = 0, ds_rewritten_chunk_num = 0,
      ds_rewritten_chunk_size = 0, ds_index_memory_footprint = 0, ds_live_container_num = 0,
      ds_backup_retention_time = -1\<rparr>"

definition check_simulation_level :: "int \<Rightarrow> int \<Rightarrow> unit res" where
  "check_simulation_level last_level current_level =
     (if last_level \<le> SIMULATION_RESTORE \<and> current_level \<ge> SIMULATION_APPEND
         \<or> last_level \<ge> SIMULATION_APPEND \<and> current_level \<le> SIMULATION_RESTORE
      then Inl ExitFailure else Inr ())"

definition stat_path :: "(nat \<Rightarrow> byte) \<Rightarrow> sds \<Rightarrow> byte list res" where   \<comment> \<open>the file name as \<open>fopen\<close> sees it\<close>
  "stat_path g w = rbind (sdsdup w) (\<lambda>p. rbind (sdscat g p (c_str (lit ''/destor.stat''))) (\<lambda>p. Inr (till_nul (sd_buf p))))"

text \<open>The file \<open>destor.stat\<close>, in host order \<open>be\<close>. \<open>junk\<close> is what the two local variables of
  \<open>destor_start\<close> hold before they are read.\<close>

definition read_stat :: "bool \<Rightarrow> int \<times> int \<Rightarrow> byte list \<Rightarrow> destor \<Rightarrow> destor res" where
  "read_stat be junk content d =
     (let s = \<lparr>st_file = content, st_pos = 0, st_writable = False\<rparr>;
          (a, s) = fread_int64 be (ds_chunk_num d) s;
          (b, s) = fread_int64 be (ds_stored_chunk_num d) s;
          (c, s) = fread_int64 be (ds_data_size d) s;
          (e, s) = fread_int64 be (ds_stored_data_size d) s;
          (f, s) = fread_int64 be (ds_zero_chunk_num d) s;
          (g, s) = fread_int64 be (ds_zero_chunk_size d) s;
          (h, s) = fread_int64 be (ds_rewritten_chunk_num d) s;
          (i, s) = fread_int64 be (ds_rewritten_chunk_size d) s;
          (j, s) = fread_int32 be (ds_index_memory_footprint d) s;
          (k, s) = fread_int32 be (ds_live_container_num d) s;
          d = d\<lparr>ds_chunk_num := a, ds_stored_chunk_num := b, ds_data_size := c, ds_stored_data_size := e,
                ds_zero_chunk_num := f, ds_zero_chunk_size := g, ds_rewritten_chunk_num := h,
                ds_rewritten_chunk_size := i, ds_index_memory_footprint := j, ds_live_container_num := k\<rparr>;
          (last_retention_time, s) = fread_int32 be (fst junk) s;
          (last_level, s) = fread_int32 be (snd junk) s
      in rbind (c_assert (last_retention_time = ds_backup_retention_time d)) (\<lambda>_.
         rbind (check_simulation_level last_level (ds_simulation_level d)) (\<lambda>_. Inr d)))"

definition clear_stat :: "destor \<Rightarrow> destor" where
  "clear_stat d = d\<lparr>ds_chunk_num := 0, ds_stored_chunk_num := 0, ds_data_size := 0, ds_stored_data_size := 0,
     ds_zero_chunk_num := 0, ds_zero_chunk_size := 0, ds_rewritten_chunk_num := 0, ds_rewritten_chunk_size := 0,
     ds_index_memory_footprint := 0, ds_live_container_num := 0\<rparr>"

definition destor_start ::
  "(byte list \<Rightarrow> real) \<Rightarrow> (nat \<Rightarrow> byte) \<Rightarrow> bool \<Rightarrow> int \<times> int \<Rightarrow> byte list option \<Rightarrow> (byte list \<Rightarrow> byte list option) \<Rightarrow> destor res" where
  "destor_start atof g be junk config files =
     rbind (sdsnew (Some (c_str (lit ''/home/data/working/'')))) (\<lambda>w.
     rbind (load_config atof g config (destor_defaults w)) (\<lambda>d.
     rbind (stat_path g (ds_working_directory d)) (\<lambda>p.
       case files p of
         Some content \<Rightarrow> read_stat be junk content d
       | None \<Rightarrow> Inr (clear_stat d))))"

definition write_stat :: "bool \<Rightarrow> destor \<Rightarrow> byte list" where
  "write_stat be d =
     st_file (fold fwrite
       [host_bytes be 8 (i64 (ds_chunk_num d)), host_bytes be 8 (i64 (ds_stored_chunk_num d)),
        host_bytes be 8 (i64 (ds_data_size d)), host_bytes be 8 (i64 (ds_stored_data_size d)),
        host_bytes be 8 (i64 (ds_zero_chunk_num d)), host_bytes be 8 (i64 (ds_zero_chunk_size d)),
        host_bytes be 8 (i64 (ds_rewritten_chunk_num d)), host_bytes be 8 (i64 (ds_rewritten_chunk_size d)),
        host_bytes be 4 (i32 (ds_index_memory_footprint d)), host_bytes be 4 (i32 (ds_live_container_num d)),
        host_bytes be 4 (i32 (ds_backup_retention_time d)), host_bytes be 4 (i32 (ds_simulation_level d))]
       \<lparr>st_file = [], st_pos = 0, st_writable = True\<rparr>)"

text \<open>\<open>can_open\<close> says which files can be opened for writing.\<close>

definition destor_shutdown ::
  "(nat \<Rightarrow> byte) \<Rightarrow> bool \<Rightarrow> (byte list \<Rightarrow> bool) \<Rightarrow> destor \<Rightarrow> (byte list \<Rightarrow> byte list option) \<Rightarrow> (byte list \<Rightarrow> byte list option) res" where
  "destor_shutdown g be can_open d files =
     rbind (stat_path g (ds_working_directory d)) (\<lambda>p.
       if can_open p then Inr (files(p \<mapsto> write_stat be d)) else Inl ExitFailure)"

end
