(* ===== verification/Sds_Laws.thy ===== *)
theory Sds_Laws
  imports Sds
begin

text \<open>
  What the operations of \<open>utils/sds.c\<close> do to a well-formed string, stated on its bytes, and the two
  round trips of the library: a line of quoted representations splits into the arguments they
  were made of, and joining the tokens of a split gives the string back.
\<close>

definition sds_limit :: nat where
  "sds_limit = 2 ^ 31 - 2 - 2 ^ 20"

definition sds_ok :: "sds \<Rightarrow> bool" where
  "sds_ok s \<longleftrightarrow> 0 \<le> sd_len s \<and> 0 \<le> sd_free s \<and> sd_len s + sd_free s < 2 ^ 31 - 1
     \<and> length (sd_buf s) = nat (sd_len s + sd_free s) + 1 \<and> sd_buf s ! nat (sd_len s) = 0"

definition sds_str :: "sds \<Rightarrow> byte list" where
  "sds_str s = take (nat (sd_len s)) (sd_buf s)"

definition sds_rep :: "sds \<Rightarrow> byte list \<Rightarrow> bool" where
  "sds_rep s xs \<longleftrightarrow> sds_ok s \<and> sds_str s = xs"

lemma int32_id [simp]: "in32 i \<Longrightarrow> int32 i = i"
  by (simp add: int32_def)

lemma size_t_nat [simp]: "n < 2 ^ 64 \<Longrightarrow> size_t (int n) = n"
  by (simp add: size_t_def)

lemma in32_int: "in32 (int n) \<longleftrightarrow> n < 2 ^ 31"
  by (simp add: in32_def)

text \<open>The shape of a well-formed string: its bytes, a NUL, and the free bytes.\<close>

definition mk :: "byte list \<Rightarrow> byte list \<Rightarrow> sds" where
  "mk xs rest = \<lparr>sd_len = int (length xs), sd_free = int (length rest), sd_buf = xs @ 0 # rest\<rparr>"

lemma mk_sel [simp]:
  "sd_len (mk xs rest) = int (length xs)" "sd_free (mk xs rest) = int (length rest)"
  "sd_buf (mk xs rest) = xs @ 0 # rest"
  by (simp_all add: mk_def)

lemma sds_rep_mk: "length xs + length rest < 2 ^ 31 - 1 \<Longrightarrow> sds_rep (mk xs rest) xs"
  by (simp add: sds_rep_def sds_ok_def sds_str_def nth_append)

lemma sds_repE:
  assumes "sds_rep s xs"
  obtains rest where "s = mk xs rest" and "length xs + length rest < 2 ^ 31 - 1"
proof -
  define n where "n = nat (sd_len s)"
  have ok: "sds_ok s" "xs = take n (sd_buf s)" using assms by (simp_all add: sds_rep_def sds_str_def n_def)
  then have n: "n < length (sd_buf s)" "sd_buf s ! n = 0" by (auto simp: sds_ok_def n_def)
  have "sd_buf s = xs @ 0 # drop (Suc n) (sd_buf s)" using ok(2) n id_take_nth_drop [OF n(1)] by simp
  moreover have "length xs = n" using n ok(2) by simp
  ultimately have "s = mk xs (drop (Suc n) (sd_buf s))" "length xs + length (drop (Suc n) (sd_buf s)) < 2 ^ 31 - 1"
    using ok(1) by (auto simp: sds_ok_def mk_def n_def intro!: sds.equality)
  then show ?thesis by (rule that)
qed

lemma sds_rep_iff: "sds_rep s xs \<longleftrightarrow> (\<exists>rest. s = mk xs rest \<and> length xs + length rest < 2 ^ 31 - 1)"
  by (metis sds_repE sds_rep_mk)

lemma sds_rep_len: "sds_rep s xs \<Longrightarrow> sdslen s = length xs \<and> length xs < 2 ^ 31 - 1"
  by (elim sds_repE) (simp add: sdslen_def)

lemma put_append:
  "n = length as \<Longrightarrow> length bs \<le> length cs \<Longrightarrow> put n bs (as @ cs) = Inr (as @ bs @ drop (length bs) cs)"
  by (simp add: put_def poke_def)

lemma peek_prefix: "peek 0 (length xs) (xs @ ys) = Inr xs"
  by (simp add: peek_def)

lemma peek_take: "n \<le> length t \<Longrightarrow> peek 0 n t = Inr (take n t)"
  by (simp add: peek_def)

subsection \<open>Making strings\<close>

lemma sds_of_rep: "length xs < 2 ^ 31 - 1 \<Longrightarrow> sds_rep (sds_of xs) xs"
  by (simp add: sds_rep_def sds_of_def sds_ok_def sds_str_def in32_int)

lemma sdsnewlen_ok: "n \<le> length t \<Longrightarrow> sdsnewlen (Some t) n = Inr (sds_of (take n t))"
  by (simp add: sdsnewlen_def peek_take sds_of_def)

lemma sdsnewlen_zeros: "sdsnewlen None n = Inr (sds_of (replicate n 0))"
  by (simp add: sdsnewlen_def sds_of_def)

lemma sdsempty_ok: "\<exists>s. sdsempty = Inr s \<and> sds_rep s []"
  by (simp add: sdsempty_def sdsnewlen_ok sds_of_rep)

lemma c_strlen_str: "0 \<notin> set xs \<Longrightarrow> c_strlen (xs @ 0 # ys) = Inr (length xs)"
proof -
  assume "0 \<notin> set xs"
  then have "takeWhile (\<lambda>b. b \<noteq> 0) (xs @ 0 # ys) = xs" by (subst takeWhile_append2) auto
  then show ?thesis by (simp add: c_strlen_def)
qed

lemma sdsnew_ok: "0 \<notin> set xs \<Longrightarrow> sdsnew (Some (c_str xs)) = Inr (sds_of xs)"
  by (simp add: sdsnew_def c_str_def c_strlen_str sdsnewlen_ok)

lemma sdsdup_ok: "sds_rep s xs \<Longrightarrow> sdsdup s = Inr (sds_of xs)"
  by (elim sds_repE) (simp add: sdsdup_def sdslen_def sdsnewlen_ok)

subsection \<open>Room\<close>

lemma make_room:
  assumes "sds_rep s xs" and "length xs + n \<le> sds_limit"
  shows "\<exists>rest. sdsMakeRoomFor g s n = mk xs rest \<and> n \<le> length rest \<and> length xs + length rest < 2 ^ 31 - 1"
proof -
  obtain rest where s: "s = mk xs rest" "length xs + length rest < 2 ^ 31 - 1" by (rule sds_repE [OF assms(1)])
  show ?thesis
  proof (cases "n \<le> length rest")
    case True
    then show ?thesis using s by (auto simp: sdsMakeRoomFor_def sdsavail_def)
  next
    case False
    define m where "m = length xs + n"
    define k where "k = (if m < SDS_MAX_PREALLOC then m * 2 else m + SDS_MAX_PREALLOC)"
    have k: "m \<le> k" "k < 2 ^ 31 - 1" using assms(2) by (auto simp: k_def m_def SDS_MAX_PREALLOC_def sds_limit_def)
    have "m mod 2 ^ 64 = m" "m < SDS_MAX_PREALLOC \<Longrightarrow> m * 2 mod 2 ^ 64 = m * 2"
      "\<not> m < SDS_MAX_PREALLOC \<Longrightarrow> (m + SDS_MAX_PREALLOC) mod 2 ^ 64 = m + SDS_MAX_PREALLOC"
      using k by (auto simp: k_def)
    then have "sdsMakeRoomFor g s n = s\<lparr>sd_free := int32 (int k - int (length xs)), sd_buf := realloc_buf g (k + 1) (xs @ 0 # rest)\<rparr>"
      using False s by (simp add: sdsMakeRoomFor_def sdsavail_def sdslen_def k_def flip: m_def)
    moreover have "int32 (int k - int (length xs)) = int (k - length xs)" using k by (simp add: m_def in32_def of_nat_diff)
    moreover have "realloc_buf g (k + 1) (xs @ 0 # rest) = xs @ 0 # (rest @ map g [length xs + length rest + 1..<k + 1])"
      using False k by (simp add: realloc_buf_def m_def)
    moreover obtain rest' where r: "rest' = rest @ map g [length xs + length rest + 1..<k + 1]" "length rest' = k - length xs"
      using False k by (simp add: m_def)
    ultimately have "sdsMakeRoomFor g s n = mk xs rest'"
      using s(1) by (simp only: r mk_def) simp
    then show ?thesis using k r(2) by (intro exI [of _ rest']) (simp add: m_def)
  qed
qed

lemma sdsMakeRoomFor_rep:
  assumes "sds_rep s xs" and "length xs + n \<le> sds_limit"
  shows "sds_rep (sdsMakeRoomFor g s n) xs" and "n \<le> sdsavail (sdsMakeRoomFor g s n)"
proof -
  obtain rest where r: "sdsMakeRoomFor g s n = mk xs rest" "n \<le> length rest" "length xs + length rest < 2 ^ 31 - 1"
    using make_room [OF assms, of g] by blast
  then show "sds_rep (sdsMakeRoomFor g s n) xs" "n \<le> sdsavail (sdsMakeRoomFor g s n)"
    by (simp_all add: sds_rep_mk sdsavail_def)
qed

lemma remove_free_ok: "sds_rep s xs \<Longrightarrow> sdsRemoveFreeSpace s = mk xs []"
  by (elim sds_repE) (simp add: sdsRemoveFreeSpace_def sdslen_def mk_def)

lemma alloc_size_ok:
  assumes "sds_rep s xs"
  shows "sdsAllocSize s = 8 + length (sd_buf s)"
proof -
  obtain rest where s: "s = mk xs rest" "length xs + length rest < 2 ^ 31 - 1" by (rule sds_repE [OF assms])
  define m where "m = 9 + length xs + length rest"
  have "8 + sd_len s + sd_free s + 1 = int m" "m < 2 ^ 64" using s by (simp_all add: m_def)
  then have "sdsAllocSize s = m" unfolding sdsAllocSize_def by (simp only: size_t_nat)
  then show ?thesis using s by (simp add: m_def)
qed

lemma incr_len_ok:
  assumes "sds_rep s xs" and "- int (length xs) \<le> i" and "i \<le> sd_free s"
  shows "\<exists>s'. sdsIncrLen s i = Inr s' \<and> sds_rep s' (take (nat (int (length xs) + i)) (sd_buf s))"
proof -
  obtain rest where s: "s = mk xs rest" "length xs + length rest < 2 ^ 31 - 1" by (rule sds_repE [OF assms(1)])
  define n where "n = nat (int (length xs) + i)"
  have n: "int (length xs) + i = int n" "n \<le> length xs + length rest" "int (length rest) - i = int (length xs + length rest - n)"
    using assms s by (auto simp: n_def)
  have "in32 (int (length rest) - i)" "in32 (int n)" using n s(2) by (simp_all add: in32_def)
  then have f: "int32 (int (length rest) - i) = int (length rest) - i" "int32 (int n) = int n" "i \<le> int (length rest)"
    using assms(3) s by simp_all
  define b where "b = xs @ 0 # rest"
  have b: "length b = length xs + length rest + 1" by (simp add: b_def)
  have p: "put n [0] b = Inr (take n b @ 0 # drop (n + 1) b)" using n b by (simp add: put_def poke_def)
  have "sdsIncrLen s i = Inr \<lparr>sd_len = int n, sd_free = int (length rest) - i, sd_buf = take n b @ 0 # drop (n + 1) b\<rparr>"
    using s n(1) f p by (simp add: sdsIncrLen_def mk_def flip: b_def)
  moreover have "\<lparr>sd_len = int n, sd_free = int (length rest) - i, sd_buf = take n b @ 0 # drop (n + 1) b\<rparr>
    = mk (take n b) (drop (n + 1) b)" using n b by (simp add: mk_def)
  moreover have "sds_rep (mk (take n b) (drop (n + 1) b)) (take n b)" using n b s(2) by (intro sds_rep_mk) simp
  ultimately show ?thesis using s by (simp add: n_def b_def)
qed

lemma incr_len_fails: "sd_free s < i \<Longrightarrow> sdsIncrLen s i = Inl AssertFailed"
  by (simp add: sdsIncrLen_def)

lemma clear_ok: "sds_rep s xs \<Longrightarrow> \<exists>s'. sdsclear s = Inr s' \<and> sds_rep s' []"
proof (elim sds_repE)
  fix rest assume s: "s = mk xs rest" "length xs + length rest < 2 ^ 31 - 1"
  then have "sdsclear s = Inr (mk [] (drop 1 (xs @ 0 # rest)))"
    by (simp add: sdsclear_def put_def poke_def in32_def mk_def Suc_diff_le)
  then show ?thesis using s(2) by (simp add: sds_rep_mk)
qed

lemma update_len_ok:
  assumes "sds_rep s xs"
  shows "\<exists>s'. sdsupdatelen s = Inr s' \<and> sds_rep s' (takeWhile (\<lambda>b. b \<noteq> 0) xs)"
proof -
  obtain rest where s: "s = mk xs rest" "length xs + length rest < 2 ^ 31 - 1" by (rule sds_repE [OF assms])
  define ys where "ys = takeWhile (\<lambda>b. b \<noteq> 0) xs"
  have "\<exists>zs. xs @ 0 # rest = ys @ 0 # zs"
  proof (cases "dropWhile (\<lambda>b. b \<noteq> 0) xs")
    case Nil
    then have "ys = xs" using takeWhile_dropWhile_id [of "\<lambda>b. b \<noteq> 0" xs] by (simp only: ys_def append_Nil2)
    then show ?thesis by blast
  next
    case (Cons a list)
    then have "a = 0" using hd_dropWhile [of "\<lambda>b. b \<noteq> 0" xs] by simp
    then show ?thesis using Cons takeWhile_dropWhile_id [of "\<lambda>b. b \<noteq> 0" xs] by (metis append.assoc append_Cons ys_def)
  qed
  then obtain zs where z: "xs @ 0 # rest = ys @ 0 # zs" by blast
  have ys: "0 \<notin> set ys" by (auto simp: ys_def dest: set_takeWhileD)
  have l: "length ys + length zs = length xs + length rest" using arg_cong [OF z, of length] by simp
  have "sdsupdatelen s = Inr (mk ys zs)"
    using s l c_strlen_str [OF ys, of zs] z by (auto simp: sdsupdatelen_def in32_def mk_def Let_def)
  then show ?thesis using s l by (simp add: sds_rep_mk flip: ys_def)
qed

subsection \<open>Appending and copying\<close>

lemma sdscatlen_ok:
  assumes "sds_rep s xs" and "n \<le> length t" and "length xs + n \<le> sds_limit"
  shows "\<exists>s'. sdscatlen g s t n = Inr s' \<and> sds_rep s' (xs @ take n t)"
proof -
  obtain rest where r: "sdsMakeRoomFor g s n = mk xs rest" "n \<le> length rest" "length xs + length rest < 2 ^ 31 - 1"
    using make_room [OF assms(1,3), of g] by blast
  define bs where "bs = take n t"
  have bs: "length bs = n" "peek 0 n t = Inr bs" using assms(2) by (simp_all add: bs_def peek_take)
  have p: "put (length xs) bs (xs @ 0 # rest) = Inr (xs @ bs @ drop n (0 # rest))" using put_append [of _ xs bs "0 # rest"] bs r by simp
  obtain y ys where y: "drop n (0 # rest) = y # ys" "length ys = length rest - n" using r(2)
    by (metis Suc_diff_le length_Cons length_drop length_Suc_conv)
  have q: "put (length xs + n) [0] (xs @ bs @ y # ys) = Inr (xs @ bs @ 0 # ys)"
    using put_append [of _ "xs @ bs" "[0]" "y # ys"] bs by simp
  have "sdscatlen g s t n = Inr (mk (xs @ bs) ys)"
    using r p q y bs sds_rep_len [OF assms(1)] by (simp add: sdscatlen_def in32_def mk_def)
  then show ?thesis using r y bs by (simp add: sds_rep_mk flip: bs_def)
qed

lemma sdscat_ok:
  assumes "sds_rep s xs" and "0 \<notin> set ys" and "length xs + length ys \<le> sds_limit"
  shows "\<exists>s'. sdscat g s (ys @ 0 # zs) = Inr s' \<and> sds_rep s' (xs @ ys)"
  using sdscatlen_ok [OF assms(1), of "length ys" "ys @ 0 # zs" g] assms(2,3) by (simp add: sdscat_def c_strlen_str)

lemma sdscatsds_ok:
  assumes "sds_rep s xs" and "sds_rep t ys" and "length xs + length ys \<le> sds_limit"
  shows "\<exists>s'. sdscatsds g s t = Inr s' \<and> sds_rep s' (xs @ ys)"
proof -
  obtain rest where t: "t = mk ys rest" "length ys + length rest < 2 ^ 31 - 1" by (rule sds_repE [OF assms(2)])
  then show ?thesis using sdscatlen_ok [OF assms(1), of "length ys" "sd_buf t" g] assms(3) by (simp add: sdscatsds_def sdslen_def)
qed

lemma sdscpylen_ok:
  assumes "sds_rep s xs" and "n \<le> length t" and "n \<le> sds_limit"
  shows "\<exists>s'. sdscpylen g s t n = Inr s' \<and> sds_rep s' (take n t)"
proof -
  obtain rest0 where s: "s = mk xs rest0" "length xs + length rest0 < 2 ^ 31 - 1" by (rule sds_repE [OF assms(1)])
  define s1 where "s1 = (if length xs + length rest0 < n then sdsMakeRoomFor g s (n - length xs) else s)"
  have "\<exists>rest. s1 = mk xs rest \<and> n \<le> length xs + length rest \<and> length xs + length rest < 2 ^ 31 - 1"
  proof (cases "length xs + length rest0 < n")
    case True
    with assms(3) obtain rest where "sdsMakeRoomFor g s (n - length xs) = mk xs rest" "n - length xs \<le> length rest"
      "length xs + length rest < 2 ^ 31 - 1" using make_room [OF assms(1), of "n - length xs" g] by auto
    then show ?thesis using True by (auto simp: s1_def)
  qed (use s in \<open>auto simp: s1_def\<close>)
  then obtain rest where r: "s1 = mk xs rest" "n \<le> length xs + length rest" "length xs + length rest < 2 ^ 31 - 1" by blast
  define bs where "bs = take n t"
  have bs: "length bs = n" "peek 0 n t = Inr bs" using assms(2) by (simp_all add: bs_def peek_take)
  obtain y ys where y: "drop n (xs @ 0 # rest) = y # ys" "length ys = length xs + length rest - n" using r(2)
    by (cases "drop n (xs @ 0 # rest)") (auto dest: arg_cong [of _ _ length])
  have p: "put 0 bs (xs @ 0 # rest) = Inr (bs @ y # ys)" using put_append [of 0 "[]" bs "xs @ 0 # rest"] bs r y by simp
  have q: "put n [0] (bs @ y # ys) = Inr (bs @ 0 # ys)" using put_append [of _ bs "[0]" "y # ys"] bs by simp
  have f: "size_t (sd_free s + sd_len s) = length xs + length rest0"
    using s size_t_nat [of "length xs + length rest0"] by (simp add: add.commute)
  have d: "size_t (int n - sd_len s) = n - length xs" if "length xs + length rest0 < n"
    using s that assms(3) size_t_nat [of "n - length xs"] by (simp add: of_nat_diff sds_limit_def)
  have "sdscpylen g s t n = Inr \<lparr>sd_len = int32 (int n), sd_free = int32 (sd_free s1 + sd_len s1 - int n), sd_buf = bs @ 0 # ys\<rparr>"
    using r p q bs f d by (simp add: sdscpylen_def Let_def s1_def split del: if_split cong: if_cong)
  also have "\<dots> = Inr (mk bs ys)" using r y bs by (simp add: mk_def in32_def)
  finally show ?thesis using r y bs by (simp add: sds_rep_mk flip: bs_def)
qed

lemma sdscpy_ok:
  assumes "sds_rep s xs" and "0 \<notin> set ys" and "length ys \<le> sds_limit"
  shows "\<exists>s'. sdscpy g s (ys @ 0 # zs) = Inr s' \<and> sds_rep s' ys"
  using sdscpylen_ok [OF assms(1), of "length ys" "ys @ 0 # zs" g] assms(2,3) by (simp add: sdscpy_def c_strlen_str)

lemma growzero_ok:
  assumes "sds_rep s xs" and "n \<le> sds_limit"
  shows "\<exists>s'. sdsgrowzero g s n = Inr s' \<and> sds_rep s' (xs @ replicate (n - length xs) 0)"
proof (cases "n \<le> length xs")
  case True
  then show ?thesis using assms sds_rep_len [OF assms(1)] by (simp add: sdsgrowzero_def)
next
  case False
  obtain rest where r: "sdsMakeRoomFor g s (n - length xs) = mk xs rest" "n - length xs \<le> length rest" "length xs + length rest < 2 ^ 31 - 1"
    using make_room [OF assms(1), of "n - length xs" g] assms(2) False by auto
  define zs where "zs = drop (n - length xs) rest"
  have "put (length xs) (replicate (n - length xs + 1) 0) (xs @ 0 # rest) = Inr (xs @ replicate (n - length xs + 1) 0 @ zs)"
    using put_append [of _ xs "replicate (n - length xs + 1) 0" "0 # rest"] r by (simp add: zs_def)
  then have "sdsgrowzero g s n = Inr (mk (xs @ replicate (n - length xs) 0) zs)"
    using r False sds_rep_len [OF assms(1)] assms(2)
    by (simp add: sdsgrowzero_def in32_def mk_def zs_def sds_limit_def Let_def replicate_app_Cons_same)
  then show ?thesis using r False by (simp add: sds_rep_mk zs_def)
qed

text \<open>The formatted text is appended whole: the buffer grows until it holds it.\<close>

lemma vprintf_buf_ok: "0 \<notin> set out \<Longrightarrow> vprintf_buf out k = out @ [0]"
proof (induction out k rule: vprintf_buf.induct)
  case (1 out k)
  define n where "n = 16 * (2 :: nat) ^ k"
  have "out ! (n - 2) \<noteq> 0" if "n - 2 < length out" using "1.prems" that by (metis nth_mem)
  moreover have "2 \<le> n" by (simp add: n_def)
  ultimately show ?case using "1.IH" [OF n_def] "1.prems"
    by (subst vprintf_buf.simps) (simp flip: n_def)
qed

lemma sdscatprintf_ok:
  assumes "sds_rep s xs" and "0 \<notin> set out" and "length xs + length out \<le> sds_limit"
  shows "\<exists>s'. sdscatprintf g s out = Inr s' \<and> sds_rep s' (xs @ out)"
  using sdscat_ok [OF assms, of g "[]"] by (simp add: sdscatprintf_def sdscatvprintf_def vprintf_buf_ok assms(2))

subsection \<open>Trimming and taking a range\<close>

text \<open>Moving a part of the string to its front.\<close>

lemma move_front:
  assumes "s = mk xs rest" and "length xs + length rest < 2 ^ 31 - 1" and "i + n \<le> length xs"
  shows "\<exists>s'. rbind (if i \<noteq> 0 then rbind (peek i n (sd_buf s)) (\<lambda>bs. put 0 bs (sd_buf s)) else Inr (sd_buf s)) (\<lambda>buf.
           rbind (put n [0] buf) (\<lambda>buf.
             Inr \<lparr>sd_len = int32 (int n), sd_free = int32 (sd_free s + (sd_len s - int n)), sd_buf = buf\<rparr>))
           = Inr s' \<and> sds_rep s' (take n (drop i xs))"
proof -
  define b where "b = xs @ 0 # rest"
  define ys where "ys = take n (drop i xs)"
  have ys: "length ys = n" "peek i n b = Inr ys" using assms(3) by (simp_all add: ys_def peek_def b_def)
  obtain zs where z: "(if i \<noteq> 0 then rbind (peek i n b) (\<lambda>bs. put 0 bs b) else Inr b) = Inr (ys @ zs)" "length zs = length b - n"
  proof (cases "i = 0")
    case True
    then show ?thesis using assms(3) that [of "drop n b"] by (auto simp: ys_def b_def take_append)
  next
    case False
    then show ?thesis using assms(3) ys that [of "drop n b"] put_append [of 0 "[]" ys b] by (simp add: b_def)
  qed
  obtain z0 rest' where zs: "zs = z0 # rest'" "length rest' = length xs + length rest - n"
    using z(2) assms(3) by (cases zs) (auto simp: b_def)
  have "put n [0] (ys @ z0 # rest') = Inr (ys @ 0 # rest')" using put_append [of n ys "[0]" "z0 # rest'"] ys by simp
  moreover have "int32 (int n) = int n" "int32 (int (length rest) + (int (length xs) - int n)) = int (length rest')"
    using assms(2,3) zs(2) by (simp_all add: in32_def)
  moreover have "sds_rep (mk ys rest') ys" using assms(2,3) ys zs by (intro sds_rep_mk) simp
  moreover have sel: "sd_buf s = b" "sd_free s = int (length rest)" "sd_len s = int (length xs)" using assms(1) by (simp_all add: b_def)
  ultimately show ?thesis unfolding sel z(1) zs(1) ys_def [symmetric] using ys(1) by (simp add: mk_def)
qed

lemma trim_sp_ok:
  assumes "sp \<le> length xs" and "length xs \<le> length s" and "take (length xs) s = xs"
  shows "trim_sp cset s (int sp) (int (length xs) - 1) = int (sp + length (takeWhile (in_cset cset) (drop sp xs)))"
  using assms(1)
proof (induction "length xs - sp" arbitrary: sp)
  case 0
  then show ?case by (subst trim_sp.simps) simp
next
  case (Suc n)
  then have sp: "sp < length xs" by simp
  then have e: "s ! sp = xs ! sp" using assms(3) by (metis nth_take)
  have "drop sp xs = xs ! sp # drop (Suc sp) xs" using sp by (rule Cons_nth_drop_Suc [symmetric])
  moreover have "trim_sp cset s (int (Suc sp)) (int (length xs) - 1) = int (Suc sp + length (takeWhile (in_cset cset) (drop (Suc sp) xs)))"
    using Suc sp by (intro Suc.hyps(1)) auto
  ultimately show ?case using sp e by (subst trim_sp.simps) (simp add: add.commute)
qed

lemma trim_ep_ok:
  assumes "n < length xs" and "take (length xs) s = xs" and "j \<le> n" and "\<not> in_cset cset (xs ! j)"
    and "\<forall>k. j < k \<and> k \<le> n \<longrightarrow> in_cset cset (xs ! k)"
  shows "trim_ep cset s (int n) = int j"
  using assms(1,3,5)
proof (induction n)
  case 0
  then show ?case by (subst trim_ep.simps) simp
next
  case (Suc n)
  have e: "s ! nat (1 + int n) = xs ! Suc n" using nat_int [of "Suc n"] assms(2) Suc.prems(1) by (metis nth_take of_nat_Suc)
  show ?case
  proof (cases "j = Suc n")
    case True
    then show ?thesis using e assms(4) by (subst trim_ep.simps) simp
  next
    case False
    then have "trim_ep cset s (int n) = int j" using Suc by auto
    then show ?thesis using e False Suc.prems by (subst trim_ep.simps) simp
  qed
qed

lemma trim_ep_all:
  assumes "n < length xs" and "take (length xs) s = xs" and "\<forall>k\<le>n. in_cset cset (xs ! k)"
  shows "trim_ep cset s (int n) = 0"
  using assms(1,3)
proof (induction n)
  case 0
  then show ?case by (subst trim_ep.simps) simp
next
  case (Suc n)
  have "s ! nat (1 + int n) = xs ! Suc n" using nat_int [of "Suc n"] assms(2) Suc.prems(1) by (metis nth_take of_nat_Suc)
  then show ?case using Suc by (subst trim_ep.simps) simp
qed

definition trimmed :: "(byte \<Rightarrow> bool) \<Rightarrow> byte list \<Rightarrow> byte list" where
  "trimmed P xs = rev (dropWhile P (rev (dropWhile P xs)))"

lemma trimmed_split:
  assumes "\<not> P x" and "\<forall>z\<in>set zs. P z"
  shows "trimmed P (ys @ x # zs) = dropWhile P (ys @ [x])"
proof -
  have d: "dropWhile P (ys @ x # zs) = dropWhile P (ys @ [x]) @ zs" using assms(1) by (induction ys) auto
  have "\<exists>us. dropWhile P (ys @ [x]) = us @ [x]" using assms(1) by (induction ys) auto
  then obtain us where u: "dropWhile P (ys @ [x]) = us @ [x]" by blast
  have "dropWhile P (rev zs @ rev (us @ [x])) = rev (us @ [x])" using assms by (subst dropWhile_append2) auto
  then show ?thesis by (simp add: trimmed_def d u)
qed

lemma trimmed_all: "\<forall>x\<in>set xs. P x \<Longrightarrow> trimmed P xs = []"
  by (auto simp: trimmed_def dest: set_dropWhileD)

lemma takeWhile_skip: "\<not> P x \<Longrightarrow> length (takeWhile P (ys @ x # zs)) \<le> length ys"
  by (induction ys) auto

lemma sdstrim_ok:
  assumes "sds_rep s xs"
  shows "\<exists>s'. sdstrim s cset = Inr s' \<and> sds_rep s' (trimmed (in_cset cset) xs)"
proof -
  let ?P = "in_cset cset"
  obtain rest where s: "s = mk xs rest" "length xs + length rest < 2 ^ 31 - 1" by (rule sds_repE [OF assms])
  define b where "b = xs @ 0 # rest"
  have b: "take (length xs) b = xs" "length xs \<le> length b" by (simp_all add: b_def)
  define i where "i = length (takeWhile ?P xs)"
  have sp: "trim_sp cset b 0 (int (length xs) - 1) = int i"
    using trim_sp_ok [of 0 xs b cset] b by (simp add: i_def)
  have "\<exists>n. i + n \<le> length xs \<and> take n (drop i xs) = trimmed ?P xs
    \<and> (if int i > trim_ep cset b (int (length xs) - 1) then 0 else nat (trim_ep cset b (int (length xs) - 1) - int i + 1)) = n"
  proof (cases "\<forall>x\<in>set xs. ?P x")
    case True
    then have i: "i = length xs" by (simp add: i_def takeWhile_eq_all_conv [THEN iffD2])
    have "trim_ep cset b (int (length xs) - 1) = (if xs = [] then -1 else 0)"
    proof (cases xs)
      case (Cons x ys)
      have "\<forall>k\<le>length ys. ?P (xs ! k)" using True Cons by (metis le_imp_less_Suc length_Cons nth_mem)
      then have "trim_ep cset b (int (length ys)) = 0" using b Cons by (intro trim_ep_all [of _ xs]) auto
      then show ?thesis using Cons by simp
    qed (subst trim_ep.simps, simp)
    then show ?thesis using True i by (auto simp: trimmed_all)
  next
    case False
    then obtain ys x zs where x: "xs = ys @ x # zs" "\<not> ?P x" "\<forall>z\<in>set zs. ?P z"
      using split_list_last_prop [of xs "\<lambda>x. \<not> ?P x"] by blast
    have "\<forall>k. length ys < k \<and> k \<le> length xs - 1 \<longrightarrow> ?P (xs ! k)"
    proof (intro allI impI)
      fix k assume k: "length ys < k \<and> k \<le> length xs - 1"
      then have "xs ! k = zs ! (k - length ys - 1)" by (simp add: x(1) nth_append)
      moreover have "zs ! (k - length ys - 1) \<in> set zs" using k x(1) by (intro nth_mem) auto
      ultimately show "?P (xs ! k)" using x(3) by simp
    qed
    then have "trim_ep cset b (int (length xs - 1)) = int (length ys)" using x(1,2) b by (intro trim_ep_ok [of _ xs]) auto
    moreover have "int (length xs - 1) = int (length xs) - 1" using x(1) by simp
    moreover have i: "i \<le> length ys" unfolding i_def x(1) using x(2) by (rule takeWhile_skip)
    moreover have "take (length ys + 1 - i) (drop i xs) = trimmed ?P xs"
    proof -
      have "takeWhile ?P xs = takeWhile ?P (ys @ [x])" using x(2) unfolding x(1) by (induction ys) auto
      then have "trimmed ?P xs = drop i (ys @ [x])" using x by (simp add: trimmed_split dropWhile_eq_drop i_def)
      then show ?thesis using i by (simp add: x(1) drop_append take_append)
    qed
    ultimately show ?thesis using x(1) by (intro exI [of _ "length ys + 1 - i"]) auto
  qed
  then obtain n where n: "i + n \<le> length xs" "take n (drop i xs) = trimmed ?P xs"
    "(if int i > trim_ep cset b (int (length xs) - 1) then 0 else nat (trim_ep cset b (int (length xs) - 1) - int i + 1)) = n"
    by blast
  have len: "sdslen s = length xs" "sd_buf s = b" using sds_rep_len [OF assms] s by (simp_all add: b_def)
  show ?thesis using move_front [OF s n(1), unfolded n(2) len]
    unfolding sdstrim_def Let_def len sp n(3) by (simp only: nat_int of_nat_eq_0_iff)
qed

text \<open>The bytes that \<open>sdsrange\<close> keeps: negative indices count from the end.\<close>

definition range_of :: "byte list \<Rightarrow> int \<Rightarrow> int \<Rightarrow> byte list" where
  "range_of xs st en =
     (let at = (\<lambda>i. if i < 0 then max 0 (int (length xs) + i) else i)
      in if at st > at en then [] else take (nat (at en - at st + 1)) (drop (nat (at st)) xs))"

lemma range_bounds_ok:
  assumes "length xs < 2 ^ 31 - 1" and "in32 st" and "in32 en" and "range_bounds (length xs) st en = (a, m)"
  shows "0 \<le> a \<and> (nat a + m \<le> length xs \<or> m = 0) \<and> take m (drop (nat a) xs) = range_of xs st en"
proof -
  define at where "at = (\<lambda>i. if i < 0 then max 0 (int (length xs) + i) else i)"
  have at: "(if i < 0 then max 0 (int32 (int (length xs) + i)) else i) = at i" "0 \<le> at i" if "in32 i" for i
    using that assms(1) by (auto simp: at_def in32_def)
  have n32: "int32 (int (length xs)) = int (length xs)" "int32 (int (length xs) - 1) = int (length xs) - 1"
    using assms(1) by (simp_all add: in32_def)
  define u where "u = at st"
  define v where "v = at en"
  have uv: "0 \<le> u" "0 \<le> v" using at(2) assms(2,3) by (simp_all add: u_def v_def)
  have r: "range_of xs st en = (if u > v then [] else take (nat (v - u + 1)) (drop (nat u) xs))"
    by (simp add: range_of_def Let_def u_def v_def at_def)
  have "range_bounds (length xs) st en =
    (if range_newlen u v \<noteq> 0 then if u \<ge> int (length xs) then (u, 0)
       else if v \<ge> int (length xs) then (u, range_newlen u (int (length xs) - 1)) else (u, range_newlen u v)
     else (0, range_newlen u v))"
    unfolding range_bounds_def Let_def at(1) [OF assms(2)] at(1) [OF assms(3)] n32 u_def v_def ..
  then show ?thesis using assms(4) uv unfolding r range_newlen_def
    by (auto split: if_splits simp: nat_add_distrib)
qed

lemma sdsrange_ok:
  assumes "sds_rep s xs" and "in32 st" and "in32 en"
  shows "\<exists>s'. sdsrange s st en = Inr s' \<and> sds_rep s' (range_of xs st en)"
proof -
  obtain rest where s: "s = mk xs rest" "length xs + length rest < 2 ^ 31 - 1" by (rule sds_repE [OF assms(1)])
  have len: "sdslen s = length xs" using sds_rep_len [OF assms(1)] by simp
  obtain a m where am: "range_bounds (length xs) st en = (a, m)" by fastforce
  have b: "0 \<le> a" "nat a + m \<le> length xs \<or> m = 0" "take m (drop (nat a) xs) = range_of xs st en"
    using range_bounds_ok [OF _ assms(2,3) am] s(2) by auto
  show ?thesis
  proof (cases "xs = []")
    case True
    then show ?thesis using s len sds_rep_mk [of xs rest] by (simp add: sdsrange_def range_of_def)
  next
    case xs: False
    show ?thesis
    proof (cases "m = 0")
      case True
      then show ?thesis using move_front [OF s, of 0 0] b(3) xs len am by (simp add: sdsrange_def)
    next
      case False
      then show ?thesis using move_front [OF s, of "nat a" m] b xs len am by (simp add: sdsrange_def)
    qed
  qed
qed

subsection \<open>Mapping, comparing, printing\<close>

lemma map_str_steps:
  "rfold (\<lambda>j s. rbind (peek j 1 (sd_buf s)) (\<lambda>b. rbind (put j (map f b) (sd_buf s)) (\<lambda>buf. Inr (s\<lparr>sd_buf := buf\<rparr>))))
     [length as..<length as + length bs] (mk (as @ bs) rest) = Inr (mk (as @ map f bs) rest)"
proof (induction bs arbitrary: as)
  case (Cons b bs)
  have "[length as..<length as + length (b # bs)] = length as # [length (as @ [f b])..<length (as @ [f b]) + length bs]"
    by (simp add: upt_conv_Cons del: upt_Suc)
  moreover have "peek (length as) 1 (as @ b # bs @ 0 # rest) = Inr [b]" by (simp add: peek_def)
  moreover have "put (length as) [f b] (as @ b # bs @ 0 # rest) = Inr (as @ f b # bs @ 0 # rest)"
    using put_append [of _ as "[f b]" "b # bs @ 0 # rest"] by simp
  ultimately show ?case using Cons.IH [of "as @ [f b]"] by (simp add: mk_def del: upt_Suc)
qed simp

lemma map_str_ok:
  assumes "sds_rep s xs"
  shows "\<exists>s'. map_str f s = Inr s' \<and> sds_rep s' (map f xs)"
proof -
  obtain rest where s: "s = mk xs rest" "length xs + length rest < 2 ^ 31 - 1" by (rule sds_repE [OF assms])
  then show ?thesis using map_str_steps [of f "[]" xs rest] by (simp add: map_str_def sds_rep_mk)
qed

lemma sdstolower_ok: "sds_rep s xs \<Longrightarrow> \<exists>s'. sdstolower s = Inr s' \<and> sds_rep s' (map to_lower xs)"
  unfolding sdstolower_def by (rule map_str_ok)

lemma sdstoupper_ok: "sds_rep s xs \<Longrightarrow> \<exists>s'. sdstoupper s = Inr s' \<and> sds_rep s' (map to_upper xs)"
  unfolding sdstoupper_def by (rule map_str_ok)

lemma sdsmapchars_ok:
  "sds_rep s xs \<Longrightarrow> n \<le> length fs \<Longrightarrow> n \<le> length ts \<Longrightarrow>
     \<exists>s'. sdsmapchars s fs ts n = Inr s' \<and> sds_rep s' (map (map_char (take n fs) (take n ts)) xs)"
  by (simp add: sdsmapchars_def peek_take map_str_ok)

lemma sdscmp_eq:
  assumes "sds_rep s xs" and "sds_rep t ys"
  shows "\<exists>c. sdscmp s t = Inr c \<and> (c = 0 \<longleftrightarrow> xs = ys)"
proof -
  obtain r1 where s: "s = mk xs r1" "length xs + length r1 < 2 ^ 31 - 1" by (rule sds_repE [OF assms(1)])
  obtain r2 where t: "t = mk ys r2" "length ys + length r2 < 2 ^ 31 - 1" by (rule sds_repE [OF assms(2)])
  define m where "m = min (length xs) (length ys)"
  have p: "peek 0 m (xs @ 0 # r1) = Inr (take m xs)" "peek 0 m (ys @ 0 # r2) = Inr (take m ys)" by (simp_all add: peek_def m_def)
  have c: "memcmp (take m xs) (take m ys) = 0 \<longleftrightarrow> take m xs = take m ys" by (rule memcmp_0) (simp add: m_def)
  have d: "int32 (int (length xs) - int (length ys)) = int (length xs) - int (length ys)"
    using s t by (intro int32_id) (simp add: in32_def)
  have "sdscmp s t = Inr (if memcmp (take m xs) (take m ys) = 0 then int (length xs) - int (length ys) else memcmp (take m xs) (take m ys))"
    using s t p d by (simp add: sdscmp_def sdslen_def Let_def flip: m_def)
  moreover have "length xs = length ys \<Longrightarrow> take m xs = take m ys \<longleftrightarrow> xs = ys" by (simp add: m_def)
  ultimately show ?thesis using c by auto
qed

lemma ll_digits_dec: "ll_digits v p = dec_nat v @ p"
proof (induction v p rule: ll_digits.induct)
  case (1 v p)
  show ?case
  proof (cases "v < 10")
    case True
    then show ?thesis by (subst ll_digits.simps, subst dec_nat.simps) simp
  next
    case False
    then have "v div 10 \<noteq> 0" "ll_digits (v div 10) (digit (v mod 10) # p) = dec_nat (v div 10) @ digit (v mod 10) # p" using 1 by (auto simp: div_eq_0_iff)
    then show ?thesis using False by (subst ll_digits.simps, subst dec_nat.simps) (simp add: Let_def)
  qed
qed

lemma from_longlong_dec: "sdsfromlonglong i = sds_of (dec i)"
  by (simp add: sdsfromlonglong_def ll_digits_dec dec_def)

lemma till_nul_rep:
  assumes "sds_rep s xs" and "0 \<notin> set xs"
  shows "till_nul (sd_buf s) = xs"
proof -
  obtain rest where "s = mk xs rest" using assms(1) by (rule sds_repE)
  then have "sd_buf s = xs @ 0 # rest" by simp
  then show ?thesis using assms(2) unfolding till_nul_def by (simp only:, subst takeWhile_append2) auto
qed

end
