(* ===== verification/Read_Phase.thy ===== *)
theory Read_Phase
  imports Sds_Laws Chunk_Phase
begin

text \<open>
  The read phase of \<open>read_phase.c\<close>: the walk over the directories below the path of a backup, and the name
  under which a file enters the stream.

  A directory is the list of the entries \<open>readdir\<close> delivers; \<open>Vanished\<close> is an entry for which \<open>stat\<close> fails,
  \<open>Unreadable\<close> a file and \<open>Locked\<close> a directory that cannot be opened. The walk decides by the last character of a path whether it is
  a directory. Paths are strings of \<open>utils/sds.c\<close>; \<open>jp\<close> is \<open>jcr.path\<close>, which \<open>init_jcr\<close> has ended with a slash
  when it is a directory.
\<close>

datatype entry =
  Regular "byte list" | Unreadable | Locked | Vanished | Directory "(byte list \<times> entry) list"

definition last_byte :: "sds \<Rightarrow> byte res" where   \<comment> \<open>\<open>path[sdslen(path) - 1]\<close>\<close>
  "last_byte s =
     (if sdslen s = 0 then Inl OutOfBounds else rbind (peek (sdslen s - 1) 1 (sd_buf s)) (\<lambda>b. Inr (hd b)))"

function find_slash :: "byte list \<Rightarrow> int \<Rightarrow> int res" where
  "find_slash s cur =
     (if cur < 0 \<or> nat cur \<ge> length s then Inl OutOfBounds
      else if s ! nat cur \<noteq> 47 then find_slash s (cur - 1) else Inr cur)"
  by pat_completeness auto
termination by (relation "measure (\<lambda>(s, cur). nat (cur + 1))") auto

declare find_slash.simps [simp del]

definition stream_name :: "sds \<Rightarrow> sds \<Rightarrow> sds res" where   \<comment> \<open>the name of a file in the stream\<close>
  "stream_name jp path =
     rbind (sdsdup path) (\<lambda>f.
     rbind (last_byte jp) (\<lambda>b.
       if b = 47 then sdsrange f (int32 (int (sdslen jp))) (-1)
       else rbind (find_slash (sd_buf f) (int (sdslen f) - 1)) (\<lambda>cur. sdsrange f cur (-1))))"

definition read_entry :: "sds \<Rightarrow> sds \<Rightarrow> entry \<Rightarrow> chunk list res" where   \<comment> \<open>\<open>read_file\<close>\<close>
  "read_entry jp path e =
     rbind (stream_name jp path) (\<lambda>f.
       case e of
         Regular content \<Rightarrow> Inr (read_file (till_nul (sd_buf f)) content)
       | Directory _ \<Rightarrow> Inr (read_file (till_nul (sd_buf f)) [])   \<comment> \<open>every \<open>fread\<close> from a directory fails\<close>
       | _ \<Rightarrow> Inl ExitFailure)"

fun find_one_file :: "(nat \<Rightarrow> byte) \<Rightarrow> sds \<Rightarrow> sds \<Rightarrow> entry \<Rightarrow> chunk list res"
  and walk_entries :: "(nat \<Rightarrow> byte) \<Rightarrow> sds \<Rightarrow> sds \<Rightarrow> (byte list \<times> entry) list \<Rightarrow> chunk list res" where
  "find_one_file g jp path (Directory es) =
     rbind (last_byte path) (\<lambda>b. if b = 47 then walk_entries g jp path es else read_entry jp path (Directory es))"
| "find_one_file g jp path e =
     rbind (last_byte path) (\<lambda>b. if b = 47 then Inl NullDeref else read_entry jp path e)"
| "walk_entries g jp path [] = Inr []"
| "walk_entries g jp path ((name, e) # es) =
     (if name = [46] \<or> name = [46, 46] then walk_entries g jp path es
      else
        rbind (sdsdup path) (\<lambda>p.
        rbind (sdscat g p (c_str name)) (\<lambda>p.
          case e of
            Vanished \<Rightarrow> Inr []   \<comment> \<open>\<open>return\<close>, not \<open>continue\<close>\<close>
          | Locked \<Rightarrow>
              rbind (last_byte p) (\<lambda>b. rbind (c_assert (b \<noteq> 47)) (\<lambda>_.
              rbind (sdscat g p (c_str [47])) (\<lambda>p. find_one_file g jp p Locked)))   \<comment> \<open>\<open>readdir (NULL)\<close>\<close>
          | Directory ds \<Rightarrow>
              rbind (last_byte p) (\<lambda>b. rbind (c_assert (b \<noteq> 47)) (\<lambda>_.
              rbind (sdscat g p (c_str [47])) (\<lambda>p.
              rbind (find_one_file g jp p (Directory ds)) (\<lambda>cs.
              rbind (walk_entries g jp path es) (\<lambda>rest. Inr (cs @ rest))))))
          | e \<Rightarrow>
              rbind (find_one_file g jp p e) (\<lambda>cs.
              rbind (walk_entries g jp path es) (\<lambda>rest. Inr (cs @ rest))))))"

definition read_thread :: "(nat \<Rightarrow> byte) \<Rightarrow> sds \<Rightarrow> entry \<Rightarrow> chunk list res" where
  "read_thread g jp e = find_one_file g jp jp e"

subsection \<open>What the walk reaches\<close>

definition dots :: "byte list \<Rightarrow> bool" where
  "dots name \<longleftrightarrow> name = [46] \<or> name = [46, 46]"

text \<open>The files below a path with their contents, in the order of the walk. A tree is intact when nothing in it has
  vanished or is closed to the reader.\<close>

fun files_of :: "byte list \<Rightarrow> entry \<Rightarrow> (byte list \<times> byte list) list"
  and files_in :: "byte list \<Rightarrow> (byte list \<times> entry) list \<Rightarrow> (byte list \<times> byte list) list" where
  "files_of path (Regular content) = [(path, content)]"
| "files_of path (Directory es) = files_in (path @ [47]) es"
| "files_of path _ = []"
| "files_in dir [] = []"
| "files_in dir ((name, e) # es) = (if dots name then [] else files_of (dir @ name) e) @ files_in dir es"

fun intact_of :: "entry \<Rightarrow> bool" and intact_in :: "(byte list \<times> entry) list \<Rightarrow> bool" where
  "intact_of (Regular _) \<longleftrightarrow> True"
| "intact_of (Directory es) \<longleftrightarrow> intact_in es"
| "intact_of _ \<longleftrightarrow> False"
| "intact_in [] \<longleftrightarrow> True"
| "intact_in ((name, e) # es) \<longleftrightarrow> (dots name \<or> intact_of e) \<and> intact_in es"

text \<open>What the walk reaches: behind an entry that has vanished nothing more of its directory; what cannot be opened
  ends the program.\<close>

fun reached_of :: "byte list \<Rightarrow> entry \<Rightarrow> (byte list \<times> byte list res) list"
  and reached_in :: "byte list \<Rightarrow> (byte list \<times> entry) list \<Rightarrow> (byte list \<times> byte list res) list" where
  "reached_of path (Regular content) = [(path, Inr content)]"
| "reached_of path (Directory es) = reached_in (path @ [47]) es"
| "reached_of path Unreadable = [(path, Inl ExitFailure)]"
| "reached_of path Locked = [(path, Inl NullDeref)]"
| "reached_of path Vanished = []"
| "reached_in dir [] = []"
| "reached_in dir ((name, e) # es) =
     (if dots name then reached_in dir es
      else if e = Vanished then [] else reached_of (dir @ name) e @ reached_in dir es)"

fun visit :: "(byte list \<times> byte list res) list \<Rightarrow> chunk list res" where
  "visit [] = Inr []"
| "visit ((name, r) # rs) = rbind r (\<lambda>content. rbind (visit rs) (\<lambda>cs. Inr (read_file name content @ cs)))"

lemma visit_append: "visit (xs @ ys) = rbind (visit xs) (\<lambda>as. rbind (visit ys) (\<lambda>bs. Inr (as @ bs)))"
proof (induction xs)
  case (Cons x xs)
  then show ?case by (cases x; cases "snd x"; cases "visit xs"; cases "visit ys") simp_all
qed (cases "visit ys"; simp)

lemma reached_intact:
  "intact_of e \<Longrightarrow> reached_of path e = map (\<lambda>(n, c). (n, Inr c)) (files_of path e)"
  "intact_in es \<Longrightarrow> reached_in dir es = map (\<lambda>(n, c). (n, Inr c)) (files_in dir es)"
proof (induction path e and dir es rule: files_of_files_in.induct)
  case (5 dir name e es)
  then show ?case by (cases e) auto
qed simp_all

lemma visit_files: "visit (map (\<lambda>(n, c). (n, Inr c)) fs) = Inr (concat (map (\<lambda>(name, content). read_file name content) fs))"
  by (induction fs) auto

text \<open>The names a path can be built from.\<close>

fun fits_of :: "nat \<Rightarrow> entry \<Rightarrow> bool" and fits_in :: "nat \<Rightarrow> (byte list \<times> entry) list \<Rightarrow> bool" where
  "fits_of k (Directory es) \<longleftrightarrow> fits_in (k + 1) es"
| "fits_of k _ \<longleftrightarrow> True"
| "fits_in k [] \<longleftrightarrow> True"
| "fits_in k ((name, e) # es) \<longleftrightarrow>
     (dots name \<or> name \<noteq> [] \<and> 0 \<notin> set name \<and> 47 \<notin> set name \<and> k + length name + 1 \<le> sds_limit \<and> fits_of (k + length name) e)
     \<and> fits_in k es"

lemma last_byte_ok: "sds_rep s xs \<Longrightarrow> xs \<noteq> [] \<Longrightarrow> last_byte s = Inr (last xs)"
proof (elim sds_repE)
  fix rest assume xs: "xs \<noteq> []" and s: "s = mk xs rest" "length xs + length rest < 2 ^ 31 - 1"
  have "take 1 (drop (length xs - 1) (xs @ 0 # rest)) = [last xs]"
    using xs by (cases xs rule: rev_cases) simp_all
  then show ?thesis using s xs by (simp add: last_byte_def sdslen_def peek_def Suc_le_eq)
qed

lemma stream_name_ok:
  assumes "sds_rep jp root" and "root \<noteq> []" and "last root = 47" and "sds_rep p (root @ path)" and "path \<noteq> []"
  shows "\<exists>f. stream_name jp p = Inr f \<and> sds_rep f path"
proof -
  have n: "length (root @ path) < 2 ^ 31 - 1" "sdslen jp = length root" using sds_rep_len [OF assms(4)] sds_rep_len [OF assms(1)] by auto
  have rep: "sds_rep (sds_of (root @ path)) (root @ path)" by (rule sds_of_rep [OF n(1)])
  have i: "in32 (int (length root))" "in32 (-1)" using n(1) by (simp_all add: in32_def)
  have "range_of (root @ path) (int (length root)) (-1) = path"
    using assms(5) by (cases path) (simp_all add: range_of_def nat_diff_distrib)
  then obtain f where "sdsrange (sds_of (root @ path)) (int (length root)) (-1) = Inr f" "sds_rep f path"
    using sdsrange_ok [OF rep i] by auto
  then show ?thesis
    using i(1) by (simp add: stream_name_def sdsdup_ok [OF assms(4)] last_byte_ok [OF assms(1,2)] assms(3) n(2))
qed

lemma read_entry_ok:
  assumes "sds_rep jp root" and "root \<noteq> []" and "last root = 47" and "sds_rep p (root @ path)" and "path \<noteq> []" and "0 \<notin> set path"
  shows "read_entry jp p (Regular content) = Inr (read_file path content)"
proof -
  obtain f where f: "stream_name jp p = Inr f" "sds_rep f path" using stream_name_ok [OF assms(1-5)] by blast
  obtain rest where "f = mk path rest" using f(2) by (rule sds_repE)
  then have "till_nul (sd_buf f) = path" unfolding till_nul_def using assms(6) by (simp, subst takeWhile_append2) auto
  then show ?thesis using f(1) by (simp add: read_entry_def)
qed

lemma read_entry_closed:
  assumes "sds_rep jp root" and "root \<noteq> []" and "last root = 47" and "sds_rep p (root @ path)" and "path \<noteq> []"
  shows "read_entry jp p Unreadable = Inl ExitFailure"
  using stream_name_ok [OF assms] by (auto simp: read_entry_def)

definition dir_slash :: "entry \<Rightarrow> byte list" where
  "dir_slash e = (case e of Directory _ \<Rightarrow> [47] | Locked \<Rightarrow> [47] | _ \<Rightarrow> [])"

lemma walk_ok:
  assumes jp: "sds_rep jp root" "root \<noteq> []" "last root = 47" "0 \<notin> set root"
  shows "(\<forall>p. path \<noteq> [] \<longrightarrow> last path \<noteq> 47 \<longrightarrow> 0 \<notin> set path \<longrightarrow> e \<noteq> Vanished \<longrightarrow> fits_of (length root + length path) e
       \<longrightarrow> sds_rep p (root @ path @ dir_slash e) \<longrightarrow> find_one_file g jp p e = visit (reached_of path e))"
    and "(\<forall>p. 0 \<notin> set dir \<longrightarrow> fits_in (length root + length dir) es
       \<longrightarrow> sds_rep p (root @ dir) \<longrightarrow> walk_entries g jp p es = visit (reached_in dir es))"
proof (induction path e and dir es rule: reached_of_reached_in.induct)
  case (1 path content)
  show ?case
  proof (intro allI impI)
    fix p assume a: "path \<noteq> []" "last path \<noteq> 47" "0 \<notin> set path" "sds_rep p (root @ path @ dir_slash (Regular content))"
    then have "sds_rep p (root @ path)" by (simp add: dir_slash_def)
    with a show "find_one_file g jp p (Regular content) = visit (reached_of path (Regular content))"
      using read_entry_ok [OF jp(1-3)] last_byte_ok [of p "root @ path"] by simp
  qed
next
  case (2 path es)
  show ?case
  proof (intro allI impI)
    fix p assume a: "0 \<notin> set path" "fits_of (length root + length path) (Directory es)" "sds_rep p (root @ path @ dir_slash (Directory es))"
    then have r: "sds_rep p (root @ path @ [47])" by (simp add: dir_slash_def)
    then have "last_byte p = Inr 47" using last_byte_ok [OF r] by simp
    then show "find_one_file g jp p (Directory es) = visit (reached_of path (Directory es))"
      using 2 a r by simp
  qed
next
  case (3 path)
  show ?case
    using read_entry_closed [OF jp(1-3)] last_byte_ok [of _ "root @ path"] by (auto simp: dir_slash_def)
next
  case (4 path)
  show ?case
    using last_byte_ok [of _ "root @ path @ [47]"] by (auto simp: dir_slash_def)
next
  case (7 dir name e es)
  show ?case
  proof (intro allI impI)
    fix p assume a: "0 \<notin> set dir" "fits_in (length root + length dir) ((name, e) # es)" "sds_rep p (root @ dir)"
    show "walk_entries g jp p ((name, e) # es) = visit (reached_in dir ((name, e) # es))"
    proof (cases "dots name")
      case True
      then show ?thesis using 7(1) a by (auto simp: dots_def)
    next
      case False
      then have n: "name \<noteq> []" "0 \<notin> set name" "47 \<notin> set name" "length (root @ dir) + length name + 1 \<le> sds_limit"
        "fits_of (length root + length (dir @ name)) e" using a(2) by (auto simp: add.assoc)
      have d: "sds_rep (sds_of (root @ dir)) (root @ dir)" using n(4) by (intro sds_of_rep) (simp add: sds_limit_def)
      obtain q where q: "sdscat g (sds_of (root @ dir)) (name @ [0]) = Inr q" "sds_rep q ((root @ dir) @ name)"
        using sdscat_ok [OF d n(2), of g "[]"] n(4) by auto
      obtain q2 where q2: "sdscat g q [47, 0] = Inr q2" "sds_rep q2 (((root @ dir) @ name) @ [47])"
        using sdscat_ok [OF q(2), of "[47]" g "[]"] n(4) by auto
      have l: "last_byte q = Inr (last name)" using last_byte_ok [OF q(2)] n(1) by simp
      have l3: "last_byte q2 = Inr 47" using last_byte_ok [OF q2(2)] by simp
      have l2: "last name \<noteq> 47" using last_in_set [OF n(1)] n(3) by metis
      note pre = sdsdup_ok [OF a(3)] c_str_def q(1)
      have ent: "find_one_file g jp (if dir_slash e = [] then q else q2) e = visit (reached_of (dir @ name) e)"
        "walk_entries g jp p es = visit (reached_in dir es)" if "e \<noteq> Vanished"
      proof -
        have s: "dir_slash e = [] \<or> dir_slash e = [47]" by (cases e) (simp_all add: dir_slash_def)
        have "sds_rep (if dir_slash e = [] then q else q2) (root @ (dir @ name) @ dir_slash e)" using s q(2) q2(2) by auto
        with 7(2) [OF False that] that n l2 a(1)
        show "find_one_file g jp (if dir_slash e = [] then q else q2) e = visit (reached_of (dir @ name) e)"
          by (simp del: append_assoc)
        show "walk_entries g jp p es = visit (reached_in dir es)" using 7(3) [OF False that] a by simp
      qed
      show ?thesis
      proof (cases "e = Vanished")
        case True
        with False pre show ?thesis by (simp add: dots_def)
      next
        case nv: False
        have "walk_entries g jp p ((name, e) # es) =
            rbind (find_one_file g jp (if dir_slash e = [] then q else q2) e) (\<lambda>cs.
            rbind (walk_entries g jp p es) (\<lambda>rest. Inr (cs @ rest)))"
          using nv False pre q2(1) l l2 l3 by (cases e) (simp_all add: dots_def dir_slash_def)
        with ent [OF nv] nv False show ?thesis by (simp add: visit_append)
      qed
    qed
  qed
qed simp_all

text \<open>The read phase puts every file it reaches below a directory into the stream, once, in the order of
  the walk, under its path from that directory, with its content in blocks; \<open>.\<close> and \<open>..\<close> are passed over.\<close>

lemma read_phase_visits:
  assumes "sds_rep jp root" and "root \<noteq> []" and "last root = 47" and "0 \<notin> set root" and "fits_in (length root) es"
  shows "read_thread g jp (Directory es) = visit (reached_in [] es)"
proof -
  have "walk_entries g jp jp es = visit (reached_in [] es)"
    using walk_ok(2) [OF assms(1-4), of "[]" es g] assms(1,5) by simp
  then show ?thesis using last_byte_ok [OF assms(1,2)] assms(3) by (simp add: read_thread_def)
qed

end
