(* ===== verification/Backup_Job.thy ===== *)
theory Backup_Job
  imports Config Read_Phase Gc_Rtm Container_Store Recipe_Store Filter_Phase Sds_Laws
begin

text \<open>
  The frame of a backup job: \<open>init_jcr\<close> and \<open>init_backup_jcr\<close> of \<open>jcr.c\<close>, opening and closing the container
  store (\<open>storage/containerstore.c\<close>), what \<open>do_backup.c\<close> does before it starts the threads and after they have ended,
  and the statistics it keeps. The threads in between are \<open>Backup_Pipeline\<close>.

  \<open>kind\<close> is what \<open>stat\<close> says of the path: nothing there, a directory, or a file. Messages and timers are left out.
\<close>

subsection \<open>The job control record\<close>

definition new_counters :: jcr_counters where
  "new_counters = \<lparr>unique_chunk_num = 0, unique_data_size = 0, rewritten_chunk_num = 0, rewritten_chunk_size = 0,
     jcr_chunk_num = 0, jcr_data_size = 0, jcr_file_num = 0\<rparr>"

definition init_jcr :: "(nat \<Rightarrow> byte) \<Rightarrow> bool option \<Rightarrow> byte list option \<Rightarrow> (sds \<times> jcr_counters) res" where
  "init_jcr g kind path =
     rbind (sdsnew path) (\<lambda>p.
       case kind of
         None \<Rightarrow> Inl ExitFailure
       | Some dir \<Rightarrow>
           rbind (if dir then rbind (last_byte p) (\<lambda>b. if b \<noteq> 47 then sdscat g p (c_str [47]) else Inr p) else Inr p) (\<lambda>p.
             Inr (p, new_counters)))"

record backup_jcr =
  bj_path :: sds
  bj_counters :: jcr_counters
  bj_bv :: backupVersion
  bj_id :: int

definition init_backup_jcr ::
  "(nat \<Rightarrow> byte) \<Rightarrow> bool \<Rightarrow> bool option \<Rightarrow> byte list \<Rightarrow> int \<Rightarrow> rtm_state \<Rightarrow> (backup_jcr \<times> int \<times> rtm_state) res" where
  "init_backup_jcr g be kind path cnt s =
     rbind (init_jcr g kind (Some path)) (\<lambda>(p, j).
     rbind (create_backup_version be (till_nul (sd_buf p)) cnt) (\<lambda>(bv, cnt).
       let s = s\<lparr>current_bv := bv_num bv\<rparr>
       in Inr (\<lparr>bj_path = p, bj_counters = j, bj_bv = bv, bj_id = bv_num bv\<rparr>, cnt, init_container_bit_table (current_bv s) s)))"

subsection \<open>The container store between jobs\<close>

definition init_container_store :: "bool \<Rightarrow> byte list option \<Rightarrow> bool \<Rightarrow> rtm_state \<Rightarrow> (pool_sys \<times> rtm_state) res" where
  "init_container_store be file can_make s =
     (case file of
        Some f \<Rightarrow>
          let n = fst (fread_int64 be 0 \<lparr>st_file = f, st_pos = 0, st_writable = True\<rparr>)
          in Inr (pool_empty f n (RTMhead s), s\<lparr>container_count_start := n\<rparr>)
      | None \<Rightarrow> if can_make then Inr (pool_empty [] 0 (RTMhead s), s\<lparr>container_count_start := 0\<rparr>) else Inl ExitFailure)"

text \<open>\<open>pthread_join\<close> returns when the append thread has emptied its buffer.\<close>

definition close_container_store :: "bool \<Rightarrow> pool_sys \<Rightarrow> rtm_state \<Rightarrow> (byte list \<times> rtm_state) res" where
  "close_container_store be p s =
     rbind (update_container_bit_table_and_RTM (s\<lparr>container_count_end := ps_count p, RTMhead := ps_rtm p\<rparr>)) (\<lambda>s.
       Inr (f_write 0 (host_bytes be 8 (i64 (ps_count p))) (ps_pool p), s))"

lemma stored_header:
  assumes "stored be iter sim pool c" and "0 \<le> cm_id (ct_meta c)" and "length bs = 8"
  shows "stored be iter sim (f_write 0 bs pool) c"
proof -
  have "8 \<le> block_off sim (cm_id (ct_meta c))" using block_off_int [OF assms(2), of sim] assms(2) by (simp add: nat_int_comparison)
  then show ?thesis using assms(1,3) f_read_write_other by (fastforce simp: stored_def)
qed

text \<open>Closing and opening again. When the append thread has written the containers of a job, whatever the interleaving,
  the pool file that \<open>close_container_store\<close> leaves makes the next \<open>init_container_store\<close> go on with the same number of containers,
  and every container of the job is read from that file with all its chunks.\<close>

lemma store_survives_restart:
  assumes "pool_reach be iter sim v (pool_empty pool n rtm) p" and "ps_buffer p = []" and "iter_ok iter" and "in64 (ps_count p)"
    and "close_container_store be p s = Inr (f, s')"
  shows "\<exists>p' s2. init_container_store be (Some f) ok s0 = Inr (p', s2) \<and> ps_count p' = ps_count p
    \<and> container_count_start s2 = container_count_end (s\<lparr>container_count_end := ps_count p\<rparr>) \<and> ps_pool p' = f
    \<and> (\<forall>c\<in>set (ps_accepted p). \<exists>m. retrieve_container_meta_by_id be iter sim (ps_buffer p') f (idof c) = Inr m \<and> same_meta (ct_meta c) m)"
proof -
  have f: "f = f_write 0 (host_bytes be 8 (i64 (ps_count p))) (ps_pool p)"
    using assms(5) by (auto simp: close_container_store_def rbind_Inr_iff)
  let ?s = "\<lparr>st_file = f, st_pos = 0, st_writable = True\<rparr>"
  have "srest ?s = host_bytes be 8 (i64 (ps_count p)) @ drop 8 (ps_pool p)" "swf ?s"
    by (simp_all add: srest_def swf_def f f_write_def Let_def)
  from fread_int64_rest [OF this assms(4), of 0] have n: "fst (fread_int64 be 0 ?s) = ps_count p" by auto
  have inv: "pool_inv be iter sim p" by (rule pool_reach_inv [OF assms(1) pool_inv_empty assms(3)])
  have "pool_inv be iter sim (p\<lparr>ps_pool := f\<rparr>)"
    using inv assms(2) by (auto simp: pool_inv_def f container_ok_def intro!: stored_header)
  from accepted_readable [OF this _ assms(3)] assms(2)
  have "\<forall>c\<in>set (ps_accepted p). \<exists>m. retrieve_container_meta_by_id be iter sim [] f (idof c) = Inr m \<and> same_meta (ct_meta c) m" by auto
  then show ?thesis using n by (simp add: init_container_store_def pool_empty_def Let_def)
qed

subsection \<open>Before and after the threads of a job\<close>

record backup_disk =
  bd_pool :: "byte list option"       \<comment> \<open>\<open>container.pool\<close>\<close>
  bd_versions :: "byte list option"   \<comment> \<open>\<open>recipes/backupversion.count\<close>\<close>
  bd_cbt :: "byte list"               \<comment> \<open>the container bit tables of all jobs\<close>
  bd_cce :: "byte list option"        \<comment> \<open>\<open>container_count_end.cce\<close>\<close>
  bd_rtm :: "byte list option"        \<comment> \<open>\<open>reference_time_map.rtm\<close>\<close>

definition begin_backup ::
  "(nat \<Rightarrow> byte) \<Rightarrow> bool \<Rightarrow> bool option \<Rightarrow> byte list \<Rightarrow> bool \<Rightarrow> backup_disk \<Rightarrow> rtm_state \<Rightarrow> (backup_jcr \<times> pool_sys \<times> int \<times> rtm_state) res" where
  "begin_backup g be kind path can_make disk s =
     (let cnt = init_recipe_store be (bd_versions disk) in
      rbind (init_container_store be (bd_pool disk) can_make s) (\<lambda>(p, s).
      rbind (init_backup_jcr g be kind path cnt s) (\<lambda>(j, cnt, s).
      rbind (Init_RTM be (bd_rtm disk) s) (\<lambda>s. Inr (j, p\<lparr>ps_rtm := RTMhead s\<rparr>, cnt, s)))))"

definition finish_backup ::
  "bool \<Rightarrow> int \<Rightarrow> backupVersion \<Rightarrow> pool_sys \<Rightarrow> int \<Rightarrow> rtm_state \<Rightarrow> backup_disk \<Rightarrow> (backupVersion \<times> backup_disk \<times> rtm_state) res" where
  "finish_backup be access bv p cnt s disk =
     rbind (close_container_store be p s) (\<lambda>(pool, s).
       let versions = close_recipe_store be cnt;
           cbt = write_container_bit_table_to_disk be s (bd_cbt disk);
           cce = write_container_count_end_to_disk be s;
           (rtm, s) = write_RTM_to_disk be s
       in rbind (update_backup_version be access bv) (\<lambda>(bv, _).
            Inr (bv, \<lparr>bd_pool = Some pool, bd_versions = Some versions, bd_cbt = cbt, bd_cce = Some cce, bd_rtm = Some rtm\<rparr>, s)))"

lemma init_recipe_store_close: "in32 cnt \<Longrightarrow> init_recipe_store be (Some (close_recipe_store be cnt)) = cnt"
proof -
  assume "in32 cnt"
  let ?s = "\<lparr>st_file = close_recipe_store be cnt, st_pos = 0, st_writable = False\<rparr>"
  have "srest ?s = host_bytes be 4 (i32 cnt) @ []" "swf ?s" by (simp_all add: srest_def swf_def close_recipe_store_def)
  from fread_int32_rest [OF this \<open>in32 cnt\<close>, of 0] show ?thesis by (auto simp: init_recipe_store_def)
qed

lemma init_jcr_directory:
  assumes "0 \<notin> set xs" and "xs \<noteq> []" and "length xs + 1 \<le> sds_limit"
  shows "\<exists>p. init_jcr g (Some True) (Some (c_str xs)) = Inr (p, new_counters) \<and> sds_rep p (if last xs = 47 then xs else xs @ [47])"
proof -
  have new: "sdsnew (Some (c_str xs)) = Inr (sds_of xs)" by (rule sdsnew_ok [OF assms(1)])
  have rep: "sds_rep (sds_of xs) xs" using assms(3) by (intro sds_of_rep) (simp add: sds_limit_def)
  note b = last_byte_ok [OF rep assms(2)]
  show ?thesis
  proof (cases "last xs = 47")
    case True
    then show ?thesis using new rep b by (simp add: init_jcr_def)
  next
    case False
    obtain p where "sdscat g (sds_of xs) (c_str [47]) = Inr p" "sds_rep p (xs @ [47])"
      using sdscat_ok [OF rep, of "[47]" g "[]"] assms(3) by (auto simp: c_str_def)
    then show ?thesis using new b False by (simp add: init_jcr_def)
  qed
qed

text \<open>C7: one job takes up where the one before it ended. After a job whose containers the append thread has written, whatever the
  interleaving, the next job on the files it leaves gets the next number, goes on with the same count of containers
  and the same reference-time maps, and reads every container of that job from the pool.\<close>

theorem next_job_continues:
  assumes "pool_reach be iter sim v (pool_empty pool n rtm) p" and "ps_buffer p = []" and "iter_ok iter" and "in64 (ps_count p)"
    and "close_container_store be p s = Inr (f, s1)" and "list_all rtm_ok (RTMhead s1)" and "ps_count p = int (length (RTMhead s1))"
    and "finish_backup be access bv p cnt s disk = Inr (bv', disk', s')" and "0 < cnt" and "in32 cnt"
    and "0 \<notin> set path" and "path \<noteq> []" and "length path + 1 \<le> sds_limit" and "CBT s0 \<noteq> []"
  shows "\<exists>j p' s2. begin_backup g be (Some True) (c_str path) ok disk' s0 = Inr (j, p', cnt + 1, s2) \<and> bj_id j = cnt
    \<and> ps_count p' = ps_count p \<and> ps_rtm p' = RTMhead s1 \<and> RTMhead s2 = RTMhead s1 \<and> CBT s2 ! 0 = i32 cnt
    \<and> (\<forall>c\<in>set (ps_accepted p). \<exists>m. retrieve_container_meta_by_id be iter sim (ps_buffer p') (ps_pool p') (idof c) = Inr m \<and> same_meta (ct_meta c) m)"
proof -
  have disk: "bd_pool disk' = Some f" "bd_versions disk' = Some (close_recipe_store be cnt)" "bd_rtm disk' = Some (fst (write_RTM_to_disk be s1))"
    using assms(8) by (auto simp: finish_backup_def assms(5) rbind_Inr_iff Let_def write_RTM_to_disk_def)
  obtain p' s2 where p': "init_container_store be (Some f) ok s0 = Inr (p', s2)" "ps_count p' = ps_count p" "container_count_start s2 = ps_count p"
    "\<forall>c\<in>set (ps_accepted p). \<exists>m. retrieve_container_meta_by_id be iter sim (ps_buffer p') f (idof c) = Inr m \<and> same_meta (ct_meta c) m"
    "ps_pool p' = f"
    using store_survives_restart [OF assms(1-5), of ok s0] by auto
  have s2: "CBT s2 = CBT s0" using p'(1) by (auto simp: init_container_store_def Let_def)
  obtain q where q: "init_jcr g (Some True) (Some (c_str path)) = Inr (q, new_counters)" "sds_rep q (if last path = 47 then path else path @ [47])"
    using init_jcr_directory [OF assms(11-13)] by blast
  let ?root = "if last path = 47 then path else path @ [47]"
  have root: "till_nul (sd_buf q) = ?root" using q(2) assms(11) by (intro till_nul_rep) auto
  have "47 \<in> set ?root" using last_in_set [OF assms(12)] by auto
  then obtain b where b: "create_backup_version be ?root cnt = Inr (b, cnt + 1)" "bv_num b = cnt"
    by (auto simp: create_backup_version_def get_next_version_number_def path_dir_def Let_def)
  let ?s3 = "init_container_bit_table cnt (s2\<lparr>current_bv := cnt\<rparr>)"
  let ?j = "\<lparr>bj_path = q, bj_counters = new_counters, bj_bv = b, bj_id = cnt\<rparr>"
  have j: "init_backup_jcr g be (Some True) (c_str path) cnt s2 = Inr (?j, cnt + 1, ?s3)"
    using q(1) b by (simp add: init_backup_jcr_def root Let_def)
  have c: "CBT ?s3 \<noteq> []" "hd (CBT ?s3) = i32 cnt" "CBT ?s3 ! 0 = i32 cnt" using assms(14) s2 by (auto simp: init_container_bit_table_def hd_conv_nth)
  have z: "sint (i32 cnt) = cnt" using assms(10) by simp
  then have nz: "i32 cnt \<noteq> 0" using assms(9) by auto
  have "read_RTM_from_disk_in_gc be (bd_rtm disk') (ps_count p) ?s3 = Inr (?s3\<lparr>RTMhead := RTMhead s1\<rparr>)"
    unfolding disk(3) by (rule read_written_rtm [OF assms(6,7)])
  then have "Init_RTM be (bd_rtm disk') ?s3 = Inr (?s3\<lparr>RTMhead := RTMhead s1\<rparr>)"
    using c nz z assms(9) p'(3) by (simp add: Init_RTM_def disk(3) read_RTM_from_disk_def read_RTM_from_disk_in_gc_def init_container_bit_table_def)
  then have "begin_backup g be (Some True) (c_str path) ok disk' s0 = Inr (?j, p'\<lparr>ps_rtm := RTMhead s1\<rparr>, cnt + 1, ?s3\<lparr>RTMhead := RTMhead s1\<rparr>)"
    using p'(1) j by (simp add: begin_backup_def disk(1,2) init_recipe_store_close [OF assms(10)] Let_def)
  then show ?thesis using p' c by simp
qed

lemma next_job_continues_witness:
  "\<exists>bv bv' disk' s' j p' s2.
     finish_backup False TEMPORARY_ID bv (pool_empty [] 1 [\<lparr>rtm_id = 0, rtm_len = 2, rtm_rtm = [5, -1]\<rparr>]) 1
       (rtm_start\<lparr>container_count_start := 1\<rparr>) \<lparr>bd_pool = None, bd_versions = None, bd_cbt = [], bd_cce = None, bd_rtm = None\<rparr>
       = Inr (bv', disk', s')
     \<and> begin_backup (\<lambda>i. 0) False (Some True) (c_str [47, 100]) True disk' rtm_start = Inr (j, p', 2, s2)
     \<and> bj_id j = 1 \<and> RTMhead s2 = [\<lparr>rtm_id = 0, rtm_len = 2, rtm_rtm = [5, -1]\<rparr>]"
proof -
  let ?p = "pool_empty [] 1 [\<lparr>rtm_id = 0, rtm_len = 2, rtm_rtm = [5, -1]\<rparr>]" and ?s = "rtm_start\<lparr>container_count_start := 1\<rparr>"
  let ?disk = "\<lparr>bd_pool = None, bd_versions = None, bd_cbt = [], bd_cce = None, bd_rtm = None\<rparr>"
  have p: "ps_count ?p = 1" "ps_rtm ?p = [\<lparr>rtm_id = 0, rtm_len = 2, rtm_rtm = [5, -1]\<rparr>]" "ps_buffer ?p = []" by (simp_all add: pool_empty_def)
  have "ishead ?s = []" by (simp add: rtm_start_def init_id_shift_def init_id_shift_hash_def)
  then obtain f s1 where c: "close_container_store False ?p ?s = Inr (f, s1)" "RTMhead s1 = [\<lparr>rtm_id = 0, rtm_len = 2, rtm_rtm = [5, -1]\<rparr>]"
    by (simp add: close_container_store_def update_container_bit_table_and_RTM_def p)
  obtain bv :: backupVersion where "metabuf bv = None" "recordbuf bv = None" by (meson backupVersion.select_convs)
  then obtain bv' a where "update_backup_version False TEMPORARY_ID bv = Inr (bv', a)" by (simp add: update_backup_version_def Let_def)
  then obtain disk' s' where fin: "finish_backup False TEMPORARY_ID bv ?p 1 ?s ?disk = Inr (bv', disk', s')"
    by (simp add: finish_backup_def c(1) Let_def write_RTM_to_disk_def)
  have e: "CBT rtm_start \<noteq> []" by (simp add: rtm_start_def init_id_shift_def init_id_shift_hash_def container_size_def)
  have r: "list_all rtm_ok (RTMhead s1)" "ps_count ?p = int (length (RTMhead s1))" "in64 (ps_count ?p)"
    using c(2) p(1) by (simp_all add: rtm_ok_def in16_def in64_def)
  note n = next_job_continues [OF pool_reach.start p(3) iter_ok_id r(3) c(1) r(1,2) fin, where path = "[47, 100]" and ?s0.0 = rtm_start
      and g = "\<lambda>i. 0" and ok = True and sim = 0]
  obtain j p' s2 where "begin_backup (\<lambda>i. 0) False (Some True) (c_str [47, 100]) True disk' rtm_start = Inr (j, p', 1 + 1, s2)"
    "bj_id j = 1" "RTMhead s2 = RTMhead s1"
    using n e by (auto simp: in32_def sds_limit_def)
  then show ?thesis using fin c(2)
    by (intro exI [of _ bv] exI [of _ bv'] exI [of _ disk'] exI [of _ s'] exI [of _ j] exI [of _ p'] exI [of _ s2] conjI) simp_all
qed

subsection \<open>What a job reads\<close>



subsection \<open>The statistics\<close>

text \<open>\<open>z\<close> holds the two counters of the chunk phase.\<close>

definition account :: "jcr_counters \<Rightarrow> chunk_st \<Rightarrow> destor \<Rightarrow> destor" where
  "account j z d =
     d\<lparr>ds_data_size := ds_data_size d + jcr_data_size j,
       ds_stored_data_size := ds_stored_data_size d + (unique_data_size j + rewritten_chunk_size j),
       ds_chunk_num := ds_chunk_num d + jcr_chunk_num j,
       ds_stored_chunk_num := ds_stored_chunk_num d + (unique_chunk_num j + rewritten_chunk_num j),
       ds_zero_chunk_num := ds_zero_chunk_num d + zero_chunk_num z,
       ds_zero_chunk_size := ds_zero_chunk_size d + zero_chunk_size z,
       ds_rewritten_chunk_num := ds_rewritten_chunk_num d + rewritten_chunk_num j,
       ds_rewritten_chunk_size := ds_rewritten_chunk_size d + rewritten_chunk_size j\<rparr>"

end
