(* ===== verification/Delete_Job.thy ===== *)
theory Delete_Job
  imports Manifest Recipe_Laws Index
begin

text \<open>
  The delete job: \<open>do_delete.c\<close>. The containers that the manifest gives up (physical locality) or the segments of the
  deleted version (logical locality) lose their entries in the key-value store. The index is loaded before and saved
  after (\<open>Kvstore\<close>); the log line is left out. \<open>delete_env\<close> holds the files and the orders of the hash
  table iterators; nothing is in the container buffer during the job.
\<close>

record delete_env =
  de_be :: bool
  de_sim :: int
  de_iter :: meta_iter
  de_citer :: "manifest \<Rightarrow> (containerid \<times> int) list"
  de_diter :: "(containerid, unit) htable \<Rightarrow> (containerid \<times> unit) list"
  de_siter :: "(fingerprint, chunkPointer) htable \<Rightarrow> (fingerprint \<times> chunkPointer) list"
  de_pool :: "byte list"
  de_dir :: recipe_dir
  de_junk :: chunkPointer
  de_access :: int                \<comment> \<open>the static \<open>access_record\<close>\<close>

record delete_result =
  dl_index :: index_state
  dl_manifest :: "byte list"
  dl_live :: int
  dl_version :: backupVersion
  dl_ids :: "byte list"           \<comment> \<open>\<open>recipes/delete_<job>.id\<close>\<close>

definition delete_an_entry :: "ix_cfg \<Rightarrow> int \<Rightarrow> fingerprint \<Rightarrow> index_state res \<Rightarrow> index_state res" where
  "delete_an_entry cfg i fp r = rbind r (index_delete cfg fp i)"

definition reclaim_container :: "delete_env \<Rightarrow> ix_cfg \<Rightarrow> containerid \<Rightarrow> index_state \<Rightarrow> index_state res" where
  "reclaim_container e cfg i s =
     rbind (retrieve_container_meta_by_id (de_be e) (de_iter e) (de_sim e) [] (de_pool e) i) (\<lambda>cm.
       container_meta_foreach (de_iter e) cm (delete_an_entry cfg i) (Inr s))"

text \<open>\<open>None\<close>: \<open>n\<close> rounds are not enough; a round reads at least 32 bytes of the recipe.\<close>

fun delete_segments :: "delete_env \<Rightarrow> ix_cfg \<Rightarrow> nat \<Rightarrow> backupVersion \<Rightarrow> index_state \<Rightarrow> (index_state \<times> backupVersion) res option" where
  "delete_segments e cfg 0 bv s = None"
| "delete_segments e cfg (Suc n) bv s =
     (case read_next_segment (de_be e) (de_junk e) bv of
        Inl err \<Rightarrow> Some (Inl err)
      | Inr (None, bv) \<Rightarrow> Some (Inr (s, bv))
      | Inr (Some sr, bv) \<Rightarrow>
          (case segment_recipe_foreach (de_siter e) sr (delete_an_entry cfg (sr_id sr)) (Inr s) of
             Inl err \<Rightarrow> Some (Inl err)
           | Inr s \<Rightarrow> delete_segments e cfg n bv s))"

definition delete_entries :: "delete_env \<Rightarrow> ix_cfg \<Rightarrow> (containerid, unit) htable \<Rightarrow> backupVersion \<Rightarrow> index_state \<Rightarrow>
    (index_state \<times> backupVersion) res option" where
  "delete_entries e cfg dead bv s =
     (case index_category1 cfg of
        INDEX_CATEGORY_PHYSICAL_LOCALITY \<Rightarrow>
          Some (rbind (rfold (\<lambda>(i, _). reclaim_container e cfg i) (de_diter e dead) s) (\<lambda>s. Inr (s, bv)))
      | INDEX_CATEGORY_LOGICAL_LOCALITY \<Rightarrow> delete_segments e cfg (Suc (length (st_file (recipe_fp bv)))) bv s)"

definition do_delete :: "delete_env \<Rightarrow> ix_cfg \<Rightarrow> int \<Rightarrow> byte list option \<Rightarrow> index_state \<Rightarrow> delete_result res option" where
  "do_delete e cfg jobid manifest s =
     (case trunc_manifest (de_citer e) True jobid manifest of
        Inl err \<Rightarrow> Some (Inl err)
      | Inr (dead, f, live) \<Rightarrow>
          (case open_backup_version (de_be e) (cp_id (de_junk e)) (de_dir e) jobid of
             Inl err \<Rightarrow> Some (Inl err)
           | Inr bv \<Rightarrow>
               map_option (\<lambda>r. rbind r (\<lambda>(s, bv).
                 rbind (update_backup_version (de_be e) (de_access e) (bv\<lparr>bv_deleted := 1\<rparr>)) (\<lambda>(bv, _).
                   Inr \<lparr>dl_index = s, dl_manifest = f, dl_live = live, dl_version = bv,
                        dl_ids = concat (map (\<lambda>(i, _). dec i @ [10]) (de_diter e dead))\<rparr>)))
                 (delete_entries e cfg dead bv s)))"

subsection \<open>Entries\<close>

text \<open>A table with one value for each key. \<open>without ks P m\<close>: the map that has lost the pairs of \<open>P\<close>.\<close>

definition single_table :: "nat \<Rightarrow> kvtable \<Rightarrow> bool" where
  "single_table ks t \<longleftrightarrow> kv_ok ks 1 t \<and> [TEMPORARY_ID] \<notin> ran (map_of t)"

definition without :: "nat \<Rightarrow> (fingerprint \<times> int) set \<Rightarrow> (byte list \<rightharpoonup> int list) \<Rightarrow> (byte list \<rightharpoonup> int list)" where
  "without ks P m = (\<lambda>k. if \<exists>(fp, i)\<in>P. take ks fp = k \<and> m k = Some [i] then None else m k)"

lemma single_entry: "single_table ks t \<Longrightarrow> map_of t k = Some vals \<Longrightarrow> \<exists>i. vals = [i] \<and> i \<noteq> TEMPORARY_ID"
  using kv_ok_entry(1) [of ks 1 t k vals] by (fastforce simp: single_table_def ran_def length_Suc_conv)

lemma delete_single:
  assumes "single_table ks t"
  shows "\<exists>t'. kvstore_htable_delete ks fp i t = Inr t' \<and> single_table ks t' \<and> map_of t' = without ks {(fp, i)} (map_of t)"
proof (cases "map_of t (take ks fp)")
  case None
  then show ?thesis using assms by (auto simp: kvstore_htable_delete_def without_def fun_eq_iff)
next
  case (Some vals)
  from single_entry [OF assms this] obtain j where j: "vals = [j]" "j \<noteq> TEMPORARY_ID" by blast
  have ok: "kv_ok ks 1 t" using assms by (simp add: single_table_def)
  show ?thesis
  proof (cases "j = i")
    case True
    let ?t = "AList.delete (take ks fp) t"
    have m: "map_of ?t = (map_of t)(take ks fp := None)" by (simp add: delete_conv')
    have "[TEMPORARY_ID] \<notin> ran (map_of ?t)" using assms unfolding m by (auto simp: single_table_def ran_def split: if_splits)
    with kv_ok_delete [OF ok] have "single_table ks ?t" by (simp add: single_table_def)
    moreover have "map_of ?t = without ks {(fp, i)} (map_of t)" using Some j True by (auto simp: m without_def fun_eq_iff)
    moreover have "kvstore_htable_delete ks fp i t = Inr ?t" using Some j True by (simp add: kvstore_htable_delete_def rbind_assert)
    ultimately show ?thesis by blast
  next
    case False
    let ?t = "AList.update (take ks fp) [j] t"
    have m: "map_of ?t = map_of t" using Some j(1) by (simp add: update_conv' fun_upd_idem)
    have "kv_ok ks 1 ?t" using kv_ok_entry [OF ok Some] j by (intro kv_ok_set [OF ok]) simp_all
    then have "single_table ks ?t" using assms unfolding single_table_def m by simp
    moreover have "map_of ?t = without ks {(fp, i)} (map_of t)" using Some j False by (auto simp: m without_def fun_eq_iff)
    moreover have "kvstore_htable_delete ks fp i t = Inr ?t" using Some j False by (simp add: kvstore_htable_delete_def)
    ultimately show ?thesis by blast
  qed
qed

lemma without_Un: "without ks P (without ks Q m) = without ks (Q \<union> P) m"
  by (auto simp: without_def fun_eq_iff)

lemma without_empty: "without ks {} m = m"
  by (simp add: without_def)

text \<open>An index whose table is purged of the pairs \<open>P\<close>, and otherwise as before.\<close>

definition purged :: "ix_cfg \<Rightarrow> (fingerprint \<times> int) set \<Rightarrow> index_state \<Rightarrow> index_state \<Rightarrow> bool" where
  "purged cfg P s s' \<longleftrightarrow> single_table (index_key_size cfg) (htable s') \<and>
     map_of (htable s') = without (index_key_size cfg) P (map_of (htable s)) \<and> s' = s\<lparr>htable := htable s'\<rparr>"

lemma purged_trans:
  assumes "purged cfg P s s1" "purged cfg Q s1 s2"
  shows "purged cfg (P \<union> Q) s s2"
proof -
  from assms have "s1 = s\<lparr>htable := htable s1\<rparr>" "s2 = s1\<lparr>htable := htable s2\<rparr>" by (simp_all add: purged_def)
  then have "s2 = s\<lparr>htable := htable s2\<rparr>" by (cases s; cases s1; cases s2) simp
  with assms show ?thesis by (simp add: purged_def without_Un)
qed

lemma purged_refl: "single_table (index_key_size cfg) (htable s) \<Longrightarrow> purged cfg {} s s"
  by (simp add: purged_def without_empty)

lemma index_delete_purged:
  assumes "single_table (index_key_size cfg) (htable s)"
  shows "\<exists>s'. index_delete cfg fp i s = Inr s' \<and> purged cfg {(fp, i)} s s'"
  using delete_single [OF assms, of fp i] by (auto simp: index_delete_def purged_def)

lemma foreach_purged:
  assumes "single_table (index_key_size cfg) (htable s)"
  shows "\<exists>s'. fold (\<lambda>(fp, x). delete_an_entry cfg i fp) kvs (Inr s) = Inr s' \<and> purged cfg ((\<lambda>(fp, x). (fp, i)) ` set kvs) s s'"
  using assms
proof (induction kvs arbitrary: s)
  case Nil
  then show ?case by (simp add: purged_refl)
next
  case (Cons x kvs)
  obtain fp y where x: "x = (fp, y)" by (cases x)
  from index_delete_purged [OF Cons.prems, of fp i] obtain s1 where 1: "index_delete cfg fp i s = Inr s1" "purged cfg {(fp, i)} s s1" by blast
  then have "single_table (index_key_size cfg) (htable s1)" by (simp add: purged_def)
  from Cons.IH [OF this] obtain s2 where
    2: "fold (\<lambda>(fp, x). delete_an_entry cfg i fp) kvs (Inr s1) = Inr s2" "purged cfg ((\<lambda>(fp, x). (fp, i)) ` set kvs) s1 s2" by blast
  have d: "delete_an_entry cfg i fp (Inr s) = Inr s1" using 1(1) by (simp add: delete_an_entry_def)
  have "purged cfg ((\<lambda>(fp, x). (fp, i)) ` set (x # kvs)) s s2" using purged_trans [OF 1(2) 2(2)] by (simp add: x)
  moreover have "fold (\<lambda>(fp, x). delete_an_entry cfg i fp) (x # kvs) (Inr s) = Inr s2" using d 2(1) by (simp add: x)
  ultimately show ?case by blast
qed

subsection \<open>Physical locality: the containers of the manifest\<close>

definition keys_at :: "container list \<Rightarrow> containerid \<Rightarrow> fingerprint set" where
  "keys_at cs i = {fp. \<exists>c\<in>set cs. cm_id (ct_meta c) = i \<and> fp \<in> fst ` set (cm_map (ct_meta c))}"

definition pool_holds :: "delete_env \<Rightarrow> container list \<Rightarrow> bool" where
  "pool_holds e cs \<longleftrightarrow> distinct (map (\<lambda>c. cm_id (ct_meta c)) cs) \<and>
     (\<forall>c\<in>set cs. stored (de_be e) (de_iter e) (de_sim e) (de_pool e) c \<and> container_ok (de_sim e) c)"

lemma keys_at_one:
  assumes "distinct (map (\<lambda>c. cm_id (ct_meta c)) cs)" "c \<in> set cs"
  shows "keys_at cs (cm_id (ct_meta c)) = fst ` set (cm_map (ct_meta c))"
  using assms by (auto simp: keys_at_def distinct_map inj_on_def)

lemma reclaim_ok:
  assumes p: "pool_holds e cs" and it: "iter_ok (de_iter e)" and c: "c \<in> set cs" "cm_id (ct_meta c) = i"
    and t: "single_table (index_key_size cfg) (htable s)"
  shows "\<exists>s'. reclaim_container e cfg i s = Inr s' \<and> purged cfg (keys_at cs i \<times> {i}) s s'"
proof -
  let ?m = "(ct_meta c)\<lparr>cm_map := numbered True 0 (de_iter e (cm_map (ct_meta c)))\<rparr>"
  from p c(1) have st: "stored (de_be e) (de_iter e) (de_sim e) (de_pool e) c" "container_ok (de_sim e) c" by (auto simp: pool_holds_def)
  have r: "retrieve_container_meta_by_id (de_be e) (de_iter e) (de_sim e) [] (de_pool e) i = Inr ?m"
    using retrieve_meta_stored [OF st it, of "[]" "de_iter e"] c(2) by simp
  let ?kvs = "de_iter e (cm_map ?m)"
  from foreach_purged [OF t, of i ?kvs] obtain s' where
    s': "fold (\<lambda>(fp, x). delete_an_entry cfg i fp) ?kvs (Inr s) = Inr s'" "purged cfg ((\<lambda>(fp, x). (fp, i)) ` set ?kvs) s s'" by blast
  have "fst ` set ?kvs = fst ` set (cm_map (ct_meta c))"
    by (simp add: iter_ok_set [OF it]) (metis iter_ok_set [OF it] list.set_map map_fst_numbered)
  then have "(\<lambda>(fp, x). (fp, i)) ` set ?kvs = keys_at cs i \<times> {i}"
    using keys_at_one [OF _ c(1)] p c(2) by (force simp: pool_holds_def image_iff)
  with s' r show ?thesis by (simp add: reclaim_container_def container_meta_foreach_def)
qed

lemma reclaim_all:
  assumes p: "pool_holds e cs" and it: "iter_ok (de_iter e)"
  shows "\<forall>i\<in>fst ` set dead. \<exists>c\<in>set cs. cm_id (ct_meta c) = i \<Longrightarrow> single_table (index_key_size cfg) (htable s) \<Longrightarrow>
   \<exists>s'. rfold (\<lambda>(i, _). reclaim_container e cfg i) dead s = Inr s' \<and> purged cfg (\<Union>i\<in>fst ` set dead. keys_at cs i \<times> {i}) s s'"
proof (induction dead arbitrary: s)
  case Nil
  then show ?case by (simp add: purged_refl)
next
  case (Cons x dead)
  obtain i u where x: "x = (i, u)" by (cases x)
  from Cons.prems(1) obtain c where "c \<in> set cs" "cm_id (ct_meta c) = i" by (auto simp: x)
  from reclaim_ok [OF p it this Cons.prems(2)] obtain s1 where
    1: "reclaim_container e cfg i s = Inr s1" "purged cfg (keys_at cs i \<times> {i}) s s1" by blast
  then have "single_table (index_key_size cfg) (htable s1)" by (simp add: purged_def)
  with Cons.IH [of s1] Cons.prems(1) obtain s2 where
    2: "rfold (\<lambda>(i, _). reclaim_container e cfg i) dead s1 = Inr s2" "purged cfg (\<Union>i\<in>fst ` set dead. keys_at cs i \<times> {i}) s1 s2" by auto
  from purged_trans [OF 1(2) 2(2)] 1(1) 2(1) show ?case by (simp add: x)
qed

text \<open>C5: deleting keeps what is used. When every entry of the index names a container that holds the fingerprint, the deletion
  of the jobs up to \<open>jobid\<close> ends without a fault; it removes exactly the entries of the containers whose last use is
  at most \<open>jobid\<close>, so that each remaining entry names a container that a later job uses, and forgets these containers in the manifest.
  The mark of deletion does not reach the version's file, which was opened for reading.\<close>

theorem do_delete_keeps_live:
  assumes "manifest_rep (Some f) m" and "open_backup_version (de_be e) (cp_id (de_junk e)) (de_dir e) jobid = Inr bv"
    and "index_category1 cfg = INDEX_CATEGORY_PHYSICAL_LOCALITY" and "single_table (index_key_size cfg) (htable s)"
    and "iter_ok (de_iter e)" "iter_ok (de_citer e)" "iter_ok (de_diter e)" and "pool_holds e cs"
    and "dom m \<subseteq> {cm_id (ct_meta c) | c. c \<in> set cs}"
    and "\<forall>k i. map_of (htable s) k = Some [i] \<longrightarrow> (\<exists>fp\<in>keys_at cs i. take (index_key_size cfg) fp = k)"
  shows "\<exists>r. do_delete e cfg jobid (Some f) s = Some (Inr r) \<and>
     map_of (htable (dl_index r)) = (\<lambda>k. if \<exists>i t. map_of (htable s) k = Some [i] \<and> m i = Some t \<and> t \<le> jobid then None else map_of (htable s) k) \<and>
     manifest_rep (Some (dl_manifest r)) (\<lambda>c. case m c of None \<Rightarrow> None | Some t \<Rightarrow> if jobid < t then Some t else None) \<and>
     st_file (metadata_fp (dl_version r)) = st_file (metadata_fp bv)"
proof -
  from trunc_manifest_ok [OF assms(1,6), of jobid] obtain dead f' live where
    d: "trunc_manifest (de_citer e) True jobid (Some f) = Inr (dead, f', live)" "fst ` set dead = {c. \<exists>t. m c = Some t \<and> t \<le> jobid}"
      "manifest_rep (Some f') (\<lambda>c. case m c of None \<Rightarrow> None | Some t \<Rightarrow> if jobid < t then Some t else None)" by blast
  have set: "fst ` set (de_diter e dead) = fst ` set dead" by (simp add: iter_ok_set [OF assms(7)])
  have "\<forall>i\<in>fst ` set (de_diter e dead). \<exists>c\<in>set cs. cm_id (ct_meta c) = i" unfolding set d(2) using assms(9) by blast
  from reclaim_all [OF assms(8,5) this assms(4)] obtain s' where
    s': "rfold (\<lambda>(i, _). reclaim_container e cfg i) (de_diter e dead) s = Inr s'" "purged cfg (\<Union>i\<in>fst ` set dead. keys_at cs i \<times> {i}) s s'"
    unfolding set by blast
  from update_readonly [of "bv\<lparr>bv_deleted := 1\<rparr>" "de_be e" "de_access e"] opened_readonly [OF assms(2)] obtain bv' where
    u: "update_backup_version (de_be e) (de_access e) (bv\<lparr>bv_deleted := 1\<rparr>) = Inr (bv', TEMPORARY_ID)"
      "st_file (metadata_fp bv') = st_file (metadata_fp bv)" by auto
  then have "do_delete e cfg jobid (Some f) s = Some (Inr \<lparr>dl_index = s', dl_manifest = f', dl_live = live, dl_version = bv',
      dl_ids = concat (map (\<lambda>(i, _). dec i @ [10]) (de_diter e dead))\<rparr>)"
    using d(1) assms(2,3) s'(1) by (simp add: do_delete_def delete_entries_def)
  moreover have "map_of (htable s') = (\<lambda>k. if \<exists>i t. map_of (htable s) k = Some [i] \<and> m i = Some t \<and> t \<le> jobid then None else map_of (htable s) k)"
    using s'(2) assms(10) unfolding purged_def d(2) without_def by (auto simp: fun_eq_iff)
  ultimately show ?thesis using d(3) u(2) by auto
qed

theorem do_delete_keeps_live_witness:
  "\<exists>e cfg f s r. map_of (htable s) (replicate 20 7) = Some [0] \<and> do_delete e cfg 0 (Some f) s = Some (Inr r) \<and>
     map_of (htable (dl_index r)) (replicate 20 7) = None"
proof -
  let ?fp = "replicate 20 (7 :: byte)"
  let ?c = "\<lparr>ct_meta = \<lparr>cm_id = 0, cm_data_size = 3, cm_chunk_num = 1,
     cm_map = [(?fp, \<lparr>me_off = 0, me_len = 3, me_position = None, me_fp = ?fp\<rparr>)]\<rparr>, ct_data = None\<rparr>"
  have ok: "container_ok 3 ?c" by (simp add: container_ok_def meta_ok_def entry_ok_def in64_def cfg_simps)
  have "\<not> container_empty ?c" by (simp add: container_empty_def)
  from write_container_block [OF ok this iter_ok_id, of False] obtain b where "block_of False (\<lambda>t. t) 3 ?c b" by blast
  note pool = stored_write [OF this, of "[]"]
  let ?e = "\<lparr>de_be = False, de_sim = 3, de_iter = (\<lambda>t. t), de_citer = (\<lambda>t. t), de_diter = (\<lambda>t. t), de_siter = (\<lambda>t. t), de_pool = f_write (block_off 3 (cm_id (ct_meta ?c))) b [],
    de_dir = [0 \<mapsto> (replicate 28 0, [], [])], de_junk = \<lparr>cp_fp = [], cp_id = 0, cp_size = 0\<rparr>, de_access = TEMPORARY_ID\<rparr>"
  let ?s = "\<lparr>lru_meta = new_lru_cache 1, lru_seg = new_lru_cache 1, htable = [(?fp, [0])], buffered_fingerprints = [], chunk_num = 0,
    lookup_requests = 0, update_requests = 0, lookup_requests_for_unique = 0, read_prefetching_units = 0, ix_rtm = rtm_start\<rparr>"
  from opens_empty_version obtain bv where bv: "open_backup_version (de_be ?e) (cp_id (de_junk ?e)) (de_dir ?e) 0 = Inr bv" by auto
  have m: "manifest_rep (Some (print_records [(0, 0)])) [0 \<mapsto> 0]" by (auto simp: manifest_rep_def intro!: exI [of _ "[(0, 0)]"])
  have a: "index_category1 ddfs_cfg = INDEX_CATEGORY_PHYSICAL_LOCALITY" "single_table (index_key_size ddfs_cfg) (htable ?s)"
    "iter_ok (de_iter ?e)" "iter_ok (de_citer ?e)" "iter_ok (de_diter ?e)" "pool_holds ?e [?c]" "dom [0 \<mapsto> 0 :: int] \<subseteq> {cm_id (ct_meta c) | c. c \<in> set [?c]}"
    using pool ok by (simp_all add: ddfs_cfg_def single_table_def kv_ok_def TEMPORARY_ID_def iter_ok_id pool_holds_def in64_def)
  have k: "\<forall>k i. map_of (htable ?s) k = Some [i] \<longrightarrow> (\<exists>fp\<in>keys_at [?c] i. take (index_key_size ddfs_cfg) fp = k)"
    by (auto simp: keys_at_def ddfs_cfg_def)
  from do_delete_keeps_live [OF m bv a k] obtain r where
    "do_delete ?e ddfs_cfg 0 (Some (print_records [(0, 0)])) ?s = Some (Inr r)" "map_of (htable (dl_index r)) ?fp = None"
    by (auto simp: fun_eq_iff)
  moreover have "map_of (htable ?s) ?fp = Some [0]" by simp
  ultimately show ?thesis by blast
qed

text \<open>When the manifest gives up nothing, nothing can fail.\<close>

lemma delete_nothing:
  assumes "trunc_manifest (\<lambda>t. t) True j (Some f) = Inr ([], f', live)" and "de_citer e = (\<lambda>t. t)" and "de_diter e = (\<lambda>t. t)"
    and "index_category1 cfg = INDEX_CATEGORY_PHYSICAL_LOCALITY" and "open_backup_version (de_be e) (cp_id (de_junk e)) (de_dir e) j = Inr bv"
  shows "\<exists>q. do_delete e cfg j (Some f) s = Some (Inr q) \<and> dl_index q = s"
proof -
  obtain bv' where "update_backup_version (de_be e) (de_access e) (bv\<lparr>bv_deleted := 1\<rparr>) = Inr (bv', TEMPORARY_ID)"
    using update_readonly [of "bv\<lparr>bv_deleted := 1\<rparr>" "de_be e" "de_access e"] opened_readonly [OF assms(5)] by auto
  then show ?thesis using assms by (simp add: do_delete_def delete_entries_def)
qed

subsection \<open>Logical locality: the segments of the version\<close>

definition segment_pairs :: "segmentRecipe list \<Rightarrow> (fingerprint \<times> int) set" where
  "segment_pairs srs = (\<Union>sr\<in>set srs. fst ` set (sr_kvpairs sr) \<times> {sr_id sr})"

lemma delete_segments_ok:
  assumes it: "iter_ok (de_siter e)"
  shows "srest (recipe_fp bv) = concat (map (enc_segment (de_be e)) segs) \<Longrightarrow> swf (recipe_fp bv) \<Longrightarrow> list_all seg_ok segs \<Longrightarrow> length segs < n \<Longrightarrow>
   single_table (index_key_size cfg) (htable s) \<Longrightarrow>
   \<exists>s' fp. delete_segments e cfg n bv s = Some (Inr (s', bv\<lparr>recipe_fp := fp\<rparr>)) \<and>
     purged cfg (segment_pairs (segments_from (bv_num bv) (st_pos (recipe_fp bv)) segs)) s s'"
proof (induction n arbitrary: bv segs s)
  case (Suc n)
  let ?be = "de_be e"
  show ?case
  proof (cases segs)
    case Nil
    then have "srest (recipe_fp bv) = []" using Suc.prems(1) by simp
    from read_pointer_eof [OF this Suc.prems(2), of ?be "de_junk e"] obtain fp where fp: "read_pointer ?be (de_junk e) (recipe_fp bv) = (de_junk e, fp)" by blast
    have "\<not> st_pos (recipe_fp bv) + 32 \<le> length (st_file (recipe_fp bv))"
      using \<open>srest (recipe_fp bv) = []\<close> Suc.prems(2) by (simp add: srest_def swf_def)
    with fp have "read_next_segment ?be (de_junk e) bv = Inr (None, bv\<lparr>recipe_fp := fp\<rparr>)" by (simp add: read_next_segment_def Let_def)
    then show ?thesis using Nil Suc.prems(5) by (auto simp: segment_pairs_def purged_refl)
  next
    case (Cons cps segs')
    let ?f = "seg_flag SEG_START (int (length cps))" and ?off = "st_pos (recipe_fp bv)"
    have ok: "seg_ok cps" "list_all seg_ok segs'" "cp_ok ?f"
      using Suc.prems(3) Cons by (auto intro: seg_flag_ok) (auto simp: seg_ok_def intro: seg_flag_ok)
    have r: "srest (recipe_fp bv) = enc_cp ?be ?f @ concat (map (enc_cp ?be) cps) @ enc_cp ?be (seg_flag SEG_END 0) @
        concat (map (enc_segment ?be) segs')"
      using Suc.prems(1) Cons by (simp add: enc_segment_def [of _ cps])
    have "32 \<le> length (srest (recipe_fp bv))" unfolding r by (simp add: length_enc_cp [OF ok(3)])
    then have full: "?off + 32 \<le> length (st_file (recipe_fp bv))" by (simp add: srest_def)
    from read_pointer_rest [OF r Suc.prems(2) ok(3), of "de_junk e"] obtain s1 where
      1: "read_pointer ?be (de_junk e) (recipe_fp bv) = (?f, s1)" "swf s1" "st_pos s1 = ?off + 32"
         "srest s1 = concat (map (enc_cp ?be) cps) @ enc_cp ?be (seg_flag SEG_END 0) @ concat (map (enc_segment ?be) segs')" by blast
    from read_segment_rest [OF 1(4,2) ok(1), of ?f "de_junk e" "bv_num bv" ?off] obtain s2 where
      2: "read_segment ?be (de_junk e) (bv_num bv) (int ?off) ?f s1 = Inr (segment_at (bv_num bv) ?off cps, seg_flag SEG_END 0, s2)"
         "srest s2 = concat (map (enc_segment ?be) segs')" "swf s2" "st_pos s2 = st_pos s1 + 32 * (length cps + 1)"
      by (auto simp: seg_flag_def)
    let ?sr = "segment_at (bv_num bv) ?off cps"
    have "cp_id ?f = - SEG_START" by (simp add: seg_flag_def)
    then have n: "read_next_segment ?be (de_junk e) bv = Inr (Some ?sr, bv\<lparr>recipe_fp := s2\<rparr>)"
      using 1(1) 2(1) full by (simp add: read_next_segment_def Let_def)
    from foreach_purged [OF Suc.prems(5), of "sr_id ?sr" "de_siter e (sr_kvpairs ?sr)"] obtain s' where
      p: "segment_recipe_foreach (de_siter e) ?sr (delete_an_entry cfg (sr_id ?sr)) (Inr s) = Inr s'"
        "purged cfg ((\<lambda>(fp, x). (fp, sr_id ?sr)) ` set (sr_kvpairs ?sr)) s s'"
      by (auto simp: segment_recipe_foreach_def iter_ok_set [OF it])
    then have t: "single_table (index_key_size cfg) (htable s')" by (simp add: purged_def)
    have pos: "st_pos s2 = ?off + 32 * (length cps + 2)" using 1(3) 2(4) by simp
    from Suc.IH [of "bv\<lparr>recipe_fp := s2\<rparr>" segs' s'] 2(2,3) ok(2) Suc.prems(4) Cons t obtain s'' fp where
      q: "delete_segments e cfg n (bv\<lparr>recipe_fp := s2\<rparr>) s' = Some (Inr (s'', bv\<lparr>recipe_fp := fp\<rparr>))"
        "purged cfg (segment_pairs (segments_from (bv_num bv) (st_pos s2) segs')) s' s''" by auto
    have "(\<lambda>(fp, x). (fp, sr_id ?sr)) ` set (sr_kvpairs ?sr) = fst ` set (sr_kvpairs ?sr) \<times> {sr_id ?sr}" by force
    then have "segment_pairs (segments_from (bv_num bv) ?off segs) =
        (\<lambda>(fp, x). (fp, sr_id ?sr)) ` set (sr_kvpairs ?sr) \<union> segment_pairs (segments_from (bv_num bv) (st_pos s2) segs')"
      unfolding Cons by (simp add: segment_pairs_def pos)
    with purged_trans [OF p(2) q(2)] n p(1) q(1) show ?thesis by auto
  qed
qed simp

text \<open>With logical locality: the job reads every segment of the recipe, ends, and takes the entries that name one of
  these segments out of the index.\<close>

lemma do_delete_segments:
  assumes v: "ver_rep (de_be e) b acc segs None rs" "list_all seg_ok segs" "list_all fr_ok rs" "bv_ok b"
    "update_backup_version (de_be e) acc b = Inr (b', acc')"
    "de_dir e (bv_num b) = Some (st_file (metadata_fp b'), st_file (recipe_fp b'), st_file (record_fp b'))"
    and m: "manifest_rep (Some f) m" "iter_ok (de_citer e)" "iter_ok (de_siter e)"
    and cfg: "index_category1 cfg = INDEX_CATEGORY_LOGICAL_LOCALITY" "single_table (index_key_size cfg) (htable s)"
  shows "\<exists>r. do_delete e cfg (bv_num b) (Some f) s = Some (Inr r) \<and> purged cfg (segment_pairs (segments_from (bv_num b) 0 segs)) s (dl_index r)"
proof -
  from ver_reopen [where dir = "de_dir e" and junk = "cp_id (de_junk e)", OF v] obtain b2 where
    b2: "open_backup_version (de_be e) (cp_id (de_junk e)) (de_dir e) (bv_num b) = Inr b2" "bv_num b2 = bv_num b"
      "recipe_fp b2 = \<lparr>st_file = concat (map (enc_cp (de_be e)) (concat (map seg_items segs))), st_pos = 0, st_writable = False\<rparr>" by blast
  have rest: "srest (recipe_fp b2) = concat (map (enc_segment (de_be e)) segs)" "swf (recipe_fp b2)" "st_pos (recipe_fp b2) = 0"
    by (simp_all add: b2(3) srest_def swf_def enc_all_items)
  have "length segs \<le> length (concat (map (enc_segment (de_be e)) segs))"
    using v(2) by (induction segs) (auto simp: length_enc_segment)
  then have "length segs < Suc (length (st_file (recipe_fp b2)))" using rest(1,3) by (simp add: srest_def)
  from delete_segments_ok [OF m(3) rest(1,2) v(2) this cfg(2)] obtain s' fp where
    d: "delete_segments e cfg (Suc (length (st_file (recipe_fp b2)))) b2 s = Some (Inr (s', b2\<lparr>recipe_fp := fp\<rparr>))"
      "purged cfg (segment_pairs (segments_from (bv_num b) 0 segs)) s s'" unfolding rest(3) b2(2) by blast
  from trunc_manifest_ok [OF m(1,2), of "bv_num b"] obtain dead f' live where t: "trunc_manifest (de_citer e) True (bv_num b) (Some f) = Inr (dead, f', live)" by blast
  have "\<exists>b3 acc3. update_backup_version (de_be e) (de_access e) (b2\<lparr>recipe_fp := fp, bv_deleted := 1\<rparr>) = Inr (b3, acc3)"
    using update_readonly [of "b2\<lparr>recipe_fp := fp, bv_deleted := 1\<rparr>" "de_be e" "de_access e"] opened_readonly [OF b2(1)] by auto
  with d t b2(1) cfg(1) show ?thesis by (auto simp: do_delete_def delete_entries_def)
qed

end
