(* ===== verification/Job_Files.thy ===== *)
theory Job_Files
  imports Backup_Job Backup_Restore Delete_Job
begin

text \<open>
  What jobs leave to each other on disk: \<open>container.pool\<close>, the dumped index, the recipes, the counters and maps (\<open>store_files\<close>).
  A backup loads them (\<open>start_job\<close>), runs its threads in any interleaving, and saves them (\<open>end_job\<close>); a deletion loads the index
  and saves it purged (\<open>delete_job\<close>). \<open>saved\<close> says what the files hold after any number of jobs, and both kinds of job keep it.

  \<open>ps_accepted\<close> is a record of the specification that no operation reads: \<open>with_history old\<close> lets it go on from
  the containers of the earlier jobs.
\<close>

subsection \<open>The files between jobs\<close>

record store_files =
  sf_disk :: backup_disk
  sf_index :: "byte list option"      \<comment> \<open>\<open>index/htable\<close>\<close>
  sf_recipes :: recipe_dir

definition no_files :: store_files where
  "no_files = \<lparr>sf_disk = \<lparr>bd_pool = None, bd_versions = None, bd_cbt = [], bd_cce = None, bd_rtm = None\<rparr>, sf_index = None,
     sf_recipes = (\<lambda>_. None)\<rparr>"

definition start_job :: "(nat \<Rightarrow> byte) \<Rightarrow> byte list \<Rightarrow> int \<Rightarrow> int \<Rightarrow> filter_cfg \<Rightarrow> bool \<Rightarrow> byte list \<Rightarrow> segment list \<Rightarrow> rtm_state \<Rightarrow> store_files \<Rightarrow>
    (backup \<times> int) res" where
  "start_job g junk junki cache_size cfg can_make path ss s d =
     rbind (init_kvstore_htable (fc_be cfg) junk junki (index_key_size (fc_ix cfg)) (index_value_length (fc_ix cfg)) (sf_index d)) (\<lambda>t.
     rbind (begin_backup g (fc_be cfg) (Some True) path can_make (sf_disk d) (init_id_shift (init_id_shift_hash s))) (\<lambda>(j, p, cnt, s).
       Inr (\<lparr>bk_segs = ss, bk_flight = [], bk_fs = start_filter_phase cache_size (index_start (fc_ix cfg) t s) p (bj_bv j)\<rparr>, cnt)))"

definition end_job :: "filter_cfg \<Rightarrow> (kvtable \<Rightarrow> (byte list \<times> int list) list) \<Rightarrow> int \<Rightarrow> filter_state \<Rightarrow> store_files \<Rightarrow> store_files res" where
  "end_job cfg iter cnt st d =
     (let index = fst (close_kvstore_htable (fc_be cfg) iter (index_key_size (fc_ix cfg)) (index_value_length (fc_ix cfg)) (htable (fs_ix st))) in
      rbind (finish_backup (fc_be cfg) (fs_access st) (fs_bv st) (fs_pool st) cnt (ix_rtm (fs_ix st)) (sf_disk d)) (\<lambda>(bv, disk, s).
        Inr \<lparr>sf_disk = disk, sf_index = Some index,
             sf_recipes = (sf_recipes d)(bv_num bv \<mapsto> (st_file (metadata_fp bv), st_file (recipe_fp bv), st_file (record_fp bv)))\<rparr>))"

text \<open>A deletion opens the container store only for an index with physical locality.\<close>

definition delete_job :: "filter_cfg \<Rightarrow> (kvtable \<Rightarrow> (byte list \<times> int list) list) \<Rightarrow> delete_env \<Rightarrow> byte list \<Rightarrow> int \<Rightarrow> bool \<Rightarrow> rtm_state \<Rightarrow> int \<Rightarrow>
    byte list option \<Rightarrow> store_files \<Rightarrow> (byte list \<times> store_files) res option" where
  "delete_job cfg iter e junk junki can_make s jobid manifest d =
     (let be = fc_be cfg; ks = index_key_size (fc_ix cfg); vl = index_value_length (fc_ix cfg); cnt = init_recipe_store be (bd_versions (sf_disk d)) in
      case rbind (init_kvstore_htable be junk junki ks vl (sf_index d)) (\<lambda>t.
           rbind (if physical cfg then rbind (init_container_store be (bd_pool (sf_disk d)) can_make s) (\<lambda>(p, s). Inr (Some p, s)) else Inr (None, s)) (\<lambda>(p, s).
             Inr (t, p, s))) of
        Inl err \<Rightarrow> Some (Inl err)
      | Inr (t, p, s) \<Rightarrow>
          map_option (\<lambda>r. rbind r (\<lambda>r.
            rbind (case p of None \<Rightarrow> Inr (bd_pool (sf_disk d)) | Some p \<Rightarrow> rbind (close_container_store be p s) (\<lambda>(f, s). Inr (Some f))) (\<lambda>pool.
              Inr (dl_manifest r,
                d\<lparr>sf_disk := (sf_disk d)\<lparr>bd_pool := pool, bd_versions := Some (close_recipe_store be cnt)\<rparr>,
                  sf_index := Some (fst (close_kvstore_htable be iter ks vl (htable (dl_index r)))),
                  sf_recipes := (sf_recipes d)(jobid \<mapsto>
                    (st_file (metadata_fp (dl_version r)), st_file (recipe_fp (dl_version r)), st_file (record_fp (dl_version r))))\<rparr>))))
            (do_delete (e\<lparr>de_be := be, de_sim := fc_sim cfg, de_pool := (case p of None \<Rightarrow> [] | Some p \<Rightarrow> ps_pool p), de_dir := sf_recipes d\<rparr>)
               (fc_ix cfg) jobid manifest (index_start (fc_ix cfg) t s)))"

definition with_history :: "container list \<Rightarrow> backup \<Rightarrow> backup" where
  "with_history old b = b\<lparr>bk_fs := (bk_fs b)\<lparr>fs_pool := (fs_pool (bk_fs b))\<lparr>ps_accepted := old\<rparr>\<rparr>\<rparr>"

definition job_env :: "backup_env \<Rightarrow> int \<Rightarrow> store_files \<Rightarrow> backup_env" where
  "job_env e n d = e\<lparr>be_version := n, be_dir := sf_recipes d\<rparr>"

definition hashed :: "filter_cfg \<Rightarrow> (fingerprint \<Rightarrow> byte list) \<Rightarrow> segment list \<Rightarrow> bool" where   \<comment> \<open>the segments of a stream of whole files\<close>
  "hashed cfg D ss \<longleftrightarrow> stream_ok D (stream_of ss) \<and> (\<forall>c\<in>set (stream_of ss). fresh cfg c) \<and> (\<forall>s\<in>set ss. seg_inv s \<and> seg_len_ok (seg_chunk_num s)) \<and>
     snd (rec_files None (stream_of ss)) = None \<and> int (length (stream_of ss)) < 2 ^ 31"

subsection \<open>What the files hold\<close>

definition pool_bytes :: "byte list option \<Rightarrow> byte list" where
  "pool_bytes file = (case file of None \<Rightarrow> [] | Some f \<Rightarrow> f)"

definition saved_pool :: "bool \<Rightarrow> byte list option \<Rightarrow> container list \<Rightarrow> pool_sys" where
  "saved_pool be file old =
     (pool_empty (pool_bytes file)
        (case file of None \<Rightarrow> 0 | Some f \<Rightarrow> fst (fread_int64 be 0 \<lparr>st_file = f, st_pos = 0, st_writable = True\<rparr>)) [])\<lparr>ps_accepted := old\<rparr>"

definition pool_ready :: "bool \<Rightarrow> meta_iter \<Rightarrow> int \<Rightarrow> (fingerprint \<Rightarrow> byte list) \<Rightarrow> pool_sys \<Rightarrow> bool" where
  "pool_ready be iter sim D p \<longleftrightarrow> pool_inv be iter sim p \<and> pool_blank sim p \<and> 0 \<le> ps_count p \<and> ps_count p < 2 ^ 40 \<and>
     (\<forall>c\<in>set (ps_accepted p). idof c < ps_count p \<and> (\<forall>fp d. ct_abs c fp = Some d \<longrightarrow> d = D fp))"

definition version_on_disk :: "bool \<Rightarrow> (fingerprint \<Rightarrow> byte list) \<Rightarrow> recipe_dir \<Rightarrow> int \<Rightarrow> (byte list \<times> byte list) list \<Rightarrow> chunkPointer list \<Rightarrow> bool" where
  "version_on_disk be D dir n files cps \<longleftrightarrow>
     (\<exists>v acc v' acc' segs rs. cps = concat segs \<and>
        ver_rep be v acc segs None rs \<and> list_all seg_ok segs \<and> list_all fr_ok rs \<and> bv_ok v \<and> bv_num v = n \<and>
        bv_deleted v \<noteq> 1 \<and> update_backup_version be acc v = Inr (v', acc') \<and>
        dir n = Some (st_file (metadata_fp v'), st_file (recipe_fp v'), st_file (record_fp v')) \<and>
        (\<Sum>r\<leftarrow>rs. nat (fr_chunknum r)) = length cps \<and> map fr_filename rs = map fst files \<and>
        map2 (\<lambda>r ps. (fr_filename r, concat (map (\<lambda>cp. D (cp_fp cp)) ps))) rs (pieces rs cps) = files)"

definition version_saved :: "bool \<Rightarrow> (fingerprint \<Rightarrow> byte list) \<Rightarrow> container list \<Rightarrow> recipe_dir \<Rightarrow> int \<Rightarrow> (byte list \<times> byte list) list \<Rightarrow> bool" where
  "version_saved be D old dir n files \<longleftrightarrow>
     (\<exists>cps. version_on_disk be D dir n files cps \<and>
        (\<forall>cp\<in>set cps. cp_size cp = int (length (D (cp_fp cp))) \<and> (\<exists>c\<in>set old. idof c = cp_id cp \<and> cp_fp cp \<in> keys_of c)))"

definition index_saved :: "filter_cfg \<Rightarrow> byte list option \<Rightarrow> bool" where
  "index_saved cfg file \<longleftrightarrow>
     (\<forall>junk junki. \<exists>t. init_kvstore_htable (fc_be cfg) junk junki (index_key_size (fc_ix cfg)) (index_value_length (fc_ix cfg)) file = Inr t \<and>
        kv_ok (index_key_size (fc_ix cfg)) (index_value_length (fc_ix cfg)) t \<and> in32 (int (length t)))"

text \<open>\<open>saved e cfg D d old hist del\<close>: the files after jobs that backed up \<open>hist\<close>, of which those numbered in \<open>del\<close> are deleted.\<close>

definition saved :: "backup_env \<Rightarrow> filter_cfg \<Rightarrow> (fingerprint \<Rightarrow> byte list) \<Rightarrow> store_files \<Rightarrow> container list \<Rightarrow> (byte list \<times> byte list) list list \<Rightarrow>
    int set \<Rightarrow> bool" where
  "saved e cfg D d old hist del \<longleftrightarrow>
     init_recipe_store (fc_be cfg) (bd_versions (sf_disk d)) = int (length hist) \<and>
     pool_ready (fc_be cfg) (be_iter e) (fc_sim cfg) D (saved_pool (fc_be cfg) (bd_pool (sf_disk d)) old) \<and>
     index_saved cfg (sf_index d) \<and>
     (\<forall>n<length hist. int n \<notin> del \<longrightarrow> version_saved (fc_be cfg) D old (sf_recipes d) (int n) (hist ! n))"

lemma saved_none: "saved e cfg D no_files [] [] {}"
proof -
  have "pool_ready (fc_be cfg) (be_iter e) (fc_sim cfg) D (saved_pool (fc_be cfg) None [])"
    by (simp add: pool_ready_def saved_pool_def pool_bytes_def pool_inv_def pool_blank_def blank_def pool_empty_def)
  then show ?thesis by (simp add: saved_def no_files_def init_recipe_store_def index_saved_def init_kvstore_htable_def kv_ok_def in32_def)
qed

lemma index_loaded:
  assumes "saved e cfg D d old hist del"
  shows "\<exists>t. init_kvstore_htable (fc_be cfg) junk junki (index_key_size (fc_ix cfg)) (index_value_length (fc_ix cfg)) (sf_index d) = Inr t \<and>
    kv_ok (index_key_size (fc_ix cfg)) (index_value_length (fc_ix cfg)) t \<and> in32 (int (length t))"
  using assms unfolding saved_def index_saved_def by blast

lemma dumped_index_saved:
  assumes "kv_ok (index_key_size (fc_ix cfg)) (index_value_length (fc_ix cfg)) t" and "iter_ok iter"
    and "in32 (int (index_value_length (fc_ix cfg)))" and "in32 (int (length t))"
  shows "index_saved cfg (Some (fst (close_kvstore_htable (fc_be cfg) iter (index_key_size (fc_ix cfg)) (index_value_length (fc_ix cfg)) t)))"
proof -
  have "kv_ok (index_key_size (fc_ix cfg)) (index_value_length (fc_ix cfg)) (iter t)" "length (iter t) = length t"
    using assms(1,2) by (simp_all add: kv_ok_def iter_ok_distinct list_all_iff iter_ok_set iter_ok_length)
  then show ?thesis using load_dumped [OF assms] assms(4) by (simp add: index_saved_def)
qed

lemma version_saved_mono:
  assumes "version_saved be D old dir n files" and "set old \<subseteq> set old'" and "dir' n = dir n"
  shows "version_saved be D old' dir' n files"
proof -
  have "version_on_disk be D dir' n files cps" if "version_on_disk be D dir n files cps" for cps
    using that unfolding version_on_disk_def assms(3) .
  then show ?thesis using assms(1,2) unfolding version_saved_def by blast
qed

subsection \<open>A job that starts\<close>

lemma created_version:
  assumes "create_backup_version be top_dir cnt = Inr (b, cnt')" and "in32 cnt" and "0 \<notin> set top_dir" and "length top_dir \<le> sds_limit"
  shows "version_ok b \<and> bv_num b = cnt \<and> cnt' = cnt + 1"
proof -
  let ?dir = "rev (dropWhile (\<lambda>c. c \<noteq> 47) (rev top_dir))"
  have b: "bv_num b = cnt" "bv_deleted b = 0" "bv_path b = ?dir" "cnt' = cnt + 1"
    using assms(1) by (auto simp: create_backup_version_def get_next_version_number_def path_dir_def rbind_Inr_iff Let_def split: if_splits)
  have "length ?dir \<le> length top_dir" by (metis length_dropWhile_le length_rev)
  moreover have "0 \<notin> set ?dir" using assms(3) by (auto dest: set_dropWhileD)
  ultimately show ?thesis using b assms(2,4) by (simp add: version_ok_def in32_def sds_limit_def)
qed

lemma begin_backup_parts:
  assumes b: "begin_backup g be (Some True) (c_str path) can_make disk s = Inr (j, p, cnt, s')"
    and path: "0 \<notin> set path" "path \<noteq> []" "length path + 1 \<le> sds_limit"
  shows "\<exists>top_dir. create_backup_version be top_dir (init_recipe_store be (bd_versions disk)) = Inr (bj_bv j, cnt) \<and> 0 \<notin> set top_dir \<and>
    length top_dir \<le> sds_limit \<and> p = (saved_pool be (bd_pool disk) [])\<lparr>ps_rtm := RTMhead s'\<rparr>"
proof -
  let ?root = "if last path = 47 then path else path @ [47]"
  obtain q where q: "init_jcr g (Some True) (Some (c_str path)) = Inr (q, new_counters)" "sds_rep q ?root"
    using init_jcr_directory [OF path] by blast
  have top_dir: "till_nul (sd_buf q) = ?root" using q(2) path(1) by (intro till_nul_rep) auto
  have "length ?root \<le> sds_limit" "0 \<notin> set ?root" using path by auto
  moreover have "create_backup_version be ?root (init_recipe_store be (bd_versions disk)) = Inr (bj_bv j, cnt)"
    using b q(1) top_dir by (auto simp: begin_backup_def init_backup_jcr_def Let_def rbind_Inr_iff)
  moreover have "p = (saved_pool be (bd_pool disk) [])\<lparr>ps_rtm := RTMhead s'\<rparr>"
    using b by (auto simp: begin_backup_def Let_def rbind_Inr_iff init_container_store_def saved_pool_def pool_bytes_def pool_empty_def
        split: option.splits if_splits)
  ultimately show ?thesis by blast
qed

lemma pool_ready_rtm: "pool_ready be iter sim D (p\<lparr>ps_rtm := r\<rparr>) = pool_ready be iter sim D p"
  by (simp add: pool_ready_def pool_inv_def pool_blank_def cong: list.case_cong)

lemma index_start_ok:
  assumes "kv_ok (index_key_size (fc_ix cfg)) (index_value_length (fc_ix cfg)) t"
  shows "ix_ok cfg (index_start (fc_ix cfg) t r)" "buf_rep (index_start (fc_ix cfg) t r) []" "ix_sound H (index_start (fc_ix cfg) t r)"
  using assms
  by (cases "index_category1 (fc_ix cfg)"; simp add: ix_ok_def index_start_def init_fingerprint_cache_def buf_rep_def ix_sound_def
      cache_sound_def buffer_sound_def new_lru_cache_def)+

lemma start_job_ok:
  assumes sv: "saved e cfg D d old hist del" and path: "0 \<notin> set path" "path \<noteq> []" "length path + 1 \<le> sds_limit"
    and ss: "hashed cfg D ss" and st: "start_job g junk junki n cfg can_make (c_str path) ss s d = Inr (b0, cnt)"
    and room: "ps_count (fs_pool (bk_fs b0)) + int (length (stream_of ss)) < 2 ^ 40" "int (length hist) < 2 ^ 31"
    and cfg: "cfg_ok cfg" "physical cfg" "iter_ok (be_iter e)"
  shows "job_ok (job_env e v d) cfg D (with_history old b0)" and "version_ok (fs_bv (bk_fs b0))" and "bv_num (fs_bv (bk_fs b0)) = int (length hist)"
    and "cnt = int (length hist) + 1" and "bk_segs b0 = ss"
proof -
  obtain t j p s' where t: "init_kvstore_htable (fc_be cfg) junk junki (index_key_size (fc_ix cfg)) (index_value_length (fc_ix cfg)) (sf_index d) = Inr t"
    and b: "begin_backup g (fc_be cfg) (Some True) (c_str path) can_make (sf_disk d) (init_id_shift (init_id_shift_hash s)) = Inr (j, p, cnt, s')"
    and b0: "b0 = \<lparr>bk_segs = ss, bk_flight = [], bk_fs = start_filter_phase n (index_start (fc_ix cfg) t s') p (bj_bv j)\<rparr>"
    using st by (auto simp: start_job_def rbind_Inr_iff)
  obtain top_dir where r: "create_backup_version (fc_be cfg) top_dir (int (length hist)) = Inr (bj_bv j, cnt)" "0 \<notin> set top_dir" "length top_dir \<le> sds_limit"
    and p: "p = (saved_pool (fc_be cfg) (bd_pool (sf_disk d)) [])\<lparr>ps_rtm := RTMhead s'\<rparr>"
    using begin_backup_parts [OF b path] sv by (auto simp: saved_def)
  have "in32 (int (length hist))" using room(2) by (simp add: in32_def)
  note v = created_version [OF r(1) this r(2,3)]
  let ?p = "p\<lparr>ps_accepted := old\<rparr>" and ?st = "start_filter_phase n (index_start (fc_ix cfg) t s') (p\<lparr>ps_accepted := old\<rparr>) (bj_bv j)"
  have "?p = (saved_pool (fc_be cfg) (bd_pool (sf_disk d)) old)\<lparr>ps_rtm := RTMhead s'\<rparr>" by (simp add: p saved_pool_def)
  then have ready: "pool_ready (fc_be cfg) (be_iter e) (fc_sim cfg) D ?p" using sv by (simp add: saved_def pool_ready_rtm)
  have kv: "kv_ok (index_key_size (fc_ix cfg)) (index_value_length (fc_ix cfg)) t" using index_loaded [OF sv, of junk junki] t by auto
  have sel: "fs_pool ?st = ?p" "fs_cb ?st = None" "fs_chunks ?st = []" "fs_unique ?st = []" "fs_rewritten ?st = []" "fs_bv ?st = bj_bv j"
    "fs_access ?st = TEMPORARY_ID" "fs_file ?st = None" "fs_ra ?st = init_restore_aware n" "fs_ix ?st = index_start (fc_ix cfg) t s'"
    by (simp_all add: start_filter_phase_def)
  have ix: "ix_ok cfg (fs_ix ?st)" "buf_rep (fs_ix ?st) []" "ix_sound (holds ?st) (fs_ix ?st)"
    unfolding sel(10) by (rule index_start_ok [OF kv])+
  have "store_inv (fc_sim cfg) D ?st"
    using ready by (auto simp: store_inv_def pool_ready_def pool_inv_def all_containers_def sel)
  moreover have "ra_ok (fs_ra ?st)"
    by (simp add: sel ra_ok_def init_restore_aware_def lru_inv_new) (simp add: new_lru_cache_def)
  ultimately have "f_ok cfg D ?st" using ix by (simp add: f_ok_def chunks20_def tables_sound_def sel)
  moreover have "with_history old b0 = \<lparr>bk_segs = ss, bk_flight = [], bk_fs = ?st\<rparr>"
    by (simp add: with_history_def b0 start_filter_phase_def)
  moreover have "ps_count ?p + int (length (stream_of ss)) < 2 ^ 40" using room(1) by (simp add: b0 start_filter_phase_def)
  moreover have "be_iter (job_env e v d) = be_iter e" for v by (simp add: job_env_def)
  ultimately show "job_ok (job_env e v d) cfg D (with_history old b0)"
    using cfg ix ready ss ver_create [OF r(1)] unfolding job_ok_def pool_ready_def hashed_def by (simp add: sel)
  show "version_ok (fs_bv (bk_fs b0))" "bv_num (fs_bv (bk_fs b0)) = int (length hist)" "cnt = int (length hist) + 1" "bk_segs b0 = ss"
    using v by (simp_all add: b0 start_filter_phase_def)
qed

subsection \<open>A job that ends\<close>

lemma finish_index:
  assumes "f_ok cfg D st" and "cfg_ok cfg" and "filter_finish cfg st = Inr st'"
  shows "ix_ok cfg (fs_ix st') \<and> ps_count (fs_pool st') = ps_count (fs_pool st) \<and> set (ps_accepted (fs_pool st')) \<subseteq> set (all_containers st)"
proof (cases "\<exists>b. fs_cb st = Some b \<and> \<not> container_empty b")
  case False
  then have "st' = st" using assms(3) by (auto simp: filter_finish_def split: option.splits)
  then show ?thesis using assms(1) by (simp add: f_ok_def all_containers_def)
next
  case True
  then obtain b where b: "fs_cb st = Some b" "\<not> container_empty b" by blast
  have ok: "container_ok (fc_sim cfg) b" "ix_ok cfg (fs_ix st)" "physical cfg \<longrightarrow> (\<forall>c\<in>set (fs_chunks st). length (ck_fp c) = 20)"
    using assms(1) b(1) by (auto simp: f_ok_def store_inv_def all_containers_def chunks20_def)
  from index_container_ok [OF ok(2) assms(2) ok(1,3)] obtain ix' where
    i: "index_container cfg b st = Inr (if physical cfg then st\<lparr>fs_ix := ix', fs_chunks := []\<rparr> else st\<lparr>fs_ix := ix'\<rparr>)" "ix_ok cfg ix'" by blast
  with assms(3) b show ?thesis
    by (auto simp: filter_finish_def rbind_Inr_iff write_container_async_def all_containers_def split: if_splits)
qed

text \<open>What the append thread does after the others have ended.\<close>

lemma drain_only:
  assumes "backup_reach e cfg b1 b2" and "bk_segs b1 = []" "bk_flight b1 = []" and it: "iter_ok (be_iter e)"
    and p: "pool_inv (fc_be cfg) (be_iter e) (fc_sim cfg) (fs_pool (bk_fs b1))" "pool_blank (fc_sim cfg) (fs_pool (bk_fs b1))"
  shows "bk_segs b2 = [] \<and> bk_flight b2 = [] \<and> (\<exists>p. bk_fs b2 = (bk_fs b1)\<lparr>fs_pool := p\<rparr>) \<and>
    pool_inv (fc_be cfg) (be_iter e) (fc_sim cfg) (fs_pool (bk_fs b2)) \<and> pool_blank (fc_sim cfg) (fs_pool (bk_fs b2)) \<and>
    ps_accepted (fs_pool (bk_fs b2)) = ps_accepted (fs_pool (bk_fs b1)) \<and> ps_count (fs_pool (bk_fs b2)) = ps_count (fs_pool (bk_fs b1))"
  using assms(1)
proof induction
  case start
  have "bk_fs b1 = (bk_fs b1)\<lparr>fs_pool := fs_pool (bk_fs b1)\<rparr>" by simp
  then show ?case using assms(2,3,5,6) by blast
next
  case (step b b')
  obtain q where q: "bk_fs b = (bk_fs b1)\<lparr>fs_pool := q\<rparr>" using step.IH by blast
  then have q': "(bk_fs b)\<lparr>fs_pool := r\<rparr> = (bk_fs b1)\<lparr>fs_pool := r\<rparr>" for r by simp
  let ?p = "fs_pool (bk_fs b)"
  have i: "pool_inv (fc_be cfg) (be_iter e) (fc_sim cfg) ?p" "pool_blank (fc_sim cfg) ?p" using step.IH by blast+
  from step(2) show ?case
  proof cases
    case (append c cs p)
    from append_steps(1) [OF append(2) i(1) it i(2) append(3), of "be_version e"] append(4) step.IH show ?thesis
      unfolding append(1) by (simp add: q') blast
  next
    case (pop c cs)
    from append_steps(2) [OF pop(2) i(1) it i(2) pop(3)] step.IH show ?thesis unfolding pop(1) by (simp add: q') blast
  qed (use step.IH in auto)
qed

lemma reach_accepted:
  assumes "backup_reach e cfg b0 b"
  shows "set (ps_accepted (fs_pool (bk_fs b0))) \<subseteq> set (ps_accepted (fs_pool (bk_fs b)))"
  using assms
proof induction
  case (step b b')
  from step(2) have "set (ps_accepted (fs_pool (bk_fs b))) \<subseteq> set (ps_accepted (fs_pool (bk_fs b')))"
  proof cases
    case (filter s ss w t st)
    from filter_segment_ext [OF filter(3)] filter(1) show ?thesis by (auto simp: pool_ext_def)
  next
    case (append c cs p)
    then show ?thesis by (auto simp: append_write_def rbind_Inr_iff)
  qed auto
  with step.IH show ?case by blast
qed simp

text \<open>From the last segment to the closed store.\<close>

lemma finish_pool:
  assumes j: "job_ok e cfg D b0" and r: "backup_reach e cfg b0 b" and f: "filter_finish cfg (bk_fs b) = Inr st"
  shows "pool_inv (fc_be cfg) (be_iter e) (fc_sim cfg) (fs_pool st)" "pool_blank (fc_sim cfg) (fs_pool st)"
proof -
  have i: "f_ok cfg D (bk_fs b)" "pool_inv (fc_be cfg) (be_iter e) (fc_sim cfg) (fs_pool (bk_fs b))" "pool_blank (fc_sim cfg) (fs_pool (bk_fs b))"
    and cfg: "cfg_ok cfg" using backup_reach_inv [OF r j] j by (simp_all add: bk_inv_def job_ok_def)
  from filter_finish_ok [OF i(1) cfg i(2)] f show "pool_inv (fc_be cfg) (be_iter e) (fc_sim cfg) (fs_pool st)" by auto
  show "pool_blank (fc_sim cfg) (fs_pool st)" by (rule pool_ext_blank [OF i(3) filter_finish_pool [OF f]])
qed

lemma threads_end:
  assumes j: "job_ok e cfg D b0" and r: "backup_reach e cfg b0 b" and fin: "bk_segs b = []" "bk_flight b = []"
    and f: "filter_finish cfg (bk_fs b) = Inr st" and r2: "backup_reach e cfg (b\<lparr>bk_fs := st\<rparr>) b'" and sim: "fc_sim cfg = SIMULATION_NO"
  shows "\<exists>p. bk_fs b' = st\<lparr>fs_pool := p\<rparr> \<and> pool_ready (fc_be cfg) (be_iter e) (fc_sim cfg) D p \<and>
    ps_accepted p = ps_accepted (fs_pool st) \<and> ix_ok cfg (fs_ix st)"
proof -
  have inv: "bk_inv e cfg D (stream_of (bk_segs b0)) b" by (rule backup_reach_inv [OF r j])
  have it: "iter_ok (be_iter e)" and cfg: "cfg_ok cfg" using j by (simp_all add: job_ok_def)
  have i: "f_ok cfg D (bk_fs b)" "ps_count (fs_pool (bk_fs b)) < 2 ^ 40" using inv by (simp_all add: bk_inv_def)
  note p = finish_pool [OF j r f]
  note fi = finish_index [OF i(1) cfg f]
  from drain_only [OF r2 _ _ it] fin p obtain q where q: "bk_fs b' = st\<lparr>fs_pool := q\<rparr>" "pool_inv (fc_be cfg) (be_iter e) (fc_sim cfg) q"
    "pool_blank (fc_sim cfg) q" "ps_accepted q = ps_accepted (fs_pool st)" "ps_count q = ps_count (fs_pool st)" by auto
  have "0 \<le> ps_count q \<and> (\<forall>c\<in>set (ps_accepted q). idof c < ps_count q \<and> (\<forall>fp d. ct_abs c fp = Some d \<longrightarrow> d = D fp))"
    using i(1) fi sim unfolding f_ok_def store_inv_def q(4,5) by (auto simp: cfg_simps)
  then show ?thesis using q fi i(2) by (intro exI [of _ q]) (simp add: pool_ready_def)
qed

lemma pool_count_written:
  assumes "in64 n"
  shows "fst (fread_int64 be 0 \<lparr>st_file = f_write 0 (host_bytes be 8 (i64 n)) pool, st_pos = 0, st_writable = True\<rparr>) = n"
proof -
  let ?s = "\<lparr>st_file = f_write 0 (host_bytes be 8 (i64 n)) pool, st_pos = 0, st_writable = True\<rparr>"
  have "srest ?s = host_bytes be 8 (i64 n) @ drop 8 pool" "swf ?s" by (simp_all add: srest_def swf_def f_write_def Let_def)
  from fread_int64_rest [OF this assms, of 0] show ?thesis by auto
qed

lemma closed_pool_ready:
  assumes p: "pool_ready be iter SIMULATION_NO D p" and b: "ps_buffer p = []"
  shows "pool_ready be iter SIMULATION_NO D (saved_pool be (Some (f_write 0 (host_bytes be 8 (i64 (ps_count p))) (ps_pool p))) (ps_accepted p))"
proof -
  let ?f = "f_write 0 (host_bytes be 8 (i64 (ps_count p))) (ps_pool p)"
  let ?s = "\<lparr>st_file = ?f, st_pos = 0, st_writable = True\<rparr>"
  have cnt: "fst (fread_int64 be 0 ?s) = ps_count p" using p by (intro pool_count_written) (simp add: pool_ready_def in64_def)
  have "pool_inv be iter SIMULATION_NO (saved_pool be (Some ?f) (ps_accepted p))"
    using p b by (auto simp: pool_ready_def saved_pool_def pool_bytes_def pool_empty_def pool_inv_def container_ok_def intro!: stored_header)
  moreover have "blank SIMULATION_NO ?f k" if "0 \<le> k" "blank SIMULATION_NO (ps_pool p) k" for k
  proof -
    have "8 \<le> block_off SIMULATION_NO k"
      using block_off_int [OF that(1), of SIMULATION_NO] that(1) by (simp add: nat_int_comparison)
    then have "8 \<le> meta_start SIMULATION_NO k" by (simp add: meta_start_def)
    then show ?thesis using that(2) by (auto simp: blank_def nth_f_write)
  qed
  then have "pool_blank SIMULATION_NO (saved_pool be (Some ?f) (ps_accepted p))"
    using p by (simp add: pool_ready_def pool_blank_def saved_pool_def pool_bytes_def pool_empty_def)
  ultimately show ?thesis using p cnt by (simp add: pool_ready_def saved_pool_def pool_bytes_def pool_empty_def)
qed

lemma end_job_files:
  assumes "end_job cfg iter cnt st d = Inr d'"
  shows "\<exists>bv. update_backup_version (fc_be cfg) (fs_access st) (fs_bv st) = Inr bv \<and>
    bd_pool (sf_disk d') = Some (f_write 0 (host_bytes (fc_be cfg) 8 (i64 (ps_count (fs_pool st)))) (ps_pool (fs_pool st))) \<and>
    bd_versions (sf_disk d') = Some (close_recipe_store (fc_be cfg) cnt) \<and>
    sf_index d' = Some (fst (close_kvstore_htable (fc_be cfg) iter (index_key_size (fc_ix cfg)) (index_value_length (fc_ix cfg)) (htable (fs_ix st)))) \<and>
    sf_recipes d' = (sf_recipes d)(bv_num (fst bv) \<mapsto> (st_file (metadata_fp (fst bv)), st_file (recipe_fp (fst bv)), st_file (record_fp (fst bv))))"
proof -
  from assms obtain v disk t where f: "finish_backup (fc_be cfg) (fs_access st) (fs_bv st) (fs_pool st) cnt (ix_rtm (fs_ix st)) (sf_disk d) = Inr (v, disk, t)"
    and d': "d' = \<lparr>sf_disk = disk,
      sf_index = Some (fst (close_kvstore_htable (fc_be cfg) iter (index_key_size (fc_ix cfg)) (index_value_length (fc_ix cfg)) (htable (fs_ix st)))),
      sf_recipes = (sf_recipes d)(bv_num v \<mapsto> (st_file (metadata_fp v), st_file (recipe_fp v), st_file (record_fp v)))\<rparr>"
    by (auto simp: end_job_def rbind_Inr_iff)
  from f obtain acc where u: "update_backup_version (fc_be cfg) (fs_access st) (fs_bv st) = Inr (v, acc)"
    and "bd_pool disk = Some (f_write 0 (host_bytes (fc_be cfg) 8 (i64 (ps_count (fs_pool st)))) (ps_pool (fs_pool st)))"
    and "bd_versions disk = Some (close_recipe_store (fc_be cfg) cnt)"
    by (auto simp: finish_backup_def close_container_store_def rbind_Inr_iff Let_def prod.case_eq_if)
  then show ?thesis by (intro exI [of _ "(v, acc)"]) (simp add: d')
qed

subsection \<open>The version a job saves\<close>

text \<open>The recipe a job has written can be saved, and what is saved describes its files.\<close>

lemma recipe_written:
  assumes j: "job_ok e cfg D b0" and r: "backup_reach e cfg b0 b" and fin: "bk_segs b = []" "bk_flight b = []"
    and f: "filter_finish cfg (bk_fs b) = Inr st" and sim: "fc_sim cfg = SIMULATION_NO"
    and bv: "version_ok (fs_bv (bk_fs b0))" and h: "hashed cfg D (bk_segs b0)"
  shows "\<exists>segs rs. ver_rep (fc_be cfg) (fs_bv st) (fs_access st) segs None rs \<and> list_all seg_ok segs \<and> list_all fr_ok rs \<and> bv_ok (fs_bv st) \<and>
    bv_num (fs_bv st) = bv_num (fs_bv (bk_fs b0)) \<and> bv_deleted (fs_bv st) \<noteq> 1 \<and> (\<Sum>r\<leftarrow>rs. nat (fr_chunknum r)) = length (concat segs) \<and>
    map fr_filename rs = map fst (stream_files None (stream_of (bk_segs b0))) \<and>
    map2 (\<lambda>r ps. (fr_filename r, concat (map (\<lambda>cp. D (cp_fp cp)) ps))) rs (pieces rs (concat segs)) = stream_files None (stream_of (bk_segs b0)) \<and>
    (\<forall>cp\<in>set (concat segs). cp_size cp = int (length (D (cp_fp cp))) \<and>
       (\<exists>c\<in>set (ps_accepted (fs_pool st)). idof c = cp_id cp \<and> cp_fp cp \<in> keys_of c))"
proof -
  let ?all = "stream_of (bk_segs b0)" and ?be = "fc_be cfg" and ?bv0 = "fs_bv (bk_fs b0)"
  have st: "stream_ok D ?all" and small: "int (length ?all) < 2 ^ 31" and closed: "snd (rec_files None ?all) = None" using h by (simp_all add: hashed_def)
  have "fc_sim cfg < SIMULATION_RESTORE" using sim by (simp add: cfg_simps)
  from backup_done [OF j r fin this] f obtain segs rs where d: "ver_rep ?be (fs_bv st) (fs_access st) segs None rs"
    "rec_files None ?all = (rs, fs_file st)" "map (\<lambda>cp. (cp_fp cp, cp_size cp)) (concat segs) = map (\<lambda>c. (ck_fp c, ck_size c)) (data_chunks ?all)"
    "same_head ?bv0 (fs_bv st)" "pool_inv ?be (be_iter e) (fc_sim cfg) (fs_pool st)"
    "\<forall>cp\<in>set (concat segs). \<exists>c\<in>set (ps_accepted (fs_pool st)). idof c = cp_id cp \<and> cp_fp cp \<in> keys_of c" by auto
  have rf: "rec_files None ?all = (rs, None)" using d(2) closed by simp
  note ptr = recipe_pointers_ok [OF st small d(3,5,6)]
  have wf: "file_wf False ?all" "\<forall>c\<in>set ?all. \<not> is_file_mark c \<longrightarrow> data_ok D c" using st by (simp_all add: stream_ok_def)
  note sr = stream_recipe [OF wf(1) rf wf(2) ptr(1) small]
  have "length rs \<le> length ?all" using rec_files_length [of None ?all] rf by simp
  then have "int (length rs) < 2 ^ 31" using small by linarith
  note hd = head_ok [OF d(4) bv d(1) this ptr(4)]
  show ?thesis by (intro exI [of _ segs] exI [of _ rs]) (use d(1,6) ptr(2,3) hd sr in auto)
qed

lemma new_version_saved:
  assumes j: "job_ok e cfg D b0" and r: "backup_reach e cfg b0 b" and fin: "bk_segs b = []" "bk_flight b = []"
    and f: "filter_finish cfg (bk_fs b) = Inr st" and sim: "fc_sim cfg = SIMULATION_NO"
    and bv: "version_ok (fs_bv (bk_fs b0))" and h: "hashed cfg D (bk_segs b0)"
    and u: "update_backup_version (fc_be cfg) (fs_access st) (fs_bv st) = Inr v"
    and dir: "dir (bv_num (fs_bv (bk_fs b0))) = Some (st_file (metadata_fp (fst v)), st_file (recipe_fp (fst v)), st_file (record_fp (fst v)))"
  shows "version_saved (fc_be cfg) D (ps_accepted (fs_pool st)) dir (bv_num (fs_bv (bk_fs b0))) (stream_files None (stream_of (bk_segs b0)))"
proof -
  from recipe_written [OF j r fin f sim bv h] obtain segs rs where w: "ver_rep (fc_be cfg) (fs_bv st) (fs_access st) segs None rs"
    "list_all seg_ok segs" "list_all fr_ok rs" "bv_ok (fs_bv st)" "bv_num (fs_bv st) = bv_num (fs_bv (bk_fs b0))" "bv_deleted (fs_bv st) \<noteq> 1"
    "(\<Sum>r\<leftarrow>rs. nat (fr_chunknum r)) = length (concat segs)" "map fr_filename rs = map fst (stream_files None (stream_of (bk_segs b0)))"
    "map2 (\<lambda>r ps. (fr_filename r, concat (map (\<lambda>cp. D (cp_fp cp)) ps))) rs (pieces rs (concat segs)) = stream_files None (stream_of (bk_segs b0))"
    "\<forall>cp\<in>set (concat segs). cp_size cp = int (length (D (cp_fp cp))) \<and>
       (\<exists>c\<in>set (ps_accepted (fs_pool st)). idof c = cp_id cp \<and> cp_fp cp \<in> keys_of c)" by blast
  have "version_on_disk (fc_be cfg) D dir (bv_num (fs_bv (bk_fs b0))) (stream_files None (stream_of (bk_segs b0))) (concat segs)"
    unfolding version_on_disk_def
    by (intro exI [of _ "fs_bv st"] exI [of _ "fs_access st"] exI [of _ "fst v"] exI [of _ "snd v"] exI [of _ segs] exI [of _ rs] conjI)
      (use w(1-9) u dir in auto)
  then show ?thesis unfolding version_saved_def using w(10) by blast
qed

lemma flush_number:
  "flush_metabuf b = Inr b' \<Longrightarrow> bv_num b' = bv_num b" "flush_recordbuf b = Inr b' \<Longrightarrow> bv_num b' = bv_num b"
  by (auto simp: flush_metabuf_def flush_recordbuf_def rbind_Inr_iff split: option.splits)

lemma update_number: "update_backup_version be acc b = Inr v \<Longrightarrow> bv_num (fst v) = bv_num b"
  unfolding update_backup_version_def Let_def rbind_Inr_iff by (auto dest!: flush_number split: if_splits)

lemma saved_number:
  assumes "job_ok e cfg D b0" and "backup_reach e cfg b0 b" and "filter_finish cfg (bk_fs b) = Inr st"
    and "update_backup_version (fc_be cfg) (fs_access st) (fs_bv st) = Inr v"
  shows "bv_num (fst v) = bv_num (fs_bv (bk_fs b0))"
proof -
  have "f_ok cfg D (bk_fs b)" "pool_inv (fc_be cfg) (be_iter e) (fc_sim cfg) (fs_pool (bk_fs b))" "cfg_ok cfg"
    using backup_reach_inv [OF assms(2,1)] assms(1) by (simp_all add: bk_inv_def job_ok_def)
  from filter_finish_ok [OF this(1,3,2)] assms(3) have "fs_bv st = fs_bv (bk_fs b)" by auto
  then show ?thesis using backup_reach_head [OF assms(2,1)] update_number [OF assms(4)] by (simp add: same_head_def)
qed

lemma job_saves:
  assumes sv: "saved e cfg D d old hist del" and path: "0 \<notin> set path" "path \<noteq> []" "length path + 1 \<le> sds_limit"
    and ss: "hashed cfg D ss" and st: "start_job g junk junki n cfg can_make (c_str path) ss s d = Inr (b0, cnt)"
    and room: "ps_count (fs_pool (bk_fs b0)) + int (length (stream_of ss)) < 2 ^ 40" "int (length hist) + 1 < 2 ^ 31"
    and r: "backup_reach (job_env e (cnt - 1) d) cfg (with_history old b0) b" "bk_segs b = []" "bk_flight b = []"
    and f: "filter_finish cfg (bk_fs b) = Inr st" and r2: "backup_reach (job_env e (cnt - 1) d) cfg (b\<lparr>bk_fs := st\<rparr>) b'"
    and fin: "ps_buffer (fs_pool (bk_fs b')) = []" "iter_ok iter" "in32 (int (length (htable (fs_ix st))))"
      "end_job cfg iter cnt (bk_fs b') d = Inr d'"
    and cfg: "cfg_ok cfg" "physical cfg" "iter_ok (be_iter e)" "fc_sim cfg = SIMULATION_NO" "in32 (int (index_value_length (fc_ix cfg)))"
  shows "saved e cfg D d' (ps_accepted (fs_pool (bk_fs b'))) (hist @ [stream_files None (stream_of ss)]) del"
proof -
  let ?e = "job_env e (cnt - 1) d" and ?b0 = "with_history old b0" and ?be = "fc_be cfg" and ?files = "stream_files None (stream_of ss)"
  have "int (length hist) < 2 ^ 31" using room(2) by simp
  note j = start_job_ok [OF sv path ss st room(1) this cfg(1-3)]
  have b0: "bk_segs ?b0 = ss" "fs_bv (bk_fs ?b0) = fs_bv (bk_fs b0)" "ps_accepted (fs_pool (bk_fs ?b0)) = old" using j(5) by (simp_all add: with_history_def)
  have be: "be_iter ?e = be_iter e" by (simp add: job_env_def)
  from threads_end [OF j(1) r f r2 cfg(4)] obtain p where p: "bk_fs b' = st\<lparr>fs_pool := p\<rparr>" "pool_ready ?be (be_iter e) SIMULATION_NO D p"
    "ps_accepted p = ps_accepted (fs_pool st)" "ix_ok cfg (fs_ix st)" unfolding be cfg(4) by blast
  from end_job_files [OF fin(4)] obtain v where v: "update_backup_version ?be (fs_access st) (fs_bv st) = Inr v"
    and d': "bd_pool (sf_disk d') = Some (f_write 0 (host_bytes ?be 8 (i64 (ps_count p))) (ps_pool p))"
      "bd_versions (sf_disk d') = Some (close_recipe_store ?be cnt)"
      "sf_index d' = Some (fst (close_kvstore_htable ?be iter (index_key_size (fc_ix cfg)) (index_value_length (fc_ix cfg)) (htable (fs_ix st))))"
      "sf_recipes d' = (sf_recipes d)(bv_num (fst v) \<mapsto> (st_file (metadata_fp (fst v)), st_file (recipe_fp (fst v)), st_file (record_fp (fst v))))"
    unfolding p(1) by auto
  have num: "bv_num (fst v) = int (length hist)" using saved_number [OF j(1) r(1) f v] j(3) by (simp add: b0(2))
  have acc: "set old \<subseteq> set (ps_accepted (fs_pool st))"
    using reach_accepted [OF r(1)] filter_finish_pool [OF f] unfolding b0(3) by (auto simp: pool_ext_def)
  have new: "version_saved ?be D (ps_accepted p) (sf_recipes d') (int (length hist)) ?files"
    using new_version_saved [OF j(1) r f cfg(4) _ _ v, of "sf_recipes d'"] j(2,3) ss num unfolding b0 d'(4) p(3) by simp
  have olds: "version_saved ?be D (ps_accepted p) (sf_recipes d') (int k) (hist ! k)" if k: "k < length hist" "int k \<notin> del" for k
  proof (rule version_saved_mono)
    show "version_saved ?be D old (sf_recipes d) (int k) (hist ! k)" using sv k unfolding saved_def by blast
    show "set old \<subseteq> set (ps_accepted p)" unfolding p(3) by (rule acc)
    show "sf_recipes d' (int k) = sf_recipes d (int k)" using k(1) by (simp add: d'(4) num)
  qed
  have ix: "index_saved cfg (sf_index d')"
    unfolding d'(3) by (rule dumped_index_saved [OF p(4) [unfolded ix_ok_def] fin(2) cfg(5) fin(3)])
  have "in32 cnt" using j(4) room(2) by (simp add: in32_def)
  from init_recipe_store_close [OF this] have "init_recipe_store ?be (bd_versions (sf_disk d')) = int (length hist) + 1" using d'(2) j(4) by simp
  moreover have "pool_ready ?be (be_iter e) SIMULATION_NO D (saved_pool ?be (bd_pool (sf_disk d')) (ps_accepted p))"
    unfolding d'(1) using closed_pool_ready [OF p(2)] fin(1) p(1) by simp
  ultimately show ?thesis unfolding saved_def p(1) cfg(4) using ix new olds by (auto simp: nth_append less_Suc_eq)
qed

subsection \<open>A deletion\<close>

text \<open>Deleting entries keeps the table well-formed and no larger.\<close>

definition table_le :: "ix_cfg \<Rightarrow> nat \<Rightarrow> kvtable \<Rightarrow> bool" where
  "table_le cfg n t \<longleftrightarrow> kv_ok (index_key_size cfg) (index_value_length cfg) t \<and> length t \<le> n"

lemma kv_delete_keeps: "kv_delete vals i = Inr vals' \<Longrightarrow> length vals' = length vals \<and> (list_all in64 vals \<longrightarrow> list_all in64 vals')"
  by (induction vals i arbitrary: vals' rule: kv_delete.induct) (auto simp: rbind_Inr_iff in64_TEMP split: if_splits)

lemma htable_delete_keeps:
  assumes "kv_ok ks vl t" and "kvstore_htable_delete ks key i t = Inr t'"
  shows "kv_ok ks vl t' \<and> length t' \<le> length t"
proof (cases "map_of t (take ks key)")
  case None
  then show ?thesis using assms by (simp add: kvstore_htable_delete_def)
next
  case (Some vals)
  with assms(2) obtain v where v: "kv_delete vals i = Inr v" "t' = AList.delete (take ks key) t \<or> t' = AList.update (take ks key) v t"
    by (auto simp: kvstore_htable_delete_def rbind_Inr_iff split: if_splits)
  have "kv_ok ks vl (AList.update (take ks key) v t)"
    using kv_ok_entry [OF assms(1) Some] kv_delete_keeps [OF v(1)] by (intro kv_ok_set [OF assms(1)]) auto
  moreover have "take ks key \<in> set (map fst t)" using Some by (force dest: map_of_SomeD)
  then have "length (AList.update (take ks key) v t) = length t" by (metis length_map update_keys)
  ultimately show ?thesis using v(2) kv_ok_delete [OF assms(1)] length_delete_le by auto
qed

lemma index_delete_keeps: "table_le cfg n (htable s) \<Longrightarrow> index_delete cfg fp i s = Inr s' \<Longrightarrow> table_le cfg n (htable s')"
  using htable_delete_keeps by (force simp: index_delete_def rbind_Inr_iff table_le_def)

lemma foreach_keeps:
  assumes "fold (\<lambda>(fp, x). delete_an_entry cfg i fp) kvs r = Inr s'" and "\<And>s. r = Inr s \<Longrightarrow> table_le cfg n (htable s)"
  shows "table_le cfg n (htable s')"
  using assms
proof (induction kvs arbitrary: r)
  case (Cons x kvs)
  obtain fp y where x: "x = (fp, y)" by (cases x)
  have "table_le cfg n (htable s)" if "delete_an_entry cfg i fp r = Inr s" for s
    using that Cons.prems(2) index_delete_keeps by (auto simp: delete_an_entry_def rbind_Inr_iff)
  with Cons.prems(1) show ?case by (intro Cons.IH) (simp_all add: x)
qed simp

lemma do_delete_table:
  assumes d: "do_delete e cfg jobid manifest s = Some (Inr r)" and ph: "index_category1 cfg = INDEX_CATEGORY_PHYSICAL_LOCALITY"
    and t: "table_le cfg n (htable s)"
  shows "table_le cfg n (htable (dl_index r))"
proof -
  from d ph obtain dead s1 where 1: "rfold (\<lambda>(i, _). reclaim_container e cfg i) (de_diter e dead) s = Inr s1" "dl_index r = s1"
    by (auto simp: do_delete_def delete_entries_def rbind_Inr_iff split: sum.splits)
  have step: "table_le cfg n (htable u')" if "reclaim_container e cfg i u = Inr u'" "table_le cfg n (htable u)" for i u u'
    using that foreach_keeps [where r = "Inr u"] by (auto simp: reclaim_container_def container_meta_foreach_def rbind_Inr_iff)
  have "table_le cfg n (htable s1)" using rfold_inv [where I = "\<lambda>s. table_le cfg n (htable s)", OF _ t 1(1)] step by fastforce
  then show ?thesis using 1(2) by simp
qed

lemma opened_store:
  assumes "init_container_store be file can_make s = Inr (p, s')"
  shows "p\<lparr>ps_accepted := old\<rparr> = (saved_pool be file old)\<lparr>ps_rtm := ps_rtm p\<rparr> \<and> ps_buffer p = []"
  using assms by (auto simp: init_container_store_def saved_pool_def pool_bytes_def pool_empty_def Let_def split: option.splits if_splits)

lemma delete_saves:
  assumes sv: "saved e cfg D d old hist del" and del: "delete_job cfg iter ed junk junki can_make s jobid manifest d = Some (Inr (f, d'))"
    and it: "iter_ok iter" and small: "int (length hist) < 2 ^ 31"
    and cfg: "physical cfg" "fc_sim cfg = SIMULATION_NO" "in32 (int (index_value_length (fc_ix cfg)))"
  shows "saved e cfg D d' old hist (insert jobid del)"
proof -
  let ?be = "fc_be cfg" and ?ks = "index_key_size (fc_ix cfg)" and ?vl = "index_value_length (fc_ix cfg)"
  have cnt: "init_recipe_store ?be (bd_versions (sf_disk d)) = int (length hist)" and vs: "\<forall>n<length hist. int n \<notin> del \<longrightarrow> version_saved ?be D old (sf_recipes d) (int n) (hist ! n)"
    using sv by (simp_all add: saved_def)
  from del cfg(1) obtain t p s1 r g s2 where 1: "init_kvstore_htable ?be junk junki ?ks ?vl (sf_index d) = Inr t"
    "init_container_store ?be (bd_pool (sf_disk d)) can_make s = Inr (p, s1)"
    "do_delete (ed\<lparr>de_be := ?be, de_sim := fc_sim cfg, de_pool := ps_pool p, de_dir := sf_recipes d\<rparr>) (fc_ix cfg) jobid manifest (index_start (fc_ix cfg) t s1) = Some (Inr r)"
    "close_container_store ?be p s1 = Inr (g, s2)"
    "d' = d\<lparr>sf_disk := (sf_disk d)\<lparr>bd_pool := Some g, bd_versions := Some (close_recipe_store ?be (int (length hist)))\<rparr>,
      sf_index := Some (fst (close_kvstore_htable ?be iter ?ks ?vl (htable (dl_index r)))),
      sf_recipes := (sf_recipes d)(jobid \<mapsto>
        (st_file (metadata_fp (dl_version r)), st_file (recipe_fp (dl_version r)), st_file (record_fp (dl_version r))))\<rparr>"
    by (auto simp: delete_job_def Let_def cnt rbind_Inr_iff split: sum.splits)
  have t: "kv_ok ?ks ?vl t" "in32 (int (length t))" using index_loaded [OF sv, of junk junki] 1(1) by auto
  have h: "htable (index_start (fc_ix cfg) t s1) = t" by (simp add: index_start_def init_fingerprint_cache_def split: locality.splits)
  have "index_category1 (fc_ix cfg) = INDEX_CATEGORY_PHYSICAL_LOCALITY" using cfg(1) by (simp add: physical_def)
  from do_delete_table [OF 1(3) this, of "length t"] t(1) h have
    2: "kv_ok ?ks ?vl (htable (dl_index r))" "length (htable (dl_index r)) \<le> length t"
    by (simp_all add: table_le_def)
  have "in32 (int (length (htable (dl_index r))))" using t(2) 2(2) by (simp add: in32_def)
  from dumped_index_saved [OF 2(1) it cfg(3) this] have ix: "index_saved cfg (sf_index d')" by (simp add: 1(5))
  have others: "version_saved ?be D old (sf_recipes d') (int n) (hist ! n)" if "n < length hist" "int n \<notin> insert jobid del" for n
  proof (rule version_saved_mono)
    show "version_saved ?be D old (sf_recipes d) (int n) (hist ! n)" using vs that by simp
    show "sf_recipes d' (int n) = sf_recipes d (int n)" using that(2) by (simp add: 1(5))
  qed simp
  have "pool_ready ?be (be_iter e) SIMULATION_NO D (p\<lparr>ps_accepted := old\<rparr>)"
    using sv opened_store [OF 1(2), of old] by (simp add: saved_def pool_ready_rtm cfg(2))
  moreover have "ps_buffer p = []" using opened_store [OF 1(2)] by blast
  moreover have "g = f_write 0 (host_bytes ?be 8 (i64 (ps_count p))) (ps_pool p)" using 1(4) by (auto simp: close_container_store_def rbind_Inr_iff)
  ultimately have "pool_ready ?be (be_iter e) SIMULATION_NO D (saved_pool ?be (bd_pool (sf_disk d')) old)"
    using closed_pool_ready [of ?be "be_iter e" D "p\<lparr>ps_accepted := old\<rparr>"] by (simp add: 1(5))
  moreover have "in32 (int (length hist))" using small by (simp add: in32_def)
  ultimately show ?thesis using ix others init_recipe_store_close unfolding saved_def cfg(2) by (simp add: 1(5))
qed

text \<open>A deletion that a manifest without containers asks for runs to its end.\<close>

lemma delete_runs:
  assumes sv: "saved e cfg D d old hist del" and n: "n < length hist" "int n \<notin> del" and ph: "physical cfg" and pool: "bd_pool (sf_disk d) = Some pool"
    and s: "ishead s = []" and ed: "de_citer ed = (\<lambda>t. t)" "de_diter ed = (\<lambda>t. t)"
  shows "\<exists>f d' t. delete_job cfg iter ed junk junki can_make s (int n) (Some (print_records [])) d = Some (Inr (f, d')) \<and>
    init_kvstore_htable (fc_be cfg) junk junki (index_key_size (fc_ix cfg)) (index_value_length (fc_ix cfg)) (sf_index d) = Inr t \<and>
    sf_index d' = Some (fst (close_kvstore_htable (fc_be cfg) iter (index_key_size (fc_ix cfg)) (index_value_length (fc_ix cfg)) t)) \<and>
    bd_versions (sf_disk d') = Some (close_recipe_store (fc_be cfg) (int (length hist))) \<and>
    bd_pool (sf_disk d') = Some (f_write 0 (host_bytes (fc_be cfg) 8
      (i64 (fst (fread_int64 (fc_be cfg) 0 \<lparr>st_file = pool, st_pos = 0, st_writable = True\<rparr>)))) pool)"
proof -
  let ?be = "fc_be cfg"
  obtain t where t: "init_kvstore_htable ?be junk junki (index_key_size (fc_ix cfg)) (index_value_length (fc_ix cfg)) (sf_index d) = Inr t"
    using index_loaded [OF sv] by blast
  obtain p s1 where p: "init_container_store ?be (Some pool) can_make s = Inr (p, s1)" and p': "ps_pool p = pool"
    "ps_count p = fst (fread_int64 ?be 0 \<lparr>st_file = pool, st_pos = 0, st_writable = True\<rparr>)"
    by (simp add: init_container_store_def pool_empty_def Let_def)
  then have "ishead s1 = []" "container_count_start s1 = ps_count p" using s by (auto simp: init_container_store_def pool_empty_def Let_def)
  then obtain g s2 where g: "close_container_store ?be p s1 = Inr (g, s2)" "g = f_write 0 (host_bytes ?be 8 (i64 (ps_count p))) (ps_pool p)"
    by (simp add: close_container_store_def update_container_bit_table_and_RTM_def)
  let ?ed = "ed\<lparr>de_be := ?be, de_sim := fc_sim cfg, de_pool := ps_pool p, de_dir := sf_recipes d\<rparr>"
  have "version_saved ?be D old (sf_recipes d) (int n) (hist ! n)" using sv n by (simp add: saved_def)
  then obtain v acc v' acc' segs rs where v: "ver_rep ?be v acc segs None rs" "list_all seg_ok segs" "list_all fr_ok rs" "bv_ok v"
    "update_backup_version ?be acc v = Inr (v', acc')" "sf_recipes d (int n) = Some (st_file (metadata_fp v'), st_file (recipe_fp v'), st_file (record_fp v'))"
    "bv_num v = int n" unfolding version_saved_def version_on_disk_def by blast
  obtain b where b: "open_backup_version ?be (cp_id (de_junk ?ed)) (de_dir ?ed) (int n) = Inr b"
    using ver_reopen [OF v(1-5), of "sf_recipes d"] v(6,7) by auto
  have "manifest_rep (Some (print_records [])) Map.empty" by (auto simp: manifest_rep_def intro!: exI [of _ "[]"])
  from trunc_manifest_ok [OF this iter_ok_id, of "int n"] obtain f live where
    "trunc_manifest (\<lambda>t. t) True (int n) (Some (print_records [])) = Inr ([], f, live)" by auto
  then obtain q where "do_delete ?ed (fc_ix cfg) (int n) (Some (print_records [])) (index_start (fc_ix cfg) t s1) = Some (Inr q)"
    "dl_index q = index_start (fc_ix cfg) t s1"
    using delete_nothing [of "int n" "print_records []" f live ?ed "fc_ix cfg" b] b ed ph by (auto simp: physical_def)
  moreover have "htable (index_start (fc_ix cfg) t s1) = t" by (simp add: index_start_def init_fingerprint_cache_def split: locality.splits)
  moreover have "init_recipe_store ?be (bd_versions (sf_disk d)) = int (length hist)" using sv by (simp add: saved_def)
  ultimately show ?thesis using t p p' g ph by (simp add: delete_job_def pool Let_def)
qed

end
