(* ===== verification/Backup_Series.thy ===== *)
theory Backup_Series
  imports Job_Files
begin

text \<open>
  Backups and deletions one after the other on the files they leave (\<open>Job_Files\<close>): every version that is not deleted stays
  restorable.
\<close>

subsection \<open>A series of jobs\<close>

text \<open>\<open>series e cfg D d old hist del\<close>: the jobs so far have left \<open>d\<close>, with the containers \<open>old\<close> in the pool; \<open>hist\<close> has the files of
  each backup, \<open>del\<close> the numbers of the deleted ones. A backup whose threads have done their work goes on with the append thread until its
  buffer is empty. A deletion takes any job, whatever the manifest says; the order of the two kinds is free.\<close>

inductive series :: "backup_env \<Rightarrow> filter_cfg \<Rightarrow> (fingerprint \<Rightarrow> byte list) \<Rightarrow> store_files \<Rightarrow> container list \<Rightarrow> (byte list \<times> byte list) list list \<Rightarrow>
    int set \<Rightarrow> bool"
  for e cfg D where
  none: "series e cfg D no_files [] [] {}"
| job: "series e cfg D d old hist del \<Longrightarrow> 0 \<notin> set path \<Longrightarrow> path \<noteq> [] \<Longrightarrow> length path + 1 \<le> sds_limit \<Longrightarrow> hashed cfg D ss \<Longrightarrow>
    start_job g junk junki cache_size cfg can_make (c_str path) ss s d = Inr (b0, cnt) \<Longrightarrow>
    ps_count (fs_pool (bk_fs b0)) + int (length (stream_of ss)) < 2 ^ 40 \<Longrightarrow>
    backup_reach (job_env e (cnt - 1) d) cfg (with_history old b0) b \<Longrightarrow> bk_segs b = [] \<Longrightarrow> bk_flight b = [] \<Longrightarrow>
    filter_finish cfg (bk_fs b) = Inr st \<Longrightarrow>
    backup_reach (job_env e (cnt - 1) d) cfg (b\<lparr>bk_fs := st\<rparr>) b' \<Longrightarrow> ps_buffer (fs_pool (bk_fs b')) = [] \<Longrightarrow>
    iter_ok iter \<Longrightarrow> in32 (int (length (htable (fs_ix st)))) \<Longrightarrow>
    end_job cfg iter cnt (bk_fs b') d = Inr d' \<Longrightarrow>
    series e cfg D d' (ps_accepted (fs_pool (bk_fs b'))) (hist @ [stream_files None (stream_of ss)]) del"
| delete: "series e cfg D d old hist del \<Longrightarrow> iter_ok iter \<Longrightarrow> delete_job cfg iter ed junk junki can_make s jobid manifest d = Some (Inr (f, d')) \<Longrightarrow>
    series e cfg D d' old hist (insert jobid del)"

text \<open>After any number of jobs.\<close>

lemma series_saved:
  assumes "series e cfg D d old hist del" and "int (length hist) < 2 ^ 31"
    and cfg: "cfg_ok cfg" "physical cfg" "iter_ok (be_iter e)" "fc_sim cfg = SIMULATION_NO" "in32 (int (index_value_length (fc_ix cfg)))"
  shows "saved e cfg D d old hist del"
  using assms(1,2)
proof induction
  case none
  show ?case by (rule saved_none)
next
  case (job d old hist path ss g junk junki cache_size can_make s b0 cnt b st b' iter d')
  have "int (length hist) < 2 ^ 31" "int (length hist) + 1 < 2 ^ 31" using job.prems by simp_all
  from job_saves [OF job.IH [OF this(1)] job.hyps(2-7) this(2) job.hyps(8-16) cfg] show ?case .
next
  case (delete d old hist iter ed junk junki can_make s jobid manifest f d')
  from delete_saves [OF delete.IH [OF delete.prems] delete.hyps(3,2) delete.prems cfg(2,4,5)] show ?case .
qed

lemma saved_readable:
  assumes "saved e cfg D d old hist del" and "bd_pool (sf_disk d) = Some pool" and "iter_ok (be_iter e)" and sim: "fc_sim cfg = SIMULATION_NO"
    and r: "rs_be rcfg = fc_be cfg" "rs_sim rcfg = fc_sim cfg" "rs_pool rcfg = pool"
    and named: "\<exists>c\<in>set old. idof c = cp_id cp \<and> cp_fp cp \<in> keys_of c"
  shows "readable rcfg D (chunk_message cp)"
proof -
  let ?p = "saved_pool (fc_be cfg) (Some pool) old"
  have p: "pool_inv (fc_be cfg) (be_iter e) (fc_sim cfg) ?p" "\<forall>c\<in>set old. \<forall>fp d. ct_abs c fp = Some d \<longrightarrow> d = D fp"
    using assms(1,2) by (simp_all add: saved_def pool_ready_def) (simp_all add: saved_pool_def)
  have b: "ps_buffer ?p = []" "ps_pool ?p = pool" "ps_accepted ?p = old" by (simp_all add: saved_pool_def pool_bytes_def pool_empty_def)
  have lt: "fc_sim cfg < SIMULATION_RESTORE" using sim by (simp add: cfg_simps)
  obtain c where c: "c \<in> set old" "idof c = cp_id cp" "cp_fp cp \<in> keys_of c" using named by blast
  have "container_ok (fc_sim cfg) c" using p(1) c(1) b(3) by (simp add: pool_inv_def)
  then obtain x where x: "ct_data c = Some x" using sim by (auto simp: container_ok_def cfg_simps)
  have "ct_abs c fp = Some (D fp)" if "fp \<in> keys_of c" for fp
  proof -
    from that obtain me where "map_of (cm_map (ct_meta c)) fp = Some me" by (metis keys_of_def map_of_eq_None_iff not_None_eq)
    with x obtain y where "ct_abs c fp = Some y" by (simp add: ct_abs_def)
    with p(2) c(1) show ?thesis by auto
  qed
  then have "\<forall>fp\<in>keys_of c. ct_abs c fp = Some (D fp)" by blast
  from drained_readable [OF p(1) b(1) assms(3) lt r(1,2) _ this, of "chunk_message cp"] c b r(3) show ?thesis by simp
qed

subsection \<open>Jobs that reach their end\<close>

text \<open>The append thread empties its buffer, two steps for each container.\<close>

lemma backup_drains:
  assumes it: "iter_ok (be_iter e)" and p: "pool_inv (fc_be cfg) (be_iter e) (fc_sim cfg) (fs_pool (bk_fs b))" "pool_blank (fc_sim cfg) (fs_pool (bk_fs b))"
  shows "\<exists>b'. backup_reach e cfg b b' \<and> ps_buffer (fs_pool (bk_fs b')) = []"
  using p
proof (induction "2 * length (ps_buffer (fs_pool (bk_fs b))) + (if ps_written (fs_pool (bk_fs b)) then 0 else 1)" arbitrary: b rule: less_induct)
  case less
  let ?p = "fs_pool (bk_fs b)"
  have join: "backup_reach e cfg b b2" if "backup_step e cfg b b1" "backup_reach e cfg b1 b2" for b1 b2
    using that(2) by induction (auto intro: that(1) backup_reach.intros)
  show ?case
  proof (cases "ps_buffer ?p")
    case Nil
    then show ?thesis using backup_reach.start by blast
  next
    case (Cons c cs)
    show ?thesis
    proof (cases "ps_written ?p")
      case True
      let ?b = "b\<lparr>bk_fs := (bk_fs b)\<lparr>fs_pool := ?p\<lparr>ps_buffer := cs, ps_written := False\<rparr>\<rparr>\<rparr>"
      from less.hyps [of ?b] append_steps(2) [OF Cons less.prems(1) it less.prems(2) True] True Cons show ?thesis
        using join [OF backup_step.pop [OF Cons True]] by auto
    next
      case False
      from append_steps(1) [OF Cons less.prems(1) it less.prems(2) False, of "be_version e"] obtain q where
        q: "append_write (fc_be cfg) (be_iter e) (fc_sim cfg) (be_version e) c ?p = Inr q"
          "pool_inv (fc_be cfg) (be_iter e) (fc_sim cfg) q" "pool_blank (fc_sim cfg) q" by blast
      moreover have "ps_buffer q = ps_buffer ?p" "ps_written q" using q(1) by (auto simp: append_write_def rbind_Inr_iff)
      ultimately show ?thesis
        using less.hyps [of "b\<lparr>bk_fs := (bk_fs b)\<lparr>fs_pool := q\<rparr>\<rparr>"] join [OF backup_step.append [OF Cons False q(1)]] False by auto
    qed
  qed
qed

text \<open>A job that has met no duplicate of an earlier one only adds its containers to the bit table.\<close>

lemma bit_table_total:
  assumes "ishead s = []" and "0 \<le> container_count_start s" and "2 * container_count_end s + 32 \<le> 32 * int (length (CBT s))"
  shows "\<exists>s'. update_container_bit_table_and_RTM s = Inr s'"
proof -
  let ?f = "\<lambda>i. update_container_bit_table_attribute (i * 2 + 33) 3"
  have step: "\<exists>t'. ?f i t = Inr t' \<and> length (CBT t') = length (CBT s)"
    if i: "i \<in> set [container_count_start s..container_count_end s - 1]" and t: "length (CBT t) = length (CBT s)" for i t
  proof -
    have "1 \<le> i * 2 + 34" "i * 2 + 34 \<le> 32 * int (length (CBT t))" using i t assms(2,3) by auto
    from set_CBT_at [OF this] obtain arr where "set_CBT_array (i * 2 + 34) 1 (CBT t) = Inr arr" "length arr = length (CBT t)" by blast
    moreover have "set_CBT_array (i * 2 + 33) 0 (CBT t) = Inr (CBT t)" by (simp add: set_CBT_array_def)
    ultimately show ?thesis using t by (simp add: update_container_bit_table_attribute_def set_container_bit_table_def add.commute)
  qed
  from rfold_total [where I = "\<lambda>t. length (CBT t) = length (CBT s)" and f = ?f, OF step] obtain t where
    "rfold ?f [container_count_start s..container_count_end s - 1] s = Inr t" by blast
  then show ?thesis by (simp add: update_container_bit_table_and_RTM_def assms(1))
qed

lemma end_job_total:
  assumes "update_backup_version (fc_be cfg) (fs_access st) (fs_bv st) = Inr v" and "ishead (ix_rtm (fs_ix st)) = []"
    and "0 \<le> container_count_start (ix_rtm (fs_ix st))" and "2 * ps_count (fs_pool st) + 32 \<le> 32 * int (length (CBT (ix_rtm (fs_ix st))))"
  shows "\<exists>d'. end_job cfg iter cnt st d = Inr d'"
proof -
  let ?s = "(ix_rtm (fs_ix st))\<lparr>container_count_end := ps_count (fs_pool st), RTMhead := ps_rtm (fs_pool st)\<rparr>"
  obtain t where "update_container_bit_table_and_RTM ?s = Inr t" using bit_table_total [of ?s] assms(2-4) by auto
  then show ?thesis using assms(1)
    by (simp add: end_job_def finish_backup_def close_container_store_def Let_def prod.case_eq_if)
qed

text \<open>A job whose segments are through the pipeline ends, and leaves the files of the next.\<close>

lemma job_ends:
  assumes s: "series e cfg D d old hist del" and path: "0 \<notin> set path" "path \<noteq> []" "length path + 1 \<le> sds_limit" and h: "hashed cfg D ss"
    and st: "start_job g junk junki n cfg can_make (c_str path) ss s0 d = Inr (b0, cnt)"
    and room: "ps_count (fs_pool (bk_fs b0)) + int (length (stream_of ss)) < 2 ^ 40" "int (length hist) < 2 ^ 31"
    and cfg: "cfg_ok cfg" "physical cfg" "iter_ok (be_iter e)" "fc_sim cfg = SIMULATION_NO" "in32 (int (index_value_length (fc_ix cfg)))"
    and r: "backup_reach (job_env e (cnt - 1) d) cfg (with_history old b0) b" "bk_segs b = []" "bk_flight b = []"
    and f: "filter_finish cfg (bk_fs b) = Inr st" and t: "in32 (int (length (htable (fs_ix st))))" "ishead (ix_rtm (fs_ix st)) = []"
      "0 \<le> container_count_start (ix_rtm (fs_ix st))" "2 * ps_count (fs_pool st) + 32 \<le> 32 * int (length (CBT (ix_rtm (fs_ix st))))"
  shows "\<exists>d' old'. series e cfg D d' old' (hist @ [stream_files None (stream_of ss)]) del \<and> bd_pool (sf_disk d') \<noteq> None"
proof -
  let ?e = "job_env e (cnt - 1) d" and ?b0 = "with_history old b0"
  have be: "be_iter ?e = be_iter e" by (simp add: job_env_def)
  note j = start_job_ok [OF series_saved [OF s room(2) cfg] path h st room cfg(1-3)]
  have b0: "bk_segs ?b0 = ss" "fs_bv (bk_fs ?b0) = fs_bv (bk_fs b0)" using j(5) by (simp_all add: with_history_def)
  note fp = finish_pool [OF j(1) r(1) f]
  have "iter_ok (be_iter ?e)" using cfg(3) be by simp
  from backup_drains [OF this, of cfg "b\<lparr>bk_fs := st\<rparr>"] fp obtain b' where
    b': "backup_reach ?e cfg (b\<lparr>bk_fs := st\<rparr>) b'" "ps_buffer (fs_pool (bk_fs b')) = []" by auto
  from drain_only [OF b'(1) _ _ \<open>iter_ok (be_iter ?e)\<close>] r(2,3) fp obtain p where p: "bk_fs b' = st\<lparr>fs_pool := p\<rparr>" "ps_count p = ps_count (fs_pool st)"
    by auto
  obtain segs rs where w: "ver_rep (fc_be cfg) (fs_bv st) (fs_access st) segs None rs" "list_all seg_ok segs" "bv_ok (fs_bv st)"
    using recipe_written [OF j(1) r f cfg(4)] j(2) h unfolding b0 by blast
  from ver_save [OF w] obtain v where "update_backup_version (fc_be cfg) (fs_access st) (fs_bv st) = Inr v" by blast
  then obtain d' where d': "end_job cfg (\<lambda>t. t) cnt (bk_fs b') d = Inr d'"
    using end_job_total [of cfg "bk_fs b'" v "\<lambda>t. t" cnt d] t p by auto
  from end_job_files [OF d'] have "bd_pool (sf_disk d') \<noteq> None" by auto
  with series.job [OF s path h st room(1) r f b' iter_ok_id t(1) d'] show ?thesis by blast
qed

text \<open>What the filter's work on a segment leaves alone.\<close>

lemma recipe_chunks_keep: "rfold (recipe_chunk cfg) cs st = Inr st' \<Longrightarrow> fs_ix st' = fs_ix st \<and> fs_pool st' = fs_pool st"
proof -
  have "fs_ix t' = fs_ix t \<and> fs_pool t' = fs_pool t" if "recipe_chunk cfg c t = Inr t'" for c t t'
    using that by (auto simp: recipe_chunk_def rbind_Inr_iff split: option.splits if_splits)
  then show "rfold (recipe_chunk cfg) cs st = Inr st' \<Longrightarrow> fs_ix st' = fs_ix st \<and> fs_pool st' = fs_pool st"
    using rfold_inv [where I = "\<lambda>s. fs_ix s = fs_ix st \<and> fs_pool s = fs_pool st" and f = "recipe_chunk cfg" and xs = cs] by metis
qed

lemma update_buffer_keeps: "index_update_buffer cfg sg s = Inr (full, s') \<Longrightarrow> ix_rtm s' = ix_rtm s \<and> htable s' = htable s"
proof -
  assume "index_update_buffer cfg sg s = Inr (full, s')"
  then have r: "rfold update_buffer_chunk (seg_chunks sg) s = Inr s'" by (auto simp: index_update_buffer_def rbind_Inr_iff)
  have "ix_rtm t' = ix_rtm t \<and> htable t' = htable t" if "update_buffer_chunk c t = Inr t'" for c t t'
    using that by (auto simp: update_buffer_chunk_def rbind_Inr_iff Let_def split: if_splits option.splits)
  with rfold_inv [where I = "\<lambda>t. ix_rtm t = ix_rtm s \<and> htable t = htable s", OF _ _ r] show ?thesis by metis
qed

lemma segment_keeps:
  assumes f: "filter_segment cfg s st = Inr (w, t, st')" and ph: "physical cfg" and chk: "index_check_buffer s (fs_ix st) = Inr s"
    and c: "filter_chunks cfg (seg_chunks s) (st\<lparr>fs_unique := [], fs_rewritten := []\<rparr>) = Inr (cs, st1)"
  shows "fs_pool st' = fs_pool st1 \<and> ix_rtm (fs_ix st') = ix_rtm (fs_ix st1) \<and> htable (fs_ix st') = htable (fs_ix st1)"
proof -
  from f obtain full ix sid where u: "index_update_buffer (fc_ix cfg) (s\<lparr>seg_chunks := cs\<rparr>) (fs_ix st1) = Inr (full, ix)"
    and 2: "segment_recipe cfg (s\<lparr>seg_chunks := cs\<rparr>) (st1\<lparr>fs_ix := ix\<rparr>) = Inr (sid, st')"
    using ph by (auto simp: filter_segment_def chk c Let_def rbind_Inr_iff index_segment_def)
  from 2 have "fs_pool st' = fs_pool st1 \<and> fs_ix st' = ix"
    by (auto simp: segment_recipe_def rbind_Inr_iff dest!: recipe_chunks_keep)
  then show ?thesis using update_buffer_keeps [OF u] by simp
qed

text \<open>For the witness: the segment of \<open>Backup_Pipeline\<close> in a first job, from the empty files to the saved ones.\<close>

lemma demo_filtered:
  assumes "fs_cb st = None" "fs_unique st = []" "fs_rewritten st = []" "fs_ra st = init_restore_aware 40" "fs_enable_rewrite st" "ps_count (fs_pool st) = 0"
  shows "\<exists>cs st'. filter_chunks demo_filter_cfg (seg_chunks demo_segment) st = Inr (cs, st') \<and> fs_ix st' = fs_ix st \<and> ps_count (fs_pool st') = 1"
  by (simp add: demo_segment_def demo_chunk_def new_chunk_def CHECK_CHUNK_def SET_CHUNK_def filter_chunk_def demo_filter_cfg_def mark_cached_def
      switch_rewrite_def resolve_unique_def resolve_rewritten_def to_write_def write_chunk_def make_room_def new_container_def create_container_def
      physical_def ddfs_cfg_def container_overflow_def init_container_meta_def assms add_chunk_to_container_def cfg_simps Let_def record_written_def
      restore_aware_update_def init_restore_aware_def new_lru_cache_def lru_cache_lookup_def lru_cache_insert_def data_of_def peek_def poke_def TEMPORARY_ID_def)

lemma demo_looked:
  "\<exists>ix. dedup_lookup fi si samp (fc_ix demo_filter_cfg) env 0 None demo_segment (index_start (fc_ix demo_filter_cfg) [] r) = Inr (Some demo_segment, ix)
     \<and> ix_rtm ix = r \<and> htable ix = [] \<and> index_check_buffer demo_segment ix = Inr demo_segment"
  by (simp add: dedup_lookup_def demo_filter_cfg_def lookup_eval demo_segment_def demo_chunk_def index_check_buffer_def check_buffer_chunk_def)

lemma demo_hashed: "hashed demo_filter_cfg (\<lambda>_. [1, 2, 3, 4, 5]) [demo_segment]"
  by (simp add: hashed_def stream_ok_def data_ok_def fits_def fresh_def seg_inv_def normal_count_def in32_def metabufsize_def demo_defs)

text \<open>Files without containers: an empty pool, index and reference-time map.\<close>

definition bare :: "nat \<Rightarrow> store_files \<Rightarrow> bool" where
  "bare n d \<longleftrightarrow>
     init_recipe_store False (bd_versions (sf_disk d)) = int n \<and>
     (case bd_pool (sf_disk d) of None \<Rightarrow> True | Some f \<Rightarrow> fst (fread_int64 False 0 \<lparr>st_file = f, st_pos = 0, st_writable = True\<rparr>) = 0) \<and>
     init_kvstore_htable False [] 0 (index_key_size (fc_ix demo_filter_cfg)) (index_value_length (fc_ix demo_filter_cfg)) (sf_index d) = Inr []"

lemma bare_none: "bare 0 no_files"
  by (simp add: bare_def no_files_def init_recipe_store_def init_kvstore_htable_def)

lemma init_rtm_total:
  "CBT s \<noteq> [] \<Longrightarrow> container_count_start s = 0 \<Longrightarrow>
     \<exists>s'. Init_RTM be f s = Inr s' \<and> ishead s' = ishead s \<and> container_count_start s' = 0 \<and> CBT s' = CBT s"
  by (auto simp: Init_RTM_def read_RTM_from_disk_def split: option.splits)

lemma demo_start:
  assumes "bare n d" and "n \<le> 1"
  shows "\<exists>r bv p. start_job (\<lambda>_. 0) [] 0 40 demo_filter_cfg True (c_str [47]) ss rtm_start d =
     Inr (\<lparr>bk_segs = ss, bk_flight = [],
       bk_fs = start_filter_phase 40 (index_start (fc_ix demo_filter_cfg) [] r) p bv\<rparr>, int n + 1) \<and>
     ishead r = [] \<and> container_count_start r = 0 \<and> length (CBT r) = 1024 \<and> ps_count p = 0 \<and> ps_buffer p = [] \<and> bv_num bv = int n"
proof -
  obtain q where q: "init_jcr (\<lambda>_. 0) (Some True) (Some (c_str [47])) = Inr (q, new_counters)" "sds_rep q [47]"
    using init_jcr_directory [of "[47]" "\<lambda>_. 0"] by (auto simp: sds_limit_def)
  have root: "till_nul (sd_buf q) = [47]" using q(2) by (intro till_nul_rep) auto
  obtain bv where bv: "create_backup_version False [47] (int n) = Inr (bv, int n + 1)" "bv_num bv = int n"
    by (simp add: create_backup_version_def get_next_version_number_def path_dir_def Let_def)
  have cfg: "fc_be demo_filter_cfg = False" by (simp add: demo_filter_cfg_def)
  have s: "ishead rtm_start = []" "length (CBT rtm_start) = 1024" "RTMhead rtm_start = []"
    by (simp_all add: rtm_start_def init_id_shift_def init_id_shift_hash_def container_size_def)
  obtain p s1 where p: "init_container_store False (bd_pool (sf_disk d)) True (init_id_shift (init_id_shift_hash rtm_start)) = Inr (p, s1)"
    "ps_count p = 0" "ps_buffer p = []" "container_count_start s1 = 0" "ishead s1 = []" "length (CBT s1) = 1024"
    using assms(1) s by (auto simp: bare_def init_container_store_def pool_empty_def Let_def init_id_shift_def init_id_shift_hash_def split: option.splits)
  let ?s2 = "init_container_bit_table (int n) (s1\<lparr>current_bv := int n\<rparr>)"
  have "CBT s1 \<noteq> []" using p(6) by auto
  then have s2: "CBT ?s2 \<noteq> []" "container_count_start ?s2 = 0" "ishead ?s2 = []" "length (CBT ?s2) = 1024"
    using p(4-6) by (auto simp: init_container_bit_table_def)
  obtain s3 where s3: "Init_RTM False (bd_rtm (sf_disk d)) ?s2 = Inr s3" "ishead s3 = []" "container_count_start s3 = 0" "length (CBT s3) = 1024"
    using init_rtm_total [OF s2(1,2)] s2(3,4) by (metis (no_types, lifting))
  show ?thesis
    by (rule exI [of _ s3], rule exI [of _ bv], rule exI [of _ "p\<lparr>ps_rtm := RTMhead s3\<rparr>"])
      (use assms(1) p q(1) bv s3 in \<open>simp add: bare_def start_job_def begin_backup_def init_backup_jcr_def root cfg Let_def\<close>)
qed

text \<open>A first job on an empty stream, and its deletion.\<close>

lemma demo_empty:
  "\<exists>d pool. series demo_env demo_filter_cfg D d [] [[]] {} \<and> bare 1 d \<and> bd_pool (sf_disk d) = Some pool"
proof -
  let ?cfg = demo_filter_cfg
  obtain b0 r bv p where st: "start_job (\<lambda>_. 0) [] 0 40 ?cfg True (c_str [47]) [] rtm_start no_files = Inr (b0, 1)"
    and b0: "b0 = \<lparr>bk_segs = [], bk_flight = [], bk_fs = start_filter_phase 40 (index_start (fc_ix ?cfg) [] r) p bv\<rparr>"
    and r: "ishead r = []" "container_count_start r = 0" "length (CBT r) = 1024" and p: "ps_count p = 0" "ps_buffer p = []" and num: "bv_num bv = 0"
    using demo_start [OF bare_none, of "[]"] by auto
  let ?e = "job_env demo_env (1 - 1) no_files" and ?b = "with_history [] b0"
  let ?st = "bk_fs ?b"
  have h: "hashed ?cfg D []" by (simp add: hashed_def stream_ok_def stream_of_def)
  have cfg: "cfg_ok ?cfg" "physical ?cfg" "iter_ok (be_iter demo_env)" "fc_sim ?cfg = SIMULATION_NO" "fc_be ?cfg = False"
    by (simp_all add: cfg_ok_def physical_def demo_filter_cfg_def ddfs_cfg_def demo_env_def iter_ok_id)
  have path: "0 \<notin> set [47 :: byte]" "[47 :: byte] \<noteq> []" "length [47 :: byte] + 1 \<le> sds_limit" by (simp_all add: sds_limit_def)
  have room: "ps_count (fs_pool (bk_fs b0)) + int (length (stream_of ([] :: segment list))) < 2 ^ 40"
    by (simp add: b0 start_filter_phase_def p stream_of_def)
  note j = start_job_ok [OF saved_none path h st room _ cfg(1-3)]
  have job: "job_ok ?e ?cfg D ?b" "version_ok (fs_bv (bk_fs b0))" by (rule j, simp)+
  have b: "bk_segs ?b = []" "bk_flight ?b = []" "fs_cb ?st = None" "fs_ix ?st = index_start (fc_ix ?cfg) [] r"
    "fs_bv ?st = fs_bv (bk_fs b0)" "ps_accepted (fs_pool ?st) = []" "fs_pool ?st = p\<lparr>ps_accepted := []\<rparr>"
    by (simp_all add: with_history_def b0 start_filter_phase_def)
  have f: "filter_finish ?cfg ?st = Inr ?st" by (simp add: filter_finish_def b(3))
  have ix: "htable (fs_ix ?st) = []" "ix_rtm (fs_ix ?st) = r" unfolding b(4) by (simp_all add: index_start_def init_fingerprint_cache_def split: locality.split)
  obtain segs rs where w: "ver_rep (fc_be ?cfg) (fs_bv ?st) (fs_access ?st) segs None rs" "list_all seg_ok segs" "bv_ok (fs_bv ?st)"
    using recipe_written [OF job(1) backup_reach.start b(1,2) f cfg(4)] job(2) h unfolding b(1,5) by blast
  from ver_save [OF w] obtain v where v: "update_backup_version (fc_be ?cfg) (fs_access ?st) (fs_bv ?st) = Inr v" by blast
  then obtain d' where d': "end_job ?cfg (\<lambda>t. t) 1 ?st no_files = Inr d'"
    using end_job_total [of ?cfg ?st v "\<lambda>t. t" 1 no_files] ix r p by (auto simp: b(7))
  have b': "?b\<lparr>bk_fs := ?st\<rparr> = ?b" by simp
  have s: "series demo_env ?cfg D d' [] [[]] {}"
    using series.job [OF series.none path h st room _ b(1,2) f, where b' = ?b and iter = "\<lambda>t. t" and d' = d'] backup_reach.start d' p iter_ok_id
    by (simp add: b' b(6,7) ix in32_def stream_of_def)
  from end_job_files [OF d'] have d: "bd_pool (sf_disk d') = Some (f_write 0 (host_bytes False 8 (i64 0)) (ps_pool p))"
    "bd_versions (sf_disk d') = Some (close_recipe_store False 1)"
    "sf_index d' = Some (fst (close_kvstore_htable False (\<lambda>t. t) (index_key_size (fc_ix ?cfg)) (index_value_length (fc_ix ?cfg)) []))"
    by (auto simp: cfg(5) b(7) p ix)
  have "bare 1 d'" unfolding bare_def d
    by (simp add: pool_count_written init_recipe_store_close load_dumped [OF _ iter_ok_id] kv_ok_def in32_def in64_def demo_filter_cfg_def ddfs_cfg_def)
  with s d(1) show ?thesis by blast
qed

lemma demo_deleted:
  "\<exists>d. series demo_env demo_filter_cfg D d [] [[]] {0} \<and> bare 1 d"
proof -
  let ?cfg = demo_filter_cfg
  let ?ed = "\<lparr>de_be = False, de_sim = 0, de_iter = (\<lambda>t. t), de_citer = (\<lambda>t. t), de_diter = (\<lambda>t. t), de_siter = (\<lambda>t. t), de_pool = [],
    de_dir = (\<lambda>_. None), de_junk = demo_cp, de_access = TEMPORARY_ID\<rparr>"
  have cfg: "cfg_ok ?cfg" "physical ?cfg" "iter_ok (be_iter demo_env)" "fc_sim ?cfg = SIMULATION_NO"
    "in32 (int (index_value_length (fc_ix ?cfg)))" "fc_be ?cfg = False"
    by (simp_all add: cfg_ok_def physical_def demo_filter_cfg_def ddfs_cfg_def demo_env_def iter_ok_id in32_def)
  obtain d pool where s: "series demo_env ?cfg D d [] [[]] {}" "bare 1 d" "bd_pool (sf_disk d) = Some pool" using demo_empty by blast
  have "saved demo_env ?cfg D d [] [[]] {}" by (rule series_saved [OF s(1) _ cfg(1-5)]) simp
  from delete_runs [OF this _ _ cfg(2) s(3), of 0 rtm_start ?ed "\<lambda>t. t" "[]" 0 True] s(2) obtain f d' where
    del: "delete_job ?cfg (\<lambda>t. t) ?ed [] 0 True rtm_start 0 (Some (print_records [])) d = Some (Inr (f, d'))"
    and d': "bd_pool (sf_disk d') = Some (f_write 0 (host_bytes False 8 (i64 0)) pool)" "bd_versions (sf_disk d') = Some (close_recipe_store False 1)"
      "sf_index d' = Some (fst (close_kvstore_htable False (\<lambda>t. t) (index_key_size (fc_ix ?cfg)) (index_value_length (fc_ix ?cfg)) []))"
    by (auto simp: rtm_start_def init_id_shift_def init_id_shift_hash_def bare_def s(3) cfg(6))
  have "bare 1 d'" unfolding bare_def d'
    by (simp add: pool_count_written init_recipe_store_close load_dumped [OF _ iter_ok_id] kv_ok_def in32_def in64_def demo_filter_cfg_def ddfs_cfg_def)
  with series.delete [OF s(1) iter_ok_id del] show ?thesis by auto
qed

text \<open>A second job, with the segment of \<open>Backup_Pipeline\<close>.\<close>

lemma demo_series:
  "\<exists>d old. series demo_env demo_filter_cfg (\<lambda>_. [1, 2, 3, 4, 5]) d old [[], [([97], [1, 2, 3, 4, 5])]] {0} \<and> bd_pool (sf_disk d) \<noteq> None"
proof -
  let ?D = "\<lambda>_ :: fingerprint. [1, 2, 3, 4, 5 :: byte]" and ?cfg = demo_filter_cfg
  obtain d0 where s0: "series demo_env ?cfg ?D d0 [] [[]] {0}" "bare 1 d0" using demo_deleted [of ?D] by (elim exE conjE) (rule that)
  obtain b0 r bv p where st: "start_job (\<lambda>_. 0) [] 0 40 ?cfg True (c_str [47]) [demo_segment] rtm_start d0 = Inr (b0, 2)"
    and b0: "b0 = \<lparr>bk_segs = [demo_segment], bk_flight = [], bk_fs = start_filter_phase 40 (index_start (fc_ix ?cfg) [] r) p bv\<rparr>"
    and r: "ishead r = []" "container_count_start r = 0" "length (CBT r) = 1024" and p: "ps_count p = 0"
  proof -
    from demo_start [OF s0(2) order.refl, of "[demo_segment]"] show thesis
    proof (elim exE conjE)
      fix r bv p
      assume x: "start_job (\<lambda>_. 0) [] 0 40 ?cfg True (c_str [47]) [demo_segment] rtm_start d0 =
          Inr (\<lparr>bk_segs = [demo_segment], bk_flight = [], bk_fs = start_filter_phase 40 (index_start (fc_ix ?cfg) [] r) p bv\<rparr>, int 1 + 1)"
        "ishead r = []" "container_count_start r = 0" "length (CBT r) = 1024" "ps_count p = 0"
      have "int 1 + 1 = (2 :: int)" by simp
      show thesis by (rule that [OF x(1) [unfolded \<open>int 1 + 1 = (2 :: int)\<close>] refl x(2-5)])
    qed
  qed
  let ?e = "job_env demo_env (2 - 1) d0" and ?b = "with_history [] b0"
  let ?st = "bk_fs ?b"
  have h: "hashed ?cfg ?D [demo_segment]" by (rule demo_hashed)
  have cfg: "cfg_ok ?cfg" "physical ?cfg" "iter_ok (be_iter demo_env)" "fc_sim ?cfg = SIMULATION_NO"
    by (simp_all add: cfg_ok_def physical_def demo_filter_cfg_def ddfs_cfg_def demo_env_def iter_ok_id)
  have path: "0 \<notin> set [47 :: byte]" "[47 :: byte] \<noteq> []" "length [47 :: byte] + 1 \<le> sds_limit" by (simp_all add: sds_limit_def)
  have room: "ps_count (fs_pool (bk_fs b0)) + int (length (stream_of [demo_segment])) < 2 ^ 40"
    by (simp add: b0 start_filter_phase_def p) (simp add: demo_defs)
  have vl: "in32 (int (index_value_length (fc_ix ?cfg)))" by (simp add: demo_filter_cfg_def ddfs_cfg_def in32_def)
  have "saved demo_env ?cfg ?D d0 [] [[]] {0}" by (rule series_saved [OF s0(1) _ cfg vl]) simp
  from start_job_ok(1) [OF this path h st room _ cfg(1-3)] have job: "job_ok ?e ?cfg ?D ?b" by simp
  have b: "bk_segs ?b = [demo_segment]" "bk_flight ?b = []" "fs_cb ?st = None" "fs_ix ?st = index_start (fc_ix ?cfg) [] r"
    by (simp_all add: with_history_def b0 start_filter_phase_def)
  obtain ix where l: "dedup_lookup (be_fiter ?e) (be_siter ?e) (fc_sampling ?cfg) (fc_ix ?cfg) (index_env ?e ?cfg ?st) 0 None demo_segment
      (index_start (fc_ix ?cfg) [] r) = Inr (Some demo_segment, ix)" "ix_rtm ix = r" "htable ix = []" "index_check_buffer demo_segment ix = Inr demo_segment"
    using demo_looked by blast
  let ?b1 = "?b\<lparr>bk_segs := [], bk_flight := [demo_segment], bk_fs := ?st\<lparr>fs_ix := ix\<rparr>\<rparr>"
  have r1: "backup_reach ?e ?cfg ?b ?b1"
    using backup_step.dedup [OF b(1), of ?e ?cfg 0 demo_segment ix] l(1) b by (intro backup_reach.step [OF backup_reach.start]) simp
  obtain w t st' where f: "filter_segment ?cfg demo_segment (bk_fs ?b1) = Inr (w, t, st')"
    using filter_turn [OF backup_reach_inv [OF r1 job], of demo_segment "[]"] job by (auto simp: job_ok_def)
  obtain cs st1 where c: "filter_chunks ?cfg (seg_chunks demo_segment) ((bk_fs ?b1)\<lparr>fs_unique := [], fs_rewritten := []\<rparr>) = Inr (cs, st1)"
    "fs_ix st1 = ix" "ps_count (fs_pool st1) = 1"
    using demo_filtered [of "(bk_fs ?b1)\<lparr>fs_unique := [], fs_rewritten := []\<rparr>"] by (auto simp: with_history_def b0 start_filter_phase_def p)
  have k: "fs_pool st' = fs_pool st1" "ix_rtm (fs_ix st') = r" "htable (fs_ix st') = []"
    using segment_keeps [OF f cfg(2) _ c(1)] l c(2) by simp_all
  let ?b2 = "?b1\<lparr>bk_flight := [], bk_fs := st'\<rparr>"
  have r2: "backup_reach ?e ?cfg ?b ?b2" by (rule backup_reach.step [OF r1 backup_step.filter [OF _ f]]) simp
  have ok: "f_ok ?cfg ?D st'" "pool_inv (fc_be ?cfg) (be_iter ?e) (fc_sim ?cfg) (fs_pool st')"
    using backup_reach_inv [OF r2 job] by (simp_all add: bk_inv_def)
  obtain st2 where f2: "filter_finish ?cfg st' = Inr st2" using filter_finish_ok [OF ok(1) cfg(1) ok(2)] by blast
  have k2: "fs_ix st2 = fs_ix st'"
    using f2 by (auto simp: filter_finish_def index_container_def demo_filter_cfg_def index_update_def rbind_Inr_iff split: option.splits if_splits)
  have "ps_count (fs_pool st2) = 1" using finish_index [OF ok(1) cfg(1) f2] k(1) c(3) by simp
  moreover have "stream_files None (seg_chunks demo_segment) = [([97], [1, 2, 3, 4, 5])]" by (simp add: demo_defs c_name_def)
  ultimately show ?thesis
    using job_ends [OF s0(1) path h st room _ cfg(1-4) vl _ _ _, of ?b2 st2] r2 f2 k k2 r by (simp add: in32_def)
qed

subsection \<open>Restoring any of them\<close>

text \<open>C2: every version of a series of backups and deletions that is not deleted stays restorable. However many jobs have run, each on the
  files the former left, each backup in any interleaving of its threads, the files of every backup that was not deleted are given back by
  \<open>do_restore\<close> from the pool and the recipes on disk, with each of the three restore caches. What comes later (duplicates stored once, other
  versions deleted and their index entries purged, the index dumped and loaded, the header of the pool rewritten) destroys nothing an
  earlier recipe points to. The index has physical locality, and no two chunks of different content have the same fingerprint.\<close>

theorem series_restorable:
  assumes "series e cfg D d old hist del" and "int (length hist) < 2 ^ 31"
    and cfg: "cfg_ok cfg" "physical cfg" "iter_ok (be_iter e)" "fc_sim cfg = SIMULATION_NO" "in32 (int (index_value_length (fc_ix cfg)))"
    and rc: "optimal_ready rcfg" "rs_be rcfg = fc_be cfg"
    and kind: "kind \<in> {RESTORE_CACHE_LRU, RESTORE_CACHE_OPT, RESTORE_CACHE_ASM}"
    and n: "n < length hist" "int n \<notin> del" and pool: "bd_pool (sf_disk d) = Some pool"
    and fs: "init_path fs path = Inr path'" "tree_ok path' (map fst (hist ! n)) fs" "well_rooted fs"
  shows "\<exists>w js. do_restore (rcfg\<lparr>rs_pool := pool\<rparr>) kind junk junkp (sf_recipes d) (int n) path fs = Some (Inr (w, js)) \<and>
    wr_file_num w = int (length (hist ! n)) \<and> (\<forall>(name, data)\<in>set (hist ! n). map_of (os_files (wr_fs w)) (target path' name) = Some data)"
proof -
  let ?rc = "rcfg\<lparr>rs_pool := pool\<rparr>"
  have sv: "saved e cfg D d old hist del" by (rule series_saved [OF assms(1,2) cfg])
  from sv n have "version_saved (fc_be cfg) D old (sf_recipes d) (int n) (hist ! n)" by (simp add: saved_def)
  then obtain cps where v: "version_on_disk (fc_be cfg) D (sf_recipes d) (int n) (hist ! n) cps"
    and cp: "\<forall>cp\<in>set cps. cp_size cp = int (length (D (cp_fp cp))) \<and> (\<exists>c\<in>set old. idof c = cp_id cp \<and> cp_fp cp \<in> keys_of c)"
    unfolding version_saved_def by blast
  have r: "optimal_ready ?rc" "rs_be ?rc = fc_be cfg" "rs_sim ?rc = fc_sim cfg" "rs_pool ?rc = pool"
    using rc cfg(4) by (simp_all add: optimal_ready_def)
  have read: "\<forall>cp\<in>set cps. readable ?rc D (chunk_message cp) \<and> cp_size cp = int (length (D (cp_fp cp)))"
    using saved_readable [OF sv pool cfg(3,4) r(2-4)] cp by blast
  from v obtain b acc b' acc' segs rs where x: "cps = concat segs" "ver_rep (rs_be ?rc) b acc segs None rs" "list_all seg_ok segs" "list_all fr_ok rs"
    "bv_ok b" "bv_num b = int n" "bv_deleted b \<noteq> 1" "update_backup_version (rs_be ?rc) acc b = Inr (b', acc')"
    "sf_recipes d (int n) = Some (st_file (metadata_fp b'), st_file (recipe_fp b'), st_file (record_fp b'))"
    "(\<Sum>r\<leftarrow>rs. nat (fr_chunknum r)) = length cps" "map fr_filename rs = map fst (hist ! n)"
    "map2 (\<lambda>r ps. (fr_filename r, concat (map (\<lambda>cp. D (cp_fp cp)) ps))) rs (pieces rs cps) = hist ! n"
    unfolding version_on_disk_def r(2) by blast
  show ?thesis
    using restored_files [where dir = "sf_recipes d" and junk = junk and junkp = junkp, OF x(2-5,8) x(9) [folded x(6)] x(7) r(1) kind read [unfolded x(1)] fs
        x(10) [unfolded x(1)] x(11) x(12) [unfolded x(1)]] unfolding x(6) .
qed

text \<open>A first backup is deleted; after a second one on the files this leaves, the second version is restored.\<close>

theorem series_restorable_witness:
  "\<exists>d old pool w js. series demo_env demo_filter_cfg (\<lambda>_. [1, 2, 3, 4, 5]) d old [[], [([97], [1, 2, 3, 4, 5])]] {0} \<and>
     bd_pool (sf_disk d) = Some pool \<and> wr_file_num w = 1 \<and> map_of (os_files (wr_fs w)) (True, [[111], [97]]) = Some [1, 2, 3, 4, 5] \<and>
     do_restore \<lparr>rs_be = False, rs_sim = SIMULATION_NO, rs_iter = (\<lambda>t. t), rs_cache_size = 1, rs_window = 1, rs_pool = pool, rs_addr = [],
       rs_place = (\<lambda>i is. i # is)\<rparr> RESTORE_CACHE_OPT 0 demo_cp (sf_recipes d) 1 [47, 111] \<lparr>os_dirs = [(True, [[111]])], os_files = []\<rparr>
       = Some (Inr (w, js))"
proof -
  let ?fs = "\<lparr>os_dirs = [(True, [[111]])], os_files = []\<rparr> :: file_system"
  let ?hist = "[[], [([97], [1, 2, 3, 4, 5])]] :: (byte list \<times> byte list) list list"
  let ?rc = "\<lparr>rs_be = False, rs_sim = SIMULATION_NO, rs_iter = (\<lambda>t. t), rs_cache_size = 1, rs_window = 1, rs_pool = [], rs_addr = [],
    rs_place = (\<lambda>i is. i # is)\<rparr>"
  have cfg: "cfg_ok demo_filter_cfg" "physical demo_filter_cfg" "iter_ok (be_iter demo_env)" "fc_sim demo_filter_cfg = SIMULATION_NO"
    "in32 (int (index_value_length (fc_ix demo_filter_cfg)))"
    by (simp_all add: cfg_ok_def physical_def demo_filter_cfg_def ddfs_cfg_def demo_env_def iter_ok_id in32_def)
  obtain d old pool where s: "series demo_env demo_filter_cfg (\<lambda>_. [1, 2, 3, 4, 5]) d old ?hist {0}" "bd_pool (sf_disk d) = Some pool"
    using demo_series by blast
  have o: "optimal_ready ?rc" "rs_be ?rc = fc_be demo_filter_cfg" by (simp_all add: optimal_ready_def demo_filter_cfg_def)
  have t: "target [47, 111, 47] [97] = (True, [[111], [97]])" "place [47, 111, 47, 97] = (True, [[111], [97]])"
      "place [47, 111, 47] = (True, [[111]])" "base_name [97] = [97]" by code_simp+
  have w: "on_the_way [47, 111, 47, 97] (Suc (Suc (Suc 0))) = {}" by (auto simp: on_the_way_def nth_Cons split: nat.splits)
  have p1: "init_path ?fs [47, 111] = Inr [47, 111, 47]" "well_rooted ?fs" by code_simp+
  have p2: "tree_ok [47, 111, 47] (map fst (?hist ! 1)) ?fs" using w t by (simp add: tree_ok_def can_create_def is_dir_def)
  from series_restorable [OF s(1) _ cfg o _ _ _ s(2) p1(1) p2 p1(2), of RESTORE_CACHE_OPT 0 demo_cp] obtain w js where
    r: "do_restore (?rc\<lparr>rs_pool := pool\<rparr>) RESTORE_CACHE_OPT 0 demo_cp (sf_recipes d) 1 [47, 111] ?fs = Some (Inr (w, js))" "wr_file_num w = 1"
    "map_of (os_files (wr_fs w)) (True, [[111], [97]]) = Some [1, 2, 3, 4, 5]" by (auto simp: t)
  show ?thesis
    by (intro exI [of _ d] exI [of _ old] exI [of _ pool] exI [of _ w] exI [of _ js] conjI) (use s r in simp_all)
qed

end
