(* ===== verification/Sds_Split.thy ===== *)
theory Sds_Split
  imports Sds_Laws
begin

text \<open>
  The round trips of \<open>utils/sds.c\<close>: \<open>sdsjoin\<close> after \<open>sdssplitlen\<close>, and \<open>sdssplitargs\<close> after
  \<open>sdscatrepr\<close>.
\<close>

fun join_with :: "'a list \<Rightarrow> 'a list list \<Rightarrow> 'a list" where
  "join_with sep [] = []"
| "join_with sep [x] = x"
| "join_with sep (x # y # xs) = x @ sep @ join_with sep (y # xs)"

lemma join_with_snoc: "join_with sep (ts @ [l]) = concat (map (\<lambda>t. t @ sep) ts) @ l"
proof (induction ts)
  case (Cons t ts)
  then show ?case by (cases "ts @ [l]") auto
qed simp

lemma join_with_index:
  "join_with sep xs = concat (map (\<lambda>j. xs ! j @ (if j \<noteq> length xs - 1 then sep else [])) [0..<length xs])"
proof (induction sep xs rule: join_with.induct)
  case (3 sep x y xs)
  have "[0..<length (x # y # xs)] = 0 # map Suc [0..<length (y # xs)]" by (simp add: map_Suc_upt upt_conv_Cons del: upt_Suc)
  then show ?case using 3 by (simp add: comp_def del: upt_Suc) 
qed simp_all

subsection \<open>Joining\<close>

definition c_string :: "byte list \<Rightarrow> byte list \<Rightarrow> bool" where   \<comment> \<open>the C string at the start of \<open>t\<close> is \<open>x\<close>\<close>
  "c_string t x \<longleftrightarrow> 0 \<notin> set x \<and> take (length x + 1) t = x @ [0]"

lemma c_stringE: "c_string t x \<Longrightarrow> \<exists>zs. t = x @ 0 # zs"
  by (auto simp: c_string_def) (metis append.assoc append_Cons append_Nil append_take_drop_id)

lemma c_string_str: "0 \<notin> set x \<Longrightarrow> c_string (x @ 0 # zs) x"
  by (simp add: c_string_def)

lemma sds_c_string: "sds_rep s xs \<Longrightarrow> 0 \<notin> set xs \<Longrightarrow> c_string (sd_buf s) xs"
  by (elim sds_repE) (simp add: c_string_str)

lemma sdscat_c_string:
  assumes "sds_rep s xs" and "c_string t ys" and "length xs + length ys \<le> sds_limit"
  shows "\<exists>s'. sdscat g s t = Inr s' \<and> sds_rep s' (xs @ ys)"
proof -
  obtain zs where "t = ys @ 0 # zs" using c_stringE [OF assms(2)] by blast
  then show ?thesis using sdscat_ok [OF assms(1) _ assms(3), of g zs] assms(2) by (simp add: c_string_def)
qed

lemma join_steps:
  assumes "list_all2 c_string argv xs" and "c_string sep sp" and "n \<le> length xs"
    and "\<And>m. m \<le> n \<Longrightarrow> length (concat (map (\<lambda>j. xs ! j @ (if j \<noteq> length xs - 1 then sp else [])) [0..<m])) \<le> sds_limit"
    and "sds_rep s []"
  shows "\<exists>s'. rfold (\<lambda>j s. rbind (sdscat g s (argv ! j)) (\<lambda>s. if j \<noteq> length argv - 1 then sdscat g s sep else Inr s)) [0..<n] s = Inr s'
    \<and> sds_rep s' (concat (map (\<lambda>j. xs ! j @ (if j \<noteq> length xs - 1 then sp else [])) [0..<n]))"
  using assms(3,4)
proof (induction n)
  case 0
  then show ?case using assms(5) by simp
next
  case (Suc n)
  let ?J = "\<lambda>m. concat (map (\<lambda>j. xs ! j @ (if j \<noteq> length xs - 1 then sp else [])) [0..<m])"
  let ?f = "\<lambda>j s. rbind (sdscat g s (argv ! j)) (\<lambda>s. if j \<noteq> length argv - 1 then sdscat g s sep else Inr s)"
  obtain s1 where s1: "rfold ?f [0..<n] s = Inr s1" "sds_rep s1 (?J n)" using Suc by auto
  have n: "n < length xs" "length argv = length xs" "c_string (argv ! n) (xs ! n)"
    using Suc.prems(1) assms(1) by (auto simp: list_all2_conv_all_nth)
  have l: "length (?J n) + length (xs ! n) + length (if n \<noteq> length xs - 1 then sp else []) \<le> sds_limit"
    using Suc.prems(2) [of "Suc n"] by simp
  obtain s2 where s2: "sdscat g s1 (argv ! n) = Inr s2" "sds_rep s2 (?J n @ xs ! n)"
    using sdscat_c_string [OF s1(2) n(3), of g] l by auto
  have "\<exists>s3. ?f n s1 = Inr s3 \<and> sds_rep s3 (?J (Suc n))"
  proof (cases "n = length xs - 1")
    case False
    then show ?thesis using sdscat_c_string [OF s2(2) assms(2), of g] s2 l n by simp
  qed (use s2 n in simp)
  then obtain s3 where s3: "?f n s1 = Inr s3" "sds_rep s3 (?J (Suc n))" by blast
  have "rfold ?f [0..<Suc n] s = Inr s3" using s1(1) s3(1) by (simp add: rfold_append)
  then show ?case using s3(2) by blast
qed

lemma concat_upt_mono: "m \<le> n \<Longrightarrow> length (concat (map f [0..<m])) \<le> length (concat (map f [0..<n]))"
  by (induction n) (auto simp: le_Suc_eq)

lemma sdsjoin_ok:
  assumes "list_all2 c_string argv xs" and "c_string sep sp" and "length (join_with sp xs) \<le> sds_limit"
  shows "\<exists>s. sdsjoin g argv sep = Inr s \<and> sds_rep s (join_with sp xs)"
proof -
  obtain e where e: "sdsempty = Inr e" "sds_rep e []" using sdsempty_ok by blast
  have l: "length argv = length xs" using assms(1) by (rule list_all2_lengthD)
  have "length (concat (map (\<lambda>j. xs ! j @ (if j \<noteq> length xs - 1 then sp else [])) [0..<m])) \<le> sds_limit" if "m \<le> length xs" for m
    using assms(3) concat_upt_mono [OF that] unfolding join_with_index by (rule le_trans [rotated])
  then show ?thesis using join_steps [OF assms(1,2) le_refl _ e(2), of g] unfolding sdsjoin_def join_with_index e(1) rbind_simps l by blast
qed

subsection \<open>Splitting\<close>

lemma sep_at_str:
  assumes "sep_at s sep (length sep) j" and "j + length sep \<le> length s" and "sep \<noteq> []"
  shows "sub_str j (length sep) s = sep"
proof -
  have l: "length (sub_str j (length sep) s) = length sep" using assms(2) by (simp add: sub_str_def)
  show ?thesis
  proof (cases "length sep = 1 \<and> s ! j = sep ! 0")
    case True
    then obtain c where "sep = [c]" by (metis One_nat_def length_0_conv length_Suc_conv)
    moreover have "sub_str j 1 s = [s ! j]" using assms True by (simp add: sub_str_def take_Suc_conv_app_nth hd_drop_conv_nth take_Suc)
    ultimately show ?thesis using True by simp
  next
    case False
    then show ?thesis using assms(1) memcmp_0 [OF l] by (auto simp: sep_at_def)
  qed
qed

lemma take_parts:
  "start \<le> j \<Longrightarrow> take (j + n) s = take start s @ sub_str start (j - start) s @ sub_str j n s"
  by (metis append.assoc le_add_diff_inverse sub_str_def take_add)

lemma split_loop_join:
  assumes "sep \<noteq> []" and "start \<le> j" and "j \<le> length s"
    and "concat (map (\<lambda>t. t @ sep) tokens) = take start s"
  shows "join_with sep (split_loop s (length s) sep (length sep) j start tokens) = s"
  using assms(2-)
proof (induction "length s - j" arbitrary: j start tokens rule: less_induct)
  case less
  show ?case
  proof (cases "j + (length sep - 1) < length s")
    case True
    then have j: "j + length sep \<le> length s" "j < length s" using assms(1) by (cases sep; simp)+
    show ?thesis
    proof (cases "sep_at s sep (length sep) j")
      case at: True
      then have "sub_str j (length sep) s = sep" using j(1) assms(1) by (rule sep_at_str)
      then have "take (j + length sep) s = concat (map (\<lambda>t. t @ sep) (tokens @ [sub_str start (j - start) s]))"
        using take_parts [OF less.prems(1), of "length sep" s] less.prems(3) by simp
      then have "join_with sep (split_loop s (length s) sep (length sep) (j + length sep) (j + length sep) (tokens @ [sub_str start (j - start) s])) = s"
        using j assms(1) by (intro less.hyps diff_less_mono2) auto
      then show ?thesis using True at assms(1) by (subst split_loop.simps) (simp add: Suc_le_eq)
    next
      case False
      have "join_with sep (split_loop s (length s) sep (length sep) (j + 1) start tokens) = s"
        using j assms(1) less.prems by (intro less.hyps) (auto simp: Suc_le_eq)
      then show ?thesis using True False assms(1) by (subst split_loop.simps) (simp add: Suc_le_eq)
    qed
  next
    case False
    then have "split_loop s (length s) sep (length sep) j start tokens = tokens @ [sub_str start (length s - start) s]"
      by (subst split_loop.simps) simp
    moreover have "take start s @ sub_str start (length s - start) s = s" by (simp add: sub_str_def)
    ultimately show ?thesis using less.prems(3) by (simp add: join_with_snoc)
  qed
qed

lemma split_loop_clean:
  assumes "start \<le> j" and "j \<le> length s" and "\<forall>t\<in>set tokens. c \<notin> set t" and "c \<notin> set (sub_str start (j - start) s)"
  shows "\<forall>t\<in>set (split_loop s (length s) [c] 1 j start tokens). c \<notin> set t"
  using assms
proof (induction "length s - j" arbitrary: j start tokens rule: less_induct)
  case less
  show ?case
  proof (cases "j < length s")
    case True
    show ?thesis
    proof (cases "sep_at s [c] 1 j")
      case at: True
      have "\<forall>t\<in>set (split_loop s (length s) [c] 1 (j + 1) (j + 1) (tokens @ [sub_str start (j - start) s])). c \<notin> set t"
        using True less.prems by (intro less.hyps) (auto simp: sub_str_def)
      then show ?thesis using True at by (subst split_loop.simps) simp
    next
      case False
      have "sub_str start (Suc j - start) s = sub_str start (j - start) s @ [s ! j]"
        using True less.prems(1) by (simp add: sub_str_def Suc_diff_le take_Suc_conv_app_nth)
      then have "\<forall>t\<in>set (split_loop s (length s) [c] 1 (j + 1) start tokens). c \<notin> set t"
        using True False less.prems by (intro less.hyps) (auto simp: sep_at_def)
      then show ?thesis using True False by (subst split_loop.simps) simp
    qed
  next
    case False
    then show ?thesis using less.prems by (subst split_loop.simps) simp
  qed
qed

lemma split_loop_parts:
  "set t \<subseteq> set s" if "t \<in> set (split_loop s len sep seplen j start tokens)" and "\<forall>t\<in>set tokens. set t \<subseteq> set s"
  using that
proof (induction s len sep seplen j start tokens rule: split_loop.induct)
  case (1 s len sep seplen j start tokens)
  have p: "set (sub_str i n s) \<subseteq> set s" for i n by (metis sub_str_def set_drop_subset set_take_subset subset_trans)
  show ?case
  proof (cases "j + (seplen - 1) < len \<and> 1 \<le> seplen")
    case True
    then show ?thesis using 1 p by (subst (asm) (3) split_loop.simps) (auto split: if_splits)
  next
    case False
    then have "split_loop s len sep seplen j start tokens = tokens @ [sub_str start (len - start) s]"
      by (subst split_loop.simps) auto
    then have "t \<in> set tokens \<or> t = sub_str start (len - start) s" using "1.prems"(1) by auto
    then show ?thesis using "1.prems"(2) p [of start "len - start"] by blast
  qed
qed

lemma tokens_short: "t \<in> set ts \<Longrightarrow> length t \<le> length (join_with sep ts)"
  by (induction sep ts rule: join_with.induct) auto

lemma split_tokens:
  assumes "sep \<noteq> []"
  shows "\<exists>ts. sdssplitlen s (int (length s)) sep (int (length sep)) = Some (map sds_of ts) \<and> join_with sep ts = s
    \<and> (\<forall>t\<in>set ts. set t \<subseteq> set s)"
proof (cases "s = []")
  case True
  then show ?thesis using assms by (intro exI [of _ "[]"]) (simp add: sdssplitlen_def Suc_le_eq)
next
  case False
  then show ?thesis using assms split_loop_join [OF assms, of 0 0 s "[]"] split_loop_parts [of _ s "length s" sep "length sep" 0 0 "[]"]
    by (intro exI [of _ "split_loop s (length s) sep (length sep) 0 0 []"]) (simp add: sdssplitlen_def Suc_le_eq)
qed

text \<open>Splitting a string at a separator and joining the pieces with it gives the string back,
  whatever the separator, and the empty string included.\<close>

theorem split_join:
  assumes "0 \<notin> set s" and "0 \<notin> set sep" and "sep \<noteq> []" and "length s \<le> sds_limit"
  shows "\<exists>tokens r. sdssplitlen s (int (length s)) sep (int (length sep)) = Some tokens
    \<and> sdsjoin g (map sd_buf tokens) (c_str sep) = Inr r \<and> sds_str r = s"
proof -
  obtain ts where ts: "sdssplitlen s (int (length s)) sep (int (length sep)) = Some (map sds_of ts)" "join_with sep ts = s"
    "\<forall>t\<in>set ts. set t \<subseteq> set s" using split_tokens [OF assms(3), of s] by blast
  have "c_string (sd_buf (sds_of t)) t" if "t \<in> set ts" for t
    using that ts(3) assms(1) by (auto simp: sds_of_def c_string_def)
  then have "list_all2 c_string (map sd_buf (map sds_of ts)) ts" by (simp add: list_all2_conv_all_nth)
  moreover have "c_string (c_str sep) sep" using assms(2) by (simp add: c_string_def c_str_def)
  ultimately obtain r where "sdsjoin g (map sd_buf (map sds_of ts)) (c_str sep) = Inr r" "sds_rep r (join_with sep ts)"
    using sdsjoin_ok [of _ ts "c_str sep" sep g] ts(2) assms(4) by blast
  then show ?thesis using ts by (intro exI [of _ "map sds_of ts"] exI [of _ r]) (simp add: sds_rep_def)
qed

lemma split_join_witness:
  "\<exists>tokens r. sdssplitlen [97, 44, 44, 98] 4 [44] 1 = Some tokens
     \<and> sdsjoin (\<lambda>i. 7) (map sd_buf tokens) (c_str [44]) = Inr r \<and> sds_str r = [97, 44, 44, 98]"
  using split_join [of "[97, 44, 44, 98]" "[44]" "\<lambda>i. 7"] by (simp add: sds_limit_def)

subsection \<open>Quoting and reading arguments back\<close>

definition quote_char :: "byte \<Rightarrow> byte list" where
  "quote_char b =
     (if b = 92 \<or> b = 34 then [92, b]
      else if b = 10 then [92, 110] else if b = 13 then [92, 114] else if b = 9 then [92, 116]
      else if b = 7 then [92, 97] else if b = 8 then [92, 98]
      else if is_print b then [b]
      else [92, 120, hex_char (b div 16), hex_char (b mod 16)])"

definition quoted :: "byte list \<Rightarrow> byte list" where
  "quoted xs = 34 # concat (map quote_char xs) @ [34]"

lemma unat_less_256: "unat b < 256" for b :: byte
proof -
  have "unat b < 2 ^ LENGTH(8)" by (rule unsigned_less)
  then show ?thesis by simp
qed

lemma nibble: "unat (b div 16) < 16" "unat (b mod 16) < 16" for b :: byte
  by (simp_all add: unat_div unat_mod less_mult_imp_div_less unat_less_256)

lemma hex_table:
  "list_all (\<lambda>n. is_hex_digit (hex_char n) \<and> hex_digit_to_int (hex_char n) = n \<and> hex_char n \<noteq> 0) (map of_nat [0..<16])"
  by code_simp

lemma hex_char_ok:
  assumes "unat n < 16"
  shows "is_hex_digit (hex_char n) \<and> hex_digit_to_int (hex_char n) = n \<and> hex_char n \<noteq> 0"
proof -
  have "n \<in> set (map of_nat [0..<16])"
    using assms by (auto intro: image_eqI [of _ _ "unat n"])
  then show ?thesis using hex_table unfolding list_all_iff by blast
qed

lemma quote_char_nonzero: "0 \<notin> set (quote_char b)"
  using hex_char_ok [OF nibble(1), of b] hex_char_ok [OF nibble(2), of b]
  by (auto simp: quote_char_def is_print_def)

lemma quoted_nonzero: "0 \<notin> set (quoted xs)"
  using quote_char_nonzero by (auto simp: quoted_def)

lemma length_quote_char: "length (quote_char b) \<le> 4"
  by (simp add: quote_char_def)

lemma length_quoted: "length (quoted xs) \<le> 4 * length xs + 2"
proof (induction xs)
  case (Cons b xs)
  then show ?case using length_quote_char [of b] by (simp add: quoted_def)
qed (simp add: quoted_def)

lemma catrepr_char_ok:
  assumes "sds_rep s xs" and "length xs + 4 \<le> sds_limit"
  shows "\<exists>s'. catrepr_char g b s = Inr s' \<and> sds_rep s' (xs @ quote_char b)"
proof -
  have p: "\<exists>s'. sdscatprintf g s out = Inr s' \<and> sds_rep s' (xs @ out)" if "0 \<notin> set out" "length out \<le> 4" for out
    using that assms(2) by (intro sdscatprintf_ok [OF assms(1)]) auto
  have l: "\<exists>s'. sdscatlen g s [u, v] 2 = Inr s' \<and> sds_rep s' (xs @ [u, v])" for u v
    using sdscatlen_ok [OF assms(1), of 2 "[u, v]" g] assms(2) by simp
  have h: "hex_char (b div 16) \<noteq> 0" "hex_char (b mod 16) \<noteq> 0" using hex_char_ok nibble by blast+
  show ?thesis unfolding catrepr_char_def quote_char_def
    by (simp add: l p h is_print_def) (auto intro!: p simp: is_print_def)
qed

lemma catrepr_chars_ok:
  "sds_rep s xs \<Longrightarrow> length xs + 4 * length bs \<le> sds_limit \<Longrightarrow>
     \<exists>s'. rfold (catrepr_char g) bs s = Inr s' \<and> sds_rep s' (xs @ concat (map quote_char bs))"
proof (induction bs arbitrary: s xs)
  case (Cons b bs)
  obtain s1 where s1: "catrepr_char g b s = Inr s1" "sds_rep s1 (xs @ quote_char b)"
    using catrepr_char_ok [OF Cons.prems(1), of g b] Cons.prems(2) by auto
  then show ?case using Cons.IH [OF s1(2)] Cons.prems(2) length_quote_char [of b] by auto
qed simp

lemma sdscatrepr_ok:
  assumes "sds_rep s xs" and "length xs + 4 * length p + 2 \<le> sds_limit"
  shows "\<exists>s'. sdscatrepr g s p (length p) = Inr s' \<and> sds_rep s' (xs @ quoted p)"
proof -
  obtain s1 where s1: "sdscatlen g s [34] 1 = Inr s1" "sds_rep s1 (xs @ [34])"
    using sdscatlen_ok [OF assms(1), of 1 "[34]" g] assms(2) by auto
  obtain s2 where s2: "rfold (catrepr_char g) p s1 = Inr s2" "sds_rep s2 ((xs @ [34]) @ concat (map quote_char p))"
    using catrepr_chars_ok [OF s1(2), of p g] assms(2) by auto
  have "length ((xs @ [34]) @ concat (map quote_char p)) + 1 \<le> sds_limit"
    using length_quoted [of p] assms(2) by (simp add: quoted_def)
  then obtain s3 where "sdscatlen g s2 [34] 1 = Inr s3" "sds_rep s3 (((xs @ [34]) @ concat (map quote_char p)) @ [34])"
    using sdscatlen_ok [OF s2(2), of 1 "[34]" g] by auto
  then show ?thesis using s1 s2 by (simp add: sdscatrepr_def peek_def quoted_def)
qed

text \<open>The tokenizer inside double quotes reads a quoted byte back.\<close>

lemma hex_escape_other: "a \<noteq> 92 \<Longrightarrow> hex_escape (a # p) = None" "b \<noteq> 120 \<Longrightarrow> hex_escape (a # b # p) = None"
  by (cases "a # p" rule: hex_escape.cases; simp) (cases "a # b # p" rule: hex_escape.cases; simp)

lemma split_plain: "b \<noteq> 92 \<Longrightarrow> b \<noteq> 34 \<Longrightarrow> split_token True q (b # p) cur = split_token True q p (cur @ [b])"
  by (subst split_token.simps) (simp add: hex_escape_other)

lemma split_escape: "b \<noteq> 120 \<Longrightarrow> split_token True q (92 # b # p) cur = split_token True q p (cur @ [unescape b])"
  by (subst split_token.simps) (simp add: hex_escape_other)

lemma split_hex:
  "is_hex_digit c \<Longrightarrow> is_hex_digit d \<Longrightarrow>
     split_token True q (92 # 120 # c # d # p) cur = split_token True q p (cur @ [hex_digit_to_int c * 16 + hex_digit_to_int d])"
  by (subst split_token.simps) simp

lemma split_quote_char: "split_token True q (quote_char b @ p) cur = split_token True q p (cur @ [b])"
proof -
  have n: "b div 16 * 16 + b mod 16 = b" by (rule word_mod_div_equality)
  show ?thesis using hex_char_ok [OF nibble(1), of b] hex_char_ok [OF nibble(2), of b]
    by (simp add: quote_char_def split_plain split_escape split_hex unescape_def n)
qed

lemma split_quoted: "closes q \<Longrightarrow> split_token False False (quoted xs @ q) [] = Some (xs, q)"
proof -
  assume q: "closes q"
  have "split_token True False (concat (map quote_char xs) @ 34 # q) cur = Some (cur @ xs, q)" for cur
  proof (induction xs arbitrary: cur)
    case Nil
    then show ?case using q by (subst split_token.simps) (simp add: hex_escape_other)
  next
    case (Cons b xs)
    then show ?case by (simp add: split_quote_char)
  qed
  then show ?thesis by (subst split_token.simps) (simp add: quoted_def)
qed

lemma split_from_quoted: "closes q \<Longrightarrow> split_from (quoted xs @ q) v = split_from q (v @ [xs])"
proof -
  assume q: "closes q"
  have "dropWhile is_space (quoted xs @ q) = quoted xs @ q" by (simp add: quoted_def is_space_def)
  moreover have "quoted xs \<noteq> []" by (simp add: quoted_def)
  ultimately show ?thesis by (subst split_from.simps) (simp add: split_quoted [OF q] Let_def)
qed

lemma split_from_blank: "is_space b \<Longrightarrow> split_from (b # p) v = split_from p v"
  by (subst (1 2) split_from.simps) simp

lemma split_from_args: "split_from (join_with [32] (map quoted xss)) v = Some (v @ xss)"
proof (induction "[32] :: byte list" xss arbitrary: v rule: join_with.induct)
  case 1
  then show ?case by (subst split_from.simps) simp
next
  case (2 x)
  have "split_from [] w = Some w" for w by (subst split_from.simps) simp
  then show ?case using split_from_quoted [of "[]" x v] by (simp add: closes_def)
next
  case (3 x y xs)
  then show ?case using split_from_quoted [of "[32] @ join_with [32] (map quoted (y # xs))" x v]
    by (simp add: closes_def is_space_def split_from_blank)
qed

lemma length_args: "length (join_with [32] (map quoted xss)) \<le> (\<Sum>xs\<leftarrow>xss. 4 * length xs + 3)"
proof (induction xss)
  case (Cons xs xss)
  then show ?case using length_quoted [of xs] by (cases xss) auto
qed simp

text \<open>C15: a line of quoted arguments reads back as the arguments: \<open>sdscatrepr\<close> writes any byte
  strings, NULs and quotes included, so that joined by spaces they make a C string from which
  \<open>sdssplitargs\<close> recovers every one of them.\<close>

theorem args_roundtrip:
  assumes "(\<Sum>xs\<leftarrow>xss. 4 * length xs + 3) \<le> sds_limit"
  shows "\<exists>args line. list_all2 (\<lambda>xs s. rbind sdsempty (\<lambda>e. sdscatrepr g e xs (length xs)) = Inr s) xss args
    \<and> sdsjoin g (map sd_buf args) (c_str [32]) = Inr line
    \<and> 0 \<notin> set (sds_str line) \<and> sdssplitargs (sds_str line) = Some xss"
proof -
  obtain e where e: "sdsempty = Inr e" "sds_rep e []" using sdsempty_ok by blast
  have "\<exists>s. sdscatrepr g e xs (length xs) = Inr s \<and> sds_rep s (quoted xs)" if "xs \<in> set xss" for xs
  proof -
    have "4 * length xs + 3 \<le> sds_limit" using assms that member_le_sum_list [of "4 * length xs + 3" "map (\<lambda>xs. 4 * length xs + 3) xss"]
      by (force intro: le_trans)
    then show ?thesis using sdscatrepr_ok [OF e(2), of xs g] by simp
  qed
  then obtain f where f: "\<And>xs. xs \<in> set xss \<Longrightarrow> sdscatrepr g e xs (length xs) = Inr (f xs) \<and> sds_rep (f xs) (quoted xs)"
    by metis
  have "list_all2 c_string (map sd_buf (map f xss)) (map quoted xss)"
    using f sds_c_string quoted_nonzero by (auto simp: list_all2_conv_all_nth)
  moreover have "c_string (c_str [32]) [32]" by (simp add: c_string_def c_str_def)
  moreover have "length (join_with [32] (map quoted xss)) \<le> sds_limit" using length_args assms by (rule le_trans)
  ultimately obtain line where line: "sdsjoin g (map sd_buf (map f xss)) (c_str [32]) = Inr line"
    "sds_rep line (join_with [32] (map quoted xss))" using sdsjoin_ok by blast
  have z: "0 \<notin> set (join_with [32] (map quoted xss))"
    using quoted_nonzero by (induction "[32] :: byte list" xss rule: join_with.induct) auto
  have "list_all2 (\<lambda>xs s. rbind sdsempty (\<lambda>e. sdscatrepr g e xs (length xs)) = Inr s) xss (map f xss)"
  proof (rule list_all2_all_nthI)
    fix i assume "i < length xss"
    then show "rbind sdsempty (\<lambda>e. sdscatrepr g e (xss ! i) (length (xss ! i))) = Inr (map f xss ! i)"
      using f [OF nth_mem] by (simp add: e(1))
  qed simp
  then show ?thesis
    using line z split_from_args [of xss "[]"]
    by (intro exI [of _ "map f xss"] exI [of _ line]) (simp add: sds_rep_def sdssplitargs_def)
qed

lemma args_roundtrip_witness:
  "\<exists>args line. list_all2 (\<lambda>xs s. rbind sdsempty (\<lambda>e. sdscatrepr (\<lambda>i. 0) e xs (length xs)) = Inr s) [[104, 32], [0, 34]] args
    \<and> sdsjoin (\<lambda>i. 0) (map sd_buf args) (c_str [32]) = Inr line
    \<and> 0 \<notin> set (sds_str line) \<and> sdssplitargs (sds_str line) = Some [[104, 32], [0, 34]]"
  using args_roundtrip [of "[[104, 32], [0, 34]]" "\<lambda>i. 0"] by (simp add: sds_limit_def)

end
