(* ===== verification/Config_Read.thy ===== *)
theory Config_Read
  imports Config_Laws
begin

text \<open>
  Reading \<open>destor.config\<close> and \<open>destor.stat\<close>: the reader is safe on every file, a text is taken line by
  line, the index settles its settings once, and the statistics survive a restart.
\<close>

subsection \<open>The lengths of the arguments\<close>

lemma split_token_total: "split_token inq insq p cur = Some (t, q) \<Longrightarrow> length t + length q \<le> length cur + length p"
proof (induction inq insq p cur rule: split_token.induct)
  case (1 inq insq p cur)
  note step = "1.prems" [unfolded split_token.simps [of inq insq p cur]]
  show ?case
  proof (cases inq)
    case inq: True
    show ?thesis
    proof (cases "hex_escape p")
      case (Some bq)
      then show ?thesis using inq step "1.IH"(3) [OF inq Some] hex_escape_length [of p "fst bq" "snd bq"]
        by (cases bq) fastforce
    next
      case None
      show ?thesis
      proof (cases p)
        case (Cons c q')
        note IH = "1.IH"(1,2) [OF inq None Cons]
        show ?thesis using step inq None Cons IH by (simp split: if_splits)
      qed (use step inq None in simp)
    qed
  next
    case inq: False
    show ?thesis
    proof (cases p)
      case (Cons c q')
      then show ?thesis using step inq "1.IH"(4,5) [OF inq _ Cons] "1.IH"(6-8) [OF inq _ Cons]
        by (simp split: if_splits)
    qed (use step inq in \<open>simp split: if_splits\<close>)
  qed
qed

lemma split_from_lengths:
  "split_from p v = Some ts \<Longrightarrow> length p \<le> n \<Longrightarrow> \<forall>t\<in>set v. length t \<le> n \<Longrightarrow> \<forall>t\<in>set ts. length t \<le> n"
proof (induction p v rule: split_from.induct)
  case (1 p v)
  let ?p = "dropWhile is_space p"
  have l: "length ?p \<le> n" using "1.prems"(2) length_dropWhile_le [of is_space p] by simp
  show ?case
  proof (cases "?p = []")
    case True
    then show ?thesis using "1.prems" by (subst (asm) split_from.simps) simp
  next
    case False
    then have "(case split_token False False ?p [] of None \<Rightarrow> None | Some (t, q) \<Rightarrow> split_from q (v @ [t])) = Some ts"
      using "1.prems"(1) [unfolded split_from.simps [of p v] Let_def] by (simp only: if_False)
    then obtain t q where tq: "split_token False False ?p [] = Some (t, q)" "split_from q (v @ [t]) = Some ts"
      by (auto split: option.splits)
    then have "length t + length q \<le> length ?p" using split_token_total [of False False ?p "[]"] by simp
    then show ?thesis using 1(1) [OF refl False tq(1) refl tq(2)] l "1.prems"(3) by simp
  qed
qed

lemma split_args_lengths: "sdssplitargs line = Some argv \<Longrightarrow> \<forall>t\<in>set argv. length t \<le> length line"
  unfolding sdssplitargs_def by (rule split_from_lengths) auto

subsection \<open>Reading is safe\<close>

lemma set_trimmed: "set (trimmed P xs) \<subseteq> set xs" "length (trimmed P xs) \<le> length xs"
proof -
  show "set (trimmed P xs) \<subseteq> set xs" by (auto simp: trimmed_def dest!: set_dropWhileD)
  show "length (trimmed P xs) \<le> length xs"
    unfolding trimmed_def by (metis le_trans length_dropWhile_le length_rev)
qed

lemma config_line_safe:
  assumes "sds_rep line xs" and "0 \<notin> set xs" and "length xs + 1 \<le> n" and "n \<le> sds_limit" and "cfg_typed n d"
  shows "safe n (config_line atof g line d)"
proof -
  let ?ys = "trimmed (in_cset [32, 9, 13, 10]) xs"
  obtain l2 where l2: "sdstrim line [32, 9, 13, 10] = Inr l2" "sds_rep l2 ?ys"
    using sdstrim_ok [OF assms(1)] by blast
  have ys: "0 \<notin> set ?ys" "length ?ys \<le> length xs" using set_trimmed [of "in_cset [32, 9, 13, 10]" xs] assms(2) by auto
  obtain rest where r: "l2 = mk ?ys rest" using l2(2) by (rule sds_repE)
  have c: "\<exists>c. peek 0 1 (sd_buf l2) = Inr c" by (simp add: r peek_def)
  have a: "safe n (directive atof g (map to_lower (argv ! 0) # tl argv) d)" if "sdssplitargs ?ys = Some argv" "argv \<noteq> []" for argv
  proof (rule directive_safe [OF assms(5) _ assms(4)])
    have "\<forall>t\<in>set argv. length t + 1 \<le> n" using split_args_lengths [OF that(1)] ys(2) assms(3) by fastforce
    then show "\<forall>t\<in>set (map to_lower (argv ! 0) # tl argv). length t + 1 \<le> n" using that(2) by (cases argv) auto
  qed simp
  show ?thesis using l2(1) c a assms(5) till_nul_rep [OF l2(2) ys(1)]
    by (auto simp: config_line_def argv_at_def split: option.splits)
qed

lemma safe_fold:
  assumes "\<And>x d. x \<in> set xs \<Longrightarrow> cfg_typed n d \<Longrightarrow> safe n (f x d)" and "cfg_typed n d"
  shows "safe n (rfold f xs d)"
  using assms
proof (induction xs arbitrary: d)
  case (Cons x xs)
  have s: "safe n (f x d)" using Cons.prems by simp
  show ?case
  proof (cases "f x d")
    case (Inl e)
    then show ?thesis using s by (simp add: safe_def)
  next
    case (Inr d')
    then show ?thesis using s Cons by simp
  qed
qed simp

text \<open>The loop of \<open>sdssplitlen\<close> looks only at the first \<open>len\<close> bytes.\<close>

lemma split_loop_take:
  assumes "start \<le> j" and "len \<le> length s"
  shows "split_loop s len sep seplen j start tokens = split_loop (take len s) len sep seplen j start tokens"
  using assms(1)
proof (induction "len - j" arbitrary: j start tokens rule: less_induct)
  case less
  have sub: "sub_str i n s = sub_str i n (take len s)" if "i + n \<le> len" for i n
    using that by (simp add: sub_str_def drop_take min_def)
  show ?case
  proof (cases "j + (seplen - 1) < len \<and> 1 \<le> seplen")
    case True
    then have at: "sep_at s sep seplen j = sep_at (take len s) sep seplen j"
      using sub [of j seplen] by (auto simp: sep_at_def)
    have "sub_str start (j - start) s = sub_str start (j - start) (take len s)" using True less.prems by (intro sub) simp
    moreover have "split_loop s len sep seplen (j + seplen) (j + seplen) ts = split_loop (take len s) len sep seplen (j + seplen) (j + seplen) ts" for ts
      using True by (intro less.hyps) auto
    moreover have "split_loop s len sep seplen (j + 1) start tokens = split_loop (take len s) len sep seplen (j + 1) start tokens"
      using True less.prems by (intro less.hyps) auto
    moreover have "split_loop u len sep seplen j start tokens =
      (if sep_at u sep seplen j then split_loop u len sep seplen (j + seplen) (j + seplen) (tokens @ [sub_str start (j - start) u])
       else split_loop u len sep seplen (j + 1) start tokens)" for u
      using True by (subst split_loop.simps) (simp only: if_True simp_thms)
    ultimately show ?thesis using at by (simp only:)
  next
    case False
    have "sub_str start (len - start) s = sub_str start (len - start) (take len s)"
    proof (cases "start \<le> len")
      case True
      then show ?thesis by (intro sub) simp
    next
      case False
      then show ?thesis by (simp add: sub_str_def)
    qed
    then show ?thesis using False by (subst (1 2) split_loop.simps) auto
  qed
qed

lemma split_rep:
  assumes "sds_rep s xs"
  shows "sdssplitlen (sd_buf s) (int (length xs)) sep k = sdssplitlen xs (int (length xs)) sep k"
proof -
  obtain rest where "s = mk xs rest" using assms by (rule sds_repE)
  then show ?thesis using split_loop_take [of 0 0 "length xs" "xs @ 0 # rest"] by (simp add: sdssplitlen_def)
qed

lemma lines_of:
  assumes "sds_rep s xs" and "0 \<notin> set xs"
  shows "\<exists>ts. load_config_from_string atof g s d = rfold (config_line atof g) (map sds_of ts) d \<and> join_with [10] ts = xs
    \<and> (\<forall>t\<in>set ts. set t \<subseteq> set xs \<and> length t \<le> length xs) \<and> ts = (if xs = [] then [] else split_loop xs (length xs) [10] 1 0 0 [])"
proof -
  obtain rest where r: "s = mk xs rest" "length xs + length rest < 2 ^ 31 - 1" using assms(1) by (rule sds_repE)
  have n: "c_strlen (sd_buf s) = Inr (length xs)" "int32 (int (length xs)) = int (length xs)"
    using c_strlen_str [OF assms(2), of rest] r by (simp_all add: in32_def)
  define ts where "ts = (if xs = [] then [] else split_loop xs (length xs) [10] 1 0 0 [])"
  have t: "sdssplitlen (sd_buf s) (int (length xs)) [10] 1 = Some (map sds_of ts)"
    unfolding split_rep [OF assms(1)] by (simp add: sdssplitlen_def ts_def)
  moreover obtain us where us: "sdssplitlen xs (int (length xs)) [10] (int (length [10 :: byte])) = Some (map sds_of us)"
    "join_with [10] us = xs" "\<forall>t\<in>set us. set t \<subseteq> set xs" using split_tokens [of "[10]" xs] by auto
  have j: "join_with [10] ts = xs" using split_loop_join [of "[10]" 0 0 xs "[]"] by (simp add: ts_def)
  moreover have "\<forall>t\<in>set ts. set t \<subseteq> set xs" using split_loop_parts [of _ xs "length xs" "[10]" 1 0 0 "[]"] by (auto simp: ts_def split: if_splits)
  moreover have "\<forall>t\<in>set ts. length t \<le> length xs" using tokens_short [of _ ts "[10]"] j by auto
  ultimately show ?thesis using n by (intro exI [of _ ts]) (simp add: load_config_from_string_def flip: ts_def)
qed

lemma load_string_safe:
  assumes "sds_rep s xs" and "0 \<notin> set xs" and "length xs + 1 \<le> n" and "n \<le> sds_limit" and "cfg_typed n d"
  shows "safe n (load_config_from_string atof g s d)"
proof -
  obtain ts where ts: "load_config_from_string atof g s d = rfold (config_line atof g) (map sds_of ts) d"
    "\<forall>t\<in>set ts. set t \<subseteq> set xs \<and> length t \<le> length xs" using lines_of [OF assms(1,2), of atof g d] by blast
  have "safe n (rfold (config_line atof g) (map sds_of ts) d)"
  proof (rule safe_fold [OF _ assms(5)])
    fix l d' assume "l \<in> set (map sds_of ts)" and d': "cfg_typed n d'"
    then obtain t where t: "l = sds_of t" "set t \<subseteq> set xs" "length t \<le> length xs" using ts(2) by auto
    then have "sds_rep l t" using sds_rep_len [OF assms(1)] by (auto intro: sds_of_rep)
    then show "safe n (config_line atof g l d')" using t assms d' by (intro config_line_safe [of _ t]) auto
  qed
  then show ?thesis by (simp add: ts(1))
qed

text \<open>The blocks of \<open>fgets\<close> are put together again.\<close>

lemma fgets_split:
  assumes "fgets (DESTOR_CONFIGLINE_MAX + 1) s = (b, r)"
  shows "s = b @ r" and "s \<noteq> [] \<Longrightarrow> length r < length s"
  using assms by (auto simp: fgets_def Let_def DESTOR_CONFIGLINE_MAX_def)

lemma read_config_ok:
  assumes "sds_rep config xs" and "length xs + length s \<le> sds_limit" and "0 \<notin> set xs"
  shows "\<exists>config' ys. read_config g s config = Inr config' \<and> sds_rep config' ys \<and> 0 \<notin> set ys
    \<and> length ys \<le> length xs + length s \<and> (0 \<notin> set s \<longrightarrow> ys = xs @ s)"
  using assms
proof (induction "length s" arbitrary: s config xs rule: less_induct)
  case less
  show ?case
  proof (cases "s = []")
    case True
    then show ?thesis using less.prems by (subst read_config.simps) auto
  next
    case False
    obtain b r where br: "fgets (DESTOR_CONFIGLINE_MAX + 1) s = (b, r)" by fastforce
    have s: "s = b @ r" "length r < length s" using fgets_split [OF br] False by simp_all
    obtain zs where b: "c_str b = till_nul b @ 0 # zs" using till_nul_c_str(1) [of b] by blast
    have l: "length (till_nul b) \<le> length b" "0 \<notin> set (till_nul b)" by (rule till_nul_c_str)+
    then obtain c1 where c1: "sdscat g config (c_str b) = Inr c1" "sds_rep c1 (xs @ till_nul b)"
      using sdscat_ok [OF less.prems(1), of "till_nul b" g zs] less.prems(2) s(1) b by auto
    have "\<exists>config' ys. read_config g r c1 = Inr config' \<and> sds_rep config' ys \<and> 0 \<notin> set ys
      \<and> length ys \<le> length (xs @ till_nul b) + length r \<and> (0 \<notin> set r \<longrightarrow> ys = (xs @ till_nul b) @ r)"
      using less.prems(2,3) l s c1(2) by (intro less.hyps) auto
    then obtain c2 ys where c2: "read_config g r c1 = Inr c2" "sds_rep c2 ys" "0 \<notin> set ys"
      "length ys \<le> length (xs @ till_nul b) + length r" "0 \<notin> set r \<Longrightarrow> ys = (xs @ till_nul b) @ r" by blast
    have "0 \<notin> set s \<Longrightarrow> till_nul b = b" unfolding till_nul_def using s(1) by (intro takeWhile_eq_all_conv [THEN iffD2]) auto
    then have "0 \<notin> set s \<longrightarrow> ys = xs @ s" using c2(5) s(1) by auto
    moreover have "read_config g s config = Inr c2" using False br c1(1) c2(1) by (subst read_config.simps) simp
    ultimately show ?thesis using c2 l(1) s(1) by (intro exI [of _ c2] exI [of _ ys]) simp
  qed
qed

lemma read_whole:
  assumes "length s \<le> sds_limit"
  shows "\<exists>e config ys. sdsempty = Inr e \<and> read_config g s e = Inr config \<and> sds_rep config ys \<and> 0 \<notin> set ys
    \<and> length ys \<le> length s \<and> (0 \<notin> set s \<longrightarrow> ys = s)"
proof -
  obtain e where e: "sdsempty = Inr e" "sds_rep e []" using sdsempty_ok by blast
  then show ?thesis using read_config_ok [OF e(2), of s g] assms by auto
qed

lemma load_config_typed_safe:
  assumes "cfg_typed n d" and "n \<le> sds_limit" and "\<forall>s. conf = Some s \<longrightarrow> length s + 1 \<le> n"
  shows "safe n (load_config atof g conf d)"
proof (cases conf)
  case None
  obtain e where e: "sdsempty = Inr e" using sdsempty_ok by blast
  show ?thesis using assms(1) by (simp add: load_config_def e None)
next
  case (Some s)
  obtain e config ys where r: "sdsempty = Inr e" "read_config g s e = Inr config" "sds_rep config ys" "0 \<notin> set ys" "length ys \<le> length s"
    using read_whole [of s g] assms(2,3) Some by auto
  have "safe n (load_config_from_string atof g config d)"
    using assms Some r(5) by (intro load_string_safe [OF r(3,4)]) auto
  then show ?thesis by (simp add: load_config_def r(1,2) Some)
qed


text \<open>The initial settings are well typed.\<close>

lemma default_directory: "sdsnew (Some (c_str (lit ''/home/data/working/''))) = Inr (sds_of (lit ''/home/data/working/''))"
  by (rule sdsnew_ok) (simp add: lit_def)

lemma defaults_typed: "19 \<le> n \<Longrightarrow> cfg_typed n (destor_defaults (sds_of (lit ''/home/data/working/'')))"
proof -
  assume n: "19 \<le> n"
  let ?w = "lit ''/home/data/working/''"
  have w: "0 \<notin> set ?w" "?w \<noteq> []" "last ?w = 47" "length ?w = 19" by (simp_all add: lit_def)
  have "sds_rep (sds_of ?w) ?w" by (rule sds_of_rep) (simp add: w(4))
  then have "dir_ok n (destor_defaults (sds_of ?w))" using n w by (simp add: dir_ok_def destor_defaults_def sds_rep_def)
  moreover have "enums_ok (destor_defaults w)" "ints_ok (destor_defaults w)" for w
    by (simp_all add: enums_ok_def ints_ok_def destor_defaults_def in32_def)
  ultimately show ?thesis by (simp add: cfg_typed_def)
qed


subsection \<open>Line by line\<close>

lemma join_clean_unique:
  assumes "\<forall>t\<in>set ts. c \<notin> set t" and "\<forall>l\<in>set ls. c \<notin> set l" and "join_with [c] ts = join_with [c] ls" and "ts \<noteq> []" and "ls \<noteq> []"
  shows "ts = ls"
  using assms
proof (induction "[c]" ts arbitrary: ls rule: join_with.induct)
  case (2 x)
  show ?case
  proof (cases ls)
    case (Cons l ls')
    then show ?thesis using 2 by (cases ls') auto
  qed (use 2 in simp)
next
  case (3 x y xs)
  show ?case
  proof (cases ls)
    case (Cons l ls')
    show ?thesis
    proof (cases ls')
      case Nil
      then show ?thesis using 3 Cons by auto
    next
      case (Cons m ls'')
      have e: "x @ c # join_with [c] (y # xs) = l @ c # join_with [c] ls'" using 3(4) \<open>ls = l # ls'\<close> Cons by simp
      have n: "c \<notin> set x" "c \<notin> set l" using 3 \<open>ls = l # ls'\<close> by auto
      have "takeWhile (\<lambda>b. b \<noteq> c) (x @ c # join_with [c] (y # xs)) = x" "takeWhile (\<lambda>b. b \<noteq> c) (l @ c # join_with [c] ls') = l"
        using n by (subst takeWhile_append2; auto)+
      then have "x = l" using e by simp
      moreover have "y # xs = ls'" using 3 \<open>ls = l # ls'\<close> Cons e \<open>x = l\<close> by (intro 3(1)) auto
      ultimately show ?thesis using \<open>ls = l # ls'\<close> by simp
    qed
  qed (use 3 in simp)
qed simp

text \<open>C11: a configuration text is read line by line: loading the lines joined by newlines is running
  the reader of one line over them in order, however the lines lie in the 1024-byte blocks that
  \<open>fgets\<close> delivers.\<close>

theorem load_config_lines:
  assumes "\<forall>l\<in>set ls. 0 \<notin> set l \<and> 10 \<notin> set l" and "join_with [10] ls \<noteq> []" and "length (join_with [10] ls) \<le> sds_limit"
  shows "load_config atof g (Some (join_with [10] ls)) d = rfold (config_line atof g) (map sds_of ls) d"
proof -
  let ?s = "join_with [10] ls"
  have z: "0 \<notin> set ?s" using assms(1) by (induction "[10] :: byte list" ls rule: join_with.induct) auto
  obtain e config where r: "sdsempty = Inr e" "read_config g ?s e = Inr config" "sds_rep config ?s"
    using read_whole [OF assms(3), of g] z by blast
  obtain ts where ts: "load_config_from_string atof g config d = rfold (config_line atof g) (map sds_of ts) d" "join_with [10] ts = ?s"
    "ts = split_loop ?s (length ?s) [10] 1 0 0 []" using lines_of [OF r(3) z, of atof g d] assms(2) by auto
  have "\<forall>t\<in>set ts. 10 \<notin> set t" using split_loop_clean [of 0 0 ?s "[]" 10] ts(3) by (simp add: sub_str_def)
  then have "ts = ls" using assms(1,2) ts(2) by (intro join_clean_unique [of _ 10]) auto
  then show ?thesis using ts(1) by (simp add: load_config_def r)
qed

lemma load_config_lines_witness:
  "load_config (\<lambda>t. 0) (\<lambda>i. 0) (Some (join_with [10] [lit ''# a comment'', [], lit ''chunk-avg-size 4096''])) (destor_defaults (sds_of [47]))
     = rfold (config_line (\<lambda>t. 0) (\<lambda>i. 0)) (map sds_of [lit ''# a comment'', [], lit ''chunk-avg-size 4096'']) (destor_defaults (sds_of [47]))"
  by (rule load_config_lines) (simp_all add: lit_def sds_limit_def)

subsection \<open>The index settles its settings\<close>

lemma settle_again: "settle_specific d = Inr e \<Longrightarrow> settle_specific e = Inr e"
  by (cases "ds_index_specific d") (auto simp: settle_specific_def at_least_def)

lemma settle_fields: "settle_specific d = Inr e \<Longrightarrow> ds_index_key_size e = ds_index_key_size d \<and> ds_index_specific e = ds_index_specific d"
  by (cases "ds_index_specific d") (auto simp: settle_specific_def)

lemma settle_adjust: "settle_specific e = Inr e \<Longrightarrow> settle_specific (adjust_index e) = Inr (adjust_index e)"
  by (cases "ds_index_specific e"; cases e) (auto simp: settle_specific_def adjust_index_def at_least_def split: if_splits)

lemma adjust_fields:
  "ds_index_specific (adjust_index e) = ds_index_specific e" "ds_index_category0 (adjust_index e) = ds_index_category0 e"
  "ds_index_category1 (adjust_index e) = ds_index_category1 e"
  "ds_index_key_size (adjust_index e) = (if ds_index_category0 e = INDEX_CATEGORY_EXACT then 20 else ds_index_key_size e)"
  "ds_index_category1 e = INDEX_CATEGORY_PHYSICAL_LOCALITY \<Longrightarrow> ds_index_segment_algorithm0 (adjust_index e) = INDEX_SEGMENT_FIXED"
  "ds_index_category1 e = INDEX_CATEGORY_PHYSICAL_LOCALITY \<Longrightarrow> ds_index_category0 e = INDEX_CATEGORY_EXACT \<Longrightarrow>
     ds_index_sampling_method0 (adjust_index e) = INDEX_SAMPLING_UNIFORM \<and> ds_index_sampling_method1 (adjust_index e) = 1"
  by (simp_all add: adjust_index_def Let_def)

lemma adjust_again: "adjust_index (adjust_index e) = adjust_index e"
  by (simp add: adjust_index_def Let_def)

lemma settle_categories:
  assumes "settle_specific d = Inr e"
  shows "ds_index_specific d \<in> {INDEX_SPECIFIC_DDFS, INDEX_SPECIFIC_BLOCK_LOCALITY_CACHING} \<Longrightarrow> ds_index_category0 e = INDEX_CATEGORY_EXACT"
    and "ds_index_specific d \<in> {INDEX_SPECIFIC_SAMPLED, INDEX_SPECIFIC_SPARSE, INDEX_SPECIFIC_SILO} \<Longrightarrow> ds_index_category0 e = INDEX_CATEGORY_NEAR_EXACT"
    and "ds_index_specific d \<in> {INDEX_SPECIFIC_DDFS, INDEX_SPECIFIC_SAMPLED} \<Longrightarrow> ds_index_category1 e = INDEX_CATEGORY_PHYSICAL_LOCALITY"
    and "ds_index_specific d \<in> {INDEX_SPECIFIC_BLOCK_LOCALITY_CACHING, INDEX_SPECIFIC_SPARSE, INDEX_SPECIFIC_SILO} \<Longrightarrow> ds_index_category1 e = INDEX_CATEGORY_LOGICAL_LOCALITY"
  using assms by (auto simp: settle_specific_def)

lemma init_parts:
  assumes "init_index_settings d = Inr d'"
  shows "\<exists>e. (if ds_index_specific d \<noteq> INDEX_SPECIFIC_NO then settle_specific (d\<lparr>ds_index_key_size := 20\<rparr>) else Inr d) = Inr e
    \<and> d' = adjust_index e \<and> 0 < ds_index_key_size d' \<and> ds_index_key_size d' \<le> 20"
  using assms by (auto simp: init_index_settings_def rbind_Inr_iff rbind_assert Let_def split: if_splits)

lemma init_specific:
  assumes "(if ds_index_specific d \<noteq> INDEX_SPECIFIC_NO then settle_specific (d\<lparr>ds_index_key_size := 20\<rparr>) else Inr d) = Inr e"
  shows "ds_index_specific e = ds_index_specific d"
    and "ds_index_specific e \<noteq> INDEX_SPECIFIC_NO \<Longrightarrow> settle_specific e = Inr e \<and> ds_index_key_size e = 20"
proof -
  show s: "ds_index_specific e = ds_index_specific d"
    using assms settle_fields [of "d\<lparr>ds_index_key_size := 20\<rparr>" e] by (auto split: if_splits)
  assume "ds_index_specific e \<noteq> INDEX_SPECIFIC_NO"
  then have "settle_specific (d\<lparr>ds_index_key_size := 20\<rparr>) = Inr e" using assms s by simp
  then show "settle_specific e = Inr e \<and> ds_index_key_size e = 20" using settle_again settle_fields by fastforce
qed

lemma init_again:
  assumes "init_index_settings d = Inr d'"
  shows "init_index_settings d' = Inr d'"
proof -
  obtain e where e: "(if ds_index_specific d \<noteq> INDEX_SPECIFIC_NO then settle_specific (d\<lparr>ds_index_key_size := 20\<rparr>) else Inr d) = Inr e"
    "d' = adjust_index e" "0 < ds_index_key_size d'" "ds_index_key_size d' \<le> 20" using init_parts [OF assms] by blast
  have f: "(if ds_index_specific d' \<noteq> INDEX_SPECIFIC_NO then settle_specific (d'\<lparr>ds_index_key_size := 20\<rparr>) else Inr d') = Inr d'"
  proof (cases "ds_index_specific e = INDEX_SPECIFIC_NO")
    case True
    then show ?thesis using e(2) by (simp add: adjust_fields)
  next
    case False
    then have d: "ds_index_key_size d' = 20" "settle_specific d' = Inr d'"
      using init_specific(2) [OF e(1)] settle_adjust [of e] e(2) by (auto simp: adjust_fields)
    from d(1) have u: "d'\<lparr>ds_index_key_size := 20\<rparr> = d'" by (cases d') simp
    show ?thesis unfolding u d(2) by simp
  qed
  have "adjust_index d' = d'" by (simp add: e(2) adjust_again)
  then show ?thesis unfolding init_index_settings_def f using e(3,4) by simp
qed

text \<open>C12: \<open>init_index\<close> brings the settings into agreement with the kind of index and leaves them there:
  a key is 1 to 20 bytes long, a whole fingerprint in an exact index; physical locality cuts fixed
  segments, and an exact index with physical locality samples every fingerprint; a named index has the
  two categories the table of \<open>destor.config\<close> gives it. Doing it again changes nothing.\<close>

theorem index_settings_settled:
  assumes "init_index_settings d = Inr d'"
  shows "1 \<le> ds_index_key_size d' \<and> ds_index_key_size d' \<le> 20
    \<and> (ds_index_category0 d' = INDEX_CATEGORY_EXACT \<longrightarrow> ds_index_key_size d' = 20)
    \<and> (ds_index_category1 d' = INDEX_CATEGORY_PHYSICAL_LOCALITY \<longrightarrow> ds_index_segment_algorithm0 d' = INDEX_SEGMENT_FIXED)
    \<and> (ds_index_category0 d' = INDEX_CATEGORY_EXACT \<and> ds_index_category1 d' = INDEX_CATEGORY_PHYSICAL_LOCALITY
         \<longrightarrow> ds_index_sampling_method0 d' = INDEX_SAMPLING_UNIFORM \<and> ds_index_sampling_method1 d' = 1)
    \<and> (ds_index_specific d' \<in> {INDEX_SPECIFIC_DDFS, INDEX_SPECIFIC_BLOCK_LOCALITY_CACHING}
         \<longrightarrow> ds_index_category0 d' = INDEX_CATEGORY_EXACT)
    \<and> (ds_index_specific d' \<in> {INDEX_SPECIFIC_SAMPLED, INDEX_SPECIFIC_SPARSE, INDEX_SPECIFIC_SILO}
         \<longrightarrow> ds_index_category0 d' = INDEX_CATEGORY_NEAR_EXACT)
    \<and> (ds_index_specific d' \<in> {INDEX_SPECIFIC_DDFS, INDEX_SPECIFIC_SAMPLED}
         \<longrightarrow> ds_index_category1 d' = INDEX_CATEGORY_PHYSICAL_LOCALITY)
    \<and> (ds_index_specific d' \<in> {INDEX_SPECIFIC_BLOCK_LOCALITY_CACHING, INDEX_SPECIFIC_SPARSE, INDEX_SPECIFIC_SILO}
         \<longrightarrow> ds_index_category1 d' = INDEX_CATEGORY_LOGICAL_LOCALITY)
    \<and> init_index_settings d' = Inr d'"
proof -
  obtain e where e: "(if ds_index_specific d \<noteq> INDEX_SPECIFIC_NO then settle_specific (d\<lparr>ds_index_key_size := 20\<rparr>) else Inr d) = Inr e"
    "d' = adjust_index e" "0 < ds_index_key_size d'" "ds_index_key_size d' \<le> 20" using init_parts [OF assms] by blast
  show ?thesis
  proof (cases "ds_index_specific e = INDEX_SPECIFIC_NO")
    case True
    then show ?thesis using e(2-) init_again [OF assms] by (auto simp: adjust_fields)
  next
    case False
    then show ?thesis using e(2-) init_again [OF assms] settle_categories [OF init_specific(2) [OF e(1), THEN conjunct1]]
      by (auto simp: adjust_fields)
  qed
qed

lemma index_settings_settled_witness:
  "\<exists>d'. init_index_settings (destor_defaults (sds_of [47])\<lparr>ds_index_specific := INDEX_SPECIFIC_SILO\<rparr>) = Inr d'
     \<and> ds_index_category1 d' = INDEX_CATEGORY_LOGICAL_LOCALITY \<and> init_index_settings d' = Inr d'"
proof -
  have "\<exists>d'. init_index_settings (destor_defaults (sds_of [47])\<lparr>ds_index_specific := INDEX_SPECIFIC_SILO\<rparr>) = Inr d'
    \<and> ds_index_specific d' = INDEX_SPECIFIC_SILO"
    by (simp add: init_index_settings_def settle_specific_def adjust_index_def destor_defaults_def)
  then obtain d' where d: "init_index_settings (destor_defaults (sds_of [47])\<lparr>ds_index_specific := INDEX_SPECIFIC_SILO\<rparr>) = Inr d'"
    and s: "ds_index_specific d' = INDEX_SPECIFIC_SILO" by blast
  show ?thesis using index_settings_settled [OF d] d s by simp
qed

subsection \<open>Statistics across a restart\<close>

definition stats_ok :: "destor \<Rightarrow> bool" where
  "stats_ok d \<longleftrightarrow> list_all in64
     [ds_chunk_num d, ds_stored_chunk_num d, ds_data_size d, ds_stored_data_size d, ds_zero_chunk_num d,
      ds_zero_chunk_size d, ds_rewritten_chunk_num d, ds_rewritten_chunk_size d]
     \<and> list_all in32 [ds_index_memory_footprint d, ds_live_container_num d]"

definition same_settings :: "destor \<Rightarrow> destor \<Rightarrow> bool" where
  "same_settings d c \<longleftrightarrow> clear_stat d = clear_stat c"

lemma level_ok: "check_simulation_level l l = Inr ()"
  by (simp add: check_simulation_level_def SIMULATION_RESTORE_def SIMULATION_APPEND_def)

lemma write_stat_bytes:
  "write_stat be d = host_bytes be 8 (i64 (ds_chunk_num d)) @ host_bytes be 8 (i64 (ds_stored_chunk_num d))
     @ host_bytes be 8 (i64 (ds_data_size d)) @ host_bytes be 8 (i64 (ds_stored_data_size d))
     @ host_bytes be 8 (i64 (ds_zero_chunk_num d)) @ host_bytes be 8 (i64 (ds_zero_chunk_size d))
     @ host_bytes be 8 (i64 (ds_rewritten_chunk_num d)) @ host_bytes be 8 (i64 (ds_rewritten_chunk_size d))
     @ host_bytes be 4 (i32 (ds_index_memory_footprint d)) @ host_bytes be 4 (i32 (ds_live_container_num d))
     @ host_bytes be 4 (i32 (ds_backup_retention_time d)) @ host_bytes be 4 (i32 (ds_simulation_level d))"
proof -
  have a: "appending \<lparr>st_file = [], st_pos = 0, st_writable = True\<rparr>" by (simp add: appending_def)
  have f: "st_file (fold fwrite bss s) = st_file s @ concat bss" if "appending s" for bss s
    using that
  proof (induction bss arbitrary: s)
    case (Cons bs bss)
    then show ?case using fwrite_append [of s bs] by simp
  qed simp
  show ?thesis unfolding write_stat_def f [OF a] by simp
qed

lemma read_item64:
  assumes "srest s = concat (drop k items)" and "swf s" and "k < length items" and "items ! k = host_bytes be 8 (i64 i)" and "in64 i"
  shows "\<exists>s'. fread_int64 be old s = (i, s') \<and> srest s' = concat (drop (Suc k) items) \<and> swf s'"
  using fread_int64_rest [of s be i "concat (drop (Suc k) items)" old] assms Cons_nth_drop_Suc [OF assms(3)] by (metis concat.simps(2))

lemma read_item32:
  assumes "srest s = concat (drop k items)" and "swf s" and "k < length items" and "items ! k = host_bytes be 4 (i32 i)" and "in32 i"
  shows "\<exists>s'. fread_int32 be old s = (i, s') \<and> srest s' = concat (drop (Suc k) items) \<and> swf s'"
  using fread_int32_rest [of s be i "concat (drop (Suc k) items)" old] assms Cons_nth_drop_Suc [OF assms(3)] by (metis concat.simps(2))

definition with_stats :: "destor \<Rightarrow> destor \<Rightarrow> destor" where   \<comment> \<open>the settings of \<open>c\<close> with the statistics of \<open>d\<close>\<close>
  "with_stats d c = c\<lparr>ds_chunk_num := ds_chunk_num d, ds_stored_chunk_num := ds_stored_chunk_num d, ds_data_size := ds_data_size d,
      ds_stored_data_size := ds_stored_data_size d, ds_zero_chunk_num := ds_zero_chunk_num d, ds_zero_chunk_size := ds_zero_chunk_size d,
      ds_rewritten_chunk_num := ds_rewritten_chunk_num d, ds_rewritten_chunk_size := ds_rewritten_chunk_size d,
      ds_index_memory_footprint := ds_index_memory_footprint d, ds_live_container_num := ds_live_container_num d\<rparr>"

lemma read_stat_written:
  assumes "stats_ok d" and "in32 (ds_backup_retention_time d)" and "in32 (ds_simulation_level d)"
  shows "read_stat be junk (write_stat be d) c =
    rbind (c_assert (ds_backup_retention_time d = ds_backup_retention_time c)) (\<lambda>_.
    rbind (check_simulation_level (ds_simulation_level d) (ds_simulation_level c)) (\<lambda>_. Inr (with_stats d c)))"
proof -
  let ?s = "\<lparr>st_file = write_stat be d, st_pos = 0, st_writable = False\<rparr>"
  define items where "items =
    [host_bytes be 8 (i64 (ds_chunk_num d)), host_bytes be 8 (i64 (ds_stored_chunk_num d)), host_bytes be 8 (i64 (ds_data_size d)),
     host_bytes be 8 (i64 (ds_stored_data_size d)), host_bytes be 8 (i64 (ds_zero_chunk_num d)), host_bytes be 8 (i64 (ds_zero_chunk_size d)),
     host_bytes be 8 (i64 (ds_rewritten_chunk_num d)), host_bytes be 8 (i64 (ds_rewritten_chunk_size d)),
     host_bytes be 4 (i32 (ds_index_memory_footprint d)), host_bytes be 4 (i32 (ds_live_container_num d)),
     host_bytes be 4 (i32 (ds_backup_retention_time d)), host_bytes be 4 (i32 (ds_simulation_level d))]"
  have n: "k < length items" if "k < 12" for k using that by (simp add: items_def)
  have w: "srest ?s = concat (drop 0 items)" "swf ?s" by (simp_all add: swf_def srest_def items_def write_stat_bytes)
  have i: "in64 (ds_chunk_num d)" "in64 (ds_stored_chunk_num d)" "in64 (ds_data_size d)" "in64 (ds_stored_data_size d)"
    "in64 (ds_zero_chunk_num d)" "in64 (ds_zero_chunk_size d)" "in64 (ds_rewritten_chunk_num d)" "in64 (ds_rewritten_chunk_size d)"
    "in32 (ds_index_memory_footprint d)" "in32 (ds_live_container_num d)" using assms(1) by (simp_all add: stats_ok_def)
  obtain s1 where s1: "fread_int64 be (ds_chunk_num c) ?s = (ds_chunk_num d, s1)"
    and w1: "srest s1 = concat (drop (Suc 0) items)" "swf s1"
    using read_item64 [OF w n _ i(1), of be "ds_chunk_num c"] by (auto simp: items_def)
  obtain s2 where s2: "fread_int64 be (ds_stored_chunk_num c) s1 = (ds_stored_chunk_num d, s2)"
    and w2: "srest s2 = concat (drop (Suc 1) items)" "swf s2"
    using read_item64 [OF w1 n _ i(2), of be "ds_stored_chunk_num c"] by (auto simp: items_def)
  obtain s3 where s3: "fread_int64 be (ds_data_size c) s2 = (ds_data_size d, s3)"
    and w3: "srest s3 = concat (drop (Suc 2) items)" "swf s3"
    using read_item64 [OF w2 n _ i(3), of be "ds_data_size c"] by (auto simp: items_def)
  obtain s4 where s4: "fread_int64 be (ds_stored_data_size c) s3 = (ds_stored_data_size d, s4)"
    and w4: "srest s4 = concat (drop (Suc 3) items)" "swf s4"
    using read_item64 [OF w3 n _ i(4), of be "ds_stored_data_size c"] by (auto simp: items_def)
  obtain s5 where s5: "fread_int64 be (ds_zero_chunk_num c) s4 = (ds_zero_chunk_num d, s5)"
    and w5: "srest s5 = concat (drop (Suc 4) items)" "swf s5"
    using read_item64 [OF w4 n _ i(5), of be "ds_zero_chunk_num c"] by (auto simp: items_def)
  obtain s6 where s6: "fread_int64 be (ds_zero_chunk_size c) s5 = (ds_zero_chunk_size d, s6)"
    and w6: "srest s6 = concat (drop (Suc 5) items)" "swf s6"
    using read_item64 [OF w5 n _ i(6), of be "ds_zero_chunk_size c"] by (auto simp: items_def)
  obtain s7 where s7: "fread_int64 be (ds_rewritten_chunk_num c) s6 = (ds_rewritten_chunk_num d, s7)"
    and w7: "srest s7 = concat (drop (Suc 6) items)" "swf s7"
    using read_item64 [OF w6 n _ i(7), of be "ds_rewritten_chunk_num c"] by (auto simp: items_def)
  obtain s8 where s8: "fread_int64 be (ds_rewritten_chunk_size c) s7 = (ds_rewritten_chunk_size d, s8)"
    and w8: "srest s8 = concat (drop (Suc 7) items)" "swf s8"
    using read_item64 [OF w7 n _ i(8), of be "ds_rewritten_chunk_size c"] by (auto simp: items_def)
  obtain s9 where s9: "fread_int32 be (ds_index_memory_footprint c) s8 = (ds_index_memory_footprint d, s9)"
    and w9: "srest s9 = concat (drop (Suc 8) items)" "swf s9"
    using read_item32 [OF w8 n _ i(9), of be "ds_index_memory_footprint c"] by (auto simp: items_def)
  obtain s10 where s10: "fread_int32 be (ds_live_container_num c) s9 = (ds_live_container_num d, s10)"
    and w10: "srest s10 = concat (drop (Suc 9) items)" "swf s10"
    using read_item32 [OF w9 n _ i(10), of be "ds_live_container_num c"] by (auto simp: items_def)
  obtain s11 where s11: "fread_int32 be (fst junk) s10 = (ds_backup_retention_time d, s11)"
    and w11: "srest s11 = concat (drop (Suc 10) items)" "swf s11"
    using read_item32 [OF w10 n _ assms(2), of be "fst junk"] by (auto simp: items_def)
  obtain s12 where s12: "fread_int32 be (snd junk) s11 = (ds_simulation_level d, s12)"
    and w12: "srest s12 = concat (drop (Suc 11) items)" "swf s12"
    using read_item32 [OF w11 n _ assms(3), of be "snd junk"] by (auto simp: items_def)
  note reads = s1 s2 s3 s4 s5 s6 s7 s8 s9 s10 s11 s12
  show ?thesis unfolding read_stat_def Let_def reads prod.case by (simp add: with_stats_def)
qed

lemma read_write_stat:
  assumes "stats_ok d" and "in32 (ds_backup_retention_time d)" and "in32 (ds_simulation_level d)" and "same_settings d c"
  shows "read_stat be junk (write_stat be d) c = Inr d"
proof -
  have set: "ds_backup_retention_time c = ds_backup_retention_time d" "ds_simulation_level c = ds_simulation_level d"
    using assms(4) unfolding same_settings_def clear_stat_def by (cases c; cases d; simp)+
  have "with_stats d c = d"
    using assms(4) unfolding same_settings_def clear_stat_def with_stats_def by (cases c; cases d) simp
  then show ?thesis by (simp add: read_stat_written [OF assms(1-3)] set level_ok)
qed

lemma stat_path_ok:
  assumes "cfg_typed n d" and "n + 12 \<le> sds_limit"
  shows "stat_path g (ds_working_directory d) = Inr (sds_str (ds_working_directory d) @ lit ''/destor.stat'')"
proof -
  let ?w = "sds_str (ds_working_directory d)"
  have w: "sds_rep (ds_working_directory d) ?w" "0 \<notin> set ?w" "length ?w \<le> n"
    using assms(1) by (simp_all add: cfg_typed_def dir_ok_def sds_rep_def Let_def)
  have l: "0 \<notin> set (lit ''/destor.stat'')" "length (lit ''/destor.stat'') = 12" by (simp_all add: lit_def)
  have "sds_rep (sds_of ?w) ?w" using w(3) assms(2) by (intro sds_of_rep) (simp add: sds_limit_def)
  then obtain p where p: "sdscat g (sds_of ?w) (lit ''/destor.stat'' @ [0]) = Inr p" "sds_rep p (?w @ lit ''/destor.stat'')"
    using sdscat_ok [of "sds_of ?w" ?w "lit ''/destor.stat''" g "[]"] l w(3) assms(2) by auto
  have "till_nul (sd_buf p) = ?w @ lit ''/destor.stat''" using w(2) l(1) by (intro till_nul_rep [OF p(2)]) simp
  then show ?thesis using p(1) by (simp add: stat_path_def sdsdup_ok [OF w(1)] c_str_def)
qed

lemma typed_numbers: "cfg_typed n c \<Longrightarrow> in32 (ds_backup_retention_time c) \<and> in32 (ds_simulation_level c)"
proof -
  assume c: "cfg_typed n c"
  then have "in32 (ds_backup_retention_time c)" by (simp add: cfg_typed_def ints_ok_def)
  moreover have "ds_simulation_level c \<in> {0, 1, 2, 3}"
    using c by (simp add: cfg_typed_def enums_ok_def SIMULATION_NO_def SIMULATION_RESTORE_def SIMULATION_APPEND_def SIMULATION_ALL_def)
  ultimately show ?thesis by (auto simp: in32_def)
qed

text \<open>C13: the statistics survive a restart. What \<open>destor_shutdown\<close> writes to \<open>destor.stat\<close> is what the
  next \<open>destor_start\<close> with the same configuration file loads, counters of 64 and 32 bits in either
  byte order; its check of the retention time holds and the simulation level does not conflict.\<close>

theorem restart_keeps_statistics:
  assumes "load_config atof g conf (destor_defaults (sds_of (lit ''/home/data/working/''))) = Inr c"
    and "19 \<le> n" and "n + 12 \<le> sds_limit" and "\<forall>s. conf = Some s \<longrightarrow> length s + 1 \<le> n"
    and "same_settings d c" and "stats_ok d" and "can_open (sds_str (ds_working_directory d) @ lit ''/destor.stat'')"
  shows "\<exists>files'. destor_shutdown g be can_open d files = Inr files' \<and> destor_start atof g be junk conf files' = Inr d"
proof -
  have c: "cfg_typed n c"
    using load_config_typed_safe [OF defaults_typed [OF assms(2)], of conf atof g] assms(1,3,4) by (simp add: safe_def)
  have s: "ds_working_directory d = ds_working_directory c" "ds_simulation_level d = ds_simulation_level c"
    "ds_backup_retention_time d = ds_backup_retention_time c"
    using assms(5) unfolding same_settings_def clear_stat_def by (cases c; cases d; simp)+
  have p: "stat_path g (ds_working_directory c) = Inr (sds_str (ds_working_directory c) @ lit ''/destor.stat'')"
    by (rule stat_path_ok [OF c assms(3)])
  have "in32 (ds_backup_retention_time d)" "in32 (ds_simulation_level d)"
    using typed_numbers [OF c] s by simp_all
  then have r: "read_stat be junk (write_stat be d) c = Inr d" using assms(5,6) by (intro read_write_stat) auto
  show ?thesis using assms(7)
    by (simp add: destor_shutdown_def destor_start_def default_directory assms(1) s(1) p r)
qed

lemma restart_keeps_statistics_witness:
  "\<exists>files'. destor_shutdown (\<lambda>i. 0) True (\<lambda>p. True) (destor_defaults (sds_of (lit ''/home/data/working/''))\<lparr>ds_chunk_num := 7\<rparr>) (\<lambda>p. None) = Inr files'
     \<and> destor_start (\<lambda>t. 0) (\<lambda>i. 0) True (0, 0) None files' = Inr (destor_defaults (sds_of (lit ''/home/data/working/''))\<lparr>ds_chunk_num := 7\<rparr>)"
proof -
  obtain e where e: "sdsempty = Inr e" using sdsempty_ok by blast
  show ?thesis
    by (rule restart_keeps_statistics [where n = 100 and c = "destor_defaults (sds_of (lit ''/home/data/working/''))"])
       (simp_all add: load_config_def e sds_limit_def same_settings_def clear_stat_def stats_ok_def destor_defaults_def in64_def in32_def)
qed

text \<open>C14: a start under other settings is refused. When the retention time in the configuration is not the
  one \<open>destor.stat\<close> was written under, the assertion of \<open>destor_start\<close> fails; when one of the two
  simulation levels stores chunk data and the other does not, the program exits.\<close>

theorem restart_refused:
  assumes "load_config atof g conf (destor_defaults (sds_of (lit ''/home/data/working/''))) = Inr c"
    and "19 \<le> n" and "n + 12 \<le> sds_limit" and "\<forall>s. conf = Some s \<longrightarrow> length s + 1 \<le> n"
    and "cfg_typed n d" and "stats_ok d"
    and "files (sds_str (ds_working_directory c) @ lit ''/destor.stat'') = Some (write_stat be d)"
  shows "destor_start atof g be junk conf files =
    (if ds_backup_retention_time d \<noteq> ds_backup_retention_time c then Inl AssertFailed
     else if (ds_simulation_level d \<le> SIMULATION_RESTORE) \<noteq> (ds_simulation_level c \<le> SIMULATION_RESTORE) then Inl ExitFailure
     else Inr (with_stats d c))"
proof -
  have c: "cfg_typed n c"
    using load_config_typed_safe [OF defaults_typed [OF assms(2)], of conf atof g] assms(1,3,4) by (simp add: safe_def)
  have p: "stat_path g (ds_working_directory c) = Inr (sds_str (ds_working_directory c) @ lit ''/destor.stat'')"
    by (rule stat_path_ok [OF c assms(3)])
  have "check_simulation_level (ds_simulation_level d) (ds_simulation_level c) =
    (if (ds_simulation_level d \<le> SIMULATION_RESTORE) \<noteq> (ds_simulation_level c \<le> SIMULATION_RESTORE) then Inl ExitFailure else Inr ())"
    by (auto simp: check_simulation_level_def SIMULATION_RESTORE_def SIMULATION_APPEND_def)
  then show ?thesis
    using read_stat_written [OF assms(6) conjunct1 [OF typed_numbers [OF assms(5)]] conjunct2 [OF typed_numbers [OF assms(5)]], of be junk c]
    by (simp add: destor_start_def default_directory assms(1,7) p rbind_assert)
qed

lemma restart_refused_witness:
  "destor_start (\<lambda>t. 0) (\<lambda>i. 0) False (0, 0) None
     (\<lambda>p. Some (write_stat False (destor_defaults (sds_of (lit ''/home/data/working/''))\<lparr>ds_backup_retention_time := 5\<rparr>))) = Inl AssertFailed"
proof -
  let ?c = "destor_defaults (sds_of (lit ''/home/data/working/''))"
  let ?d = "?c\<lparr>ds_backup_retention_time := 5\<rparr>"
  obtain e where e: "sdsempty = Inr e" using sdsempty_ok by blast
  have l: "load_config (\<lambda>t. 0) (\<lambda>i. 0) None ?c = Inr ?c" by (simp add: load_config_def e)
  have d: "cfg_typed 100 ?d" using defaults_typed [of 100] by (simp add: cfg_typed_def dir_ok_def enums_ok_def ints_ok_def in32_def)
  have s: "stats_ok ?d" by (simp add: stats_ok_def destor_defaults_def in64_def in32_def)
  show ?thesis
    using restart_refused [where files = "\<lambda>p. Some (write_stat False ?d)" and junk = "(0, 0)", OF l _ _ _ d s refl]
    by (simp add: sds_limit_def destor_defaults_def)
qed

end
