(* ===== verification/Trace_Phase.thy ===== *)
theory Trace_Phase
  imports Hash_Phase Sds_Laws Har
begin

text \<open>
  \<open>trace_phase.c\<close>: \<open>make_trace\<close> writes a hashed stream to a text file, \<open>read_trace_thread\<close> turns such a
  file back into a stream without data.

  The file is a byte list. The line buffer keeps what a shorter line or the end of the file leaves in
  it, as the array of the code does, and its first content is the argument \<open>line\<close>; \<open>junk\<close> is what
  \<open>filenamelen\<close> holds before \<open>sscanf\<close>. A file without its last line keeps the reader in its loop:
  it is a partial function, and \<open>None\<close> is that it does not return.
\<close>

subsection \<open>Writing a trace\<close>

text \<open>The name of the trace file: the path without its trailing slashes, with a suffix. A path of slashes
  only takes the pointer below the string.\<close>

function strip_slashes :: "byte list \<Rightarrow> int \<Rightarrow> int res" where
  "strip_slashes s p =
     (if p < 0 \<or> nat p \<ge> length s then Inl OutOfBounds
      else if s ! nat p = 47 then strip_slashes s (p - 1) else Inr p)"
  by pat_completeness auto
termination by (relation "measure (\<lambda>(s, p). nat (p + 1))") auto

declare strip_slashes.simps [simp del]

definition trace_path :: "(nat \<Rightarrow> byte) \<Rightarrow> byte list \<Rightarrow> sds res" where
  "trace_path g path =
     rbind (sdsnew (Some path)) (\<lambda>s.
     rbind (strip_slashes (sd_buf s) (int (sdslen s) - 1)) (\<lambda>p.
     rbind (put (nat (p + 1)) [0] (sd_buf s)) (\<lambda>buf.
     rbind (sdsupdatelen (s\<lparr>sd_buf := buf\<rparr>)) (\<lambda>s. sdscat g s (c_str (lit ''.trace''))))))"

definition trace_line :: "chunk \<Rightarrow> byte list res" where
  "trace_line c =
     (if CHECK_CHUNK c CHUNK_FILE_START then
        rbind (c_strlen (ck_data c)) (\<lambda>n.
          Inr (lit ''file start '' @ dec (int n) @ [10] @ take n (ck_data c) @ [10]))
      else if CHECK_CHUNK c CHUNK_FILE_END then Inr (lit ''file end'' @ [10])
      else Inr (hash2code (ck_fp c) @ [32] @ dec (ck_size c) @ [10]))"

definition trace_lines :: "chunk list \<Rightarrow> byte list res" where
  "trace_lines cs = rfold (\<lambda>c out. rbind (trace_line c) (\<lambda>l. Inr (out @ l))) cs []"

definition make_trace ::
  "(nat \<Rightarrow> byte) \<Rightarrow> (byte list \<Rightarrow> bool) \<Rightarrow> byte list \<Rightarrow> chunk list \<Rightarrow> (byte list \<times> byte list) res" where
  "make_trace g can_open path cs =
     rbind (trace_path g path) (\<lambda>p.
       let p = till_nul (sd_buf p) in
       if can_open p then rbind (trace_lines cs) (\<lambda>out. Inr (p, out @ lit ''stream end'')) else Inl NullDeref)"

subsection \<open>Reading a trace\<close>

definition fgets_line :: "byte list \<Rightarrow> byte list \<Rightarrow> byte list \<times> byte list" where   \<comment> \<open>\<open>fgets(line, 128, trace_file)\<close>\<close>
  "fgets_line line s =
     (if s = [] then (line, s)
      else let (b, s) = fgets 128 s in (b @ [0] @ drop (length b + 1) line, s))"

definition trace_chunk :: "byte list \<Rightarrow> chunk" where
  "trace_chunk line =
     (let code = take 40 (till_nul line) in
      (new_chunk 0)\<lparr>ck_fp := code2hash (code @ replicate (40 - length code) 0),
                    ck_size := int32 (atoi (till_nul (drop 41 line)))\<rparr>)"

partial_function (option) read_chunks ::
  "byte list \<Rightarrow> byte list \<Rightarrow> chunk list \<Rightarrow> (byte list \<times> byte list \<times> chunk list) option" where
  "read_chunks line s out =
     (if take 8 line = lit ''file end'' then Some (line, s, out)
      else let (line', s') = fgets_line line s in read_chunks line' s' (out @ [trace_chunk line]))"

definition name_chunk :: "int \<Rightarrow> byte list \<Rightarrow> (chunk \<times> byte list) res" where
  "name_chunk n s =
     (if n < 0 then Inl OutOfBounds
      else
        let (b, s') = fgets (nat n + 2) s in
        rbind (poke (nat n + 2) (nat n) [0] (if s = [] then [] else b @ [0])) (\<lambda>d.
          Inr (SET_CHUNK ((new_chunk (n + 2))\<lparr>ck_data := d\<rparr>) CHUNK_FILE_START, s')))"

partial_function (option) read_trace ::
  "int \<Rightarrow> byte list \<Rightarrow> byte list \<Rightarrow> chunk list \<Rightarrow> chunk list res option" where
  "read_trace junk line s out =
     (case fgets_line line s of (line, s) \<Rightarrow>
       if till_nul line = lit ''stream end'' then Some (Inr out)
       else if take 11 line \<noteq> lit ''file start '' then Some (Inl AssertFailed)
       else
         case name_chunk (case scan_int (till_nul (drop 11 line)) of None \<Rightarrow> junk | Some (i, _) \<Rightarrow> int32 i) s of
           Inl e \<Rightarrow> Some (Inl e)
         | Inr (c, s) \<Rightarrow>
             (case fgets_line line s of (line, s) \<Rightarrow>
               case read_chunks line s (out @ [c]) of
                 None \<Rightarrow> None
               | Some (line, s, out) \<Rightarrow>
                   read_trace junk line s (out @ [SET_CHUNK (new_chunk 0) CHUNK_FILE_END])))"

definition read_trace_thread :: "int \<Rightarrow> byte list \<Rightarrow> byte list \<Rightarrow> chunk list res option" where
  "read_trace_thread junk line s = read_trace junk line s []"

subsection \<open>A trace replays the stream\<close>

text \<open>What the reader makes of a chunk: the mark of a file with its name, a chunk with its fingerprint and
  size but no data.\<close>

definition replay :: "chunk \<Rightarrow> chunk" where
  "replay c =
     (if CHECK_CHUNK c CHUNK_FILE_START then
        let n = length (till_nul (ck_data c))
        in SET_CHUNK ((new_chunk (int n + 2))\<lparr>ck_data := till_nul (ck_data c) @ [0, 0]\<rparr>) CHUNK_FILE_START
      else if CHECK_CHUNK c CHUNK_FILE_END then SET_CHUNK (new_chunk 0) CHUNK_FILE_END
      else (new_chunk 0)\<lparr>ck_fp := ck_fp c, ck_size := ck_size c\<rparr>)"

fun traceable :: "bool \<Rightarrow> chunk list \<Rightarrow> bool" where   \<comment> \<open>files one after the other; \<open>inside\<close> one of them\<close>
  "traceable inside [] \<longleftrightarrow> \<not> inside"
| "traceable inside (c # cs) \<longleftrightarrow>
     (if CHECK_CHUNK c CHUNK_FILE_START then
        \<not> inside \<and> 0 \<in> set (ck_data c) \<and> 10 \<notin> set (till_nul (ck_data c)) \<and> length (till_nul (ck_data c)) < 2 ^ 31 - 2
        \<and> traceable True cs
      else if CHECK_CHUNK c CHUNK_FILE_END then inside \<and> traceable False cs
      else inside \<and> length (ck_fp c) = 20 \<and> in32 (ck_size c) \<and> traceable True cs)"

definition line_ok :: "byte list \<Rightarrow> bool" where
  "line_ok l \<longleftrightarrow> length l < 126 \<and> 0 \<notin> set l \<and> 10 \<notin> set l"

lemma fgets_line_ok:
  assumes "line_ok l"
  shows "\<exists>r. fgets_line line (l @ 10 # s) = (l @ [10, 0] @ r, s)"
proof -
  have t: "takeWhile (\<lambda>b. b \<noteq> 10) (l @ 10 # s) = l" using assms by (subst takeWhile_append2) (auto simp: line_ok_def)
  have "fgets 128 (l @ 10 # s) = (l @ [10], s)" using assms by (simp add: fgets_def t Let_def line_ok_def min_def)
  then show ?thesis by (simp add: fgets_line_def)
qed

lemma fgets_end: "\<exists>r. fgets_line line (lit ''stream end'') = (lit ''stream end'' @ 0 # r, [])"
proof -
  have t: "takeWhile (\<lambda>b. b \<noteq> 10) (lit ''stream end'') = lit ''stream end''" by (simp add: lit_def)
  have "length (lit ''stream end'') = 10" "lit ''stream end'' \<noteq> []" by (simp_all add: lit_def)
  then have "fgets 128 (lit ''stream end'') = (lit ''stream end'', [])" by (simp add: fgets_def t Let_def)
  then show ?thesis using \<open>lit ''stream end'' \<noteq> []\<close> by (simp add: fgets_line_def)
qed

definition tline :: "chunk \<Rightarrow> byte list" where
  "tline c =
     (if CHECK_CHUNK c CHUNK_FILE_START then
        lit ''file start '' @ dec (int (length (till_nul (ck_data c)))) @ [10] @ till_nul (ck_data c) @ [10]
      else if CHECK_CHUNK c CHUNK_FILE_END then lit ''file end'' @ [10]
      else hash2code (ck_fp c) @ [32] @ dec (ck_size c) @ [10])"

lemma trace_lines_ok: "traceable inside cs \<Longrightarrow> trace_lines cs = Inr (concat (map tline cs))"
proof -
  have l: "trace_line c = Inr (tline c)" if "CHECK_CHUNK c CHUNK_FILE_START \<Longrightarrow> 0 \<in> set (ck_data c)" for c
  proof -
    have "take (length (till_nul (ck_data c))) (ck_data c) = till_nul (ck_data c)"
      unfolding till_nul_def by (metis append_eq_conv_conj takeWhile_dropWhile_id)
    then show ?thesis using that by (simp add: trace_line_def tline_def c_strlen_def flip: till_nul_def)
  qed
  have "rfold (\<lambda>c out. rbind (trace_line c) (\<lambda>l. Inr (out @ l))) cs out = Inr (out @ concat (map tline cs))"
    if "traceable inside cs" for out
    using that
  proof (induction inside cs arbitrary: out rule: traceable.induct)
    case (2 inside c cs)
    have "trace_line c = Inr (tline c)" using 2(4) by (intro l) (auto split: if_splits)
    then show ?case using 2 by (auto split: if_splits)
  qed simp
  then show "traceable inside cs \<Longrightarrow> trace_lines cs = Inr (concat (map tline cs))" by (simp add: trace_lines_def)
qed

lemma traceable_split:
  "traceable True cs \<Longrightarrow> \<exists>ns e rest. cs = ns @ e # rest \<and> \<not> CHECK_CHUNK e CHUNK_FILE_START \<and> CHECK_CHUNK e CHUNK_FILE_END
     \<and> (\<forall>c\<in>set ns. \<not> CHECK_CHUNK c CHUNK_FILE_START \<and> \<not> CHECK_CHUNK c CHUNK_FILE_END \<and> length (ck_fp c) = 20 \<and> in32 (ck_size c))
     \<and> traceable False rest"
proof (induction cs)
  case (Cons c cs)
  show ?case
  proof (cases "CHECK_CHUNK c CHUNK_FILE_END")
    case True
    then show ?thesis using Cons.prems by (intro exI [of _ "[]"] exI [of _ c] exI [of _ cs]) (auto split: if_splits)
  next
    case False
    then obtain ns e rest where "cs = ns @ e # rest" "\<not> CHECK_CHUNK e CHUNK_FILE_START" "CHECK_CHUNK e CHUNK_FILE_END"
      "\<forall>c\<in>set ns. \<not> CHECK_CHUNK c CHUNK_FILE_START \<and> \<not> CHECK_CHUNK c CHUNK_FILE_END \<and> length (ck_fp c) = 20 \<and> in32 (ck_size c)"
      "traceable False rest" using Cons by (auto split: if_splits)
    then show ?thesis using False Cons.prems by (intro exI [of _ "c # ns"] exI [of _ e] exI [of _ rest]) (auto split: if_splits)
  qed
qed simp

lemma code_char_ok: "b < 16 \<Longrightarrow> code_char b \<noteq> 0 \<and> code_char b \<noteq> 10 \<and> code_char b \<noteq> 102"
proof -
  have "list_all (\<lambda>b. code_char b \<noteq> 0 \<and> code_char b \<noteq> 10 \<and> code_char b \<noteq> 102) [0..<16]"
    by (simp add: upt_rec code_char_def)
  then show "b < 16 \<Longrightarrow> code_char b \<noteq> 0 \<and> code_char b \<noteq> 10 \<and> code_char b \<noteq> 102" by (simp add: list_all_iff)
qed

lemma nibble_less: "unat (a :: byte) div 16 < 16"
proof -
  have "unat a < 2 ^ LENGTH(8)" by (rule unsigned_less)
  then show ?thesis by simp
qed

lemma code_ok: "length (hash2code fp) = 40" "c \<in> set (hash2code fp) \<Longrightarrow> c \<noteq> 0 \<and> c \<noteq> 10 \<and> c \<noteq> 102"
proof -
  show "length (hash2code fp) = 40" by (simp add: hash2code_def Let_def length_concat comp_def sum_list_triv)
  show "c \<in> set (hash2code fp) \<Longrightarrow> c \<noteq> 0 \<and> c \<noteq> 10 \<and> c \<noteq> 102"
    using code_char_ok [OF nibble_less] by (auto simp: hash2code_def Let_def)
qed

lemma dec_chars: "b \<in> set (dec i) \<Longrightarrow> b \<noteq> 0 \<and> b \<noteq> 10"
proof -
  have d: "b \<noteq> 0 \<and> b \<noteq> 10" if "b \<in> set (dec_nat n)" for b n
    using dec_nat_digits [of n] that by (auto simp: is_digit_def word_le_nat_alt)
  then show "b \<in> set (dec i) \<Longrightarrow> b \<noteq> 0 \<and> b \<noteq> 10" by (auto simp: dec_def split: if_splits)
qed

lemma till_nul_append: "0 \<notin> set xs \<Longrightarrow> till_nul (xs @ 0 # ys) = xs"
  unfolding till_nul_def by (subst takeWhile_append2) auto

lemma in32_length: "in32 i \<Longrightarrow> length (dec i) \<le> 20"
  using length_dec [of i] in32_in64 by blast

lemma chunk_line:
  assumes "length fp = 20" and "in32 sz"
  shows "line_ok (hash2code fp @ [32] @ dec sz)"
    and "take 8 (hash2code fp @ [32] @ dec sz @ r) \<noteq> lit ''file end''"
    and "trace_chunk (hash2code fp @ [32] @ dec sz @ [10, 0] @ r) = (new_chunk 0)\<lparr>ck_fp := fp, ck_size := sz\<rparr>"
proof -
  show "line_ok (hash2code fp @ [32] @ dec sz)"
    using code_ok(1) [of fp] code_ok(2) [of _ fp] dec_chars [of _ sz] in32_length [OF assms(2)] by (auto simp: line_ok_def)
  have "hd (hash2code fp) \<noteq> 102" using code_ok(1) [of fp] code_ok(2) [of "hd (hash2code fp)" fp] by (cases "hash2code fp") auto
  then show "take 8 (hash2code fp @ [32] @ dec sz @ r) \<noteq> lit ''file end''"
    using code_ok(1) [of fp] by (cases "hash2code fp") (auto simp: lit_def)
  have n: "0 \<notin> set (hash2code fp @ [32] @ dec sz @ [10])" "0 \<notin> set (dec sz @ [10])"
    using code_ok(2) [of 0 fp] dec_chars [of 0 sz] by auto
  have t1: "till_nul (hash2code fp @ 32 # dec sz @ 10 # 0 # r) = hash2code fp @ 32 # dec sz @ [10]"
    using till_nul_append [OF n(1), of r] by simp
  have t2: "till_nul (dec sz @ 10 # 0 # r) = dec sz @ [10]" using till_nul_append [OF n(2), of r] by simp
  have "atoi (dec sz @ [10]) = sz" using scan_dec [of "[10]" sz] by (simp add: atoi_def is_digit_def)
  then show "trace_chunk (hash2code fp @ [32] @ dec sz @ [10, 0] @ r) = (new_chunk 0)\<lparr>ck_fp := fp, ck_size := sz\<rparr>"
    using code_ok(1) [of fp] assms code2hash_hash2code [OF assms(1)] by (simp add: trace_chunk_def t1 t2 int32_def)
qed

lemma read_chunks_ok:
  assumes "\<forall>c\<in>set ns. \<not> CHECK_CHUNK c CHUNK_FILE_START \<and> \<not> CHECK_CHUNK c CHUNK_FILE_END \<and> length (ck_fp c) = 20 \<and> in32 (ck_size c)"
    and "fgets_line line (concat (map tline ns) @ lit ''file end'' @ 10 # s) = (line', s')"
  shows "\<exists>line''. read_chunks line' s' out = Some (line'', s, out @ map replay ns)"
  using assms
proof (induction ns arbitrary: line line' s' out)
  case Nil
  have "line_ok (lit ''file end'')" by (simp add: line_ok_def lit_def)
  then obtain r where "fgets_line line (lit ''file end'' @ 10 # s) = (lit ''file end'' @ [10, 0] @ r, s)" using fgets_line_ok by blast
  then have "line' = lit ''file end'' @ [10, 0] @ r" "s' = s" using Nil by auto
  moreover have "take 8 (lit ''file end'' @ [10, 0] @ r) = lit ''file end''" by (simp add: lit_def)
  ultimately show ?case by (subst read_chunks.simps) simp
next
  case (Cons c ns)
  have c: "length (ck_fp c) = 20" "in32 (ck_size c)" "\<not> CHECK_CHUNK c CHUNK_FILE_START" "\<not> CHECK_CHUNK c CHUNK_FILE_END" using Cons.prems by auto
  note l = chunk_line [OF c(1,2)]
  let ?rest = "concat (map tline ns) @ lit ''file end'' @ 10 # s"
  have tl: "tline c = (hash2code (ck_fp c) @ [32] @ dec (ck_size c)) @ [10]" using c by (simp add: tline_def)
  obtain r where "fgets_line line ((hash2code (ck_fp c) @ [32] @ dec (ck_size c)) @ 10 # ?rest) =
    ((hash2code (ck_fp c) @ [32] @ dec (ck_size c)) @ [10, 0] @ r, ?rest)" using fgets_line_ok [OF l(1)] by blast
  then have e: "line' = hash2code (ck_fp c) @ [32] @ dec (ck_size c) @ [10, 0] @ r" "s' = ?rest" using Cons.prems(2) tl by auto
  have rp: "trace_chunk line' = replay c" using l(3) [of r] c e(1) by (simp add: replay_def)
  obtain line2 s2 where f: "fgets_line line' ?rest = (line2, s2)" by fastforce
  obtain line3 where "read_chunks line2 s2 (out @ [replay c]) = Some (line3, s, (out @ [replay c]) @ map replay ns)"
    using Cons.IH [OF _ f] Cons.prems(1) by fastforce
  moreover have "take 8 line' \<noteq> lit ''file end''" using l(2) [of "[10, 0] @ r"] e(1) by simp
  ultimately show ?case using f e(2) rp by (subst read_chunks.simps) simp
qed

lemma name_chunk_ok:
  assumes "10 \<notin> set name" and "0 \<notin> set name"
  shows "name_chunk (int (length name)) (name @ 10 # s) =
    Inr (SET_CHUNK ((new_chunk (int (length name) + 2))\<lparr>ck_data := name @ [0, 0]\<rparr>) CHUNK_FILE_START, s)"
proof -
  have t: "takeWhile (\<lambda>b. b \<noteq> 10) (name @ 10 # s) = name" using assms by (subst takeWhile_append2) auto
  have "fgets (length name + 2) (name @ 10 # s) = (name @ [10], s)" by (simp add: fgets_def t Let_def)
  then show ?thesis by (simp add: name_chunk_def poke_def)
qed

lemma read_trace_ok:
  "traceable False cs \<Longrightarrow> read_trace junk line (concat (map tline cs) @ lit ''stream end'') out = Some (Inr (out @ map replay cs))"
proof (induction "length cs" arbitrary: cs line out rule: less_induct)
  case less
  show ?case
  proof (cases cs)
    case Nil
    obtain r where r: "fgets_line line (lit ''stream end'') = (lit ''stream end'' @ 0 # r, [])" using fgets_end by blast
    have "till_nul (lit ''stream end'' @ 0 # r) = lit ''stream end''" by (rule till_nul_append) (simp add: lit_def)
    then show ?thesis using Nil r by (subst read_trace.simps) simp
  next
    case (Cons c cs')
    define name where "name = till_nul (ck_data c)"
    have c: "CHECK_CHUNK c CHUNK_FILE_START" "10 \<notin> set name" "length name < 2 ^ 31 - 2" "traceable True cs'"
      using less.prems Cons by (auto simp: name_def split: if_splits)
    obtain ns e rest where s: "cs' = ns @ e # rest" "\<not> CHECK_CHUNK e CHUNK_FILE_START" "CHECK_CHUNK e CHUNK_FILE_END"
      "\<forall>c\<in>set ns. \<not> CHECK_CHUNK c CHUNK_FILE_START \<and> \<not> CHECK_CHUNK c CHUNK_FILE_END \<and> length (ck_fp c) = 20 \<and> in32 (ck_size c)"
      "traceable False rest" using traceable_split [OF c(4)] by blast
    have name0: "0 \<notin> set name" by (auto simp: name_def till_nul_def dest: set_takeWhileD)
    let ?l = "lit ''file start '' @ dec (int (length name))"
    let ?t2 = "concat (map tline rest) @ lit ''stream end''"
    let ?t1 = "concat (map tline ns) @ lit ''file end'' @ 10 # ?t2"
    have tx: "concat (map tline cs) @ lit ''stream end'' = ?l @ 10 # name @ 10 # ?t1"
      using c(1) s(2,3) unfolding Cons s(1) by (simp add: tline_def name_def)
    have i: "in32 (int (length name))" using c(3) by (simp add: in32_def)
    have "line_ok ?l" using dec_chars [of _ "int (length name)"] in32_length [OF i] by (auto simp: line_ok_def lit_def)
    then obtain r where f1: "fgets_line line (?l @ 10 # name @ 10 # ?t1) = (?l @ [10, 0] @ r, name @ 10 # ?t1)" using fgets_line_ok by blast
    have z: "0 \<notin> set (?l @ [10])" "0 \<notin> set (dec (int (length name)) @ [10])" using dec_chars [of 0 "int (length name)"] by (auto simp: lit_def)
    define line1 where "line1 = ?l @ [10, 0] @ r"
    have g1: "fgets_line line (concat (map tline cs) @ lit ''stream end'') = (line1, name @ 10 # ?t1)" unfolding tx line1_def by (rule f1)
    have k1: "till_nul (?l @ [10, 0] @ r) \<noteq> lit ''stream end''" using till_nul_append [OF z(1), of r] by (simp add: lit_def)
    have k2: "take 11 (?l @ [10, 0] @ r) = lit ''file start ''" by (simp add: lit_def)
    have k3: "scan_int (till_nul (drop 11 (?l @ [10, 0] @ r))) = Some (int (length name), [10])"
      using till_nul_append [OF z(2), of r] scan_dec [of "[10]" "int (length name)"] by (simp add: lit_def is_digit_def)
    note k = k1 [folded line1_def] k2 [folded line1_def] k3 [folded line1_def]
    obtain line2 s2 where f2: "fgets_line line1 ?t1 = (line2, s2)" by fastforce
    have st: "SET_CHUNK ((new_chunk (int (length name) + 2))\<lparr>ck_data := name @ [0, 0]\<rparr>) CHUNK_FILE_START = replay c"
      using c(1) by (simp add: replay_def name_def)
    obtain line3 where f3: "read_chunks line2 s2 (out @ [replay c]) = Some (line3, ?t2, (out @ [replay c]) @ map replay ns)"
      using read_chunks_ok [OF s(4) f2] by blast
    have "SET_CHUNK (new_chunk 0) CHUNK_FILE_END = replay e" using s(2,3) by (simp add: replay_def)
    moreover have "read_trace junk line3 ?t2 (((out @ [replay c]) @ map replay ns) @ [replay e]) =
      Some (Inr ((((out @ [replay c]) @ map replay ns) @ [replay e]) @ map replay rest))"
      using s(1,5) Cons by (intro less.hyps) auto
    moreover have "name_chunk (int32 (int (length name))) (name @ 10 # ?t1) = Inr (replay c, ?t1)"
      using name_chunk_ok [OF c(2) name0] i by (simp only: st int32_id)
    ultimately show ?thesis
      by (subst read_trace.simps) (simp only: g1 k f2 f3 prod.case option.case sum.case if_False simp_thms, simp add: Cons s(1))
  qed
qed

subsection \<open>The name of the trace file\<close>

lemma strip_ok:
  "x \<noteq> 47 \<Longrightarrow> strip_slashes (ys @ x # replicate k 47 @ zs) (int (length ys + k)) = Inr (int (length ys))"
proof (induction k arbitrary: zs)
  case 0
  then show ?case by (subst strip_slashes.simps) (simp add: nth_append)
next
  case (Suc k)
  have e: "ys @ x # replicate (Suc k) 47 @ zs = ys @ x # replicate k 47 @ 47 # zs" by (simp add: replicate_app_Cons_same)
  have "(ys @ x # replicate k 47 @ 47 # zs) ! (length ys + Suc k) = 47" by (simp add: nth_append)
  then show ?case using Suc.IH [OF Suc.prems, of "47 # zs"] unfolding e by (subst strip_slashes.simps) (simp add: nat_add_distrib)
qed

lemma trace_path_ok:
  assumes "path = ys @ x # replicate k 47" and "x \<noteq> 47" and "0 \<notin> set path" and "length path + 6 \<le> sds_limit"
  shows "\<exists>s. trace_path g (c_str path) = Inr s \<and> sds_rep s (ys @ [x] @ lit ''.trace'')"
proof -
  let ?buf = "ys @ x # replicate k 47 @ [0]"
  have n: "sdsnew (Some (c_str path)) = Inr (sds_of path)" by (rule sdsnew_ok [OF assms(3)])
  have rep: "sds_rep (sds_of path) path" using assms(4) by (intro sds_of_rep) (simp add: sds_limit_def)
  have b: "sd_buf (sds_of path) = ?buf" using assms(1) by (simp add: sds_of_def)
  have l: "int (sdslen (sds_of path)) - 1 = int (length ys + k)" using sds_rep_len [OF rep] assms(1) by simp
  have s: "strip_slashes ?buf (int (length ys + k)) = Inr (int (length ys))" by (rule strip_ok [OF assms(2)])
  define buf where "buf = ys @ x # 0 # drop 1 (replicate k 47 @ [0])"
  have p: "put (nat (int (length ys) + 1)) [0] ?buf = Inr buf"
    using put_append [of "length ys + 1" "ys @ [x]" "[0]" "replicate k 47 @ [0]"] by (simp add: nat_add_distrib buf_def)
  have x: "x \<noteq> 0" "0 \<notin> set ys" using assms(1,3) by auto
  have "\<exists>zs. sds_rep (sds_of path\<lparr>sd_buf := buf\<rparr>) zs \<and> takeWhile (\<lambda>b. b \<noteq> 0) zs = ys @ [x]"
  proof (cases k)
    case 0
    then have "sds_of path\<lparr>sd_buf := buf\<rparr> = sds_of path" using assms(1) by (simp add: sds_of_def buf_def)
    moreover have "takeWhile (\<lambda>b. b \<noteq> 0) path = ys @ [x]" using assms(1,3) 0 by (auto intro!: takeWhile_eq_all_conv [THEN iffD2])
    ultimately show ?thesis using rep by (intro exI [of _ path]) simp
  next
    case (Suc j)
    let ?zs = "ys @ x # 0 # replicate j 47"
    have "sds_of path\<lparr>sd_buf := buf\<rparr> = mk ?zs []"
      using assms(1,4) Suc by (simp add: sds_of_def mk_def buf_def in32_def sds_limit_def)
    moreover have "sds_rep (mk ?zs []) ?zs" using assms(1,4) Suc by (intro sds_rep_mk) (simp add: sds_limit_def)
    moreover have "takeWhile (\<lambda>b. b \<noteq> 0) ?zs = ys @ [x]" using x till_nul_append [of "ys @ [x]" "replicate j 47"] by (simp add: till_nul_def)
    ultimately show ?thesis by (intro exI [of _ ?zs]) simp
  qed
  then obtain s1 where s1: "sdsupdatelen (sds_of path\<lparr>sd_buf := buf\<rparr>) = Inr s1" "sds_rep s1 (ys @ [x])"
    using update_len_ok by metis
  have "0 \<notin> set (lit ''.trace'')" "length (lit ''.trace'') = 6" by (simp_all add: lit_def)
  then obtain s2 where s2: "sdscat g s1 (c_str (lit ''.trace'')) = Inr s2" "sds_rep s2 ((ys @ [x]) @ lit ''.trace'')"
    using sdscat_ok [OF s1(2), of "lit ''.trace''" g "[]"] assms(1,4) by (auto simp: c_str_def)
  then show ?thesis unfolding trace_path_def n rbind_simps b l s p s1(1) by simp
qed

lemma trace_path_slashes: "set path \<subseteq> {47} \<Longrightarrow> length path < 2 ^ 31 - 1 \<Longrightarrow> trace_path g (c_str path) = Inl OutOfBounds"
proof -
  assume a: "set path \<subseteq> {47}" "length path < 2 ^ 31 - 1"
  have s: "strip_slashes (path @ [0]) (int n - 1) = Inl OutOfBounds" if "n \<le> length path" for n
    using that
  proof (induction n)
    case 0
    then show ?case by (subst strip_slashes.simps) simp
  next
    case (Suc n)
    have "path ! n \<in> {47}" using Suc.prems a(1) nth_mem [of n path] by (auto simp only: Suc_le_eq)
    then have "(path @ [0]) ! n = 47" using Suc.prems by (simp add: nth_append)
    then show ?case using Suc by (subst strip_slashes.simps) simp
  qed
  have "sdslen (sds_of path) = length path" using sds_rep_len [OF sds_of_rep [OF a(2)]] by simp
  moreover have "sd_buf (sds_of path) = path @ [0]" by (simp add: sds_of_def)
  moreover have "0 \<notin> set path" using a(1) by auto
  ultimately show ?thesis using s [of "length path"] sdsnew_ok [of path] by (simp add: trace_path_def)
qed

text \<open>C40: a trace replays the stream it was made of. \<open>make_trace\<close> of a stream of files, whatever their
  chunks, writes a file next to the path without its trailing slashes, and \<open>read_trace_thread\<close> on that file
  terminates with the same files and, in order, the same fingerprints and sizes.\<close>

theorem trace_replays:
  assumes "path = ys @ x # replicate k 47" and "x \<noteq> 47" and "0 \<notin> set path" and "length path + 6 \<le> sds_limit"
    and "traceable False cs" and "can_open (ys @ [x] @ lit ''.trace'')"
  shows "\<exists>file. make_trace g can_open (c_str path) cs = Inr (ys @ [x] @ lit ''.trace'', file)
    \<and> read_trace_thread junk line file = Some (Inr (map replay cs))"
proof -
  obtain s where s: "trace_path g (c_str path) = Inr s" "sds_rep s (ys @ [x] @ lit ''.trace'')"
    using trace_path_ok [OF assms(1-4)] by blast
  obtain rest where "s = mk (ys @ [x] @ lit ''.trace'') rest" using s(2) by (rule sds_repE)
  moreover have "0 \<notin> set (ys @ [x] @ lit ''.trace'')" using assms(1,3) by (auto simp: lit_def)
  ultimately have p: "till_nul (sd_buf s) = ys @ [x] @ lit ''.trace''" using till_nul_append [of "ys @ [x] @ lit ''.trace''" rest] by simp
  show ?thesis
    using read_trace_ok [OF assms(5), of junk line "[]"] assms(6)
    by (intro exI [of _ "concat (map tline cs) @ lit ''stream end''"])
       (simp add: make_trace_def s(1) p trace_lines_ok [OF assms(5)] read_trace_thread_def)
qed

lemma trace_replays_witness:
  "\<exists>file. make_trace (\<lambda>i. 0) (\<lambda>p. True) (c_str [47, 100, 47])
      [SET_CHUNK ((new_chunk 2)\<lparr>ck_data := [97, 0]\<rparr>) CHUNK_FILE_START, (new_chunk 512)\<lparr>ck_fp := replicate 20 171\<rparr>,
       SET_CHUNK (new_chunk 0) CHUNK_FILE_END] = Inr ([47, 100] @ lit ''.trace'', file)
    \<and> read_trace_thread 0 (replicate 128 0) file = Some (Inr (map replay
      [SET_CHUNK ((new_chunk 2)\<lparr>ck_data := [97, 0]\<rparr>) CHUNK_FILE_START, (new_chunk 512)\<lparr>ck_fp := replicate 20 171\<rparr>,
       SET_CHUNK (new_chunk 0) CHUNK_FILE_END]))"
  using trace_replays [of "[47, 100, 47]" "[47]" 100 1
      "[SET_CHUNK ((new_chunk 2)\<lparr>ck_data := [97, 0]\<rparr>) CHUNK_FILE_START, (new_chunk 512)\<lparr>ck_fp := replicate 20 171\<rparr>,
       SET_CHUNK (new_chunk 0) CHUNK_FILE_END]" "\<lambda>p. True" "\<lambda>i. 0" 0 "replicate 128 0"]
  by (simp add: sds_limit_def till_nul_def in32_def)

end
