(* ===== verification/Hashfile.thy ===== *)
theory Hashfile
  imports Sds Streams
begin

text \<open>
  The library \<open>fsl/libhashfile.c\<close>, which writes and reads the hash files of the FSL traces.

  The packed structures of \<open>libhashfile.h\<close> are records of words with the bytes they have in a file
  (\<open>header_bytes\<close>, \<open>header_of\<close>); \<open>be\<close> is the byte order of the host, and a \<open>long double\<close> takes 16 bytes.
  A file descriptor is a stream: \<open>read\<close> takes what is there, \<open>write\<close> stops at the size \<open>lim\<close> of the largest file.
  The version \<open>HASH_FILE_VERSION\<close>n is n. A handle comes from \<open>malloc\<close>: \<open>h0\<close> is what that memory holds.
  A return value -1 is \<open>False\<close>; an access outside of a buffer is \<open>OutOfBounds\<close>. \<open>errno\<close> is left out.
\<close>

definition HASH_FILE_MAGIC :: "32 word" where [cfg_simps]: "HASH_FILE_MAGIC = 0xDEADDEAD"
definition MAX_PATH_SIZE :: nat where [cfg_simps]: "MAX_PATH_SIZE = 4096"
definition MAX_SYSID_LEN :: nat where [cfg_simps]: "MAX_SYSID_LEN = 4096"
definition FIXED :: "32 word" where [cfg_simps]: "FIXED = 1"
definition VARIABLE :: "32 word" where [cfg_simps]: "VARIABLE = 2"
definition MD5_HASH :: "32 word" where [cfg_simps]: "MD5_HASH = 1"
definition SHA256_HASH :: "32 word" where [cfg_simps]: "SHA256_HASH = 2"
definition MD5_48BIT_HASH :: "32 word" where [cfg_simps]: "MD5_48BIT_HASH = 3"
definition MURMUR_HASH :: "32 word" where [cfg_simps]: "MURMUR_HASH = 4"
definition SHA1_HASH :: "32 word" where [cfg_simps]: "SHA1_HASH = 6"

definition field :: "bool \<Rightarrow> nat \<Rightarrow> nat \<Rightarrow> byte list \<Rightarrow> 'a::len word" where
  "field be off n bs = host_word be (take n (drop off bs))"

record header =
  hd_magic :: "32 word"
  hd_version :: "32 word"
  hd_files :: "64 word"
  hd_path_root :: "byte list"
  hd_chunks :: "64 word"
  hd_chnk_method :: "32 word"
  hd_params :: "byte list"       \<comment> \<open>the union \<open>chnk_method_params\<close>, 44 bytes\<close>
  hd_hsh_method :: "32 word"
  hd_hash_size :: "32 word"
  hd_sysid :: "byte list"
  hd_start_time :: "64 word"
  hd_end_time :: "64 word"
  hd_bytes :: "64 word"

definition header_bytes :: "bool \<Rightarrow> header \<Rightarrow> byte list" where
  "header_bytes be h =
     host_bytes be 4 (hd_magic h) @ host_bytes be 4 (hd_version h) @ host_bytes be 8 (hd_files h) @ hd_path_root h
     @ host_bytes be 8 (hd_chunks h) @ host_bytes be 4 (hd_chnk_method h) @ hd_params h @ host_bytes be 4 (hd_hsh_method h)
     @ host_bytes be 4 (hd_hash_size h) @ hd_sysid h @ host_bytes be 8 (hd_start_time h) @ host_bytes be 8 (hd_end_time h)
     @ host_bytes be 8 (hd_bytes h)"

definition header_of :: "bool \<Rightarrow> byte list \<Rightarrow> header" where
  "header_of be bs =
     \<lparr>hd_magic = field be 0 4 bs, hd_version = field be 4 4 bs, hd_files = field be 8 8 bs, hd_path_root = take 4096 (drop 16 bs),
      hd_chunks = field be 4112 8 bs, hd_chnk_method = field be 4120 4 bs, hd_params = take 44 (drop 4124 bs),
      hd_hsh_method = field be 4168 4 bs, hd_hash_size = field be 4172 4 bs, hd_sysid = take 4096 (drop 4176 bs),
      hd_start_time = field be 8272 8 bs, hd_end_time = field be 8280 8 bs, hd_bytes = field be 8288 8 bs\<rparr>"

definition header_size :: nat where [cfg_simps]: "header_size = 4176"      \<comment> \<open>\<open>sizeof(struct header)\<close>\<close>
definition header_v3_size :: nat where [cfg_simps]: "header_v3_size = 8288"
definition header_v4_size :: nat where [cfg_simps]: "header_v4_size = 8296"

definition fixed_chunk_size :: "bool \<Rightarrow> header \<Rightarrow> 32 word" where   \<comment> \<open>\<open>chnk_method_params.fixed_params.chunk_size\<close>\<close>
  "fixed_chunk_size be h = field be 0 4 (hd_params h)"

record file_header =   \<comment> \<open>\<open>struct abstract_file_header\<close>; the two paths are buffers\<close>
  af_file_size :: "64 word"
  af_blocks :: "64 word"
  af_uid :: "32 word"
  af_gid :: "32 word"
  af_perm :: "64 word"
  af_atime :: "64 word"
  af_mtime :: "64 word"
  af_ctime :: "64 word"
  af_hardlinks :: "64 word"
  af_deviceid :: "64 word"
  af_inodenum :: "64 word"
  af_chunks :: "64 word"
  af_pathlen :: "32 word"
  af_path :: "byte list"
  af_target_pathlen :: "32 word"
  af_target_path :: "byte list"

definition file_header_bytes :: "bool \<Rightarrow> 64 word \<Rightarrow> file_header \<Rightarrow> byte list" where   \<comment> \<open>\<open>struct file_header_v4\<close> with \<open>n\<close> chunks\<close>
  "file_header_bytes be n a =
     host_bytes be 8 (af_file_size a) @ host_bytes be 8 (af_blocks a) @ host_bytes be 4 (af_uid a) @ host_bytes be 4 (af_gid a)
     @ host_bytes be 8 (af_perm a) @ host_bytes be 8 (af_atime a) @ host_bytes be 8 (af_mtime a) @ host_bytes be 8 (af_ctime a)
     @ host_bytes be 8 (af_hardlinks a) @ host_bytes be 8 (af_deviceid a) @ host_bytes be 8 (af_inodenum a)
     @ host_bytes be 8 n @ host_bytes be 4 (af_pathlen a) @ host_bytes be 4 (af_target_pathlen a)"

definition convert_to_abstract_file_header :: "bool \<Rightarrow> 32 word \<Rightarrow> byte list \<Rightarrow> file_header \<Rightarrow> file_header res" where
  "convert_to_abstract_file_header be version b a =
     (if version = 1 then
        rbind (c_strlen (take MAX_PATH_SIZE b)) (\<lambda>n.
          Inr (a\<lparr>af_file_size := field be 4096 8 b, af_chunks := field be 4104 8 b, af_pathlen := word_of_nat n,
                 af_path := take (n + 1) b @ drop (n + 1) (af_path a)\<rparr>))
      else if version = 2 \<or> version = 3 then
        Inr (a\<lparr>af_file_size := field be 0 8 b, af_chunks := field be 8 8 b, af_pathlen := field be 16 4 b\<rparr>)
      else if version = 4 then
        Inr (a\<lparr>af_file_size := field be 0 8 b, af_uid := field be 8 4 b, af_gid := field be 12 4 b, af_perm := field be 16 8 b,
               af_atime := field be 24 8 b, af_mtime := field be 32 8 b, af_ctime := field be 40 8 b,
               af_hardlinks := field be 48 8 b, af_deviceid := field be 56 8 b, af_inodenum := field be 64 8 b,
               af_chunks := field be 72 8 b, af_pathlen := field be 80 4 b, af_target_pathlen := field be 84 4 b\<rparr>)
      else if version = 5 \<or> version = 6 \<or> version = 7 then
        Inr (a\<lparr>af_file_size := field be 0 8 b, af_blocks := field be 8 8 b, af_uid := field be 16 4 b, af_gid := field be 20 4 b,
               af_perm := field be 24 8 b, af_atime := field be 32 8 b, af_mtime := field be 40 8 b, af_ctime := field be 48 8 b,
               af_hardlinks := field be 56 8 b, af_deviceid := field be 64 8 b, af_inodenum := field be 72 8 b,
               af_chunks := field be 80 8 b, af_pathlen := field be 88 4 b, af_target_pathlen := field be 92 4 b\<rparr>)
      else Inl AssertFailed)"

record chunk_info =
  ci_hash :: "byte list"
  ci_size :: "64 word"
  ci_cratio :: byte

datatype openmode = READ | WRITE

record hashfile_handle =
  hh_file :: stream              \<comment> \<open>\<open>fd\<close>\<close>
  hh_omode :: openmode
  hh_header :: header
  hh_current :: file_header
  hh_offset :: nat               \<comment> \<open>\<open>current_file_header_offset\<close>\<close>
  hh_chunk :: chunk_info         \<comment> \<open>\<open>current_chunk_info\<close>, with the buffer of the hash\<close>
  hh_num_files :: "64 word"
  hh_num_hashes :: "64 word"

subsection \<open>The file descriptor\<close>

definition fd_read :: "nat \<Rightarrow> stream \<Rightarrow> byte list \<times> stream" where
  "fd_read n s = (let b = take n (srest s) in (b, s\<lparr>st_pos := st_pos s + length b\<rparr>))"

definition fd_write :: "nat \<Rightarrow> byte list \<Rightarrow> stream \<Rightarrow> nat \<times> stream" where
  "fd_write lim bs s = (let k = min (length bs) (lim - st_pos s) in (k, fwrite (take k bs) s))"

definition fd_skip :: "64 word \<Rightarrow> stream \<Rightarrow> stream" where   \<comment> \<open>\<open>lseek(fd, off, SEEK_CUR)\<close>: a bad position is refused\<close>
  "fd_skip off s =
     (let p = int (st_pos s) + sint off in if 0 \<le> p \<and> p < 2 ^ 63 then s\<lparr>st_pos := nat p\<rparr> else s)"

subsection \<open>Opening and reading\<close>

definition version_supported :: "32 word \<Rightarrow> bool" where
  "version_supported v \<longleftrightarrow> v = 1 \<or> v = 2 \<or> v = 3 \<or> v = 4 \<or> v = 5 \<or> v = 6 \<or> v = 7"

definition read_header :: "bool \<Rightarrow> nat \<Rightarrow> header \<Rightarrow> stream \<Rightarrow> (header \<times> stream) option" where   \<comment> \<open>the first \<open>n\<close> bytes of the structure\<close>
  "read_header be n hdr s =
     (case fd_read n s of (b, s) \<Rightarrow>
       if length b = n then Some (header_of be (b @ drop n (header_bytes be hdr)), s) else None)"

definition hashfile_open :: "bool \<Rightarrow> hashfile_handle \<Rightarrow> byte list option \<Rightarrow> hashfile_handle option" where
  "hashfile_open be h0 file =
     (case file of None \<Rightarrow> None | Some f \<Rightarrow>
       case read_header be header_size (hh_header h0) \<lparr>st_file = f, st_pos = 0, st_writable = False\<rparr> of None \<Rightarrow> None | Some (hdr, s) \<Rightarrow>
         if hd_magic hdr \<noteq> HASH_FILE_MAGIC then None
         else if \<not> version_supported (hd_version hdr) then None
         else
           case (if hd_version hdr \<ge> 5 then read_header be header_v4_size hdr (s\<lparr>st_pos := 0\<rparr>)
                 else if hd_version hdr \<ge> 3 then read_header be header_v3_size hdr (s\<lparr>st_pos := 0\<rparr>)
                 else Some (hdr, s)) of
             None \<Rightarrow> None
           | Some (hdr, s) \<Rightarrow>
               Some (h0\<lparr>hh_header := hdr, hh_omode := READ, hh_file := s, hh_num_files := 0, hh_num_hashes := 0,
                        hh_current := (hh_current h0)\<lparr>af_chunks := 0\<rparr>\<rparr>))"

definition hash_bytes :: "header \<Rightarrow> nat" where   \<comment> \<open>\<open>header.hash_size / 8\<close>\<close>
  "hash_bytes hdr = unat (hd_hash_size hdr div 8)"

definition skip_over_current_file_hashes :: "hashfile_handle \<Rightarrow> stream" where
  "skip_over_current_file_hashes h =
     (let hdr = hh_header h;
          n = ucast (hd_hash_size hdr div 8);
          n = (if hd_chnk_method hdr = VARIABLE then
                 if hd_version hdr \<ge> 7 then n + 4 else if hd_version hdr \<ge> 3 then n + 8 else n
               else n);
          n = (if hd_version hdr \<ge> 6 then n + 1 else n)
      in fd_skip ((af_chunks (hh_current h) - hh_num_hashes h) * n) (hh_file h))"

definition S_ISLNK :: "64 word \<Rightarrow> bool" where
  "S_ISLNK m \<longleftrightarrow> m AND 0xF000 = 0xA000"

definition file_header_size :: "32 word \<Rightarrow> nat res" where
  "file_header_size v =
     (if v = 5 \<or> v = 6 \<or> v = 7 then Inr 96 else if v = 4 then Inr 88 else if v \<ge> 2 then Inr 20
      else if v = 1 then Inr 4112 else Inl AssertFailed)"

definition read_name :: "nat \<Rightarrow> byte list \<Rightarrow> stream \<Rightarrow> (bool \<times> byte list \<times> stream) res" where   \<comment> \<open>a path and its terminator into a buffer\<close>
  "read_name n buf s =
     (case fd_read n s of (b, s) \<Rightarrow>
       if length b > MAX_PATH_SIZE then Inl OutOfBounds
       else if length b \<noteq> n then Inr (False, b @ drop (length b) buf, s)
       else if n \<ge> MAX_PATH_SIZE then Inl OutOfBounds
       else Inr (True, b @ [0] @ drop (n + 1) buf, s))"

definition read_paths :: "hashfile_handle \<Rightarrow> (bool \<times> hashfile_handle) res" where
  "read_paths h =
     (let v = hd_version (hh_header h); a = hh_current h in
      if v < 2 then Inr (True, h)
      else
        rbind (read_name (unat (af_pathlen a)) (af_path a) (hh_file h)) (\<lambda>(ok, p, s).
          let a = a\<lparr>af_path := p\<rparr>; h = h\<lparr>hh_file := s, hh_current := a\<rparr> in
          if \<not> ok \<or> v < 4 \<or> \<not> S_ISLNK (af_perm a) then Inr (ok, h)
          else
            rbind (read_name (unat (af_target_pathlen a)) (af_target_path a) s) (\<lambda>(ok, p, s).
              Inr (ok, h\<lparr>hh_file := s, hh_current := a\<lparr>af_target_path := p\<rparr>\<rparr>))))"

definition hashfile_next_file :: "bool \<Rightarrow> hashfile_handle \<Rightarrow> (int \<times> hashfile_handle) res" where
  "hashfile_next_file be h =
     (if hh_omode h \<noteq> READ then Inr (-1, h)
      else if hh_num_files h = hd_files (hh_header h) then Inr (0, h)
      else
        rbind (c_assert (hh_num_files h < hd_files (hh_header h))) (\<lambda>_.
        let h = h\<lparr>hh_file := skip_over_current_file_hashes h, hh_num_hashes := af_chunks (hh_current h)\<rparr> in
        rbind (file_header_size (hd_version (hh_header h))) (\<lambda>n.
        case fd_read n (hh_file h) of (b, s) \<Rightarrow>
          let h = h\<lparr>hh_file := s\<rparr> in
          if length b \<noteq> n then Inr (-1, h)
          else
            rbind (convert_to_abstract_file_header be (hd_version (hh_header h)) b (hh_current h)) (\<lambda>a.
            rbind (read_paths (h\<lparr>hh_current := a\<rparr>)) (\<lambda>(ok, h).
              if ok then Inr (1, h\<lparr>hh_num_files := hh_num_files h + 1, hh_num_hashes := 0\<rparr>) else Inr (-1, h))))))"

definition read_size :: "bool \<Rightarrow> nat \<Rightarrow> hashfile_handle \<Rightarrow> bool \<times> hashfile_handle" where   \<comment> \<open>into the first bytes of \<open>size\<close>\<close>
  "read_size be n h =
     (case fd_read n (hh_file h) of (b, s) \<Rightarrow>
       let c = hh_chunk h in
       (length b = n, h\<lparr>hh_file := s, hh_chunk := c\<lparr>ci_size := host_word be (b @ drop (length b) (host_bytes be 8 (ci_size c)))\<rparr>\<rparr>))"

definition fixed_size :: "bool \<Rightarrow> hashfile_handle \<Rightarrow> 64 word" where
  "fixed_size be h =
     (let a = hh_current h; cs = ucast (fixed_chunk_size be (hh_header h)) in
      if af_chunks a - 1 = hh_num_hashes h then
        let n = af_file_size a - (af_chunks a - 1) * cs in if n > cs then cs else n
      else cs)"

definition next_size :: "bool \<Rightarrow> hashfile_handle \<Rightarrow> bool \<times> hashfile_handle" where
  "next_size be h =
     (let hdr = hh_header h; c = hh_chunk h in
      if hd_version hdr \<ge> 7 \<and> hd_chnk_method hdr = VARIABLE then read_size be 4 h
      else if hd_version hdr \<ge> 3 \<and> hd_chnk_method hdr = VARIABLE then read_size be 8 h
      else if hd_chnk_method hdr = FIXED then (True, h\<lparr>hh_chunk := c\<lparr>ci_size := fixed_size be h\<rparr>\<rparr>)
      else (True, h\<lparr>hh_chunk := c\<lparr>ci_size := 0\<rparr>\<rparr>))"

definition next_hash :: "hashfile_handle \<Rightarrow> bool \<times> hashfile_handle" where
  "next_hash h =
     (case fd_read (hash_bytes (hh_header h)) (hh_file h) of (b, s) \<Rightarrow>
       let c = hh_chunk h in
       (length b = hash_bytes (hh_header h), h\<lparr>hh_file := s, hh_chunk := c\<lparr>ci_hash := b @ drop (length b) (ci_hash c)\<rparr>\<rparr>))"

definition next_cratio :: "hashfile_handle \<Rightarrow> bool \<times> hashfile_handle" where
  "next_cratio h =
     (let c = hh_chunk h in
      if hd_version (hh_header h) \<ge> 6 then
        case fd_read 1 (hh_file h) of (b, s) \<Rightarrow>
          (length b = 1, h\<lparr>hh_file := s, hh_chunk := (if b = [] then c else c\<lparr>ci_cratio := hd b\<rparr>)\<rparr>)
      else (True, h\<lparr>hh_chunk := c\<lparr>ci_cratio := 0\<rparr>\<rparr>))"

definition hashfile_next_chunk :: "bool \<Rightarrow> hashfile_handle \<Rightarrow> (bool \<times> hashfile_handle) res" where   \<comment> \<open>the chunk is \<open>hh_chunk\<close>\<close>
  "hashfile_next_chunk be h =
     (if hh_omode h \<noteq> READ then Inr (False, h)
      else if af_chunks (hh_current h) = hh_num_hashes h then Inr (False, h)
      else
        rbind (c_assert (hh_num_hashes h < af_chunks (hh_current h))) (\<lambda>_.
          case next_size be h of (ok, h) \<Rightarrow>
            if \<not> ok then Inr (False, h)
            else
              case next_hash h of (ok, h) \<Rightarrow>
                if \<not> ok then Inr (False, h)
                else
                  case next_cratio h of (ok, h) \<Rightarrow>
                    if \<not> ok then Inr (False, h) else Inr (True, h\<lparr>hh_num_hashes := hh_num_hashes h + 1\<rparr>)))"

definition hashfile_reset :: "hashfile_handle \<Rightarrow> int \<times> hashfile_handle" where
  "hashfile_reset h =
     (if hh_omode h \<noteq> READ then (-1, h)
      else (0, h\<lparr>hh_file := (hh_file h)\<lparr>st_pos := header_v4_size\<rparr>, hh_num_files := 0, hh_num_hashes := 0,
                  hh_current := (hh_current h)\<lparr>af_chunks := 0\<rparr>\<rparr>))"

subsection \<open>What the reader tells\<close>

definition hashfile_version :: "hashfile_handle \<Rightarrow> 32 word" where "hashfile_version h = hd_version (hh_header h)"
definition hashfile_rootpath :: "hashfile_handle \<Rightarrow> byte list" where "hashfile_rootpath h = hd_path_root (hh_header h)"
definition hashfile_sysid :: "hashfile_handle \<Rightarrow> byte list option" where
  "hashfile_sysid h = (if hashfile_version h \<ge> 3 then Some (hd_sysid (hh_header h)) else None)"
definition hashfile_start_time :: "hashfile_handle \<Rightarrow> 64 word" where
  "hashfile_start_time h = (if hashfile_version h \<ge> 3 then hd_start_time (hh_header h) else 0)"
definition hashfile_end_time :: "hashfile_handle \<Rightarrow> 64 word" where
  "hashfile_end_time h = (if hashfile_version h \<ge> 3 then hd_end_time (hh_header h) else 0)"
definition hashfile_numfiles :: "hashfile_handle \<Rightarrow> 64 word" where "hashfile_numfiles h = hd_files (hh_header h)"
definition hashfile_numchunks :: "hashfile_handle \<Rightarrow> 64 word" where "hashfile_numchunks h = hd_chunks (hh_header h)"
definition hashfile_hash_size :: "hashfile_handle \<Rightarrow> 32 word" where "hashfile_hash_size h = hd_hash_size (hh_header h)"
definition hashfile_numbytes :: "hashfile_handle \<Rightarrow> 64 word" where
  "hashfile_numbytes h = (if hashfile_version h \<ge> 5 then hd_bytes (hh_header h) else 0)"
definition hashfile_chunking_method :: "hashfile_handle \<Rightarrow> 32 word" where "hashfile_chunking_method h = hd_chnk_method (hh_header h)"
definition hashfile_hashing_method :: "hashfile_handle \<Rightarrow> 32 word" where "hashfile_hashing_method h = hd_hsh_method (hh_header h)"

definition hashfile_fxd_chunking_params :: "bool \<Rightarrow> hashfile_handle \<Rightarrow> 32 word option" where
  "hashfile_fxd_chunking_params be h =
     (if hashfile_chunking_method h \<noteq> FIXED then None else Some (fixed_chunk_size be (hh_header h)))"

definition hashfile_var_chunking_params :: "hashfile_handle \<Rightarrow> byte list option" where
  "hashfile_var_chunking_params h =
     (if hashfile_chunking_method h \<noteq> VARIABLE then None else Some (hd_params (hh_header h)))"

text \<open>The names of the methods. \<open>ldf\<close> is what \<open>%Lf\<close> prints of a \<open>long double\<close>.\<close>

function hex :: "nat \<Rightarrow> byte list" where
  "hex n = (let d = lit ''0123456789abcdef'' ! (n mod 16) in if n < 16 then [d] else hex (n div 16) @ [d])"
  by pat_completeness auto
termination by (relation "measure id") auto

declare hex.simps [simp del]

definition int_field :: "bool \<Rightarrow> nat \<Rightarrow> byte list \<Rightarrow> byte list" where   \<comment> \<open>a field under \<open>%d\<close>\<close>
  "int_field be off p = dec (sint (field be off 4 p :: 32 word))"

definition hex_field :: "bool \<Rightarrow> nat \<Rightarrow> byte list \<Rightarrow> byte list" where   \<comment> \<open>a field under \<open>PRIx64\<close>\<close>
  "hex_field be off p = hex (unat (field be off 8 p :: 64 word))"

definition variable_str :: "(byte list \<Rightarrow> byte list) \<Rightarrow> bool \<Rightarrow> byte list \<Rightarrow> byte list option" where
  "variable_str ldf be p =
     (let algo = field be 0 4 p :: 32 word in
      if algo = 1 then Some (lit ''Variable-random, p='' @ ldf (take 16 (drop 4 p)))
      else if algo = 2 then Some (lit ''Variable-simple_match, bits='' @ int_field be 4 p @ lit '', pattern='' @ hex_field be 8 p)
      else if algo = 3 then
        Some (lit ''Variable-rabin bits='' @ int_field be 24 p @ lit '', pattern='' @ hex_field be 28 p
              @ lit '', Window size='' @ int_field be 4 p)
      else None)"

definition hashfile_chunking_method_str :: "(byte list \<Rightarrow> byte list) \<Rightarrow> bool \<Rightarrow> nat \<Rightarrow> hashfile_handle \<Rightarrow> byte list option" where
  "hashfile_chunking_method_str ldf be len h =
     (let p = hd_params (hh_header h) in
      if hashfile_chunking_method h = FIXED then Some (take (len - 1) (lit ''Fixed-'' @ int_field be 0 p @ [10]))
      else if hashfile_chunking_method h = VARIABLE then
        map_option (\<lambda>t.
          let t = take (len - 1) t
          in t @ take (len - length t - 1) ([91] @ int_field be 36 p @ [58] @ int_field be 40 p @ [93, 10]))
          (variable_str ldf be p)
      else None)"

definition hashfile_hashing_method_str :: "nat \<Rightarrow> hashfile_handle \<Rightarrow> byte list option" where
  "hashfile_hashing_method_str len h =
     (let m = hashfile_hashing_method h;
          str = (\<lambda>name. Some (take (len - 1) (name @ dec (sint (hashfile_hash_size h)) @ [10]))) in
      if m = MD5_HASH \<or> m = MD5_48BIT_HASH then str (lit ''MD5-'')
      else if m = SHA256_HASH then str (lit ''SHA256-'')
      else if m = SHA1_HASH then str (lit ''SHA1-'')
      else if m = MURMUR_HASH then str (lit ''MURMUR-'')
      else None)"

definition stat_field :: "(file_header \<Rightarrow> 'a::len word) \<Rightarrow> hashfile_handle \<Rightarrow> 'a word" where
  "stat_field f h = (if hashfile_version h \<ge> 4 then f (hh_current h) else 0)"

definition hashfile_curfile_path :: "hashfile_handle \<Rightarrow> byte list" where "hashfile_curfile_path h = af_path (hh_current h)"
definition hashfile_curfile_numchunks :: "hashfile_handle \<Rightarrow> 64 word" where "hashfile_curfile_numchunks h = af_chunks (hh_current h)"
definition hashfile_curfile_uid :: "hashfile_handle \<Rightarrow> 32 word" where "hashfile_curfile_uid = stat_field af_uid"
definition hashfile_curfile_gid :: "hashfile_handle \<Rightarrow> 32 word" where "hashfile_curfile_gid = stat_field af_gid"
definition hashfile_curfile_perm :: "hashfile_handle \<Rightarrow> 64 word" where "hashfile_curfile_perm = stat_field af_perm"
definition hashfile_curfile_atime :: "hashfile_handle \<Rightarrow> 64 word" where "hashfile_curfile_atime = stat_field af_atime"
definition hashfile_curfile_mtime :: "hashfile_handle \<Rightarrow> 64 word" where "hashfile_curfile_mtime = stat_field af_mtime"
definition hashfile_curfile_ctime :: "hashfile_handle \<Rightarrow> 64 word" where "hashfile_curfile_ctime = stat_field af_ctime"
definition hashfile_curfile_hardlinks :: "hashfile_handle \<Rightarrow> 64 word" where "hashfile_curfile_hardlinks = stat_field af_hardlinks"
definition hashfile_curfile_deviceid :: "hashfile_handle \<Rightarrow> 64 word" where "hashfile_curfile_deviceid = stat_field af_deviceid"
definition hashfile_curfile_inodenum :: "hashfile_handle \<Rightarrow> 64 word" where "hashfile_curfile_inodenum = stat_field af_inodenum"
definition hashfile_curfile_size :: "hashfile_handle \<Rightarrow> 64 word" where "hashfile_curfile_size h = af_file_size (hh_current h)"
definition hashfile_curfile_blocks :: "hashfile_handle \<Rightarrow> 64 word" where "hashfile_curfile_blocks h = af_blocks (hh_current h)"
definition hashfile_curfile_linkpath :: "hashfile_handle \<Rightarrow> byte list option" where
  "hashfile_curfile_linkpath h =
     (if hashfile_version h \<ge> 4 \<and> S_ISLNK (af_perm (hh_current h)) then Some (af_target_path (hh_current h)) else None)"

subsection \<open>Writing\<close>

definition strncpy :: "nat \<Rightarrow> byte list \<Rightarrow> byte list" where   \<comment> \<open>the \<open>n\<close> bytes it writes for the string \<open>s\<close>\<close>
  "strncpy n s = take n (s @ replicate n 0)"

definition and_then :: "(bool \<times> hashfile_handle) res \<Rightarrow> (hashfile_handle \<Rightarrow> (bool \<times> hashfile_handle) res) \<Rightarrow> (bool \<times> hashfile_handle) res" where
  "and_then m f = rbind m (\<lambda>(ok, h). if ok then f h else Inr (False, h))"   \<comment> \<open>\<open>return -1\<close> unless \<open>ok\<close>\<close>

definition put_bytes :: "nat \<Rightarrow> byte list res \<Rightarrow> hashfile_handle \<Rightarrow> (bool \<times> hashfile_handle) res" where
  "put_bytes lim bs h =
     rbind bs (\<lambda>bs. case fd_write lim bs (hh_file h) of (k, s) \<Rightarrow> Inr (k = length bs, h\<lparr>hh_file := s\<rparr>))"

text \<open>\<open>sysid\<close>: the text of \<open>uname\<close>, \<open>now\<close>: the time; \<open>None\<close> when the system call fails. \<open>exists\<close>: the file is there already.\<close>

definition hashfile_open4write ::
  "bool \<Rightarrow> nat \<Rightarrow> hashfile_handle \<Rightarrow> bool \<Rightarrow> byte list option \<Rightarrow> 64 word option \<Rightarrow> 32 word \<Rightarrow> 32 word \<Rightarrow> 32 word \<Rightarrow> byte list \<Rightarrow>
   hashfile_handle option" where
  "hashfile_open4write be lim h0 exists sysid now cmeth hmeth hash_size root_path =
     (if exists then None
      else
        case sysid of None \<Rightarrow> None | Some sys \<Rightarrow>
        case now of None \<Rightarrow> None | Some t \<Rightarrow>
          let sys = take (MAX_SYSID_LEN - 1) sys;
              hdr = (hh_header h0)\<lparr>hd_magic := HASH_FILE_MAGIC, hd_version := 7, hd_chnk_method := cmeth, hd_hsh_method := hmeth,
                     hd_hash_size := hash_size, hd_chunks := 0, hd_files := 0, hd_bytes := 0,
                     hd_path_root := strncpy MAX_PATH_SIZE root_path,
                     hd_sysid := sys @ [0] @ drop (length sys + 1) (hd_sysid (hh_header h0)), hd_start_time := t\<rparr>
          in case fd_write lim (header_bytes be hdr) \<lparr>st_file = [], st_pos = 0, st_writable = True\<rparr> of (k, s) \<Rightarrow>
               if k \<noteq> header_v4_size then None
               else Some (h0\<lparr>hh_omode := WRITE, hh_file := s, hh_num_files := 0, hh_num_hashes := 0, hh_header := hdr\<rparr>))"

definition hashfile_set_fxd_chnking_params :: "bool \<Rightarrow> 32 word \<Rightarrow> hashfile_handle \<Rightarrow> bool \<times> hashfile_handle" where
  "hashfile_set_fxd_chnking_params be chunk_size h =
     (let hdr = hh_header h in
      if hh_omode h \<noteq> WRITE then (False, h)
      else if hd_chnk_method hdr \<noteq> FIXED then (False, h)
      else (True, h\<lparr>hh_header := hdr\<lparr>hd_params := host_bytes be 4 chunk_size @ drop 4 (hd_params hdr)\<rparr>\<rparr>))"

definition hashfile_set_var_chnking_params :: "byte list \<Rightarrow> hashfile_handle \<Rightarrow> bool \<times> hashfile_handle" where   \<comment> \<open>the 44 bytes of \<open>params\<close>\<close>
  "hashfile_set_var_chnking_params params h =
     (if hh_omode h \<noteq> WRITE then (False, h)
      else if hd_chnk_method (hh_header h) \<noteq> VARIABLE then (False, h)
      else (True, h\<lparr>hh_header := (hh_header h)\<lparr>hd_params := params\<rparr>\<rparr>))"

record file_stat =   \<comment> \<open>\<open>struct stat\<close>\<close>
  sb_size :: "64 word"
  sb_blocks :: "64 word"
  sb_uid :: "32 word"
  sb_gid :: "32 word"
  sb_mode :: "64 word"
  sb_atime :: "64 word"
  sb_mtime :: "64 word"
  sb_ctime :: "64 word"
  sb_nlink :: "64 word"
  sb_dev :: "64 word"
  sb_ino :: "64 word"

definition finalize_file :: "bool \<Rightarrow> nat \<Rightarrow> hashfile_handle \<Rightarrow> (bool \<times> hashfile_handle) res" where
  "finalize_file be lim h =
     (if hh_num_files h = 0 then Inr (True, h)
      else
        let cur = st_pos (hh_file h); a = hh_current h; h = h\<lparr>hh_file := (hh_file h)\<lparr>st_pos := hh_offset h\<rparr>\<rparr> in
        and_then (put_bytes lim (Inr (file_header_bytes be (hh_num_hashes h) a)) h) (\<lambda>h.
        and_then (put_bytes lim (peek 0 (unat (af_pathlen a)) (af_path a)) h) (\<lambda>h.
        and_then (if af_target_pathlen a \<noteq> 0 then put_bytes lim (peek 0 (unat (af_target_pathlen a)) (af_target_path a)) h
                  else Inr (True, h)) (\<lambda>h.
          Inr (True, h\<lparr>hh_file := (hh_file h)\<lparr>st_pos := cur\<rparr>, hh_offset := cur\<rparr>)))))"

definition new_current :: "byte list \<Rightarrow> file_stat \<Rightarrow> byte list \<Rightarrow> file_header \<Rightarrow> file_header res" where
  "new_current path st target a =
     (let a = a\<lparr>af_file_size := sb_size st, af_blocks := sb_blocks st, af_uid := sb_uid st, af_gid := sb_gid st,
                af_perm := sb_mode st, af_atime := sb_atime st, af_mtime := sb_mtime st, af_ctime := sb_ctime st,
                af_hardlinks := sb_nlink st, af_deviceid := sb_dev st, af_inodenum := sb_ino st, af_chunks := 0,
                af_pathlen := word_of_nat (length path), af_path := strncpy MAX_PATH_SIZE path\<rparr> in
      if S_ISLNK (af_perm a) then
        let p = strncpy MAX_PATH_SIZE target
        in rbind (c_strlen p) (\<lambda>n. Inr (a\<lparr>af_target_path := p, af_target_pathlen := word_of_nat n\<rparr>))
      else Inr (a\<lparr>af_target_pathlen := 0\<rparr>))"

definition start_file :: "bool \<Rightarrow> nat \<Rightarrow> byte list \<Rightarrow> file_stat \<Rightarrow> byte list \<Rightarrow> hashfile_handle \<Rightarrow> (bool \<times> hashfile_handle) res" where
  "start_file be lim path st target h =
     rbind (new_current path st target (hh_current h)) (\<lambda>a.
       let h = h\<lparr>hh_num_files := hh_num_files h + 1, hh_num_hashes := 0, hh_current := a, hh_offset := st_pos (hh_file h)\<rparr> in
       and_then (put_bytes lim (Inr (file_header_bytes be (af_chunks a) a)) h) (\<lambda>h.
       and_then (put_bytes lim (peek 0 (unat (af_pathlen a)) (af_path a)) h) (\<lambda>h.
         if S_ISLNK (af_perm a) then put_bytes lim (peek 0 (unat (af_target_pathlen a)) (af_target_path a)) h
         else Inr (True, h))))"

text \<open>The arguments are C strings, given without the NUL; \<open>None\<close> is \<open>only_finilize\<close>.\<close>

definition do_add_file :: "bool \<Rightarrow> nat \<Rightarrow> (byte list \<times> file_stat \<times> byte list) option \<Rightarrow> hashfile_handle \<Rightarrow> (bool \<times> hashfile_handle) res" where
  "do_add_file be lim file h =
     and_then (finalize_file be lim h) (\<lambda>h.
       case file of None \<Rightarrow> Inr (True, h) | Some (path, st, target) \<Rightarrow> start_file be lim path st target h)"

definition hashfile_add_file :: "bool \<Rightarrow> nat \<Rightarrow> byte list \<Rightarrow> file_stat \<Rightarrow> byte list \<Rightarrow> hashfile_handle \<Rightarrow> (bool \<times> hashfile_handle) res" where
  "hashfile_add_file be lim path st target h =
     (if hh_omode h \<noteq> WRITE then Inr (False, h) else do_add_file be lim (Some (path, st, target)) h)"

definition hashfile_add_chunk :: "bool \<Rightarrow> nat \<Rightarrow> chunk_info \<Rightarrow> hashfile_handle \<Rightarrow> (bool \<times> hashfile_handle) res" where
  "hashfile_add_chunk be lim ci h =
     (if hh_omode h \<noteq> WRITE then Inr (False, h)
      else
        and_then (if hd_chnk_method (hh_header h) = VARIABLE then put_bytes lim (Inr (take 4 (host_bytes be 8 (ci_size ci)))) h
                  else Inr (True, h)) (\<lambda>h.
        and_then (put_bytes lim (peek 0 (hash_bytes (hh_header h)) (ci_hash ci)) h) (\<lambda>h.
        and_then (put_bytes lim (Inr [ci_cratio ci]) h) (\<lambda>h.
          let hdr = hh_header h in
          Inr (True, h\<lparr>hh_num_hashes := hh_num_hashes h + 1,
                       hh_header := hdr\<lparr>hd_chunks := hd_chunks hdr + 1, hd_bytes := hd_bytes hdr + ci_size ci\<rparr>\<rparr>)))))"

definition hashfile_close :: "bool \<Rightarrow> nat \<Rightarrow> 64 word option \<Rightarrow> hashfile_handle \<Rightarrow> byte list res" where   \<comment> \<open>the file it leaves\<close>
  "hashfile_close be lim now h =
     (if hh_omode h = WRITE then
        rbind (do_add_file be lim None h) (\<lambda>(_, h).
          let hdr = hh_header h;
              hdr = (case now of None \<Rightarrow> hdr | Some t \<Rightarrow> hdr\<lparr>hd_end_time := t\<rparr>)\<lparr>hd_files := hh_num_files h\<rparr>
          in Inr (st_file (snd (fd_write lim (header_bytes be hdr) ((hh_file h)\<lparr>st_pos := 0\<rparr>)))))
      else Inr (st_file (hh_file h)))"

subsection \<open>The FSL trace reader: \<open>fsl/read_fsl_trace.c\<close>\<close>

definition fsl_chunk :: "hashfile_handle \<Rightarrow> chunk res" where
  "fsl_chunk h =
     (let ci = hh_chunk h; n = unat (hashfile_hash_size h div 8) in
      if n \<le> 20 then
        rbind (peek 0 n (ci_hash ci)) (\<lambda>fp.
          Inr ((new_chunk 0)\<lparr>ck_size := int32 (uint (ci_size ci)), ck_fp := fp @ replicate (20 - n) 0\<rparr>))
      else Inl OutOfBounds)"

lemma next_chunk_counts:
  assumes "hashfile_next_chunk be h = Inr (True, h')"
  shows "hh_num_hashes h < af_chunks (hh_current h) \<and> hh_num_hashes h' = hh_num_hashes h + 1 \<and> hh_current h' = hh_current h"
proof -
  let ?h1 = "snd (next_size be h)" and ?same = "\<lambda>h h' :: hashfile_handle. hh_num_hashes h' = hh_num_hashes h \<and> hh_current h' = hh_current h"
  have "?same h ?h1" by (simp add: next_size_def read_size_def Let_def split: prod.split)
  moreover have "?same h (snd (next_hash h))" for h by (simp add: next_hash_def Let_def split: prod.split)
  moreover have "?same h (snd (next_cratio h))" for h by (simp add: next_cratio_def Let_def split: prod.split)
  ultimately show ?thesis using assms
    by (auto simp: hashfile_next_chunk_def rbind_assert prod.case_eq_if split: if_splits)
qed

function fsl_chunks :: "bool \<Rightarrow> hashfile_handle \<Rightarrow> (chunk list \<times> hashfile_handle) res" where
  "fsl_chunks be h =
     (case hashfile_next_chunk be h of
        Inl e \<Rightarrow> Inl e
      | Inr (ok, h') \<Rightarrow>
          if \<not> ok then Inr ([], h')
          else rbind (fsl_chunk h') (\<lambda>c. rbind (fsl_chunks be h') (\<lambda>(cs, h'). Inr (c # cs, h'))))"
  by pat_completeness auto
termination
proof (relation "measure (\<lambda>(be, h). unat (af_chunks (hh_current h) - hh_num_hashes h))")
  fix be h x ok h' c
  assume "hashfile_next_chunk be h = Inr x" "(ok, h') = x" "\<not> \<not> ok"
  then have "hh_num_hashes h < af_chunks (hh_current h)" "hh_num_hashes h' = hh_num_hashes h + 1" "hh_current h' = hh_current h"
    using next_chunk_counts [of be h h'] by auto
  then show "((be, h'), be, h) \<in> measure (\<lambda>(be, h). unat (af_chunks (hh_current h) - hh_num_hashes h))"
    using measure_unat [of "af_chunks (hh_current h) - hh_num_hashes h"] by (simp add: diff_diff_eq)
qed auto

declare fsl_chunks.simps [simp del]

lemma next_chunk_frame:
  assumes "hashfile_next_chunk be h = Inr (ok, h')"
  shows "hh_header h' = hh_header h \<and> hh_num_files h' = hh_num_files h"
proof -
  let ?h1 = "snd (next_size be h)" and ?same = "\<lambda>h h' :: hashfile_handle. hh_header h' = hh_header h \<and> hh_num_files h' = hh_num_files h"
  have "?same h ?h1" by (simp add: next_size_def read_size_def Let_def split: prod.split)
  moreover have "?same h (snd (next_hash h))" for h by (simp add: next_hash_def Let_def split: prod.split)
  moreover have "?same h (snd (next_cratio h))" for h by (simp add: next_cratio_def Let_def split: prod.split)
  ultimately show ?thesis using assms
    by (auto simp: hashfile_next_chunk_def rbind_assert prod.case_eq_if split: if_splits)
qed

lemma fsl_chunks_frame:
  "fsl_chunks be h = Inr (cs, h') \<Longrightarrow> hh_header h' = hh_header h \<and> hh_num_files h' = hh_num_files h"
proof (induction be h arbitrary: cs h' rule: fsl_chunks.induct)
  case (1 be h)
  note step = "1.prems" [unfolded fsl_chunks.simps [of be h]]
  obtain ok h1 where n: "hashfile_next_chunk be h = Inr (ok, h1)" using step by (auto split: sum.splits)
  note same = next_chunk_frame [OF n]
  show ?case
  proof (cases ok)
    case True
    then obtain cs' where "fsl_chunks be h1 = Inr (cs', h')" using step n by (auto simp: rbind_Inr_iff)
    then show ?thesis using "1.IH" [OF n refl] True same by (auto simp: rbind_Inr_iff)
  next
    case False
    then show ?thesis using step n same by simp
  qed
qed

lemma read_paths_frame:
  "read_paths h = Inr (ok, h') \<Longrightarrow> hh_header h' = hh_header h \<and> hh_num_files h' = hh_num_files h"
  by (auto simp: read_paths_def Let_def rbind_Inr_iff split: if_splits)

lemma next_file_counts:
  assumes "hashfile_next_file be h = Inr (1, h')"
  shows "hh_num_files h < hd_files (hh_header h) \<and> hh_num_files h' = hh_num_files h + 1 \<and> hh_header h' = hh_header h"
  using assms by (auto simp: hashfile_next_file_def rbind_assert rbind_Inr_iff Let_def prod.case_eq_if split: if_splits dest!: read_paths_frame)

lemma next_file_result: "hashfile_next_file be h = Inr (ret, h') \<Longrightarrow> ret = -1 \<or> ret = 0 \<or> ret = 1"
  by (auto simp: hashfile_next_file_def rbind_assert rbind_Inr_iff Let_def prod.case_eq_if split: if_splits)

function fsl_files :: "bool \<Rightarrow> hashfile_handle \<Rightarrow> chunk list res" where
  "fsl_files be h =
     (case hashfile_next_file be h of
        Inl e \<Rightarrow> Inl e
      | Inr (ret, h') \<Rightarrow>
          if ret < 0 then Inl ExitFailure
          else if ret = 0 then Inr []
          else
            rbind (c_strlen (hashfile_curfile_path h')) (\<lambda>n.
            let start = SET_CHUNK ((new_chunk (int n + 1))\<lparr>ck_data := take (n + 1) (hashfile_curfile_path h')\<rparr>) CHUNK_FILE_START in
            case fsl_chunks be h' of
              Inl e \<Rightarrow> Inl e
            | Inr (cs, h'') \<Rightarrow>
                rbind (fsl_files be h'') (\<lambda>rest. Inr (start # cs @ SET_CHUNK (new_chunk 0) CHUNK_FILE_END # rest))))"
  by pat_completeness auto
termination
proof (relation "measure (\<lambda>(be, h). unat (hd_files (hh_header h) - hh_num_files h))")
  fix be h x ret h' n start y cs h''
  assume a: "hashfile_next_file be h = Inr x" "(ret, h') = x" "\<not> ret < 0" "ret \<noteq> 0" and f: "fsl_chunks be h' = Inr y" "(cs, h'') = y"
  have "ret = 1" using next_file_result [of be h ret h'] a by auto
  then have "hh_num_files h < hd_files (hh_header h)" "hh_num_files h'' = hh_num_files h + 1" "hh_header h'' = hh_header h"
    using next_file_counts [of be h h'] fsl_chunks_frame [of be h' cs h''] a f by auto
  then show "((be, h''), be, h) \<in> measure (\<lambda>(be, h). unat (hd_files (hh_header h) - hh_num_files h))"
    using measure_unat [of "hd_files (hh_header h) - hh_num_files h"] by (simp add: diff_diff_eq)
qed auto

declare fsl_files.simps [simp del]

definition read_fsl_trace :: "(byte list \<Rightarrow> byte list) \<Rightarrow> bool \<Rightarrow> hashfile_handle \<Rightarrow> byte list option \<Rightarrow> chunk list res" where
  "read_fsl_trace ldf be h0 file =
     (case hashfile_open be h0 file of
        None \<Rightarrow> Inl ExitFailure
      | Some h \<Rightarrow>
          if hashfile_chunking_method_str ldf be 4096 h = None \<or> hashfile_hashing_method_str 4096 h = None then Inl ExitFailure
          else fsl_files be h)"

end
