(* ===== verification/Hashfile_Laws.thy ===== *)
theory Hashfile_Laws
  imports Hashfile
begin

text \<open>
  What is written through \<open>libhashfile\<close> is what \<open>read_fsl_trace\<close> reads: the image of a hash file of version 7,
  the reader over it, the writer that leaves it, and their composition.
\<close>

subsection \<open>Fields of packed structures\<close>

lemma field_skip: "length xs \<le> off \<Longrightarrow> field be off n (xs @ ys) = field be (off - length xs) n ys"
  by (simp add: field_def)

lemma field_here: "8 * n = LENGTH('a) \<Longrightarrow> field be 0 n (host_bytes be n w @ ys) = (w :: 'a::len word)"
  by (simp add: field_def)

lemma field_end: "8 * n = LENGTH('a) \<Longrightarrow> field be 0 n (host_bytes be n w) = (w :: 'a::len word)"
  by (simp add: field_def)

lemmas field_simps = field_skip field_here field_end

lemma length_header_bytes:
  "length (hd_path_root hdr) = 4096 \<Longrightarrow> length (hd_params hdr) = 44 \<Longrightarrow> length (hd_sysid hdr) = 4096 \<Longrightarrow>
   length (header_bytes be hdr) = 8296"
  by (simp add: header_bytes_def)

lemma header_of_bytes:
  assumes "length (hd_path_root hdr) = 4096" and "length (hd_params hdr) = 44" and "length (hd_sysid hdr) = 4096"
  shows "header_of be (header_bytes be hdr) = hdr"
  using assms by (intro header.equality) (simp_all add: header_of_def header_bytes_def field_simps)

lemma header_of_prefix:
  assumes "length (hd_path_root hdr) = 4096" and "length (hd_params hdr) = 44"
  shows "hd_magic (header_of be (take 4176 (header_bytes be hdr) @ r)) = hd_magic hdr"
    and "hd_version (header_of be (take 4176 (header_bytes be hdr) @ r)) = hd_version hdr"
  using assms by (simp_all add: header_of_def header_bytes_def field_simps)

lemma length_file_header_bytes [simp]: "length (file_header_bytes be n a) = 96"
  by (simp add: file_header_bytes_def)

lemma convert_file_header:
  "convert_to_abstract_file_header be 7 (file_header_bytes be n a) a0 =
     Inr (a\<lparr>af_chunks := n, af_path := af_path a0, af_target_path := af_target_path a0\<rparr>)"
  by (simp add: convert_to_abstract_file_header_def file_header_bytes_def field_simps)

subsection \<open>Low words\<close>

lemma unat_64: "unat (w :: 64 word) < 18446744073709551616"
proof -
  have "unat w < 2 ^ LENGTH(64)" by (rule unsigned_less)
  then show ?thesis by simp
qed

lemma from_le_append: "from_le (xs @ ys) = from_le xs OR push_bit (8 * length xs) (from_le ys)"
  by (induction xs) (simp_all add: push_bit_or push_bit_push_bit or.assoc add.commute)

lemma int32_low: "length xs = 4 \<Longrightarrow> int32 (uint (from_le (xs @ ys) :: 64 word)) = int32 (uint (from_le xs :: 64 word))"
proof -
  assume l: "length xs = 4"
  have "i32 (uint w) = ucast w" for w :: "64 word" by (simp add: i32_def)
  moreover have "(ucast (from_le (xs @ ys) :: 64 word) :: 32 word) = ucast (from_le xs :: 64 word)"
    by (rule bit_word_eqI) (auto simp: from_le_append l bit_simps)
  ultimately show ?thesis by (simp add: int32_def)
qed

lemma int32_size:
  "int32 (uint (host_word False (take 4 (host_bytes False 8 sz) @ r) :: 64 word)) = int32 (uint (sz :: 64 word))"
proof -
  let ?b = "host_bytes False 8 sz"
  have "int32 (uint (from_le (take 4 ?b @ r) :: 64 word)) = int32 (uint (from_le (take 4 ?b @ drop 4 ?b) :: 64 word))"
    using int32_low [of "take 4 ?b" r] int32_low [of "take 4 ?b" "drop 4 ?b"] by simp
  then show ?thesis using host_word_bytes [of 8 False sz] by (simp add: host_word_def)
qed

subsection \<open>Reading\<close>

lemma fd_read_ok:
  assumes "srest s = b @ r" and "swf s" and "n = length b"
  shows "\<exists>s'. fd_read n s = (b, s') \<and> srest s' = r \<and> swf s' \<and> st_file s' = st_file s"
proof -
  have "drop (st_pos s) (st_file s) = b @ r" using assms(1) by (simp add: srest_def)
  then have "drop (length b + st_pos s) (st_file s) = r" by (metis append_eq_conv_conj drop_drop)
  moreover have "st_pos s + length b \<le> length (st_file s)"
    using assms(1,2) by (metis add_le_cancel_left length_append length_drop le_add1 le_add_diff_inverse srest_def swf_def)
  ultimately show ?thesis using assms by (auto simp: fd_read_def Let_def srest_def swf_def add.commute)
qed

definition size_bytes :: "bool \<Rightarrow> 32 word \<Rightarrow> 64 word \<Rightarrow> byte list" where
  "size_bytes be m sz = (if m = VARIABLE then take 4 (host_bytes be 8 sz) else [])"

definition chunk_bytes :: "bool \<Rightarrow> 32 word \<Rightarrow> chunk_info \<Rightarrow> byte list" where
  "chunk_bytes be m ci = size_bytes be m (ci_size ci) @ ci_hash ci @ [ci_cratio ci]"

text \<open>With chunks of variable size, a size goes through the first four bytes of a 64-bit integer: the order must be little-endian.\<close>

definition reader :: "bool \<Rightarrow> hashfile_handle \<Rightarrow> bool" where
  "reader be h \<longleftrightarrow> hh_omode h = READ \<and> hd_version (hh_header h) = 7 \<and> swf (hh_file h)
     \<and> (hd_chnk_method (hh_header h) = FIXED \<or> hd_chnk_method (hh_header h) = VARIABLE \<and> \<not> be)"

definition same_reader :: "hashfile_handle \<Rightarrow> hashfile_handle \<Rightarrow> bool" where
  "same_reader h h' \<longleftrightarrow> hh_header h' = hh_header h \<and> hh_omode h' = hh_omode h \<and> st_file (hh_file h') = st_file (hh_file h)
     \<and> hh_current h' = hh_current h \<and> hh_num_files h' = hh_num_files h"

lemma same_reader_trans: "same_reader h1 h2 \<Longrightarrow> same_reader h2 h3 \<Longrightarrow> same_reader h1 h3"
  by (simp add: same_reader_def)

definition fsl_of :: "chunk_info \<Rightarrow> chunk" where
  "fsl_of ci = (new_chunk 0)\<lparr>ck_size := int32 (uint (ci_size ci)), ck_fp := ci_hash ci @ replicate (20 - length (ci_hash ci)) 0\<rparr>"

lemma next_size_ok:
  assumes "reader be h" and "srest (hh_file h) = size_bytes be (hd_chnk_method (hh_header h)) sz @ r"
    and "hd_chnk_method (hh_header h) = FIXED \<Longrightarrow> fixed_size be h = sz"
  shows "\<exists>h'. next_size be h = (True, h') \<and> reader be h' \<and> same_reader h h' \<and> srest (hh_file h') = r
    \<and> hh_num_hashes h' = hh_num_hashes h \<and> int32 (uint (ci_size (hh_chunk h'))) = int32 (uint sz)"
proof (cases "hd_chnk_method (hh_header h) = VARIABLE")
  case True
  then have n: "size_bytes be VARIABLE sz = take 4 (host_bytes False 8 sz)" "\<not> be"
    using assms(1) by (auto simp: size_bytes_def reader_def cfg_simps)
  obtain s where s: "fd_read 4 (hh_file h) = (take 4 (host_bytes False 8 sz), s)" "srest s = r" "swf s" "st_file s = st_file (hh_file h)"
    using fd_read_ok [of "hh_file h" "take 4 (host_bytes False 8 sz)" r 4] assms(1,2) n True by (auto simp: reader_def)
  then show ?thesis using assms(1) True n(2)
    by (simp add: next_size_def read_size_def reader_def same_reader_def Let_def int32_size)
next
  case False
  then have "hd_chnk_method (hh_header h) = FIXED" using assms(1) by (auto simp: reader_def)
  then show ?thesis using assms False by (simp add: next_size_def reader_def same_reader_def Let_def size_bytes_def cfg_simps)
qed

lemma next_chunk_ok:
  assumes "reader be h" and "length (ci_hash ci) = hash_bytes (hh_header h)" and "hh_num_hashes h < af_chunks (hh_current h)"
    and "srest (hh_file h) = chunk_bytes be (hd_chnk_method (hh_header h)) ci @ r"
    and "hd_chnk_method (hh_header h) = FIXED \<Longrightarrow> fixed_size be h = ci_size ci"
  shows "\<exists>h'. hashfile_next_chunk be h = Inr (True, h') \<and> reader be h' \<and> same_reader h h' \<and> srest (hh_file h') = r
    \<and> hh_num_hashes h' = hh_num_hashes h + 1 \<and> (hash_bytes (hh_header h) \<le> 20 \<longrightarrow> fsl_chunk h' = Inr (fsl_of ci))"
proof -
  let ?m = "hd_chnk_method (hh_header h)" and ?n = "hash_bytes (hh_header h)"
  obtain h1 where h1: "next_size be h = (True, h1)" "reader be h1" "same_reader h h1" "srest (hh_file h1) = ci_hash ci @ [ci_cratio ci] @ r"
    "hh_num_hashes h1 = hh_num_hashes h" "int32 (uint (ci_size (hh_chunk h1))) = int32 (uint (ci_size ci))"
    using next_size_ok [OF assms(1), of "ci_size ci" "ci_hash ci @ [ci_cratio ci] @ r"] assms(4,5) by (auto simp: chunk_bytes_def)
  have hd1: "hh_header h1 = hh_header h" using h1(3) by (simp add: same_reader_def)
  obtain s2 where s2: "fd_read ?n (hh_file h1) = (ci_hash ci, s2)" "srest s2 = [ci_cratio ci] @ r" "swf s2" "st_file s2 = st_file (hh_file h1)"
    using fd_read_ok [OF h1(4), of ?n] h1(2) assms(2) by (auto simp: reader_def)
  let ?c2 = "(hh_chunk h1)\<lparr>ci_hash := ci_hash ci @ drop ?n (ci_hash (hh_chunk h1))\<rparr>"
  let ?h2 = "h1\<lparr>hh_file := s2, hh_chunk := ?c2\<rparr>"
  have h2: "next_hash h1 = (True, ?h2)" using s2(1) assms(2) by (simp add: next_hash_def hd1 Let_def)
  obtain s3 where s3: "fd_read 1 s2 = ([ci_cratio ci], s3)" "srest s3 = r" "swf s3" "st_file s3 = st_file s2"
    using fd_read_ok [OF s2(2,3), of 1] by auto
  let ?h3 = "?h2\<lparr>hh_file := s3, hh_chunk := ?c2\<lparr>ci_cratio := ci_cratio ci\<rparr>\<rparr>"
  have v: "hd_version (hh_header h) = 7" "hh_omode h = READ" using assms(1) by (simp_all add: reader_def)
  have h3: "next_cratio ?h2 = (True, ?h3)" using s3(1) by (simp add: next_cratio_def hd1 v Let_def)
  have "hashfile_next_chunk be h = Inr (True, ?h3\<lparr>hh_num_hashes := hh_num_hashes h + 1\<rparr>)"
    using assms(3) h1(1,5) h2 h3 v by (simp add: hashfile_next_chunk_def rbind_assert)
  moreover have "fsl_chunk (?h3\<lparr>hh_num_hashes := k\<rparr>) = Inr (fsl_of ci)" if "?n \<le> 20" for k
    using that assms(2) h1(6) by (simp add: fsl_chunk_def hashfile_hash_size_def hash_bytes_def hd1 peek_def fsl_of_def)
  ultimately show ?thesis using h1 s2 s3 by (simp add: reader_def same_reader_def)
qed

text \<open>The sizes of the chunks of a file cut into pieces of \<open>cs\<close> bytes.\<close>

fun fixed_layout :: "64 word \<Rightarrow> 64 word \<Rightarrow> 64 word list \<Rightarrow> bool" where
  "fixed_layout cs left [] \<longleftrightarrow> True"
| "fixed_layout cs left [z] \<longleftrightarrow> z = left \<and> z \<le> cs"
| "fixed_layout cs left (z # zs) \<longleftrightarrow> z = cs \<and> fixed_layout cs (left - cs) zs"

definition size_left :: "bool \<Rightarrow> hashfile_handle \<Rightarrow> 64 word" where
  "size_left be h = af_file_size (hh_current h) - hh_num_hashes h * ucast (fixed_chunk_size be (hh_header h))"

lemma fixed_size_ok:
  assumes "unat (hh_num_hashes h) + length (z # zs) = unat (af_chunks (hh_current h))"
    and "fixed_layout (ucast (fixed_chunk_size be (hh_header h))) (size_left be h) (z # zs)"
  shows "fixed_size be h = z"
proof -
  let ?k = "hh_num_hashes h" and ?n = "af_chunks (hh_current h)"
  have n: "?n = ?k + of_nat (length (z # zs))" 
  proof -
    have "of_nat (unat ?n) = ?n" "of_nat (unat ?k) = ?k" by simp_all
    then show ?thesis using assms(1) by (metis of_nat_add)
  qed
  show ?thesis
  proof (cases zs)
    case Nil
    then show ?thesis using assms(2) n by (auto simp: fixed_size_def size_left_def Let_def)
  next
    case (Cons z' zs')
    have "length zs < 2 ^ LENGTH(64)" using assms(1) unat_64 [of ?n] by simp
    then have "of_nat (length zs) \<noteq> (0 :: 64 word)" 
    proof -
      have "0 < length zs" using Cons by simp
      with \<open>length zs < 2 ^ LENGTH(64)\<close> have "\<not> 2 ^ LENGTH(64) dvd length zs" by (meson dvd_imp_le not_le)
      then show ?thesis by (simp only: word_of_nat_eq_0_iff not_False_eq_True)
    qed
    then have "?n - 1 \<noteq> ?k" using n by (simp add: algebra_simps)
    then show ?thesis using assms(2) Cons by (simp add: fixed_size_def Let_def)
  qed
qed

lemma fsl_chunks_ok:
  assumes "reader be h" and "list_all (\<lambda>ci. length (ci_hash ci) = hash_bytes (hh_header h)) cis" and "hash_bytes (hh_header h) \<le> 20"
    and "unat (hh_num_hashes h) + length cis = unat (af_chunks (hh_current h))"
    and "srest (hh_file h) = concat (map (chunk_bytes be (hd_chnk_method (hh_header h))) cis) @ r"
    and "hd_chnk_method (hh_header h) = FIXED \<Longrightarrow>
      fixed_layout (ucast (fixed_chunk_size be (hh_header h))) (size_left be h) (map ci_size cis)"
  shows "\<exists>h'. fsl_chunks be h = Inr (map fsl_of cis, h') \<and> reader be h' \<and> same_reader h h' \<and> srest (hh_file h') = r
    \<and> hh_num_hashes h' = af_chunks (hh_current h)"
  using assms
proof (induction cis arbitrary: h)
  case Nil
  then have "hh_num_hashes h = af_chunks (hh_current h)" by (simp add: word_unat_eq_iff)
  then have "fsl_chunks be h = Inr ([], h)" using Nil(1) by (subst fsl_chunks.simps) (simp add: hashfile_next_chunk_def reader_def)
  then show ?case using Nil \<open>hh_num_hashes h = _\<close> by (simp add: same_reader_def)
next
  case (Cons ci cis)
  have k: "hh_num_hashes h < af_chunks (hh_current h)" using Cons.prems(4) by (simp add: word_less_nat_alt)
  have sz: "fixed_size be h = ci_size ci" if "hd_chnk_method (hh_header h) = FIXED"
    using fixed_size_ok [of h "ci_size ci" "map ci_size cis" be] Cons.prems(4,6) that by simp
  obtain h1 where h1: "hashfile_next_chunk be h = Inr (True, h1)" "reader be h1" "same_reader h h1"
    "srest (hh_file h1) = concat (map (chunk_bytes be (hd_chnk_method (hh_header h))) cis) @ r"
    "hh_num_hashes h1 = hh_num_hashes h + 1" "fsl_chunk h1 = Inr (fsl_of ci)"
    using next_chunk_ok [OF Cons.prems(1) _ k _ sz] Cons.prems(2,3,5) by auto
  have same: "hh_header h1 = hh_header h" "hh_current h1 = hh_current h" using h1(3) by (simp_all add: same_reader_def)
  have u: "unat (hh_num_hashes h1) = unat (hh_num_hashes h) + 1"
  proof -
    have "unat (hh_num_hashes h) < unat (af_chunks (hh_current h))" using k by (simp add: word_less_nat_alt)
    then have "unat (hh_num_hashes h) < 18446744073709551615" using unat_64 [of "af_chunks (hh_current h)"] by linarith
    then show ?thesis using h1(5) unat_add_lem [of "hh_num_hashes h" 1] by simp
  qed
  have lay: "fixed_layout (ucast (fixed_chunk_size be (hh_header h1))) (size_left be h1) (map ci_size cis)"
    if "hd_chnk_method (hh_header h1) = FIXED"
    using Cons.prems(6) that same h1(5) by (cases cis) (auto simp: size_left_def algebra_simps)
  obtain h2 where "fsl_chunks be h1 = Inr (map fsl_of cis, h2)" "reader be h2" "same_reader h1 h2" "srest (hh_file h2) = r"
    "hh_num_hashes h2 = af_chunks (hh_current h1)"
    using Cons.IH [OF h1(2) _ _ _ _ lay] Cons.prems(2,3,4) h1(4) same u by auto
  moreover have "fsl_chunks be h = Inr (map fsl_of (ci # cis), h2)" if "fsl_chunks be h1 = Inr (map fsl_of cis, h2)"
    by (subst fsl_chunks.simps) (simp add: h1(1,6) that)
  ultimately show ?case using same h1(3) same_reader_trans by auto
qed

subsection \<open>The next file\<close>

type_synonym item = "byte list \<times> file_stat \<times> byte list \<times> chunk_info list"   \<comment> \<open>path, status, target of a link, chunks\<close>

definition item_header :: "byte list \<Rightarrow> file_stat \<Rightarrow> byte list \<Rightarrow> file_header" where
  "item_header path st target =
     \<lparr>af_file_size = sb_size st, af_blocks = sb_blocks st, af_uid = sb_uid st, af_gid = sb_gid st, af_perm = sb_mode st,
      af_atime = sb_atime st, af_mtime = sb_mtime st, af_ctime = sb_ctime st, af_hardlinks = sb_nlink st,
      af_deviceid = sb_dev st, af_inodenum = sb_ino st, af_chunks = 0, af_pathlen = word_of_nat (length path), af_path = [],
      af_target_pathlen = (if S_ISLNK (sb_mode st) then word_of_nat (length target) else 0), af_target_path = []\<rparr>"

definition link_bytes :: "file_stat \<Rightarrow> byte list \<Rightarrow> byte list" where
  "link_bytes st target = (if S_ISLNK (sb_mode st) then target else [])"

definition head_bytes :: "bool \<Rightarrow> nat \<Rightarrow> byte list \<Rightarrow> file_stat \<Rightarrow> byte list \<Rightarrow> byte list" where
  "head_bytes be n path st target = file_header_bytes be (of_nat n) (item_header path st target) @ path @ link_bytes st target"

definition item_bytes :: "bool \<Rightarrow> 32 word \<Rightarrow> item \<Rightarrow> byte list" where
  "item_bytes be m = (\<lambda>(path, st, target, cis). head_bytes be (length cis) path st target @ concat (map (chunk_bytes be m) cis))"

definition path_ok :: "byte list \<Rightarrow> bool" where
  "path_ok p \<longleftrightarrow> 0 \<notin> set p \<and> length p < MAX_PATH_SIZE"

definition block_len :: "header \<Rightarrow> nat" where
  "block_len hdr = hash_bytes hdr + (if hd_chnk_method hdr = VARIABLE then 4 else 0) + 1"

lemma sint_small: "uint w < 2 ^ 63 \<Longrightarrow> sint (w :: 64 word) = uint w"
proof -
  assume "uint w < 2 ^ 63"
  moreover have "- (2 ^ 63) \<le> uint w" 
  proof -
    have "0 \<le> uint w" by simp
    then show ?thesis by (rule order_trans [rotated]) simp
  qed
  ultimately show ?thesis using sint_i64 [of "uint w"] by (simp add: in64_def i64_def)
qed

lemma skip_ok:
  assumes "length xs = unat k * n" and "srest s = xs @ r" and "swf s" and "length (st_file s) < 2 ^ 63" and "n < 100"
  shows "fd_skip (k * of_nat n) s = s\<lparr>st_pos := st_pos s + length xs\<rparr>"
proof -
  have le: "st_pos s + length xs \<le> length (st_file s)" using assms(2,3)
    by (metis add_le_cancel_left length_append length_drop le_add1 le_add_diff_inverse srest_def swf_def)
  have n: "unat (of_nat n :: 64 word) = n" using assms(5) by (simp add: unat_of_nat)
  have "unat k * n < 2 ^ LENGTH(64)" using le assms(1,4) by simp
  then have "unat (k * of_nat n) = length xs" using unat_mult_lem [of k "of_nat n :: 64 word"] n assms(1) by simp
  then have "uint (k * of_nat n) = int (length xs)" by (simp add: uint_nat)
  moreover then have "sint (k * of_nat n) = int (length xs)" using le assms(4) by (simp add: sint_small)
  ultimately show ?thesis using le assms(4) by (simp add: fd_skip_def Let_def nat_int_add)
qed

lemma block_word:
  assumes "hd_version hdr = 7" and "hd_chnk_method hdr = FIXED \<or> hd_chnk_method hdr = VARIABLE"
  shows "(let n = ucast (hd_hash_size hdr div 8);
              n = (if hd_chnk_method hdr = VARIABLE then
                     if hd_version hdr \<ge> 7 then n + 4 else if hd_version hdr \<ge> 3 then n + 8 else n
                   else n)
          in if hd_version hdr \<ge> 6 then n + 1 else n) = (of_nat (block_len hdr) :: 64 word)"
proof -
  have "(ucast (hd_hash_size hdr div 8) :: 64 word) = of_nat (hash_bytes hdr)" by (simp add: hash_bytes_def)
  then show ?thesis using assms by (auto simp: block_len_def Let_def cfg_simps)
qed

lemma skip_hashes_ok:
  assumes "reader be h" and "hash_bytes (hh_header h) \<le> 20" and "srest (hh_file h) = xs @ r" and "length (st_file (hh_file h)) < 2 ^ 63"
    and "length xs = unat (af_chunks (hh_current h) - hh_num_hashes h) * block_len (hh_header h)"
  shows "srest (skip_over_current_file_hashes h) = r \<and> swf (skip_over_current_file_hashes h)
    \<and> st_file (skip_over_current_file_hashes h) = st_file (hh_file h)"
proof -
  have v: "hd_version (hh_header h) = 7" "swf (hh_file h)"
    "hd_chnk_method (hh_header h) = FIXED \<or> hd_chnk_method (hh_header h) = VARIABLE" using assms(1) by (auto simp: reader_def)
  have "block_len (hh_header h) < 100" using assms(2) by (simp add: block_len_def)
  from skip_ok [OF assms(5,3) v(2) assms(4) this]
  have "skip_over_current_file_hashes h = (hh_file h)\<lparr>st_pos := st_pos (hh_file h) + length xs\<rparr>"
    using block_word [OF v(1,3)] unfolding skip_over_current_file_hashes_def Let_def by simp
  moreover have "drop (length xs) (srest (hh_file h)) = r" using assms(3) by simp
  moreover have "st_pos (hh_file h) + length xs \<le> length (st_file (hh_file h))" using assms(3) v(2)
    by (metis add_le_cancel_left length_append length_drop le_add1 le_add_diff_inverse srest_def swf_def)
  ultimately show ?thesis by (simp add: srest_def swf_def add.commute)
qed

lemma read_name_ok:
  assumes "srest s = p @ r" and "swf s" and "length p < MAX_PATH_SIZE"
  shows "\<exists>s'. read_name (length p) buf s = Inr (True, p @ 0 # drop (length p + 1) buf, s') \<and> srest s' = r \<and> swf s' \<and> st_file s' = st_file s"
  using fd_read_ok [OF assms(1,2), of "length p"] assms(3) by (auto simp: read_name_def)

lemma read_paths_ok:
  assumes "reader be h" and "srest (hh_file h) = path @ link_bytes st target @ r" and "path_ok path" and "path_ok target"
    and "hh_current h = (item_header path st target)\<lparr>af_chunks := n, af_path := b1, af_target_path := b2\<rparr>"
  shows "\<exists>h' b. read_paths h = Inr (True, h') \<and> reader be h' \<and> srest (hh_file h') = r
    \<and> hh_header h' = hh_header h \<and> st_file (hh_file h') = st_file (hh_file h) \<and> hh_num_files h' = hh_num_files h
    \<and> hh_num_hashes h' = hh_num_hashes h \<and> af_path (hh_current h') = path @ 0 # b
    \<and> af_chunks (hh_current h') = n \<and> af_file_size (hh_current h') = sb_size st"
proof -
  have l: "unat (word_of_nat (length p) :: 32 word) = length p" if "path_ok p" for p
    using that by (simp add: path_ok_def unat_of_nat cfg_simps)
  have v: "hd_version (hh_header h) = 7" "swf (hh_file h)" using assms(1) by (simp_all add: reader_def)
  have pl: "length path < MAX_PATH_SIZE" "length target < MAX_PATH_SIZE" using assms(3,4) by (simp_all add: path_ok_def)
  obtain s1 where s1: "read_name (length path) b1 (hh_file h) = Inr (True, path @ 0 # drop (length path + 1) b1, s1)"
    "srest s1 = link_bytes st target @ r" "swf s1" "st_file s1 = st_file (hh_file h)"
    using read_name_ok [OF assms(2) v(2) pl(1)] by blast
  have fields: "af_pathlen (hh_current h) = word_of_nat (length path)" "af_path (hh_current h) = b1" "af_perm (hh_current h) = sb_mode st"
    by (simp_all add: assms(5) item_header_def)
  show ?thesis
  proof (cases "S_ISLNK (sb_mode st)")
    case True
    obtain s2 where s2: "read_name (length target) b2 s1 = Inr (True, target @ 0 # drop (length target + 1) b2, s2)"
      "srest s2 = r" "swf s2" "st_file s2 = st_file s1"
      using read_name_ok [of s1 target r b2] s1(2,3) pl(2) True by (auto simp: link_bytes_def)
    have f2: "af_target_pathlen (hh_current h) = word_of_nat (length target)" "af_target_path (hh_current h) = b2"
      using True by (simp_all add: assms(5) item_header_def)
    show ?thesis using s1 s2 True v assms(1)
      by (simp add: read_paths_def Let_def fields f2 l [OF assms(3)] l [OF assms(4)] reader_def) (simp add: assms(5) item_header_def)
  next
    case False
    then show ?thesis using s1 v assms(1)
      by (simp add: read_paths_def Let_def fields l [OF assms(3)] reader_def link_bytes_def) (simp add: assms(5) item_header_def)
  qed
qed

lemma next_file_ok:
  assumes "reader be h" and "hash_bytes (hh_header h) \<le> 20" and "length (st_file (hh_file h)) < 2 ^ 63"
    and "hh_num_files h < hd_files (hh_header h)" and "path_ok path" and "path_ok target"
    and "srest (hh_file h) = xs @ head_bytes be n path st target @ r"
    and "length xs = unat (af_chunks (hh_current h) - hh_num_hashes h) * block_len (hh_header h)"
  shows "\<exists>h' b. hashfile_next_file be h = Inr (1, h') \<and> reader be h' \<and> srest (hh_file h') = r
    \<and> hh_header h' = hh_header h \<and> st_file (hh_file h') = st_file (hh_file h) \<and> hh_num_files h' = hh_num_files h + 1
    \<and> hh_num_hashes h' = 0 \<and> hashfile_curfile_path h' = path @ 0 # b
    \<and> af_chunks (hh_current h') = of_nat n \<and> af_file_size (hh_current h') = sb_size st"
proof -
  have v: "hd_version (hh_header h) = 7" "hh_omode h = READ" using assms(1) by (simp_all add: reader_def)
  let ?h1 = "h\<lparr>hh_file := skip_over_current_file_hashes h, hh_num_hashes := af_chunks (hh_current h)\<rparr>"
  let ?fh = "file_header_bytes be (of_nat n) (item_header path st target)"
  let ?a = "(item_header path st target)\<lparr>af_chunks := of_nat n, af_path := af_path (hh_current h), af_target_path := af_target_path (hh_current h)\<rparr>"
  note skip = skip_hashes_ok [OF assms(1,2,7,3,8)]
  obtain s2 where s2: "fd_read 96 (skip_over_current_file_hashes h) = (?fh, s2)" "srest s2 = path @ link_bytes st target @ r" "swf s2"
    "st_file s2 = st_file (hh_file h)"
    using fd_read_ok [of "skip_over_current_file_hashes h" ?fh "path @ link_bytes st target @ r" 96] skip by (auto simp: head_bytes_def)
  have "reader be (?h1\<lparr>hh_file := s2, hh_current := ?a\<rparr>)" using assms(1) s2(3) by (simp add: reader_def)
  from read_paths_ok [OF this _ assms(5,6), where r = r and n = "of_nat n" and st = st and ?b1.0 = "af_path (hh_current h)" and ?b2.0 = "af_target_path (hh_current h)"] s2(2,4) obtain h' b where
    h': "read_paths (?h1\<lparr>hh_file := s2, hh_current := ?a\<rparr>) = Inr (True, h')" "reader be h'" "srest (hh_file h') = r"
      "hh_header h' = hh_header h" "st_file (hh_file h') = st_file (hh_file h)" "hh_num_files h' = hh_num_files h"
      "af_path (hh_current h') = path @ 0 # b" "af_chunks (hh_current h') = of_nat n" "af_file_size (hh_current h') = sb_size st"
    by auto
  have "hashfile_next_file be h = Inr (1, h'\<lparr>hh_num_files := hh_num_files h' + 1, hh_num_hashes := 0\<rparr>)"
    using assms(4) v s2(1) h'(1)
    by (simp add: hashfile_next_file_def rbind_assert file_header_size_def Let_def convert_file_header) 
  then show ?thesis using h' by (simp add: reader_def hashfile_curfile_path_def)
qed

subsection \<open>Reading a whole hash file\<close>

definition fsl_stream :: "item \<Rightarrow> chunk list" where
  "fsl_stream = (\<lambda>(path, st, target, cis).
     SET_CHUNK ((new_chunk (int (length path) + 1))\<lparr>ck_data := path @ [0]\<rparr>) CHUNK_FILE_START
       # map fsl_of cis @ [SET_CHUNK (new_chunk 0) CHUNK_FILE_END])"

definition item_ok :: "32 word \<Rightarrow> 32 word \<Rightarrow> nat \<Rightarrow> item \<Rightarrow> bool" where
  "item_ok m cs n = (\<lambda>(path, st, target, cis).
     path_ok path \<and> path_ok target \<and> list_all (\<lambda>ci. length (ci_hash ci) = n) cis \<and> length cis < 2 ^ 64
     \<and> (m = FIXED \<longrightarrow> fixed_layout (ucast cs) (sb_size st) (map ci_size cis)))"

definition items_ok :: "bool \<Rightarrow> header \<Rightarrow> item list \<Rightarrow> bool" where
  "items_ok be hdr items \<longleftrightarrow> list_all (item_ok (hd_chnk_method hdr) (fixed_chunk_size be hdr) (hash_bytes hdr)) items"

lemma fsl_files_ok:
  assumes "reader be h" and "hash_bytes (hh_header h) \<le> 20" and "length (st_file (hh_file h)) < 2 ^ 63"
    and "items_ok be (hh_header h) items" and "hh_num_hashes h = af_chunks (hh_current h)"
    and "unat (hh_num_files h) + length items = unat (hd_files (hh_header h))"
    and "srest (hh_file h) = concat (map (item_bytes be (hd_chnk_method (hh_header h))) items)"
  shows "fsl_files be h = Inr (concat (map fsl_stream items))"
  using assms
proof (induction items arbitrary: h)
  case Nil
  then have "hh_num_files h = hd_files (hh_header h)" by (simp add: word_unat_eq_iff)
  then show ?case using Nil(1) by (subst fsl_files.simps) (simp add: hashfile_next_file_def reader_def)
next
  case (Cons item items)
  obtain path st target cis where it: "item = (path, st, target, cis)" by (cases item)
  let ?m = "hd_chnk_method (hh_header h)"
  have ok: "path_ok path" "path_ok target" "list_all (\<lambda>ci. length (ci_hash ci) = hash_bytes (hh_header h)) cis" "length cis < 2 ^ 64"
    using Cons.prems(4) it by (simp_all add: items_ok_def item_ok_def)
  have lt: "hh_num_files h < hd_files (hh_header h)" using Cons.prems(6) by (simp add: word_less_nat_alt)
  have r: "srest (hh_file h) = [] @ head_bytes be (length cis) path st target @
      concat (map (chunk_bytes be ?m) cis) @ concat (map (item_bytes be ?m) items)"
    using Cons.prems(7) it by (simp add: item_bytes_def)
  have z: "length ([] :: byte list) = unat (af_chunks (hh_current h) - hh_num_hashes h) * block_len (hh_header h)" using Cons.prems(5) by simp
  obtain h1 b where h1: "hashfile_next_file be h = Inr (1, h1)" "reader be h1"
    "srest (hh_file h1) = concat (map (chunk_bytes be ?m) cis) @ concat (map (item_bytes be ?m) items)"
    "hh_header h1 = hh_header h" "st_file (hh_file h1) = st_file (hh_file h)" "hh_num_files h1 = hh_num_files h + 1"
    "hh_num_hashes h1 = 0" "hashfile_curfile_path h1 = path @ 0 # b" "af_chunks (hh_current h1) = of_nat (length cis)"
    "af_file_size (hh_current h1) = sb_size st"
    using next_file_ok [OF Cons.prems(1-3) lt ok(1,2) r z] by blast
  have n: "unat (hh_num_hashes h1) + length cis = unat (af_chunks (hh_current h1))" using h1(7,9) ok(4) by (simp add: unat_of_nat)
  have lay: "fixed_layout (ucast (fixed_chunk_size be (hh_header h1))) (size_left be h1) (map ci_size cis)"
    if "hd_chnk_method (hh_header h1) = FIXED"
    using Cons.prems(4) it that h1(4,7,10) by (simp add: items_ok_def item_ok_def size_left_def)
  obtain h2 where h2: "fsl_chunks be h1 = Inr (map fsl_of cis, h2)" "reader be h2" "same_reader h1 h2"
    "srest (hh_file h2) = concat (map (item_bytes be ?m) items)" "hh_num_hashes h2 = af_chunks (hh_current h1)"
    using fsl_chunks_ok [OF h1(2) _ _ n _ lay] ok(3) Cons.prems(2) h1(3,4) by auto
  have same: "hh_header h2 = hh_header h" "st_file (hh_file h2) = st_file (hh_file h)" "hh_num_files h2 = hh_num_files h + 1"
    "hh_current h2 = hh_current h1" using h2(3) h1(4-6) by (simp_all add: same_reader_def)
  have u: "unat (hh_num_files h2) = unat (hh_num_files h) + 1"
  proof -
    have "unat (hh_num_files h) < unat (hd_files (hh_header h))" using lt by (simp add: word_less_nat_alt)
    then have "unat (hh_num_files h) < 18446744073709551615" using unat_64 [of "hd_files (hh_header h)"] by linarith
    then show ?thesis using same(3) unat_add_lem [of "hh_num_files h" 1] by simp
  qed
  have IH: "fsl_files be h2 = Inr (concat (map fsl_stream items))"
    using Cons.IH [OF h2(2)] Cons.prems(2,3,4,6) h2(4,5) same u by (simp add: items_ok_def)
  have p: "c_strlen (path @ 0 # b) = Inr (length path)"
    using ok(1) unfolding c_strlen_def path_ok_def by (subst takeWhile_append2) auto
  have d: "take (length path + 1) (path @ 0 # b) = path @ [0]" by simp
  have "fsl_files be h = Inr (fsl_stream item @ concat (map fsl_stream items))"
    by (subst fsl_files.simps) (simp add: h1(1,8) p d [unfolded add.commute [of _ 1], simplified] h2(1) IH fsl_stream_def it Let_def)
  then show ?case by simp
qed

text \<open>\<open>hashfile_reset\<close>, from wherever the reader is, starts the scan of a file of version 7 again. (It passes over
  \<open>sizeof(handle->header)\<close> bytes, which is the header of the versions from 5 only.)\<close>

lemma reset_rereads:
  assumes "reader be h" and "hash_bytes (hh_header h) \<le> 20" and "items_ok be (hh_header h) items" and "length hb = 8296"
    and "st_file (hh_file h) = hb @ concat (map (item_bytes be (hd_chnk_method (hh_header h))) items)"
    and "length (st_file (hh_file h)) < 2 ^ 63" and "hd_files (hh_header h) = of_nat (length items)" and "length items < 2 ^ 64"
  shows "\<exists>h'. hashfile_reset h = (0, h') \<and> fsl_files be h' = Inr (concat (map fsl_stream items))"
proof -
  let ?h = "h\<lparr>hh_file := (hh_file h)\<lparr>st_pos := header_v4_size\<rparr>, hh_num_files := 0, hh_num_hashes := 0,
      hh_current := (hh_current h)\<lparr>af_chunks := 0\<rparr>\<rparr>"
  have "reader be ?h" using assms(1,4,5) by (simp add: reader_def swf_def cfg_simps)
  moreover have "srest (hh_file ?h) = concat (map (item_bytes be (hd_chnk_method (hh_header h))) items)"
    using assms(4,5) by (simp add: srest_def cfg_simps)
  ultimately have "fsl_files be ?h = Inr (concat (map fsl_stream items))"
    using fsl_files_ok [of be ?h items] assms(2,3,6-8) by (simp add: unat_of_nat)
  moreover have "hashfile_reset h = (0, ?h)" using assms(1) by (simp add: hashfile_reset_def reader_def)
  ultimately show ?thesis by blast
qed

definition hash_method_ok :: "32 word \<Rightarrow> bool" where
  "hash_method_ok m \<longleftrightarrow> m \<in> {MD5_HASH, MD5_48BIT_HASH, SHA256_HASH, SHA1_HASH, MURMUR_HASH}"

definition file_header_ok :: "bool \<Rightarrow> header \<Rightarrow> bool" where
  "file_header_ok be hdr \<longleftrightarrow>
     length (hd_path_root hdr) = 4096 \<and> length (hd_params hdr) = 44 \<and> length (hd_sysid hdr) = 4096
     \<and> hd_magic hdr = HASH_FILE_MAGIC \<and> hd_version hdr = 7 \<and> hash_method_ok (hd_hsh_method hdr) \<and> hash_bytes hdr \<le> 20
     \<and> (hd_chnk_method hdr = FIXED
        \<or> hd_chnk_method hdr = VARIABLE \<and> \<not> be \<and> (field be 0 4 (hd_params hdr) :: 32 word) \<in> {1, 2, 3})"

lemma read_hashfile_ok:
  assumes "file_header_ok be hdr" and "hd_files hdr = of_nat (length items)" and "length items < 2 ^ 64"
    and "items_ok be hdr items" and "f = header_bytes be hdr @ concat (map (item_bytes be (hd_chnk_method hdr)) items)"
    and "length f < 2 ^ 63"
  shows "read_fsl_trace ldf be h0 (Some f) = Inr (concat (map fsl_stream items))"
proof -
  let ?s = "\<lparr>st_file = f, st_pos = 0, st_writable = False\<rparr>" and ?b = "header_bytes be hdr"
  have hdr: "length (hd_path_root hdr) = 4096" "length (hd_params hdr) = 44" "length (hd_sysid hdr) = 4096"
    "hd_magic hdr = HASH_FILE_MAGIC" "hd_version hdr = 7" "hash_method_ok (hd_hsh_method hdr)" "hash_bytes hdr \<le> 20"
    using assms(1) by (simp_all add: file_header_ok_def)
  have l: "length ?b = 8296" by (rule length_header_bytes [OF hdr(1-3)])
  have s: "srest ?s = take 4176 ?b @ drop 4176 ?b @ concat (map (item_bytes be (hd_chnk_method hdr)) items)" "swf ?s"
    "srest ?s = ?b @ concat (map (item_bytes be (hd_chnk_method hdr)) items)"
    by (simp_all add: srest_def swf_def assms(5) flip: append_assoc)
  obtain s1 where s1: "fd_read 4176 ?s = (take 4176 ?b, s1)" "st_file s1 = f"
    using fd_read_ok [OF s(1,2), of 4176] l by auto
  obtain s2 where s2: "fd_read 8296 ?s = (?b, s2)" "srest s2 = concat (map (item_bytes be (hd_chnk_method hdr)) items)" "swf s2" "st_file s2 = f"
    using fd_read_ok [OF s(3,2), of 8296] l by auto
  have "st_writable s1 = False" using s1(1) by (auto simp: fd_read_def Let_def)
  then have rew: "s1\<lparr>st_pos := 0\<rparr> = ?s" using s1(2) by simp
  let ?h1 = "header_of be (take 4176 ?b @ drop 4176 (header_bytes be (hh_header h0)))"
  have r1: "read_header be header_size (hh_header h0) ?s = Some (?h1, s1)"
    using s1(1) l by (simp add: read_header_def cfg_simps)
  have r2: "read_header be header_v4_size ?h1 ?s = Some (hdr, s2)"
  proof -
    have "header_of be (?b @ r) = hdr" for r
      using hdr(1-3) by (intro header.equality) (simp_all add: header_of_def header_bytes_def field_simps)
    then show ?thesis using s2(1) l by (simp add: read_header_def cfg_simps)
  qed
  let ?h = "h0\<lparr>hh_header := hdr, hh_omode := READ, hh_file := s2, hh_num_files := 0, hh_num_hashes := 0,
      hh_current := (hh_current h0)\<lparr>af_chunks := 0\<rparr>\<rparr>"
  have "hashfile_open be h0 (Some f) = Some ?h"
    using hdr header_of_prefix [OF hdr(1,2), of be "drop 4176 (header_bytes be (hh_header h0))"]
    by (simp add: hashfile_open_def r1 r2 rew version_supported_def)
  moreover have "hashfile_hashing_method_str 4096 ?h \<noteq> None"
    using hdr(6) by (auto simp: hashfile_hashing_method_str_def hashfile_hashing_method_def hash_method_ok_def Let_def)
  moreover have "hashfile_chunking_method_str ldf be 4096 ?h \<noteq> None"
    using assms(1) by (auto simp: hashfile_chunking_method_str_def hashfile_chunking_method_def variable_str_def file_header_ok_def Let_def)
  moreover have "reader be ?h" using assms(1) s2(3) hdr(5) by (auto simp: reader_def file_header_ok_def)
  then have "fsl_files be ?h = Inr (concat (map fsl_stream items))"
    using fsl_files_ok [of be ?h items] hdr(7) assms(2,3,4,6) s2 by (simp add: unat_of_nat)
  ultimately show ?thesis by (simp add: read_fsl_trace_def)
qed

end
