(* ===== verification/Hashfile_Write.thy ===== *)
theory Hashfile_Write
  imports Hashfile_Laws
begin

text \<open>
  The writer of \<open>libhashfile\<close>: after each call the file holds the header it was opened with, the files that are
  finished, and the one that is not, whose header has no chunks yet. Closing puts the counters into the headers.
\<close>

subsection \<open>Writes at the end and over the same length\<close>

lemma f_write_at:
  "length old = length bs \<or> old = [] \<and> post = [] \<Longrightarrow> f_write (length pre) bs (pre @ old @ post) = pre @ bs @ post"
  by (auto simp: f_write_def Let_def)

lemma put_bytes_at:
  assumes "st_writable (hh_file h)" and "st_file (hh_file h) = pre @ old @ post" and "st_pos (hh_file h) = length pre"
    and "length old = length bs \<or> old = [] \<and> post = []" and "length pre + length bs \<le> lim"
  shows "put_bytes lim (Inr bs) h =
    Inr (True, h\<lparr>hh_file := (hh_file h)\<lparr>st_file := pre @ bs @ post, st_pos := length pre + length bs\<rparr>\<rparr>)"
proof -
  have "min (length bs) (lim - length pre) = length bs" using assms(5) by simp
  then show ?thesis using assms f_write_at [OF assms(4), of pre] by (simp add: put_bytes_def fd_write_def fwrite_def Let_def)
qed

definition at_end :: "hashfile_handle \<Rightarrow> bool" where
  "at_end h \<longleftrightarrow> hh_omode h = WRITE \<and> st_writable (hh_file h) \<and> st_pos (hh_file h) = length (st_file (hh_file h))"

definition extend_file :: "byte list \<Rightarrow> hashfile_handle \<Rightarrow> hashfile_handle" where
  "extend_file bs h = h\<lparr>hh_file := (hh_file h)\<lparr>st_file := st_file (hh_file h) @ bs, st_pos := st_pos (hh_file h) + length bs\<rparr>\<rparr>"

lemma put_bytes_end:
  "at_end h \<Longrightarrow> length (st_file (hh_file h)) + length bs \<le> lim \<Longrightarrow> put_bytes lim (Inr bs) h = Inr (True, extend_file bs h)"
  using put_bytes_at [of h "st_file (hh_file h)" "[]" "[]" bs lim] by (simp add: at_end_def extend_file_def)

lemma extend_file_simps [simp]:
  "at_end h \<Longrightarrow> at_end (extend_file bs h)"
  "st_file (hh_file (extend_file bs h)) = st_file (hh_file h) @ bs"
  "hh_header (extend_file bs h) = hh_header h" "hh_current (extend_file bs h) = hh_current h"
  "hh_num_files (extend_file bs h) = hh_num_files h" "hh_num_hashes (extend_file bs h) = hh_num_hashes h"
  "hh_offset (extend_file bs h) = hh_offset h" "hh_omode (extend_file bs h) = hh_omode h"
  by (simp_all add: extend_file_def at_end_def)

lemma and_then_simps [simp]:
  "and_then (Inr (True, h)) f = f h"
  "and_then (Inr (False, h)) f = Inr (False, h)"
  "and_then (Inl e) f = Inl e"
  by (simp_all add: and_then_def)

subsection \<open>The file that is written\<close>

definition names_ok :: "byte list \<Rightarrow> file_stat \<Rightarrow> byte list \<Rightarrow> file_header \<Rightarrow> bool" where
  "names_ok path st target a \<longleftrightarrow>
     (\<forall>be n. file_header_bytes be n a = file_header_bytes be n (item_header path st target))
     \<and> af_perm a = sb_mode st \<and> unat (af_pathlen a) = length path \<and> peek 0 (length path) (af_path a) = Inr path
     \<and> unat (af_target_pathlen a) = length (link_bytes st target) \<and> af_chunks a = 0
     \<and> (S_ISLNK (sb_mode st) \<longrightarrow> peek 0 (length target) (af_target_path a) = Inr target)"

lemma strncpy_ok:
  assumes "path_ok p"
  shows "c_strlen (strncpy MAX_PATH_SIZE p) = Inr (length p)" and "peek 0 (length p) (strncpy MAX_PATH_SIZE p) = Inr p"
proof -
  have l: "length p < MAX_PATH_SIZE" "0 \<notin> set p" using assms by (simp_all add: path_ok_def)
  then obtain k where k: "MAX_PATH_SIZE - length p = Suc k" by (metis Suc_diff_Suc)
  then have "Suc k \<le> MAX_PATH_SIZE" by simp
  then have s: "strncpy MAX_PATH_SIZE p = p @ 0 # replicate k 0" using l k by (simp add: strncpy_def min_def)
  show "c_strlen (strncpy MAX_PATH_SIZE p) = Inr (length p)"
    unfolding s c_strlen_def using l(2) by (subst takeWhile_append2) auto
  show "peek 0 (length p) (strncpy MAX_PATH_SIZE p) = Inr p" unfolding s by (simp add: peek_def)
qed

lemma unat_path: "path_ok p \<Longrightarrow> unat (word_of_nat (length p) :: 32 word) = length p"
  by (simp add: path_ok_def unat_of_nat cfg_simps)

lemma new_current_ok:
  assumes "path_ok path" and "path_ok target"
  shows "\<exists>a'. new_current path st target a = Inr a' \<and> names_ok path st target a'"
  using strncpy_ok [OF assms(1)] strncpy_ok [OF assms(2)] unat_path [OF assms(1)] unat_path [OF assms(2)]
  by (auto simp: new_current_def names_ok_def Let_def link_bytes_def item_header_def file_header_bytes_def)

text \<open>The state while the file \<open>(path, st, target)\<close> gets its chunks \<open>cis\<close>; \<open>pre\<close> is what the hash file holds before it.\<close>

definition in_file :: "bool \<Rightarrow> byte list \<Rightarrow> item \<Rightarrow> hashfile_handle \<Rightarrow> bool" where
  "in_file be pre = (\<lambda>(path, st, target, cis) h.
     at_end h \<and> names_ok path st target (hh_current h) \<and> hh_offset h = length pre \<and> hh_num_files h \<noteq> 0
     \<and> hh_num_hashes h = of_nat (length cis)
     \<and> st_file (hh_file h) = pre @ head_bytes be 0 path st target @ concat (map (chunk_bytes be (hd_chnk_method (hh_header h))) cis))"

lemma finalize_file_ok:
  assumes "in_file be pre (path, st, target, cis) h" and "length (st_file (hh_file h)) \<le> lim"
  shows "\<exists>h'. finalize_file be lim h = Inr (True, h') \<and> at_end h' \<and> hh_header h' = hh_header h \<and> hh_num_files h' = hh_num_files h
    \<and> st_file (hh_file h') = pre @ item_bytes be (hd_chnk_method (hh_header h)) (path, st, target, cis)"
proof -
  let ?a = "hh_current h" and ?cs = "concat (map (chunk_bytes be (hd_chnk_method (hh_header h))) cis)" and ?l = "link_bytes st target"
  let ?old = "file_header_bytes be 0 (item_header path st target)"
  let ?new = "file_header_bytes be (of_nat (length cis)) (item_header path st target)"
  have h: "at_end h" "names_ok path st target ?a" "hh_offset h = length pre" "hh_num_files h \<noteq> 0" "hh_num_hashes h = of_nat (length cis)"
    "st_file (hh_file h) = pre @ ?old @ path @ ?l @ ?cs"
    using assms(1) by (simp_all add: in_file_def head_bytes_def)
  let ?file = "\<lambda>f p. (hh_file h)\<lparr>st_file := f, st_pos := p\<rparr>"
  have w: "st_writable (hh_file h)" using h(1) by (simp add: at_end_def)
  let ?h1 = "h\<lparr>hh_file := ?file (pre @ ?new @ path @ ?l @ ?cs) (length pre + 96)\<rparr>"
  have p1: "put_bytes lim (Inr ?new) (h\<lparr>hh_file := (hh_file h)\<lparr>st_pos := length pre\<rparr>\<rparr>) = Inr (True, ?h1)"
    using put_bytes_at [of "h\<lparr>hh_file := (hh_file h)\<lparr>st_pos := length pre\<rparr>\<rparr>" pre ?old "path @ ?l @ ?cs" ?new lim] w h(6) assms(2) by simp
  let ?h2 = "h\<lparr>hh_file := ?file (pre @ ?new @ path @ ?l @ ?cs) (length pre + 96 + length path)\<rparr>"
  have p2: "put_bytes lim (Inr path) ?h1 = Inr (True, ?h2)"
    using put_bytes_at [of ?h1 "pre @ ?new" path "?l @ ?cs" path lim] w h(6) assms(2) by simp
  let ?h3 = "h\<lparr>hh_file := ?file (pre @ ?new @ path @ ?l @ ?cs) (length pre + 96 + length path + length ?l)\<rparr>"
  have p3: "put_bytes lim (Inr ?l) ?h2 = Inr (True, ?h3)"
    using put_bytes_at [of ?h2 "pre @ ?new @ path" ?l ?cs ?l lim] w h(6) assms(2) by simp
  have n: "\<And>be n. file_header_bytes be n ?a = file_header_bytes be n (item_header path st target)"
    "unat (af_pathlen ?a) = length path" "peek 0 (length path) (af_path ?a) = Inr path" "unat (af_target_pathlen ?a) = length ?l"
    "S_ISLNK (sb_mode st) \<Longrightarrow> peek 0 (length target) (af_target_path ?a) = Inr target"
    using h(2) by (simp_all add: names_ok_def)
  have z: "af_target_pathlen ?a = 0 \<longleftrightarrow> ?l = []" using n(4) by (metis length_0_conv unat_eq_zero)
  have t: "peek 0 (length ?l) (af_target_path ?a) = Inr ?l" if "?l \<noteq> []" using that n(5) by (auto simp: link_bytes_def split: if_splits)
  have "finalize_file be lim h = Inr (True, ?h3\<lparr>hh_file := (hh_file ?h3)\<lparr>st_pos := st_pos (hh_file h)\<rparr>, hh_offset := st_pos (hh_file h)\<rparr>)"
  proof (cases "?l = []")
    case True
    then show ?thesis using h(4) p1 p2 by (simp add: finalize_file_def Let_def h(3,5) n(1-3) z)
  next
    case False
    then show ?thesis using h(4) p1 p2 p3 t by (simp add: finalize_file_def Let_def h(3,5) n(1-4) z)
  qed
  then show ?thesis using h(1) h(6) by (simp add: at_end_def item_bytes_def head_bytes_def)
qed

subsection \<open>Adding files and chunks\<close>

definition hdr_core :: "header \<Rightarrow> header" where   \<comment> \<open>without the counters that \<open>hashfile_add_chunk\<close> moves\<close>
  "hdr_core hdr = hdr\<lparr>hd_chunks := 0, hd_bytes := 0\<rparr>"

lemma hdr_coreD:
  assumes "hdr_core h1 = hdr_core h2"
  shows "hd_chnk_method h1 = hd_chnk_method h2" and "hash_bytes h1 = hash_bytes h2"
  using arg_cong [OF assms, of hd_chnk_method] arg_cong [OF assms, of hd_hash_size] by (simp_all add: hdr_core_def hash_bytes_def)

definition image :: "bool \<Rightarrow> byte list \<Rightarrow> 32 word \<Rightarrow> item list \<Rightarrow> byte list" where
  "image be hb m items = hb @ concat (map (item_bytes be m) items)"

lemma image_snoc: "image be hb m (items @ [it]) = image be hb m items @ item_bytes be m it"
  by (simp add: image_def)

definition written :: "bool \<Rightarrow> byte list \<Rightarrow> item list \<Rightarrow> hashfile_handle \<Rightarrow> bool" where
  "written be hb items h \<longleftrightarrow>
     at_end h \<and> hh_num_files h = of_nat (length items) \<and> length items < 2 ^ 64
     \<and> (if items = [] then st_file (hh_file h) = hb
        else in_file be (image be hb (hd_chnk_method (hh_header h)) (butlast items)) (last items) h)"

lemma written_length: "written be hb items h \<Longrightarrow> length (st_file (hh_file h)) = length (image be hb (hd_chnk_method (hh_header h)) items)"
  by (cases items rule: rev_cases)
    (auto simp: written_def in_file_def image_def item_bytes_def head_bytes_def split: prod.splits)

lemma written_finalize:
  assumes "written be hb items h" and "length (image be hb (hd_chnk_method (hh_header h)) items) \<le> lim"
  shows "\<exists>h'. finalize_file be lim h = Inr (True, h') \<and> at_end h' \<and> hh_header h' = hh_header h \<and> hh_num_files h' = hh_num_files h
    \<and> st_file (hh_file h') = image be hb (hd_chnk_method (hh_header h)) items"
proof (cases items rule: rev_cases)
  case Nil
  then show ?thesis using assms(1) by (simp add: written_def finalize_file_def image_def)
next
  case (snoc its it)
  obtain path st target cis where it: "it = (path, st, target, cis)" by (cases it)
  have f: "in_file be (image be hb (hd_chnk_method (hh_header h)) its) (path, st, target, cis) h"
    using assms(1) snoc it by (simp add: written_def)
  from finalize_file_ok [OF f] assms written_length [OF assms(1)] show ?thesis by (simp add: snoc image_snoc it)
qed

lemma add_file_ok:
  assumes "written be hb items h" and "path_ok path" and "path_ok target" and "Suc (length items) < 2 ^ 64"
    and "length (image be hb (hd_chnk_method (hh_header h)) (items @ [(path, st, target, [])])) \<le> lim"
  shows "\<exists>h'. hashfile_add_file be lim path st target h = Inr (True, h') \<and> written be hb (items @ [(path, st, target, [])]) h'
    \<and> hh_header h' = hh_header h"
proof -
  let ?m = "hd_chnk_method (hh_header h)" and ?head = "head_bytes be 0 path st target"
  have len: "length (image be hb ?m items) + length ?head \<le> lim" using assms(5) by (simp add: image_snoc item_bytes_def)
  obtain h1 where h1: "finalize_file be lim h = Inr (True, h1)" "at_end h1" "hh_header h1 = hh_header h" "hh_num_files h1 = of_nat (length items)"
    "st_file (hh_file h1) = image be hb ?m items"
    using written_finalize [OF assms(1), of lim] assms(1) len by (auto simp: written_def)
  obtain a where a: "new_current path st target (hh_current h1) = Inr a" "names_ok path st target a"
    using new_current_ok [OF assms(2,3)] by blast
  have n: "\<And>be n. file_header_bytes be n a = file_header_bytes be n (item_header path st target)" "af_perm a = sb_mode st"
    "unat (af_pathlen a) = length path" "peek 0 (length path) (af_path a) = Inr path" "unat (af_target_pathlen a) = length (link_bytes st target)"
    "S_ISLNK (sb_mode st) \<Longrightarrow> peek 0 (length target) (af_target_path a) = Inr target" "af_chunks a = 0"
    using a(2) by (simp_all add: names_ok_def)
  let ?h2 = "h1\<lparr>hh_num_files := hh_num_files h1 + 1, hh_num_hashes := 0, hh_current := a, hh_offset := st_pos (hh_file h1)\<rparr>"
  let ?fh = "file_header_bytes be 0 (item_header path st target)"
  have e: "at_end ?h2" "at_end (extend_file ?fh ?h2)" "at_end (extend_file path (extend_file ?fh ?h2))"
    using h1(2) by (simp_all add: at_end_def extend_file_def)
  have l: "length (image be hb ?m items) + (96 + (length path + length (link_bytes st target))) \<le> lim" using len by (simp add: head_bytes_def)
  let ?h3 = "extend_file (link_bytes st target) (extend_file path (extend_file ?fh ?h2))"
  have "start_file be lim path st target h1 = Inr (True, ?h3)"
  proof (cases "S_ISLNK (sb_mode st)")
    case True
    then show ?thesis using l h1(5) a(1) put_bytes_end [OF e(1), of ?fh lim] put_bytes_end [OF e(2), of path lim]
        put_bytes_end [OF e(3), of target lim]
      by (simp add: start_file_def n Let_def link_bytes_def)
  next
    case False
    have "extend_file [] h = h" for h :: hashfile_handle by (simp add: extend_file_def)
    then show ?thesis using False l h1(5) a(1) put_bytes_end [OF e(1), of ?fh lim] put_bytes_end [OF e(2), of path lim]
      by (simp add: start_file_def n Let_def link_bytes_def)
  qed
  moreover have "hh_omode h = WRITE" using assms(1) by (simp add: written_def at_end_def)
  ultimately have r: "hashfile_add_file be lim path st target h = Inr (True, ?h3)"
    by (simp add: hashfile_add_file_def do_add_file_def h1(1))
  have nz: "(of_nat (Suc (length items)) :: 64 word) \<noteq> 0" unfolding word_of_nat_eq_0_iff using assms(4) by (auto dest!: dvd_imp_le)
  have "st_pos (hh_file h1) = length (image be hb ?m items)" using h1(2,5) by (simp add: at_end_def)
  then have "written be hb (items @ [(path, st, target, [])]) ?h3"
    using assms(4) nz e h1(2-5) a(2) by (simp add: written_def in_file_def head_bytes_def add.commute) 
  with r h1(3) show ?thesis by auto
qed

lemma hashfile_add_chunk_ok:
  assumes "written be hb (items @ [(path, st, target, cis)]) h" and "length (ci_hash ci) = hash_bytes (hh_header h)"
    and "length (image be hb (hd_chnk_method (hh_header h)) (items @ [(path, st, target, cis @ [ci])])) \<le> lim"
  shows "\<exists>h'. hashfile_add_chunk be lim ci h = Inr (True, h') \<and> written be hb (items @ [(path, st, target, cis @ [ci])]) h'
    \<and> hdr_core (hh_header h') = hdr_core (hh_header h)"
proof -
  let ?m = "hd_chnk_method (hh_header h)" and ?b = "size_bytes be (hd_chnk_method (hh_header h)) (ci_size ci)"
  have w: "at_end h" "in_file be (image be hb ?m items) (path, st, target, cis) h" "hh_omode h = WRITE"
    using assms(1) by (simp_all add: written_def at_end_def)
  have "length (image be hb ?m (items @ [(path, st, target, cis)])) + length (chunk_bytes be ?m ci) \<le> lim"
    using assms(3) by (simp add: image_snoc item_bytes_def head_bytes_def)
  then have l: "length (st_file (hh_file h)) + (length ?b + (length (ci_hash ci) + 1)) \<le> lim"
    using written_length [OF assms(1)] by (simp add: chunk_bytes_def)
  have e: "at_end (extend_file ?b h)" "at_end (extend_file (ci_hash ci) (extend_file ?b h))" using w(1) by simp_all
  have z: "extend_file [] h = h" by (simp add: extend_file_def)
  have p: "peek 0 (hash_bytes (hh_header h)) (ci_hash ci) = Inr (ci_hash ci)" using assms(2) by (simp add: peek_def)
  have p1: "(if ?m = VARIABLE then put_bytes lim (Inr (take 4 (host_bytes be 8 (ci_size ci)))) h else Inr (True, h)) = Inr (True, extend_file ?b h)"
    using put_bytes_end [OF w(1), of ?b lim] l z by (cases "?m = VARIABLE") (simp_all add: size_bytes_def)
  have p2: "put_bytes lim (Inr (ci_hash ci)) (extend_file ?b h) = Inr (True, extend_file (ci_hash ci) (extend_file ?b h))"
    using put_bytes_end [OF e(1), of "ci_hash ci" lim] l by simp
  let ?h3 = "extend_file [ci_cratio ci] (extend_file (ci_hash ci) (extend_file ?b h))"
  have p3: "put_bytes lim (Inr [ci_cratio ci]) (extend_file (ci_hash ci) (extend_file ?b h)) = Inr (True, ?h3)"
    using put_bytes_end [OF e(2), of "[ci_cratio ci]" lim] l by simp
  let ?h4 = "?h3\<lparr>hh_num_hashes := hh_num_hashes h + 1,
    hh_header := (hh_header h)\<lparr>hd_chunks := hd_chunks (hh_header h) + 1, hd_bytes := hd_bytes (hh_header h) + ci_size ci\<rparr>\<rparr>"
  have "hashfile_add_chunk be lim ci h = Inr (True, ?h4)"
    unfolding hashfile_add_chunk_def by (simp add: w(3) p1 p p2 p3 Let_def)
  moreover have "written be hb (items @ [(path, st, target, cis @ [ci])]) ?h4"
    using assms(1) w(2) e by (simp add: written_def in_file_def at_end_def extend_file_def chunk_bytes_def add.commute)
  ultimately show ?thesis by (simp add: hdr_core_def)
qed

subsection \<open>A whole hash file\<close>

fun all_of :: "(hashfile_handle \<Rightarrow> (bool \<times> hashfile_handle) res) list \<Rightarrow> hashfile_handle \<Rightarrow> (bool \<times> hashfile_handle) res" where
  "all_of [] h = Inr (True, h)"
| "all_of (f # fs) h = and_then (f h) (all_of fs)"

definition write_item :: "bool \<Rightarrow> nat \<Rightarrow> item \<Rightarrow> hashfile_handle \<Rightarrow> (bool \<times> hashfile_handle) res" where
  "write_item be lim = (\<lambda>(path, st, target, cis) h.
     and_then (hashfile_add_file be lim path st target h) (all_of (map (hashfile_add_chunk be lim) cis)))"

definition set_params :: "bool \<Rightarrow> 32 word \<Rightarrow> byte list \<Rightarrow> hashfile_handle \<Rightarrow> hashfile_handle" where
  "set_params be cs params h =
     (if hd_chnk_method (hh_header h) = FIXED then snd (hashfile_set_fxd_chnking_params be cs h)
      else snd (hashfile_set_var_chnking_params params h))"

text \<open>How a program uses the library: it opens a new file, sets the parameters of its chunking method, adds the files with their
  chunks, and closes.\<close>

definition write_hashfile ::
  "bool \<Rightarrow> nat \<Rightarrow> hashfile_handle \<Rightarrow> byte list \<Rightarrow> 64 word \<Rightarrow> 32 word \<Rightarrow> 32 word \<Rightarrow> 32 word \<Rightarrow> byte list \<Rightarrow> 32 word \<Rightarrow> byte list \<Rightarrow>
   item list \<Rightarrow> 64 word option \<Rightarrow> byte list res" where
  "write_hashfile be lim h0 sys now cmeth hmeth hash_size root cs params items fin =
     (case hashfile_open4write be lim h0 False (Some sys) (Some now) cmeth hmeth hash_size root of
        None \<Rightarrow> Inl ExitFailure
      | Some h \<Rightarrow>
          rbind (all_of (map (write_item be lim) items) (set_params be cs params h)) (\<lambda>(ok, h).
            if ok then hashfile_close be lim fin h else Inl ExitFailure))"

lemma image_mono: "length (image be hb m items) \<le> length (image be hb m (items @ its))"
  by (simp add: image_def)

lemma add_chunks_ok:
  assumes "written be hb (items @ [(path, st, target, cis)]) h" and "list_all (\<lambda>ci. length (ci_hash ci) = hash_bytes (hh_header h)) cis'"
    and "length (image be hb (hd_chnk_method (hh_header h)) (items @ [(path, st, target, cis @ cis')])) \<le> lim"
  shows "\<exists>h'. all_of (map (hashfile_add_chunk be lim) cis') h = Inr (True, h') \<and> written be hb (items @ [(path, st, target, cis @ cis')]) h'
    \<and> hdr_core (hh_header h') = hdr_core (hh_header h)"
  using assms
proof (induction cis' arbitrary: cis h)
  case (Cons ci cis')
  have "length (image be hb (hd_chnk_method (hh_header h)) (items @ [(path, st, target, cis @ [ci])])) \<le> lim"
    using Cons.prems(3) by (simp add: image_snoc item_bytes_def head_bytes_def)
  then obtain h1 where h1: "hashfile_add_chunk be lim ci h = Inr (True, h1)" "written be hb (items @ [(path, st, target, cis @ [ci])]) h1"
    "hdr_core (hh_header h1) = hdr_core (hh_header h)"
    using hashfile_add_chunk_ok [OF Cons.prems(1), of ci lim] Cons.prems(2) by auto
  then show ?case using Cons.IH [OF h1(2)] Cons.prems(2,3) hdr_coreD [OF h1(3)] by simp
qed simp

lemma write_items_ok:
  assumes "written be hb its h" and "list_all (item_ok m cs (hash_bytes (hh_header h))) items" and "length (its @ items) < 2 ^ 64"
    and "length (image be hb (hd_chnk_method (hh_header h)) (its @ items)) \<le> lim"
  shows "\<exists>h'. all_of (map (write_item be lim) items) h = Inr (True, h') \<and> written be hb (its @ items) h'
    \<and> hdr_core (hh_header h') = hdr_core (hh_header h)"
  using assms
proof (induction items arbitrary: its h)
  case (Cons it items)
  obtain path st target cis where it: "it = (path, st, target, cis)" by (cases it)
  let ?m = "hd_chnk_method (hh_header h)"
  have ok: "path_ok path" "path_ok target" "list_all (\<lambda>ci. length (ci_hash ci) = hash_bytes (hh_header h)) cis"
    using Cons.prems(2) it by (simp_all add: item_ok_def)
  have l: "length (image be hb ?m (its @ [it])) \<le> lim"
    using image_mono [of be hb ?m "its @ [it]" items] Cons.prems(4) by simp
  then have "length (image be hb ?m (its @ [(path, st, target, [])])) \<le> lim"
    by (simp add: it image_snoc item_bytes_def head_bytes_def)
  then obtain h1 where h1: "hashfile_add_file be lim path st target h = Inr (True, h1)" "written be hb (its @ [(path, st, target, [])]) h1"
    "hh_header h1 = hh_header h"
    using add_file_ok [OF Cons.prems(1) ok(1,2)] Cons.prems(3) by auto
  obtain h2 where h2: "all_of (map (hashfile_add_chunk be lim) cis) h1 = Inr (True, h2)" "written be hb (its @ [it]) h2"
    "hdr_core (hh_header h2) = hdr_core (hh_header h)"
    using add_chunks_ok [OF h1(2), of cis lim] ok(3) l h1(3) it by auto
  then show ?case using Cons.IH [OF h2(2)] Cons.prems(2-4) hdr_coreD [OF h2(3)] h1(1) by (simp add: write_item_def it)
qed simp

lemma close_ok:
  assumes "written be hb items h" and "length hb = 8296" and "length (header_bytes be (hh_header h)) = 8296"
    and "length (hd_path_root (hh_header h)) = 4096" and "length (hd_params (hh_header h)) = 44" and "length (hd_sysid (hh_header h)) = 4096"
    and "length (image be hb (hd_chnk_method (hh_header h)) items) \<le> lim"
  shows "\<exists>hdr. hashfile_close be lim fin h = Inr (header_bytes be hdr @ concat (map (item_bytes be (hd_chnk_method (hh_header h))) items))
    \<and> hd_files hdr = of_nat (length items) \<and> hdr\<lparr>hd_files := 0, hd_end_time := 0\<rparr> = (hh_header h)\<lparr>hd_files := 0, hd_end_time := 0\<rparr>"
proof -
  obtain h1 where h1: "finalize_file be lim h = Inr (True, h1)" "at_end h1" "hh_header h1 = hh_header h" "hh_num_files h1 = of_nat (length items)"
    "st_file (hh_file h1) = image be hb (hd_chnk_method (hh_header h)) items"
    using written_finalize [OF assms(1,7)] assms(1) by (auto simp: written_def)
  let ?hdr = "(case fin of None \<Rightarrow> hh_header h | Some t \<Rightarrow> (hh_header h)\<lparr>hd_end_time := t\<rparr>)\<lparr>hd_files := of_nat (length items)\<rparr>"
  have l: "length (header_bytes be ?hdr) = 8296" using assms(4-6) by (intro length_header_bytes) (simp_all split: option.split)
  have w: "st_writable (hh_file h1)" using h1(2) by (simp add: at_end_def)
  have "8296 \<le> lim" using assms(2,7) by (simp add: image_def)
  then have "snd (fd_write lim (header_bytes be ?hdr) ((hh_file h1)\<lparr>st_pos := 0\<rparr>)) =
      (hh_file h1)\<lparr>st_file := header_bytes be ?hdr @ concat (map (item_bytes be (hd_chnk_method (hh_header h))) items), st_pos := 8296\<rparr>"
    using w l assms(2) f_write_at [of hb "header_bytes be ?hdr" _ "[]"] by (simp add: fd_write_def fwrite_def Let_def h1(5) image_def)
  moreover have "hh_omode h = WRITE" using assms(1) by (simp add: written_def at_end_def)
  ultimately have "hashfile_close be lim fin h = Inr (header_bytes be ?hdr @ concat (map (item_bytes be (hd_chnk_method (hh_header h))) items))"
    by (simp add: hashfile_close_def do_add_file_def h1(1,3,4) Let_def cong: option.case_cong)
  moreover have "hd_files ?hdr = of_nat (length items)" "?hdr\<lparr>hd_files := 0, hd_end_time := 0\<rparr> = (hh_header h)\<lparr>hd_files := 0, hd_end_time := 0\<rparr>"
    by (simp_all split: option.split)
  ultimately show ?thesis by blast
qed

subsection \<open>The round trip\<close>

definition hdr_fixed :: "header \<Rightarrow> header" where   \<comment> \<open>what does not change between opening and closing\<close>
  "hdr_fixed hdr = hdr\<lparr>hd_chunks := 0, hd_bytes := 0, hd_files := 0, hd_end_time := 0\<rparr>"

lemma hdr_fixedD:
  assumes "hdr_fixed a = hdr_fixed b"
  shows "hd_magic a = hd_magic b" "hd_version a = hd_version b" "hd_path_root a = hd_path_root b" "hd_params a = hd_params b"
    "hd_sysid a = hd_sysid b" "hd_hsh_method a = hd_hsh_method b" "hd_hash_size a = hd_hash_size b" "hd_chnk_method a = hd_chnk_method b"
  using assms by (cases a, cases b, simp add: hdr_fixed_def)+

lemma hdr_fixed_cong: "hdr_fixed a = hdr_fixed b \<Longrightarrow> file_header_ok be a = file_header_ok be b \<and> items_ok be a items = items_ok be b items"
  by (simp add: file_header_ok_def items_ok_def hash_bytes_def fixed_chunk_size_def hdr_fixedD [of a b])

lemma set_params_frame:
  "hh_file (set_params be cs params h) = hh_file h" "hh_omode (set_params be cs params h) = hh_omode h"
  "hh_num_files (set_params be cs params h) = hh_num_files h"
  by (simp_all add: set_params_def hashfile_set_fxd_chnking_params_def hashfile_set_var_chnking_params_def Let_def)

lemma set_params_header:
  assumes "hh_omode h = WRITE" and "hd_chnk_method (hh_header h) = FIXED \<or> hd_chnk_method (hh_header h) = VARIABLE"
  shows "hh_header (set_params be cs params h) =
    (hh_header h)\<lparr>hd_params := (if hd_chnk_method (hh_header h) = FIXED then host_bytes be 4 cs @ drop 4 (hd_params (hh_header h)) else params)\<rparr>"
  using assms by (auto simp: set_params_def hashfile_set_fxd_chnking_params_def hashfile_set_var_chnking_params_def Let_def)

lemma open_ok:
  assumes "length (hd_params (hh_header h0)) = 44" and "length (hd_sysid (hh_header h0)) = 4096" and "length params = 44"
    and "cmeth = FIXED \<or> cmeth = VARIABLE \<and> \<not> be \<and> (field be 0 4 params :: 32 word) \<in> {1, 2, 3}"
    and "hash_method_ok hmeth" and "unat (hash_size div 8) \<le> 20" and "8296 \<le> lim"
  shows "\<exists>h hb. hashfile_open4write be lim h0 False (Some sys) (Some now) cmeth hmeth hash_size root = Some h
    \<and> written be hb [] (set_params be cs params h) \<and> length hb = 8296 \<and> file_header_ok be (hh_header (set_params be cs params h))
    \<and> hd_chnk_method (hh_header (set_params be cs params h)) = cmeth \<and> hash_bytes (hh_header (set_params be cs params h)) = unat (hash_size div 8)
    \<and> (cmeth = FIXED \<longrightarrow> fixed_chunk_size be (hh_header (set_params be cs params h)) = cs)"
proof -
  let ?sys = "take (MAX_SYSID_LEN - 1) sys"
  let ?hdr = "(hh_header h0)\<lparr>hd_magic := HASH_FILE_MAGIC, hd_version := 7, hd_chnk_method := cmeth, hd_hsh_method := hmeth,
      hd_hash_size := hash_size, hd_chunks := 0, hd_files := 0, hd_bytes := 0, hd_path_root := strncpy MAX_PATH_SIZE root,
      hd_sysid := ?sys @ [0] @ drop (length ?sys + 1) (hd_sysid (hh_header h0)), hd_start_time := now\<rparr>"
  define hdr where "hdr = ?hdr"
  have l: "length (hd_path_root hdr) = 4096" "length (hd_params hdr) = 44" "length (hd_sysid hdr) = 4096"
    using assms(1,2) by (simp_all add: hdr_def strncpy_def cfg_simps)
  have f: "hd_magic hdr = HASH_FILE_MAGIC" "hd_version hdr = 7" "hd_hsh_method hdr = hmeth" "hd_hash_size hdr = hash_size" "hd_chnk_method hdr = cmeth"
    by (simp_all add: hdr_def)
  let ?hb = "header_bytes be hdr"
  have hb: "length ?hb = 8296" by (rule length_header_bytes [OF l])
  define h where "h = h0\<lparr>hh_omode := WRITE, hh_file := \<lparr>st_file = ?hb, st_pos = 8296, st_writable = True\<rparr>, hh_num_files := 0,
      hh_num_hashes := 0, hh_header := hdr\<rparr>"
  have g: "hh_omode h = WRITE" "hh_file h = \<lparr>st_file = ?hb, st_pos = 8296, st_writable = True\<rparr>" "hh_num_files h = 0" "hh_header h = hdr"
    by (simp_all add: h_def)
  have "fd_write lim ?hb \<lparr>st_file = [], st_pos = 0, st_writable = True\<rparr> = (8296, \<lparr>st_file = ?hb, st_pos = 8296, st_writable = True\<rparr>)"
    using hb assms(7) by (simp add: fd_write_def fwrite_def f_write_def Let_def)
  then have o: "hashfile_open4write be lim h0 False (Some sys) (Some now) cmeth hmeth hash_size root = Some h"
    by (simp add: hashfile_open4write_def Let_def header_v4_size_def h_def hdr_def)
  define hdr' where "hdr' = hdr\<lparr>hd_params := (if cmeth = FIXED then host_bytes be 4 cs @ drop 4 (hd_params hdr) else params)\<rparr>"
  have p: "hh_header (set_params be cs params h) = hdr'"
    using assms(4) g f(5) by (subst set_params_header) (auto simp: hdr'_def)
  have w: "written be ?hb [] (set_params be cs params h)" using hb by (simp add: written_def at_end_def set_params_frame g)
  have "file_header_ok be hdr'" using l assms(3-6) f by (auto simp: file_header_ok_def hash_bytes_def hdr'_def)
  moreover have "hd_chnk_method hdr' = cmeth" "hash_bytes hdr' = unat (hash_size div 8)" "cmeth = FIXED \<longrightarrow> fixed_chunk_size be hdr' = cs"
    by (simp_all add: hdr'_def f hash_bytes_def fixed_chunk_size_def field_here)
  ultimately show ?thesis using o hb w unfolding p [symmetric] by blast
qed

text \<open>C39: the hash file of a set of files, written through the library, is read back as the stream of these files: every path, and
  in order every chunk with its hash and its size. The files may be links, and the chunks of fixed or (on a little-endian host)
  of variable size.\<close>

theorem hashfile_roundtrip:
  assumes "length (hd_params (hh_header h0)) = 44" and "length (hd_sysid (hh_header h0)) = 4096" and "length params = 44"
    and "cmeth = FIXED \<or> cmeth = VARIABLE \<and> \<not> be \<and> (field be 0 4 params :: 32 word) \<in> {1, 2, 3}"
    and "hash_method_ok hmeth" and "unat (hash_size div 8) \<le> 20"
    and "list_all (item_ok cmeth cs (unat (hash_size div 8))) items" and "length items < 2 ^ 64"
    and "8296 + length (concat (map (item_bytes be cmeth) items)) \<le> lim" and "lim < 2 ^ 63"
  shows "\<exists>f. write_hashfile be lim h0 sys now cmeth hmeth hash_size root cs params items fin = Inr f
    \<and> read_fsl_trace ldf be h1 (Some f) = Inr (concat (map fsl_stream items))"
proof -
  have "8296 \<le> lim" using assms(9) by simp
  from open_ok [OF assms(1-6) this, of sys now root cs] obtain h hb where
    h: "hashfile_open4write be lim h0 False (Some sys) (Some now) cmeth hmeth hash_size root = Some h"
      "written be hb [] (set_params be cs params h)" "length hb = 8296" "file_header_ok be (hh_header (set_params be cs params h))"
      "hd_chnk_method (hh_header (set_params be cs params h)) = cmeth"
      "hash_bytes (hh_header (set_params be cs params h)) = unat (hash_size div 8)"
      "cmeth = FIXED \<longrightarrow> fixed_chunk_size be (hh_header (set_params be cs params h)) = cs" by blast
  let ?h = "set_params be cs params h"
  have im: "length (image be hb cmeth items) \<le> lim" using assms(9) h(3) by (simp add: image_def)
  obtain h2 where h2: "all_of (map (write_item be lim) items) ?h = Inr (True, h2)" "written be hb items h2"
    "hdr_core (hh_header h2) = hdr_core (hh_header ?h)"
    using write_items_ok [OF h(2), of cmeth cs items lim] assms(7,8) im h(5,6) by auto
  have fixed: "hdr_fixed (hh_header h2) = hdr_fixed (hh_header ?h)"
    using arg_cong [OF h2(3), of hdr_fixed] by (simp add: hdr_core_def hdr_fixed_def)
  then have ok2: "file_header_ok be (hh_header h2)" "hd_chnk_method (hh_header h2) = cmeth"
    using hdr_fixed_cong [OF fixed, of be "[]"] hdr_fixedD(8) [OF fixed] h(4,5) by simp_all
  then have l: "length (hd_path_root (hh_header h2)) = 4096" "length (hd_params (hh_header h2)) = 44" "length (hd_sysid (hh_header h2)) = 4096"
    by (simp_all add: file_header_ok_def)
  obtain hdr where hdr: "hashfile_close be lim fin h2 = Inr (header_bytes be hdr @ concat (map (item_bytes be cmeth) items))"
    "hd_files hdr = of_nat (length items)" "hdr\<lparr>hd_files := 0, hd_end_time := 0\<rparr> = (hh_header h2)\<lparr>hd_files := 0, hd_end_time := 0\<rparr>"
    using close_ok [OF h2(2) h(3) length_header_bytes [OF l] l] im ok2(2) by auto
  have fix2: "hdr_fixed hdr = hdr_fixed (hh_header ?h)"
    using arg_cong [OF hdr(3), of hdr_fixed] fixed by (simp add: hdr_fixed_def)
  have items: "items_ok be (hh_header ?h) items"
    using assms(7) h(7) unfolding items_ok_def h(5,6) by (auto simp: item_ok_def list_all_iff)
  note r = hdr_fixed_cong [OF fix2, of be items] hdr_fixedD(8) [OF fix2]
  have "length (header_bytes be hdr) = 8296"
    using r h(4) by (intro length_header_bytes) (simp_all add: file_header_ok_def)
  then have "read_fsl_trace ldf be h1 (Some (header_bytes be hdr @ concat (map (item_bytes be cmeth) items))) = Inr (concat (map fsl_stream items))"
    using read_hashfile_ok [of be hdr items _ ldf h1] r h(4,5) hdr(2) assms(8-10) items by simp
  then show ?thesis using h(1) h2(1) hdr(1) by (simp add: write_hashfile_def)
qed

definition demo_handle :: hashfile_handle where
  "demo_handle =
     \<lparr>hh_file = \<lparr>st_file = [], st_pos = 0, st_writable = False\<rparr>, hh_omode = READ,
      hh_header = \<lparr>hd_magic = 0, hd_version = 0, hd_files = 0, hd_path_root = replicate 4096 0, hd_chunks = 0, hd_chnk_method = 0,
        hd_params = replicate 44 0, hd_hsh_method = 0, hd_hash_size = 0, hd_sysid = replicate 4096 0, hd_start_time = 0, hd_end_time = 0,
        hd_bytes = 0\<rparr>,
      hh_current = item_header [] \<lparr>sb_size = 0, sb_blocks = 0, sb_uid = 0, sb_gid = 0, sb_mode = 0, sb_atime = 0, sb_mtime = 0,
        sb_ctime = 0, sb_nlink = 0, sb_dev = 0, sb_ino = 0\<rparr> [],
      hh_offset = 0, hh_chunk = \<lparr>ci_hash = [], ci_size = 0, ci_cratio = 0\<rparr>, hh_num_files = 0, hh_num_hashes = 0\<rparr>"

definition demo_items :: "item list" where
  "demo_items =
     [([97], \<lparr>sb_size = 6, sb_blocks = 8, sb_uid = 0, sb_gid = 0, sb_mode = 0x81A4, sb_atime = 0, sb_mtime = 0,
        sb_ctime = 0, sb_nlink = 1, sb_dev = 0, sb_ino = 7\<rparr>, [],
        [\<lparr>ci_hash = replicate 20 1, ci_size = 4, ci_cratio = 0\<rparr>, \<lparr>ci_hash = replicate 20 2, ci_size = 2, ci_cratio = 0\<rparr>])]"

lemma hashfile_roundtrip_witness:
  "\<exists>f. write_hashfile False 100000 demo_handle [120] 5 FIXED SHA1_HASH 160 [47] 4 (replicate 44 0) demo_items (Some 6) = Inr f
    \<and> read_fsl_trace (\<lambda>b. b) False demo_handle (Some f) = Inr (concat (map fsl_stream demo_items))"
proof (rule hashfile_roundtrip)
  show "list_all (item_ok FIXED 4 (unat (160 div 8 :: 32 word))) demo_items"
    by (simp add: demo_items_def item_ok_def path_ok_def cfg_simps)
  show "8296 + length (concat (map (item_bytes False FIXED) demo_items)) \<le> 100000"
    by (simp add: demo_items_def item_bytes_def head_bytes_def link_bytes_def S_ISLNK_def chunk_bytes_def size_bytes_def cfg_simps)
qed (simp_all add: demo_handle_def demo_items_def hash_method_ok_def)

end
