(* ===== verification/Gc_Alone.thy ===== *)
theory Gc_Alone
  imports Gc_Rtm
begin

text \<open>
  The collector for a single version, \<open>gc_reference_time_map_alone\<close> of \<open>gc.c\<close>. It takes the entries whose last reference is
  exactly the version, in the containers that no version up to it marks in the merged bit table. (\<open>gc_reference_time_map\<close>
  has \<open>deletway\<close> fixed to the collector of \<open>Gc_Rtm\<close>, which takes all versions up to the given one.)

  \<open>g_int_hash\<close> and \<open>g_int_equal\<close> read an \<open>int\<close> at the address of the 64-bit \<open>id\<close>. The bounds of the loop are taken not to
  overflow: a table of 1024 words ends long before.
\<close>

subsection \<open>Operations\<close>

definition int_at :: "bool \<Rightarrow> int \<Rightarrow> int" where
  "int_at be x = sint (i32 (if be then drop_bit 32 x else x))"

fun used_ids :: "32 word list \<Rightarrow> nat \<Rightarrow> int \<Rightarrow> int list \<Rightarrow> int list res" where
  "used_ids arr 0 i ids = Inr ids"
| "used_ids arr (Suc k) i ids =
     rbind (get_CBT_array i arr) (\<lambda>a. rbind (if a then Inr True else get_CBT_array (i + 1) arr) (\<lambda>b.
       used_ids arr k (i + 2) (if b then List.insert ((i - 33) div 2) ids else ids)))"

fun alone_entry :: "int \<Rightarrow> int list \<Rightarrow> int \<Rightarrow> int \<times> int list" where
  "alone_entry dv [] gc = (gc, [])"
| "alone_entry dv (x # xs) gc =
     (if x = dv then (let (gc, ys) = alone_entry dv xs (gc + 1) in (gc, x # ys))
      else (let (gc, ys) = alone_entry dv xs gc in (gc, 0 # ys)))"

fun alone_list :: "bool \<Rightarrow> int list \<Rightarrow> int \<Rightarrow> RTMdata list \<Rightarrow> int \<Rightarrow> int" where
  "alone_list be ids dv [] gc = gc"
| "alone_list be ids dv (d # ds) gc =
     alone_list be ids dv ds
       (if int_at be (rtm_id d) \<in> set ids then gc else fst (alone_entry dv (take (nat (rtm_len d)) (rtm_rtm d)) gc))"

definition gc_reference_time_map_alone ::
  "bool \<Rightarrow> int \<Rightarrow> byte list option \<Rightarrow> byte list \<Rightarrow> byte list option \<Rightarrow> int \<Rightarrow> int \<Rightarrow> rtm_state \<Rightarrow> (int \<times> rtm_state) res option" where
  "gc_reference_time_map_alone be ptr ccef cbtf rtmf deleteversion gc_count s =
     (let n = get_container_bit_end be ptr ccef in
      case get_merge_container_bit_table be cbtf n deleteversion of
        Inl e \<Rightarrow> Some (Inl e)
      | Inr arr \<Rightarrow>
          map_option (\<lambda>r. rbind r (\<lambda>(_, s).
            rbind (if deleteversion = 0 then Inr [] else used_ids arr (nat n) 33 []) (\<lambda>ids.
              Inr (alone_list be ids deleteversion (RTMhead s) gc_count, s\<lparr>RTMhead := []\<rparr>))))
            (get_real_reference_time_map be ptr ccef cbtf rtmf 1 s))"

definition get_delete_message :: "int \<Rightarrow> int" where   \<comment> \<open>the size it prints, in MB\<close>
  "get_delete_message gc_count = gc_count * 4 div 1024"

subsection \<open>What is collected\<close>

lemma first_or_later:
  fixes a :: int
  shows "{a + j | j. 0 \<le> j \<and> j < int (Suc k) \<and> P j} = (if P 0 then {a} else {}) \<union> {a + 1 + j | j. 0 \<le> j \<and> j < int k \<and> P (1 + j)}"
    (is "?l = ?r1 \<union> ?r2")
proof
  show "?l \<subseteq> ?r1 \<union> ?r2"
  proof
    fix x assume "x \<in> ?l"
    then obtain j where j: "x = a + j" "0 \<le> j" "j < int (Suc k)" "P j" by blast
    then show "x \<in> ?r1 \<union> ?r2" by (cases "j = 0") (auto intro!: exI [of _ "j - 1"])
  qed
  have "\<exists>j'. a + 1 + j = a + j' \<and> 0 \<le> j' \<and> j' < int (Suc k) \<and> P j'" if "0 \<le> j" "j < int k" "P (1 + j)" for j
    using that by (intro exI [of _ "1 + j"]) auto
  then show "?r1 \<union> ?r2 \<subseteq> ?l" by (auto split: if_splits)
qed

lemma used_ids_ok:
  assumes "33 \<le> i" and "i + 2 * int k \<le> 32 * int (length arr) + 1"
  shows "\<exists>ids'. used_ids arr k i ids = Inr ids' \<and>
    set ids' = set ids \<union> {(i - 33) div 2 + j | j. 0 \<le> j \<and> j < int k \<and> (cbt_at arr (i + 2 * j) \<or> cbt_at arr (i + 2 * j + 1))}"
  using assms
proof (induction k arbitrary: i ids)
  case (Suc k)
  let ?ids = "if cbt_at arr i \<or> cbt_at arr (i + 1) then List.insert ((i - 33) div 2) ids else ids"
  have "get_CBT_array i arr = Inr (cbt_at arr i)" "get_CBT_array (i + 1) arr = Inr (cbt_at arr (i + 1))"
    using Suc.prems by (simp_all add: get_CBT_at)
  then have step: "used_ids arr (Suc k) i ids = used_ids arr k (i + 2) ?ids" by simp
  from Suc.IH [of "i + 2" ?ids] Suc.prems obtain ids' where ids': "used_ids arr k (i + 2) ?ids = Inr ids'"
    "set ids' = set ?ids \<union> {(i + 2 - 33) div 2 + j | j. 0 \<le> j \<and> j < int k \<and> (cbt_at arr (i + 2 + 2 * j) \<or> cbt_at arr (i + 2 + 2 * j + 1))}"
    by auto
  have "(i + 2 - 33) div 2 = (i - 33) div 2 + 1" "i + 2 + 2 * j = i + 2 * (1 + j)" for j by simp_all
  with ids' step first_or_later [of "(i - 33) div 2" k "\<lambda>j. cbt_at arr (i + 2 * j) \<or> cbt_at arr (i + 2 * j + 1)"]
  show ?case by auto
qed auto

lemma alone_entry_count: "fst (alone_entry dv xs gc) = gc + int (length (filter (\<lambda>x. x = dv) xs))"
  by (induction xs arbitrary: gc) (simp_all add: case_prod_beta)

lemma alone_list_count:
  "alone_list be ids dv ds gc = gc + (\<Sum>d\<leftarrow>filter (\<lambda>d. int_at be (rtm_id d) \<notin> set ids) ds.
     int (length (filter (\<lambda>x. x = dv) (take (nat (rtm_len d)) (rtm_rtm d)))))"
  by (induction ds arbitrary: gc) (auto simp: alone_entry_count)

text \<open>The collector of one version takes no entry that the collector of all versions up to it would leave.\<close>

lemma alone_le_patch: "alone_list be ids dv ds gc \<le> patch_list dv ds gc"
proof -
  have le: "length (filter (\<lambda>x. x = dv) xs) \<le> length (filter (\<lambda>x. x \<le> dv) xs)" for xs :: "int list"
    by (induction xs) auto
  have "(\<Sum>d\<leftarrow>filter (\<lambda>d. int_at be (rtm_id d) \<notin> set ids) ds. int (length (filter (\<lambda>x. x = dv) (take (nat (rtm_len d)) (rtm_rtm d)))))
      \<le> (\<Sum>d\<leftarrow>ds. int (length (filter (\<lambda>x. x \<le> dv) (take (nat (rtm_len d)) (rtm_rtm d)))))"
  proof (induction ds)
    case (Cons d ds)
    then show ?case using le [of "take (nat (rtm_len d)) (rtm_rtm d)"] by auto
  qed simp
  then show ?thesis by (simp add: alone_list_count patch_list_count)
qed

end
