(* ===== verification/Destor_Main.thy ===== *)
theory Destor_Main
  imports Backup_Job Delete_Job Har
begin

text \<open>
  \<open>main\<close> of \<open>destor.c\<close>: the options, the job they ask for, and the deletion of an old job that follows a backup; and
  what that makes of the manifest over a series of backups.

  \<open>getopt_long\<close> is an argument: the list of the options it finds with their arguments, and the first argument that is
  not an option. \<open>usage\<close> and \<open>destor_stat\<close> print and exit with 0.
\<close>

subsection \<open>The command line\<close>

datatype job = DESTOR_BACKUP | DESTOR_RESTORE | DESTOR_MAKE_TRACE | DESTOR_GARBAGE_COLLECTION

record command =
  cm_job :: job
  cm_revision :: int
  cm_deleteversion :: int
  cm_destor :: destor

datatype request =
  Backup sds | Restore_To int "sds option" | Make_Trace sds | Collect int | Usage | Stat | Nothing

definition main_start :: "destor \<Rightarrow> command" where
  "main_start d = \<lparr>cm_job = DESTOR_BACKUP, cm_revision = -1, cm_deleteversion = -1, cm_destor = d\<rparr>"

definition main_option ::
  "(byte list \<Rightarrow> real) \<Rightarrow> (nat \<Rightarrow> byte) \<Rightarrow> byte \<Rightarrow> byte list option \<Rightarrow> command \<Rightarrow> (command + request) res" where
  "main_option atof g opt arg c =
     (let int_arg = (\<lambda>f. case arg of None \<Rightarrow> Inl NullDeref | Some a \<Rightarrow> Inr (Inl (f (c_atoi a)))) in
      if opt = 114 then int_arg (\<lambda>n. c\<lparr>cm_job := DESTOR_RESTORE, cm_revision := n\<rparr>)
      else if opt = 115 then Inr (Inr Stat)
      else if opt = 116 then Inr (Inl (c\<lparr>cm_job := DESTOR_MAKE_TRACE\<rparr>))
      else if opt = 104 then Inr (Inr Usage)
      else if opt = 112 then
        rbind (sdsnew arg) (\<lambda>param. rbind (load_config_from_string atof g param (cm_destor c)) (\<lambda>d. Inr (Inl (c\<lparr>cm_destor := d\<rparr>))))
      else if opt = 103 then int_arg (\<lambda>n. c\<lparr>cm_job := DESTOR_GARBAGE_COLLECTION, cm_deleteversion := n\<rparr>)
      else Inr (Inr Nothing))"

fun main_options ::
  "(byte list \<Rightarrow> real) \<Rightarrow> (nat \<Rightarrow> byte) \<Rightarrow> (byte \<times> byte list option) list \<Rightarrow> command \<Rightarrow> (command + request) res" where
  "main_options atof g [] c = Inr (Inl c)"
| "main_options atof g ((opt, arg) # opts) c =
     rbind (main_option atof g opt arg c) (\<lambda>r. case r of Inl c \<Rightarrow> main_options atof g opts c | Inr q \<Rightarrow> Inr (Inr q))"

definition main_request :: "byte list option \<Rightarrow> command \<Rightarrow> request res" where   \<comment> \<open>\<open>argv[optind]\<close>\<close>
  "main_request arg c =
     (case cm_job c of
        DESTOR_BACKUP \<Rightarrow> (case arg of None \<Rightarrow> Inr Usage | Some a \<Rightarrow> rbind (sdsnew (Some a)) (\<lambda>p. Inr (Backup p)))
      | DESTOR_RESTORE \<Rightarrow>
          if cm_revision c < 0 then Inr Usage
          else
            (case arg of None \<Rightarrow> Inr Usage | Some a \<Rightarrow>
               rbind (sdsnew (Some a)) (\<lambda>p. rbind (peek 0 1 (sd_buf p)) (\<lambda>b.
                 Inr (Restore_To (cm_revision c) (if b = [0] then None else Some p)))))
      | DESTOR_MAKE_TRACE \<Rightarrow> (case arg of None \<Rightarrow> Inr Usage | Some a \<Rightarrow> rbind (sdsnew (Some a)) (\<lambda>p. Inr (Make_Trace p)))
      | DESTOR_GARBAGE_COLLECTION \<Rightarrow> Inr (Collect (cm_deleteversion c)))"

definition main_args ::
  "(byte list \<Rightarrow> real) \<Rightarrow> (nat \<Rightarrow> byte) \<Rightarrow> (byte \<times> byte list option) list \<Rightarrow> byte list option \<Rightarrow> destor \<Rightarrow> (request \<times> destor) res" where
  "main_args atof g opts arg d =
     rbind (main_options atof g opts (main_start d)) (\<lambda>r.
       case r of
         Inr q \<Rightarrow> Inr (q, d)
       | Inl c \<Rightarrow> rbind (main_request arg c) (\<lambda>q. Inr (q, cm_destor c)))"

text \<open>The job that is deleted after the backup \<open>job\<close>.\<close>

definition after_backup :: "destor \<Rightarrow> int \<Rightarrow> int option" where
  "after_backup d job =
     (if ds_backup_retention_time d \<ge> 0 \<and> job \<ge> ds_backup_retention_time d then Some (job - ds_backup_retention_time d) else None)"

subsection \<open>Retention\<close>

text \<open>A series of backups with the deletions that follow them. \<open>runs d us f\<close>: job \<open>j\<close> has used the containers \<open>us ! j\<close>, those its
  monitor holds when \<open>close_har\<close> runs, and \<open>f\<close> is the manifest. What the jobs do besides is not restricted.\<close>

inductive runs :: "destor \<Rightarrow> containerid list list \<Rightarrow> byte list option \<Rightarrow> bool" for d where
  start: "runs d [] None"
| backup: "runs d us f \<Longrightarrow> iter_ok iter \<Longrightarrow> close_har h iter True (int (length us)) inherited monitor f = Inr r \<Longrightarrow>
    after_backup d (int (length us)) = None \<Longrightarrow> runs d (us @ [map fst monitor]) (Some (hr_manifest r))"
| backup_delete: "runs d us f \<Longrightarrow> iter_ok iter \<Longrightarrow> close_har h iter True (int (length us)) inherited monitor f = Inr r \<Longrightarrow>
    after_backup d (int (length us)) = Some j \<Longrightarrow> iter_ok (de_citer e) \<Longrightarrow>
    do_delete e cfg j (Some (hr_manifest r)) s = Some (Inr q) \<Longrightarrow> runs d (us @ [map fst monitor]) (Some (dl_manifest q))"

definition last_use :: "containerid list list \<Rightarrow> containerid \<Rightarrow> int \<Rightarrow> bool" where
  "last_use us c t \<longleftrightarrow> 0 \<le> t \<and> t < int (length us) \<and> c \<in> set (us ! nat t) \<and> (\<forall>j<length us. t < int j \<longrightarrow> c \<notin> set (us ! j))"

definition kept :: "destor \<Rightarrow> containerid list list \<Rightarrow> (containerid \<rightharpoonup> int) \<Rightarrow> bool" where
  "kept d us m \<longleftrightarrow>
     (\<forall>c t. m c = Some t \<longleftrightarrow>
       last_use us c t \<and> (ds_backup_retention_time d < 0 \<or> int (length us) - ds_backup_retention_time d \<le> t))"

lemma last_use_snoc:
  "last_use (us @ [ids]) c t \<longleftrightarrow> (if c \<in> set ids then t = int (length us) else last_use us c t)"
proof -
  have nth: "j < length us \<Longrightarrow> (us @ [ids]) ! j = us ! j" for j by (simp add: nth_append)
  show ?thesis
  proof (cases "t = int (length us)")
    case True
    then show ?thesis by (auto simp: last_use_def)
  next
    case False
    then have "last_use (us @ [ids]) c t \<longleftrightarrow> 0 \<le> t \<and> t < int (length us) \<and> c \<in> set (us ! nat t) \<and>
        (\<forall>j<length us. t < int j \<longrightarrow> c \<notin> set (us ! j)) \<and> c \<notin> set ids"
      by (auto simp: last_use_def nth_append less_Suc_eq all_conj_distrib)
    then show ?thesis using False by (auto simp: last_use_def)
  qed
qed

lemma close_har_manifest:
  assumes "close_har h iter True job inherited monitor f = Inr r" and "iter_ok iter" and "manifest_rep f m"
  shows "manifest_rep (Some (hr_manifest r)) (\<lambda>c. if c \<in> fst ` set monitor then Some job else m c)"
proof -
  obtain live where u: "update_manifest iter True job (map fst (iter monitor)) f = Inr (hr_manifest r, live)"
    using assms(1) by (auto simp: close_har_def Let_def rbind_Inr_iff)
  have "set (map fst (iter monitor)) = fst ` set monitor" by (simp add: iter_ok_set [OF assms(2)])
  with update_manifest_ok [OF assms(3,2), of job "map fst (iter monitor)"] u show ?thesis by auto
qed

lemma do_delete_manifest:
  assumes "do_delete e cfg j (Some f) s = Some (Inr q)" and "iter_ok (de_citer e)" and "manifest_rep (Some f) m"
  shows "manifest_rep (Some (dl_manifest q)) (\<lambda>c. case m c of None \<Rightarrow> None | Some t \<Rightarrow> if j < t then Some t else None)"
proof -
  obtain dead live where "trunc_manifest (de_citer e) True j (Some f) = Inr (dead, dl_manifest q, live)"
    using assms(1) by (auto simp: do_delete_def rbind_Inr_iff split: sum.splits)
  with trunc_manifest_ok [OF assms(3,2), of j] show ?thesis by auto
qed

lemma kept_backup:
  assumes "kept d us m" and "ds_backup_retention_time d < 0 \<or> int (length us) < ds_backup_retention_time d"
  shows "kept d (us @ [ids]) (\<lambda>c. if c \<in> set ids then Some (int (length us)) else m c)"
  unfolding kept_def last_use_snoc
proof (intro allI)
  fix c t
  have "last_use us c t \<Longrightarrow> 0 \<le> t" by (simp add: last_use_def)
  then have "m c = Some t \<longleftrightarrow> last_use us c t" using assms by (auto simp: kept_def)
  moreover have "last_use us c t \<or> t = int (length us) \<Longrightarrow>
      ds_backup_retention_time d < 0 \<or> int (length (us @ [ids])) - ds_backup_retention_time d \<le> t"
    using assms(2) by (auto simp: last_use_def)
  ultimately show "((if c \<in> set ids then Some (int (length us)) else m c) = Some t) =
      ((if c \<in> set ids then t = int (length us) else last_use us c t) \<and>
       (ds_backup_retention_time d < 0 \<or> int (length (us @ [ids])) - ds_backup_retention_time d \<le> t))"
    by auto
qed

lemma kept_delete:
  assumes "kept d us m" and "j = int (length us) - ds_backup_retention_time d" and "0 \<le> ds_backup_retention_time d"
  shows "kept d (us @ [ids])
    (\<lambda>c. case if c \<in> set ids then Some (int (length us)) else m c of None \<Rightarrow> None | Some t \<Rightarrow> if j < t then Some t else None)"
    (is "kept d _ ?m'")
  unfolding kept_def last_use_snoc
proof (intro allI)
  fix c t
  have "?m' c = Some t \<longleftrightarrow> (if c \<in> set ids then Some (int (length us)) else m c) = Some t \<and> j < t"
    by (cases "if c \<in> set ids then Some (int (length us)) else m c") auto
  moreover have "m c = Some t \<longleftrightarrow> last_use us c t \<and> j \<le> t" using assms by (auto simp: kept_def)
  moreover have "ds_backup_retention_time d < 0 \<or> int (length (us @ [ids])) - ds_backup_retention_time d \<le> t \<longleftrightarrow> j < t"
    using assms(2,3) by auto
  ultimately show "(?m' c = Some t) = ((if c \<in> set ids then t = int (length us) else last_use us c t) \<and>
      (ds_backup_retention_time d < 0 \<or> int (length (us @ [ids])) - ds_backup_retention_time d \<le> t))"
    by auto
qed

text \<open>C6: retention. After any series of backups, each followed by the deletion that \<open>main\<close> starts, the manifest holds exactly the
  containers used by one of the last \<open>r\<close> jobs (all of them when \<open>r\<close> is negative), each with the last job that used it:
  nothing a retained job needs is given up, and nothing is kept for the sake of the jobs that are deleted.\<close>

theorem retention:
  assumes "runs d us f"
  shows "\<exists>m. manifest_rep f m \<and> kept d us m"
  using assms
proof induction
  case start
  have "manifest_rep None Map.empty \<and> kept d [] Map.empty" by (simp add: manifest_rep_def kept_def last_use_def)
  then show ?case by blast
next
  case (backup us f iter h inherited monitor r)
  then obtain m where m: "manifest_rep f m" "kept d us m" by blast
  have "ds_backup_retention_time d < 0 \<or> int (length us) < ds_backup_retention_time d"
    using backup.hyps(4) by (auto simp: after_backup_def split: if_splits)
  from kept_backup [OF m(2) this, of "map fst monitor"] close_har_manifest [OF backup.hyps(3,2) m(1)] show ?case by auto
next
  case (backup_delete us f iter h inherited monitor r j e cfg s q)
  then obtain m where m: "manifest_rep f m" "kept d us m" by blast
  have j: "j = int (length us) - ds_backup_retention_time d" "0 \<le> ds_backup_retention_time d"
    using backup_delete.hyps(4) by (auto simp: after_backup_def split: if_splits)
  from kept_delete [OF m(2) j, of "map fst monitor"] do_delete_manifest [OF backup_delete.hyps(6,5) close_har_manifest [OF backup_delete.hyps(3,2) m(1)]]
  show ?case by (intro exI conjI) auto
qed

lemma close_har_ok:
  assumes "har_limit g = 1" and "manifest_rep f m"
  shows "\<exists>r. close_har g (\<lambda>t. t) True job inherited monitor f = Inr r"
proof -
  have "trim_sparse g tot sparse rs = Inr rs" for tot sparse rs using assms(1) by (subst trim_sparse.simps) simp
  with update_manifest_ok [OF assms(2) iter_ok_id, of job "map fst monitor"] show ?thesis by (auto simp: close_har_def Let_def)
qed

theorem retention_witness:
  "\<exists>d f m. ds_backup_retention_time d = 1 \<and> runs d [[5], [5]] (Some f) \<and> manifest_rep (Some f) m \<and> m 5 = Some 1"
proof -
  let ?d = "(destor_defaults (sds_of []))\<lparr>ds_backup_retention_time := 1\<rparr>"
  let ?h = "\<lparr>har_threshold = 1 / 2, har_limit = 1, har_dquot = (\<lambda>a b. 0)\<rparr>"
  let ?e = "\<lparr>de_be = False, de_sim = 3, de_iter = (\<lambda>t. t), de_citer = (\<lambda>t. t), de_diter = (\<lambda>t. t), de_siter = (\<lambda>t. t), de_pool = [],
    de_dir = [0 \<mapsto> (replicate 28 0, [], [])], de_junk = \<lparr>cp_fp = [], cp_id = 0, cp_size = 0\<rparr>, de_access = TEMPORARY_ID\<rparr>"
  have none: "manifest_rep None Map.empty" by (simp add: manifest_rep_def)
  have h: "har_limit ?h = 1" by simp
  obtain r0 where r0: "close_har ?h (\<lambda>t. t) True (int (length ([] :: containerid list list))) [] [(5, 100)] None = Inr r0"
    using close_har_ok [OF h none] by blast
  have "after_backup ?d (int (length ([] :: containerid list list))) = None" by (simp add: after_backup_def)
  from runs.backup [OF runs.start iter_ok_id r0 this] have s0: "runs ?d [[5]] (Some (hr_manifest r0))" by simp
  note m0 = close_har_manifest [OF r0 iter_ok_id none]
  obtain r1 where r1: "close_har ?h (\<lambda>t. t) True (int (length [[5 :: containerid]])) [] [(5, 100)] (Some (hr_manifest r0)) = Inr r1"
    using close_har_ok [OF h m0] by blast
  note m1 = close_har_manifest [OF r1 iter_ok_id m0]
  obtain dead f' live where t: "trunc_manifest (\<lambda>t. t) True 0 (Some (hr_manifest r1)) = Inr (dead, f', live)" "fst ` set dead = {}"
    using trunc_manifest_ok [OF m1 iter_ok_id, of 0] by (auto split: if_splits)
  from opens_empty_version obtain bv where "open_backup_version (de_be ?e) (cp_id (de_junk ?e)) (de_dir ?e) 0 = Inr bv" by auto
  with t obtain q where q: "do_delete ?e ddfs_cfg 0 (Some (hr_manifest r1)) undefined = Some (Inr q)"
    using delete_nothing [of 0 "hr_manifest r1" f' live ?e ddfs_cfg bv] by (auto simp: ddfs_cfg_def)
  have a: "after_backup ?d (int (length [[5 :: containerid]])) = Some 0" and i: "iter_ok (de_citer ?e)"
    by (simp_all add: after_backup_def iter_ok_id)
  from runs.backup_delete [OF s0 iter_ok_id r1 a i q] have s1: "runs ?d [[5], [5]] (Some (dl_manifest q))" by simp
  from retention [OF this] obtain m where m: "manifest_rep (Some (dl_manifest q)) m" "kept ?d [[5], [5]] m" by blast
  have "last_use [[5], [5]] 5 1" by (auto simp: last_use_def)
  then have "m 5 = Some 1" using m(2) by (simp add: kept_def)
  then show ?thesis using s1 m(1) by (intro exI [of _ ?d] exI [of _ "dl_manifest q"] exI [of _ m] conjI) simp_all
qed

end
